(* ===== verification/Prelude.thy ===== *)
theory Prelude
  imports Main "HOL-Library.Word" "HOL-Library.Monad_Syntax"
begin

text \<open>
  Vocabulary shared by every component: C strings, error numbers, the results of memory
  allocation, and generic lemmas on lists and options.  No component state lives here.

  Conventions of the whole library:
  \<^item> a C string is a HOL \<open>string\<close> without its terminating NUL; reading at the end yields NUL;
  \<^item> a function that returns a negative error number returns it as an \<open>int\<close>;
  \<^item> a failed \<open>assert\<close> or an explicit \<open>abort()\<close> is the value \<open>None\<close> of an outer \<open>option\<close>;
  \<^item> memory allocation may fail: a component that allocates carries the list of the answers its
    next allocations will get (\<open>alloc_next\<close>), an exhausted list meaning that they succeed.
\<close>

named_theorems model_defs \<open>definitions unfolded when a component is executed\<close>
named_theorems frame_simps \<open>fields an operation leaves unchanged\<close>

section \<open>C strings\<close>

abbreviation NUL :: char where
  "NUL \<equiv> CHR 0x00"

definition char_at :: "string \<Rightarrow> nat \<Rightarrow> char" where
  "char_at s i = (if i < length s then s ! i else NUL)"

definition c_str :: "string \<Rightarrow> bool" where
  "c_str s \<longleftrightarrow> NUL \<notin> set s"

definition cstr_of_buf :: "string \<Rightarrow> string" where
  "cstr_of_buf buf = takeWhile (\<lambda>c. c \<noteq> NUL) buf"

fun strchr :: "string \<Rightarrow> char \<Rightarrow> nat option" where
  "strchr [] c = None"
| "strchr (x # xs) c = (if x = c then Some 0 else map_option Suc (strchr xs c))"

definition strprefix :: "string \<Rightarrow> string \<Rightarrow> nat \<Rightarrow> bool" where
  \<comment> \<open>\<open>strncmp (a, b, n) == 0\<close> for \<open>n\<close> within both strings\<close>
  "strprefix a b n \<longleftrightarrow> take n a = take n b"

lemma char_at_Nil [simp]: "char_at [] i = NUL"
  by (simp add: char_at_def)

lemma char_at_Cons_0 [simp]: "char_at (x # xs) 0 = x"
  by (simp add: char_at_def)

lemma char_at_Cons_Suc [simp]: "char_at (x # xs) (Suc i) = char_at xs i"
  by (simp add: char_at_def)

lemma char_at_Cons_numeral [simp]: "char_at (x # xs) (numeral k) = char_at xs (pred_numeral k)"
  by (simp add: char_at_def numeral_eq_Suc)

lemma char_at_append_left [simp]: "i < length xs \<Longrightarrow> char_at (xs @ ys) i = char_at xs i"
  by (simp add: char_at_def nth_append)

lemma char_at_end [simp]: "length s \<le> i \<Longrightarrow> char_at s i = NUL"
  by (simp add: char_at_def)

lemma c_str_Nil [simp]: "c_str []"
  by (simp add: c_str_def)

lemma c_str_Cons [simp]: "c_str (x # xs) \<longleftrightarrow> x \<noteq> NUL \<and> c_str xs"
  by (auto simp: c_str_def)

lemma c_str_append [simp]: "c_str (xs @ ys) \<longleftrightarrow> c_str xs \<and> c_str ys"
  by (auto simp: c_str_def)

lemma c_str_char_at: "c_str s \<Longrightarrow> char_at s i = NUL \<longleftrightarrow> length s \<le> i"
  by (auto simp: c_str_def char_at_def) (metis nth_mem)

lemma cstr_of_buf_c_str [simp]: "c_str s \<Longrightarrow> cstr_of_buf s = s"
  by (auto simp: c_str_def cstr_of_buf_def takeWhile_eq_all_conv)

lemma strchr_Some: "strchr s c = Some i \<Longrightarrow> i < length s \<and> s ! i = c \<and> c \<notin> set (take i s)"
  by (induction s arbitrary: i) (auto split: if_splits)

lemma strchr_None [simp]: "strchr s c = None \<longleftrightarrow> c \<notin> set s"
  by (induction s) auto

section \<open>Error numbers\<close>

text \<open>The Linux values; the code returns them negated.\<close>

definition EPERM :: int where [model_defs]: "EPERM = 1"
definition ENOENT :: int where [model_defs]: "ENOENT = 2"
definition EINTR :: int where [model_defs]: "EINTR = 4"
definition EIO :: int where [model_defs]: "EIO = 5"
definition EAGAIN :: int where [model_defs]: "EAGAIN = 11"
definition ENOMEM :: int where [model_defs]: "ENOMEM = 12"
definition EACCES :: int where [model_defs]: "EACCES = 13"
definition EBUSY :: int where [model_defs]: "EBUSY = 16"
definition EINVAL :: int where [model_defs]: "EINVAL = 22"
definition ERANGE :: int where [model_defs]: "ERANGE = 34"
definition ENOSYS :: int where [model_defs]: "ENOSYS = 38"
definition EPROTO :: int where [model_defs]: "EPROTO = 71"
definition EOPNOTSUPP :: int where [model_defs]: "EOPNOTSUPP = 95"
definition ENOTSUP :: int where [model_defs]: "ENOTSUP = 95"
definition ESTALE :: int where [model_defs]: "ESTALE = 116"

section \<open>Memory allocation\<close>

type_synonym allocs = "bool list"

fun alloc_next :: "allocs \<Rightarrow> bool \<times> allocs" where
  "alloc_next [] = (True, [])"
| "alloc_next (b # bs) = (b, bs)"

section \<open>Machine integers\<close>

type_synonym u8 = "8 word"
type_synonym u32 = "32 word"
type_synonym u64 = "64 word"

section \<open>Lists\<close>

definition insert_at :: "nat \<Rightarrow> 'a \<Rightarrow> 'a list \<Rightarrow> 'a list" where
  "insert_at i x xs = take i xs @ x # drop i xs"

lemma length_insert_at [simp]: "length (insert_at i x xs) = Suc (length xs)"
  by (simp add: insert_at_def)

lemma set_insert_at [simp]: "set (insert_at i x xs) = insert x (set xs)"
  by (metis (no_types) append_take_drop_id insert_at_def list.simps(15) set_append Un_insert_right)

lemma insert_at_length: "insert_at (length xs) x xs = xs @ [x]"
  by (simp add: insert_at_def)

text \<open>Searching a list with a test that may itself fail, as a walk along a chain of pointers does.\<close>

fun find_m :: "('a \<Rightarrow> bool option) \<Rightarrow> 'a list \<Rightarrow> 'a option option" where
  "find_m P [] = Some None"
| "find_m P (x # xs) = do { b \<leftarrow> P x; if b then Some (Some x) else find_m P xs }"

lemma find_m_total:
  "(\<And>x. x \<in> set xs \<Longrightarrow> P x = Some (Q x)) \<Longrightarrow> find_m P xs = Some (find Q xs)"
  by (induction xs) auto

end
