(* ===== verification/FuseOpt.thy ===== *)
theory FuseOpt
  imports Complex_Main Prelude
begin

text \<open>
  The option parser, \<open>.deps/libfuse3-3.16.2/lib/fuse_opt.c\<close> with the types of
  \<open>include/fuse_opt.h\<close>: argument vectors (\<open>fuse_args\<close>), option lists joined with commas
  (\<open>add_opt_common\<close>), templates (\<open>match_template\<close>, \<open>find_opt\<close>), and the parser itself, from
  one option (\<open>process_gopt\<close>) over a comma-separated group (\<open>process_real_option_group\<close>) to a
  whole command line (\<open>opt_parse\<close>, \<open>fuse_opt_parse\<close>).

  The struct that \<open>void *data\<close> points to is a map from offsets to values; \<open>sscanf\<close> formats other
  than \<open>%s\<close> go through the parameter \<open>scan\<close> of the context, which answers the value stored, if
  the one conversion succeeded.  The processing function of the client is the field \<open>proc\<close>.
\<close>

section \<open>Argument vectors\<close>

record fuse_args =
  argv :: "string list option"   \<comment> \<open>\<open>None\<close> is the NULL pointer; \<open>argc\<close> is the length\<close>
  allocated :: bool

definition argc :: "fuse_args \<Rightarrow> nat" where
  "argc a = (case argv a of None \<Rightarrow> 0 | Some v \<Rightarrow> length v)"

definition args_list :: "fuse_args \<Rightarrow> string list" where
  "args_list a = (case argv a of None \<Rightarrow> [] | Some v \<Rightarrow> v)"

definition empty_args :: fuse_args where
  "empty_args = \<lparr>argv = None, allocated = False\<rparr>"

definition fuse_opt_free_args :: "fuse_args \<Rightarrow> fuse_args" where
  "fuse_opt_free_args a = \<lparr>argv = None, allocated = False\<rparr>"

text \<open>\<open>assert (!args->argv || args->allocated)\<close>, then \<open>strdup\<close>, then \<open>realloc\<close>.\<close>

definition fuse_opt_add_arg ::
  "allocs \<Rightarrow> fuse_args \<Rightarrow> string \<Rightarrow> (int \<times> allocs \<times> fuse_args) option" where
  "fuse_opt_add_arg al a arg =
     (if argv a \<noteq> None \<and> \<not> allocated a then None
      else let (ok1, al1) = alloc_next al in
        if \<not> ok1 then Some (-1, al1, a)
        else let (ok2, al2) = alloc_next al1 in
          if \<not> ok2 then Some (-1, al2, a)
          else Some (0, al2, \<lparr>argv = Some (args_list a @ [arg]), allocated = True\<rparr>))"

definition fuse_opt_insert_arg_common ::
  "allocs \<Rightarrow> fuse_args \<Rightarrow> nat \<Rightarrow> string \<Rightarrow> (int \<times> allocs \<times> fuse_args) option" where
  "fuse_opt_insert_arg_common al a pos arg =
     (if \<not> pos \<le> argc a then None
      else do {
        (res, al1, a1) \<leftarrow> fuse_opt_add_arg al a arg;
        if res = -1 then Some (-1, al1, a1)
        else if pos \<noteq> argc a1 - 1 then
          (let v = args_list a1; newarg = v ! (argc a1 - 1) in
             Some (0, al1, a1\<lparr>argv := Some (take pos v @ newarg # take (argc a1 - pos - 1) (drop pos v))\<rparr>))
        else Some (0, al1, a1)
      })"

definition fuse_opt_insert_arg ::
  "allocs \<Rightarrow> fuse_args \<Rightarrow> nat \<Rightarrow> string \<Rightarrow> (int \<times> allocs \<times> fuse_args) option" where
  "fuse_opt_insert_arg al a pos arg = fuse_opt_insert_arg_common al a pos arg"

section \<open>Templates and the parsing context\<close>

record fuse_opt =
  templ :: string
  offset :: u64
  opt_value :: int

definition FUSE_OPT_KEY_OPT :: int where "FUSE_OPT_KEY_OPT = -1"
definition FUSE_OPT_KEY_NONOPT :: int where "FUSE_OPT_KEY_NONOPT = -2"
definition FUSE_OPT_KEY_KEEP :: int where "FUSE_OPT_KEY_KEEP = -3"
definition FUSE_OPT_KEY_DISCARD :: int where "FUSE_OPT_KEY_DISCARD = -4"

lemmas key_defs = FUSE_OPT_KEY_OPT_def FUSE_OPT_KEY_NONOPT_def FUSE_OPT_KEY_KEEP_def
  FUSE_OPT_KEY_DISCARD_def

text \<open>A variable of the client's struct: an \<open>int\<close> or \<open>char *\<close> the parser stored, or what
  \<open>sscanf\<close> stored through a numeric format.\<close>

datatype opt_var = OInt int | OStr string | ODouble rat

type_synonym opt_data = "u64 \<Rightarrow> opt_var option"

text \<open>The client's function may allocate memory, and abort.\<close>

type_synonym opt_proc =
  "opt_data \<Rightarrow> string \<Rightarrow> int \<Rightarrow> fuse_args \<Rightarrow> allocs \<Rightarrow> (int \<times> opt_data \<times> fuse_args \<times> allocs) option"

record fuse_opt_context =
  cdata :: opt_data
  copt :: "fuse_opt list"
  proc :: "opt_proc option"
  scan :: "string \<Rightarrow> string \<Rightarrow> opt_var option"
  argctr :: nat
  cargv :: "string list"
  outargs :: fuse_args
  opts :: "string option"
  nonopt :: nat
  cmem :: allocs

section \<open>Helpers of the parser\<close>

definition next_arg :: "fuse_opt_context \<Rightarrow> string \<Rightarrow> int \<times> fuse_opt_context" where
  "next_arg ctx opt =
     (if argctr ctx + 1 \<ge> length (cargv ctx) then (-1, ctx)
      else (0, ctx\<lparr>argctr := argctr ctx + 1\<rparr>))"

definition add_arg :: "fuse_opt_context \<Rightarrow> string \<Rightarrow> (int \<times> fuse_opt_context) option" where
  "add_arg ctx arg = do {
     (res, al, out) \<leftarrow> fuse_opt_add_arg (cmem ctx) (outargs ctx) arg;
     Some (res, ctx\<lparr>cmem := al, outargs := out\<rparr>)
   }"

fun escape_opt :: "bool \<Rightarrow> string \<Rightarrow> string" where
  "escape_opt esc [] = []"
| "escape_opt esc (c # s) =
     (if esc \<and> (c = CHR '','' \<or> c = CHR 0x5C) then CHR 0x5C # c # escape_opt esc s
      else c # escape_opt esc s)"

definition add_opt_common ::
  "allocs \<Rightarrow> string option \<Rightarrow> string \<Rightarrow> bool \<Rightarrow> int \<times> allocs \<times> string option" where
  "add_opt_common al os opt esc =
     (let old = (case os of None \<Rightarrow> [] | Some s \<Rightarrow> s); (ok, al1) = alloc_next al in
      if \<not> ok then (-1, al1, os)
      else (0, al1, Some ((if old \<noteq> [] then old @ '','' else []) @ escape_opt esc opt)))"

definition fuse_opt_add_opt ::
  "allocs \<Rightarrow> string option \<Rightarrow> string \<Rightarrow> int \<times> allocs \<times> string option" where
  "fuse_opt_add_opt al os opt = add_opt_common al os opt False"

definition fuse_opt_add_opt_escaped ::
  "allocs \<Rightarrow> string option \<Rightarrow> string \<Rightarrow> int \<times> allocs \<times> string option" where
  "fuse_opt_add_opt_escaped al os opt = add_opt_common al os opt True"

definition add_opt :: "fuse_opt_context \<Rightarrow> string \<Rightarrow> int \<times> fuse_opt_context" where
  "add_opt ctx opt =
     (let (res, al, os) = add_opt_common (cmem ctx) (opts ctx) opt True
      in (res, ctx\<lparr>cmem := al, opts := os\<rparr>))"

definition call_proc ::
  "fuse_opt_context \<Rightarrow> string \<Rightarrow> int \<Rightarrow> bool \<Rightarrow> (int \<times> fuse_opt_context) option" where
  "call_proc ctx arg key isopt =
     (if key = FUSE_OPT_KEY_DISCARD then Some (0, ctx)
      else do {
        (res, ctx1) \<leftarrow>
          (case proc ctx of
             Some p \<Rightarrow>
               if key \<noteq> FUSE_OPT_KEY_KEEP then do {
                 (r, d, out, al) \<leftarrow> p (cdata ctx) arg key (outargs ctx) (cmem ctx);
                 Some (r, ctx\<lparr>cdata := d, outargs := out, cmem := al\<rparr>) }
               else Some (1, ctx)
           | None \<Rightarrow> Some (1, ctx));
        if res = -1 \<or> res = 0 then Some (res, ctx1)
        else if isopt then Some (add_opt ctx1 arg)
        else add_arg ctx1 arg })"

section \<open>Matching a template\<close>

definition template_sep :: "string \<Rightarrow> nat option" where
  "template_sep t = (case strchr t (CHR ''='') of Some i \<Rightarrow> Some i | None \<Rightarrow> strchr t (CHR '' ''))"

definition match_template :: "string \<Rightarrow> string \<Rightarrow> nat option" where
  \<comment> \<open>\<open>Some sep\<close> is a result of 1 with \<open>*sepp = sep\<close>\<close>
  "match_template t arg =
     (let exact = (if t = arg then Some 0 else None) in
      case template_sep t of
        Some sep \<Rightarrow>
          if char_at t (sep + 1) = NUL \<or> char_at t (sep + 1) = CHR ''%'' then
            (let tlen = (if char_at t sep = CHR ''='' then sep + 1 else sep) in
             if length arg \<ge> tlen \<and> strprefix arg t tlen then Some sep else exact)
          else exact
      | None \<Rightarrow> exact)"

text \<open>A pointer into the template array is the rest of the array from there on.\<close>

fun find_opt :: "fuse_opt list \<Rightarrow> string \<Rightarrow> (fuse_opt list \<times> nat) option" where
  "find_opt [] arg = None"
| "find_opt (opt # rest) arg =
     (case match_template (templ opt) arg of
        Some sep \<Rightarrow> Some (opt # rest, sep)
      | None \<Rightarrow> find_opt rest arg)"

definition fuse_opt_match :: "fuse_opt list \<Rightarrow> string \<Rightarrow> int" where
  "fuse_opt_match os opt = (case find_opt os opt of Some _ \<Rightarrow> 1 | None \<Rightarrow> 0)"

section \<open>Processing one option\<close>

definition process_opt_param ::
  "fuse_opt_context \<Rightarrow> u64 \<Rightarrow> string \<Rightarrow> string \<Rightarrow> (int \<times> fuse_opt_context) option" where
  "process_opt_param ctx var format param =
     (if char_at format 0 \<noteq> CHR ''%'' then None
      else if char_at format 1 = CHR ''s'' then
        (let (ok, al) = alloc_next (cmem ctx) in
         if \<not> ok then Some (-1, ctx\<lparr>cmem := al\<rparr>)
         else Some (0, ctx\<lparr>cmem := al, cdata := (cdata ctx)(var \<mapsto> OStr param)\<rparr>))
      else
        (case scan ctx format param of
           None \<Rightarrow> Some (-1, ctx)
         | Some v \<Rightarrow> Some (0, ctx\<lparr>cdata := (cdata ctx)(var \<mapsto> v)\<rparr>)))"

definition process_opt ::
  "fuse_opt_context \<Rightarrow> fuse_opt \<Rightarrow> nat \<Rightarrow> string \<Rightarrow> bool \<Rightarrow> (int \<times> fuse_opt_context) option" where
  "process_opt ctx opt sep arg isopt =
     (if offset opt = 0xffffffff then do {
        (res, ctx1) \<leftarrow> call_proc ctx arg (opt_value opt) isopt;
        Some (if res = -1 then (-1, ctx1) else (0, ctx1))
      }
      else if sep \<noteq> 0 \<and> char_at (templ opt) (sep + 1) \<noteq> NUL then
        (let param = drop (if char_at (templ opt) sep = CHR ''='' then sep + 1 else sep) arg in do {
           (res, ctx1) \<leftarrow> process_opt_param ctx (offset opt) (drop (sep + 1) (templ opt)) param;
           Some (if res = -1 then (-1, ctx1) else (0, ctx1))
         })
      else Some (0, ctx\<lparr>cdata := (cdata ctx)(offset opt \<mapsto> OInt (opt_value opt))\<rparr>))"

definition process_opt_sep_arg ::
  "fuse_opt_context \<Rightarrow> fuse_opt \<Rightarrow> nat \<Rightarrow> string \<Rightarrow> bool \<Rightarrow> (int \<times> fuse_opt_context) option" where
  "process_opt_sep_arg ctx opt sep arg isopt =
     (let (res, ctx1) = next_arg ctx arg in
      if res = -1 then Some (-1, ctx1)
      else
        let param = cargv ctx1 ! argctr ctx1; (ok, al) = alloc_next (cmem ctx1);
            ctx2 = ctx1\<lparr>cmem := al\<rparr> in
        if \<not> ok then Some (-1, ctx2)
        else process_opt ctx2 opt sep (take sep arg @ param) isopt)"

text \<open>The loop \<open>for (; opt; opt = find_opt (opt + 1, arg, &sep))\<close> of \<open>process_gopt\<close>.\<close>

lemma find_opt_shorter: "find_opt os arg = Some (os', sep) \<Longrightarrow> length os' \<le> length os \<and> os' \<noteq> []"
  by (induction os) (auto split: option.splits)

function gopt_loop ::
  "fuse_opt_context \<Rightarrow> fuse_opt list \<Rightarrow> nat \<Rightarrow> string \<Rightarrow> bool \<Rightarrow> (int \<times> fuse_opt_context) option" where
  "gopt_loop ctx [] sep arg isopt = Some (0, ctx)"
| "gopt_loop ctx (opt # rest) sep arg isopt =
     (case (if sep \<noteq> 0 \<and> char_at (templ opt) sep = CHR '' '' \<and> char_at arg sep = NUL
            then process_opt_sep_arg ctx opt sep arg isopt
            else process_opt ctx opt sep arg isopt) of
        None \<Rightarrow> None
      | Some (res, ctx1) \<Rightarrow>
          if res = -1 then Some (-1, ctx1)
          else (case find_opt rest arg of
                  None \<Rightarrow> Some (0, ctx1)
                | Some (os, sep') \<Rightarrow> gopt_loop ctx1 os sep' arg isopt))"
  by pat_completeness auto
termination
  by (relation "measure (\<lambda>(ctx, os, sep, arg, isopt). length os)") (auto dest: find_opt_shorter)

definition process_gopt ::
  "fuse_opt_context \<Rightarrow> string \<Rightarrow> bool \<Rightarrow> (int \<times> fuse_opt_context) option" where
  "process_gopt ctx arg isopt =
     (case find_opt (copt ctx) arg of
        Some (os, sep) \<Rightarrow> gopt_loop ctx os sep arg isopt
      | None \<Rightarrow> call_proc ctx arg FUSE_OPT_KEY_OPT isopt)"

section \<open>Comma-separated groups\<close>

text \<open>
  \<open>process_real_option_group\<close> unescapes in place: \<open>s\<close> reads the buffer, \<open>d \<le> s\<close> writes it.  As
  \<open>d\<close> never passes \<open>s\<close>, the bytes read are the original ones, so the model keeps the unread rest
  of the group and the option collected so far.  After a backslash, three octal digits (the first
  at most 3) are one byte and any other character is itself.  A byte \<open>\\000\<close> ends the C string
  handed on, hence \<open>cstr_of_buf\<close>.
\<close>

definition in_chars :: "char \<Rightarrow> char \<Rightarrow> char \<Rightarrow> bool" where
  "in_chars lo hi c \<longleftrightarrow> (of_char lo :: nat) \<le> of_char c \<and> (of_char c :: nat) \<le> of_char hi"

definition octal_escape :: "string \<Rightarrow> bool" where
  "octal_escape s \<longleftrightarrow> in_chars (CHR ''0'') (CHR ''3'') (char_at s 0)
     \<and> in_chars (CHR ''0'') (CHR ''7'') (char_at s 1)
     \<and> in_chars (CHR ''0'') (CHR ''7'') (char_at s 2)"

definition octal_value :: "string \<Rightarrow> char" where
  "octal_value s =
     char_of (((of_char (char_at s 0) :: nat) - 48) * 64 + (of_char (char_at s 1) - 48) * 8
       + (of_char (char_at s 2) - 48))"

definition read_char :: "string \<Rightarrow> char \<times> string" where
  \<comment> \<open>one output byte and the rest, for a group that starts with neither a comma nor its end\<close>
  "read_char s =
     (if char_at s 0 = CHR 0x5C \<and> char_at s 1 \<noteq> NUL then
        (if octal_escape (drop 1 s) then (octal_value (drop 1 s), drop 4 s)
         else (char_at s 1, drop 2 s))
      else (char_at s 0, drop 1 s))"

lemma read_char_shorter: "s \<noteq> [] \<Longrightarrow> length (snd (read_char s)) < length s"
  by (auto simp: read_char_def)

function process_real_option_group ::
  "fuse_opt_context \<Rightarrow> string \<Rightarrow> string \<Rightarrow> (int \<times> fuse_opt_context) option" where
  "process_real_option_group ctx d s =
     (if s = [] then do {
        (res, ctx1) \<leftarrow> process_gopt ctx (cstr_of_buf d) True;
        Some (if res = -1 then (-1, ctx1) else (0, ctx1))
      }
      else if char_at s 0 = CHR '','' then
        (case process_gopt ctx (cstr_of_buf d) True of
           None \<Rightarrow> None
         | Some (res, ctx1) \<Rightarrow>
             if res = -1 then Some (-1, ctx1) else process_real_option_group ctx1 [] (drop 1 s))
      else process_real_option_group ctx (d @ [fst (read_char s)]) (snd (read_char s)))"
  by pat_completeness auto
termination
  by (relation "measure (\<lambda>(ctx, d, s). length s)") (auto dest: read_char_shorter)

declare process_real_option_group.simps [simp del]

definition process_option_group ::
  "fuse_opt_context \<Rightarrow> string \<Rightarrow> (int \<times> fuse_opt_context) option" where
  "process_option_group ctx os =
     (let (ok, al) = alloc_next (cmem ctx); ctx1 = ctx\<lparr>cmem := al\<rparr> in
      if \<not> ok then Some (-1, ctx1) else process_real_option_group ctx1 [] os)"

section \<open>The command line\<close>

definition process_one :: "fuse_opt_context \<Rightarrow> string \<Rightarrow> (int \<times> fuse_opt_context) option" where
  "process_one ctx arg =
     (if nonopt ctx \<noteq> 0 \<or> char_at arg 0 \<noteq> CHR ''-'' then call_proc ctx arg FUSE_OPT_KEY_NONOPT False
      else if char_at arg 1 = CHR ''o'' then
        (if char_at arg 2 \<noteq> NUL then process_option_group ctx (drop 2 arg)
         else
           let (res, ctx1) = next_arg ctx arg in
           if res = -1 then Some (-1, ctx1)
           else process_option_group ctx1 (cargv ctx1 ! argctr ctx1))
      else if char_at arg 1 = CHR ''-'' \<and> char_at arg 2 = NUL then do {
        (res, ctx1) \<leftarrow> add_arg ctx arg;
        Some (if res = -1 then (-1, ctx1) else (0, ctx1\<lparr>nonopt := argc (outargs ctx1)\<rparr>))
      }
      else process_gopt ctx arg False)"

text \<open>
  What no step of the parser changes: the command line, the templates and the client's functions;
  the argument counter never goes back.  The loop over the command line ends because of it.
\<close>

definition ctx_ext :: "fuse_opt_context \<Rightarrow> fuse_opt_context \<Rightarrow> bool" where
  "ctx_ext c c' \<longleftrightarrow> cargv c' = cargv c \<and> argctr c \<le> argctr c' \<and> copt c' = copt c
     \<and> proc c' = proc c \<and> scan c' = scan c"

lemma ctx_ext_refl [simp, intro]: "ctx_ext c c"
  by (simp add: ctx_ext_def)

lemma ctx_ext_trans: "ctx_ext a b \<Longrightarrow> ctx_ext b c \<Longrightarrow> ctx_ext a c"
  by (auto simp: ctx_ext_def)

lemma ctx_ext_upd [simp]:
  "ctx_ext c (c'\<lparr>cmem := al\<rparr>) = ctx_ext c c'"
  "ctx_ext c (c'\<lparr>cdata := d\<rparr>) = ctx_ext c c'"
  "ctx_ext c (c'\<lparr>outargs := out\<rparr>) = ctx_ext c c'"
  "ctx_ext c (c'\<lparr>opts := os\<rparr>) = ctx_ext c c'"
  "ctx_ext c (c'\<lparr>nonopt := n\<rparr>) = ctx_ext c c'"
  "ctx_ext (c\<lparr>cmem := al\<rparr>) c' = ctx_ext c c'"
  "ctx_ext (c\<lparr>cdata := d\<rparr>) c' = ctx_ext c c'"
  "ctx_ext (c\<lparr>outargs := out\<rparr>) c' = ctx_ext c c'"
  by (simp_all add: ctx_ext_def)

lemma next_arg_ext: "next_arg ctx s = (res, ctx') \<Longrightarrow> ctx_ext ctx ctx'"
  by (auto simp: next_arg_def ctx_ext_def split: if_splits)

lemma add_arg_ext: "add_arg ctx s = Some (res, ctx') \<Longrightarrow> ctx_ext ctx ctx'"
  by (auto simp: add_arg_def ctx_ext_def split: Option.bind_splits)

lemma add_opt_ext: "add_opt ctx s = (res, ctx') \<Longrightarrow> ctx_ext ctx ctx'"
  by (auto simp: add_opt_def ctx_ext_def split: prod.splits)

lemma call_proc_ext: "call_proc ctx s key i = Some (res, ctx') \<Longrightarrow> ctx_ext ctx ctx'"
  by (auto simp: call_proc_def bind_eq_Some_conv dest!: add_opt_ext add_arg_ext
      split: if_splits option.splits prod.splits)

lemma process_opt_param_ext: "process_opt_param ctx v f p = Some (res, ctx') \<Longrightarrow> ctx_ext ctx ctx'"
  by (auto simp: process_opt_param_def Let_def split: if_splits option.splits prod.splits)

lemma process_opt_ext: "process_opt ctx opt sep s i = Some (res, ctx') \<Longrightarrow> ctx_ext ctx ctx'"
  by (auto simp: process_opt_def Let_def dest!: call_proc_ext process_opt_param_ext
      split: if_splits Option.bind_splits)

lemma process_opt_sep_arg_ext:
  "process_opt_sep_arg ctx opt sep s i = Some (res, ctx') \<Longrightarrow> ctx_ext ctx ctx'"
  by (auto simp: process_opt_sep_arg_def Let_def dest!: next_arg_ext process_opt_ext
      split: if_splits prod.splits intro: ctx_ext_trans)

lemma gopt_loop_ext: "gopt_loop ctx os sep s i = Some (res, ctx') \<Longrightarrow> ctx_ext ctx ctx'"
proof (induction ctx os sep s i rule: gopt_loop.induct)
  case (2 ctx opt rest sep s i)
  let ?step = "if sep \<noteq> 0 \<and> char_at (templ opt) sep = CHR '' '' \<and> char_at s sep = NUL
    then process_opt_sep_arg ctx opt sep s i else process_opt ctx opt sep s i"
  from "2.prems" obtain r c1 where step: "?step = Some (r, c1)"
    by (auto split: option.splits)
  then have e1: "ctx_ext ctx c1"
    by (auto dest: process_opt_ext process_opt_sep_arg_ext split: if_splits)
  show ?case
  proof (cases "r = -1 \<or> find_opt rest s = None")
    case True
    then show ?thesis using "2.prems" step e1 by (auto split: if_splits)
  next
    case False
    then obtain os' sep' where f: "find_opt rest s = Some (os', sep')" and r: "r \<noteq> -1" by auto
    have "gopt_loop c1 os' sep' s i = Some (res, ctx')"
      using "2.prems" unfolding gopt_loop.simps step using f r by simp
    with "2.IH" [OF step refl r f refl] e1 show ?thesis by (blast intro: ctx_ext_trans)
  qed
qed simp

lemma process_gopt_ext: "process_gopt ctx s i = Some (res, ctx') \<Longrightarrow> ctx_ext ctx ctx'"
  by (auto simp: process_gopt_def split: option.splits dest!: gopt_loop_ext call_proc_ext)

lemma process_real_option_group_ext:
  "process_real_option_group ctx d s = Some (res, ctx') \<Longrightarrow> ctx_ext ctx ctx'"
proof (induction ctx d s rule: process_real_option_group.induct)
  case (1 ctx d s)
  note eq = process_real_option_group.simps [of ctx d s]
  consider (stop) "s = []" | (comma) "s \<noteq> []" "char_at s 0 = CHR '',''"
    | (char) "s \<noteq> []" "char_at s 0 \<noteq> CHR '',''" by blast
  then show ?case
  proof cases
    case stop
    then show ?thesis using "1.prems" eq
      by (auto split: Option.bind_splits if_splits dest: process_gopt_ext)
  next
    case comma
    then obtain r c1 where g: "process_gopt ctx (cstr_of_buf d) True = Some (r, c1)"
      using "1.prems" eq by (auto split: option.splits)
    then have "ctx_ext ctx c1" by (rule process_gopt_ext)
    then show ?thesis
      using "1.prems" eq comma g "1.IH"(1) [OF comma g refl]
      by (auto split: if_splits intro: ctx_ext_trans)
  next
    case char
    then show ?thesis using "1.prems" "1.IH"(2) eq by simp
  qed
qed

lemma process_option_group_ext:
  "process_option_group ctx s = Some (res, ctx') \<Longrightarrow> ctx_ext ctx ctx'"
  by (auto simp: process_option_group_def Let_def dest!: process_real_option_group_ext
      split: if_splits prod.splits intro: ctx_ext_trans)

lemma process_one_ext: "process_one ctx s = Some (res, ctx') \<Longrightarrow> ctx_ext ctx ctx'"
  by (auto simp: process_one_def Let_def split: if_splits prod.splits Option.bind_splits
      dest!: call_proc_ext process_option_group_ext next_arg_ext add_arg_ext process_gopt_ext
      intro: ctx_ext_trans)

function opt_loop :: "fuse_opt_context \<Rightarrow> (int \<times> fuse_opt_context) option" where
  "opt_loop ctx =
     (if argctr ctx < length (cargv ctx) then
        (case process_one ctx (cargv ctx ! argctr ctx) of
           None \<Rightarrow> None
         | Some (res, ctx1) \<Rightarrow>
             if res = -1 then Some (-1, ctx1) else opt_loop (ctx1\<lparr>argctr := argctr ctx1 + 1\<rparr>))
      else Some (0, ctx))"
  by pat_completeness auto
termination
  by (relation "measure (\<lambda>ctx. length (cargv ctx) - argctr ctx)")
    (auto dest!: process_one_ext simp: ctx_ext_def)

declare opt_loop.simps [simp del]

text \<open>Dropping a last \<open>--\<close>, the end of \<open>opt_parse\<close>.\<close>

definition drop_separator :: "fuse_opt_context \<Rightarrow> fuse_opt_context" where
  "drop_separator ctx =
     (let v = args_list (outargs ctx) in
      if nonopt ctx \<noteq> 0 \<and> nonopt ctx = argc (outargs ctx) \<and> last v = ''--''
      then ctx\<lparr>outargs := (outargs ctx)\<lparr>argv := Some (butlast v)\<rparr>\<rparr> else ctx)"

definition insert_opts :: "fuse_opt_context \<Rightarrow> (int \<times> fuse_opt_context) option" where
  "insert_opts ctx =
     (case opts ctx of
        None \<Rightarrow> Some (0, ctx)
      | Some os \<Rightarrow> do {
          (res, al, out) \<leftarrow> fuse_opt_insert_arg (cmem ctx) (outargs ctx) 1 ''-o'';
          if res = -1 then Some (-1, ctx\<lparr>cmem := al, outargs := out\<rparr>)
          else do {
            (res2, al2, out2) \<leftarrow> fuse_opt_insert_arg al out 2 os;
            Some (res2, ctx\<lparr>cmem := al2, outargs := out2\<rparr>)
          }
        })"

definition opt_parse :: "fuse_opt_context \<Rightarrow> (int \<times> fuse_opt_context) option" where
  "opt_parse ctx = do {
     (res, ctx1) \<leftarrow> (if cargv ctx \<noteq> [] then add_arg ctx (hd (cargv ctx)) else Some (0, ctx));
     if res = -1 then Some (-1, ctx1)
     else do {
       (res2, ctx2) \<leftarrow> opt_loop (ctx1\<lparr>argctr := 1\<rparr>);
       if res2 = -1 then Some (-1, ctx2)
       else do {
         (res3, ctx3) \<leftarrow> insert_opts ctx2;
         Some (if res3 = -1 then (-1, ctx3) else (0, drop_separator ctx3))
       }
     }
   }"

definition init_context ::
  "allocs \<Rightarrow> (string \<Rightarrow> string \<Rightarrow> opt_var option) \<Rightarrow> string list \<Rightarrow> opt_data \<Rightarrow> fuse_opt list
     \<Rightarrow> opt_proc option \<Rightarrow> fuse_opt_context" where
  "init_context al sc args d os p = \<lparr>cdata = d, copt = os, proc = p, scan = sc, argctr = 0,
     cargv = args, outargs = empty_args, opts = None, nonopt = 0, cmem = al\<rparr>"

definition fuse_opt_parse ::
  "allocs \<Rightarrow> (string \<Rightarrow> string \<Rightarrow> opt_var option) \<Rightarrow> fuse_args option \<Rightarrow> opt_data \<Rightarrow> fuse_opt list
     \<Rightarrow> opt_proc option \<Rightarrow> (int \<times> fuse_args option \<times> opt_data) option" where
  "fuse_opt_parse al sc args d os p =
     (case args of
        None \<Rightarrow> Some (0, None, d)
      | Some a \<Rightarrow>
          if argv a = None \<or> argc a = 0 then Some (0, Some a, d)
          else do {
            (res, ctx) \<leftarrow> opt_parse (init_context al sc (args_list a) d os p);
            Some (res, Some (if res \<noteq> -1 then outargs ctx else a), cdata ctx)
          })"

section \<open>Groups: what the in-place parser computes\<close>

text \<open>The reference: split a group into its options, then process them one after the other.\<close>

function split_group :: "string \<Rightarrow> string \<Rightarrow> string list" where
  "split_group d s =
     (if s = [] then [cstr_of_buf d]
      else if char_at s 0 = CHR '','' then cstr_of_buf d # split_group [] (drop 1 s)
      else split_group (d @ [fst (read_char s)]) (snd (read_char s)))"
  by pat_completeness auto
termination
  by (relation "measure (\<lambda>(d, s). length s)") (auto dest: read_char_shorter)

declare split_group.simps [simp del]

fun process_gopts :: "fuse_opt_context \<Rightarrow> string list \<Rightarrow> (int \<times> fuse_opt_context) option" where
  "process_gopts ctx [] = Some (0, ctx)"
| "process_gopts ctx (opt # os) =
     (case process_gopt ctx opt True of
        None \<Rightarrow> None
      | Some (res, ctx1) \<Rightarrow> if res = -1 then Some (-1, ctx1) else process_gopts ctx1 os)"

lemma split_group_Nil [simp]: "split_group d [] = [cstr_of_buf d]"
  by (subst split_group.simps) simp

lemma split_group_comma [simp]:
  "split_group d (CHR '','' # s) = cstr_of_buf d # split_group [] s"
  by (subst split_group.simps) simp

lemma split_group_char:
  "s \<noteq> [] \<Longrightarrow> char_at s 0 \<noteq> CHR '','' \<Longrightarrow>
     split_group d s = split_group (d @ [fst (read_char s)]) (snd (read_char s))"
  by (subst split_group.simps) simp

lemma group_eq_gopts: "process_real_option_group ctx d s = process_gopts ctx (split_group d s)"
proof (induction ctx d s rule: process_real_option_group.induct)
  case (1 ctx d s)
  consider (stop) "s = []" | (comma) "s \<noteq> []" "char_at s 0 = CHR '',''"
    | (char) "s \<noteq> []" "char_at s 0 \<noteq> CHR '',''" by blast
  then show ?case
  proof cases
    case stop
    then show ?thesis
      by (subst process_real_option_group.simps)
        (auto split: option.splits Option.bind_splits)
  next
    case comma
    then show ?thesis
      using "1.IH"(1) [OF comma _ refl]
      by (subst process_real_option_group.simps, subst split_group.simps)
        (auto split: option.splits)
  next
    case char
    then show ?thesis
      by (subst process_real_option_group.simps, subst split_group.simps) (simp add: "1.IH"(2))
  qed
qed

text \<open>Escaping is undone: the escaped text of an option reads back as the option.\<close>

lemma split_group_escape:
  assumes "c_str opt"
  shows "split_group d (escape_opt True opt @ t) = split_group (d @ opt) t"
  using assms
proof (induction opt arbitrary: d)
  case (Cons c opt)
  then have "c \<noteq> NUL" by simp
  show ?case
  proof (cases "c = CHR '','' \<or> c = CHR 0x5C")
    case True
    then have "read_char (escape_opt True (c # opt) @ t) = (c, escape_opt True opt @ t)"
      by (auto simp: read_char_def octal_escape_def in_chars_def)
    with True Cons show ?thesis
      by (subst split_group_char) auto
  next
    case False
    then have "read_char (escape_opt True (c # opt) @ t) = (c, escape_opt True opt @ t)"
      by (auto simp: read_char_def)
    with False Cons show ?thesis
      by (subst split_group_char) auto
  qed
qed simp

definition join_escaped :: "string list \<Rightarrow> string option" where
  "join_escaped os = foldl (\<lambda>acc opt. snd (snd (fuse_opt_add_opt_escaped [] acc opt))) None os"

lemma add_opt_escaped_ok:
  "fuse_opt_add_opt_escaped [] acc opt
     = (0, [], Some ((case acc of None \<Rightarrow> [] | Some s \<Rightarrow> if s = [] then [] else s @ '','')
         @ escape_opt True opt))"
  by (simp add: fuse_opt_add_opt_escaped_def add_opt_common_def split: option.split)

lemma escape_opt_Nil_iff [simp]: "escape_opt e s = [] \<longleftrightarrow> s = []"
  by (cases s) auto

lemma foldl_add_opt_escaped:
  assumes "s \<noteq> []"
  shows "foldl (\<lambda>acc opt. snd (snd (fuse_opt_add_opt_escaped [] acc opt))) (Some s) os
     = Some (s @ concat (map (\<lambda>opt. CHR '','' # escape_opt True opt) os))"
  using assms by (induction os arbitrary: s) (auto simp: add_opt_escaped_ok)

lemma join_escaped_Cons:
  "opt \<noteq> [] \<Longrightarrow> join_escaped (opt # os)
     = Some (escape_opt True opt @ concat (map (\<lambda>opt. CHR '','' # escape_opt True opt) os))"
  by (simp add: join_escaped_def add_opt_escaped_ok [of None opt] foldl_add_opt_escaped)

lemma split_group_join:
  assumes "c_str d" "c_str opt" "\<forall>opt \<in> set os. c_str opt"
  shows "split_group d (escape_opt True opt @ concat (map (\<lambda>opt. CHR '','' # escape_opt True opt) os))
     = (d @ opt) # os"
  using assms
proof (induction os arbitrary: d opt)
  case Nil
  then show ?case using split_group_escape [of opt d "[]"] by simp
next
  case (Cons a os)
  then show ?case using Cons.IH [of "[]" a] by (simp add: split_group_escape)
qed

text \<open>
  C9.  Joining options with \<open>fuse_opt_add_opt_escaped\<close> and parsing the joined text with
  \<open>process_real_option_group\<close> processes exactly the options that were joined, in order, whatever
  commas, backslashes or digits they contain (options are non-empty C strings: an empty first
  option leaves no comma behind).
\<close>

theorem escaped_group_roundtrip:
  assumes "os \<noteq> []" and "\<forall>opt \<in> set os. c_str opt \<and> opt \<noteq> []" and "join_escaped os = Some text"
  shows "process_real_option_group ctx [] text = process_gopts ctx os"
proof -
  obtain opt os' where os: "os = opt # os'" using assms(1) by (cases os) auto
  with assms(2,3) have "text = escape_opt True opt
      @ concat (map (\<lambda>opt. CHR '','' # escape_opt True opt) os')"
    by (simp add: join_escaped_Cons)
  with assms(2) os show ?thesis by (simp add: group_eq_gopts split_group_join)
qed

theorem escaped_group_roundtrip_witness:
  "process_real_option_group (init_context [] (\<lambda>_ _. None) [] Map.empty [] None) []
     (''a'' @ [CHR 0x5C] @ '',b,c'' @ [CHR 0x5C, CHR 0x5C] @ ''101'')
   = process_gopts (init_context [] (\<lambda>_ _. None) [] Map.empty [] None)
       [''a,b'', ''c'' @ [CHR 0x5C] @ ''101'']"
  by (rule escaped_group_roundtrip) (simp_all add: join_escaped_def add_opt_escaped_ok)

section \<open>Argument vectors are lists\<close>

definition args_ok :: "fuse_args \<Rightarrow> bool" where
  "args_ok a \<longleftrightarrow> (argv a \<noteq> None \<longrightarrow> allocated a)"

lemma argc_args_list: "argc a = length (args_list a)"
  by (simp add: argc_def args_list_def split: option.split)

lemma add_arg_cases:
  assumes "args_ok a"
  obtains al' where "fuse_opt_add_arg al a arg = Some (-1, al', a)"
  | al' where "fuse_opt_add_arg al a arg
      = Some (0, al', \<lparr>argv = Some (args_list a @ [arg]), allocated = True\<rparr>)"
proof -
  obtain b1 al1 where 1: "alloc_next al = (b1, al1)" by fastforce
  obtain b2 al2 where 2: "alloc_next al1 = (b2, al2)" by fastforce
  show thesis
  proof (cases "b1 \<and> b2")
    case True
    then show thesis using 1 2 assms that(2) by (auto simp: fuse_opt_add_arg_def args_ok_def)
  next
    case False
    then show thesis using 1 2 assms that(1) by (cases b1) (auto simp: fuse_opt_add_arg_def args_ok_def)
  qed
qed

lemma fuse_opt_add_arg_ok:
  "args_ok a \<Longrightarrow> fuse_opt_add_arg [] a arg
     = Some (0, [], \<lparr>argv = Some (args_list a @ [arg]), allocated = True\<rparr>)"
  by (auto simp: fuse_opt_add_arg_def args_ok_def)

lemma args_list_Some [simp]: "args_list \<lparr>argv = Some v, allocated = b\<rparr> = v"
  by (simp add: args_list_def)

lemma args_ok_Some [simp]: "args_ok \<lparr>argv = Some v, allocated = b\<rparr> = b"
  by (simp add: args_ok_def)

lemma args_list_upd [simp]: "args_list (a\<lparr>argv := Some v\<rparr>) = v"
  by (simp add: args_list_def)

lemma insert_by_move:
  "pos \<le> length v \<Longrightarrow>
     take pos (v @ [x]) @ (v @ [x]) ! length v # take (length v - pos) (drop pos (v @ [x]))
       = insert_at pos x v"
  by (simp add: insert_at_def)

lemma insert_arg_cases:
  assumes "args_ok a" and "pos \<le> argc a"
  shows "\<exists>res al' a'. fuse_opt_insert_arg al a pos arg = Some (res, al', a') \<and>
    (res = 0 \<and> args_list a' = insert_at pos arg (args_list a) \<and> args_ok a' \<or> res = -1 \<and> a' = a)"
proof -
  let ?a = "\<lparr>argv = Some (args_list a @ [arg]), allocated = True\<rparr>"
  have pos: "pos \<le> length (args_list a)" using assms(2) by (simp add: argc_args_list)
  show ?thesis
  proof (cases rule: add_arg_cases [OF assms(1), of al arg])
    case (1 al')
    then show ?thesis using assms(2)
      by (simp add: fuse_opt_insert_arg_def fuse_opt_insert_arg_common_def)
  next
    case (2 al')
    show ?thesis
    proof (cases "pos = length (args_list a)")
      case True
      with 2 show ?thesis
        by (simp add: fuse_opt_insert_arg_def fuse_opt_insert_arg_common_def argc_args_list
            insert_at_length)
    next
      case False
      with 2 pos insert_by_move [OF pos, of arg] show ?thesis
        by (simp add: fuse_opt_insert_arg_def fuse_opt_insert_arg_common_def argc_args_list
            Let_def args_ok_def)
    qed
  qed
qed

text \<open>
  \<open>fuse_opt_insert_arg\<close> appends the new argument and moves it into place with \<open>memmove\<close>:
  on success the vector is the old one with the argument inserted at \<open>pos\<close>; when an allocation
  fails it returns \<open>-1\<close> and the vector is untouched.
\<close>

lemma insert_arg_correct:
  assumes "args_ok a" and "pos \<le> argc a"
  shows "\<exists>res al' a'. fuse_opt_insert_arg al a pos arg = Some (res, al', a') \<and>
    (res = 0 \<and> args_list a' = insert_at pos arg (args_list a) \<and> args_ok a' \<or> res = -1 \<and> a' = a)"
  using assms by (rule insert_arg_cases)

lemma insert_arg_correct_witness:
  "\<exists>res al' a'. fuse_opt_insert_arg [] \<lparr>argv = Some [''a'', ''b''], allocated = True\<rparr> 1 ''x'' = Some (res, al', a') \<and>
    (res = 0 \<and> args_list a' = insert_at 1 ''x'' (args_list \<lparr>argv = Some [''a'', ''b''], allocated = True\<rparr>) \<and> args_ok a'
      \<or> res = -1 \<and> a' = \<lparr>argv = Some [''a'', ''b''], allocated = True\<rparr>)"
  by (rule insert_arg_correct) (simp_all add: argc_def)

lemma fuse_opt_insert_arg_ok:
  assumes "args_ok a" and "pos \<le> argc a"
  shows "fuse_opt_insert_arg [] a pos arg
    = Some (0, [], \<lparr>argv = Some (insert_at pos arg (args_list a)), allocated = True\<rparr>)"
proof -
  have pos: "pos \<le> length (args_list a)" using assms(2) by (simp add: argc_args_list)
  show ?thesis
    using assms insert_by_move [OF pos, of arg]
    by (auto simp: fuse_opt_insert_arg_def fuse_opt_insert_arg_common_def fuse_opt_add_arg_ok
        argc_args_list insert_at_length)
qed

section \<open>The parser never reaches a failed assertion\<close>

text \<open>
  Clients of the parser keep something about the struct they parse into.  What the parser stores there by
  itself for a template: the value of the template, a string, or what \<open>sscanf\<close> reads.
\<close>

definition format_of :: "fuse_opt \<Rightarrow> string option" where
  "format_of opt =
     (case template_sep (templ opt) of
        Some sep \<Rightarrow> if sep \<noteq> 0 \<and> char_at (templ opt) (sep + 1) = CHR ''%'' then Some (drop (sep + 1) (templ opt)) else None
      | None \<Rightarrow> None)"

definition stored :: "(string \<Rightarrow> string \<Rightarrow> opt_var option) \<Rightarrow> fuse_opt \<Rightarrow> opt_var \<Rightarrow> bool" where
  "stored sc opt v \<longleftrightarrow>
     (case format_of opt of
        None \<Rightarrow> v = OInt (opt_value opt)
      | Some f \<Rightarrow> if char_at f 1 = CHR ''s'' then \<exists>x. v = OStr x else \<exists>x. sc f x = Some v)"

text \<open>The keys the client's function is called with, and the arguments: those that match a template, save that
  a separate parameter was joined to it when the template has a space.\<close>

definition may_call :: "fuse_opt list \<Rightarrow> string \<Rightarrow> int \<Rightarrow> bool" where
  "may_call os arg key \<longleftrightarrow> key = FUSE_OPT_KEY_OPT \<or> key = FUSE_OPT_KEY_NONOPT \<or>
     (\<exists>opt \<in> set os. offset opt = 0xffffffff \<and> key = opt_value opt \<and>
        (match_template (templ opt) arg \<noteq> None \<or> CHR '' '' \<in> set (templ opt)))"

text \<open>What is handed to the client's function, and what it gives back.\<close>

definition gives_back :: "(opt_data \<Rightarrow> bool) \<Rightarrow> fuse_args \<Rightarrow> (int \<times> opt_data \<times> fuse_args \<times> allocs) option \<Rightarrow> bool" where
  "gives_back P out x \<longleftrightarrow> (\<exists>r d' out' al'. x = Some (r, d', out', al') \<and> P d' \<and> args_ok out' \<and> argc out \<le> argc out')"

lemma match_template_format:
  assumes "match_template t arg = Some sep" and "sep \<noteq> 0"
  shows "char_at t (sep + 1) = NUL \<or> char_at t (sep + 1) = CHR ''%''" and "sep \<le> length arg"
    and "char_at t sep = CHR ''='' \<Longrightarrow> sep < length arg"
  using assms by (auto simp: match_template_def Let_def split: if_splits option.splits)

lemma char_at_drop [simp]: "char_at (drop n s) i = char_at s (n + i)"
  by (auto simp: char_at_def)

lemma match_format:
  assumes "match_template (templ opt) s = Some sep"
  shows "format_of opt = (if sep \<noteq> 0 \<and> char_at (templ opt) (sep + 1) \<noteq> NUL then Some (drop (sep + 1) (templ opt)) else None)"
proof (cases "template_sep (templ opt)")
  case (Some i)
  have "length (templ opt) \<ge> i + 1" if "char_at (templ opt) (i + 1) = CHR ''%''"
    using that by (cases "i + 1 < length (templ opt)") auto
  then show ?thesis using assms Some
    by (auto simp: match_template_def format_of_def Let_def strprefix_def split: if_splits)
qed (use assms in \<open>auto simp: match_template_def format_of_def split: if_splits\<close>)

lemma find_opt_match: "find_opt os s = Some (opt # rest, sep) \<Longrightarrow> match_template (templ opt) s = Some sep"
  by (induction os) (auto split: option.splits)

lemma find_opt_sub: "find_opt os s = Some (os', sep) \<Longrightarrow> set os' \<subseteq> set os"
  by (induction os) (auto split: option.splits)

locale opt_client =
  fixes ts :: "fuse_opt list"
    and p :: "opt_proc option"
    and sc :: "string \<Rightarrow> string \<Rightarrow> opt_var option"
    and P :: "opt_data \<Rightarrow> bool"
  assumes stores: "opt \<in> set ts \<Longrightarrow> offset opt \<noteq> 0xffffffff \<Longrightarrow> stored sc opt v \<Longrightarrow> P d \<Longrightarrow> P (d(offset opt \<mapsto> v))"
    and calls: "p = Some f \<Longrightarrow> may_call ts arg key \<Longrightarrow> P d \<Longrightarrow> args_ok out \<Longrightarrow> gives_back P out (f d arg key out al)"
begin

definition ctx_ok :: "fuse_opt_context \<Rightarrow> bool" where
  "ctx_ok c \<longleftrightarrow> args_ok (outargs c) \<and> proc c = p \<and> copt c = ts \<and> scan c = sc \<and> P (cdata c)"

definition runs :: "fuse_opt_context \<Rightarrow> (int \<times> fuse_opt_context) option \<Rightarrow> bool" where
  "runs c x \<longleftrightarrow> (\<exists>r c'. x = Some (r, c') \<and> ctx_ok c' \<and> argc (outargs c) \<le> argc (outargs c'))"

lemma runs_Some [simp]:
  "runs c (Some (r, c')) \<longleftrightarrow> ctx_ok c' \<and> argc (outargs c) \<le> argc (outargs c')"
  by (simp add: runs_def)

lemma runs_trans: "runs a x \<Longrightarrow> argc (outargs b) \<le> argc (outargs a) \<Longrightarrow> runs b x"
  by (auto simp: runs_def)

lemma ctx_ok_upd [simp]:
  "ctx_ok (c\<lparr>cmem := al\<rparr>) = ctx_ok c"
  "ctx_ok (c\<lparr>opts := x\<rparr>) = ctx_ok c"
  "ctx_ok (c\<lparr>nonopt := n\<rparr>) = ctx_ok c"
  "ctx_ok (c\<lparr>argctr := n\<rparr>) = ctx_ok c"
  by (simp_all add: ctx_ok_def)

lemma next_arg_ok: "next_arg ctx s = (r, c') \<Longrightarrow> ctx_ok ctx \<Longrightarrow> ctx_ok c' \<and> outargs c' = outargs ctx"
  by (auto simp: next_arg_def split: if_splits)

lemma add_opt_ok: "add_opt ctx s = (r, c') \<Longrightarrow> ctx_ok ctx \<Longrightarrow> ctx_ok c' \<and> outargs c' = outargs ctx"
  by (auto simp: add_opt_def split: prod.splits)

lemma add_arg_runs: "ctx_ok ctx \<Longrightarrow> runs ctx (add_arg ctx s)"
  by (rule add_arg_cases [of "outargs ctx" "cmem ctx" s])
    (auto simp: add_arg_def ctx_ok_def argc_args_list)

lemma call_proc_runs:
  assumes "ctx_ok ctx" "may_call ts s key \<or> key = FUSE_OPT_KEY_DISCARD \<or> key = FUSE_OPT_KEY_KEEP"
  shows "runs ctx (call_proc ctx s key i)"
proof -
  have go: "runs ctx (if res = -1 \<or> res = 0 then Some (res, c) else if i then Some (add_opt c s) else add_arg c s)"
    if "ctx_ok c" "argc (outargs ctx) \<le> argc (outargs c)" for c res
    using that add_arg_runs [of c s] add_opt_ok [of c s]
    by (cases "add_opt c s") (auto intro: runs_trans [of c])
  show ?thesis
  proof (cases "key = FUSE_OPT_KEY_DISCARD \<or> key = FUSE_OPT_KEY_KEEP \<or> proc ctx = None")
    case True
    then show ?thesis using assms(1) go [OF assms(1), of 1] by (cases "proc ctx") (auto simp: call_proc_def)
  next
    case False
    then obtain f where f: "proc ctx = Some f" by auto
    then have "gives_back P (outargs ctx) (f (cdata ctx) s key (outargs ctx) (cmem ctx))"
      using assms False by (intro calls) (auto simp: ctx_ok_def)
    then obtain r d' out' al' where x: "f (cdata ctx) s key (outargs ctx) (cmem ctx) = Some (r, d', out', al')"
      "P d'" "args_ok out'" "argc (outargs ctx) \<le> argc out'" by (auto simp: gives_back_def)
    show ?thesis using go [of "ctx\<lparr>cdata := d', outargs := out', cmem := al'\<rparr>" r] False f x assms(1)
      unfolding call_proc_def f by (simp add: ctx_ok_def)
  qed
qed

lemma process_opt_param_runs:
  assumes "ctx_ok ctx" "opt \<in> set ts" "offset opt \<noteq> 0xffffffff" "format_of opt = Some f"
  shows "runs ctx (process_opt_param ctx (offset opt) f s)"
proof -
  have "char_at f 0 = CHR ''%''" using assms(4) by (auto simp: format_of_def split: option.splits if_splits)
  moreover have "ctx_ok (ctx\<lparr>cmem := al, cdata := (cdata ctx)(offset opt \<mapsto> v)\<rparr>)" if "stored sc opt v" for v al
    using assms that stores [of opt v "cdata ctx"] by (simp add: ctx_ok_def)
  moreover have "ctx_ok (ctx\<lparr>cdata := (cdata ctx)(offset opt \<mapsto> v)\<rparr>)" if "stored sc opt v" for v
    using assms that stores [of opt v "cdata ctx"] by (simp add: ctx_ok_def)
  moreover have sc: "scan ctx = sc" using assms(1) by (simp add: ctx_ok_def)
  moreover have "stored sc opt v" if "char_at f (Suc 0) \<noteq> CHR ''s''" "sc f s = Some v" for v
    using that assms(4) by (auto simp: stored_def)
  ultimately show ?thesis using assms(1,4) stored_def [of sc opt]
    by (auto simp: process_opt_param_def Let_def sc simp del: split_paired_Ex split: prod.splits option.splits)
qed

lemma process_opt_runs:
  assumes ok: "ctx_ok ctx" and opt: "opt \<in> set ts" and m: "match_template (templ opt) s0 = Some sep"
    and s: "s = s0 \<or> CHR '' '' \<in> set (templ opt)"
  shows "runs ctx (process_opt ctx opt sep s i)"
proof -
  have bind: "runs ctx (x \<bind> (\<lambda>(res, c). Some (if res = -1 then (-1, c) else (0, c))))"
    if "runs ctx x" for x
    using that by (auto simp: runs_def)
  show ?thesis
  proof (cases "offset opt = 0xffffffff")
    case True
    have "may_call ts s (opt_value opt)" using opt True m s by (auto simp: may_call_def)
    then show ?thesis using True by (simp add: process_opt_def bind call_proc_runs ok)
  next
    case False
    show ?thesis
    proof (cases "sep \<noteq> 0 \<and> char_at (templ opt) (sep + 1) \<noteq> NUL")
      case True
      then have "format_of opt = Some (drop (sep + 1) (templ opt))" using match_format [OF m] by simp
      from bind [OF process_opt_param_runs [OF ok opt False this]] show ?thesis using False True by (simp add: process_opt_def)
    next
      case no: False
      then have "stored sc opt (OInt (opt_value opt))" using match_format [OF m] by (auto simp: stored_def)
      from stores [OF opt False this] no ok False show ?thesis by (auto simp: process_opt_def ctx_ok_def)
    qed
  qed
qed

lemma process_opt_sep_arg_runs:
  assumes ok: "ctx_ok ctx" and opt: "opt \<in> set ts" and m: "match_template (templ opt) s = Some sep"
    and sp: "char_at (templ opt) sep = CHR '' ''"
  shows "runs ctx (process_opt_sep_arg ctx opt sep s i)"
proof (cases "next_arg ctx s")
  case (Pair r c1)
  with ok have c1: "ctx_ok c1" "outargs c1 = outargs ctx" by (auto dest: next_arg_ok)
  have "CHR '' '' \<in> set (templ opt)" using sp by (auto simp: char_at_def split: if_splits dest: nth_mem)
  then have "runs ctx (process_opt (c1\<lparr>cmem := al\<rparr>) opt sep s' i)" for al s'
    using process_opt_runs [OF _ opt m, of "c1\<lparr>cmem := al\<rparr>" s'] c1
    by (simp add: runs_trans [of "c1\<lparr>cmem := al\<rparr>" _ ctx])
  with c1 Pair show ?thesis
    by (auto simp: process_opt_sep_arg_def Let_def split: prod.splits)
qed

lemma runs_step:
  assumes "runs c x" "\<And>c1. ctx_ok c1 \<Longrightarrow> runs c1 (k c1)"
  shows "runs c (case x of None \<Rightarrow> None | Some (res, c1) \<Rightarrow> if res = -1 then Some (-1, c1) else k c1)"
proof -
  from assms(1) obtain r c1 where x: "x = Some (r, c1)"
    and c1: "ctx_ok c1" "argc (outargs c) \<le> argc (outargs c1)"
    unfolding runs_def by blast
  from runs_trans [OF assms(2) [OF c1(1)] c1(2)] show ?thesis using x c1 by simp
qed

lemma gopt_loop_runs:
  "ctx_ok ctx \<Longrightarrow> set qs \<subseteq> set ts \<Longrightarrow> (\<And>opt rest. qs = opt # rest \<Longrightarrow> match_template (templ opt) s = Some sep) \<Longrightarrow>
     runs ctx (gopt_loop ctx qs sep s i)"
proof (induction "length qs" arbitrary: ctx qs sep rule: less_induct)
  case less
  show ?case
  proof (cases qs)
    case (Cons opt rest)
    then have m: "match_template (templ opt) s = Some sep" "opt \<in> set ts" using less.prems(2,3) by auto
    have step: "runs ctx (if sep \<noteq> 0 \<and> char_at (templ opt) sep = CHR '' '' \<and> char_at s sep = NUL
        then process_opt_sep_arg ctx opt sep s i else process_opt ctx opt sep s i)"
      using process_opt_runs [OF less.prems(1) m(2,1) disjI1 [OF refl]] process_opt_sep_arg_runs [OF less.prems(1) m(2,1)] by simp
    have cont: "runs c1 (case find_opt rest s of None \<Rightarrow> Some (0, c1)
        | Some (ts, sep') \<Rightarrow> gopt_loop c1 ts sep' s i)" if "ctx_ok c1" for c1
    proof (cases "find_opt rest s")
      case (Some z)
      then obtain ts' sep' where f: "find_opt rest s = Some (ts', sep')" by (cases z) auto
      then have "length ts' < length qs" "set ts' \<subseteq> set ts" using Cons find_opt_shorter [OF f] find_opt_sub [OF f] less.prems(2) by auto
      then show ?thesis using less.hyps [of ts' c1 sep'] that f find_opt_match [of rest s] by auto
    qed (use that in simp)
    show ?thesis unfolding Cons gopt_loop.simps by (rule runs_step [OF step cont])
  qed (use less.prems in simp)
qed

lemma process_gopt_runs:
  assumes "ctx_ok ctx"
  shows "runs ctx (process_gopt ctx s i)"
proof (cases "find_opt ts s")
  case None
  then show ?thesis using assms call_proc_runs [of ctx s FUSE_OPT_KEY_OPT i]
    by (auto simp: process_gopt_def may_call_def ctx_ok_def)
next
  case (Some z)
  then obtain qs sep where "find_opt ts s = Some (qs, sep)" by (cases z) auto
  then show ?thesis using assms gopt_loop_runs [of ctx qs s sep i] find_opt_match [of ts s] find_opt_sub [of ts s]
    by (auto simp: process_gopt_def ctx_ok_def)
qed

lemma process_gopts_runs: "ctx_ok ctx \<Longrightarrow> runs ctx (process_gopts ctx os)"
proof (induction os arbitrary: ctx)
  case (Cons opt os)
  show ?case unfolding process_gopts.simps
    by (rule runs_step [OF process_gopt_runs [OF Cons.prems] Cons.IH])
qed simp

lemma process_option_group_runs:
  assumes "ctx_ok ctx"
  shows "runs ctx (process_option_group ctx s)"
proof -
  have "runs ctx (process_gopts (ctx\<lparr>cmem := al\<rparr>) os)" for al os
    using process_gopts_runs [of "ctx\<lparr>cmem := al\<rparr>" os] assms
    by (simp add: runs_trans [of "ctx\<lparr>cmem := al\<rparr>" _ ctx])
  then show ?thesis using assms
    by (auto simp: process_option_group_def group_eq_gopts Let_def split: prod.splits)
qed

lemma process_one_runs:
  assumes "ctx_ok ctx"
  shows "runs ctx (process_one ctx s)"
proof -
  have "runs ctx (add_arg ctx s \<bind> (\<lambda>(res, c). Some (if res = -1 then (-1, c)
      else (0, c\<lparr>nonopt := argc (outargs c)\<rparr>))))"
    using add_arg_runs [OF assms, of s] by (auto simp: runs_def)
  moreover have "runs ctx (process_option_group c1 s')" if "next_arg ctx s = (r, c1)" for r c1 s'
    using next_arg_ok [OF that assms] process_option_group_runs [of c1 s']
    by (simp add: runs_trans [of c1 _ ctx])
  moreover have "runs ctx (Some (-1, c1))" if "next_arg ctx s = (r, c1)" for r c1
    using next_arg_ok [OF that assms] by auto
  moreover have "may_call ts s FUSE_OPT_KEY_NONOPT" by (simp add: may_call_def)
  moreover note call_proc_runs [OF assms, of s FUSE_OPT_KEY_NONOPT] process_option_group_runs [OF assms]
    process_gopt_runs [OF assms]
  ultimately show ?thesis
    by (cases "next_arg ctx s") (simp add: process_one_def Let_def del: runs_Some)
qed

lemma opt_loop_runs: "ctx_ok ctx \<Longrightarrow> runs ctx (opt_loop ctx)"
proof (induction "length (cargv ctx) - argctr ctx" arbitrary: ctx rule: less_induct)
  case less
  show ?case
  proof (cases "argctr ctx < length (cargv ctx)")
    case True
    from process_one_runs [OF less.prems, of "cargv ctx ! argctr ctx"] obtain r c1
      where p: "process_one ctx (cargv ctx ! argctr ctx) = Some (r, c1)"
        and c1: "ctx_ok c1" "argc (outargs ctx) \<le> argc (outargs c1)"
      by (auto simp: runs_def)
    let ?c = "c1\<lparr>argctr := argctr c1 + 1\<rparr>"
    have "length (cargv ?c) - argctr ?c < length (cargv ctx) - argctr ctx"
      using process_one_ext [OF p] True by (auto simp: ctx_ext_def)
    then have "runs ?c (opt_loop ?c)" using less.hyps c1(1) by simp
    then have "runs ctx (opt_loop ?c)" by (rule runs_trans) (simp add: c1)
    with True p c1 show ?thesis by (subst opt_loop.simps) simp
  next
    case False
    then show ?thesis using less.prems by (subst opt_loop.simps) simp
  qed
qed

lemma insert_opts_runs:
  assumes "ctx_ok ctx" and "argc (outargs ctx) \<ge> 1"
  shows "runs ctx (insert_opts ctx)"
proof (cases "opts ctx")
  case (Some os)
  let ?a = "outargs ctx"
  from insert_arg_cases [of ?a 1 "cmem ctx" "''-o''"] assms obtain r al a
    where i1: "fuse_opt_insert_arg (cmem ctx) ?a 1 ''-o'' = Some (r, al, a)"
      and a: "args_ok a" "argc ?a \<le> argc a" "r = -1 \<or> argc a = Suc (argc ?a)"
    by (fastforce simp: ctx_ok_def argc_args_list)
  show ?thesis
  proof (cases "r = -1")
    case True
    then show ?thesis using Some i1 a assms by (simp add: insert_opts_def ctx_ok_def)
  next
    case False
    with a assms have "2 \<le> argc a" by simp
    from insert_arg_cases [OF a(1) this, of al os] obtain r2 al2 a2
      where i2: "fuse_opt_insert_arg al a 2 os = Some (r2, al2, a2)"
        and a2: "args_ok a2" "argc a \<le> argc a2"
      using a(1) by (fastforce simp: argc_args_list)
    with False Some i1 a assms show ?thesis by (simp add: insert_opts_def ctx_ok_def)
  qed
qed (use assms in \<open>simp add: insert_opts_def\<close>)

lemma opt_parse_runs:
  assumes "ctx_ok ctx" and "cargv ctx \<noteq> []"
  shows "\<exists>r c'. opt_parse ctx = Some (r, c') \<and> P (cdata c') \<and> args_ok (outargs c')"
proof -
  from assms(1) have ok: "args_ok (outargs ctx)" by (simp add: ctx_ok_def)
  show ?thesis
  proof (cases rule: add_arg_cases [OF ok, of "cmem ctx" "hd (cargv ctx)"])
    case (1 al)
    then show ?thesis using assms by (simp add: opt_parse_def add_arg_def ctx_ok_def)
  next
    case (2 al)
    let ?c = "ctx\<lparr>cmem := al, outargs := \<lparr>argv = Some (args_list (outargs ctx) @ [hd (cargv ctx)]),
      allocated = True\<rparr>, argctr := 1\<rparr>"
    have "ctx_ok ?c" using assms by (simp add: ctx_ok_def)
    from opt_loop_runs [OF this] obtain r c2 where l: "opt_loop ?c = Some (r, c2)"
      and c2: "ctx_ok c2" "argc (outargs ?c) \<le> argc (outargs c2)"
      unfolding runs_def by blast
    have "argc (outargs c2) \<ge> 1" using c2(2) by (simp add: argc_args_list)
    from insert_opts_runs [OF c2(1) this] obtain r3 c3 where "insert_opts c2 = Some (r3, c3)"
      unfolding runs_def by blast
    moreover have "P (cdata c3)" "args_ok (outargs c3)" using calculation insert_opts_runs [OF c2(1) \<open>argc (outargs c2) \<ge> 1\<close>] by (simp_all add: ctx_ok_def)
    moreover have "args_ok ((outargs c3)\<lparr>argv := Some v\<rparr>)" if "args_list (outargs c3) \<noteq> []" for v
      using \<open>args_ok (outargs c3)\<close> that by (auto simp: args_ok_def args_list_def split: option.splits)
    ultimately show ?thesis using assms 2 l c2(1)
      by (cases "r = -1") (auto simp: opt_parse_def add_arg_def ctx_ok_def drop_separator_def argc_args_list Let_def)
  qed
qed

lemma parse_keeps_args:
  assumes "P d"
  shows "\<exists>res args' d'. fuse_opt_parse al sc args d ts p = Some (res, args', d') \<and> P d' \<and>
    (\<forall>a. args = Some a \<longrightarrow> (\<exists>b. args' = Some b \<and> (res \<noteq> -1 \<and> argc a \<noteq> 0 \<longrightarrow> args_ok b)))"
proof (cases "args = None \<or> argv (the args) = None \<or> argc (the args) = 0")
  case True
  then show ?thesis using assms by (cases args) (auto simp: fuse_opt_parse_def argc_def)
next
  case False
  then obtain a where a: "args = Some a" "argv a \<noteq> None" "args_list a \<noteq> []" "argc a \<noteq> 0"
    by (auto simp: argc_args_list)
  let ?c = "init_context al sc (args_list a) d ts p"
  have "ctx_ok ?c" using assms by (simp add: init_context_def ctx_ok_def empty_args_def args_ok_def)
  moreover have "cargv ?c \<noteq> []" using a by (simp add: init_context_def)
  ultimately obtain r c where "opt_parse ?c = Some (r, c)" "P (cdata c)" "args_ok (outargs c)" using opt_parse_runs by blast
  with a show ?thesis by (auto simp: fuse_opt_parse_def)
qed

lemma parse_keeps:
  assumes "P d"
  shows "\<exists>res args' d'. fuse_opt_parse al sc args d ts p = Some (res, args', d') \<and> P d'"
  using parse_keeps_args [OF assms, of al args] by fast

end

text \<open>A client that keeps nothing but the arguments in order.\<close>

definition proc_ok :: "opt_proc option \<Rightarrow> bool" where
  "proc_ok p \<longleftrightarrow> (\<forall>f d arg key out al. p = Some f \<longrightarrow> args_ok out \<longrightarrow> gives_back (\<lambda>_. True) out (f d arg key out al))"

text \<open>
  No assertion of the parser fails: whatever the templates, the command line and the answers
  of the allocator, \<open>fuse_opt_parse\<close> returns, provided the client's processing function keeps the
  argument vector it may append to well-formed and does not shorten it.
\<close>

lemma fuse_opt_parse_no_abort:
  assumes "proc_ok p"
  shows "\<exists>res args' d'. fuse_opt_parse al sc args d os p = Some (res, args', d')"
proof -
  have "opt_client os p sc (\<lambda>_. True)" using assms by unfold_locales (auto simp: proc_ok_def)
  from opt_client.parse_keeps [OF this] show ?thesis by simp
qed

lemma fuse_opt_parse_no_abort_witness:
  "\<exists>res args' d'. fuse_opt_parse [True, False] (\<lambda>_ _. None)
     (Some \<lparr>argv = Some [''prog'', ''-o'', ''a,b''], allocated = False\<rparr>) Map.empty
     [\<lparr>templ = ''a'', offset = 0, opt_value = 1\<rparr>]
     (Some (\<lambda>d arg key out al. Some (1, d, out, al))) = Some (res, args', d')"
  by (rule fuse_opt_parse_no_abort) (simp add: proc_ok_def gives_back_def)

section \<open>A command line without templates\<close>

text \<open>
  The reference for a parse with no template and no processing function: the arguments kept in
  place, the options of all \<open>-o\<close> groups, and the position of the first \<open>--\<close> among the kept ones
  (0 for none); \<open>None\<close> when the last argument is a bare \<open>-o\<close>.
\<close>

fun classify :: "bool \<Rightarrow> string list \<Rightarrow> (string list \<times> string list \<times> nat) option" where
  "classify n [] = Some ([], [], 0)"
| "classify n (x # xs) =
     (if n \<or> char_at x 0 \<noteq> CHR ''-'' then
        map_option (\<lambda>(pl, os, k). (x # pl, os, if k = 0 then 0 else Suc k)) (classify n xs)
      else if char_at x 1 = CHR ''o'' then
        (if char_at x 2 \<noteq> NUL then
           map_option (\<lambda>(pl, os, k). (pl, split_group [] (drop 2 x) @ os, k)) (classify n xs)
         else (case xs of
                 [] \<Rightarrow> None
               | g # ys \<Rightarrow> map_option (\<lambda>(pl, os, k). (pl, split_group [] g @ os, k)) (classify n ys)))
      else if char_at x 1 = CHR ''-'' \<and> char_at x 2 = NUL then
        map_option (\<lambda>(pl, os, k). (x # pl, os, 1)) (classify True xs)
      else map_option (\<lambda>(pl, os, k). (x # pl, os, if k = 0 then 0 else Suc k)) (classify n xs))"

definition plain_ctx :: "fuse_opt_context \<Rightarrow> bool" where
  "plain_ctx c \<longleftrightarrow> copt c = [] \<and> proc c = None \<and> cmem c = [] \<and> args_ok (outargs c)"

definition add_escaped :: "string option \<Rightarrow> string \<Rightarrow> string option" where
  "add_escaped acc opt = snd (snd (fuse_opt_add_opt_escaped [] acc opt))"

definition kept :: "fuse_args \<Rightarrow> string list \<Rightarrow> fuse_args" where
  "kept a xs = (if xs = [] then a else \<lparr>argv = Some (args_list a @ xs), allocated = True\<rparr>)"

lemma kept_Nil [simp]: "kept a [] = a"
  by (simp add: kept_def)

lemma args_list_kept [simp]: "args_list (kept a xs) = args_list a @ xs"
  by (simp add: kept_def)

lemma args_ok_kept [simp]: "args_ok a \<Longrightarrow> args_ok (kept a xs)"
  by (simp add: kept_def)

lemma kept_kept [simp]: "kept (kept a xs) ys = kept a (xs @ ys)"
  by (auto simp: kept_def)

lemma plain_ctx_upd [simp]:
  "plain_ctx (c\<lparr>opts := os\<rparr>) = plain_ctx c"
  "plain_ctx (c\<lparr>nonopt := n\<rparr>) = plain_ctx c"
  "plain_ctx (c\<lparr>argctr := n\<rparr>) = plain_ctx c"
  "plain_ctx c \<Longrightarrow> plain_ctx (c\<lparr>outargs := kept (outargs c) xs\<rparr>)"
  by (simp_all add: plain_ctx_def)

lemma plain_ctxD:
  "plain_ctx c \<Longrightarrow> copt c = []" "plain_ctx c \<Longrightarrow> proc c = None"
  "plain_ctx c \<Longrightarrow> cmem c = []" "plain_ctx c \<Longrightarrow> args_ok (outargs c)"
  "plain_ctx c \<Longrightarrow> c\<lparr>cmem := []\<rparr> = c"
  by (cases c; simp add: plain_ctx_def)+

lemma plain_add_arg: "plain_ctx c \<Longrightarrow> add_arg c x = Some (0, c\<lparr>outargs := kept (outargs c) [x]\<rparr>)"
  by (simp add: plain_ctxD add_arg_def fuse_opt_add_arg_ok kept_def)

lemma plain_add_opt: "plain_ctx c \<Longrightarrow> add_opt c x = (0, c\<lparr>opts := add_escaped (opts c) x\<rparr>)"
  by (simp add: plain_ctxD add_opt_def add_escaped_def fuse_opt_add_opt_escaped_def
      add_opt_common_def Let_def)

lemma plain_call_proc:
  "plain_ctx c \<Longrightarrow> key \<noteq> FUSE_OPT_KEY_DISCARD \<Longrightarrow>
     call_proc c x key i = Some (0, if i then c\<lparr>opts := add_escaped (opts c) x\<rparr>
       else c\<lparr>outargs := kept (outargs c) [x]\<rparr>)"
  by (simp add: call_proc_def plain_add_arg plain_add_opt plain_ctxD)

lemma plain_process_gopt:
  "plain_ctx c \<Longrightarrow> process_gopt c x i = Some (0, if i then c\<lparr>opts := add_escaped (opts c) x\<rparr>
     else c\<lparr>outargs := kept (outargs c) [x]\<rparr>)"
  using plain_call_proc [of c FUSE_OPT_KEY_OPT] by (simp add: process_gopt_def plain_ctxD key_defs)

lemma plain_process_gopts:
  "plain_ctx c \<Longrightarrow> process_gopts c os = Some (0, c\<lparr>opts := foldl add_escaped (opts c) os\<rparr>)"
  by (induction os arbitrary: c) (simp_all add: plain_process_gopt)

lemma plain_process_option_group:
  "plain_ctx c \<Longrightarrow> process_option_group c g
     = Some (0, c\<lparr>opts := foldl add_escaped (opts c) (split_group [] g)\<rparr>)"
  by (simp add: process_option_group_def group_eq_gopts plain_process_gopts plain_ctxD)

definition after :: "fuse_opt_context \<Rightarrow> string list \<times> string list \<times> nat \<Rightarrow> fuse_opt_context" where
  "after c r = (case r of (pl, os, k) \<Rightarrow>
     c\<lparr>argctr := length (cargv c), outargs := kept (outargs c) pl,
       opts := foldl add_escaped (opts c) os,
       nonopt := (if nonopt c \<noteq> 0 then nonopt c else if k = 0 then 0 else argc (outargs c) + k)\<rparr>)"

lemma classify_nonopt: "classify True xs = Some (xs, [], 0)"
  by (induction xs) simp_all

lemma opt_loop_step:
  assumes "argctr c < length (cargv c)" "process_one c (cargv c ! argctr c) = Some (0, c1)"
  shows "opt_loop c = opt_loop (c1\<lparr>argctr := argctr c1 + 1\<rparr>)"
  using assms by (subst opt_loop.simps) simp

lemma plain_process_one:
  assumes c: "plain_ctx c" and d: "drop (argctr c) (cargv c) = x # xs"
  shows "process_one c x =
    (if nonopt c \<noteq> 0 \<or> char_at x 0 \<noteq> CHR ''-'' then Some (0, c\<lparr>outargs := kept (outargs c) [x]\<rparr>)
     else if char_at x 1 = CHR ''o'' then
       (if char_at x 2 \<noteq> NUL then
          Some (0, c\<lparr>opts := foldl add_escaped (opts c) (split_group [] (drop 2 x))\<rparr>)
        else case xs of [] \<Rightarrow> Some (-1, c)
          | g # ys \<Rightarrow> Some (0, c\<lparr>argctr := argctr c + 1,
              opts := foldl add_escaped (opts c) (split_group [] g)\<rparr>))
     else if char_at x 1 = CHR ''-'' \<and> char_at x 2 = NUL then
       Some (0, c\<lparr>outargs := kept (outargs c) [x], nonopt := argc (outargs c) + 1\<rparr>)
     else Some (0, c\<lparr>outargs := kept (outargs c) [x]\<rparr>))"
proof -
  have xs: "xs = drop (Suc (argctr c)) (cargv c)"
    using d by (metis drop_Suc list.sel(3) tl_drop)
  have len: "Suc (argctr c) < length (cargv c) \<longleftrightarrow> xs \<noteq> []" by (auto simp: xs)
  have g: "cargv c ! Suc (argctr c) = g" if "xs = g # ys" for g ys
    using that xs by (metis drop_eq_Nil2 hd_drop_conv_nth linorder_not_le list.discI list.sel(1))
  show ?thesis
    using c len g
    by (auto simp: process_one_def plain_call_proc plain_process_gopt plain_process_option_group
        plain_add_arg key_defs next_arg_def argc_args_list split: list.split)
qed

lemma opt_loop_classify:
  "plain_ctx c \<Longrightarrow> argctr c \<le> length (cargv c) \<Longrightarrow>
    (case classify (nonopt c \<noteq> 0) (drop (argctr c) (cargv c)) of
       None \<Rightarrow> \<exists>c'. opt_loop c = Some (-1, c') \<and> cdata c' = cdata c
     | Some r \<Rightarrow> opt_loop c = Some (0, after c r))"
proof (induction "length (cargv c) - argctr c" arbitrary: c rule: less_induct)
  case less
  note c = less.prems(1)
  show ?case
  proof (cases "drop (argctr c) (cargv c)")
    case Nil
    with less.prems show ?thesis
      by (cases c) (subst opt_loop.simps, simp add: after_def)
  next
    case (Cons x xs)
    then have lt: "argctr c < length (cargv c)" by (metis drop_eq_Nil2 linorder_not_le list.discI)
    have x: "cargv c ! argctr c = x" and xs: "drop (Suc (argctr c)) (cargv c) = xs"
      using Cons lt by (metis Cons_nth_drop_Suc list.inject)+
    note one = plain_process_one [OF c Cons]
    have IH: "case classify (nonopt c1 \<noteq> 0) (drop (Suc (argctr c1)) (cargv c)) of
        None \<Rightarrow> \<exists>c'. opt_loop c = Some (-1, c') \<and> cdata c' = cdata c1
      | Some r \<Rightarrow> opt_loop c = Some (0, after (c1\<lparr>argctr := Suc (argctr c1)\<rparr>) r)"
      if p: "process_one c x = Some (0, c1)" and pc: "plain_ctx c1" and le: "argctr c1 < length (cargv c)"
      for c1
    proof -
      let ?c = "c1\<lparr>argctr := argctr c1 + 1\<rparr>"
      have ext: "cargv c1 = cargv c" "argctr c \<le> argctr c1"
        using process_one_ext [OF p] by (auto simp: ctx_ext_def)
      have "opt_loop c = opt_loop ?c" using lt p x by (simp add: opt_loop_step)
      moreover have "length (cargv ?c) - argctr ?c < length (cargv c) - argctr c"
        using ext le by simp
      ultimately show ?thesis using less.hyps [of ?c] pc le ext(1)
        by (auto split: option.splits)
    qed
    have kept: ?thesis if "process_one c x = Some (0, c\<lparr>outargs := kept (outargs c) [x]\<rparr>)"
        "classify (nonopt c \<noteq> 0) (x # xs)
          = map_option (\<lambda>(pl, os, k). (x # pl, os, if k = 0 then 0 else Suc k)) (classify (nonopt c \<noteq> 0) xs)"
      using IH [OF that(1)] that(2) c lt xs Cons
      by (auto simp: after_def argc_args_list split: option.splits)
    consider (a) "nonopt c \<noteq> 0 \<or> char_at x 0 \<noteq> CHR ''-''"
      | (b) "nonopt c = 0" "char_at x 0 = CHR ''-''" "char_at x 1 = CHR ''o''" "char_at x 2 \<noteq> NUL"
      | (d) "nonopt c = 0" "char_at x 0 = CHR ''-''" "char_at x 1 = CHR ''o''" "char_at x 2 = NUL"
      | (e) "nonopt c = 0" "char_at x 0 = CHR ''-''" "char_at x 1 = CHR ''-''" "char_at x 2 = NUL"
      | (f) "nonopt c = 0" "char_at x 0 = CHR ''-''" "char_at x 1 \<noteq> CHR ''o''"
          "\<not> (char_at x 1 = CHR ''-'' \<and> char_at x 2 = NUL)"
      by blast
    then show ?thesis
    proof cases
      case a
      then show ?thesis by (intro kept) (auto simp: one)
    next
      case b
      then have "process_one c x
          = Some (0, c\<lparr>opts := foldl add_escaped (opts c) (split_group [] (drop 2 x))\<rparr>)"
        by (simp add: one)
      from IH [OF this] show ?thesis using b c lt xs Cons
        by (auto simp: after_def split: option.splits)
    next
      case d
      show ?thesis
      proof (cases xs)
        case Nil
        with d have "process_one c x = Some (-1, c)" by (simp add: one)
        with d Nil Cons lt x show ?thesis by (subst opt_loop.simps) simp
      next
        case (Cons g ys)
        with d have p: "process_one c x = Some (0, c\<lparr>argctr := argctr c + 1,
            opts := foldl add_escaped (opts c) (split_group [] g)\<rparr>)"
          by (simp add: one)
        have "Suc (argctr c) < length (cargv c)" using xs Cons
          by (metis drop_eq_Nil2 linorder_not_le list.discI)
        moreover have "drop (Suc (Suc (argctr c))) (cargv c) = ys"
          using xs Cons by (metis drop_Suc list.sel(3) tl_drop)
        ultimately show ?thesis using IH [OF p] d c Cons \<open>drop (argctr c) (cargv c) = x # xs\<close>
          by (auto simp: after_def split: option.splits)
      qed
    next
      case e
      then have "process_one c x
          = Some (0, c\<lparr>outargs := kept (outargs c) [x], nonopt := argc (outargs c) + 1\<rparr>)"
        by (simp add: one)
      from IH [OF this] show ?thesis using e c lt xs Cons
        by (auto simp: after_def classify_nonopt plain_ctx_def argc_args_list)
    next
      case f
      then show ?thesis by (intro kept) (auto simp: one)
    qed
  qed
qed

lemma foldl_add_escaped_None: "foldl add_escaped None os = join_escaped os"
  by (simp add: join_escaped_def add_escaped_def [abs_def])

lemma foldl_add_escaped_ne: "acc \<noteq> None \<Longrightarrow> foldl add_escaped acc os \<noteq> None"
  by (induction os arbitrary: acc) (auto simp: add_escaped_def add_opt_escaped_ok)

lemma join_escaped_None [simp]: "join_escaped os = None \<longleftrightarrow> os = []"
  by (cases os) (auto simp: join_escaped_def add_opt_escaped_ok [of None]
      foldl_add_escaped_ne [unfolded add_escaped_def])

lemma join_escaped_Nil [simp]: "join_escaped [] = None"
  by simp

text \<open>What the parse returns as the argument vector: a last \<open>--\<close> goes away only without options.\<close>

definition parsed_args :: "string \<Rightarrow> string list \<times> string list \<times> nat \<Rightarrow> string list" where
  "parsed_args prog r = (case r of (pl, os, k) \<Rightarrow>
     (case join_escaped os of
        None \<Rightarrow> prog # (if k \<noteq> 0 \<and> k = length pl \<and> last pl = ''--'' then butlast pl else pl)
      | Some text \<Rightarrow> prog # ''-o'' # text # pl))"

lemma classify_index: "classify n xs = Some (pl, os, k) \<Longrightarrow> k \<le> length pl"
proof (induction n xs arbitrary: pl os k rule: classify.induct)
  case (2 n x xs)
  have step: "k \<le> length pl" if "map_option (\<lambda>(pl, os, k). (x # pl, os, if k = 0 then 0 else Suc k)) r
      = Some (pl, os, k)" "\<And>pl os k. r = Some (pl, os, k) \<Longrightarrow> k \<le> length pl" for r
    using that by (cases r) (auto split: if_splits)
  have skip: "k \<le> length pl" if "map_option (\<lambda>(pl, os, k). (pl, g @ os, k)) r
      = Some (pl, os, k)" "\<And>pl os k. r = Some (pl, os, k) \<Longrightarrow> k \<le> length pl" for r g
    using that by (cases r) auto
  show ?case
    using "2.prems" step skip "2.IH"
    by (auto simp: classify_nonopt split: if_splits list.splits)
qed simp

lemma plain_insert_opts:
  assumes "cmem c = []" and "args_ok (outargs c)" and "outargs c = \<lparr>argv = Some (prog # pl), allocated = b\<rparr>"
  shows "insert_opts c = Some (0, case opts c of None \<Rightarrow> c
    | Some text \<Rightarrow> c\<lparr>outargs := \<lparr>argv = Some (prog # ''-o'' # text # pl), allocated = True\<rparr>\<rparr>)"
  using assms
  by (cases c) (auto simp: insert_opts_def fuse_opt_insert_arg_ok argc_args_list insert_at_def
      split: option.split)

lemma drop_separator_parsed:
  assumes "outargs c = \<lparr>argv = Some (prog # pl), allocated = True\<rparr>"
    and "nonopt c = (if k = 0 then 0 else Suc k)" and "k \<le> length pl"
  shows "drop_separator (case join_escaped os of None \<Rightarrow> c
      | Some text \<Rightarrow> c\<lparr>outargs := \<lparr>argv = Some (prog # ''-o'' # text # pl), allocated = True\<rparr>\<rparr>)
    = c\<lparr>outargs := \<lparr>argv = Some (parsed_args prog (pl, os, k)), allocated = True\<rparr>\<rparr>"
proof -
  have same: "c\<lparr>outargs := \<lparr>argv = Some (prog # pl), allocated = True\<rparr>\<rparr> = c"
    using assms(1) by (cases c) simp
  show ?thesis
  proof (cases "join_escaped os")
    case None
    have "pl \<noteq> []" if "k \<noteq> 0" using that assms(3) by auto
    then show ?thesis using None assms same
      by (simp add: drop_separator_def parsed_args_def argc_def)
  next
    case (Some t)
    then show ?thesis using assms
      by (simp add: drop_separator_def parsed_args_def argc_def)
  qed
qed

lemma parse_plain:
  assumes "argv a = Some (prog # rest)"
  shows "fuse_opt_parse [] sc (Some a) d [] None =
    (case classify False rest of
       None \<Rightarrow> Some (-1, Some a, d)
     | Some r \<Rightarrow> Some (0, Some \<lparr>argv = Some (parsed_args prog r), allocated = True\<rparr>, d))"
proof -
  let ?ini = "init_context [] sc (prog # rest) d [] None"
  define c where "c = ?ini\<lparr>outargs := \<lparr>argv = Some [prog], allocated = True\<rparr>, argctr := 1\<rparr>"
  have plain: "plain_ctx c" by (simp add: c_def plain_ctx_def init_context_def)
  have c: "cargv ?ini = prog # rest" "cargv c = prog # rest" "argctr c = 1" "outargs c = \<lparr>argv = Some [prog], allocated = True\<rparr>" "cmem c = []"
     "cdata c = d" "nonopt c = 0" "opts c = None"
    by (simp_all add: c_def init_context_def)
  have "add_arg ?ini prog = Some (0, ?ini\<lparr>outargs := \<lparr>argv = Some [prog], allocated = True\<rparr>\<rparr>)"
    using plain_add_arg [of ?ini prog]
    by (simp add: plain_ctx_def init_context_def empty_args_def kept_def args_list_def args_ok_def)
  then have parse: "opt_parse ?ini = opt_loop c \<bind> (\<lambda>(res2, ctx2). if res2 = -1 then Some (-1, ctx2)
      else insert_opts ctx2 \<bind> (\<lambda>(res3, ctx3).
        Some (if res3 = -1 then (-1, ctx3) else (0, drop_separator ctx3))))"
    using c(1) by (simp add: opt_parse_def c_def)
  have a: "argc a \<noteq> 0" "args_list a = prog # rest" "argv a \<noteq> None"
    using assms by (simp_all add: argc_def args_list_def)
  have loop: "case classify False rest of
      None \<Rightarrow> \<exists>c'. opt_loop c = Some (-1, c') \<and> cdata c' = d
    | Some r \<Rightarrow> opt_loop c = Some (0, after c r)"
    using opt_loop_classify [OF plain] c by (auto split: option.splits)
  show ?thesis
  proof (cases "classify False rest")
    case None
    with loop obtain c' where "opt_loop c = Some (-1, c')" "cdata c' = d" by auto
    with None a parse show ?thesis by (simp add: fuse_opt_parse_def)
  next
    case (Some r)
    obtain pl os k where r: "r = (pl, os, k)" by (cases r)
    let ?f = "after c r"
    have f: "cmem ?f = []" "args_ok (outargs ?f)" "args_list (outargs ?f) = prog # pl"
      "opts ?f = join_escaped os" "nonopt ?f = (if k = 0 then 0 else Suc k)" "cdata ?f = d"
      "outargs ?f = \<lparr>argv = Some (prog # pl), allocated = True\<rparr>"
      using c by (simp_all add: r after_def foldl_add_escaped_None kept_def
          argc_def)
    have "k \<le> length pl" using classify_index Some r by simp
    from drop_separator_parsed [OF f(7,5) this, of os]
    have sep: "drop_separator (case opts ?f of None \<Rightarrow> ?f
        | Some text \<Rightarrow> ?f\<lparr>outargs := \<lparr>argv = Some (prog # ''-o'' # text # pl), allocated = True\<rparr>\<rparr>)
      = ?f\<lparr>outargs := \<lparr>argv = Some (parsed_args prog r), allocated = True\<rparr>\<rparr>"
      unfolding f(4) by (simp only: r)
    then show ?thesis
      using Some loop a parse plain_insert_opts [OF f(1,2,7)] f(6) sep assms
      by (simp add: fuse_opt_parse_def)
  qed
qed

text \<open>
  Parsing a command line without templates: the first argument stays first, every other
  argument keeps its place, and the options of all \<open>-o\<close> groups move into one escaped group right
  after the first argument; the client's struct is untouched.  A bare \<open>-o\<close> at the end is the
  only error, and it leaves the argument vector as it was.
\<close>

lemma parse_without_templates:
  assumes "argv a = Some (prog # rest)"
  shows "fuse_opt_parse [] sc (Some a) d [] None =
    (case classify False rest of
       None \<Rightarrow> Some (-1, Some a, d)
     | Some r \<Rightarrow> Some (0, Some \<lparr>argv = Some (parsed_args prog r), allocated = True\<rparr>, d))"
  using assms by (rule parse_plain)

lemma parse_without_templates_witness:
  "fuse_opt_parse [] (\<lambda>_ _. None) (Some \<lparr>argv = Some [''p'', ''-oa,b'', ''x'', ''-o'', ''c''], allocated = False\<rparr>)
     Map.empty [] None
   = Some (0, Some \<lparr>argv = Some [''p'', ''-o'', ''a,b,c'', ''x''], allocated = True\<rparr>, Map.empty)"
proof -
  have a: "argv \<lparr>argv = Some [''p'', ''-oa,b'', ''x'', ''-o'', ''c''], allocated = False\<rparr>
      = Some (''p'' # [''-oa,b'', ''x'', ''-o'', ''c''])" by simp
  have "split_group [] ''a,b'' = [''a'', ''b'']" "split_group [] ''c'' = [''c'']"
    by (simp_all add: split_group_char read_char_def)
  then show ?thesis
    using parse_without_templates [OF a, of "\<lambda>_ _. None" Map.empty]
    by (simp add: parsed_args_def join_escaped_def add_opt_escaped_ok)
qed

text \<open>
  A last \<open>--\<close> is removed from a command line without options, but stays when there are
  options: \<open>nonopt\<close> is compared with the argument count only after \<open>-o\<close> and its text were inserted.
\<close>

lemma separator_removed_only_without_options:
  "fuse_opt_parse [] sc (Some \<lparr>argv = Some [prog, ''--''], allocated = b\<rparr>) d [] None
     = Some (0, Some \<lparr>argv = Some [prog], allocated = True\<rparr>, d) \<and>
   fuse_opt_parse [] sc (Some \<lparr>argv = Some [prog, ''-oro'', ''--''], allocated = b\<rparr>) d [] None
     = Some (0, Some \<lparr>argv = Some [prog, ''-o'', ''ro'', ''--''], allocated = True\<rparr>, d)"
proof -
  have "split_group [] ''ro'' = [''ro'']"
    by (simp add: split_group_char read_char_def)
  then show ?thesis
    by (simp add: parse_plain parsed_args_def join_escaped_def add_opt_escaped_ok)
qed

end
