(* ===== verification/Buffer.thy ===== *)
theory Buffer
  imports Prelude
begin

text \<open>
  Data buffers, \<open>.deps/libfuse3-3.16.2/lib/buffer.c\<close> with the types of \<open>include/fuse_common.h\<close>:
  the size of a vector (\<open>fuse_buf_size\<close>), the loops that move bytes between memory and file
  descriptors (\<open>fuse_buf_write\<close>, \<open>fuse_buf_read\<close>, \<open>fuse_buf_fd_to_fd\<close>, \<open>fuse_buf_splice\<close>), the
  position of a vector (\<open>fuse_bufvec_current\<close>, \<open>fuse_bufvec_advance\<close>) and the copy between two
  vectors (\<open>fuse_buf_copy\<close>).

  Memory is a function from addresses to bytes.  The system calls are the parameter \<open>io\<close>, over the
  state \<open>'w\<close> of the kernel; a call answers \<open>Inl errno\<close> or \<open>Inr\<close> of its result.  Sizes are natural
  numbers; \<open>fuse_buf_size\<close>, where the wrap-around of \<open>size_t\<close> shows, writes it out.
\<close>

section \<open>Buffers and system calls\<close>

type_synonym bytes = "u8 list"
type_synonym memory = "nat \<Rightarrow> u8"

record fuse_buf =
  buf_size :: nat
  buf_is_fd :: bool         \<comment> \<open>\<open>FUSE_BUF_IS_FD\<close>\<close>
  buf_fd_seek :: bool       \<comment> \<open>\<open>FUSE_BUF_FD_SEEK\<close>\<close>
  buf_fd_retry :: bool      \<comment> \<open>\<open>FUSE_BUF_FD_RETRY\<close>\<close>
  buf_mem :: nat
  buf_fd :: int
  buf_pos :: nat

record fuse_bufvec =
  bv_idx :: nat
  bv_off :: nat
  bv_buf :: "fuse_buf list"  \<comment> \<open>\<open>count\<close> is the length\<close>

record copy_flags =
  no_splice :: bool
  force_splice :: bool
  splice_move :: bool
  splice_nonblock :: bool

record 'w sys_io =
  io_write :: "int \<Rightarrow> bytes \<Rightarrow> 'w \<Rightarrow> (int + nat) \<times> 'w"
  io_pwrite :: "int \<Rightarrow> bytes \<Rightarrow> nat \<Rightarrow> 'w \<Rightarrow> (int + nat) \<times> 'w"
  io_read :: "int \<Rightarrow> nat \<Rightarrow> 'w \<Rightarrow> (int + bytes) \<times> 'w"
  io_pread :: "int \<Rightarrow> nat \<Rightarrow> nat \<Rightarrow> 'w \<Rightarrow> (int + bytes) \<times> 'w"
  io_splice :: "int \<Rightarrow> nat option \<Rightarrow> int \<Rightarrow> nat option \<Rightarrow> nat \<Rightarrow> bool \<times> bool \<Rightarrow> 'w
    \<Rightarrow> (int + nat) \<times> nat option \<times> nat option \<times> 'w"

definition mem_load :: "memory \<Rightarrow> nat \<Rightarrow> nat \<Rightarrow> bytes" where
  "mem_load m a n = map (\<lambda>i. m (a + i)) [0..<n]"

definition mem_store :: "memory \<Rightarrow> nat \<Rightarrow> bytes \<Rightarrow> memory" where
  "mem_store m a bs = (\<lambda>x. if a \<le> x \<and> x < a + length bs then bs ! (x - a) else m x)"

section \<open>Sizes\<close>

definition SIZE_MAX :: nat where
  "SIZE_MAX = 2 ^ 64 - 1"

fun size_loop :: "fuse_buf list \<Rightarrow> nat \<Rightarrow> nat" where
  "size_loop [] sz = sz"
| "size_loop (b # bs) sz =
     size_loop bs (if buf_size b = SIZE_MAX then SIZE_MAX else (sz + buf_size b) mod 2 ^ 64)"

definition fuse_buf_size :: "fuse_bufvec \<Rightarrow> nat" where
  "fuse_buf_size bufv = size_loop (bv_buf bufv) 0"

definition min_size :: "nat \<Rightarrow> nat \<Rightarrow> nat" where
  "min_size s1 s2 = (if s1 < s2 then s1 else s2)"

section \<open>Memory to file descriptor and back\<close>

text \<open>The loop of \<open>fuse_buf_write\<close>: \<open>data\<close> is what is left to write, \<open>copied\<close> what was written.\<close>

function write_loop ::
  "'w sys_io \<Rightarrow> fuse_buf \<Rightarrow> nat \<Rightarrow> bytes \<Rightarrow> nat \<Rightarrow> 'w \<Rightarrow> int \<times> 'w" where
  "write_loop io dst dst_off data copied w =
     (if data = [] then (int copied, w)
      else case (if buf_fd_seek dst then io_pwrite io (buf_fd dst) data (buf_pos dst + dst_off) w
                 else io_write io (buf_fd dst) data w) of
        (Inl e, w1) \<Rightarrow> if copied = 0 then (- e, w1) else (int copied, w1)
      | (Inr res, w1) \<Rightarrow>
          if res = 0 then (int copied, w1)
          else if \<not> buf_fd_retry dst then (int (copied + res), w1)
          else write_loop io dst (dst_off + res) (drop res data) (copied + res) w1)"
  by pat_completeness auto
termination
  by (relation "measure (\<lambda>(io, dst, dst_off, data, copied, w). length data)") auto

declare write_loop.simps [simp del]

definition fuse_buf_write ::
  "'w sys_io \<Rightarrow> fuse_buf \<Rightarrow> nat \<Rightarrow> fuse_buf \<Rightarrow> nat \<Rightarrow> nat \<Rightarrow> memory \<Rightarrow> 'w \<Rightarrow> int \<times> 'w" where
  "fuse_buf_write io dst dst_off src src_off len m w =
     write_loop io dst dst_off (mem_load m (buf_mem src + src_off) len) 0 w"

text \<open>
  The loop of \<open>fuse_buf_read\<close>, which answers its result and the bytes it placed from
  \<open>dst->mem + dst_off\<close> on.
\<close>

function read_loop ::
  "'w sys_io \<Rightarrow> fuse_buf \<Rightarrow> nat \<Rightarrow> nat \<Rightarrow> bytes \<Rightarrow> 'w \<Rightarrow> int \<times> bytes \<times> 'w" where
  "read_loop io src src_off len got w =
     (if len = 0 then (int (length got), got, w)
      else case (if buf_fd_seek src then io_pread io (buf_fd src) len (buf_pos src + src_off) w
                 else io_read io (buf_fd src) len w) of
        (Inl e, w1) \<Rightarrow> if got = [] then (- e, got, w1) else (int (length got), got, w1)
      | (Inr bs, w1) \<Rightarrow>
          if bs = [] then (int (length got), got, w1)
          else if \<not> buf_fd_retry src then (int (length (got @ bs)), got @ bs, w1)
          else read_loop io src (src_off + length bs) (len - length bs) (got @ bs) w1)"
  by pat_completeness auto
termination
  by (relation "measure (\<lambda>(io, src, src_off, len, got, w). len)") auto

declare read_loop.simps [simp del]

definition fuse_buf_read ::
  "'w sys_io \<Rightarrow> fuse_buf \<Rightarrow> nat \<Rightarrow> fuse_buf \<Rightarrow> nat \<Rightarrow> nat \<Rightarrow> memory \<Rightarrow> 'w \<Rightarrow> int \<times> memory \<times> 'w" where
  "fuse_buf_read io dst dst_off src src_off len m w =
     (let (res, bs, w1) = read_loop io src src_off len [] w
      in (res, mem_store m (buf_mem dst + dst_off) bs, w1))"

section \<open>File descriptor to file descriptor\<close>

text \<open>
  \<open>fuse_buf_fd_to_fd\<close> goes through a stack buffer of 4096 bytes whose own flags are 0; what
  \<open>fuse_buf_read\<close> placed in it is handed to \<open>fuse_buf_write\<close>.
\<close>

function fd_to_fd_loop ::
  "'w sys_io \<Rightarrow> fuse_buf \<Rightarrow> nat \<Rightarrow> fuse_buf \<Rightarrow> nat \<Rightarrow> nat \<Rightarrow> nat \<Rightarrow> 'w \<Rightarrow> int \<times> 'w" where
  "fd_to_fd_loop io dst dst_off src src_off len copied w =
     (if len = 0 then (int copied, w)
      else
        let this_len = min_size 4096 len;
            (res, bs, w1) = read_loop io src src_off this_len [] w in
        if res < 0 then (if copied = 0 then (res, w1) else (int copied, w1))
        else if res = 0 then (int copied, w1)
        else
          let (res2, w2) = write_loop io dst dst_off bs 0 w1 in
          if res2 < 0 then (if copied = 0 then (res2, w2) else (int copied, w2))
          else if res2 = 0 then (int copied, w2)
          else
            let n = nat res2 in
            if n < this_len then (int (copied + n), w2)
            else fd_to_fd_loop io dst (dst_off + n) src (src_off + n) (len - n) (copied + n) w2)"
  by pat_completeness auto
termination
  by (relation "measure (\<lambda>(io, dst, dst_off, src, src_off, len, copied, w). len)") auto

declare fd_to_fd_loop.simps [simp del]

definition fuse_buf_fd_to_fd ::
  "'w sys_io \<Rightarrow> fuse_buf \<Rightarrow> nat \<Rightarrow> fuse_buf \<Rightarrow> nat \<Rightarrow> nat \<Rightarrow> 'w \<Rightarrow> int \<times> 'w" where
  "fuse_buf_fd_to_fd io dst dst_off src src_off len w = fd_to_fd_loop io dst dst_off src src_off len 0 w"

text \<open>The loop of \<open>fuse_buf_splice\<close>; the kernel moves the positions it is given a pointer to.\<close>

function splice_loop ::
  "'w sys_io \<Rightarrow> fuse_buf \<Rightarrow> nat \<Rightarrow> fuse_buf \<Rightarrow> nat \<Rightarrow> copy_flags \<Rightarrow> nat option \<Rightarrow> nat option
     \<Rightarrow> nat \<Rightarrow> nat \<Rightarrow> 'w \<Rightarrow> int \<times> 'w" where
  "splice_loop io dst dst_off src src_off flags srcpos dstpos len copied w =
     (if len = 0 then (int copied, w)
      else case io_splice io (buf_fd src) srcpos (buf_fd dst) dstpos len
             (splice_move flags, splice_nonblock flags) w of
        (Inl e, srcpos1, dstpos1, w1) \<Rightarrow>
          if copied \<noteq> 0 then (int copied, w1)
          else if e \<noteq> EINVAL \<or> force_splice flags then (- e, w1)
          else fuse_buf_fd_to_fd io dst dst_off src src_off len w1
      | (Inr res, srcpos1, dstpos1, w1) \<Rightarrow>
          if res = 0 then (int copied, w1)
          else if \<not> buf_fd_retry src \<and> \<not> buf_fd_retry dst then (int (copied + res), w1)
          else splice_loop io dst dst_off src src_off flags srcpos1 dstpos1 (len - res) (copied + res) w1)"
  by pat_completeness auto
termination
  by (relation "measure (\<lambda>(io, dst, dst_off, src, src_off, flags, srcpos, dstpos, len, copied, w). len)")
    auto

declare splice_loop.simps [simp del]

definition fuse_buf_splice ::
  "'w sys_io \<Rightarrow> fuse_buf \<Rightarrow> nat \<Rightarrow> fuse_buf \<Rightarrow> nat \<Rightarrow> nat \<Rightarrow> copy_flags \<Rightarrow> 'w \<Rightarrow> int \<times> 'w" where
  "fuse_buf_splice io dst dst_off src src_off len flags w =
     splice_loop io dst dst_off src src_off flags
       (if buf_fd_seek src then Some (buf_pos src + src_off) else None)
       (if buf_fd_seek dst then Some (buf_pos dst + dst_off) else None) len 0 w"

section \<open>One buffer, and the position of a vector\<close>

text \<open>Both \<open>memcpy\<close> on disjoint ranges and \<open>memmove\<close> store the bytes loaded before.\<close>

definition fuse_buf_copy_one ::
  "'w sys_io \<Rightarrow> fuse_buf \<Rightarrow> nat \<Rightarrow> fuse_buf \<Rightarrow> nat \<Rightarrow> nat \<Rightarrow> copy_flags \<Rightarrow> memory \<Rightarrow> 'w
     \<Rightarrow> int \<times> memory \<times> 'w" where
  "fuse_buf_copy_one io dst dst_off src src_off len flags m w =
     (if \<not> buf_is_fd src \<and> \<not> buf_is_fd dst then
        (let dstmem = buf_mem dst + dst_off; srcmem = buf_mem src + src_off in
         (int len, if dstmem \<noteq> srcmem then mem_store m dstmem (mem_load m srcmem len) else m, w))
      else if \<not> buf_is_fd src then
        (let (res, w1) = fuse_buf_write io dst dst_off src src_off len m w in (res, m, w1))
      else if \<not> buf_is_fd dst then fuse_buf_read io dst dst_off src src_off len m w
      else if no_splice flags then
        (let (res, w1) = fuse_buf_fd_to_fd io dst dst_off src src_off len w in (res, m, w1))
      else
        (let (res, w1) = fuse_buf_splice io dst dst_off src src_off len flags w in (res, m, w1)))"

definition fuse_bufvec_current :: "fuse_bufvec \<Rightarrow> fuse_buf option" where
  "fuse_bufvec_current bufv =
     (if bv_idx bufv < length (bv_buf bufv) then Some (bv_buf bufv ! bv_idx bufv) else None)"

text \<open>\<open>None\<close> is the failed assertion \<open>bufv->off <= buf->size\<close>; the flag is the result.\<close>

definition fuse_bufvec_advance :: "fuse_bufvec \<Rightarrow> nat \<Rightarrow> (bool \<times> fuse_bufvec) option" where
  "fuse_bufvec_advance bufv len =
     (case fuse_bufvec_current bufv of
        None \<Rightarrow> Some (False, bufv)
      | Some buf \<Rightarrow>
          let off = bv_off bufv + len in
          if \<not> off \<le> buf_size buf then None
          else if off = buf_size buf then
            (let idx = bv_idx bufv + 1 in
             if idx = length (bv_buf bufv) then Some (False, bufv\<lparr>bv_off := off, bv_idx := idx\<rparr>)
             else Some (True, bufv\<lparr>bv_off := 0, bv_idx := idx\<rparr>))
          else Some (True, bufv\<lparr>bv_off := off\<rparr>))"

section \<open>Copying between vectors\<close>

lemma advance_buf: "fuse_bufvec_advance v n = Some (b, v') \<Longrightarrow> bv_buf v' = bv_buf v"
  by (auto simp: fuse_bufvec_advance_def Let_def split: option.splits if_splits)

lemma advance_more:
  assumes "fuse_bufvec_advance v n = Some (True, v')"
  shows "bv_buf v' = bv_buf v \<and> bv_idx v < length (bv_buf v)
    \<and> bv_off v + n \<le> buf_size (bv_buf v ! bv_idx v)
    \<and> bv_idx v' = (if bv_off v + n = buf_size (bv_buf v ! bv_idx v) then Suc (bv_idx v) else bv_idx v)
    \<and> bv_off v' = (if bv_off v + n = buf_size (bv_buf v ! bv_idx v) then 0 else bv_off v + n)
    \<and> bv_idx v' < length (bv_buf v)"
  using assms by (auto simp: fuse_bufvec_advance_def fuse_bufvec_current_def Let_def
      split: option.splits if_splits)

lemma copy_step_measure:
  assumes "fuse_bufvec_current srcv = Some src" "fuse_bufvec_current dstv = Some dst"
    and "fuse_bufvec_advance srcv n = Some (True, srcv1)" "fuse_bufvec_advance dstv n = Some (True, dstv1)"
    and "\<not> n < min_size (buf_size src - bv_off srcv) (buf_size dst - bv_off dstv)"
  shows "(length (bv_buf srcv1) - bv_idx srcv1) + (length (bv_buf dstv1) - bv_idx dstv1)
    < (length (bv_buf srcv) - bv_idx srcv) + (length (bv_buf dstv) - bv_idx dstv)"
proof -
  have "src = bv_buf srcv ! bv_idx srcv" "dst = bv_buf dstv ! bv_idx dstv"
    using assms(1,2) by (auto simp: fuse_bufvec_current_def split: if_splits)
  then have "bv_idx srcv1 = Suc (bv_idx srcv) \<or> bv_idx dstv1 = Suc (bv_idx dstv)"
    using assms(5) advance_more [OF assms(3)] advance_more [OF assms(4)]
    by (auto simp: min_size_def split: if_splits)
  then show ?thesis
    using advance_more [OF assms(3)] advance_more [OF assms(4)] by (auto split: if_splits)
qed

function copy_loop ::
  "'w sys_io \<Rightarrow> copy_flags \<Rightarrow> fuse_bufvec \<Rightarrow> fuse_bufvec \<Rightarrow> nat \<Rightarrow> memory \<Rightarrow> 'w
     \<Rightarrow> (int \<times> fuse_bufvec \<times> fuse_bufvec \<times> memory \<times> 'w) option" where
  "copy_loop io flags dstv srcv copied m w =
     (case (fuse_bufvec_current srcv, fuse_bufvec_current dstv) of
        (Some src, Some dst) \<Rightarrow>
          let len = min_size (buf_size src - bv_off srcv) (buf_size dst - bv_off dstv);
              (res, m1, w1) = fuse_buf_copy_one io dst (bv_off dstv) src (bv_off srcv) len flags m w in
          if res < 0 then Some (if copied = 0 then res else int copied, dstv, srcv, m1, w1)
          else
            let n = nat res in
            (case fuse_bufvec_advance srcv n of
               None \<Rightarrow> None
             | Some (more_src, srcv1) \<Rightarrow>
                 if \<not> more_src then Some (int (copied + n), dstv, srcv1, m1, w1)
                 else (case fuse_bufvec_advance dstv n of
                   None \<Rightarrow> None
                 | Some (more_dst, dstv1) \<Rightarrow>
                     if \<not> more_dst \<or> n < len then Some (int (copied + n), dstv1, srcv1, m1, w1)
                     else copy_loop io flags dstv1 srcv1 (copied + n) m1 w1))
      | _ \<Rightarrow> Some (int copied, dstv, srcv, m, w))"
  by pat_completeness auto
termination
proof (relation "measure (\<lambda>(io, flags, dstv, srcv, copied, m, w).
    (length (bv_buf srcv) - bv_idx srcv) + (length (bv_buf dstv) - bv_idx dstv))", goal_cases)
  case 1
  show ?case by simp
next
  case prems: (2 io flags dstv srcv copied m w)
  then show ?case
    by simp (metis copy_step_measure)
qed

declare copy_loop.simps [simp del]

text \<open>\<open>same\<close> says whether both arguments are the same pointer.\<close>

definition fuse_buf_copy ::
  "'w sys_io \<Rightarrow> bool \<Rightarrow> fuse_bufvec \<Rightarrow> fuse_bufvec \<Rightarrow> copy_flags \<Rightarrow> memory \<Rightarrow> 'w
     \<Rightarrow> (int \<times> fuse_bufvec \<times> fuse_bufvec \<times> memory \<times> 'w) option" where
  "fuse_buf_copy io same dstv srcv flags m w =
     (if same then Some (int (fuse_buf_size dstv), dstv, srcv, m, w)
      else copy_loop io flags dstv srcv 0 m w)"

section \<open>The size of a vector\<close>

lemma size_loop_sum:
  "\<forall>b \<in> set bs. buf_size b \<noteq> SIZE_MAX \<Longrightarrow>
     size_loop bs n mod 2 ^ 64 = (n + sum_list (map buf_size bs)) mod 2 ^ 64"
proof (induction bs arbitrary: n)
  case (Cons b bs)
  have "((n + buf_size b) mod 2 ^ 64 + sum_list (map buf_size bs)) mod 2 ^ 64
      = (n + buf_size b + sum_list (map buf_size bs)) mod 2 ^ 64"
    by (rule mod_add_left_eq)
  with Cons show ?case by (simp add: add.assoc)
qed simp

lemma size_loop_less: "n < 2 ^ 64 \<Longrightarrow> size_loop bs n < 2 ^ 64"
  by (induction bs arbitrary: n) (auto simp: SIZE_MAX_def)

text \<open>
  \<open>fuse_buf_size\<close> is the sum of the sizes, modulo the width of \<open>size_t\<close>, for every vector
  without a buffer of unknown size (\<open>SIZE_MAX\<close>).
\<close>

lemma fuse_buf_size_sum:
  assumes "\<forall>b \<in> set (bv_buf v). buf_size b \<noteq> SIZE_MAX"
  shows "fuse_buf_size v = sum_list (map buf_size (bv_buf v)) mod 2 ^ 64"
  using size_loop_sum [OF assms, of 0] size_loop_less [of 0 "bv_buf v"]
  by (simp add: fuse_buf_size_def)

section \<open>Copying between memory vectors\<close>

text \<open>The addresses a vector still has to offer, in order.\<close>

definition buf_addrs :: "fuse_buf \<Rightarrow> nat list" where
  "buf_addrs b = [buf_mem b..<buf_mem b + buf_size b]"

definition addrs :: "fuse_bufvec \<Rightarrow> nat list" where
  "addrs v = drop (bv_off v) (concat (map buf_addrs (drop (bv_idx v) (bv_buf v))))"

definition mem_vec :: "fuse_bufvec \<Rightarrow> bool" where
  "mem_vec v \<longleftrightarrow> (\<forall>b \<in> set (bv_buf v). \<not> buf_is_fd b)
     \<and> (bv_idx v < length (bv_buf v) \<longrightarrow> bv_off v \<le> buf_size (bv_buf v ! bv_idx v))"

text \<open>\<open>m'\<close> is \<open>m\<close> with the bytes at the first \<open>n\<close> addresses of \<open>S\<close> copied to those of \<open>D\<close>.\<close>

definition copies :: "memory \<Rightarrow> memory \<Rightarrow> nat \<Rightarrow> nat list \<Rightarrow> nat list \<Rightarrow> bool" where
  "copies m m' n S D \<longleftrightarrow> (\<forall>i < n. m' (D ! i) = m (S ! i)) \<and> (\<forall>a. a \<notin> set (take n D) \<longrightarrow> m' a = m a)"

lemma length_buf_addrs [simp]: "length (buf_addrs b) = buf_size b"
  by (simp add: buf_addrs_def)

lemma mem_load_length [simp]: "length (mem_load m a n) = n"
  by (simp add: mem_load_def)

lemma copies_0 [simp]: "copies m m 0 S D"
  by (simp add: copies_def)

lemma copies_trans:
  assumes 1: "copies m m1 k S D" and 2: "copies m1 m2 j (drop k S) (drop k D)"
    and D: "distinct D" "set D \<inter> set S = {}" and len: "k + j \<le> length S" "k + j \<le> length D"
  shows "copies m m2 (k + j) S D"
proof -
  have "m2 (D ! i) = m (S ! i)" if "i < k + j" for i
  proof (cases "i < k")
    case True
    have "D ! i \<notin> set (take j (drop k D))"
    proof
      assume "D ! i \<in> set (take j (drop k D))"
      then have "D ! i \<in> set (drop k D)" by (rule in_set_takeD)
      moreover have "D ! i \<in> set (take k D)" using True len by (auto simp: in_set_conv_nth)
      moreover have "set (take k D) \<inter> set (drop k D) = {}"
        using D(1) by (metis append_take_drop_id distinct_append)
      ultimately show False by blast
    qed
    then show ?thesis using 1 2 True by (simp add: copies_def)
  next
    case False
    then have "m2 (D ! i) = m1 (S ! i)"
      using 2 that len by (auto simp: copies_def dest!: spec [of _ "i - k"])
    moreover have "S ! i \<notin> set (take k D)"
      using D(2) that len by (meson disjoint_iff in_set_takeD less_le_trans nth_mem)
    ultimately show ?thesis using 1 by (simp add: copies_def)
  qed
  moreover have "m2 a = m a" if "a \<notin> set (take (k + j) D)" for a
  proof -
    have "a \<notin> set (take k D)" "a \<notin> set (take j (drop k D))"
      using that by (auto simp: take_add)
    then show ?thesis using 1 2 by (simp add: copies_def)
  qed
  ultimately show ?thesis by (simp add: copies_def)
qed

lemma addrs_current:
  assumes "fuse_bufvec_current v = Some b" and "mem_vec v"
  shows "addrs v = [buf_mem b + bv_off v..<buf_mem b + buf_size b]
      @ concat (map buf_addrs (drop (Suc (bv_idx v)) (bv_buf v)))" and "\<not> buf_is_fd b"
    and "bv_off v \<le> buf_size b"
proof -
  have i: "bv_idx v < length (bv_buf v)" and b: "b = bv_buf v ! bv_idx v"
    using assms(1) by (auto simp: fuse_bufvec_current_def split: if_splits)
  show off: "bv_off v \<le> buf_size b" and "\<not> buf_is_fd b" using assms(2) i b by (auto simp: mem_vec_def)
  have "drop (bv_idx v) (bv_buf v) = b # drop (Suc (bv_idx v)) (bv_buf v)"
    using i b by (simp add: Cons_nth_drop_Suc)
  then show "addrs v = [buf_mem b + bv_off v..<buf_mem b + buf_size b]
      @ concat (map buf_addrs (drop (Suc (bv_idx v)) (bv_buf v)))"
    using off by (simp add: addrs_def buf_addrs_def drop_upt)
qed

lemma addrs_done: "fuse_bufvec_current v = None \<Longrightarrow> addrs v = []"
  by (auto simp: fuse_bufvec_current_def addrs_def split: if_splits)

lemma advance_addrs:
  assumes c: "fuse_bufvec_current v = Some b" and v: "mem_vec v" and n: "n \<le> buf_size b - bv_off v"
  obtains more v' where "fuse_bufvec_advance v n = Some (more, v')" and "mem_vec v'"
    and "addrs v' = drop n (addrs v)" and "\<not> more \<Longrightarrow> n = length (addrs v)"
proof -
  note A = addrs_current [OF c v]
  have i: "bv_idx v < length (bv_buf v)" and b: "b = bv_buf v ! bv_idx v"
    using c by (auto simp: fuse_bufvec_current_def split: if_splits)
  consider (part) "bv_off v + n < buf_size b"
    | (nxt) "bv_off v + n = buf_size b" "Suc (bv_idx v) < length (bv_buf v)"
    | (last) "bv_off v + n = buf_size b" "Suc (bv_idx v) = length (bv_buf v)"
    using n A(3) i by linarith
  then show thesis
  proof cases
    case part
    let ?v = "v\<lparr>bv_off := bv_off v + n\<rparr>"
    have "fuse_bufvec_advance v n = Some (True, ?v)" using part c by (simp add: fuse_bufvec_advance_def)
    moreover have "mem_vec ?v" using v part i b by (auto simp: mem_vec_def)
    moreover have "addrs ?v = drop n (addrs v)" by (simp add: addrs_def add.commute)
    ultimately show thesis using that by blast
  next
    case nxt
    let ?v = "v\<lparr>bv_off := 0, bv_idx := Suc (bv_idx v)\<rparr>"
    have "fuse_bufvec_advance v n = Some (True, ?v)" using nxt c by (simp add: fuse_bufvec_advance_def)
    moreover have "mem_vec ?v" using v by (auto simp: mem_vec_def)
    moreover have "addrs ?v = drop n (addrs v)"
      unfolding A(1) by (simp add: addrs_def flip: nxt(1))
    ultimately show thesis using that by blast
  next
    case last
    let ?v = "v\<lparr>bv_off := bv_off v + n, bv_idx := Suc (bv_idx v)\<rparr>"
    have "fuse_bufvec_advance v n = Some (False, ?v)" using last c by (simp add: fuse_bufvec_advance_def)
    moreover have "mem_vec ?v" using v last by (auto simp: mem_vec_def)
    moreover have "n = length (addrs v)" unfolding A(1) using last by simp
    moreover have "addrs ?v = []" using last by (simp add: addrs_def)
    ultimately show thesis using that [of False ?v] by simp
  qed
qed

lemma mem_store_copies:
  assumes "D = [d..<d + n] @ D'" and "S = [s..<s + n] @ S'"
  shows "copies m (mem_store m d (mem_load m s n)) n S D"
  using assms by (auto simp: copies_def mem_store_def mem_load_def nth_append)

lemma copy_one_mem:
  assumes "fuse_bufvec_current srcv = Some src" "mem_vec srcv" "fuse_bufvec_current dstv = Some dst"
    "mem_vec dstv" "len \<le> buf_size src - bv_off srcv" "len \<le> buf_size dst - bv_off dstv"
  obtains m1 where "fuse_buf_copy_one io dst (bv_off dstv) src (bv_off srcv) len flags m w = (int len, m1, w)"
    and "copies m m1 len (addrs srcv) (addrs dstv)"
proof -
  note S = addrs_current [OF assms(1,2)] and D = addrs_current [OF assms(3,4)]
  have split: "[a + o1..<a + n] = [a + o1..<a + o1 + len] @ [a + o1 + len..<a + n]"
    if "len \<le> n - o1" "o1 \<le> n" for a o1 n :: nat
  proof -
    have "a + n = (a + o1 + len) + (n - o1 - len)" using that by simp
    then show ?thesis using upt_add_eq_append [of "a + o1" "a + o1 + len" "n - o1 - len"] by simp
  qed
  let ?d = "buf_mem dst + bv_off dstv" and ?s = "buf_mem src + bv_off srcv"
  have c: "copies m (mem_store m ?d (mem_load m ?s len)) len (addrs srcv) (addrs dstv)"
    by (rule mem_store_copies) (unfold S(1) D(1) split [OF assms(5) S(3)] split [OF assms(6) D(3)],
        simp_all only: append_assoc)
  have same: "mem_store m a (mem_load m a n) = m" for a n
    by (rule ext) (auto simp: mem_store_def mem_load_def)
  from c same that show thesis
    using S(2) D(2) by (cases "?d = ?s") (auto simp: fuse_buf_copy_one_def)
qed

lemma copy_loop_mem:
  assumes "mem_vec srcv" "mem_vec dstv" "distinct (addrs dstv)" "set (addrs dstv) \<inter> set (addrs srcv) = {}"
    and "n = min (length (addrs srcv)) (length (addrs dstv))"
  shows "\<exists>dst' src' m'. copy_loop io flags dstv srcv copied m w = Some (int (copied + n), dst', src', m', w)
    \<and> copies m m' n (addrs srcv) (addrs dstv)"
  using assms
proof (induction "(length (bv_buf srcv) - bv_idx srcv) + (length (bv_buf dstv) - bv_idx dstv)"
    arbitrary: srcv dstv copied m n rule: less_induct)
  case less
  note vecs = less.prems(1,2)
  show ?case
  proof (cases "fuse_bufvec_current srcv = None \<or> fuse_bufvec_current dstv = None")
    case True
    then have "n = 0" using less.prems(5) addrs_done by auto
    with True show ?thesis by (subst copy_loop.simps) (auto split: option.splits)
  next
    case False
    then obtain src dst where src: "fuse_bufvec_current srcv = Some src"
      and dst: "fuse_bufvec_current dstv = Some dst" by auto
    note S = addrs_current [OF src vecs(1)] and D = addrs_current [OF dst vecs(2)]
    define len where "len = min_size (buf_size src - bv_off srcv) (buf_size dst - bv_off dstv)"
    have len: "len \<le> buf_size src - bv_off srcv" "len \<le> buf_size dst - bv_off dstv"
      by (simp_all add: len_def min_size_def)
    obtain m1 where one: "fuse_buf_copy_one io dst (bv_off dstv) src (bv_off srcv) len flags m w
        = (int len, m1, w)" and cp: "copies m m1 len (addrs srcv) (addrs dstv)"
      by (rule copy_one_mem [OF src vecs(1) dst vecs(2) len])
    obtain ms srcv1 where as: "fuse_bufvec_advance srcv len = Some (ms, srcv1)" "mem_vec srcv1"
      "addrs srcv1 = drop len (addrs srcv)" "\<not> ms \<Longrightarrow> len = length (addrs srcv)"
      by (rule advance_addrs [OF src vecs(1) len(1)]) blast
    obtain md dstv1 where ad: "fuse_bufvec_advance dstv len = Some (md, dstv1)" "mem_vec dstv1"
      "addrs dstv1 = drop len (addrs dstv)" "\<not> md \<Longrightarrow> len = length (addrs dstv)"
      by (rule advance_addrs [OF dst vecs(2) len(2)]) blast
    have lens: "len \<le> length (addrs srcv)" "len \<le> length (addrs dstv)"
      using len S D by simp_all
    show ?thesis
    proof (cases "ms \<and> md")
      case False
      then have "n = len" using less.prems(5) lens as(4) ad(4) by auto
      with False src dst one as(1) ad(1) cp show ?thesis
        by (subst copy_loop.simps) (auto simp: Let_def simp flip: len_def)
    next
      case True
      have "(length (bv_buf srcv1) - bv_idx srcv1) + (length (bv_buf dstv1) - bv_idx dstv1)
          < (length (bv_buf srcv) - bv_idx srcv) + (length (bv_buf dstv) - bv_idx dstv)"
        using copy_step_measure [OF src dst, of len srcv1 dstv1] as(1) ad(1) True by (simp add: len_def)
      moreover have "distinct (addrs dstv1)" "set (addrs dstv1) \<inter> set (addrs srcv1) = {}"
        using less.prems(3,4) as(3) ad(3) by (auto dest: in_set_dropD)
      moreover have "n - len = min (length (addrs srcv1)) (length (addrs dstv1))"
        using less.prems(5) as(3) ad(3) by auto
      ultimately obtain dst' src' m' where
        rec: "copy_loop io flags dstv1 srcv1 (copied + len) m1 w
          = Some (int (copied + len + (n - len)), dst', src', m', w)"
        and cp2: "copies m1 m' (n - len) (addrs srcv1) (addrs dstv1)"
        using less.hyps as(2) ad(2) by blast
      have n: "len + (n - len) = n" using lens less.prems(5) by simp
      have "copies m m' (len + (n - len)) (addrs srcv) (addrs dstv)"
        using copies_trans [OF cp cp2 [unfolded as(3) ad(3)] less.prems(3,4)] lens less.prems(5) by simp
      then show ?thesis using True src dst one as(1) ad(1) rec n
        by (subst copy_loop.simps) (auto simp: Let_def add.assoc simp flip: len_def)
    qed
  qed
qed

lemma buf_copy_memory:
  assumes "mem_vec srcv" and "mem_vec dstv"
    and "distinct (addrs dstv)" and "set (addrs dstv) \<inter> set (addrs srcv) = {}"
  shows "\<exists>n dst' src' m'. fuse_buf_copy io False dstv srcv flags m w = Some (int n, dst', src', m', w)
    \<and> n = min (length (addrs srcv)) (length (addrs dstv))
    \<and> map m' (addrs dstv) = take n (map m (addrs srcv)) @ drop n (map m (addrs dstv))
    \<and> (\<forall>a. a \<notin> set (addrs dstv) \<longrightarrow> m' a = m a)"
proof -
  let ?S = "addrs srcv" and ?D = "addrs dstv"
  let ?n = "min (length ?S) (length ?D)"
  obtain dst' src' m' where run: "copy_loop io flags dstv srcv 0 m w = Some (int (0 + ?n), dst', src', m', w)"
    and c: "copies m m' ?n ?S ?D"
    using copy_loop_mem [OF assms refl, of io flags 0 m w] by blast
  have "map m' ?D ! i = (take ?n (map m ?S) @ drop ?n (map m ?D)) ! i" if "i < length ?D" for i
  proof (cases "i < ?n")
    case True
    then show ?thesis using c by (simp add: copies_def nth_append)
  next
    case False
    then have "?D ! i \<notin> set (take ?n ?D)"
      using assms(3) that by (auto simp: in_set_conv_nth nth_eq_iff_index_eq)
    then show ?thesis using c False that by (auto simp: copies_def nth_append)
  qed
  then have "map m' ?D = take ?n (map m ?S) @ drop ?n (map m ?D)"
    by (intro nth_equalityI) auto
  moreover have "\<forall>a. a \<notin> set ?D \<longrightarrow> m' a = m a"
    using c by (auto simp: copies_def dest: in_set_takeD)
  ultimately show ?thesis using run by (auto simp: fuse_buf_copy_def)
qed

text \<open>
  C8.  \<open>fuse_buf_copy\<close> between memory vectors, cut into buffers in any way, whose destination
  overlaps neither itself nor the source: no assertion fails, the result is the smaller of what
  the source offers and the destination takes, that many bytes arrive in order, and no other byte
  of memory changes.
\<close>

theorem fuse_buf_copy_memory:
  assumes "mem_vec srcv" and "mem_vec dstv"
    and "distinct (addrs dstv)" and "set (addrs dstv) \<inter> set (addrs srcv) = {}"
  shows "\<exists>n dst' src' m'. fuse_buf_copy io False dstv srcv flags m w = Some (int n, dst', src', m', w)
    \<and> n = min (length (addrs srcv)) (length (addrs dstv))
    \<and> map m' (addrs dstv) = take n (map m (addrs srcv)) @ drop n (map m (addrs dstv))
    \<and> (\<forall>a. a \<notin> set (addrs dstv) \<longrightarrow> m' a = m a)"
  by (rule buf_copy_memory [OF assms])

definition mem_buf :: "nat \<Rightarrow> nat \<Rightarrow> fuse_buf" where
  "mem_buf a n = \<lparr>buf_size = n, buf_is_fd = False, buf_fd_seek = False, buf_fd_retry = False,
     buf_mem = a, buf_fd = -1, buf_pos = 0\<rparr>"

definition vec_of :: "fuse_buf list \<Rightarrow> fuse_bufvec" where
  "vec_of bs = \<lparr>bv_idx = 0, bv_off = 0, bv_buf = bs\<rparr>"

definition no_io :: "unit sys_io" where
  "no_io = \<lparr>io_write = (\<lambda>_ _ w. (Inl EIO, w)), io_pwrite = (\<lambda>_ _ _ w. (Inl EIO, w)),
     io_read = (\<lambda>_ _ w. (Inl EIO, w)), io_pread = (\<lambda>_ _ _ w. (Inl EIO, w)),
     io_splice = (\<lambda>_ _ _ _ _ _ w. (Inl EIO, None, None, w))\<rparr>"

definition no_flags :: copy_flags where
  "no_flags = \<lparr>no_splice = False, force_splice = False, splice_move = False, splice_nonblock = False\<rparr>"

theorem fuse_buf_copy_memory_witness:
  "\<exists>n dst' src' m'. fuse_buf_copy no_io False (vec_of [mem_buf 100 1, mem_buf 200 3])
       (vec_of [mem_buf 10 2, mem_buf 20 1]) no_flags of_nat () = Some (int n, dst', src', m', ())
    \<and> n = min (length (addrs (vec_of [mem_buf 10 2, mem_buf 20 1])))
        (length (addrs (vec_of [mem_buf 100 1, mem_buf 200 3])))
    \<and> map m' (addrs (vec_of [mem_buf 100 1, mem_buf 200 3]))
      = take n (map of_nat (addrs (vec_of [mem_buf 10 2, mem_buf 20 1])))
        @ drop n (map of_nat (addrs (vec_of [mem_buf 100 1, mem_buf 200 3])))
    \<and> (\<forall>a. a \<notin> set (addrs (vec_of [mem_buf 100 1, mem_buf 200 3])) \<longrightarrow> m' a = of_nat a)"
  by (rule fuse_buf_copy_memory)
    (auto simp: mem_vec_def vec_of_def mem_buf_def addrs_def buf_addrs_def)

text \<open>
  The destination's position is not advanced past the last chunk: when one source buffer fits
  into the current destination buffer, \<open>fuse_buf_copy\<close> copies it and returns without having moved
  the destination, so a second copy into the same vector would start at the same byte again.
\<close>

lemma fuse_buf_copy_leaves_destination:
  assumes "\<not> buf_is_fd s" and "\<not> buf_is_fd d" and "fuse_bufvec_current dstv = Some d"
    and "buf_size s \<le> buf_size d - bv_off dstv"
  shows "\<exists>m'. fuse_buf_copy io False dstv (vec_of [s]) flags m w
    = Some (int (buf_size s), dstv, \<lparr>bv_idx = 1, bv_off = buf_size s, bv_buf = [s]\<rparr>, m', w)"
proof -
  have c: "fuse_bufvec_current (vec_of [s]) = Some s" "bv_off (vec_of [s]) = 0"
    by (simp_all add: vec_of_def fuse_bufvec_current_def)
  have "fuse_bufvec_advance (vec_of [s]) (buf_size s)
      = Some (False, \<lparr>bv_idx = 1, bv_off = buf_size s, bv_buf = [s]\<rparr>)"
    by (simp add: vec_of_def fuse_bufvec_advance_def fuse_bufvec_current_def)
  moreover have "min_size (buf_size s) (buf_size d - bv_off dstv) = buf_size s"
    using assms(4) by (simp add: min_size_def)
  ultimately show ?thesis using assms c
    by (auto simp: fuse_buf_copy_def copy_loop.simps [of io flags dstv] fuse_buf_copy_one_def Let_def)
qed

lemma fuse_buf_copy_leaves_destination_witness:
  "\<exists>m'. fuse_buf_copy no_io False (vec_of [mem_buf 100 4]) (vec_of [mem_buf 10 2]) no_flags of_nat ()
    = Some (int (buf_size (mem_buf 10 2)), vec_of [mem_buf 100 4],
        \<lparr>bv_idx = 1, bv_off = buf_size (mem_buf 10 2), bv_buf = [mem_buf 10 2]\<rparr>, m', ())"
  by (rule fuse_buf_copy_leaves_destination [where d = "mem_buf 100 4"])
    (simp_all add: mem_buf_def vec_of_def fuse_bufvec_current_def)

section \<open>File descriptors\<close>

text \<open>
  What \<open>write(2)\<close> and \<open>pread(2)\<close> promise.  A sink appends a prefix of the data, of the length it
  answers, or fails with an error and appends nothing.  A file answers some bytes from the position
  asked, at most as many as asked, and none only at its end.
\<close>

definition sink :: "'w sys_io \<Rightarrow> int \<Rightarrow> ('w \<Rightarrow> bytes) \<Rightarrow> bool" where
  "sink io fd out \<longleftrightarrow> (\<forall>data w. case io_write io fd data w of
     (Inl e, w') \<Rightarrow> 0 < e \<and> out w' = out w
   | (Inr n, w') \<Rightarrow> n \<le> length data \<and> out w' = out w @ take n data)"

definition file_source :: "'w sys_io \<Rightarrow> int \<Rightarrow> bytes \<Rightarrow> bool" where
  "file_source io fd F \<longleftrightarrow> (\<forall>n pos w. \<exists>k. io_pread io fd n pos w = (Inr (take k (drop pos F)), w)
     \<and> k \<le> n \<and> (0 < n \<longrightarrow> 0 < k))"

lemma write_loop_sink:
  assumes "sink io (buf_fd dst) out" and "\<not> buf_fd_seek dst"
  shows "write_loop io dst off data copied w = (r, w') \<Longrightarrow>
    (r < 0 \<and> copied = 0 \<and> out w' = out w) \<or>
    (\<exists>n \<le> length data. r = int (copied + n) \<and> out w' = out w @ take n data)"
proof (induction "length data" arbitrary: off data copied w rule: less_induct)
  case less
  show ?case
  proof (cases "data = []")
    case True
    then show ?thesis using less.prems by (subst (asm) write_loop.simps) auto
  next
    case False
    obtain a w1 where call: "io_write io (buf_fd dst) data w = (a, w1)" by fastforce
    note K = spec [OF spec [OF assms(1) [unfolded sink_def], of data], of w]
    show ?thesis
    proof (cases a)
      case (Inl e)
      then show ?thesis using K call less.prems False assms(2)
        by (subst (asm) write_loop.simps) (auto split: if_splits intro: exI [of _ 0])
    next
      case (Inr n)
      then have n: "n \<le> length data" "out w1 = out w @ take n data" using K call by auto
      show ?thesis
      proof (cases "n = 0 \<or> \<not> buf_fd_retry dst")
        case True
        then show ?thesis using Inr n call less.prems False assms(2)
          by (subst (asm) write_loop.simps) (auto split: if_splits)
      next
        case retry: False
        then have rec: "write_loop io dst (off + n) (drop n data) (copied + n) w1 = (r, w')"
          using Inr call less.prems False assms(2) by (subst (asm) write_loop.simps) simp
        have "length (drop n data) < length data" using retry False by simp
        from less.hyps [OF this rec] retry obtain k where k: "k \<le> length (drop n data)"
          "r = int (copied + n + k)" "out w' = out w1 @ take k (drop n data)" by auto
        then have "out w' = out w @ take (n + k) data" using n by (simp add: take_add)
        with k n(1) show ?thesis by (intro disjI2 exI [of _ "n + k"]) auto
      qed
    qed
  qed
qed

lemma read_loop_file:
  assumes "file_source io (buf_fd src) F" and "buf_fd_seek src" and "buf_fd_retry src"
  shows "read_loop io src off len got w
    = (int (length (got @ take len (drop (buf_pos src + off) F))),
       got @ take len (drop (buf_pos src + off) F), w)"
proof (induction len arbitrary: off got rule: less_induct)
  case (less len)
  let ?p = "buf_pos src + off"
  obtain k where k: "io_pread io (buf_fd src) len ?p w = (Inr (take k (drop ?p F)), w)"
    "k \<le> len" "0 < len \<Longrightarrow> 0 < k"
    using assms(1) unfolding file_source_def by blast
  show ?case
  proof (cases "len = 0 \<or> length F \<le> ?p")
    case True
    then show ?thesis using k assms(2,3) by (subst read_loop.simps) auto
  next
    case False
    let ?n = "min k (length F - ?p)"
    have n: "0 < ?n" "length (take k (drop ?p F)) = ?n" using False k(3) by auto
    have split: "take k (drop ?p F) @ take (len - ?n) (drop (?p + ?n) F) = take len (drop ?p F)"
    proof (cases "k \<le> length F - ?p")
      case True
      then show ?thesis using k(2) take_add [of k "len - k" "drop ?p F"] by (simp add: add.commute)
    next
      case False
      then show ?thesis using k(2) by simp
    qed
    have "read_loop io src off len got w
        = read_loop io src (off + ?n) (len - ?n) (got @ take k (drop ?p F)) w"
      using False k(1) n assms(2,3) by (subst read_loop.simps) auto
    also have "\<dots> = (int (length ((got @ take k (drop ?p F)) @ take (len - ?n) (drop (?p + ?n) F))),
        (got @ take k (drop ?p F)) @ take (len - ?n) (drop (?p + ?n) F), w)"
      using less.IH [of "len - ?n" "off + ?n" "got @ take k (drop ?p F)"] n(1) False
      by (simp only: add.assoc) simp
    finally show ?thesis by (simp only: append_assoc split)
  qed
qed

text \<open>
  Reading into memory from a file with \<open>FUSE_BUF_FD_SEEK\<close> and \<open>FUSE_BUF_FD_RETRY\<close> places
  exactly the file's bytes from the position, all that are asked or all there are, however short
  the single reads of the kernel fall.
\<close>

lemma fuse_buf_read_file:
  assumes "file_source io (buf_fd src) F" and "buf_fd_seek src" and "buf_fd_retry src"
  shows "fuse_buf_read io dst dst_off src src_off len m w =
    (let data = take len (drop (buf_pos src + src_off) F)
     in (int (length data), mem_store m (buf_mem dst + dst_off) data, w))"
  using read_loop_file [OF assms, of src_off len "[]" w] by (simp add: fuse_buf_read_def Let_def)

text \<open>A kernel with one file that answers at most two bytes per read, and an append-only sink.\<close>

definition demo_io :: "bytes \<Rightarrow> bytes sys_io" where
  "demo_io F = \<lparr>io_write = (\<lambda>_ data w. (Inr (min 3 (length data)), w @ take 3 data)),
     io_pwrite = (\<lambda>_ _ _ w. (Inl EIO, w)), io_read = (\<lambda>_ _ w. (Inl EIO, w)),
     io_pread = (\<lambda>_ n pos w. (Inr (take (min 2 n) (drop pos F)), w)),
     io_splice = (\<lambda>_ _ _ _ _ _ w. (Inl EINVAL, None, None, w))\<rparr>"

definition file_buf :: "nat \<Rightarrow> nat \<Rightarrow> fuse_buf" where
  "file_buf pos n = \<lparr>buf_size = n, buf_is_fd = True, buf_fd_seek = True, buf_fd_retry = True,
     buf_mem = 0, buf_fd = 7, buf_pos = pos\<rparr>"

lemma demo_file_source: "file_source (demo_io F) fd F"
proof -
  have "\<exists>k. take (min 2 n) (drop pos F) = take k (drop pos F) \<and> k \<le> n \<and> (0 < n \<longrightarrow> 0 < k)" for n pos
    by (rule exI [of _ "min 2 n"]) auto
  then show ?thesis by (simp add: file_source_def demo_io_def)
qed

lemma demo_sink: "sink (demo_io F) fd (\<lambda>w. w)"
  by (auto simp: sink_def demo_io_def min_def)

lemma fuse_buf_read_file_witness:
  "fuse_buf_read (demo_io [1, 2, 3, 4, 5, 6, 7]) (mem_buf 100 8) 0 (file_buf 1 8) 1 4 (\<lambda>a. of_nat a) [] =
    (let data = take 4 (drop (buf_pos (file_buf 1 8) + 1) [1, 2, 3, 4, 5, 6, 7])
     in (int (length data), mem_store (\<lambda>a. of_nat a) (buf_mem (mem_buf 100 8) + 0) data, []))"
  by (rule fuse_buf_read_file) (simp_all add: demo_file_source file_buf_def)

lemma fd_to_fd_loop_copies:
  assumes "file_source io (buf_fd src) F" "buf_fd_seek src" "buf_fd_retry src"
    and "sink io (buf_fd dst) out" "\<not> buf_fd_seek dst"
  shows "fd_to_fd_loop io dst dst_off src src_off len copied w = (r, w') \<Longrightarrow>
    (r < 0 \<and> copied = 0 \<and> out w' = out w) \<or>
    (\<exists>n \<le> len. r = int (copied + n) \<and> n \<le> length F - (buf_pos src + src_off)
       \<and> out w' = out w @ take n (drop (buf_pos src + src_off) F))"
proof (induction len arbitrary: dst_off src_off copied w rule: less_induct)
  case (less len)
  let ?p = "buf_pos src + src_off"
  let ?tl = "min_size 4096 len"
  define bs where "bs = take ?tl (drop ?p F)"
  have rd: "read_loop io src src_off ?tl [] w = (int (length bs), bs, w)"
    using read_loop_file [OF assms(1-3), of src_off ?tl "[]" w] by (simp add: bs_def)
  note eq = fd_to_fd_loop.simps [of io dst dst_off src src_off len copied w]
  show ?case
  proof (cases "len = 0 \<or> bs = []")
    case True
    then have "fd_to_fd_loop io dst dst_off src src_off len copied w = (int copied, w)"
      using eq rd by (cases "len = 0") (auto simp: Let_def)
    then show ?thesis using less.prems by auto
  next
    case False
    obtain r2 w2 where wr: "write_loop io dst dst_off bs 0 w = (r2, w2)" by fastforce
    have run: "fd_to_fd_loop io dst dst_off src src_off len copied w =
      (if r2 < 0 then (if copied = 0 then (r2, w2) else (int copied, w2))
       else if r2 = 0 then (int copied, w2)
       else if nat r2 < ?tl then (int (copied + nat r2), w2)
       else fd_to_fd_loop io dst (dst_off + nat r2) src (src_off + nat r2) (len - nat r2)
         (copied + nat r2) w2)"
      using eq rd wr False by (simp add: Let_def)
    from write_loop_sink [OF assms(4,5) wr] show ?thesis
    proof (elim disjE conjE exE)
      assume "r2 < 0" "out w2 = out w"
      then show ?thesis using run less.prems by (auto split: if_splits)
    next
      fix n assume n: "n \<le> length bs" "r2 = int (0 + n)" "out w2 = out w @ take n bs"
      then have le: "n \<le> ?tl" "n \<le> length F - ?p" "?tl \<le> len" by (auto simp: min_size_def bs_def)
      have out: "out w2 = out w @ take n (drop ?p F)" using n le by (simp add: bs_def min_def)
      show ?thesis
      proof (cases "n < ?tl")
        case True
        then show ?thesis using run less.prems n le out by (auto split: if_splits)
      next
        case stop: False
        then have "0 < n" using False le by (auto simp: min_size_def split: if_splits)
        with stop n(2) have rec: "fd_to_fd_loop io dst (dst_off + n) src (src_off + n) (len - n)
            (copied + n) w2 = (r, w')" using run less.prems by simp
        have "len - n < len" using \<open>0 < n\<close> False by simp
        from less.IH [OF this rec] \<open>0 < n\<close> obtain k where k: "k \<le> len - n" "r = int (copied + n + k)"
          "k \<le> length F - (?p + n)" "out w' = out w2 @ take k (drop (?p + n) F)"
          by (auto simp: add.assoc)
        then have "out w' = out w @ take (n + k) (drop ?p F)"
          using out take_add [of n k "drop ?p F"] by (simp add: ac_simps)
        with k le \<open>0 < n\<close> show ?thesis by (intro disjI2 exI [of _ "n + k"]) auto
      qed
    qed
  qed
qed

text \<open>
  Copying a file to a descriptor through the 4096-byte buffer: a non-negative result is the
  number of bytes that reached the sink, and these are the file's bytes from the position, in
  order; a negative result means that nothing reached it.
\<close>

lemma fuse_buf_fd_to_fd_prefix:
  assumes "file_source io (buf_fd src) F" "buf_fd_seek src" "buf_fd_retry src"
    and "sink io (buf_fd dst) out" "\<not> buf_fd_seek dst"
    and "fuse_buf_fd_to_fd io dst dst_off src src_off len w = (r, w')"
  shows "(r < 0 \<and> out w' = out w) \<or>
    (0 \<le> r \<and> nat r \<le> len \<and> out w' = out w @ take (nat r) (drop (buf_pos src + src_off) F))"
  using fd_to_fd_loop_copies [OF assms(1-5) assms(6) [unfolded fuse_buf_fd_to_fd_def]] by auto

lemma fuse_buf_fd_to_fd_prefix_witness:
  "fuse_buf_fd_to_fd (demo_io [1, 2, 3, 4, 5, 6]) ((mem_buf 0 9)\<lparr>buf_is_fd := True, buf_fd_retry := True\<rparr>)
      0 (file_buf 1 9) 0 6 [] = (5, [2, 3, 4, 5, 6]) \<and>
    [2, 3, 4, 5, 6] = [] @ take (nat 5) (drop (buf_pos (file_buf 1 9) + 0) ([1, 2, 3, 4, 5, 6] :: bytes))"
proof -
  let ?dst = "(mem_buf 0 9)\<lparr>buf_is_fd := True, buf_fd_retry := True\<rparr>"
  have "write_loop (demo_io [1, 2, 3, 4, 5, 6]) ?dst 0 [2, 3, 4, 5, 6] 0 [] = (5, [2, 3, 4, 5, 6])"
    by (simp add: write_loop.simps mem_buf_def demo_io_def)
  moreover have "read_loop (demo_io [1, 2, 3, 4, 5, 6]) (file_buf 1 9) 0 6 [] [] = (5, [2, 3, 4, 5, 6], [])"
    by (simp add: read_loop_file [OF demo_file_source] file_buf_def)
  ultimately have run: "fuse_buf_fd_to_fd (demo_io [1, 2, 3, 4, 5, 6]) ?dst 0 (file_buf 1 9) 0 6 []
      = (5, [2, 3, 4, 5, 6])"
    by (simp add: fuse_buf_fd_to_fd_def fd_to_fd_loop.simps min_size_def)
  show ?thesis
    using fuse_buf_fd_to_fd_prefix [OF demo_file_source _ _ demo_sink _ run] run
    by (simp add: file_buf_def mem_buf_def)
qed

end
