(* ===== verification/LockTable.thy ===== *)
theory LockTable
  imports Prelude
begin

text \<open>
  The table of POSIX byte-range locks a node keeps, \<open>.deps/libfuse3-3.16.2/lib/fuse.c\<close>:
  \<open>struct lock\<close>, \<open>locks_conflict\<close>, \<open>locks_insert\<close> and the conversions from and to
  \<open>struct flock\<close>.  The linked list \<open>node->locks\<close> is a HOL list, offsets are integers, and the two
  locks \<open>locks_insert\<close> allocates beforehand are flags: a use of one that is NULL is \<open>None\<close>.
\<close>

section \<open>Locks\<close>

datatype lock_type = F_RDLCK | F_WRLCK | F_UNLCK

record lock =
  lk_type :: lock_type
  lk_start :: int
  lk_end :: int
  lk_pid :: int
  lk_owner :: u64

record flock =
  l_type :: lock_type
  l_start :: int
  l_len :: int
  l_pid :: int

definition OFFSET_MAX :: int where
  "OFFSET_MAX = 0x7fffffffffffffff"

definition ENOLCK :: int where
  "ENOLCK = 37"

definition locks_conflict :: "lock list \<Rightarrow> lock \<Rightarrow> lock option" where
  "locks_conflict locks lock =
     find (\<lambda>l. lk_owner l \<noteq> lk_owner lock \<and> lk_start lock \<le> lk_end l \<and> lk_start l \<le> lk_end lock
       \<and> (lk_type l = F_WRLCK \<or> lk_type lock = F_WRLCK)) locks"

definition insert_lock :: "bool \<Rightarrow> lock \<Rightarrow> lock list \<Rightarrow> lock list option" where
  \<comment> \<open>after the loop: \<open>*newl1 = *lock; insert_lock (lp, newl1)\<close>\<close>
  "insert_lock newl1 lock rest =
     (if lk_type lock = F_UNLCK then Some rest
      else if newl1 then Some (lock # rest) else None)"

text \<open>
  The loop over \<open>*lp\<close>.  \<open>skip\<close> keeps the head and goes on, \<open>delete\<close> drops it and goes on,
  \<open>break\<close> inserts before it, \<open>out\<close> leaves the rest as it is.
\<close>

function locks_loop :: "bool \<Rightarrow> bool \<Rightarrow> lock \<Rightarrow> lock list \<Rightarrow> lock list option" where
  "locks_loop newl1 newl2 lock [] = insert_lock newl1 lock []"
| "locks_loop newl1 newl2 lock (l # ls) =
     (if lk_owner l \<noteq> lk_owner lock then map_option ((#) l) (locks_loop newl1 newl2 lock ls)
      else if lk_type lock = lk_type l then
        (if lk_end l < lk_start lock - 1 then map_option ((#) l) (locks_loop newl1 newl2 lock ls)
         else if lk_end lock < lk_start l - 1 then insert_lock newl1 lock (l # ls)
         else if lk_start l \<le> lk_start lock \<and> lk_end lock \<le> lk_end l then Some (l # ls)
         else
           let lock1 = (if lk_start l < lk_start lock then lock\<lparr>lk_start := lk_start l\<rparr> else lock);
               lock2 = (if lk_end lock1 < lk_end l then lock1\<lparr>lk_end := lk_end l\<rparr> else lock1)
           in locks_loop newl1 newl2 lock2 ls)
      else if lk_end l < lk_start lock then map_option ((#) l) (locks_loop newl1 newl2 lock ls)
      else if lk_end lock < lk_start l then insert_lock newl1 lock (l # ls)
      else if lk_start lock \<le> lk_start l \<and> lk_end l \<le> lk_end lock then locks_loop newl1 newl2 lock ls
      else if lk_end l \<le> lk_end lock then
        map_option ((#) (l\<lparr>lk_end := lk_start lock - 1\<rparr>)) (locks_loop newl1 newl2 lock ls)
      else if lk_start lock \<le> lk_start l then
        insert_lock newl1 lock (l\<lparr>lk_start := lk_end lock + 1\<rparr> # ls)
      else if newl2 then
        map_option ((#) (l\<lparr>lk_end := lk_start lock - 1\<rparr>))
          (locks_loop newl1 False lock (l\<lparr>lk_start := lk_end lock + 1\<rparr> # ls))
      else None)"
  by pat_completeness auto
termination
  by (relation "measure (\<lambda>(newl1, newl2, lock, ls). length ls + (if newl2 then 1 else 0))") auto

declare locks_loop.simps(2) [simp del]

text \<open>Both allocations are made before either is checked.\<close>

definition locks_insert :: "allocs \<Rightarrow> lock list \<Rightarrow> lock \<Rightarrow> (int \<times> allocs \<times> lock list) option" where
  "locks_insert al locks lock =
     (if lk_type lock \<noteq> F_UNLCK \<or> lk_start lock \<noteq> 0 \<or> lk_end lock \<noteq> OFFSET_MAX then
        (let (ok1, al1) = alloc_next al; (ok2, al2) = alloc_next al1 in
         if \<not> ok1 \<or> \<not> ok2 then Some (- ENOLCK, al2, locks)
         else map_option (\<lambda>ls. (0, al2, ls)) (locks_loop True True lock locks))
      else map_option (\<lambda>ls. (0, al, ls)) (locks_loop False False lock locks))"

definition flock_to_lock :: "flock \<Rightarrow> lock" where
  "flock_to_lock fl =
     \<lparr>lk_type = l_type fl, lk_start = l_start fl,
      lk_end = (if l_len fl \<noteq> 0 then l_start fl + l_len fl - 1 else OFFSET_MAX),
      lk_pid = l_pid fl, lk_owner = 0\<rparr>"

definition lock_to_flock :: "lock \<Rightarrow> flock \<Rightarrow> flock" where
  "lock_to_flock lock fl =
     fl\<lparr>l_type := lk_type lock, l_start := lk_start lock,
        l_len := (if lk_end lock = OFFSET_MAX then 0 else lk_end lock - lk_start lock + 1),
        l_pid := lk_pid lock\<rparr>"

section \<open>What a table means: the lock each owner holds at each byte\<close>

definition covers :: "lock \<Rightarrow> u64 \<Rightarrow> int \<Rightarrow> bool" where
  "covers l own b \<longleftrightarrow> lk_owner l = own \<and> lk_start l \<le> b \<and> b \<le> lk_end l"

definition held :: "lock list \<Rightarrow> u64 \<Rightarrow> int \<Rightarrow> lock_type option" where
  "held locks own b = map_option lk_type (find (\<lambda>l. covers l own b) locks)"

text \<open>
  A table is canonical: ranges are non-empty and within the file offsets; the locks of one owner
  are sorted and disjoint, and neighbours of one type do not touch.
\<close>

definition valid_range :: "lock \<Rightarrow> bool" where
  "valid_range l \<longleftrightarrow> 0 \<le> lk_start l \<and> lk_start l \<le> lk_end l \<and> lk_end l \<le> OFFSET_MAX"

definition before :: "lock \<Rightarrow> lock \<Rightarrow> bool" where
  "before a b \<longleftrightarrow> (lk_owner a = lk_owner b \<longrightarrow>
     lk_end a < lk_start b \<and> (lk_type a = lk_type b \<longrightarrow> lk_end a + 1 < lk_start b))"

definition locks_ok :: "lock list \<Rightarrow> bool" where
  "locks_ok locks \<longleftrightarrow> (\<forall>l \<in> set locks. lk_type l \<noteq> F_UNLCK \<and> valid_range l) \<and> sorted_wrt before locks"

lemma held_Nil [simp]: "held [] own b = None"
  by (simp add: held_def)

lemma held_Cons [simp]:
  "held (l # ls) own b = (if covers l own b then Some (lk_type l) else held ls own b)"
  by (simp add: held_def)

lemma held_None: "(\<And>l. l \<in> set ls \<Longrightarrow> \<not> covers l own b) \<Longrightarrow> held ls own b = None"
  by (induction ls) auto

lemma locks_ok_Nil [simp]: "locks_ok []"
  by (simp add: locks_ok_def)

lemma locks_ok_Cons [simp]:
  "locks_ok (l # ls) \<longleftrightarrow> lk_type l \<noteq> F_UNLCK \<and> valid_range l \<and> (\<forall>x \<in> set ls. before l x) \<and> locks_ok ls"
  by (auto simp: locks_ok_def)

definition set_type :: "lock \<Rightarrow> (u64 \<Rightarrow> int \<Rightarrow> lock_type option) \<Rightarrow> (u64 \<Rightarrow> int \<Rightarrow> lock_type option)" where
  "set_type lock h own b =
     (if covers lock own b then (if lk_type lock = F_UNLCK then None else Some (lk_type lock))
      else h own b)"

text \<open>Behind a lock of the same owner that starts after \<open>b\<close>, nothing covers \<open>b\<close>.\<close>

lemma held_behind:
  assumes "\<forall>x \<in> set ls. before l x" "b \<le> lk_end l" "valid_range l"
  shows "held ls (lk_owner l) b = None"
  using assms by (intro held_None) (fastforce simp: before_def covers_def)

text \<open>One step of the loop, for the invariant: where the locks of the result come from.\<close>

definition derived :: "lock \<Rightarrow> lock list \<Rightarrow> lock list \<Rightarrow> bool" where
  "derived lock ls ls' \<longleftrightarrow> (\<forall>x \<in> set ls'. \<exists>y \<in> insert lock (set ls).
     lk_owner y = lk_owner x \<and> lk_type y = lk_type x \<and> lk_start y \<le> lk_start x)"

lemma derived_before:
  assumes "derived lock ls ls'" "\<forall>y \<in> set ls. before l y" "before l lock" "x \<in> set ls'"
  shows "before l x"
  using assms unfolding derived_def before_def by fastforce

lemma derived_Cons: "derived lock ls ls' \<Longrightarrow> derived lock (l # ls) (l # ls')"
  by (auto simp: derived_def)

lemma derived_refl [simp]: "derived lock ls ls" "derived lock ls (lock # ls)"
  by (auto simp: derived_def)

text \<open>What the loop establishes, for each of its exits.\<close>

definition inserted :: "lock \<Rightarrow> lock list \<Rightarrow> lock list option \<Rightarrow> bool" where
  "inserted lock ls r \<longleftrightarrow> (\<exists>ls'. r = Some ls' \<and> locks_ok ls' \<and> derived lock ls ls'
     \<and> (\<forall>own b. held ls' own b = set_type lock (held ls) own b))"

text \<open>The second spare lock is there, or it will not be needed.\<close>

definition spare :: "bool \<Rightarrow> lock \<Rightarrow> lock list \<Rightarrow> bool" where
  "spare newl2 lock ls \<longleftrightarrow> newl2 \<or> lk_end lock = OFFSET_MAX \<or>
     (\<exists>x xs. ls = x # xs \<and> lk_owner x = lk_owner lock \<and> lk_type x \<noteq> lk_type lock
       \<and> lk_end lock < lk_start x)"

lemma inserted_break:
  assumes "locks_ok ls" "valid_range lock" "newl1 \<or> lk_type lock = F_UNLCK"
    and "\<forall>x \<in> set ls. before lock x"
  shows "inserted lock ls (insert_lock newl1 lock ls)"
proof -
  have "held ls own b = None" if "covers lock own b" for own b
    using that held_behind [OF assms(4) _ assms(2), of b] by (auto simp: covers_def)
  then show ?thesis using assms
    by (auto simp: insert_lock_def inserted_def set_type_def fun_eq_iff)
qed

lemma inserted_skip:
  assumes "inserted lock ls r" "lk_type l \<noteq> F_UNLCK" "valid_range l" "\<forall>x \<in> set ls. before l x"
    "before l lock"
  shows "inserted lock (l # ls) (map_option ((#) l) r)"
proof -
  obtain ls' where r: "r = Some ls'" "locks_ok ls'" "derived lock ls ls'"
    "\<And>own b. held ls' own b = set_type lock (held ls) own b"
    using assms(1) by (auto simp: inserted_def)
  have "\<forall>x \<in> set ls'. before l x" using derived_before [OF r(3) assms(4,5)] by blast
  moreover have "\<not> covers lock own b" if "covers l own b" for own b
    using that assms(5) by (auto simp: covers_def before_def)
  ultimately show ?thesis using r assms(2,3) derived_Cons [OF r(3), of l]
    by (auto simp: inserted_def set_type_def fun_eq_iff)
qed

text \<open>The head is cut to what lies before the lock, or dropped because the lock covers it.\<close>

lemma inserted_cut:
  assumes "inserted lock ls r" "lk_type l \<noteq> F_UNLCK" "valid_range l" "\<forall>x \<in> set ls. before l x"
    "lk_owner l = lk_owner lock" "lk_type l \<noteq> lk_type lock"
    "lk_start l < lk_start lock" "lk_start lock \<le> lk_end l" "lk_end l \<le> lk_end lock"
  shows "inserted lock (l # ls) (map_option ((#) (l\<lparr>lk_end := lk_start lock - 1\<rparr>)) r)"
proof -
  let ?l = "l\<lparr>lk_end := lk_start lock - 1\<rparr>"
  have v: "valid_range ?l" "\<forall>x \<in> set ls. before ?l x" "before ?l lock"
    using assms(3-9) by (auto simp: valid_range_def before_def)
  have "inserted lock (?l # ls) (map_option ((#) ?l) r)"
    by (rule inserted_skip [OF assms(1) _ v]) (simp add: assms)
  moreover have "set_type lock (held (?l # ls)) own b = set_type lock (held (l # ls)) own b" for own b
    using assms by (auto simp: set_type_def covers_def)
  moreover have "derived lock (l # ls) ls'" if "derived lock (?l # ls) ls'" for ls'
    using that by (auto simp: derived_def)
  ultimately show ?thesis by (auto simp: inserted_def fun_eq_iff)
qed

lemma inserted_drop:
  assumes "inserted lock2 ls r" "lk_owner l = lk_owner lock" "lk_owner lock2 = lk_owner lock"
    "lk_type lock2 = lk_type lock"
    "lk_start lock2 = lk_start lock \<or> lk_start lock2 = lk_start l \<and> lk_type l = lk_type lock"
    "\<And>own b. set_type lock2 (held ls) own b = set_type lock (held (l # ls)) own b"
  shows "inserted lock (l # ls) r"
proof -
  have "derived lock (l # ls) ls'" if "derived lock2 ls ls'" for ls'
    using that assms(2-5) by (fastforce simp: derived_def)
  then show ?thesis using assms(1,6) by (auto simp: inserted_def)
qed

lemma locks_loop_inserts:
  "locks_ok ls \<Longrightarrow> valid_range lock \<Longrightarrow> newl1 \<or> lk_type lock = F_UNLCK \<Longrightarrow> spare newl2 lock ls \<Longrightarrow>
     inserted lock ls (locks_loop newl1 newl2 lock ls)"
proof (induction newl1 newl2 lock ls rule: locks_loop.induct)
  case (1 newl1 newl2 lock)
  then show ?case using inserted_break [of "[]"] by simp
next
  case (2 newl1 newl2 lock l ls)
  note eq = locks_loop.simps(2) [of newl1 newl2 lock l ls, unfolded Let_def]
  have l: "lk_type l \<noteq> F_UNLCK" "valid_range l" "\<forall>x \<in> set ls. before l x" and ls: "locks_ok ls"
    using "2.prems"(1) by simp_all
  note v = l(2) "2.prems"(2)
  have spare_tl: "spare newl2 lock ls" if "\<not> (lk_owner l = lk_owner lock \<and> lk_type l \<noteq> lk_type lock
      \<and> lk_end lock < lk_start l)"
    using that "2.prems"(4) by (auto simp: spare_def)
  consider (other) "lk_owner l \<noteq> lk_owner lock"
    | (same) "lk_owner l = lk_owner lock" "lk_type l = lk_type lock"
    | (diff) "lk_owner l = lk_owner lock" "lk_type l \<noteq> lk_type lock" by blast
  then show ?case
  proof cases
    case other
    then have "inserted lock ls (locks_loop newl1 newl2 lock ls)"
      using "2.IH"(1) ls "2.prems" spare_tl by simp
    moreover have "before l lock" using other by (simp add: before_def)
    ultimately show ?thesis using eq other inserted_skip l by simp
  next
    case same
    consider (skip) "lk_end l < lk_start lock - 1" | (break) "lk_end lock < lk_start l - 1"
        "\<not> lk_end l < lk_start lock - 1"
      | (out) "lk_start l \<le> lk_start lock" "lk_end lock \<le> lk_end l" "\<not> lk_end l < lk_start lock - 1"
          "\<not> lk_end lock < lk_start l - 1"
      | (merge) "\<not> lk_end l < lk_start lock - 1" "\<not> lk_end lock < lk_start l - 1"
          "\<not> (lk_start l \<le> lk_start lock \<and> lk_end lock \<le> lk_end l)" by blast
    then show ?thesis
    proof cases
      case skip
      then have "inserted lock ls (locks_loop newl1 newl2 lock ls)"
        using "2.IH"(2) ls same "2.prems" spare_tl by simp
      moreover have "before l lock" using skip by (simp add: before_def)
      ultimately show ?thesis using eq skip same inserted_skip l by simp
    next
      case break
      have "\<forall>x \<in> set (l # ls). before lock x"
        using break same v l(3) by (auto simp: before_def valid_range_def)
      then show ?thesis using eq break same inserted_break [OF "2.prems"(1-3)] by simp
    next
      case out
      then show ?thesis using eq same l ls
        by (auto simp: inserted_def set_type_def covers_def)
    next
      case merge
      let ?l1 = "if lk_start l < lk_start lock then lock\<lparr>lk_start := lk_start l\<rparr> else lock"
      let ?l2 = "if lk_end ?l1 < lk_end l then ?l1\<lparr>lk_end := lk_end l\<rparr> else ?l1"
      have f: "lk_owner ?l2 = lk_owner lock" "lk_type ?l2 = lk_type lock"
        "lk_start ?l2 = min (lk_start lock) (lk_start l)" "lk_end ?l2 = max (lk_end lock) (lk_end l)"
        by simp_all
      have "spare newl2 ?l2 ls" using "2.prems"(4) same v by (auto simp: spare_def valid_range_def)
      moreover have "valid_range ?l2" using v f(3,4) by (auto simp: valid_range_def)
      ultimately have "inserted ?l2 ls (locks_loop newl1 newl2 ?l2 ls)"
        using "2.IH"(3) [OF _ _ _ _ _ refl refl] same merge ls f(2) "2.prems"(3) by simp
      moreover have "set_type ?l2 (held ls) own b = set_type lock (held (l # ls)) own b" for own b
        using f merge same l(1) by (auto simp: set_type_def covers_def)
      ultimately have "inserted lock (l # ls) (locks_loop newl1 newl2 ?l2 ls)"
        using f same by (intro inserted_drop [of ?l2]) (auto simp: min_def)
      then show ?thesis using eq same merge by simp
    qed
  next
    case diff
    consider (skip) "lk_end l < lk_start lock" | (break) "lk_end lock < lk_start l"
        "\<not> lk_end l < lk_start lock"
      | (del) "lk_start lock \<le> lk_start l" "lk_end l \<le> lk_end lock" "\<not> lk_end l < lk_start lock"
          "\<not> lk_end lock < lk_start l"
      | (cut) "\<not> lk_start lock \<le> lk_start l" "lk_end l \<le> lk_end lock" "\<not> lk_end l < lk_start lock"
          "\<not> lk_end lock < lk_start l"
      | (tail) "lk_start lock \<le> lk_start l" "\<not> lk_end l \<le> lk_end lock" "\<not> lk_end l < lk_start lock"
          "\<not> lk_end lock < lk_start l"
      | (split) "\<not> lk_start lock \<le> lk_start l" "\<not> lk_end l \<le> lk_end lock" "\<not> lk_end l < lk_start lock"
          "\<not> lk_end lock < lk_start l" by blast
    then show ?thesis
    proof cases
      case skip
      then have "inserted lock ls (locks_loop newl1 newl2 lock ls)"
        using "2.IH"(4) ls diff v "2.prems" spare_tl by (simp add: valid_range_def)
      moreover have "before l lock" using skip diff by (simp add: before_def)
      ultimately show ?thesis using eq skip diff inserted_skip l by simp
    next
      case break
      have "\<forall>x \<in> set (l # ls). before lock x"
        using break diff v l(3) by (auto simp: before_def valid_range_def)
      then show ?thesis using eq break diff inserted_break [OF "2.prems"(1-3)] by simp
    next
      case del
      then have "inserted lock ls (locks_loop newl1 newl2 lock ls)"
        using "2.IH"(5) ls diff "2.prems" spare_tl by simp
      moreover have "set_type lock (held ls) own b = set_type lock (held (l # ls)) own b" for own b
        using del diff by (auto simp: set_type_def covers_def)
      ultimately have "inserted lock (l # ls) (locks_loop newl1 newl2 lock ls)"
        using diff by (intro inserted_drop [of lock]) auto
      then show ?thesis using eq del diff by simp
    next
      case cut
      then have "inserted lock ls (locks_loop newl1 newl2 lock ls)"
        using "2.IH"(6) ls diff "2.prems" spare_tl by simp
      then have "inserted lock (l # ls) (map_option ((#) (l\<lparr>lk_end := lk_start lock - 1\<rparr>))
          (locks_loop newl1 newl2 lock ls))"
        using l diff cut by (intro inserted_cut) auto
      then show ?thesis using eq cut diff by simp
    next
      case tail
      let ?l = "l\<lparr>lk_start := lk_end lock + 1\<rparr>"
      have "locks_ok (?l # ls)" "\<forall>x \<in> set (?l # ls). before lock x"
        using tail diff v l ls by (fastforce simp: valid_range_def before_def)+
      then have "inserted lock (?l # ls) (insert_lock newl1 lock (?l # ls))"
        using "2.prems"(2,3) by (intro inserted_break)
      moreover have "set_type lock (held (?l # ls)) own b = set_type lock (held (l # ls)) own b" for own b
        using tail diff by (auto simp: set_type_def covers_def)
      moreover have "derived lock (l # ls) ls'" if "derived lock (?l # ls) ls'" for ls'
        using that tail by (fastforce simp: derived_def)
      ultimately show ?thesis using eq tail diff by (auto simp: inserted_def)
    next
      case split
      let ?a = "l\<lparr>lk_end := lk_start lock - 1\<rparr>" and ?b = "l\<lparr>lk_start := lk_end lock + 1\<rparr>"
      have n: newl2 using "2.prems"(4) split v by (auto simp: spare_def valid_range_def)
      have ok: "locks_ok (?b # ls)" using split v l ls by (auto simp: valid_range_def before_def)
      have "spare False lock (?b # ls)" using diff by (auto simp: spare_def)
      then have ins: "inserted lock (?b # ls) (locks_loop newl1 False lock (?b # ls))"
        using "2.IH"(7) ok diff split n "2.prems" by simp
      have "inserted lock (?a # ?b # ls) (map_option ((#) ?a) (locks_loop newl1 False lock (?b # ls)))"
        using split diff v l by (intro inserted_skip [OF ins]) (auto simp: valid_range_def before_def)
      moreover have "set_type lock (held (?a # ?b # ls)) own b = set_type lock (held (l # ls)) own b"
        for own b using split diff by (auto simp: set_type_def covers_def)
      moreover have "derived lock (l # ls) ls'" if "derived lock (?a # ?b # ls) ls'" for ls'
        using that split by (fastforce simp: derived_def)
      ultimately show ?thesis using eq split diff n by (auto simp: inserted_def)
    qed
  qed
qed

lemma spare_True [simp]: "spare True lock ls"
  by (simp add: spare_def)

text \<open>
  C7.  \<open>locks_insert\<close> on a canonical table: it never uses a spare lock it did not allocate, keeps
  the table canonical (non-empty ranges, disjoint, sorted and merged per owner), and on success
  changes exactly what the request says: the owner's lock at every byte of the range is the
  requested one (none for an unlock), everything else is as before.  When memory runs out the
  answer is \<open>-ENOLCK\<close> and the table is untouched.
\<close>

theorem locks_insert_refines:
  assumes "locks_ok locks" and "valid_range lock"
  shows "\<exists>res al' ls'. locks_insert al locks lock = Some (res, al', ls') \<and> locks_ok ls' \<and>
    (res = 0 \<and> (\<forall>own b. held ls' own b = set_type lock (held locks) own b) \<or>
     res = - ENOLCK \<and> ls' = locks)"
proof -
  obtain ok1 al1 where a1: "alloc_next al = (ok1, al1)" by fastforce
  obtain ok2 al2 where a2: "alloc_next al1 = (ok2, al2)" by fastforce
  show ?thesis
  proof (cases "lk_type lock \<noteq> F_UNLCK \<or> lk_start lock \<noteq> 0 \<or> lk_end lock \<noteq> OFFSET_MAX")
    case True
    have "inserted lock locks (locks_loop True True lock locks)"
      using assms by (simp add: locks_loop_inserts)
    with True a1 a2 assms show ?thesis by (auto simp: locks_insert_def inserted_def)
  next
    case False
    then have "spare False lock locks" by (simp add: spare_def)
    then have "inserted lock locks (locks_loop False False lock locks)"
      using assms False by (simp add: locks_loop_inserts)
    with False show ?thesis by (auto simp: locks_insert_def inserted_def)
  qed
qed

definition mk_lock :: "lock_type \<Rightarrow> int \<Rightarrow> int \<Rightarrow> u64 \<Rightarrow> lock" where
  "mk_lock t s e own = \<lparr>lk_type = t, lk_start = s, lk_end = e, lk_pid = 0, lk_owner = own\<rparr>"

theorem locks_insert_refines_witness:
  "locks_insert [] [mk_lock F_WRLCK 0 9 1] (mk_lock F_RDLCK 3 5 1)
     = Some (0, [], [mk_lock F_WRLCK 0 2 1, mk_lock F_RDLCK 3 5 1, mk_lock F_WRLCK 6 9 1])
   \<and> locks_ok [mk_lock F_WRLCK 0 2 1, mk_lock F_RDLCK 3 5 1, mk_lock F_WRLCK 6 9 1]"
proof -
  let ?w = "mk_lock F_WRLCK 0 9 1" and ?r = "mk_lock F_RDLCK 3 5 1"
  have run: "locks_insert [] [?w] ?r
      = Some (0, [], [mk_lock F_WRLCK 0 2 1, mk_lock F_RDLCK 3 5 1, mk_lock F_WRLCK 6 9 1])"
    by (simp add: locks_insert_def locks_loop.simps(2) insert_lock_def mk_lock_def)
  have "locks_ok [?w]" "valid_range ?r" by (simp_all add: valid_range_def mk_lock_def OFFSET_MAX_def)
  from locks_insert_refines [OF this, of "[]"] run show ?thesis by auto
qed

lemma held_covers:
  "locks_ok locks \<Longrightarrow> l \<in> set locks \<Longrightarrow> covers l own b \<Longrightarrow> held locks own b = Some (lk_type l)"
  by (induction locks) (fastforce simp: before_def covers_def)+

lemma held_Some: "held locks own b = Some t \<Longrightarrow> \<exists>l \<in> set locks. covers l own b \<and> lk_type l = t"
  by (auto simp: held_def find_Some_iff intro: nth_mem)

text \<open>
  \<open>locks_conflict\<close> finds a lock exactly when, at some byte of the requested range, another
  owner holds a lock and one of the two is a write lock.
\<close>

lemma locks_conflict_iff:
  assumes "locks_ok locks" and "valid_range lock"
  shows "locks_conflict locks lock \<noteq> None \<longleftrightarrow>
    (\<exists>own b t. own \<noteq> lk_owner lock \<and> lk_start lock \<le> b \<and> b \<le> lk_end lock
       \<and> held locks own b = Some t \<and> (t = F_WRLCK \<or> lk_type lock = F_WRLCK))"
proof
  assume "locks_conflict locks lock \<noteq> None"
  then obtain l where l: "l \<in> set locks" "lk_owner l \<noteq> lk_owner lock" "lk_start lock \<le> lk_end l"
    "lk_start l \<le> lk_end lock" "lk_type l = F_WRLCK \<or> lk_type lock = F_WRLCK"
    by (auto simp: locks_conflict_def find_None_iff)
  let ?b = "max (lk_start lock) (lk_start l)"
  have "valid_range l" using l(1) assms(1) by (auto simp: locks_ok_def)
  then have "covers l (lk_owner l) ?b" using l(3) by (auto simp: covers_def valid_range_def)
  with held_covers [OF assms(1) l(1)] have "held locks (lk_owner l) ?b = Some (lk_type l)" by simp
  moreover have "lk_start lock \<le> ?b" "?b \<le> lk_end lock"
    using l(4) assms(2) by (auto simp: valid_range_def)
  ultimately show "\<exists>own b t. own \<noteq> lk_owner lock \<and> lk_start lock \<le> b \<and> b \<le> lk_end lock
       \<and> held locks own b = Some t \<and> (t = F_WRLCK \<or> lk_type lock = F_WRLCK)"
    using l(2,5) by blast
next
  assume "\<exists>own b t. own \<noteq> lk_owner lock \<and> lk_start lock \<le> b \<and> b \<le> lk_end lock
       \<and> held locks own b = Some t \<and> (t = F_WRLCK \<or> lk_type lock = F_WRLCK)"
  then obtain l b where "l \<in> set locks" "lk_owner l \<noteq> lk_owner lock" "lk_start lock \<le> b" "b \<le> lk_end lock"
    "covers l (lk_owner l) b" "lk_type l = F_WRLCK \<or> lk_type lock = F_WRLCK"
    by (auto dest!: held_Some simp: covers_def)
  then show "locks_conflict locks lock \<noteq> None"
    unfolding locks_conflict_def find_None_iff covers_def
    by (auto intro!: exI [of _ l])
qed

lemma locks_conflict_iff_witness:
  "locks_conflict [mk_lock F_RDLCK 0 9 1] (mk_lock F_WRLCK 5 20 2) \<noteq> None \<longleftrightarrow>
    (\<exists>own b t. own \<noteq> lk_owner (mk_lock F_WRLCK 5 20 2) \<and> lk_start (mk_lock F_WRLCK 5 20 2) \<le> b
       \<and> b \<le> lk_end (mk_lock F_WRLCK 5 20 2)
       \<and> held [mk_lock F_RDLCK 0 9 1] own b = Some t
       \<and> (t = F_WRLCK \<or> lk_type (mk_lock F_WRLCK 5 20 2) = F_WRLCK))"
  by (rule locks_conflict_iff) (simp_all add: valid_range_def mk_lock_def OFFSET_MAX_def)

text \<open>
  A lock reported to the kernel as a \<open>struct flock\<close> reads back as the same lock (its owner
  apart, which is not part of the struct), including the convention that length 0 reaches to the
  end of the file.
\<close>

lemma flock_roundtrip:
  assumes "valid_range lock"
  shows "flock_to_lock (lock_to_flock lock fl) = lock\<lparr>lk_owner := 0\<rparr>"
  using assms by (cases lock) (auto simp: flock_to_lock_def lock_to_flock_def valid_range_def)

lemma flock_roundtrip_witness:
  "flock_to_lock (lock_to_flock (mk_lock F_RDLCK 7 OFFSET_MAX 3)
     \<lparr>l_type = F_UNLCK, l_start = 1, l_len = 2, l_pid = 3\<rparr>)
   = (mk_lock F_RDLCK 7 OFFSET_MAX 3)\<lparr>lk_owner := 0\<rparr>"
  by (rule flock_roundtrip) (simp add: valid_range_def mk_lock_def OFFSET_MAX_def)

end
