(* ===== verification/NodeTable.thy ===== *)
theory NodeTable
  imports Prelude "HOL-Library.Multiset"
begin

text \<open>
  The growing hash tables of \<open>.deps/libfuse3-3.16.2/lib/fuse.c\<close>: \<open>struct node_table\<close>, the bucket
  choice of \<open>id_hash\<close> and \<open>name_hash\<close>, one step of growing (\<open>rehash_id\<close>, \<open>rehash_name\<close>,
  \<open>node_table_resize\<close>) and of shrinking (\<open>remerge_id\<close>, \<open>remerge_name\<close>, \<open>node_table_reduce\<close>).

  The C code has each of these functions twice, once per table; they differ in the link field and
  in the hash.  Here a chain is the HOL list of its nodes, and the functions take the hash of a
  node before it is reduced to a bucket, \<open>raw\<close>; \<open>Nodes.thy\<close> has the two instances.  Reading a
  bucket outside of the array is the value \<open>None\<close>.
\<close>

section \<open>The table\<close>

record 'p node_table =
  array :: "nat \<Rightarrow> 'p list"
  use_count :: nat
  tsize :: nat
  split :: nat

definition NODE_TABLE_MIN_SIZE :: nat where
  "NODE_TABLE_MIN_SIZE = 8192"

definition chain :: "'p node_table \<Rightarrow> nat \<Rightarrow> 'p list option" where
  "chain t i = (if i < tsize t then Some (array t i) else None)"

definition set_chain :: "nat \<Rightarrow> 'p list \<Rightarrow> 'p node_table \<Rightarrow> 'p node_table" where
  "set_chain i ps t = t\<lparr>array := (array t)(i := ps)\<rparr>"

text \<open>The common end of \<open>id_hash\<close> and \<open>name_hash\<close>, on the hash before reduction.\<close>

definition bucket :: "'p node_table \<Rightarrow> nat \<Rightarrow> nat" where
  "bucket t raw =
     (let hash = raw mod tsize t;
          oldhash = hash mod (tsize t div 2)
      in if split t \<le> oldhash then oldhash else hash)"

definition raw_id :: "u64 \<Rightarrow> nat" where
  "raw_id ino = unat ((ucast ino :: u32) * 2654435761)"

definition raw_name :: "u64 \<Rightarrow> string \<Rightarrow> nat" where
  "raw_name parent name = unat (foldl (\<lambda>hash c. hash * 31 + of_nat (of_char c)) parent name)"

section \<open>Growing\<close>

text \<open>A failed \<open>realloc\<close> leaves the table as it is; new buckets are cleared.\<close>

definition node_table_resize :: "allocs \<Rightarrow> 'p node_table \<Rightarrow> int \<times> allocs \<times> 'p node_table" where
  "node_table_resize al t =
     (let (ok, al1) = alloc_next al; newsize = tsize t * 2 in
      if \<not> ok then (-1, al1, t)
      else (0, al1, t\<lparr>array := (\<lambda>i. if tsize t \<le> i \<and> i < newsize then [] else array t i),
                      tsize := newsize, split := 0\<rparr>))"

text \<open>The walk over one chain; what stays is returned, what moves is pushed on its new chain.\<close>

fun rehash_loop :: "('p \<Rightarrow> nat) \<Rightarrow> nat \<Rightarrow> 'p list \<Rightarrow> 'p node_table \<Rightarrow> 'p list \<times> 'p node_table" where
  "rehash_loop raw hash [] t = ([], t)"
| "rehash_loop raw hash (p # ps) t =
     (let newhash = bucket t (raw p) in
      if newhash \<noteq> hash
      then rehash_loop raw hash ps (set_chain newhash (p # array t newhash) t)
      else (let (kept, t') = rehash_loop raw hash ps t in (p # kept, t')))"

definition rehash :: "('p \<Rightarrow> nat) \<Rightarrow> allocs \<Rightarrow> 'p node_table \<Rightarrow> allocs \<times> 'p node_table" where
  "rehash raw al t =
     (if split t = tsize t div 2 then (al, t)
      else
        let hash = split t;
            t1 = t\<lparr>split := split t + 1\<rparr>;
            (kept, t2) = rehash_loop raw hash (array t1 hash) t1;
            t3 = set_chain hash kept t2
        in if split t3 = tsize t3 div 2 then snd (node_table_resize al t3) else (al, t3))"

section \<open>Shrinking\<close>

text \<open>A failed \<open>realloc\<close> is ignored: the array stays longer than the table uses.\<close>

definition node_table_reduce :: "allocs \<Rightarrow> 'p node_table \<Rightarrow> allocs \<times> 'p node_table" where
  "node_table_reduce al t =
     (let newsize = tsize t div 2 in
      if newsize < NODE_TABLE_MIN_SIZE then (al, t)
      else (snd (alloc_next al), t\<lparr>tsize := newsize, split := newsize div 2\<rparr>))"

fun remerge_loop :: "nat \<Rightarrow> 'p node_table \<Rightarrow> 'p node_table" where
  "remerge_loop 0 t = t"
| "remerge_loop (Suc iter) t =
     (if split t = 0 then t
      else
        let t1 = t\<lparr>split := split t - 1\<rparr>;
            upper = split t1 + tsize t1 div 2
        in if array t1 upper \<noteq> []
           then set_chain upper []
             (set_chain (split t1) (array t1 (split t1) @ array t1 upper) t1)
           else remerge_loop iter t1)"

definition remerge :: "allocs \<Rightarrow> 'p node_table \<Rightarrow> allocs \<times> 'p node_table" where
  "remerge al t =
     (let (al1, t1) = (if split t = 0 then node_table_reduce al t else (al, t))
      in (al1, remerge_loop 8 t1))"

section \<open>Adding and removing a node\<close>

text \<open>The table part of \<open>hash_id\<close> and \<open>hash_name\<close>.\<close>

definition table_add :: "('p \<Rightarrow> nat) \<Rightarrow> allocs \<Rightarrow> nat \<Rightarrow> 'p \<Rightarrow> 'p node_table \<Rightarrow> (allocs \<times> 'p node_table) option" where
  "table_add raw al hash p t =
     do { ps \<leftarrow> chain t hash;
          let t1 = (set_chain hash (p # ps) t)\<lparr>use_count := use_count t + 1\<rparr>;
          Some (if tsize t1 div 2 \<le> use_count t1 then rehash raw al t1 else (al, t1)) }"

text \<open>\<open>use--\<close> and the test behind it, in \<open>unhash_id\<close> and \<open>unhash_name\<close>.\<close>

definition table_dec :: "allocs \<Rightarrow> 'p node_table \<Rightarrow> allocs \<times> 'p node_table" where
  "table_dec al t =
     (let t1 = t\<lparr>use_count := use_count t - 1\<rparr> in
      if use_count t1 < tsize t1 div 4 then remerge al t1 else (al, t1))"

section \<open>What a table holds\<close>

definition contents :: "'p node_table \<Rightarrow> 'p multiset" where
  "contents t = (\<Sum>i<tsize t. mset (array t i))"

text \<open>
  The shape: a power of two times the minimal size, \<open>split\<close> in the lower half.  Every node is in
  the chain of its bucket.
\<close>

definition shape_ok :: "'p node_table \<Rightarrow> bool" where
  "shape_ok t \<longleftrightarrow> (\<exists>k. tsize t = NODE_TABLE_MIN_SIZE * 2 ^ k) \<and> split t \<le> tsize t div 2"

definition placed :: "('p \<Rightarrow> nat) \<Rightarrow> 'p node_table \<Rightarrow> bool" where
  "placed raw t \<longleftrightarrow> (\<forall>i<tsize t. \<forall>p \<in> set (array t i). bucket t (raw p) = i)"

definition table_ok :: "('p \<Rightarrow> nat) \<Rightarrow> 'p node_table \<Rightarrow> bool" where
  "table_ok raw t \<longleftrightarrow> shape_ok t \<and> placed raw t"

lemma shape_pos: "shape_ok t \<Longrightarrow> 0 < tsize t div 2 \<and> tsize t = 2 * (tsize t div 2)"
  by (auto simp: shape_ok_def NODE_TABLE_MIN_SIZE_def)

lemma mod_half: "(x::nat) mod (2 * h) = x mod h \<or> x mod (2 * h) = x mod h + h"
  by (cases "h = 0") (auto simp: mod_mult2_eq mult.commute [of 2 h] mod2_eq_if)

lemma mod_half_mod: "(x::nat) mod (2 * h) mod h = x mod h"
  by (simp add: mod_mod_cancel)

lemma bucket_cases:
  assumes "shape_ok t"
  shows "bucket t x = x mod (tsize t div 2) \<and> split t \<le> x mod (tsize t div 2)
    \<or> bucket t x = x mod tsize t \<and> x mod (tsize t div 2) < split t"
proof -
  obtain h where h: "tsize t = 2 * h" using shape_pos [OF assms] by blast
  then show ?thesis using mod_half_mod [of x h] by (auto simp: bucket_def Let_def)
qed

lemma bucket_less: "shape_ok t \<Longrightarrow> bucket t x < tsize t"
  using bucket_cases [of t x] shape_pos [of t]
  by (smt (verit, best) mod_less_divisor less_le_trans order.strict_trans div_le_dividend nat_less_le)

lemma bucket_below: "shape_ok t \<Longrightarrow> bucket t x < split t + tsize t div 2"
proof -
  assume s: "shape_ok t"
  obtain h where h: "tsize t = 2 * h" "0 < h" using shape_pos [OF s] by (metis)
  have "x mod (2 * h) = x mod h \<or> x mod (2 * h) = x mod h + h" by (rule mod_half)
  then show ?thesis using bucket_cases [OF s, of x] h mod_less_divisor [OF h(2), of x] by auto
qed

lemma placed_upper_empty:
  "table_ok raw t \<Longrightarrow> split t + tsize t div 2 \<le> i \<Longrightarrow> i < tsize t \<Longrightarrow> array t i = []"
  by (cases "array t i") (auto simp: table_ok_def placed_def dest: bucket_below [of t "raw (hd (array t i))"])

lemma contents_iff: "p \<in># contents t \<longleftrightarrow> (\<exists>i<tsize t. p \<in> set (array t i))"
proof -
  have "p \<in># (\<Sum>i<n. mset (array t i)) \<longleftrightarrow> (\<exists>i<n. p \<in> set (array t i))" for n
    by (induction n) (auto simp: less_Suc_eq)
  then show ?thesis by (simp add: contents_def)
qed

lemma set_chain_simps [simp]:
  "tsize (set_chain i ps t) = tsize t" "split (set_chain i ps t) = split t"
  "use_count (set_chain i ps t) = use_count t"
  "array (set_chain i ps t) = (array t)(i := ps)"
  "bucket (set_chain i ps t) x = bucket t x" "shape_ok (set_chain i ps t) = shape_ok t"
  by (simp_all add: set_chain_def bucket_def shape_ok_def)

lemma set_chain_twice [simp]: "set_chain i ps (set_chain i qs t) = set_chain i ps t"
  by (simp add: set_chain_def)

lemma contents_set_chain:
  assumes "i < tsize t"
  shows "contents (set_chain i ps t) + mset (array t i) = contents t + mset ps"
proof -
  have "(\<Sum>j\<in>{..<tsize t}. mset (((array t)(i := ps)) j))
      = mset ps + (\<Sum>j\<in>{..<tsize t} - {i}. mset (array t j))"
    using assms by (subst sum.remove [of _ i]) (auto intro!: sum.cong)
  moreover have "(\<Sum>j\<in>{..<tsize t}. mset (array t j))
      = mset (array t i) + (\<Sum>j\<in>{..<tsize t} - {i}. mset (array t j))"
    using assms by (subst sum.remove [of _ i]) auto
  ultimately show ?thesis by (simp add: contents_def)
qed

lemma contents_push: "i < tsize t \<Longrightarrow> contents (set_chain i (p # array t i) t) = add_mset p (contents t)"
  using contents_set_chain [of i t "p # array t i"] by simp

lemma contents_upd [simp]:
  "contents (t\<lparr>split := s\<rparr>) = contents t" "contents (t\<lparr>use_count := u\<rparr>) = contents t"
  by (simp_all add: contents_def)

lemma bucket_use [simp]: "bucket (t\<lparr>use_count := u\<rparr>) x = bucket t x"
  by (simp add: bucket_def)

lemma table_ok_use [simp]: "table_ok raw (t\<lparr>use_count := u\<rparr>) = table_ok raw t"
  by (simp add: table_ok_def placed_def shape_ok_def)

lemma in_bucket:
  "table_ok raw t \<Longrightarrow> p \<in># contents t \<longleftrightarrow> p \<in> set (array t (bucket t (raw p)))"
  using bucket_less [of t "raw p"] by (auto simp: contents_iff table_ok_def placed_def)

text \<open>\<open>placed\<close> only looks at the hashes of nodes in the table.\<close>

lemma placed_cong:
  "(\<And>p. p \<in># contents t \<Longrightarrow> raw p = raw' p) \<Longrightarrow> placed raw t = placed raw' t"
  by (simp add: placed_def contents_iff) metis

lemma table_ok_cong:
  "(\<And>p. p \<in># contents t \<Longrightarrow> raw p = raw' p) \<Longrightarrow> table_ok raw t = table_ok raw' t"
  unfolding table_ok_def by (metis placed_cong)

section \<open>Growing and shrinking keep the contents\<close>

lemma rehash_loop_spec:
  assumes "\<forall>p \<in> set ps. bucket t (raw p) = hash \<or> bucket t (raw p) = up" and "hash \<noteq> up"
  shows "rehash_loop raw hash ps t =
    (filter (\<lambda>p. bucket t (raw p) = hash) ps,
     set_chain up (rev (filter (\<lambda>p. bucket t (raw p) \<noteq> hash) ps) @ array t up) t)"
  using assms
proof (induction ps arbitrary: t)
  case Nil
  then show ?case by (simp add: set_chain_def)
next
  case (Cons p ps)
  show ?case
  proof (cases "bucket t (raw p) = hash")
    case True
    then show ?thesis using Cons.IH [of t] Cons.prems by simp
  next
    case False
    then have up: "bucket t (raw p) = up" using Cons.prems by simp
    show ?thesis
      using Cons.IH [of "set_chain up (p # array t up) t"] Cons.prems up by simp
  qed
qed

lemma mset_filter_both: "mset (filter P xs) + mset (filter (\<lambda>x. \<not> P x) xs) = mset xs"
  by simp

lemma resize_ok:
  assumes ok: "table_ok raw t" and full: "split t = tsize t div 2"
    and r: "node_table_resize al t = (res, al', t')"
  shows "table_ok raw t' \<and> contents t' = contents t \<and> use_count t' = use_count t
    \<and> (split t' = tsize t' div 2 \<longrightarrow> res = -1)"
proof (cases "res = 0")
  case False
  then show ?thesis using r ok by (auto simp: node_table_resize_def Let_def split: prod.splits if_splits)
next
  case True
  then have t': "t' = t\<lparr>array := (\<lambda>i. if tsize t \<le> i \<and> i < tsize t * 2 then [] else array t i),
      tsize := tsize t * 2, split := 0\<rparr>"
    using r by (auto simp: node_table_resize_def Let_def split: prod.splits if_splits)
  have shape: "shape_ok t" using ok by (simp add: table_ok_def)
  note pos = shape_pos [OF shape]
  have shape': "shape_ok t'"
    using shape unfolding shape_ok_def t' by (auto intro: exI [of _ "Suc k" for k])
  have b: "bucket t x = x mod tsize t" for x
    using bucket_cases [OF shape, of x] full mod_less_divisor [of "tsize t div 2" x] pos
    by (metis less_irrefl less_le_trans)
  have b': "bucket t' x = x mod tsize t" for x
    using bucket_cases [OF shape', of x] by (auto simp: t')
  have "placed raw t'"
    using ok by (auto simp: placed_def table_ok_def b b') (auto simp: t' placed_def b split: if_splits)
  moreover have "contents t' = contents t"
  proof -
    have "(\<Sum>i<tsize t * 2. mset (array t' i)) = (\<Sum>i<tsize t. mset (array t' i))"
      by (rule sum.mono_neutral_right) (auto simp: t')
    also have "\<dots> = (\<Sum>i<tsize t. mset (array t i))"
      by (rule sum.cong) (auto simp: t')
    finally show ?thesis by (simp add: contents_def t')
  qed
  ultimately show ?thesis using shape' pos by (auto simp: table_ok_def t')
qed

lemma split_step_bucket:
  assumes "shape_ok t" and "split t < tsize t div 2"
  shows "bucket (t\<lparr>split := split t + 1\<rparr>) x =
    (if x mod (tsize t div 2) = split t then x mod tsize t else bucket t x)"
proof -
  have s': "shape_ok (t\<lparr>split := split t + 1\<rparr>)" using assms by (simp add: shape_ok_def)
  show ?thesis using bucket_cases [OF assms(1), of x] bucket_cases [OF s', of x] assms(2) by auto
qed

lemma rehash_ok:
  assumes ok: "table_ok raw t" and r: "rehash raw al t = (al', t')"
  shows "table_ok raw t' \<and> contents t' = contents t \<and> use_count t' = use_count t"
proof (cases "split t = tsize t div 2")
  case True
  then show ?thesis using r ok by (simp add: rehash_def)
next
  case False
  have shape: "shape_ok t" using ok by (simp add: table_ok_def)
  note pos = shape_pos [OF shape]
  from False shape have less: "split t < tsize t div 2" by (simp add: shape_ok_def)
  let ?h = "split t" and ?half = "tsize t div 2"
  let ?up = "?h + ?half" and ?t1 = "t\<lparr>split := split t + 1\<rparr>" and ?ps = "array t (split t)"
  note b1 = split_step_bucket [OF shape less]
  have in_t: "bucket t (raw p) = ?h" if "p \<in> set ?ps" for p
    using ok that less by (auto simp: table_ok_def placed_def)
  have modh: "raw p mod ?half = ?h" if "p \<in> set ?ps" for p
    using in_t [OF that] bucket_cases [OF shape, of "raw p"] mod_half [of "raw p" ?half] pos less
    by auto
  have two: "x mod ?half = ?h \<Longrightarrow> bucket ?t1 x = ?h \<or> bucket ?t1 x = ?up" for x
    using b1 [of x] mod_half [of x ?half] pos by auto
  let ?stay = "filter (\<lambda>p. bucket ?t1 (raw p) = ?h) ?ps"
  let ?move = "filter (\<lambda>p. bucket ?t1 (raw p) \<noteq> ?h) ?ps"
  have loop: "rehash_loop raw ?h ?ps ?t1 = (?stay, set_chain ?up (rev ?move @ array ?t1 ?up) ?t1)"
    by (rule rehash_loop_spec) (use two modh pos in auto)
  have up: "?up < tsize t" "?h < tsize t" "?up \<noteq> ?h" using less pos by auto
  have empty: "array t ?up = []" using placed_upper_empty [OF ok, of ?up] up by simp
  define t3 where "t3 = set_chain ?h ?stay (set_chain ?up (rev ?move @ array ?t1 ?up) ?t1)"
  have c3: "contents t3 = contents t"
  proof -
    have a: "contents (set_chain ?up (rev ?move) ?t1) = contents t + mset ?move"
      using contents_set_chain [of ?up ?t1 "rev ?move"] up empty by simp
    have "contents t3 + mset ?ps = contents (set_chain ?up (rev ?move) ?t1) + mset ?stay"
      using contents_set_chain [of ?h "set_chain ?up (rev ?move) ?t1" ?stay] up empty
      by (simp add: t3_def)
    also have "\<dots> = contents t + mset ?ps"
      using a mset_filter_both [of "\<lambda>p. bucket ?t1 (raw p) = ?h" ?ps] by (simp add: ac_simps)
    finally show ?thesis by simp
  qed
  have p3: "placed raw t3"
  proof -
    have same: "bucket ?t1 (raw p) = i" if "i < tsize t" "i \<noteq> ?h" "i \<noteq> ?up" "p \<in> set (array t i)" for i p
    proof -
      have "bucket t (raw p) = i" using ok that by (auto simp: table_ok_def placed_def)
      moreover have "raw p mod ?half \<noteq> ?h"
        using calculation bucket_cases [OF shape, of "raw p"] that mod_half [of "raw p" ?half] pos
        by auto
      ultimately show ?thesis using b1 by simp
    qed
    have moved: "bucket ?t1 (raw p) = ?up" if "p \<in> set ?move" for p
      using that two [OF modh] by auto
    have arr: "array t3 = (array t)(?up := rev ?move, ?h := ?stay)" using empty by (simp add: t3_def)
    have bkt: "bucket t3 x = bucket ?t1 x" for x by (simp add: t3_def)
    have "bucket ?t1 (raw p) = i" if i: "i < tsize t" and p: "p \<in> set (array t3 i)" for i p
    proof (cases "i = ?h \<or> i = ?up")
      case True
      then show ?thesis using p moved [of p] up(3) unfolding arr by (auto split: if_splits)
    next
      case False
      then show ?thesis using p i same [of i p] unfolding arr by simp
    qed
    moreover have "tsize t3 = tsize t" by (simp add: t3_def)
    ultimately show ?thesis unfolding placed_def bkt by simp
  qed
  have sh3: "shape_ok t3" using shape less by (simp add: t3_def shape_ok_def)
  have ok3: "table_ok raw t3" using p3 sh3 by (simp add: table_ok_def)
  have eq: "rehash raw al t = (if split t3 = tsize t3 div 2 then snd (node_table_resize al t3) else (al, t3))"
    using False loop by (simp add: rehash_def Let_def t3_def)
  have u3: "use_count t3 = use_count t" by (simp add: t3_def)
  show ?thesis
  proof (cases "split t3 = tsize t3 div 2")
    case True
    obtain res where "node_table_resize al t3 = (res, al', t')"
      using eq r True by (cases "node_table_resize al t3") auto
    from resize_ok [OF ok3 True this] c3 u3 show ?thesis by simp
  next
    case False
    then show ?thesis using eq r ok3 c3 u3 by simp
  qed
qed

lemma reduce_ok:
  assumes ok: "table_ok raw t" and zero: "split t = 0"
    and r: "node_table_reduce al t = (al', t')"
  shows "table_ok raw t' \<and> contents t' = contents t \<and> use_count t' = use_count t"
proof (cases "tsize t div 2 < NODE_TABLE_MIN_SIZE")
  case True
  then show ?thesis using r ok by (simp add: node_table_reduce_def)
next
  case False
  let ?half = "tsize t div 2"
  have t': "t' = t\<lparr>tsize := ?half, split := ?half div 2\<rparr>"
    using r False by (simp add: node_table_reduce_def Let_def)
  have shape: "shape_ok t" using ok by (simp add: table_ok_def)
  note pos = shape_pos [OF shape]
  have shape': "shape_ok t'"
  proof -
    obtain k where k: "tsize t = NODE_TABLE_MIN_SIZE * 2 ^ k" using shape by (auto simp: shape_ok_def)
    with False have "k \<noteq> 0" by (cases k) (auto simp: NODE_TABLE_MIN_SIZE_def)
    then obtain j where "k = Suc j" by (cases k) auto
    with k have "tsize t' = NODE_TABLE_MIN_SIZE * 2 ^ j" by (simp add: t')
    then show ?thesis by (auto simp: shape_ok_def t')
  qed
  note pos' = shape_pos [OF shape']
  have b: "bucket t x = x mod ?half" for x
    using bucket_cases [OF shape, of x] zero by auto
  have b': "bucket t' x = x mod ?half" for x
  proof -
    have "tsize t' = ?half" "split t' = ?half div 2" by (simp_all add: t')
    then show ?thesis
      using bucket_cases [OF shape', of x] pos' mod_less_divisor [of "?half div 2" x]
      by (metis less_irrefl less_le_trans)
  qed
  have upper: "array t i = []" if "?half \<le> i" "i < tsize t" for i
    using placed_upper_empty [OF ok] that zero by simp
  have "placed raw t'" using ok pos unfolding table_ok_def placed_def b b' by (simp add: t')
  moreover have "contents t' = contents t"
    unfolding contents_def
    by (rule sum.mono_neutral_cong_left) (use upper in \<open>auto simp: t'\<close>)
  ultimately show ?thesis using shape' by (simp add: table_ok_def t')
qed

lemma merge_ok:
  assumes ok: "table_ok raw t" and s: "split t = Suc s" and up: "up = s + tsize t div 2"
  defines "t2 \<equiv> set_chain up [] (set_chain s (array t s @ array t up) (t\<lparr>split := s\<rparr>))"
  shows "table_ok raw t2 \<and> contents t2 = contents t"
proof -
  let ?half = "tsize t div 2" and ?t1 = "t\<lparr>split := s\<rparr>"
  have shape: "shape_ok t" using ok by (simp add: table_ok_def)
  note pos = shape_pos [OF shape]
  have shape1: "shape_ok ?t1" using shape s by (auto simp: shape_ok_def)
  have lt: "s < ?half" using shape s by (simp add: shape_ok_def)
  have idx: "s < tsize t" "up < tsize t" "s \<noteq> up" using lt pos up by auto
  have b: "bucket t x = (if x mod ?half = s then x mod tsize t else bucket ?t1 x)" for x
  proof -
    have "t\<lparr>split := Suc s\<rparr> = t" using s by (cases t) simp
    then show ?thesis using split_step_bucket [OF shape1, of x] lt by simp
  qed
  have b1: "bucket ?t1 x = s" if "x mod ?half = s" for x
    using bucket_cases [OF shape1, of x] that by auto
  have arr: "array t2 = (array t)(s := array t s @ array t up, up := [])" by (simp add: t2_def)
  have bkt: "bucket t2 x = bucket ?t1 x" for x by (simp add: t2_def)
  have inb: "bucket t (raw p) = i" if "i < tsize t" "p \<in> set (array t i)" for i p
    using ok that by (simp add: table_ok_def placed_def)
  have low: "raw p mod ?half = s" if "p \<in> set (array t s @ array t up)" for p
  proof -
    have "raw p mod ?half < ?half" using pos by simp
    moreover have "bucket t (raw p) = s \<or> bucket t (raw p) = up" using that inb idx by auto
    moreover have "raw p mod tsize t = raw p mod ?half \<or> raw p mod tsize t = raw p mod ?half + ?half"
      using mod_half [of "raw p" ?half] pos by simp
    ultimately show ?thesis
      using bucket_cases [OF shape, of "raw p"] up lt by linarith
  qed
  have "bucket ?t1 (raw p) = i" if i: "i < tsize t" and p: "p \<in> set (array t2 i)" for i p
  proof (cases "i = s \<or> i = up")
    case True
    then show ?thesis using p low [of p] b1 [of "raw p"] idx unfolding arr by (auto split: if_splits)
  next
    case False
    then have "bucket t (raw p) = i" using inb i p unfolding arr by simp
    moreover have "raw p mod ?half \<noteq> s"
      using calculation False b [of "raw p"] mod_half [of "raw p" ?half] pos up by auto
    ultimately show ?thesis using b [of "raw p"] by simp
  qed
  then have "placed raw t2" unfolding placed_def bkt by (simp add: t2_def)
  moreover have "contents t2 = contents t"
  proof -
    let ?m = "set_chain s (array t s @ array t up) ?t1"
    have "contents ?m + mset (array t s) = contents t + mset (array t s @ array t up)"
      using contents_set_chain [of s ?t1] idx by simp
    then have m: "contents ?m = contents t + mset (array t up)" by (simp add: ac_simps)
    have "contents t2 + mset (array t up) = contents ?m"
      using contents_set_chain [of up ?m "[]"] idx by (simp add: t2_def)
    with m show ?thesis by simp
  qed
  moreover have "shape_ok t2" using shape1 by (simp add: t2_def)
  ultimately show ?thesis by (simp add: table_ok_def)
qed

lemma remerge_loop_ok:
  "table_ok raw t \<Longrightarrow> table_ok raw (remerge_loop n t) \<and> contents (remerge_loop n t) = contents t
     \<and> use_count (remerge_loop n t) = use_count t"
proof (induction n arbitrary: t)
  case (Suc n)
  show ?case
  proof (cases "split t")
    case (Suc s)
    let ?up = "s + tsize t div 2"
    note step = merge_ok [OF Suc.prems Suc refl]
    show ?thesis
    proof (cases "array t ?up = []")
      case True
      then have "set_chain ?up [] (set_chain s (array t s @ array t ?up) (t\<lparr>split := s\<rparr>)) = t\<lparr>split := s\<rparr>"
        by (simp add: set_chain_def fun_upd_idem)
      with step Suc.IH [of "t\<lparr>split := s\<rparr>"] True Suc show ?thesis by simp
    next
      case False
      then show ?thesis using step Suc by (simp add: Let_def)
    qed
  qed (use Suc.prems in simp)
qed simp

lemma remerge_ok:
  assumes "table_ok raw t" and "remerge al t = (al', t')"
  shows "table_ok raw t' \<and> contents t' = contents t \<and> use_count t' = use_count t"
proof -
  obtain al1 t1 where s: "(if split t = 0 then node_table_reduce al t else (al, t)) = (al1, t1)"
    by fastforce
  have "table_ok raw t1 \<and> contents t1 = contents t \<and> use_count t1 = use_count t"
    using reduce_ok [OF assms(1)] s assms(1) by (auto split: if_splits)
  moreover have "t' = remerge_loop 8 t1" using assms(2) s by (simp add: remerge_def)
  ultimately show ?thesis using remerge_loop_ok [of raw t1 8] by simp
qed

section \<open>The two operations\<close>

text \<open>A table together with its use count; \<open>raw\<close> only matters on the nodes it holds.\<close>

definition table_inv :: "('p \<Rightarrow> nat) \<Rightarrow> 'p node_table \<Rightarrow> bool" where
  "table_inv raw t \<longleftrightarrow> table_ok raw t \<and> use_count t = size (contents t)"

lemma table_inv_cong:
  "(\<And>p. p \<in># contents t \<Longrightarrow> raw p = raw' p) \<Longrightarrow> table_inv raw t = table_inv raw' t"
  unfolding table_inv_def by (metis table_ok_cong)

lemma table_inv_bucket: "table_inv raw t \<Longrightarrow> chain t (bucket t x) = Some (array t (bucket t x))"
  by (simp add: chain_def table_inv_def table_ok_def bucket_less)

lemma table_add_inv:
  assumes "table_inv raw t" and "hash = bucket t (raw p)"
  obtains al' t' where "table_add raw al hash p t = Some (al', t')" "table_inv raw t'"
    "contents t' = add_mset p (contents t)"
proof -
  have ok: "table_ok raw t" and use: "use_count t = size (contents t)"
    using assms(1) by (simp_all add: table_inv_def)
  have h: "hash < tsize t" using ok assms(2) by (simp add: table_ok_def bucket_less)
  let ?t1 = "(set_chain hash (p # array t hash) t)\<lparr>use_count := use_count t + 1\<rparr>"
  have c1: "contents ?t1 = add_mset p (contents t)" using contents_push [OF h] by simp
  have ok1: "table_ok raw ?t1"
    using ok assms(2) by (auto simp: table_ok_def placed_def shape_ok_def)
  show thesis
  proof (cases "tsize ?t1 div 2 \<le> use_count ?t1")
    case True
    obtain al' t' where r: "rehash raw al ?t1 = (al', t')" by fastforce
    have "table_add raw al hash p t = Some (al', t')"
      using True r h by (simp add: table_add_def chain_def)
    with rehash_ok [OF ok1 r] c1 use show thesis by (intro that [of al' t']) (auto simp: table_inv_def)
  next
    case False
    have "table_add raw al hash p t = Some (al, ?t1)"
      using False h by (simp add: table_add_def chain_def)
    then show thesis using ok1 c1 use by (intro that [of al ?t1]) (auto simp: table_inv_def)
  qed
qed

text \<open>Taking a node out of its chain, before the count is adjusted.\<close>

lemma remove1_table_ok:
  assumes ok: "table_ok raw t" and i: "i < tsize t" and p: "p \<in> set (array t i)"
  defines "t' \<equiv> set_chain i (remove1 p (array t i)) t"
  shows "table_ok raw t' \<and> contents t = add_mset p (contents t')"
proof -
  have "table_ok raw t'"
    using ok by (auto simp: table_ok_def placed_def t'_def dest: notin_set_remove1)
  moreover obtain M where "mset (array t i) = add_mset p M"
    using p by (metis in_multiset_in_set multi_member_split)
  then have "contents t = add_mset p (contents t')"
    using contents_set_chain [OF i, of "remove1 p (array t i)"] by (simp add: t'_def)
  ultimately show ?thesis by simp
qed

lemma table_dec_inv:
  assumes ok: "table_ok raw t" and use: "use_count t = Suc (size (contents t))"
    and r: "table_dec al t = (al', t')"
  shows "table_inv raw t' \<and> contents t' = contents t"
proof -
  let ?t1 = "t\<lparr>use_count := use_count t - 1\<rparr>"
  have ok1: "table_ok raw ?t1" using ok by simp
  show ?thesis
  proof (cases "use_count ?t1 < tsize ?t1 div 4")
    case True
    then have "remerge al ?t1 = (al', t')" using r by (simp add: table_dec_def)
    from remerge_ok [OF ok1 this] use show ?thesis by (simp add: table_inv_def)
  next
    case False
    then show ?thesis using r ok use by (auto simp: table_dec_def table_inv_def)
  qed
qed

section \<open>A fresh table, and looking a key up\<close>

definition node_table_init :: "allocs \<Rightarrow> int \<times> allocs \<times> 'p node_table" where
  "node_table_init al =
     (let (ok, al1) = alloc_next al;
          t = \<lparr>array = (\<lambda>_. []), use_count = 0, tsize = NODE_TABLE_MIN_SIZE, split = 0\<rparr>
      in (if ok then 0 else -1, al1, t))"

lemma init_inv: "node_table_init al = (0, al', t) \<Longrightarrow> table_inv raw t \<and> contents t = {#}"
  by (auto simp: node_table_init_def table_inv_def table_ok_def shape_ok_def placed_def contents_def
      intro: exI [of _ 0] split: prod.splits if_splits)

text \<open>
  What the lookups rely on: a node that matches a key has the hash of the key.  Then one chain
  decides for the whole table.
\<close>

locale keyed_chains =
  fixes key_raw :: "'k \<Rightarrow> nat" and raw :: "'p \<Rightarrow> nat" and matches :: "'k \<Rightarrow> 'p \<Rightarrow> bool"
  assumes raw_match: "matches k p \<Longrightarrow> raw p = key_raw k"
begin

lemma chain_has:
  assumes "table_inv raw t" and "matches k p"
  shows "p \<in> set (array t (bucket t (key_raw k))) \<longleftrightarrow> p \<in># contents t"
  using assms in_bucket [of raw t p] raw_match [OF assms(2)] by (simp add: table_inv_def)

lemma find_Some:
  assumes "table_inv raw t" and "find (matches k) (array t (bucket t (key_raw k))) = Some p"
  shows "p \<in># contents t \<and> matches k p"
  using assms chain_has [OF assms(1), of k p] by (auto simp: find_Some_iff)

lemma find_None:
  assumes "table_inv raw t"
  shows "find (matches k) (array t (bucket t (key_raw k))) = None \<longleftrightarrow> (\<forall>p \<in># contents t. \<not> matches k p)"
  using chain_has [OF assms, of k] by (auto simp: find_None_iff)

lemma find_unique:
  assumes "table_inv raw t" and "\<And>p q. p \<in># contents t \<Longrightarrow> q \<in># contents t \<Longrightarrow>
      matches k p \<Longrightarrow> matches k q \<Longrightarrow> p = q"
  shows "find (matches k) (array t (bucket t (key_raw k))) = Some p \<longleftrightarrow> p \<in># contents t \<and> matches k p"
proof
  assume "p \<in># contents t \<and> matches k p"
  moreover from this find_None [OF assms(1), of k] obtain q
    where q: "find (matches k) (array t (bucket t (key_raw k))) = Some q" by fastforce
  ultimately show "find (matches k) (array t (bucket t (key_raw k))) = Some p"
    using find_Some [OF assms(1) q] assms(2) by blast
qed (rule find_Some [OF assms(1)])

end

section \<open>Properties of the tables\<close>

text \<open>
  C23.  Adding a node, with the step of growing it may cause, never reads outside of the array,
  keeps the shape and the count, adds exactly this node, and leaves every node of the table
  in the chain a lookup by its hash will search, also when an allocation fails.
\<close>

theorem table_add_correct:
  assumes "table_inv raw t"
  shows "\<exists>al' t'. table_add raw al (bucket t (raw p)) p t = Some (al', t') \<and> table_inv raw t' \<and>
    contents t' = add_mset p (contents t) \<and> (\<forall>q. q \<in> set (array t' (bucket t' (raw q))) \<longleftrightarrow> q \<in># contents t')"
proof (rule table_add_inv [OF assms refl])
  fix al' t' assume "table_add raw al (bucket t (raw p)) p t = Some (al', t')" "table_inv raw t'"
    "contents t' = add_mset p (contents t)"
  then show ?thesis using in_bucket [of raw t'] by (auto simp: table_inv_def)
qed

definition empty_table :: "'p node_table" where
  "empty_table = \<lparr>array = (\<lambda>_. []), use_count = 0, tsize = NODE_TABLE_MIN_SIZE, split = 0\<rparr>"

lemma empty_table_inv: "table_inv raw empty_table"
  using init_inv [of "[]" "[]" empty_table raw] by (simp add: node_table_init_def empty_table_def)

theorem table_add_correct_witness:
  "\<exists>al' t'. table_add raw_id [] (bucket (empty_table :: u64 node_table) (raw_id 7)) 7 empty_table = Some (al', t') \<and> table_inv raw_id t' \<and>
    contents t' = add_mset 7 (contents empty_table) \<and>
    (\<forall>q. q \<in> set (array t' (bucket t' (raw_id q))) \<longleftrightarrow> q \<in># contents t')"
  by (rule table_add_correct) (rule empty_table_inv)

text \<open>
  After a node left its chain, adjusting the count, with the step of shrinking it may cause,
  loses no other node and keeps every one of them in the chain a lookup will search.
\<close>

lemma table_dec_correct:
  assumes "table_inv raw t" and "p \<in># contents t"
  defines "i \<equiv> bucket t (raw p)"
  shows "\<exists>al' t'. table_dec al (set_chain i (remove1 p (array t i)) t) = (al', t') \<and> table_inv raw t' \<and>
    contents t = add_mset p (contents t') \<and> (\<forall>q. q \<in> set (array t' (bucket t' (raw q))) \<longleftrightarrow> q \<in># contents t')"
proof -
  let ?t = "set_chain i (remove1 p (array t i)) t"
  have ok: "table_ok raw t" using assms(1) by (simp add: table_inv_def)
  have i: "i < tsize t" "p \<in> set (array t i)"
    using ok assms(2) in_bucket [OF ok] unfolding i_def by (simp_all add: table_ok_def bucket_less)
  note r = remove1_table_ok [OF ok i]
  obtain al' t' where d: "table_dec al ?t = (al', t')" by fastforce
  have "use_count ?t = Suc (size (contents ?t))" using r assms(1) by (simp add: table_inv_def)
  from table_dec_inv [of raw ?t, OF _ this d] r have "table_inv raw t' \<and> contents t' = contents ?t"
    by simp
  with d r in_bucket [of raw t'] show ?thesis by (auto simp: table_inv_def)
qed

lemma table_dec_correct_witness:
  "let t = set_chain (bucket (empty_table :: nat node_table) 5) [5] (empty_table\<lparr>use_count := 1\<rparr>) in
   \<exists>al' t'. table_dec [] (set_chain (bucket t 5) (remove1 5 (array t (bucket t 5))) t) = (al', t')
     \<and> table_inv id t' \<and> contents t = add_mset 5 (contents t')
     \<and> (\<forall>q. q \<in> set (array t' (bucket t' (id q))) \<longleftrightarrow> q \<in># contents t')"
proof -
  let ?t = "set_chain (bucket (empty_table :: nat node_table) 5) [5] (empty_table\<lparr>use_count := 1\<rparr>) :: nat node_table"
  have b: "bucket ?t 5 = 5" "bucket (empty_table :: nat node_table) 5 = 5"
    by (simp_all add: bucket_def empty_table_def NODE_TABLE_MIN_SIZE_def)
  have c: "contents ?t = {#5#}"
    using contents_set_chain [of 5 "empty_table\<lparr>use_count := 1\<rparr> :: nat node_table" "[5]"] b
    by (simp add: empty_table_def NODE_TABLE_MIN_SIZE_def contents_def)
  have "table_inv id ?t"
    using empty_table_inv [of "id :: nat \<Rightarrow> nat"] c b
    by (auto simp: table_inv_def table_ok_def placed_def shape_ok_def empty_table_def)
  from table_dec_correct [of id ?t 5 "[]", OF this] c show ?thesis by (simp add: Let_def)
qed

end
