(* ===== verification/Slab.thy ===== *)
theory Slab
  imports Prelude "HOL-Library.Multiset"
begin

text \<open>
  Memory for nodes, \<open>.deps/libfuse3-3.16.2/lib/fuse.c\<close> with \<open>FUSE_NODE_SLAB\<close>: \<open>alloc_slab\<close>,
  \<open>alloc_node\<close>, \<open>free_slab\<close>, \<open>free_node_mem\<close> and \<open>node_to_slab\<close>.

  Addresses are natural numbers.  The doubly linked lists \<open>partial_slabs\<close>, \<open>full_slabs\<close> and
  \<open>freelist\<close> are HOL lists from the head; the header of a slab at address \<open>b\<close> is the record with
  \<open>sl_base = b\<close>, and taking a slab off the list it is on is \<open>del_slab\<close>.  The answers of \<open>mmap\<close> are
  a parameter, given the number of the call and the pages that are mapped.  Taking a node from an
  empty free list and freeing an address of no slab are the value \<open>None\<close>.
\<close>

section \<open>Slabs\<close>

record slab =
  sl_base :: nat
  sl_free :: "nat list"
  sl_used :: int

record slabs =
  partial_slabs :: "slab list"
  full_slabs :: "slab list"
  pagesize :: nat
  node_size :: nat
  sys_mmap :: "nat \<Rightarrow> nat list \<Rightarrow> nat option"
  mmap_calls :: nat

text \<open>Sizes of the structures on x86-64.\<close>

definition sizeof_node :: nat where
  "sizeof_node = 152"

definition sizeof_node_lru :: nat where
  "sizeof_node_lru = 184"

definition sizeof_slab :: nat where
  "sizeof_slab = 40"

definition get_node_size :: "int \<Rightarrow> nat" where
  "get_node_size remember = (if 0 < remember then sizeof_node_lru else sizeof_node)"

definition node_to_slab :: "slabs \<Rightarrow> nat \<Rightarrow> nat" where
  "node_to_slab s p = nat (and (int p) (not (int (pagesize s) - 1)))"

definition slots_per_slab :: "slabs \<Rightarrow> nat" where
  "slots_per_slab s = (pagesize s - sizeof_slab) div node_size s"

definition slot_list :: "slabs \<Rightarrow> nat \<Rightarrow> nat list" where
  "slot_list s mem =
     (let num = slots_per_slab s; start = mem + pagesize s - num * node_size s
      in map (\<lambda>i. start + i * node_size s) [0..<num])"

definition alloc_slab :: "slabs \<Rightarrow> int \<times> slabs" where
  "alloc_slab s =
     (let r = sys_mmap s (mmap_calls s) (map sl_base (partial_slabs s @ full_slabs s));
          s1 = s\<lparr>mmap_calls := mmap_calls s + 1\<rparr>
      in case r of
           None \<Rightarrow> (-1, s1)
         | Some mem \<Rightarrow> (0, s1\<lparr>partial_slabs := partial_slabs s1 @
             [\<lparr>sl_base = mem, sl_free = slot_list s mem, sl_used = 0\<rparr>]\<rparr>))"

definition alloc_node :: "slabs \<Rightarrow> (nat option \<times> slabs) option" where
  "alloc_node s =
     (let (res, s1) = (if partial_slabs s = [] then alloc_slab s else (0, s)) in
      if res \<noteq> 0 then Some (None, s1)
      else
        (case partial_slabs s1 of
           [] \<Rightarrow> None
         | sl # rest \<Rightarrow>
             (case sl_free sl of
                [] \<Rightarrow> None
              | n # fr \<Rightarrow>
                  let sl' = sl\<lparr>sl_used := sl_used sl + 1, sl_free := fr\<rparr> in
                  if fr = []
                  then Some (Some n, s1\<lparr>partial_slabs := rest, full_slabs := full_slabs s1 @ [sl']\<rparr>)
                  else Some (Some n, s1\<lparr>partial_slabs := sl' # rest\<rparr>))))"

definition del_slab :: "nat \<Rightarrow> slabs \<Rightarrow> slabs" where
  "del_slab b s = s\<lparr>partial_slabs := filter (\<lambda>sl. sl_base sl \<noteq> b) (partial_slabs s),
                    full_slabs := filter (\<lambda>sl. sl_base sl \<noteq> b) (full_slabs s)\<rparr>"

definition free_slab :: "nat \<Rightarrow> slabs \<Rightarrow> slabs" where
  "free_slab b s = del_slab b s"

definition put_slab :: "slab \<Rightarrow> slabs \<Rightarrow> slabs" where
  \<comment> \<open>the header at its address is overwritten, on the list it is on\<close>
  "put_slab sl' s =
     (let upd = map (\<lambda>sl. if sl_base sl = sl_base sl' then sl' else sl)
      in s\<lparr>partial_slabs := upd (partial_slabs s), full_slabs := upd (full_slabs s)\<rparr>)"

definition free_node_mem :: "nat \<Rightarrow> slabs \<Rightarrow> slabs option" where
  "free_node_mem p s =
     (case find (\<lambda>sl. sl_base sl = node_to_slab s p) (partial_slabs s @ full_slabs s) of
        None \<Rightarrow> None
      | Some sl \<Rightarrow>
          let used = sl_used sl - 1;
              sl' = sl\<lparr>sl_used := used, sl_free := p # sl_free sl\<rparr>
          in if used \<noteq> 0 then
               (if sl_free sl = []
                then (let s1 = del_slab (sl_base sl) s in
                      Some (s1\<lparr>partial_slabs := partial_slabs s1 @ [sl']\<rparr>))
                else Some (put_slab sl' s))
             else Some (free_slab (sl_base sl) s))"

section \<open>What the allocator promises\<close>

definition slots :: "slabs \<Rightarrow> nat \<Rightarrow> nat set" where
  "slots s mem = set (slot_list s mem)"

definition live_in :: "slabs \<Rightarrow> slab \<Rightarrow> nat set" where
  "live_in s sl = slots s (sl_base sl) - set (sl_free sl)"

definition all_slabs :: "slabs \<Rightarrow> slab list" where
  "all_slabs s = partial_slabs s @ full_slabs s"

definition live :: "slabs \<Rightarrow> nat set" where
  "live s = (\<Union>sl \<in> set (all_slabs s). live_in s sl)"

definition mmap_ok :: "slabs \<Rightarrow> bool" where
  \<comment> \<open>the documented behaviour of \<open>mmap\<close>: a page of its own, aligned, not at address 0\<close>
  "mmap_ok s \<longleftrightarrow> (\<forall>n pages mem. sys_mmap s n pages = Some mem \<longrightarrow>
     mem \<notin> set pages \<and> mem mod pagesize s = 0 \<and> mem \<noteq> 0)"

definition slab_ok :: "slabs \<Rightarrow> slab \<Rightarrow> bool" where
  "slab_ok s sl \<longleftrightarrow> sl_base sl mod pagesize s = 0 \<and> sl_base sl \<noteq> 0 \<and>
     set (sl_free sl) \<subseteq> slots s (sl_base sl) \<and> distinct (sl_free sl) \<and>
     sl_used sl = int (card (live_in s sl)) \<and> 0 < sl_used sl"

definition geometry_ok :: "slabs \<Rightarrow> bool" where
  "geometry_ok s \<longleftrightarrow> (\<exists>k. pagesize s = 2 ^ k) \<and> 0 < node_size s \<and>
     sizeof_slab + node_size s \<le> pagesize s"

definition slabs_inv :: "slabs \<Rightarrow> bool" where
  "slabs_inv s \<longleftrightarrow> geometry_ok s \<and> mmap_ok s \<and> distinct (map sl_base (all_slabs s)) \<and>
     (\<forall>sl \<in> set (all_slabs s). slab_ok s sl) \<and>
     (\<forall>sl \<in> set (partial_slabs s). sl_free sl \<noteq> []) \<and> (\<forall>sl \<in> set (full_slabs s). sl_free sl = [])"

subsection \<open>Geometry\<close>

lemma slots_in_page:
  assumes "geometry_ok s" and "p \<in> slots s mem"
  shows "mem + sizeof_slab \<le> p \<and> p + node_size s \<le> mem + pagesize s"
proof -
  let ?n = "slots_per_slab s" and ?z = "node_size s"
  obtain i where i: "i < ?n" "p = mem + pagesize s - ?n * ?z + i * ?z"
    using assms(2) by (auto simp: slots_def slot_list_def Let_def)
  have fit: "?n * ?z \<le> pagesize s - sizeof_slab" by (simp add: slots_per_slab_def)
  have "(i + 1) * ?z \<le> ?n * ?z" using i(1) by (intro mult_le_mono1) simp
  then show ?thesis using i(2) fit assms(1) by (auto simp: geometry_ok_def)
qed

lemma slots_nonempty: "geometry_ok s \<Longrightarrow> slot_list s mem \<noteq> []"
proof -
  assume g: "geometry_ok s"
  then have "node_size s \<le> pagesize s - sizeof_slab" by (auto simp: geometry_ok_def)
  then have "0 < slots_per_slab s" using g by (simp add: slots_per_slab_def geometry_ok_def div_greater_zero_iff)
  then show ?thesis by (simp add: slot_list_def Let_def)
qed

lemma distinct_slot_list: "geometry_ok s \<Longrightarrow> distinct (slot_list s mem)"
  by (auto simp: slot_list_def Let_def distinct_map inj_on_def geometry_ok_def)

lemma node_to_slab_slot:
  assumes "geometry_ok s" and "p \<in> slots s mem" and "mem mod pagesize s = 0"
  shows "node_to_slab s p = mem"
proof -
  obtain k where k: "pagesize s = 2 ^ k" using assms(1) by (auto simp: geometry_ok_def)
  have p: "mem \<le> p" "p < mem + 2 ^ k"
    using slots_in_page [OF assms(1,2)] assms(1) k by (auto simp: geometry_ok_def)
  obtain q where q: "mem = 2 ^ k * q" using assms(3) k by (auto elim: dvdE simp: mod_eq_0_iff_dvd)
  have "p mod 2 ^ k = p - mem"
    using p q by (metis add_diff_inverse_nat less_diff_conv2 mod_less mod_mult_self4 not_less
        add.commute)
  moreover have "and (int p) (not (mask k)) = int p - int (p mod 2 ^ k)"
  proof -
    have "and (int p) (not (mask k)) = and (int p) (not (take_bit k (int p)))"
      by (rule bit_eqI) (auto simp: bit_simps)
    also have "\<dots> = int p - take_bit k (int p)"
      by (rule disjunctive_diff [symmetric]) (auto simp: bit_simps)
    finally show ?thesis by (simp add: take_bit_eq_mod zmod_int)
  qed
  ultimately show ?thesis
    using p k by (simp add: node_to_slab_def mask_eq_exp_minus_1)
qed

subsection \<open>The operations keep the invariant\<close>

lemma config_simps [frame_simps]:
  "pagesize (del_slab b s) = pagesize s" "node_size (del_slab b s) = node_size s"
  "sys_mmap (del_slab b s) = sys_mmap s" "pagesize (put_slab sl s) = pagesize s"
  "node_size (put_slab sl s) = node_size s" "sys_mmap (put_slab sl s) = sys_mmap s"
  by (simp_all add: del_slab_def put_slab_def Let_def)

definition same_config :: "slabs \<Rightarrow> slabs \<Rightarrow> bool" where
  "same_config s s' \<longleftrightarrow> pagesize s' = pagesize s \<and> node_size s' = node_size s \<and> sys_mmap s' = sys_mmap s"

lemma same_config_eqs:
  assumes "same_config s s'"
  shows "slots s' = slots s" "live_in s' = live_in s" "slab_ok s' = slab_ok s"
    "geometry_ok s' = geometry_ok s" "mmap_ok s' = mmap_ok s" "node_to_slab s' = node_to_slab s"
proof -
  show a: "slots s' = slots s"
    using assms by (auto simp: same_config_def slots_def slot_list_def slots_per_slab_def Let_def)
  then show b: "live_in s' = live_in s" by (auto simp: live_in_def)
  show "slab_ok s' = slab_ok s" using a b assms by (auto simp: slab_ok_def same_config_def)
  show "geometry_ok s' = geometry_ok s" "mmap_ok s' = mmap_ok s"
    using assms by (auto simp: same_config_def geometry_ok_def mmap_ok_def)
  show "node_to_slab s' = node_to_slab s" using assms by (auto simp: same_config_def node_to_slab_def)
qed

text \<open>Different slabs do not share slots.\<close>

lemma slots_disjoint:
  assumes "geometry_ok s" "a mod pagesize s = 0" "b mod pagesize s = 0" "a \<noteq> b"
  shows "slots s a \<inter> slots s b = {}"
  using assms by (metis disjoint_iff node_to_slab_slot)

text \<open>
  The effect of one operation on the slabs, as sets: one slab is replaced, added or dropped.  The
  order of the lists does not matter for the invariant.
\<close>

definition slab_set :: "slabs \<Rightarrow> slab set" where
  "slab_set s = set (all_slabs s)"

lemma live_slab_set: "live s = (\<Union>sl \<in> slab_set s. live_in s sl)"
  by (simp add: live_def slab_set_def)

lemma live_in_slots: "live_in s sl \<subseteq> slots s (sl_base sl)"
  by (auto simp: live_in_def)

lemma finite_slots [simp]: "finite (slots s b)"
  by (simp add: slots_def)

lemma finite_live_in [simp]: "finite (live_in s sl)"
  by (simp add: live_in_def)

lemma take_slot:
  assumes "slots s (sl_base sl) \<supseteq> set (n # fr)" "sl_free sl = n # fr" "distinct (n # fr)"
    and "sl_used sl = int (card (live_in s sl))"
  defines "sl' \<equiv> sl\<lparr>sl_used := sl_used sl + 1, sl_free := fr\<rparr>"
  shows "live_in s sl' = insert n (live_in s sl)" "n \<notin> live_in s sl"
    "sl_used sl' = int (card (live_in s sl'))"
proof -
  show l: "live_in s sl' = insert n (live_in s sl)" and n: "n \<notin> live_in s sl"
    using assms(1-3) by (auto simp: live_in_def sl'_def)
  show "sl_used sl' = int (card (live_in s sl'))"
    using l n assms(4) by (simp add: sl'_def)
qed

lemma give_slot:
  assumes "p \<in> live_in s sl" "sl_used sl = int (card (live_in s sl))"
  defines "sl' \<equiv> sl\<lparr>sl_used := sl_used sl - 1, sl_free := p # sl_free sl\<rparr>"
  shows "live_in s sl' = live_in s sl - {p}" "sl_used sl' = int (card (live_in s sl'))"
proof -
  show l: "live_in s sl' = live_in s sl - {p}" by (auto simp: live_in_def sl'_def)
  have "0 < card (live_in s sl)" using assms(1) by (auto simp: card_gt_0_iff)
  then show "sl_used sl' = int (card (live_in s sl'))"
    using l assms(1,2) by (simp add: sl'_def of_nat_diff)
qed

lemma live_cons:
  assumes inv: "geometry_ok s" "distinct (map sl_base (sl # rest))"
    "\<forall>x \<in> set (sl # rest). sl_base x mod pagesize s = 0"
  shows "live_in s sl \<inter> (\<Union>x \<in> set rest. live_in s x) = {}"
proof -
  have "live_in s sl \<inter> live_in s x = {}" if "x \<in> set rest" for x
  proof -
    have "sl_base x \<noteq> sl_base sl" using inv(2) that by (auto simp: image_iff)
    then show ?thesis
      using slots_disjoint [OF inv(1), of "sl_base sl" "sl_base x"] inv(3) that
        live_in_slots [of s sl] live_in_slots [of s x] by fastforce
  qed
  then show ?thesis by auto
qed

text \<open>Taking a node from the first partial slab, which may have just been mapped.\<close>

lemma take_from_first:
  assumes g: "geometry_ok s" "mmap_ok s" and d: "distinct (map sl_base (all_slabs s))"
    and p: "partial_slabs s = sl # rest" "sl_free sl = n # fr"
    and sl: "sl_base sl mod pagesize s = 0" "sl_base sl \<noteq> 0" "set (n # fr) \<subseteq> slots s (sl_base sl)"
      "distinct (n # fr)" "sl_used sl = int (card (live_in s sl))"
    and others: "\<forall>x \<in> set (rest @ full_slabs s). slab_ok s x"
      "\<forall>x \<in> set rest. sl_free x \<noteq> []" "\<forall>x \<in> set (full_slabs s). sl_free x = []"
  shows "\<exists>s'. alloc_node s = Some (Some n, s') \<and> slabs_inv s' \<and> same_config s s' \<and> n \<notin> live s
    \<and> live s' = insert n (live s)"
proof -
  let ?sl' = "sl\<lparr>sl_used := sl_used sl + 1, sl_free := fr\<rparr>"
  note t = take_slot [OF sl(3) p(2) sl(4,5)]
  have ok': "slab_ok s ?sl'" using t sl by (simp add: slab_ok_def)
  define s' where "s' = (if fr = [] then s\<lparr>partial_slabs := rest, full_slabs := full_slabs s @ [?sl']\<rparr>
      else s\<lparr>partial_slabs := ?sl' # rest\<rparr>)"
  have eq: "alloc_node s = Some (Some n, s')"
    using p by (simp add: alloc_node_def s'_def Let_def)
  have conf: "same_config s s'" by (simp add: same_config_def s'_def)
  note [simp] = same_config_eqs [OF conf]
  have set': "set (all_slabs s') = insert ?sl' (set (rest @ full_slabs s))"
    by (auto simp: s'_def all_slabs_def)
  have bases: "mset (map sl_base (all_slabs s')) = mset (map sl_base (all_slabs s))"
    using p by (simp add: s'_def all_slabs_def)
  have inv: "slabs_inv s'"
    unfolding slabs_inv_def
  proof (intro conjI)
    show "distinct (map sl_base (all_slabs s'))" using d bases by (metis mset_eq_imp_distinct_iff)
    show "\<forall>sl \<in> set (all_slabs s'). slab_ok s' sl" using ok' others set' by auto
    show "\<forall>sl \<in> set (partial_slabs s'). sl_free sl \<noteq> []" "\<forall>sl \<in> set (full_slabs s'). sl_free sl = []"
      using others by (auto simp: s'_def)
  qed (use g in simp_all)
  have old: "live s = live_in s sl \<union> (\<Union>x \<in> set (rest @ full_slabs s). live_in s x)"
    by (auto simp: live_def all_slabs_def p(1))
  have "live s' = insert n (live s)" using old t by (simp add: live_def set')
  moreover have "n \<notin> live s"
  proof -
    have d': "distinct (map sl_base (sl # (rest @ full_slabs s)))" using d by (simp add: all_slabs_def p(1))
    have m: "\<forall>x \<in> set (?sl' # (rest @ full_slabs s)). sl_base x mod pagesize s = 0"
      using sl others by (auto simp: slab_ok_def)
    have "live_in s ?sl' \<inter> (\<Union>x \<in> set (rest @ full_slabs s). live_in s x) = {}"
      by (rule live_cons [OF g(1) _ m]) (use d' in simp)
    then show ?thesis using old t by auto
  qed
  ultimately show ?thesis using eq inv conf by blast
qed

lemma alloc_node_ok:
  assumes inv: "slabs_inv s"
  shows "\<exists>r s'. alloc_node s = Some (r, s') \<and> slabs_inv s' \<and> same_config s s' \<and>
    (case r of None \<Rightarrow> live s' = live s | Some p \<Rightarrow> p \<notin> live s \<and> live s' = insert p (live s))"
proof -
  have g: "geometry_ok s" "mmap_ok s" and d: "distinct (map sl_base (all_slabs s))"
    and ok: "\<forall>sl \<in> set (all_slabs s). slab_ok s sl"
    and part: "\<forall>sl \<in> set (partial_slabs s). sl_free sl \<noteq> []"
    and full: "\<forall>sl \<in> set (full_slabs s). sl_free sl = []"
    using inv by (auto simp: slabs_inv_def)
  show ?thesis
  proof (cases "partial_slabs s")
    case (Cons sl rest)
    then obtain n fr where f: "sl_free sl = n # fr" using part by (cases "sl_free sl") auto
    have "slab_ok s sl" and others: "\<forall>x \<in> set (rest @ full_slabs s). slab_ok s x"
      using ok Cons by (auto simp: all_slabs_def)
    note this(1) [unfolded slab_ok_def f]
    then have "\<exists>s'. alloc_node s = Some (Some n, s') \<and> slabs_inv s' \<and> same_config s s' \<and> n \<notin> live s
        \<and> live s' = insert n (live s)"
      using part full Cons by (intro take_from_first [OF g d Cons f _ _ _ _ _ others]) auto
    then show ?thesis by force
  next
    case Nil
    let ?s1 = "s\<lparr>mmap_calls := Suc (mmap_calls s)\<rparr>"
    show ?thesis
    proof (cases "sys_mmap s (mmap_calls s) (map sl_base (full_slabs s))")
      case None
      then have "alloc_node s = Some (None, ?s1)"
        using Nil by (simp add: alloc_node_def alloc_slab_def)
      moreover have conf: "same_config s ?s1" by (simp add: same_config_def)
      moreover note same_config_eqs [OF conf]
      ultimately show ?thesis using inv by (auto simp: slabs_inv_def all_slabs_def live_def)
    next
      case (Some mem)
      let ?new = "\<lparr>sl_base = mem, sl_free = slot_list s mem, sl_used = 0\<rparr>"
      let ?s2 = "?s1\<lparr>partial_slabs := [?new]\<rparr>"
      have conf: "same_config s ?s2" by (simp add: same_config_def)
      note eqs = same_config_eqs [OF conf]
      obtain n fr where f: "slot_list s mem = n # fr"
        using slots_nonempty [OF g(1)] by (cases "slot_list s mem") auto
      have mem: "mem \<notin> sl_base ` set (full_slabs s)" "mem mod pagesize s = 0" "mem \<noteq> 0"
        using g(2) Some unfolding mmap_ok_def by (fastforce)+
      have none: "live_in s ?new = {}" by (simp add: live_in_def slots_def)
      have live2: "live ?s2 = live s"
        using none by (simp add: live_def eqs all_slabs_def Nil)
      have step: "alloc_node s = alloc_node ?s2"
        using Nil Some by (simp add: alloc_node_def alloc_slab_def Let_def)
      have "\<exists>s'. alloc_node ?s2 = Some (Some n, s') \<and> slabs_inv s' \<and> same_config ?s2 s' \<and> n \<notin> live ?s2
          \<and> live s' = insert n (live ?s2)"
      proof (rule take_from_first [where sl = ?new and rest = "[]" and fr = fr])
        show "geometry_ok ?s2" "mmap_ok ?s2" using g by (simp_all add: eqs)
        show "distinct (map sl_base (all_slabs ?s2))"
          using d mem Nil by (auto simp: all_slabs_def)
        show "set (n # fr) \<subseteq> slots ?s2 (sl_base ?new)" unfolding eqs by (simp add: slots_def f)
        show "distinct (n # fr)" using distinct_slot_list [OF g(1), of mem] f by simp
        show "sl_used ?new = int (card (live_in ?s2 ?new))" by (simp add: eqs none)
        show "\<forall>x \<in> set ([] @ full_slabs ?s2). slab_ok ?s2 x"
          using ok by (simp add: eqs all_slabs_def)
      qed (use f mem full in simp_all)
      then show ?thesis using step live2 conf by (force simp: same_config_def)
    qed
  qed
qed

lemma filter_one:
  assumes "distinct (map f (xs @ y # ys))"
  shows "filter (\<lambda>x. f x \<noteq> f y) (xs @ y # ys) = xs @ ys"
proof -
  have "filter (\<lambda>x. f x \<noteq> f y) xs = xs" "filter (\<lambda>x. f x \<noteq> f y) ys = ys"
    using assms by (auto intro!: filter_True simp: image_iff)
  then show ?thesis by simp
qed

lemma map_one:
  assumes "distinct (map f (xs @ y # ys))" and "f z = f y"
  shows "map (\<lambda>x. if f x = f z then z else x) (xs @ y # ys) = xs @ z # ys"
  using assms by (auto simp: image_iff intro!: map_idI)

text \<open>Freeing: the slab of the address is replaced by one with the slot free, or dropped.\<close>

lemma free_node_mem_ok:
  assumes inv: "slabs_inv s" and p: "p \<in> live s"
  shows "\<exists>s'. free_node_mem p s = Some s' \<and> slabs_inv s' \<and> same_config s s' \<and> live s' = live s - {p}"
proof -
  have g: "geometry_ok s" "mmap_ok s" and d: "distinct (map sl_base (all_slabs s))"
    and ok: "\<And>sl. sl \<in> set (all_slabs s) \<Longrightarrow> slab_ok s sl"
    and part: "\<forall>sl \<in> set (partial_slabs s). sl_free sl \<noteq> []"
    and full: "\<forall>sl \<in> set (full_slabs s). sl_free sl = []"
    using inv by (auto simp: slabs_inv_def)
  obtain sl where sl: "sl \<in> set (all_slabs s)" "p \<in> live_in s sl" using p by (auto simp: live_def)
  have base: "node_to_slab s p = sl_base sl"
    using node_to_slab_slot [OF g(1), of p "sl_base sl"] sl live_in_slots ok [OF sl(1)]
    by (auto simp: slab_ok_def)
  obtain xs ys where split: "all_slabs s = xs @ sl # ys" using sl(1) by (metis split_list)
  have uniq: "\<forall>x \<in> set (xs @ ys). sl_base x \<noteq> sl_base sl" using d split by (auto simp: image_iff)
  have found: "find (\<lambda>x. sl_base x = node_to_slab s p) (partial_slabs s @ full_slabs s) = Some sl"
  proof -
    have "find (\<lambda>x. sl_base x = sl_base sl) xs = None" using uniq by (auto simp: find_None_iff)
    then have "find (\<lambda>x. sl_base x = sl_base sl) (xs @ sl # ys) = Some sl"
      by (induction xs) auto
    then show ?thesis using split base by (simp add: all_slabs_def)
  qed
  have fone: "filter (\<lambda>x. sl_base x \<noteq> sl_base sl) (partial_slabs s @ full_slabs s) = xs @ ys"
    using filter_one [of sl_base xs sl ys] d unfolding split by (simp add: split [unfolded all_slabs_def])
  let ?sl' = "sl\<lparr>sl_used := sl_used sl - 1, sl_free := p # sl_free sl\<rparr>"
  have slok: "slab_ok s sl" by (rule ok [OF sl(1)])
  have gv: "live_in s ?sl' = live_in s sl - {p}" "sl_used ?sl' = int (card (live_in s ?sl'))"
    using give_slot [OF sl(2)] slok by (simp_all add: slab_ok_def)
  have old: "live s = live_in s sl \<union> (\<Union>x \<in> set (xs @ ys). live_in s x)"
    by (auto simp: live_def split)
  have apart: "p \<notin> (\<Union>x \<in> set (xs @ ys). live_in s x)"
  proof -
    have "live_in s sl \<inter> (\<Union>x \<in> set (xs @ ys). live_in s x) = {}"
      by (rule live_cons [OF g(1)]) (use d split ok in \<open>auto simp: slab_ok_def\<close>)
    then show ?thesis using sl(2) by auto
  qed
  have rest: "\<And>x. x \<in> set (xs @ ys) \<Longrightarrow> slab_ok s x" using ok split by auto
  show ?thesis
  proof (cases "sl_used sl - 1 = 0")
    case True
    let ?s' = "del_slab (sl_base sl) s"
    have eq: "free_node_mem p s = Some ?s'"
      using found True by (simp add: free_node_mem_def free_slab_def)
    have conf: "same_config s ?s'" by (simp add: same_config_def frame_simps)
    have all: "all_slabs ?s' = xs @ ys"
      using fone by (simp add: all_slabs_def del_slab_def)
    have "card (live_in s ?sl') = 0" using gv True by simp
    then have "live_in s ?sl' = {}" by simp
    then have lv: "live ?s' = live s - {p}"
      using old apart gv by (auto simp: live_def all same_config_eqs [OF conf])
    have "slabs_inv ?s'"
      using g d rest part full split
      by (auto simp: slabs_inv_def same_config_eqs [OF conf] all) (auto simp: del_slab_def)
    then show ?thesis using eq conf lv by blast
  next
    case False
    have ok': "slab_ok s ?sl'"
    proof -
      have "0 < sl_used ?sl'" using slok False by (simp add: slab_ok_def)
      moreover have "p \<in> slots s (sl_base sl)" "p \<notin> set (sl_free sl)" using sl(2) by (simp_all add: live_in_def)
      ultimately show ?thesis using slok gv(2) by (simp add: slab_ok_def)
    qed
    define s' where "s' = (if sl_free sl = []
      then (let s1 = del_slab (sl_base sl) s in s1\<lparr>partial_slabs := partial_slabs s1 @ [?sl']\<rparr>)
      else put_slab ?sl' s)"
    have eq: "free_node_mem p s = Some s'"
      using found False by (auto simp: free_node_mem_def s'_def Let_def)
    have conf: "same_config s s'" by (simp add: same_config_def frame_simps s'_def Let_def)
    have del: "filter (\<lambda>x. sl_base x \<noteq> sl_base sl) (partial_slabs s)
        @ filter (\<lambda>x. sl_base x \<noteq> sl_base sl) (full_slabs s) = xs @ ys"
      using fone by simp
    have put: "all_slabs (put_slab ?sl' s) = xs @ ?sl' # ys"
    proof -
      have "map (\<lambda>x. if sl_base x = sl_base ?sl' then ?sl' else x) (partial_slabs s @ full_slabs s) = xs @ ?sl' # ys"
        using map_one [of sl_base xs sl ys ?sl'] d unfolding split by (simp add: split [unfolded all_slabs_def])
      then show ?thesis by (simp add: all_slabs_def put_slab_def Let_def)
    qed
    have ms: "mset (all_slabs s') = add_mset ?sl' (mset (xs @ ys))"
    proof (cases "sl_free sl = []")
      case True
      then have "mset (all_slabs s') = add_mset ?sl' (mset (filter (\<lambda>x. sl_base x \<noteq> sl_base sl) (partial_slabs s)
          @ filter (\<lambda>x. sl_base x \<noteq> sl_base sl) (full_slabs s)))"
        by (simp add: s'_def all_slabs_def del_slab_def Let_def)
      then show ?thesis using del by simp
    qed (simp add: s'_def put)
    have set': "set (all_slabs s') = insert ?sl' (set (xs @ ys))" using ms by (metis set_mset_add_mset_insert set_mset_mset)
    have "mset (map sl_base (all_slabs s')) = mset (map sl_base (all_slabs s))"
      using ms split by simp
    then have d': "distinct (map sl_base (all_slabs s'))" using d by (metis mset_eq_imp_distinct_iff)
    have lists: "(\<forall>x \<in> set (partial_slabs s'). sl_free x \<noteq> []) \<and> (\<forall>x \<in> set (full_slabs s'). sl_free x = [])"
    proof (cases "sl_free sl = []")
      case True
      then show ?thesis using part full by (auto simp: s'_def del_slab_def Let_def)
    next
      case False
      then have "sl \<notin> set (full_slabs s)" using full by auto
      then have nf: "\<forall>x \<in> set (full_slabs s). sl_base x \<noteq> sl_base sl"
        using uniq split by (auto simp: all_slabs_def) (metis UnCI append_eq_append_conv2 in_set_conv_decomp set_append set_ConsD Un_iff)
      then show ?thesis using False part full by (auto simp: s'_def put_slab_def Let_def)
    qed
    have "live s' = live s - {p}"
      using old apart gv by (auto simp: live_def set' same_config_eqs [OF conf])
    moreover have "slabs_inv s'"
      using g d' rest ok' lists by (auto simp: slabs_inv_def same_config_eqs [OF conf] set')
    ultimately show ?thesis using eq conf by blast
  qed
qed

section \<open>The interface of the allocator\<close>

text \<open>
  What the node code relies on.  A client that only frees what it holds is \<open>mem_run\<close>: \<open>Get\<close> asks
  for a node, \<open>Put i\<close> gives the \<open>i\<close>-th node held back.
\<close>

datatype mem_op = Get | Put nat

fun mem_run :: "('s \<Rightarrow> (nat option \<times> 's) option) \<Rightarrow> (nat \<Rightarrow> 's \<Rightarrow> 's option) \<Rightarrow>
    mem_op list \<Rightarrow> nat list \<Rightarrow> 's \<Rightarrow> (nat list \<times> 's) option" where
  "mem_run alloc free [] held s = Some (held, s)"
| "mem_run alloc free (Get # ops) held s =
     do { (r, s1) \<leftarrow> alloc s;
          mem_run alloc free ops (case r of None \<Rightarrow> held | Some p \<Rightarrow> p # held) s1 }"
| "mem_run alloc free (Put i # ops) held s =
     (if i < length held
      then do { s1 \<leftarrow> free (held ! i) s; mem_run alloc free ops (take i held @ drop (Suc i) held) s1 }
      else mem_run alloc free ops held s)"

lemma mset_take_out:
  "i < length xs \<Longrightarrow> mset xs = add_mset (xs ! i) (mset (take i xs @ drop (Suc i) xs))"
proof (induction xs arbitrary: i)
  case (Cons x xs)
  then show ?case by (cases i) auto
qed simp

locale node_memory =
  fixes inv :: "'s \<Rightarrow> bool" and live :: "'s \<Rightarrow> nat set"
    and alloc :: "'s \<Rightarrow> (nat option \<times> 's) option" and free :: "nat \<Rightarrow> 's \<Rightarrow> 's option"
  assumes alloc_ok: "inv s \<Longrightarrow> \<exists>r s'. alloc s = Some (r, s') \<and> inv s' \<and>
      (case r of None \<Rightarrow> live s' = live s | Some p \<Rightarrow> p \<notin> live s \<and> live s' = insert p (live s))"
    and free_ok: "inv s \<Longrightarrow> p \<in> live s \<Longrightarrow> \<exists>s'. free p s = Some s' \<and> inv s' \<and> live s' = live s - {p}"
begin

lemma alloc_cases:
  assumes "inv s"
  obtains (failed) s' where "alloc s = Some (None, s')" "inv s'" "live s' = live s"
  | (got) p s' where "alloc s = Some (Some p, s')" "inv s'" "p \<notin> live s" "live s' = insert p (live s)"
proof -
  obtain r s' where "alloc s = Some (r, s')" "inv s'"
    "case r of None \<Rightarrow> live s' = live s | Some p \<Rightarrow> p \<notin> live s \<and> live s' = insert p (live s)"
    using alloc_ok [OF assms] by blast
  then show thesis by (cases r) (auto intro: failed got)
qed

lemma alloc_free:
  assumes "inv s" and "alloc s = Some (Some p, s1)"
  shows "\<exists>s2. free p s1 = Some s2 \<and> inv s2 \<and> live s2 = live s"
  using alloc_ok [OF assms(1)] free_ok [of s1 p] assms(2) by auto

lemma mem_run_ok:
  "inv s \<Longrightarrow> distinct held \<Longrightarrow> set held = live s \<Longrightarrow>
     \<exists>held' s'. mem_run alloc free ops held s = Some (held', s') \<and> inv s' \<and> distinct held' \<and> set held' = live s'"
proof (induction ops arbitrary: held s)
  case (Cons op ops)
  show ?case
  proof (cases op)
    case Get
    show ?thesis
    proof (cases rule: alloc_cases [OF Cons.prems(1)])
      case (1 s')
      then show ?thesis using Cons.IH [of s' held] Cons.prems Get by simp
    next
      case (2 p s')
      then show ?thesis using Cons.IH [of s' "p # held"] Cons.prems Get by simp
    qed
  next
    case (Put i)
    show ?thesis
    proof (cases "i < length held")
      case True
      let ?rest = "take i held @ drop (Suc i) held"
      have m: "mset held = add_mset (held ! i) (mset ?rest)"
        by (rule mset_take_out [OF True])
      have "held ! i \<in> live s" using nth_mem [OF True] Cons.prems(3) by simp
      then obtain s' where s': "free (held ! i) s = Some s'" "inv s'" "live s' = live s - {held ! i}"
        using free_ok Cons.prems by blast
      have "mset held = mset (held ! i # ?rest)" unfolding mset.simps(2) by (rule m)
      from mset_eq_imp_distinct_iff [THEN iffD1, OF this Cons.prems(2)]
      have "distinct (held ! i # ?rest)" .
      moreover have "set held = insert (held ! i) (set ?rest)"
        by (rule arg_cong [OF m, of set_mset, unfolded set_mset_mset set_mset_add_mset_insert])
      ultimately have "distinct ?rest" "set ?rest = live s'" using s' Cons.prems(3) by auto
      with Cons.IH [OF s'(2) this] show ?thesis using Put True s'(1) by simp
    qed (use Cons Put in simp)
  qed
qed simp

end

text \<open>The slabs provide it.\<close>

interpretation node_mem: node_memory slabs_inv live alloc_node free_node_mem
proof
  fix s assume "slabs_inv s"
  from alloc_node_ok [OF this] show "\<exists>r s'. alloc_node s = Some (r, s') \<and> slabs_inv s' \<and>
      (case r of None \<Rightarrow> live s' = live s | Some p \<Rightarrow> p \<notin> live s \<and> live s' = insert p (live s))" by blast
next
  fix s p assume "slabs_inv s" "p \<in> live s"
  from free_node_mem_ok [OF this]
  show "\<exists>s'. free_node_mem p s = Some s' \<and> slabs_inv s' \<and> live s' = live s - {p}" by blast
qed

lemma no_live_no_slab: "slabs_inv s \<Longrightarrow> live s = {} \<Longrightarrow> all_slabs s = []"
proof (rule ccontr)
  assume s: "slabs_inv s" "live s = {}" "all_slabs s \<noteq> []"
  then obtain sl where sl: "sl \<in> set (all_slabs s)" by (cases "all_slabs s") auto
  then have "slab_ok s sl" using s by (auto simp: slabs_inv_def)
  then have "live_in s sl \<noteq> {}" by (auto simp: slab_ok_def)
  with sl s(2) show False by (auto simp: live_def)
qed

text \<open>
  C21.  However a client asks for nodes and gives them back, starting without any, the slab
  allocator never touches an empty free list or a page that is not a slab, the nodes it has given
  out are pairwise different and all of them inside mapped slabs, and no slab stays mapped once
  every node was given back.
\<close>

theorem slab_client_safe:
  assumes "geometry_ok s" and "mmap_ok s" and "all_slabs s = []"
  shows "\<exists>held s'. mem_run alloc_node free_node_mem ops [] s = Some (held, s') \<and> distinct held \<and>
    (\<forall>p. p \<in> set held \<longrightarrow> (\<exists>sl. sl \<in> set (all_slabs s') \<and> p \<in> slots s' (sl_base sl))) \<and>
    (held = [] \<longrightarrow> all_slabs s' = [])"
proof -
  have "slabs_inv s" "live s = {}" using assms by (auto simp: slabs_inv_def live_def all_slabs_def)
  then obtain held s' where r: "mem_run alloc_node free_node_mem ops [] s = Some (held, s')"
      "slabs_inv s'" "distinct held" "set held = live s'"
    using node_mem.mem_run_ok [of s "[]" ops] by auto
  moreover have "\<exists>sl. sl \<in> set (all_slabs s') \<and> p \<in> slots s' (sl_base sl)" if "p \<in> set held" for p
    using that r(4) live_in_slots by (fastforce simp: live_def)
  ultimately show ?thesis using no_live_no_slab [of s'] by auto
qed

definition demo_mmap :: "nat \<Rightarrow> nat list \<Rightarrow> nat option" where
  "demo_mmap n pages = Some (4096 * (1 + sum_list pages))"

definition demo_slabs :: slabs where
  "demo_slabs = \<lparr>partial_slabs = [], full_slabs = [], pagesize = 4096, node_size = sizeof_node,
     sys_mmap = demo_mmap, mmap_calls = 0\<rparr>"

theorem slab_client_safe_witness:
  "\<exists>held s'. mem_run alloc_node free_node_mem [Get, Get, Put 1, Get] [] demo_slabs = Some (held, s') \<and>
    distinct held \<and>
    (\<forall>p. p \<in> set held \<longrightarrow> (\<exists>sl. sl \<in> set (all_slabs s') \<and> p \<in> slots s' (sl_base sl))) \<and>
    (held = [] \<longrightarrow> all_slabs s' = [])"
proof (rule slab_client_safe)
  show "geometry_ok demo_slabs"
    unfolding geometry_ok_def by (intro conjI exI [of _ 12]) (simp_all add: demo_slabs_def sizeof_node_def sizeof_slab_def)
  have "x \<noteq> 4096 * (1 + sum_list pages)" if "x \<in> set pages" for x and pages :: "nat list"
    using member_le_sum_list [OF that] by simp
  then show "mmap_ok demo_slabs" by (auto simp: mmap_ok_def demo_slabs_def demo_mmap_def)
  show "all_slabs demo_slabs = []" by (simp add: demo_slabs_def all_slabs_def)
qed

end
