(* ===== verification/Nodes.thy ===== *)
theory Nodes
  imports Complex_Main NodeTable Slab LockTable
begin

text \<open>
  The node tree of \<open>.deps/libfuse3-3.16.2/lib/fuse.c\<close>: \<open>struct node\<close>, \<open>struct fuse\<close> and the
  functions that create, find, name, count and free nodes.

  A node pointer is a natural number, \<open>heap\<close> maps the live ones to their contents; reading a node
  that is not live, a NULL parent or a NULL name, a failed assertion and \<open>abort()\<close> are \<open>None\<close>.
  Link fields are the chains of the two tables.  The functions run under \<open>f->lock\<close>, so each is one
  atomic step.  A node is on the list of \<open>lru_table\<close> at most once.
\<close>

section \<open>State\<close>

record timespec =
  tv_sec :: int
  tv_nsec :: int

record node =
  nodeid :: u64
  node_gen :: u32
  refctr :: int
  parent :: "nat option"
  name :: "string option"
  nlookup :: nat
  open_count :: int
  stat_updated :: timespec
  mtime :: timespec
  fsize :: int
  locks :: "lock list"
  is_hidden :: bool
  cache_valid :: bool
  treelock :: int
  forget_time :: timespec

text \<open>The settings of \<open>struct fuse_config\<close>; timeouts are rational numbers of seconds.\<close>

record fuse_config =
  set_gid :: bool
  conf_gid :: int
  set_uid :: bool
  conf_uid :: int
  set_mode :: bool
  conf_umask :: nat
  entry_timeout :: rat
  negative_timeout :: rat
  attr_timeout :: rat
  intr :: bool
  remember :: int
  hard_remove :: bool
  use_ino :: bool
  readdir_ino :: bool
  direct_io :: bool
  kernel_cache :: bool
  auto_cache :: bool
  no_rofd_flush :: bool
  ac_attr_timeout :: rat
  nullpath_ok :: bool
  parallel_direct_writes :: bool

text \<open>
  A request waiting for a path; \<open>qe_id\<close> is the address of the element on the stack of its thread.
  \<open>path1\<close> and \<open>wnode1\<close> of the code are pointers to results: whether they are given, and the result.
\<close>

record lock_queue_element =
  qe_id :: nat
  qe_nodeid1 :: u64
  qe_name1 :: "string option"
  qe_want_path1 :: bool
  qe_want_wnode1 :: bool
  qe_nodeid2 :: u64
  qe_name2 :: "string option"
  qe_want_path2 :: bool
  qe_want_wnode2 :: bool
  qe_path1 :: "string option"
  qe_wnode1 :: "nat option"
  qe_path2 :: "string option"
  qe_wnode2 :: "nat option"
  qe_err :: int
  qe_done :: bool
  qe_signalled :: bool

record fuse =
  name_table :: "nat node_table"
  id_table :: "nat node_table"
  lru_table :: "nat list"
  ctr :: u64
  generation :: u32
  hidectr :: u32
  conf :: fuse_config
  lockq :: "lock_queue_element list"
  slabs :: slabs
  heap :: "nat \<Rightarrow> node option"
  allocs :: allocs
  now :: timespec

definition FUSE_ROOT_ID :: u64 where
  "FUSE_ROOT_ID = 1"

definition FUSE_UNKNOWN_INO :: u64 where
  "FUSE_UNKNOWN_INO = 0xffffffff"

definition upd_node :: "nat \<Rightarrow> (node \<Rightarrow> node) \<Rightarrow> fuse \<Rightarrow> fuse" where
  "upd_node p g f = f\<lparr>heap := (heap f)(p := map_option g (heap f p))\<rparr>"

definition zero_time :: timespec where
  "zero_time = \<lparr>tv_sec = 0, tv_nsec = 0\<rparr>"

definition zero_node :: node where
  \<comment> \<open>\<open>memset (node, 0, sizeof (struct node))\<close>\<close>
  "zero_node = \<lparr>nodeid = 0, node_gen = 0, refctr = 0, parent = None, name = None, nlookup = 0,
     open_count = 0, stat_updated = zero_time, mtime = zero_time, fsize = 0, locks = [],
     is_hidden = False, cache_valid = False, treelock = 0, forget_time = zero_time\<rparr>"

definition lru_enabled :: "fuse \<Rightarrow> bool" where
  "lru_enabled f \<longleftrightarrow> 0 < remember (conf f)"

definition curr_time :: "fuse \<Rightarrow> timespec" where
  "curr_time f = now f"

definition diff_timespec :: "timespec \<Rightarrow> timespec \<Rightarrow> rat" where
  "diff_timespec t1 t2 = of_int (tv_sec t1 - tv_sec t2) + of_int (tv_nsec t1 - tv_nsec t2) / 1000000000"

section \<open>Finding nodes\<close>

definition node_raw_id :: "fuse \<Rightarrow> nat \<Rightarrow> nat" where
  "node_raw_id f p = (case heap f p of None \<Rightarrow> 0 | Some n \<Rightarrow> raw_id (nodeid n))"

definition node_raw_name :: "fuse \<Rightarrow> nat \<Rightarrow> nat" where
  "node_raw_name f p =
     (case heap f p of None \<Rightarrow> 0 | Some n \<Rightarrow>
        (case (parent n, name n) of
           (Some q, Some nm) \<Rightarrow> (case heap f q of None \<Rightarrow> 0 | Some m \<Rightarrow> raw_name (nodeid m) nm)
         | _ \<Rightarrow> 0))"

definition id_hash :: "fuse \<Rightarrow> u64 \<Rightarrow> nat" where
  "id_hash f ino = bucket (id_table f) (raw_id ino)"

definition name_hash :: "fuse \<Rightarrow> u64 \<Rightarrow> string \<Rightarrow> nat" where
  "name_hash f pid nm = bucket (name_table f) (raw_name pid nm)"

definition has_id :: "fuse \<Rightarrow> u64 \<Rightarrow> nat \<Rightarrow> bool option" where
  "has_id f ino p = do { n \<leftarrow> heap f p; Some (nodeid n = ino) }"

definition get_node_nocheck :: "fuse \<Rightarrow> u64 \<Rightarrow> nat option option" where
  "get_node_nocheck f ino =
     do { ps \<leftarrow> chain (id_table f) (id_hash f ino); find_m (has_id f ino) ps }"

definition get_node :: "fuse \<Rightarrow> u64 \<Rightarrow> nat option" where
  "get_node f ino = do { r \<leftarrow> get_node_nocheck f ino; r }"

definition has_name :: "fuse \<Rightarrow> u64 \<Rightarrow> string \<Rightarrow> nat \<Rightarrow> bool option" where
  "has_name f pid nm p =
     do { n \<leftarrow> heap f p; q \<leftarrow> parent n; m \<leftarrow> heap f q;
          if nodeid m = pid then do { s \<leftarrow> name n; Some (s = nm) } else Some False }"

definition lookup_node :: "fuse \<Rightarrow> u64 \<Rightarrow> string \<Rightarrow> nat option option" where
  "lookup_node f pid nm =
     do { ps \<leftarrow> chain (name_table f) (name_hash f pid nm); find_m (has_name f pid nm) ps }"

section \<open>The two tables\<close>

definition hash_id :: "fuse \<Rightarrow> nat \<Rightarrow> fuse option" where
  "hash_id f p =
     do { n \<leftarrow> heap f p;
          (al, t) \<leftarrow> table_add (node_raw_id f) (allocs f) (id_hash f (nodeid n)) p (id_table f);
          Some (f\<lparr>allocs := al, id_table := t\<rparr>) }"

definition unhash_id :: "fuse \<Rightarrow> nat \<Rightarrow> fuse option" where
  "unhash_id f p =
     do { n \<leftarrow> heap f p;
          ps \<leftarrow> chain (id_table f) (id_hash f (nodeid n));
          Some (if p \<in> set ps
                then (let (al, t) = table_dec (allocs f)
                            (set_chain (id_hash f (nodeid n)) (remove1 p ps) (id_table f))
                      in f\<lparr>allocs := al, id_table := t\<rparr>)
                else f) }"

definition remove_node_lru :: "nat \<Rightarrow> fuse \<Rightarrow> fuse" where
  "remove_node_lru p f = f\<lparr>lru_table := filter (\<lambda>q. q \<noteq> p) (lru_table f)\<rparr>"

definition set_forget_time :: "nat \<Rightarrow> fuse \<Rightarrow> fuse" where
  "set_forget_time p f =
     upd_node p (\<lambda>n. n\<lparr>forget_time := curr_time f\<rparr>)
       (f\<lparr>lru_table := filter (\<lambda>q. q \<noteq> p) (lru_table f) @ [p]\<rparr>)"

definition free_node :: "fuse \<Rightarrow> nat \<Rightarrow> fuse option" where
  "free_node f p =
     do { s \<leftarrow> free_node_mem p (slabs f); Some (f\<lparr>slabs := s, heap := (heap f)(p := None)\<rparr>) }"

text \<open>
  Taking a node off its name chain, and what that starts: the parent loses a reference, and a
  node without references is deleted, which takes it off its own name chain.  The pointers of the
  code into a chain stay valid meanwhile, so the chain is cut before the parent is released.
\<close>

definition cut_name :: "fuse \<Rightarrow> nat \<Rightarrow> nat \<Rightarrow> nat list \<Rightarrow> fuse" where
  "cut_name f h p ps = f\<lparr>name_table := set_chain h (remove1 p ps) (name_table f)\<rparr>"

definition end_unhash :: "fuse \<Rightarrow> nat \<Rightarrow> fuse option" where
  "end_unhash f p =
     do { n \<leftarrow> heap f p;
          let (al, t) = table_dec (allocs f) (name_table f);
          Some ((upd_node p (\<lambda>n. n\<lparr>name := None, parent := None\<rparr>) f)\<lparr>allocs := al, name_table := t\<rparr>) }"

lemma size_cut_name:
  assumes "chain (name_table f) h = Some ps" and "p \<in> set ps"
  shows "size (contents (name_table (cut_name f h p ps))) < size (contents (name_table f))"
proof -
  have h: "h < tsize (name_table f)" and ps: "ps = array (name_table f) h"
    using assms(1) by (auto simp: chain_def split: if_splits)
  obtain M where "mset ps = add_mset p M"
    using assms(2) by (metis in_multiset_in_set multi_member_split)
  then have "contents (name_table f) = add_mset p (contents (name_table (cut_name f h p ps)))"
    using contents_set_chain [OF h, of "remove1 p ps"] by (simp add: cut_name_def ps)
  then show ?thesis by simp
qed

function (sequential) unhash_name :: "fuse \<Rightarrow> nat \<Rightarrow> fuse option"
  and delete_node :: "fuse \<Rightarrow> nat \<Rightarrow> fuse option"
  and unref_node :: "fuse \<Rightarrow> nat \<Rightarrow> fuse option" where
  "unhash_name f p =
     (case heap f p of
        None \<Rightarrow> None
      | Some n \<Rightarrow>
          (case name n of
             None \<Rightarrow> Some f
           | Some nm \<Rightarrow>
               (case parent n of
                  None \<Rightarrow> None
                | Some q \<Rightarrow>
                    (case heap f q of
                       None \<Rightarrow> None
                     | Some m \<Rightarrow>
                         (case chain (name_table f) (name_hash f (nodeid m) nm) of
                            None \<Rightarrow> None
                          | Some ps \<Rightarrow>
                              if p \<in> set ps
                              then (case unref_node (cut_name f (name_hash f (nodeid m) nm) p ps) q of
                                      None \<Rightarrow> None
                                    | Some f1 \<Rightarrow> end_unhash f1 p)
                              else None)))))"
| "delete_node f p =
     (case heap f p of
        None \<Rightarrow> None
      | Some n \<Rightarrow>
          if treelock n \<noteq> 0 then None
          else (case unhash_name f p of
                  None \<Rightarrow> None
                | Some f1 \<Rightarrow>
                    do { let f2 = (if lru_enabled f1 then remove_node_lru p f1 else f1);
                         f3 \<leftarrow> unhash_id f2 p;
                         free_node f3 p }))"
| "unref_node f p =
     (case heap f p of
        None \<Rightarrow> None
      | Some n \<Rightarrow>
          if refctr n \<le> 0 then None
          else if refctr n = 1
          then delete_node (upd_node p (\<lambda>n. n\<lparr>refctr := refctr n - 1\<rparr>) f) p
          else Some (upd_node p (\<lambda>n. n\<lparr>refctr := refctr n - 1\<rparr>) f))"
  by pat_completeness auto
termination
  by (relation "measure (\<lambda>x. case x of
        Inl (f, p) \<Rightarrow> 3 * size (contents (name_table f))
      | Inr (Inl (f, p)) \<Rightarrow> 3 * size (contents (name_table f)) + 1
      | Inr (Inr (f, p)) \<Rightarrow> 3 * size (contents (name_table f)) + 2)")
    (auto simp: upd_node_def dest: size_cut_name)

declare unhash_name.simps [simp del] delete_node.simps [simp del] unref_node.simps [simp del]

section \<open>Creating and naming nodes\<close>

definition inc_nlookup :: "nat \<Rightarrow> fuse \<Rightarrow> fuse" where
  "inc_nlookup p f =
     upd_node p (\<lambda>n. n\<lparr>refctr := (if nlookup n = 0 then refctr n + 1 else refctr n),
                       nlookup := nlookup n + 1\<rparr>) f"

definition bump_ctr :: "fuse \<Rightarrow> fuse" where
  "bump_ctr f =
     (let c = and (ctr f + 1) 0xffffffff
      in f\<lparr>ctr := c, generation := (if c = 0 then generation f + 1 else generation f)\<rparr>)"

partial_function (option) next_id :: "fuse \<Rightarrow> (u64 \<times> fuse) option" where
  "next_id f =
     (let f1 = bump_ctr f in
      if ctr f1 = 0 \<or> ctr f1 = FUSE_UNKNOWN_INO then next_id f1
      else Option.bind (get_node_nocheck f1 (ctr f1))
             (\<lambda>r. if r \<noteq> None then next_id f1 else Some (ctr f1, f1)))"

definition INLINE_NAME_SIZE :: nat where
  "INLINE_NAME_SIZE = 32"

definition hash_name :: "fuse \<Rightarrow> nat \<Rightarrow> u64 \<Rightarrow> string \<Rightarrow> (int \<times> fuse) option" where
  "hash_name f p pid nm =
     (let h = name_hash f pid nm in
      do { q \<leftarrow> get_node f pid;
           n \<leftarrow> heap f p;
           let (ok, al) = (if length nm < INLINE_NAME_SIZE then (True, allocs f) else alloc_next (allocs f));
           if \<not> ok then Some (-1, (upd_node p (\<lambda>n. n\<lparr>name := None\<rparr>) f)\<lparr>allocs := al\<rparr>)
           else do {
             let f1 = upd_node q (\<lambda>m. m\<lparr>refctr := refctr m + 1\<rparr>) f;
             let f2 = upd_node p (\<lambda>n. n\<lparr>name := Some nm, parent := Some q\<rparr>) f1;
             (al2, t) \<leftarrow> table_add (node_raw_name f2) al h p (name_table f2);
             Some (0, f2\<lparr>allocs := al2, name_table := t\<rparr>) } })"

definition alloc_fuse_node :: "fuse \<Rightarrow> (nat option \<times> fuse) option" where
  \<comment> \<open>\<open>alloc_node\<close> with the \<open>memset\<close> at its end\<close>
  "alloc_fuse_node f =
     do { (r, s) \<leftarrow> alloc_node (slabs f);
          let f1 = f\<lparr>slabs := s\<rparr>;
          Some (r, case r of None \<Rightarrow> f1 | Some p \<Rightarrow> f1\<lparr>heap := (heap f1)(p \<mapsto> zero_node)\<rparr>) }"

definition new_node :: "fuse \<Rightarrow> u64 \<Rightarrow> string \<Rightarrow> (nat option \<times> fuse) option" where
  \<comment> \<open>\<open>find_node\<close>, the branch for a name that is not there\<close>
  "new_node f pid nm =
     do { (r, f1) \<leftarrow> alloc_fuse_node f;
          case r of
            None \<Rightarrow> Some (None, f1)
          | Some p \<Rightarrow>
              do { (i, f2) \<leftarrow> next_id f1;
                   let f3 = upd_node p (\<lambda>n. n\<lparr>nodeid := i, node_gen := generation f2\<rparr>) f2;
                   let f4 = (if remember (conf f3) \<noteq> 0 then inc_nlookup p f3 else f3);
                   (res, f5) \<leftarrow> hash_name f4 p pid nm;
                   if res = -1 then do { f6 \<leftarrow> free_node f5 p; Some (None, f6) }
                   else do { f6 \<leftarrow> hash_id f5 p; Some (Some p, inc_nlookup p f6) } } }"

definition find_node :: "fuse \<Rightarrow> u64 \<Rightarrow> string option \<Rightarrow> (nat option \<times> fuse) option" where
  "find_node f pid nmo =
     do { r \<leftarrow> (case nmo of None \<Rightarrow> do { p \<leftarrow> get_node f pid; Some (Some p) }
                | Some nm \<Rightarrow> lookup_node f pid nm);
          case (r, nmo) of
            (None, Some nm) \<Rightarrow> new_node f pid nm
          | (None, None) \<Rightarrow> None
          | (Some p, _) \<Rightarrow>
              do { n \<leftarrow> heap f p;
                   let f1 = (if lru_enabled f \<and> nlookup n = 1 then remove_node_lru p f else f);
                   Some (Some p, inc_nlookup p f1) } }"

text \<open>\<open>strtok_r (path, "/")\<close>: the non-empty pieces between slashes.\<close>

fun strtok :: "string \<Rightarrow> string \<Rightarrow> string list" where
  "strtok cur [] = (if cur = [] then [] else [cur])"
| "strtok cur (c # cs) =
     (if c = CHR ''/'' then (if cur = [] then strtok [] cs else cur # strtok [] cs)
      else strtok (cur @ [c]) cs)"

fun walk_names :: "fuse \<Rightarrow> u64 \<Rightarrow> string list \<Rightarrow> u64 option option" where
  "walk_names f ino [] = Some (Some ino)"
| "walk_names f ino (nm # nms) =
     do { r \<leftarrow> lookup_node f ino nm;
          case r of None \<Rightarrow> Some None
          | Some p \<Rightarrow> do { n \<leftarrow> heap f p; walk_names f (nodeid n) nms } }"

definition lookup_path_in_cache :: "fuse \<Rightarrow> string \<Rightarrow> (int \<times> u64 option \<times> fuse) option" where
  "lookup_path_in_cache f path =
     (let (ok, al) = alloc_next (allocs f); f1 = f\<lparr>allocs := al\<rparr> in
      if \<not> ok then Some (- ENOMEM, None, f1)
      else do { r \<leftarrow> walk_names f1 FUSE_ROOT_ID (strtok [] path);
                case r of None \<Rightarrow> Some (- ENOENT, None, f1) | Some ino \<Rightarrow> Some (0, Some ino, f1) })"

section \<open>Forgetting, removing and renaming\<close>

text \<open>
  \<open>forget_node\<close> waits on \<open>f->lock\<close> while the node is locked and all its lookups are forgotten; the
  outcome \<open>None\<close> of the inner option is that it has to wait.
\<close>

definition drop_lookups :: "nat \<Rightarrow> nat \<Rightarrow> fuse \<Rightarrow> fuse" where
  "drop_lookups p k f = upd_node p (\<lambda>n. n\<lparr>nlookup := nlookup n - k\<rparr>) f"

definition forget_node :: "fuse \<Rightarrow> u64 \<Rightarrow> nat \<Rightarrow> fuse option option" where
  "forget_node f ino k =
     (if ino = FUSE_ROOT_ID then Some (Some f)
      else do { p \<leftarrow> get_node f ino;
                n \<leftarrow> heap f p;
                if nlookup n = k \<and> treelock n \<noteq> 0 then Some None
                else if nlookup n < k then None
                else if nlookup n - k = 0 then map_option Some (unref_node (drop_lookups p k f) p)
                else if lru_enabled f \<and> nlookup n - k = 1
                then Some (Some (set_forget_time p (drop_lookups p k f)))
                else Some (Some (drop_lookups p k f)) })"

definition unlink_node :: "fuse \<Rightarrow> nat \<Rightarrow> fuse option" where
  "unlink_node f p =
     do { n \<leftarrow> heap f p;
          if remember (conf f) \<noteq> 0
          then if nlookup n \<le> 1 then None else unhash_name (drop_lookups p 1 f) p
          else unhash_name f p }"

definition remove_node :: "fuse \<Rightarrow> u64 \<Rightarrow> string \<Rightarrow> fuse option" where
  "remove_node f dir nm =
     do { r \<leftarrow> lookup_node f dir nm;
          case r of None \<Rightarrow> Some f | Some p \<Rightarrow> unlink_node f p }"

definition rename_node ::
  "fuse \<Rightarrow> u64 \<Rightarrow> string \<Rightarrow> u64 \<Rightarrow> string \<Rightarrow> bool \<Rightarrow> (int \<times> fuse) option" where
  "rename_node f olddir oldname newdir newname hide =
     do { node \<leftarrow> lookup_node f olddir oldname;
          newnode \<leftarrow> lookup_node f newdir newname;
          case node of
            None \<Rightarrow> Some (0, f)
          | Some p \<Rightarrow>
              if newnode \<noteq> None \<and> hide then Some (- EBUSY, f)
              else do {
                f1 \<leftarrow> (case newnode of None \<Rightarrow> Some f | Some q \<Rightarrow> unlink_node f q);
                f2 \<leftarrow> unhash_name f1 p;
                (res, f3) \<leftarrow> hash_name f2 p newdir newname;
                Some (if res = -1 then (- ENOMEM, f3)
                      else (0, if hide then upd_node p (\<lambda>n. n\<lparr>is_hidden := True\<rparr>) f3 else f3)) } }"

definition exchange_node :: "fuse \<Rightarrow> u64 \<Rightarrow> string \<Rightarrow> u64 \<Rightarrow> string \<Rightarrow> (int \<times> fuse) option" where
  "exchange_node f olddir oldname newdir newname =
     do { oldnode \<leftarrow> lookup_node f olddir oldname;
          newnode \<leftarrow> lookup_node f newdir newname;
          f1 \<leftarrow> (case oldnode of None \<Rightarrow> Some f | Some p \<Rightarrow> unhash_name f p);
          f2 \<leftarrow> (case newnode of None \<Rightarrow> Some f1 | Some q \<Rightarrow> unhash_name f1 q);
          (res1, f3) \<leftarrow> (case oldnode of None \<Rightarrow> Some (0, f2) | Some p \<Rightarrow> hash_name f2 p newdir newname);
          if res1 = -1 then Some (- ENOMEM, f3)
          else do {
            (res2, f4) \<leftarrow> (case newnode of None \<Rightarrow> Some (0, f3) | Some q \<Rightarrow> hash_name f3 q olddir oldname);
            Some (if res2 = -1 then (- ENOMEM, f4) else (0, f4)) } }"

section \<open>Dropping remembered nodes\<close>

definition clean_delay :: "fuse \<Rightarrow> int" where
  "clean_delay f =
     (let min_sleep = 60; max_sleep = 3600; sleep_time = remember (conf f) div 10
      in if max_sleep < sleep_time then max_sleep else if sleep_time < min_sleep then min_sleep else sleep_time)"

fun clean_loop :: "timespec \<Rightarrow> nat list \<Rightarrow> fuse \<Rightarrow> fuse option" where
  "clean_loop tm [] f = Some f"
| "clean_loop tm (p # ps) f =
     do { n \<leftarrow> heap f p;
          if diff_timespec tm (forget_time n) \<le> of_int (remember (conf f)) then Some f
          else if nlookup n \<noteq> 1 then None
          else if 1 < refctr n then clean_loop tm ps f
          else do { f1 \<leftarrow> unhash_name (upd_node p (\<lambda>n. n\<lparr>nlookup := 0\<rparr>) f) p;
                    f2 \<leftarrow> unref_node f1 p;
                    clean_loop tm ps f2 } }"

definition fuse_clean_cache :: "fuse \<Rightarrow> (int \<times> fuse) option" where
  "fuse_clean_cache f =
     do { f1 \<leftarrow> clean_loop (curr_time f) (lru_table f) f; Some (clean_delay f1, f1) }"

section \<open>The tree a file system starts with\<close>

text \<open>The part of \<open>fuse_new_31\<close> that builds the tables and the root node.\<close>

definition init_tree :: "fuse_config \<Rightarrow> slabs \<Rightarrow> allocs \<Rightarrow> timespec \<Rightarrow> fuse option option" where
  "init_tree cfg sl al tm =
     (let (r1, al1, nt) = node_table_init al in
      if r1 = -1 then Some None
      else let (r2, al2, it) = node_table_init al1 in
      if r2 = -1 then Some None
      else
        let f = \<lparr>name_table = nt, id_table = it, lru_table = [], ctr = 0, generation = 0, hidectr = 0,
                 conf = cfg, lockq = [], slabs = sl, heap = (\<lambda>_. None), allocs = al2, now = tm\<rparr>
        in do { (r, f1) \<leftarrow> alloc_fuse_node f;
                case r of
                  None \<Rightarrow> Some None
                | Some p \<Rightarrow>
                    (let f2 = upd_node p (\<lambda>n. n\<lparr>name := Some [CHR 0x2F], parent := None,
                                                   nodeid := FUSE_ROOT_ID\<rparr>) f1
                     in map_option Some (hash_id (inc_nlookup p f2) p)) })"

end
