(* ===== verification/NodeInv.thy ===== *)
theory NodeInv
  imports Nodes
begin

text \<open>
  The invariant of the node tree and the cascade of deletions.

  While \<open>unhash_name\<close> runs, a node is off its chain but still points to its parent and is still
  counted in \<open>use\<close>.  So the invariant has the set \<open>D\<close> of nodes in that state, next to \<open>ext p\<close>, the
  references to \<open>p\<close> held by running code, and a set \<open>Z\<close> of nodes on their way out, whose reference
  count may be zero.  Between operations \<open>D\<close> and \<open>Z\<close> are empty and \<open>ext\<close> is zero: \<open>fuse_inv\<close>.
\<close>

section \<open>The invariant\<close>

text \<open>The links of a node: its number, parent and name.\<close>

definition links_of :: "fuse \<Rightarrow> nat \<Rightarrow> (u64 \<times> nat option \<times> string option) option" where
  "links_of f p = map_option (\<lambda>n. (nodeid n, parent n, name n)) (heap f p)"

definition eff_parent :: "fuse \<Rightarrow> nat set \<Rightarrow> nat \<Rightarrow> nat option" where
  "eff_parent f D p = (if p \<in> D then None else Option.bind (heap f p) parent)"

definition kids :: "fuse \<Rightarrow> nat set \<Rightarrow> nat \<Rightarrow> nat set" where
  "kids f D q = {p. eff_parent f D p = Some q}"

definition parent_rel :: "fuse \<Rightarrow> (nat \<times> nat) set" where
  "parent_rel f = {(p, q). Option.bind (heap f p) parent = Some q}"

definition mem_inv :: "fuse \<Rightarrow> bool" where
  "mem_inv f \<longleftrightarrow> slabs_inv (slabs f) \<and> live (slabs f) = dom (heap f) \<and> finite (dom (heap f))"

definition ids_inv :: "fuse \<Rightarrow> bool" where
  "ids_inv f \<longleftrightarrow> table_inv (node_raw_id f) (id_table f) \<and> contents (id_table f) = mset_set (dom (heap f))
    \<and> (\<forall>p q i r s r' s'. links_of f p = Some (i, r, s) \<longrightarrow> links_of f q = Some (i, r', s') \<longrightarrow> p = q)"

definition named :: "fuse \<Rightarrow> nat set \<Rightarrow> nat set" where
  "named f D = {p. eff_parent f D p \<noteq> None}"

definition chains_inv :: "nat set \<Rightarrow> fuse \<Rightarrow> bool" where
  "chains_inv D f \<longleftrightarrow> table_ok (node_raw_name f) (name_table f) \<and> finite D \<and>
     use_count (name_table f) = size (contents (name_table f)) + card D \<and>
     contents (name_table f) = mset_set (named f D)"

text \<open>Parents are live, names are unique within a directory, and only the root has a name but no parent.\<close>

definition links_inv :: "nat set \<Rightarrow> fuse \<Rightarrow> bool" where
  "links_inv D f \<longleftrightarrow>
     (\<forall>p q. eff_parent f D p = Some q \<longrightarrow>
        (\<exists>i s l. links_of f p = Some (i, Some q, Some s) \<and> links_of f q = Some l)) \<and>
     (\<forall>p p' q i i' r r' s. eff_parent f D p = Some q \<longrightarrow> eff_parent f D p' = Some q \<longrightarrow>
        links_of f p = Some (i, r, s) \<longrightarrow> links_of f p' = Some (i', r', s) \<longrightarrow> p = p') \<and>
     (\<forall>p i s. links_of f p = Some (i, None, s) \<longrightarrow> p \<notin> D \<longrightarrow> s = None \<or> i = FUSE_ROOT_ID)"

definition refs_inv :: "nat set \<Rightarrow> (nat \<Rightarrow> int) \<Rightarrow> fuse \<Rightarrow> bool" where
  "refs_inv D ext f \<longleftrightarrow> (\<forall>p n. heap f p = Some n \<longrightarrow>
     refctr n = (if nlookup n = 0 then 0 else 1) + int (card (kids f D p)) + ext p)"

definition root_inv :: "fuse \<Rightarrow> bool" where
  "root_inv f \<longleftrightarrow> (\<exists>p n. heap f p = Some n \<and> nodeid n = FUSE_ROOT_ID \<and> parent n = None \<and> 0 < nlookup n)"

definition lru_inv :: "fuse \<Rightarrow> bool" where
  "lru_inv f \<longleftrightarrow> distinct (lru_table f) \<and> set (lru_table f) \<subseteq> dom (heap f)
    \<and> (lru_table f \<noteq> [] \<longrightarrow> lru_enabled f)"

definition nodes_inv :: "nat set \<Rightarrow> (nat \<Rightarrow> int) \<Rightarrow> fuse \<Rightarrow> bool" where
  "nodes_inv D ext f \<longleftrightarrow> mem_inv f \<and> ids_inv f \<and> chains_inv D f \<and> links_inv D f \<and> refs_inv D ext f
     \<and> root_inv f \<and> lru_inv f \<and> acyclic (parent_rel f) \<and> (\<forall>p. 0 \<le> ext p)"

definition positive :: "nat set \<Rightarrow> fuse \<Rightarrow> bool" where
  "positive Z f \<longleftrightarrow> (\<forall>p n. heap f p = Some n \<longrightarrow> p \<notin> Z \<longrightarrow> 0 < refctr n)"

text \<open>A node that the kernel has forgotten altogether is not part of a locked path.\<close>

definition quiet :: "fuse \<Rightarrow> bool" where
  "quiet f \<longleftrightarrow> (\<forall>p n. heap f p = Some n \<longrightarrow> nlookup n = 0 \<longrightarrow> treelock n = 0)"

definition base :: "nat set \<Rightarrow> (nat \<Rightarrow> int) \<Rightarrow> nat set \<Rightarrow> fuse \<Rightarrow> bool" where
  "base D ext Z f \<longleftrightarrow> nodes_inv D ext f \<and> positive Z f \<and> quiet f"

definition fuse_inv :: "fuse \<Rightarrow> bool" where
  "fuse_inv f \<longleftrightarrow> nodes_inv {} (\<lambda>_. 0) f \<and> positive {} f"

lemmas inv_defs = nodes_inv_def mem_inv_def ids_inv_def chains_inv_def links_inv_def refs_inv_def
  root_inv_def lru_inv_def

section \<open>What an operation of the cascade does to the heap\<close>

text \<open>
  Outside of \<open>X\<close>, a node is either gone or only its reference count has changed; nodes the kernel
  has looked up are not gone.  The rest of the state is not touched.
\<close>

definition only_refs :: "node option \<Rightarrow> node option \<Rightarrow> bool" where
  "only_refs a b \<longleftrightarrow> b = None \<or> (\<exists>n r. a = Some n \<and> b = Some (n\<lparr>refctr := r\<rparr>))"

lemma only_refs_refl [simp]: "only_refs a a"
proof -
  have "n = n\<lparr>refctr := refctr n\<rparr>" for n :: node by simp
  then show ?thesis unfolding only_refs_def by (cases a) blast+
qed

lemma only_refs_None [simp]: "only_refs a None"
  by (simp add: only_refs_def)

lemma only_refs_upd [simp]: "only_refs (Some n) (Some (n\<lparr>refctr := r\<rparr>))"
  by (auto simp: only_refs_def)

lemma only_refs_trans: "only_refs a b \<Longrightarrow> only_refs b c \<Longrightarrow> only_refs a c"
  by (auto simp: only_refs_def)

lemma only_refsE:
  assumes "only_refs a (Some m)"
  obtains n r where "a = Some n" "m = n\<lparr>refctr := r\<rparr>"
  using assms by (auto simp: only_refs_def)

definition looked_up_stays :: "fuse \<Rightarrow> fuse \<Rightarrow> bool" where
  "looked_up_stays f f' \<longleftrightarrow> (\<forall>x n. heap f x = Some n \<longrightarrow> 0 < nlookup n \<longrightarrow>
     (\<exists>m. heap f' x = Some m \<and> nlookup m = nlookup n))"

definition same_rest :: "fuse \<Rightarrow> fuse \<Rightarrow> bool" where
  "same_rest f f' \<longleftrightarrow> conf f' = conf f \<and> ctr f' = ctr f \<and> generation f' = generation f \<and>
     hidectr f' = hidectr f \<and> lockq f' = lockq f \<and> now f' = now f \<and>
     set (lru_table f') \<subseteq> set (lru_table f)"

definition shrinks :: "nat set \<Rightarrow> fuse \<Rightarrow> fuse \<Rightarrow> bool" where
  "shrinks X f f' \<longleftrightarrow> (\<forall>x. x \<notin> X \<longrightarrow> only_refs (heap f x) (heap f' x)) \<and> looked_up_stays f f' \<and> same_rest f f'"

lemma shrinks_refl [simp]: "shrinks X f f"
  by (auto simp: shrinks_def looked_up_stays_def same_rest_def)

lemma shrinks_trans:
  assumes "shrinks X f g" and "shrinks Y g h"
  shows "shrinks (X \<union> Y) f h"
proof -
  have "looked_up_stays f h" using assms unfolding shrinks_def looked_up_stays_def by metis
  moreover have "same_rest f h" using assms unfolding shrinks_def same_rest_def by auto
  ultimately show ?thesis using assms only_refs_trans unfolding shrinks_def by (metis UnI1 UnI2)
qed

lemma shrinks_mono: "shrinks X f f' \<Longrightarrow> X \<subseteq> Y \<Longrightarrow> shrinks Y f f'"
  by (auto simp: shrinks_def)

section \<open>Congruence: what each part of the invariant looks at\<close>

lemma raw_id_cong: "heap f' p = heap f p \<Longrightarrow> node_raw_id f' p = node_raw_id f p"
  by (simp add: node_raw_id_def)

lemma upd_node_simps [simp]:
  "heap (upd_node p g f) = (heap f)(p := map_option g (heap f p))"
  "name_table (upd_node p g f) = name_table f" "id_table (upd_node p g f) = id_table f"
  "lru_table (upd_node p g f) = lru_table f" "slabs (upd_node p g f) = slabs f"
  "allocs (upd_node p g f) = allocs f" "conf (upd_node p g f) = conf f" "ctr (upd_node p g f) = ctr f"
  "generation (upd_node p g f) = generation f" "hidectr (upd_node p g f) = hidectr f"
  "lockq (upd_node p g f) = lockq f" "now (upd_node p g f) = now f"
  by (simp_all add: upd_node_def)

lemma dom_upd_node [simp]: "dom (heap (upd_node p g f)) = dom (heap f)"
  by (auto simp: dom_def)

lemma links_of_None [simp]: "links_of f p = None \<longleftrightarrow> heap f p = None"
  by (simp add: links_of_def)

lemma links_of_Some:
  "links_of f p = Some (i, q, s) \<longleftrightarrow> (\<exists>n. heap f p = Some n \<and> nodeid n = i \<and> parent n = q \<and> name n = s)"
  by (auto simp: links_of_def)

lemma links_of_facts:
  "Option.bind (heap f p) parent = Option.bind (links_of f p) (\<lambda>(i, q, s). q)"
  "node_raw_id f p = (case links_of f p of None \<Rightarrow> 0 | Some (i, q, s) \<Rightarrow> raw_id i)"
  "node_raw_name f p = (case links_of f p of
     Some (i, Some q, Some s) \<Rightarrow> (case links_of f q of None \<Rightarrow> 0 | Some (j, _) \<Rightarrow> raw_name j s) | _ \<Rightarrow> 0)"
  by (cases "heap f p"; auto simp: links_of_def node_raw_id_def node_raw_name_def split: option.splits)+

lemma links_cong:
  assumes "links_of f' = links_of f"
  shows "eff_parent f' = eff_parent f" "kids f' = kids f" "named f' = named f"
    "parent_rel f' = parent_rel f" "node_raw_id f' = node_raw_id f" "node_raw_name f' = node_raw_name f"
    "dom (heap f') = dom (heap f)" "(heap f' p = None) = (heap f p = None)"
proof -
  show e: "eff_parent f' = eff_parent f"
    by (simp add: eff_parent_def fun_eq_iff links_of_facts(1) assms)
  then show k: "kids f' = kids f" "named f' = named f" by (simp_all add: kids_def named_def fun_eq_iff)
  show "parent_rel f' = parent_rel f" by (simp add: parent_rel_def links_of_facts(1) assms)
  show "node_raw_id f' = node_raw_id f" "node_raw_name f' = node_raw_name f"
    by (simp_all only: fun_eq_iff links_of_facts(2,3) assms) simp_all
  have n: "(heap f' x = None) = (heap f x = None)" for x by (metis assms links_of_None)
  then show "(heap f' p = None) = (heap f p = None)" .
  show "dom (heap f') = dom (heap f)" by (simp add: dom_def n)
qed

lemma links_of_upd:
  assumes "\<And>n. heap f p = Some n \<Longrightarrow> nodeid (g n) = nodeid n \<and> parent (g n) = parent n \<and> name (g n) = name n"
  shows "links_of (upd_node p g f) = links_of f"
proof
  show "links_of (upd_node p g f) x = links_of f x" for x
    using assms by (cases "heap f p") (auto simp: links_of_def)
qed

lemma inv_cong:
  assumes "links_of f' = links_of f"
  shows "links_inv D f' = links_inv D f"
    and "id_table f' = id_table f \<Longrightarrow> ids_inv f' = ids_inv f"
    and "name_table f' = name_table f \<Longrightarrow> chains_inv D f' = chains_inv D f"
    and "slabs f' = slabs f \<Longrightarrow> mem_inv f' = mem_inv f"
    and "conf f' = conf f \<Longrightarrow> lru_table f' = lru_table f \<Longrightarrow> lru_inv f' = lru_inv f"
  by (simp_all add: links_inv_def ids_inv_def chains_inv_def mem_inv_def lru_inv_def lru_enabled_def assms
      links_cong [OF assms])

text \<open>An operation that touches neither links nor tables only has to account for the references.\<close>

lemma nodes_inv_counts:
  assumes "nodes_inv D ext f" and "links_of f' = links_of f"
    and "name_table f' = name_table f" "id_table f' = id_table f" "slabs f' = slabs f" "conf f' = conf f"
    and "lru_inv f'" "root_inv f'" "refs_inv D ext' f'" "\<And>p. 0 \<le> ext' p"
  shows "nodes_inv D ext' f'"
  using assms inv_cong [OF assms(2)] links_cong(4) [OF assms(2)] by (simp add: nodes_inv_def)

section \<open>The steps of the cascade\<close>

lemma root_inv_mono:
  assumes "root_inv f" and "\<And>p n. heap f p = Some n \<Longrightarrow> parent n = None \<Longrightarrow> 0 < nlookup n \<Longrightarrow>
      nodeid n = FUSE_ROOT_ID \<Longrightarrow> \<exists>m. heap f' p = Some m \<and> nodeid m = nodeid n \<and> parent m = None \<and> 0 < nlookup m"
  shows "root_inv f'"
  using assms unfolding root_inv_def by metis

lemma eff_parent_Some: "eff_parent f D p = Some q \<longleftrightarrow> p \<notin> D \<and> (\<exists>n. heap f p = Some n \<and> parent n = Some q)"
  by (cases "heap f p") (auto simp: eff_parent_def)

lemma named_sub: "named f D \<subseteq> dom (heap f)"
  by (auto simp: named_def eff_parent_Some)

lemma kids_sub: "kids f D q \<subseteq> named f D"
  by (auto simp: kids_def named_def)

lemma named_finite: "nodes_inv D ext f \<Longrightarrow> finite (named f D)"
  using named_sub [of f D] by (auto simp: nodes_inv_def mem_inv_def intro: finite_subset)

lemma kids_finite: "nodes_inv D ext f \<Longrightarrow> finite (kids f D q)"
  by (rule finite_subset [OF kids_sub named_finite])

lemma raw_name_eq:
  "heap f p = Some n \<Longrightarrow> name n = Some nm \<Longrightarrow> parent n = Some q \<Longrightarrow> heap f q = Some m \<Longrightarrow>
     node_raw_name f p = raw_name (nodeid m) nm"
  by (simp add: node_raw_name_def)

lemma cut_name_simps [simp]:
  "heap (cut_name f h p ps) = heap f" "slabs (cut_name f h p ps) = slabs f"
  "id_table (cut_name f h p ps) = id_table f" "lru_table (cut_name f h p ps) = lru_table f"
  "conf (cut_name f h p ps) = conf f" "ctr (cut_name f h p ps) = ctr f"
  "generation (cut_name f h p ps) = generation f" "hidectr (cut_name f h p ps) = hidectr f"
  "lockq (cut_name f h p ps) = lockq f" "now (cut_name f h p ps) = now f"
  "links_of (cut_name f h p ps) = links_of f"
  by (simp_all add: cut_name_def links_of_def fun_eq_iff)

lemma cut_step:
  assumes b: "base D ext Z f" and p: "heap f p = Some n" "p \<notin> D" "name n = Some nm" "parent n = Some q"
    and q: "heap f q = Some m"
  defines "h \<equiv> name_hash f (nodeid m) nm"
  shows "\<exists>ps. chain (name_table f) h = Some ps \<and> p \<in> set ps \<and>
    base (insert p D) (ext(q := ext q + 1)) Z (cut_name f h p ps)"
proof -
  let ?t = "name_table f"
  have inv: "nodes_inv D ext f" using b by (simp add: base_def)
  then have ch: "chains_inv D f" and li: "links_inv D f" and re: "refs_inv D ext f"
    by (simp_all add: nodes_inv_def)
  have ok: "table_ok (node_raw_name f) ?t" using ch by (simp add: chains_inv_def)
  have h: "h = bucket ?t (node_raw_name f p)"
    using raw_name_eq [OF p(1,3,4) q] by (simp add: h_def name_hash_def)
  have hl: "h < tsize ?t" using ok by (simp add: h table_ok_def bucket_less)
  have par: "eff_parent f D p = Some q" using p by (simp add: eff_parent_Some)
  then have nm: "p \<in> named f D" by (simp add: named_def)
  have fin: "finite (named f D)" by (rule named_finite [OF inv])
  have "p \<in># contents ?t" using ch nm fin by (simp add: chains_inv_def)
  then have ps: "p \<in> set (array ?t h)" using in_bucket [OF ok] by (simp add: h)
  let ?f = "cut_name f h p (array ?t h)" and ?D = "insert p D" and ?e = "ext(q := ext q + 1)"
  have eff: "eff_parent ?f ?D x = (if x = p then None else eff_parent f D x)" for x
    by (simp add: eff_parent_def)
  have kid: "kids ?f ?D x = (if x = q then kids f D q - {p} else kids f D x)" for x
    using par by (auto simp: kids_def eff)
  have nam: "named ?f ?D = named f D - {p}" by (auto simp: named_def eff)
  from remove1_table_ok [OF ok hl ps]
  have t: "table_ok (node_raw_name f) (name_table ?f)" "contents ?t = add_mset p (contents (name_table ?f))"
    by (simp_all add: cut_name_def)
  have "mset_set (named f D) = add_mset p (mset_set (named f D - {p}))"
    using nm fin by (metis insert_Diff_single insert_absorb mset_set.insert_remove)
  with t ch have cont: "contents (name_table ?f) = mset_set (named f D - {p})" by (simp add: chains_inv_def)
  have "chains_inv ?D ?f"
  proof -
    have "node_raw_name ?f = node_raw_name f" by (rule links_cong) simp
    moreover have "use_count (name_table ?f) = use_count ?t" by (simp add: cut_name_def)
    ultimately show ?thesis using t cont ch p(2) nam by (simp add: chains_inv_def)
  qed
  moreover have "links_inv ?D ?f" using li by (auto simp: links_inv_def eff split: if_splits)
  moreover have "refs_inv ?D ?e ?f"
    unfolding refs_inv_def
  proof (intro allI impI)
    fix x k assume x: "heap ?f x = Some k"
    have "0 < card (kids f D q)" using par kids_finite [OF inv] by (auto simp: card_gt_0_iff kids_def)
    moreover have "p \<in> kids f D q" using par by (simp add: kids_def)
    ultimately have "int (card (kids ?f ?D x)) + ?e x = int (card (kids f D x)) + ext x"
      using kids_finite [OF inv, of q] by (simp add: kid of_nat_diff)
    then show "refctr k = (if nlookup k = 0 then 0 else 1) + int (card (kids ?f ?D x)) + ?e x"
      using re x by (simp add: refs_inv_def)
  qed
  moreover have "mem_inv ?f \<and> ids_inv ?f \<and> lru_inv ?f"
    using inv inv_cong [of ?f f] by (simp add: nodes_inv_def)
  moreover have "acyclic (parent_rel ?f)" using inv links_cong(4) [of ?f f] by (simp add: nodes_inv_def)
  moreover have "root_inv ?f" using inv by (simp add: nodes_inv_def root_inv_def)
  moreover have "\<forall>x. 0 \<le> ?e x" using inv by (simp add: nodes_inv_def add_nonneg_nonneg)
  ultimately have "nodes_inv ?D ?e ?f" by (simp add: nodes_inv_def)
  then show ?thesis
    using b hl ps by (auto simp: base_def chain_def positive_def quiet_def)
qed

lemma dec_step:
  assumes b: "base D ext Z f" and q: "heap f q = Some n" "0 < ext q"
  defines "f' \<equiv> upd_node q (\<lambda>n. n\<lparr>refctr := refctr n - 1\<rparr>) f"
  shows "0 < refctr n" "base D (ext(q := ext q - 1)) (if refctr n = 1 then insert q Z else Z) f'"
    "links_of f' = links_of f"
proof -
  have inv: "nodes_inv D ext f" using b by (simp add: base_def)
  have "refctr n = (if nlookup n = 0 then 0 else 1) + int (card (kids f D q)) + ext q"
    using inv q by (simp add: nodes_inv_def refs_inv_def)
  then show pos: "0 < refctr n" using q(2) by (simp split: if_splits)
  show l: "links_of f' = links_of f" unfolding f'_def by (rule links_of_upd) simp
  have "refs_inv D (ext(q := ext q - 1)) f'"
    using inv links_cong(2) [OF l] by (auto simp: nodes_inv_def refs_inv_def f'_def)
  moreover have "root_inv f'" using inv q(1) by (auto simp: nodes_inv_def root_inv_def f'_def)
      (metis fun_upd_other fun_upd_same node.select_convs node.update_convs option.inject)+
  moreover have "lru_inv f'" using inv inv_cong(5) [OF l] by (simp add: nodes_inv_def f'_def)
  moreover have "0 \<le> (ext(q := ext q - 1)) x" for x using inv q(2) by (simp add: nodes_inv_def)
  ultimately have "nodes_inv D (ext(q := ext q - 1)) f'"
    by (intro nodes_inv_counts [OF inv l]) (simp_all add: f'_def)
  moreover have "positive (if refctr n = 1 then insert q Z else Z) f'"
    using b q(1) pos by (auto simp: base_def positive_def f'_def)
  moreover have "quiet f'" using b q(1) by (auto simp: base_def quiet_def f'_def)
  ultimately show "base D (ext(q := ext q - 1)) (if refctr n = 1 then insert q Z else Z) f'"
    by (simp add: base_def)
qed

definition cleared :: "node \<Rightarrow> node" where
  "cleared n = n\<lparr>name := None, parent := None\<rparr>"

lemma cleared_simps [simp]:
  "name (cleared n) = None" "parent (cleared n) = None" "nodeid (cleared n) = nodeid n"
  "refctr (cleared n) = refctr n" "nlookup (cleared n) = nlookup n" "treelock (cleared n) = treelock n"
  by (simp_all add: cleared_def)

lemma table_dec_general:
  assumes "table_ok raw t" and "table_dec al t = (al', t')"
  shows "table_ok raw t' \<and> contents t' = contents t \<and> use_count t' = use_count t - 1"
proof -
  let ?t1 = "t\<lparr>use_count := use_count t - 1\<rparr>"
  have "table_ok raw ?t1" using assms(1) by simp
  then show ?thesis
    using remerge_ok [of raw ?t1 al al' t'] assms(2) by (auto simp: table_dec_def Let_def split: if_splits)
qed

lemma end_step:
  assumes b: "base (insert p D) ext Z f" and p: "p \<notin> D" "heap f p = Some n"
  shows "\<exists>f'. end_unhash f p = Some f' \<and> base D ext Z f' \<and> heap f' = (heap f)(p \<mapsto> cleared n) \<and>
    same_rest f f' \<and> id_table f' = id_table f \<and> lru_table f' = lru_table f"
proof -
  have inv: "nodes_inv (insert p D) ext f" using b by (simp add: base_def)
  then have ch: "chains_inv (insert p D) f" and li: "links_inv (insert p D) f"
    and re: "refs_inv (insert p D) ext f" by (simp_all add: nodes_inv_def)
  obtain al t where t: "table_dec (allocs f) (name_table f) = (al, t)" by fastforce
  define f' where "f' = (upd_node p cleared f)\<lparr>allocs := al, name_table := t\<rparr>"
  have run: "end_unhash f p = Some f'"
    using p t by (simp add: end_unhash_def f'_def cleared_def [abs_def])
  have hp: "heap f' = (heap f)(p \<mapsto> cleared n)" using p by (simp add: f'_def)
  have eff: "eff_parent f' D = eff_parent f (insert p D)"
    by (auto simp: eff_parent_def hp)
  have kid: "kids f' D = kids f (insert p D)" and nam: "named f' D = named f (insert p D)"
    by (simp_all add: kids_def named_def eff fun_eq_iff)
  have lk: "links_of f' x = (if x = p then Some (nodeid n, None, None) else links_of f x)" for x
    by (simp add: links_of_def hp)
  have idp: "\<exists>r s. links_of f p = Some (nodeid n, r, s)" using p(2) by (simp add: links_of_def)
  have rid: "node_raw_id f' = node_raw_id f"
    using p(2) by (auto simp: node_raw_id_def hp fun_eq_iff)
  have raw: "node_raw_name f' x = node_raw_name f x" if "x \<noteq> p" for x
    using that p(2) by (auto simp: node_raw_name_def hp split: option.splits)
  have dom: "dom (heap f') = dom (heap f)" using p(2) by (auto simp: hp)
  have fin: "finite (named f (insert p D))" by (rule named_finite [OF inv])
  have notin: "x \<noteq> p" if "x \<in># contents (name_table f)" for x
    using that ch fin by (auto simp: chains_inv_def named_def eff_parent_def)
  from ch have "table_ok (node_raw_name f) (name_table f)" by (simp add: chains_inv_def)
  from table_dec_general [OF this t]
  have t': "table_ok (node_raw_name f) t" "contents t = contents (name_table f)"
    "use_count t = use_count (name_table f) - 1" by simp_all
  have "table_ok (node_raw_name f') t"
    using t'(1) table_ok_cong [of t "node_raw_name f'" "node_raw_name f"] raw notin t'(2) by auto
  moreover have "name_table f' = t" by (simp add: f'_def)
  ultimately have "chains_inv D f'"
    using t' ch p(1) by (simp add: chains_inv_def nam)
  moreover have "links_inv D f'"
    unfolding links_inv_def eff
  proof (intro conjI allI impI)
    fix x q assume e: "eff_parent f (insert p D) x = Some q"
    then have "x \<noteq> p" by (auto simp: eff_parent_def)
    then show "\<exists>i s l. links_of f' x = Some (i, Some q, Some s) \<and> links_of f' q = Some l"
      using e li by (fastforce simp: links_inv_def lk)
  next
    fix x x' q i i' r r' s
    assume e: "eff_parent f (insert p D) x = Some q" "eff_parent f (insert p D) x' = Some q"
      "links_of f' x = Some (i, r, s)" "links_of f' x' = Some (i', r', s)"
    then have "x \<noteq> p" "x' \<noteq> p" by (auto simp: eff_parent_def)
    then show "x = x'" using e li unfolding links_inv_def lk by (auto split: if_splits)
  next
    fix x i s assume "links_of f' x = Some (i, None, s)" "x \<notin> D"
    then show "s = None \<or> i = FUSE_ROOT_ID"
      using li unfolding links_inv_def lk by (cases "x = p") auto
  qed
  moreover have "refs_inv D ext f'"
    using re p(2) by (auto simp: refs_inv_def kid hp)
  moreover have "ids_inv f'"
  proof -
    have ids: "ids_inv f" using inv by (simp add: nodes_inv_def)
    have it: "id_table f' = id_table f" by (simp add: f'_def)
    have bk: "\<exists>r s. links_of f x = Some (i, r, s)" if "links_of f' x = Some (i, r', s')" for x i r' s'
      using that idp by (auto simp: lk split: if_splits)
    show ?thesis
      unfolding ids_inv_def it rid dom
    proof (intro conjI allI impI)
      fix x y i r s r' s' assume "links_of f' x = Some (i, r, s)" "links_of f' y = Some (i, r', s')"
      from bk [OF this(1)] bk [OF this(2)] show "x = y" using ids unfolding ids_inv_def by blast
    qed (use ids in \<open>simp_all add: ids_inv_def\<close>)
  qed
  moreover have "root_inv f'"
    by (rule root_inv_mono [of f]) (use inv p(2) in \<open>auto simp: nodes_inv_def hp\<close>)
  moreover have "mem_inv f'" "lru_inv f'"
    using inv dom by (simp_all add: nodes_inv_def mem_inv_def lru_inv_def lru_enabled_def f'_def)
  moreover have "acyclic (parent_rel f')"
  proof -
    have "parent_rel f' \<subseteq> parent_rel f" by (auto simp: parent_rel_def hp split: if_splits)
    then show ?thesis using inv by (auto simp: nodes_inv_def intro: acyclic_subset)
  qed
  ultimately have "nodes_inv D ext f'" using inv by (simp add: nodes_inv_def)
  moreover have "positive Z f' \<and> quiet f'"
    using b p(2) by (auto simp: base_def positive_def quiet_def hp)
  moreover have "same_rest f f' \<and> id_table f' = id_table f \<and> lru_table f' = lru_table f"
    by (simp add: same_rest_def f'_def)
  ultimately show ?thesis using run hp by (auto simp: base_def)
qed

lemma mem_run_free:
  assumes "mem_inv f" and "p \<in> dom (heap f)"
  shows "\<exists>f'. free_node f p = Some f' \<and> mem_inv f' \<and> heap f' = (heap f)(p := None) \<and>
    f' = f\<lparr>slabs := slabs f', heap := (heap f)(p := None)\<rparr>"
proof -
  obtain s where s: "free_node_mem p (slabs f) = Some s" "slabs_inv s" "live s = live (slabs f) - {p}"
    using node_mem.free_ok [of "slabs f" p] assms unfolding mem_inv_def by metis
  then have "free_node f p = Some (f\<lparr>slabs := s, heap := (heap f)(p := None)\<rparr>)"
    by (simp add: free_node_def)
  moreover have "mem_inv (f\<lparr>slabs := s, heap := (heap f)(p := None)\<rparr>)"
    using s assms(1) by (auto simp: mem_inv_def)
  ultimately show ?thesis
    by (intro exI [of _ "f\<lparr>slabs := s, heap := (heap f)(p := None)\<rparr>"]) simp
qed

lemma unhash_id_step:
  assumes "ids_inv f" and "heap f p = Some n" and "finite (dom (heap f))"
  shows "\<exists>f'. unhash_id f p = Some f' \<and> f' = f\<lparr>allocs := allocs f', id_table := id_table f'\<rparr> \<and>
    table_inv (node_raw_id f) (id_table f') \<and> contents (id_table f') = mset_set (dom (heap f) - {p})"
proof -
  let ?t = "id_table f" and ?h = "bucket (id_table f) (node_raw_id f p)"
  have inv: "table_inv (node_raw_id f) ?t" and c: "contents ?t = mset_set (dom (heap f))"
    using assms(1) by (simp_all add: ids_inv_def)
  have ok: "table_ok (node_raw_id f) ?t" using inv by (simp add: table_inv_def)
  have h: "id_hash f (nodeid n) = ?h" using assms(2) by (simp add: id_hash_def node_raw_id_def)
  have pd: "p \<in> dom (heap f)" using assms(2) by auto
  have hl: "?h < tsize ?t" "p \<in> set (array ?t ?h)"
    using ok in_bucket [OF ok] pd assms(3) c by (simp_all add: table_ok_def bucket_less)
  let ?t1 = "set_chain ?h (remove1 p (array ?t ?h)) ?t"
  note r = remove1_table_ok [OF ok hl]
  obtain al t where t: "table_dec (allocs f) ?t1 = (al, t)" by fastforce
  have "use_count ?t1 = Suc (size (contents ?t1))" using r inv by (simp add: table_inv_def)
  from table_dec_inv [of "node_raw_id f", OF _ this t] r
  have t': "table_inv (node_raw_id f) t \<and> contents t = contents ?t1" by simp
  have "mset_set (dom (heap f)) = add_mset p (mset_set (dom (heap f) - {p}))"
    using pd assms(3) by (metis insert_Diff_single insert_absorb mset_set.insert_remove)
  then have "contents t = mset_set (dom (heap f) - {p})" using t' r c by simp
  moreover have "unhash_id f p = Some (f\<lparr>allocs := al, id_table := t\<rparr>)"
    using assms(2) hl t by (simp add: unhash_id_def h chain_def)
  ultimately show ?thesis using t' by auto
qed

lemma delete_end:
  assumes b: "base D ext (insert q Z) f" and q: "heap f q = Some n" "refctr n = 0" "name n = None"
    and out: "q \<notin> D" "q \<notin> Z"
  shows "\<exists>f'. do { let f2 = (if lru_enabled f then remove_node_lru q f else f);
                   f3 \<leftarrow> unhash_id f2 q; free_node f3 q } = Some f' \<and>
    base D ext Z f' \<and> heap f' = (heap f)(q := None) \<and> same_rest f f' \<and> nlookup n = 0"
proof -
  have inv: "nodes_inv D ext f" using b by (simp add: base_def)
  then have "refctr n = (if nlookup n = 0 then 0 else 1) + int (card (kids f D q)) + ext q" "0 \<le> ext q"
    using q(1) by (simp_all add: nodes_inv_def refs_inv_def)
  then have nl: "nlookup n = 0" and "card (kids f D q) = 0" using q(2) by (auto split: if_splits)
  then have no_kids: "kids f D q = {}" using kids_finite [OF inv, of q] by simp
  have np: "parent n = None"
  proof (cases "parent n")
    case (Some r)
    then have "eff_parent f D q = Some r" using q(1) out by (simp add: eff_parent_Some)
    then have "\<exists>i s. links_of f q = Some (i, Some r, Some s)"
      using inv by (fastforce simp: nodes_inv_def links_inv_def)
    then show ?thesis using q by (simp add: links_of_Some)
  qed
  define f2 where "f2 = (if lru_enabled f then remove_node_lru q f else f)"
  have f2: "heap f2 = heap f" "id_table f2 = id_table f" "slabs f2 = slabs f" "name_table f2 = name_table f"
    "conf f2 = conf f" "links_of f2 = links_of f" "lru_table f2 = filter (\<lambda>x. x \<noteq> q) (lru_table f)"
    "same_rest f f2" "node_raw_id f2 = node_raw_id f"
    using inv by (auto simp: f2_def remove_node_lru_def nodes_inv_def lru_inv_def same_rest_def
        links_of_def fun_eq_iff node_raw_id_def)
  have ids: "ids_inv f2" using inv inv_cong(2) [of f2 f] f2 by (simp add: nodes_inv_def)
  have fin: "finite (dom (heap f))" using inv by (simp add: nodes_inv_def mem_inv_def)
  obtain f3 where f3: "unhash_id f2 q = Some f3" "f3 = f2\<lparr>allocs := allocs f3, id_table := id_table f3\<rparr>"
    "table_inv (node_raw_id f) (id_table f3)" "contents (id_table f3) = mset_set (dom (heap f) - {q})"
    using unhash_id_step [OF ids, of q n] q f2 fin by auto
  have h3: "heap f3 = heap f" "slabs f3 = slabs f" "name_table f3 = name_table f" "conf f3 = conf f"
    "lru_table f3 = filter (\<lambda>x. x \<noteq> q) (lru_table f)"
    using f2 by (subst f3(2), simp)+
  have r3: "same_rest f f3" using f2(8) by (subst f3(2)) (simp add: same_rest_def)
  have "mem_inv f3" using inv h3 by (simp add: nodes_inv_def mem_inv_def)
  from mem_run_free [OF this, of q] q(1) h3(1) obtain f' where f': "free_node f3 q = Some f'" "mem_inv f'"
    "heap f' = (heap f)(q := None)" "f' = f3\<lparr>slabs := slabs f', heap := (heap f3)(q := None)\<rparr>" by auto
  have h': "name_table f' = name_table f" "conf f' = conf f" "id_table f' = id_table f3"
    "lru_table f' = filter (\<lambda>x. x \<noteq> q) (lru_table f)"
    using h3 by (subst f'(4), simp)+
  have rest: "same_rest f f'" using r3 by (subst f'(4)) (simp add: same_rest_def)
  have nk: "eff_parent f D x \<noteq> Some q" for x using no_kids by (auto simp: kids_def)
  have eff: "eff_parent f' D x = eff_parent f D x" for x
    using q(1) np out by (auto simp: eff_parent_def f'(3))
  have kid: "kids f' D = kids f D" and nam: "named f' D = named f D"
    by (simp_all add: kids_def named_def eff fun_eq_iff)
  have lk: "links_of f' x = (if x = q then None else links_of f x)" for x
    by (simp add: links_of_def f'(3))
  have rid: "node_raw_id f' x = node_raw_id f x" if "x \<noteq> q" for x
    using that by (simp add: node_raw_id_def f'(3))
  have raw: "node_raw_name f' x = node_raw_name f x" if "x \<in> named f D" for x
  proof -
    have "eff_parent f D x \<noteq> None" using that by (simp add: named_def)
    then obtain r where r: "eff_parent f D x = Some r" by auto
    then have "r \<noteq> q" "x \<noteq> q" using nk np q(1) by (auto simp: eff_parent_Some)
    with r show ?thesis by (auto simp: node_raw_name_def f'(3) eff_parent_Some split: option.splits)
  qed
  have cn: "contents (name_table f) = mset_set (named f D)" and tok: "table_ok (node_raw_name f) (name_table f)"
    using inv by (simp_all add: nodes_inv_def chains_inv_def)
  have "chains_inv D f'"
  proof -
    have "table_ok (node_raw_name f') (name_table f)"
      using tok table_ok_cong [of "name_table f" "node_raw_name f'" "node_raw_name f"] raw cn
        named_finite [OF inv] by auto
    then show ?thesis using inv by (simp add: nodes_inv_def chains_inv_def h' nam)
  qed
  moreover have "links_inv D f'"
  proof -
    have "links_inv D f" using inv by (simp add: nodes_inv_def)
    then show ?thesis using nk unfolding links_inv_def eff lk
      by (auto simp: eff_parent_Some q(1) np split: if_splits) (metis+)?
  qed
  moreover have "refs_inv D ext f'"
    using inv by (auto simp: nodes_inv_def refs_inv_def kid f'(3))
  moreover have "ids_inv f'"
  proof -
    have "contents (id_table f') = mset_set (dom (heap f'))" using f3(4) by (simp add: h' f'(3))
    moreover have "table_inv (node_raw_id f') (id_table f')"
      using f3(3) table_inv_cong [of "id_table f3" "node_raw_id f'" "node_raw_id f"] rid f3(4) fin
      by (auto simp: h')
    ultimately show ?thesis using inv unfolding nodes_inv_def ids_inv_def lk by (auto split: if_splits)
  qed
  moreover have "root_inv f'"
  proof -
    obtain r k where "heap f r = Some k" "nodeid k = FUSE_ROOT_ID" "parent k = None" "0 < nlookup k"
      using inv by (auto simp: nodes_inv_def root_inv_def)
    moreover from this have "r \<noteq> q" using q(1) nl by auto
    ultimately show ?thesis unfolding root_inv_def f'(3) by (intro exI [of _ r] exI [of _ k]) simp
  qed
  moreover have "lru_inv f'"
    using inv by (auto simp: nodes_inv_def lru_inv_def f'(3) h' lru_enabled_def)
  moreover have "acyclic (parent_rel f')"
  proof -
    have "parent_rel f' \<subseteq> parent_rel f" by (auto simp: parent_rel_def f'(3) split: if_splits)
    then show ?thesis using inv by (auto simp: nodes_inv_def intro: acyclic_subset)
  qed
  ultimately have "nodes_inv D ext f'" using inv f'(2) by (simp add: nodes_inv_def)
  moreover have "positive Z f' \<and> quiet f'"
    using b by (auto simp: base_def positive_def quiet_def f'(3) split: if_splits)
  ultimately show ?thesis using f3(1) f' rest nl by (simp add: base_def f2_def)
qed

section \<open>The cascade\<close>

definition above_free :: "nat set \<Rightarrow> nat set \<Rightarrow> fuse \<Rightarrow> nat \<Rightarrow> bool" where
  "above_free D Z f p \<longleftrightarrow> (\<forall>x. (p, x) \<in> (parent_rel f)\<^sup>+ \<longrightarrow> x \<notin> D \<and> x \<notin> Z)"

definition unhash_pre where
  "unhash_pre D ext Z f p \<longleftrightarrow> base D ext Z f \<and> p \<notin> D \<and> above_free D Z f p \<and>
     (\<exists>n. heap f p = Some n \<and> (nodeid n \<noteq> FUSE_ROOT_ID \<or> name n = None))"

definition unhash_post where
  "unhash_post D ext Z f p r \<longleftrightarrow> (\<exists>f' n. r = Some f' \<and> base D ext Z f' \<and> heap f p = Some n \<and>
     heap f' p = Some (cleared n) \<and> shrinks {p} f f' \<and>
     (\<forall>x. x \<noteq> p \<longrightarrow> heap f' x \<noteq> heap f x \<longrightarrow> (p, x) \<in> (parent_rel f)\<^sup>+))"

definition delete_pre where
  "delete_pre D ext Z f q \<longleftrightarrow> base D ext (insert q Z) f \<and> q \<notin> D \<and> q \<notin> Z \<and> above_free D Z f q \<and>
     (\<exists>n. heap f q = Some n \<and> refctr n = 0)"

definition delete_post where
  "delete_post D ext Z f q r \<longleftrightarrow> (\<exists>f'. r = Some f' \<and> base D ext Z f' \<and> heap f' q = None \<and>
     shrinks {} f f' \<and> (\<forall>x. heap f' x \<noteq> heap f x \<longrightarrow> (q, x) \<in> (parent_rel f)\<^sup>*))"

definition unref_pre where
  "unref_pre D ext Z f q \<longleftrightarrow> base D ext Z f \<and> q \<notin> D \<and> q \<notin> Z \<and> above_free D Z f q \<and> 0 < ext q \<and>
     heap f q \<noteq> None"

definition unref_post where
  "unref_post D ext Z f q r \<longleftrightarrow> (\<exists>f' n. r = Some f' \<and> base D (ext(q := ext q - 1)) Z f' \<and>
     heap f q = Some n \<and> (if refctr n = 1 then heap f' q = None
        else heap f' q = Some (n\<lparr>refctr := refctr n - 1\<rparr>)) \<and>
     shrinks {} f f' \<and> (\<forall>x. heap f' x \<noteq> heap f x \<longrightarrow> (q, x) \<in> (parent_rel f)\<^sup>*))"

lemma parent_relI: "heap f p = Some n \<Longrightarrow> parent n = Some q \<Longrightarrow> (p, q) \<in> parent_rel f"
  by (simp add: parent_rel_def)

lemma above_free_mono: "above_free D Z f p \<Longrightarrow> D' \<subseteq> D \<Longrightarrow> Z' \<subseteq> Z \<Longrightarrow> above_free D' Z' f p"
  by (auto simp: above_free_def)

lemma root_looked_up:
  assumes "nodes_inv D ext f" and "heap f p = Some n" and "nodeid n = FUSE_ROOT_ID"
  shows "0 < nlookup n \<and> parent n = None"
proof -
  obtain r k where r: "heap f r = Some k" "nodeid k = FUSE_ROOT_ID" "parent k = None" "0 < nlookup k"
    using assms(1) by (auto simp: nodes_inv_def root_inv_def)
  have l: "links_of f r = Some (FUSE_ROOT_ID, parent k, name k)" "links_of f p = Some (FUSE_ROOT_ID, parent n, name n)"
    using r assms(2,3) by (simp_all add: links_of_Some)
  have "ids_inv f" using assms(1) by (simp add: nodes_inv_def)
  then have "r = p" using l unfolding ids_inv_def by blast
  then show ?thesis using r assms(2) by simp
qed

lemma links_inv_root:
  "links_inv D f \<Longrightarrow> links_of f p = Some (i, None, s) \<Longrightarrow> p \<notin> D \<Longrightarrow> s = None \<or> i = FUSE_ROOT_ID"
  unfolding links_inv_def by blast

lemma unhash_cascade:
  assumes IH: "\<And>n nm q m ps. heap f p = Some n \<Longrightarrow> name n = Some nm \<Longrightarrow> parent n = Some q \<Longrightarrow> heap f q = Some m \<Longrightarrow>
      chain (name_table f) (name_hash f (nodeid m) nm) = Some ps \<Longrightarrow> p \<in> set ps \<Longrightarrow>
      (\<And>D ext Z. unref_pre D ext Z (cut_name f (name_hash f (nodeid m) nm) p ps) q \<Longrightarrow>
         unref_post D ext Z (cut_name f (name_hash f (nodeid m) nm) p ps) q
           (unref_node (cut_name f (name_hash f (nodeid m) nm) p ps) q))"
    and pre: "unhash_pre D ext Z f p"
  shows "unhash_post D ext Z f p (unhash_name f p)"
proof -
  obtain n where b: "base D ext Z f" and pD: "p \<notin> D" and ab: "above_free D Z f p"
    and n: "heap f p = Some n" and nr: "nodeid n \<noteq> FUSE_ROOT_ID \<or> name n = None"
    using pre by (auto simp: unhash_pre_def)
  have inv: "nodes_inv D ext f" using b by (simp add: base_def)
  then have li: "links_inv D f" by (simp add: nodes_inv_def)
  have lp: "links_of f p = Some (nodeid n, parent n, name n)" using n by (simp add: links_of_Some)
  show ?thesis
  proof (cases "name n")
    case None
    have "parent n = None"
    proof (cases "parent n")
      case (Some r)
      then have "eff_parent f D p = Some r" using n pD by (simp add: eff_parent_Some)
      then show ?thesis using li lp None by (fastforce simp: links_inv_def)
    qed
    with None have "cleared n = n" by (simp add: cleared_def)
    then show ?thesis using b n None by (auto simp: unhash_post_def unhash_name.simps [of f p])
  next
    case (Some nm)
    obtain q where q: "parent n = Some q"
      using links_inv_root [OF li _ pD] lp Some nr by (cases "parent n") auto
    then have "eff_parent f D p = Some q" using n pD by (simp add: eff_parent_Some)
    then obtain m where m: "heap f q = Some m" using li by (fastforce simp: links_inv_def links_of_Some)
    let ?h = "name_hash f (nodeid m) nm"
    obtain ps where ps: "chain (name_table f) ?h = Some ps" "p \<in> set ps"
      and bc: "base (insert p D) (ext(q := ext q + 1)) Z (cut_name f ?h p ps)"
      using cut_step [OF b n pD Some q m] by blast
    let ?fc = "cut_name f ?h p ps"
    have rel: "parent_rel ?fc = parent_rel f" by (rule links_cong) simp
    have pq: "(p, q) \<in> parent_rel f" by (rule parent_relI [OF n q])
    have acyc: "acyclic (parent_rel f)" using inv by (simp add: nodes_inv_def)
    have up: "(p, x) \<in> (parent_rel f)\<^sup>+" if "(q, x) \<in> (parent_rel f)\<^sup>*" for x
      using pq that by (rule rtrancl_into_trancl2)
    have np: "(q, p) \<notin> (parent_rel f)\<^sup>*" using up acyc by (auto simp: acyclic_def)
    have "unref_pre (insert p D) (ext(q := ext q + 1)) Z ?fc q"
      unfolding unref_pre_def
    proof (intro conjI)
      have "(p, q) \<in> (parent_rel f)\<^sup>+" using pq by blast
      then show "q \<notin> insert p D" "q \<notin> Z" using ab np by (auto simp: above_free_def)
      show "above_free (insert p D) Z ?fc q"
        unfolding above_free_def rel
        using ab up np by (auto simp: above_free_def dest: trancl_into_rtrancl)
      have "0 \<le> ext q" using inv by (simp add: nodes_inv_def)
      then show "0 < (ext(q := ext q + 1)) q" by simp
    qed (use bc m in simp_all)
    from IH [OF n Some q m ps this]
    obtain f1 m1 where f1: "unref_node ?fc q = Some f1" "base (insert p D) ext Z f1" "shrinks {} ?fc f1"
      and ch: "\<And>x. heap f1 x \<noteq> heap f x \<Longrightarrow> (q, x) \<in> (parent_rel f)\<^sup>*"
      by (auto simp: unref_post_def rel)
    have hp1: "heap f1 p = Some n" using ch [of p] np n by auto
    from end_step [OF f1(2) pD hp1] obtain f2 where f2: "end_unhash f1 p = Some f2" "base D ext Z f2"
      "heap f2 = (heap f1)(p \<mapsto> cleared n)" "same_rest f1 f2" by blast
    have run: "unhash_name f p = Some f2"
      using n Some q m ps f1(1) f2(1) by (simp add: unhash_name.simps [of f p])
    have "shrinks {p} f f2"
    proof -
      have s: "shrinks {} f f1" using f1(3) by (simp add: shrinks_def same_rest_def looked_up_stays_def)
      have "shrinks {p} f1 f2"
        using f2(3,4) hp1 by (auto simp: shrinks_def looked_up_stays_def)
      from shrinks_trans [OF s this] show ?thesis by simp
    qed
    moreover have "(p, x) \<in> (parent_rel f)\<^sup>+" if "x \<noteq> p" "heap f2 x \<noteq> heap f x" for x
      using that ch [of x] up f2(3) by auto
    ultimately show ?thesis using run f2 n by (auto simp: unhash_post_def)
  qed
qed

lemma delete_cascade:
  assumes IH: "\<And>n. heap f q = Some n \<Longrightarrow> \<not> treelock n \<noteq> 0 \<Longrightarrow>
      (\<And>D ext Z. unhash_pre D ext Z f q \<Longrightarrow> unhash_post D ext Z f q (unhash_name f q))"
    and pre: "delete_pre D ext Z f q"
  shows "delete_post D ext Z f q (delete_node f q)"
proof -
  obtain n where b: "base D ext (insert q Z) f" and q: "q \<notin> D" "q \<notin> Z" and ab: "above_free D Z f q"
    and n: "heap f q = Some n" "refctr n = 0"
    using pre by (auto simp: delete_pre_def)
  have inv: "nodes_inv D ext f" using b by (simp add: base_def)
  have "refctr n = (if nlookup n = 0 then 0 else 1) + int (card (kids f D q)) + ext q" "0 \<le> ext q"
    using inv n(1) by (simp_all add: nodes_inv_def refs_inv_def)
  then have nl: "nlookup n = 0" using n(2) by (simp split: if_splits)
  then have tl: "treelock n = 0" using b n(1) by (simp add: base_def quiet_def)
  have acyc: "acyclic (parent_rel f)" using inv by (simp add: nodes_inv_def)
  have "above_free D (insert q Z) f q" using ab acyc by (auto simp: above_free_def acyclic_def)
  moreover have "nodeid n \<noteq> FUSE_ROOT_ID" using root_looked_up [OF inv n(1)] nl by auto
  ultimately have "unhash_pre D ext (insert q Z) f q" using b q n by (simp add: unhash_pre_def)
  from IH [OF n(1) _ this] tl obtain f1 where f1: "unhash_name f q = Some f1" "base D ext (insert q Z) f1"
    "heap f1 q = Some (cleared n)" "shrinks {q} f f1"
    and ch: "\<And>x. x \<noteq> q \<Longrightarrow> heap f1 x \<noteq> heap f x \<Longrightarrow> (q, x) \<in> (parent_rel f)\<^sup>+"
    using n(1) by (auto simp: unhash_post_def)
  from delete_end [OF f1(2,3) _ _ q] n(2) obtain f2 where f2:
    "do { let f2 = (if lru_enabled f1 then remove_node_lru q f1 else f1); f3 \<leftarrow> unhash_id f2 q; free_node f3 q } = Some f2"
    "base D ext Z f2" "heap f2 = (heap f1)(q := None)" "same_rest f1 f2" by auto
  have run: "delete_node f q = Some f2"
    using n(1) tl f1(1) f2(1) by (simp add: delete_node.simps [of f q])
  have "only_refs (heap f x) (heap f2 x)" for x
    using f1(4) f2(3) by (simp add: shrinks_def)
  moreover have "looked_up_stays f f2"
    using f1(4) f2(3) n(1) nl by (auto simp: shrinks_def looked_up_stays_def) (metis less_numeral_extra(3) option.inject)?
  moreover have "same_rest f f2" using f1(4) f2(4) by (auto simp: shrinks_def same_rest_def)
  ultimately have "shrinks {} f f2" by (simp add: shrinks_def)
  moreover have "(q, x) \<in> (parent_rel f)\<^sup>*" if "heap f2 x \<noteq> heap f x" for x
    using that ch [of x] f2(3) by (cases "x = q") (auto dest: trancl_into_rtrancl)
  ultimately show ?thesis using run f2 by (auto simp: delete_post_def)
qed

lemma unref_cascade:
  assumes IH: "\<And>n. heap f q = Some n \<Longrightarrow> \<not> refctr n \<le> 0 \<Longrightarrow> refctr n = 1 \<Longrightarrow>
      (\<And>D ext Z. delete_pre D ext Z (upd_node q (\<lambda>n. n\<lparr>refctr := refctr n - 1\<rparr>) f) q \<Longrightarrow>
        delete_post D ext Z (upd_node q (\<lambda>n. n\<lparr>refctr := refctr n - 1\<rparr>) f) q
          (delete_node (upd_node q (\<lambda>n. n\<lparr>refctr := refctr n - 1\<rparr>) f) q))"
    and pre: "unref_pre D ext Z f q"
  shows "unref_post D ext Z f q (unref_node f q)"
proof -
  obtain n where b: "base D ext Z f" and q: "q \<notin> D" "q \<notin> Z" and ab: "above_free D Z f q"
    and e: "0 < ext q" and n: "heap f q = Some n"
    using pre by (auto simp: unref_pre_def)
  let ?f = "upd_node q (\<lambda>n. n\<lparr>refctr := refctr n - 1\<rparr>) f"
  note d = dec_step [OF b n e]
  have rel: "parent_rel ?f = parent_rel f" by (rule links_cong) (rule d(3))
  have sh: "shrinks {} f ?f"
    using n by (auto simp: shrinks_def looked_up_stays_def same_rest_def)
  have run: "unref_node f q = (if refctr n = 1 then delete_node ?f q else Some ?f)"
    using n d(1) by (simp add: unref_node.simps [of f q])
  show ?thesis
  proof (cases "refctr n = 1")
    case False
    then show ?thesis using run d(2) n sh by (auto simp: unref_post_def)
  next
    case True
    have "delete_pre D (ext(q := ext q - 1)) Z ?f q"
      using d(2) True q ab n by (auto simp: delete_pre_def above_free_def rel)
    from IH [OF n _ True this] d(1) obtain f' where f': "delete_node ?f q = Some f'"
      "base D (ext(q := ext q - 1)) Z f'" "heap f' q = None" "shrinks {} ?f f'"
      and ch: "\<And>x. heap f' x \<noteq> heap ?f x \<Longrightarrow> (q, x) \<in> (parent_rel f)\<^sup>*"
      by (auto simp: delete_post_def rel)
    have "(q, x) \<in> (parent_rel f)\<^sup>*" if "heap f' x \<noteq> heap f x" for x
      using that ch [of x] by (cases "x = q") auto
    moreover have "shrinks {} f f'" using shrinks_trans [OF sh f'(4)] by simp
    ultimately show ?thesis using run True f' n by (auto simp: unref_post_def)
  qed
qed

lemma cascade:
  "unhash_pre D1 ext1 Z1 f p \<Longrightarrow> unhash_post D1 ext1 Z1 f p (unhash_name f p)"
  "delete_pre D2 ext2 Z2 g q \<Longrightarrow> delete_post D2 ext2 Z2 g q (delete_node g q)"
  "unref_pre D3 ext3 Z3 h r \<Longrightarrow> unref_post D3 ext3 Z3 h r (unref_node h r)"
proof (induction f p and g q and h r arbitrary: D1 ext1 Z1 and D2 ext2 Z2 and D3 ext3 Z3
    rule: unhash_name_delete_node_unref_node.induct)
  case (1 f p)
  then show ?case by (intro unhash_cascade) blast+
next
  case (2 f p)
  then show ?case by (intro delete_cascade) blast+
next
  case (3 f p)
  then show ?case by (intro unref_cascade) blast+
qed

end
