(* ===== verification/NodeSpec.thy ===== *)
theory NodeSpec
  imports NodeInv
begin

text \<open>
  What the operations on the node tree do.  A name is looked up in one chain and an id in another;
  the two instances of the chain interface of \<open>NodeTable\<close> turn these searches into statements about
  the whole heap.  From there every operation is described by its effect on nodes and names.
\<close>

section \<open>Lookups\<close>

definition is_id :: "fuse \<Rightarrow> u64 \<Rightarrow> nat \<Rightarrow> bool" where
  "is_id f i p \<longleftrightarrow> has_id f i p = Some True"

definition is_entry :: "fuse \<Rightarrow> u64 \<times> string \<Rightarrow> nat \<Rightarrow> bool" where
  "is_entry f k p \<longleftrightarrow> has_name f (fst k) (snd k) p = Some True"

lemma is_id_iff: "is_id f i p \<longleftrightarrow> (\<exists>n. heap f p = Some n \<and> nodeid n = i)"
  by (cases "heap f p") (auto simp: is_id_def has_id_def)

lemma is_entry_iff:
  "is_entry f (i, nm) p \<longleftrightarrow> (\<exists>n q m. heap f p = Some n \<and> parent n = Some q \<and> heap f q = Some m \<and>
     nodeid m = i \<and> name n = Some nm)"
  by (cases "heap f p") (auto simp: is_entry_def has_name_def split: Option.bind_splits if_splits)

text \<open>The chain interface on the two tables.\<close>

interpretation ids: keyed_chains raw_id "node_raw_id f" "is_id f" for f
  by unfold_locales (auto simp: is_id_iff node_raw_id_def)

interpretation names: keyed_chains "\<lambda>(i, nm). raw_name i nm" "node_raw_name f" "is_entry f" for f
  by unfold_locales (auto simp: is_entry_iff node_raw_name_def)

text \<open>The invariant without the table of ids, for a node that is not entered there yet.\<close>

definition tree_inv :: "nat set \<Rightarrow> (nat \<Rightarrow> int) \<Rightarrow> fuse \<Rightarrow> bool" where
  "tree_inv D ext f \<longleftrightarrow> mem_inv f \<and> chains_inv D f \<and> links_inv D f \<and> refs_inv D ext f
     \<and> root_inv f \<and> lru_inv f \<and> acyclic (parent_rel f) \<and> (\<forall>p. 0 \<le> ext p)"

lemma nodes_inv_split: "nodes_inv D ext f \<longleftrightarrow> tree_inv D ext f \<and> ids_inv f"
  by (auto simp: nodes_inv_def tree_inv_def)

lemma chain_total: "table_ok raw t \<Longrightarrow> chain t (bucket t x) = Some (array t (bucket t x))"
  by (simp add: chain_def table_ok_def bucket_less)

lemma in_chain_contents: "table_ok raw t \<Longrightarrow> p \<in> set (array t (bucket t x)) \<Longrightarrow> p \<in># contents t"
  by (auto simp: contents_iff table_ok_def intro: bucket_less)

lemma get_node_nocheck_find:
  assumes "table_inv raw (id_table f)" and "\<And>p. p \<in># contents (id_table f) \<Longrightarrow> heap f p \<noteq> None"
  shows "get_node_nocheck f i = Some (find (is_id f i) (array (id_table f) (id_hash f i)))"
proof -
  have ok: "table_ok raw (id_table f)" using assms(1) by (simp add: table_inv_def)
  have "find_m (has_id f i) (array (id_table f) (id_hash f i))
      = Some (find (is_id f i) (array (id_table f) (id_hash f i)))"
  proof (rule find_m_total)
    fix p assume "p \<in> set (array (id_table f) (id_hash f i))"
    then obtain n where "heap f p = Some n"
      using assms(2) in_chain_contents [OF ok] by (fastforce simp: id_hash_def)
    then show "has_id f i p = Some (is_id f i p)" by (simp add: is_id_def has_id_def)
  qed
  then show ?thesis using chain_total [OF ok] by (simp add: get_node_nocheck_def id_hash_def)
qed

lemma ids_uniq:
  assumes "ids_inv f" "heap f p = Some n" "heap f q = Some m" "nodeid n = nodeid m"
  shows "p = q"
proof -
  have "links_of f p = Some (nodeid n, parent n, name n)" "links_of f q = Some (nodeid n, parent m, name m)"
    using assms by (simp_all add: links_of_Some)
  then show ?thesis using assms(1) unfolding ids_inv_def by blast
qed

lemma names_uniq:
  assumes "links_inv D f" "heap f p = Some n" "heap f p' = Some n'" "p \<notin> D" "p' \<notin> D"
    "parent n = Some q" "parent n' = Some q" "name n = name n'"
  shows "p = p'"
proof -
  have "eff_parent f D p = Some q" "eff_parent f D p' = Some q" using assms by (simp_all add: eff_parent_Some)
  moreover have "links_of f p = Some (nodeid n, parent n, name n)" "links_of f p' = Some (nodeid n', parent n', name n)"
    using assms by (simp_all add: links_of_Some)
  ultimately show ?thesis using assms(1) unfolding links_inv_def by blast
qed

lemma get_node_nocheck_iff:
  assumes "ids_inv f" and "finite (dom (heap f))"
  shows "get_node_nocheck f i = Some r \<longleftrightarrow>
    (case r of Some p \<Rightarrow> is_id f i p | None \<Rightarrow> \<forall>p. \<not> is_id f i p)"
proof -
  have inv: "table_inv (node_raw_id f) (id_table f)" and c: "contents (id_table f) = mset_set (dom (heap f))"
    using assms(1) by (simp_all add: ids_inv_def)
  have mem: "p \<in># contents (id_table f) \<longleftrightarrow> p \<in> dom (heap f)" for p using c assms(2) by simp
  have uniq: "p = q" if "is_id f i p" "is_id f i q" for p q
    using that ids_uniq [OF assms(1)] by (auto simp: is_id_iff)
  have dom: "is_id f i p \<Longrightarrow> p \<in># contents (id_table f)" for p using mem by (auto simp: is_id_iff)
  let ?s = "find (is_id f i) (array (id_table f) (id_hash f i))"
  have eq: "get_node_nocheck f i = Some ?s" by (rule get_node_nocheck_find [OF inv]) (use mem in auto)
  show ?thesis
  proof (cases r)
    case None
    then show ?thesis using eq ids.find_None [OF inv, of i] dom by (auto simp: id_hash_def)
  next
    case (Some p)
    then show ?thesis using eq ids.find_unique [OF inv, of i p] uniq dom by (auto simp: id_hash_def)
  qed
qed

lemma get_node_iff:
  assumes "ids_inv f" and "finite (dom (heap f))"
  shows "get_node f i = Some p \<longleftrightarrow> is_id f i p"
proof -
  obtain r where r: "get_node_nocheck f i = Some r"
  proof (cases "\<exists>q. is_id f i q")
    case True
    then obtain q where "is_id f i q" by blast
    then have "get_node_nocheck f i = Some (Some q)" using get_node_nocheck_iff [OF assms, of i "Some q"] by simp
    then show ?thesis by (rule that)
  next
    case False
    then have "get_node_nocheck f i = Some None" using get_node_nocheck_iff [OF assms, of i None] by simp
    then show ?thesis by (rule that)
  qed
  then show ?thesis using get_node_nocheck_iff [OF assms, of i r] get_node_nocheck_iff [OF assms, of i "Some p"]
    by (cases r) (auto simp: get_node_def)
qed

lemma named_iff: "p \<in> named f {} \<longleftrightarrow> (\<exists>n q. heap f p = Some n \<and> parent n = Some q)"
  by (auto simp: named_def eff_parent_Some)

lemma lookup_node_iff:
  assumes "nodes_inv {} ext f"
  shows "lookup_node f i nm = Some r \<longleftrightarrow>
    (case r of Some p \<Rightarrow> is_entry f (i, nm) p | None \<Rightarrow> \<forall>p. \<not> is_entry f (i, nm) p)"
proof -
  have ok: "table_ok (node_raw_name f) (name_table f)" and c: "contents (name_table f) = mset_set (named f {})"
    and use: "use_count (name_table f) = size (contents (name_table f))"
    and li: "links_inv {} f" and ids: "ids_inv f"
    using assms by (auto simp: nodes_inv_def chains_inv_def)
  have inv: "table_inv (node_raw_name f) (name_table f)" using ok use by (simp add: table_inv_def)
  have mem: "p \<in># contents (name_table f) \<longleftrightarrow> p \<in> named f {}" for p using c named_finite [OF assms] by simp
  have dom: "is_entry f (i, nm) p \<Longrightarrow> p \<in># contents (name_table f)" for p
    unfolding mem named_iff by (auto simp: is_entry_iff)
  have uniq: "p = p'" if e: "is_entry f (i, nm) p" "is_entry f (i, nm) p'" for p p'
  proof -
    obtain n q m n' q' m' where a: "heap f p = Some n" "parent n = Some q" "heap f q = Some m" "nodeid m = i"
      "name n = Some nm" "heap f p' = Some n'" "parent n' = Some q'" "heap f q' = Some m'" "nodeid m' = i"
      "name n' = Some nm" using e by (auto simp: is_entry_iff)
    have "q = q'" by (rule ids_uniq [OF ids a(3,8)]) (simp add: a)
    then show ?thesis using names_uniq [OF li a(1,6)] a by simp
  qed
  let ?ps = "array (name_table f) (name_hash f i nm)"
  have "find_m (has_name f i nm) ?ps = Some (find (is_entry f (i, nm)) ?ps)"
  proof (rule find_m_total)
    fix p assume "p \<in> set ?ps"
    then have "p \<in> named f {}" using in_chain_contents [OF ok] mem by (simp add: name_hash_def)
    then obtain n q where n: "heap f p = Some n" "parent n = Some q" by (auto simp: named_iff)
    then have "eff_parent f {} p = Some q" by (simp add: eff_parent_Some)
    then obtain k s l where "links_of f p = Some (k, Some q, Some s)" "links_of f q = Some l"
      using li unfolding links_inv_def by blast
    then show "has_name f i nm p = Some (is_entry f (i, nm) p)"
      using n by (auto simp: is_entry_def has_name_def links_of_def)
  qed
  then have eq: "lookup_node f i nm = Some (find (is_entry f (i, nm)) ?ps)"
    using chain_total [OF ok] by (simp add: lookup_node_def name_hash_def)
  show ?thesis
  proof (cases r)
    case None
    then show ?thesis using eq names.find_None [OF inv, of "(i, nm)"] dom by (auto simp: name_hash_def)
  next
    case (Some p)
    then show ?thesis using eq names.find_unique [OF inv, of "(i, nm)" p] uniq dom by (auto simp: name_hash_def)
  qed
qed

lemma lookup_node_total:
  assumes "nodes_inv {} ext f"
  obtains (found) p where "lookup_node f i nm = Some (Some p)" "is_entry f (i, nm) p"
  | (missing) "lookup_node f i nm = Some None" "\<And>p. \<not> is_entry f (i, nm) p"
proof (cases "\<exists>p. is_entry f (i, nm) p")
  case True
  then obtain p where "is_entry f (i, nm) p" by blast
  then show ?thesis using lookup_node_iff [OF assms, of i nm "Some p"] by (intro found [of p]) simp_all
next
  case False
  then show ?thesis using lookup_node_iff [OF assms, of i nm None] by (intro missing) simp_all
qed

section \<open>Giving a node a name\<close>

text \<open>What naming a node leaves alone.\<close>

definition same_frame :: "fuse \<Rightarrow> fuse \<Rightarrow> bool" where
  "same_frame f f' \<longleftrightarrow> id_table f' = id_table f \<and> slabs f' = slabs f \<and> lru_table f' = lru_table f \<and>
     conf f' = conf f \<and> ctr f' = ctr f \<and> generation f' = generation f \<and> hidectr f' = hidectr f \<and>
     lockq f' = lockq f \<and> now f' = now f"

lemma tree_named_finite: "tree_inv D ext f \<Longrightarrow> finite (named f D)"
  using named_sub [of f D] by (auto simp: tree_inv_def mem_inv_def intro: finite_subset)

lemma link_step:
  assumes inv: "tree_inv {} ext f" and q: "heap f q = Some m" "nodeid m = pid"
    and p: "heap f p = Some n" "parent n = None" "nodeid n \<noteq> FUSE_ROOT_ID"
    and free: "\<And>x k. heap f x = Some k \<Longrightarrow> parent k = Some q \<Longrightarrow> name k \<noteq> Some nm"
    and acyc: "(q, p) \<notin> (parent_rel f)\<^sup>*"
    and f2: "heap f2 = (heap f)(q \<mapsto> m\<lparr>refctr := refctr m + 1\<rparr>, p \<mapsto> n\<lparr>name := Some nm, parent := Some q\<rparr>)"
      "name_table f2 = name_table f" "same_frame f f2"
  shows "\<exists>al t. table_add (node_raw_name f2) (allocs f2) (name_hash f pid nm) p (name_table f2) = Some (al, t) \<and>
    tree_inv {} ext (f2\<lparr>allocs := al, name_table := t\<rparr>)"
proof -
  have qp: "q \<noteq> p" using acyc by auto
  have ch: "chains_inv {} f" and li: "links_inv {} f" and re: "refs_inv {} ext f" and me: "mem_inv f"
    and ro: "root_inv f" and lr: "lru_inv f" and ac: "acyclic (parent_rel f)"
    using inv by (simp_all add: tree_inv_def)
  let ?t = "name_table f"
  have c: "contents ?t = mset_set (named f {})" and ti: "table_inv (node_raw_name f) ?t"
    using ch by (simp_all add: chains_inv_def table_inv_def)
  have fin: "finite (named f {})" by (rule tree_named_finite [OF inv])
  have eff: "eff_parent f2 {} x = (if x = p then Some q else eff_parent f {} x)" for x
    using q(1) qp by (auto simp: eff_parent_def f2(1))
  have lk: "links_of f2 x = (if x = p then Some (nodeid n, Some q, Some nm) else links_of f x)" for x
    using q(1) by (auto simp: links_of_def f2(1))
  have notp: "p \<notin> named f {}" using p by (simp add: named_iff)
  have nam: "named f2 {} = insert p (named f {})" by (auto simp: named_def eff)
  have kid: "kids f2 {} x = (if x = q then insert p (kids f {} q) else kids f {} x)" for x
    using notp by (auto simp: kids_def eff named_def)
  have raw: "node_raw_name f2 x = node_raw_name f x" if "x \<noteq> p" for x
    using that q(1) p(1) qp by (auto simp: node_raw_name_def f2(1) split: option.splits)
  have rawp: "node_raw_name f2 p = raw_name pid nm" using q qp by (simp add: node_raw_name_def f2(1))
  have "table_inv (node_raw_name f2) ?t = table_inv (node_raw_name f) ?t"
  proof (rule table_inv_cong)
    fix x assume "x \<in># contents ?t"
    then have "x \<noteq> p" using c fin notp by auto
    then show "node_raw_name f2 x = node_raw_name f x" by (rule raw)
  qed
  with ti have "table_inv (node_raw_name f2) ?t" by simp
  moreover have "name_hash f pid nm = bucket ?t (node_raw_name f2 p)" by (simp add: name_hash_def rawp)
  ultimately obtain al t where t: "table_add (node_raw_name f2) (allocs f2) (name_hash f pid nm) p ?t = Some (al, t)"
    "table_inv (node_raw_name f2) t" "contents t = add_mset p (contents ?t)"
    using table_add_inv [of "node_raw_name f2" ?t "name_hash f pid nm" p "allocs f2"] by metis
  let ?f = "f2\<lparr>allocs := al, name_table := t\<rparr>"
  have l: "links_of ?f = links_of f2" by (simp add: links_of_def fun_eq_iff)
  have dom: "dom (heap f2) = dom (heap f)" using q(1) p(1) by (auto simp: f2(1))
  have "chains_inv {} ?f"
  proof -
    have "contents t = mset_set (named f2 {})" using t(3) c notp fin by (simp add: nam)
    moreover have "named ?f {} = named f2 {}" "node_raw_name ?f = node_raw_name f2"
      using links_cong(3,6) [OF l] by simp_all
    ultimately show ?thesis using t(2) by (simp add: chains_inv_def table_inv_def)
  qed
  moreover have "links_inv {} f2"
    unfolding links_inv_def eff
  proof (intro conjI allI impI)
    fix x r assume "(if x = p then Some q else eff_parent f {} x) = Some r"
    then show "\<exists>i s l. links_of f2 x = Some (i, Some r, Some s) \<and> links_of f2 r = Some l"
    proof (cases "x = p")
      case True
      then have "r = q" using \<open>(if x = p then Some q else eff_parent f {} x) = Some r\<close> by simp
      moreover obtain l where "links_of f q = Some l" using q(1) by (simp add: links_of_def)
      ultimately show ?thesis using True qp by (cases l) (simp add: lk)
    next
      case False
      then have "eff_parent f {} x = Some r" using \<open>(if x = p then Some q else eff_parent f {} x) = Some r\<close> by simp
      then obtain i s l where "links_of f x = Some (i, Some r, Some s)" "links_of f r = Some l"
        using li unfolding links_inv_def by blast
      then show ?thesis using False by (cases l) (simp add: lk)
    qed
  next
    fix x y r i i' a b s
    assume e: "(if x = p then Some q else eff_parent f {} x) = Some r"
      "(if y = p then Some q else eff_parent f {} y) = Some r"
      and s: "links_of f2 x = Some (i, a, s)" "links_of f2 y = Some (i', b, s)"
    have other: False if "z \<noteq> p" "eff_parent f {} z = Some q" "links_of f z = Some (j, c, Some nm)" for z j c
      using that free by (auto simp: eff_parent_Some links_of_Some)
    show "x = y"
    proof (cases "x = p \<or> y = p")
      case True
      then show ?thesis using e s other [of x] other [of y] by (auto simp: lk split: if_splits)
    next
      case False
      then show ?thesis using e s li unfolding links_inv_def lk by (simp split: if_splits)
    qed
  next
    fix x i s assume "links_of f2 x = Some (i, None, s)" "x \<notin> {}"
    then show "s = None \<or> i = FUSE_ROOT_ID"
      using links_inv_root [OF li, of x i s] by (simp add: lk split: if_splits)
  qed
  then have "links_inv {} ?f" using inv_cong(1) [OF l] by simp
  moreover have "refs_inv {} ext ?f"
    unfolding refs_inv_def
  proof (intro allI impI)
    fix x k assume k: "heap ?f x = Some k"
    have kf: "finite (kids f {} q)" "p \<notin> kids f {} q"
      using fin kids_sub [of f "{}" q] notp by (auto intro: finite_subset)
    have kk: "kids ?f {} x = kids f2 {} x" using links_cong(2) [OF l] by simp
    obtain k' where k': "heap f x = Some k'" using k q(1) p(1) by (auto simp: f2(1) split: if_splits)
    have "refctr k' = (if nlookup k' = 0 then 0 else 1) + int (card (kids f {} x)) + ext x"
      using re k' by (simp add: refs_inv_def)
    then show "refctr k = (if nlookup k = 0 then 0 else 1) + int (card (kids ?f {} x)) + ext x"
      using k k' q(1) p(1) qp kf by (auto simp: f2(1) kk kid split: if_splits)
  qed
  moreover have "root_inv ?f"
    by (rule root_inv_mono [OF ro]) (use p q qp in \<open>auto simp: f2(1)\<close>)
  moreover have "mem_inv ?f" "lru_inv ?f"
    using me lr dom f2(3) by (simp_all add: mem_inv_def lru_inv_def same_frame_def lru_enabled_def)
  moreover have "acyclic (parent_rel ?f)"
  proof -
    have "Option.bind (heap f2 x) parent = (if x = p then Some q else Option.bind (heap f x) parent)" for x
      using q(1) by (auto simp: f2(1))
    then have "parent_rel f2 = insert (p, q) (parent_rel f)"
      using p(1,2) by (auto simp: parent_rel_def split: if_splits)
    then show ?thesis using ac acyc links_cong(4) [OF l] by (simp add: acyclic_insert)
  qed
  ultimately have "tree_inv {} ext ?f" using inv by (simp add: tree_inv_def)
  then show ?thesis using t(1) f2(2) by auto
qed

lemma raw_heap_cong: "heap f' = heap f \<Longrightarrow> node_raw_name f' = node_raw_name f"
  by (rule links_cong) (simp add: links_of_def fun_eq_iff)

lemma hash_name_step:
  assumes inv: "tree_inv {} ext f" and g: "get_node f pid = Some q"
    and q: "heap f q = Some m" "nodeid m = pid"
    and p: "heap f p = Some n" "parent n = None" "name n = None" "nodeid n \<noteq> FUSE_ROOT_ID"
    and free: "\<forall>x k. heap f x = Some k \<longrightarrow> parent k = Some q \<longrightarrow> name k \<noteq> Some nm"
    and acyc: "(q, p) \<notin> (parent_rel f)\<^sup>*"
  obtains (no_memory) f' where "hash_name f p pid nm = Some (-1, f')" "heap f' = heap f"
      "name_table f' = name_table f" "same_frame f f'" "tree_inv {} ext f'" "INLINE_NAME_SIZE \<le> length nm"
  | (linked) f' where "hash_name f p pid nm = Some (0, f')"
      "heap f' = (heap f)(q \<mapsto> m\<lparr>refctr := refctr m + 1\<rparr>, p \<mapsto> n\<lparr>name := Some nm, parent := Some q\<rparr>)"
      "same_frame f f'" "tree_inv {} ext f'"
proof -
  have qp: "q \<noteq> p" using acyc by auto
  obtain ok al where al: "(if length nm < INLINE_NAME_SIZE then (True, allocs f) else alloc_next (allocs f)) = (ok, al)"
    by fastforce
  show thesis
  proof (cases ok)
    case False
    let ?f = "(upd_node p (\<lambda>n. n\<lparr>name := None\<rparr>) f)\<lparr>allocs := al\<rparr>"
    have same: "n\<lparr>name := None\<rparr> = n" using p(3) by simp
    have h: "heap ?f = heap f" using p(1) same by (auto simp: fun_upd_idem)
    have l: "links_of ?f = links_of f" using h by (simp add: links_of_def fun_eq_iff)
    have "tree_inv {} ext ?f"
      using inv h inv_cong [OF l] links_cong(4) [OF l] links_cong(2) [OF l]
      by (simp add: tree_inv_def root_inv_def refs_inv_def)
    moreover have "hash_name f p pid nm = Some (-1, ?f)"
      using g p(1) al False by (simp add: hash_name_def Let_def)
    moreover have "INLINE_NAME_SIZE \<le> length nm" using al False by (auto split: if_splits)
    ultimately show thesis using no_memory [of ?f] h by (simp add: same_frame_def)
  next
    case True
    let ?f1 = "upd_node q (\<lambda>m. m\<lparr>refctr := refctr m + 1\<rparr>) f"
    let ?f2 = "upd_node p (\<lambda>n. n\<lparr>name := Some nm, parent := Some q\<rparr>) ?f1"
    have h2: "heap ?f2 = (heap f)(q \<mapsto> m\<lparr>refctr := refctr m + 1\<rparr>, p \<mapsto> n\<lparr>name := Some nm, parent := Some q\<rparr>)"
      using q(1) p(1) qp by simp
    let ?f3 = "?f2\<lparr>allocs := al\<rparr>"
    have raw3: "node_raw_name ?f3 = node_raw_name ?f2" by (rule raw_heap_cong) simp
    have h3: "heap ?f3 = (heap f)(q \<mapsto> m\<lparr>refctr := refctr m + 1\<rparr>, p \<mapsto> n\<lparr>name := Some nm, parent := Some q\<rparr>)"
      using h2 by simp
    have "\<exists>al' t. table_add (node_raw_name ?f3) (allocs ?f3) (name_hash f pid nm) p (name_table ?f3) = Some (al', t) \<and>
        tree_inv {} ext (?f3\<lparr>allocs := al', name_table := t\<rparr>)"
      by (rule link_step [OF inv q p(1,2,4) _ acyc h3]) (use free in \<open>auto simp: same_frame_def\<close>)
    then obtain al' t where t: "table_add (node_raw_name ?f2) al (name_hash f pid nm) p (name_table f) = Some (al', t)"
      "tree_inv {} ext (?f2\<lparr>allocs := al', name_table := t\<rparr>)"
      unfolding raw3 by auto
    have "hash_name f p pid nm = Some (0, ?f2\<lparr>allocs := al', name_table := t\<rparr>)"
      using g p(1) al True t(1) by (simp add: hash_name_def Let_def)
    then show thesis using linked [of "?f2\<lparr>allocs := al', name_table := t\<rparr>"] t(2) h2
      by (simp add: same_frame_def)
  qed
qed

section \<open>Taking a name away\<close>

text \<open>\<open>unhash_name\<close> between operations: the node keeps its references and loses its name.\<close>

lemma unhash_name_step:
  assumes b: "base {} ext {} f" and p: "heap f p = Some n" "nodeid n \<noteq> FUSE_ROOT_ID \<or> name n = None"
  obtains f' where "unhash_name f p = Some f'" "base {} ext {} f'" "heap f' p = Some (cleared n)"
    "shrinks {p} f f'" "\<And>x. x \<noteq> p \<Longrightarrow> heap f' x \<noteq> heap f x \<Longrightarrow> (p, x) \<in> (parent_rel f)\<^sup>+"
proof -
  have "unhash_pre {} ext {} f p" using b p by (auto simp: unhash_pre_def above_free_def)
  from cascade(1) [OF this] p(1) show thesis by (auto simp: unhash_post_def intro: that)
qed

lemma unref_node_step:
  assumes b: "base {} ext {} f" and q: "heap f q = Some n" "0 < ext q"
  obtains f' where "unref_node f q = Some f'" "base {} (ext(q := ext q - 1)) {} f'"
    "if refctr n = 1 then heap f' q = None else heap f' q = Some (n\<lparr>refctr := refctr n - 1\<rparr>)"
    "shrinks {} f f'"
proof -
  have "unref_pre {} ext {} f q" using b q by (auto simp: unref_pre_def above_free_def)
  from cascade(3) [OF this] q(1) show thesis by (auto simp: unref_post_def intro: that)
qed

section \<open>Two views of the heap\<close>

text \<open>
  \<open>links_of\<close> is who is called what in which directory, \<open>body\<close> is everything else but the reference
  count, which the invariant determines.  The name cache is the map that the links define.
\<close>

definition body :: "fuse \<Rightarrow> nat \<Rightarrow> node option" where
  "body f p = map_option (\<lambda>n. n\<lparr>refctr := 0, name := None, parent := None\<rparr>) (heap f p)"

definition dcache :: "fuse \<Rightarrow> u64 \<times> string \<Rightarrow> u64 option" where
  "dcache f k = (case lookup_node f (fst k) (snd k) of
     Some (Some p) \<Rightarrow> map_option nodeid (heap f p) | _ \<Rightarrow> None)"

type_synonym links = "nat \<Rightarrow> (u64 \<times> nat option \<times> string option) option"

definition link_id :: "links \<Rightarrow> nat \<Rightarrow> u64 option" where
  "link_id L x = map_option fst (L x)"

definition link_entry :: "links \<Rightarrow> u64 \<times> string \<Rightarrow> nat \<Rightarrow> bool" where
  "link_entry L k x = (case L x of
     Some (j, Some q, Some s) \<Rightarrow> s = snd k \<and> link_id L q = Some (fst k) | _ \<Rightarrow> False)"

lemma is_entry_links: "is_entry f k x = link_entry (links_of f) k x"
  by (cases k) (auto simp: is_entry_iff link_entry_def link_id_def links_of_def split: option.splits)

lemma body_Some: "body f x = Some b \<longleftrightarrow> (\<exists>n. heap f x = Some n \<and> b = n\<lparr>refctr := 0, name := None, parent := None\<rparr>)"
  by (auto simp: body_def)

lemma body_nlookup: "body f' = body f \<Longrightarrow> heap f x = Some n \<Longrightarrow> \<exists>n'. heap f' x = Some n' \<and> nlookup n' = nlookup n
    \<and> nodeid n' = nodeid n \<and> treelock n' = treelock n \<and> is_hidden n' = is_hidden n"
proof -
  assume a: "body f' = body f" "heap f x = Some n"
  then have "body f' x = Some (n\<lparr>refctr := 0, name := None, parent := None\<rparr>)" by (simp add: body_def)
  then obtain n' where n': "heap f' x = Some n'" "n\<lparr>refctr := 0, name := None, parent := None\<rparr>
      = n'\<lparr>refctr := 0, name := None, parent := None\<rparr>" by (auto simp: body_Some)
  from arg_cong [OF n'(2), of nlookup] arg_cong [OF n'(2), of nodeid] arg_cong [OF n'(2), of treelock]
    arg_cong [OF n'(2), of is_hidden] n'(1) show ?thesis by auto
qed

lemma dcache_iff:
  assumes "nodes_inv {} ext f"
  shows "dcache f k = Some i \<longleftrightarrow> (\<exists>x. link_entry (links_of f) k x \<and> link_id (links_of f) x = Some i)"
proof (cases rule: lookup_node_total [OF assms, of "fst k" "snd k"])
  case (1 p)
  have u: "x = p" if "link_entry (links_of f) k x" for x
  proof -
    have "lookup_node f (fst k) (snd k) = Some (Some x)"
      using lookup_node_iff [OF assms, of "fst k" "snd k" "Some x"] that by (simp add: is_entry_links)
    with 1(1) show ?thesis by simp
  qed
  have p: "link_entry (links_of f) k p" using 1(2) by (simp add: is_entry_links)
  then obtain n where "heap f p = Some n" by (cases "heap f p") (auto simp: link_entry_def links_of_def)
  then have d: "dcache f k = link_id (links_of f) p"
    using 1(1) by (simp add: dcache_def link_id_def links_of_def)
  show ?thesis
  proof
    assume "dcache f k = Some i"
    then show "\<exists>x. link_entry (links_of f) k x \<and> link_id (links_of f) x = Some i"
      using d p by (intro exI [of _ p]) simp
  next
    assume "\<exists>x. link_entry (links_of f) k x \<and> link_id (links_of f) x = Some i"
    then obtain x where "link_entry (links_of f) k x" "link_id (links_of f) x = Some i" by blast
    with u [OF this(1)] d show "dcache f k = Some i" by simp
  qed
next
  case 2
  then show ?thesis by (auto simp: dcache_def is_entry_links)
qed

lemma same_rest_refl [simp]: "same_rest f f"
  by (simp add: same_rest_def)

lemma same_rest_trans: "same_rest f g \<Longrightarrow> same_rest g h \<Longrightarrow> same_rest f h"
  by (auto simp: same_rest_def)

lemma parent_live:
  assumes "links_inv D f" "heap f p = Some n" "p \<notin> D" "parent n = Some q"
  shows "\<exists>m s. heap f q = Some m \<and> name n = Some s"
proof -
  have "eff_parent f D p = Some q" using assms by (simp add: eff_parent_Some)
  then obtain i s l where "links_of f p = Some (i, Some q, Some s)" "links_of f q = Some l"
    using assms(1) unfolding links_inv_def by blast
  then show ?thesis using assms(2) by (auto simp: links_of_def)
qed

text \<open>Taking the name of a node whose directory the kernel knows: only this link goes.\<close>

lemma unhash_links:
  assumes b: "base {} ext {} f" and p: "heap f p = Some n" "nodeid n \<noteq> FUSE_ROOT_ID \<or> name n = None"
    and q: "\<And>q m. parent n = Some q \<Longrightarrow> heap f q = Some m \<Longrightarrow> 0 < nlookup m"
  obtains f' where "unhash_name f p = Some f'" "base {} ext {} f'"
    "links_of f' = (links_of f)(p \<mapsto> (nodeid n, None, None))" "body f' = body f" "same_rest f f'"
proof -
  obtain f' where f': "unhash_name f p = Some f'" "base {} ext {} f'" "heap f' p = Some (cleared n)" "shrinks {p} f f'"
    and ch: "\<And>x. x \<noteq> p \<Longrightarrow> heap f' x \<noteq> heap f x \<Longrightarrow> (p, x) \<in> (parent_rel f)\<^sup>+"
    by (rule unhash_name_step [OF b p]) blast
  have inv: "nodes_inv {} ext f" using b by (simp add: base_def)
  then have li: "links_inv {} f" by (simp add: nodes_inv_def)
  have alive: "heap f' x \<noteq> None" if x: "heap f x \<noteq> None" for x
  proof (cases "name n")
    case None
    then have "unhash_name f p = Some f" using p(1) by (simp add: unhash_name.simps [of f p])
    then show ?thesis using f'(1) x by simp
  next
    case (Some nm)
    have "parent n \<noteq> None"
      using links_inv_root [OF li, of p "nodeid n" "name n"] p Some by (auto simp: links_of_Some)
    then obtain q where q1: "parent n = Some q" by blast
    obtain m where qm: "parent n = Some q" "heap f q = Some m"
      using parent_live [OF li p(1) _ q1] q1 by auto
    let ?fc = "\<lambda>ps. cut_name f (name_hash f (nodeid m) nm) p ps"
    obtain ps where ps: "chain (name_table f) (name_hash f (nodeid m) nm) = Some ps" "p \<in> set ps"
      using cut_step [OF b p(1) _ Some qm(1) qm(2)] by auto
    have "p \<in> kids f {} q" using p(1) qm(1) by (simp add: kids_def eff_parent_Some)
    then have "0 < card (kids f {} q)" using kids_finite [OF inv] by (auto simp: card_gt_0_iff)
    moreover have "refctr m = (if nlookup m = 0 then 0 else 1) + int (card (kids f {} q)) + ext q" "0 \<le> ext q"
      using inv qm(2) by (simp_all add: nodes_inv_def refs_inv_def)
    ultimately have "1 < refctr m" using q [OF qm] by simp
    then have "unref_node (?fc ps) q = Some (upd_node q (\<lambda>n. n\<lparr>refctr := refctr n - 1\<rparr>) (?fc ps))"
      using qm(2) by (simp add: unref_node.simps)
    then have "end_unhash (upd_node q (\<lambda>n. n\<lparr>refctr := refctr n - 1\<rparr>) (?fc ps)) p = Some f'"
      using f'(1) p(1) Some qm ps by (simp add: unhash_name.simps [of f p])
    then show ?thesis using x by (auto simp: end_unhash_def split: prod.splits option.splits Option.bind_splits)
  qed
  have "links_of f' = (links_of f)(p \<mapsto> (nodeid n, None, None)) \<and> body f' = body f"
  proof -
    have "links_of f' x = ((links_of f)(p \<mapsto> (nodeid n, None, None))) x \<and> body f' x = body f x" for x
    proof (cases "x = p")
      case True
      then show ?thesis using f'(3) p(1) by (simp add: links_of_def body_def cleared_def)
    next
      case False
      have o: "only_refs (heap f x) (heap f' x)" using f'(4) False by (simp add: shrinks_def)
      show ?thesis
      proof (cases "heap f x")
        case None
        then show ?thesis using o False by (auto simp: only_refs_def links_of_def body_def)
      next
        case (Some k)
        then have "heap f' x \<noteq> None" using alive by simp
        then show ?thesis using o Some False by (auto simp: only_refs_def links_of_def body_def)
      qed
    qed
    then show ?thesis by (simp add: fun_eq_iff)
  qed
  then show thesis using that f' by (simp add: shrinks_def)
qed

section \<open>The name cache under linking and unlinking\<close>

lemma dcache_eqI:
  assumes "\<And>k i. dcache f k = Some i \<longleftrightarrow> g k = Some i"
  shows "dcache f = g"
  by (rule ext) (metis assms option.exhaust)

lemma link_entry_unlink:
  assumes "link_id L p = Some i"
  shows "link_id (L(p \<mapsto> (i, None, None))) = link_id L"
    "link_entry (L(p \<mapsto> (i, None, None))) k x \<longleftrightarrow> x \<noteq> p \<and> link_entry L k x"
proof -
  show l: "link_id (L(p \<mapsto> (i, None, None))) = link_id L"
    using assms by (auto simp: link_id_def fun_eq_iff)
  show "link_entry (L(p \<mapsto> (i, None, None))) k x \<longleftrightarrow> x \<noteq> p \<and> link_entry L k x"
    unfolding link_entry_def l by (auto split: option.splits)
qed

lemma link_entry_link:
  assumes "L p = Some (i, None, None)" and "link_id L q = Some d"
  shows "link_id (L(p \<mapsto> (i, Some q, Some nm))) = link_id L"
    "link_entry (L(p \<mapsto> (i, Some q, Some nm))) k x \<longleftrightarrow> (x = p \<and> k = (d, nm)) \<or> link_entry L k x"
proof -
  show l: "link_id (L(p \<mapsto> (i, Some q, Some nm))) = link_id L"
    using assms(1) by (auto simp: link_id_def fun_eq_iff)
  show "link_entry (L(p \<mapsto> (i, Some q, Some nm))) k x \<longleftrightarrow> (x = p \<and> k = (d, nm)) \<or> link_entry L k x"
    unfolding link_entry_def l using assms by (cases k) (auto split: option.splits)
qed

lemma entry_key:
  assumes "link_entry L k x" and "link_entry L k' x"
  shows "k = k'"
  using assms by (cases k; cases k') (auto simp: link_entry_def split: option.splits prod.splits)

lemma entry_uniq:
  assumes "nodes_inv {} ext f" and "link_entry (links_of f) k x" and "link_entry (links_of f) k y"
  shows "x = y"
proof -
  have "lookup_node f (fst k) (snd k) = Some (Some x)" "lookup_node f (fst k) (snd k) = Some (Some y)"
    using lookup_node_iff [OF assms(1), of "fst k" "snd k"] assms(2,3) by (auto simp: is_entry_links)
  then show ?thesis by simp
qed

lemma dcache_unlink:
  assumes f: "nodes_inv {} ext f" and f': "nodes_inv {} ext' f'" and p: "link_entry (links_of f) K p"
    "link_id (links_of f) p = Some i" and l: "links_of f' = (links_of f)(p \<mapsto> (i, None, None))"
  shows "dcache f' = (dcache f)(K := None)"
proof (rule dcache_eqI)
  fix k j
  note e = link_entry_unlink [of "links_of f", OF p(2)]
  have "dcache f' k = Some j \<longleftrightarrow> (\<exists>x. (x \<noteq> p \<and> link_entry (links_of f) k x) \<and> link_id (links_of f) x = Some j)"
    unfolding dcache_iff [OF f'] l e ..
  also have "\<dots> \<longleftrightarrow> k \<noteq> K \<and> (\<exists>x. link_entry (links_of f) k x \<and> link_id (links_of f) x = Some j)"
  proof (cases "k = K")
    case True
    then show ?thesis using entry_uniq [OF f p(1)] by auto
  next
    case False
    then have "\<not> link_entry (links_of f) k p" using entry_key [OF p(1), of k] by metis
    then show ?thesis using False by auto
  qed
  also have "\<dots> \<longleftrightarrow> ((dcache f)(K := None)) k = Some j"
    using dcache_iff [OF f, of k j] by simp
  finally show "dcache f' k = Some j \<longleftrightarrow> ((dcache f)(K := None)) k = Some j" .
qed

lemma dcache_link:
  assumes f: "nodes_inv {} ext f" and f': "nodes_inv {} ext' f'" and p: "links_of f p = Some (i, None, None)"
    and q: "link_id (links_of f) q = Some d"
    and l: "links_of f' = (links_of f)(p \<mapsto> (i, Some q, Some nm))"
  shows "dcache f' = (dcache f)((d, nm) \<mapsto> i)"
proof (rule dcache_eqI)
  fix k j
  note e = link_entry_link [of "links_of f", OF p q, of nm]
  have np: "\<not> link_entry (links_of f) k p" for k using p by (simp add: link_entry_def)
  have ip: "link_id (links_of f) p = Some i" using p by (simp add: link_id_def)
  have d': "dcache f' k = Some j \<longleftrightarrow>
      (\<exists>x. ((x = p \<and> k = (d, nm)) \<or> link_entry (links_of f) k x) \<and> link_id (links_of f) x = Some j)"
    unfolding dcache_iff [OF f'] l e ..
  show "dcache f' k = Some j \<longleftrightarrow> ((dcache f)((d, nm) \<mapsto> i)) k = Some j"
  proof (cases "k = (d, nm)")
    case True
    have "link_entry (links_of f') k p" unfolding l e using True by simp
    then have "x = p" if "link_entry (links_of f') k x" for x using entry_uniq [OF f'] that by blast
    then have "\<not> link_entry (links_of f) k x" for x using np [of k] unfolding l e by blast
    then show ?thesis using d' True ip by auto
  next
    case False
    then show ?thesis using d' dcache_iff [OF f, of k j] by auto
  qed
qed

section \<open>Updates that touch neither links nor counts\<close>

definition soft :: "node \<Rightarrow> node \<Rightarrow> bool" where
  "soft n n' \<longleftrightarrow> nodeid n' = nodeid n \<and> parent n' = parent n \<and> name n' = name n \<and> refctr n' = refctr n \<and>
     (nlookup n' = 0 \<longleftrightarrow> nlookup n = 0) \<and> treelock n' = treelock n"

lemma base_soft:
  assumes b: "base {} ext {} f" and p: "heap f p = Some n" and g: "soft n (g n)"
    and f': "f' = upd_node p g f"
  shows "base {} ext {} f' \<and> links_of f' = links_of f"
proof -
  have l: "links_of f' = links_of f" unfolding f' by (rule links_of_upd) (use p g in \<open>simp add: soft_def\<close>)
  have inv: "nodes_inv {} ext f" using b by (simp add: base_def)
  have re: "refs_inv {} ext f" and lr: "lru_inv f" and ro: "root_inv f" and nn: "\<And>x. 0 \<le> ext x"
    using inv by (simp_all add: nodes_inv_def)
  have k: "kids f' = kids f" by (rule links_cong(2) [OF l])
  have "refs_inv {} ext f'" unfolding refs_inv_def k
  proof (intro allI impI)
    fix x y assume y: "heap f' x = Some y"
    obtain z where z: "heap f x = Some z" "soft z y"
      using y p g by (auto simp: f' soft_def split: if_splits)
    then show "refctr y = (if nlookup y = 0 then 0 else 1) + int (card (kids f {} x)) + ext x"
      using re by (auto simp: refs_inv_def soft_def)
  qed
  moreover have "root_inv f'" by (rule root_inv_mono [OF ro]) (use p g in \<open>auto simp: f' soft_def\<close>)
  moreover have "lru_inv f'" using lr inv_cong(5) [OF l] by (simp add: f')
  ultimately have "nodes_inv {} ext f'"
    using nn by (intro nodes_inv_counts [OF inv l]) (simp_all add: f')
  moreover have "positive {} f' \<and> quiet f'"
    using b p g by (auto simp: base_def positive_def quiet_def f' soft_def)
  ultimately show ?thesis using l by (simp add: base_def)
qed

lemma drop_step:
  assumes "base {} ext {} f" "heap f p = Some n" "k < nlookup n"
  shows "base {} ext {} (drop_lookups p k f) \<and> links_of (drop_lookups p k f) = links_of f"
  unfolding drop_lookups_def by (rule base_soft [OF assms(1,2)]) (use assms(3) in \<open>auto simp: soft_def\<close>)

lemma fuse_inv_base: "fuse_inv f \<Longrightarrow> quiet f \<Longrightarrow> base {} (\<lambda>_. 0) {} f"
  by (simp add: fuse_inv_def base_def)

lemma base_fuse_inv: "base {} (\<lambda>_. 0) {} f \<Longrightarrow> fuse_inv f \<and> quiet f"
  by (simp add: fuse_inv_def base_def)

text \<open>Which nodes a directory operation may be asked about.\<close>

definition known_dir :: "fuse \<Rightarrow> u64 \<Rightarrow> bool" where
  "known_dir f d \<longleftrightarrow> (\<exists>q m. get_node f d = Some q \<and> heap f q = Some m \<and> 0 < nlookup m)"

definition unlinkable :: "fuse \<Rightarrow> u64 \<Rightarrow> string \<Rightarrow> bool" where
  \<comment> \<open>with \<open>remember\<close>, the kernel has a lookup of the node besides the remembered one\<close>
  "unlinkable f d nm \<longleftrightarrow> remember (conf f) = 0 \<or>
     (case lookup_node f d nm of Some (Some p) \<Rightarrow> (case heap f p of Some n \<Rightarrow> 1 < nlookup n | None \<Rightarrow> True) | _ \<Rightarrow> True)"

lemma known_dir_entry:
  assumes inv: "nodes_inv {} ext f" and d: "known_dir f d" and e: "is_entry f (d, nm) p"
  obtains n q m where "heap f p = Some n" "parent n = Some q" "name n = Some nm" "heap f q = Some m"
    "nodeid m = d" "0 < nlookup m" "get_node f d = Some q" "nodeid n \<noteq> FUSE_ROOT_ID"
proof -
  have ids: "ids_inv f" and fin: "finite (dom (heap f))" using inv by (simp_all add: nodes_inv_def mem_inv_def)
  obtain n q m where a: "heap f p = Some n" "parent n = Some q" "heap f q = Some m" "nodeid m = d" "name n = Some nm"
    using e by (auto simp: is_entry_iff)
  then have "is_id f d q" by (simp add: is_id_iff)
  then have g: "get_node f d = Some q" using get_node_iff [OF ids fin] by simp
  then have "0 < nlookup m" using d a(3) by (auto simp: known_dir_def)
  moreover have "nodeid n \<noteq> FUSE_ROOT_ID" using root_looked_up [OF inv a(1)] a(2) by auto
  ultimately show thesis using that a g by blast
qed

lemma unlink_node_step:
  assumes b: "base {} ext {} f" and d: "known_dir f d" and e: "is_entry f (d, nm) p" and u: "unlinkable f d nm"
  obtains f' i where "unlink_node f p = Some f'" "base {} ext {} f'" "link_id (links_of f) p = Some i"
    "links_of f' = (links_of f)(p \<mapsto> (i, None, None))" "same_rest f f'"
    "\<And>x. x \<noteq> p \<Longrightarrow> body f' x = body f x"
    "\<And>n. heap f p = Some n \<Longrightarrow> \<exists>n'. heap f' p = Some n' \<and> treelock n' = treelock n \<and>
      nlookup n' = nlookup n - (if remember (conf f) = 0 then 0 else 1)"
proof -
  have inv: "nodes_inv {} ext f" using b by (simp add: base_def)
  obtain n q m where a: "heap f p = Some n" "parent n = Some q" "name n = Some nm" "heap f q = Some m"
    "nodeid m = d" "0 < nlookup m" "nodeid n \<noteq> FUSE_ROOT_ID"
    by (rule known_dir_entry [OF inv d e]) blast
  have look: "lookup_node f d nm = Some (Some p)" using lookup_node_iff [OF inv, of d nm "Some p"] e by simp
  have lp: "link_id (links_of f) p = Some (nodeid n)" using a(1) by (simp add: link_id_def links_of_def)
  show thesis
  proof (cases "remember (conf f) = 0")
    case True
    obtain f' where f': "unhash_name f p = Some f'" "base {} ext {} f'"
      "links_of f' = (links_of f)(p \<mapsto> (nodeid n, None, None))" "body f' = body f" "same_rest f f'"
      by (rule unhash_links [OF b a(1)]) (use a in auto)
    show thesis
    proof (rule that [OF _ f'(2) lp f'(3,5)])
      show "unlink_node f p = Some f'" using a(1) True f'(1) by (simp add: unlink_node_def)
      show "\<exists>n'. heap f' p = Some n' \<and> treelock n' = treelock k \<and>
          nlookup n' = nlookup k - (if remember (conf f) = 0 then 0 else 1)"
        if "heap f p = Some k" for k using body_nlookup [OF f'(4) that] True by auto
    qed (simp add: f'(4))
  next
    case False
    then have nl: "1 < nlookup n" using u look a(1) by (simp add: unlinkable_def)
    let ?f = "drop_lookups p 1 f"
    have b1: "base {} ext {} ?f" and l1: "links_of ?f = links_of f" using drop_step [OF b a(1) nl] by simp_all
    have h1: "heap ?f p = Some (n\<lparr>nlookup := nlookup n - 1\<rparr>)" using a(1) by (simp add: drop_lookups_def)
    have q1: "0 < nlookup k" if "parent (n\<lparr>nlookup := nlookup n - 1\<rparr>) = Some r" "heap ?f r = Some k" for r k
      using that a nl by (auto simp: drop_lookups_def split: if_splits)
    obtain f' where f': "unhash_name ?f p = Some f'" "base {} ext {} f'"
      "links_of f' = (links_of f)(p \<mapsto> (nodeid n, None, None))" "body f' = body ?f" "same_rest ?f f'"
      by (rule unhash_links [OF b1 h1 _ q1]) (use a(7) l1 in auto)
    show thesis
    proof (rule that [OF _ f'(2) lp f'(3)])
      show "unlink_node f p = Some f'" using a(1) False f'(1) nl by (simp add: unlink_node_def)
      show "same_rest f f'" using f'(5) by (simp add: same_rest_def drop_lookups_def)
      show "body f' x = body f x" if "x \<noteq> p" for x using that by (simp add: f'(4) body_def drop_lookups_def)
      show "\<exists>n'. heap f' p = Some n' \<and> treelock n' = treelock k \<and>
          nlookup n' = nlookup k - (if remember (conf f) = 0 then 0 else 1)"
        if "heap f p = Some k" for k using body_nlookup [OF f'(4) h1] False that a(1) by auto
    qed
  qed
qed

text \<open>
  Nodes the kernel knows stay known, and keep their number and lock; the remembered lookup is kept.
\<close>

definition known_stay :: "fuse \<Rightarrow> fuse \<Rightarrow> bool" where
  "known_stay f f' \<longleftrightarrow> (\<forall>x n. heap f x = Some n \<longrightarrow> 0 < nlookup n \<longrightarrow>
     (\<exists>n'. heap f' x = Some n' \<and> nodeid n' = nodeid n \<and> treelock n' = treelock n \<and> 0 < nlookup n' \<and>
        (nlookup n = 1 \<longrightarrow> nlookup n' = 1)))"

lemma known_stay_body:
  assumes "body f' = body f"
  shows "known_stay f f'"
  unfolding known_stay_def using body_nlookup [OF assms] by metis

lemma known_stay_refl [simp]: "known_stay f f"
  by (simp add: known_stay_def)

lemma known_stay_trans: "known_stay f g \<Longrightarrow> known_stay g h \<Longrightarrow> known_stay f h"
  unfolding known_stay_def by metis

lemma known_dir_stay:
  assumes "nodes_inv {} ext f" and "nodes_inv {} ext' f'" and "known_stay f f'" and "known_dir f d"
  shows "known_dir f' d \<and> get_node f' d = get_node f d"
proof -
  obtain q m where q: "get_node f d = Some q" "heap f q = Some m" "0 < nlookup m"
    using assms(4) by (auto simp: known_dir_def)
  have ids: "ids_inv f" "finite (dom (heap f))" and ids': "ids_inv f'" "finite (dom (heap f'))"
    using assms(1,2) by (simp_all add: nodes_inv_def mem_inv_def)
  have "nodeid m = d" using get_node_iff [OF ids, of d q] q by (simp add: is_id_iff)
  then obtain m' where m': "heap f' q = Some m'" "nodeid m' = d" "0 < nlookup m'"
    using assms(3) q unfolding known_stay_def by blast
  then have "get_node f' d = Some q" using get_node_iff [OF ids', of d q] by (simp add: is_id_iff)
  then show ?thesis using q m' by (simp add: known_dir_def)
qed

lemma known_stay_unlink:
  assumes nu: "\<And>x. x \<noteq> p \<Longrightarrow> body f' x = body f x" and inv: "nodes_inv {} ext f"
    and l: "links_of f' = (links_of f)(p \<mapsto> (i, None, None))" "link_id (links_of f) p = Some i"
    and e: "is_entry f (d, nm) p" and u: "unlinkable f d nm"
    and n: "\<And>n. heap f p = Some n \<Longrightarrow>
      \<exists>n'. heap f' p = Some n' \<and> treelock n' = treelock n \<and>
      nlookup n' = nlookup n - (if remember (conf f) = 0 then 0 else 1)"
  shows "known_stay f f'"
  unfolding known_stay_def
proof (intro allI impI)
  fix x k assume k: "heap f x = Some k" "0 < nlookup k"
  show "\<exists>n'. heap f' x = Some n' \<and> nodeid n' = nodeid k \<and> treelock n' = treelock k \<and> 0 < nlookup n' \<and>
      (nlookup k = 1 \<longrightarrow> nlookup n' = 1)"
  proof (cases "x = p")
    case False
    then have b: "body f' x = Some (k\<lparr>refctr := 0, name := None, parent := None\<rparr>)"
      using nu k(1) by (simp add: body_def)
    then obtain n' where n': "heap f' x = Some n'" "k\<lparr>refctr := 0, name := None, parent := None\<rparr>
        = n'\<lparr>refctr := 0, name := None, parent := None\<rparr>" by (auto simp: body_Some)
    from arg_cong [OF n'(2), of nlookup] arg_cong [OF n'(2), of nodeid] arg_cong [OF n'(2), of treelock] n'(1) k
    show ?thesis by auto
  next
    case True
    have "lookup_node f d nm = Some (Some p)" using lookup_node_iff [OF inv, of d nm "Some p"] e by simp
    then have "remember (conf f) = 0 \<or> 1 < nlookup k" using u k(1) True by (simp add: unlinkable_def)
    moreover obtain n' where n': "heap f' p = Some n'" "treelock n' = treelock k"
      "nlookup n' = nlookup k - (if remember (conf f) = 0 then 0 else 1)" using n k(1) True by blast
    moreover have "nodeid n' = nodeid k"
    proof -
      have "links_of f' p = Some (i, None, None)" using l by simp
      then have "nodeid n' = i" using n'(1) by (simp add: links_of_def)
      then show ?thesis using l(2) k(1) True by (simp add: link_id_def links_of_def)
    qed
    ultimately show ?thesis using True k by auto
  qed
qed

lemma unlink_known_step:
  assumes b: "base {} ext {} f" and d: "known_dir f d" and e: "is_entry f (d, nm) p" and u: "unlinkable f d nm"
  obtains f' i where "unlink_node f p = Some f'" "base {} ext {} f'" "link_id (links_of f) p = Some i"
    "links_of f' = (links_of f)(p \<mapsto> (i, None, None))" "same_rest f f'" "known_stay f f'"
proof -
  have inv: "nodes_inv {} ext f" using b by (simp add: base_def)
  obtain f' i where f': "unlink_node f p = Some f'" "base {} ext {} f'" "link_id (links_of f) p = Some i"
    "links_of f' = (links_of f)(p \<mapsto> (i, None, None))" "same_rest f f'"
    "\<And>x. x \<noteq> p \<Longrightarrow> body f' x = body f x"
    "\<And>n. heap f p = Some n \<Longrightarrow> \<exists>n'. heap f' p = Some n' \<and> treelock n' = treelock n \<and>
      nlookup n' = nlookup n - (if remember (conf f) = 0 then 0 else 1)"
    by (rule unlink_node_step [OF b d e u]) blast
  show thesis by (rule that [OF f'(1-5) known_stay_unlink [OF f'(6) inv f'(4,3) e u f'(7)]])
qed

section \<open>Removing and renaming\<close>

lemma dcache_None:
  assumes "nodes_inv {} ext f" and "\<And>p. \<not> is_entry f k p"
  shows "dcache f k = None"
proof -
  have "dcache f k \<noteq> Some i" for i using dcache_iff [OF assms(1)] assms(2) by (auto simp: is_entry_links)
  then show ?thesis by (cases "dcache f k") auto
qed

lemma remove_node_step:
  assumes b: "base {} (\<lambda>_. 0) {} f" and d: "known_dir f dir" and u: "unlinkable f dir nm"
  obtains f' where "remove_node f dir nm = Some f'" "base {} (\<lambda>_. 0) {} f'"
    "dcache f' = (dcache f)((dir, nm) := None)" "dom (heap f') = dom (heap f)" "same_rest f f'" "known_stay f f'"
proof -
  have inv: "nodes_inv {} (\<lambda>_. 0) f" using b by (simp add: base_def)
  show thesis
  proof (cases rule: lookup_node_total [OF inv, of dir nm])
    case (1 p)
    obtain f' i where f': "unlink_node f p = Some f'" "base {} (\<lambda>_. 0) {} f'" "link_id (links_of f) p = Some i"
      "links_of f' = (links_of f)(p \<mapsto> (i, None, None))" "same_rest f f'" "known_stay f f'"
      by (rule unlink_known_step [OF b d 1(2) u]) blast
    have inv': "nodes_inv {} (\<lambda>_. 0) f'" using f'(2) by (simp add: base_def)
    have "dcache f' = (dcache f)((dir, nm) := None)"
      using 1(2) f'(3) by (intro dcache_unlink [OF inv inv' _ _ f'(4)]) (simp_all add: is_entry_links)
    moreover have "dom (heap f') = dom (heap f)"
    proof -
      have "heap f p \<noteq> None" using f'(3) by (auto simp: link_id_def links_of_def)
      then have "heap f' x = None \<longleftrightarrow> heap f x = None" for x
        unfolding links_of_None [symmetric] f'(4) by simp
      then show ?thesis by (simp add: dom_def)
    qed
    ultimately show thesis using 1(1) f' by (intro that [of f']) (simp_all add: remove_node_def)
  next
    case 2
    then show thesis using b dcache_None [OF inv 2(2)]
      by (intro that [of f]) (auto simp: remove_node_def fun_upd_idem)
  qed
qed

text \<open>Naming a nameless node in a directory the kernel knows, as a step between operations.\<close>

lemma hash_name_links:
  assumes b: "base {} (\<lambda>_. 0) {} f" and d: "known_dir f d" and p: "links_of f p = Some (i, None, None)"
    and r: "i \<noteq> FUSE_ROOT_ID" and free: "dcache f (d, nm) = None"
    and acyc: "\<And>q. get_node f d = Some q \<Longrightarrow> (q, p) \<notin> (parent_rel f)\<^sup>*"
  obtains (no_memory) f' where "hash_name f p d nm = Some (-1, f')" "base {} (\<lambda>_. 0) {} f'" "heap f' = heap f"
      "links_of f' = links_of f" "body f' = body f" "dcache f' = dcache f" "same_rest f f'" "INLINE_NAME_SIZE \<le> length nm"
  | (linked) f' q where "hash_name f p d nm = Some (0, f')" "base {} (\<lambda>_. 0) {} f'"
      "links_of f' = (links_of f)(p \<mapsto> (i, Some q, Some nm))" "get_node f d = Some q" "body f' = body f"
      "dcache f' = (dcache f)((d, nm) \<mapsto> i)" "same_rest f f'"
proof -
  have inv: "nodes_inv {} (\<lambda>_. 0) f" using b by (simp add: base_def)
  then have tr: "tree_inv {} (\<lambda>_. 0) f" and ids: "ids_inv f" and fin: "finite (dom (heap f))"
    by (simp_all add: nodes_inv_split tree_inv_def mem_inv_def)
  obtain q m where q: "get_node f d = Some q" "heap f q = Some m" "0 < nlookup m"
    using d by (auto simp: known_dir_def)
  have qid: "nodeid m = d" using get_node_iff [OF ids fin, of d q] q by (simp add: is_id_iff)
  obtain n where n: "heap f p = Some n" "nodeid n = i" "parent n = None" "name n = None"
    using p by (auto simp: links_of_Some)
  have lq: "link_id (links_of f) q = Some d" using q(2) qid by (simp add: link_id_def links_of_def)
  have fr: "\<forall>x k. heap f x = Some k \<longrightarrow> parent k = Some q \<longrightarrow> name k \<noteq> Some nm"
  proof (intro allI impI notI)
    fix x k assume k: "heap f x = Some k" "parent k = Some q" "name k = Some nm"
    then have "is_entry f (d, nm) x" using k q qid by (auto simp: is_entry_iff)
    then have "dcache f (d, nm) = Some (nodeid k)"
      using k(1) unfolding dcache_iff [OF inv] is_entry_links by (auto simp: link_id_def links_of_def)
    then show False using free by simp
  qed
  have pos: "positive {} f" "quiet f" using b by (simp_all add: base_def)
  have nr: "nodeid n \<noteq> FUSE_ROOT_ID" using r n by simp
  show thesis
  proof (cases rule: hash_name_step [OF tr q(1,2) qid n(1,3,4) nr fr acyc [OF q(1)]])
    case (1 f')
    have l: "links_of f' = links_of f" using 1(2) by (simp add: links_of_def fun_eq_iff)
    have ids': "ids_inv f'" using ids inv_cong(2) [OF l] 1(4) by (simp add: same_frame_def)
    have inv': "nodes_inv {} (\<lambda>_. 0) f'" using 1(5) ids' by (simp add: nodes_inv_split)
    have "dcache f' = dcache f"
      by (rule dcache_eqI) (simp add: dcache_iff [OF inv'] dcache_iff [OF inv] l)
    moreover have "base {} (\<lambda>_. 0) {} f'" using inv' pos 1(2) by (simp add: base_def positive_def quiet_def)
    moreover have "body f' = body f" using 1(2) by (simp add: body_def fun_eq_iff)
    moreover have "same_rest f f'" using 1(4) by (simp add: same_frame_def same_rest_def)
    ultimately show thesis using 1 l by (intro no_memory [of f']) simp_all
  next
    case (2 f')
    have qp: "q \<noteq> p" using acyc [OF q(1)] by auto
    have l: "links_of f' = (links_of f)(p \<mapsto> (i, Some q, Some nm))"
      using q(2) n qp by (auto simp: links_of_def fun_eq_iff 2(2))
    have bd: "body f' = body f" using q(2) n qp by (auto simp: body_def fun_eq_iff 2(2))
    have dm: "dom (heap f') = dom (heap f)" using q(2) n(1) by (auto simp: 2(2))
    have rid: "node_raw_id f' = node_raw_id f" using q(2) n qp by (auto simp: node_raw_id_def fun_eq_iff 2(2))
    have ids': "ids_inv f'"
    proof -
      have bk: "\<exists>r s. links_of f x = Some (j, r, s)" if "links_of f' x = Some (j, r', s')" for x j r' s'
        using that p by (auto simp: l split: if_splits)
      have "x = y" if e: "links_of f' x = Some (j, r, s)" "links_of f' y = Some (j, r', s')" for x y j r s r' s'
        using bk [OF e(1)] bk [OF e(2)] ids unfolding ids_inv_def by blast
      then show ?thesis using ids 2(3) unfolding ids_inv_def rid dm same_frame_def by auto
    qed
    have inv': "nodes_inv {} (\<lambda>_. 0) f'" using 2(4) ids' by (simp add: nodes_inv_split)
    moreover have "positive {} f'"
      using pos(1) q(2) n(1) by (auto simp: positive_def 2(2)) (metis add_strict_increasing2 less_imp_le zero_less_one)?
    moreover have "quiet f'" using pos(2) q(2) n(1) by (auto simp: quiet_def 2(2))
    moreover have "same_rest f f'" using 2(3) by (simp add: same_frame_def same_rest_def)
    ultimately show thesis
      using linked [OF 2(1) _ l q(1) bd dcache_link [OF inv inv' p lq l]] by (simp add: base_def)
  qed
qed

lemma parent_rel_unlink:
  assumes "links_of f' = (links_of f)(p \<mapsto> (i, None, None))"
  shows "parent_rel f' \<subseteq> parent_rel f"
  unfolding parent_rel_def links_of_facts(1) assms by (auto split: if_splits)

text \<open>Both ways to take a name, in one form.\<close>

lemma unhash_node_step:
  assumes b: "base {} (\<lambda>_. 0) {} f" and d: "known_dir f d" and e: "is_entry f (d, nm) p"
  obtains f' i where "unhash_name f p = Some f'" "base {} (\<lambda>_. 0) {} f'" "dcache f (d, nm) = Some i"
    "links_of f' = (links_of f)(p \<mapsto> (i, None, None))" "body f' = body f" "same_rest f f'"
    "dcache f' = (dcache f)((d, nm) := None)" "i \<noteq> FUSE_ROOT_ID"
proof -
  have inv: "nodes_inv {} (\<lambda>_. 0) f" using b by (simp add: base_def)
  obtain n q m where a: "heap f p = Some n" "parent n = Some q" "heap f q = Some m" "0 < nlookup m"
    "nodeid n \<noteq> FUSE_ROOT_ID" by (rule known_dir_entry [OF inv d e]) blast
  obtain f' where f': "unhash_name f p = Some f'" "base {} (\<lambda>_. 0) {} f'"
    "links_of f' = (links_of f)(p \<mapsto> (nodeid n, None, None))" "body f' = body f" "same_rest f f'"
    by (rule unhash_links [OF b a(1)]) (use a in auto)
  have inv': "nodes_inv {} (\<lambda>_. 0) f'" using f'(2) by (simp add: base_def)
  have le: "link_entry (links_of f) (d, nm) p" "link_id (links_of f) p = Some (nodeid n)"
    using e a(1) by (simp_all add: is_entry_links link_id_def links_of_def)
  have "dcache f (d, nm) = Some (nodeid n)" unfolding dcache_iff [OF inv] using le by blast
  then show thesis using that [OF f'(1,2) _ f'(3,4,5)] dcache_unlink [OF inv inv' le f'(3)] a(5) by blast
qed

definition in_subtree :: "fuse \<Rightarrow> nat \<Rightarrow> u64 \<Rightarrow> bool" where
  "in_subtree f p d \<longleftrightarrow> (\<exists>q. get_node f d = Some q \<and> (q, p) \<in> (parent_rel f)\<^sup>*)"

text \<open>The second half of a rename: the node is off its old name and the target is free.\<close>

lemma rename_link_step:
  assumes b: "base {} (\<lambda>_. 0) {} f" and d: "known_dir f d" and p: "links_of f p = Some (i, None, None)"
    and r: "i \<noteq> FUSE_ROOT_ID" and free: "dcache f (d, nm) = None" and s: "\<not> in_subtree f p d"
  obtains res f' where "hash_name f p d nm = Some (res, f')" "base {} (\<lambda>_. 0) {} f'"
    "res = 0 \<and> dcache f' = (dcache f)((d, nm) \<mapsto> i) \<or> res = -1 \<and> dcache f' = dcache f \<and> INLINE_NAME_SIZE \<le> length nm"
    "body f' = body f" "same_rest f f'" "heap f' p \<noteq> None"
proof (cases rule: hash_name_links [OF b d p r free])
  case 1
  then show ?case using s by (auto simp: in_subtree_def)
next
  case (2 f')
  have "heap f' p \<noteq> None" using p 2(3) by (auto simp: links_of_def)
  then show thesis using 2 that by blast
next
  case (3 f' q)
  have "links_of f' p \<noteq> None" using 3(3) by simp
  then have "heap f' p \<noteq> None" by simp
  then show thesis using 3 that by blast
qed

lemma rename_unlink_target:
  assumes b: "base {} (\<lambda>_. 0) {} f" and d: "known_dir f d" and u: "unlinkable f d nm"
    and look: "lookup_node f d nm = Some r"
  obtains f' where "(case r of None \<Rightarrow> Some f | Some q \<Rightarrow> unlink_node f q) = Some f'" "base {} (\<lambda>_. 0) {} f'"
    "dcache f' = (dcache f)((d, nm) := None)" "known_stay f f'" "parent_rel f' \<subseteq> parent_rel f" "same_rest f f'"
    "links_of f' = links_of f \<and> r = None \<or>
      (\<exists>q i. r = Some q \<and> links_of f' = (links_of f)(q \<mapsto> (i, None, None)) \<and> link_id (links_of f) q = Some i)"
proof (cases r)
  case None
  have inv: "nodes_inv {} (\<lambda>_. 0) f" using b by (simp add: base_def)
  have "dcache f (d, nm) = None"
    using None look dcache_None [OF inv, of "(d, nm)"] lookup_node_iff [OF inv, of d nm None] by simp
  moreover have "known_stay f f" by (rule known_stay_body) simp
  ultimately show thesis using b None by (intro that [of f]) (simp_all add: fun_upd_idem)
next
  case (Some q)
  have inv: "nodes_inv {} (\<lambda>_. 0) f" using b by (simp add: base_def)
  have e: "is_entry f (d, nm) q" using look Some lookup_node_iff [OF inv, of d nm "Some q"] by simp
  obtain f' i where f': "unlink_node f q = Some f'" "base {} (\<lambda>_. 0) {} f'" "link_id (links_of f) q = Some i"
    "links_of f' = (links_of f)(q \<mapsto> (i, None, None))" "same_rest f f'" "known_stay f f'"
    by (rule unlink_known_step [OF b d e u]) blast
  have inv': "nodes_inv {} (\<lambda>_. 0) f'" using f'(2) by (simp add: base_def)
  have "dcache f' = (dcache f)((d, nm) := None)"
    using e f'(3) by (intro dcache_unlink [OF inv inv' _ _ f'(4)]) (simp_all add: is_entry_links)
  then show thesis using f' Some parent_rel_unlink [OF f'(4)] by (intro that [of f']) auto
qed

lemma in_subtree_mono:
  "get_node f' d = get_node f d \<Longrightarrow> parent_rel f' \<subseteq> parent_rel f \<Longrightarrow> in_subtree f' p d \<Longrightarrow> in_subtree f p d"
  unfolding in_subtree_def by (metis rtrancl_mono subsetD)

lemma rename_node_step:
  assumes b: "base {} (\<lambda>_. 0) {} f" and od: "known_dir f olddir" and nd: "known_dir f newdir"
    and p: "lookup_node f olddir oldname = Some (Some p)" and s: "\<not> in_subtree f p newdir"
    and u: "unlinkable f newdir newname" and h: "hide \<longrightarrow> lookup_node f newdir newname = Some None"
  shows "\<exists>res f'. rename_node f olddir oldname newdir newname hide = Some (res, f') \<and> base {} (\<lambda>_. 0) {} f' \<and>
    (res = 0 \<and> dcache f' = (dcache f)((olddir, oldname) := None, (newdir, newname) := dcache f (olddir, oldname)) \<or>
     res = - ENOMEM \<and> INLINE_NAME_SIZE \<le> length newname \<and>
       dcache f' = (dcache f)((olddir, oldname) := None, (newdir, newname) := None)) \<and>
    known_stay f f' \<and> same_rest f f'"
proof -
  have inv: "nodes_inv {} (\<lambda>_. 0) f" using b by (simp add: base_def)
  obtain r where r: "lookup_node f newdir newname = Some r"
    using lookup_node_total [OF inv, of newdir newname] by metis
  have e: "is_entry f (olddir, oldname) p" using p lookup_node_iff [OF inv, of olddir oldname "Some p"] by simp
  obtain n where n: "heap f p = Some n" "nodeid n \<noteq> FUSE_ROOT_ID"
    by (rule known_dir_entry [OF inv od e]) blast
  have dold: "dcache f (olddir, oldname) = Some (nodeid n)" using p n by (simp add: dcache_def)
  obtain f1 where f1: "(case r of None \<Rightarrow> Some f | Some q \<Rightarrow> unlink_node f q) = Some f1" "base {} (\<lambda>_. 0) {} f1"
    "dcache f1 = (dcache f)((newdir, newname) := None)" "known_stay f f1" "parent_rel f1 \<subseteq> parent_rel f"
    "links_of f1 = links_of f \<and> r = None \<or>
      (\<exists>q i. r = Some q \<and> links_of f1 = (links_of f)(q \<mapsto> (i, None, None)) \<and> link_id (links_of f) q = Some i)"
    "same_rest f f1"
    by (rule rename_unlink_target [OF b nd u r]) blast
  have inv1: "nodes_inv {} (\<lambda>_. 0) f1" using f1(2) by (simp add: base_def)
  have id1: "link_id (links_of f1) p = Some (nodeid n)"
  proof -
    have "link_id (links_of f1) = link_id (links_of f)" using f1(6) link_entry_unlink(1) [of "links_of f"] by auto
    moreover have "link_id (links_of f) p = Some (nodeid n)" using n(1) by (simp add: link_id_def links_of_def)
    ultimately show ?thesis by simp
  qed
  obtain f2 where f2: "unhash_name f1 p = Some f2" "base {} (\<lambda>_. 0) {} f2" "links_of f2 p = Some (nodeid n, None, None)"
    "dcache f2 = (dcache f)((newdir, newname) := None, (olddir, oldname) := None)" "known_stay f1 f2"
    "parent_rel f2 \<subseteq> parent_rel f1" "same_rest f1 f2"
  proof (cases "r = Some p")
    case True
    then have same: "(newdir, newname) = (olddir, oldname)"
      using r lookup_node_iff [OF inv, of newdir newname "Some p"] e entry_key [of "links_of f" _ p]
      by (simp add: is_entry_links) blast
    have l: "links_of f1 p = Some (nodeid n, None, None)" using f1(6) True id1 by (auto simp: link_id_def)
    then obtain n1 where "heap f1 p = Some n1" "name n1 = None" by (auto simp: links_of_Some)
    then have "unhash_name f1 p = Some f1" by (simp add: unhash_name.simps [of f1 p])
    then show thesis using that [of f1] f1(2,3) l same known_stay_body [of f1 f1] by simp
  next
    case False
    have e1: "is_entry f1 (olddir, oldname) p"
      using f1(6) e False link_entry_unlink(2) [of "links_of f"] by (auto simp: is_entry_links)
    have d1: "known_dir f1 olddir" using known_dir_stay [OF inv inv1 f1(4) od] by simp
    obtain f2 i where f2: "unhash_name f1 p = Some f2" "base {} (\<lambda>_. 0) {} f2" "dcache f1 (olddir, oldname) = Some i"
      "links_of f2 = (links_of f1)(p \<mapsto> (i, None, None))" "body f2 = body f1" "same_rest f1 f2"
      "dcache f2 = (dcache f1)((olddir, oldname) := None)"
      by (rule unhash_node_step [OF f1(2) d1 e1]) blast
    have "i = nodeid n" using f2(3) f1(3) dold by (auto split: if_splits)
    then show thesis using that [of f2] f2 f1(3) known_stay_body [OF f2(5)] parent_rel_unlink [OF f2(4)] by simp
  qed
  have inv2: "nodes_inv {} (\<lambda>_. 0) f2" using f2(2) by (simp add: base_def)
  have stay: "known_stay f f2" by (rule known_stay_trans [OF f1(4) f2(5)])
  have d2: "known_dir f2 newdir" "get_node f2 newdir = get_node f newdir"
    using known_dir_stay [OF inv inv2 stay nd] by simp_all
  have s2: "\<not> in_subtree f2 p newdir" using in_subtree_mono [OF d2(2)] f1(5) f2(6) s by blast
  have free: "dcache f2 (newdir, newname) = None" by (simp add: f2(4))
  obtain res f3 where f3: "hash_name f2 p newdir newname = Some (res, f3)" "base {} (\<lambda>_. 0) {} f3"
    "res = 0 \<and> dcache f3 = (dcache f2)((newdir, newname) \<mapsto> nodeid n) \<or>
      res = -1 \<and> dcache f3 = dcache f2 \<and> INLINE_NAME_SIZE \<le> length newname" "heap f3 p \<noteq> None"
    "body f3 = body f2" "same_rest f2 f3"
    by (rule rename_link_step [OF f2(2) d2(1) f2(3) n(2) free s2]) blast
  obtain n3 where n3: "heap f3 p = Some n3" using f3(4) by auto
  let ?f' = "if hide then upd_node p (\<lambda>n. n\<lparr>is_hidden := True\<rparr>) f3 else f3"
  have b': "base {} (\<lambda>_. 0) {} ?f' \<and> links_of ?f' = links_of f3"
    using base_soft [OF f3(2) n3, of "\<lambda>n. n\<lparr>is_hidden := True\<rparr>"] f3(2) by (simp add: soft_def)
  have "dcache ?f' = dcache f3"
  proof (rule dcache_eqI)
    have i3: "nodes_inv {} (\<lambda>_. 0) f3" "nodes_inv {} (\<lambda>_. 0) ?f'" using f3(2) b' by (simp_all add: base_def)
    show "dcache ?f' k = Some i \<longleftrightarrow> dcache f3 k = Some i" for k i
      unfolding dcache_iff [OF i3(1)] dcache_iff [OF i3(2)] using b' by simp
  qed
  moreover have "rename_node f olddir oldname newdir newname hide
      = Some (if res = -1 then (- ENOMEM, f3) else (0, ?f'))"
    using p r h f1(1) f2(1) f3(1) by (auto simp: rename_node_def)
  moreover have "known_stay f f3" by (rule known_stay_trans [OF stay known_stay_body [OF f3(5)]])
  moreover have "known_stay f3 ?f'"
    unfolding known_stay_def by (cases hide) (auto simp: upd_node_def n3)
  moreover have "known_stay f ?f'" by (rule known_stay_trans) fact+
  moreover have "same_rest f f3" using f1(7) f2(7) f3(6) by (blast intro: same_rest_trans)
  moreover have "same_rest f3 ?f'" by (auto simp: same_rest_def)
  moreover have "same_rest f ?f'" by (rule same_rest_trans) fact+
  ultimately show ?thesis using f3(2,3) b' f2(4) dold by (auto simp: fun_upd_twist)
qed

section \<open>Forgetting\<close>

lemma base_lru:
  assumes "base D ext Z f" and "lru_inv (f\<lparr>lru_table := l\<rparr>)"
  shows "base D ext Z (f\<lparr>lru_table := l\<rparr>)"
proof -
  let ?f = "f\<lparr>lru_table := l\<rparr>"
  have h: "links_of ?f = links_of f" by (simp add: links_of_def fun_eq_iff)
  have inv: "nodes_inv D ext f" using assms(1) by (simp add: base_def)
  have "refs_inv D ext ?f" using inv links_cong(2) [OF h] by (simp add: nodes_inv_def refs_inv_def)
  then have "nodes_inv D ext ?f"
    using inv assms(2) by (intro nodes_inv_counts [OF inv h]) (simp_all add: nodes_inv_def root_inv_def)
  then show ?thesis using assms(1) by (simp add: base_def positive_def quiet_def)
qed

lemma forget_some_step:
  assumes b: "base {} ext {} f" and p: "heap f p = Some n" "k < nlookup n"
  shows "base {} ext {} (drop_lookups p k f)"
    and "lru_enabled f \<Longrightarrow> base {} ext {} (set_forget_time p (drop_lookups p k f))"
proof -
  let ?f1 = "drop_lookups p k f"
  show b1: "base {} ext {} ?f1" using drop_step [OF b p] by simp
  let ?l = "filter (\<lambda>x. x \<noteq> p) (lru_table ?f1) @ [p]"
  assume en: "lru_enabled f"
  have h1: "heap ?f1 p = Some (n\<lparr>nlookup := nlookup n - k\<rparr>)" using p(1) by (simp add: drop_lookups_def)
  have "lru_inv ?f1" using b1 by (simp add: base_def nodes_inv_def)
  then have "lru_inv (?f1\<lparr>lru_table := ?l\<rparr>)"
    using en h1 by (auto simp: lru_inv_def lru_enabled_def drop_lookups_def)
  from base_lru [OF b1 this] have "base {} ext {} (?f1\<lparr>lru_table := ?l\<rparr>)" .
  from base_soft [OF this _ _ refl, of p "n\<lparr>nlookup := nlookup n - k\<rparr>" "\<lambda>n. n\<lparr>forget_time := curr_time ?f1\<rparr>"] h1
  show "base {} ext {} (set_forget_time p ?f1)" by (simp add: soft_def set_forget_time_def)
qed

lemma forget_all_step:
  assumes b: "base {} (\<lambda>_. 0) {} f" and p: "heap f p = Some n" "nodeid n \<noteq> FUSE_ROOT_ID" "0 < nlookup n" "treelock n = 0"
  shows "base {} ((\<lambda>_. 0)(p := 1)) {} (drop_lookups p (nlookup n) f)"
proof -
  let ?f = "drop_lookups p (nlookup n) f"
  have l: "links_of ?f = links_of f" unfolding drop_lookups_def by (rule links_of_upd) simp
  have inv: "nodes_inv {} (\<lambda>_. 0) f" using b by (simp add: base_def)
  have re: "refs_inv {} (\<lambda>_. 0) f" and ro: "root_inv f" and lr: "lru_inv f"
    using inv by (simp_all add: nodes_inv_def)
  have "refs_inv {} ((\<lambda>_. 0)(p := 1)) ?f"
    using re p unfolding refs_inv_def links_cong(2) [OF l] by (auto simp: drop_lookups_def)
  moreover have "root_inv ?f"
    by (rule root_inv_mono [OF ro]) (use p in \<open>auto simp: drop_lookups_def\<close>)
  moreover have "lru_inv ?f" using lr inv_cong(5) [OF l] by (simp add: drop_lookups_def)
  ultimately have "nodes_inv {} ((\<lambda>_. 0)(p := 1)) ?f"
    by (intro nodes_inv_counts [OF inv l]) (simp_all add: drop_lookups_def)
  moreover have "positive {} ?f \<and> quiet ?f"
    using b p by (auto simp: base_def positive_def quiet_def drop_lookups_def)
  ultimately show ?thesis by (simp add: base_def)
qed

lemma forget_node_step:
  assumes b: "base {} (\<lambda>_. 0) {} f" and p: "heap f p = Some n" "nodeid n = i" "i \<noteq> FUSE_ROOT_ID"
    and k: "k \<le> nlookup n" "0 < nlookup n" and go: "nlookup n = k \<longrightarrow> treelock n = 0"
  shows "\<exists>f'. forget_node f i k = Some (Some f') \<and> base {} (\<lambda>_. 0) {} f' \<and>
    (if k < nlookup n then \<exists>tm. heap f' p = Some (n\<lparr>nlookup := nlookup n - k, forget_time := tm\<rparr>)
     else if kids f {} p = {} then heap f' p = None
     else \<exists>r. heap f' p = Some (n\<lparr>nlookup := 0, refctr := r\<rparr>)) \<and>
    (\<forall>x m. x \<noteq> p \<longrightarrow> heap f x = Some m \<longrightarrow> 0 < nlookup m \<longrightarrow> (\<exists>r. heap f' x = Some (m\<lparr>refctr := r\<rparr>)))"
proof -
  have inv: "nodes_inv {} (\<lambda>_. 0) f" using b by (simp add: base_def)
  then have ids: "ids_inv f" "finite (dom (heap f))" by (simp_all add: nodes_inv_def mem_inv_def)
  have g: "get_node f i = Some p" using get_node_iff [OF ids, of i p] p by (simp add: is_id_iff)
  have self: "\<exists>r. m = m\<lparr>refctr := r\<rparr>" for m :: node by (intro exI [of _ "refctr m"]) simp
  have selft: "\<exists>tm. m\<lparr>nlookup := j\<rparr> = m\<lparr>nlookup := j, forget_time := tm\<rparr>" for m :: node and j
    by (intro exI [of _ "forget_time m"]) simp
  show ?thesis
  proof (cases "k < nlookup n")
    case True
    let ?f1 = "drop_lookups p k f"
    define f' where "f' = (if lru_enabled f \<and> nlookup n - k = 1 then set_forget_time p ?f1 else ?f1)"
    have "forget_node f i k = Some (Some f')"
      using p(3) g p(1) k(1) True go by (auto simp: forget_node_def f'_def)
    moreover have "base {} (\<lambda>_. 0) {} f'" using forget_some_step [OF b p(1) True] by (simp add: f'_def)
    moreover have "\<exists>tm. heap f' p = Some (n\<lparr>nlookup := nlookup n - k, forget_time := tm\<rparr>)"
      using p(1) selft by (auto simp: f'_def drop_lookups_def set_forget_time_def)
    moreover have "heap f' x = heap f x" if "x \<noteq> p" for x
      using that by (simp add: f'_def drop_lookups_def set_forget_time_def)
    ultimately show ?thesis using True self by auto
  next
    case False
    with k have kn: "k = nlookup n" by simp
    let ?f1 = "drop_lookups p k f"
    have b1: "base {} ((\<lambda>_. 0)(p := 1)) {} ?f1"
      using forget_all_step [OF b p(1) _ k(2)] p go kn by simp
    have h1: "heap ?f1 p = Some (n\<lparr>nlookup := 0\<rparr>)" using p(1) kn by (simp add: drop_lookups_def)
    obtain f' where f': "unref_node ?f1 p = Some f'" "base {} ((\<lambda>_. 0)(p := 1, p := (1::int) - 1)) {} f'"
      "if refctr (n\<lparr>nlookup := 0\<rparr>) = 1 then heap f' p = None
        else heap f' p = Some (n\<lparr>nlookup := 0, refctr := refctr n - 1\<rparr>)" "shrinks {} ?f1 f'"
      by (rule unref_node_step [OF b1 h1]) auto
    have "refctr n = 1 + int (card (kids f {} p))" using inv p(1) k(2) by (simp add: nodes_inv_def refs_inv_def)
    then have "refctr n = 1 \<longleftrightarrow> kids f {} p = {}" using kids_finite [OF inv, of p] by simp
    moreover have "forget_node f i k = Some (Some f')"
      using p(3) g p(1) k kn go f'(1) by (simp add: forget_node_def)
    moreover have "\<exists>r. heap f' x = Some (m\<lparr>refctr := r\<rparr>)" if x: "x \<noteq> p" "heap f x = Some m" "0 < nlookup m" for x m
    proof -
      have "heap ?f1 x = Some m" using x by (simp add: drop_lookups_def)
      moreover from this have "heap f' x \<noteq> None"
        using f'(4) x(3) unfolding shrinks_def looked_up_stays_def by fastforce
      ultimately show ?thesis using f'(4) by (auto simp: shrinks_def only_refs_def) (metis option.inject option.distinct(1))
    qed
    ultimately show ?thesis using f'(2,3) kn by (auto simp: fun_upd_idem)
  qed
qed

section \<open>Numbering new nodes\<close>

text \<open>
  \<open>next_id\<close> ends when some 32-bit number is free: it takes at most as many rounds as that number
  is ahead of the counter.
\<close>

definition free_id :: "fuse \<Rightarrow> u64 \<Rightarrow> bool" where
  "free_id f i \<longleftrightarrow> i \<noteq> 0 \<and> i \<noteq> FUSE_UNKNOWN_INO \<and> get_node_nocheck f i = Some None"

lemma bump_ctr_simps [simp]:
  "heap (bump_ctr f) = heap f" "id_table (bump_ctr f) = id_table f" "name_table (bump_ctr f) = name_table f"
  "slabs (bump_ctr f) = slabs f" "conf (bump_ctr f) = conf f" "lru_table (bump_ctr f) = lru_table f"
  "allocs (bump_ctr f) = allocs f" "hidectr (bump_ctr f) = hidectr f" "lockq (bump_ctr f) = lockq f"
  "now (bump_ctr f) = now f"
  by (simp_all add: bump_ctr_def Let_def)

lemma get_node_nocheck_cong:
  "heap f' = heap f \<Longrightarrow> id_table f' = id_table f \<Longrightarrow> get_node_nocheck f' i = get_node_nocheck f i"
proof -
  assume a: "heap f' = heap f" "id_table f' = id_table f"
  have "has_id f' = has_id f" using a(1) by (simp add: has_id_def fun_eq_iff)
  then show ?thesis using a by (simp add: get_node_nocheck_def id_hash_def)
qed

definition renumbered :: "fuse \<Rightarrow> fuse \<Rightarrow> bool" where
  "renumbered f f' \<longleftrightarrow> (\<exists>c g. f' = f\<lparr>ctr := c, generation := g\<rparr>)"

lemma renumbered_bump: "renumbered f (bump_ctr f)"
  unfolding renumbered_def bump_ctr_def Let_def by (intro exI) (rule refl)

lemma renumbered_trans:
  assumes "renumbered f g" and "renumbered g h"
  shows "renumbered f h"
proof -
  obtain c g' where h: "h = g\<lparr>ctr := c, generation := g'\<rparr>" using assms(2) unfolding renumbered_def by blast
  obtain c' g'' where g: "g = f\<lparr>ctr := c', generation := g''\<rparr>" using assms(1) unfolding renumbered_def by blast
  have "h = f\<lparr>ctr := c, generation := g'\<rparr>" unfolding h g by simp
  then show ?thesis unfolding renumbered_def by blast
qed

lemma mask_add: "and (and x 0xffffffff + y) 0xffffffff = and (x + y) (0xffffffff :: u64)"
proof -
  have m: "(0xffffffff :: u64) = mask 32" by (simp add: mask_eq_exp_minus_1)
  show ?thesis unfolding m by (rule mask_eqs)
qed

lemma next_id_runs:
  assumes "and (ctr f + of_nat k) 0xffffffff = j" and "0 < k" and "free_id f j"
    and "\<And>i. get_node_nocheck f i \<noteq> None"
  shows "\<exists>f'. next_id f = Some (ctr f', f') \<and> renumbered f f' \<and> free_id f' (ctr f')"
  using assms
proof (induction k arbitrary: f)
  case (Suc k)
  let ?f1 = "bump_ctr f"
  have same: "get_node_nocheck ?f1 i = get_node_nocheck f i" for i by (rule get_node_nocheck_cong) simp_all
  have c1: "ctr ?f1 = and (ctr f + 1) 0xffffffff" by (simp add: bump_ctr_def Let_def)
  note unf = next_id.simps [of f]
  show ?case
  proof (cases "free_id ?f1 (ctr ?f1)")
    case True
    then have "next_id f = Some (ctr ?f1, ?f1)" using unf by (simp add: free_id_def Let_def)
    then show ?thesis using True renumbered_bump by blast
  next
    case False
    obtain r where r: "get_node_nocheck ?f1 (ctr ?f1) = Some r" using Suc.prems(4) same by fastforce
    have step: "next_id f = next_id ?f1" using False r unf by (auto simp: free_id_def Let_def)
    have "k \<noteq> 0"
    proof
      assume "k = 0"
      then have "ctr ?f1 = j" using Suc.prems(1) c1 by simp
      then show False using False Suc.prems(3) same by (simp add: free_id_def)
    qed
    moreover have "and (ctr ?f1 + of_nat k) 0xffffffff = j"
      using Suc.prems(1) mask_add [of "ctr f + 1" "of_nat k"] by (simp add: c1 ac_simps)
    moreover have "free_id ?f1 j" using Suc.prems(3) same by (simp add: free_id_def)
    moreover have "get_node_nocheck ?f1 i \<noteq> None" for i using Suc.prems(4) same by simp
    ultimately obtain f' where "next_id ?f1 = Some (ctr f', f')" "renumbered ?f1 f'" "free_id f' (ctr f')"
      using Suc.IH [of ?f1] by auto
    then show ?thesis using step renumbered_trans [OF renumbered_bump] by metis
  qed
qed simp

text \<open>The number of ids: every 32-bit number but \<open>0\<close> and \<open>FUSE_UNKNOWN_INO\<close>.\<close>

definition MAX_NODES :: nat where
  "MAX_NODES = 2 ^ 32 - 2"

lemma unused_id:
  assumes "finite N" and "card N < MAX_NODES"
  shows "\<exists>j :: u64. j \<noteq> 0 \<and> j \<noteq> FUSE_UNKNOWN_INO \<and> and j 0xffffffff = j \<and> j \<notin> ids_of ` N"
proof -
  let ?C = "(of_nat :: nat \<Rightarrow> u64) ` {1..<2 ^ 32 - 1}"
  have un: "unat (of_nat x :: u64) = x" if "x \<in> {1..<2 ^ 32 - 1}" for x
    using that by (simp add: unat_of_nat)
  have "inj_on (of_nat :: nat \<Rightarrow> u64) {1..<2 ^ 32 - 1}"
    by (rule inj_on_inverseI [of _ unat]) (rule un)
  then have "card ?C = MAX_NODES" by (subst card_image) (simp_all add: MAX_NODES_def)
  moreover have "card (ids_of ` N) \<le> card N" by (rule card_image_le [OF assms(1)])
  ultimately have "\<not> ?C \<subseteq> ids_of ` N"
    using assms card_mono [of "ids_of ` N" ?C] by auto
  then obtain x where x: "x \<in> {1..<2 ^ 32 - 1}" "(of_nat x :: u64) \<notin> ids_of ` N" by blast
  have "(of_nat x :: u64) \<noteq> 0" using un [OF x(1)] x(1) by (metis atLeastLessThan_iff not_one_le_zero unat_0)
  moreover have "(of_nat x :: u64) \<noteq> FUSE_UNKNOWN_INO"
  proof
    assume "(of_nat x :: u64) = FUSE_UNKNOWN_INO"
    from arg_cong [OF this, of unat] un [OF x(1)] x(1) show False by (simp add: FUSE_UNKNOWN_INO_def)
  qed
  moreover have "and (of_nat x) 0xffffffff = (of_nat x :: u64)"
  proof -
    have m: "(0xffffffff :: u64) = mask 32" by (simp add: mask_eq_exp_minus_1)
    have "(of_nat x :: u64) < 2 ^ 32" using x(1) un [OF x(1)] by (simp add: word_less_nat_alt)
    then show ?thesis unfolding m by (rule less_mask_eq)
  qed
  ultimately show ?thesis using x(2) by blast
qed

lemma next_id_total:
  assumes free: "free_id f j" "and j 0xffffffff = j" and tot: "\<And>i. get_node_nocheck f i \<noteq> None"
  shows "\<exists>f'. next_id f = Some (ctr f', f') \<and> renumbered f f' \<and> free_id f' (ctr f')"
proof (cases "unat (j - ctr f) = 0")
  case False
  show ?thesis
    by (rule next_id_runs [where k = "unat (j - ctr f)" and j = j]) (use False free tot in \<open>simp_all\<close>)
next
  case True
  then have "ctr f = j" by (simp add: unat_eq_0)
  moreover have "and (j + of_nat (2 ^ 32)) 0xffffffff = and j (0xffffffff :: u64)"
  proof -
    have m: "(0xffffffff :: u64) = mask 32" by (simp add: mask_eq_exp_minus_1)
    have "and (of_nat (2 ^ 32)) (mask 32) = (0 :: u64)" by (simp add: mask_eq_exp_minus_1)
    then show ?thesis using mask_eqs(2) [of j "of_nat (2 ^ 32)" 32] by (simp add: m)
  qed
  ultimately show ?thesis
    by (intro next_id_runs [where k = "2 ^ 32" and j = j]) (use free tot in \<open>simp_all\<close>)
qed

section \<open>Finding and creating nodes\<close>

lemma inc_step:
  assumes b: "base {} ext {} f" and p: "heap f p = Some n"
  shows "base {} ext {} (inc_nlookup p f) \<and> links_of (inc_nlookup p f) = links_of f"
proof -
  let ?f = "inc_nlookup p f"
  have l: "links_of ?f = links_of f" unfolding inc_nlookup_def by (rule links_of_upd) simp
  have inv: "nodes_inv {} ext f" using b by (simp add: base_def)
  have re: "refs_inv {} ext f" and ro: "root_inv f" and lr: "lru_inv f" and nn: "\<And>x. 0 \<le> ext x"
    using inv by (simp_all add: nodes_inv_def)
  have "refs_inv {} ext ?f"
    using re p unfolding refs_inv_def links_cong(2) [OF l] by (auto simp: inc_nlookup_def)
  moreover have "root_inv ?f" by (rule root_inv_mono [OF ro]) (use p in \<open>auto simp: inc_nlookup_def\<close>)
  moreover have "lru_inv ?f" using lr inv_cong(5) [OF l] by (simp add: inc_nlookup_def)
  ultimately have "nodes_inv {} ext ?f"
    using nn by (intro nodes_inv_counts [OF inv l]) (simp_all add: inc_nlookup_def)
  moreover have "positive {} ?f \<and> quiet ?f"
    using b p by (fastforce simp: base_def positive_def quiet_def inc_nlookup_def)
  ultimately show ?thesis using l by (simp add: base_def)
qed

lemma dcache_links_eq:
  assumes "nodes_inv {} ext f" "nodes_inv {} ext' f'" "links_of f' = links_of f"
  shows "dcache f' = dcache f"
  by (rule dcache_eqI) (simp add: dcache_iff [OF assms(1)] dcache_iff [OF assms(2)] assms(3))

text \<open>The state before a fresh node is entered into the tables.\<close>

lemma fresh_tree:
  assumes inv: "nodes_inv {} (\<lambda>_. 0) f" and p: "p \<notin> dom (heap f)"
    and f': "heap f' = (heap f)(p \<mapsto> n)" "name_table f' = name_table f" "conf f' = conf f" "lru_table f' = lru_table f"
    and m: "mem_inv f'" and n: "parent n = None" "name n = None" "refctr n = (if nlookup n = 0 then 0 else 1)"
  shows "tree_inv {} (\<lambda>_. 0) f'"
proof -
  have ch: "chains_inv {} f" and li: "links_inv {} f" and re: "refs_inv {} (\<lambda>_. 0) f" and ro: "root_inv f"
    and lr: "lru_inv f" and ac: "acyclic (parent_rel f)" using inv by (simp_all add: nodes_inv_def)
  have np: "heap f p = None" using p by auto
  have eff: "eff_parent f' {} = eff_parent f {}" using n np by (auto simp: eff_parent_def f'(1))
  have kid: "kids f' {} = kids f {}" and nam: "named f' {} = named f {}"
    by (simp_all add: kids_def named_def eff fun_eq_iff)
  have notq: "q \<noteq> p" if e: "eff_parent f {} x = Some q" for x q
  proof -
    obtain l where "links_of f q = Some l" using e li unfolding links_inv_def by blast
    then show ?thesis using np by (auto simp: links_of_def)
  qed
  have lk: "links_of f' x = (if x = p then Some (nodeid n, None, None) else links_of f x)" for x
    using n by (simp add: links_of_def f'(1))
  have raw: "node_raw_name f' x = node_raw_name f x" if x: "x \<in> named f {}" for x
  proof -
    obtain k q where k: "heap f x = Some k" "parent k = Some q" using x by (auto simp: named_iff)
    then have "eff_parent f {} x = Some q" by (simp add: eff_parent_Some)
    then have "q \<noteq> p" "x \<noteq> p" using notq k np by auto
    then show ?thesis using k by (simp add: node_raw_name_def f'(1) split: option.split)
  qed
  have "chains_inv {} f'"
  proof -
    have "table_ok (node_raw_name f') (name_table f) = table_ok (node_raw_name f) (name_table f)"
      by (rule table_ok_cong) (use raw ch named_finite [OF inv] in \<open>auto simp: chains_inv_def\<close>)
    then show ?thesis using ch by (simp add: chains_inv_def f'(2) nam)
  qed
  moreover have "links_inv {} f'"
    unfolding links_inv_def eff
  proof (intro conjI allI impI)
    fix x q assume e: "eff_parent f {} x = Some q"
    then obtain i s l where "links_of f x = Some (i, Some q, Some s)" "links_of f q = Some l"
      using li unfolding links_inv_def by blast
    moreover from this have "x \<noteq> p" "q \<noteq> p" using np by (auto simp: links_of_def)
    ultimately show "\<exists>i s l. links_of f' x = Some (i, Some q, Some s) \<and> links_of f' q = Some l"
      by (cases l) (simp add: lk)
  next
    fix x y q i i' r r' s
    assume e: "eff_parent f {} x = Some q" "eff_parent f {} y = Some q"
      "links_of f' x = Some (i, r, s)" "links_of f' y = Some (i', r', s)"
    then have "x \<noteq> p" "y \<noteq> p" using np by (auto simp: eff_parent_Some)
    then show "x = y" using e li unfolding links_inv_def lk by simp
  next
    fix x i s assume "links_of f' x = Some (i, None, s)" "x \<notin> {}"
    then show "s = None \<or> i = FUSE_ROOT_ID"
      using links_inv_root [OF li, of x i s] by (simp add: lk split: if_splits)
  qed
  moreover have "refs_inv {} (\<lambda>_. 0) f'"
  proof -
    have "kids f {} p = {}" using notq by (auto simp: kids_def)
    then show ?thesis using re n(3) by (auto simp: refs_inv_def kid f'(1))
  qed
  moreover have "root_inv f'" by (rule root_inv_mono [OF ro]) (use np in \<open>auto simp: f'(1)\<close>)
  moreover have "lru_inv f'" using lr by (auto simp: lru_inv_def f' lru_enabled_def)
  moreover have "acyclic (parent_rel f')"
  proof -
    have "Option.bind (heap f' x) parent = Option.bind (heap f x) parent" for x
      using n np by (auto simp: f'(1))
    then show ?thesis using ac by (simp add: parent_rel_def)
  qed
  ultimately show ?thesis using m by (simp add: tree_inv_def)
qed

lemma get_node_fresh:
  assumes ids: "ids_inv f" "finite (dom (heap f))" and p: "p \<notin> dom (heap f)"
    and f': "heap f' = (heap f)(p \<mapsto> n)" "id_table f' = id_table f"
  shows "get_node_nocheck f' i = get_node_nocheck f i"
proof -
  have c: "contents (id_table f) = mset_set (dom (heap f))" and ti: "table_inv (node_raw_id f) (id_table f)"
    using ids(1) by (simp_all add: ids_inv_def)
  have mem: "x \<in># contents (id_table f) \<longleftrightarrow> x \<in> dom (heap f)" for x using c ids(2) by simp
  have eq: "get_node_nocheck f i = Some (find (is_id f i) (array (id_table f) (id_hash f i)))"
    by (rule get_node_nocheck_find [OF ti]) (use mem in auto)
  have eq': "get_node_nocheck f' i = Some (find (is_id f' i) (array (id_table f) (id_hash f i)))"
  proof -
    have "heap f' x \<noteq> None" if "x \<in># contents (id_table f')" for x
      using that mem [of x] by (auto simp: f')
    from get_node_nocheck_find [of "node_raw_id f" f', OF _ this, of i] ti show ?thesis
      by (simp add: f'(2) id_hash_def)
  qed
  have ok: "table_ok (node_raw_id f) (id_table f)" using ti by (simp add: table_inv_def)
  have "find (is_id f' i) (array (id_table f) (id_hash f i)) = find (is_id f i) (array (id_table f) (id_hash f i))"
  proof (rule find_cong [OF refl])
    fix x assume "x \<in> set (array (id_table f) (id_hash f i))"
    then have "x \<in> dom (heap f)" using in_chain_contents [OF ok] mem by (simp add: id_hash_def)
    then have "x \<noteq> p" using p by auto
    then show "is_id f' i x = is_id f i x" by (simp add: is_id_iff f'(1))
  qed
  then show ?thesis using eq eq' by simp
qed

lemma ids_enter:
  assumes ids: "ids_inv f" "finite (dom (heap f))" and p: "p \<notin> dom (heap f)"
    and f': "dom (heap f') = insert p (dom (heap f))" "id_table f' = id_table f"
      "\<And>x. x \<noteq> p \<Longrightarrow> map_option nodeid (heap f' x) = map_option nodeid (heap f x)"
    and n: "heap f' p = Some n" "\<And>x k. heap f x = Some k \<Longrightarrow> nodeid k \<noteq> nodeid n"
  shows "\<exists>f''. hash_id f' p = Some f'' \<and> ids_inv f'' \<and> f'' = f'\<lparr>allocs := allocs f'', id_table := id_table f''\<rparr>"
proof -
  have c: "contents (id_table f) = mset_set (dom (heap f))" and ti: "table_inv (node_raw_id f) (id_table f)"
    using ids(1) by (simp_all add: ids_inv_def)
  have raw: "node_raw_id f' x = node_raw_id f x" if "x \<noteq> p" for x
    using f'(3) [OF that] by (auto simp: node_raw_id_def split: option.splits)
  have "table_inv (node_raw_id f') (id_table f') = table_inv (node_raw_id f) (id_table f')"
  proof (rule table_inv_cong)
    fix x assume "x \<in># contents (id_table f')"
    then have "x \<in> dom (heap f)" using c ids(2) by (simp add: f'(2))
    then have "x \<noteq> p" using p by auto
    then show "node_raw_id f' x = node_raw_id f x" by (rule raw)
  qed
  then have "table_inv (node_raw_id f') (id_table f')" using ti by (simp add: f'(2))
  moreover have "id_hash f' (nodeid n) = bucket (id_table f') (node_raw_id f' p)"
    using n(1) by (simp add: id_hash_def node_raw_id_def)
  ultimately obtain al t where t: "table_add (node_raw_id f') (allocs f') (id_hash f' (nodeid n)) p (id_table f') = Some (al, t)"
    "table_inv (node_raw_id f') t" "contents t = add_mset p (contents (id_table f'))"
    using table_add_inv [of "node_raw_id f'" "id_table f'" "id_hash f' (nodeid n)" p "allocs f'"] by metis
  let ?f = "f'\<lparr>allocs := al, id_table := t\<rparr>"
  have run: "hash_id f' p = Some ?f" using n(1) t(1) by (simp add: hash_id_def)
  have l: "links_of ?f = links_of f'" by (simp add: links_of_def fun_eq_iff)
  have "contents t = mset_set (dom (heap f'))" using t(3) c p ids(2) by (simp add: f'(1,2))
  moreover have "x = y" if e: "links_of f' x = Some (i, r, s)" "links_of f' y = Some (i, r', s')" for x y i r s r' s'
  proof -
    have "map_option nodeid (heap f' x) = Some i" "map_option nodeid (heap f' y) = Some i"
      using e by (auto simp: links_of_Some)
    moreover have old: "\<exists>k. heap f z = Some k \<and> nodeid k = i" if "z \<noteq> p" "map_option nodeid (heap f' z) = Some i" for z
      using f'(3) [OF that(1)] that(2) by (cases "heap f z") auto
    moreover have "z = p" if z: "map_option nodeid (heap f' z) = Some i" "i = nodeid n" for z
      using old [OF _ z(1)] n(2) z(2) by blast
    moreover have "i = nodeid n" if "map_option nodeid (heap f' p) = Some i" using that n(1) by simp
    moreover have "x = y" if z: "x \<noteq> p" "y \<noteq> p"
    proof -
      obtain k k' where "heap f x = Some k" "nodeid k = i" "heap f y = Some k'" "nodeid k' = i"
        using old [OF z(1)] old [OF z(2)] \<open>map_option nodeid (heap f' x) = Some i\<close>
          \<open>map_option nodeid (heap f' y) = Some i\<close> by blast
      then show ?thesis using ids_uniq [OF ids(1), of x k y k'] by simp
    qed
    ultimately show ?thesis by metis
  qed
  ultimately have "ids_inv ?f" using t(2) links_cong(5) [OF l] unfolding ids_inv_def l by simp
  with run show ?thesis by auto
qed

lemma nodes_inv_same:
  assumes "nodes_inv {} ext f" and "heap f' = heap f" "name_table f' = name_table f" "id_table f' = id_table f"
    "lru_table f' = lru_table f" "conf f' = conf f" "mem_inv f'"
  shows "nodes_inv {} ext f'"
proof -
  have l: "links_of f' = links_of f" using assms(2) by (simp add: links_of_def fun_eq_iff)
  have "refs_inv {} ext f'" using assms(1,2) links_cong(2) [OF l] by (simp add: nodes_inv_def refs_inv_def)
  then show ?thesis
    using assms inv_cong(1,2,3,5) [OF l] links_cong(4) [OF l] by (simp add: nodes_inv_def root_inv_def)
qed

lemma link_entry_cong:
  assumes "L' x = L x" and "\<And>j r s. L x = Some (j, Some r, s) \<Longrightarrow> link_id L' r = link_id L r"
  shows "link_entry L' k x = link_entry L k x"
  unfolding link_entry_def assms(1) using assms(2) by (auto split: option.splits)

lemma links_of_fresh:
  assumes "p \<notin> dom (heap f)" and "q \<noteq> p" and "\<And>x. x \<noteq> p \<Longrightarrow> links_of f' x = links_of f x"
    and "links_of f' p = Some (i, Some q, Some nm)" and inv: "nodes_inv {} ext f" and inv': "nodes_inv {} ext' f'"
    and q: "link_id (links_of f) q = Some d"
  shows "dcache f' = (dcache f)((d, nm) \<mapsto> i)"
proof (rule dcache_eqI)
  fix k j
  have np: "links_of f p = None" using assms(1) by auto
  have li: "links_inv {} f" using inv by (simp add: nodes_inv_def)
  have notp: "r \<noteq> p" if e: "links_of f x = Some (a, Some r, s)" for x a r s
  proof -
    obtain n where "heap f x = Some n" "parent n = Some r" using e by (auto simp: links_of_Some)
    then have "heap f r \<noteq> None" using parent_live [OF li, of x n r] by auto
    then show ?thesis using np by auto
  qed
  have lid: "link_id (links_of f') x = link_id (links_of f) x" if "x \<noteq> p" for x
    using assms(3) [OF that] by (simp add: link_id_def)
  have e: "link_entry (links_of f') k x \<longleftrightarrow> (x = p \<and> k = (d, nm)) \<or> link_entry (links_of f) k x" for x
  proof (cases "x = p")
    case True
    moreover have "\<not> link_entry (links_of f) k p" unfolding link_entry_def np by simp
    ultimately show ?thesis using assms(2,4) lid [of q] q by (cases k) (auto simp: link_entry_def)
  next
    case False
    have "link_entry (links_of f') k x = link_entry (links_of f) k x"
      by (rule link_entry_cong) (use assms(3) [OF False] notp [of x] lid in auto)
    then show ?thesis using False by simp
  qed
  have np': "\<not> link_entry (links_of f) k p" unfolding link_entry_def np by simp
  have ip: "link_id (links_of f') p = Some i" using assms(4) by (simp add: link_id_def)
  show "dcache f' k = Some j \<longleftrightarrow> ((dcache f)((d, nm) \<mapsto> i)) k = Some j"
  proof (cases "k = (d, nm)")
    case True
    then have "link_entry (links_of f') k p" using e by simp
    then have "x = p" if "link_entry (links_of f') k x" for x using entry_uniq [OF inv'] that by blast
    moreover have "link_entry (links_of f') k p" using True e by simp
    ultimately have "dcache f' k = Some j \<longleftrightarrow> link_id (links_of f') p = Some j"
      unfolding dcache_iff [OF inv'] by blast
    then show ?thesis using True ip by auto
  next
    case False
    then have "dcache f' k = Some j \<longleftrightarrow> (\<exists>x. link_entry (links_of f) k x \<and> link_id (links_of f') x = Some j)"
      unfolding dcache_iff [OF inv'] e by simp
    also have "\<dots> \<longleftrightarrow> dcache f k = Some j"
      unfolding dcache_iff [OF inv] using lid np' by metis
    finally show ?thesis using False by simp
  qed
qed

end
