(* ===== verification/NodeOps.thy ===== *)
theory NodeOps
  imports NodeSpec
begin

text \<open>
  The operations the request handlers call on the node tree, each with the theorem that describes it:
  \<open>find_node\<close>, \<open>lookup_node\<close>, \<open>forget_node\<close>, \<open>remove_node\<close>, \<open>rename_node\<close>, \<open>exchange_node\<close>,
  \<open>fuse_clean_cache\<close> and the tree of \<open>fuse_new_31\<close>.
\<close>

section \<open>Creating a node\<close>

lemma alloc_fuse_node_step:
  assumes inv: "nodes_inv {} ext f"
  obtains (failed) f' where "alloc_fuse_node f = Some (None, f')" "nodes_inv {} ext f'" "heap f' = heap f"
      "conf f' = conf f" "f' = f\<lparr>slabs := slabs f'\<rparr>" "partial_slabs (slabs f) = []"
  | (got) p f' where "alloc_fuse_node f = Some (Some p, f')" "p \<notin> dom (heap f)" "mem_inv f'"
      "f' = f\<lparr>slabs := slabs f', heap := (heap f)(p \<mapsto> zero_node)\<rparr>"
proof -
  have m: "slabs_inv (slabs f)" "live (slabs f) = dom (heap f)" "finite (dom (heap f))"
    using inv by (simp_all add: nodes_inv_def mem_inv_def)
  show thesis
  proof (cases rule: node_mem.alloc_cases [OF m(1)])
    case (1 s)
    let ?f = "f\<lparr>slabs := s\<rparr>"
    have "nodes_inv {} ext ?f"
      by (rule nodes_inv_same [OF inv]) (use 1 m in \<open>simp_all add: mem_inv_def\<close>)
    moreover have "alloc_fuse_node f = Some (None, ?f)" using 1(1) by (simp add: alloc_fuse_node_def)
    moreover have "partial_slabs (slabs f) = []"
      using 1(1) by (auto simp: alloc_node_def Let_def split: if_splits list.splits)
    ultimately show thesis using failed [of ?f] by simp
  next
    case (2 p s)
    let ?f = "f\<lparr>slabs := s, heap := (heap f)(p \<mapsto> zero_node)\<rparr>"
    have "alloc_fuse_node f = Some (Some p, ?f)" using 2(1) by (simp add: alloc_fuse_node_def)
    moreover have "mem_inv ?f" using 2 m by (simp add: mem_inv_def)
    ultimately show thesis using got [of p ?f] 2(3) m(2) by simp
  qed
qed

lemma free_id_unused:
  assumes "ids_inv f" "finite (dom (heap f))" "get_node_nocheck f i = Some None" "heap f x = Some k"
  shows "nodeid k \<noteq> i"
  using get_node_nocheck_iff [OF assms(1,2), of i None] assms(3,4) by (auto simp: is_id_iff)

text \<open>The node a lookup starts with: a number, and with \<open>remember\<close> the remembered lookup.\<close>

definition start_node :: "fuse \<Rightarrow> u64 \<Rightarrow> node" where
  "start_node f i = (if remember (conf f) = 0 then zero_node\<lparr>nodeid := i, node_gen := generation f\<rparr>
     else zero_node\<lparr>nodeid := i, node_gen := generation f, refctr := 1, nlookup := 1\<rparr>)"

lemma start_node_simps [simp]:
  "nodeid (start_node f i) = i" "parent (start_node f i) = None" "name (start_node f i) = None"
  "refctr (start_node f i) = (if nlookup (start_node f i) = 0 then 0 else 1)" "treelock (start_node f i) = 0"
  "nlookup (start_node f i) = (if remember (conf f) = 0 then 0 else 1)"
  by (simp_all add: start_node_def zero_node_def)

lemma new_node_prefix:
  assumes inv: "nodes_inv {} (\<lambda>_. 0) f" and few: "card (dom (heap f)) < MAX_NODES"
    and a: "alloc_fuse_node f = Some (Some p, f1)" "p \<notin> dom (heap f)" "mem_inv f1"
      "f1 = f\<lparr>slabs := slabs f1, heap := (heap f)(p \<mapsto> zero_node)\<rparr>"
  obtains i f2 f4 where "next_id f1 = Some (i, f2)"
    "f4 = (let f3 = upd_node p (\<lambda>n. n\<lparr>nodeid := i, node_gen := generation f2\<rparr>) f2
           in if remember (conf f3) \<noteq> 0 then inc_nlookup p f3 else f3)"
    "heap f4 = (heap f)(p \<mapsto> start_node f2 i)" "name_table f4 = name_table f" "id_table f4 = id_table f"
    "conf f2 = conf f" "conf f4 = conf f" "lru_table f4 = lru_table f" "slabs f4 = slabs f1" "allocs f4 = allocs f"
    "lockq f4 = lockq f" "now f4 = now f" "hidectr f4 = hidectr f"
    "\<And>x k. heap f x = Some k \<Longrightarrow> nodeid k \<noteq> i" "i \<noteq> 0" "mem_inv f4"
proof -
  have ids: "ids_inv f" "finite (dom (heap f))" using inv by (simp_all add: nodes_inv_def mem_inv_def)
  have h1: "heap f1 = (heap f)(p \<mapsto> zero_node)" "id_table f1 = id_table f" "name_table f1 = name_table f"
    "conf f1 = conf f" "lru_table f1 = lru_table f" "allocs f1 = allocs f" "lockq f1 = lockq f" "now f1 = now f"
    "hidectr f1 = hidectr f"
    by (subst a(4), simp)+
  note nc = get_node_fresh [OF ids a(2) h1(1,2)]
  let ?ids = "\<lambda>x. case heap f x of None \<Rightarrow> 0 | Some k \<Rightarrow> nodeid k"
  obtain j :: u64 where j: "j \<noteq> 0" "j \<noteq> FUSE_UNKNOWN_INO" "and j 0xffffffff = j" "j \<notin> ?ids ` dom (heap f)"
    using unused_id [OF ids(2) few, of ?ids] by blast
  have "\<not> is_id f j x" for x using j(4) by (force simp: is_id_iff image_iff)
  then have "get_node_nocheck f j = Some None" using get_node_nocheck_iff [OF ids, of j None] by simp
  then have free: "free_id f1 j" using j nc by (simp add: free_id_def)
  have tot: "get_node_nocheck f1 i \<noteq> None" for i
    using nc [of i] get_node_nocheck_find [of "node_raw_id f" f i] ids by (auto simp: ids_inv_def)
  obtain f2 where f2: "next_id f1 = Some (ctr f2, f2)" "renumbered f1 f2" "free_id f2 (ctr f2)"
    using next_id_total [OF free j(3) tot] by blast
  obtain c g where cg: "f2 = f1\<lparr>ctr := c, generation := g\<rparr>" using f2(2) unfolding renumbered_def by blast
  have h2: "heap f2 = (heap f)(p \<mapsto> zero_node)" "id_table f2 = id_table f" "name_table f2 = name_table f"
    "conf f2 = conf f" "lru_table f2 = lru_table f" "allocs f2 = allocs f" "slabs f2 = slabs f1" "lockq f2 = lockq f"
    "now f2 = now f" "hidectr f2 = hidectr f"
    using h1 by (simp_all add: cg)
  let ?i = "ctr f2"
  have "get_node_nocheck f2 ?i = Some None" using f2(3) by (simp add: free_id_def)
  then have "get_node_nocheck f ?i = Some None" using get_node_fresh [OF ids a(2) h2(1,2)] by simp
  then have unused: "nodeid k \<noteq> ?i" if "heap f x = Some k" for x k using free_id_unused [OF ids _ that] by blast
  define f3 where "f3 = upd_node p (\<lambda>n. n\<lparr>nodeid := ?i, node_gen := generation f2\<rparr>) f2"
  define f4 where "f4 = (if remember (conf f3) \<noteq> 0 then inc_nlookup p f3 else f3)"
  have h4: "heap f4 = (heap f)(p \<mapsto> start_node f2 ?i)"
    using h2 by (auto simp: f4_def f3_def inc_nlookup_def start_node_def zero_node_def)
  have r4: "name_table f4 = name_table f" "id_table f4 = id_table f" "conf f4 = conf f" "lru_table f4 = lru_table f"
    "slabs f4 = slabs f1" "allocs f4 = allocs f" "lockq f4 = lockq f" "now f4 = now f" "hidectr f4 = hidectr f"
    using h2 by (simp_all add: f4_def f3_def inc_nlookup_def)
  have "mem_inv f4" using a(3) h4 h1(1) r4(5) by (simp add: mem_inv_def)
  moreover have "f4 = (let f3 = upd_node p (\<lambda>n. n\<lparr>nodeid := ?i, node_gen := generation f2\<rparr>) f2
           in if remember (conf f3) \<noteq> 0 then inc_nlookup p f3 else f3)" by (simp add: f4_def f3_def Let_def)
  moreover have "?i \<noteq> 0" using f2(3) by (simp add: free_id_def)
  ultimately show thesis using that [OF f2(1) _ h4 r4(1,2) h2(4) r4(3,4,5,6,7,8,9)] unused by blast
qed

lemma known_stay_heap: "heap f' = heap f \<Longrightarrow> known_stay f f'"
  unfolding known_stay_def by auto

lemma base_same:
  assumes "base {} ext {} f" and "heap f' = heap f" "nodes_inv {} ext f'"
  shows "base {} ext {} f'"
  using assms by (simp add: base_def positive_def quiet_def)

text \<open>What a lookup that creates a node does.\<close>

definition created :: "fuse \<Rightarrow> u64 \<Rightarrow> string \<Rightarrow> nat option \<Rightarrow> fuse \<Rightarrow> bool" where
  "created f d nm r f' \<longleftrightarrow>
     (r = None \<and> heap f' = heap f \<and> dcache f' = dcache f \<and>
        (partial_slabs (slabs f) = [] \<or> INLINE_NAME_SIZE \<le> length nm)) \<or>
     (\<exists>p n. r = Some p \<and> heap f p = None \<and> heap f' p = Some n \<and> name n = Some nm \<and>
        nlookup n = (if remember (conf f) = 0 then 1 else 2) \<and> treelock n = 0 \<and> nodeid n \<noteq> 0 \<and>
        (\<forall>x k. heap f x = Some k \<longrightarrow> nodeid k \<noteq> nodeid n) \<and>
        dcache f' = (dcache f)((d, nm) \<mapsto> nodeid n) \<and>
        (\<forall>x. x \<noteq> p \<longrightarrow> body f' x = body f x \<and> links_of f' x = links_of f x))"

lemma new_node_step:
  assumes b: "base {} (\<lambda>_. 0) {} f" and d: "known_dir f d" and no: "lookup_node f d nm = Some None"
    and few: "card (dom (heap f)) < MAX_NODES"
  shows "\<exists>r f'. new_node f d nm = Some (r, f') \<and> base {} (\<lambda>_. 0) {} f' \<and> created f d nm r f' \<and>
    conf f' = conf f \<and> lru_table f' = lru_table f \<and> lockq f' = lockq f"
proof -
  have inv: "nodes_inv {} (\<lambda>_. 0) f" using b by (simp add: base_def)
  then have ids: "ids_inv f" "finite (dom (heap f))" and li: "links_inv {} f"
    by (simp_all add: nodes_inv_def mem_inv_def)
  obtain q m where q: "get_node f d = Some q" "heap f q = Some m" "0 < nlookup m"
    using d by (auto simp: known_dir_def)
  have qid: "nodeid m = d" using get_node_iff [OF ids, of d q] q by (simp add: is_id_iff)
  have free: "\<And>x. \<not> is_entry f (d, nm) x" using lookup_node_iff [OF inv, of d nm None] no by simp
  show ?thesis
  proof (cases rule: alloc_fuse_node_step [OF inv])
    case (1 f1)
    then have "new_node f d nm = Some (None, f1)" by (simp add: new_node_def)
    moreover have "dcache f1 = dcache f"
      by (rule dcache_links_eq [OF inv 1(2)]) (simp add: links_of_def fun_eq_iff 1(3))
    moreover have "lru_table f1 = lru_table f" "lockq f1 = lockq f" by (subst 1(5), simp)+
    ultimately show ?thesis using base_same [OF b 1(3,2)] 1(3,4,6) by (auto simp: created_def)
  next
    case (2 p f1)
    obtain i f2 f4 where n: "next_id f1 = Some (i, f2)"
      and f4: "f4 = (let f3 = upd_node p (\<lambda>n. n\<lparr>nodeid := i, node_gen := generation f2\<rparr>) f2
           in if remember (conf f3) \<noteq> 0 then inc_nlookup p f3 else f3)"
      and h4: "heap f4 = (heap f)(p \<mapsto> start_node f2 i)" and t4: "name_table f4 = name_table f" "id_table f4 = id_table f"
      and c2: "conf f2 = conf f" and c4: "conf f4 = conf f" "lru_table f4 = lru_table f" and q4: "lockq f4 = lockq f"
      and unused: "\<And>x k. heap f x = Some k \<Longrightarrow> nodeid k \<noteq> i" and i0: "i \<noteq> 0" and m4: "mem_inv f4"
      by (rule new_node_prefix [OF inv few 2]) blast
    have np: "heap f p = None" using 2(2) by auto
    have qp: "q \<noteq> p" using q(2) np by auto
    have iroot: "i \<noteq> FUSE_ROOT_ID"
      using inv unused by (auto simp: nodes_inv_def root_inv_def)
    have tr: "tree_inv {} (\<lambda>_. 0) f4"
      by (rule fresh_tree [OF inv 2(2) h4 t4(1) c4 m4]) (simp_all del: start_node_simps(6))
    have g4: "get_node f4 d = Some q"
      using q(1) get_node_fresh [OF ids 2(2) h4 t4(2)] by (simp add: get_node_def)
    have hq: "heap f4 q = Some m" using q(2) qp by (simp add: h4)
    have hp: "heap f4 p = Some (start_node f2 i)" by (simp add: h4)
    have fr: "\<forall>x k. heap f4 x = Some k \<longrightarrow> parent k = Some q \<longrightarrow> name k \<noteq> Some nm"
      using free q(2) qid by (auto simp: h4 is_entry_iff split: if_splits)
    have "(q, p) \<notin> (parent_rel f4)\<^sup>*"
    proof
      assume "(q, p) \<in> (parent_rel f4)\<^sup>*"
      then obtain x where "(x, p) \<in> parent_rel f4" using qp by (metis rtranclE)
      then obtain k where k: "heap f4 x = Some k" "parent k = Some p"
        by (cases "heap f4 x") (auto simp: parent_rel_def)
      then have "x \<noteq> p" using hp by auto
      then have "heap f x = Some k" using k by (simp add: h4)
      then show False using parent_live [OF li, of x k p] k np by auto
    qed
    note hash = hash_name_step [OF tr g4 hq qid hp start_node_simps(2,3) _ fr this]
    have sn: "nodeid (start_node f2 i) \<noteq> FUSE_ROOT_ID" using iroot by simp
    have links4: "links_of f4 x = links_of f x" if "x \<noteq> p" for x using that by (simp add: links_of_def h4)
    show ?thesis
    proof (cases rule: hash [OF sn])
      case (1 f5)
      have m5: "mem_inv f5" using 1(5) by (simp add: tree_inv_def)
      obtain f6 where f6: "free_node f5 p = Some f6" "mem_inv f6" "heap f6 = (heap f5)(p := None)"
        "f6 = f5\<lparr>slabs := slabs f6, heap := (heap f5)(p := None)\<rparr>"
        using mem_run_free [OF m5, of p] 1(2) hp by auto
      have h6: "heap f6 = heap f" using f6(3) 1(2) h4 np by (auto simp: fun_upd_idem)
      have r6: "name_table f6 = name_table f" "id_table f6 = id_table f" "lru_table f6 = lru_table f" "conf f6 = conf f"
        "lockq f6 = lockq f"
        using 1(3,4) t4 c4 q4 by (subst f6(4), simp add: same_frame_def)+
      have inv6: "nodes_inv {} (\<lambda>_. 0) f6" by (rule nodes_inv_same [OF inv h6 r6(1-4) f6(2)])
      have "new_node f d nm = Some (None, f6)"
        using 2(1) n f4 1(1) f6(1) by (simp add: new_node_def Let_def)
      moreover have "dcache f6 = dcache f"
        by (rule dcache_links_eq [OF inv inv6]) (simp add: links_of_def fun_eq_iff h6)
      ultimately show ?thesis using base_same [OF b h6 inv6] h6 r6 1(6) by (auto simp: created_def)
    next
      case (2 f5)
      let ?n = "(start_node f2 i)\<lparr>name := Some nm, parent := Some q\<rparr>"
      have h5p: "heap f5 p = Some ?n" by (simp add: 2(2))
      have "\<exists>f6. hash_id f5 p = Some f6 \<and> ids_inv f6 \<and> f6 = f5\<lparr>allocs := allocs f6, id_table := id_table f6\<rparr>"
      proof (rule ids_enter [OF ids _ _ _ _ h5p])
        show "dom (heap f5) = insert p (dom (heap f))" using q(2) by (auto simp: 2(2) h4)
        show "id_table f5 = id_table f" using 2(3) t4 by (simp add: same_frame_def)
        show "map_option nodeid (heap f5 x) = map_option nodeid (heap f x)" if "x \<noteq> p" for x
          using that q(2) by (auto simp: 2(2) h4)
      qed (use np unused in auto)
      then obtain f6 where f6: "hash_id f5 p = Some f6" "ids_inv f6"
        "f6 = f5\<lparr>allocs := allocs f6, id_table := id_table f6\<rparr>" by blast
      have h6: "heap f6 = heap f5" "conf f6 = conf f5" "lru_table f6 = lru_table f5" "lockq f6 = lockq f5" by (subst f6(3), simp)+
      have l6: "links_of f6 = links_of f5" using h6 by (simp add: links_of_def fun_eq_iff)
      have "tree_inv {} (\<lambda>_. 0) f6"
      proof -
        have "name_table f6 = name_table f5" "slabs f6 = slabs f5" "lru_table f6 = lru_table f5"
          by (subst f6(3), simp)+
        then show ?thesis using 2(4) inv_cong(1,3,4,5) [OF l6] links_cong(2,4) [OF l6] h6
          by (simp add: tree_inv_def root_inv_def refs_inv_def)
      qed
      then have inv6: "nodes_inv {} (\<lambda>_. 0) f6" using f6(2) by (simp add: nodes_inv_split)
      text \<open>The reference count of the new node may be zero until its lookup is counted.\<close>
      let ?f = "inc_nlookup p f6"
      have h6p: "heap f6 p = Some ?n" using h5p h6 by simp
      have lf: "links_of ?f = links_of f6" unfolding inc_nlookup_def by (rule links_of_upd) simp
      have "refs_inv {} (\<lambda>_. 0) ?f"
        using inv6 h6p unfolding nodes_inv_def refs_inv_def links_cong(2) [OF lf] by (auto simp: inc_nlookup_def)
      moreover have "root_inv ?f"
        by (rule root_inv_mono [of f6]) (use inv6 h6p in \<open>auto simp: nodes_inv_def inc_nlookup_def\<close>)
      moreover have "lru_inv ?f" using inv6 inv_cong(5) [OF lf] by (simp add: nodes_inv_def inc_nlookup_def)
      ultimately have invf: "nodes_inv {} (\<lambda>_. 0) ?f"
        by (intro nodes_inv_counts [OF inv6 lf]) (simp_all add: inc_nlookup_def)
      have pos: "positive {} f" "quiet f" using b by (simp_all add: base_def)
      have "positive {} ?f"
        using pos(1) q(2) h6p unfolding positive_def inc_nlookup_def
        by (auto simp: h6 2(2) h4 start_node_def zero_node_def split: if_splits)
          (metis add_strict_increasing2 less_imp_le zero_less_one)?
      moreover have "quiet ?f"
        using pos(2) q(2) by (auto simp: quiet_def inc_nlookup_def h6 2(2) h4 split: if_splits)
      ultimately have bf: "base {} (\<lambda>_. 0) {} ?f" using invf by (simp add: base_def)
      have run: "new_node f d nm = Some (Some p, ?f)"
        using \<open>alloc_fuse_node f = Some (Some p, f1)\<close> n f4 2(1) f6(1) by (simp add: new_node_def Let_def)
      have others: "links_of ?f x = links_of f x" if "x \<noteq> p" for x
        using that q(2) unfolding lf l6 by (auto simp: links_of_def 2(2) h4)
      have "dcache ?f = (dcache f)((d, nm) \<mapsto> i)"
      proof (rule links_of_fresh [OF _ qp _ _ inv invf])
        show "links_of ?f x = links_of f x" if "x \<noteq> p" for x by (rule others [OF that])
        show "links_of ?f p = Some (i, Some q, Some nm)" unfolding lf l6 by (simp add: links_of_def 2(2))
        show "link_id (links_of f) q = Some d" using q(2) qid by (simp add: link_id_def links_of_def)
      qed (use np in auto)
      moreover have "body ?f x = body f x" if "x \<noteq> p" for x
        using that q(2) by (auto simp: body_def inc_nlookup_def h6 2(2) h4)
      moreover have "heap ?f p = Some (?n\<lparr>refctr := (if nlookup ?n = 0 then refctr ?n + 1 else refctr ?n), nlookup := nlookup ?n + 1\<rparr>)"
        using h6p by (simp add: inc_nlookup_def)
      ultimately have "created f d nm (Some p) ?f"
        using np unused i0 c2 others unfolding created_def by auto
      moreover have "lockq ?f = lockq f" using h6 2(3) q4 by (simp add: inc_nlookup_def same_frame_def)
      moreover have "conf ?f = conf f" using h6 2(3) c4 by (simp add: inc_nlookup_def same_frame_def)
      moreover have "lru_table ?f = lru_table f" using h6 2(3) c4 by (simp add: inc_nlookup_def same_frame_def)
      ultimately show ?thesis using run bf by blast
    qed
  qed
qed

section \<open>Nodes waiting to be dropped\<close>

text \<open>On the list of remembered nodes are those whose only lookup is the remembered one; never the root.\<close>

definition lru_one :: "fuse \<Rightarrow> bool" where
  "lru_one f \<longleftrightarrow> (\<forall>p n. p \<in> set (lru_table f) \<longrightarrow> heap f p = Some n \<longrightarrow>
     nlookup n = 1 \<and> nodeid n \<noteq> FUSE_ROOT_ID)"

lemma lru_one_stay:
  assumes "lru_one f" "lru_inv f" "known_stay f f'" "set (lru_table f') \<subseteq> set (lru_table f)"
  shows "lru_one f'"
  unfolding lru_one_def
proof (intro allI impI)
  fix p n' assume p: "p \<in> set (lru_table f')" "heap f' p = Some n'"
  then obtain n where "heap f p = Some n" using assms(2,4) by (auto simp: lru_inv_def)
  moreover from this have "nlookup n = 1 \<and> nodeid n \<noteq> FUSE_ROOT_ID" using assms(1,4) p(1) by (auto simp: lru_one_def)
  ultimately have "\<exists>n''. heap f' p = Some n'' \<and> nlookup n'' = 1 \<and> nodeid n'' \<noteq> FUSE_ROOT_ID" using assms(3) unfolding known_stay_def by fastforce
  then show "nlookup n' = 1 \<and> nodeid n' \<noteq> FUSE_ROOT_ID" using p(2) by simp
qed

section \<open>Finding a node\<close>

definition found :: "fuse \<Rightarrow> u64 \<Rightarrow> string \<Rightarrow> nat option \<Rightarrow> fuse \<Rightarrow> bool" where
  "found f d nm r f' \<longleftrightarrow>
     (r = None \<and> dcache f (d, nm) = None \<and> heap f' = heap f \<and> dcache f' = dcache f \<and>
        (partial_slabs (slabs f) = [] \<or> INLINE_NAME_SIZE \<le> length nm)) \<or>
     (\<exists>p n. r = Some p \<and> heap f' p = Some n \<and> dcache f' = (dcache f)((d, nm) \<mapsto> nodeid n) \<and>
        nlookup n = (case heap f p of Some n0 \<Rightarrow> nlookup n0 + 1 | None \<Rightarrow> if remember (conf f) = 0 then 1 else 2) \<and>
        treelock n = (case heap f p of Some n0 \<Rightarrow> treelock n0 | None \<Rightarrow> 0) \<and>
        (\<forall>x. x \<noteq> p \<longrightarrow> body f' x = body f x) \<and>
        (\<forall>x. heap f x \<noteq> None \<longrightarrow> links_of f' x = links_of f x) \<and>
        (if heap f p = None
         then dcache f (d, nm) = None \<and> nodeid n \<noteq> 0 \<and> (\<forall>x k. heap f x = Some k \<longrightarrow> nodeid k \<noteq> nodeid n)
         else dcache f (d, nm) = Some (nodeid n)))"

lemma find_node_step:
  assumes b: "base {} (\<lambda>_. 0) {} f" and d: "known_dir f d" and few: "card (dom (heap f)) < MAX_NODES"
  shows "\<exists>r f'. find_node f d (Some nm) = Some (r, f') \<and> base {} (\<lambda>_. 0) {} f' \<and> found f d nm r f' \<and>
    conf f' = conf f \<and> lockq f' = lockq f \<and> (lru_one f \<longrightarrow> lru_one f')"
proof -
  have inv: "nodes_inv {} (\<lambda>_. 0) f" using b by (simp add: base_def)
  show ?thesis
  proof (cases rule: lookup_node_total [OF inv, of d nm])
    case (1 p)
    then obtain n where n: "heap f p = Some n" by (auto simp: is_entry_iff)
    define f1 where "f1 = (if lru_enabled f \<and> nlookup n = 1 then remove_node_lru p f else f)"
    have b1: "base {} (\<lambda>_. 0) {} f1"
    proof -
      have "lru_inv f" using inv by (simp add: nodes_inv_def)
      then have "lru_inv (f\<lparr>lru_table := filter (\<lambda>q. q \<noteq> p) (lru_table f)\<rparr>)"
        by (auto simp: lru_inv_def lru_enabled_def)
      from base_lru [OF b this] show ?thesis using b by (simp add: f1_def remove_node_lru_def)
    qed
    have f1: "heap f1 = heap f" "links_of f1 = links_of f" "conf f1 = conf f" "lockq f1 = lockq f"
      by (simp_all add: f1_def remove_node_lru_def links_of_def fun_eq_iff)
    have b2: "base {} (\<lambda>_. 0) {} (inc_nlookup p f1)" "links_of (inc_nlookup p f1) = links_of f"
      using inc_step [OF b1, of p n] n f1 by simp_all
    have run: "find_node f d (Some nm) = Some (Some p, inc_nlookup p f1)"
      using 1(1) n by (simp add: find_node_def f1_def)
    have "nodes_inv {} (\<lambda>_. 0) (inc_nlookup p f1)" using b2(1) by (simp add: base_def)
    then have dc: "dcache (inc_nlookup p f1) = dcache f" by (rule dcache_links_eq [OF inv _ b2(2)])
    have "dcache f (d, nm) = Some (nodeid n)" using 1(1) n by (simp add: dcache_def)
    then have "found f d nm (Some p) (inc_nlookup p f1)"
      using n f1 dc b2(2) unfolding found_def by (auto simp: inc_nlookup_def body_def)
    moreover have "lru_one f \<longrightarrow> lru_one (inc_nlookup p f1)"
    proof
      assume one: "lru_one f"
      have "p \<notin> set (lru_table f1)"
      proof (cases "p \<in> set (lru_table f)")
        case True
        then have "lru_table f \<noteq> []" by auto
        then have "lru_enabled f" using inv by (simp add: nodes_inv_def lru_inv_def)
        moreover have "nlookup n = 1" using one True n by (simp add: lru_one_def)
        ultimately show ?thesis by (simp add: f1_def remove_node_lru_def)
      qed (simp add: f1_def remove_node_lru_def)
      then show "lru_one (inc_nlookup p f1)"
        using one f1(1) by (auto simp: lru_one_def inc_nlookup_def f1_def remove_node_lru_def split: if_splits)
    qed
    ultimately show ?thesis using run b2 f1 by (auto simp: inc_nlookup_def)
  next
    case 2
    obtain r f' where f': "new_node f d nm = Some (r, f')" "base {} (\<lambda>_. 0) {} f'" "created f d nm r f'" "conf f' = conf f"
        "lru_table f' = lru_table f" "lockq f' = lockq f"
      using new_node_step [OF b d 2(1) few] by blast
    have "dcache f (d, nm) = None" using 2(1) by (simp add: dcache_def)
    then have "found f d nm r f'"
      using f'(3) unfolding found_def created_def by (elim disjE exE conjE) (auto, metis option.distinct(1))
    moreover have "find_node f d (Some nm) = Some (r, f')" using 2(1) f'(1) by (simp add: find_node_def)
    moreover have "lru_one f \<longrightarrow> lru_one f'"
    proof
      assume one: "lru_one f"
      have li: "lru_inv f" using inv by (simp add: nodes_inv_def)
      have same: "\<exists>k. heap f x = Some k \<and> nlookup k = nlookup k' \<and> nodeid k = nodeid k'" if "x \<in> set (lru_table f)" "heap f' x = Some k'" for x k'
      proof -
        have "x \<in> dom (heap f)" using that(1) li by (auto simp: lru_inv_def)
        then obtain k where k: "heap f x = Some k" by blast
        from f'(3) show ?thesis unfolding created_def
        proof (elim disjE exE conjE)
          fix p n assume c: "heap f p = None" "\<forall>x. x \<noteq> p \<longrightarrow> body f' x = body f x \<and> links_of f' x = links_of f x"
          then have "x \<noteq> p" using k by auto
          then have "body f' x = body f x" using c(2) by simp
          from arg_cong [OF this, of "map_option (\<lambda>n. (nlookup n, nodeid n))"] show ?thesis using k that(2) by (simp add: body_def)
        qed (use k that(2) in auto)
      qed
      then show "lru_one f'" using one f'(5) unfolding lru_one_def by metis
    qed
    ultimately show ?thesis using f' by blast
  qed
qed

section \<open>The initial tree\<close>

text \<open>The root is entered into an empty table of numbers.\<close>

lemma root_enters:
  assumes t: "node_table_init al = (0, al1, nt :: nat node_table)" "node_table_init al1 = (0, al2, it :: nat node_table)"
    and al: "alloc_node sl = Some (Some p, s1)"
    and f0: "f0 = \<lparr>name_table = nt, id_table = it, lru_table = [], ctr = 0, generation = 0, hidectr = 0,
     conf = cfg, lockq = [], slabs = sl, heap = (\<lambda>_. None), allocs = al2, now = tm\<rparr>"
    and f2: "f2 = inc_nlookup p (upd_node p (\<lambda>n. n\<lparr>name := Some ''/'', parent := None, nodeid := FUSE_ROOT_ID\<rparr>)
       (f0\<lparr>slabs := s1, heap := [p \<mapsto> zero_node]\<rparr>))"
  obtains f where "init_tree cfg sl al tm = Some (Some f)" "ids_inv f"
    "f = f2\<lparr>allocs := allocs f, id_table := id_table f\<rparr>"
    "heap f2 = [p \<mapsto> zero_node\<lparr>name := Some ''/'', nodeid := FUSE_ROOT_ID, refctr := 1, nlookup := 1\<rparr>]"
proof -
  let ?n = "zero_node\<lparr>name := Some ''/'', nodeid := FUSE_ROOT_ID, refctr := 1, nlookup := 1\<rparr>"
  have z: "nlookup zero_node = 0" "refctr zero_node = 0" "parent zero_node = None" "name zero_node = None"
    by (simp_all add: zero_node_def)
  have zn: "zero_node\<lparr>name := Some ''/'', parent := None, nodeid := FUSE_ROOT_ID, refctr := 1, nlookup := 1\<rparr> = ?n"
    by (simp add: zero_node_def)
  have h2: "heap f2 = [p \<mapsto> ?n]" by (auto simp: f2 inc_nlookup_def z zn)
  have ids0: "ids_inv f0" using init_inv [OF t(2)] by (simp add: f0 ids_inv_def links_of_def)
  have "\<exists>f. hash_id f2 p = Some f \<and> ids_inv f \<and> f = f2\<lparr>allocs := allocs f, id_table := id_table f\<rparr>"
    by (rule ids_enter [OF ids0, of p f2 ?n]) (auto simp: h2, auto simp: f0 f2 inc_nlookup_def)
  then obtain f where f: "hash_id f2 p = Some f" "ids_inv f" "f = f2\<lparr>allocs := allocs f, id_table := id_table f\<rparr>"
    by blast
  have "alloc_fuse_node f0 = Some (Some p, f0\<lparr>slabs := s1, heap := [p \<mapsto> zero_node]\<rparr>)"
    using al by (simp add: alloc_fuse_node_def f0)
  then have "init_tree cfg sl al tm = Some (Some f)"
    using t f(1) by (simp add: init_tree_def Let_def f2 f0)
  then show thesis using that f h2 by blast
qed

lemma init_tree_step:
  assumes s: "geometry_ok sl" "mmap_ok sl" "all_slabs sl = []"
    and r: "init_tree cfg sl al tm = Some (Some f)"
  shows "base {} (\<lambda>_. 0) {} f \<and> lru_one f \<and> dcache f = (\<lambda>_. None) \<and> known_dir f FUSE_ROOT_ID \<and> conf f = cfg \<and>
    lru_table f = [] \<and> now f = tm \<and> (\<exists>p. dom (heap f) = {p} \<and> alloc_node sl = Some (Some p, slabs f))"
proof -
  obtain r1 al1 r2 al2 and nt it :: "nat node_table"
    where t: "node_table_init al = (r1, al1, nt)" "node_table_init al1 = (r2, al2, it)"
    by (metis prod_cases3)
  have r0: "r1 = 0" "r2 = 0" using r t by (auto simp: init_tree_def node_table_init_def Let_def split: prod.splits if_splits)
  note t = t [unfolded r0] and nt = init_inv [OF t(1) [unfolded r0]]
  have sl: "slabs_inv sl" "live sl = {}" using s by (auto simp: slabs_inv_def live_def all_slabs_def)
  obtain p s1 where al: "alloc_node sl = Some (Some p, s1)"
    using r t by (cases "alloc_node sl")
      (auto simp: init_tree_def alloc_fuse_node_def Let_def split: Option.bind_splits prod.splits option.splits)
  have s1: "slabs_inv s1" "live s1 = {p}" using node_mem.alloc_ok [OF sl(1)] al sl(2) by auto
  let ?n = "zero_node\<lparr>name := Some ''/'', nodeid := FUSE_ROOT_ID, refctr := 1, nlookup := 1\<rparr>"
  define f2 where "f2 = inc_nlookup p (upd_node p (\<lambda>n. n\<lparr>name := Some ''/'', parent := None, nodeid := FUSE_ROOT_ID\<rparr>)
    \<lparr>name_table = nt, id_table = it, lru_table = [], ctr = 0, generation = 0, hidectr = 0,
     conf = cfg, lockq = [], slabs = s1, heap = [p \<mapsto> zero_node], allocs = al2, now = tm\<rparr>)"
  have f: "ids_inv f" "f = f2\<lparr>allocs := allocs f, id_table := id_table f\<rparr>" "heap f2 = [p \<mapsto> ?n]"
    by (rule root_enters [OF t al refl, of f2 cfg tm]; use r in \<open>simp add: f2_def\<close>)+
  have hf: "heap f = [p \<mapsto> ?n]" using f(3) by (subst f(2)) simp
  have rest: "name_table f = nt" "lru_table f = []" "conf f = cfg" "slabs f = s1" "now f = tm"
    by (subst f(2), simp add: f2_def inc_nlookup_def)+
  have eff: "eff_parent f {} x = None" for x by (auto simp: eff_parent_def hf zero_node_def)
  have kid: "kids f {} x = {}" for x by (simp add: kids_def eff)
  have nam: "named f {} = {}" by (simp add: named_def eff)
  have "nodes_inv {} (\<lambda>_. 0) f"
    unfolding nodes_inv_def
  proof (intro conjI)
    show "mem_inv f" using s1 by (simp add: mem_inv_def rest hf)
    show "ids_inv f" by (rule f(1))
    show "chains_inv {} f" using nt [of "node_raw_name f"] by (simp add: chains_inv_def rest nam table_inv_def)
    show "links_inv {} f" using eff by (auto simp: links_inv_def links_of_def hf)
    show "refs_inv {} (\<lambda>_. 0) f" by (auto simp: refs_inv_def kid hf)
    show "root_inv f" by (auto simp: root_inv_def hf zero_node_def)
    show "lru_inv f" by (simp add: lru_inv_def rest)
    have "parent_rel f = {}" by (auto simp: parent_rel_def hf zero_node_def split: if_splits)
    then show "acyclic (parent_rel f)" by (simp add: acyclic_def)
  qed simp
  moreover have "positive {} f \<and> quiet f" by (auto simp: positive_def quiet_def hf)
  ultimately have b: "base {} (\<lambda>_. 0) {} f" by (simp add: base_def)
  then have inv: "nodes_inv {} (\<lambda>_. 0) f" by (simp add: base_def)
  have "dcache f k = None" for k
    by (rule dcache_None [OF inv]) (cases k, auto simp: is_entry_iff hf zero_node_def split: if_splits)
  moreover have "known_dir f FUSE_ROOT_ID"
  proof -
    have "finite (dom (heap f))" by (simp add: hf)
    then have "get_node f FUSE_ROOT_ID = Some p" using get_node_iff [OF f(1)] by (simp add: is_id_iff hf)
    then show ?thesis by (simp add: known_dir_def hf)
  qed
  ultimately show ?thesis using b rest hf al by (auto simp: lru_one_def)
qed

end
