(* ===== verification/NodeProps.thy ===== *)
theory NodeProps
  imports NodeOps
begin

text \<open>
  The node tree as its users see it: the invariant \<open>tree_ok\<close> and what each operation does to the
  name cache \<open>dcache\<close>, a map from a directory number and a name to a node number, and to the
  lookups the kernel holds.  The last section drops remembered nodes, and shows the case in which
  that takes away a node the kernel still uses.
\<close>

definition tree_ok :: "fuse \<Rightarrow> bool" where
  "tree_ok f \<longleftrightarrow> base {} (\<lambda>_. 0) {} f \<and> lru_one f"

lemma tree_okD:
  assumes "tree_ok f"
  shows "base {} (\<lambda>_. 0) {} f" "lru_one f" "nodes_inv {} (\<lambda>_. 0) f" "lru_inv f"
  using assms by (simp_all add: tree_ok_def base_def nodes_inv_def)

lemma tree_ok_stay:
  assumes "tree_ok f" "base {} (\<lambda>_. 0) {} f'" "known_stay f f'" "same_rest f f'"
  shows "tree_ok f'"
  using assms lru_one_stay [OF tree_okD(2,4) [OF assms(1)] assms(3)] by (simp add: tree_ok_def same_rest_def)

section \<open>Forgetting and dropping keep the list of remembered nodes\<close>

lemma forget_tree_ok:
  assumes t: "tree_ok f" and p: "heap f p = Some n" "nodeid n = i" "i \<noteq> FUSE_ROOT_ID" "p \<notin> set (lru_table f)"
    and k: "k \<le> nlookup n" "0 < nlookup n" and r: "forget_node f i k = Some (Some f')" and b': "base {} (\<lambda>_. 0) {} f'"
  shows "tree_ok f'"
proof -
  have inv: "nodes_inv {} (\<lambda>_. 0) f" by (rule tree_okD(3) [OF t])
  then have ids: "ids_inv f" "finite (dom (heap f))" by (simp_all add: nodes_inv_def mem_inv_def)
  have g: "get_node f i = Some p" using get_node_iff [OF ids, of i p] p by (simp add: is_id_iff)
  have one: "nlookup m = 1 \<and> nodeid m \<noteq> FUSE_ROOT_ID" if "x \<in> set (lru_table f)" "heap f x = Some m" for x m
    using tree_okD(2) [OF t] that by (auto simp: lru_one_def)
  let ?f1 = "drop_lookups p k f"
  have one1: "lru_one ?f1" using one p(4) by (auto simp: lru_one_def drop_lookups_def split: if_splits)
  have "lru_one f'"
  proof (cases "nlookup n - k = 0")
    case True
    have kn: "k = nlookup n" using True k by simp
    have u: "unref_node ?f1 p = Some f'" and tl: "treelock n = 0"
      using r p(3) g p(1) kn by (auto simp: forget_node_def split: if_splits)
    have b1: "base {} ((\<lambda>_. 0)(p := 1)) {} ?f1"
      using forget_all_step [OF tree_okD(1) [OF t] p(1)] p(2,3) k tl kn by simp
    have h1: "heap ?f1 p = Some (n\<lparr>nlookup := nlookup n - k\<rparr>)" using p(1) by (simp add: drop_lookups_def)
    have "0 < ((\<lambda>_. 0)(p := 1 :: int)) p" by simp
    then have sh: "shrinks {} ?f1 f'"
      by (rule unref_node_step [OF b1 h1]) (use u in simp)
    show ?thesis unfolding lru_one_def
    proof (intro allI impI)
      fix x m assume x: "x \<in> set (lru_table f')" "heap f' x = Some m"
      have "only_refs (heap ?f1 x) (heap f' x)" using sh by (simp add: shrinks_def)
      then obtain m1 r where m1: "heap ?f1 x = Some m1" "m = m1\<lparr>refctr := r\<rparr>" using x(2) by (auto elim: only_refsE)
      moreover have "x \<in> set (lru_table ?f1)" using x(1) sh by (auto simp: shrinks_def same_rest_def)
      ultimately show "nlookup m = 1 \<and> nodeid m \<noteq> FUSE_ROOT_ID" using one1 by (simp add: lru_one_def)
    qed
  next
    case False
    then have f': "f' = (if lru_enabled f \<and> nlookup n - k = 1 then set_forget_time p ?f1 else ?f1)"
      using r p(3) g p(1) k by (auto simp: forget_node_def split: if_splits)
    show ?thesis
    proof (cases "lru_enabled f \<and> nlookup n - k = 1")
      case True
      have h: "heap f' = (heap ?f1)(p \<mapsto> n\<lparr>nlookup := 1, forget_time := curr_time ?f1\<rparr>)"
        and l: "set (lru_table f') \<subseteq> insert p (set (lru_table ?f1))"
        using True p(1) f' by (auto simp: set_forget_time_def drop_lookups_def)
      show ?thesis unfolding lru_one_def h using one1 l p(2,3) by (auto simp: lru_one_def)
    next
      case False
      then have "f' = ?f1" using f' by auto
      then show ?thesis using one1 by simp
    qed
  qed
  then show ?thesis using b' by (simp add: tree_ok_def)
qed

text \<open>Dropping one remembered node.\<close>

definition droppable :: "fuse \<Rightarrow> nat \<Rightarrow> bool" where
  "droppable f p \<longleftrightarrow> (\<exists>n. heap f p = Some n \<and> nlookup n = 1 \<and> nodeid n \<noteq> FUSE_ROOT_ID \<and> treelock n = 0)"

definition only_drops :: "nat set \<Rightarrow> fuse \<Rightarrow> fuse \<Rightarrow> bool" where
  "only_drops X f f' \<longleftrightarrow> dcache f' \<subseteq>\<^sub>m dcache f \<and> (\<forall>x. only_refs (heap f x) (heap f' x)) \<and> same_rest f f' \<and>
     (\<forall>x n. heap f x = Some n \<longrightarrow> 0 < nlookup n \<longrightarrow> x \<notin> X \<longrightarrow> heap f' x \<noteq> None)"

lemma only_drops_refl [simp]: "only_drops {} f f"
  by (simp add: only_drops_def)

lemma only_drops_trans:
  assumes "only_drops X f g" "only_drops Y g h"
  shows "only_drops (X \<union> Y) f h"
  unfolding only_drops_def
proof (intro conjI allI impI)
  fix x n assume x: "heap f x = Some n" "0 < nlookup n" "x \<notin> X \<union> Y"
  then obtain m where m: "heap g x = Some m" using assms(1) by (fastforce simp: only_drops_def)
  have "only_refs (heap f x) (heap g x)" using assms(1) by (simp add: only_drops_def)
  then have "nlookup m = nlookup n" using x(1) m by (auto elim: only_refsE)
  then show "heap h x \<noteq> None" using assms(2) x m by (simp add: only_drops_def)
next
  show "dcache h \<subseteq>\<^sub>m dcache f" using assms map_le_trans unfolding only_drops_def by blast
  show "only_refs (heap f x) (heap h x)" for x using assms only_refs_trans unfolding only_drops_def by blast
  show "same_rest f h" using assms same_rest_trans unfolding only_drops_def by blast
qed

lemma links_only_refs:
  assumes "only_refs (heap f x) (heap f' x)" "links_of f' x = Some l"
  shows "links_of f x = Some l"
  using assms by (cases "heap f' x") (auto simp: links_of_def elim: only_refsE)

lemma dcache_only_refs:
  assumes inv: "nodes_inv {} ext f" "nodes_inv {} ext' f'" and o: "\<And>x. only_refs (heap f x) (heap f' x)"
  shows "dcache f' \<subseteq>\<^sub>m dcache f"
  unfolding map_le_def
proof
  fix k assume "k \<in> dom (dcache f')"
  then obtain i where i: "dcache f' k = Some i" by blast
  then obtain x where x: "link_entry (links_of f') k x" "link_id (links_of f') x = Some i"
    using dcache_iff [OF inv(2)] by blast
  note same = links_only_refs [OF o]
  have id: "link_id (links_of f) y = Some j" if e: "link_id (links_of f') y = Some j" for y j
  proof -
    obtain l where l: "links_of f' y = Some l" "fst l = j" using e by (auto simp: link_id_def)
    then show ?thesis using same [OF l(1)] by (simp add: link_id_def)
  qed
  obtain j r t where "links_of f' x = Some (j, r, t)" using x(2) unfolding link_id_def by auto
  then obtain q where l: "links_of f' x = Some (j, Some q, Some (snd k))" "link_id (links_of f') q = Some (fst k)"
    using x(1) unfolding link_entry_def by (cases r; cases t; simp)
  have "link_entry (links_of f) k x" using same [OF l(1)] id [OF l(2)] by (simp add: link_entry_def)
  then have "dcache f k = Some i" using dcache_iff [OF inv(1)] id [OF x(2)] by blast
  then show "dcache f' k = dcache f k" using i by simp
qed

lemma drop_one_step:
  assumes b: "base {} (\<lambda>_. 0) {} f" and p: "heap f p = Some n" "nlookup n = 1" "nodeid n \<noteq> FUSE_ROOT_ID"
    "treelock n = 0" "refctr n \<le> 1"
  shows "\<exists>f1 f2. unhash_name (upd_node p (\<lambda>n. n\<lparr>nlookup := 0\<rparr>) f) p = Some f1 \<and> unref_node f1 p = Some f2 \<and>
    base {} (\<lambda>_. 0) {} f2 \<and> only_drops {p} f f2 \<and> heap f2 p = None"
proof -
  let ?f0 = "upd_node p (\<lambda>n. n\<lparr>nlookup := 0\<rparr>) f"
  have "?f0 = drop_lookups p (nlookup n) f" using p(1,2) by (simp add: upd_node_def drop_lookups_def)
  then have b0: "base {} ((\<lambda>_. 0)(p := 1)) {} ?f0" using forget_all_step [OF b p(1,3) _ p(4)] p(2) by simp
  have h0: "heap ?f0 p = Some (n\<lparr>nlookup := 0\<rparr>)" using p(1) by simp
  obtain f1 where f1: "unhash_name ?f0 p = Some f1" "base {} ((\<lambda>_. 0)(p := 1)) {} f1"
    "heap f1 p = Some (cleared (n\<lparr>nlookup := 0\<rparr>))" "shrinks {p} ?f0 f1"
    by (rule unhash_name_step [OF b0 h0]) (use p(3) in auto)
  have "0 < ((\<lambda>_. 0)(p := 1 :: int)) p" by simp
  then obtain f2 where f2: "unref_node f1 p = Some f2" "base {} ((\<lambda>_. 0)(p := 1, p := ((\<lambda>_. 0)(p := 1)) p - 1)) {} f2"
    "if refctr (cleared (n\<lparr>nlookup := 0\<rparr>)) = 1 then heap f2 p = None
       else heap f2 p = Some (cleared (n\<lparr>nlookup := 0\<rparr>)\<lparr>refctr := refctr (cleared (n\<lparr>nlookup := 0\<rparr>)) - 1\<rparr>)"
    "shrinks {} f1 f2"
    by (rule unref_node_step [OF f1(2,3)])
  have "0 < refctr n" using b p(1) by (auto simp: base_def positive_def)
  then have gone: "heap f2 p = None" using f2(3) p(5) by (simp add: cleared_def)
  have b2: "base {} (\<lambda>_. 0) {} f2" using f2(2) by (simp add: fun_upd_idem)
  have o: "only_refs (heap f x) (heap f2 x)" for x
  proof (cases "x = p")
    case False
    have "only_refs (heap ?f0 x) (heap f1 x)" "only_refs (heap f1 x) (heap f2 x)"
      using f1(4) f2(4) False by (simp_all add: shrinks_def)
    then show ?thesis using False only_refs_trans by fastforce
  qed (simp add: gone)
  have "heap f2 x \<noteq> None" if x: "heap f x = Some m" "0 < nlookup m" "x \<notin> {p}" for x m
  proof -
    have "heap ?f0 x = Some m" using x by simp
    then obtain m1 where "heap f1 x = Some m1" "nlookup m1 = nlookup m"
      using f1(4) x(2) unfolding shrinks_def looked_up_stays_def by blast
    then show ?thesis using f2(4) x(2) unfolding shrinks_def looked_up_stays_def by fastforce
  qed
  moreover have "same_rest f f2"
    using f1(4) f2(4) by (auto simp: shrinks_def same_rest_def)
  moreover have "dcache f2 \<subseteq>\<^sub>m dcache f"
    using b b2 o by (intro dcache_only_refs) (auto simp: base_def)
  ultimately have "only_drops {p} f f2" using o by (simp add: only_drops_def)
  then show ?thesis using f1(1) f2(1) b2 gone by blast
qed

lemma lru_one_only_drops:
  assumes "only_drops X f f'" "lru_one f"
  shows "lru_one f'"
  unfolding lru_one_def
proof (intro allI impI)
  fix x m assume x: "x \<in> set (lru_table f')" "heap f' x = Some m"
  have "only_refs (heap f x) (heap f' x)" using assms(1) by (simp add: only_drops_def)
  then obtain n r where "heap f x = Some n" "m = n\<lparr>refctr := r\<rparr>" using x(2) by (auto elim: only_refsE)
  then show "nlookup m = 1 \<and> nodeid m \<noteq> FUSE_ROOT_ID"
    using assms x(1) by (auto simp: only_drops_def same_rest_def lru_one_def)
qed

text \<open>The nodes whose time is over.\<close>

definition aged :: "timespec \<Rightarrow> fuse \<Rightarrow> nat set" where
  "aged tm f = {p. \<exists>n. heap f p = Some n \<and> of_int (remember (conf f)) < diff_timespec tm (forget_time n)}"

lemma clean_loop_step:
  "base {} (\<lambda>_. 0) {} f \<Longrightarrow> distinct ps \<Longrightarrow> (\<forall>p \<in> set ps. droppable f p) \<Longrightarrow>
   \<exists>f'. clean_loop tm ps f = Some f' \<and> base {} (\<lambda>_. 0) {} f' \<and> only_drops (set ps \<inter> aged tm f) f f'"
proof (induction ps arbitrary: f)
  case Nil
  then show ?case by simp
next
  case (Cons p ps)
  obtain n where n: "heap f p = Some n" "nlookup n = 1" "nodeid n \<noteq> FUSE_ROOT_ID" "treelock n = 0"
    using Cons.prems(3) by (auto simp: droppable_def)
  have mono: "only_drops Y f g" if "only_drops X f g" "X \<subseteq> Y" for X Y g
    using that unfolding only_drops_def by blast
  consider (young) "diff_timespec tm (forget_time n) \<le> of_int (remember (conf f))"
    | (busy) "\<not> diff_timespec tm (forget_time n) \<le> of_int (remember (conf f))" "1 < refctr n"
    | (drop) "\<not> diff_timespec tm (forget_time n) \<le> of_int (remember (conf f))" "refctr n \<le> 1" by linarith
  then show ?case
  proof cases
    case young
    then have "clean_loop tm (p # ps) f = Some f" using n by simp
    moreover have "only_drops (set (p # ps) \<inter> aged tm f) f f" by (rule mono [OF only_drops_refl]) simp
    ultimately show ?thesis using Cons.prems(1) by blast
  next
    case busy
    have "\<exists>f'. clean_loop tm ps f = Some f' \<and> base {} (\<lambda>_. 0) {} f' \<and> only_drops (set ps \<inter> aged tm f) f f'"
      by (rule Cons.IH) (use Cons.prems in auto)
    moreover have "clean_loop tm (p # ps) f = clean_loop tm ps f" using n busy by simp
    ultimately show ?thesis using mono by (metis Int_mono order_refl set_subset_Cons)
  next
    case drop
    obtain f1 f2 where f2: "unhash_name (upd_node p (\<lambda>n. n\<lparr>nlookup := 0\<rparr>) f) p = Some f1" "unref_node f1 p = Some f2"
      "base {} (\<lambda>_. 0) {} f2" "only_drops {p} f f2"
      using drop_one_step [OF Cons.prems(1) n drop(2)] by blast
    have "droppable f2 q" if q: "q \<in> set ps" for q
    proof -
      have qp: "q \<noteq> p" using q Cons.prems(2) by auto
      obtain m where m: "heap f q = Some m" "nlookup m = 1" "nodeid m \<noteq> FUSE_ROOT_ID" "treelock m = 0"
        using Cons.prems(3) q unfolding droppable_def by (meson list.set_intros(2))
      then have "heap f2 q \<noteq> None" using f2(4) qp by (simp add: only_drops_def)
      moreover have "only_refs (heap f q) (heap f2 q)" using f2(4) by (simp add: only_drops_def)
      ultimately show ?thesis using m by (auto simp: droppable_def elim!: only_refsE)
    qed
    then obtain f' where f': "clean_loop tm ps f2 = Some f'" "base {} (\<lambda>_. 0) {} f'"
      "only_drops (set ps \<inter> aged tm f2) f2 f'"
      using Cons.IH [OF f2(3)] Cons.prems(2) by auto
    have "aged tm f2 \<subseteq> aged tm f"
    proof
      fix x assume "x \<in> aged tm f2"
      then obtain m where m: "heap f2 x = Some m" "of_int (remember (conf f2)) < diff_timespec tm (forget_time m)"
        by (auto simp: aged_def)
      have "only_refs (heap f x) (heap f2 x)" "conf f2 = conf f" using f2(4) by (simp_all add: only_drops_def same_rest_def)
      then show "x \<in> aged tm f" using m by (auto simp: aged_def elim!: only_refsE)
    qed
    moreover have "p \<in> aged tm f" using n(1) drop(1) by (simp add: aged_def)
    ultimately have "{p} \<union> set ps \<inter> aged tm f2 \<subseteq> set (p # ps) \<inter> aged tm f" by auto
    then have "only_drops (set (p # ps) \<inter> aged tm f) f f'" using mono [OF only_drops_trans [OF f2(4) f'(3)]] by blast
    moreover have "clean_loop tm (p # ps) f = Some f'" using n drop f2(1,2) f'(1) by simp
    ultimately show ?thesis using f'(2) by blast
  qed
qed

section \<open>The operations on a tree in good order\<close>

lemma clean_cache_ok:
  assumes t: "tree_ok f" and free: "\<forall>p n. p \<in> set (lru_table f) \<longrightarrow> heap f p = Some n \<longrightarrow> treelock n = 0"
  shows "\<exists>f'. fuse_clean_cache f = Some (clean_delay f, f') \<and> tree_ok f' \<and>
    only_drops (set (lru_table f) \<inter> aged (now f) f) f f'"
proof -
  note b = tree_okD [OF t]
  have d: "distinct (lru_table f)" using b(4) by (simp add: lru_inv_def)
  have "\<forall>p \<in> set (lru_table f). droppable f p"
  proof
    fix p assume p: "p \<in> set (lru_table f)"
    then have "p \<in> dom (heap f)" using b(4) by (auto simp: lru_inv_def)
    then obtain n where "heap f p = Some n" by blast
    then show "droppable f p" using p free b(2) by (simp add: droppable_def lru_one_def)
  qed
  then obtain f' where f': "clean_loop (now f) (lru_table f) f = Some f'" "base {} (\<lambda>_. 0) {} f'"
    "only_drops (set (lru_table f) \<inter> aged (now f) f) f f'"
    using clean_loop_step [OF b(1) d] by blast
  moreover have "lru_one f'" by (rule lru_one_only_drops [OF f'(3) b(2)])
  moreover have "clean_delay f' = clean_delay f"
    using f'(3) by (simp add: clean_delay_def only_drops_def same_rest_def)
  ultimately show ?thesis by (simp add: fuse_clean_cache_def curr_time_def tree_ok_def)
qed

lemma rename_ok:
  assumes t: "tree_ok f" and "known_dir f olddir" "known_dir f newdir"
    and "lookup_node f olddir oldname = Some (Some p)" "\<not> in_subtree f p newdir"
    and "unlinkable f newdir newname" "hide \<longrightarrow> lookup_node f newdir newname = Some None"
  shows "\<exists>res f'. rename_node f olddir oldname newdir newname hide = Some (res, f') \<and> tree_ok f' \<and> known_stay f f' \<and>
    (res = 0 \<and> dcache f' = (dcache f)((olddir, oldname) := None, (newdir, newname) := dcache f (olddir, oldname)) \<or>
     res = - ENOMEM \<and> INLINE_NAME_SIZE \<le> length newname \<and>
       dcache f' = (dcache f)((olddir, oldname) := None, (newdir, newname) := None))"
  using rename_node_step [OF tree_okD(1) [OF t] assms(2-7)] tree_ok_stay [OF t] by blast

lemma remove_ok:
  assumes t: "tree_ok f" and d: "known_dir f dir" and u: "unlinkable f dir nm"
  shows "\<exists>f'. remove_node f dir nm = Some f' \<and> tree_ok f' \<and> dcache f' = (dcache f)((dir, nm) := None) \<and> known_stay f f'"
  using remove_node_step [OF tree_okD(1) [OF t] d u] tree_ok_stay [OF t] by metis

lemma find_ok:
  assumes t: "tree_ok f" and d: "known_dir f d" and few: "card (dom (heap f)) < MAX_NODES"
  shows "\<exists>r f'. find_node f d (Some nm) = Some (r, f') \<and> tree_ok f' \<and> found f d nm r f' \<and>
    conf f' = conf f \<and> lockq f' = lockq f"
  using find_node_step [OF tree_okD(1) [OF t] d few, of nm] tree_okD(2) [OF t] by (auto simp: tree_ok_def)

lemma forget_ok:
  assumes t: "tree_ok f" and p: "heap f p = Some n" "nodeid n = i" "i \<noteq> FUSE_ROOT_ID" "p \<notin> set (lru_table f)"
    and k: "k \<le> nlookup n" "0 < nlookup n" "nlookup n = k \<longrightarrow> treelock n = 0"
  shows "\<exists>f'. forget_node f i k = Some (Some f') \<and> tree_ok f' \<and>
    (if k < nlookup n then \<exists>tm. heap f' p = Some (n\<lparr>nlookup := nlookup n - k, forget_time := tm\<rparr>)
     else if kids f {} p = {} then heap f' p = None
     else \<exists>r. heap f' p = Some (n\<lparr>nlookup := 0, refctr := r\<rparr>)) \<and>
    (\<forall>x m. x \<noteq> p \<longrightarrow> heap f x = Some m \<longrightarrow> 0 < nlookup m \<longrightarrow> (\<exists>r. heap f' x = Some (m\<lparr>refctr := r\<rparr>)))"
proof -
  obtain f' where f': "forget_node f i k = Some (Some f')" "base {} (\<lambda>_. 0) {} f'"
    "if k < nlookup n then \<exists>tm. heap f' p = Some (n\<lparr>nlookup := nlookup n - k, forget_time := tm\<rparr>)
     else if kids f {} p = {} then heap f' p = None
     else \<exists>r. heap f' p = Some (n\<lparr>nlookup := 0, refctr := r\<rparr>)"
    "\<forall>x m. x \<noteq> p \<longrightarrow> heap f x = Some m \<longrightarrow> 0 < nlookup m \<longrightarrow> (\<exists>r. heap f' x = Some (m\<lparr>refctr := r\<rparr>))"
    using forget_node_step [OF tree_okD(1) [OF t] p(1-3) k] by blast
  then show ?thesis using forget_tree_ok [OF t p k(1,2) f'(1,2)] by blast
qed

section \<open>Runs\<close>

text \<open>
  What the kernel and the clock may do to the tree: look a name up, forget lookups it holds, unlink
  and rename what it has looked up, let time pass and let the cleaning thread run.
\<close>

inductive tree_step :: "fuse \<Rightarrow> fuse \<Rightarrow> bool" where
  lookup: "known_dir f d \<Longrightarrow> card (dom (heap f)) < MAX_NODES \<Longrightarrow> find_node f d (Some nm) = Some (r, f') \<Longrightarrow>
    tree_step f f'"
| forget: "heap f p = Some n \<Longrightarrow> nodeid n = i \<Longrightarrow> p \<notin> set (lru_table f) \<Longrightarrow> k \<le> nlookup n \<Longrightarrow> 0 < nlookup n \<Longrightarrow>
    forget_node f i k = Some (Some f') \<Longrightarrow> tree_step f f'"
| remove: "known_dir f d \<Longrightarrow> unlinkable f d nm \<Longrightarrow> remove_node f d nm = Some f' \<Longrightarrow> tree_step f f'"
| rename: "known_dir f d \<Longrightarrow> known_dir f d' \<Longrightarrow> lookup_node f d nm = Some (Some p) \<Longrightarrow> \<not> in_subtree f p d' \<Longrightarrow>
    unlinkable f d' nm' \<Longrightarrow> hide \<longrightarrow> lookup_node f d' nm' = Some None \<Longrightarrow>
    rename_node f d nm d' nm' hide = Some (res, f') \<Longrightarrow> tree_step f f'"
| clean: "\<forall>p n. p \<in> set (lru_table f) \<longrightarrow> heap f p = Some n \<longrightarrow> treelock n = 0 \<Longrightarrow>
    fuse_clean_cache f = Some (delay, f') \<Longrightarrow> tree_step f f'"
| time: "tree_step f (f\<lparr>now := tm\<rparr>)"

lemma tree_ok_time: "tree_ok f \<Longrightarrow> tree_ok (f\<lparr>now := tm\<rparr>)"
proof -
  assume t: "tree_ok f"
  have h: "heap (f\<lparr>now := tm\<rparr>) = heap f" by simp
  have "nodes_inv {} (\<lambda>_. 0) (f\<lparr>now := tm\<rparr>)"
    by (rule nodes_inv_same [OF tree_okD(3) [OF t] h]) (use tree_okD(3) [OF t] in \<open>simp_all add: nodes_inv_def mem_inv_def\<close>)
  then show ?thesis using t by (simp add: tree_ok_def base_def positive_def quiet_def lru_one_def)
qed

lemma tree_step_ok: "tree_step f f' \<Longrightarrow> tree_ok f \<Longrightarrow> tree_ok f'"
proof (induction rule: tree_step.induct)
  case (lookup f d nm r f')
  then show ?case using find_ok [of f d nm] by auto
next
  case (forget f p n i k f')
  show ?case
  proof (cases "i = FUSE_ROOT_ID")
    case True
    then show ?thesis using forget by (simp add: forget_node_def)
  next
    case False
    have inv: "nodes_inv {} (\<lambda>_. 0) f" by (rule tree_okD(3) [OF forget.prems])
    then have ids: "ids_inv f" "finite (dom (heap f))" by (simp_all add: nodes_inv_def mem_inv_def)
    have g: "get_node f i = Some p" using get_node_iff [OF ids, of i p] forget.hyps by (simp add: is_id_iff)
    have "nlookup n = k \<longrightarrow> treelock n = 0"
      using forget.hyps g False by (auto simp: forget_node_def split: if_splits)
    then show ?thesis
      using forget_ok [OF forget.prems forget.hyps(1,2) False forget.hyps(3,4,5)] forget.hyps(6) by auto
  qed
next
  case (remove f d nm f')
  then show ?case using remove_ok [of f d nm] by auto
next
  case (rename f d d' nm p nm' hide res f')
  then show ?case using rename_ok [of f d d' nm p nm' hide] by auto
next
  case (clean f delay f')
  then show ?case using clean_cache_ok [of f] by auto
qed (rule tree_ok_time)

lemma tree_steps_ok: "tree_step\<^sup>*\<^sup>* f f' \<Longrightarrow> tree_ok f \<Longrightarrow> tree_ok f'"
  by (induction rule: rtranclp_induct) (auto intro: tree_step_ok)

lemma init_tree_ok:
  assumes "geometry_ok sl" "mmap_ok sl" "all_slabs sl = []" and "init_tree cfg sl al tm = Some (Some f)"
  shows "tree_ok f"
  using init_tree_step [OF assms] by (simp add: tree_ok_def)

lemma root_no_subtree:
  assumes t: "tree_ok f" and p: "heap f p = Some n" "nodeid n \<noteq> FUSE_ROOT_ID"
  shows "\<not> in_subtree f p FUSE_ROOT_ID"
proof
  assume "in_subtree f p FUSE_ROOT_ID"
  then obtain q where q: "get_node f FUSE_ROOT_ID = Some q" "(q, p) \<in> (parent_rel f)\<^sup>*" by (auto simp: in_subtree_def)
  have inv: "nodes_inv {} (\<lambda>_. 0) f" by (rule tree_okD(3) [OF t])
  then have ids: "ids_inv f" "finite (dom (heap f))" by (simp_all add: nodes_inv_def mem_inv_def)
  obtain m where m: "heap f q = Some m" "nodeid m = FUSE_ROOT_ID"
    using q(1) get_node_iff [OF ids] by (auto simp: is_id_iff)
  obtain x y where y: "heap f x = Some y" "nodeid y = FUSE_ROOT_ID" "parent y = None"
    using inv by (auto simp: nodes_inv_def root_inv_def)
  have "x = q" using ids_uniq [OF ids(1) y(1) m(1)] y(2) m(2) by simp
  then have "(q, z) \<notin> parent_rel f" for z using y by (simp add: parent_rel_def)
  then have "q = p" using q(2) by (metis converse_rtranclE)
  then show False using p m by simp
qed

section \<open>A tree to start from\<close>

definition demo_cfg :: "int \<Rightarrow> fuse_config" where
  "demo_cfg r = \<lparr>set_gid = False, conf_gid = 0, set_uid = False, conf_uid = 0, set_mode = False, conf_umask = 0,
     entry_timeout = 1, negative_timeout = 0, attr_timeout = 1, intr = False, remember = r, hard_remove = False,
     use_ino = False, readdir_ino = False, direct_io = False, kernel_cache = False, auto_cache = False,
     no_rofd_flush = False, ac_attr_timeout = 1, nullpath_ok = False, parallel_direct_writes = False\<rparr>"

definition demo_tree :: "int \<Rightarrow> fuse" where
  "demo_tree r = the (the (init_tree (demo_cfg r) demo_slabs [] zero_time))"

definition demo_find :: "string \<Rightarrow> fuse \<Rightarrow> nat option \<times> fuse" where
  "demo_find nm f = the (find_node f FUSE_ROOT_ID (Some nm))"

lemma demo_slabs_ok: "geometry_ok demo_slabs" "mmap_ok demo_slabs" "all_slabs demo_slabs = []"
proof -
  show "geometry_ok demo_slabs"
    unfolding geometry_ok_def by (intro conjI exI [of _ 12]) (simp_all add: demo_slabs_def sizeof_node_def sizeof_slab_def)
  have "x \<noteq> 4096 * (1 + sum_list pages)" if "x \<in> set pages" for x and pages :: "nat list"
    using member_le_sum_list [OF that] by simp
  then show "mmap_ok demo_slabs" by (auto simp: mmap_ok_def demo_slabs_def demo_mmap_def)
  show "all_slabs demo_slabs = []" by (simp add: demo_slabs_def all_slabs_def)
qed

lemma demo_alloc: "map_option (\<lambda>(r, s). (r, partial_slabs s = [])) (alloc_node demo_slabs) = Some (Some 4240, False)"
  by (simp add: demo_slabs_def alloc_node_def alloc_slab_def demo_mmap_def slot_list_def slots_per_slab_def
      sizeof_node_def sizeof_slab_def Let_def upt_conv_Cons)

lemma demo_init: "init_tree (demo_cfg r) demo_slabs [] zero_time = Some (Some (demo_tree r))"
proof -
  obtain s where s: "alloc_node demo_slabs = Some (Some 4240, s)" using demo_alloc by auto
  obtain f where "init_tree (demo_cfg r) demo_slabs [] zero_time = Some (Some f)"
    by (rule root_enters [OF _ _ s refl refl, of "[]" "[]" "empty_table" "[]" "empty_table" "demo_cfg r" zero_time])
      (simp_all add: node_table_init_def empty_table_def)
  then show ?thesis by (simp add: demo_tree_def)
qed

lemma demo_tree_facts:
  "tree_ok (demo_tree r)" "dcache (demo_tree r) = (\<lambda>_. None)" "known_dir (demo_tree r) FUSE_ROOT_ID"
  "conf (demo_tree r) = demo_cfg r" "lru_table (demo_tree r) = []" "card (dom (heap (demo_tree r))) = 1"
  "partial_slabs (slabs (demo_tree r)) \<noteq> []" "now (demo_tree r) = zero_time"
  using init_tree_step [OF demo_slabs_ok demo_init, of r] demo_alloc by (auto simp: tree_ok_def)

definition demo_a :: "int \<Rightarrow> fuse" where
  "demo_a r = snd (demo_find ''a'' (demo_tree r))"

text \<open>A file that was looked up once.\<close>

lemma demo_a_facts:
  obtains p n where "find_node (demo_tree r) FUSE_ROOT_ID (Some ''a'') = Some (Some p, demo_a r)" "tree_ok (demo_a r)"
    "heap (demo_a r) p = Some n" "nlookup n = (if r = 0 then 1 else 2)" "treelock n = 0" "nodeid n \<noteq> FUSE_ROOT_ID"
    "lookup_node (demo_a r) FUSE_ROOT_ID ''a'' = Some (Some p)" "known_dir (demo_a r) FUSE_ROOT_ID"
    "dcache (demo_a r) = [(FUSE_ROOT_ID, ''a'') \<mapsto> nodeid n]" "p \<notin> set (lru_table (demo_a r))"
    "conf (demo_a r) = demo_cfg r" "lru_table (demo_a r) = []" "name n = Some ''a''"
    "\<forall>x k. heap (demo_a r) x = Some k \<longrightarrow> x \<noteq> p \<longrightarrow> nodeid k = FUSE_ROOT_ID"
proof -
  let ?t = "demo_tree r"
  note d = demo_tree_facts [of r]
  have few: "card (dom (heap ?t)) < MAX_NODES" using d(6) by (simp add: MAX_NODES_def)
  have no: "lookup_node ?t FUSE_ROOT_ID ''a'' = Some None"
  proof -
    have "lookup_node ?t FUSE_ROOT_ID ''a'' = Some None \<or> (\<exists>p n. lookup_node ?t FUSE_ROOT_ID ''a'' = Some (Some p) \<and> heap ?t p = Some n)"
      using lookup_node_total [OF tree_okD(3) [OF d(1)], of FUSE_ROOT_ID "''a''"] by (metis is_entry_iff)
    then show ?thesis using d(2) by (auto simp: dcache_def dest: fun_cong [of _ _ "(FUSE_ROOT_ID, ''a'')"])
  qed
  obtain x f' where f': "new_node ?t FUSE_ROOT_ID ''a'' = Some (x, f')" "base {} (\<lambda>_. 0) {} f'"
    "created ?t FUSE_ROOT_ID ''a'' x f'" "conf f' = conf ?t" "lru_table f' = lru_table ?t"
    using new_node_step [OF tree_okD(1) [OF d(1)] d(3) no few] by blast
  have find: "find_node ?t FUSE_ROOT_ID (Some ''a'') = Some (x, f')" using no f'(1) by (simp add: find_node_def)
  then have a: "demo_a r = f'" by (simp add: demo_a_def demo_find_def)
  obtain p n where c: "x = Some p" "heap ?t p = None" "heap f' p = Some n" "nlookup n = (if r = 0 then 1 else 2)"
    "treelock n = 0" "\<forall>x k. heap ?t x = Some k \<longrightarrow> nodeid k \<noteq> nodeid n" "name n = Some ''a''"
    "dcache f' = [(FUSE_ROOT_ID, ''a'') \<mapsto> nodeid n]" "\<forall>x. x \<noteq> p \<longrightarrow> body f' x = body ?t x"
    using f'(3) d(2,4,7) by (auto simp: created_def INLINE_NAME_SIZE_def demo_cfg_def)
  have inv: "nodes_inv {} (\<lambda>_. 0) ?t" "nodes_inv {} (\<lambda>_. 0) f'" using d(1) f'(2) by (simp_all add: tree_okD base_def)
  then have ids: "ids_inv ?t" "finite (dom (heap ?t))" "ids_inv f'" "finite (dom (heap f'))"
    by (simp_all add: nodes_inv_def mem_inv_def)
  obtain q m where q: "get_node ?t FUSE_ROOT_ID = Some q" "heap ?t q = Some m" "0 < nlookup m"
    using d(3) by (auto simp: known_dir_def)
  have qi: "nodeid m = FUSE_ROOT_ID" using get_node_iff [OF ids(1,2), of FUSE_ROOT_ID q] q by (simp add: is_id_iff)
  have "q \<noteq> p" using c(2) q(2) by auto
  then have "body f' q = body ?t q" using c(9) by simp
  from arg_cong [OF this, of "map_option (\<lambda>n. (nodeid n, nlookup n))"] q(2,3) qi
  obtain m' where m': "heap f' q = Some m'" "nodeid m' = FUSE_ROOT_ID" "0 < nlookup m'" by (auto simp: body_def)
  have kd: "known_dir f' FUSE_ROOT_ID"
    using get_node_iff [OF ids(3,4), of FUSE_ROOT_ID q] m' by (simp add: known_dir_def is_id_iff)
  have look: "lookup_node f' FUSE_ROOT_ID ''a'' = Some (Some p)"
  proof (cases rule: lookup_node_total [OF inv(2), of FUSE_ROOT_ID "''a''"])
    case (1 y)
    then obtain k where k: "heap f' y = Some k" by (auto simp: is_entry_iff)
    have "nodeid k = nodeid n" using fun_cong [OF c(8), of "(FUSE_ROOT_ID, ''a'')"] 1(1) k by (simp add: dcache_def)
    then have "y = p" using ids_uniq [OF ids(3) k c(3)] by simp
    then show ?thesis using 1 by simp
  next
    case 2
    then show ?thesis using fun_cong [OF c(8), of "(FUSE_ROOT_ID, ''a'')"] by (simp add: dcache_def)
  qed
  have others: "\<forall>x k. heap f' x = Some k \<longrightarrow> x \<noteq> p \<longrightarrow> nodeid k = FUSE_ROOT_ID"
  proof (intro allI impI)
    fix x k assume x: "heap f' x = Some k" "x \<noteq> p"
    then have "body ?t x = body f' x" using c(9) by simp
    from arg_cong [OF this, of "map_option nodeid"] x(1) obtain k' where k': "heap ?t x = Some k'" "nodeid k' = nodeid k"
      by (auto simp: body_def)
    obtain y where "dom (heap ?t) = {y}" using d(6) by (metis card_1_singletonE)
    moreover have "x \<in> dom (heap ?t)" "q \<in> dom (heap ?t)" using k'(1) q(2) by (simp_all add: domI)
    ultimately have "x = q" by simp
    then show "nodeid k = FUSE_ROOT_ID" using k' q(2) qi by simp
  qed
  have "lru_one f'" using d(5) f'(5) by (simp add: lru_one_def)
  moreover have "nodeid n \<noteq> FUSE_ROOT_ID" using c(6) q(2) qi by auto
  ultimately show thesis using that c(1,3-8) others find a f'(2,4,5) d(4,5) kd look q qi by (auto simp: tree_ok_def)
qed

section \<open>What the tree guarantees\<close>

text \<open>
  C4. Every state reached from the tree of \<open>fuse_new_31\<close> by looking up, forgetting, unlinking, renaming,
  waiting and cleaning satisfies \<open>tree_ok\<close>: reference counts are exact, both hash tables hold exactly the
  live nodes, names are unique in a directory, parents are live and form no cycle, the memory of the
  live nodes is what the slab allocator handed out, and a remembered node has only its remembered lookup.
\<close>

theorem reachable_tree_ok:
  assumes "geometry_ok sl" "mmap_ok sl" "all_slabs sl = []"
    and "init_tree cfg sl al tm = Some (Some f)" and "tree_step\<^sup>*\<^sup>* f f'"
  shows "tree_ok f'"
  by (rule tree_steps_ok [OF assms(5) init_tree_ok [OF assms(1-4)]])

theorem reachable_tree_ok_witness:
  "tree_ok (snd (demo_find ''a'' (demo_tree 10)))"
proof (rule reachable_tree_ok [OF demo_slabs_ok demo_init])
  note d = demo_tree_facts [of 10]
  obtain r f' where f': "find_node (demo_tree 10) FUSE_ROOT_ID (Some ''a'') = Some (r, f')"
    using find_ok [OF d(1,3), of "''a''"] d(6) by (auto simp: MAX_NODES_def)
  have "tree_step (demo_tree 10) f'"
    by (rule lookup [OF d(3) _ f']) (use d(6) in \<open>simp add: MAX_NODES_def\<close>)
  then show "tree_step\<^sup>*\<^sup>* (demo_tree 10) (snd (demo_find ''a'' (demo_tree 10)))"
    using f' by (simp add: demo_find_def)
qed

text \<open>
  \<open>find_node\<close> in a directory the kernel knows returns the node the name cache has for the name, with
  one more lookup; otherwise it enters a new node whose number no other node has, and changes nothing
  else.  It fails only without memory, and then changes nothing.
\<close>

lemma find_node_correct:
  assumes "tree_ok f" "known_dir f d" "card (dom (heap f)) < MAX_NODES"
  shows "\<exists>r f'. find_node f d (Some nm) = Some (r, f') \<and> tree_ok f' \<and> found f d nm r f'"
  using find_ok [OF assms] by blast

lemma find_node_correct_witness:
  "\<exists>r f'. find_node (demo_tree 0) FUSE_ROOT_ID (Some ''a'') = Some (r, f') \<and> tree_ok f' \<and>
    found (demo_tree 0) FUSE_ROOT_ID ''a'' r f'"
  by (rule find_node_correct) (use demo_tree_facts [of 0] in \<open>simp_all add: MAX_NODES_def\<close>)



text \<open>
  \<open>remove_node\<close> takes exactly the given entry out of the name cache, keeps every other entry and
  every node the kernel knows, and fails no assertion, provided the kernel has a lookup of the node of
  its own when nodes are remembered.
\<close>

lemma remove_node_correct:
  assumes "tree_ok f" "known_dir f dir" "unlinkable f dir nm"
  shows "\<exists>f'. remove_node f dir nm = Some f' \<and> tree_ok f' \<and> dcache f' = (dcache f)((dir, nm) := None) \<and> known_stay f f'"
  by (rule remove_ok [OF assms])

lemma remove_node_correct_witness:
  "\<exists>f'. remove_node (demo_tree 0) FUSE_ROOT_ID ''a'' = Some f' \<and> tree_ok f' \<and>
    dcache f' = (dcache (demo_tree 0))((FUSE_ROOT_ID, ''a'') := None) \<and> known_stay (demo_tree 0) f'"
  by (rule remove_node_correct) (use demo_tree_facts [of 0] in \<open>simp_all add: unlinkable_def demo_cfg_def\<close>)

text \<open>
  \<open>forget_node\<close> takes the given number of lookups from a node; the last one frees a node without
  children, together with the parents that only it kept alive, and no node the kernel still knows.
\<close>

lemma forget_node_correct:
  assumes "tree_ok f" "heap f p = Some n" "nodeid n = i" "i \<noteq> FUSE_ROOT_ID" "p \<notin> set (lru_table f)"
    and "k \<le> nlookup n" "0 < nlookup n" "nlookup n = k \<longrightarrow> treelock n = 0"
  shows "\<exists>f'. forget_node f i k = Some (Some f') \<and> tree_ok f' \<and>
    (if k < nlookup n then \<exists>tm. heap f' p = Some (n\<lparr>nlookup := nlookup n - k, forget_time := tm\<rparr>)
     else if kids f {} p = {} then heap f' p = None
     else \<exists>r. heap f' p = Some (n\<lparr>nlookup := 0, refctr := r\<rparr>)) \<and>
    (\<forall>x m. x \<noteq> p \<longrightarrow> heap f x = Some m \<longrightarrow> 0 < nlookup m \<longrightarrow> (\<exists>r. heap f' x = Some (m\<lparr>refctr := r\<rparr>)))"
  by (rule forget_ok [OF assms])

lemma forget_node_correct_witness:
  "\<exists>i f' p n. forget_node (demo_a 0) i 1 = Some (Some f') \<and> tree_ok f' \<and> heap (demo_a 0) p = Some n \<and> nodeid n = i \<and>
    (\<forall>x m. x \<noteq> p \<longrightarrow> heap (demo_a 0) x = Some m \<longrightarrow> 0 < nlookup m \<longrightarrow> (\<exists>r. heap f' x = Some (m\<lparr>refctr := r\<rparr>)))"
proof -
  obtain p n where a: "tree_ok (demo_a 0)" "heap (demo_a 0) p = Some n" "nlookup n = 1" "treelock n = 0"
    "nodeid n \<noteq> FUSE_ROOT_ID" "p \<notin> set (lru_table (demo_a 0))"
    by (rule demo_a_facts [of 0]) simp
  have k: "1 \<le> nlookup n" "0 < nlookup n" "nlookup n = 1 \<longrightarrow> treelock n = 0" using a(3,4) by simp_all
  show ?thesis using forget_node_correct [OF a(1,2) refl a(5,6) k] a(2) by blast
qed

text \<open>
  C24. \<open>rename_node\<close> moves the entry of the old name to the new one, replacing what was there, and
  changes no other entry; only without memory for a long name does it fail, and then both entries are gone.
\<close>

theorem rename_node_correct:
  assumes "tree_ok f" "known_dir f olddir" "known_dir f newdir"
    and "lookup_node f olddir oldname = Some (Some p)" "\<not> in_subtree f p newdir"
    and "unlinkable f newdir newname" "hide \<longrightarrow> lookup_node f newdir newname = Some None"
  shows "\<exists>res f'. rename_node f olddir oldname newdir newname hide = Some (res, f') \<and> tree_ok f' \<and> known_stay f f' \<and>
    (res = 0 \<and> dcache f' = (dcache f)((olddir, oldname) := None, (newdir, newname) := dcache f (olddir, oldname)) \<or>
     res = - ENOMEM \<and> INLINE_NAME_SIZE \<le> length newname \<and>
       dcache f' = (dcache f)((olddir, oldname) := None, (newdir, newname) := None))"
  by (rule rename_ok [OF assms])

theorem rename_node_correct_witness:
  "\<exists>res f'. rename_node (demo_a 0) FUSE_ROOT_ID ''a'' FUSE_ROOT_ID ''b'' False = Some (res, f') \<and> tree_ok f' \<and>
    known_stay (demo_a 0) f' \<and>
    (res = 0 \<and> dcache f' = (dcache (demo_a 0))((FUSE_ROOT_ID, ''a'') := None,
       (FUSE_ROOT_ID, ''b'') := dcache (demo_a 0) (FUSE_ROOT_ID, ''a'')) \<or>
     res = - ENOMEM \<and> INLINE_NAME_SIZE \<le> length ''b'' \<and>
       dcache f' = (dcache (demo_a 0))((FUSE_ROOT_ID, ''a'') := None, (FUSE_ROOT_ID, ''b'') := None))"
proof -
  let ?f = "demo_a 0"
  obtain p n where a: "tree_ok ?f" "heap ?f p = Some n" "nodeid n \<noteq> FUSE_ROOT_ID" "known_dir ?f FUSE_ROOT_ID"
    "lookup_node ?f FUSE_ROOT_ID ''a'' = Some (Some p)" "conf ?f = demo_cfg 0"
    by (rule demo_a_facts [of 0]) simp
  have "\<not> in_subtree ?f p FUSE_ROOT_ID" by (rule root_no_subtree [OF a(1,2,3)])
  moreover have "unlinkable ?f FUSE_ROOT_ID ''b''" using a(6) by (simp add: unlinkable_def demo_cfg_def)
  ultimately show ?thesis using rename_node_correct [OF a(1,4,4,5), of "''b''" False] by simp
qed

text \<open>
  \<open>fuse_clean_cache\<close> fails no assertion when no remembered node is locked.  It drops only nodes that
  were on the list and whose time is over, adds no entry to the name cache, and leaves every node with
  another lookup in place.
\<close>

lemma fuse_clean_cache_correct:
  assumes "tree_ok f" and "\<forall>p n. p \<in> set (lru_table f) \<longrightarrow> heap f p = Some n \<longrightarrow> treelock n = 0"
  shows "\<exists>f'. fuse_clean_cache f = Some (clean_delay f, f') \<and> tree_ok f' \<and>
    only_drops (set (lru_table f) \<inter> aged (now f) f) f f'"
  by (rule clean_cache_ok [OF assms])

lemma fuse_clean_cache_correct_witness:
  "\<exists>f'. fuse_clean_cache (demo_tree 10) = Some (clean_delay (demo_tree 10), f') \<and> tree_ok f' \<and>
    only_drops (set (lru_table (demo_tree 10)) \<inter> aged (now (demo_tree 10)) (demo_tree 10)) (demo_tree 10) f'"
  by (rule fuse_clean_cache_correct) (use demo_tree_facts [of 10] in simp_all)

section \<open>A node that is dropped while the kernel uses it\<close>

text \<open>
  With \<open>remember\<close>, unlinking a file takes its remembered lookup, so afterwards the count is the
  kernel's alone.  When the kernel then forgets some of its lookups and one is left, the node is taken
  for a remembered one: it goes on the list, and the cleaning thread frees it.
\<close>

lemma unlinked_then_forgotten:
  assumes t: "tree_ok f" and d: "known_dir f d" and look: "lookup_node f d nm = Some (Some p)"
    and p: "heap f p = Some n" "nodeid n = i" "nlookup n = 3" "kids f {} p = {}" "treelock n = 0"
    and r: "0 < remember (conf f)" and l: "lru_table f = []"
  obtains f1 f2 n2 where "remove_node f d nm = Some f1" "forget_node f1 i 1 = Some (Some f2)" "base {} (\<lambda>_. 0) {} f2"
    "heap f2 p = Some n2" "nlookup n2 = 1" "nodeid n2 = i" "treelock n2 = 0" "refctr n2 \<le> 1" "i \<noteq> FUSE_ROOT_ID"
    "forget_time n2 = now f" "lru_table f2 = [p]" "conf f2 = conf f"
proof -
  have inv: "nodes_inv {} (\<lambda>_. 0) f" by (rule tree_okD(3) [OF t])
  have e: "is_entry f (d, nm) p" using look lookup_node_iff [OF inv, of d nm "Some p"] by simp
  have u: "unlinkable f d nm" using look p(1,3) by (simp add: unlinkable_def)
  obtain n' where n': "heap f p = Some n'" "nodeid n' \<noteq> FUSE_ROOT_ID" by (rule known_dir_entry [OF inv d e]) blast
  obtain f1 j where f1: "unlink_node f p = Some f1" "base {} (\<lambda>_. 0) {} f1" "link_id (links_of f) p = Some j"
    "links_of f1 = (links_of f)(p \<mapsto> (j, None, None))" "same_rest f f1"
    "\<And>k. heap f p = Some k \<Longrightarrow> \<exists>k'. heap f1 p = Some k' \<and> treelock k' = treelock k \<and>
      nlookup k' = nlookup k - (if remember (conf f) = 0 then 0 else 1)"
    by (rule unlink_node_step [OF tree_okD(1) [OF t] d e u]) blast
  have ji: "j = i" using f1(3) p(1,2) by (simp add: link_id_def links_of_def)
  obtain k where k: "heap f1 p = Some k" "treelock k = 0" "nlookup k = 2"
    using f1(6) [OF p(1)] p(3,5) r by auto
  have ki: "nodeid k = i" using fun_cong [OF f1(4), of p] k(1) ji by (simp add: links_of_def)
  have inv1: "nodes_inv {} (\<lambda>_. 0) f1" using f1(2) by (simp add: base_def)
  then have ids: "ids_inv f1" "finite (dom (heap f1))" by (simp_all add: nodes_inv_def mem_inv_def)
  have g: "get_node f1 i = Some p" using get_node_iff [OF ids, of i p] k(1) ki by (simp add: is_id_iff)
  have c1: "conf f1 = conf f" "now f1 = now f" "lru_table f1 = []" using f1(5) l by (simp_all add: same_rest_def)
  have "kids f1 {} p \<subseteq> kids f {} p"
    unfolding kids_def eff_parent_def links_of_facts(1) f1(4) by (auto split: if_splits)
  then have "refctr k = 1" using inv1 k p(4) by (simp add: nodes_inv_def refs_inv_def)
  moreover define f2 where "f2 = set_forget_time p (drop_lookups p 1 f1)"
  moreover have ir: "i \<noteq> FUSE_ROOT_ID" using n' p(1,2) by simp
  moreover have "forget_node f1 i 1 = Some (Some f2)"
    using g k ir c1 r by (simp add: forget_node_def f2_def lru_enabled_def)
  moreover have "base {} (\<lambda>_. 0) {} f2"
    unfolding f2_def by (rule forget_some_step(2) [OF f1(2) k(1)]) (use k c1 r in \<open>simp_all add: lru_enabled_def\<close>)
  moreover have "remove_node f d nm = Some f1" using look f1(1) by (simp add: remove_node_def)
  moreover have "heap f2 p = Some (k\<lparr>nlookup := 1, forget_time := now f\<rparr>)" "lru_table f2 = [p]" "conf f2 = conf f"
    using k c1 by (simp_all add: f2_def set_forget_time_def drop_lookups_def curr_time_def)
  ultimately show thesis using that [of f1 f2 "k\<lparr>nlookup := 1, forget_time := now f\<rparr>"] k ki by simp
qed

lemma clean_drops_unlinked:
  assumes b: "base {} (\<lambda>_. 0) {} f" and p: "heap f p = Some n" "nlookup n = 1" "nodeid n = i" "treelock n = 0" "refctr n \<le> 1"
    and i: "i \<noteq> FUSE_ROOT_ID" and l: "lru_table f = [p]" and age: "of_int (remember (conf f)) < diff_timespec (now f) (forget_time n)"
  shows "\<exists>f'. fuse_clean_cache f = Some (clean_delay f, f') \<and> heap f' p = None \<and> forget_node f' i k = None"
proof -
  have ni: "nodeid n \<noteq> FUSE_ROOT_ID" using p(3) i by simp
  obtain f1 f2 where f2: "unhash_name (upd_node p (\<lambda>n. n\<lparr>nlookup := 0\<rparr>) f) p = Some f1" "unref_node f1 p = Some f2"
    "base {} (\<lambda>_. 0) {} f2" "only_drops {p} f f2" "heap f2 p = None"
    using drop_one_step [OF b p(1,2) ni p(4,5)] by blast
  have "clean_loop (now f) (lru_table f) f = Some f2" using p l age f2(1,2) by simp
  moreover have "clean_delay f2 = clean_delay f" using f2(4) by (simp add: clean_delay_def only_drops_def same_rest_def)
  moreover have "get_node f2 i = None"
  proof (rule ccontr)
    assume "get_node f2 i \<noteq> None"
    then obtain x where x: "get_node f2 i = Some x" by blast
    have ids: "ids_inv f2" "finite (dom (heap f2))" "ids_inv f" using b f2(3)
      by (simp_all add: base_def nodes_inv_def mem_inv_def)
    obtain m where m: "heap f2 x = Some m" "nodeid m = i" using x get_node_iff [OF ids(1,2)] by (auto simp: is_id_iff)
    have "only_refs (heap f x) (heap f2 x)" using f2(4) by (simp add: only_drops_def)
    then obtain m' where "heap f x = Some m'" "nodeid m' = i" using m by (auto elim: only_refsE)
    then have "x = p" using ids_uniq [OF ids(3) _ p(1)] p(3) by simp
    then show False using m f2(5) by simp
  qed
  ultimately show ?thesis using f2(5) i by (simp add: fuse_clean_cache_def curr_time_def forget_node_def)
qed

text \<open>
  C30. With \<open>remember\<close>, after the kernel unlinks a file of which it holds two lookups, gives one of them back,
  and the remember time passes, the cleaning thread frees the node although the kernel holds a lookup;
  the forget of that lookup fails to find the node, which is an \<open>abort\<close>.
\<close>

theorem unlinked_node_lost:
  assumes "tree_ok f" "known_dir f d" "lookup_node f d nm = Some (Some p)"
    and "heap f p = Some n" "nodeid n = i" "nlookup n = 3" "kids f {} p = {}" "treelock n = 0"
    and "0 < remember (conf f)" "lru_table f = []" "of_int (remember (conf f)) < diff_timespec tm (now f)"
  shows "\<exists>f1 f2 f3 n2 delay. remove_node f d nm = Some f1 \<and> forget_node f1 i 1 = Some (Some f2) \<and>
    heap f2 p = Some n2 \<and> nlookup n2 = 1 \<and>
    fuse_clean_cache (f2\<lparr>now := tm\<rparr>) = Some (delay, f3) \<and> heap f3 p = None \<and> forget_node f3 i 1 = None"
proof -
  obtain f1 f2 n2 where a: "remove_node f d nm = Some f1" "forget_node f1 i 1 = Some (Some f2)" "base {} (\<lambda>_. 0) {} f2"
    "heap f2 p = Some n2" "nlookup n2 = 1" "nodeid n2 = i" "treelock n2 = 0" "refctr n2 \<le> 1" "i \<noteq> FUSE_ROOT_ID"
    "forget_time n2 = now f" "lru_table f2 = [p]" "conf f2 = conf f"
    by (rule unlinked_then_forgotten [OF assms(1-10)])
  let ?f = "f2\<lparr>now := tm\<rparr>"
  have "nodes_inv {} (\<lambda>_. 0) f2" using a(3) by (simp add: base_def)
  then have "nodes_inv {} (\<lambda>_. 0) ?f"
    by (rule nodes_inv_same) (use a(3) in \<open>simp_all add: base_def nodes_inv_def mem_inv_def\<close>)
  then have "base {} (\<lambda>_. 0) {} ?f" using a(3) by (simp add: base_def positive_def quiet_def)
  then obtain f3 where "fuse_clean_cache ?f = Some (clean_delay ?f, f3)" "heap f3 p = None" "forget_node f3 i 1 = None"
    using clean_drops_unlinked [of ?f p n2 i 1] a(4-11) assms(11) by (auto simp: a(12))
  then show ?thesis using a by blast
qed

lemma no_kids:
  assumes inv: "nodes_inv {} ext f" and p: "heap f p = Some n" and d: "\<And>s. dcache f (nodeid n, s) = None"
  shows "kids f {} p = {}"
proof (rule ccontr)
  assume "kids f {} p \<noteq> {}"
  then obtain x y where x: "heap f x = Some y" "parent y = Some p" by (auto simp: kids_def eff_parent_Some)
  have li: "links_inv {} f" using inv by (simp add: nodes_inv_def)
  obtain i s l where "links_of f x = Some (i, Some p, Some s)"
    using li x unfolding links_inv_def eff_parent_Some by blast
  then have "link_entry (links_of f) (nodeid n, s) x" "link_id (links_of f) x = Some i"
    using links_of_Some [THEN iffD2, OF exI [of _ n], of f p "nodeid n" "parent n" "name n"] p
    by (simp_all add: link_entry_def link_id_def del: links_of_Some)
  then show False using d dcache_iff [OF inv] by (metis option.distinct(1))
qed

theorem unlinked_node_lost_witness:
  "\<exists>f p n tm f1 f2 f3 n2 delay. find_node (demo_a 10) FUSE_ROOT_ID (Some ''a'') = Some (Some p, f) \<and> heap f p = Some n \<and>
    remove_node f FUSE_ROOT_ID ''a'' = Some f1 \<and> forget_node f1 (nodeid n) 1 = Some (Some f2) \<and>
    heap f2 p = Some n2 \<and> nlookup n2 = 1 \<and>
    fuse_clean_cache (f2\<lparr>now := tm\<rparr>) = Some (delay, f3) \<and> heap f3 p = None \<and> forget_node f3 (nodeid n) 1 = None"
proof -
  let ?a = "demo_a 10"
  obtain p n where a: "tree_ok ?a" "heap ?a p = Some n" "nlookup n = 2" "treelock n = 0" "nodeid n \<noteq> FUSE_ROOT_ID"
    "lookup_node ?a FUSE_ROOT_ID ''a'' = Some (Some p)" "known_dir ?a FUSE_ROOT_ID"
    "dcache ?a = [(FUSE_ROOT_ID, ''a'') \<mapsto> nodeid n]" "conf ?a = demo_cfg 10" "lru_table ?a = []"
    by (rule demo_a_facts [of 10]) simp
  let ?f = "inc_nlookup p ?a" and ?n = "n\<lparr>refctr := refctr n, nlookup := 3\<rparr>"
  have find: "find_node ?a FUSE_ROOT_ID (Some ''a'') = Some (Some p, ?f)" using a(2,3,6) by (simp add: find_node_def)
  have hf: "heap ?f p = Some ?n" using a(2,3) by (simp add: inc_nlookup_def)
  have b: "base {} (\<lambda>_. 0) {} ?f" "links_of ?f = links_of ?a" using inc_step [OF tree_okD(1) [OF a(1)] a(2)] by simp_all
  have same: "lru_table ?f = []" "conf ?f = demo_cfg 10" using a(9,10) by (simp_all add: inc_nlookup_def)
  have t: "tree_ok ?f" using b(1) same by (simp add: tree_ok_def lru_one_def)
  note inv = tree_okD(3) [OF a(1)] and inv' = tree_okD(3) [OF t]
  have look: "lookup_node ?f FUSE_ROOT_ID ''a'' = Some (Some p)"
    using a(6) lookup_node_iff [OF inv, of FUSE_ROOT_ID "''a''" "Some p"] lookup_node_iff [OF inv', of FUSE_ROOT_ID "''a''" "Some p"]
    by (simp add: is_entry_links b(2))
  have kd: "known_dir ?f FUSE_ROOT_ID"
    using known_dir_stay [OF inv inv' _ a(7)] a(2,3) by (simp add: known_stay_def inc_nlookup_def)
  have dc: "dcache ?f = dcache ?a" by (rule dcache_links_eq [OF inv inv' b(2)])
  have kids: "kids ?f {} p = {}" by (rule no_kids [OF inv' hf]) (use dc a(5,8) in simp)
  define tm where "tm = (now ?f)\<lparr>tv_sec := tv_sec (now ?f) + 100\<rparr>"
  have "of_int (remember (conf ?f)) < diff_timespec tm (now ?f)"
    by (simp add: same demo_cfg_def tm_def diff_timespec_def)
  from unlinked_node_lost [OF t kd look hf refl _ kids _ _ same(1) this] a(4)
  obtain f1 f2 f3 n2 delay where "remove_node ?f FUSE_ROOT_ID ''a'' = Some f1" "forget_node f1 (nodeid ?n) 1 = Some (Some f2)"
    "heap f2 p = Some n2" "nlookup n2 = 1" "fuse_clean_cache (f2\<lparr>now := tm\<rparr>) = Some (delay, f3)" "heap f3 p = None"
    "forget_node f3 (nodeid ?n) 1 = None" by (auto simp: same demo_cfg_def)
  then show ?thesis using find hf by blast
qed

end
