(* ===== verification/PathLock.thy ===== *)
theory PathLock
  imports NodeProps
begin

text \<open>
  Paths and their locks in \<open>.deps/libfuse3-3.16.2/lib/fuse.c\<close>: building the path of a node from
  the tree, read locks on the nodes of the path, a write lock on the node an operation is about, and
  the queue of requests that wait for a lock.

  \<open>treelock\<close> is 0 for a free node, the number of readers, \<open>TREELOCK_WRITE\<close>, or the number of readers
  plus \<open>TREELOCK_WAIT_OFFSET\<close> while a writer waits.  A path buffer is filled from its end: \<open>pb_off\<close> is
  the offset of \<open>s\<close>, \<open>pb_text\<close> the characters from there to the terminating NUL.
\<close>

definition TREELOCK_WRITE :: int where
  "TREELOCK_WRITE = -1"

definition TREELOCK_WAIT_OFFSET :: int where
  "TREELOCK_WAIT_OFFSET = - 2147483648"

section \<open>Building a path\<close>

record path_buf =
  pb_size :: u32
  pb_off :: nat
  pb_text :: string

text \<open>The loop that looks for a size; it does not end when more than 4 GB are needed.\<close>

partial_function (option) grow_size :: "u32 \<Rightarrow> nat \<Rightarrow> u32 option" where
  "grow_size newbufsize need =
     (if unat newbufsize < need
      then grow_size (if 0x80000000 \<le> newbufsize then 0xffffffff else newbufsize * 2) need
      else Some newbufsize)"

definition add_name :: "allocs \<Rightarrow> path_buf \<Rightarrow> string \<Rightarrow> (path_buf option \<times> allocs) option" where
  "add_name al b nm =
     (let len = length nm in
      do { (r, al1) \<leftarrow>
             (if pb_off b \<le> len
              then
                (let pathlen = pb_size b - of_nat (pb_off b) in
                 do { newbufsize \<leftarrow> grow_size (pb_size b) (unat pathlen + len + 1);
                      let (ok, al1) = alloc_next al;
                      Some (if ok then Some (b\<lparr>pb_size := newbufsize, pb_off := unat (newbufsize - pathlen)\<rparr>)
                            else None, al1) })
              else Some (Some b, al));
           case r of
             None \<Rightarrow> Some (None, al1)
           | Some b1 \<Rightarrow>
               if pb_off b1 < len + 1 then None
               else Some (Some (b1\<lparr>pb_off := pb_off b1 - (len + 1), pb_text := CHR ''/'' # nm @ pb_text b1\<rparr>), al1) })"

definition start_buf :: path_buf where
  "start_buf = \<lparr>pb_size = 256, pb_off = 255, pb_text = []\<rparr>"

section \<open>Locking and unlocking the nodes of a path\<close>

definition unlock_one :: "int \<Rightarrow> int" where
  "unlock_one t = (if t - 1 = TREELOCK_WAIT_OFFSET then 0 else t - 1)"

partial_function (option) unlock_loop :: "nat option \<Rightarrow> nat option \<Rightarrow> fuse \<Rightarrow> fuse option" where
  "unlock_loop node fin f =
     (if node = fin then Some f
      else Option.bind node (\<lambda>p. Option.bind (heap f p) (\<lambda>n.
        if nodeid n = FUSE_ROOT_ID then Some f
        else if treelock n = 0 \<or> treelock n = TREELOCK_WAIT_OFFSET \<or> treelock n = TREELOCK_WRITE then None
        else unlock_loop (parent n) fin (upd_node p (\<lambda>n. n\<lparr>treelock := unlock_one (treelock n)\<rparr>) f))))"

definition unlock_write :: "nat option \<Rightarrow> fuse \<Rightarrow> fuse option" where
  "unlock_write wnode f =
     (case wnode of
        None \<Rightarrow> Some f
      | Some w \<Rightarrow> do { n \<leftarrow> heap f w;
                      if treelock n \<noteq> TREELOCK_WRITE then None
                      else Some (upd_node w (\<lambda>n. n\<lparr>treelock := 0\<rparr>) f) })"

definition unlock_path :: "fuse \<Rightarrow> u64 \<Rightarrow> nat option \<Rightarrow> nat option \<Rightarrow> fuse option" where
  "unlock_path f ino wnode fin =
     do { f1 \<leftarrow> unlock_write wnode f;
          p \<leftarrow> get_node f1 ino;
          unlock_loop (Some p) fin f1 }"

text \<open>The climb to the root; the result is the error, the node it stopped at and the buffer.\<close>

partial_function (option) path_loop :: "bool \<Rightarrow> nat \<Rightarrow> path_buf \<Rightarrow> fuse \<Rightarrow> (int \<times> nat \<times> path_buf \<times> fuse) option" where
  "path_loop need_lock p b f =
     Option.bind (heap f p) (\<lambda>n.
       if nodeid n = FUSE_ROOT_ID then Some (0, p, b, f)
       else
         (case (name n, parent n) of
            (Some nm, Some q) \<Rightarrow>
              Option.bind (add_name (allocs f) b nm) (\<lambda>(r, al).
                (case r of
                   None \<Rightarrow> Some (- ENOMEM, p, b, f\<lparr>allocs := al\<rparr>)
                 | Some b1 \<Rightarrow>
                     if need_lock \<and> treelock n < 0 then Some (- EAGAIN, p, b1, f\<lparr>allocs := al\<rparr>)
                     else path_loop need_lock q b1
                       ((if need_lock then upd_node p (\<lambda>n. n\<lparr>treelock := treelock n + 1\<rparr>) f else f)\<lparr>allocs := al\<rparr>)))
          | _ \<Rightarrow> Some (- ESTALE, p, b, f)))"

text \<open>The write lock; a writer that finds readers makes them the last ones.\<close>

definition take_wnode :: "fuse \<Rightarrow> u64 \<Rightarrow> string \<Rightarrow> (int \<times> nat option \<times> fuse) option" where
  "take_wnode f ino nm =
     do { r \<leftarrow> lookup_node f ino nm;
          case r of
            None \<Rightarrow> Some (0, None, f)
          | Some w \<Rightarrow>
              do { n \<leftarrow> heap f w;
                   Some (if treelock n \<noteq> 0
                         then (- EAGAIN, None,
                               if 0 < treelock n
                               then upd_node w (\<lambda>n. n\<lparr>treelock := treelock n + TREELOCK_WAIT_OFFSET\<rparr>) f else f)
                         else (0, Some w, upd_node w (\<lambda>n. n\<lparr>treelock := TREELOCK_WRITE\<rparr>) f)) } }"

definition first_name :: "allocs \<Rightarrow> string option \<Rightarrow> (path_buf option \<times> allocs) option" where
  "first_name al nmo = (case nmo of None \<Rightarrow> Some (Some start_buf, al) | Some nm \<Rightarrow> add_name al start_buf nm)"

definition try_get_path ::
  "fuse \<Rightarrow> u64 \<Rightarrow> string option \<Rightarrow> bool \<Rightarrow> bool \<Rightarrow> (int \<times> string option \<times> nat option \<times> fuse) option" where
  "try_get_path f ino nmo want_wnode need_lock =
     (let (ok, al) = alloc_next (allocs f) in
      if \<not> ok then Some (- ENOMEM, None, None, f\<lparr>allocs := al\<rparr>)
      else do {
        (r, al1) \<leftarrow> first_name al nmo;
        let f1 = f\<lparr>allocs := al1\<rparr>;
        case r of
          None \<Rightarrow> Some (- ENOMEM, None, None, f1)
        | Some b \<Rightarrow>
            do { (err, wnode, f2) \<leftarrow>
                   (if want_wnode
                    then (if need_lock then do { nm \<leftarrow> nmo; take_wnode f1 ino nm } else None)
                    else Some (0, None, f1));
                 if err \<noteq> 0 then Some (err, None, None, f2)
                 else do {
                   p \<leftarrow> get_node f2 ino;
                   (err, q, b1, f3) \<leftarrow> path_loop need_lock p b f2;
                   if err = 0
                   then Some (0, Some (if pb_text b1 = [] then ''/'' else pb_text b1), wnode, f3)
                   else do { f4 \<leftarrow> (if need_lock then unlock_path f3 ino wnode (Some q) else Some f3);
                             Some (err, None, None, f4) } } } })"

definition try_get_path2 ::
  "fuse \<Rightarrow> u64 \<Rightarrow> string option \<Rightarrow> u64 \<Rightarrow> string option \<Rightarrow> bool \<Rightarrow> bool \<Rightarrow>
   (int \<times> string option \<times> string option \<times> nat option \<times> nat option \<times> fuse) option" where
  "try_get_path2 f ino1 nm1 ino2 nm2 want1 want2 =
     do { (err, path1, w1, f1) \<leftarrow> try_get_path f ino1 nm1 want1 True;
          if err \<noteq> 0 then Some (err, path1, None, w1, None, f1)
          else do {
            (err2, path2, w2, f2) \<leftarrow> try_get_path f1 ino2 nm2 want2 True;
            if err2 \<noteq> 0
            then do { f3 \<leftarrow> unlock_path f2 ino1 w1 None; Some (err2, None, path2, w1, None, f3) }
            else Some (0, path1, path2, w1, w2, f2) } }"

section \<open>Waiting for a path\<close>

definition queue_element_wakeup :: "fuse \<Rightarrow> lock_queue_element \<Rightarrow> (lock_queue_element \<times> fuse) option" where
  "queue_element_wakeup f qe =
     (if \<not> qe_want_path1 qe
      then do { p \<leftarrow> get_node f (qe_nodeid1 qe);
                n \<leftarrow> heap f p;
                Some (if treelock n = 0 then qe\<lparr>qe_signalled := True\<rparr> else qe, f) }
      else if qe_done qe then Some (qe, f)
      else do {
        (err, path1, path2, w1, w2, f1) \<leftarrow>
          (if \<not> qe_want_path2 qe
           then do { (err, path, w, f1) \<leftarrow> try_get_path f (qe_nodeid1 qe) (qe_name1 qe) (qe_want_wnode1 qe) True;
                     Some (err, path, None, w, None, f1) }
           else try_get_path2 f (qe_nodeid1 qe) (qe_name1 qe) (qe_nodeid2 qe) (qe_name2 qe)
                  (qe_want_wnode1 qe) (qe_want_wnode2 qe));
        Some (if err = - EAGAIN then qe
              else qe\<lparr>qe_err := err, qe_done := True, qe_signalled := True, qe_path1 := path1, qe_path2 := path2,
                      qe_wnode1 := w1, qe_wnode2 := w2\<rparr>, f1) })"

fun wake_loop :: "lock_queue_element list \<Rightarrow> fuse \<Rightarrow> (lock_queue_element list \<times> fuse) option" where
  "wake_loop [] f = Some ([], f)"
| "wake_loop (qe # qes) f =
     do { (qe1, f1) \<leftarrow> queue_element_wakeup f qe;
          (qes1, f2) \<leftarrow> wake_loop qes f1;
          Some (qe1 # qes1, f2) }"

definition wake_up_queued :: "fuse \<Rightarrow> fuse option" where
  "wake_up_queued f = do { (qes, f1) \<leftarrow> wake_loop (lockq f) f; Some (f1\<lparr>lockq := qes\<rparr>) }"

definition queue_path :: "lock_queue_element \<Rightarrow> fuse \<Rightarrow> fuse" where
  "queue_path qe f = f\<lparr>lockq := lockq f @ [qe\<lparr>qe_done := False\<rparr>]\<rparr>"

definition dequeue_path :: "nat \<Rightarrow> fuse \<Rightarrow> fuse option" where
  "dequeue_path i f =
     (if i \<in> qe_id ` set (lockq f) then Some (f\<lparr>lockq := filter (\<lambda>qe. qe_id qe \<noteq> i) (lockq f)\<rparr>) else None)"

section \<open>Giving a path back\<close>

definition free_path_wrlock :: "fuse \<Rightarrow> u64 \<Rightarrow> nat option \<Rightarrow> fuse option" where
  "free_path_wrlock f ino wnode =
     do { f1 \<leftarrow> unlock_path f ino wnode None;
          if lockq f1 \<noteq> [] then wake_up_queued f1 else Some f1 }"

definition free_path :: "fuse \<Rightarrow> u64 \<Rightarrow> string option \<Rightarrow> fuse option" where
  "free_path f ino path = (case path of None \<Rightarrow> Some f | Some _ \<Rightarrow> free_path_wrlock f ino None)"

definition free_path2 :: "fuse \<Rightarrow> u64 \<Rightarrow> u64 \<Rightarrow> nat option \<Rightarrow> nat option \<Rightarrow> fuse option" where
  "free_path2 f ino1 ino2 wnode1 wnode2 =
     do { f1 \<leftarrow> unlock_path f ino1 wnode1 None;
          f2 \<leftarrow> unlock_path f1 ino2 wnode2 None;
          wake_up_queued f2 }"

section \<open>The buffer\<close>

definition buf_ok :: "path_buf \<Rightarrow> bool" where
  "buf_ok b \<longleftrightarrow> pb_off b + length (pb_text b) + 1 = unat (pb_size b)"

definition MAX_PATH :: nat where
  "MAX_PATH = 0xffffffff"

lemma u32_bound: "unat (w :: u32) < 2 ^ 32"
  by (rule order_less_le_trans [OF unsigned_less]) simp

lemma grow_size_total:
  assumes "need \<le> MAX_PATH" and "0 < unat w"
  shows "\<exists>m. grow_size w need = Some m \<and> need \<le> unat m \<and> unat w \<le> unat m"
  using assms(2)
proof (induction "2 ^ 32 - unat w" arbitrary: w rule: less_induct)
  case less
  have lt: "unat w < 2 ^ 32" by (rule u32_bound)
  show ?case
  proof (cases "unat w < need")
    case False
    then show ?thesis by (subst grow_size.simps) simp
  next
    case small: True
    show ?thesis
    proof (cases "0x80000000 \<le> w")
      case True
      have "grow_size w need = grow_size 0xffffffff need" using small True by (subst grow_size.simps) simp
      moreover have "grow_size 0xffffffff need = Some 0xffffffff"
        using assms(1) by (subst grow_size.simps) (simp add: MAX_PATH_def)
      moreover have "unat w \<le> 0xffffffff" using lt by simp
      ultimately show ?thesis using assms(1) by (simp add: MAX_PATH_def)
    next
      case False
      then have "unat w < 0x80000000" by (simp add: word_le_nat_alt)
      then have d: "unat (w * 2) = 2 * unat w" by (simp add: unat_word_ariths)
      have "grow_size w need = grow_size (w * 2) need" using small False by (subst grow_size.simps) simp
      moreover have "\<exists>m. grow_size (w * 2) need = Some m \<and> need \<le> unat m \<and> unat (w * 2) \<le> unat m"
        by (rule less) (use d lt less.prems in simp_all)
      ultimately show ?thesis using d by auto
    qed
  qed
qed

lemma add_name_ok:
  assumes b: "buf_ok b" and len: "length (pb_text b) + length nm + 2 \<le> MAX_PATH"
  obtains (failed) al' where "add_name al b nm = Some (None, al')" "al \<noteq> []"
  | (added) b' al' where "add_name al b nm = Some (Some b', al')" "buf_ok b'" "pb_text b' = CHR ''/'' # nm @ pb_text b"
      "al = [] \<longrightarrow> al' = []"
proof (cases "pb_off b \<le> length nm")
  case False
  then have "add_name al b nm = Some (Some (b\<lparr>pb_off := pb_off b - (length nm + 1), pb_text := CHR ''/'' # nm @ pb_text b\<rparr>), al)"
    by (simp add: add_name_def)
  then show thesis using added b False by (simp add: buf_ok_def)
next
  case True
  let ?pl = "pb_size b - of_nat (pb_off b)" and ?need = "length (pb_text b) + 1 + length nm + 1"
  have lt: "unat (pb_size b) < 2 ^ 32" by (rule u32_bound)
  have "unat (of_nat (pb_off b) :: u32) = pb_off b" using b lt by (simp add: buf_ok_def unat_of_nat)
  then have pl: "unat ?pl = length (pb_text b) + 1" using b by (simp add: buf_ok_def unat_sub word_le_nat_alt)
  have "0 < unat (pb_size b)" using b by (simp add: buf_ok_def)
  then obtain m where m: "grow_size (pb_size b) ?need = Some m" "?need \<le> unat m"
    using grow_size_total [of ?need "pb_size b"] len by auto
  have off: "unat (m - ?pl) = unat m - (length (pb_text b) + 1)"
    using m(2) pl by (simp add: unat_sub word_le_nat_alt)
  obtain ok al1 where al: "alloc_next al = (ok, al1)" by (metis surj_pair)
  show thesis
  proof (cases ok)
    case False
    then have "add_name al b nm = Some (None, al1)" using True m pl al by (simp add: add_name_def)
    moreover have "al \<noteq> []" using al False by auto
    ultimately show thesis using failed by simp
  next
    case ok: True
    let ?b = "b\<lparr>pb_size := m, pb_off := unat (m - ?pl) - (length nm + 1), pb_text := CHR ''/'' # nm @ pb_text b\<rparr>"
    have "add_name al b nm = Some (Some ?b, al1)" using True m pl al ok off by (simp add: add_name_def Let_def)
    moreover have "buf_ok ?b" using m(2) off by (simp add: buf_ok_def)
    moreover have "al = [] \<longrightarrow> al1 = []" using al by auto
    ultimately show thesis using added by simp
  qed
qed

section \<open>The way up\<close>

text \<open>The nodes a climb passes, and the node it ends at.\<close>

inductive climbs :: "fuse \<Rightarrow> nat \<Rightarrow> nat list \<Rightarrow> nat \<Rightarrow> bool" for f where
  here: "climbs f p [] p"
| up: "heap f p = Some n \<Longrightarrow> nodeid n \<noteq> FUSE_ROOT_ID \<Longrightarrow> name n = Some nm \<Longrightarrow> parent n = Some q \<Longrightarrow>
    climbs f q ps e \<Longrightarrow> climbs f p (p # ps) e"

inductive_cases climbs_NilE: "climbs f p [] e"
inductive_cases climbs_ConsE: "climbs f p (x # ps) e"

definition top_node :: "fuse \<Rightarrow> nat \<Rightarrow> bool" where
  "top_node f e \<longleftrightarrow> (\<exists>n. heap f e = Some n \<and> (nodeid n = FUSE_ROOT_ID \<or> name n = None \<or> parent n = None))"

definition is_root :: "fuse \<Rightarrow> nat \<Rightarrow> bool" where
  "is_root f e \<longleftrightarrow> (\<exists>n. heap f e = Some n \<and> nodeid n = FUSE_ROOT_ID)"

text \<open>The path that a list of nodes, from the last to the first component, spells.\<close>

fun spell :: "fuse \<Rightarrow> nat list \<Rightarrow> string" where
  "spell f [] = []"
| "spell f (p # ps) = spell f ps @ (case heap f p of Some n \<Rightarrow> (case name n of Some s \<Rightarrow> CHR ''/'' # s | None \<Rightarrow> []) | None \<Rightarrow> [])"

lemma climbs_parent: "climbs f p ps e \<Longrightarrow> (p, e) \<in> (parent_rel f)\<^sup>* \<and> (\<forall>x \<in> set ps. (p, x) \<in> (parent_rel f)\<^sup>* \<and> (x, e) \<in> (parent_rel f)\<^sup>+)"
proof (induction rule: climbs.induct)
  case (up p n nm q ps e)
  have "(p, q) \<in> parent_rel f" using up by (auto intro: parent_relI)
  then show ?case using up.IH by (auto intro: converse_rtrancl_into_rtrancl rtrancl_into_trancl2)
qed auto

lemma climbs_distinct: "climbs f p ps e \<Longrightarrow> acyclic (parent_rel f) \<Longrightarrow> distinct ps \<and> e \<notin> set ps"
proof (induction rule: climbs.induct)
  case (up p n nm q ps e)
  have pq: "(p, q) \<in> parent_rel f" using up by (auto intro: parent_relI)
  have "(q, x) \<in> (parent_rel f)\<^sup>*" if "x \<in> set ps \<or> x = e" for x
    using that climbs_parent [OF up.hyps(5)] by auto
  then have "(p, x) \<in> (parent_rel f)\<^sup>+" if "x \<in> set ps \<or> x = e" for x
    using that rtrancl_into_trancl2 [OF pq] by blast
  then have "p \<notin> set ps" "p \<noteq> e" using up.prems by (auto simp: acyclic_def)
  then show ?case using up.IH [OF up.prems] by auto
qed auto

lemma parent_rel_wf:
  assumes "nodes_inv {} ext f"
  shows "wf ((parent_rel f)\<inverse>)"
proof (rule finite_acyclic_wf_converse)
  have li: "links_inv {} f" and fin: "finite (dom (heap f))" using assms by (simp_all add: nodes_inv_def mem_inv_def)
  have "parent_rel f \<subseteq> dom (heap f) \<times> dom (heap f)"
  proof
    fix z assume z: "z \<in> parent_rel f"
    obtain x y where xy: "z = (x, y)" by (cases z)
    have "x \<in> dom (heap f)" using z xy by (cases "heap f x") (auto simp: parent_rel_def)
    then obtain n where n: "heap f x = Some n" by blast
    then have "parent n = Some y" using z xy by (simp add: parent_rel_def)
    then have "heap f y \<noteq> None" using parent_live [OF li, of x n y] n by auto
    then show "z \<in> dom (heap f) \<times> dom (heap f)" using \<open>x \<in> dom (heap f)\<close> xy by auto
  qed
  then show "finite (parent_rel f)" using fin by (meson finite_SigmaI finite_subset)
  show "acyclic (parent_rel f)" using assms by (simp add: nodes_inv_def)
qed

lemma climbs_exists:
  assumes inv: "nodes_inv {} ext f" and p: "heap f p = Some n"
  shows "\<exists>ps e. climbs f p ps e \<and> top_node f e"
  using p
proof (induction p arbitrary: n rule: wf_induct_rule [OF parent_rel_wf [OF inv]])
  case (1 p)
  have li: "links_inv {} f" using inv by (simp add: nodes_inv_def)
  show ?case
  proof (cases "nodeid n = FUSE_ROOT_ID \<or> name n = None \<or> parent n = None")
    case True
    then have "top_node f p" using 1 by (auto simp: top_node_def)
    then show ?thesis using climbs.here by blast
  next
    case False
    then obtain s q where q: "name n = Some s" "parent n = Some q" by auto
    obtain m where m: "heap f q = Some m" using parent_live [OF li, of p n q] 1(2) q by auto
    have "(q, p) \<in> (parent_rel f)\<inverse>" using 1(2) q by (auto intro: parent_relI)
    then obtain ps e where "climbs f q ps e" "top_node f e" using 1(1) m by blast
    then show ?thesis using climbs.up [OF 1(2) _ q] False by blast
  qed
qed

lemma climbs_append:
  "climbs f p (qs @ rs) e \<Longrightarrow> \<exists>q. climbs f p qs q \<and> climbs f q rs e \<and> q = hd (rs @ [e])"
proof (induction qs arbitrary: p)
  case Nil
  then have "hd (rs @ [e]) = p" by (cases rs) (auto elim: climbs.cases)
  then show ?case using Nil climbs.here by auto
next
  case (Cons x qs)
  then obtain n nm q where u: "x = p" "heap f p = Some n" "nodeid n \<noteq> FUSE_ROOT_ID" "name n = Some nm" "parent n = Some q"
    "climbs f q (qs @ rs) e" by (auto elim: climbs_ConsE)
  then show ?case using Cons.IH [OF u(6)] climbs.up [OF u(2-5)] by auto
qed

lemma climbs_unique:
  assumes "climbs f p ps e" "is_root f e" "climbs f p ps' e'" "is_root f e'"
  shows "ps = ps' \<and> e = e'"
  using assms
proof (induction arbitrary: ps' rule: climbs.induct)
  case (here p)
  then show ?case by (cases ps') (auto simp: is_root_def elim: climbs.cases)
next
  case (up p n nm q ps e)
  then show ?case by (cases ps') (auto simp: is_root_def elim: climbs.cases)
qed

section \<open>Locks as a map\<close>

text \<open>A state with other locks: everything the functions of this theory change but the queue.\<close>

definition relock :: "(nat \<Rightarrow> int) \<Rightarrow> allocs \<Rightarrow> fuse \<Rightarrow> fuse" where
  "relock t al f = f\<lparr>heap := (\<lambda>x. map_option (\<lambda>n. n\<lparr>treelock := t x\<rparr>) (heap f x)), allocs := al\<rparr>"

definition locks_of :: "fuse \<Rightarrow> nat \<Rightarrow> int" where
  "locks_of f x = (case heap f x of Some n \<Rightarrow> treelock n | None \<Rightarrow> 0)"

lemma relock_simps [simp]:
  "heap (relock t al f) x = map_option (\<lambda>n. n\<lparr>treelock := t x\<rparr>) (heap f x)"
  "allocs (relock t al f) = al" "conf (relock t al f) = conf f" "lockq (relock t al f) = lockq f"
  "name_table (relock t al f) = name_table f" "id_table (relock t al f) = id_table f"
  "slabs (relock t al f) = slabs f" "lru_table (relock t al f) = lru_table f"
  "relock t al (relock t' al' f) = relock t al f" "(relock t al f)\<lparr>allocs := al'\<rparr> = relock t al' f"
  "dom (heap (relock t al f)) = dom (heap f)"
  by (auto simp: relock_def fun_eq_iff option.map_comp comp_def)

lemma relock_self: "f = relock (locks_of f) (allocs f) f"
proof -
  have "heap f x = map_option (\<lambda>n. n\<lparr>treelock := locks_of f x\<rparr>) (heap f x)" for x
    by (cases "heap f x") (simp_all add: locks_of_def)
  then show ?thesis by (simp add: relock_def fun_eq_iff [symmetric])
qed

lemma relock_upd:
  "upd_node p (\<lambda>n. n\<lparr>treelock := v\<rparr>) (relock t al f) = relock (t(p := v)) al f"
  by (simp add: upd_node_def relock_def fun_eq_iff option.map_comp comp_def)

lemma relock_upd_fun:
  "upd_node p (\<lambda>n. n\<lparr>treelock := g (treelock n)\<rparr>) (relock t al f) = relock (t(p := g (t p))) al f"
  by (simp add: upd_node_def relock_def fun_eq_iff option.map_comp comp_def)

lemmas relock_raise = relock_upd_fun [of _ "\<lambda>t. t + 1"]
lemmas relock_release = relock_upd_fun [of _ unlock_one]

lemma relock_links [simp]: "links_of (relock t al f) = links_of f"
  by (simp add: links_of_def fun_eq_iff option.map_comp comp_def)

lemma relock_cong: "(\<And>x. heap f x \<noteq> None \<Longrightarrow> t x = t' x) \<Longrightarrow> relock t al f = relock t' al f"
proof -
  assume "\<And>x. heap f x \<noteq> None \<Longrightarrow> t x = t' x"
  then have "map_option (\<lambda>n. n\<lparr>treelock := t x\<rparr>) (heap f x) = map_option (\<lambda>n. n\<lparr>treelock := t' x\<rparr>) (heap f x)" for x
    by (cases "heap f x") auto
  then show ?thesis by (simp add: relock_def)
qed

definition raise :: "nat set \<Rightarrow> (nat \<Rightarrow> int) \<Rightarrow> nat \<Rightarrow> int" where
  "raise X t x = (if x \<in> X then t x + 1 else t x)"

definition release :: "nat set \<Rightarrow> (nat \<Rightarrow> int) \<Rightarrow> nat \<Rightarrow> int" where
  "release X t x = (if x \<in> X then unlock_one (t x) else t x)"

text \<open>How a climb with locks may end: at the root, at a node off the tree, at a locked node, or without memory.\<close>

definition climb_end :: "fuse \<Rightarrow> bool \<Rightarrow> (nat \<Rightarrow> int) \<Rightarrow> allocs \<Rightarrow> nat list \<Rightarrow> nat \<Rightarrow> int \<Rightarrow> bool" where
  "climb_end f lk t al rs e err \<longleftrightarrow>
     (err = 0 \<and> rs = [] \<and> is_root f e) \<or> (err = - ESTALE \<and> rs = [] \<and> \<not> is_root f e) \<or>
     (err = - EAGAIN \<and> lk \<and> rs \<noteq> [] \<and> t (hd rs) < 0) \<or> (err = - ENOMEM \<and> al \<noteq> [])"

lemma path_loop_ok:
  assumes "climbs f p ps e" and "top_node f e" and "p \<in> dom (heap f)"
    and "distinct ps" and "buf_ok b" and "length (pb_text b) + length (spell f ps) + 1 \<le> MAX_PATH"
  shows "\<exists>err q b' al' qs rs. path_loop lk p b (relock t al f) =
      Some (err, q, b', relock (raise (if lk then set qs else {}) t) al' f) \<and>
    ps = qs @ rs \<and> q = hd (rs @ [e]) \<and> (lk \<longrightarrow> (\<forall>x \<in> set qs. 0 \<le> t x)) \<and> climb_end f lk t al rs e err \<and> (al = [] \<longrightarrow> al' = []) \<and>
    (err = 0 \<longrightarrow> pb_text b' = spell f ps @ pb_text b)"
  using assms
proof (induction arbitrary: b t al rule: climbs.induct)
  case (here p)
  then obtain n where n: "heap f p = Some n" by blast
  have r: "raise {} t = t" for t by (simp add: raise_def fun_eq_iff)
  show ?case
  proof (cases "nodeid n = FUSE_ROOT_ID")
    case True
    then have "path_loop lk p b (relock t al f) = Some (0, p, b, relock t al f)"
      using n by (subst path_loop.simps) simp
    moreover have "climb_end f lk t al [] p 0" using n True by (simp add: climb_end_def is_root_def)
    ultimately show ?thesis by (intro exI [of _ 0] exI [of _ p] exI [of _ b] exI [of _ al] exI [of _ "[]"]) (simp add: r)
  next
    case False
    then have "path_loop lk p b (relock t al f) = Some (- ESTALE, p, b, relock t al f)"
      using n here(1) by (subst path_loop.simps) (auto simp: top_node_def split: option.splits)
    moreover have "climb_end f lk t al [] p (- ESTALE)" using n False by (simp add: climb_end_def is_root_def)
    moreover have "- ESTALE \<noteq> 0" by (simp add: ESTALE_def)
    ultimately show ?thesis
      by (intro exI [of _ "- ESTALE"] exI [of _ p] exI [of _ b] exI [of _ al] exI [of _ "[]"]) (simp add: r)
  qed
next
  case (up p n nm q ps e)
  have len: "length (pb_text b) + length nm + 2 \<le> MAX_PATH" using up.prems up.hyps by simp
  have r: "raise {} t = t" by (simp add: raise_def fun_eq_iff)
  have step: "path_loop lk p b (relock t al f) = Option.bind (add_name al b nm) (\<lambda>(r, al).
                (case r of
                   None \<Rightarrow> Some (- ENOMEM, p, b, relock t al f)
                 | Some b1 \<Rightarrow>
                     if lk \<and> t p < 0 then Some (- EAGAIN, p, b1, relock t al f)
                     else path_loop lk q b1 (relock (if lk then t(p := t p + 1) else t) al f)))"
    using up.hyps by (subst path_loop.simps) (auto simp: relock_raise cong: if_cong option.case_cong)
  show ?case
  proof (cases rule: add_name_ok [OF up.prems(4) len, of al])
    case (1 al')
    have "climb_end f lk t al (p # ps) e (- ENOMEM)" using 1(2) by (simp add: climb_end_def)
    moreover have "- ENOMEM \<noteq> 0" by (simp add: ENOMEM_def)
    ultimately show ?thesis using step 1
      by (intro exI [of _ "- ENOMEM"] exI [of _ p] exI [of _ b] exI [of _ al'] exI [of _ "[]"] exI [of _ "p # ps"]) (simp add: r)
  next
    case (2 b1 al1)
    show ?thesis
    proof (cases "lk \<and> t p < 0")
      case True
      have "climb_end f lk t al (p # ps) e (- EAGAIN)" using True by (simp add: climb_end_def)
      moreover have "- EAGAIN \<noteq> 0" by (simp add: EAGAIN_def)
      ultimately show ?thesis using step 2(1,4) True
        by (intro exI [of _ "- EAGAIN"] exI [of _ p] exI [of _ b1] exI [of _ al1] exI [of _ "[]"] exI [of _ "p # ps"]) (simp add: r)
    next
      case False
      let ?t = "if lk then t(p := t p + 1) else t"
      have q: "q \<in> dom (heap f)" using up.hyps(5) up.prems(1) by (cases ps) (auto simp: top_node_def elim: climbs.cases)
      have "distinct ps" "p \<notin> set ps" using up.prems(3) by simp_all
      moreover have "length (pb_text b1) + length (spell f ps) + 1 \<le> MAX_PATH" using 2(3) up.prems(5) up.hyps by simp
      ultimately obtain err q' b' al' qs rs where ih: "path_loop lk q b1 (relock ?t al1 f) =
          Some (err, q', b', relock (raise (if lk then set qs else {}) ?t) al' f)" "ps = qs @ rs" "q' = hd (rs @ [e])"
        "lk \<longrightarrow> (\<forall>x \<in> set qs. 0 \<le> ?t x)" "climb_end f lk ?t al1 rs e err"
        "al1 = [] \<longrightarrow> al' = []" "err = 0 \<longrightarrow> pb_text b' = spell f ps @ pb_text b1"
        using up.IH [OF up.prems(1) q _ 2(2), of ?t al1] by blast
      have np: "p \<notin> set qs" "p \<notin> set rs" using \<open>p \<notin> set ps\<close> ih(2) by auto
      have "raise (if lk then set qs else {}) ?t = raise (if lk then set (p # qs) else {}) t"
        using np by (auto simp: raise_def fun_eq_iff)
      moreover have "climb_end f lk t al rs e err" using ih(5) np 2(4) by (cases rs) (auto simp: climb_end_def)
      moreover have "lk \<longrightarrow> (\<forall>x \<in> set (p # qs). 0 \<le> t x)" using ih(4) np False by (auto split: if_splits)
      moreover have "path_loop lk p b (relock t al f) = path_loop lk q b1 (relock ?t al1 f)"
        using step 2(1) False by (simp cong: if_cong)
      ultimately show ?thesis using ih 2(3,4) up.hyps
        by (intro exI [of _ err] exI [of _ q'] exI [of _ b'] exI [of _ al'] exI [of _ "p # qs"] exI [of _ rs]) simp
    qed
  qed
qed

lemma has_id_relock [simp]: "has_id (relock t al f) = has_id f"
proof (rule ext, rule ext)
  show "has_id (relock t al f) i p = has_id f i p" for i p by (cases "heap f p") (simp_all add: has_id_def)
qed

lemma get_node_relock [simp]: "get_node (relock t al f) i = get_node f i"
  by (simp add: get_node_def get_node_nocheck_def id_hash_def)

lemma has_name_relock [simp]: "has_name (relock t al f) i nm = has_name f i nm"
proof (rule ext)
  fix p
  show "has_name (relock t al f) i nm p = has_name f i nm p"
  proof (cases "heap f p")
    case (Some n)
    then show ?thesis
      by (cases "parent n"; cases "heap f (the (parent n))"; simp add: has_name_def)
  qed (simp add: has_name_def)
qed

lemma lookup_node_relock [simp]: "lookup_node (relock t al f) i nm = lookup_node f i nm"
  by (simp add: lookup_node_def name_hash_def)

definition unlockable :: "int \<Rightarrow> bool" where
  "unlockable t \<longleftrightarrow> t \<noteq> 0 \<and> t \<noteq> TREELOCK_WAIT_OFFSET \<and> t \<noteq> TREELOCK_WRITE"

lemma unlock_loop_ok:
  assumes "climbs f p qs q" and "distinct qs" and "q \<notin> set qs" and "\<forall>x \<in> set qs. unlockable (t x)"
    and "fin = Some q \<or> fin = None \<and> is_root f q"
  shows "unlock_loop (Some p) fin (relock t al f) = Some (relock (release (set qs) t) al f)"
  using assms
proof (induction arbitrary: t rule: climbs.induct)
  case (here p)
  have "release {} t = t" by (simp add: release_def fun_eq_iff)
  then show ?case using here by (subst unlock_loop.simps) (auto simp: is_root_def)
next
  case (up p n nm q ps e)
  have ne: "Some p \<noteq> fin" using up.prems(2,4) by auto
  let ?t = "t(p := unlock_one (t p))"
  have "unlock_loop (Some p) fin (relock t al f) = unlock_loop (Some q) fin (relock ?t al f)"
    using up.hyps up.prems(3) ne by (subst unlock_loop.simps) (simp add: unlockable_def relock_release)
  also have "\<dots> = Some (relock (release (set ps) ?t) al f)"
    by (rule up.IH) (use up.prems in auto)
  also have "release (set ps) ?t = release (set (p # ps)) t" using up.prems(1) by (auto simp: release_def fun_eq_iff)
  finally show ?case .
qed

definition write_lock :: "nat option \<Rightarrow> int \<Rightarrow> (nat \<Rightarrow> int) \<Rightarrow> nat \<Rightarrow> int" where
  "write_lock w v t = (case w of None \<Rightarrow> t | Some x \<Rightarrow> t(x := v))"

lemma unlock_path_ok:
  assumes "get_node f ino = Some p" and "climbs f p qs q" and "distinct qs" and "q \<notin> set qs"
    and "\<forall>x \<in> set qs. unlockable (t x)" and "fin = Some q \<or> fin = None \<and> is_root f q"
    and "\<forall>x. w = Some x \<longrightarrow> heap f x \<noteq> None \<and> t x = TREELOCK_WRITE \<and> x \<notin> set qs"
  shows "unlock_path (relock t al f) ino w fin = Some (relock (release (set qs) (write_lock w 0 t)) al f)"
proof -
  have "unlock_write w (relock t al f) = Some (relock (write_lock w 0 t) al f)"
  proof (cases w)
    case (Some x)
    then show ?thesis using assms(7) by (auto simp: unlock_write_def write_lock_def relock_upd)
  qed (simp add: unlock_write_def write_lock_def)
  moreover have "\<forall>x \<in> set qs. unlockable (write_lock w 0 t x)"
    using assms(5,7) by (auto simp: write_lock_def split: option.splits)
  ultimately show ?thesis
    using assms(1) unlock_loop_ok [OF assms(2-4) _ assms(6)] by (simp add: unlock_path_def)
qed

lemma release_raise: "(\<And>x. x \<in> X \<Longrightarrow> 0 \<le> t x) \<Longrightarrow> release X (raise X t) = t"
  by (fastforce simp: release_def raise_def unlock_one_def TREELOCK_WAIT_OFFSET_def fun_eq_iff)

section \<open>Getting a path\<close>

definition name_part :: "string option \<Rightarrow> string" where
  "name_part nmo = (case nmo of None \<Rightarrow> [] | Some nm \<Rightarrow> CHR ''/'' # nm)"

definition path_text :: "fuse \<Rightarrow> nat list \<Rightarrow> string option \<Rightarrow> string" where
  "path_text f ps nmo = (let s = spell f ps @ name_part nmo in if s = [] then ''/'' else s)"

lemma first_name_ok:
  assumes "length (name_part nmo) + 1 \<le> MAX_PATH"
  obtains (failed) al' where "first_name al nmo = Some (None, al')" "al \<noteq> []"
  | (got) b al' where "first_name al nmo = Some (Some b, al')" "buf_ok b" "pb_text b = name_part nmo" "al = [] \<longrightarrow> al' = []"
proof (cases nmo)
  case None
  then show thesis using got [of start_buf al] by (simp add: first_name_def start_buf_def buf_ok_def name_part_def)
next
  case (Some nm)
  have b: "buf_ok start_buf" by (simp add: start_buf_def buf_ok_def)
  have "length (pb_text start_buf) + length nm + 2 \<le> MAX_PATH"
    using assms Some by (simp add: start_buf_def name_part_def)
  then show thesis
    by (cases rule: add_name_ok [OF b, of nm al]) (use Some failed got in \<open>auto simp: first_name_def name_part_def start_buf_def\<close>)
qed

lemma take_wnode_ok:
  assumes inv: "nodes_inv {} ext f"
  obtains (free) w where "take_wnode (relock t al f) ino nm = Some (0, w, relock (write_lock w TREELOCK_WRITE t) al f)"
      "lookup_node f ino nm = Some w" "\<forall>x. w = Some x \<longrightarrow> t x = 0 \<and> heap f x \<noteq> None"
  | (busy) x where "take_wnode (relock t al f) ino nm =
        Some (- EAGAIN, None, relock (if 0 < t x then t(x := t x + TREELOCK_WAIT_OFFSET) else t) al f)"
      "lookup_node f ino nm = Some (Some x)" "t x \<noteq> 0"
proof (cases rule: lookup_node_total [OF inv, of ino nm])
  case (1 x)
  then obtain n where n: "heap f x = Some n" by (auto simp: is_entry_iff)
  show thesis
  proof (cases "t x = 0")
    case True
    then show thesis using free [of "Some x"] 1(1) n by (simp add: take_wnode_def relock_upd write_lock_def)
  next
    case False
    then show thesis using busy [of x] 1(1) n relock_upd_fun [of x "\<lambda>t. t + TREELOCK_WAIT_OFFSET"]
      by (simp add: take_wnode_def)
  qed
next
  case 2
  then show thesis using free [of None] by (simp add: take_wnode_def write_lock_def)
qed

text \<open>An entry of a directory is not on the way from that directory to the root.\<close>

lemma entry_not_above:
  assumes inv: "nodes_inv {} ext f" and g: "get_node f ino = Some p" and look: "lookup_node f ino nm = Some (Some w)"
    and c: "climbs f p ps e"
  shows "w \<notin> set ps"
proof
  assume "w \<in> set ps"
  then have pw: "(p, w) \<in> (parent_rel f)\<^sup>*" using climbs_parent [OF c] by blast
  have ids: "ids_inv f" "finite (dom (heap f))" using inv by (simp_all add: nodes_inv_def mem_inv_def)
  have "is_entry f (ino, nm) w" using look lookup_node_iff [OF inv, of ino nm "Some w"] by simp
  then obtain n q m where n: "heap f w = Some n" "parent n = Some q" "heap f q = Some m" "nodeid m = ino"
    by (auto simp: is_entry_iff)
  have "is_id f ino q" using n by (simp add: is_id_iff)
  then have "q = p" using g get_node_iff [OF ids, of ino q] by simp
  then have "(w, p) \<in> parent_rel f" using n by (auto intro: parent_relI)
  then have "(w, w) \<in> (parent_rel f)\<^sup>+" using pw by (meson rtrancl_into_trancl2)
  then show False using inv by (simp add: nodes_inv_def acyclic_def)
qed

text \<open>The outcomes of \<open>try_get_path\<close>, in terms of the locks.\<close>

definition wait_mark :: "nat \<Rightarrow> (nat \<Rightarrow> int) \<Rightarrow> nat \<Rightarrow> int" where
  "wait_mark x t = (if 0 < t x then t(x := t x + TREELOCK_WAIT_OFFSET) else t)"

definition path_got :: "fuse \<Rightarrow> (nat \<Rightarrow> int) \<Rightarrow> u64 \<Rightarrow> string option \<Rightarrow> bool \<Rightarrow> nat list \<Rightarrow> nat \<Rightarrow>
    string option \<Rightarrow> nat option \<Rightarrow> (nat \<Rightarrow> int) \<Rightarrow> bool" where
  "path_got f t ino nmo want ps e path w t' \<longleftrightarrow> is_root f e \<and> path = Some (path_text f ps nmo) \<and>
     (if want then \<exists>nm. nmo = Some nm \<and> lookup_node f ino nm = Some w else w = None) \<and>
     (\<forall>x. w = Some x \<longrightarrow> t x = 0 \<and> heap f x \<noteq> None \<and> x \<notin> set ps) \<and> (\<forall>x \<in> set ps. 0 \<le> t x) \<and>
     t' = raise (set ps) (write_lock w TREELOCK_WRITE t)"

definition path_refused :: "fuse \<Rightarrow> (nat \<Rightarrow> int) \<Rightarrow> allocs \<Rightarrow> u64 \<Rightarrow> string option \<Rightarrow> bool \<Rightarrow> nat list \<Rightarrow> nat \<Rightarrow> int \<Rightarrow>
    (nat \<Rightarrow> int) \<Rightarrow> bool" where
  "path_refused f t al ino nmo want ps e err t' \<longleftrightarrow>
     (err = - ENOMEM \<and> al \<noteq> [] \<and> t' = t) \<or> (err = - ESTALE \<and> \<not> is_root f e \<and> t' = t) \<or>
     (err = - EAGAIN \<and> t' = t \<and> (\<exists>x \<in> set ps. t x < 0)) \<or>
     (err = - EAGAIN \<and> want \<and> (\<exists>x nm. nmo = Some nm \<and> lookup_node f ino nm = Some (Some x) \<and> t x \<noteq> 0 \<and> t' = wait_mark x t))"

lemma try_get_path_ok:
  assumes inv: "nodes_inv {} ext f" and g: "get_node f ino = Some p" and c: "climbs f p ps e" "top_node f e"
    and len: "length (spell f ps) + length (name_part nmo) + 1 \<le> MAX_PATH" and want: "want \<longrightarrow> nmo \<noteq> None"
  shows "\<exists>err path w al' t'. try_get_path (relock t al f) ino nmo want True = Some (err, path, w, relock t' al' f) \<and>
    (al = [] \<longrightarrow> al' = []) \<and>
    (err = 0 \<and> path_got f t ino nmo want ps e path w t' \<or>
     err \<noteq> 0 \<and> path = None \<and> w = None \<and> path_refused f t al ino nmo want ps e err t')"
proof -
  have errs: "- ENOMEM \<noteq> 0" "- EAGAIN \<noteq> 0" "- ESTALE \<noteq> 0" by (simp_all add: ENOMEM_def EAGAIN_def ESTALE_def)
  have d: "distinct ps" "e \<notin> set ps" using climbs_distinct [OF c(1)] inv by (auto simp: nodes_inv_def)
  have ids: "ids_inv f" "finite (dom (heap f))" using inv by (simp_all add: nodes_inv_def mem_inv_def)
  have pd: "p \<in> dom (heap f)" using g get_node_iff [OF ids] by (auto simp: is_id_iff)
  let ?f = "relock t al f"
  obtain ok al0 where al0: "alloc_next al = (ok, al0)" by (metis surj_pair)
  have al0n: "al = [] \<longrightarrow> ok \<and> al0 = []" using al0 by auto
  show ?thesis
  proof (cases ok)
    case False
    then have "try_get_path ?f ino nmo want True = Some (- ENOMEM, None, None, relock t al0 f)"
      using al0 by (simp add: try_get_path_def)
    then show ?thesis using errs al0n False unfolding path_refused_def by blast
  next
    case ok: True
    have nl: "length (name_part nmo) + 1 \<le> MAX_PATH" using len by simp
    show ?thesis
    proof (cases rule: first_name_ok [OF nl, of al0])
      case (1 al1)
      then have "try_get_path ?f ino nmo want True = Some (- ENOMEM, None, None, relock t al1 f)"
        using al0 ok by (simp add: try_get_path_def)
      then show ?thesis using errs al0n 1 unfolding path_refused_def by blast
    next
      case (2 b al1)
      define W where "W = (if want then do { nm \<leftarrow> nmo; take_wnode (relock t al1 f) ino nm } else Some (0, None, relock t al1 f))"
      have run: "try_get_path ?f ino nmo want True =
        do { (err, wnode, f2) \<leftarrow> W;
             if err \<noteq> 0 then Some (err, None, None, f2)
             else do { p \<leftarrow> get_node f2 ino;
                       (err, q, b1, f3) \<leftarrow> path_loop True p b f2;
                       if err = 0 then Some (0, Some (if pb_text b1 = [] then ''/'' else pb_text b1), wnode, f3)
                       else do { f4 \<leftarrow> unlock_path f3 ino wnode (Some q); Some (err, None, None, f4) } } }"
        using al0 ok 2(1) unfolding W_def by (simp add: try_get_path_def cong: if_cong)
      consider (free) w where "W = Some (0, w, relock (write_lock w TREELOCK_WRITE t) al1 f)"
          "if want then \<exists>nm. nmo = Some nm \<and> lookup_node f ino nm = Some w else w = None"
          "\<forall>x. w = Some x \<longrightarrow> t x = 0 \<and> heap f x \<noteq> None \<and> x \<notin> set ps"
        | (busy) x nm where "W = Some (- EAGAIN, None, relock (wait_mark x t) al1 f)" "want" "nmo = Some nm"
          "lookup_node f ino nm = Some (Some x)" "t x \<noteq> 0"
      proof (cases want)
        case False
        then show thesis using free [of None] by (simp add: W_def write_lock_def)
      next
        case True
        then obtain nm where nm: "nmo = Some nm" using want by blast
        show thesis
        proof (cases rule: take_wnode_ok [OF inv, of t al1 ino nm])
          case (1 w)
          have "\<forall>x. w = Some x \<longrightarrow> x \<notin> set ps" using entry_not_above [OF inv g _ c(1)] 1(2) by blast
          then show thesis using free [of w] 1 True nm by (simp add: W_def)
        next
          case (2 x)
          then show thesis using busy [of x nm] True nm by (simp add: W_def wait_mark_def)
        qed
      qed
      then show ?thesis
      proof cases
        case busy
        then have "try_get_path ?f ino nmo want True = Some (- EAGAIN, None, None, relock (wait_mark x t) al1 f)"
          using run errs by simp
        moreover have "path_refused f t al ino nmo want ps e (- EAGAIN) (wait_mark x t)"
          using busy unfolding path_refused_def by blast
        ultimately show ?thesis using errs al0n 2(4) by blast
      next
        case free
        let ?t = "write_lock w TREELOCK_WRITE t"
        have same: "?t x = t x" if "x \<in> set ps" for x
          using that free(3) by (auto simp: write_lock_def split: option.splits)
        have len2: "length (pb_text b) + length (spell f ps) + 1 \<le> MAX_PATH" using len 2(3) by simp
        obtain err q b' al' qs rs where pl: "path_loop True p b (relock ?t al1 f) =
            Some (err, q, b', relock (raise (set qs) ?t) al' f)" "ps = qs @ rs" "q = hd (rs @ [e])"
          "\<forall>x \<in> set qs. 0 \<le> ?t x" "climb_end f True ?t al1 rs e err" "al1 = [] \<longrightarrow> al' = []"
          "err = 0 \<longrightarrow> pb_text b' = spell f ps @ pb_text b"
          using path_loop_ok [OF c pd d(1) 2(2) len2, of True ?t al1] by auto
        show ?thesis
        proof (cases "err = 0")
          case True
          then have r: "rs = []" "is_root f e" using pl(5) errs by (auto simp: climb_end_def)
          have "try_get_path ?f ino nmo want True = Some (0, Some (path_text f ps nmo), w, relock (raise (set ps) ?t) al' f)"
            using run free(1) g pl(1,2,7) True r 2(3) by (simp add: path_text_def Let_def)
          moreover have "path_got f t ino nmo want ps e (Some (path_text f ps nmo)) w (raise (set ps) ?t)"
            using free r pl(2,4) same by (simp add: path_got_def)
          ultimately show ?thesis using al0n 2(4) pl(6) by blast
        next
          case False
          obtain c': "climbs f p qs q" using climbs_append c(1) pl(2,3) by metis
          have dq: "distinct qs" "q \<notin> set qs" using d pl(2,3) by (cases rs; auto)+
          have "\<forall>x \<in> set qs. unlockable (raise (set qs) ?t x)"
            using pl(4) by (auto simp: raise_def unlockable_def TREELOCK_WAIT_OFFSET_def TREELOCK_WRITE_def)
          moreover have w: "\<forall>x. w = Some x \<longrightarrow> heap f x \<noteq> None \<and> raise (set qs) ?t x = TREELOCK_WRITE \<and> x \<notin> set qs"
            using free(3) pl(2) by (auto simp: raise_def write_lock_def)
          ultimately have "unlock_path (relock (raise (set qs) ?t) al' f) ino w (Some q) =
            Some (relock (release (set qs) (write_lock w 0 (raise (set qs) ?t))) al' f)"
            by (intro unlock_path_ok [OF g c' dq]) auto
          moreover have "write_lock w 0 (raise (set qs) ?t) = raise (set qs) t"
            using w free(3) by (auto simp: write_lock_def raise_def fun_eq_iff split: option.splits)
          moreover have "release (set qs) (raise (set qs) t) = t"
            by (rule release_raise) (use pl(2,4) same in auto)
          ultimately have "try_get_path ?f ino nmo want True = Some (err, None, None, relock t al' f)"
            using run free(1) g pl(1) False by simp
          moreover have "path_refused f t al ino nmo want ps e err t"
            using pl(2,5) False same al0n 2(4) by (cases rs) (auto simp: climb_end_def path_refused_def)
          ultimately show ?thesis using False al0n 2(4) pl(6) by blast
        qed
      qed
    qed
  qed
qed

end
