(* ===== verification/PathQueue.thy ===== *)
theory PathQueue
  imports PathLock "HOL-Library.Multiset"
begin

text \<open>
  Requests for paths (\<open>get_path_common\<close> and its relatives, \<open>get_path2\<close>), the requests that wait, and
  what the locks guarantee: whatever requests come, wait and end, a node that one of them has locked
  for writing is locked by no other, and giving a path back never fails.

  A request that has to wait is put on the queue and its thread sleeps; \<open>None\<close> stands for that in the
  inner option of a result.  The first argument is the address of the queue element.
\<close>

section \<open>Requests\<close>

definition new_element :: "nat \<Rightarrow> lock_queue_element" where
  "new_element i = \<lparr>qe_id = i, qe_nodeid1 = 0, qe_name1 = None, qe_want_path1 = False, qe_want_wnode1 = False,
     qe_nodeid2 = 0, qe_name2 = None, qe_want_path2 = False, qe_want_wnode2 = False, qe_path1 = None,
     qe_wnode1 = None, qe_path2 = None, qe_wnode2 = None, qe_err = 0, qe_done = False, qe_signalled = False\<rparr>"

definition path_element :: "nat \<Rightarrow> u64 \<Rightarrow> string option \<Rightarrow> bool \<Rightarrow> lock_queue_element" where
  "path_element i ino nmo want = (new_element i)\<lparr>qe_nodeid1 := ino, qe_name1 := nmo, qe_want_path1 := True,
     qe_want_wnode1 := want\<rparr>"

definition get_path_common ::
  "nat \<Rightarrow> fuse \<Rightarrow> u64 \<Rightarrow> string option \<Rightarrow> bool \<Rightarrow> ((int \<times> string option \<times> nat option) option \<times> fuse) option" where
  "get_path_common i f ino nmo want =
     do { (err, path, w, f1) \<leftarrow> try_get_path f ino nmo want True;
          Some (if err = - EAGAIN then (None, queue_path (path_element i ino nmo want) f1)
                else (Some (err, path, w), f1)) }"

definition get_path where
  "get_path i f ino = get_path_common i f ino None False"

definition get_path_nullok ::
  "nat \<Rightarrow> fuse \<Rightarrow> u64 \<Rightarrow> ((int \<times> string option \<times> nat option) option \<times> fuse) option" where
  "get_path_nullok i f ino =
     (if nullpath_ok (conf f) then Some (Some (0, None, None), f)
      else do { (r, f1) \<leftarrow> get_path_common i f ino None False;
                Some (map_option (\<lambda>(err, path, w). (if err = - ESTALE then 0 else err, path, w)) r, f1) })"

definition get_path_name where
  "get_path_name i f ino nm = get_path_common i f ino (Some nm) False"

definition get_path_wrlock where
  "get_path_wrlock i f ino nm = get_path_common i f ino (Some nm) True"

definition get_path2 ::
  "nat \<Rightarrow> fuse \<Rightarrow> u64 \<Rightarrow> string option \<Rightarrow> u64 \<Rightarrow> string option \<Rightarrow> bool \<Rightarrow> bool \<Rightarrow>
   ((int \<times> string option \<times> string option \<times> nat option \<times> nat option) option \<times> fuse) option" where
  "get_path2 i f ino1 nm1 ino2 nm2 want1 want2 =
     do { (err, path1, path2, w1, w2, f1) \<leftarrow> try_get_path2 f ino1 nm1 ino2 nm2 want1 want2;
          Some (if err = - EAGAIN
                then (None, queue_path ((path_element i ino1 nm1 want1)\<lparr>qe_nodeid2 := ino2, qe_name2 := nm2,
                                          qe_want_path2 := True, qe_want_wnode2 := want2\<rparr>) f1)
                else (Some (err, path1, path2, w1, w2), f1)) }"

section \<open>Who holds what\<close>

text \<open>A held path: the number it was asked for, the nodes locked for reading, the one for writing.\<close>

type_synonym hold = "u64 \<times> nat list \<times> nat option"

definition hold_ok :: "fuse \<Rightarrow> hold \<Rightarrow> bool" where
  "hold_ok f h \<longleftrightarrow> (case h of (ino, ps, w) \<Rightarrow>
     (\<exists>p e. get_node f ino = Some p \<and> climbs f p ps e \<and> is_root f e) \<and>
     (\<forall>x. w = Some x \<longrightarrow> heap f x \<noteq> None \<and> x \<notin> set ps))"

definition reads :: "hold \<Rightarrow> nat \<Rightarrow> bool" where
  "reads h x \<longleftrightarrow> x \<in> set (fst (snd h))"

definition writes :: "hold \<Rightarrow> nat \<Rightarrow> bool" where
  "writes h x \<longleftrightarrow> snd (snd h) = Some x"

definition readers :: "hold multiset \<Rightarrow> nat \<Rightarrow> nat" where
  "readers H x = size (filter_mset (\<lambda>h. reads h x) H)"

definition writers :: "hold multiset \<Rightarrow> nat \<Rightarrow> nat" where
  "writers H x = size (filter_mset (\<lambda>h. writes h x) H)"

definition lock_state :: "nat \<Rightarrow> nat \<Rightarrow> int \<Rightarrow> bool" where
  "lock_state r w t \<longleftrightarrow> (w = 0 \<and> (t = int r \<or> 0 < r \<and> t = int r + TREELOCK_WAIT_OFFSET)) \<or>
     (w = 1 \<and> r = 0 \<and> t = TREELOCK_WRITE)"

text \<open>Fewer paths are held than fit the counter.\<close>

definition MAX_HOLDS :: nat where
  "MAX_HOLDS = 2147483647"

definition lock_inv :: "fuse \<Rightarrow> hold multiset \<Rightarrow> bool" where
  "lock_inv f H \<longleftrightarrow> nodes_inv {} (\<lambda>_. 0) f \<and> (\<forall>h \<in># H. hold_ok f h) \<and>
     (\<forall>x n. heap f x = Some n \<longrightarrow> lock_state (readers H x) (writers H x) (treelock n))"

lemma count_add [simp]:
  "readers (add_mset h H) x = (if reads h x then Suc (readers H x) else readers H x)"
  "writers (add_mset h H) x = (if writes h x then Suc (writers H x) else writers H x)"
  "readers {#} x = 0" "writers {#} x = 0"
  by (simp_all add: readers_def writers_def)

lemma count_le: "readers H x \<le> size H" "writers H x \<le> size H"
  unfolding readers_def writers_def by (simp_all add: size_filter_mset_lesseq)

lemma top_unique:
  assumes "climbs f p ps e" "top_node f e" "climbs f p ps' e'" "top_node f e'"
  shows "ps' = ps \<and> e' = e"
  using assms
proof (induction arbitrary: ps' rule: climbs.induct)
  case (here p)
  then show ?case by (cases ps') (auto simp: top_node_def elim: climbs.cases)
next
  case (up p n nm q ps e)
  then show ?case by (cases ps') (auto simp: top_node_def elim: climbs.cases)
qed

lemma nodes_inv_relock: "nodes_inv {} ext f \<Longrightarrow> nodes_inv {} ext (relock t al f)"
proof -
  assume inv: "nodes_inv {} ext f"
  have l: "links_of (relock t al f) = links_of f" by simp
  have "refs_inv {} ext (relock t al f)"
    using inv unfolding nodes_inv_def refs_inv_def links_cong(2) [OF l] by auto
  moreover have "root_inv (relock t al f)"
    by (rule root_inv_mono [of f]) (use inv in \<open>auto simp: nodes_inv_def\<close>)
  moreover have "lru_inv (relock t al f)" using inv inv_cong(5) [OF l] by (simp add: nodes_inv_def)
  ultimately show ?thesis using inv by (intro nodes_inv_counts [OF inv l]) (simp_all add: nodes_inv_def)
qed

lemma climbs_relock [simp]: "climbs (relock t al f) p ps e \<longleftrightarrow> climbs f p ps e"
proof
  show "climbs f p ps e" if "climbs (relock t al f) p ps e"
    using that by (induction rule: climbs.induct) (auto intro: climbs.intros)
  show "climbs (relock t al f) p ps e" if "climbs f p ps e"
    using that by (induction rule: climbs.induct) (auto intro: climbs.intros)
qed

lemma is_root_relock [simp]: "is_root (relock t al f) e \<longleftrightarrow> is_root f e"
  by (auto simp: is_root_def)

lemma hold_ok_relock [simp]: "hold_ok (relock t al f) h \<longleftrightarrow> hold_ok f h"
  by (auto simp: hold_ok_def split: prod.splits)

text \<open>The invariant, over the lock map.\<close>

lemma lock_inv_relock:
  "lock_inv (relock t al f) H \<longleftrightarrow> nodes_inv {} (\<lambda>_. 0) (relock t al f) \<and> (\<forall>h \<in># H. hold_ok f h) \<and>
     (\<forall>x. heap f x \<noteq> None \<longrightarrow> lock_state (readers H x) (writers H x) (t x))"
proof -
  have "(\<forall>n. heap (relock t al f) x = Some n \<longrightarrow> lock_state r w (treelock n)) \<longleftrightarrow>
      (heap f x \<noteq> None \<longrightarrow> lock_state r w (t x))" for x r w by (cases "heap f x") auto
  then show ?thesis by (simp add: lock_inv_def)
qed

lemma lock_inv_locks:
  "lock_inv f H \<Longrightarrow> heap f x \<noteq> None \<Longrightarrow> lock_state (readers H x) (writers H x) (locks_of f x)"
  by (auto simp: lock_inv_def locks_of_def)

lemma lock_state_free: "lock_state r w 0 \<Longrightarrow> r < MAX_HOLDS \<Longrightarrow> r = 0 \<and> w = 0"
  by (auto simp: lock_state_def MAX_HOLDS_def TREELOCK_WAIT_OFFSET_def TREELOCK_WRITE_def)

lemma lock_state_read: "lock_state r w t \<Longrightarrow> 0 \<le> t \<Longrightarrow> r < MAX_HOLDS \<Longrightarrow> w = 0 \<and> t = int r"
  by (auto simp: lock_state_def MAX_HOLDS_def TREELOCK_WAIT_OFFSET_def TREELOCK_WRITE_def)

lemma lock_state_unlock:
  "lock_state (Suc r) w t \<Longrightarrow> Suc r < MAX_HOLDS \<Longrightarrow> unlockable t \<and> lock_state r w (unlock_one t)"
  by (auto simp: lock_state_def unlock_one_def unlockable_def MAX_HOLDS_def TREELOCK_WAIT_OFFSET_def TREELOCK_WRITE_def)

section \<open>Getting and giving back keep the invariant\<close>

lemma lock_inv_get:
  assumes i: "lock_inv f H" and few: "size H < MAX_HOLDS"
    and g: "get_node f ino = Some p" "climbs f p ps e" and got: "path_got f (locks_of f) ino nmo want ps e path w t'"
  shows "lock_inv (relock t' al f) (add_mset (ino, ps, w) H)"
  unfolding lock_inv_relock
proof (intro conjI allI impI)
  have "nodes_inv {} (\<lambda>_. 0) f" using i by (simp add: lock_inv_def)
  then show "nodes_inv {} (\<lambda>_. 0) (relock t' al f)" by (rule nodes_inv_relock)
  have "hold_ok f (ino, ps, w)" using g got by (auto simp: hold_ok_def path_got_def)
  then show "\<forall>h \<in># add_mset (ino, ps, w) H. hold_ok f h" using i by (simp add: lock_inv_def)
  fix x assume x: "heap f x \<noteq> None"
  note st = lock_inv_locks [OF i x]
  have lt: "readers H x < MAX_HOLDS" using count_le(1) [of H x] few by simp
  have t': "t' = raise (set ps) (write_lock w TREELOCK_WRITE (locks_of f))"
    and w: "\<And>y. w = Some y \<Longrightarrow> locks_of f y = 0 \<and> y \<notin> set ps" and r: "\<forall>x \<in> set ps. 0 \<le> locks_of f x"
    using got by (auto simp: path_got_def)
  consider (rcase) "x \<in> set ps" "w \<noteq> Some x" | (wcase) "w = Some x" "x \<notin> set ps" | (ncase) "x \<notin> set ps" "w \<noteq> Some x"
    using w by blast
  then show "lock_state (readers (add_mset (ino, ps, w) H) x) (writers (add_mset (ino, ps, w) H) x) (t' x)"
  proof cases
    case rcase
    then have "t' x = locks_of f x + 1" by (auto simp: t' raise_def write_lock_def split: option.splits)
    then show ?thesis using lock_state_read [OF st _ lt] r rcase
      by (auto simp: reads_def writes_def lock_state_def)
  next
    case wcase
    then have "t' x = TREELOCK_WRITE" by (auto simp: t' raise_def write_lock_def)
    moreover have "lock_state (readers H x) (writers H x) 0" using st w wcase(1) by simp
    then have "readers H x = 0" "writers H x = 0" using lock_state_free [OF _ lt] by blast+
    ultimately show ?thesis using wcase by (simp add: reads_def writes_def lock_state_def)
  next
    case ncase
    then have "t' x = locks_of f x" by (auto simp: t' raise_def write_lock_def split: option.splits)
    then show ?thesis using st ncase by (simp add: reads_def writes_def)
  qed
qed

lemma lock_inv_refused:
  assumes i: "lock_inv f H" and few: "size H < MAX_HOLDS"
    and r: "path_refused f (locks_of f) al0 ino nmo want ps e err t'"
  shows "lock_inv (relock t' al f) H"
  unfolding lock_inv_relock
proof (intro conjI allI impI)
  have "nodes_inv {} (\<lambda>_. 0) f" using i by (simp add: lock_inv_def)
  then show "nodes_inv {} (\<lambda>_. 0) (relock t' al f)" by (rule nodes_inv_relock)
  show "\<forall>h \<in># H. hold_ok f h" using i by (simp add: lock_inv_def)
  fix x assume x: "heap f x \<noteq> None"
  note st = lock_inv_locks [OF i x]
  have lt: "readers H x < MAX_HOLDS" using count_le(1) [of H x] few by simp
  consider "t' x = locks_of f x" | "0 < locks_of f x" "t' x = locks_of f x + TREELOCK_WAIT_OFFSET"
    using r unfolding path_refused_def wait_mark_def by (metis fun_upd_apply)
  then show "lock_state (readers H x) (writers H x) (t' x)"
    using st lock_state_read [OF st _ lt] by cases (auto simp: lock_state_def)
qed

lemma lock_inv_free:
  assumes i: "lock_inv f (add_mset (ino, ps, w) H)" and few: "size H + 1 < MAX_HOLDS"
  shows "\<exists>t. unlock_path f ino w None = Some (relock t (allocs f) f) \<and> lock_inv (relock t (allocs f) f) H"
proof -
  let ?H = "add_mset (ino, ps, w) H" and ?t = "locks_of f"
  have inv: "nodes_inv {} (\<lambda>_. 0) f" using i by (simp add: lock_inv_def)
  have "hold_ok f (ino, ps, w)" using i by (simp add: lock_inv_def)
  then obtain p e where c: "get_node f ino = Some p" "climbs f p ps e" "is_root f e"
    and w: "\<And>x. w = Some x \<Longrightarrow> heap f x \<noteq> None \<and> x \<notin> set ps" by (auto simp: hold_ok_def)
  have d: "distinct ps" "e \<notin> set ps" using climbs_distinct [OF c(2)] inv by (auto simp: nodes_inv_def)
  have live: "heap f x \<noteq> None" if "x \<in> set ps" for x
    using c(2) that by (induction rule: climbs.induct) auto
  have st: "lock_state (readers ?H x) (writers ?H x) (?t x)" if "heap f x \<noteq> None" for x
    by (rule lock_inv_locks [OF i that])
  have lt: "Suc (readers H x) < MAX_HOLDS" for x using count_le(1) [of H x] few by simp
  have rd: "unlockable (?t x) \<and> lock_state (readers H x) (writers ?H x) (unlock_one (?t x))" if "x \<in> set ps" for x
    using lock_state_unlock [OF _ lt [of x]] st [OF live [OF that]] that by (simp add: reads_def)
  have wr: "?t x = TREELOCK_WRITE \<and> readers H x = 0 \<and> writers H x = 0" if "w = Some x" for x
    using st [of x] w [OF that] that by (auto simp: reads_def writes_def lock_state_def split: if_splits)
  let ?t' = "release (set ps) (write_lock w 0 ?t)"
  have "unlock_path (relock ?t (allocs f) f) ino w None = Some (relock ?t' (allocs f) f)"
    by (rule unlock_path_ok [OF c(1,2) d]) (use rd wr w c(3) in auto)
  then have "unlock_path f ino w None = Some (relock ?t' (allocs f) f)" using relock_self [of f] by simp
  moreover have "lock_inv (relock ?t' (allocs f) f) H"
    unfolding lock_inv_relock
  proof (intro conjI allI impI)
    show "nodes_inv {} (\<lambda>_. 0) (relock ?t' (allocs f) f)" by (rule nodes_inv_relock [OF inv])
    show "\<forall>h \<in># H. hold_ok f h" using i by (simp add: lock_inv_def)
    fix x assume x: "heap f x \<noteq> None"
    consider (rcase) "x \<in> set ps" "w \<noteq> Some x" | (wcase) "w = Some x" "x \<notin> set ps" | (ncase) "x \<notin> set ps" "w \<noteq> Some x"
      using w by blast
    then show "lock_state (readers H x) (writers H x) (?t' x)"
    proof cases
      case rcase
      then have "?t' x = unlock_one (?t x)" by (auto simp: release_def write_lock_def split: option.splits)
      then show ?thesis using rd [OF rcase(1)] rcase by (simp add: writes_def)
    next
      case wcase
      then have "?t' x = 0" by (auto simp: release_def write_lock_def)
      then show ?thesis using wr [OF wcase(1)] by (simp add: lock_state_def)
    next
      case ncase
      then have "?t' x = ?t x" by (auto simp: release_def write_lock_def split: option.splits)
      then show ?thesis using st [OF x] ncase by (simp add: reads_def writes_def)
    qed
  qed
  ultimately show ?thesis by blast
qed

section \<open>Requests keep the invariant\<close>

text \<open>The states that differ only in locks and in the memory to come.\<close>

definition same_tree :: "fuse \<Rightarrow> fuse \<Rightarrow> bool" where
  "same_tree f f' \<longleftrightarrow> (\<exists>t al. f' = relock t al f)"

lemma same_tree_refl [simp]: "same_tree f f"
  unfolding same_tree_def using relock_self by blast

lemma same_tree_relock [simp]: "same_tree f (relock t al f)"
  unfolding same_tree_def by blast

lemma same_tree_trans: "same_tree f g \<Longrightarrow> same_tree g h \<Longrightarrow> same_tree f h"
  unfolding same_tree_def by (elim exE) (simp, blast)

lemma spell_relock [simp]: "spell (relock t al f) ps = spell f ps"
  by (induction ps) (auto split: option.splits)

lemma same_tree_facts:
  assumes "same_tree f f'"
  shows "get_node f' = get_node f" "climbs f' = climbs f" "is_root f' = is_root f" "hold_ok f' = hold_ok f"
    "spell f' = spell f" "lockq f' = lockq f" "conf f' = conf f" "lookup_node f' = lookup_node f"
    "path_text f' = path_text f"
proof -
  obtain t al where f': "f' = relock t al f" using assms by (auto simp: same_tree_def)
  show "get_node f' = get_node f" "climbs f' = climbs f" "is_root f' = is_root f" "hold_ok f' = hold_ok f"
    "spell f' = spell f" "lockq f' = lockq f" "conf f' = conf f" "lookup_node f' = lookup_node f"
    "path_text f' = path_text f"
    by (simp_all add: f' fun_eq_iff path_text_def)
qed

text \<open>Names are at most 1024 characters, and no path comes near 4 GB.\<close>

definition short_paths :: "fuse \<Rightarrow> bool" where
  "short_paths f \<longleftrightarrow> (\<forall>p ps e. climbs f p ps e \<longrightarrow> length (spell f ps) + 1100 \<le> MAX_PATH)"

definition request_ok :: "fuse \<Rightarrow> u64 \<Rightarrow> string option \<Rightarrow> bool \<Rightarrow> bool" where
  "request_ok f ino nmo want \<longleftrightarrow> get_node f ino \<noteq> None \<and> (want \<longrightarrow> nmo \<noteq> None) \<and>
     (\<forall>nm. nmo = Some nm \<longrightarrow> length nm \<le> 1024)"

lemma request_same_tree: "same_tree f f' \<Longrightarrow> request_ok f' ino nmo want = request_ok f ino nmo want"
  by (simp add: request_ok_def same_tree_facts)

lemma short_same_tree: "same_tree f f' \<Longrightarrow> short_paths f' = short_paths f"
  by (simp add: short_paths_def same_tree_facts)

text \<open>What a request leaves: the path with its locks, or nothing.\<close>

definition granted :: "fuse \<Rightarrow> u64 \<Rightarrow> string option \<Rightarrow> int \<Rightarrow> string option \<Rightarrow> nat option \<Rightarrow> fuse \<Rightarrow> hold multiset \<Rightarrow> bool" where
  "granted f ino nmo err path w f' H \<longleftrightarrow>
     (if err = 0 then \<exists>ps. path = Some (path_text f ps nmo) \<and> lock_inv f' (add_mset (ino, ps, w) H)
      else path = None \<and> w = None \<and> lock_inv f' H)"

lemma get_step:
  assumes i: "lock_inv f H" and few: "size H < MAX_HOLDS" and s: "short_paths f" and r: "request_ok f ino nmo want"
  shows "\<exists>err path w f'. try_get_path f ino nmo want True = Some (err, path, w, f') \<and> same_tree f f' \<and>
    granted f ino nmo err path w f' H"
proof -
  have inv: "nodes_inv {} (\<lambda>_. 0) f" using i by (simp add: lock_inv_def)
  then have ids: "ids_inv f" "finite (dom (heap f))" by (simp_all add: nodes_inv_def mem_inv_def)
  obtain p where g: "get_node f ino = Some p" using r by (auto simp: request_ok_def)
  then obtain n where n: "heap f p = Some n" using get_node_iff [OF ids] by (auto simp: is_id_iff)
  obtain ps e where c: "climbs f p ps e" "top_node f e" using climbs_exists [OF inv n] by blast
  have "length (spell f ps) + 1100 \<le> MAX_PATH" using s c(1) unfolding short_paths_def by blast
  moreover have "length (name_part nmo) \<le> 1025" using r by (cases nmo) (auto simp: request_ok_def name_part_def)
  ultimately have len: "length (spell f ps) + length (name_part nmo) + 1 \<le> MAX_PATH" by simp
  have want: "want \<longrightarrow> nmo \<noteq> None" using r by (simp add: request_ok_def)
  obtain err path w al' t' where t: "try_get_path (relock (locks_of f) (allocs f) f) ino nmo want True =
      Some (err, path, w, relock t' al' f)"
    and o: "err = 0 \<and> path_got f (locks_of f) ino nmo want ps e path w t' \<or>
     err \<noteq> 0 \<and> path = None \<and> w = None \<and> path_refused f (locks_of f) (allocs f) ino nmo want ps e err t'"
    using try_get_path_ok [OF inv g c len want, of "locks_of f" "allocs f"] by blast
  have "granted f ino nmo err path w (relock t' al' f) H"
  proof (cases "err = 0")
    case True
    then have got: "path_got f (locks_of f) ino nmo want ps e path w t'" using o by simp
    then have "path = Some (path_text f ps nmo)" by (simp add: path_got_def)
    then show ?thesis using lock_inv_get [OF i few g c(1) got] True unfolding granted_def by auto
  next
    case False
    then have "path = None" "w = None" "path_refused f (locks_of f) (allocs f) ino nmo want ps e err t'" using o by auto
    then show ?thesis using lock_inv_refused [OF i few] False unfolding granted_def by simp
  qed
  moreover have "try_get_path f ino nmo want True = Some (err, path, w, relock t' al' f)"
    using t relock_self [of f] by simp
  ultimately show ?thesis using same_tree_relock by blast
qed

lemma free_step:
  assumes i: "lock_inv f (add_mset (ino, ps, w) H)" and few: "size H + 1 < MAX_HOLDS"
  obtains f' where "unlock_path f ino w None = Some f'" "same_tree f f'" "lock_inv f' H"
proof -
  obtain t where "unlock_path f ino w None = Some (relock t (allocs f) f)" "lock_inv (relock t (allocs f) f) H"
    using lock_inv_free [OF assms] by (elim exE conjE)
  then show thesis by (intro that [of "relock t (allocs f) f"]) simp_all
qed

definition granted2 :: "fuse \<Rightarrow> u64 \<Rightarrow> string option \<Rightarrow> u64 \<Rightarrow> string option \<Rightarrow> int \<Rightarrow> string option \<Rightarrow> string option \<Rightarrow>
    nat option \<Rightarrow> nat option \<Rightarrow> fuse \<Rightarrow> hold multiset \<Rightarrow> bool" where
  "granted2 f ino1 nm1 ino2 nm2 err path1 path2 w1 w2 f' H \<longleftrightarrow>
     (if err = 0 then \<exists>ps qs. path1 = Some (path_text f ps nm1) \<and> path2 = Some (path_text f qs nm2) \<and>
        lock_inv f' ({#(ino1, ps, w1), (ino2, qs, w2)#} + H)
      else path1 = None \<and> path2 = None \<and> lock_inv f' H)"

lemma get2_step:
  assumes i: "lock_inv f H" and few: "size H + 2 < MAX_HOLDS" and s: "short_paths f"
    and r: "request_ok f ino1 nm1 want1" "request_ok f ino2 nm2 want2"
  shows "\<exists>err path1 path2 w1 w2 f'. try_get_path2 f ino1 nm1 ino2 nm2 want1 want2 = Some (err, path1, path2, w1, w2, f') \<and>
    same_tree f f' \<and> granted2 f ino1 nm1 ino2 nm2 err path1 path2 w1 w2 f' H"
proof -
  have few1: "size H < MAX_HOLDS" using few by simp
  obtain err path1 w1 f1 where a: "try_get_path f ino1 nm1 want1 True = Some (err, path1, w1, f1)" "same_tree f f1"
    "granted f ino1 nm1 err path1 w1 f1 H" using get_step [OF i few1 s r(1)] by blast
  show ?thesis
  proof (cases "err = 0")
    case False
    then have "try_get_path2 f ino1 nm1 ino2 nm2 want1 want2 = Some (err, path1, None, w1, None, f1)"
      using a(1) by (simp add: try_get_path2_def)
    moreover have "granted2 f ino1 nm1 ino2 nm2 err None None w1 None f1 H" "path1 = None"
      using a(3) False by (simp_all add: granted_def granted2_def)
    ultimately show ?thesis using a(2) by blast
  next
    case True
    then obtain ps where ps: "path1 = Some (path_text f ps nm1)" "lock_inv f1 (add_mset (ino1, ps, w1) H)"
      using a(3) by (auto simp: granted_def)
    have sr: "short_paths f1" "request_ok f1 ino2 nm2 want2"
      using s r(2) a(2) by (simp_all add: short_same_tree request_same_tree)
    have few2: "size (add_mset (ino1, ps, w1) H) < MAX_HOLDS" using few by simp
    obtain err2 path2 w2 f2 where b: "try_get_path f1 ino2 nm2 want2 True = Some (err2, path2, w2, f2)" "same_tree f1 f2"
      "granted f1 ino2 nm2 err2 path2 w2 f2 (add_mset (ino1, ps, w1) H)"
      using get_step [OF ps(2) few2 sr] by blast
    show ?thesis
    proof (cases "err2 = 0")
      case t2: True
      have "try_get_path2 f ino1 nm1 ino2 nm2 want1 want2 = Some (0, path1, path2, w1, w2, f2)"
        using a(1) b(1) True t2 by (simp add: try_get_path2_def)
      moreover have "granted2 f ino1 nm1 ino2 nm2 0 path1 path2 w1 w2 f2 H"
        using b(3) t2 ps(1) unfolding granted_def granted2_def same_tree_facts [OF a(2)]
        by (auto simp: add_mset_commute)
      ultimately show ?thesis using same_tree_trans [OF a(2) b(2)] by blast
    next
      case f2: False
      then have "lock_inv f2 (add_mset (ino1, ps, w1) H)" "path2 = None" using b(3) by (simp_all add: granted_def)
      then obtain f3 where f3: "unlock_path f2 ino1 w1 None = Some f3" "same_tree f2 f3" "lock_inv f3 H"
        using free_step [of f2 ino1 ps w1 H] few by auto
      have "try_get_path2 f ino1 nm1 ino2 nm2 want1 want2 = Some (err2, None, path2, w1, None, f3)"
        using a(1) b(1) True f2 f3(1) by (simp add: try_get_path2_def)
      moreover have "granted2 f ino1 nm1 ino2 nm2 err2 None path2 w1 None f3 H"
        using f2 f3(3) \<open>path2 = None\<close> by (simp add: granted2_def)
      ultimately show ?thesis using same_tree_trans [OF same_tree_trans [OF a(2) b(2)] f3(2)] by blast
    qed
  qed
qed

section \<open>The queue\<close>

definition elem_ok :: "fuse \<Rightarrow> lock_queue_element \<Rightarrow> bool" where
  "elem_ok f qe \<longleftrightarrow>
     (if qe_want_path1 qe
      then request_ok f (qe_nodeid1 qe) (qe_name1 qe) (qe_want_wnode1 qe) \<and>
        (qe_want_path2 qe \<longrightarrow> request_ok f (qe_nodeid2 qe) (qe_name2 qe) (qe_want_wnode2 qe))
      else get_node f (qe_nodeid1 qe) \<noteq> None)"

definition served :: "lock_queue_element \<Rightarrow> bool" where
  "served qe \<longleftrightarrow> qe_want_path1 qe \<and> qe_done qe \<and> qe_err qe = 0"

text \<open>The paths an element of the queue already holds for its sleeping thread.\<close>

definition elem_holds :: "lock_queue_element \<Rightarrow> hold multiset \<Rightarrow> bool" where
  "elem_holds qe M \<longleftrightarrow>
     (if served qe
      then \<exists>ps. (if qe_want_path2 qe
                 then \<exists>qs. M = {#(qe_nodeid1 qe, ps, qe_wnode1 qe), (qe_nodeid2 qe, qs, qe_wnode2 qe)#}
                 else M = {#(qe_nodeid1 qe, ps, qe_wnode1 qe)#})
      else M = {#})"

lemma elem_holds_size: "elem_holds qe M \<Longrightarrow> size M \<le> 2"
  by (auto simp: elem_holds_def split: if_splits)

lemma elem_ok_same: "same_tree f f' \<Longrightarrow> elem_ok f' qe = elem_ok f qe"
  by (simp add: elem_ok_def request_same_tree same_tree_facts)

definition same_request :: "lock_queue_element \<Rightarrow> lock_queue_element \<Rightarrow> bool" where
  "same_request a b \<longleftrightarrow> qe_id b = qe_id a \<and> qe_nodeid1 b = qe_nodeid1 a \<and> qe_name1 b = qe_name1 a \<and>
     qe_want_path1 b = qe_want_path1 a \<and> qe_want_wnode1 b = qe_want_wnode1 a \<and> qe_nodeid2 b = qe_nodeid2 a \<and>
     qe_name2 b = qe_name2 a \<and> qe_want_path2 b = qe_want_path2 a \<and> qe_want_wnode2 b = qe_want_wnode2 a"

lemma same_request_refl [simp]: "same_request a a"
  by (simp add: same_request_def)

lemma elem_ok_request: "same_request a b \<Longrightarrow> elem_ok f b = elem_ok f a"
  by (simp add: elem_ok_def same_request_def)

lemma wakeup_step:
  assumes i: "lock_inv f (M + H)" and few: "size H + 4 < MAX_HOLDS" and s: "short_paths f"
    and q: "elem_ok f qe" "elem_holds qe M"
  shows "\<exists>qe' f' M'. queue_element_wakeup f qe = Some (qe', f') \<and> same_tree f f' \<and> same_request qe qe' \<and>
    elem_holds qe' M' \<and> lock_inv f' (M' + H)"
proof -
  have ids: "ids_inv f" "finite (dom (heap f))" using i by (simp_all add: lock_inv_def nodes_inv_def mem_inv_def)
  consider (plain) "\<not> qe_want_path1 qe" | (ready) "qe_want_path1 qe" "qe_done qe"
    | (one) "qe_want_path1 qe" "\<not> qe_done qe" "\<not> qe_want_path2 qe" | (two) "qe_want_path1 qe" "\<not> qe_done qe" "qe_want_path2 qe"
    by blast
  then show ?thesis
  proof cases
    case plain
    then obtain p n where p: "get_node f (qe_nodeid1 qe) = Some p" "heap f p = Some n"
      using q(1) get_node_iff [OF ids] by (auto simp: elem_ok_def is_id_iff)
    let ?qe = "if treelock n = 0 then qe\<lparr>qe_signalled := True\<rparr> else qe"
    have "elem_holds ?qe M" using q(2) plain by (simp add: elem_holds_def served_def)
    moreover have "same_request qe ?qe" by (simp add: same_request_def)
    ultimately show ?thesis using plain p i by (auto simp: queue_element_wakeup_def)
  next
    case ready
    then have "queue_element_wakeup f qe = Some (qe, f)" by (simp add: queue_element_wakeup_def)
    then show ?thesis using q(2) i same_tree_refl same_request_refl by blast
  next
    case one
    have M: "M = {#}" using q(2) one by (simp add: elem_holds_def served_def)
    have "size H < MAX_HOLDS" using few by simp
    then obtain err path w f' where g: "try_get_path f (qe_nodeid1 qe) (qe_name1 qe) (qe_want_wnode1 qe) True = Some (err, path, w, f')"
      "same_tree f f'" "granted f (qe_nodeid1 qe) (qe_name1 qe) err path w f' H"
      using get_step [of f H "qe_nodeid1 qe" "qe_name1 qe" "qe_want_wnode1 qe"] i s q(1) one(1) M by (auto simp: elem_ok_def)
    let ?qe = "qe\<lparr>qe_err := err, qe_done := True, qe_signalled := True, qe_path1 := path, qe_path2 := None,
      qe_wnode1 := w, qe_wnode2 := None\<rparr>"
    have run: "queue_element_wakeup f qe = Some (if err = - EAGAIN then qe else ?qe, f')"
      using one g(1) by (simp add: queue_element_wakeup_def)
    show ?thesis
    proof (cases "err = 0")
      case True
      then obtain ps where ps: "lock_inv f' (add_mset (qe_nodeid1 qe, ps, w) H)" using g(3) by (auto simp: granted_def)
      have "elem_holds ?qe {#(qe_nodeid1 qe, ps, w)#}" using one True by (simp add: elem_holds_def served_def)
      moreover have "queue_element_wakeup f qe = Some (?qe, f')" using run True by (simp add: EAGAIN_def)
      moreover have "same_request qe ?qe" by (simp add: same_request_def)
      ultimately show ?thesis using ps g(2) by fastforce
    next
      case False
      then have "lock_inv f' ({#} + H)" using g(3) by (simp add: granted_def)
      moreover have "elem_holds (if err = - EAGAIN then qe else ?qe) {#}"
        using one False by (simp add: elem_holds_def served_def)
      moreover have "same_request qe (if err = - EAGAIN then qe else ?qe)" by (simp add: same_request_def)
      ultimately show ?thesis using run g(2) by blast
    qed
  next
    case two
    have M: "M = {#}" using q(2) two by (simp add: elem_holds_def served_def)
    have "size H + 2 < MAX_HOLDS" using few by simp
    then obtain err path1 path2 w1 w2 f' where g: "try_get_path2 f (qe_nodeid1 qe) (qe_name1 qe) (qe_nodeid2 qe) (qe_name2 qe)
        (qe_want_wnode1 qe) (qe_want_wnode2 qe) = Some (err, path1, path2, w1, w2, f')"
      "same_tree f f'" "granted2 f (qe_nodeid1 qe) (qe_name1 qe) (qe_nodeid2 qe) (qe_name2 qe) err path1 path2 w1 w2 f' H"
      using get2_step [of f H "qe_nodeid1 qe" "qe_name1 qe" "qe_want_wnode1 qe" "qe_nodeid2 qe" "qe_name2 qe" "qe_want_wnode2 qe"]
        i s q(1) two M by (auto simp: elem_ok_def)
    let ?qe = "qe\<lparr>qe_err := err, qe_done := True, qe_signalled := True, qe_path1 := path1, qe_path2 := path2,
      qe_wnode1 := w1, qe_wnode2 := w2\<rparr>"
    have run: "queue_element_wakeup f qe = Some (if err = - EAGAIN then qe else ?qe, f')"
      using two g(1) by (simp add: queue_element_wakeup_def)
    show ?thesis
    proof (cases "err = 0")
      case True
      then obtain ps qs where ps: "lock_inv f' ({#(qe_nodeid1 qe, ps, w1), (qe_nodeid2 qe, qs, w2)#} + H)"
        using g(3) by (auto simp: granted2_def)
      have "elem_holds ?qe {#(qe_nodeid1 qe, ps, w1), (qe_nodeid2 qe, qs, w2)#}"
        using two True by (auto simp: elem_holds_def served_def)
      moreover have "queue_element_wakeup f qe = Some (?qe, f')" using run True by (simp add: EAGAIN_def)
      moreover have "same_request qe ?qe" by (simp add: same_request_def)
      ultimately show ?thesis using ps g(2) by blast
    next
      case False
      then have "lock_inv f' ({#} + H)" using g(3) by (simp add: granted2_def)
      moreover have "elem_holds (if err = - EAGAIN then qe else ?qe) {#}"
        using two False by (simp add: elem_holds_def served_def)
      moreover have "same_request qe (if err = - EAGAIN then qe else ?qe)" by (simp add: same_request_def)
      ultimately show ?thesis using run g(2) by blast
    qed
  qed
qed

lemma wake_loop_step:
  assumes "list_all2 elem_holds qes Ms" and "lock_inv f (sum_list Ms + H)" and "short_paths f"
    and "\<forall>qe \<in> set qes. elem_ok f qe" and "size H + 2 * length qes + 2 < MAX_HOLDS"
  shows "\<exists>qes' f' Ms'. wake_loop qes f = Some (qes', f') \<and> same_tree f f' \<and> list_all2 same_request qes qes' \<and>
    list_all2 elem_holds qes' Ms' \<and> lock_inv f' (sum_list Ms' + H)"
  using assms
proof (induction qes Ms arbitrary: f H rule: list_all2_induct)
  case Nil
  then show ?case by (intro exI [of _ "[]"] exI [of _ f]) simp
next
  case (Cons qe qes M Ms)
  have len: "size (sum_list Ms) \<le> 2 * length qes"
    using Cons.hyps(2) by (induction rule: list_all2_induct) (auto dest: elem_holds_size)
  have few: "size (sum_list Ms + H) + 4 < MAX_HOLDS" using len Cons.prems(4) by simp
  have i: "lock_inv f (M + (sum_list Ms + H))" using Cons.prems(1) by (simp add: add.assoc)
  have ok: "elem_ok f qe" using Cons.prems(3) by simp
  obtain qe' f1 M' where a: "queue_element_wakeup f qe = Some (qe', f1)" "same_tree f f1" "same_request qe qe'"
    "elem_holds qe' M'" "lock_inv f1 (M' + (sum_list Ms + H))"
    using wakeup_step [OF i few Cons.prems(2) ok Cons.hyps(1)] by blast
  have "lock_inv f1 (sum_list Ms + (M' + H))" using a(5) by (simp add: ac_simps)
  moreover have "short_paths f1" using Cons.prems(2) a(2) by (simp add: short_same_tree)
  moreover have "\<forall>qe \<in> set qes. elem_ok f1 qe" using Cons.prems(3) a(2) by (simp add: elem_ok_same)
  moreover have "size (M' + H) + 2 * length qes + 2 < MAX_HOLDS"
    using Cons.prems(4) elem_holds_size [OF a(4)] by simp
  ultimately obtain qes' f' Ms' where b: "wake_loop qes f1 = Some (qes', f')" "same_tree f1 f'"
    "list_all2 same_request qes qes'" "list_all2 elem_holds qes' Ms'" "lock_inv f' (sum_list Ms' + (M' + H))"
    using Cons.IH by blast
  have "wake_loop (qe # qes) f = Some (qe' # qes', f')" using a(1) b(1) by simp
  moreover have "lock_inv f' (sum_list (M' # Ms') + H)" using b(5) by (simp add: ac_simps)
  moreover have "list_all2 same_request (qe # qes) (qe' # qes')" "list_all2 elem_holds (qe' # qes') (M' # Ms')"
    using a b by simp_all
  ultimately show ?case using same_tree_trans [OF a(2) b(2)] by blast
qed

section \<open>The states of the lock protocol\<close>

text \<open>The queue is no part of the tree.\<close>

lemma lockq_tree [simp]:
  "links_of (f\<lparr>lockq := q\<rparr>) = links_of f" "get_node (f\<lparr>lockq := q\<rparr>) = get_node f"
  "climbs (f\<lparr>lockq := q\<rparr>) = climbs f" "is_root (f\<lparr>lockq := q\<rparr>) = is_root f" "hold_ok (f\<lparr>lockq := q\<rparr>) = hold_ok f"
  "request_ok (f\<lparr>lockq := q\<rparr>) = request_ok f" "elem_ok (f\<lparr>lockq := q\<rparr>) = elem_ok f"
  "short_paths (f\<lparr>lockq := q\<rparr>) = short_paths f"
proof -
  let ?f = "f\<lparr>lockq := q\<rparr>"
  show "links_of ?f = links_of f" by (simp add: links_of_def fun_eq_iff)
  have h: "has_id ?f x = has_id f x" for x by (rule ext) (simp add: has_id_def)
  have "get_node_nocheck ?f = get_node_nocheck f"
    by (rule ext) (simp add: get_node_nocheck_def id_hash_def h)
  then show g: "get_node ?f = get_node f" by (simp add: get_node_def fun_eq_iff)
  have "climbs ?f p ps e \<longleftrightarrow> climbs f p ps e" for p ps e
  proof
    show "climbs f p ps e" if "climbs ?f p ps e"
      using that by (induction rule: climbs.induct) (auto intro: climbs.intros)
    show "climbs ?f p ps e" if "climbs f p ps e"
      using that by (induction rule: climbs.induct) (auto intro: climbs.intros)
  qed
  then show c: "climbs ?f = climbs f" by (simp add: fun_eq_iff)
  show r: "is_root ?f = is_root f" by (simp add: is_root_def fun_eq_iff)
  show "hold_ok ?f = hold_ok f" by (simp add: hold_ok_def fun_eq_iff g c r)
  show rq: "request_ok ?f = request_ok f" by (simp add: request_ok_def fun_eq_iff g)
  show "elem_ok ?f = elem_ok f" by (simp add: elem_ok_def fun_eq_iff g rq)
  have "spell ?f ps = spell f ps" for ps by (induction ps) (auto split: option.splits)
  then show "short_paths ?f = short_paths f" by (simp add: short_paths_def c)
qed

lemma lock_inv_lockq [simp]: "lock_inv (f\<lparr>lockq := q\<rparr>) H = lock_inv f H"
proof -
  have "nodes_inv {} (\<lambda>_. 0) (f\<lparr>lockq := q\<rparr>) = nodes_inv {} (\<lambda>_. 0) f" (is "?l = ?r")
  proof
    show ?l if ?r by (rule nodes_inv_same [OF that]) (use that in \<open>simp_all add: nodes_inv_def mem_inv_def\<close>)
    show ?r if ?l by (rule nodes_inv_same [OF that]) (use that in \<open>simp_all add: nodes_inv_def mem_inv_def\<close>)
  qed
  then show ?thesis by (simp add: lock_inv_def)
qed

definition queue_inv :: "fuse \<Rightarrow> hold multiset \<Rightarrow> bool" where
  "queue_inv f H \<longleftrightarrow> short_paths f \<and> (\<forall>qe \<in> set (lockq f). elem_ok f qe) \<and> distinct (map qe_id (lockq f)) \<and>
     (\<exists>Ms. list_all2 elem_holds (lockq f) Ms \<and> lock_inv f (sum_list Ms + H))"

definition room :: "fuse \<Rightarrow> hold multiset \<Rightarrow> bool" where
  "room f H \<longleftrightarrow> size H + 2 * length (lockq f) + 6 < MAX_HOLDS"

text \<open>The holds that a request brings its thread.\<close>

definition brings :: "fuse \<Rightarrow> u64 \<Rightarrow> (int \<times> string option \<times> nat option) option \<Rightarrow> hold multiset \<Rightarrow> bool" where
  "brings f ino r M \<longleftrightarrow>
     (case r of
        None \<Rightarrow> M = {#}
      | Some (err, path, w) \<Rightarrow>
          if err = 0 then \<exists>ps. hold_ok f (ino, ps, w) \<and> M = {#(ino, ps, w)#} else M = {#})"

definition brings2 :: "fuse \<Rightarrow> u64 \<Rightarrow> u64 \<Rightarrow>
    (int \<times> string option \<times> string option \<times> nat option \<times> nat option) option \<Rightarrow> hold multiset \<Rightarrow> bool" where
  "brings2 f ino1 ino2 r M \<longleftrightarrow>
     (case r of
        None \<Rightarrow> M = {#}
      | Some (err, path1, path2, w1, w2) \<Rightarrow>
          if err = 0 then \<exists>ps qs. hold_ok f (ino1, ps, w1) \<and> hold_ok f (ino2, qs, w2) \<and>
            M = {#(ino1, ps, w1), (ino2, qs, w2)#}
          else M = {#})"

inductive lock_step :: "fuse \<times> hold multiset \<Rightarrow> fuse \<times> hold multiset \<Rightarrow> bool" where
  get: "room f H \<Longrightarrow> i \<notin> qe_id ` set (lockq f) \<Longrightarrow> request_ok f ino nmo want \<Longrightarrow>
    get_path_common i f ino nmo want = Some (r, f') \<Longrightarrow> brings f' ino r M \<Longrightarrow> lock_step (f, H) (f', M + H)"
| get2: "room f H \<Longrightarrow> i \<notin> qe_id ` set (lockq f) \<Longrightarrow> request_ok f ino1 nm1 want1 \<Longrightarrow> request_ok f ino2 nm2 want2 \<Longrightarrow>
    get_path2 i f ino1 nm1 ino2 nm2 want1 want2 = Some (r, f') \<Longrightarrow> brings2 f' ino1 ino2 r M \<Longrightarrow>
    lock_step (f, H) (f', M + H)"
| free: "room f (add_mset (ino, ps, w) H) \<Longrightarrow> free_path_wrlock f ino w = Some f' \<Longrightarrow>
    lock_step (f, add_mset (ino, ps, w) H) (f', H)"
| free2: "room f ({#(ino1, ps, w1), (ino2, qs, w2)#} + H) \<Longrightarrow> free_path2 f ino1 ino2 w1 w2 = Some f' \<Longrightarrow>
    lock_step (f, {#(ino1, ps, w1), (ino2, qs, w2)#} + H) (f', H)"
| wake: "qe \<in> set (lockq f) \<Longrightarrow> qe_done qe \<Longrightarrow> dequeue_path (qe_id qe) f = Some f' \<Longrightarrow> elem_holds qe M \<Longrightarrow>
    \<forall>h \<in># M. hold_ok f h \<Longrightarrow> lock_step (f, H) (f', M + H)"

lemma hold_unique: "hold_ok f (ino, ps, w) \<Longrightarrow> hold_ok f (ino, qs, w') \<Longrightarrow> ps = qs"
  using climbs_unique by (fastforce simp: hold_ok_def)

lemma holds_size: "list_all2 elem_holds qes Ms \<Longrightarrow> size (sum_list Ms) \<le> 2 * length qes"
  by (induction rule: list_all2_induct) (auto dest!: elem_holds_size)

lemma queue_invE:
  assumes "queue_inv f H" "room f H"
  obtains Ms where "list_all2 elem_holds (lockq f) Ms" "lock_inv f (sum_list Ms + H)"
    "size (sum_list Ms + H) + 6 < MAX_HOLDS"
proof -
  obtain Ms where m: "list_all2 elem_holds (lockq f) Ms" "lock_inv f (sum_list Ms + H)"
    using assms(1) by (auto simp: queue_inv_def)
  have "size (sum_list Ms + H) + 6 < MAX_HOLDS" using holds_size [OF m(1)] assms(2) by (simp add: room_def)
  then show thesis using that m by blast
qed

lemma queue_inv_same:
  assumes "queue_inv f H" "same_tree f f'" "lock_inv f' (sum_list Ms + H')" "list_all2 elem_holds (lockq f) Ms"
  shows "queue_inv f' H'"
  using assms by (auto simp: queue_inv_def same_tree_facts short_same_tree elem_ok_same)

text \<open>Putting a request on the queue.\<close>

lemma queue_inv_queue:
  assumes q: "queue_inv f H" "same_tree f f'" and m: "list_all2 elem_holds (lockq f) Ms" "lock_inv f' (sum_list Ms + H)"
    and e: "elem_ok f qe" "qe_id qe \<notin> qe_id ` set (lockq f)"
  shows "queue_inv (queue_path qe f') H"
proof -
  have "elem_holds (qe\<lparr>qe_done := False\<rparr>) {#}" by (simp add: elem_holds_def served_def)
  then have "list_all2 elem_holds (lockq f @ [qe\<lparr>qe_done := False\<rparr>]) (Ms @ [{#}])"
    using m(1) by (simp add: list_all2_appendI)
  moreover have "elem_ok f' (qe\<lparr>qe_done := False\<rparr>)" using e(1) unfolding elem_ok_same [OF q(2)] by (simp add: elem_ok_def)
  moreover have "lock_inv f' (sum_list (Ms @ [{#}]) + H)" using m(2) by simp
  ultimately show ?thesis
    using q e(2) unfolding queue_inv_def queue_path_def
    by (auto simp: same_tree_facts short_same_tree elem_ok_same intro!: exI [of _ "Ms @ [{#}]"])
qed

lemma get_preserves:
  assumes q: "queue_inv f H" "room f H" and i: "i \<notin> qe_id ` set (lockq f)" and r: "request_ok f ino nmo want"
    and run: "get_path_common i f ino nmo want = Some (r, f')" and b: "brings f' ino r M"
  shows "queue_inv f' (M + H)"
proof -
  obtain Ms where m: "list_all2 elem_holds (lockq f) Ms" "lock_inv f (sum_list Ms + H)" "size (sum_list Ms + H) + 6 < MAX_HOLDS"
    by (rule queue_invE [OF q])
  have few: "size (sum_list Ms + H) < MAX_HOLDS" using m(3) by simp
  have sp: "short_paths f" using q(1) by (simp add: queue_inv_def)
  obtain err path w f1 where g: "try_get_path f ino nmo want True = Some (err, path, w, f1)" "same_tree f f1"
    "granted f ino nmo err path w f1 (sum_list Ms + H)" using get_step [OF m(2) few sp r] by blast
  show ?thesis
  proof (cases "err = - EAGAIN")
    case True
    then have "r = None" "f' = queue_path (path_element i ino nmo want) f1" using run g(1) by (auto simp: get_path_common_def)
    moreover have "lock_inv f1 (sum_list Ms + H)" using g(3) True by (simp add: granted_def EAGAIN_def)
    moreover have "elem_ok f (path_element i ino nmo want)"
      using r by (simp add: elem_ok_def path_element_def new_element_def)
    ultimately show ?thesis
      using queue_inv_queue [OF q(1) g(2) m(1)] i b by (simp add: brings_def path_element_def new_element_def)
  next
    case False
    then have rf: "r = Some (err, path, w)" "f' = f1" using run g(1) by (auto simp: get_path_common_def)
    show ?thesis
    proof (cases "err = 0")
      case True
      then obtain ps where ps: "lock_inv f1 (add_mset (ino, ps, w) (sum_list Ms + H))" using g(3) by (auto simp: granted_def)
      then have "hold_ok f1 (ino, ps, w)" by (simp add: lock_inv_def)
      moreover obtain qs where qs: "hold_ok f1 (ino, qs, w)" "M = {#(ino, qs, w)#}"
        using b rf True by (auto simp: brings_def)
      ultimately have "ps = qs" using hold_unique by blast
      then have "lock_inv f' (sum_list Ms + (M + H))" using ps qs(2) rf(2) by simp
      then show ?thesis using queue_inv_same [OF q(1) _ _ m(1)] g(2) rf(2) by blast
    next
      case err: False
      then have "lock_inv f' (sum_list Ms + (M + H))" using g(3) b rf by (simp add: granted_def brings_def)
      then show ?thesis using queue_inv_same [OF q(1) _ _ m(1)] g(2) rf(2) by blast
    qed
  qed
qed

lemma get2_preserves:
  assumes q: "queue_inv f H" "room f H" and i: "i \<notin> qe_id ` set (lockq f)"
    and r: "request_ok f ino1 nm1 want1" "request_ok f ino2 nm2 want2"
    and run: "get_path2 i f ino1 nm1 ino2 nm2 want1 want2 = Some (r, f')" and b: "brings2 f' ino1 ino2 r M"
  shows "queue_inv f' (M + H)"
proof -
  obtain Ms where m: "list_all2 elem_holds (lockq f) Ms" "lock_inv f (sum_list Ms + H)" "size (sum_list Ms + H) + 6 < MAX_HOLDS"
    by (rule queue_invE [OF q])
  have few: "size (sum_list Ms + H) + 2 < MAX_HOLDS" using m(3) by simp
  have sp: "short_paths f" using q(1) by (simp add: queue_inv_def)
  obtain err path1 path2 w1 w2 f1 where
    g: "try_get_path2 f ino1 nm1 ino2 nm2 want1 want2 = Some (err, path1, path2, w1, w2, f1)" "same_tree f f1"
    "granted2 f ino1 nm1 ino2 nm2 err path1 path2 w1 w2 f1 (sum_list Ms + H)"
    using get2_step [OF m(2) few sp r] by blast
  let ?qe = "(path_element i ino1 nm1 want1)\<lparr>qe_nodeid2 := ino2, qe_name2 := nm2, qe_want_path2 := True, qe_want_wnode2 := want2\<rparr>"
  show ?thesis
  proof (cases "err = - EAGAIN")
    case True
    then have "r = None" "f' = queue_path ?qe f1" using run g(1) by (auto simp: get_path2_def)
    moreover have "lock_inv f1 (sum_list Ms + H)" using g(3) True by (simp add: granted2_def EAGAIN_def)
    moreover have "elem_ok f ?qe" using r by (simp add: elem_ok_def path_element_def new_element_def)
    ultimately show ?thesis
      using queue_inv_queue [OF q(1) g(2) m(1)] i b by (simp add: brings2_def path_element_def new_element_def)
  next
    case False
    then have rf: "r = Some (err, path1, path2, w1, w2)" "f' = f1" using run g(1) by (auto simp: get_path2_def)
    have "lock_inv f' (sum_list Ms + (M + H))"
    proof (cases "err = 0")
      case True
      then obtain ps qs where ps: "lock_inv f1 ({#(ino1, ps, w1), (ino2, qs, w2)#} + (sum_list Ms + H))"
        using g(3) by (auto simp: granted2_def)
      then have "hold_ok f1 (ino1, ps, w1)" "hold_ok f1 (ino2, qs, w2)" by (simp_all add: lock_inv_def)
      moreover obtain ps' qs' where qs: "hold_ok f1 (ino1, ps', w1)" "hold_ok f1 (ino2, qs', w2)"
        "M = {#(ino1, ps', w1), (ino2, qs', w2)#}" using b rf True by (auto simp: brings2_def)
      ultimately have "ps = ps'" "qs = qs'" using hold_unique by blast+
      then show ?thesis using ps qs(3) rf(2) by simp
    next
      case False
      then show ?thesis using g(3) b rf by (simp add: granted2_def brings2_def)
    qed
    then show ?thesis using queue_inv_same [OF q(1) _ _ m(1)] g(2) rf(2) by blast
  qed
qed

lemma wake_up_step:
  assumes m: "list_all2 elem_holds (lockq f) Ms" "lock_inv f (sum_list Ms + H)" and sp: "short_paths f"
    and e: "\<forall>qe \<in> set (lockq f). elem_ok f qe" "distinct (map qe_id (lockq f))"
    and few: "size H + 2 * length (lockq f) + 2 < MAX_HOLDS"
  shows "\<exists>f'. wake_up_queued f = Some f' \<and> queue_inv f' H"
proof -
  obtain qes f1 Ms' where w: "wake_loop (lockq f) f = Some (qes, f1)" "same_tree f f1" "list_all2 same_request (lockq f) qes"
    "list_all2 elem_holds qes Ms'" "lock_inv f1 (sum_list Ms' + H)"
    using wake_loop_step [OF m sp e(1) few] by blast
  have ids: "map qe_id qes = map qe_id (lockq f)"
    using w(3) by (induction rule: list_all2_induct) (auto simp: same_request_def)
  have "\<forall>qe \<in> set qes. elem_ok f1 qe"
    using w(3) e(1) by (induction rule: list_all2_induct) (auto simp: elem_ok_request elem_ok_same [OF w(2)])
  then have "queue_inv (f1\<lparr>lockq := qes\<rparr>) H"
    using w e(2) ids sp by (auto simp: queue_inv_def short_same_tree)
  then show ?thesis using w(1) by (simp add: wake_up_queued_def)
qed

lemma free_preserves:
  assumes q: "queue_inv f (add_mset (ino, ps, w) H)" and r: "room f (add_mset (ino, ps, w) H)"
  shows "\<exists>f'. free_path_wrlock f ino w = Some f' \<and> queue_inv f' H"
proof -
  obtain Ms where m: "list_all2 elem_holds (lockq f) Ms" "lock_inv f (sum_list Ms + add_mset (ino, ps, w) H)"
    "size (sum_list Ms + add_mset (ino, ps, w) H) + 6 < MAX_HOLDS"
    by (rule queue_invE [OF q r])
  have "lock_inv f (add_mset (ino, ps, w) (sum_list Ms + H))" using m(2) by simp
  then obtain f1 where f1: "unlock_path f ino w None = Some f1" "same_tree f f1" "lock_inv f1 (sum_list Ms + H)"
    by (rule free_step) (use m(3) in simp)
  have q1: "queue_inv f1 H" by (rule queue_inv_same [OF q f1(2,3) m(1)])
  show ?thesis
  proof (cases "lockq f1 = []")
    case True
    then show ?thesis using f1(1) q1 by (simp add: free_path_wrlock_def)
  next
    case False
    have "list_all2 elem_holds (lockq f1) Ms" using m(1) f1(2) by (simp add: same_tree_facts)
    moreover have "size H + 2 * length (lockq f1) + 2 < MAX_HOLDS" using r f1(2) by (simp add: room_def same_tree_facts)
    ultimately have "\<exists>f'. wake_up_queued f1 = Some f' \<and> queue_inv f' H"
      using f1(3) q1 by (intro wake_up_step) (auto simp: queue_inv_def)
    then show ?thesis using f1(1) False by (simp add: free_path_wrlock_def)
  qed
qed

lemma free2_preserves:
  assumes q: "queue_inv f ({#(ino1, ps, w1), (ino2, qs, w2)#} + H)" and r: "room f ({#(ino1, ps, w1), (ino2, qs, w2)#} + H)"
  shows "\<exists>f'. free_path2 f ino1 ino2 w1 w2 = Some f' \<and> queue_inv f' H"
proof -
  let ?H = "{#(ino1, ps, w1), (ino2, qs, w2)#} + H"
  obtain Ms where m: "list_all2 elem_holds (lockq f) Ms" "lock_inv f (sum_list Ms + ?H)" "size (sum_list Ms + ?H) + 6 < MAX_HOLDS"
    by (rule queue_invE [OF q r])
  have "lock_inv f (add_mset (ino1, ps, w1) (add_mset (ino2, qs, w2) (sum_list Ms + H)))" using m(2) by (simp add: add_mset_commute)
  then obtain f1 where f1: "unlock_path f ino1 w1 None = Some f1" "same_tree f f1"
    "lock_inv f1 (add_mset (ino2, qs, w2) (sum_list Ms + H))"
    by (rule free_step) (use m(3) in simp)
  obtain f2 where f2: "unlock_path f1 ino2 w2 None = Some f2" "same_tree f1 f2" "lock_inv f2 (sum_list Ms + H)"
    by (rule free_step [OF f1(3)]) (use m(3) in simp)
  have st: "same_tree f f2" by (rule same_tree_trans [OF f1(2) f2(2)])
  have q2: "queue_inv f2 H" by (rule queue_inv_same [OF q st f2(3) m(1)])
  have "list_all2 elem_holds (lockq f2) Ms" using m(1) st by (simp add: same_tree_facts)
  moreover have "size H + 2 * length (lockq f2) + 2 < MAX_HOLDS" using r st by (simp add: room_def same_tree_facts)
  ultimately have "\<exists>f'. wake_up_queued f2 = Some f' \<and> queue_inv f' H"
    using f2(3) q2 by (intro wake_up_step) (auto simp: queue_inv_def)
  then show ?thesis using f1(1) f2(1) by (simp add: free_path2_def)
qed

lemma filter_id:
  "distinct (map qe_id qes) \<Longrightarrow> qe \<in> set qes \<Longrightarrow> list_all2 elem_holds qes Ms \<Longrightarrow>
   \<exists>M Ms'. elem_holds qe M \<and> list_all2 elem_holds (filter (\<lambda>x. qe_id x \<noteq> qe_id qe) qes) Ms' \<and> sum_list Ms = M + sum_list Ms'"
proof (induction qes arbitrary: Ms)
  case (Cons x qes)
  then obtain M Ms0 where ms: "Ms = M # Ms0" "elem_holds x M" "list_all2 elem_holds qes Ms0" by (cases Ms) auto
  show ?case
  proof (cases "x = qe")
    case True
    have "filter (\<lambda>y. qe_id y \<noteq> qe_id qe) qes = qes" using Cons.prems(1) True
      by (intro filter_True) (metis distinct.simps(2) image_eqI list.map(2) list.set_map)
    then show ?thesis using True ms by (intro exI [of _ M] exI [of _ Ms0]) simp
  next
    case False
    then have mem: "qe \<in> set qes" and ne: "qe_id x \<noteq> qe_id qe" using Cons.prems(1,2) by auto
    obtain M1 Ms1 where "elem_holds qe M1" "list_all2 elem_holds (filter (\<lambda>x. qe_id x \<noteq> qe_id qe) qes) Ms1"
      "sum_list Ms0 = M1 + sum_list Ms1" using Cons.IH [OF _ mem ms(3)] Cons.prems(1) by auto
    then show ?thesis using ne ms by (intro exI [of _ M1] exI [of _ "M # Ms1"]) (simp add: ac_simps)
  qed
qed simp

lemma elem_holds_unique:
  assumes "elem_holds qe M" "elem_holds qe N" "\<forall>h \<in># M. hold_ok f h" "\<forall>h \<in># N. hold_ok f h"
  shows "M = N"
proof (cases "served qe")
  case False
  then show ?thesis using assms(1,2) by (simp add: elem_holds_def)
next
  case s: True
  show ?thesis
  proof (cases "qe_want_path2 qe")
    case False
    obtain ps ps' where "M = {#(qe_nodeid1 qe, ps, qe_wnode1 qe)#}" "N = {#(qe_nodeid1 qe, ps', qe_wnode1 qe)#}"
      using assms(1,2) s False unfolding elem_holds_def by auto
    then show ?thesis using hold_unique [of f "qe_nodeid1 qe" ps "qe_wnode1 qe" ps'] assms(3,4) by simp
  next
    case True
    obtain ps qs ps' qs' where "M = {#(qe_nodeid1 qe, ps, qe_wnode1 qe), (qe_nodeid2 qe, qs, qe_wnode2 qe)#}"
      "N = {#(qe_nodeid1 qe, ps', qe_wnode1 qe), (qe_nodeid2 qe, qs', qe_wnode2 qe)#}"
      using assms(1,2) s True unfolding elem_holds_def by auto
    moreover from this have "ps = ps'" "qs = qs'"
      using hold_unique [of f "qe_nodeid1 qe" ps "qe_wnode1 qe" ps']
        hold_unique [of f "qe_nodeid2 qe" qs "qe_wnode2 qe" qs'] assms(3,4) by auto
    ultimately show ?thesis by simp
  qed
qed

lemma wake_preserves:
  assumes q: "queue_inv f H" and e: "qe \<in> set (lockq f)" "elem_holds qe M" "\<forall>h \<in># M. hold_ok f h"
    and d: "dequeue_path (qe_id qe) f = Some f'"
  shows "queue_inv f' (M + H)"
proof -
  obtain Ms where m: "list_all2 elem_holds (lockq f) Ms" "lock_inv f (sum_list Ms + H)" using q by (auto simp: queue_inv_def)
  let ?q = "filter (\<lambda>x. qe_id x \<noteq> qe_id qe) (lockq f)"
  have dist: "distinct (map qe_id (lockq f))" using q by (simp add: queue_inv_def)
  obtain N Ms' where n: "elem_holds qe N" "list_all2 elem_holds ?q Ms'" "sum_list Ms = N + sum_list Ms'"
    using filter_id [OF dist e(1) m(1)] by blast
  have "\<forall>h \<in># N. hold_ok f h" using m(2) n(3) by (simp add: lock_inv_def)
  then have "N = M" using elem_holds_unique [OF n(1) e(2) _ e(3)] by blast
  then have "lock_inv f (sum_list Ms' + (M + H))" using m(2) n(3) by (simp add: ac_simps)
  moreover have "f' = f\<lparr>lockq := ?q\<rparr>" using d e(1) by (auto simp: dequeue_path_def)
  ultimately show ?thesis using q n(2) dist by (auto simp: queue_inv_def distinct_map_filter)
qed

lemma lock_step_preserves: "lock_step s s' \<Longrightarrow> queue_inv (fst s) (snd s) \<Longrightarrow> queue_inv (fst s') (snd s')"
proof (induction rule: lock_step.induct)
  case (get f H i ino nmo want r f' M)
  then show ?case using get_preserves by simp
next
  case (get2 f H i ino1 nm1 want1 ino2 nm2 want2 r f' M)
  then show ?case using get2_preserves by simp
next
  case (free f ino ps w H f')
  then show ?case using free_preserves by fastforce
next
  case (free2 f ino1 ps w1 ino2 qs w2 H f')
  then show ?case using free2_preserves by fastforce
next
  case (wake qe f f' M H)
  then show ?case using wake_preserves by simp
qed

lemma lock_steps_preserve: "lock_step\<^sup>*\<^sup>* s s' \<Longrightarrow> queue_inv (fst s) (snd s) \<Longrightarrow> queue_inv (fst s') (snd s')"
  by (induction rule: rtranclp_induct) (auto intro: lock_step_preserves)

section \<open>What the locks guarantee\<close>

definition idle :: "fuse \<Rightarrow> bool" where
  "idle f \<longleftrightarrow> tree_ok f \<and> lockq f = [] \<and> short_paths f \<and> (\<forall>x n. heap f x = Some n \<longrightarrow> treelock n = 0)"

lemma idle_queue_inv: "idle f \<Longrightarrow> queue_inv f {#}"
  by (auto simp: idle_def queue_inv_def lock_inv_def lock_state_def tree_okD intro!: exI [of _ "[]"])

lemma lock_inv_exclusive:
  assumes "lock_inv f ({#h, h'#} + H)" and "writes h x"
  shows "\<not> reads h' x \<and> \<not> writes h' x \<and> \<not> reads h x"
proof -
  obtain ino ps w where h: "h = (ino, ps, w)" by (cases h)
  have "hold_ok f h" using assms(1) by (simp add: lock_inv_def)
  then have "heap f x \<noteq> None" using assms(2) by (auto simp: hold_ok_def writes_def h)
  from lock_inv_locks [OF assms(1) this] show ?thesis using assms(2)
    by (auto simp: lock_state_def split: if_splits)
qed

lemma queue_inv_exclusive:
  assumes q: "queue_inv f ({#h, h'#} + H)" and w: "writes h x"
  shows "\<not> reads h' x \<and> \<not> writes h' x \<and> \<not> reads h x"
proof -
  obtain Ms where "lock_inv f (sum_list Ms + ({#h, h'#} + H))" using q by (auto simp: queue_inv_def)
  then have "lock_inv f ({#h, h'#} + (H + sum_list Ms))" by (simp add: ac_simps)
  then show ?thesis using w by (rule lock_inv_exclusive)
qed

lemma idle_locks: "lock_inv f {#} \<Longrightarrow> locks_of f x = 0"
  by (auto simp: lock_inv_def lock_state_def locks_of_def split: option.splits)

lemma get_idle:
  assumes i: "lock_inv f {#}" and al: "allocs f = []" and s: "short_paths f" and r: "request_ok f ino nmo want"
  shows "\<exists>err path w f'. try_get_path f ino nmo want True = Some (err, path, w, f') \<and> allocs f' = [] \<and> same_tree f f' \<and>
    (\<forall>p ps e. get_node f ino = Some p \<longrightarrow> climbs f p ps e \<longrightarrow> top_node f e \<longrightarrow>
       (if is_root f e then err = 0 \<and> path = Some (path_text f ps nmo) else err = - ESTALE))"
proof -
  have inv: "nodes_inv {} (\<lambda>_. 0) f" using i by (simp add: lock_inv_def)
  then have ids: "ids_inv f" "finite (dom (heap f))" by (simp_all add: nodes_inv_def mem_inv_def)
  obtain p where g: "get_node f ino = Some p" using r by (auto simp: request_ok_def)
  then obtain n where n: "heap f p = Some n" using get_node_iff [OF ids] by (auto simp: is_id_iff)
  obtain ps e where c: "climbs f p ps e" "top_node f e" using climbs_exists [OF inv n] by blast
  have "length (spell f ps) + 1100 \<le> MAX_PATH" using s c(1) unfolding short_paths_def by blast
  moreover have "length (name_part nmo) \<le> 1025" using r by (cases nmo) (auto simp: request_ok_def name_part_def)
  ultimately have len: "length (spell f ps) + length (name_part nmo) + 1 \<le> MAX_PATH" by simp
  have want: "want \<longrightarrow> nmo \<noteq> None" using r by (simp add: request_ok_def)
  obtain err path w al' t' where t: "try_get_path (relock (locks_of f) (allocs f) f) ino nmo want True =
      Some (err, path, w, relock t' al' f)" "allocs f = [] \<longrightarrow> al' = []"
    and o: "err = 0 \<and> path_got f (locks_of f) ino nmo want ps e path w t' \<or>
     err \<noteq> 0 \<and> path = None \<and> w = None \<and> path_refused f (locks_of f) (allocs f) ino nmo want ps e err t'"
    using try_get_path_ok [OF inv g c len want, of "locks_of f" "allocs f"] by blast
  have res: "if is_root f e then err = 0 \<and> path = Some (path_text f ps nmo) else err = - ESTALE"
    using o idle_locks [OF i] al by (auto simp: path_got_def path_refused_def)
  have one: "ps' = ps \<and> e' = e" if "climbs f p ps' e'" "top_node f e'" for ps' e'
    using c(1) that c(2) top_unique by blast
  have "try_get_path f ino nmo want True = Some (err, path, w, relock t' al' f)"
    using t relock_self [of f] by simp
  moreover have "allocs (relock t' al' f) = []" using t(2) al by simp
  moreover have "if is_root f e' then err = 0 \<and> path = Some (path_text f ps' nmo) else err = - ESTALE"
    if "get_node f ino = Some p'" "climbs f p' ps' e'" "top_node f e'" for p' ps' e'
    using one [of ps' e'] that g res by auto
  ultimately show ?thesis using same_tree_relock by blast
qed

lemma head_served:
  assumes q: "queue_inv f {#h#}" "room f {#h#}" and none: "\<forall>qe \<in> set (lockq f). \<not> served qe" and al: "allocs f = []"
    and qe: "lockq f = qe # rest" "qe_want_path1 qe" "\<not> qe_want_path2 qe" "\<not> qe_done qe"
    and h: "h = (ino, ps, w)"
  shows "\<exists>f' qe' rest'. free_path_wrlock f ino w = Some f' \<and> lockq f' = qe' # rest' \<and> same_request qe qe' \<and>
    qe_done qe' \<and> qe_signalled qe' \<and> qe_err qe' \<in> {0, - ESTALE}"
proof -
  obtain Ms where m: "list_all2 elem_holds (lockq f) Ms" "lock_inv f (sum_list Ms + {#h#})" "size (sum_list Ms + {#h#}) + 6 < MAX_HOLDS"
    by (rule queue_invE [OF q])
  have "sum_list Ms = {#}"
    using m(1) none by (induction rule: list_all2_induct) (auto simp: elem_holds_def)
  then have i: "lock_inv f (add_mset (ino, ps, w) {#})" using m(2) h by simp
  obtain t where f1: "unlock_path f ino w None = Some (relock t (allocs f) f)" "lock_inv (relock t (allocs f) f) {#}"
    using lock_inv_free [OF i] m(3) by auto
  let ?f1 = "relock t (allocs f) f"
  have st: "same_tree f ?f1" by simp
  have ok: "elem_ok ?f1 qe" "short_paths ?f1" using q(1) qe(1) elem_ok_same [OF st] short_same_tree [OF st]
    by (simp_all add: queue_inv_def)
  then have r: "request_ok ?f1 (qe_nodeid1 qe) (qe_name1 qe) (qe_want_wnode1 qe)" using qe(2) by (simp add: elem_ok_def)
  have "allocs ?f1 = []" using al by simp
  then obtain err path w' f2 where g: "try_get_path ?f1 (qe_nodeid1 qe) (qe_name1 qe) (qe_want_wnode1 qe) True = Some (err, path, w', f2)"
    "\<forall>p ps e. get_node ?f1 (qe_nodeid1 qe) = Some p \<longrightarrow> climbs ?f1 p ps e \<longrightarrow> top_node ?f1 e \<longrightarrow>
       (if is_root ?f1 e then err = 0 \<and> path = Some (path_text ?f1 ps (qe_name1 qe)) else err = - ESTALE)"
    using get_idle [OF f1(2) _ ok(2) r] by blast
  have inv1: "nodes_inv {} (\<lambda>_. 0) ?f1" using f1(2) by (simp add: lock_inv_def)
  then have ids: "ids_inv ?f1" "finite (dom (heap ?f1))" by (simp_all add: nodes_inv_def mem_inv_def)
  obtain p where p: "get_node ?f1 (qe_nodeid1 qe) = Some p" using r by (auto simp: request_ok_def)
  then obtain n where "heap ?f1 p = Some n" using get_node_iff [OF ids, of "qe_nodeid1 qe" p] by (auto simp: is_id_iff)
  then obtain ps' e where c: "climbs ?f1 p ps' e" "top_node ?f1 e" using climbs_exists [OF inv1] by blast
  have err: "err = 0 \<or> err = - ESTALE" using g(2) p c by (metis (full_types))
  let ?qe = "qe\<lparr>qe_err := err, qe_done := True, qe_signalled := True, qe_path1 := path, qe_path2 := None,
      qe_wnode1 := w', qe_wnode2 := None\<rparr>"
  have wk: "queue_element_wakeup ?f1 qe = Some (?qe, f2)"
    using qe g(1) err by (auto simp: queue_element_wakeup_def ESTALE_def EAGAIN_def)
  obtain f' where f': "free_path_wrlock f ino w = Some f'"
    using free_preserves [of f ino ps w "{#}"] q h by auto
  then obtain qes f3 where wl: "wake_loop (qe # rest) ?f1 = Some (qes, f3)" "f' = f3\<lparr>lockq := qes\<rparr>"
    using f1(1) qe(1) by (auto simp: free_path_wrlock_def wake_up_queued_def split: Option.bind_splits)
  then obtain rest' where "qes = ?qe # rest'" using wk by (auto split: Option.bind_splits)
  then have "lockq f' = ?qe # rest'" using wl(2) by simp
  moreover have "same_request qe ?qe" by (simp add: same_request_def)
  ultimately show ?thesis using f' err by auto
qed

section \<open>Back from a path to its node\<close>

definition plain_name :: "string \<Rightarrow> bool" where
  "plain_name s \<longleftrightarrow> s \<noteq> [] \<and> CHR ''/'' \<notin> set s"

definition name_of :: "fuse \<Rightarrow> nat \<Rightarrow> string" where
  "name_of f p = (case heap f p of Some n \<Rightarrow> (case name n of Some s \<Rightarrow> s | None \<Rightarrow> []) | None \<Rightarrow> [])"

lemma strtok_name: "CHR ''/'' \<notin> set nm \<Longrightarrow> strtok cur (nm @ rest) = strtok (cur @ nm) rest"
  by (induction nm arbitrary: cur) auto

lemma strtok_names:
  "\<forall>s \<in> set ns. plain_name s \<Longrightarrow> strtok cur (concat (map (\<lambda>s. CHR ''/'' # s) ns)) = (if cur = [] then [] else [cur]) @ ns"
proof (induction ns arbitrary: cur)
  case (Cons n ns)
  have "strtok [] (n @ concat (map (\<lambda>s. CHR ''/'' # s) ns)) = strtok n (concat (map (\<lambda>s. CHR ''/'' # s) ns))"
    using strtok_name [of n "[]"] Cons.prems by (simp add: plain_name_def)
  then show ?case using Cons by (simp add: plain_name_def)
qed simp

lemma climbs_nodes: "climbs f p ps e \<Longrightarrow> x \<in> set ps \<Longrightarrow> \<exists>n s. heap f x = Some n \<and> nodeid n \<noteq> FUSE_ROOT_ID \<and> name n = Some s"
  by (induction rule: climbs.induct) auto

lemma spell_names: "climbs f p ps e \<Longrightarrow> spell f ps = concat (map (\<lambda>s. CHR ''/'' # s) (map (name_of f) (rev ps)))"
  by (induction rule: climbs.induct) (auto simp: name_of_def)

lemma walk_names_up:
  assumes inv: "nodes_inv {} ext f"
  shows "climbs f p ps e \<Longrightarrow> is_root f e \<Longrightarrow> heap f p = Some n \<Longrightarrow>
    walk_names f FUSE_ROOT_ID (map (name_of f) (rev ps) @ rest) = walk_names f (nodeid n) rest"
proof (induction arbitrary: n rest rule: climbs.induct)
  case (here p)
  then show ?case by (auto simp: is_root_def)
next
  case (up p m nm q ps e)
  have li: "links_inv {} f" using inv by (simp add: nodes_inv_def)
  obtain k where k: "heap f q = Some k" using parent_live [OF li, of p m q] up.hyps by auto
  have "lookup_node f (nodeid k) nm = Some (Some p)"
    using lookup_node_iff [OF inv, of "nodeid k" nm "Some p"] up.hyps k by (auto simp: is_entry_iff)
  then show ?case using up.IH [OF up.prems(1) k, of "nm # rest"] up.hyps up.prems(2) by (simp add: name_of_def)
qed

lemma path_leads_back:
  assumes inv: "nodes_inv {} ext f" and c: "climbs f p ps e" "is_root f e" and p: "heap f p = Some n"
    and names: "\<forall>x \<in> set ps. plain_name (name_of f x)" and al: "allocs f = []"
  shows "lookup_path_in_cache f (path_text f ps None) = Some (0, Some (nodeid n), f)"
proof -
  let ?ns = "map (name_of f) (rev ps)"
  have "strtok [] (path_text f ps None) = ?ns"
  proof (cases "ps = []")
    case True
    then show ?thesis by (simp add: path_text_def name_part_def)
  next
    case False
    then have "spell f ps \<noteq> []" using spell_names [OF c(1)] by simp
    then have "path_text f ps None = concat (map (\<lambda>s. CHR ''/'' # s) ?ns)"
      using spell_names [OF c(1)] by (simp add: path_text_def name_part_def Let_def)
    then show ?thesis using strtok_names [of ?ns "[]"] names by simp
  qed
  moreover have e: "f\<lparr>allocs := []\<rparr> = f" using al by (cases f) simp
  ultimately show ?thesis using walk_names_up [OF inv c p, of "[]"]
    by (simp add: lookup_path_in_cache_def Let_def al e)
qed

section \<open>A tree with one file, and nobody at work\<close>

definition quiet_a :: "int \<Rightarrow> fuse" where
  "quiet_a r = (relock (\<lambda>_. 0) [] (demo_a r))\<lparr>lockq := []\<rparr>"

lemma tree_ok_relock: "tree_ok f \<Longrightarrow> tree_ok (relock (\<lambda>_. 0) al f)"
  using nodes_inv_relock [of "\<lambda>_. 0" f "\<lambda>_. 0" al]
  by (auto simp: tree_ok_def base_def positive_def quiet_def lru_one_def)

lemma tree_ok_lockq: "tree_ok f \<Longrightarrow> tree_ok (f\<lparr>lockq := q\<rparr>)"
proof -
  assume t: "tree_ok f"
  have "nodes_inv {} (\<lambda>_. 0) (f\<lparr>lockq := q\<rparr>)"
    by (rule nodes_inv_same [OF tree_okD(3) [OF t]]) (use tree_okD(3) [OF t] in \<open>simp_all add: nodes_inv_def mem_inv_def\<close>)
  then show ?thesis using t by (simp add: tree_ok_def base_def positive_def quiet_def lru_one_def)
qed

lemma quiet_a_facts:
  obtains p n e where "idle (quiet_a r)" "allocs (quiet_a r) = []" "heap (quiet_a r) p = Some n" "name n = Some ''a''"
    "get_node (quiet_a r) (nodeid n) = Some p" "climbs (quiet_a r) p [p] e" "is_root (quiet_a r) e"
    "get_node (quiet_a r) FUSE_ROOT_ID = Some e" "lookup_node (quiet_a r) FUSE_ROOT_ID ''a'' = Some (Some p)" "p \<noteq> e"
proof -
  let ?a = "demo_a r" and ?f = "quiet_a r"
  obtain p n where a: "tree_ok ?a" "heap ?a p = Some n" "nodeid n \<noteq> FUSE_ROOT_ID" "known_dir ?a FUSE_ROOT_ID"
    "lookup_node ?a FUSE_ROOT_ID ''a'' = Some (Some p)" "name n = Some ''a''"
    "\<forall>x k. heap ?a x = Some k \<longrightarrow> x \<noteq> p \<longrightarrow> nodeid k = FUSE_ROOT_ID"
    by (rule demo_a_facts [of r]) blast
  have t: "tree_ok ?f" unfolding quiet_a_def by (intro tree_ok_lockq tree_ok_relock a(1))
  let ?n = "n\<lparr>treelock := 0\<rparr>"
  have h: "heap ?f p = Some ?n" using a(2) by (simp add: quiet_a_def)
  have inv: "nodes_inv {} (\<lambda>_. 0) ?f" by (rule tree_okD(3) [OF t])
  then have ids: "ids_inv ?f" "finite (dom (heap ?f))" by (simp_all add: nodes_inv_def mem_inv_def)
  have g: "get_node ?f (nodeid ?n) = Some p" using get_node_iff [OF ids, of "nodeid n" p] h by (simp add: is_id_iff)
  have others: "nodeid k = FUSE_ROOT_ID" if "heap ?f x = Some k" "x \<noteq> p" for x k
    using that a(7) by (auto simp: quiet_a_def)
  have "is_entry ?a (FUSE_ROOT_ID, ''a'') p"
    using a(5) lookup_node_iff [OF tree_okD(3) [OF a(1)], of FUSE_ROOT_ID "''a''" "Some p"] by simp
  then obtain e m where e: "parent n = Some e" "heap ?a e = Some m" "nodeid m = FUSE_ROOT_ID" using a(2) by (auto simp: is_entry_iff)
  have he: "heap ?f e = Some (m\<lparr>treelock := 0\<rparr>)" using e(2) by (simp add: quiet_a_def)
  have root: "is_root ?f e" using he e(3) by (simp add: is_root_def)
  have ge: "get_node ?f FUSE_ROOT_ID = Some e" using get_node_iff [OF ids, of FUSE_ROOT_ID e] he e(3) by (simp add: is_id_iff)
  have c: "climbs ?f p [p] e" using climbs.up [OF h _ _ _ climbs.here, of "''a''" e] a(3,6) e(1) by simp
  have look: "lookup_node ?f FUSE_ROOT_ID ''a'' = Some (Some p)"
    using lookup_node_iff [OF inv, of FUSE_ROOT_ID "''a''" "Some p"] h he e(1,3) a(6) by (auto simp: is_entry_iff)
  have "length (spell ?f ps) \<le> 2" if ps: "climbs ?f x ps y" for x ps y
  proof -
    have "distinct ps" using climbs_distinct [OF ps] inv by (simp add: nodes_inv_def)
    have "set ps \<subseteq> {p}" using climbs_nodes [OF ps] others by fastforce
    have "ps = [] \<or> ps = [p]"
    proof (cases ps)
      case (Cons x xs)
      then have "x = p" "p \<notin> set xs" "set xs \<subseteq> {p}" using \<open>distinct ps\<close> \<open>set ps \<subseteq> {p}\<close> by auto
      then have "x = p" "xs = []" by (cases xs; auto)+
      then show ?thesis using Cons by simp
    qed simp
    then show ?thesis using h a(6) by auto
  qed
  then have "short_paths ?f" unfolding short_paths_def MAX_PATH_def by force
  moreover have "\<forall>x n. heap ?f x = Some n \<longrightarrow> treelock n = 0" "lockq ?f = []" "allocs ?f = []" by (auto simp: quiet_a_def)
  moreover have "p \<noteq> e" using a(2,3) e(2,3) by auto
  ultimately show thesis using that [OF _ _ h _ g c root ge look] t a(6) by (simp add: idle_def)
qed

section \<open>Properties\<close>

text \<open>
  C3. Mutual exclusion: from an idle tree on, whatever paths are asked for, granted, refused, queued, given
  back and granted to waiting requests, a node that one held path locks for writing is locked by no
  other held path, neither for reading nor for writing.
\<close>

theorem path_locks_exclusive:
  assumes "idle f0" and "lock_step\<^sup>*\<^sup>* (f0, {#}) (f, {#h, h'#} + H)" and "writes h x"
  shows "\<not> reads h' x \<and> \<not> writes h' x \<and> \<not> reads h x"
  using lock_steps_preserve [OF assms(2)] idle_queue_inv [OF assms(1)] queue_inv_exclusive [OF _ assms(3)] by simp

text \<open>A request that has locked the file for writing.\<close>

lemma quiet_written:
  obtains p n e t where "idle (quiet_a 0)" "heap (quiet_a 0) p = Some n" "get_node (quiet_a 0) (nodeid n) = Some p"
    "climbs (quiet_a 0) p [p] e" "is_root (quiet_a 0) e" "get_node (quiet_a 0) FUSE_ROOT_ID = Some e" "t p = TREELOCK_WRITE"
    "lock_step (quiet_a 0, {#}) (relock t [] (quiet_a 0), {#(FUSE_ROOT_ID, [], Some p)#})"
    "lock_inv (relock t [] (quiet_a 0)) {#(FUSE_ROOT_ID, [], Some p)#}"
proof -
  let ?f = "quiet_a 0"
  obtain p n e where a: "idle ?f" "allocs ?f = []" "heap ?f p = Some n" "get_node ?f (nodeid n) = Some p" "climbs ?f p [p] e"
    "is_root ?f e" "get_node ?f FUSE_ROOT_ID = Some e" "lookup_node ?f FUSE_ROOT_ID ''a'' = Some (Some p)"
    by (rule quiet_a_facts [of 0]) blast
  have q: "queue_inv ?f {#}" by (rule idle_queue_inv [OF a(1)])
  have inv: "lock_inv ?f {#}" using a(1) by (auto simp: idle_def lock_inv_def lock_state_def tree_okD)
  have nodes: "nodes_inv {} (\<lambda>_. 0) ?f" using inv by (simp add: lock_inv_def)
  have lq: "lockq ?f = []" using a(1) by (simp add: idle_def)
  have zero: "locks_of ?f x = 0" for x by (rule idle_locks [OF inv])
  have r: "request_ok ?f FUSE_ROOT_ID (Some ''a'') True" using a(7) by (simp add: request_ok_def)
  let ?t = "write_lock (Some p) TREELOCK_WRITE (locks_of ?f)" and ?w = "(FUSE_ROOT_ID, [], Some p) :: hold"
  have top: "top_node ?f e" using a(6) by (auto simp: top_node_def is_root_def)
  have raise0: "raise {} t = t" for t by (simp add: raise_def fun_eq_iff)
  obtain err path w al1 t1 where g1: "try_get_path (relock (locks_of ?f) (allocs ?f) ?f) FUSE_ROOT_ID (Some ''a'') True True =
      Some (err, path, w, relock t1 al1 ?f)" "al1 = []"
    "err = 0 \<and> path_got ?f (locks_of ?f) FUSE_ROOT_ID (Some ''a'') True [] e path w t1 \<or>
     err \<noteq> 0 \<and> path = None \<and> w = None \<and> path_refused ?f (locks_of ?f) (allocs ?f) FUSE_ROOT_ID (Some ''a'') True [] e err t1"
    using try_get_path_ok [OF nodes a(7) climbs.here top, of "Some ''a''" True "locks_of ?f" "allocs ?f"] a(2)
    by (auto simp: name_part_def MAX_PATH_def)
  have e: "err = 0" "w = Some p" "t1 = ?t" using g1(3) a(2,6,8) zero
    by (auto simp: path_refused_def path_got_def raise0)
  let ?f1 = "relock t1 [] ?f"
  have run1: "get_path_common 0 ?f FUSE_ROOT_ID (Some ''a'') True = Some (Some (0, path, Some p), ?f1)"
    using g1(1,2) e(1,2) relock_self [of ?f] by (simp add: get_path_common_def EAGAIN_def)
  have ok1: "hold_ok ?f ?w" using a(3,6,7) climbs.here by (auto simp: hold_ok_def)
  have "lock_step (?f, {#}) (?f1, {#?w#} + {#})"
    by (rule lock_step.get [OF _ _ r run1]) (use ok1 lq in \<open>simp_all add: room_def MAX_HOLDS_def brings_def\<close>)
  then have s1: "lock_step (?f, {#}) (?f1, {#?w#})" by simp
  have l1: "lock_inv ?f1 {#?w#}" using lock_step_preserves [OF s1] q lq by (simp add: queue_inv_def)
  have "t1 p = TREELOCK_WRITE" using e(3) by (simp add: write_lock_def)
  then show thesis using that [OF a(1,3,4,5,6,7) _ s1 l1] by blast
qed

lemma quiet_two_holds:
  obtains p f where "idle (quiet_a 0)" "lock_step\<^sup>*\<^sup>* (quiet_a 0, {#}) (f, {#(FUSE_ROOT_ID, [], Some p), (FUSE_ROOT_ID, [], None)#})"
    "lockq f = []"
proof -
  let ?f = "quiet_a 0"
  obtain p n e t where a: "idle ?f" "is_root ?f e" "get_node ?f FUSE_ROOT_ID = Some e"
    "lock_step (?f, {#}) (relock t [] ?f, {#(FUSE_ROOT_ID, [], Some p)#})"
    "lock_inv (relock t [] ?f) {#(FUSE_ROOT_ID, [], Some p)#}"
    by (rule quiet_written) blast
  let ?f1 = "relock t [] ?f" and ?w = "(FUSE_ROOT_ID, [], Some p) :: hold"
  have nodes: "nodes_inv {} (\<lambda>_. 0) ?f" and lq: "lockq ?f = []" using a(1) by (simp_all add: idle_def tree_okD)
  have top: "top_node ?f e" using a(2) by (auto simp: top_node_def is_root_def)
  have r: "request_ok ?f1 FUSE_ROOT_ID None False" using a(3) by (simp add: request_ok_def)
  have sp: "short_paths ?f1" using a(1) short_same_tree [of ?f ?f1] by (simp add: idle_def)
  have len: "length (spell ?f []) + length (name_part None) + 1 \<le> MAX_PATH" by (simp add: name_part_def MAX_PATH_def)
  have "False \<longrightarrow> None \<noteq> None" by simp
  from try_get_path_ok [OF nodes a(3) climbs.here top len, of False t "[]"]
  obtain err path w al t' where g: "try_get_path ?f1 FUSE_ROOT_ID None False True = Some (err, path, w, relock t' al ?f)"
    "err = 0 \<and> path_got ?f t FUSE_ROOT_ID None False [] e path w t' \<or>
     err \<noteq> 0 \<and> path = None \<and> w = None \<and> path_refused ?f t [] FUSE_ROOT_ID None False [] e err t'" by blast
  have e: "err = 0" "w = None" using g(2) a(2) by (auto simp: path_refused_def path_got_def)
  let ?f2 = "relock t' al ?f"
  have run: "get_path_common 0 ?f1 FUSE_ROOT_ID None False = Some (Some (0, path, None), ?f2)"
    using g(1) e by (simp add: get_path_common_def EAGAIN_def)
  have ok: "hold_ok ?f2 (FUSE_ROOT_ID, [], None)" using a(2,3) climbs.here by (auto simp: hold_ok_def)
  have "lock_step (?f1, {#?w#}) (?f2, {#(FUSE_ROOT_ID, [], None)#} + {#?w#})"
    by (rule lock_step.get [OF _ _ r run]) (use ok lq in \<open>simp_all add: room_def MAX_HOLDS_def brings_def\<close>)
  then have "lock_step (?f1, {#?w#}) (?f2, {#?w, (FUSE_ROOT_ID, [], None)#})" by (simp add: add_mset_commute)
  then have "lock_step\<^sup>*\<^sup>* (?f, {#}) (?f2, {#?w, (FUSE_ROOT_ID, [], None)#})"
    using a(4) by (meson converse_rtranclp_into_rtranclp rtranclp.rtrancl_refl)
  then show thesis using that a(1) lq by simp
qed

lemma quiet_waiting:
  obtains p f qe where "idle (quiet_a 0)" "lock_step\<^sup>*\<^sup>* (quiet_a 0, {#}) (f, {#(FUSE_ROOT_ID, [], Some p)#})"
    "lockq f = [qe]" "qe_want_path1 qe" "\<not> qe_want_path2 qe" "\<not> qe_done qe" "allocs f = []"
proof -
  let ?f = "quiet_a 0"
  obtain p n e t where b: "idle ?f" "heap ?f p = Some n" "get_node ?f (nodeid n) = Some p" "climbs ?f p [p] e" "is_root ?f e"
    "get_node ?f FUSE_ROOT_ID = Some e" "t p = TREELOCK_WRITE"
    "lock_step (?f, {#}) (relock t [] ?f, {#(FUSE_ROOT_ID, [], Some p)#})"
    "lock_inv (relock t [] ?f) {#(FUSE_ROOT_ID, [], Some p)#}"
    by (rule quiet_written)
  note a = b(1,3,4,5,7,8)
  let ?f1 = "relock t [] ?f" and ?w = "(FUSE_ROOT_ID, [], Some p) :: hold"
  have nodes: "nodes_inv {} (\<lambda>_. 0) ?f" and lq: "lockq ?f = []" using a(1) by (simp_all add: idle_def tree_okD)
  have top: "top_node ?f e" using a(4) by (auto simp: top_node_def is_root_def)
  have r: "request_ok ?f1 (nodeid n) None False" using a(2) by (simp add: request_ok_def)
  have "length (spell ?f [p]) + 1100 \<le> MAX_PATH" using a(1,3) unfolding idle_def short_paths_def by blast
  then have len: "length (spell ?f [p]) + length (name_part None) + 1 \<le> MAX_PATH" by (simp add: name_part_def)
  from try_get_path_ok [OF nodes a(2,3) top len, of False t "[]"]
  obtain err path w al t' where g: "try_get_path ?f1 (nodeid n) None False True = Some (err, path, w, relock t' al ?f)" "al = []"
    "err = 0 \<and> path_got ?f t (nodeid n) None False [p] e path w t' \<or>
     err \<noteq> 0 \<and> path = None \<and> w = None \<and> path_refused ?f t [] (nodeid n) None False [p] e err t'" by blast
  have e: "err = - EAGAIN" using g(3) a(4,5) by (auto simp: path_refused_def path_got_def TREELOCK_WRITE_def)
  let ?qe = "path_element 1 (nodeid n) None False" and ?f2 = "relock t' [] ?f"
  have run: "get_path_common 1 ?f1 (nodeid n) None False = Some (None, queue_path ?qe ?f2)"
    using g(1,2) e by (simp add: get_path_common_def)
  have "lock_step (?f1, {#?w#}) (queue_path ?qe ?f2, {#} + {#?w#})"
    by (rule lock_step.get [OF _ _ r run]) (use lq in \<open>simp_all add: room_def MAX_HOLDS_def brings_def\<close>)
  then have "lock_step (?f1, {#?w#}) (queue_path ?qe ?f2, {#?w#})" by simp
  then have s: "lock_step\<^sup>*\<^sup>* (?f, {#}) (queue_path ?qe ?f2, {#?w#})"
    using a(6) by (meson converse_rtranclp_into_rtranclp rtranclp.rtrancl_refl)
  have "lockq (queue_path ?qe ?f2) = [?qe\<lparr>qe_done := False\<rparr>]" using lq by (simp add: queue_path_def)
  then show thesis
    by (rule that [OF a(1) s]) (simp_all add: path_element_def new_element_def queue_path_def)
qed

theorem path_locks_exclusive_witness:
  "\<exists>p f. lock_step\<^sup>*\<^sup>* (quiet_a 0, {#}) (f, {#(FUSE_ROOT_ID, [], Some p), (FUSE_ROOT_ID, [], None)#} + {#}) \<and>
    \<not> reads (FUSE_ROOT_ID, [], None) p \<and> \<not> writes (FUSE_ROOT_ID, [], None) p \<and> \<not> reads (FUSE_ROOT_ID, [], Some p) p"
proof -
  obtain p f where s: "idle (quiet_a 0)"
    "lock_step\<^sup>*\<^sup>* (quiet_a 0, {#}) (f, {#(FUSE_ROOT_ID, [], Some p), (FUSE_ROOT_ID, [], None)#} + {#})"
    by (rule quiet_two_holds) simp
  have "writes (FUSE_ROOT_ID, [], Some p) p" by (simp add: writes_def)
  from path_locks_exclusive [OF s this] s(2) show ?thesis by blast
qed



text \<open>
  C25. No lost wake-up: when the last path that is held is given back, the first waiting request for a path
  is served at once, with its path or with \<open>ESTALE\<close>, and its thread is signalled.
\<close>

theorem waiting_path_is_served:
  assumes "idle f0" and "lock_step\<^sup>*\<^sup>* (f0, {#}) (f, {#(ino, ps, w)#})" and "room f {#(ino, ps, w)#}"
    and "\<forall>qe \<in> set (lockq f). \<not> served qe" and "allocs f = []"
    and "lockq f = qe # rest" and "qe_want_path1 qe" and "\<not> qe_want_path2 qe" and "\<not> qe_done qe"
  shows "\<exists>f' qe' rest'. free_path_wrlock f ino w = Some f' \<and> lockq f' = qe' # rest' \<and> same_request qe qe' \<and>
    qe_done qe' \<and> qe_signalled qe' \<and> qe_err qe' \<in> {0, - ESTALE}"
proof -
  have "queue_inv f {#(ino, ps, w)#}" using lock_steps_preserve [OF assms(2)] idle_queue_inv [OF assms(1)] by simp
  then show ?thesis by (rule head_served [OF _ assms(3-9) refl])
qed

theorem waiting_path_is_served_witness:
  "\<exists>p f f' qe' rest'. free_path_wrlock f FUSE_ROOT_ID (Some p) = Some f' \<and> lockq f' = qe' # rest' \<and>
    qe_done qe' \<and> qe_signalled qe' \<and> qe_err qe' \<in> {0, - ESTALE}"
proof -
  obtain p f qe where s: "idle (quiet_a 0)" "lock_step\<^sup>*\<^sup>* (quiet_a 0, {#}) (f, {#(FUSE_ROOT_ID, [], Some p)#})"
    "lockq f = [qe]" "qe_want_path1 qe" "\<not> qe_want_path2 qe" "\<not> qe_done qe" "allocs f = []"
    by (rule quiet_waiting) blast
  have "room f {#(FUSE_ROOT_ID, [], Some p)#}" "\<forall>qe \<in> set (lockq f). \<not> served qe"
    using s(3,6) by (simp_all add: room_def MAX_HOLDS_def served_def)
  from waiting_path_is_served [OF s(1,2) this s(7,3,4,5,6)] show ?thesis by blast
qed

text \<open>
  C26. The path that \<open>get_path\<close> gives for a node leads back to it: looking the path up component by component
  in the name cache ends at the number of the node.
\<close>

theorem get_path_roundtrip:
  assumes "idle f" and "allocs f = []" and "get_node f ino = Some p" and "climbs f p ps e" and "is_root f e"
    and "\<forall>x \<in> set ps. plain_name (name_of f x)"
  shows "\<exists>path f'. get_path i f ino = Some (Some (0, Some path, None), f') \<and>
    lookup_path_in_cache f path = Some (0, Some ino, f)"
proof -
  have i: "lock_inv f {#}" using assms(1) by (auto simp: idle_def lock_inv_def lock_state_def tree_okD)
  then have inv: "nodes_inv {} (\<lambda>_. 0) f" by (simp add: lock_inv_def)
  then have ids: "ids_inv f" "finite (dom (heap f))" by (simp_all add: nodes_inv_def mem_inv_def)
  obtain n where n: "heap f p = Some n" "nodeid n = ino" using assms(3) get_node_iff [OF ids] by (auto simp: is_id_iff)
  have sp: "short_paths f" and r: "request_ok f ino None False"
    using assms(1,3) by (simp_all add: idle_def request_ok_def)
  have top: "top_node f e" using assms(5) by (auto simp: top_node_def is_root_def)
  have "size {#} < MAX_HOLDS" by (simp add: MAX_HOLDS_def)
  have len: "length (spell f ps) + length (name_part None) + 1 \<le> MAX_PATH"
  proof -
    have "length (spell f ps) + 1100 \<le> MAX_PATH" using sp assms(4) unfolding short_paths_def by blast
    then show ?thesis by (simp add: name_part_def)
  qed
  obtain err path w al' t' where t: "try_get_path (relock (locks_of f) (allocs f) f) ino None False True =
      Some (err, path, w, relock t' al' f)"
    and o: "err = 0 \<and> path_got f (locks_of f) ino None False ps e path w t' \<or>
     err \<noteq> 0 \<and> path = None \<and> w = None \<and> path_refused f (locks_of f) (allocs f) ino None False ps e err t'"
    using try_get_path_ok [OF inv assms(3,4) top len, of False "locks_of f" "allocs f"] by blast
  have "err = 0" "w = None" "path = Some (path_text f ps None)"
    using o assms(2,5) idle_locks [OF i] by (auto simp: path_refused_def path_got_def)
  then have "get_path i f ino = Some (Some (0, Some (path_text f ps None), None), relock t' al' f)"
    using t relock_self [of f] by (simp add: get_path_def get_path_common_def EAGAIN_def)
  then show ?thesis using path_leads_back [OF inv assms(4,5) n(1) assms(6,2)] n(2) by blast
qed

theorem get_path_roundtrip_witness:
  "\<exists>ino path f'. get_path 0 (quiet_a 0) ino = Some (Some (0, Some path, None), f') \<and>
    lookup_path_in_cache (quiet_a 0) path = Some (0, Some ino, quiet_a 0)"
proof -
  obtain p n e where a: "idle (quiet_a 0)" "allocs (quiet_a 0) = []" "heap (quiet_a 0) p = Some n" "name n = Some ''a''"
    "get_node (quiet_a 0) (nodeid n) = Some p" "climbs (quiet_a 0) p [p] e" "is_root (quiet_a 0) e"
    by (rule quiet_a_facts [of 0]) blast
  have "\<forall>x \<in> set [p]. plain_name (name_of (quiet_a 0) x)" using a(3,4) by (simp add: plain_name_def name_of_def)
  from get_path_roundtrip [OF a(1,2,5,6,7) this] show ?thesis by blast
qed

end
