(* ===== verification/FsOps.thy ===== *)
theory FsOps
  imports Nodes Buffer
begin

text \<open>
  The file system below the library, \<open>.deps/libfuse3-3.16.2/include/fuse.h\<close> and \<open>lib/fuse.c\<close>: the
  table \<open>struct fuse_operations\<close> of callbacks and the functions \<open>fuse_fs_*\<close> that call them.

  A callback is a function of its arguments and of the environment it runs in: the state of the
  file system (\<open>'s\<close>), the memory it shares with the library, the blocks that \<open>malloc\<close> has handed out
  and the context of the request.  What it writes through a pointer is a result; a result of type
  \<open>('s, 'a) res\<close> is the value returned, what was written through the pointers, and the environment.
  A path is \<open>None\<close> for NULL.  An operation the file system does not have is \<open>None\<close>.  Debug output is
  left out.
\<close>

section \<open>Types\<close>

record stat =
  st_ino :: u64
  st_mode :: u32
  st_nlink :: nat
  st_uid :: int
  st_gid :: int
  st_rdev :: nat
  st_size :: int
  st_blksize :: nat
  st_blocks :: nat
  st_atim :: timespec
  st_mtim :: timespec
  st_ctim :: timespec

definition zero_stat :: stat where
  "zero_stat = \<lparr>st_ino = 0, st_mode = 0, st_nlink = 0, st_uid = 0, st_gid = 0, st_rdev = 0, st_size = 0,
     st_blksize = 0, st_blocks = 0, st_atim = zero_time, st_mtim = zero_time, st_ctim = zero_time\<rparr>"

definition S_IFMT :: u32 where "S_IFMT = 0xF000"
definition S_ISREG :: "u32 \<Rightarrow> bool" where "S_ISREG mode \<longleftrightarrow> and mode S_IFMT = 0x8000"

record statvfs =
  f_bsize :: nat
  f_frsize :: nat
  f_blocks :: nat
  f_bfree :: nat
  f_bavail :: nat
  f_files :: nat
  f_ffree :: nat
  f_namemax :: nat

definition zero_statvfs :: statvfs where
  "zero_statvfs = \<lparr>f_bsize = 0, f_frsize = 0, f_blocks = 0, f_bfree = 0, f_bavail = 0, f_files = 0,
     f_ffree = 0, f_namemax = 0\<rparr>"

record fuse_file_info =
  fi_flags :: u32
  fi_writepage :: bool
  fi_direct_io :: bool
  fi_keep_cache :: bool
  fi_parallel_direct_writes :: bool
  fi_flush :: bool
  fi_nonseekable :: bool
  fi_flock_release :: bool
  fi_cache_readdir :: bool
  fi_noflush :: bool
  fi_fh :: u64
  fi_lock_owner :: u64
  fi_poll_events :: u32

definition zero_fi :: fuse_file_info where
  "zero_fi = \<lparr>fi_flags = 0, fi_writepage = False, fi_direct_io = False, fi_keep_cache = False,
     fi_parallel_direct_writes = False, fi_flush = False, fi_nonseekable = False, fi_flock_release = False,
     fi_cache_readdir = False, fi_noflush = False, fi_fh = 0, fi_lock_owner = 0, fi_poll_events = 0\<rparr>"

record fuse_conn_info =
  proto_major :: u32
  proto_minor :: u32
  max_write :: u32
  max_read :: u32
  max_readahead :: u32
  capable :: u32
  want :: u32
  max_background :: u32
  congestion_threshold :: u32
  time_gran :: u32

definition FUSE_CAP_POSIX_LOCKS :: u32 where "FUSE_CAP_POSIX_LOCKS = 0x2"
definition FUSE_CAP_EXPORT_SUPPORT :: u32 where "FUSE_CAP_EXPORT_SUPPORT = 0x10"
definition FUSE_CAP_SPLICE_READ :: u32 where "FUSE_CAP_SPLICE_READ = 0x200"
definition FUSE_CAP_FLOCK_LOCKS :: u32 where "FUSE_CAP_FLOCK_LOCKS = 0x400"

definition F_GETLK :: int where "F_GETLK = 5"
definition F_SETLK :: int where "F_SETLK = 6"
definition F_SETLKW :: int where "F_SETLKW = 7"

section \<open>The environment of a callback\<close>

record fuse_context =
  cx_uid :: int
  cx_gid :: int
  cx_pid :: int
  cx_umask :: u32
  private_data :: nat

record 's env =
  fs_state :: 's
  mem :: memory
  blocks :: "nat list"       \<comment> \<open>addresses handed out by \<open>malloc\<close> and not yet given back\<close>
  brk :: nat                 \<comment> \<open>the next address \<open>malloc\<close> hands out\<close>
  mallocs :: allocs
  req_context :: fuse_context

type_synonym ('s, 'a) res = "int \<times> 'a \<times> 's env"

definition malloc :: "nat \<Rightarrow> 's env \<Rightarrow> nat option \<times> 's env" where
  "malloc n e =
     (let (ok, al) = alloc_next (mallocs e) in
      if ok then (Some (brk e), e\<lparr>mallocs := al, blocks := brk e # blocks e, brk := brk e + n + 1\<rparr>)
      else (None, e\<lparr>mallocs := al\<rparr>))"

definition free_mem :: "nat \<Rightarrow> 's env \<Rightarrow> 's env option" where
  \<comment> \<open>\<open>free\<close>; NULL is ignored, a block that is not allocated is an error\<close>
  "free_mem a e = (if a = 0 then Some e
      else if a \<in> set (blocks e) then Some (e\<lparr>blocks := remove1 a (blocks e)\<rparr>) else None)"

text \<open>
  What \<open>readdir\<close> does: it hands entries to the filler and goes on with the answer, or ends.  The type
  is a finite tree, so a callback does not hand out entries for ever.
\<close>

datatype 's walk =
  Ends int fuse_file_info "'s env"
| Fills string "stat option" int u32 "int \<Rightarrow> 's walk"

section \<open>The operations\<close>

type_synonym path = "string option"
type_synonym fi_opt = "fuse_file_info option"

text \<open>
  \<open>struct fuse_operations\<close>, in the order of the header.  An operation on buffers may be a file system
  module that passes them on to the library, whose assertions may then fail (\<open>None\<close>).
\<close>

record 's fs_ops_names =
  op_getattr :: "(path \<Rightarrow> stat \<Rightarrow> fi_opt \<Rightarrow> 's env \<Rightarrow> ('s, stat \<times> fi_opt) res) option"
  op_readlink :: "(path \<Rightarrow> nat \<Rightarrow> 's env \<Rightarrow> ('s, string) res) option"
  op_mknod :: "(path \<Rightarrow> u32 \<Rightarrow> nat \<Rightarrow> 's env \<Rightarrow> ('s, unit) res) option"
  op_mkdir :: "(path \<Rightarrow> u32 \<Rightarrow> 's env \<Rightarrow> ('s, unit) res) option"
  op_unlink :: "(path \<Rightarrow> 's env \<Rightarrow> ('s, unit) res) option"
  op_rmdir :: "(path \<Rightarrow> 's env \<Rightarrow> ('s, unit) res) option"
  op_symlink :: "(string \<Rightarrow> path \<Rightarrow> 's env \<Rightarrow> ('s, unit) res) option"
  op_rename :: "(path \<Rightarrow> path \<Rightarrow> u32 \<Rightarrow> 's env \<Rightarrow> ('s, unit) res) option"
  op_link :: "(path \<Rightarrow> path \<Rightarrow> 's env \<Rightarrow> ('s, unit) res) option"
  op_chmod :: "(path \<Rightarrow> u32 \<Rightarrow> fi_opt \<Rightarrow> 's env \<Rightarrow> ('s, fi_opt) res) option"
  op_chown :: "(path \<Rightarrow> int \<Rightarrow> int \<Rightarrow> fi_opt \<Rightarrow> 's env \<Rightarrow> ('s, fi_opt) res) option"
  op_truncate :: "(path \<Rightarrow> int \<Rightarrow> fi_opt \<Rightarrow> 's env \<Rightarrow> ('s, fi_opt) res) option"
  op_open :: "(path \<Rightarrow> fuse_file_info \<Rightarrow> 's env \<Rightarrow> ('s, fuse_file_info) res) option"
  op_read :: "(path \<Rightarrow> nat \<Rightarrow> int \<Rightarrow> fuse_file_info \<Rightarrow> 's env \<Rightarrow> ('s, bytes \<times> fuse_file_info) res) option"
  op_write :: "(path \<Rightarrow> bytes \<Rightarrow> int \<Rightarrow> fuse_file_info \<Rightarrow> 's env \<Rightarrow> ('s, fuse_file_info) res) option"

record 's fs_ops_files = "'s fs_ops_names" +
  op_statfs :: "(path \<Rightarrow> statvfs \<Rightarrow> 's env \<Rightarrow> ('s, statvfs) res) option"
  op_flush :: "(path \<Rightarrow> fuse_file_info \<Rightarrow> 's env \<Rightarrow> ('s, fuse_file_info) res) option"
  op_release :: "(path \<Rightarrow> fuse_file_info \<Rightarrow> 's env \<Rightarrow> ('s, fuse_file_info) res) option"
  op_fsync :: "(path \<Rightarrow> int \<Rightarrow> fuse_file_info \<Rightarrow> 's env \<Rightarrow> ('s, fuse_file_info) res) option"
  op_setxattr :: "(path \<Rightarrow> string \<Rightarrow> bytes \<Rightarrow> int \<Rightarrow> 's env \<Rightarrow> ('s, unit) res) option"
  op_getxattr :: "(path \<Rightarrow> string \<Rightarrow> nat \<Rightarrow> 's env \<Rightarrow> ('s, bytes) res) option"
  op_listxattr :: "(path \<Rightarrow> nat \<Rightarrow> 's env \<Rightarrow> ('s, bytes) res) option"
  op_removexattr :: "(path \<Rightarrow> string \<Rightarrow> 's env \<Rightarrow> ('s, unit) res) option"
  op_opendir :: "(path \<Rightarrow> fuse_file_info \<Rightarrow> 's env \<Rightarrow> ('s, fuse_file_info) res) option"
  op_readdir :: "(path \<Rightarrow> int \<Rightarrow> fuse_file_info \<Rightarrow> u32 \<Rightarrow> 's env \<Rightarrow> 's walk) option"
  op_releasedir :: "(path \<Rightarrow> fuse_file_info \<Rightarrow> 's env \<Rightarrow> ('s, fuse_file_info) res) option"
  op_fsyncdir :: "(path \<Rightarrow> int \<Rightarrow> fuse_file_info \<Rightarrow> 's env \<Rightarrow> ('s, fuse_file_info) res) option"
  op_init :: "(fuse_conn_info \<Rightarrow> fuse_config \<Rightarrow> 's env \<Rightarrow> nat \<times> fuse_conn_info \<times> fuse_config \<times> 's env) option"
  op_destroy :: "(nat \<Rightarrow> 's env \<Rightarrow> 's env) option"

record 's fuse_operations = "'s fs_ops_files" +
  op_access :: "(path \<Rightarrow> int \<Rightarrow> 's env \<Rightarrow> ('s, unit) res) option"
  op_create :: "(path \<Rightarrow> u32 \<Rightarrow> fuse_file_info \<Rightarrow> 's env \<Rightarrow> ('s, fuse_file_info) res) option"
  op_lock :: "(path \<Rightarrow> fuse_file_info \<Rightarrow> int \<Rightarrow> flock \<Rightarrow> 's env \<Rightarrow> ('s, fuse_file_info \<times> flock) res) option"
  op_utimens :: "(path \<Rightarrow> timespec \<times> timespec \<Rightarrow> fi_opt \<Rightarrow> 's env \<Rightarrow> ('s, fi_opt) res) option"
  op_bmap :: "(path \<Rightarrow> nat \<Rightarrow> u64 \<Rightarrow> 's env \<Rightarrow> ('s, u64) res) option"
  op_ioctl :: "(path \<Rightarrow> u32 \<Rightarrow> nat \<Rightarrow> fuse_file_info \<Rightarrow> u32 \<Rightarrow> bytes \<Rightarrow> 's env \<Rightarrow> ('s, fuse_file_info \<times> bytes) res) option"
  op_poll :: "(path \<Rightarrow> fuse_file_info \<Rightarrow> nat option \<Rightarrow> u32 \<Rightarrow> 's env \<Rightarrow> ('s, fuse_file_info \<times> u32) res) option"
  op_write_buf :: "(path \<Rightarrow> fuse_bufvec \<Rightarrow> int \<Rightarrow> fuse_file_info \<Rightarrow> 's env \<Rightarrow> ('s, fuse_bufvec \<times> fuse_file_info) res option) option"
  op_read_buf :: "(path \<Rightarrow> nat \<Rightarrow> int \<Rightarrow> fuse_file_info \<Rightarrow> 's env \<Rightarrow> ('s, fuse_bufvec option \<times> fuse_file_info) res option) option"
  op_flock :: "(path \<Rightarrow> fuse_file_info \<Rightarrow> int \<Rightarrow> 's env \<Rightarrow> ('s, fuse_file_info) res) option"
  op_fallocate :: "(path \<Rightarrow> int \<Rightarrow> int \<Rightarrow> int \<Rightarrow> fuse_file_info \<Rightarrow> 's env \<Rightarrow> ('s, fuse_file_info) res) option"
  op_copy_file_range :: "(path \<Rightarrow> fuse_file_info \<Rightarrow> int \<Rightarrow> path \<Rightarrow> fuse_file_info \<Rightarrow> int \<Rightarrow> nat \<Rightarrow> int \<Rightarrow> 's env
    \<Rightarrow> ('s, fuse_file_info \<times> fuse_file_info) res) option"
  op_lseek :: "(path \<Rightarrow> int \<Rightarrow> int \<Rightarrow> fuse_file_info \<Rightarrow> 's env \<Rightarrow> ('s, fuse_file_info) res) option"

record 's fuse_fs =
  fs_op :: "'s fuse_operations"
  user_data :: nat

section \<open>Calling an operation\<close>

text \<open>
  Every \<open>fuse_fs_*\<close> function puts the private data of the file system into the context, calls the
  operation when there is one, and otherwise answers an error number with its buffers untouched.
\<close>

definition enter :: "'s fuse_fs \<Rightarrow> 's env \<Rightarrow> 's env" where
  "enter fs e = e\<lparr>req_context := (req_context e)\<lparr>private_data := user_data fs\<rparr>\<rparr>"

definition call_op ::
  "'s fuse_fs \<Rightarrow> 'f option \<Rightarrow> ('f \<Rightarrow> 's env \<Rightarrow> ('s, 'a) res) \<Rightarrow> int \<Rightarrow> 'a \<Rightarrow> 's env \<Rightarrow> ('s, 'a) res" where
  "call_op fs g run err untouched e =
     (case g of Some f \<Rightarrow> run f (enter fs e) | None \<Rightarrow> (err, untouched, enter fs e))"

definition fuse_fs_getattr :: "'s fuse_fs \<Rightarrow> path \<Rightarrow> stat \<Rightarrow> fi_opt \<Rightarrow> 's env \<Rightarrow> ('s, stat \<times> fi_opt) res" where
  "fuse_fs_getattr fs path buf fi = call_op fs (op_getattr (fs_op fs)) (\<lambda>f. f path buf fi) (- ENOSYS) (buf, fi)"

definition fuse_fs_rename :: "'s fuse_fs \<Rightarrow> path \<Rightarrow> path \<Rightarrow> u32 \<Rightarrow> 's env \<Rightarrow> ('s, unit) res" where
  "fuse_fs_rename fs oldpath newpath flags =
     call_op fs (op_rename (fs_op fs)) (\<lambda>f. f oldpath newpath flags) (- ENOSYS) ()"

definition fuse_fs_unlink :: "'s fuse_fs \<Rightarrow> path \<Rightarrow> 's env \<Rightarrow> ('s, unit) res" where
  "fuse_fs_unlink fs path = call_op fs (op_unlink (fs_op fs)) (\<lambda>f. f path) (- ENOSYS) ()"

definition fuse_fs_rmdir :: "'s fuse_fs \<Rightarrow> path \<Rightarrow> 's env \<Rightarrow> ('s, unit) res" where
  "fuse_fs_rmdir fs path = call_op fs (op_rmdir (fs_op fs)) (\<lambda>f. f path) (- ENOSYS) ()"

definition fuse_fs_symlink :: "'s fuse_fs \<Rightarrow> string \<Rightarrow> path \<Rightarrow> 's env \<Rightarrow> ('s, unit) res" where
  "fuse_fs_symlink fs linkname path = call_op fs (op_symlink (fs_op fs)) (\<lambda>f. f linkname path) (- ENOSYS) ()"

definition fuse_fs_link :: "'s fuse_fs \<Rightarrow> path \<Rightarrow> path \<Rightarrow> 's env \<Rightarrow> ('s, unit) res" where
  "fuse_fs_link fs oldpath newpath = call_op fs (op_link (fs_op fs)) (\<lambda>f. f oldpath newpath) (- ENOSYS) ()"

definition fuse_fs_release :: "'s fuse_fs \<Rightarrow> path \<Rightarrow> fuse_file_info \<Rightarrow> 's env \<Rightarrow> ('s, fuse_file_info) res" where
  "fuse_fs_release fs path fi = call_op fs (op_release (fs_op fs)) (\<lambda>f. f path fi) 0 fi"

definition fuse_fs_opendir :: "'s fuse_fs \<Rightarrow> path \<Rightarrow> fuse_file_info \<Rightarrow> 's env \<Rightarrow> ('s, fuse_file_info) res" where
  "fuse_fs_opendir fs path fi = call_op fs (op_opendir (fs_op fs)) (\<lambda>f. f path fi) 0 fi"

definition fuse_fs_open :: "'s fuse_fs \<Rightarrow> path \<Rightarrow> fuse_file_info \<Rightarrow> 's env \<Rightarrow> ('s, fuse_file_info) res" where
  "fuse_fs_open fs path fi = call_op fs (op_open (fs_op fs)) (\<lambda>f. f path fi) 0 fi"

definition fuse_fs_fsync :: "'s fuse_fs \<Rightarrow> path \<Rightarrow> int \<Rightarrow> fuse_file_info \<Rightarrow> 's env \<Rightarrow> ('s, fuse_file_info) res" where
  "fuse_fs_fsync fs path datasync fi =
     call_op fs (op_fsync (fs_op fs)) (\<lambda>f. f path datasync fi) (- ENOSYS) fi"

definition fuse_fs_fsyncdir :: "'s fuse_fs \<Rightarrow> path \<Rightarrow> int \<Rightarrow> fuse_file_info \<Rightarrow> 's env \<Rightarrow> ('s, fuse_file_info) res" where
  "fuse_fs_fsyncdir fs path datasync fi =
     call_op fs (op_fsyncdir (fs_op fs)) (\<lambda>f. f path datasync fi) (- ENOSYS) fi"

definition fuse_fs_flush :: "'s fuse_fs \<Rightarrow> path \<Rightarrow> fuse_file_info \<Rightarrow> 's env \<Rightarrow> ('s, fuse_file_info) res" where
  "fuse_fs_flush fs path fi = call_op fs (op_flush (fs_op fs)) (\<lambda>f. f path fi) (- ENOSYS) fi"

definition fuse_fs_statfs :: "'s fuse_fs \<Rightarrow> path \<Rightarrow> statvfs \<Rightarrow> 's env \<Rightarrow> ('s, statvfs) res" where
  "fuse_fs_statfs fs path buf =
     call_op fs (op_statfs (fs_op fs)) (\<lambda>f. f path buf) 0 (buf\<lparr>f_namemax := 255, f_bsize := 512\<rparr>)"

definition fuse_fs_releasedir :: "'s fuse_fs \<Rightarrow> path \<Rightarrow> fuse_file_info \<Rightarrow> 's env \<Rightarrow> ('s, fuse_file_info) res" where
  "fuse_fs_releasedir fs path fi = call_op fs (op_releasedir (fs_op fs)) (\<lambda>f. f path fi) 0 fi"

definition fuse_fs_readdir :: "'s fuse_fs \<Rightarrow> path \<Rightarrow> int \<Rightarrow> fuse_file_info \<Rightarrow> u32 \<Rightarrow> 's env \<Rightarrow> 's walk" where
  "fuse_fs_readdir fs path off fi flags e =
     (case op_readdir (fs_op fs) of
        Some f \<Rightarrow> f path off fi flags (enter fs e)
      | None \<Rightarrow> Ends (- ENOSYS) fi (enter fs e))"

definition fuse_fs_create :: "'s fuse_fs \<Rightarrow> path \<Rightarrow> u32 \<Rightarrow> fuse_file_info \<Rightarrow> 's env \<Rightarrow> ('s, fuse_file_info) res" where
  "fuse_fs_create fs path mode fi =
     call_op fs (op_create (fs_op fs)) (\<lambda>f. f path mode fi) (- ENOSYS) fi"

definition fuse_fs_lock ::
  "'s fuse_fs \<Rightarrow> path \<Rightarrow> fuse_file_info \<Rightarrow> int \<Rightarrow> flock \<Rightarrow> 's env \<Rightarrow> ('s, fuse_file_info \<times> flock) res" where
  "fuse_fs_lock fs path fi cmd fl =
     call_op fs (op_lock (fs_op fs)) (\<lambda>f. f path fi cmd fl) (- ENOSYS) (fi, fl)"

definition fuse_fs_flock :: "'s fuse_fs \<Rightarrow> path \<Rightarrow> fuse_file_info \<Rightarrow> int \<Rightarrow> 's env \<Rightarrow> ('s, fuse_file_info) res" where
  "fuse_fs_flock fs path fi lop = call_op fs (op_flock (fs_op fs)) (\<lambda>f. f path fi lop) (- ENOSYS) fi"

definition fuse_fs_chown :: "'s fuse_fs \<Rightarrow> path \<Rightarrow> int \<Rightarrow> int \<Rightarrow> fi_opt \<Rightarrow> 's env \<Rightarrow> ('s, fi_opt) res" where
  "fuse_fs_chown fs path uid gid fi = call_op fs (op_chown (fs_op fs)) (\<lambda>f. f path uid gid fi) (- ENOSYS) fi"

definition fuse_fs_truncate :: "'s fuse_fs \<Rightarrow> path \<Rightarrow> int \<Rightarrow> fi_opt \<Rightarrow> 's env \<Rightarrow> ('s, fi_opt) res" where
  "fuse_fs_truncate fs path sz fi = call_op fs (op_truncate (fs_op fs)) (\<lambda>f. f path sz fi) (- ENOSYS) fi"

definition fuse_fs_utimens :: "'s fuse_fs \<Rightarrow> path \<Rightarrow> timespec \<times> timespec \<Rightarrow> fi_opt \<Rightarrow> 's env \<Rightarrow> ('s, fi_opt) res" where
  "fuse_fs_utimens fs path tv fi = call_op fs (op_utimens (fs_op fs)) (\<lambda>f. f path tv fi) (- ENOSYS) fi"

definition fuse_fs_access :: "'s fuse_fs \<Rightarrow> path \<Rightarrow> int \<Rightarrow> 's env \<Rightarrow> ('s, unit) res" where
  "fuse_fs_access fs path msk = call_op fs (op_access (fs_op fs)) (\<lambda>f. f path msk) (- ENOSYS) ()"

definition fuse_fs_readlink :: "'s fuse_fs \<Rightarrow> path \<Rightarrow> string \<Rightarrow> nat \<Rightarrow> 's env \<Rightarrow> ('s, string) res" where
  \<comment> \<open>the result is the content of the buffer\<close>
  "fuse_fs_readlink fs path buf len = call_op fs (op_readlink (fs_op fs)) (\<lambda>f. f path len) (- ENOSYS) buf"

definition fuse_fs_mknod :: "'s fuse_fs \<Rightarrow> path \<Rightarrow> u32 \<Rightarrow> nat \<Rightarrow> 's env \<Rightarrow> ('s, unit) res" where
  "fuse_fs_mknod fs path mode rdev = call_op fs (op_mknod (fs_op fs)) (\<lambda>f. f path mode rdev) (- ENOSYS) ()"

definition fuse_fs_mkdir :: "'s fuse_fs \<Rightarrow> path \<Rightarrow> u32 \<Rightarrow> 's env \<Rightarrow> ('s, unit) res" where
  "fuse_fs_mkdir fs path mode = call_op fs (op_mkdir (fs_op fs)) (\<lambda>f. f path mode) (- ENOSYS) ()"

definition fuse_fs_setxattr :: "'s fuse_fs \<Rightarrow> path \<Rightarrow> string \<Rightarrow> bytes \<Rightarrow> int \<Rightarrow> 's env \<Rightarrow> ('s, unit) res" where
  "fuse_fs_setxattr fs path nm val flags =
     call_op fs (op_setxattr (fs_op fs)) (\<lambda>f. f path nm val flags) (- ENOSYS) ()"

definition fuse_fs_getxattr :: "'s fuse_fs \<Rightarrow> path \<Rightarrow> string \<Rightarrow> nat \<Rightarrow> 's env \<Rightarrow> ('s, bytes) res" where
  "fuse_fs_getxattr fs path nm sz = call_op fs (op_getxattr (fs_op fs)) (\<lambda>f. f path nm sz) (- ENOSYS) []"

definition fuse_fs_listxattr :: "'s fuse_fs \<Rightarrow> path \<Rightarrow> nat \<Rightarrow> 's env \<Rightarrow> ('s, bytes) res" where
  "fuse_fs_listxattr fs path sz = call_op fs (op_listxattr (fs_op fs)) (\<lambda>f. f path sz) (- ENOSYS) []"

definition fuse_fs_bmap :: "'s fuse_fs \<Rightarrow> path \<Rightarrow> nat \<Rightarrow> u64 \<Rightarrow> 's env \<Rightarrow> ('s, u64) res" where
  "fuse_fs_bmap fs path blocksize idx =
     call_op fs (op_bmap (fs_op fs)) (\<lambda>f. f path blocksize idx) (- ENOSYS) idx"

definition fuse_fs_removexattr :: "'s fuse_fs \<Rightarrow> path \<Rightarrow> string \<Rightarrow> 's env \<Rightarrow> ('s, unit) res" where
  "fuse_fs_removexattr fs path nm = call_op fs (op_removexattr (fs_op fs)) (\<lambda>f. f path nm) (- ENOSYS) ()"

definition fuse_fs_ioctl ::
  "'s fuse_fs \<Rightarrow> path \<Rightarrow> u32 \<Rightarrow> nat \<Rightarrow> fuse_file_info \<Rightarrow> u32 \<Rightarrow> bytes \<Rightarrow> 's env \<Rightarrow> ('s, fuse_file_info \<times> bytes) res" where
  "fuse_fs_ioctl fs path cmd arg fi flags data =
     call_op fs (op_ioctl (fs_op fs)) (\<lambda>f. f path cmd arg fi flags data) (- ENOSYS) (fi, data)"

definition fuse_fs_poll ::
  "'s fuse_fs \<Rightarrow> path \<Rightarrow> fuse_file_info \<Rightarrow> nat option \<Rightarrow> u32 \<Rightarrow> 's env \<Rightarrow> ('s, fuse_file_info \<times> u32) res" where
  "fuse_fs_poll fs path fi ph revents =
     call_op fs (op_poll (fs_op fs)) (\<lambda>f. f path fi ph revents) (- ENOSYS) (fi, revents)"

definition fuse_fs_fallocate ::
  "'s fuse_fs \<Rightarrow> path \<Rightarrow> int \<Rightarrow> int \<Rightarrow> int \<Rightarrow> fuse_file_info \<Rightarrow> 's env \<Rightarrow> ('s, fuse_file_info) res" where
  "fuse_fs_fallocate fs path mode off len fi =
     call_op fs (op_fallocate (fs_op fs)) (\<lambda>f. f path mode off len fi) (- ENOSYS) fi"

definition fuse_fs_copy_file_range ::
  "'s fuse_fs \<Rightarrow> path \<Rightarrow> fuse_file_info \<Rightarrow> int \<Rightarrow> path \<Rightarrow> fuse_file_info \<Rightarrow> int \<Rightarrow> nat \<Rightarrow> int \<Rightarrow> 's env
     \<Rightarrow> ('s, fuse_file_info \<times> fuse_file_info) res" where
  "fuse_fs_copy_file_range fs path_in fi_in off_in path_out fi_out off_out len flags =
     call_op fs (op_copy_file_range (fs_op fs))
       (\<lambda>f. f path_in fi_in off_in path_out fi_out off_out len flags) (- ENOSYS) (fi_in, fi_out)"

definition fuse_fs_lseek :: "'s fuse_fs \<Rightarrow> path \<Rightarrow> int \<Rightarrow> int \<Rightarrow> fuse_file_info \<Rightarrow> 's env \<Rightarrow> ('s, fuse_file_info) res" where
  "fuse_fs_lseek fs path off whence fi =
     call_op fs (op_lseek (fs_op fs)) (\<lambda>f. f path off whence fi) (- ENOSYS) fi"

definition fuse_fs_chmod :: "'s fuse_fs \<Rightarrow> path \<Rightarrow> u32 \<Rightarrow> fi_opt \<Rightarrow> 's env \<Rightarrow> ('s, fi_opt) res" where
  "fuse_fs_chmod fs path mode fi = call_op fs (op_chmod (fs_op fs)) (\<lambda>f. f path mode fi) (- ENOSYS) fi"

end
