(* ===== verification/FsData.thy ===== *)
theory FsData
  imports FsOps
begin

text \<open>
  Reading and writing file data, \<open>fuse_fs_read_buf\<close>, \<open>fuse_fs_read\<close>, \<open>fuse_fs_write_buf\<close> and
  \<open>fuse_fs_write\<close> of \<open>.deps/libfuse3-3.16.2/lib/fuse.c\<close>: a file system has the plain operations
  \<open>read\<close> and \<open>write\<close>, the ones on buffer vectors, or both, and the library turns one into the other.

  \<open>None\<close> is a failed assertion, the use of a NULL vector or a \<open>free\<close> of memory that is not
  allocated.  The vector itself, a block of its own in the code, is a value here; only the blocks its
  buffers point to are counted.
\<close>

text \<open>\<open>FUSE_BUFVEC_INIT\<close>; the address 0 is NULL.\<close>

definition bufvec_init :: "nat \<Rightarrow> fuse_bufvec" where
  "bufvec_init sz = \<lparr>bv_idx = 0, bv_off = 0,
     bv_buf = [\<lparr>buf_size = sz, buf_is_fd = False, buf_fd_seek = False, buf_fd_retry = False, buf_mem = 0,
                buf_fd = -1, buf_pos = 0\<rparr>]\<rparr>"

definition set_mem :: "nat \<Rightarrow> fuse_bufvec \<Rightarrow> fuse_bufvec" where
  "set_mem a v = v\<lparr>bv_buf := (bv_buf v)[0 := (bv_buf v ! 0)\<lparr>buf_mem := a\<rparr>]\<rparr>"

definition set_size :: "nat \<Rightarrow> fuse_bufvec \<Rightarrow> fuse_bufvec" where
  "set_size n v = v\<lparr>bv_buf := (bv_buf v)[0 := (bv_buf v ! 0)\<lparr>buf_size := n\<rparr>]\<rparr>"

text \<open>A result of type \<open>ssize_t\<close> stored in an \<open>int\<close>.\<close>

definition to_int :: "int \<Rightarrow> int" where
  "to_int r = sint (word_of_int r :: u32)"

fun free_bufs :: "fuse_buf list \<Rightarrow> 's env \<Rightarrow> 's env option" where
  "free_bufs [] e = Some e"
| "free_bufs (b # bs) e =
     do { e1 \<leftarrow> (if buf_is_fd b then Some e else free_mem (buf_mem b) e); free_bufs bs e1 }"

definition fuse_free_buf :: "fuse_bufvec option \<Rightarrow> 's env \<Rightarrow> 's env option" where
  "fuse_free_buf buf e = (case buf of None \<Rightarrow> Some e | Some v \<Rightarrow> free_bufs (bv_buf v) e)"

definition copy_into ::
  "'s sys_io \<Rightarrow> fuse_bufvec \<Rightarrow> fuse_bufvec \<Rightarrow> 's env \<Rightarrow> (int \<times> fuse_bufvec \<times> 's env) option" where
  \<comment> \<open>\<open>fuse_buf_copy (&dst, src, 0)\<close> of two different vectors\<close>
  "copy_into io dst src e =
     do { (res, dst1, src1, m, s) \<leftarrow> fuse_buf_copy io False dst src no_flags (mem e) (fs_state e);
          Some (to_int res, src1, e\<lparr>mem := m, fs_state := s\<rparr>) }"

definition fuse_fs_read_buf ::
  "'s fuse_fs \<Rightarrow> path \<Rightarrow> fuse_bufvec option \<Rightarrow> nat \<Rightarrow> int \<Rightarrow> fuse_file_info \<Rightarrow> 's env
     \<Rightarrow> ('s, fuse_bufvec option \<times> fuse_file_info) res option" where
  "fuse_fs_read_buf fs path bufp sz off fi e =
     (let e1 = enter fs e in
      case (op_read_buf (fs_op fs), op_read (fs_op fs)) of
        (Some f, _) \<Rightarrow>
          do { (res, (buf, fi1), e2) \<leftarrow> f path sz off fi e1;
               if res < 0 then Some (res, (buf, fi1), e2)
               else if buf = None then None else Some (0, (buf, fi1), e2) }
      | (None, Some f) \<Rightarrow>
          (let (ok, al) = alloc_next (mallocs e1); e2 = e1\<lparr>mallocs := al\<rparr> in
           if \<not> ok then Some (- ENOMEM, (bufp, fi), e2)
           else
             (case malloc sz e2 of
                (None, e3) \<Rightarrow> Some (- ENOMEM, (bufp, fi), e3)
              | (Some a, e3) \<Rightarrow>
                  (let buf = set_mem a (bufvec_init sz);
                       (res, (bs, fi1), e4) = f path sz off fi e3;
                       e5 = e4\<lparr>mem := mem_store (mem e4) a bs\<rparr> in
                   if res < 0 then Some (res, (Some buf, fi1), e5)
                   else Some (0, (Some (set_size (nat res) buf), fi1), e5))))
      | (None, None) \<Rightarrow> Some (- ENOSYS, (bufp, fi), e1))"

definition fuse_fs_read ::
  "'s sys_io \<Rightarrow> 's fuse_fs \<Rightarrow> path \<Rightarrow> nat \<Rightarrow> nat \<Rightarrow> int \<Rightarrow> fuse_file_info \<Rightarrow> 's env
     \<Rightarrow> ('s, fuse_file_info) res option" where
  "fuse_fs_read io fs path a sz off fi e =
     (let e1 = enter fs e in
      case (op_read_buf (fs_op fs), op_read (fs_op fs)) of
        (Some f, _) \<Rightarrow>
          do { (res, (buf, fi1), e2) \<leftarrow> f path sz off fi e1;
                (res1, e3) \<leftarrow>
                  (if res = 0
                   then do { src \<leftarrow> buf;
                             (r, src1, e3) \<leftarrow> copy_into io (set_mem a (bufvec_init sz)) src e2;
                             Some (r, e3) }
                   else Some (res, e2));
                e4 \<leftarrow> fuse_free_buf buf e3;
                Some (res1, fi1, e4) }
      | (None, Some f) \<Rightarrow>
          (let (res, (bs, fi1), e2) = f path sz off fi e1
           in Some (res, fi1, e2\<lparr>mem := mem_store (mem e2) a bs\<rparr>))
      | (None, None) \<Rightarrow> Some (- ENOSYS, fi, e1))"

text \<open>
  The plain \<open>write\<close> gets the bytes of one memory buffer as it is; anything else is copied into a
  block first.  The vector is a result because \<open>fuse_buf_copy\<close> advances it.
\<close>

definition write_flat ::
  "(path \<Rightarrow> bytes \<Rightarrow> int \<Rightarrow> fuse_file_info \<Rightarrow> 's env \<Rightarrow> ('s, fuse_file_info) res) \<Rightarrow> path \<Rightarrow> fuse_buf \<Rightarrow> int
     \<Rightarrow> fuse_file_info \<Rightarrow> 's env \<Rightarrow> ('s, fuse_file_info) res" where
  "write_flat f path b off fi e = f path (mem_load (mem e) (buf_mem b) (buf_size b)) off fi e"

definition fuse_fs_write_buf ::
  "'s sys_io \<Rightarrow> 's fuse_fs \<Rightarrow> path \<Rightarrow> fuse_bufvec \<Rightarrow> int \<Rightarrow> fuse_file_info \<Rightarrow> 's env
     \<Rightarrow> ('s, fuse_bufvec \<times> fuse_file_info) res option" where
  "fuse_fs_write_buf io fs path buf off fi e =
     (let e1 = enter fs e; sz = fuse_buf_size buf in
      if op_write_buf (fs_op fs) = None \<and> op_write (fs_op fs) = None then Some (- ENOSYS, (buf, fi), e1)
      else if bv_idx buf \<noteq> 0 \<or> bv_off buf \<noteq> 0 then None
      else
        (case (op_write_buf (fs_op fs), op_write (fs_op fs)) of
           (Some f, _) \<Rightarrow> f path buf off fi e1
         | (None, None) \<Rightarrow> None
         | (None, Some f) \<Rightarrow>
             if length (bv_buf buf) = 1 \<and> \<not> buf_is_fd (bv_buf buf ! 0)
             then (let (res, fi1, e2) = write_flat f path (bv_buf buf ! 0) off fi e1
                   in Some (res, (buf, fi1), e2))
             else
               (case malloc sz e1 of
                  (None, e2) \<Rightarrow> Some (- ENOMEM, (buf, fi), e2)
                | (Some a, e2) \<Rightarrow>
                    (let tmp = set_mem a (bufvec_init sz) in
                     do { (res, buf1, e3) \<leftarrow> copy_into io tmp buf e2;
                          let (res1, fi1, e4) =
                            (if res \<le> 0 then (res, fi, e3)
                             else write_flat f path (bv_buf (set_size (nat res) tmp) ! 0) off fi e3);
                          e5 \<leftarrow> free_mem a e4;
                          Some (res1, (buf1, fi1), e5) }))))"

definition fuse_fs_write ::
  "'s sys_io \<Rightarrow> 's fuse_fs \<Rightarrow> path \<Rightarrow> nat \<Rightarrow> nat \<Rightarrow> int \<Rightarrow> fuse_file_info \<Rightarrow> 's env
     \<Rightarrow> ('s, fuse_bufvec \<times> fuse_file_info) res option" where
  "fuse_fs_write io fs path a sz off fi e =
     fuse_fs_write_buf io fs path (set_mem a (bufvec_init sz)) off fi e"

section \<open>Data arrives whole\<close>

lemma bufvec_init_simps [simp]:
  "bv_idx (set_mem a (bufvec_init n)) = 0" "bv_off (set_mem a (bufvec_init n)) = 0"
  "addrs (set_mem a (bufvec_init n)) = [a..<a + n]" "mem_vec (set_mem a (bufvec_init n))"
  "buf_mem (bv_buf (set_size k (set_mem a (bufvec_init n))) ! 0) = a"
  "buf_size (bv_buf (set_size k (set_mem a (bufvec_init n))) ! 0) = k"
  by (simp_all add: set_mem_def set_size_def bufvec_init_def addrs_def buf_addrs_def mem_vec_def)

lemma to_int_small: "n < 2 ^ 31 \<Longrightarrow> to_int (int n) = int n"
proof -
  assume "n < 2 ^ 31"
  then have "(- 2147483648 :: int) \<le> int n" "int n < 2147483648" by simp_all
  then show ?thesis unfolding to_int_def int_word_sint by simp
qed

lemma mem_load_map: "mem_load m a n = map m [a..<a + n]"
  by (rule nth_equalityI) (simp_all add: mem_load_def)

lemma length_addrs_start:
  "bv_idx v = 0 \<Longrightarrow> bv_off v = 0 \<Longrightarrow> length (addrs v) = sum_list (map buf_size (bv_buf v))"
  by (simp add: addrs_def length_concat comp_def)

lemma size_of_start:
  assumes "bv_idx v = 0" "bv_off v = 0" "length (addrs v) < 2 ^ 31"
  shows "fuse_buf_size v = length (addrs v)"
proof -
  have sum: "sum_list (map buf_size (bv_buf v)) = length (addrs v)" using length_addrs_start [OF assms(1,2)] by simp
  have "buf_size b \<noteq> SIZE_MAX" if "b \<in> set (bv_buf v)" for b
    using member_le_sum_list [of "buf_size b" "map buf_size (bv_buf v)"] that sum assms(3)
    by (auto simp: SIZE_MAX_def)
  then have "size_loop (bv_buf v) 0 mod 2 ^ 64 = length (addrs v) mod 2 ^ 64"
    using size_loop_sum [of "bv_buf v" 0] sum by auto
  then show ?thesis using size_loop_less [of 0 "bv_buf v"] assms(3) by (simp add: fuse_buf_size_def)
qed

text \<open>A block that \<open>malloc\<close> may hand out next does not overlap the buffers of a vector.\<close>

definition room_for :: "nat \<Rightarrow> fuse_bufvec \<Rightarrow> 's env \<Rightarrow> bool" where
  "room_for n v e \<longleftrightarrow> 0 < brk e \<and> set (addrs v) \<inter> {brk e..<brk e + n} = {}"

lemma copy_into_block:
  assumes v: "mem_vec v" "bv_idx v = 0" "bv_off v = 0" "length (addrs v) < 2 ^ 31"
    and apart: "set (addrs v) \<inter> {a..<a + length (addrs v)} = {}"
  obtains v' m where "copy_into io (set_mem a (bufvec_init (length (addrs v)))) v e = Some (int (length (addrs v)), v', e\<lparr>mem := m\<rparr>)"
    "mem_load m a (length (addrs v)) = map (mem e) (addrs v)"
proof -
  let ?n = "length (addrs v)" and ?d = "set_mem a (bufvec_init (length (addrs v)))"
  have "\<exists>n dst' src' m'. fuse_buf_copy io False ?d v no_flags (mem e) (fs_state e) = Some (int n, dst', src', m', fs_state e)
    \<and> n = min (length (addrs v)) (length (addrs ?d))
    \<and> map m' (addrs ?d) = take n (map (mem e) (addrs v)) @ drop n (map (mem e) (addrs ?d))
    \<and> (\<forall>x. x \<notin> set (addrs ?d) \<longrightarrow> m' x = mem e x)"
    by (rule buf_copy_memory) (use v apart in auto)
  then obtain d' v' m where c: "fuse_buf_copy io False ?d v no_flags (mem e) (fs_state e) = Some (int ?n, d', v', m, fs_state e)"
    "map m [a..<a + ?n] = map (mem e) (addrs v)" by auto
  have "copy_into io ?d v e = Some (int ?n, v', e\<lparr>mem := m\<rparr>)"
    using c(1) v(4) by (simp add: copy_into_def to_int_small)
  moreover have "mem_load m a ?n = map (mem e) (addrs v)" using c(2) by (simp add: mem_load_map)
  ultimately show thesis using that by blast
qed

text \<open>Operations that give back the memory they take.\<close>

definition keeps_blocks :: "('b \<Rightarrow> 's env \<Rightarrow> ('s, 'a) res) \<Rightarrow> bool" where
  "keeps_blocks f \<longleftrightarrow> (\<forall>x e. blocks (snd (snd (f x e))) = blocks e)"

lemma keeps_blocksD: "keeps_blocks f \<Longrightarrow> f x e = (res, y, e1) \<Longrightarrow> blocks e1 = blocks e"
  by (simp add: keeps_blocks_def) (metis snd_conv)

lemma enter_simps [simp]:
  "fs_state (enter fs e) = fs_state e" "mem (enter fs e) = mem e" "blocks (enter fs e) = blocks e"
  "brk (enter fs e) = brk e" "mallocs (enter fs e) = mallocs e"
  by (simp_all add: enter_def)

lemma write_flattens:
  assumes ops: "op_write_buf (fs_op fs) = None" "op_write (fs_op fs) = Some f"
    and v: "mem_vec v" "bv_idx v = 0" "bv_off v = 0" "0 < length (addrs v)" "length (addrs v) < 2 ^ 31"
    and room: "room_for (length (addrs v)) v e" "mallocs e = []"
    and keeps: "keeps_blocks (\<lambda>(p, bs, off, fi). f p bs off fi)"
  shows "\<exists>e1 v' e'. fs_state e1 = fs_state e \<and>
    (case f path (map (mem e) (addrs v)) off fi e1 of (res, fi1, e2) \<Rightarrow>
       fuse_fs_write_buf io fs path v off fi e = Some (res, (v', fi1), e') \<and>
       fs_state e' = fs_state e2 \<and> blocks e' = blocks e)"
proof (cases "length (bv_buf v) = 1")
  case True
  then obtain b where b: "bv_buf v = [b]" by (cases "bv_buf v") auto
  have "\<not> buf_is_fd b" using v(1) b by (simp add: mem_vec_def)
  moreover have "mem_load (mem e) (buf_mem b) (buf_size b) = map (mem e) (addrs v)"
    using v(2,3) b by (simp add: mem_load_map addrs_def buf_addrs_def)
  moreover obtain res fi1 e2 where r: "f path (map (mem e) (addrs v)) off fi (enter fs e) = (res, fi1, e2)"
    by (metis surj_pair)
  ultimately have "fuse_fs_write_buf io fs path v off fi e = Some (res, (v, fi1), e2)"
    using ops v(2,3) b by (simp add: fuse_fs_write_buf_def write_flat_def)
  moreover have "blocks e2 = blocks e"
    using keeps_blocksD [OF keeps, of "(path, _, off, fi)"] r by simp
  ultimately show ?thesis using r by (intro exI [of _ "enter fs e"] exI [of _ v] exI [of _ e2]) simp
next
  case False
  let ?n = "length (addrs v)" and ?a = "brk e" and ?e1 = "enter fs e"
  let ?e2 = "?e1\<lparr>mallocs := [], blocks := ?a # blocks e, brk := ?a + ?n + 1\<rparr>"
  have sz: "fuse_buf_size v = ?n" by (rule size_of_start [OF v(2,3,5)])
  have m: "malloc ?n ?e1 = (Some ?a, ?e2)" using room(2) by (simp add: malloc_def)
  obtain v' m' where c: "copy_into io (set_mem ?a (bufvec_init ?n)) v ?e2 = Some (int ?n, v', ?e2\<lparr>mem := m'\<rparr>)"
    "mem_load m' ?a ?n = map (mem ?e2) (addrs v)"
    by (rule copy_into_block [OF v(1,2,3,5), where a = ?a and io = io and e = ?e2])
      (use room(1) in \<open>auto simp: room_for_def\<close>)
  let ?e3 = "?e2\<lparr>mem := m'\<rparr>"
  obtain res fi1 e4 where r: "f path (map (mem e) (addrs v)) off fi ?e3 = (res, fi1, e4)" by (metis surj_pair)
  have bl: "blocks e4 = ?a # blocks e"
    using keeps_blocksD [OF keeps, of "(path, _, off, fi)"] r by simp
  then have fr: "free_mem ?a e4 = Some (e4\<lparr>blocks := blocks e\<rparr>)"
    using room(1) by (simp add: free_mem_def room_for_def)
  have "write_flat f path (bv_buf (set_size (nat (int ?n)) (set_mem ?a (bufvec_init ?n))) ! 0) off fi ?e3 = (res, fi1, e4)"
    using r c(2) by (simp add: write_flat_def)
  then have "fuse_fs_write_buf io fs path v off fi e = Some (res, (v', fi1), e4\<lparr>blocks := blocks e\<rparr>)"
    using ops v(2,3,4) False sz m c(1) fr by (simp add: fuse_fs_write_buf_def Let_def)
  then show ?thesis using r by (intro exI [of _ ?e3] exI [of _ v'] exI [of _ "e4\<lparr>blocks := blocks e\<rparr>"]) simp
qed

lemma read_collects:
  assumes ops: "op_read_buf (fs_op fs) = None" "op_read (fs_op fs) = Some f"
    and room: "0 < brk e" "mallocs e = []"
    and keeps: "keeps_blocks (\<lambda>(p, sz, off, fi). f p sz off fi)"
    and doc: "\<And>e1 res bs fi1 e2. f path sz off fi e1 = (res, (bs, fi1), e2) \<Longrightarrow> 0 \<le> res \<Longrightarrow> length bs = nat res"
  shows "\<exists>e1. fs_state e1 = fs_state e \<and>
    (case f path sz off fi e1 of (res, (bs, fi1), e2) \<Rightarrow> \<exists>v e' e''.
       fuse_fs_read_buf fs path None sz off fi e = Some (min res 0, (Some v, fi1), e') \<and>
       fs_state e' = fs_state e2 \<and> (0 \<le> res \<longrightarrow> map (mem e') (addrs v) = bs) \<and>
       fuse_free_buf (Some v) e' = Some e'' \<and> blocks e'' = blocks e)"
proof -
  let ?a = "brk e" and ?e1 = "enter fs e"
  let ?e3 = "?e1\<lparr>mallocs := [], blocks := ?a # blocks e, brk := ?a + sz + 1\<rparr>" and ?v = "set_mem (brk e) (bufvec_init sz)"
  have m: "malloc sz (?e1\<lparr>mallocs := []\<rparr>) = (Some ?a, ?e3)" by (simp add: malloc_def)
  obtain res bs fi1 e4 where r: "f path sz off fi ?e3 = (res, (bs, fi1), e4)" by (metis surj_pair)
  have bl: "blocks e4 = ?a # blocks e" using keeps_blocksD [OF keeps, of "(path, sz, off, fi)"] r by simp
  let ?e5 = "e4\<lparr>mem := mem_store (mem e4) ?a bs\<rparr>"
  have run: "fuse_fs_read_buf fs path None sz off fi e =
      Some (min res 0, (Some (if res < 0 then ?v else set_size (nat res) ?v), fi1), ?e5)"
    using ops room(2) m r by (simp add: fuse_fs_read_buf_def Let_def)
  have "bv_buf (set_size k ?v) = [(bv_buf ?v ! 0)\<lparr>buf_size := k\<rparr>]" "bv_buf ?v = [bv_buf ?v ! 0]" for k
    by (simp_all add: set_mem_def set_size_def bufvec_init_def)
  then have fr: "fuse_free_buf (Some (if res < 0 then ?v else set_size (nat res) ?v)) ?e5 = Some (?e5\<lparr>blocks := blocks e\<rparr>)"
    using bl room(1) by (auto simp: fuse_free_buf_def free_mem_def set_mem_def set_size_def bufvec_init_def)
  have "addrs (set_size (nat res) ?v) = [?a..<?a + nat res]"
    by (simp add: set_mem_def set_size_def bufvec_init_def addrs_def buf_addrs_def)
  moreover have "map (mem_store (mem e4) ?a bs) [?a..<?a + length bs] = bs"
    by (rule nth_equalityI) (simp_all add: mem_store_def)
  ultimately have "map (mem ?e5) (addrs (set_size (nat res) ?v)) = bs" if "0 \<le> res"
    using doc [OF r that] by simp
  then show ?thesis using r run fr
    by (intro exI [of _ ?e3]) (auto intro!: exI [of _ "?e5\<lparr>blocks := blocks e\<rparr>"])
qed

section \<open>What file systems and callers see\<close>

text \<open>
  C28.  A file system that has only the plain \<open>write\<close> gets, whatever vector of memory buffers is
  written, one call with exactly the bytes of the vector in order; its answer is the result, and the
  memory the library took for collecting the bytes is given back.
\<close>

theorem fuse_fs_write_buf_flattens:
  assumes "op_write_buf (fs_op fs) = None" "op_write (fs_op fs) = Some f"
    and "mem_vec v" "bv_idx v = 0" "bv_off v = 0" "0 < length (addrs v)" "length (addrs v) < 2 ^ 31"
    and "room_for (length (addrs v)) v e" "mallocs e = []"
    and "keeps_blocks (\<lambda>(p, bs, off, fi). f p bs off fi)"
  shows "\<exists>e1 v' e'. fs_state e1 = fs_state e \<and>
    (case f path (map (mem e) (addrs v)) off fi e1 of (res, fi1, e2) \<Rightarrow>
       fuse_fs_write_buf io fs path v off fi e = Some (res, (v', fi1), e') \<and>
       fs_state e' = fs_state e2 \<and> blocks e' = blocks e)"
  by (rule write_flattens [OF assms])

definition no_ops :: "'s fuse_operations" where
  "no_ops = \<lparr>op_getattr = None, op_readlink = None, op_mknod = None, op_mkdir = None, op_unlink = None, op_rmdir =
     None, op_symlink = None, op_rename = None, op_link = None, op_chmod = None, op_chown = None, op_truncate
     = None, op_open = None, op_read = None, op_write = None, op_statfs = None, op_flush = None, op_release =
     None, op_fsync = None, op_setxattr = None, op_getxattr = None, op_listxattr = None, op_removexattr =
     None, op_opendir = None, op_readdir = None, op_releasedir = None, op_fsyncdir = None, op_init = None,
     op_destroy = None, op_access = None, op_create = None, op_lock = None, op_utimens = None, op_bmap = None,
     op_ioctl = None, op_poll = None, op_write_buf = None, op_read_buf = None, op_flock = None, op_fallocate =
     None, op_copy_file_range = None, op_lseek = None\<rparr>"

definition demo_env :: "'s \<Rightarrow> 's env" where
  "demo_env s = \<lparr>fs_state = s, mem = of_nat, blocks = [], brk = 100, mallocs = [],
     req_context = \<lparr>cx_uid = 0, cx_gid = 0, cx_pid = 1, cx_umask = 0, private_data = 0\<rparr>\<rparr>"

definition demo_data :: "bytes env" where
  "demo_data = demo_env [1, 2, 3]"

definition demo_write :: "path \<Rightarrow> bytes \<Rightarrow> int \<Rightarrow> fuse_file_info \<Rightarrow> bytes env \<Rightarrow> (bytes, fuse_file_info) res" where
  "demo_write p bs off fi e = (int (length bs), fi, e\<lparr>fs_state := fs_state e @ bs\<rparr>)"

definition demo_read :: "path \<Rightarrow> nat \<Rightarrow> int \<Rightarrow> fuse_file_info \<Rightarrow> bytes env \<Rightarrow> (bytes, bytes \<times> fuse_file_info) res" where
  "demo_read p sz off fi e =
     (let bs = take sz (drop (nat off) (fs_state e)) in (int (length bs), (bs, fi), e))"

definition demo_fs :: "bytes fuse_fs" where
  "demo_fs = \<lparr>fs_op = no_ops\<lparr>op_read := Some demo_read, op_write := Some demo_write\<rparr>, user_data = 7\<rparr>"

theorem fuse_fs_write_buf_flattens_witness:
  "\<exists>e1 v' e'. fs_state e1 = fs_state demo_data \<and>
    (case demo_write (Some ''/f'') (map (mem demo_data) (addrs (vec_of [mem_buf 10 2, mem_buf 20 1]))) 0 zero_fi e1 of
       (res, fi1, e2) \<Rightarrow>
       fuse_fs_write_buf (demo_io []) demo_fs (Some ''/f'') (vec_of [mem_buf 10 2, mem_buf 20 1]) 0 zero_fi demo_data
         = Some (res, (v', fi1), e') \<and>
       fs_state e' = fs_state e2 \<and> blocks e' = blocks demo_data)"
  by (rule fuse_fs_write_buf_flattens [where f = demo_write])
    (auto simp: demo_fs_def no_ops_def demo_env_def demo_data_def demo_write_def keeps_blocks_def room_for_def
      mem_vec_def vec_of_def mem_buf_def addrs_def buf_addrs_def)

text \<open>
  Reading through \<open>fuse_fs_read_buf\<close> from a file system that has only the plain \<open>read\<close> gives a
  vector that holds exactly the bytes the file system wrote, or its error; releasing the vector
  gives back every block that was taken, after an error too.
\<close>

lemma fuse_fs_read_buf_collects:
  assumes "op_read_buf (fs_op fs) = None" "op_read (fs_op fs) = Some f"
    and "0 < brk e" "mallocs e = []"
    and "keeps_blocks (\<lambda>(p, sz, off, fi). f p sz off fi)"
    and "\<And>e1 res bs fi1 e2. f path sz off fi e1 = (res, (bs, fi1), e2) \<Longrightarrow> 0 \<le> res \<Longrightarrow> length bs = nat res"
  shows "\<exists>e1. fs_state e1 = fs_state e \<and>
    (case f path sz off fi e1 of (res, (bs, fi1), e2) \<Rightarrow> \<exists>v e' e''.
       fuse_fs_read_buf fs path None sz off fi e = Some (min res 0, (Some v, fi1), e') \<and>
       fs_state e' = fs_state e2 \<and> (0 \<le> res \<longrightarrow> map (mem e') (addrs v) = bs) \<and>
       fuse_free_buf (Some v) e' = Some e'' \<and> blocks e'' = blocks e)"
  by (rule read_collects [OF assms])

lemma fuse_fs_read_buf_collects_witness:
  "\<exists>e1. fs_state e1 = fs_state demo_data \<and>
    (case demo_read (Some ''/f'') 8 1 zero_fi e1 of (res, (bs, fi1), e2) \<Rightarrow> \<exists>v e' e''.
       fuse_fs_read_buf demo_fs (Some ''/f'') None 8 1 zero_fi demo_data = Some (min res 0, (Some v, fi1), e') \<and>
       fs_state e' = fs_state e2 \<and> (0 \<le> res \<longrightarrow> map (mem e') (addrs v) = bs) \<and>
       fuse_free_buf (Some v) e' = Some e'' \<and> blocks e'' = blocks demo_data)"
  by (rule fuse_fs_read_buf_collects [where f = demo_read])
    (auto simp: demo_fs_def no_ops_def demo_env_def demo_data_def demo_read_def keeps_blocks_def Let_def)

end
