(* ===== verification/HighLevel.thy ===== *)
theory HighLevel
  imports PathQueue FsData
begin

text \<open>
  The state of the high-level library while it answers a request, and the helpers its handlers share:
  \<open>.deps/libfuse3-3.16.2/lib/fuse.c\<close>, from \<open>set_stat\<close> to \<open>fuse_lib_destroy\<close>.

  \<open>lib\<close> is the node tree, the file system, the environment the callbacks run in, the open
  directories, and what has been sent to the kernel.  \<open>answers\<close> are the values that the next
  \<open>fuse_reply_*\<close> calls return (\<open>- ENOENT\<close> when the request was interrupted; 0 when the list is used
  up).  A handler is the run of one thread.  Where it has to sleep for a path lock it ends in
  \<open>Waiting\<close>, with what it will do once the element of the queue is served.
\<close>

section \<open>State\<close>

record fuse_entry_param =
  e_ino :: u64
  e_generation :: u64
  e_attr :: stat
  e_attr_timeout :: rat
  e_entry_timeout :: rat

definition zero_entry :: fuse_entry_param where
  "zero_entry = \<lparr>e_ino = 0, e_generation = 0, e_attr = zero_stat, e_attr_timeout = 0, e_entry_timeout = 0\<rparr>"

datatype reply =
  Reply_err int
| Reply_none
| Reply_entry fuse_entry_param
| Reply_create fuse_entry_param fuse_file_info
| Reply_attr stat rat
| Reply_readlink string
| Reply_open fuse_file_info
| Reply_write int
| Reply_buf bytes
| Reply_data fuse_bufvec memory
| Reply_statfs statvfs
| Reply_xattr int
| Reply_lock flock
| Reply_bmap u64
| Reply_ioctl int bytes
| Reply_poll u32
| Reply_lseek int

text \<open>\<open>struct fuse_dh\<close>; of the buffer \<open>contents\<close> the first \<open>len\<close> bytes are kept.\<close>

record fuse_direntry =
  de_stat :: stat
  de_name :: string

record fuse_dh =
  dh_contents :: bytes
  dh_first :: "fuse_direntry list"
  dh_size :: u32
  dh_needlen :: u32
  dh_filled :: bool
  dh_fh :: u64
  dh_error :: int
  dh_nodeid :: u64

record 's lib =
  tree :: fuse
  fsys :: "'s fuse_fs"
  env :: "'s env"
  dirs :: "u64 \<Rightarrow> fuse_dh option"
  next_dh :: u64
  interruptible :: bool
  replies :: "reply list"
  answers :: "int list"

datatype 's run =
  Finished "'s lib"
| Waiting nat "'s lib" "'s lib \<Rightarrow> bool" "lock_queue_element \<Rightarrow> 's lib \<Rightarrow> 's run option"

section \<open>Replies\<close>

definition answer :: "reply \<Rightarrow> 's lib \<Rightarrow> int \<times> 's lib" where
  "answer r L = (case answers L of [] \<Rightarrow> (0, L\<lparr>replies := replies L @ [r]\<rparr>)
                 | a # as \<Rightarrow> (a, L\<lparr>replies := replies L @ [r], answers := as\<rparr>))"

definition reply :: "reply \<Rightarrow> 's lib \<Rightarrow> 's lib" where
  "reply r L = snd (answer r L)"

definition reply_err :: "int \<Rightarrow> 's lib \<Rightarrow> 's lib" where
  "reply_err err = reply (Reply_err (- err))"

section \<open>The request\<close>

definition req_fuse_prepare :: "fuse_context \<Rightarrow> 's lib \<Rightarrow> 's lib" where
  "req_fuse_prepare cx L = L\<lparr>env := (env L)\<lparr>req_context := cx\<lparr>private_data := 0\<rparr>\<rparr>\<rparr>"

definition fuse_prepare_interrupt :: "'s lib \<Rightarrow> 's lib" where
  "fuse_prepare_interrupt L = (if intr (conf (tree L)) then L\<lparr>interruptible := True\<rparr> else L)"

definition fuse_finish_interrupt :: "'s lib \<Rightarrow> 's lib" where
  "fuse_finish_interrupt L = (if intr (conf (tree L)) then L\<lparr>interruptible := False\<rparr> else L)"

text \<open>Running a callback, and running it while the request can be interrupted.\<close>

definition on_env :: "('s env \<Rightarrow> ('s, 'a) res) \<Rightarrow> 's lib \<Rightarrow> int \<times> 'a \<times> 's lib" where
  "on_env f L = (let (err, x, e) = f (env L) in (err, x, L\<lparr>env := e\<rparr>))"

definition calls :: "('s env \<Rightarrow> ('s, 'a) res) \<Rightarrow> 's lib \<Rightarrow> (int \<times> 'a \<times> 's lib) option" where
  "calls f L = Some (on_env f L)"

section \<open>Getting a path, and giving it back\<close>

type_synonym path_result = "int \<times> path \<times> nat option"

definition served :: "nat \<Rightarrow> 's lib \<Rightarrow> bool" where
  "served i L \<longleftrightarrow> (\<exists>qe \<in> set (lockq (tree L)). qe_id qe = i \<and> qe_done qe)"

text \<open>
  The element a request waited for holds the error of \<open>wait_path\<close>; \<open>get_path_nullok\<close> (\<open>nullok\<close>) makes 0 of
  \<open>ESTALE\<close> also then.
\<close>

definition waited_err :: "bool \<Rightarrow> lock_queue_element \<Rightarrow> int" where
  "waited_err nullok qe = (if nullok \<and> qe_err qe = - ESTALE then 0 else qe_err qe)"

definition with_path ::
  "bool \<Rightarrow> (nat \<Rightarrow> fuse \<Rightarrow> (path_result option \<times> fuse) option) \<Rightarrow> nat \<Rightarrow> 's lib
     \<Rightarrow> (path_result \<Rightarrow> 's lib \<Rightarrow> 's run option) \<Rightarrow> 's run option" where
  "with_path nullok get i L k =
     do { (r, f) \<leftarrow> get i (tree L);
          case r of
            Some res \<Rightarrow> k res (L\<lparr>tree := f\<rparr>)
          | None \<Rightarrow> Some (Waiting i (L\<lparr>tree := f\<rparr>) (served i) (\<lambda>qe. k (waited_err nullok qe, qe_path1 qe, qe_wnode1 qe))) }"

type_synonym path2_result = "int \<times> path \<times> path \<times> nat option \<times> nat option"

definition with_path2 ::
  "(nat \<Rightarrow> fuse \<Rightarrow> (path2_result option \<times> fuse) option) \<Rightarrow> nat \<Rightarrow> 's lib
     \<Rightarrow> (path2_result \<Rightarrow> 's lib \<Rightarrow> 's run option) \<Rightarrow> 's run option" where
  "with_path2 get i L k =
     do { (r, f) \<leftarrow> get i (tree L);
          case r of
            Some res \<Rightarrow> k res (L\<lparr>tree := f\<rparr>)
          | None \<Rightarrow> Some (Waiting i (L\<lparr>tree := f\<rparr>) (served i)
              (\<lambda>qe. k (qe_err qe, qe_path1 qe, qe_path2 qe, qe_wnode1 qe, qe_wnode2 qe))) }"

text \<open>The end of the wait: the element leaves the queue and the thread goes on with its results.\<close>

definition resume :: "'s run \<Rightarrow> 's lib \<Rightarrow> 's run option" where
  "resume r L =
     (case r of
        Finished L0 \<Rightarrow> None
      | Waiting i L0 ready k \<Rightarrow>
          if \<not> ready L then Some (Waiting i L ready k)
          else do { qe \<leftarrow> find (\<lambda>qe. qe_id qe = i) (lockq (tree L));
                    f \<leftarrow> dequeue_path i (tree L);
                    k qe (L\<lparr>tree := f\<rparr>) })"

definition give_path :: "u64 \<Rightarrow> path \<Rightarrow> 's lib \<Rightarrow> 's lib option" where
  "give_path ino path L = map_option (\<lambda>f. L\<lparr>tree := f\<rparr>) (free_path (tree L) ino path)"

text \<open>
  The shape of most handlers: get the path, and when that worked run \<open>act\<close> with it and give it back.
  \<open>x0\<close> is what \<open>act\<close> would have filled in.
\<close>

definition path_call ::
  "bool \<Rightarrow> (nat \<Rightarrow> fuse \<Rightarrow> (path_result option \<times> fuse) option) \<Rightarrow> nat \<Rightarrow> 's lib \<Rightarrow> u64 \<Rightarrow> 'a
     \<Rightarrow> (path \<Rightarrow> 's lib \<Rightarrow> (int \<times> 'a \<times> 's lib) option) \<Rightarrow> (int \<Rightarrow> 'a \<Rightarrow> 's lib \<Rightarrow> 's run option) \<Rightarrow> 's run option" where
  "path_call nullok get i L ino x0 act k =
     with_path nullok get i L (\<lambda>(err, path, w) L1.
       if err = 0
       then do { (err, x, L2) \<leftarrow> act path (fuse_prepare_interrupt L1);
                 L3 \<leftarrow> give_path ino path (fuse_finish_interrupt L2);
                 k err x L3 }
       else k err x0 L1)"

definition finish :: "'s lib \<Rightarrow> 's run option" where
  "finish L = Some (Finished L)"

section \<open>Forgetting, which may have to wait\<close>

definition forget_element :: "nat \<Rightarrow> u64 \<Rightarrow> lock_queue_element" where
  "forget_element i ino = (new_element i)\<lparr>qe_nodeid1 := ino\<rparr>"

definition with_forget :: "nat \<Rightarrow> 's lib \<Rightarrow> u64 \<Rightarrow> nat \<Rightarrow> ('s lib \<Rightarrow> 's run option) \<Rightarrow> 's run option" where
  "with_forget i L ino n k =
     do { r \<leftarrow> forget_node (tree L) ino n;
          case r of
            Some f \<Rightarrow> k (L\<lparr>tree := f\<rparr>)
          | None \<Rightarrow> Some (Waiting i (L\<lparr>tree := queue_path (forget_element i ino) (tree L)\<rparr>)
              (\<lambda>L. forget_node (tree L) ino n \<noteq> Some None)
              (\<lambda>_ L. do { r \<leftarrow> forget_node (tree L) ino n; f \<leftarrow> r; k (L\<lparr>tree := f\<rparr>) })) }"

definition reply_entry :: "nat \<Rightarrow> 's lib \<Rightarrow> fuse_entry_param \<Rightarrow> int \<Rightarrow> 's run option" where
  "reply_entry i L e err =
     (if err = 0
      then (let (a, L1) = answer (Reply_entry e) L in
            if a = - ENOENT \<and> e_ino e \<noteq> 0 then with_forget i L1 (e_ino e) 1 finish else finish L1)
      else finish (reply_err err L))"

section \<open>Attributes\<close>

definition set_stat :: "fuse \<Rightarrow> u64 \<Rightarrow> stat \<Rightarrow> stat" where
  "set_stat f ino st =
     (let c = conf f;
          st1 = (if \<not> use_ino c then st\<lparr>st_ino := ino\<rparr> else st);
          st2 = (if set_mode c
                 then st1\<lparr>st_mode := or (and (st_mode st1) S_IFMT) (and 0x1FF (not (of_nat (conf_umask c))))\<rparr> else st1);
          st3 = (if set_uid c then st2\<lparr>st_uid := conf_uid c\<rparr> else st2)
      in if set_gid c then st3\<lparr>st_gid := conf_gid c\<rparr> else st3)"

definition mtime_eq :: "stat \<Rightarrow> timespec \<Rightarrow> bool" where
  "mtime_eq st ts \<longleftrightarrow> tv_sec (st_mtim st) = tv_sec ts \<and> tv_nsec (st_mtim st) = tv_nsec ts"

definition update_stat :: "timespec \<Rightarrow> stat \<Rightarrow> node \<Rightarrow> node" where
  "update_stat tm st n =
     (let n1 = (if cache_valid n \<and> (\<not> mtime_eq st (mtime n) \<or> st_size st \<noteq> fsize n)
                then n\<lparr>cache_valid := False\<rparr> else n)
      in n1\<lparr>mtime := st_mtim st, fsize := st_size st, stat_updated := tm\<rparr>)"

text \<open>Changing the node a number stands for; a number without a node aborts (\<open>get_node\<close>).\<close>

definition on_node :: "u64 \<Rightarrow> (node \<Rightarrow> node) \<Rightarrow> 's lib \<Rightarrow> 's lib option" where
  "on_node ino g L = do { p \<leftarrow> get_node (tree L) ino; Some (L\<lparr>tree := upd_node p g (tree L)\<rparr>) }"

section \<open>Looking up an entry\<close>

definition do_lookup :: "'s lib \<Rightarrow> u64 \<Rightarrow> string option \<Rightarrow> fuse_entry_param \<Rightarrow> (int \<times> fuse_entry_param \<times> 's lib) option" where
  "do_lookup L ino nm e =
     do { (r, f) \<leftarrow> find_node (tree L) ino nm;
          case r of
            None \<Rightarrow> Some (- ENOMEM, e, L\<lparr>tree := f\<rparr>)
          | Some p \<Rightarrow>
              do { n \<leftarrow> heap f p;
                   let e1 = e\<lparr>e_ino := nodeid n, e_generation := ucast (node_gen n),
                              e_entry_timeout := entry_timeout (conf f), e_attr_timeout := attr_timeout (conf f)\<rparr>;
                   let f1 = (if auto_cache (conf f) then upd_node p (update_stat (curr_time f) (e_attr e1)) f else f);
                   Some (0, e1\<lparr>e_attr := set_stat f1 (e_ino e1) (e_attr e1)\<rparr>, L\<lparr>tree := f1\<rparr>) } }"

definition lookup_path ::
  "u64 \<Rightarrow> string option \<Rightarrow> fi_opt \<Rightarrow> path \<Rightarrow> 's lib \<Rightarrow> (int \<times> fuse_entry_param \<times> fi_opt \<times> 's lib) option" where
  "lookup_path ino nm fi path L =
     (let (res, (st, fi1), L1) = on_env (fuse_fs_getattr (fsys L) path (e_attr zero_entry) fi) L;
          e = zero_entry\<lparr>e_attr := st\<rparr> in
      if res = 0 then do { (res, e1, L2) \<leftarrow> do_lookup L1 ino nm e; Some (res, e1, fi1, L2) }
      else Some (res, e, fi1, L1))"

text \<open>A lookup of a name after the entry was made, with no open file.\<close>

definition then_lookup ::
  "u64 \<Rightarrow> string \<Rightarrow> path \<Rightarrow> int \<times> unit \<times> 's lib \<Rightarrow> (int \<times> fuse_entry_param \<times> 's lib) option" where
  "then_lookup ino nm path r =
     (case r of (err, _, L) \<Rightarrow>
        if err = 0 then do { (err, e, fi, L1) \<leftarrow> lookup_path ino (Some nm) None path L; Some (err, e, L1) }
        else Some (err, zero_entry, L))"

section \<open>Hiding a file that is removed while it is open\<close>

definition is_open :: "fuse \<Rightarrow> u64 \<Rightarrow> string \<Rightarrow> bool option" where
  "is_open f dir nm =
     do { r \<leftarrow> lookup_node f dir nm;
          case r of None \<Rightarrow> Some False | Some p \<Rightarrow> do { n \<leftarrow> heap f p; Some (0 < open_count n) } }"

definition hex_digit :: "nat \<Rightarrow> char" where
  "hex_digit d = (if d < 10 then char_of (48 + d) else char_of (87 + d))"

definition hex8 :: "u32 \<Rightarrow> string" where
  \<comment> \<open>\<open>%08x\<close>\<close>
  "hex8 w = map (\<lambda>i. hex_digit (unat w div 16 ^ i mod 16)) [7, 6, 5, 4, 3, 2, 1, 0]"

definition hidden_text :: "u64 \<Rightarrow> u32 \<Rightarrow> string" where
  "hidden_text ino c = ''.fuse_hidden'' @ hex8 (ucast ino) @ hex8 c"

partial_function (option) unused_hidden :: "u64 \<Rightarrow> u64 \<Rightarrow> fuse \<Rightarrow> (string \<times> fuse) option" where
  "unused_hidden dir ino f =
     (let f1 = f\<lparr>hidectr := hidectr f + 1\<rparr>; newname = hidden_text ino (hidectr f1) in
      Option.bind (lookup_node f1 dir newname)
        (\<lambda>r. if r = None then Some (newname, f1) else unused_hidden dir ino f1))"

text \<open>The outer loop of \<open>hidden_name\<close>; the number is \<open>failctr\<close>.\<close>

fun hidden_loop :: "nat \<Rightarrow> u64 \<Rightarrow> string \<Rightarrow> 's lib \<Rightarrow> (path \<times> string \<times> 's lib) option" where
  "hidden_loop 0 dir oldname L = Some (None, [], L)"
| "hidden_loop (Suc failctr) dir oldname L =
     do { node \<leftarrow> lookup_node (tree L) dir oldname;
          case node of
            None \<Rightarrow> Some (None, [], L)
          | Some p \<Rightarrow>
              do { n \<leftarrow> heap (tree L) p;
                   (newname, f1) \<leftarrow> unused_hidden dir (nodeid n) (tree L);
                   (res, newpath, w, f2) \<leftarrow> try_get_path f1 dir (Some newname) False False;
                   let L1 = L\<lparr>tree := f2\<rparr>;
                   if res \<noteq> 0 then Some (newpath, newname, L1)
                   else
                     (let (res1, st, L2) = on_env (fuse_fs_getattr (fsys L1) newpath zero_stat None) L1 in
                      if res1 = - ENOENT then Some (newpath, newname, L2)
                      else if res1 = 0 \<and> 0 < failctr then hidden_loop failctr dir oldname L2
                      else Some (None, newname, L2)) } }"

definition hidden_name :: "u64 \<Rightarrow> string \<Rightarrow> 's lib \<Rightarrow> (path \<times> string \<times> 's lib) option" where
  "hidden_name dir oldname L = hidden_loop 10 dir oldname L"

definition hide_node :: "path \<Rightarrow> u64 \<Rightarrow> string \<Rightarrow> 's lib \<Rightarrow> (int \<times> 's lib) option" where
  "hide_node oldpath dir oldname L =
     do { (newpath, newname, L1) \<leftarrow> hidden_name dir oldname L;
          if newpath = None then Some (- EBUSY, L1)
          else
            (let (err, x, L2) = on_env (fuse_fs_rename (fsys L1) oldpath newpath 0) L1 in
             if err \<noteq> 0 then Some (err, L2)
             else do { (err, f) \<leftarrow> rename_node (tree L2) dir oldname dir newname True;
                       Some (err, L2\<lparr>tree := f\<rparr>) }) }"

section \<open>Start and end\<close>

definition fuse_fs_init ::
  "'s fuse_fs \<Rightarrow> fuse_conn_info \<Rightarrow> fuse_config \<Rightarrow> 's env \<Rightarrow> 's fuse_fs \<times> fuse_conn_info \<times> fuse_config \<times> 's env" where
  "fuse_fs_init fs conn cfg e =
     (let e1 = enter fs e;
          c1 = (if op_write_buf (fs_op fs) = None then conn\<lparr>want := and (want conn) (not FUSE_CAP_SPLICE_READ)\<rparr> else conn);
          c2 = (if op_lock (fs_op fs) = None then c1\<lparr>want := and (want c1) (not FUSE_CAP_POSIX_LOCKS)\<rparr> else c1);
          c3 = (if op_flock (fs_op fs) = None then c2\<lparr>want := and (want c2) (not FUSE_CAP_FLOCK_LOCKS)\<rparr> else c2)
      in case op_init (fs_op fs) of
           Some f \<Rightarrow> (let (d, c4, cfg1, e2) = f c3 cfg e1 in (fs\<lparr>user_data := d\<rparr>, c4, cfg1, e2))
         | None \<Rightarrow> (fs, c3, cfg, e1))"

definition no_context :: fuse_context where
  "no_context = \<lparr>cx_uid = 0, cx_gid = 0, cx_pid = 0, cx_umask = 0, private_data = 0\<rparr>"

definition fuse_lib_init :: "fuse_conn_info \<Rightarrow> 's lib \<Rightarrow> fuse_conn_info \<times> 's lib" where
  "fuse_lib_init conn L =
     (let L1 = req_fuse_prepare no_context L;
          c1 = (if and (capable conn) FUSE_CAP_EXPORT_SUPPORT \<noteq> 0
                then conn\<lparr>want := or (want conn) FUSE_CAP_EXPORT_SUPPORT\<rparr> else conn);
          (fs1, c2, cfg, e) = fuse_fs_init (fsys L1) c1 (conf (tree L1)) (env L1)
      in (c2, L1\<lparr>fsys := fs1, env := e, tree := (tree L1)\<lparr>conf := cfg\<rparr>\<rparr>))"

definition fuse_fs_destroy :: "'s fuse_fs \<Rightarrow> 's env \<Rightarrow> 's env" where
  "fuse_fs_destroy fs e =
     (let e1 = enter fs e in case op_destroy (fs_op fs) of Some f \<Rightarrow> f (user_data fs) e1 | None \<Rightarrow> e1)"

definition fuse_lib_destroy :: "'s lib \<Rightarrow> 's lib" where
  "fuse_lib_destroy L =
     (let L1 = req_fuse_prepare no_context L in L1\<lparr>env := fuse_fs_destroy (fsys L1) (env L1)\<rparr>)"

end
