(* ===== verification/Handlers.thy ===== *)
theory Handlers
  imports HighLevel
begin

text \<open>
  The handlers of the high-level library that concern names: \<open>fuse_lib_lookup\<close> to \<open>fuse_lib_link\<close> of
  \<open>.deps/libfuse3-3.16.2/lib/fuse.c\<close>, with the attributes of files.

  Arguments of every handler are the address of the queue element on its stack, the context of the
  request and the library, then those of the code.  \<open>None\<close> is an abort: a failed assertion, a number
  the library does not know, a NULL pointer.  A variable the code leaves uninitialised until a
  callback has filled it starts as zero.
\<close>

section \<open>Lookup and forget\<close>

definition DOT :: string where "DOT = [CHR 0x2E]"

definition lookup_dot :: "'s lib \<Rightarrow> u64 \<Rightarrow> (nat option \<times> 's lib) option" where
  \<comment> \<open>the node of \<open>.\<close>, with a reference; \<open>None\<close> inside when the number is stale\<close>
  "lookup_dot L parnt =
     do { r \<leftarrow> get_node_nocheck (tree L) parnt;
          case r of
            None \<Rightarrow> Some (None, L)
          | Some p \<Rightarrow> Some (Some p, L\<lparr>tree := upd_node p (\<lambda>n. n\<lparr>refctr := refctr n + 1\<rparr>) (tree L)\<rparr>) }"

definition lookup_dotdot :: "fuse \<Rightarrow> u64 \<Rightarrow> u64 option" where
  "lookup_dotdot f parnt =
     do { p \<leftarrow> get_node f parnt; n \<leftarrow> heap f p; q \<leftarrow> parent n; m \<leftarrow> heap f q; Some (nodeid m) }"

definition unref_dot :: "nat option \<Rightarrow> 's lib \<Rightarrow> 's lib option" where
  "unref_dot dot L =
     (case dot of None \<Rightarrow> Some L | Some p \<Rightarrow> map_option (\<lambda>f. L\<lparr>tree := f\<rparr>) (unref_node (tree L) p))"

definition lookup_rest :: "nat \<Rightarrow> 's lib \<Rightarrow> nat option \<Rightarrow> u64 \<Rightarrow> string option \<Rightarrow> 's run option" where
  "lookup_rest i L dot parnt nmo =
     path_call False (\<lambda>i f. get_path_common i f parnt nmo False) i L parnt zero_entry
       (\<lambda>path L. do { (err, e, fi, L1) \<leftarrow> lookup_path parnt nmo None path L;
                      Some (if err = - ENOENT \<and> negative_timeout (conf (tree L1)) \<noteq> 0
                            then (0, e\<lparr>e_ino := 0, e_entry_timeout := negative_timeout (conf (tree L1))\<rparr>, L1)
                            else (err, e, L1)) })
       (\<lambda>err e L. do { L1 \<leftarrow> unref_dot dot L; reply_entry i L1 e err })"

definition fuse_lib_lookup :: "nat \<Rightarrow> fuse_context \<Rightarrow> 's lib \<Rightarrow> u64 \<Rightarrow> string \<Rightarrow> 's run option" where
  "fuse_lib_lookup i cx L parnt nm =
     (let L1 = req_fuse_prepare cx L in
      if nm = DOT
      then do { (r, L2) \<leftarrow> lookup_dot L1 parnt;
                case r of
                  None \<Rightarrow> reply_entry i L2 zero_entry (- ESTALE)
                | Some p \<Rightarrow> lookup_rest i L2 (Some p) parnt None }
      else if nm = DOT @ DOT
      then do { q \<leftarrow> lookup_dotdot (tree L1) parnt; lookup_rest i L1 None q None }
      else lookup_rest i L1 None parnt (Some nm))"

definition fuse_lib_forget :: "nat \<Rightarrow> 's lib \<Rightarrow> u64 \<Rightarrow> nat \<Rightarrow> 's run option" where
  "fuse_lib_forget i L ino n = with_forget i L ino n (\<lambda>L. finish (reply Reply_none L))"

fun fuse_lib_forget_multi :: "nat \<Rightarrow> 's lib \<Rightarrow> (u64 \<times> nat) list \<Rightarrow> 's run option" where
  "fuse_lib_forget_multi i L [] = finish (reply Reply_none L)"
| "fuse_lib_forget_multi i L ((ino, n) # forgets) =
     with_forget i L ino n (\<lambda>L. fuse_lib_forget_multi i L forgets)"

section \<open>Attributes\<close>

definition path_for :: "fi_opt \<Rightarrow> u64 \<Rightarrow> nat \<Rightarrow> fuse \<Rightarrow> (path_result option \<times> fuse) option" where
  "path_for fi ino i f = (if fi \<noteq> None then get_path_nullok i f ino else get_path i f ino)"

definition fuse_lib_getattr :: "nat \<Rightarrow> fuse_context \<Rightarrow> 's lib \<Rightarrow> u64 \<Rightarrow> fi_opt \<Rightarrow> 's run option" where
  "fuse_lib_getattr i cx L ino fi =
     path_call (fi \<noteq> None) (path_for fi ino) i (req_fuse_prepare cx L) ino (zero_stat, fi)
       (\<lambda>path. calls (fuse_fs_getattr (fsys L) path zero_stat fi))
       (\<lambda>err (st, _) L.
          if err \<noteq> 0 then finish (reply_err err L)
          else do { p \<leftarrow> get_node (tree L) ino;
                    n \<leftarrow> heap (tree L) p;
                    let st1 = (if is_hidden n \<and> 0 < st_nlink st then st\<lparr>st_nlink := st_nlink st - 1\<rparr> else st);
                    let f = (if auto_cache (conf (tree L)) then upd_node p (update_stat (curr_time (tree L)) st1) (tree L)
                             else tree L);
                    finish (reply (Reply_attr (set_stat f ino st1) (attr_timeout (conf f))) (L\<lparr>tree := f\<rparr>)) })"

definition FUSE_SET_ATTR_MODE :: u32 where "FUSE_SET_ATTR_MODE = 1"
definition FUSE_SET_ATTR_UID :: u32 where "FUSE_SET_ATTR_UID = 2"
definition FUSE_SET_ATTR_GID :: u32 where "FUSE_SET_ATTR_GID = 4"
definition FUSE_SET_ATTR_SIZE :: u32 where "FUSE_SET_ATTR_SIZE = 8"
definition FUSE_SET_ATTR_ATIME :: u32 where "FUSE_SET_ATTR_ATIME = 16"
definition FUSE_SET_ATTR_MTIME :: u32 where "FUSE_SET_ATTR_MTIME = 32"
definition FUSE_SET_ATTR_ATIME_NOW :: u32 where "FUSE_SET_ATTR_ATIME_NOW = 128"
definition FUSE_SET_ATTR_MTIME_NOW :: u32 where "FUSE_SET_ATTR_MTIME_NOW = 256"
definition UTIME_NOW :: int where "UTIME_NOW = 0x3fffffff"
definition UTIME_OMIT :: int where "UTIME_OMIT = 0x3ffffffe"
definition NO_ID :: int where "NO_ID = 0xffffffff"   \<comment> \<open>\<open>(uid_t) -1\<close>\<close>

definition has_bit :: "u32 \<Rightarrow> u32 \<Rightarrow> bool" where
  "has_bit w b \<longleftrightarrow> and w b \<noteq> 0"

definition step_if ::
  "bool \<Rightarrow> ('x \<Rightarrow> 's lib \<Rightarrow> int \<times> 'x \<times> 's lib) \<Rightarrow> int \<times> 'x \<times> 's lib \<Rightarrow> int \<times> 'x \<times> 's lib" where
  \<comment> \<open>\<open>if (!err && c) err = f (...)\<close>\<close>
  "step_if c f r = (case r of (err, x, L) \<Rightarrow> if err = 0 \<and> c then f x L else r)"

definition setattr_times :: "u32 \<Rightarrow> stat \<Rightarrow> timespec \<times> timespec" where
  "setattr_times valid attr =
     (let omit = \<lparr>tv_sec = 0, tv_nsec = UTIME_OMIT\<rparr> in
      (if has_bit valid FUSE_SET_ATTR_ATIME_NOW then omit\<lparr>tv_nsec := UTIME_NOW\<rparr>
       else if has_bit valid FUSE_SET_ATTR_ATIME then st_atim attr else omit,
       if has_bit valid FUSE_SET_ATTR_MTIME_NOW then omit\<lparr>tv_nsec := UTIME_NOW\<rparr>
       else if has_bit valid FUSE_SET_ATTR_MTIME then st_mtim attr else omit))"

text \<open>With \<open>utimensat\<close>; the branch for systems without it cannot be reached then.\<close>

definition setattr_body ::
  "'s fuse_fs \<Rightarrow> stat \<Rightarrow> u32 \<Rightarrow> fi_opt \<Rightarrow> path \<Rightarrow> 's lib \<Rightarrow> (int \<times> (stat \<times> fi_opt) \<times> 's lib) option" where
  "setattr_body F attr valid fi path L =
     (let r1 = step_if (has_bit valid FUSE_SET_ATTR_MODE)
                 (\<lambda>fi. on_env (fuse_fs_chmod F path (st_mode attr) fi)) (0, fi, L);
          uid = (if has_bit valid FUSE_SET_ATTR_UID then st_uid attr else NO_ID);
          gid = (if has_bit valid FUSE_SET_ATTR_GID then st_gid attr else NO_ID);
          r2 = step_if (has_bit valid (or FUSE_SET_ATTR_UID FUSE_SET_ATTR_GID))
                 (\<lambda>fi. on_env (fuse_fs_chown F path uid gid fi)) r1;
          r3 = step_if (has_bit valid FUSE_SET_ATTR_SIZE)
                 (\<lambda>fi. on_env (fuse_fs_truncate F path (st_size attr) fi)) r2;
          (err, fi4, L4) = step_if (has_bit valid (or FUSE_SET_ATTR_ATIME FUSE_SET_ATTR_MTIME))
                 (\<lambda>fi. on_env (fuse_fs_utimens F path (setattr_times valid attr) fi)) r3
      in if err = 0 then calls (fuse_fs_getattr F path zero_stat fi4) L4
         else Some (err, (zero_stat, fi4), L4))"

definition fuse_lib_setattr ::
  "nat \<Rightarrow> fuse_context \<Rightarrow> 's lib \<Rightarrow> u64 \<Rightarrow> stat \<Rightarrow> u32 \<Rightarrow> fi_opt \<Rightarrow> 's run option" where
  "fuse_lib_setattr i cx L ino attr valid fi =
     path_call (fi \<noteq> None) (path_for fi ino) i (req_fuse_prepare cx L) ino (zero_stat, fi)
       (setattr_body (fsys L) attr valid fi)
       (\<lambda>err (st, _) L.
          if err \<noteq> 0 then finish (reply_err err L)
          else do { L1 \<leftarrow> (if auto_cache (conf (tree L)) then on_node ino (update_stat (curr_time (tree L)) st) L
                          else Some L);
                    finish (reply (Reply_attr (set_stat (tree L1) ino st) (attr_timeout (conf (tree L1)))) L1) })"

definition fuse_lib_access :: "nat \<Rightarrow> fuse_context \<Rightarrow> 's lib \<Rightarrow> u64 \<Rightarrow> int \<Rightarrow> 's run option" where
  "fuse_lib_access i cx L ino msk =
     path_call False (\<lambda>i f. get_path i f ino) i (req_fuse_prepare cx L) ino ()
       (\<lambda>path. calls (fuse_fs_access (fsys L) path msk)) (\<lambda>err _ L. finish (reply_err err L))"

definition PATH_MAX :: nat where "PATH_MAX = 4096"

definition fuse_lib_readlink :: "nat \<Rightarrow> fuse_context \<Rightarrow> 's lib \<Rightarrow> u64 \<Rightarrow> 's run option" where
  "fuse_lib_readlink i cx L ino =
     path_call False (\<lambda>i f. get_path i f ino) i (req_fuse_prepare cx L) ino []
       (\<lambda>path. calls (fuse_fs_readlink (fsys L) path [] (PATH_MAX + 1)))
       (\<lambda>err buf L. finish (if err = 0 then reply (Reply_readlink (cstr_of_buf (take PATH_MAX buf))) L
                            else reply_err err L))"

section \<open>Making entries\<close>

definition O_NEW :: u32 where
  \<comment> \<open>\<open>O_CREAT | O_EXCL | O_WRONLY\<close>\<close>
  "O_NEW = 0xC1"

definition left_fi :: "fuse_file_info \<Rightarrow> fi_opt \<Rightarrow> fuse_file_info" where
  \<comment> \<open>what a callback that was handed \<open>fi\<close> has left there\<close>
  "left_fi fi fi1 = (case fi1 of None \<Rightarrow> fi | Some x \<Rightarrow> x)"

definition mknod_body ::
  "'s fuse_fs \<Rightarrow> u64 \<Rightarrow> string \<Rightarrow> u32 \<Rightarrow> nat \<Rightarrow> path \<Rightarrow> 's lib \<Rightarrow> (int \<times> fuse_entry_param \<times> 's lib) option" where
  "mknod_body F parnt nm mode rdev path L =
     do { (err, e, L1) \<leftarrow>
            (if S_ISREG mode
             then (let (err, fi, L1) = on_env (fuse_fs_create F path mode (zero_fi\<lparr>fi_flags := O_NEW\<rparr>)) L in
                   if err = 0
                   then do { (err, e, fi1, L2) \<leftarrow> lookup_path parnt (Some nm) (Some fi) path L1;
                             let (r, x, L3) = on_env (fuse_fs_release F path (left_fi fi fi1)) L2;
                             Some (err, e, L3) }
                   else Some (err, zero_entry, L1))
             else Some (- ENOSYS, zero_entry, L));
          if err = - ENOSYS then then_lookup parnt nm path (on_env (fuse_fs_mknod F path mode rdev) L1)
          else Some (err, e, L1) }"

definition fuse_lib_mknod :: "nat \<Rightarrow> fuse_context \<Rightarrow> 's lib \<Rightarrow> u64 \<Rightarrow> string \<Rightarrow> u32 \<Rightarrow> nat \<Rightarrow> 's run option" where
  "fuse_lib_mknod i cx L parnt nm mode rdev =
     path_call False (\<lambda>i f. get_path_name i f parnt nm) i (req_fuse_prepare cx L) parnt zero_entry
       (mknod_body (fsys L) parnt nm mode rdev) (\<lambda>err e L. reply_entry i L e err)"

definition fuse_lib_mkdir :: "nat \<Rightarrow> fuse_context \<Rightarrow> 's lib \<Rightarrow> u64 \<Rightarrow> string \<Rightarrow> u32 \<Rightarrow> 's run option" where
  "fuse_lib_mkdir i cx L parnt nm mode =
     path_call False (\<lambda>i f. get_path_name i f parnt nm) i (req_fuse_prepare cx L) parnt zero_entry
       (\<lambda>path L. then_lookup parnt nm path (on_env (fuse_fs_mkdir (fsys L) path mode) L))
       (\<lambda>err e L. reply_entry i L e err)"

definition fuse_lib_symlink :: "nat \<Rightarrow> fuse_context \<Rightarrow> 's lib \<Rightarrow> string \<Rightarrow> u64 \<Rightarrow> string \<Rightarrow> 's run option" where
  "fuse_lib_symlink i cx L linkname parnt nm =
     path_call False (\<lambda>i f. get_path_name i f parnt nm) i (req_fuse_prepare cx L) parnt zero_entry
       (\<lambda>path L. then_lookup parnt nm path (on_env (fuse_fs_symlink (fsys L) linkname path) L))
       (\<lambda>err e L. reply_entry i L e err)"

definition fuse_lib_link :: "nat \<Rightarrow> fuse_context \<Rightarrow> 's lib \<Rightarrow> u64 \<Rightarrow> u64 \<Rightarrow> string \<Rightarrow> 's run option" where
  "fuse_lib_link i cx L ino newparent newname =
     with_path2 (\<lambda>i f. get_path2 i f ino None newparent (Some newname) False False) i (req_fuse_prepare cx L)
       (\<lambda>(err, oldpath, newpath, w1, w2) L.
          if err = 0
          then do { let L1 = fuse_prepare_interrupt L;
                    (err, e, L2) \<leftarrow> then_lookup newparent newname newpath (on_env (fuse_fs_link (fsys L) oldpath newpath) L1);
                    let L3 = fuse_finish_interrupt L2;
                    f \<leftarrow> free_path2 (tree L3) ino newparent None None;
                    reply_entry i (L3\<lparr>tree := f\<rparr>) e err }
          else reply_entry i L zero_entry err)"

section \<open>Removing and renaming\<close>

definition on_tree :: "(fuse \<Rightarrow> fuse option) \<Rightarrow> 's lib \<Rightarrow> 's lib option" where
  "on_tree g L = map_option (\<lambda>f. L\<lparr>tree := f\<rparr>) (g (tree L))"

definition name_of :: "fuse \<Rightarrow> nat option \<Rightarrow> string option" where
  \<comment> \<open>\<open>wnode->name\<close>\<close>
  "name_of f w = do { p \<leftarrow> w; n \<leftarrow> heap f p; name n }"

definition remove_after :: "u64 \<Rightarrow> string \<Rightarrow> int \<times> unit \<times> 's lib \<Rightarrow> (int \<times> 's lib) option" where
  \<comment> \<open>\<open>if (!err) remove_node (f, parent, name)\<close>\<close>
  "remove_after parnt nm r =
     (case r of (err, _, L) \<Rightarrow>
        if err = 0 then do { L1 \<leftarrow> on_tree (\<lambda>f. remove_node f parnt nm) L; Some (err, L1) } else Some (err, L))"

text \<open>The file is hidden; should it no longer be open by now, it is removed after all.\<close>

definition unlink_hidden :: "u64 \<Rightarrow> nat option \<Rightarrow> 's lib \<Rightarrow> (int \<times> 's lib) option" where
  "unlink_hidden parnt w L =
     do { nm \<leftarrow> name_of (tree L) w;
          opn \<leftarrow> is_open (tree L) parnt nm;
          if opn then Some (0, L)
          else do { p \<leftarrow> w;
                    n \<leftarrow> heap (tree L) p;
                    (res, unlinkpath, w1, f) \<leftarrow> try_get_path (tree L) (nodeid n) None False False;
                    let L1 = L\<lparr>tree := f\<rparr>;
                    if res = 0 then remove_after parnt nm (on_env (fuse_fs_unlink (fsys L1) unlinkpath) L1)
                    else Some (0, L1) } }"

definition unlink_body :: "u64 \<Rightarrow> string \<Rightarrow> path \<Rightarrow> nat option \<Rightarrow> 's lib \<Rightarrow> (int \<times> 's lib) option" where
  "unlink_body parnt nm path w L =
     do { opn \<leftarrow> (if hard_remove (conf (tree L)) then Some False else is_open (tree L) parnt nm);
          if opn
          then do { (err, L1) \<leftarrow> hide_node path parnt nm L;
                    if err = 0 then unlink_hidden parnt w L1 else Some (err, L1) }
          else remove_after parnt nm (on_env (fuse_fs_unlink (fsys L) path) L) }"

definition fuse_lib_unlink :: "nat \<Rightarrow> fuse_context \<Rightarrow> 's lib \<Rightarrow> u64 \<Rightarrow> string \<Rightarrow> 's run option" where
  "fuse_lib_unlink i cx L parnt nm =
     with_path False (\<lambda>i f. get_path_wrlock i f parnt nm) i (req_fuse_prepare cx L)
       (\<lambda>(err, path, w) L.
          if err = 0
          then do { (err, L1) \<leftarrow> unlink_body parnt nm path w (fuse_prepare_interrupt L);
                    L2 \<leftarrow> on_tree (\<lambda>f. free_path_wrlock f parnt w) (fuse_finish_interrupt L1);
                    finish (reply_err err L2) }
          else finish (reply_err err L))"

definition fuse_lib_rmdir :: "nat \<Rightarrow> fuse_context \<Rightarrow> 's lib \<Rightarrow> u64 \<Rightarrow> string \<Rightarrow> 's run option" where
  "fuse_lib_rmdir i cx L parnt nm =
     with_path False (\<lambda>i f. get_path_wrlock i f parnt nm) i (req_fuse_prepare cx L)
       (\<lambda>(err, path, w) L.
          if err = 0
          then do { let (err, x, L1) = on_env (fuse_fs_rmdir (fsys L) path) (fuse_prepare_interrupt L);
                    (err, L2) \<leftarrow> remove_after parnt nm (err, x, fuse_finish_interrupt L1);
                    L3 \<leftarrow> on_tree (\<lambda>f. free_path_wrlock f parnt w) L2;
                    finish (reply_err err L3) }
          else finish (reply_err err L))"

definition RENAME_EXCHANGE :: u32 where "RENAME_EXCHANGE = 2"

definition rename_body ::
  "u64 \<Rightarrow> string \<Rightarrow> u64 \<Rightarrow> string \<Rightarrow> u32 \<Rightarrow> path \<Rightarrow> path \<Rightarrow> 's lib \<Rightarrow> (int \<times> 's lib) option" where
  "rename_body olddir oldname newdir newname flags oldpath newpath L =
     do { opn \<leftarrow> (if hard_remove (conf (tree L)) \<or> has_bit flags RENAME_EXCHANGE then Some False
                  else is_open (tree L) newdir newname);
          (err, L1) \<leftarrow> (if opn then hide_node newpath newdir newname L else Some (0, L));
          if err \<noteq> 0 then Some (err, L1)
          else
            (let (err, x, L2) = on_env (fuse_fs_rename (fsys L1) oldpath newpath flags) L1 in
             if err \<noteq> 0 then Some (err, L2)
             else do { (err, f) \<leftarrow> (if has_bit flags RENAME_EXCHANGE
                                   then exchange_node (tree L2) olddir oldname newdir newname
                                   else rename_node (tree L2) olddir oldname newdir newname False);
                       Some (err, L2\<lparr>tree := f\<rparr>) }) }"

definition fuse_lib_rename ::
  "nat \<Rightarrow> fuse_context \<Rightarrow> 's lib \<Rightarrow> u64 \<Rightarrow> string \<Rightarrow> u64 \<Rightarrow> string \<Rightarrow> u32 \<Rightarrow> 's run option" where
  "fuse_lib_rename i cx L olddir oldname newdir newname flags =
     with_path2 (\<lambda>i f. get_path2 i f olddir (Some oldname) newdir (Some newname) True True) i (req_fuse_prepare cx L)
       (\<lambda>(err, oldpath, newpath, w1, w2) L.
          if err = 0
          then do { (err, L1) \<leftarrow> rename_body olddir oldname newdir newname flags oldpath newpath (fuse_prepare_interrupt L);
                    L2 \<leftarrow> on_tree (\<lambda>f. free_path2 f olddir newdir w1 w2) (fuse_finish_interrupt L1);
                    finish (reply_err err L2) }
          else finish (reply_err err L))"

end
