(* ===== verification/FileHandlers.thy ===== *)
theory FileHandlers
  imports Handlers
begin

text \<open>
  The handlers of \<open>.deps/libfuse3-3.16.2/lib/fuse.c\<close> that concern open files: \<open>fuse_lib_create\<close>,
  \<open>fuse_lib_open\<close>, reading and writing, releasing, locks, extended attributes and the rest down to
  \<open>fuse_lib_lseek\<close>.  Directories are in the theory \<open>Dirs\<close>.
\<close>

section \<open>Opening and closing\<close>

definition count_open :: "u64 \<Rightarrow> 's lib \<Rightarrow> 's lib option" where
  "count_open ino = on_node ino (\<lambda>n. n\<lparr>open_count := open_count n + 1\<rparr>)"

definition close_node :: "u64 \<Rightarrow> 's lib \<Rightarrow> (bool \<times> 's lib) option" where
  \<comment> \<open>the locked part of \<open>fuse_do_release\<close>: whether a hidden file is to be removed\<close>
  "close_node ino L =
     do { p \<leftarrow> get_node (tree L) ino;
          n \<leftarrow> heap (tree L) p;
          if open_count n \<le> 0 then None
          else (let last_hidden = (is_hidden n \<and> open_count n - 1 = 0) in
                Some (last_hidden,
                  L\<lparr>tree := upd_node p (\<lambda>n. n\<lparr>open_count := open_count n - 1,
                                               is_hidden := (is_hidden n \<and> \<not> last_hidden)\<rparr>) (tree L)\<rparr>)) }"

definition fuse_do_release ::
  "nat \<Rightarrow> 's lib \<Rightarrow> u64 \<Rightarrow> path \<Rightarrow> fuse_file_info \<Rightarrow> ('s lib \<Rightarrow> 's run option) \<Rightarrow> 's run option" where
  "fuse_do_release i L ino path fi k =
     (let (r, fi1, L1) = on_env (fuse_fs_release (fsys L) path fi) L in
      do { (unlink_hidden, L2) \<leftarrow> close_node ino L1;
           if \<not> unlink_hidden then k L2
           else if path \<noteq> None then (let (r, x, L3) = on_env (fuse_fs_unlink (fsys L2) path) L2 in k L3)
           else if nullpath_ok (conf (tree L2))
           then with_path False (\<lambda>i f. get_path i f ino) i L2
                  (\<lambda>(err, unlinkpath, w) L3.
                     do { let L4 = (if err = 0 then snd (snd (on_env (fuse_fs_unlink (fsys L3) unlinkpath) L3)) else L3);
                          L5 \<leftarrow> give_path ino unlinkpath L4;
                          k L5 })
           else k L2 })"

text \<open>The end of \<open>fuse_lib_create\<close> and \<open>fuse_lib_open\<close>: the path goes back whatever happened.\<close>

definition end_with :: "u64 \<Rightarrow> path \<Rightarrow> 's lib \<Rightarrow> 's run option" where
  "end_with ino path L = do { L1 \<leftarrow> give_path ino path L; finish L1 }"

definition create_flags :: "fuse_config \<Rightarrow> fuse_file_info \<Rightarrow> fuse_file_info" where
  "create_flags c fi =
     (let fi1 = (if direct_io c then fi\<lparr>fi_direct_io := True\<rparr> else fi);
          fi2 = (if kernel_cache c then fi1\<lparr>fi_keep_cache := True\<rparr> else fi1)
      in if fi_direct_io fi2 \<and> parallel_direct_writes c then fi2\<lparr>fi_parallel_direct_writes := True\<rparr> else fi2)"

definition create_done ::
  "nat \<Rightarrow> u64 \<Rightarrow> path \<Rightarrow> int \<Rightarrow> fuse_entry_param \<Rightarrow> fuse_file_info \<Rightarrow> 's lib \<Rightarrow> 's run option" where
  "create_done i parnt path err e fi L =
     (if err \<noteq> 0 then end_with parnt path (reply_err err L)
      else do { L1 \<leftarrow> count_open (e_ino e) L;
                let (a, L2) = answer (Reply_create e fi) L1;
                if a = - ENOENT
                then fuse_do_release i L2 (e_ino e) path fi
                       (\<lambda>L. with_forget i L (e_ino e) 1 (end_with parnt path))
                else end_with parnt path L2 })"

definition fuse_lib_create ::
  "nat \<Rightarrow> fuse_context \<Rightarrow> 's lib \<Rightarrow> u64 \<Rightarrow> string \<Rightarrow> u32 \<Rightarrow> fuse_file_info \<Rightarrow> 's run option" where
  "fuse_lib_create i cx L parnt nm mode fi =
     with_path False (\<lambda>i f. get_path_name i f parnt nm) i (req_fuse_prepare cx L)
       (\<lambda>(err, path, w) L.
          if err \<noteq> 0 then create_done i parnt path err zero_entry fi L
          else
            let F = fsys L;
                (err, fi1, L1) = on_env (fuse_fs_create F path mode fi) (fuse_prepare_interrupt L) in
            if err \<noteq> 0 then create_done i parnt path err zero_entry fi1 (fuse_finish_interrupt L1)
            else do {
              (err, e, fi_opt, L2) \<leftarrow> lookup_path parnt (Some nm) (Some fi1) path L1;
              let fi2 = left_fi fi1 fi_opt;
              if err \<noteq> 0
              then (let (r, fi3, L3) = on_env (fuse_fs_release F path fi2) L2
                    in create_done i parnt path err e fi3 (fuse_finish_interrupt L3))
              else if \<not> S_ISREG (st_mode (e_attr e))
              then (let (r, fi3, L3) = on_env (fuse_fs_release F path fi2) L2
                    in with_forget i L3 (e_ino e) 1
                         (\<lambda>L. create_done i parnt path (- EIO) e fi3 (fuse_finish_interrupt L)))
              else create_done i parnt path 0 e (create_flags (conf (tree L2)) fi2) (fuse_finish_interrupt L2) })"

definition open_auto_cache :: "u64 \<Rightarrow> path \<Rightarrow> fuse_file_info \<Rightarrow> 's lib \<Rightarrow> (fuse_file_info \<times> 's lib) option" where
  "open_auto_cache ino path fi L =
     do { p \<leftarrow> get_node (tree L) ino;
          n \<leftarrow> heap (tree L) p;
          let tm = curr_time (tree L);
          let (fi1, L1) =
            (if cache_valid n \<and> ac_attr_timeout (conf (tree L)) < diff_timespec tm (stat_updated n)
             then (let (err, (st, fio), L1) = on_env (fuse_fs_getattr (fsys L) path zero_stat (Some fi)) L
                   in (left_fi fi fio,
                       L1\<lparr>tree := upd_node p (if err = 0 then update_stat (curr_time (tree L1)) st
                                              else (\<lambda>n. n\<lparr>cache_valid := False\<rparr>)) (tree L1)\<rparr>))
             else (fi, L));
          n1 \<leftarrow> heap (tree L1) p;
          Some (if cache_valid n1 then fi1\<lparr>fi_keep_cache := True\<rparr> else fi1,
                L1\<lparr>tree := upd_node p (\<lambda>n. n\<lparr>cache_valid := True\<rparr>) (tree L1)\<rparr>) }"

definition O_ACCMODE :: u32 where "O_ACCMODE = 3"
definition O_RDONLY :: u32 where "O_RDONLY = 0"

definition open_done :: "nat \<Rightarrow> u64 \<Rightarrow> path \<Rightarrow> int \<Rightarrow> fuse_file_info \<Rightarrow> 's lib \<Rightarrow> 's run option" where
  "open_done i ino path err fi L =
     (if err \<noteq> 0 then end_with ino path (reply_err err L)
      else do { L1 \<leftarrow> count_open ino L;
                let (a, L2) = answer (Reply_open fi) L1;
                if a = - ENOENT then fuse_do_release i L2 ino path fi (end_with ino path)
                else end_with ino path L2 })"

definition open_flags :: "fuse_config \<Rightarrow> fuse_file_info \<Rightarrow> fuse_file_info" where
  "open_flags c fi =
     (let fi1 = (if direct_io c then fi\<lparr>fi_direct_io := True\<rparr> else fi)
      in if kernel_cache c then fi1\<lparr>fi_keep_cache := True\<rparr> else fi1)"

definition open_last_flags :: "fuse_config \<Rightarrow> fuse_file_info \<Rightarrow> fuse_file_info" where
  "open_last_flags c fi =
     (let fi1 = (if no_rofd_flush c \<and> and (fi_flags fi) O_ACCMODE = O_RDONLY then fi\<lparr>fi_noflush := True\<rparr> else fi)
      in if fi_direct_io fi1 \<and> parallel_direct_writes c then fi1\<lparr>fi_parallel_direct_writes := True\<rparr> else fi1)"

definition fuse_lib_open :: "nat \<Rightarrow> fuse_context \<Rightarrow> 's lib \<Rightarrow> u64 \<Rightarrow> fuse_file_info \<Rightarrow> 's run option" where
  "fuse_lib_open i cx L ino fi =
     with_path False (\<lambda>i f. get_path i f ino) i (req_fuse_prepare cx L)
       (\<lambda>(err, path, w) L.
          if err \<noteq> 0 then open_done i ino path err fi L
          else
            let (err, fi1, L1) = on_env (fuse_fs_open (fsys L) path fi) (fuse_prepare_interrupt L) in
            if err \<noteq> 0 then open_done i ino path err fi1 (fuse_finish_interrupt L1)
            else do {
              let fi2 = open_flags (conf (tree L1)) fi1;
              (fi3, L2) \<leftarrow> (if auto_cache (conf (tree L1)) then open_auto_cache ino path fi2 L1 else Some (fi2, L1));
              open_done i ino path 0 (open_last_flags (conf (tree L2)) fi3) (fuse_finish_interrupt L2) })"

section \<open>Data\<close>

definition fuse_lib_read ::
  "nat \<Rightarrow> fuse_context \<Rightarrow> 's lib \<Rightarrow> u64 \<Rightarrow> nat \<Rightarrow> int \<Rightarrow> fuse_file_info \<Rightarrow> 's run option" where
  "fuse_lib_read i cx L ino sz off fi =
     path_call True (\<lambda>i f. get_path_nullok i f ino) i (req_fuse_prepare cx L) ino None
       (\<lambda>path L. do { (res, (buf, fi1), e) \<leftarrow> fuse_fs_read_buf (fsys L) path None sz off fi (env L);
                      Some (res, buf, L\<lparr>env := e\<rparr>) })
       (\<lambda>res buf L. do { L1 \<leftarrow> (if res = 0 then do { v \<leftarrow> buf; Some (reply (Reply_data v (mem (env L))) L) }
                                else Some (reply_err res L));
                         e \<leftarrow> fuse_free_buf buf (env L1);
                         finish (L1\<lparr>env := e\<rparr>) })"

definition fuse_lib_write_buf ::
  "'s sys_io \<Rightarrow> nat \<Rightarrow> fuse_context \<Rightarrow> 's lib \<Rightarrow> u64 \<Rightarrow> fuse_bufvec \<Rightarrow> int \<Rightarrow> fuse_file_info \<Rightarrow> 's run option" where
  "fuse_lib_write_buf io i cx L ino buf off fi =
     path_call True (\<lambda>i f. get_path_nullok i f ino) i (req_fuse_prepare cx L) ino buf
       (\<lambda>path L. do { (res, (buf1, fi1), e) \<leftarrow> fuse_fs_write_buf io (fsys L) path buf off fi (env L);
                      Some (res, buf1, L\<lparr>env := e\<rparr>) })
       (\<lambda>res _ L. finish (if 0 \<le> res then reply (Reply_write res) L else reply_err res L))"

definition fuse_lib_fsync :: "nat \<Rightarrow> fuse_context \<Rightarrow> 's lib \<Rightarrow> u64 \<Rightarrow> int \<Rightarrow> fuse_file_info \<Rightarrow> 's run option" where
  "fuse_lib_fsync i cx L ino datasync fi =
     path_call True (\<lambda>i f. get_path_nullok i f ino) i (req_fuse_prepare cx L) ino fi
       (\<lambda>path. calls (fuse_fs_fsync (fsys L) path datasync fi)) (\<lambda>err _ L. finish (reply_err err L))"

definition fuse_lib_statfs :: "nat \<Rightarrow> fuse_context \<Rightarrow> 's lib \<Rightarrow> u64 \<Rightarrow> 's run option" where
  "fuse_lib_statfs i cx L ino =
     (let act = (\<lambda>path. calls (fuse_fs_statfs (fsys L) (if path = None then Some ''/'' else path) zero_statvfs));
          k = (\<lambda>err buf L. finish (if err = 0 then reply (Reply_statfs buf) L else reply_err err L));
          L1 = req_fuse_prepare cx L
      in if ino \<noteq> 0 then path_call False (\<lambda>i f. get_path i f ino) i L1 ino zero_statvfs act k
         else do { (err, buf, L2) \<leftarrow> act None (fuse_prepare_interrupt L1); k err buf (fuse_finish_interrupt L2) })"

section \<open>Extended attributes\<close>

definition fuse_lib_setxattr ::
  "nat \<Rightarrow> fuse_context \<Rightarrow> 's lib \<Rightarrow> u64 \<Rightarrow> string \<Rightarrow> bytes \<Rightarrow> int \<Rightarrow> 's run option" where
  "fuse_lib_setxattr i cx L ino nm val flags =
     path_call False (\<lambda>i f. get_path i f ino) i (req_fuse_prepare cx L) ino ()
       (\<lambda>path. calls (fuse_fs_setxattr (fsys L) path nm val flags)) (\<lambda>err _ L. finish (reply_err err L))"

text \<open>
  \<open>fuse_lib_getxattr\<close> and \<open>fuse_lib_listxattr\<close> differ in the callback only.  The buffer of \<open>size\<close>
  bytes is a block of memory.  The callback fills its beginning; behind it stands what stood there, and as
  many bytes are sent as the callback says.
\<close>

definition in_block :: "nat \<Rightarrow> bytes \<Rightarrow> nat \<Rightarrow> 's env \<Rightarrow> bytes" where
  "in_block a val n e = take n (val @ mem_load (mem e) (a + length val) (n - length val))"

definition xattr_reply ::
  "nat \<Rightarrow> fuse_context \<Rightarrow> 's lib \<Rightarrow> u64 \<Rightarrow> nat \<Rightarrow> (path \<Rightarrow> 's env \<Rightarrow> ('s, bytes) res) \<Rightarrow> 's run option" where
  "xattr_reply i cx L ino sz call =
     (let L1 = req_fuse_prepare cx L; get = (\<lambda>i f. get_path i f ino) in
      if sz = 0
      then path_call False get i L1 ino [] (\<lambda>path. calls (call path))
             (\<lambda>res _ L. finish (if 0 \<le> res then reply (Reply_xattr res) L else reply_err res L))
      else
        (case malloc sz (env L1) of
           (None, e) \<Rightarrow> finish (reply_err (- ENOMEM) (L1\<lparr>env := e\<rparr>))
         | (Some a, e) \<Rightarrow>
             path_call False get i (L1\<lparr>env := e\<rparr>) ino [] (\<lambda>path. calls (call path))
               (\<lambda>res val L. do { let L2 = (if 0 < res then reply (Reply_buf (in_block a val (nat res) (env L))) L else reply_err res L);
                                 e2 \<leftarrow> free_mem a (env L2);
                                 finish (L2\<lparr>env := e2\<rparr>) })))"

definition fuse_lib_getxattr :: "nat \<Rightarrow> fuse_context \<Rightarrow> 's lib \<Rightarrow> u64 \<Rightarrow> string \<Rightarrow> nat \<Rightarrow> 's run option" where
  "fuse_lib_getxattr i cx L ino nm sz = xattr_reply i cx L ino sz (\<lambda>path. fuse_fs_getxattr (fsys L) path nm sz)"

definition fuse_lib_listxattr :: "nat \<Rightarrow> fuse_context \<Rightarrow> 's lib \<Rightarrow> u64 \<Rightarrow> nat \<Rightarrow> 's run option" where
  "fuse_lib_listxattr i cx L ino sz = xattr_reply i cx L ino sz (\<lambda>path. fuse_fs_listxattr (fsys L) path sz)"

definition fuse_lib_removexattr :: "nat \<Rightarrow> fuse_context \<Rightarrow> 's lib \<Rightarrow> u64 \<Rightarrow> string \<Rightarrow> 's run option" where
  "fuse_lib_removexattr i cx L ino nm =
     path_call False (\<lambda>i f. get_path i f ino) i (req_fuse_prepare cx L) ino ()
       (\<lambda>path. calls (fuse_fs_removexattr (fsys L) path nm)) (\<lambda>err _ L. finish (reply_err err L))"

section \<open>Locks\<close>

definition put_lock :: "u64 \<Rightarrow> lock \<Rightarrow> 's lib \<Rightarrow> 's lib option" where
  \<comment> \<open>\<open>locks_insert (get_node (f, ino), &l)\<close>, whose result the callers ignore\<close>
  "put_lock ino l L =
     do { p \<leftarrow> get_node (tree L) ino;
          n \<leftarrow> heap (tree L) p;
          (r, al, ls) \<leftarrow> locks_insert (allocs (tree L)) (locks n) l;
          Some (L\<lparr>tree := (upd_node p (\<lambda>n. n\<lparr>locks := ls\<rparr>) (tree L))\<lparr>allocs := al\<rparr>\<rparr>) }"

definition owned :: "flock \<Rightarrow> fuse_file_info \<Rightarrow> lock" where
  "owned fl fi = (flock_to_lock fl)\<lparr>lk_owner := fi_lock_owner fi\<rparr>"

definition fuse_flush_common ::
  "u64 \<Rightarrow> path \<Rightarrow> fuse_file_info \<Rightarrow> 's lib \<Rightarrow> (int \<times> fuse_file_info \<times> 's lib) option" where
  "fuse_flush_common ino path fi L =
     (let fl = \<lparr>l_type = F_UNLCK, l_start = 0, l_len = 0, l_pid = 0\<rparr>;
          (err, fi1, L1) = on_env (fuse_fs_flush (fsys L) path fi) (fuse_prepare_interrupt L);
          (errlock, (fi2, fl1), L2) = on_env (fuse_fs_lock (fsys L) path fi1 F_SETLK fl) L1;
          L3 = fuse_finish_interrupt L2
      in if errlock \<noteq> - ENOSYS
         then do { L4 \<leftarrow> put_lock ino (owned fl1 fi2) L3; Some (if err = - ENOSYS then 0 else err, fi2, L4) }
         else Some (err, fi2, L3))"

definition fuse_lib_release :: "nat \<Rightarrow> fuse_context \<Rightarrow> 's lib \<Rightarrow> u64 \<Rightarrow> fuse_file_info \<Rightarrow> 's run option" where
  "fuse_lib_release i cx L ino fi =
     with_path True (\<lambda>i f. get_path_nullok i f ino) i (req_fuse_prepare cx L)
       (\<lambda>(_, path, w) L.
          do { (err, fi1, L1) \<leftarrow> (if fi_flush fi
                                 then do { (err, fi1, L1) \<leftarrow> fuse_flush_common ino path fi L;
                                           Some (if err = - ENOSYS then 0 else err, fi1, L1) }
                                 else Some (0, fi, L));
               fuse_do_release i (fuse_prepare_interrupt L1) ino path fi1
                 (\<lambda>L. do { L1 \<leftarrow> give_path ino path (fuse_finish_interrupt L); finish (reply_err err L1) }) })"

definition fuse_lib_flush :: "nat \<Rightarrow> fuse_context \<Rightarrow> 's lib \<Rightarrow> u64 \<Rightarrow> fuse_file_info \<Rightarrow> 's run option" where
  "fuse_lib_flush i cx L ino fi =
     with_path True (\<lambda>i f. get_path_nullok i f ino) i (req_fuse_prepare cx L)
       (\<lambda>(_, path, w) L.
          do { (err, fi1, L1) \<leftarrow> fuse_flush_common ino path fi L;
               L2 \<leftarrow> give_path ino path L1;
               finish (reply_err err L2) })"

definition fuse_lock_common ::
  "nat \<Rightarrow> fuse_context \<Rightarrow> 's lib \<Rightarrow> u64 \<Rightarrow> fuse_file_info \<Rightarrow> flock \<Rightarrow> int
     \<Rightarrow> (int \<Rightarrow> fuse_file_info \<times> flock \<Rightarrow> 's lib \<Rightarrow> 's run option) \<Rightarrow> 's run option" where
  "fuse_lock_common i cx L ino fi fl cmd k =
     path_call True (\<lambda>i f. get_path_nullok i f ino) i (req_fuse_prepare cx L) ino (fi, fl)
       (\<lambda>path. calls (fuse_fs_lock (fsys L) path fi cmd fl)) k"

definition fuse_lib_getlk :: "nat \<Rightarrow> fuse_context \<Rightarrow> 's lib \<Rightarrow> u64 \<Rightarrow> fuse_file_info \<Rightarrow> flock \<Rightarrow> 's run option" where
  "fuse_lib_getlk i cx L ino fi fl =
     do { p \<leftarrow> get_node (tree L) ino;
          n \<leftarrow> heap (tree L) p;
          case locks_conflict (locks n) (owned fl fi) of
            Some l \<Rightarrow> finish (reply (Reply_lock (lock_to_flock l fl)) L)
          | None \<Rightarrow>
              fuse_lock_common i cx L ino fi fl F_GETLK
                (\<lambda>err (_, fl1) L. finish (if err = 0 then reply (Reply_lock fl1) L else reply_err err L)) }"

definition fuse_lib_setlk ::
  "nat \<Rightarrow> fuse_context \<Rightarrow> 's lib \<Rightarrow> u64 \<Rightarrow> fuse_file_info \<Rightarrow> flock \<Rightarrow> bool \<Rightarrow> 's run option" where
  "fuse_lib_setlk i cx L ino fi fl sleep =
     fuse_lock_common i cx L ino fi fl (if sleep then F_SETLKW else F_SETLK)
       (\<lambda>err (fi1, fl1) L.
          do { L1 \<leftarrow> (if err = 0 then put_lock ino (owned fl1 fi1) L else Some L);
               finish (reply_err err L1) })"

definition fuse_lib_flock :: "nat \<Rightarrow> fuse_context \<Rightarrow> 's lib \<Rightarrow> u64 \<Rightarrow> fuse_file_info \<Rightarrow> int \<Rightarrow> 's run option" where
  "fuse_lib_flock i cx L ino fi lop =
     path_call True (\<lambda>i f. get_path_nullok i f ino) i (req_fuse_prepare cx L) ino fi
       (\<lambda>path. calls (fuse_fs_flock (fsys L) path fi lop)) (\<lambda>err _ L. finish (reply_err err L))"

section \<open>The rest\<close>

definition fuse_lib_bmap :: "nat \<Rightarrow> fuse_context \<Rightarrow> 's lib \<Rightarrow> u64 \<Rightarrow> nat \<Rightarrow> u64 \<Rightarrow> 's run option" where
  "fuse_lib_bmap i cx L ino blocksize idx =
     path_call False (\<lambda>i f. get_path i f ino) i (req_fuse_prepare cx L) ino idx
       (\<lambda>path. calls (fuse_fs_bmap (fsys L) path blocksize idx))
       (\<lambda>err idx L. finish (if err = 0 then reply (Reply_bmap idx) L else reply_err err L))"

definition get_dirhandle :: "'s lib \<Rightarrow> fuse_file_info \<Rightarrow> (fuse_dh \<times> fuse_file_info) option" where
  "get_dirhandle L llfi = do { dh \<leftarrow> dirs L (fi_fh llfi); Some (dh, zero_fi\<lparr>fi_fh := dh_fh dh\<rparr>) }"

definition FUSE_IOCTL_UNRESTRICTED :: u32 where "FUSE_IOCTL_UNRESTRICTED = 2"
definition FUSE_IOCTL_DIR :: u32 where "FUSE_IOCTL_DIR = 16"

text \<open>The input is \<open>in_bufsz\<close> bytes; an output buffer that no input was copied to starts as zeros.\<close>

definition ioctl_run ::
  "nat \<Rightarrow> 's lib \<Rightarrow> u64 \<Rightarrow> u32 \<Rightarrow> nat \<Rightarrow> fuse_file_info \<Rightarrow> u32 \<Rightarrow> bytes \<Rightarrow> nat \<Rightarrow> ('s lib \<Rightarrow> 's lib option) \<Rightarrow> 's run option" where
  "ioctl_run i L ino cmd arg fi flags in_buf out_bufsz free_out =
     (if in_buf \<noteq> [] \<and> out_bufsz \<noteq> 0 \<and> length in_buf \<noteq> out_bufsz then None
      else
        (let data = (if out_bufsz = 0 \<or> in_buf \<noteq> [] then in_buf else replicate out_bufsz 0) in
         path_call True (\<lambda>i f. get_path_nullok i f ino) i L ino (fi, data)
           (\<lambda>path. calls (fuse_fs_ioctl (fsys L) path cmd arg fi flags data))
           (\<lambda>err (_, data1) L.
              do { let L1 = (if err < 0 then reply_err err L
                             else reply (Reply_ioctl err (take out_bufsz data1)) L);
                   L2 \<leftarrow> free_out L1;
                   finish L2 })))"

definition fuse_lib_ioctl ::
  "nat \<Rightarrow> fuse_context \<Rightarrow> 's lib \<Rightarrow> u64 \<Rightarrow> u32 \<Rightarrow> nat \<Rightarrow> fuse_file_info \<Rightarrow> u32 \<Rightarrow> bytes \<Rightarrow> nat \<Rightarrow> 's run option" where
  "fuse_lib_ioctl i cx L ino cmd arg llfi flags in_buf out_bufsz =
     (let L1 = req_fuse_prepare cx L in
      if has_bit flags FUSE_IOCTL_UNRESTRICTED then finish (reply_err (- EPERM) L1)
      else do {
        fi \<leftarrow> (if has_bit flags FUSE_IOCTL_DIR then map_option snd (get_dirhandle L1 llfi) else Some llfi);
        if out_bufsz = 0 then ioctl_run i L1 ino cmd arg fi flags in_buf 0 Some
        else
          (case malloc out_bufsz (env L1) of
             (None, e) \<Rightarrow> finish (reply_err (- ENOMEM) (L1\<lparr>env := e\<rparr>))
           | (Some a, e) \<Rightarrow>
               ioctl_run i (L1\<lparr>env := e\<rparr>) ino cmd arg fi flags in_buf out_bufsz
                 (\<lambda>L. map_option (\<lambda>e. L\<lparr>env := e\<rparr>) (free_mem a (env L)))) })"

definition fuse_lib_poll :: "nat \<Rightarrow> fuse_context \<Rightarrow> 's lib \<Rightarrow> u64 \<Rightarrow> fuse_file_info \<Rightarrow> nat option \<Rightarrow> 's run option" where
  "fuse_lib_poll i cx L ino fi ph =
     path_call True (\<lambda>i f. get_path_nullok i f ino) i (req_fuse_prepare cx L) ino (fi, 0)
       (\<lambda>path. calls (fuse_fs_poll (fsys L) path fi ph 0))
       (\<lambda>err (_, revents) L. finish (if err = 0 then reply (Reply_poll revents) L else reply_err err L))"

definition fuse_lib_fallocate ::
  "nat \<Rightarrow> fuse_context \<Rightarrow> 's lib \<Rightarrow> u64 \<Rightarrow> int \<Rightarrow> int \<Rightarrow> int \<Rightarrow> fuse_file_info \<Rightarrow> 's run option" where
  "fuse_lib_fallocate i cx L ino mode off len fi =
     path_call True (\<lambda>i f. get_path_nullok i f ino) i (req_fuse_prepare cx L) ino fi
       (\<lambda>path. calls (fuse_fs_fallocate (fsys L) path mode off len fi)) (\<lambda>err _ L. finish (reply_err err L))"

definition fuse_lib_copy_file_range ::
  "nat \<Rightarrow> fuse_context \<Rightarrow> 's lib \<Rightarrow> u64 \<Rightarrow> int \<Rightarrow> fuse_file_info \<Rightarrow> u64 \<Rightarrow> int \<Rightarrow> fuse_file_info \<Rightarrow> nat \<Rightarrow> int \<Rightarrow> 's run option" where
  "fuse_lib_copy_file_range i cx L nodeid_in off_in fi_in nodeid_out off_out fi_out len flags =
     with_path True (\<lambda>i f. get_path_nullok i f nodeid_in) i (req_fuse_prepare cx L)
       (\<lambda>(err, path_in, w) L.
          if err \<noteq> 0 then finish (reply_err err L)
          else with_path True (\<lambda>i f. get_path_nullok i f nodeid_out) i L
            (\<lambda>(err, path_out, w) L.
               if err \<noteq> 0 then do { L1 \<leftarrow> give_path nodeid_in path_in L; finish (reply_err err L1) }
               else
                 let (r, x, L1) = on_env (fuse_fs_copy_file_range (fsys L) path_in fi_in off_in path_out fi_out off_out len flags)
                                    (fuse_prepare_interrupt L);
                     L2 = fuse_finish_interrupt L1;
                     L3 = (if 0 \<le> r then reply (Reply_write r) L2 else reply_err r L2)
                 in do { L4 \<leftarrow> give_path nodeid_in path_in L3;
                         L5 \<leftarrow> give_path nodeid_out path_out L4;
                         finish L5 }))"

definition fuse_lib_lseek ::
  "nat \<Rightarrow> fuse_context \<Rightarrow> 's lib \<Rightarrow> u64 \<Rightarrow> int \<Rightarrow> int \<Rightarrow> fuse_file_info \<Rightarrow> 's run option" where
  "fuse_lib_lseek i cx L ino off whence fi =
     path_call False (\<lambda>i f. get_path i f ino) i (req_fuse_prepare cx L) ino fi
       (\<lambda>path. calls (fuse_fs_lseek (fsys L) path off whence fi))
       (\<lambda>r _ L. finish (if 0 \<le> r then reply (Reply_lseek r) L else reply_err r L))"

end
