(* ===== verification/Dirs.thy ===== *)
theory Dirs
  imports FileHandlers
begin

text \<open>
  Reading directories: the directory handle \<open>struct fuse_dh\<close>, the fillers a file system calls from
  \<open>readdir\<close>, and the handlers \<open>fuse_lib_opendir\<close> to \<open>fuse_lib_fsyncdir\<close> of
  \<open>.deps/libfuse3-3.16.2/lib/fuse.c\<close>, with \<open>fuse_add_direntry\<close> and \<open>fuse_add_direntry_plus\<close> of
  \<open>fuse_lowlevel.c\<close>.

  Of the buffer \<open>contents\<close> only the \<open>len\<close> bytes in use are kept, so \<open>len\<close> is the length of the list.
  Numbers are stored little-endian.  Memory for entries and buffers is taken from the answers
  \<open>allocs\<close> of the tree.
\<close>

section \<open>Entries as bytes\<close>

definition le_bytes :: "nat \<Rightarrow> nat \<Rightarrow> bytes" where
  "le_bytes k n = map (\<lambda>i. of_nat (n div 256 ^ i mod 256)) [0..<k]"

definition FUSE_NAME_OFFSET :: nat where "FUSE_NAME_OFFSET = 24"
definition FUSE_NAME_OFFSET_DIRENTPLUS :: nat where "FUSE_NAME_OFFSET_DIRENTPLUS = 152"

definition FUSE_DIRENT_ALIGN :: "nat \<Rightarrow> nat" where
  "FUSE_DIRENT_ALIGN n = (n + 7) div 8 * 8"

definition name_bytes :: "string \<Rightarrow> bytes" where
  "name_bytes nm = map of_char nm"

definition dirent_bytes :: "u64 \<Rightarrow> int \<Rightarrow> u32 \<Rightarrow> string \<Rightarrow> bytes" where
  \<comment> \<open>\<open>struct fuse_dirent\<close> with the name behind it\<close>
  "dirent_bytes ino off mode nm =
     le_bytes 8 (unat ino) @ le_bytes 8 (nat (off mod 2 ^ 64)) @ le_bytes 4 (length nm) @
     le_bytes 4 (unat (drop_bit 12 (and mode S_IFMT))) @ name_bytes nm"

definition padded :: "nat \<Rightarrow> bytes \<Rightarrow> bytes" where
  "padded n bs = bs @ replicate (n - length bs) 0"

text \<open>The length the entry needs, and its bytes when the buffer has room for them.\<close>

definition fuse_add_direntry :: "nat \<Rightarrow> string \<Rightarrow> stat \<Rightarrow> int \<Rightarrow> nat \<times> bytes" where
  "fuse_add_direntry bufsize nm st off =
     (let entlen_padded = FUSE_DIRENT_ALIGN (FUSE_NAME_OFFSET + length nm) in
      if bufsize < entlen_padded then (entlen_padded, [])
      else (entlen_padded, padded entlen_padded (dirent_bytes (st_ino st) off (st_mode st) nm)))"

definition calc_timeout_sec :: "rat \<Rightarrow> nat" where
  "calc_timeout_sec t = (if 2 ^ 64 - 1 < t then 2 ^ 64 - 1 else if t < 0 then 0 else nat \<lfloor>t\<rfloor>)"

definition calc_timeout_nsec :: "rat \<Rightarrow> nat" where
  "calc_timeout_nsec t =
     (let f = t - of_nat (calc_timeout_sec t) in
      if f < 0 then 0 else if 999999999 / 1000000000 \<le> f then 999999999 else nat \<lfloor>f * 1000000000\<rfloor>)"

definition attr_bytes :: "stat \<Rightarrow> bytes" where
  \<comment> \<open>\<open>convert_stat\<close>: \<open>struct fuse_attr\<close>, whose last field \<open>flags\<close> is 0\<close>
  "attr_bytes st =
     le_bytes 8 (unat (st_ino st)) @ le_bytes 8 (nat (st_size st mod 2 ^ 64)) @ le_bytes 8 (st_blocks st) @
     le_bytes 8 (nat (tv_sec (st_atim st) mod 2 ^ 64)) @ le_bytes 8 (nat (tv_sec (st_mtim st) mod 2 ^ 64)) @
     le_bytes 8 (nat (tv_sec (st_ctim st) mod 2 ^ 64)) @
     le_bytes 4 (nat (tv_nsec (st_atim st) mod 2 ^ 32)) @ le_bytes 4 (nat (tv_nsec (st_mtim st) mod 2 ^ 32)) @
     le_bytes 4 (nat (tv_nsec (st_ctim st) mod 2 ^ 32)) @
     le_bytes 4 (unat (st_mode st)) @ le_bytes 4 (st_nlink st) @ le_bytes 4 (nat (st_uid st mod 2 ^ 32)) @
     le_bytes 4 (nat (st_gid st mod 2 ^ 32)) @ le_bytes 4 (st_rdev st) @ le_bytes 4 (st_blksize st) @ le_bytes 4 0"

definition entry_bytes :: "fuse_entry_param \<Rightarrow> bytes" where
  \<comment> \<open>\<open>fill_entry\<close>: \<open>struct fuse_entry_out\<close>\<close>
  "entry_bytes e =
     le_bytes 8 (unat (e_ino e)) @ le_bytes 8 (unat (e_generation e)) @
     le_bytes 8 (calc_timeout_sec (e_entry_timeout e)) @ le_bytes 8 (calc_timeout_sec (e_attr_timeout e)) @
     le_bytes 4 (calc_timeout_nsec (e_entry_timeout e)) @ le_bytes 4 (calc_timeout_nsec (e_attr_timeout e)) @
     attr_bytes (e_attr e)"

definition fuse_add_direntry_plus :: "nat \<Rightarrow> string \<Rightarrow> fuse_entry_param \<Rightarrow> int \<Rightarrow> nat \<times> bytes" where
  "fuse_add_direntry_plus bufsize nm e off =
     (let entlen_padded = FUSE_DIRENT_ALIGN (FUSE_NAME_OFFSET_DIRENTPLUS + length nm) in
      if bufsize < entlen_padded then (entlen_padded, [])
      else (entlen_padded,
            padded entlen_padded (entry_bytes e @ dirent_bytes (st_ino (e_attr e)) off (st_mode (e_attr e)) nm)))"

section \<open>The handle\<close>

definition new_dh :: "u64 \<Rightarrow> fuse_dh" where
  "new_dh ino = \<lparr>dh_contents = [], dh_first = [], dh_size = 0, dh_needlen = 0, dh_filled = False, dh_fh = 0,
     dh_error = 0, dh_nodeid = ino\<rparr>"

text \<open>Growing the buffer; the loop is the one of \<open>add_name\<close>.\<close>

definition extend_contents :: "fuse_dh \<Rightarrow> u32 \<Rightarrow> allocs \<Rightarrow> (int \<times> fuse_dh \<times> allocs) option" where
  "extend_contents dh minsize al =
     (if minsize \<le> dh_size dh then Some (0, dh, al)
      else do { newsize \<leftarrow> grow_size (if dh_size dh = 0 then 1024 else dh_size dh) (unat minsize);
                let (ok, al1) = alloc_next al;
                Some (if ok then (0, dh\<lparr>dh_size := newsize\<rparr>, al1) else (-1, dh\<lparr>dh_error := - ENOMEM\<rparr>, al1)) })"

definition fuse_add_direntry_to_dh :: "fuse_dh \<Rightarrow> string \<Rightarrow> stat \<Rightarrow> allocs \<Rightarrow> int \<times> fuse_dh \<times> allocs" where
  "fuse_add_direntry_to_dh dh nm st al =
     (let (ok1, al1) = alloc_next al in
      if \<not> ok1 then (-1, dh\<lparr>dh_error := - ENOMEM\<rparr>, al1)
      else let (ok2, al2) = alloc_next al1 in
      if \<not> ok2 then (-1, dh\<lparr>dh_error := - ENOMEM\<rparr>, al2)
      else (0, dh\<lparr>dh_first := dh_first dh @ [\<lparr>de_stat = st, de_name = nm\<rparr>]\<rparr>, al2))"

definition lookup_nodeid :: "fuse \<Rightarrow> u64 \<Rightarrow> string \<Rightarrow> u64 option" where
  "lookup_nodeid f parnt nm =
     do { r \<leftarrow> lookup_node f parnt nm;
          case r of None \<Rightarrow> Some FUSE_UNKNOWN_INO | Some p \<Rightarrow> map_option nodeid (heap f p) }"

section \<open>Fillers\<close>

definition FUSE_FILL_DIR_PLUS :: u32 where "FUSE_FILL_DIR_PLUS = 2"
definition FUSE_READDIR_PLUS :: u32 where "FUSE_READDIR_PLUS = 1"

type_synonym 's filler =
  "string \<Rightarrow> stat option \<Rightarrow> int \<Rightarrow> u32 \<Rightarrow> fuse_dh \<times> 's lib \<Rightarrow> (int \<times> fuse_dh \<times> 's lib) option"

text \<open>
  What both fillers do with an entry.  With an offset it goes straight into the buffer, which may be
  full; without one it is kept on the list.  \<open>add\<close> makes the bytes for the room that is left.
\<close>

definition store_entry ::
  "(nat \<Rightarrow> nat \<times> bytes) \<Rightarrow> string \<Rightarrow> stat \<Rightarrow> int \<Rightarrow> fuse_dh \<times> 's lib \<Rightarrow> (int \<times> fuse_dh \<times> 's lib) option" where
  "store_entry add nm st off s =
     (case s of (dh, L) \<Rightarrow>
        if off \<noteq> 0
        then
          (if dh_filled dh \<or> dh_first dh \<noteq> [] then Some (1, dh\<lparr>dh_error := - EIO\<rparr>, L)
           else do {
             (r, dh1, al) \<leftarrow> extend_contents dh (dh_needlen dh) (allocs (tree L));
             let L1 = L\<lparr>tree := (tree L)\<lparr>allocs := al\<rparr>\<rparr>;
             if r = -1 then Some (1, dh1, L1)
             else
               (let (entlen, bs) = add (unat (dh_needlen dh1 - of_nat (length (dh_contents dh1))));
                    newlen = length (dh_contents dh1) + entlen in
                if unat (dh_needlen dh1) < newlen then Some (1, dh1, L1)
                else Some (0, dh1\<lparr>dh_contents := dh_contents dh1 @ bs\<rparr>, L1)) })
        else
          (let (r, dh1, al) = fuse_add_direntry_to_dh (dh\<lparr>dh_filled := True\<rparr>) nm st (allocs (tree L))
           in Some (if r = -1 then 1 else 0, dh1, L\<lparr>tree := (tree L)\<lparr>allocs := al\<rparr>\<rparr>)))"

definition fill_dir :: "'s filler" where
  "fill_dir nm statp off flags s =
     (case s of (dh, L) \<Rightarrow>
        if and flags (not FUSE_FILL_DIR_PLUS) \<noteq> 0 then Some (1, dh\<lparr>dh_error := - EIO\<rparr>, L)
        else do {
          let st = (case statp of Some st \<Rightarrow> st | None \<Rightarrow> zero_stat\<lparr>st_ino := FUSE_UNKNOWN_INO\<rparr>);
          st1 \<leftarrow> (if use_ino (conf (tree L)) then Some st
                  else if readdir_ino (conf (tree L))
                  then do { ino \<leftarrow> lookup_nodeid (tree L) (dh_nodeid dh) nm; Some (st\<lparr>st_ino := ino\<rparr>) }
                  else Some (st\<lparr>st_ino := FUSE_UNKNOWN_INO\<rparr>));
          store_entry (\<lambda>room. fuse_add_direntry room nm st1 off) nm st1 off s })"

definition is_dot_or_dotdot :: "string \<Rightarrow> bool" where
  "is_dot_or_dotdot nm \<longleftrightarrow> nm = DOT \<or> nm = DOT @ DOT"

text \<open>With the flag \<open>FUSE_FILL_DIR_PLUS\<close> the entry is looked up, as the kernel may then use it.\<close>

definition plus_entry :: "string \<Rightarrow> stat option \<Rightarrow> u32 \<Rightarrow> fuse_dh \<Rightarrow> 's lib \<Rightarrow> (int \<times> fuse_entry_param \<times> 's lib) option" where
  "plus_entry nm statp flags dh L =
     (case statp of
        Some st \<Rightarrow>
          if has_bit flags FUSE_FILL_DIR_PLUS
          then (if is_dot_or_dotdot nm then Some (0, zero_entry\<lparr>e_attr := st\<rparr>, L)
                else do_lookup L (dh_nodeid dh) (Some nm) (zero_entry\<lparr>e_attr := st\<rparr>))
          else
            (let a = zero_stat\<lparr>st_ino := (if use_ino (conf (tree L)) then st_ino st else FUSE_UNKNOWN_INO),
                               st_mode := st_mode st\<rparr> in
             do { a1 \<leftarrow> (if \<not> use_ino (conf (tree L)) \<and> readdir_ino (conf (tree L))
                         then do { ino \<leftarrow> lookup_nodeid (tree L) (dh_nodeid dh) nm; Some (a\<lparr>st_ino := ino\<rparr>) }
                         else Some a);
                  Some (0, zero_entry\<lparr>e_attr := a1\<rparr>, L) })
      | None \<Rightarrow>
          (let a = zero_stat\<lparr>st_ino := FUSE_UNKNOWN_INO\<rparr> in
           do { a1 \<leftarrow> (if \<not> use_ino (conf (tree L)) \<and> readdir_ino (conf (tree L))
                       then do { ino \<leftarrow> lookup_nodeid (tree L) (dh_nodeid dh) nm; Some (a\<lparr>st_ino := ino\<rparr>) }
                       else Some a);
                Some (0, zero_entry\<lparr>e_attr := a1\<rparr>, L) }))"

definition fill_dir_plus :: "'s filler" where
  "fill_dir_plus nm statp off flags s =
     (case s of (dh, L) \<Rightarrow>
        if and flags (not FUSE_FILL_DIR_PLUS) \<noteq> 0 then Some (1, dh\<lparr>dh_error := - EIO\<rparr>, L)
        else do {
          (res, e, L1) \<leftarrow> plus_entry nm statp flags dh L;
          if res \<noteq> 0 then Some (1, dh\<lparr>dh_error := res\<rparr>, L1)
          else store_entry (\<lambda>room. fuse_add_direntry_plus room nm e off) nm (e_attr e) off (dh, L1) })"

text \<open>Running a file system's \<open>readdir\<close> with a filler.\<close>

primrec run_walk ::
  "'s filler \<Rightarrow> 's walk \<Rightarrow> fuse_dh \<times> 's lib \<Rightarrow> (int \<times> fuse_dh \<times> 's lib) option" where
  "run_walk fill (Ends err fi e) s = (case s of (dh, L) \<Rightarrow> Some (err, dh, L\<lparr>env := e\<rparr>))"
| "run_walk fill (Fills nm st off flags k) s =
     Option.bind (fill nm st off flags s) (\<lambda>(r, s1). run_walk fill (k r) s1)"

section \<open>Reading\<close>

definition set_dh :: "u64 \<Rightarrow> fuse_dh \<Rightarrow> 's lib \<Rightarrow> 's lib" where
  "set_dh h dh L = L\<lparr>dirs := (dirs L)(h := Some dh)\<rparr>"

definition fresh_dh :: "nat \<Rightarrow> fuse_dh \<Rightarrow> fuse_dh" where
  "fresh_dh sz dh = dh\<lparr>dh_first := [], dh_contents := [], dh_error := 0, dh_needlen := of_nat sz, dh_filled := False\<rparr>"

definition readdir_fill ::
  "nat \<Rightarrow> 's lib \<Rightarrow> u64 \<Rightarrow> nat \<Rightarrow> int \<Rightarrow> u64 \<Rightarrow> fuse_file_info \<Rightarrow> u32 \<Rightarrow> (int \<Rightarrow> 's lib \<Rightarrow> 's run option) \<Rightarrow> 's run option" where
  "readdir_fill i L ino sz off h fi flags k =
     path_call (op_readdir (fs_op (fsys L)) \<noteq> None)
       (\<lambda>i f. if op_readdir (fs_op (fsys L)) \<noteq> None then get_path_nullok i f ino else get_path i f ino)
       i L ino ()
       (\<lambda>path L. do {
          dh \<leftarrow> dirs L h;
          let fill = (if has_bit flags FUSE_READDIR_PLUS then fill_dir_plus else fill_dir);
          (err, dh1, L1) \<leftarrow> run_walk fill (fuse_fs_readdir (fsys L) path off fi flags (env L)) (fresh_dh sz dh, L);
          let err1 = (if err = 0 then dh_error dh1 else err);
          Some (err1, (), set_dh h (if err1 \<noteq> 0 then dh1\<lparr>dh_filled := False\<rparr> else dh1) L1) })
       (\<lambda>err _ L. k err L)"

fun list_loop :: "bool \<Rightarrow> u32 \<Rightarrow> fuse_direntry list \<Rightarrow> int \<Rightarrow> bytes \<Rightarrow> bytes" where
  "list_loop pl needlen [] pos buf = buf"
| "list_loop pl needlen (de # des) pos buf =
     (let rem = unat (needlen - of_nat (length buf));
          (thislen, bs) = (if pl then fuse_add_direntry_plus rem (de_name de) (zero_entry\<lparr>e_attr := de_stat de\<rparr>) (pos + 1)
                           else fuse_add_direntry rem (de_name de) (de_stat de) (pos + 1));
          newlen = of_nat (length buf) + of_nat thislen :: u32 in
      if needlen < newlen then buf
      else list_loop pl needlen des (pos + 1) (take (unat newlen) (buf @ bs)))"

definition readdir_fill_from_list :: "fuse_dh \<Rightarrow> int \<Rightarrow> u32 \<Rightarrow> allocs \<Rightarrow> (int \<times> fuse_dh \<times> allocs) option" where
  "readdir_fill_from_list dh off flags al =
     do { (r, dh1, al1) \<leftarrow> extend_contents (dh\<lparr>dh_contents := []\<rparr>) (dh_needlen dh) al;
          if r = -1 then Some (dh_error dh1, dh1, al1)
          else
            (let skipped = min (nat off) (length (dh_first dh)) in
             Some (0, dh1\<lparr>dh_contents := list_loop (has_bit flags FUSE_READDIR_PLUS) (dh_needlen dh1)
                                           (drop skipped (dh_first dh)) (int skipped) []\<rparr>, al1)) }"

definition readdir_reply :: "u64 \<Rightarrow> nat \<Rightarrow> int \<Rightarrow> u32 \<Rightarrow> 's lib \<Rightarrow> 's run option" where
  \<comment> \<open>the second half of \<open>fuse_readdir_common\<close>: from the list when there is one, and the reply\<close>
  "readdir_reply h sz off flags L =
     do { dh \<leftarrow> dirs L h;
          if \<not> dh_filled dh then finish (reply (Reply_buf (dh_contents dh)) L)
          else do {
            (err, dh1, al) \<leftarrow> readdir_fill_from_list (dh\<lparr>dh_needlen := of_nat sz\<rparr>) off flags (allocs (tree L));
            let L1 = set_dh h dh1 (L\<lparr>tree := (tree L)\<lparr>allocs := al\<rparr>\<rparr>);
            finish (if err \<noteq> 0 then reply_err err L1 else reply (Reply_buf (dh_contents dh1)) L1) } }"

definition fuse_readdir_common ::
  "nat \<Rightarrow> fuse_context \<Rightarrow> 's lib \<Rightarrow> u64 \<Rightarrow> nat \<Rightarrow> int \<Rightarrow> fuse_file_info \<Rightarrow> u32 \<Rightarrow> 's run option" where
  "fuse_readdir_common i cx L ino sz off llfi flags =
     do { let L1 = req_fuse_prepare cx L;
          let h = fi_fh llfi;
          (dh, fi) \<leftarrow> get_dirhandle L1 llfi;
          let dh1 = (if off = 0 then dh\<lparr>dh_filled := False\<rparr> else dh);
          let L2 = set_dh h dh1 L1;
          if dh_filled dh1 then readdir_reply h sz off flags L2
          else readdir_fill i L2 ino sz off h fi flags
                 (\<lambda>err L. if err \<noteq> 0 then finish (reply_err err L) else readdir_reply h sz off flags L) }"

definition fuse_lib_readdir ::
  "nat \<Rightarrow> fuse_context \<Rightarrow> 's lib \<Rightarrow> u64 \<Rightarrow> nat \<Rightarrow> int \<Rightarrow> fuse_file_info \<Rightarrow> 's run option" where
  "fuse_lib_readdir i cx L ino sz off llfi = fuse_readdir_common i cx L ino sz off llfi 0"

definition fuse_lib_readdirplus ::
  "nat \<Rightarrow> fuse_context \<Rightarrow> 's lib \<Rightarrow> u64 \<Rightarrow> nat \<Rightarrow> int \<Rightarrow> fuse_file_info \<Rightarrow> 's run option" where
  "fuse_lib_readdirplus i cx L ino sz off llfi = fuse_readdir_common i cx L ino sz off llfi FUSE_READDIR_PLUS"

section \<open>Opening and releasing\<close>

definition fuse_lib_opendir :: "nat \<Rightarrow> fuse_context \<Rightarrow> 's lib \<Rightarrow> u64 \<Rightarrow> fuse_file_info \<Rightarrow> 's run option" where
  "fuse_lib_opendir i cx L ino llfi =
     (let L0 = req_fuse_prepare cx L;
          (ok, al) = alloc_next (allocs (tree L0));
          L1 = L0\<lparr>tree := (tree L0)\<lparr>allocs := al\<rparr>\<rparr> in
      if \<not> ok then finish (reply_err (- ENOMEM) L1)
      else
        let h = next_dh L1;
            L2 = set_dh h (new_dh ino) (L1\<lparr>next_dh := h + 1\<rparr>);
            llfi1 = llfi\<lparr>fi_fh := h\<rparr>;
            free_dh = (\<lambda>L. L\<lparr>dirs := (dirs L)(h := None)\<rparr>) in
        with_path False (\<lambda>i f. get_path i f ino) i L2
          (\<lambda>(err, path, w) L.
             if err \<noteq> 0 then end_with ino path (free_dh (reply_err err L))
             else
               let (err, fi, L3) = on_env (fuse_fs_opendir (fsys L) path (zero_fi\<lparr>fi_flags := fi_flags llfi\<rparr>))
                                     (fuse_prepare_interrupt L);
                   L4 = set_dh h ((new_dh ino)\<lparr>dh_fh := fi_fh fi\<rparr>) (fuse_finish_interrupt L3);
                   llfi2 = llfi1\<lparr>fi_cache_readdir := fi_cache_readdir fi, fi_keep_cache := fi_keep_cache fi\<rparr> in
               if err \<noteq> 0 then end_with ino path (free_dh (reply_err err L4))
               else
                 let (a, L5) = answer (Reply_open llfi2) L4 in
                 if a = - ENOENT
                 then (let (r, x, L6) = on_env (fuse_fs_releasedir (fsys L5) path fi) L5
                       in end_with ino path (free_dh L6))
                 else end_with ino path L5))"

definition fuse_lib_releasedir :: "nat \<Rightarrow> fuse_context \<Rightarrow> 's lib \<Rightarrow> u64 \<Rightarrow> fuse_file_info \<Rightarrow> 's run option" where
  "fuse_lib_releasedir i cx L ino llfi =
     do { let L1 = req_fuse_prepare cx L;
          (dh, fi) \<leftarrow> get_dirhandle L1 llfi;
          with_path True (\<lambda>i f. get_path_nullok i f ino) i L1
            (\<lambda>(_, path, w) L.
               do { let (r, x, L2) = on_env (fuse_fs_releasedir (fsys L) path fi) (fuse_prepare_interrupt L);
                    L3 \<leftarrow> give_path ino path (fuse_finish_interrupt L2);
                    finish (reply_err 0 (L3\<lparr>dirs := (dirs L3)(fi_fh llfi := None)\<rparr>)) }) }"

definition fuse_lib_fsyncdir :: "nat \<Rightarrow> fuse_context \<Rightarrow> 's lib \<Rightarrow> u64 \<Rightarrow> int \<Rightarrow> fuse_file_info \<Rightarrow> 's run option" where
  "fuse_lib_fsyncdir i cx L ino datasync llfi =
     do { let L1 = req_fuse_prepare cx L;
          (dh, fi) \<leftarrow> get_dirhandle L1 llfi;
          path_call True (\<lambda>i f. get_path_nullok i f ino) i L1 ino fi
            (\<lambda>path. calls (fuse_fs_fsyncdir (fsys L1) path datasync fi)) (\<lambda>err _ L. finish (reply_err err L)) }"

end
