(* ===== verification/Requests.thy ===== *)
theory Requests
  imports Dirs
begin

text \<open>
  What handlers guarantee when they find the library idle, that is, with no path locked and no request
  waiting: they do not abort, do not wait, send one reply, and leave no lock behind.
\<close>

section \<open>Paths on an idle tree\<close>

text \<open>The tree is locked along \<open>ps\<close>, the way from node \<open>p\<close> of number \<open>ino\<close> to the root, and at \<open>w\<close>.\<close>

definition holds_path :: "fuse \<Rightarrow> u64 \<Rightarrow> nat \<Rightarrow> nat list \<Rightarrow> nat option \<Rightarrow> fuse \<Rightarrow> bool" where
  "holds_path f ino p ps w g \<longleftrightarrow> lock_inv g {#(ino, ps, w)#} \<and>
     (\<exists>e al. get_node f ino = Some p \<and> climbs f p ps e \<and> is_root f e \<and>
        g = relock (raise (set ps) (write_lock w TREELOCK_WRITE (\<lambda>_. 0))) al f)"

lemma idle_relock: "idle f \<Longrightarrow> relock (\<lambda>_. 0) al f = f\<lparr>allocs := al\<rparr>"
proof -
  assume "idle f"
  then have "relock (\<lambda>_. 0) al f = relock (locks_of f) al f"
    by (intro relock_cong) (auto simp: idle_def locks_of_def)
  also have "\<dots> = (relock (locks_of f) (allocs f) f)\<lparr>allocs := al\<rparr>" by simp
  also have "\<dots> = f\<lparr>allocs := al\<rparr>" using relock_self [of f] by simp
  finally show ?thesis .
qed

lemma idle_lock_inv: "idle f \<Longrightarrow> lock_inv f {#}"
  by (auto simp: idle_def lock_inv_def lock_state_def tree_okD)

lemma idle_allocs: "idle f \<Longrightarrow> idle (f\<lparr>allocs := al\<rparr>)"
proof -
  assume i: "idle f"
  have "tree_ok (f\<lparr>allocs := al\<rparr>)"
    using tree_ok_relock [of f al] i idle_relock [OF i, of al] by (simp add: idle_def)
  moreover have "short_paths (f\<lparr>allocs := al\<rparr>)"
    using short_same_tree [of f "f\<lparr>allocs := al\<rparr>"] i idle_relock [OF i, of al] same_tree_relock [of f "\<lambda>_. 0" al]
    by (simp add: idle_def)
  ultimately show ?thesis using i by (simp add: idle_def)
qed

text \<open>A request for a path of an idle tree is served at once, or refused without memory or a way to the root.\<close>

lemma try_idle:
  assumes i: "idle f" and r: "request_ok f ino nmo wr"
  obtains (refused) err al where "try_get_path f ino nmo wr True = Some (err, None, None, f\<lparr>allocs := al\<rparr>)"
      "err = - ENOMEM \<or> err = - ESTALE"
  | (got) p ps w g where "try_get_path f ino nmo wr True = Some (0, Some (path_text f ps nmo), w, g)"
      "holds_path f ino p ps w g" "if wr then \<exists>nm. nmo = Some nm \<and> lookup_node f ino nm = Some w else w = None"
proof -
  have inv: "nodes_inv {} (\<lambda>_. 0) f" using i by (simp add: idle_def tree_okD)
  then have ids: "ids_inv f" "finite (dom (heap f))" by (simp_all add: nodes_inv_def mem_inv_def)
  obtain p where g: "get_node f ino = Some p" using r by (auto simp: request_ok_def)
  then obtain n where n: "heap f p = Some n" using get_node_iff [OF ids] by (auto simp: is_id_iff)
  obtain ps e where c: "climbs f p ps e" "top_node f e" using climbs_exists [OF inv n] by blast
  have "length (spell f ps) + 1100 \<le> MAX_PATH" using i c(1) unfolding idle_def short_paths_def by blast
  moreover have "length (name_part nmo) \<le> 1025" using r by (cases nmo) (auto simp: request_ok_def name_part_def)
  ultimately have len: "length (spell f ps) + length (name_part nmo) + 1 \<le> MAX_PATH" by simp
  have wr: "wr \<longrightarrow> nmo \<noteq> None" using r by (simp add: request_ok_def)
  obtain err path w al' t' where t: "try_get_path (relock (\<lambda>_. 0) (allocs f) f) ino nmo wr True =
      Some (err, path, w, relock t' al' f)"
    and o: "err = 0 \<and> path_got f (\<lambda>_. 0) ino nmo wr ps e path w t' \<or>
     err \<noteq> 0 \<and> path = None \<and> w = None \<and> path_refused f (\<lambda>_. 0) (allocs f) ino nmo wr ps e err t'"
    using try_get_path_ok [OF inv g c len wr, of "\<lambda>_. 0" "allocs f"] by blast
  have f: "relock (\<lambda>_. 0) (allocs f) f = f" using idle_relock [OF i] by simp
  show thesis
  proof (cases "err = 0")
    case True
    then have got: "path_got f (\<lambda>_. 0) ino nmo wr ps e path w t'" using o by simp
    have "locks_of f = (\<lambda>_. 0)" using idle_locks [OF idle_lock_inv [OF i]] by (intro ext)
    then have got': "path_got f (locks_of f) ino nmo wr ps e path w t'" using got by simp
    have "lock_inv (relock t' al' f) {#(ino, ps, w)#}"
      by (rule lock_inv_get [OF idle_lock_inv [OF i] _ g c(1) got']) (simp add: MAX_HOLDS_def)
    then have "holds_path f ino p ps w (relock t' al' f)"
      using got g c(1) by (auto simp: holds_path_def path_got_def)
    then show thesis using t f True got by (intro that(2)) (auto simp: path_got_def)
  next
    case False
    then have "path = None" "w = None" "path_refused f (\<lambda>_. 0) (allocs f) ino nmo wr ps e err t'" using o by auto
    then have "t' = (\<lambda>_. 0)" "err = - ENOMEM \<or> err = - ESTALE" "path = None" "w = None"
      by (auto simp: path_refused_def)
    then show thesis using t f idle_relock [OF i] by (intro that(1)) auto
  qed
qed

lemma holds_pathD:
  assumes "holds_path f ino p ps w g"
  shows "same_tree f g" "lock_inv g {#(ino, ps, w)#}" "lockq g = lockq f" "get_node f ino = Some p"
  using assms by (auto simp: holds_path_def)

text \<open>Giving the path back, to a tree that may have changed meanwhile.\<close>

lemma unlock_all:
  assumes i: "lock_inv g {#(ino, ps, w)#}" and q: "lockq g = []"
  shows "free_path_wrlock g ino w = Some (relock (\<lambda>_. 0) (allocs g) g)"
proof -
  obtain t where t: "unlock_path g ino w None = Some (relock t (allocs g) g)" "lock_inv (relock t (allocs g) g) {#}"
    using lock_inv_free [of g ino ps w "{#}"] i by (auto simp: MAX_HOLDS_def)
  have "relock t (allocs g) g = relock (\<lambda>_. 0) (allocs g) g"
  proof (rule relock_cong)
    fix x assume "heap g x \<noteq> None"
    then show "t x = 0" using idle_locks [OF t(2), of x] by (auto simp: locks_of_def)
  qed
  then show ?thesis using t(1) q by (simp add: free_path_wrlock_def)
qed

lemma idle_again:
  assumes i: "idle f" and h: "holds_path f ino p ps w g"
  shows "free_path_wrlock g ino w = Some (f\<lparr>allocs := allocs g\<rparr>)"
proof -
  obtain t al where g: "g = relock t al f" using h by (auto simp: holds_path_def)
  then have "relock (\<lambda>_. 0) (allocs g) g = f\<lparr>allocs := allocs g\<rparr>" using idle_relock [OF i] by simp
  moreover have "lockq g = []" using holds_pathD(3) [OF h] i by (simp add: idle_def)
  ultimately show ?thesis using unlock_all holds_pathD(2) [OF h] by metis
qed

lemma common_idle:
  assumes i: "idle f" and r: "request_ok f ino nmo wr"
  obtains (refused) err al where "get_path_common j f ino nmo wr = Some (Some (err, None, None), f\<lparr>allocs := al\<rparr>)"
      "err = - ENOMEM \<or> err = - ESTALE"
  | (got) p ps w g where "get_path_common j f ino nmo wr = Some (Some (0, Some (path_text f ps nmo), w), g)"
      "holds_path f ino p ps w g" "if wr then \<exists>nm. nmo = Some nm \<and> lookup_node f ino nm = Some w else w = None"
proof (cases rule: try_idle [OF i r])
  case (1 err al)
  then show thesis by (intro refused) (auto simp: get_path_common_def EAGAIN_def ENOMEM_def ESTALE_def)
next
  case (2 p ps w g)
  then show thesis by (intro got) (simp_all add: get_path_common_def EAGAIN_def)
qed

section \<open>Handlers that only call the file system\<close>

text \<open>
  The path a callback may get for a number: the text of the way to the root, or NULL where the file
  system allows it or the node is cut off.
\<close>

definition path_to :: "fuse \<Rightarrow> u64 \<Rightarrow> path \<Rightarrow> bool" where
  "path_to f ino path \<longleftrightarrow> path = None \<or>
     (\<exists>p ps e. get_node f ino = Some p \<and> climbs f p ps e \<and> is_root f e \<and> path = Some (path_text f ps None))"

definition node_path :: "u64 \<Rightarrow> (nat \<Rightarrow> fuse \<Rightarrow> (path_result option \<times> fuse) option) \<Rightarrow> bool" where
  "node_path ino get \<longleftrightarrow> (\<forall>i f. get i f = get_path i f ino \<or> get i f = get_path_nullok i f ino)"

definition only_env :: "(path \<Rightarrow> 's lib \<Rightarrow> (int \<times> 'a \<times> 's lib) option) \<Rightarrow> bool" where
  "only_env act \<longleftrightarrow> (\<forall>path L. \<exists>err x e. act path L = Some (err, x, L\<lparr>env := e\<rparr>))"

lemma only_env_calls [simp]: "only_env (\<lambda>path. calls (g path))"
  by (auto simp: only_env_def calls_def on_env_def Let_def split: prod.splits)

lemma node_paths [simp]:
  "node_path ino (\<lambda>i f. get_path i f ino)" "node_path ino (\<lambda>i f. get_path_nullok i f ino)" "node_path ino (path_for fi ino)"
  by (simp_all add: node_path_def path_for_def)

lemma nullok_map:
  "\<not> nullpath_ok (conf f) \<Longrightarrow> get_path_nullok j f ino =
     map_option (\<lambda>(r, f1). (map_option (\<lambda>(err, path, w). (if err = - ESTALE then 0 else err, path, w)) r, f1))
       (get_path_common j f ino None False)"
  by (cases "get_path_common j f ino None False") (auto simp: get_path_nullok_def)

lemma node_path_idle:
  assumes i: "idle f" and r: "get_node f ino \<noteq> None" and g: "node_path ino get"
  obtains (refused) err al where "get j f = Some (Some (err, None, None), f\<lparr>allocs := al\<rparr>)" "err \<noteq> 0"
  | (none) al where "get j f = Some (Some (0, None, None), f\<lparr>allocs := al\<rparr>)"
  | (got) p ps h where "get j f = Some (Some (0, Some (path_text f ps None), None), h)" "holds_path f ino p ps None h"
proof -
  have ok: "request_ok f ino None False" using r by (simp add: request_ok_def)
  have ne: "- ENOMEM \<noteq> 0" "- ESTALE \<noteq> 0" by (simp_all add: ENOMEM_def ESTALE_def)
  show thesis
  proof (cases "get j f = get_path_nullok j f ino \<and> nullpath_ok (conf f)")
    case True
    then show thesis by (intro none [of "allocs f"]) (simp add: get_path_nullok_def)
  next
    case False
    then have eq: "get j f = get_path_common j f ino None False \<or>
        get j f = map_option (\<lambda>(r, f1). (map_option (\<lambda>(err, path, w). (if err = - ESTALE then 0 else err, path, w)) r, f1))
          (get_path_common j f ino None False)"
    proof -
      have "get j f = get_path j f ino \<or> get j f = get_path_nullok j f ino" using g by (simp add: node_path_def)
      moreover have "\<not> nullpath_ok (conf f)" if "get j f = get_path_nullok j f ino" using False that by blast
      ultimately show ?thesis using nullok_map [of f j ino] unfolding get_path_def by fastforce
    qed
    show thesis
    proof (cases rule: common_idle [OF i ok, of j])
      case (1 err al)
      then show thesis using eq ne refused [of err al] none [of al] refused [of "- ENOMEM" al] by (cases "err = - ESTALE") auto
    next
      case (2 p ps w h)
      then have "w = None" by simp
      then show thesis using eq 2 ne got by auto
    qed
  qed
qed

lemma env_tree: "L\<lparr>env := e, tree := t\<rparr> = L\<lparr>tree := t, env := e\<rparr>"
  by (cases L) simp

lemma path_call_idle:
  assumes i: "idle (tree L)" and r: "get_node (tree L) ino \<noteq> None" and g: "node_path ino get" and a: "only_env act"
    and n: "\<not> interruptible L"
  obtains (refused) err al where "path_call b get j L ino x0 act k = k err x0 (L\<lparr>tree := (tree L)\<lparr>allocs := al\<rparr>\<rparr>)" "err \<noteq> 0"
  | (ran) path L1 err x e al where "path_to (tree L) ino path" "env L1 = env L" "act path L1 = Some (err, x, L1\<lparr>env := e\<rparr>)"
      "path_call b get j L ino x0 act k = k err x (L\<lparr>tree := (tree L)\<lparr>allocs := al\<rparr>, env := e\<rparr>)"
proof -
  have un: "L1\<lparr>interruptible := False\<rparr> = L1" if "\<not> interruptible L1" for L1 :: "'a lib" using that by (cases L1) simp
  have prep: "fuse_finish_interrupt ((fuse_prepare_interrupt (L\<lparr>tree := t\<rparr>))\<lparr>env := e\<rparr>) = L\<lparr>tree := t, env := e\<rparr>" for t e
    using n by (cases L) (simp add: fuse_finish_interrupt_def fuse_prepare_interrupt_def)
  show thesis
  proof (cases rule: node_path_idle [OF i r g, of j])
    case (1 err al)
    then show thesis by (intro refused) (simp_all add: path_call_def with_path_def)
  next
    case (2 al)
    let ?L1 = "fuse_prepare_interrupt (L\<lparr>tree := (tree L)\<lparr>allocs := al\<rparr>\<rparr>)"
    obtain err x e where act: "act None ?L1 = Some (err, x, ?L1\<lparr>env := e\<rparr>)" using a unfolding only_env_def by blast
    have "path_call b get j L ino x0 act k = k err x (L\<lparr>tree := (tree L)\<lparr>allocs := al\<rparr>, env := e\<rparr>)"
      using 2 act prep by (simp add: path_call_def with_path_def give_path_def free_path_def)
    moreover have "env ?L1 = env L" by (simp add: fuse_prepare_interrupt_def)
    ultimately show thesis using act by (intro ran [of None ?L1]) (simp_all add: path_to_def)
  next
    case (3 p ps h)
    let ?L1 = "fuse_prepare_interrupt (L\<lparr>tree := h\<rparr>)" and ?path = "Some (path_text (tree L) ps None)"
    obtain err x e where act: "act ?path ?L1 = Some (err, x, ?L1\<lparr>env := e\<rparr>)" using a unfolding only_env_def by blast
    have "free_path_wrlock h ino None = Some ((tree L)\<lparr>allocs := allocs h\<rparr>)" by (rule idle_again [OF i 3(2)])
    then have "path_call b get j L ino x0 act k = k err x (L\<lparr>tree := (tree L)\<lparr>allocs := allocs h\<rparr>, env := e\<rparr>)"
      using 3(1) act prep by (simp add: path_call_def with_path_def give_path_def free_path_def env_tree)
    moreover have "env ?L1 = env L" by (simp add: fuse_prepare_interrupt_def)
    moreover have "path_to (tree L) ino ?path" using 3(2) by (auto simp: path_to_def holds_path_def)
    ultimately show thesis using act by (intro ran [of ?path ?L1]) simp_all
  qed
qed

text \<open>The requests that leave the tree to the file system.\<close>

datatype plain_request =
  Access int
| Readlink
| Fsync int fuse_file_info
| Statfs
| Setxattr string bytes int
| Getxattr string nat
| Listxattr nat
| Removexattr string
| Flock fuse_file_info int
| Bmap nat u64
| Poll fuse_file_info "nat option"
| Fallocate int int int fuse_file_info
| Lseek int int fuse_file_info

fun serve_plain :: "nat \<Rightarrow> fuse_context \<Rightarrow> 's lib \<Rightarrow> u64 \<Rightarrow> plain_request \<Rightarrow> 's run option" where
  "serve_plain i cx L ino (Access msk) = fuse_lib_access i cx L ino msk"
| "serve_plain i cx L ino Readlink = fuse_lib_readlink i cx L ino"
| "serve_plain i cx L ino (Fsync datasync fi) = fuse_lib_fsync i cx L ino datasync fi"
| "serve_plain i cx L ino Statfs = fuse_lib_statfs i cx L ino"
| "serve_plain i cx L ino (Setxattr nm val flags) = fuse_lib_setxattr i cx L ino nm val flags"
| "serve_plain i cx L ino (Getxattr nm sz) = fuse_lib_getxattr i cx L ino nm sz"
| "serve_plain i cx L ino (Listxattr sz) = fuse_lib_listxattr i cx L ino sz"
| "serve_plain i cx L ino (Removexattr nm) = fuse_lib_removexattr i cx L ino nm"
| "serve_plain i cx L ino (Flock fi lop) = fuse_lib_flock i cx L ino fi lop"
| "serve_plain i cx L ino (Bmap blocksize idx) = fuse_lib_bmap i cx L ino blocksize idx"
| "serve_plain i cx L ino (Poll fi ph) = fuse_lib_poll i cx L ino fi ph"
| "serve_plain i cx L ino (Fallocate mode off len fi) = fuse_lib_fallocate i cx L ino mode off len fi"
| "serve_plain i cx L ino (Lseek off whence fi) = fuse_lib_lseek i cx L ino off whence fi"

text \<open>A reply that is sent as a message of known content.\<close>

definition is_message :: "reply \<Rightarrow> bool" where
  "is_message r \<longleftrightarrow> (case r of Reply_none \<Rightarrow> False | Reply_data v m \<Rightarrow> False | _ \<Rightarrow> True)"

lemma is_message_simps [simp]:
  "is_message (Reply_err e)" "is_message (Reply_xattr n)" "is_message (Reply_buf bs)" "is_message (Reply_statfs st)"
  "is_message (Reply_readlink l)" "is_message (Reply_bmap idx)" "is_message (Reply_poll ev)" "is_message (Reply_lseek off)"
  by (simp_all add: is_message_def)

text \<open>Operations of a file system that leave the allocated memory as it is.\<close>

definition keeps_env :: "('s env \<Rightarrow> ('s, 'a) res) \<Rightarrow> bool" where
  "keeps_env g \<longleftrightarrow> (\<forall>e. blocks (snd (snd (g e))) = blocks e)"

lemma keeps_call_op: "(\<And>f. g = Some f \<Longrightarrow> keeps_env (run f)) \<Longrightarrow> keeps_env (call_op fs g run err u)"
  by (cases g) (auto simp: keeps_env_def call_op_def enter_def)

definition xattr_ops_keep :: "'s fuse_operations \<Rightarrow> bool" where
  "xattr_ops_keep ops \<longleftrightarrow> (\<forall>f p nm sz. op_getxattr ops = Some f \<longrightarrow> keeps_env (f p nm sz)) \<and>
     (\<forall>f p sz. op_listxattr ops = Some f \<longrightarrow> keeps_env (f p sz))"

definition plain_ops_keep :: "'s fuse_operations \<Rightarrow> bool" where
  "plain_ops_keep ops \<longleftrightarrow> xattr_ops_keep ops \<and>
     (\<forall>f p msk. op_access ops = Some f \<longrightarrow> keeps_env (f p msk)) \<and>
     (\<forall>f p len. op_readlink ops = Some f \<longrightarrow> keeps_env (f p len)) \<and>
     (\<forall>f p ds fi. op_fsync ops = Some f \<longrightarrow> keeps_env (f p ds fi)) \<and>
     (\<forall>f p buf. op_statfs ops = Some f \<longrightarrow> keeps_env (f p buf)) \<and>
     (\<forall>f p nm val flags. op_setxattr ops = Some f \<longrightarrow> keeps_env (f p nm val flags)) \<and>
     (\<forall>f p nm. op_removexattr ops = Some f \<longrightarrow> keeps_env (f p nm)) \<and>
     (\<forall>f p fi lop. op_flock ops = Some f \<longrightarrow> keeps_env (f p fi lop)) \<and>
     (\<forall>f p bsz idx. op_bmap ops = Some f \<longrightarrow> keeps_env (f p bsz idx)) \<and>
     (\<forall>f p fi ph ev. op_poll ops = Some f \<longrightarrow> keeps_env (f p fi ph ev)) \<and>
     (\<forall>f p mode off len fi. op_fallocate ops = Some f \<longrightarrow> keeps_env (f p mode off len fi)) \<and>
     (\<forall>f p off wh fi. op_lseek ops = Some f \<longrightarrow> keeps_env (f p off wh fi))"

abbreviation keeps_memory :: "'s lib \<Rightarrow> bool" where
  "keeps_memory L \<equiv> plain_ops_keep (fs_op (fsys L))"

lemma xattr_keep: "plain_ops_keep ops \<Longrightarrow> xattr_ops_keep ops"
  by (simp add: plain_ops_keep_def)

lemma plain_keeps [simp]:
  assumes "plain_ops_keep (fs_op fs)"
  shows "keeps_env (fuse_fs_access fs p msk)" "keeps_env (fuse_fs_readlink fs p b n)" "keeps_env (fuse_fs_fsync fs p ds fi)"
    "keeps_env (fuse_fs_statfs fs p buf)" "keeps_env (fuse_fs_setxattr fs p nm val flags)" "keeps_env (fuse_fs_removexattr fs p nm)"
    "keeps_env (fuse_fs_flock fs p fi lop)" "keeps_env (fuse_fs_bmap fs p bsz idx)" "keeps_env (fuse_fs_poll fs p fi ph ev)"
    "keeps_env (fuse_fs_fallocate fs p mode off len fi)" "keeps_env (fuse_fs_lseek fs p off wh fi)"
  unfolding fuse_fs_access_def fuse_fs_readlink_def fuse_fs_fsync_def fuse_fs_statfs_def fuse_fs_setxattr_def
    fuse_fs_removexattr_def fuse_fs_flock_def fuse_fs_bmap_def fuse_fs_poll_def fuse_fs_fallocate_def fuse_fs_lseek_def
  by (rule keeps_call_op, use assms in \<open>simp add: plain_ops_keep_def\<close>)+

definition act_keeps :: "(path \<Rightarrow> 's lib \<Rightarrow> (int \<times> 'a \<times> 's lib) option) \<Rightarrow> bool" where
  "act_keeps act \<longleftrightarrow> (\<forall>path L err x L'. act path L = Some (err, x, L') \<longrightarrow> blocks (env L') = blocks (env L))"

lemma act_keeps_calls [simp]: "(\<And>path. keeps_env (g path)) \<Longrightarrow> act_keeps (\<lambda>path. calls (g path))"
  unfolding act_keeps_def calls_def on_env_def keeps_env_def by (auto split: prod.splits) (metis snd_conv)

text \<open>
  One reply, and nothing of the tree but the memory to come has changed; the memory that is allocated is
  what it was when the file system leaves it alone.
\<close>

definition taken :: "'s env \<Rightarrow> nat list" where
  \<comment> \<open>the blocks that are allocated; 0 is none\<close>
  "taken e = filter ((\<noteq>) 0) (blocks e)"

definition replied_only :: "'s lib \<Rightarrow> 's run option \<Rightarrow> bool" where
  "replied_only L run \<longleftrightarrow> (\<exists>r L' al. run = Some (Finished L') \<and> is_message r \<and> replies L' = replies L @ [r] \<and>
     tree L' = (tree L)\<lparr>allocs := al\<rparr> \<and> \<not> interruptible L' \<and> dirs L' = dirs L \<and> fsys L' = fsys L \<and>
     (keeps_memory L \<longrightarrow> taken (env L') = taken (env L)))"

lemma reply_simps [simp]:
  "tree (reply r L) = tree L" "env (reply r L) = env L" "interruptible (reply r L) = interruptible L"
  "replies (reply r L) = replies L @ [r]" "dirs (reply r L) = dirs L" "fsys (reply r L) = fsys L"
  "next_dh (reply r L) = next_dh L"
  by (cases "answers L"; simp add: reply_def answer_def)+

lemma prepare_simps [simp]:
  "tree (req_fuse_prepare cx L) = tree L" "interruptible (req_fuse_prepare cx L) = interruptible L"
  "replies (req_fuse_prepare cx L) = replies L" "dirs (req_fuse_prepare cx L) = dirs L"
  "fsys (req_fuse_prepare cx L) = fsys L" "answers (req_fuse_prepare cx L) = answers L"
  "next_dh (req_fuse_prepare cx L) = next_dh L" "blocks (env (req_fuse_prepare cx L)) = blocks (env L)"
  "brk (env (req_fuse_prepare cx L)) = brk (env L)" "taken (env (req_fuse_prepare cx L)) = taken (env L)"
  by (simp_all add: req_fuse_prepare_def taken_def)

lemma replied_only_finish:
  "tree L1 = (tree L)\<lparr>allocs := al\<rparr> \<Longrightarrow> \<not> interruptible L1 \<Longrightarrow> dirs L1 = dirs L \<Longrightarrow> replies L1 = replies L \<Longrightarrow>
   is_message r \<Longrightarrow> fsys L1 = fsys L \<Longrightarrow> (keeps_memory L \<Longrightarrow> taken (env L1) = taken (env L)) \<Longrightarrow>
   replied_only L (finish (reply r L1))"
  by (auto simp: replied_only_def finish_def)

lemma malloc_blocks:
  "malloc n e = (r, e1) \<Longrightarrow> blocks e1 = (case r of None \<Rightarrow> blocks e | Some a \<Rightarrow> a # blocks e)"
  by (auto simp: malloc_def Let_def split: prod.splits if_splits)

lemma path_call_replies:
  assumes "idle (tree L)" "get_node (tree L) ino \<noteq> None" "node_path ino get" "only_env act" "\<not> interruptible L"
    and keep: "keeps_memory L \<Longrightarrow> act_keeps act"
    and k: "\<And>err x L1 al. tree L1 = (tree L)\<lparr>allocs := al\<rparr> \<Longrightarrow> \<not> interruptible L1 \<Longrightarrow> dirs L1 = dirs L \<Longrightarrow>
      replies L1 = replies L \<Longrightarrow> fsys L1 = fsys L \<Longrightarrow> (keeps_memory L \<Longrightarrow> taken (env L1) = taken (env L)) \<Longrightarrow>
      replied_only L (k err x L1)"
  shows "replied_only L (path_call b get j L ino x0 act k)"
proof (cases rule: path_call_idle [OF assms(1-5), of b j x0 k])
  case (1 err al)
  then show ?thesis using assms(5) k by simp
next
  case (2 path L1 err x e al)
  have "blocks e = blocks (env L)" if "keeps_memory L"
    using keep [OF that] 2(2,3) unfolding act_keeps_def by fastforce
  then have "taken e = taken (env L)" if "keeps_memory L" using that by (simp add: taken_def)
  then show ?thesis using 2(4) assms(5) k by simp
qed

lemma replied_prepare [simp]: "replied_only (req_fuse_prepare cx L) run = replied_only L run"
  by (simp add: replied_only_def)

lemma reply_err_simps [simp]:
  "tree (reply_err e L) = tree L" "env (reply_err e L) = env L" "interruptible (reply_err e L) = interruptible L"
  "replies (reply_err e L) = replies L @ [Reply_err (- e)]" "dirs (reply_err e L) = dirs L" "fsys (reply_err e L) = fsys L"
  by (simp_all add: reply_err_def)

lemma replied_only_err:
  "tree L1 = (tree L)\<lparr>allocs := al\<rparr> \<Longrightarrow> \<not> interruptible L1 \<Longrightarrow> dirs L1 = dirs L \<Longrightarrow> replies L1 = replies L \<Longrightarrow>
   fsys L1 = fsys L \<Longrightarrow> (keeps_memory L \<Longrightarrow> taken (env L1) = taken (env L)) \<Longrightarrow>
   replied_only L (finish (reply_err e L1))"
  unfolding reply_err_def by (rule replied_only_finish) simp_all

lemma replied_only_if:
  "replied_only L (finish a) \<Longrightarrow> replied_only L (finish b) \<Longrightarrow> replied_only L (finish (if c then a else b))"
  by simp

text \<open>Attribute values: the block for the value is given back on every way out.\<close>

lemma xattr_replies:
  assumes i: "idle (tree L)" "get_node (tree L) ino \<noteq> None" "\<not> interruptible L" and keeps: "\<And>path. keeps_env (call path)"
  shows "replied_only L (xattr_reply j cx L ino sz call)"
proof -
  let ?L = "req_fuse_prepare cx L" and ?get = "\<lambda>i f. get_path i f ino"
  have i': "idle (tree ?L)" "get_node (tree ?L) ino \<noteq> None" "\<not> interruptible ?L" using i by simp_all
  show ?thesis
  proof (cases "sz = 0")
    case True
    have "replied_only ?L (path_call False ?get j ?L ino [] (\<lambda>path. calls (call path))
        (\<lambda>res _ L. finish (if 0 \<le> res then reply (Reply_xattr res) L else reply_err res L)))"
      using i' keeps by (intro path_call_replies replied_only_if replied_only_finish replied_only_err act_keeps_calls) simp_all
    then show ?thesis using True by (simp add: xattr_reply_def Let_def)
  next
    case False
    obtain r e where m: "malloc sz (env ?L) = (r, e)" by (metis surj_pair)
    show ?thesis
    proof (cases r)
      case None
      have "replied_only ?L (finish (reply_err (- ENOMEM) (?L\<lparr>env := e\<rparr>)))"
        by (rule replied_only_err [where al = "allocs (tree L)"]) (use i' m None in \<open>simp_all add: malloc_blocks taken_def\<close>)
      then show ?thesis using False m None by (simp add: xattr_reply_def Let_def)
    next
      case (Some a)
      let ?M = "?L\<lparr>env := e\<rparr>"
      let ?k = "\<lambda>res val L. do { let L2 = (if 0 < res then reply (Reply_buf (in_block a val (nat res) (env L))) L else reply_err res L);
                                 e2 \<leftarrow> free_mem a (env L2); finish (L2\<lparr>env := e2\<rparr>) }"
      have e: "blocks e = a # blocks (env L)" using m Some by (simp add: malloc_blocks)
      then have a: "a \<in> set (blocks e)" by simp
      have done_with: "replied_only L (?k res val M1)"
        if b: "blocks (env M1) = blocks e" and M1: "tree M1 = (tree ?M)\<lparr>allocs := al\<rparr>" "\<not> interruptible M1"
          "dirs M1 = dirs ?M" "replies M1 = replies ?M" "fsys M1 = fsys ?M" for res val M1 al
      proof -
        obtain e2 where e2: "free_mem a (env M1) = Some e2" using a b by (cases "a = 0") (auto simp: free_mem_def)
        then have h: "taken e2 = taken (env L)" using e b by (auto simp: free_mem_def taken_def split: if_splits)
        show ?thesis using M1 e2 h by (auto simp: replied_only_def finish_def Let_def)
      qed
      have iM: "idle (tree ?M)" "get_node (tree ?M) ino \<noteq> None" "\<not> interruptible ?M" using i' by simp_all
      have "replied_only L (path_call False ?get j ?M ino [] (\<lambda>path. calls (call path)) ?k)"
      proof (cases rule: path_call_idle [OF iM(1,2) node_paths(1) only_env_calls [of call] iM(3), where b = False and j = j and ?x0.0 = "[]" and k = ?k])
        case (1 err al)
        show ?thesis unfolding 1(1) by (rule done_with [of _ al]) (use i'(3) in simp_all)
      next
        case (2 path L1 err x e1 al)
        obtain r1 x1 e2 where c: "call path (env L1) = (r1, x1, e2)" by (metis surj_pair)
        have "env (L1\<lparr>env := e1\<rparr>) = env (L1\<lparr>env := e2\<rparr>)" using 2(3) c by (auto simp: calls_def on_env_def Let_def)
        moreover have "blocks e2 = blocks (env L1)" using keeps [of path] c by (metis keeps_env_def snd_conv)
        ultimately have "blocks e1 = blocks e" using 2(2) by simp
        then show ?thesis unfolding 2(4) by (intro done_with [of _ al]) (use i'(3) in simp_all)
      qed
      then show ?thesis using False m Some by (simp add: xattr_reply_def Let_def)
    qed
  qed
qed

lemma statfs_replies:
  assumes i: "idle (tree L)" "get_node (tree L) ino \<noteq> None" "\<not> interruptible L"
  shows "replied_only L (fuse_lib_statfs j cx L ino)"
proof -
  let ?L = "req_fuse_prepare cx L"
  have un: "fuse_finish_interrupt ((fuse_prepare_interrupt ?L)\<lparr>env := e\<rparr>) = ?L\<lparr>env := e\<rparr>" for e
    using i(3) by (cases L) (simp add: fuse_finish_interrupt_def fuse_prepare_interrupt_def req_fuse_prepare_def)
  have "replied_only ?L (fuse_lib_statfs j cx L ino)"
  proof (cases "ino = 0")
    case True
    obtain err x e where c: "fuse_fs_statfs (fsys L) (Some ''/'') zero_statvfs (env (fuse_prepare_interrupt ?L)) = (err, x, e)"
      by (metis surj_pair)
    have e: "taken e = taken (env L)" if "keeps_memory L"
    proof -
      have "blocks (snd (snd (fuse_fs_statfs (fsys L) (Some ''/'') zero_statvfs (env (fuse_prepare_interrupt ?L))))) =
          blocks (env (fuse_prepare_interrupt ?L))"
        using plain_keeps(4) [OF that] unfolding keeps_env_def by blast
      then show ?thesis using c by (simp add: fuse_prepare_interrupt_def taken_def)
    qed
    have "replied_only ?L (finish (if err = 0 then reply (Reply_statfs x) (?L\<lparr>env := e\<rparr>) else reply_err err (?L\<lparr>env := e\<rparr>)))"
      by (intro replied_only_if replied_only_finish [where al = "allocs (tree L)"] replied_only_err [where al = "allocs (tree L)"])
        (use i e in simp_all)
    then show ?thesis using True c un
      by (cases "err = 0") (simp_all add: fuse_lib_statfs_def calls_def on_env_def Let_def)
  next
    case False
    have "replied_only ?L (path_call False (\<lambda>i f. get_path i f ino) j ?L ino zero_statvfs
        (\<lambda>path. calls (fuse_fs_statfs (fsys L) (if path = None then Some ''/'' else path) zero_statvfs))
        (\<lambda>err buf L. finish (if err = 0 then reply (Reply_statfs buf) L else reply_err err L)))"
      using i by (intro path_call_replies replied_only_if replied_only_finish replied_only_err) simp_all
    then show ?thesis using False by (simp add: fuse_lib_statfs_def Let_def)
  qed
  then show ?thesis by simp
qed

lemma plain_replies:
  assumes i: "idle (tree L)" "get_node (tree L) ino \<noteq> None" "\<not> interruptible L" and keep: "xattr_ops_keep (fs_op (fsys L))"
  shows "replied_only L (serve_plain j cx L ino req)"
proof -
  let ?L = "req_fuse_prepare cx L"
  have i': "idle (tree ?L)" "get_node (tree ?L) ino \<noteq> None" "\<not> interruptible ?L" using i by simp_all
  note go = path_call_replies [OF i'(1,2) _ _ i'(3)] replied_only_if replied_only_finish replied_only_err
  have "replied_only ?L (serve_plain j cx L ino req)"
  proof (cases req)
    case (Access msk)
    then show ?thesis unfolding Access serve_plain.simps fuse_lib_access_def by (intro go) simp_all
  next
    case Readlink
    then show ?thesis unfolding Readlink serve_plain.simps fuse_lib_readlink_def by (intro go) simp_all
  next
    case (Fsync d fi)
    then show ?thesis unfolding Fsync serve_plain.simps fuse_lib_fsync_def by (intro go) simp_all
  next
    case (Statfs)
    then show ?thesis using statfs_replies [OF i] by simp
  next
    case (Setxattr nm val flags)
    then show ?thesis unfolding Setxattr serve_plain.simps fuse_lib_setxattr_def by (intro go) simp_all
  next
    case (Getxattr nm sz)
    have "keeps_env (fuse_fs_getxattr (fsys L) path nm sz)" for path
      unfolding fuse_fs_getxattr_def using keep by (intro keeps_call_op) (simp add: xattr_ops_keep_def)
    then show ?thesis using xattr_replies [OF i] Getxattr by (simp add: fuse_lib_getxattr_def)
  next
    case (Listxattr sz)
    have "keeps_env (fuse_fs_listxattr (fsys L) path sz)" for path
      unfolding fuse_fs_listxattr_def using keep by (intro keeps_call_op) (simp add: xattr_ops_keep_def)
    then show ?thesis using xattr_replies [OF i] Listxattr by (simp add: fuse_lib_listxattr_def)
  next
    case (Removexattr nm)
    then show ?thesis unfolding Removexattr serve_plain.simps fuse_lib_removexattr_def by (intro go) simp_all
  next
    case (Flock fi lop)
    then show ?thesis unfolding Flock serve_plain.simps fuse_lib_flock_def by (intro go) simp_all
  next
    case (Bmap b idx)
    then show ?thesis unfolding Bmap serve_plain.simps fuse_lib_bmap_def by (intro go) simp_all
  next
    case (Poll fi ph)
    show ?thesis unfolding Poll serve_plain.simps fuse_lib_poll_def
      by (rule path_call_replies [OF i'(1,2) _ _ i'(3)])
        (auto split: prod.split intro!: replied_only_if replied_only_finish replied_only_err)
  next
    case (Fallocate mode off len fi)
    then show ?thesis unfolding Fallocate serve_plain.simps fuse_lib_fallocate_def by (intro go) simp_all
  next
    case (Lseek off whence fi)
    then show ?thesis unfolding Lseek serve_plain.simps fuse_lib_lseek_def by (intro go) simp_all
  qed
  then show ?thesis by simp
qed

section \<open>Property\<close>

definition demo_lib :: "fuse \<Rightarrow> bytes lib" where
  "demo_lib f = \<lparr>tree = f, fsys = demo_fs, env = demo_data, dirs = (\<lambda>_. None), next_dh = 1, interruptible = False,
     replies = [], answers = []\<rparr>"

lemma demo_lib_simps [simp]:
  "tree (demo_lib f) = f" "fsys (demo_lib f) = demo_fs" "env (demo_lib f) = demo_data" "\<not> interruptible (demo_lib f)"
  "replies (demo_lib f) = []" "dirs (demo_lib f) = (\<lambda>_. None)"
  by (simp_all add: demo_lib_def)

lemma demo_xattr: "xattr_ops_keep (fs_op demo_fs)"
  by (simp add: xattr_ops_keep_def demo_fs_def no_ops_def)

text \<open>
  C22. A request that leaves the tree to the file system (access, readlink, fsync, statfs, the extended
  attributes, flock, bmap, poll, fallocate, lseek), for a number the library knows and with no path
  locked and nobody waiting, is carried to its end: the handler neither aborts nor waits, whatever the
  memory allocations answer and whatever the file system returns; it sends exactly one reply, it gives back every lock it
  took on the way to the root, so that the tree is what it was, and the request can no longer be
  interrupted.
\<close>
theorem plain_requests_replied:
  assumes "idle (tree L)" "get_node (tree L) ino \<noteq> None" "\<not> interruptible L" "xattr_ops_keep (fs_op (fsys L))"
  shows "\<exists>r L' al. serve_plain j cx L ino req = Some (Finished L') \<and> replies L' = replies L @ [r] \<and>
           tree L' = (tree L)\<lparr>allocs := al\<rparr> \<and> \<not> interruptible L' \<and> dirs L' = dirs L"
  using plain_replies [OF assms, of j cx req] unfolding replied_only_def by blast

theorem plain_requests_replied_witness:
  "\<exists>(L :: bytes lib) L' r. fsys L = demo_fs \<and> serve_plain 1 no_context L FUSE_ROOT_ID (Getxattr ''user.x'' 64) = Some (Finished L') \<and>
     replies L' = [r] \<and> (\<exists>al. tree L' = (tree L)\<lparr>allocs := al\<rparr>)"
proof -
  obtain e where q: "idle (quiet_a 0)" "get_node (quiet_a 0) FUSE_ROOT_ID = Some e" by (rule quiet_a_facts [of 0]) blast
  let ?L = "demo_lib (quiet_a 0)"
  obtain r L' al where "serve_plain 1 no_context ?L FUSE_ROOT_ID (Getxattr ''user.x'' 64) = Some (Finished L')" "replies L' = [r]"
      "tree L' = (tree ?L)\<lparr>allocs := al\<rparr>"
    using plain_requests_replied [of ?L FUSE_ROOT_ID 1 no_context "Getxattr ''user.x'' 64"] q demo_xattr by auto
  moreover have "fsys ?L = demo_fs" by simp
  ultimately show ?thesis by blast
qed

end
