(* ===== verification/Wire.thy ===== *)
theory Wire
  imports Dirs
begin

text \<open>
  The messages of the kernel interface, \<open>.deps/libfuse3-3.16.2/include/fuse_kernel.h\<close>: reading a
  field at an offset of a message, and the byte layout of its structures.

  A message is a list of bytes, numbers are little-endian.  The code casts a pointer into the message
  to a structure and reads single fields; here a field is read with \<open>u32_at\<close> or \<open>u64_at\<close> at its
  offset.  A read behind the end of the message is \<open>None\<close>.
\<close>

section \<open>Numbers and names\<close>

fun le_num :: "bytes \<Rightarrow> nat" where
  "le_num [] = 0"
| "le_num (b # bs) = unat b + 256 * le_num bs"

definition char_of_byte :: "8 word \<Rightarrow> char" where
  "char_of_byte b = char_of (unat b)"

definition u32_at :: "bytes \<Rightarrow> nat \<Rightarrow> u32 option" where
  "u32_at m off = (if off + 4 \<le> length m then Some (of_nat (le_num (take 4 (drop off m)))) else None)"

definition u64_at :: "bytes \<Rightarrow> nat \<Rightarrow> u64 option" where
  "u64_at m off = (if off + 8 \<le> length m then Some (of_nat (le_num (take 8 (drop off m)))) else None)"

definition cstr_at :: "bytes \<Rightarrow> nat \<Rightarrow> string option" where
  \<comment> \<open>a pointer used as a string: the bytes up to the first NUL, which has to be in the message\<close>
  "cstr_at m off =
     (if 0 \<in> set (drop off m) then Some (map char_of_byte (takeWhile (\<lambda>b. b \<noteq> 0) (drop off m))) else None)"

definition bytes_at :: "bytes \<Rightarrow> nat \<Rightarrow> nat \<Rightarrow> bytes option" where
  "bytes_at m off n = (if off + n \<le> length m then Some (take n (drop off m)) else None)"

definition w32 :: "u32 \<Rightarrow> bytes" where
  "w32 x = le_bytes 4 (unat x)"

definition w64 :: "u64 \<Rightarrow> bytes" where
  "w64 x = le_bytes 8 (unat x)"

definition i32 :: "int \<Rightarrow> bytes" where
  "i32 x = w32 (of_int x)"

definition i64 :: "int \<Rightarrow> bytes" where
  "i64 x = w64 (of_int x)"

definition cstr_bytes :: "string \<Rightarrow> bytes" where
  "cstr_bytes s = name_bytes s @ [0]"

section \<open>Reading back what was written\<close>

lemma le_bytes_length [simp]: "length (le_bytes k n) = k"
  by (simp add: le_bytes_def)

lemma le_bytes_0: "le_bytes 0 n = []"
  by (simp add: le_bytes_def)

lemma le_bytes_Suc: "le_bytes (Suc k) n = of_nat (n mod 256) # le_bytes k (n div 256)"
  by (simp add: le_bytes_def upt_conv_Cons map_Suc_upt [symmetric] div_mult2_eq [symmetric] mult.commute
      del: upt_Suc map_Suc_upt)

lemma le_num_bytes: "le_num (le_bytes k n) = n mod 256 ^ k"
proof (induction k arbitrary: n)
  case (Suc k)
  have "unat (of_nat (n mod 256) :: 8 word) = n mod 256" by (simp add: unat_of_nat)
  then show ?case using Suc.IH [of "n div 256"] by (simp add: le_bytes_Suc mod_mult2_eq)
qed (simp add: le_bytes_0)

lemma char_of_byte_of_char [simp]: "char_of_byte (of_char c) = c"
proof -
  have "unat (of_char c :: 8 word) = (of_char c :: nat)" by (cases c) (simp add: of_char_def)
  then show ?thesis by (simp add: char_of_byte_def)
qed

lemma of_char_eq_0: "(of_char c :: 8 word) = 0 \<longleftrightarrow> c = NUL"
proof
  assume "(of_char c :: 8 word) = 0"
  then have "c = char_of_byte 0" using char_of_byte_of_char [of c] by simp
  then show "c = NUL" by (simp add: char_of_byte_def char_of_eq_iff)
qed (simp add: of_char_def)

lemma w32_length [simp]: "length (w32 x) = 4" by (simp add: w32_def)

lemma w64_length [simp]: "length (w64 x) = 8" by (simp add: w64_def)

lemma i32_length [simp]: "length (i32 x) = 4" by (simp add: i32_def)

lemma i64_length [simp]: "length (i64 x) = 8" by (simp add: i64_def)

named_theorems wire \<open>reading a field of a message that is given as a sequence of fields\<close>

lemma u32_at_here [wire]: "u32_at (w32 x @ r) 0 = Some x"
  proof -
  have "unat x < 2 ^ 32" using unsigned_less [of x, where 'a = nat] by simp
  then show ?thesis by (simp add: u32_at_def w32_def le_num_bytes)
qed

lemma u64_at_here [wire]: "u64_at (w64 x @ r) 0 = Some x"
  proof -
  have "unat x < 2 ^ 64" using unsigned_less [of x, where 'a = nat] by simp
  then show ?thesis by (simp add: u64_at_def w64_def le_num_bytes)
qed

lemma u32_at_end [wire]: "u32_at (w32 x) 0 = Some x"
  using u32_at_here [of x "[]"] by simp

lemma u64_at_end [wire]: "u64_at (w64 x) 0 = Some x"
  using u64_at_here [of x "[]"] by simp

lemma u32_at_skip: "length a \<le> off \<Longrightarrow> u32_at (a @ r) off = u32_at r (off - length a)"
  by (simp add: u32_at_def) auto

lemma u64_at_skip: "length a \<le> off \<Longrightarrow> u64_at (a @ r) off = u64_at r (off - length a)"
  by (simp add: u64_at_def) auto

lemma cstr_at_skip: "length a \<le> off \<Longrightarrow> cstr_at (a @ r) off = cstr_at r (off - length a)"
  by (simp add: cstr_at_def)

lemma bytes_at_skip: "length a \<le> off \<Longrightarrow> bytes_at (a @ r) off n = bytes_at r (off - length a) n"
  by (simp add: bytes_at_def) auto

lemma skip_32 [wire]:
  "4 \<le> off \<Longrightarrow> u32_at (w32 x @ r) off = u32_at r (off - 4)"
  "4 \<le> off \<Longrightarrow> u64_at (w32 x @ r) off = u64_at r (off - 4)"
  "4 \<le> off \<Longrightarrow> cstr_at (w32 x @ r) off = cstr_at r (off - 4)"
  "4 \<le> off \<Longrightarrow> bytes_at (w32 x @ r) off n = bytes_at r (off - 4) n"
  by (simp_all add: u32_at_skip u64_at_skip cstr_at_skip bytes_at_skip)

lemma skip_64 [wire]:
  "8 \<le> off \<Longrightarrow> u32_at (w64 x @ r) off = u32_at r (off - 8)"
  "8 \<le> off \<Longrightarrow> u64_at (w64 x @ r) off = u64_at r (off - 8)"
  "8 \<le> off \<Longrightarrow> cstr_at (w64 x @ r) off = cstr_at r (off - 8)"
  "8 \<le> off \<Longrightarrow> bytes_at (w64 x @ r) off n = bytes_at r (off - 8) n"
  by (simp_all add: u32_at_skip u64_at_skip cstr_at_skip bytes_at_skip)

lemma cstr_bytes_length [simp]: "length (cstr_bytes s) = Suc (length s)"
  by (simp add: cstr_bytes_def name_bytes_def)

lemma cstr_at_here:
  assumes "c_str s"
  shows "cstr_at (cstr_bytes s @ r) 0 = Some s"
proof -
  have "takeWhile (\<lambda>b. b \<noteq> 0) (cstr_bytes s @ r) = name_bytes s"
    using assms unfolding cstr_bytes_def name_bytes_def c_str_def
    by (induction s) (auto simp: of_char_eq_0)
  moreover have "map char_of_byte (name_bytes s) = s" by (simp add: name_bytes_def comp_def)
  ultimately show ?thesis by (simp add: cstr_at_def cstr_bytes_def)
qed

lemma cstr_at_end: "c_str s \<Longrightarrow> cstr_at (cstr_bytes s) 0 = Some s"
  using cstr_at_here [of s "[]"] by simp

lemma skip_cstr [wire]:
  "length s + 1 \<le> off \<Longrightarrow> cstr_at (cstr_bytes s @ r) off = cstr_at r (off - (length s + 1))"
  "length s + 1 \<le> off \<Longrightarrow> bytes_at (cstr_bytes s @ r) off n = bytes_at r (off - (length s + 1)) n"
  by (simp_all add: cstr_at_skip bytes_at_skip)

lemma bytes_at_here [wire]: "bytes_at (bs @ r) 0 (length bs) = Some bs" "bytes_at bs 0 (length bs) = Some bs"
  by (simp_all add: bytes_at_def)

section \<open>Requests\<close>

text \<open>One definition per structure, over the values the receiver uses; the other fields are 0.\<close>

definition fuse_in_header :: "nat \<Rightarrow> u32 \<Rightarrow> u64 \<Rightarrow> u64 \<Rightarrow> u32 \<Rightarrow> u32 \<Rightarrow> u32 \<Rightarrow> bytes" where
  "fuse_in_header n opc uniq nid uid gid pid =
     w32 (of_nat n) @ w32 opc @ w64 uniq @ w64 nid @ w32 uid @ w32 gid @ w32 pid @ w32 0"

definition fuse_forget_in :: "u64 \<Rightarrow> bytes" where "fuse_forget_in nl = w64 nl"

definition fuse_forget_one :: "u64 \<times> u64 \<Rightarrow> bytes" where "fuse_forget_one p = w64 (fst p) @ w64 (snd p)"

definition fuse_batch_forget_in :: "u32 \<Rightarrow> bytes" where "fuse_batch_forget_in cnt = w32 cnt @ w32 0"

definition fuse_getattr_in :: "u32 \<Rightarrow> u64 \<Rightarrow> bytes" where
  "fuse_getattr_in flags fh = w32 flags @ w32 0 @ w64 fh"

definition fuse_mknod_in :: "u32 \<Rightarrow> u32 \<Rightarrow> u32 \<Rightarrow> bytes" where
  "fuse_mknod_in mode rdev umask = w32 mode @ w32 rdev @ w32 umask @ w32 0"

definition fuse_mkdir_in :: "u32 \<Rightarrow> u32 \<Rightarrow> bytes" where "fuse_mkdir_in mode umask = w32 mode @ w32 umask"

definition fuse_rename_in :: "u64 \<Rightarrow> bytes" where "fuse_rename_in newdir = w64 newdir"

definition fuse_rename2_in :: "u64 \<Rightarrow> u32 \<Rightarrow> bytes" where
  "fuse_rename2_in newdir flags = w64 newdir @ w32 flags @ w32 0"

definition fuse_link_in :: "u64 \<Rightarrow> bytes" where "fuse_link_in oldnodeid = w64 oldnodeid"

definition fuse_setattr_in :: "u32 \<Rightarrow> u64 \<Rightarrow> stat \<Rightarrow> bytes" where
  "fuse_setattr_in valid fh st =
     w32 valid @ w32 0 @ w64 fh @ i64 (st_size st) @ w64 0 @ i64 (tv_sec (st_atim st)) @ i64 (tv_sec (st_mtim st)) @
     i64 (tv_sec (st_ctim st)) @ i32 (tv_nsec (st_atim st)) @ i32 (tv_nsec (st_mtim st)) @ i32 (tv_nsec (st_ctim st)) @
     w32 (st_mode st) @ w32 0 @ i32 (st_uid st) @ i32 (st_gid st) @ w32 0"

definition fuse_open_in :: "u32 \<Rightarrow> bytes" where "fuse_open_in flags = w32 flags @ w32 0"

definition fuse_create_in :: "u32 \<Rightarrow> u32 \<Rightarrow> u32 \<Rightarrow> bytes" where
  "fuse_create_in flags mode umask = w32 flags @ w32 mode @ w32 umask @ w32 0"

definition fuse_release_in :: "u64 \<Rightarrow> u32 \<Rightarrow> u32 \<Rightarrow> u64 \<Rightarrow> bytes" where
  "fuse_release_in fh flags release_flags owner = w64 fh @ w32 flags @ w32 release_flags @ w64 owner"

definition fuse_flush_in :: "u64 \<Rightarrow> u64 \<Rightarrow> bytes" where
  "fuse_flush_in fh owner = w64 fh @ w32 0 @ w32 0 @ w64 owner"

definition fuse_read_in :: "u64 \<Rightarrow> int \<Rightarrow> u32 \<Rightarrow> u64 \<Rightarrow> u32 \<Rightarrow> bytes" where
  "fuse_read_in fh off sz owner flags = w64 fh @ i64 off @ w32 sz @ w32 0 @ w64 owner @ w32 flags @ w32 0"

definition fuse_write_in :: "u64 \<Rightarrow> int \<Rightarrow> u32 \<Rightarrow> u32 \<Rightarrow> u64 \<Rightarrow> u32 \<Rightarrow> bytes" where
  "fuse_write_in fh off sz write_flags owner flags =
     w64 fh @ i64 off @ w32 sz @ w32 write_flags @ w64 owner @ w32 flags @ w32 0"

definition fuse_fsync_in :: "u64 \<Rightarrow> u32 \<Rightarrow> bytes" where "fuse_fsync_in fh flags = w64 fh @ w32 flags @ w32 0"

definition fuse_setxattr_in :: "u32 \<Rightarrow> u32 \<Rightarrow> bytes" where
  "fuse_setxattr_in sz flags = w32 sz @ w32 flags @ w32 0 @ w32 0"

definition fuse_getxattr_in :: "u32 \<Rightarrow> bytes" where "fuse_getxattr_in sz = w32 sz @ w32 0"

definition fuse_file_lock :: "u64 \<Rightarrow> u64 \<Rightarrow> u32 \<Rightarrow> u32 \<Rightarrow> bytes" where
  "fuse_file_lock start end typ pid = w64 start @ w64 end @ w32 typ @ w32 pid"

definition fuse_lk_in :: "u64 \<Rightarrow> u64 \<Rightarrow> bytes \<Rightarrow> u32 \<Rightarrow> bytes" where
  "fuse_lk_in fh owner lk flags = w64 fh @ w64 owner @ lk @ w32 flags @ w32 0"

definition fuse_access_in :: "u32 \<Rightarrow> bytes" where "fuse_access_in msk = w32 msk @ w32 0"

definition fuse_init_in :: "u32 \<Rightarrow> u32 \<Rightarrow> u32 \<Rightarrow> u32 \<Rightarrow> u32 \<Rightarrow> bytes" where
  "fuse_init_in major minor readahead flags flags2 =
     w32 major @ w32 minor @ w32 readahead @ w32 flags @ w32 flags2 @ replicate 44 0"

definition fuse_interrupt_in :: "u64 \<Rightarrow> bytes" where "fuse_interrupt_in uniq = w64 uniq"

definition fuse_bmap_in :: "u64 \<Rightarrow> u32 \<Rightarrow> bytes" where
  "fuse_bmap_in block blocksize = w64 block @ w32 blocksize @ w32 0"

definition fuse_ioctl_in :: "u64 \<Rightarrow> u32 \<Rightarrow> u32 \<Rightarrow> u64 \<Rightarrow> u32 \<Rightarrow> u32 \<Rightarrow> bytes" where
  "fuse_ioctl_in fh flags cmd arg in_size out_size =
     w64 fh @ w32 flags @ w32 cmd @ w64 arg @ w32 in_size @ w32 out_size"

definition fuse_poll_in :: "u64 \<Rightarrow> u64 \<Rightarrow> u32 \<Rightarrow> u32 \<Rightarrow> bytes" where
  "fuse_poll_in fh kh flags events = w64 fh @ w64 kh @ w32 flags @ w32 events"

definition fuse_fallocate_in :: "u64 \<Rightarrow> int \<Rightarrow> int \<Rightarrow> int \<Rightarrow> bytes" where
  "fuse_fallocate_in fh off n mode = w64 fh @ i64 off @ i64 n @ i32 mode @ w32 0"

definition fuse_lseek_in :: "u64 \<Rightarrow> int \<Rightarrow> int \<Rightarrow> bytes" where
  "fuse_lseek_in fh off whence = w64 fh @ i64 off @ i32 whence @ w32 0"

definition fuse_copy_file_range_in :: "u64 \<Rightarrow> int \<Rightarrow> u64 \<Rightarrow> u64 \<Rightarrow> int \<Rightarrow> u64 \<Rightarrow> u64 \<Rightarrow> bytes" where
  "fuse_copy_file_range_in fh_in off_in nodeid_out fh_out off_out n flags =
     w64 fh_in @ i64 off_in @ w64 nodeid_out @ w64 fh_out @ i64 off_out @ w64 n @ w64 flags"

definition fuse_notify_retrieve_in :: "u64 \<Rightarrow> u32 \<Rightarrow> bytes" where
  "fuse_notify_retrieve_in off sz = w64 0 @ w64 off @ w32 sz @ w32 0 @ w64 0 @ w64 0"

section \<open>Replies and notifications\<close>

definition fuse_out_header :: "u32 \<Rightarrow> int \<Rightarrow> u64 \<Rightarrow> bytes" where
  "fuse_out_header n err uniq = w32 n @ i32 err @ w64 uniq"

definition fuse_open_out :: "u64 \<Rightarrow> u32 \<Rightarrow> bytes" where "fuse_open_out fh flags = w64 fh @ w32 flags @ w32 0"

definition fuse_attr_out :: "rat \<Rightarrow> stat \<Rightarrow> bytes" where
  "fuse_attr_out timeout st =
     le_bytes 8 (calc_timeout_sec timeout) @ le_bytes 4 (calc_timeout_nsec timeout) @ w32 0 @ attr_bytes st"

definition fuse_write_out :: "u32 \<Rightarrow> bytes" where "fuse_write_out sz = w32 sz @ w32 0"

definition fuse_kstatfs :: "statvfs \<Rightarrow> bytes" where
  \<comment> \<open>\<open>convert_statfs\<close>\<close>
  "fuse_kstatfs st =
     le_bytes 8 (f_blocks st) @ le_bytes 8 (f_bfree st) @ le_bytes 8 (f_bavail st) @ le_bytes 8 (f_files st) @
     le_bytes 8 (f_ffree st) @ le_bytes 4 (f_bsize st) @ le_bytes 4 (f_namemax st) @ le_bytes 4 (f_frsize st) @
     w32 0 @ replicate 24 0"

definition fuse_getxattr_out :: "u32 \<Rightarrow> bytes" where "fuse_getxattr_out sz = w32 sz @ w32 0"

definition fuse_bmap_out :: "u64 \<Rightarrow> bytes" where "fuse_bmap_out block = w64 block"

definition fuse_ioctl_out :: "int \<Rightarrow> u32 \<Rightarrow> nat \<Rightarrow> nat \<Rightarrow> bytes" where
  "fuse_ioctl_out result flags in_iovs out_iovs = i32 result @ w32 flags @ le_bytes 4 in_iovs @ le_bytes 4 out_iovs"

definition fuse_poll_out :: "u32 \<Rightarrow> bytes" where "fuse_poll_out revents = w32 revents @ w32 0"

definition fuse_lseek_out :: "int \<Rightarrow> bytes" where "fuse_lseek_out off = i64 off"

definition fuse_init_out :: "u32 \<Rightarrow> u32 \<Rightarrow> u32 \<Rightarrow> u32 \<Rightarrow> nat \<Rightarrow> nat \<Rightarrow> u32 \<Rightarrow> u32 \<Rightarrow> nat \<Rightarrow> u32 \<Rightarrow> bytes" where
  "fuse_init_out major minor readahead flags background congestion maxwrite gran max_pages flags2 =
     w32 major @ w32 minor @ w32 readahead @ w32 flags @ le_bytes 2 background @ le_bytes 2 congestion @
     w32 maxwrite @ w32 gran @ le_bytes 2 max_pages @ le_bytes 2 0 @ w32 flags2 @ replicate 28 0"

definition fuse_notify_poll_wakeup_out :: "u64 \<Rightarrow> bytes" where "fuse_notify_poll_wakeup_out kh = w64 kh"

definition fuse_notify_inval_inode_out :: "u64 \<Rightarrow> int \<Rightarrow> int \<Rightarrow> bytes" where
  "fuse_notify_inval_inode_out ino off n = w64 ino @ i64 off @ i64 n"

definition fuse_notify_inval_entry_out :: "u64 \<Rightarrow> nat \<Rightarrow> u32 \<Rightarrow> bytes" where
  "fuse_notify_inval_entry_out parnt namelen flags = w64 parnt @ le_bytes 4 namelen @ w32 flags"

definition fuse_notify_delete_out :: "u64 \<Rightarrow> u64 \<Rightarrow> nat \<Rightarrow> bytes" where
  "fuse_notify_delete_out parnt child namelen = w64 parnt @ w64 child @ le_bytes 4 namelen @ w32 0"

definition fuse_notify_store_out :: "u64 \<Rightarrow> int \<Rightarrow> nat \<Rightarrow> bytes" where
  "fuse_notify_store_out nid off sz = w64 nid @ i64 off @ le_bytes 4 sz @ w32 0"

definition fuse_notify_retrieve_out :: "u64 \<Rightarrow> u64 \<Rightarrow> int \<Rightarrow> nat \<Rightarrow> bytes" where
  "fuse_notify_retrieve_out uniq nid off sz = w64 uniq @ w64 nid @ i64 off @ le_bytes 4 sz @ w32 0"

end
