(* ===== verification/Listing.thy ===== *)
theory Listing
  imports Requests Wire
begin

text \<open>
  Reading a directory from the list of its entries: what a page holds, that the bytes of a page read
  back as the entries they were made of, and that reading page after page gives every entry once.
\<close>

section \<open>The buffer of the handle\<close>

lemma extend_contents_total:
  obtains (failed) dh1 al1 where "extend_contents dh minsize al = Some (-1, dh1, al1)" "dh_error dh1 = - ENOMEM" "al \<noteq> []"
  | (ok) sz al1 where "extend_contents dh minsize al = Some (0, dh\<lparr>dh_size := sz\<rparr>, al1)" "minsize \<le> sz" "dh_size dh \<le> sz"
      "al = [] \<longrightarrow> al1 = []"
proof (cases "minsize \<le> dh_size dh")
  case True
  have "dh\<lparr>dh_size := dh_size dh\<rparr> = dh" by simp
  then show thesis using True ok [of "dh_size dh" al] by (simp add: extend_contents_def)
next
  case False
  let ?w = "if dh_size dh = 0 then 1024 else dh_size dh"
  have "0 < unat ?w" by (auto simp: unat_gt_0)
  moreover have "unat minsize \<le> MAX_PATH" using u32_bound [of minsize] by (simp add: MAX_PATH_def)
  ultimately obtain m where m: "grow_size ?w (unat minsize) = Some m" "unat minsize \<le> unat m" "unat ?w \<le> unat m"
    using grow_size_total by blast
  then have le: "minsize \<le> m" "dh_size dh \<le> m" by (auto simp: word_le_nat_alt split: if_splits)
  obtain b al1 where a: "alloc_next al = (b, al1)" by (metis surj_pair)
  then have al: "al = [] \<longrightarrow> b \<and> al1 = []" by auto
  show thesis
  proof (cases b)
    case True
    then show thesis using False m(1) a al le ok [of m al1] by (simp add: extend_contents_def)
  next
    case b: False
    then show thesis using False m(1) a al failed by (simp add: extend_contents_def)
  qed
qed

section \<open>Pages\<close>

definition entry_len :: "bool \<Rightarrow> string \<Rightarrow> nat" where
  "entry_len pl nm = FUSE_DIRENT_ALIGN ((if pl then FUSE_NAME_OFFSET_DIRENTPLUS else FUSE_NAME_OFFSET) + length nm)"

definition entry_at :: "bool \<Rightarrow> fuse_direntry \<Rightarrow> int \<Rightarrow> bytes" where
  "entry_at pl de pos =
     padded (entry_len pl (de_name de))
       ((if pl then entry_bytes (zero_entry\<lparr>e_attr := de_stat de\<rparr>) else []) @
        dirent_bytes (st_ino (de_stat de)) pos (st_mode (de_stat de)) (de_name de))"

fun listing :: "bool \<Rightarrow> fuse_direntry list \<Rightarrow> int \<Rightarrow> bytes" where
  "listing pl [] pos = []"
| "listing pl (de # des) pos = entry_at pl de (pos + 1) @ listing pl des (pos + 1)"

lemma align_ge: "n \<le> FUSE_DIRENT_ALIGN n"
  by (simp add: FUSE_DIRENT_ALIGN_def)

lemma align_le: "FUSE_DIRENT_ALIGN n \<le> n + 7"
  by (simp add: FUSE_DIRENT_ALIGN_def)

lemma entry_bytes_length [simp]: "length (entry_bytes e) = 128"
  by (simp add: entry_bytes_def attr_bytes_def)

lemma dirent_bytes_length [simp]: "length (dirent_bytes ino off mode nm) = 24 + length nm"
  by (simp add: dirent_bytes_def name_bytes_def)

lemma padded_length: "length bs \<le> n \<Longrightarrow> length (padded n bs) = n"
  by (simp add: padded_def)

lemma entry_at_length [simp]: "length (entry_at pl de pos) = entry_len pl (de_name de)"
  unfolding entry_at_def
  by (rule padded_length)
    (use align_ge [of "(if pl then FUSE_NAME_OFFSET_DIRENTPLUS else FUSE_NAME_OFFSET) + length (de_name de)"] in
      \<open>auto simp: entry_len_def FUSE_NAME_OFFSET_def FUSE_NAME_OFFSET_DIRENTPLUS_def\<close>)

definition short_names :: "fuse_direntry list \<Rightarrow> bool" where
  "short_names des \<longleftrightarrow> (\<forall>de \<in> set des. length (de_name de) \<le> 1024)"

lemma entry_len_le: "length nm \<le> 1024 \<Longrightarrow> entry_len pl nm \<le> 2000"
  using align_le [of "(if pl then FUSE_NAME_OFFSET_DIRENTPLUS else FUSE_NAME_OFFSET) + length nm"]
  by (auto simp: entry_len_def FUSE_NAME_OFFSET_def FUSE_NAME_OFFSET_DIRENTPLUS_def split: if_splits)

lemma entry_len_gt: "24 \<le> entry_len pl nm" "24 + length nm \<le> entry_len pl nm"
  using align_ge [of "(if pl then FUSE_NAME_OFFSET_DIRENTPLUS else FUSE_NAME_OFFSET) + length nm"]
  by (auto simp: entry_len_def FUSE_NAME_OFFSET_def FUSE_NAME_OFFSET_DIRENTPLUS_def split: if_splits)

lemma add_entry:
  "(if pl then fuse_add_direntry_plus rem (de_name de) (zero_entry\<lparr>e_attr := de_stat de\<rparr>) pos
    else fuse_add_direntry rem (de_name de) (de_stat de) pos) =
   (entry_len pl (de_name de), if rem < entry_len pl (de_name de) then [] else entry_at pl de pos)"
  by (auto simp: fuse_add_direntry_plus_def fuse_add_direntry_def entry_at_def entry_len_def Let_def)

text \<open>A page takes entries as long as they fit; the first that does not fit ends it.\<close>

fun fit :: "bool \<Rightarrow> nat \<Rightarrow> fuse_direntry list \<Rightarrow> nat" where
  "fit pl space [] = 0"
| "fit pl space (de # des) =
     (if entry_len pl (de_name de) \<le> space then Suc (fit pl (space - entry_len pl (de_name de)) des) else 0)"

lemma list_loop_fit:
  assumes "short_names des" "unat needlen \<le> 0x80000000" "length buf \<le> unat needlen"
  shows "list_loop pl needlen des pos buf = buf @ listing pl (take (fit pl (unat needlen - length buf) des) des) pos"
  using assms
proof (induction des arbitrary: pos buf)
  case Nil
  then show ?case by simp
next
  case (Cons de des)
  let ?len = "entry_len pl (de_name de)"
  have len: "?len \<le> 2000" using Cons.prems(1) by (intro entry_len_le) (simp add: short_names_def)
  have b: "length buf < 2 ^ 32" using Cons.prems(2,3) by simp
  then have buf: "unat (of_nat (length buf) :: u32) = length buf" by (simp add: unat_of_nat)
  then have rem: "unat (needlen - of_nat (length buf)) = unat needlen - length buf"
    using Cons.prems(3) by (simp add: unat_sub word_le_nat_alt)
  have new: "unat (of_nat (length buf) + of_nat ?len :: u32) = length buf + ?len"
    using Cons.prems(2,3) len by (simp add: unat_word_ariths unat_of_nat)
  show ?case
  proof (cases "?len \<le> unat needlen - length buf")
    case True
    have "list_loop pl needlen (de # des) pos buf = list_loop pl needlen des (pos + 1) (buf @ entry_at pl de (pos + 1))"
      using True le_diff_conv2 [OF Cons.prems(3), of ?len] new rem
      by (auto simp: add_entry word_less_nat_alt Let_def)
    also have "\<dots> = (buf @ entry_at pl de (pos + 1)) @
        listing pl (take (fit pl (unat needlen - length (buf @ entry_at pl de (pos + 1))) des) des) (pos + 1)"
      using True Cons.prems by (intro Cons.IH) (simp_all add: short_names_def)
    finally show ?thesis using True by (simp add: diff_diff_left)
  next
    case False
    then have "unat needlen < length buf + ?len" using Cons.prems(3) by linarith
    then show ?thesis using False new rem by (simp add: add_entry word_less_nat_alt Let_def)
  qed
qed

lemma fit_le: "fit pl space des \<le> length des"
  by (induction des arbitrary: space) auto

lemma listing_length: "length (listing pl des pos) = (\<Sum>de \<leftarrow> des. entry_len pl (de_name de))"
  by (induction des arbitrary: pos) auto

lemma fit_fits: "(\<Sum>de \<leftarrow> take (fit pl space des) des. entry_len pl (de_name de)) \<le> space"
proof (induction des arbitrary: space)
  case (Cons de des)
  show ?case using Cons.IH [of "space - entry_len pl (de_name de)"] by (auto simp: le_diff_conv2)
qed simp

lemma fit_maximal:
  "fit pl space des < length des \<Longrightarrow> space < (\<Sum>de \<leftarrow> take (Suc (fit pl space des)) des. entry_len pl (de_name de))"
proof (induction des arbitrary: space)
  case (Cons de des)
  show ?case using Cons.prems Cons.IH [of "space - entry_len pl (de_name de)"] by (auto split: if_splits)
qed simp

lemma list_page:
  assumes "short_names (dh_first dh)" "unat (dh_needlen dh) \<le> 0x80000000" "0 \<le> off"
  obtains (failed) dh1 al1 where "readdir_fill_from_list dh off flags al = Some (- ENOMEM, dh1, al1)" "al \<noteq> []"
  | (page) sz al1 where "readdir_fill_from_list dh off flags al = Some (0, dh\<lparr>dh_size := sz, dh_contents :=
      (let rest = drop (nat off) (dh_first dh); pl = has_bit flags FUSE_READDIR_PLUS in
       listing pl (take (fit pl (unat (dh_needlen dh)) rest) rest) off)\<rparr>, al1)"
    "dh_needlen dh \<le> sz" "al = [] \<longrightarrow> al1 = []"
proof (cases rule: extend_contents_total [of "dh\<lparr>dh_contents := []\<rparr>" "dh_needlen dh" al])
  case (failed dh1 al1)
  then show thesis using that(1) by (simp add: readdir_fill_from_list_def)
next
  case (ok sz al1)
  let ?pl = "has_bit flags FUSE_READDIR_PLUS" and ?rest = "drop (nat off) (dh_first dh)"
  have drop: "drop (min (nat off) (length (dh_first dh))) (dh_first dh) = ?rest" by (simp add: min_def)
  have sn: "short_names ?rest" using assms(1) by (auto simp: short_names_def dest: in_set_dropD)
  have "list_loop ?pl (dh_needlen dh) ?rest pos [] = listing ?pl (take (fit ?pl (unat (dh_needlen dh)) ?rest) ?rest) pos" for pos
    using list_loop_fit [OF sn assms(2), of "[]"] by simp
  moreover have "listing ?pl (take k ?rest) (int (min (nat off) (length (dh_first dh)))) = listing ?pl (take k ?rest) off" for k
    using assms(3) by (cases "nat off \<le> length (dh_first dh)") (simp_all add: min_def)
  ultimately have "readdir_fill_from_list dh off flags al = Some (0, dh\<lparr>dh_size := sz, dh_contents :=
      listing ?pl (take (fit ?pl (unat (dh_needlen dh)) ?rest) ?rest) off\<rparr>, al1)"
    using ok drop by (simp add: readdir_fill_from_list_def)
  then show thesis using ok(2,4) that(2) by (simp add: Let_def)
qed

section \<open>Reading the bytes of a page\<close>

text \<open>What a client of the kernel interface reads: number, offset of the next entry, type and name.\<close>

type_synonym dirent = "nat \<times> nat \<times> nat \<times> string"

function parse_dirents :: "bytes \<Rightarrow> dirent list" where
  "parse_dirents bs =
     (let namelen = le_num (take 4 (drop 16 bs)); reclen = FUSE_DIRENT_ALIGN (FUSE_NAME_OFFSET + namelen) in
      if length bs < FUSE_NAME_OFFSET \<or> length bs < reclen then []
      else (le_num (take 8 bs), le_num (take 8 (drop 8 bs)), le_num (take 4 (drop 20 bs)),
            map char_of_byte (take namelen (drop FUSE_NAME_OFFSET bs))) # parse_dirents (drop reclen bs))"
  by auto
termination
proof (relation "measure length")
  show "wf (measure (length :: bytes \<Rightarrow> nat))" by simp
next
  fix bs :: bytes and namelen reclen
  assume "reclen = FUSE_DIRENT_ALIGN (FUSE_NAME_OFFSET + namelen)" "\<not> (length bs < FUSE_NAME_OFFSET \<or> length bs < reclen)"
  moreover have "24 \<le> FUSE_DIRENT_ALIGN (FUSE_NAME_OFFSET + namelen)"
    by (rule order_trans [OF _ align_ge]) (simp add: FUSE_NAME_OFFSET_def)
  ultimately have "24 \<le> reclen" "reclen \<le> length bs" by auto
  then show "(drop reclen bs, bs) \<in> measure length" by simp
qed

declare parse_dirents.simps [simp del]

definition seen :: "fuse_direntry \<Rightarrow> nat \<Rightarrow> dirent" where
  "seen de pos = (unat (st_ino (de_stat de)), pos, unat (drop_bit 12 (and (st_mode (de_stat de)) S_IFMT)), de_name de)"

lemma map_char_of_byte: "map char_of_byte (name_bytes nm) = nm"
  by (simp add: name_bytes_def comp_def char_of_byte_of_char)

lemma take_padded: "n \<le> length bs \<Longrightarrow> take n (padded m bs) = take n bs"
  by (simp add: padded_def)

lemma parse_step:
  assumes "le_num (take 4 (drop 16 bs)) = n" "le_num (take 8 bs) = ino" "le_num (take 8 (drop 8 bs)) = pos"
    "le_num (take 4 (drop 20 bs)) = typ" "take n (drop FUSE_NAME_OFFSET bs) = nm" "FUSE_NAME_OFFSET \<le> length bs"
    "FUSE_DIRENT_ALIGN (FUSE_NAME_OFFSET + n) \<le> length bs"
  shows "parse_dirents bs = (ino, pos, typ, map char_of_byte nm) # parse_dirents (drop (FUSE_DIRENT_ALIGN (FUSE_NAME_OFFSET + n)) bs)"
  by (subst parse_dirents.simps) (use assms in \<open>simp add: Let_def\<close>)

lemma parse_entry:
  assumes "pos < 2 ^ 64" "length (de_name de) \<le> 1024"
  shows "parse_dirents (entry_at False de (int pos) @ rest) = seen de pos # parse_dirents rest"
proof -
  let ?nm = "de_name de" and ?e = "entry_at False de (int pos)"
  let ?head = "le_bytes 8 (unat (st_ino (de_stat de))) @ le_bytes 8 pos @ le_bytes 4 (length ?nm) @
     le_bytes 4 (unat (drop_bit 12 (and (st_mode (de_stat de)) S_IFMT)))"
  have "nat (int pos mod 2 ^ 64) = pos" using assms(1) by simp
  then obtain pad where e: "?e = ?head @ name_bytes ?nm @ pad" by (simp add: entry_at_def padded_def dirent_bytes_def)
  have len: "length ?e = FUSE_DIRENT_ALIGN (FUSE_NAME_OFFSET + length ?nm)" by (simp add: entry_len_def)
  have nl: "length (name_bytes ?nm) = length ?nm" by (simp add: name_bytes_def)
  have u64: "unat (st_ino (de_stat de)) < 256 ^ 8"
    by (rule order_less_le_trans [OF unsigned_less]) simp
  have u32: "unat (drop_bit 12 (and (st_mode (de_stat de)) S_IFMT)) < 256 ^ 4"
    by (rule order_less_le_trans [OF unsigned_less]) simp
  have size: "FUSE_DIRENT_ALIGN (FUSE_NAME_OFFSET + length ?nm) \<le> length (?e @ rest)" using len by simp
  have "parse_dirents (?e @ rest) = (unat (st_ino (de_stat de)), pos, unat (drop_bit 12 (and (st_mode (de_stat de)) S_IFMT)),
      map char_of_byte (name_bytes ?nm)) # parse_dirents (drop (FUSE_DIRENT_ALIGN (FUSE_NAME_OFFSET + length ?nm)) (?e @ rest))"
  proof (rule parse_step [OF _ _ _ _ _ _ size])
    show "le_num (take 4 (drop 16 (?e @ rest))) = length ?nm" using assms(2) by (simp add: e le_num_bytes)
    show "le_num (take 8 (?e @ rest)) = unat (st_ino (de_stat de))" using u64 by (simp add: e le_num_bytes)
    show "le_num (take 8 (drop 8 (?e @ rest))) = pos" using assms(1) by (simp add: e le_num_bytes)
    show "le_num (take 4 (drop 20 (?e @ rest))) = unat (drop_bit 12 (and (st_mode (de_stat de)) S_IFMT))"
      using u32 by (simp add: e le_num_bytes)
    show "take (length ?nm) (drop FUSE_NAME_OFFSET (?e @ rest)) = name_bytes ?nm"
      using nl by (simp add: e FUSE_NAME_OFFSET_def)
    show "FUSE_NAME_OFFSET \<le> length (?e @ rest)" using size align_ge [of "FUSE_NAME_OFFSET + length ?nm"] by simp
  qed
  moreover have "drop (FUSE_DIRENT_ALIGN (FUSE_NAME_OFFSET + length ?nm)) (?e @ rest) = rest" using len by simp
  ultimately show ?thesis by (simp add: seen_def map_char_of_byte)
qed

lemma parse_listing:
  assumes "short_names des" "pos + length des < 2 ^ 64"
  shows "parse_dirents (listing False des (int pos)) = map2 seen des [Suc pos ..< Suc (pos + length des)]"
  using assms
proof (induction des arbitrary: pos)
  case Nil
  show ?case by (subst parse_dirents.simps) (simp add: FUSE_NAME_OFFSET_def)
next
  case (Cons de des)
  have "parse_dirents (listing False (de # des) (int pos)) = seen de (Suc pos) # parse_dirents (listing False des (int (Suc pos)))"
    using parse_entry [of "Suc pos" de] Cons.prems by (simp add: short_names_def add.commute)
  also have "parse_dirents (listing False des (int (Suc pos))) = map2 seen des [Suc (Suc pos) ..< Suc (Suc pos + length des)]"
    using Cons.prems by (intro Cons.IH) (simp_all add: short_names_def)
  finally show ?case by (simp add: upt_conv_Cons del: upt_Suc)
qed

section \<open>Reading page after page\<close>

text \<open>A client that asks for pages of \<open>sz\<close> bytes, each from where the last one ended, until one is empty.\<close>

fun read_dir :: "nat \<Rightarrow> 's lib \<Rightarrow> u64 \<Rightarrow> nat \<Rightarrow> nat \<Rightarrow> dirent list option" where
  "read_dir 0 L h sz off = None"
| "read_dir (Suc k) L h sz off =
     (case readdir_reply h sz (int off) 0 L of
        Some (Finished L1) \<Rightarrow>
          (case last (replies L1) of
             Reply_buf bs \<Rightarrow>
               (let es = parse_dirents bs in
                if es = [] then Some [] else map_option ((@) es) (read_dir k L1 h sz (fst (snd (last es)))))
           | _ \<Rightarrow> None)
      | _ \<Rightarrow> None)"

lemma fit_pos: "des \<noteq> [] \<Longrightarrow> \<forall>de \<in> set des. entry_len pl (de_name de) \<le> sz \<Longrightarrow> 0 < fit pl sz des"
  by (cases des) auto

lemma reply_page:
  assumes dh: "dirs L h = Some dh" "dh_filled dh" "short_names (dh_first dh)" and sz: "sz \<le> 0x80000000" and al: "allocs (tree L) = []"
  obtains L1 dh1 where "readdir_reply h sz (int off) 0 L = Some (Finished L1)"
    "last (replies L1) = Reply_buf (let rest = drop off (dh_first dh) in listing False (take (fit False sz rest) rest) (int off))"
    "dirs L1 h = Some dh1" "dh_filled dh1" "dh_first dh1 = dh_first dh" "allocs (tree L1) = []"
proof -
  have size: "unat (of_nat sz :: u32) = sz" using sz by (simp add: unat_of_nat)
  have np: "\<not> has_bit 0 FUSE_READDIR_PLUS" by (simp add: has_bit_def)
  obtain s where r: "readdir_fill_from_list (dh\<lparr>dh_needlen := of_nat sz\<rparr>) (int off) 0 [] =
      Some (0, dh\<lparr>dh_needlen := of_nat sz, dh_size := s, dh_contents :=
        (let rest = drop off (dh_first dh) in listing False (take (fit False sz rest) rest) (int off))\<rparr>, [])"
    by (cases rule: list_page [of "dh\<lparr>dh_needlen := of_nat sz\<rparr>" "int off" 0 "[]"]) (use np dh(3) sz size in auto)
  let ?dh1 = "dh\<lparr>dh_needlen := of_nat sz, dh_size := s, dh_contents :=
      (let rest = drop off (dh_first dh) in listing False (take (fit False sz rest) rest) (int off))\<rparr>"
  show thesis
    by (rule that [of "reply (Reply_buf (dh_contents ?dh1)) (set_dh h ?dh1 (L\<lparr>tree := (tree L)\<lparr>allocs := []\<rparr>\<rparr>))" ?dh1])
      (use r dh al in \<open>simp_all add: readdir_reply_def finish_def Let_def set_dh_def\<close>)
qed

lemma read_dir_all:
  assumes des: "short_names des" "\<forall>de \<in> set des. entry_len False (de_name de) \<le> sz" "length des < 2 ^ 63"
    and sz: "sz \<le> 0x80000000"
    and "dirs L h = Some dh" "dh_filled dh" "dh_first dh = des" "allocs (tree L) = []" "length des - off < k" "off \<le> length des"
  shows "read_dir k L h sz off = Some (map2 seen (drop off des) [Suc off ..< Suc (length des)])"
  using assms(5-10)
proof (induction k arbitrary: L dh off)
  case (Suc k)
  let ?rest = "drop off des"
  let ?n = "fit False sz ?rest"
  have sn: "short_names (dh_first dh)" using des(1) Suc.prems(3) by simp
  obtain L1 dh1 where r: "readdir_reply h sz (int off) 0 L = Some (Finished L1)"
      "last (replies L1) = Reply_buf (listing False (take ?n ?rest) (int off))"
      and L1: "dirs L1 h = Some dh1" "dh_filled dh1" "dh_first dh1 = des" "allocs (tree L1) = []"
    by (rule reply_page [OF Suc.prems(1,2) sn sz Suc.prems(4)]) (simp add: Suc.prems(3) Let_def)
  have n: "?n \<le> length des - off" using fit_le [of False sz ?rest] by simp
  have ln: "length (take ?n ?rest) = ?n" using n by simp
  have short: "short_names (take ?n ?rest)" using des(1) by (auto simp: short_names_def dest: in_set_takeD in_set_dropD)
  have es: "parse_dirents (listing False (take ?n ?rest) (int off)) = map2 seen (take ?n ?rest) [Suc off ..< Suc (off + ?n)]"
    using parse_listing [OF short, of off] ln n des(3) Suc.prems(6) by (simp del: upt_Suc)
  show ?case
  proof (cases "off = length des")
    case True
    then show ?thesis using r es by simp
  next
    case False
    have "0 < ?n" using False Suc.prems(6) des(2) by (intro fit_pos) (auto dest: in_set_dropD)
    then obtain m where m: "?n = Suc m" by (cases ?n) auto
    have len: "length (take ?n ?rest) = Suc m" using n m by simp
    have ne: "map2 seen (take ?n ?rest) [Suc off ..< Suc (off + ?n)] \<noteq> []" using len m by (simp del: upt_Suc)
    have "last (map2 seen (take ?n ?rest) [Suc off ..< Suc (off + ?n)]) = seen (take ?n ?rest ! m) (off + ?n)"
      using len m ne by (simp add: last_conv_nth del: upt_Suc)
    then have next_off: "fst (snd (last (map2 seen (take ?n ?rest) [Suc off ..< Suc (off + ?n)]))) = off + ?n"
      by (simp add: seen_def)
    have "read_dir k L1 h sz (off + ?n) = Some (map2 seen (drop (off + ?n) des) [Suc (off + ?n) ..< Suc (length des)])"
      using Suc.prems(5,6) m n by (intro Suc.IH [OF L1]) auto
    then have "read_dir (Suc k) L h sz off = Some (map2 seen (take ?n ?rest) [Suc off ..< Suc (off + ?n)] @
        map2 seen (drop ?n ?rest) [Suc (off + ?n) ..< Suc (length des)])"
      using r es ne next_off by (simp add: Let_def add.commute del: upt_Suc)
    also have "map2 seen (take ?n ?rest) [Suc off ..< Suc (off + ?n)] @ map2 seen (drop ?n ?rest) [Suc (off + ?n) ..< Suc (length des)]
        = map2 seen (take ?n ?rest @ drop ?n ?rest) ([Suc off ..< Suc (off + ?n)] @ [Suc (off + ?n) ..< Suc (length des)])"
      using len m by (subst zip_append) (simp_all del: upt_Suc append_take_drop_id)
    also have "[Suc off ..< Suc (off + ?n)] @ [Suc (off + ?n) ..< Suc (length des)] = [Suc off ..< Suc (length des)]"
      using n Suc.prems(6) upt_add_eq_append [of "Suc off" "Suc (off + ?n)" "length des - (off + ?n)"] by simp
    finally show ?thesis unfolding append_take_drop_id .
  qed
qed simp

section \<open>From the callback to the pages\<close>

text \<open>A \<open>readdir\<close> that hands over its entries without offsets, and stops when the filler says so.\<close>

fun fills :: "(string \<times> stat) list \<Rightarrow> fuse_file_info \<Rightarrow> 's env \<Rightarrow> 's walk" where
  "fills [] fi e = Ends 0 fi e"
| "fills ((nm, st) # es) fi e = Fills nm (Some st) 0 0 (\<lambda>r. if r = 0 then fills es fi e else Ends 0 fi e)"

text \<open>The number shown for an entry when the file system's own are not used.\<close>

definition shown :: "fuse_config \<Rightarrow> string \<times> stat \<Rightarrow> fuse_direntry" where
  "shown c x = \<lparr>de_stat = (if use_ino c then snd x else (snd x)\<lparr>st_ino := FUSE_UNKNOWN_INO\<rparr>), de_name = fst x\<rparr>"

lemma fill_dir_kept:
  assumes "allocs (tree L) = []" "\<not> readdir_ino (conf (tree L))"
  shows "fill_dir nm (Some st) 0 0 (dh, L) =
    Some (0, dh\<lparr>dh_filled := True, dh_first := dh_first dh @ [shown (conf (tree L)) (nm, st)]\<rparr>, L)"
proof -
  have "L\<lparr>tree := (tree L)\<lparr>allocs := []\<rparr>\<rparr> = L" using assms(1) by (cases L, cases "tree L") simp
  then show ?thesis using assms
    by (simp add: fill_dir_def store_entry_def fuse_add_direntry_to_dh_def shown_def Let_def)
qed

lemma run_fills:
  assumes "allocs (tree L) = []" "\<not> readdir_ino (conf (tree L))" "es \<noteq> []"
  shows "run_walk fill_dir (fills es fi e) (dh, L) =
    Some (0, dh\<lparr>dh_filled := True, dh_first := dh_first dh @ map (shown (conf (tree L))) es\<rparr>, L\<lparr>env := e\<rparr>)"
  using assms(3)
proof (induction es arbitrary: dh)
  case (Cons x es)
  obtain nm st where x: "x = (nm, st)" by (cases x)
  show ?case
    using fill_dir_kept [OF assms(1,2), of nm st dh] Cons.IH [of "dh\<lparr>dh_filled := True, dh_first := dh_first dh @ [shown (conf (tree L)) (nm, st)]\<rparr>"] x
    by (cases "es = []") simp_all
qed simp

section \<open>Lookups made for readdirplus\<close>

lemma do_lookup_cached:
  assumes l: "lookup_node (tree L) ino nm = Some (Some p)" and n: "heap (tree L) p = Some n"
  obtains e1 L1 n1 where "do_lookup L ino (Some nm) e = Some (0, e1, L1)" "e_ino e1 = nodeid n"
    "heap (tree L1) p = Some n1" "nlookup n1 = nlookup n + 1" "allocs (tree L1) = allocs (tree L)" "conf (tree L1) = conf (tree L)"
proof -
  let ?f1 = "if lru_enabled (tree L) \<and> nlookup n = 1 then remove_node_lru p (tree L) else tree L"
  let ?n1 = "n\<lparr>refctr := (if nlookup n = 0 then refctr n + 1 else refctr n), nlookup := nlookup n + 1\<rparr>"
  have h: "heap ?f1 = heap (tree L)" by (simp add: remove_node_lru_def)
  have f: "find_node (tree L) ino (Some nm) = Some (Some p, inc_nlookup p ?f1)" using l n by (simp add: find_node_def)
  have k: "heap (inc_nlookup p ?f1) p = Some ?n1" using n h by (simp add: inc_nlookup_def upd_node_def)
  have c: "conf (inc_nlookup p ?f1) = conf (tree L)" "allocs (inc_nlookup p ?f1) = allocs (tree L)"
    by (simp_all add: inc_nlookup_def upd_node_def remove_node_lru_def)
  obtain g where g: "find_node (tree L) ino (Some nm) = Some (Some p, g)" "heap g p = Some ?n1"
      "conf g = conf (tree L)" "allocs g = allocs (tree L)"
    using that f k c by blast
  let ?e = "e\<lparr>e_ino := nodeid n, e_generation := ucast (node_gen n),
              e_entry_timeout := entry_timeout (conf g), e_attr_timeout := attr_timeout (conf g)\<rparr>"
  let ?g1 = "if auto_cache (conf g) then upd_node p (update_stat (curr_time g) (e_attr ?e)) g else g"
  have d: "do_lookup L ino (Some nm) e = Some (0, ?e\<lparr>e_attr := set_stat ?g1 (e_ino ?e) (e_attr ?e)\<rparr>, L\<lparr>tree := ?g1\<rparr>)"
    using g(1,2) by (simp add: do_lookup_def Let_def)
  have s: "nlookup (update_stat tm st m) = nlookup m" for tm st m by (simp add: update_stat_def Let_def)
  let ?m = "if auto_cache (conf g) then update_stat (curr_time g) (e_attr ?e) ?n1 else ?n1"
  have hm: "heap ?g1 p = Some ?m" using g(2) by (simp add: upd_node_def)
  have nl: "nlookup ?m = nlookup n + 1" by (simp add: s)
  have "allocs ?g1 = allocs (tree L)" "conf ?g1 = conf (tree L)" using g(3,4) by (simp_all add: upd_node_def)
  then show thesis by (intro that [OF d _ _ nl]) (use hm in simp_all)
qed

section \<open>Properties\<close>

text \<open>
  C14. Listing a directory: a file system's \<open>readdir\<close> hands over its entries without offsets; a client
  that then asks for page after page of any size in which the longest entry fits, and reads the bytes of each page up to
  the offset of its last entry, sees every entry exactly once, in order, with its number, type and name,
  and comes to an end.
\<close>
theorem directory_listed_once:
  assumes "allocs (tree L) = []" "\<not> readdir_ino (conf (tree L))" "es \<noteq> []" "length es < 2 ^ 63" "sz \<le> 0x80000000"
    and names: "\<forall>(nm, st) \<in> set es. length nm \<le> 1024 \<and> FUSE_DIRENT_ALIGN (FUSE_NAME_OFFSET + length nm) \<le> sz"
  shows "\<exists>dh1 L1. run_walk fill_dir (fills es fi e) (fresh_dh sz dh, L) = Some (0, dh1, L1) \<and>
    read_dir (Suc (length es)) (set_dh h dh1 L1) h sz 0 =
      Some (map2 (\<lambda>x pos. (unat (if use_ino (conf (tree L)) then st_ino (snd x) else FUSE_UNKNOWN_INO), pos,
                           unat (drop_bit 12 (and (st_mode (snd x)) S_IFMT)), fst x)) es [1 ..< Suc (length es)])"
proof -
  let ?c = "conf (tree L)"
  let ?dh1 = "(fresh_dh sz dh)\<lparr>dh_filled := True, dh_first := map (shown ?c) es\<rparr>" and ?L1 = "L\<lparr>env := e\<rparr>"
  have n: "de_name (shown ?c x) = fst x" for x by (simp add: shown_def)
  have "run_walk fill_dir (fills es fi e) (fresh_dh sz dh, L) = Some (0, ?dh1, ?L1)"
    using run_fills [OF assms(1-3), of fi e "fresh_dh sz dh"] by (simp add: fresh_dh_def)
  moreover have "read_dir (Suc (length es)) (set_dh h ?dh1 ?L1) h sz 0
      = Some (map2 seen (drop 0 (map (shown ?c) es)) [Suc 0 ..< Suc (length (map (shown ?c) es))])"
    by (rule read_dir_all [where dh = ?dh1])
      (use assms in \<open>auto simp: set_dh_def short_names_def entry_len_def n\<close>)
  moreover have "map2 seen (map (shown ?c) es) ps = map2 (\<lambda>x pos. seen (shown ?c x) pos) es ps" for ps
    by (simp add: zip_map1 case_prod_unfold comp_def)
  moreover have "seen (shown ?c x) pos = (unat (if use_ino ?c then st_ino (snd x) else FUSE_UNKNOWN_INO), pos,
      unat (drop_bit 12 (and (st_mode (snd x)) S_IFMT)), fst x)" for x pos
    by (simp add: seen_def shown_def)
  ultimately show ?thesis by (simp del: upt_Suc)
qed

theorem directory_listed_once_witness:
  "\<exists>(L :: bytes lib) dh dh1 L1 fi e. run_walk fill_dir (fills [(''a'', zero_stat), (''b'', zero_stat)] fi e) (fresh_dh 50 dh, L) = Some (0, dh1, L1) \<and>
    read_dir 3 (set_dh 1 dh1 L1) 1 50 0 = Some [(0xffffffff, 1, 0, ''a''), (0xffffffff, 2, 0, ''b'')]"
proof -
  let ?f = "(quiet_a 0)\<lparr>conf := (conf (quiet_a 0))\<lparr>use_ino := False, readdir_ino := False\<rparr>, allocs := []\<rparr>"
  let ?es = "[(''a'', zero_stat), (''b'', zero_stat)]"
  have mode: "st_mode zero_stat = 0" by (simp add: zero_stat_def)
  have "\<exists>dh1 L1. run_walk fill_dir (fills ?es zero_fi demo_data) (fresh_dh 50 (new_dh 1), demo_lib ?f) = Some (0, dh1, L1) \<and>
      read_dir 3 (set_dh 1 dh1 L1) 1 50 0 = Some [(0xffffffff, 1, 0, ''a''), (0xffffffff, Suc 1, 0, ''b'')]"
    using directory_listed_once [of "demo_lib ?f" ?es 50 zero_fi demo_data "new_dh 1" 1] mode
    by (simp add: FUSE_DIRENT_ALIGN_def FUSE_NAME_OFFSET_def FUSE_UNKNOWN_INO_def numeral_3_eq_3
        del: fills.simps run_walk.simps read_dir.simps)
  then show ?thesis unfolding Suc_1 by blast
qed

text \<open>
  C31. Error: \<open>readdirplus\<close> loses lookups.  When a file system hands over a full entry without an offset, of a
  node that is in the name cache, the filler looks the name up and so counts one more lookup of the kernel's;
  but what is kept in the list has no node number.  When the kernel reads on behind the entries it has seen, with
  a buffer the entry fits into, the reply is sent and holds exactly this entry, its node number is 0, and the
  node still has the lookup more.  (For number 0 the kernel makes no node, and so has nothing to forget.)
\<close>
theorem readdirplus_loses_lookup:
  assumes "lookup_node (tree L) (dh_nodeid dh) nm = Some (Some p)" "heap (tree L) p = Some n" "\<not> is_dot_or_dotdot nm"
    "allocs (tree L) = []" "length nm \<le> 1024" "short_names (dh_first dh)" "entry_len True nm \<le> sz" "sz \<le> 0x80000000"
  shows "\<exists>dh1 L1 L2 bs n2. fill_dir_plus nm (Some st) 0 FUSE_FILL_DIR_PLUS (dh, L) = Some (0, dh1, L1) \<and>
    readdir_reply h sz (int (length (dh_first dh))) FUSE_READDIR_PLUS (set_dh h dh1 L1) = Some (Finished L2) \<and>
    replies L2 = replies L1 @ [Reply_buf bs] \<and> length bs = entry_len True nm \<and> le_num (take 8 bs) = 0 \<and>
    heap (tree L2) p = Some n2 \<and> nlookup n2 = nlookup n + 1"
proof -
  obtain e1 L1 n1 where look: "do_lookup L (dh_nodeid dh) (Some nm) (zero_entry\<lparr>e_attr := st\<rparr>) = Some (0, e1, L1)"
      and n1: "heap (tree L1) p = Some n1" "nlookup n1 = nlookup n + 1" "allocs (tree L1) = allocs (tree L)"
    by (rule do_lookup_cached [OF assms(1,2)])
  let ?de = "\<lparr>de_stat = e_attr e1, de_name = nm\<rparr>" and ?L1 = "L1\<lparr>tree := (tree L1)\<lparr>allocs := []\<rparr>\<rparr>"
  let ?dh1 = "dh\<lparr>dh_filled := True, dh_first := dh_first dh @ [?de]\<rparr>" and ?k = "length (dh_first dh)"
  have fill: "fill_dir_plus nm (Some st) 0 FUSE_FILL_DIR_PLUS (dh, L) = Some (0, ?dh1, ?L1)"
    using look assms(3,4) n1(3)
    by (simp add: fill_dir_plus_def plus_entry_def has_bit_def FUSE_FILL_DIR_PLUS_def store_entry_def fuse_add_direntry_to_dh_def)
  have size: "unat (of_nat sz :: u32) = sz" using assms(8) by (simp add: unat_of_nat)
  have plus: "has_bit FUSE_READDIR_PLUS FUSE_READDIR_PLUS" by (simp add: has_bit_def FUSE_READDIR_PLUS_def)
  have short: "short_names (dh_first ?dh1)" using assms(5,6) by (simp add: short_names_def)
  let ?bs = "entry_at True ?de (int ?k + 1)"
  obtain s where r: "readdir_fill_from_list (?dh1\<lparr>dh_needlen := of_nat sz\<rparr>) (int ?k) FUSE_READDIR_PLUS [] =
      Some (0, ?dh1\<lparr>dh_needlen := of_nat sz, dh_size := s, dh_contents := ?bs\<rparr>, [])"
    by (cases rule: list_page [of "?dh1\<lparr>dh_needlen := of_nat sz\<rparr>" "int ?k" FUSE_READDIR_PLUS "[]"])
      (use plus short size assms(7,8) in \<open>auto simp: Let_def\<close>)
  have zero: "le_num (take 8 ?bs) = 0"
    using entry_at_length [of True ?de "int ?k + 1"]
    by (simp add: entry_at_def padded_def entry_bytes_def zero_entry_def le_num_bytes)
  let ?dh2 = "?dh1\<lparr>dh_needlen := of_nat sz, dh_size := s, dh_contents := ?bs\<rparr>"
  have "readdir_reply h sz (int ?k) FUSE_READDIR_PLUS (set_dh h ?dh1 ?L1) = Some (Finished
      (reply (Reply_buf ?bs) (set_dh h ?dh2 (set_dh h ?dh1 ?L1))))"
    using r by (simp add: readdir_reply_def finish_def set_dh_def Let_def)
  then show ?thesis using fill zero n1(1,2)
    by (intro exI [of _ ?dh1] exI [of _ ?L1] exI [of _ "reply (Reply_buf ?bs) (set_dh h ?dh2 (set_dh h ?dh1 ?L1))"]
        exI [of _ ?bs] exI [of _ n1]) (simp add: set_dh_def)
qed

theorem readdirplus_loses_lookup_witness:
  "\<exists>(L :: bytes lib) p n dh1 L1 L2 bs n2. heap (tree L) p = Some n \<and>
     fill_dir_plus ''a'' (Some zero_stat) 0 FUSE_FILL_DIR_PLUS (new_dh FUSE_ROOT_ID, L) = Some (0, dh1, L1) \<and>
     readdir_reply 1 4096 0 FUSE_READDIR_PLUS (set_dh 1 dh1 L1) = Some (Finished L2) \<and> replies L2 = replies L1 @ [Reply_buf bs] \<and>
     le_num (take 8 bs) = 0 \<and> heap (tree L2) p = Some n2 \<and> nlookup n2 = nlookup n + 1"
proof -
  obtain p n where q: "lookup_node (quiet_a 0) FUSE_ROOT_ID ''a'' = Some (Some p)" "heap (quiet_a 0) p = Some n" "allocs (quiet_a 0) = []"
    by (rule quiet_a_facts [of 0]) blast
  have "\<not> is_dot_or_dotdot ''a''" by (simp add: is_dot_or_dotdot_def DOT_def)
  moreover have "dh_first (new_dh FUSE_ROOT_ID) = []" "short_names []" by (simp_all add: new_dh_def short_names_def)
  moreover have "entry_len True ''a'' \<le> 4096" by (rule order_trans [OF entry_len_le]) simp_all
  ultimately show ?thesis
    using readdirplus_loses_lookup [of "demo_lib (quiet_a 0)" "new_dh FUSE_ROOT_ID" "''a''" p n 4096 zero_stat 1] q
    by (intro exI [of _ "demo_lib (quiet_a 0)"] exI [of _ p] exI [of _ n]) (auto simp: new_dh_def)
qed

end
