(* ===== verification/Lookups.thy ===== *)
theory Lookups
  imports Requests
begin

text \<open>
  Looking names up with the path locked: entering a node under a held path keeps the path held, so
  the handler gives it back whole.  The lookups a request counts are those its reply tells of.
\<close>

section \<open>Changing the tree while paths are held\<close>

definition keeps_holds :: "fuse \<Rightarrow> fuse \<Rightarrow> bool" where
  "keeps_holds f f' \<longleftrightarrow> (\<forall>x. heap f x \<noteq> None \<longrightarrow> links_of f' x = links_of f x \<and> locks_of f' x = locks_of f x) \<and>
     (\<forall>x. heap f x = None \<longrightarrow> locks_of f' x = 0)"

lemma keeps_holds_refl [simp]: "keeps_holds f f"
  by (simp add: keeps_holds_def locks_of_def)

lemma keeps_holds_trans: "keeps_holds f g \<Longrightarrow> keeps_holds g h \<Longrightarrow> keeps_holds f h"
  unfolding keeps_holds_def by (metis links_of_None)

lemma same_link:
  assumes "links_of f' x = links_of f x" "heap f x = Some n"
  obtains n' where "heap f' x = Some n'" "nodeid n' = nodeid n" "parent n' = parent n" "name n' = name n"
  using assms by (cases "heap f' x") (auto simp: links_of_def)

lemma keeps_climbs: "climbs f p ps e \<Longrightarrow> keeps_holds f f' \<Longrightarrow> climbs f' p ps e"
proof (induction rule: climbs.induct)
  case (up p n nm q ps e)
  then have "links_of f' p = links_of f p" by (simp add: keeps_holds_def)
  then obtain n' where "heap f' p = Some n'" "nodeid n' = nodeid n" "parent n' = parent n" "name n' = name n"
    using up.hyps(1) by (rule same_link)
  then show ?case using up by (auto intro: climbs.up)
qed (rule climbs.here)

lemma keeps_root: "is_root f e \<Longrightarrow> keeps_holds f f' \<Longrightarrow> is_root f' e"
proof -
  assume a: "is_root f e" "keeps_holds f f'"
  then obtain n where n: "heap f e = Some n" "nodeid n = FUSE_ROOT_ID" by (auto simp: is_root_def)
  then have "links_of f' e = links_of f e" using a(2) by (simp add: keeps_holds_def)
  then show ?thesis using n by (auto simp: is_root_def elim: same_link)
qed

lemma keeps_node:
  assumes "nodes_inv {} ext f" "nodes_inv {} ext' f'" "keeps_holds f f'" "get_node f i = Some p"
  shows "get_node f' i = Some p"
proof -
  have ids: "ids_inv f" "finite (dom (heap f))" "ids_inv f'" "finite (dom (heap f'))"
    using assms(1,2) by (simp_all add: nodes_inv_def mem_inv_def)
  obtain n where n: "heap f p = Some n" "nodeid n = i"
    using get_node_iff [OF ids(1,2), of i p] assms(4) by (auto simp: is_id_iff)
  then have "links_of f' p = links_of f p" using assms(3) by (simp add: keeps_holds_def)
  then have "is_id f' i p" using n by (auto simp: is_id_iff elim: same_link)
  then show ?thesis using get_node_iff [OF ids(3,4)] by simp
qed

lemma lock_inv_keeps:
  assumes i: "lock_inv f H" and inv: "nodes_inv {} (\<lambda>_. 0) f'" and k: "keeps_holds f f'"
  shows "lock_inv f' H"
proof -
  have inv0: "nodes_inv {} (\<lambda>_. 0) f" and holds: "\<And>h. h \<in># H \<Longrightarrow> hold_ok f h" using i by (auto simp: lock_inv_def)
  have ok: "hold_ok f' h" if h: "h \<in># H" for h
  proof -
    obtain ino ps w where hh: "h = (ino, ps, w)" by (cases h)
    then have "hold_ok f (ino, ps, w)" using holds [OF h] by simp
    then obtain p e where "get_node f ino = Some p" "climbs f p ps e" "is_root f e"
      and w: "\<forall>x. w = Some x \<longrightarrow> heap f x \<noteq> None \<and> x \<notin> set ps" by (auto simp: hold_ok_def)
    moreover have "heap f' x \<noteq> None" if "heap f x \<noteq> None" for x
      using k that unfolding keeps_holds_def by (metis links_of_None)
    ultimately show ?thesis
      using keeps_node [OF inv0 inv k] keeps_climbs [OF _ k] keeps_root [OF _ k] unfolding hh hold_ok_def by (auto; blast)
  qed
  have free: "readers H x = 0 \<and> writers H x = 0" if x: "heap f x = None" for x
  proof -
    have "\<not> reads h x \<and> \<not> writes h x" if h: "h \<in># H" for h
    proof -
      obtain ino ps w where hh: "h = (ino, ps, w)" by (cases h)
      then have ok: "hold_ok f (ino, ps, w)" using holds [OF h] by simp
      then obtain p e where c: "climbs f p ps e" by (auto simp: hold_ok_def)
      have w: "w \<noteq> Some x" using ok x by (auto simp: hold_ok_def)
      have "x \<notin> set ps" using climbs_nodes [OF c, of x] x by auto
      then show ?thesis using w by (simp add: reads_def writes_def hh)
    qed
    then have "filter_mset (\<lambda>h. reads h x) H = {#} \<and> filter_mset (\<lambda>h. writes h x) H = {#}"
      by (simp add: filter_mset_eq_mempty_iff)
    then show ?thesis by (simp add: readers_def writers_def)
  qed
  have "lock_state (readers H x) (writers H x) (treelock n')" if n': "heap f' x = Some n'" for x n'
  proof -
    have l: "locks_of f' x = treelock n'" using n' by (simp add: locks_of_def)
    show ?thesis
    proof (cases "heap f x")
      case None
      then have "treelock n' = 0" using k l by (simp add: keeps_holds_def)
      then show ?thesis using free [OF None] by (simp add: lock_state_def)
    next
      case (Some n)
      then have "treelock n' = treelock n" using k l by (simp add: keeps_holds_def locks_of_def)
      then show ?thesis using i Some by (simp add: lock_inv_def)
    qed
  qed
  then show ?thesis using inv ok by (simp add: lock_inv_def)
qed

text \<open>A locked tree is as good as an idle one when the kernel knows the directories on the way.\<close>

definition known_way :: "fuse \<Rightarrow> u64 \<Rightarrow> bool" where
  "known_way f ino \<longleftrightarrow> (\<forall>p ps e x. get_node f ino = Some p \<longrightarrow> climbs f p ps e \<longrightarrow> x \<in> set ps \<longrightarrow>
     (\<exists>n. heap f x = Some n \<and> 0 < nlookup n))"

definition unlocked :: "fuse \<Rightarrow> bool" where
  "unlocked f \<longleftrightarrow> (\<forall>x n. heap f x = Some n \<longrightarrow> treelock n = 0)"

lemma tree_ok_locks:
  assumes t: "tree_ok f" and q: "\<And>x n. heap f x = Some n \<Longrightarrow> nlookup n = 0 \<Longrightarrow> t x = 0"
  shows "tree_ok (relock t al f)"
  using t q nodes_inv_relock [of "\<lambda>_. 0" f t al]
  by (auto simp: tree_ok_def base_def positive_def quiet_def lru_one_def)

lemma held_tree_ok:
  assumes i: "idle f" and h: "holds_path f ino p ps None g" and way: "known_way f ino"
  shows "tree_ok g"
proof -
  obtain e al where g: "get_node f ino = Some p" "climbs f p ps e" "g = relock (raise (set ps) (write_lock None TREELOCK_WRITE (\<lambda>_. 0))) al f"
    using h by (auto simp: holds_path_def)
  have "tree_ok f" using i by (simp add: idle_def)
  then show ?thesis unfolding g(3)
  proof (rule tree_ok_locks)
    fix x n assume "heap f x = Some n" "nlookup n = 0"
    then have "x \<notin> set ps" using way g(1,2) unfolding known_way_def by fastforce
    then show "raise (set ps) (write_lock None TREELOCK_WRITE (\<lambda>_. 0)) x = 0" by (simp add: raise_def write_lock_def)
  qed
qed

section \<open>Counting lookups\<close>

text \<open>The lookups counted for a number, and what counting one more may change.\<close>

definition lookups :: "fuse \<Rightarrow> u64 \<Rightarrow> nat" where
  "lookups f i = (case get_node_nocheck f i of
     Some (Some p) \<Rightarrow> (case heap f p of Some n \<Rightarrow> nlookup n | None \<Rightarrow> 0) | _ \<Rightarrow> 0)"

lemma lookups_at:
  assumes "ids_inv f" "finite (dom (heap f))" "heap f p = Some n"
  shows "lookups f (nodeid n) = nlookup n"
  using get_node_nocheck_iff [OF assms(1,2), of "nodeid n" "Some p"] assms(3) by (auto simp: lookups_def is_id_iff)

lemma lookups_none:
  assumes "ids_inv f" "finite (dom (heap f))" "\<And>p n. heap f p = Some n \<Longrightarrow> nodeid n = i \<Longrightarrow> nlookup n = 0"
  shows "lookups f i = 0"
  using get_node_nocheck_iff [OF assms(1,2), of i] assms(3) unfolding lookups_def
  by (auto simp: is_id_iff split: option.splits)

definition counted :: "fuse \<Rightarrow> u64 \<Rightarrow> string \<Rightarrow> u64 \<Rightarrow> fuse \<Rightarrow> bool" where
  "counted f d nm i f' \<longleftrightarrow> dcache f' = (dcache f)((d, nm) \<mapsto> i) \<and> lookups f' = (lookups f)(i := lookups f i + 1)"

definition same_counts :: "fuse \<Rightarrow> fuse \<Rightarrow> bool" where
  "same_counts f f' \<longleftrightarrow> dcache f' = dcache f \<and> lookups f' = lookups f"

lemma lookups_cong:
  assumes inv: "nodes_inv {} ext f" "nodes_inv {} ext' f'"
    and c: "\<And>x. map_option (\<lambda>n. (nodeid n, nlookup n)) (heap f' x) = map_option (\<lambda>n. (nodeid n, nlookup n)) (heap f x)"
  shows "lookups f' = lookups f"
proof
  have ids: "ids_inv f" "finite (dom (heap f))" "ids_inv f'" "finite (dom (heap f'))"
    using inv by (simp_all add: nodes_inv_def mem_inv_def)
  fix i
  show "lookups f' i = lookups f i"
  proof (cases "\<exists>p n. heap f p = Some n \<and> nodeid n = i")
    case True
    then obtain p n where n: "heap f p = Some n" "nodeid n = i" by blast
    then obtain n' where n': "heap f' p = Some n'" "nodeid n' = i" "nlookup n' = nlookup n"
      using c [of p] by (cases "heap f' p") auto
    show ?thesis using lookups_at [OF ids(1,2) n(1)] lookups_at [OF ids(3,4) n'(1)] n n' by simp
  next
    case False
    have none: "heap f' p = Some n' \<Longrightarrow> nodeid n' = i \<Longrightarrow> nlookup n' = 0" for p n'
      using False c [of p] by (cases "heap f p") auto
    show ?thesis using lookups_none [OF ids(3,4) none] lookups_none [OF ids(1,2), of i] False by auto
  qed
qed

lemma found_counts:
  assumes inv: "nodes_inv {} ext f" "nodes_inv {} ext' f'" and r: "remember (conf f) = 0" and fd: "found f d nm (Some p) f'"
  obtains n where "heap f' p = Some n" "counted f d nm (nodeid n) f'" "0 < nlookup n" "keeps_holds f f'" "link_entry (links_of f') (d, nm) p"
    "(\<forall>x k. heap f x = Some k \<longrightarrow> nodeid k \<noteq> 0) \<longrightarrow> nodeid n \<noteq> 0"
proof -
  have ids: "ids_inv f" "finite (dom (heap f))" "ids_inv f'" "finite (dom (heap f'))"
    using inv by (simp_all add: nodes_inv_def mem_inv_def)
  obtain n where n: "heap f' p = Some n" "dcache f' = (dcache f)((d, nm) \<mapsto> nodeid n)"
      "nlookup n = (case heap f p of Some n0 \<Rightarrow> nlookup n0 + 1 | None \<Rightarrow> if remember (conf f) = 0 then 1 else 2)"
      "treelock n = (case heap f p of Some n0 \<Rightarrow> treelock n0 | None \<Rightarrow> 0)"
      and others: "\<forall>x. x \<noteq> p \<longrightarrow> body f' x = body f x" and links: "\<forall>x. heap f x \<noteq> None \<longrightarrow> links_of f' x = links_of f x"
      and new0: "if heap f p = None
         then dcache f (d, nm) = None \<and> nodeid n \<noteq> 0 \<and> (\<forall>x k. heap f x = Some k \<longrightarrow> nodeid k \<noteq> nodeid n)
         else dcache f (d, nm) = Some (nodeid n)"
    using fd unfolding found_def by blast
  have new: "heap f p = None \<longrightarrow> (\<forall>x k. heap f x = Some k \<longrightarrow> nodeid k \<noteq> nodeid n)" using new0 by (auto split: if_splits)
  have other: "map_option (\<lambda>n. (nodeid n, nlookup n, treelock n)) (heap f' x) = map_option (\<lambda>n. (nodeid n, nlookup n, treelock n)) (heap f x)"
    if "x \<noteq> p" for x
  proof -
    have "body f' x = body f x" using others that by blast
    from arg_cong [OF this, of "map_option (\<lambda>n. (nodeid n, nlookup n, treelock n))"] show ?thesis
      by (simp add: body_def option.map_comp comp_def)
  qed
  have "lookups f' i = ((lookups f)(nodeid n := lookups f (nodeid n) + 1)) i" for i
  proof (cases "i = nodeid n")
    case True
    have "lookups f' i = nlookup n" using lookups_at [OF ids(3,4) n(1)] True by simp
    moreover have "nlookup n = lookups f i + 1"
    proof (cases "heap f p")
      case None
      then have "lookups f i = 0" using new True by (intro lookups_none [OF ids(1,2)]) auto
      then show ?thesis using n(3) r None by simp
    next
      case (Some n0)
      then have "nodeid n = nodeid n0" using links n(1) by (auto simp: links_of_def)
      then show ?thesis using lookups_at [OF ids(1,2) Some] n(3) Some True by simp
    qed
    ultimately show ?thesis using True by simp
  next
    case False
    have "lookups f' i = lookups f i"
    proof (cases "\<exists>x k. heap f x = Some k \<and> nodeid k = i")
      case True
      then obtain x k where k: "heap f x = Some k" "nodeid k = i" by blast
      have "x \<noteq> p"
      proof
        assume "x = p"
        then have "nodeid n = nodeid k" using links n(1) k(1) by (auto simp: links_of_def)
        then show False using False k(2) by simp
      qed
      then obtain k' where k': "heap f' x = Some k'" "nodeid k' = i" "nlookup k' = nlookup k"
        using other [of x] k by (cases "heap f' x") auto
      show ?thesis using lookups_at [OF ids(1,2) k(1)] lookups_at [OF ids(3,4) k'(1)] k k' by simp
    next
      case no: False
      have "heap f' x = Some k' \<Longrightarrow> nodeid k' = i \<Longrightarrow> nlookup k' = 0" for x k'
        using no other [of x] n(1) False by (cases "x = p"; cases "heap f x") auto
      then have "lookups f' i = 0" by (rule lookups_none [OF ids(3,4)])
      moreover have "lookups f i = 0" using no by (intro lookups_none [OF ids(1,2)]) auto
      ultimately show ?thesis by simp
    qed
    then show ?thesis using False by simp
  qed
  then have "counted f d nm (nodeid n) f'" using n(2) by (auto simp: counted_def)
  moreover have "keeps_holds f f'"
    unfolding keeps_holds_def
  proof (intro conjI allI impI)
    fix x assume x: "heap f x \<noteq> None"
    then show "links_of f' x = links_of f x" using links by blast
    show "locks_of f' x = locks_of f x"
      using x n(1,4) other [of x] by (cases "x = p"; cases "heap f x"; cases "heap f' x") (auto simp: locks_of_def)
  next
    fix x assume "heap f x = None"
    then show "locks_of f' x = 0"
      using n(1,4) other [of x] by (cases "x = p"; cases "heap f' x") (auto simp: locks_of_def)
  qed
  moreover have "link_entry (links_of f') (d, nm) p"
  proof -
    have "dcache f' (d, nm) = Some (nodeid n)" using n(2) by simp
    then obtain x where x: "link_entry (links_of f') (d, nm) x" "link_id (links_of f') x = Some (nodeid n)"
      using dcache_iff [OF inv(2)] by blast
    then have "is_id f' (nodeid n) x" by (auto simp: is_id_iff link_id_def links_of_def)
    moreover have "is_id f' (nodeid n) p" using n(1) by (auto simp: is_id_iff)
    ultimately have "x = p" using get_node_iff [OF ids(3,4)] by (metis option.inject)
    then show ?thesis using x(1) by simp
  qed
  moreover have "0 < nlookup n" using n(3) r by (cases "heap f p") auto
  moreover have "(\<forall>x k. heap f x = Some k \<longrightarrow> nodeid k \<noteq> 0) \<longrightarrow> nodeid n \<noteq> 0"
    using new0 links n(1) by (cases "heap f p") (auto simp: links_of_def)
  ultimately show thesis using that n(1) by blast
qed

section \<open>Looking up under a held path\<close>

lemma update_stat_simps [simp]:
  "nodeid (update_stat tm st n) = nodeid n" "parent (update_stat tm st n) = parent n" "name (update_stat tm st n) = name n"
  "nlookup (update_stat tm st n) = nlookup n" "refctr (update_stat tm st n) = refctr n"
  "treelock (update_stat tm st n) = treelock n" "node_gen (update_stat tm st n) = node_gen n"
  by (simp_all add: update_stat_def Let_def)

text \<open>Changing what a node says of its file changes nothing of the tree.\<close>

lemma tree_ok_attr:
  assumes t: "tree_ok f" and g: "\<And>n. nodeid (g n) = nodeid n" "\<And>n. parent (g n) = parent n" "\<And>n. name (g n) = name n"
    "\<And>n. nlookup (g n) = nlookup n" "\<And>n. refctr (g n) = refctr n" "\<And>n. treelock (g n) = treelock n"
  shows "tree_ok (upd_node p g f)" "keeps_holds f (upd_node p g f)" "same_counts f (upd_node p g f)"
proof -
  let ?f = "upd_node p g f"
  have l: "links_of ?f = links_of f" by (rule links_of_upd) (simp add: g)
  have inv: "nodes_inv {} (\<lambda>_. 0) f" by (rule tree_okD(3) [OF t])
  have "refs_inv {} (\<lambda>_. 0) ?f"
    using inv unfolding nodes_inv_def refs_inv_def links_cong(2) [OF l] by (auto simp: g)
  moreover have "root_inv ?f"
    by (rule root_inv_mono [of f]) (use inv in \<open>auto simp: nodes_inv_def g\<close>)
  moreover have "lru_inv ?f" using inv inv_cong(5) [OF l] by (simp add: nodes_inv_def)
  ultimately have inv': "nodes_inv {} (\<lambda>_. 0) ?f" by (intro nodes_inv_counts [OF inv l]) simp_all
  show "tree_ok ?f" using t inv' by (auto simp: tree_ok_def base_def positive_def quiet_def lru_one_def g)
  show "keeps_holds f ?f" by (auto simp: keeps_holds_def locks_of_def links_of_def g split: option.splits)
  have "dcache ?f = dcache f" by (rule dcache_links_eq [OF inv inv' l])
  moreover have "lookups ?f = lookups f"
    by (rule lookups_cong [OF inv inv']) (auto simp: g option.map_comp comp_def)
  ultimately show "same_counts f ?f" by (simp add: same_counts_def)
qed

definition no_zero :: "fuse \<Rightarrow> bool" where
  \<comment> \<open>0 is no number of a node\<close>
  "no_zero f \<longleftrightarrow> (\<forall>x k. heap f x = Some k \<longrightarrow> nodeid k \<noteq> 0)"

definition entered :: "fuse \<Rightarrow> u64 \<Rightarrow> string \<Rightarrow> fuse_entry_param \<Rightarrow> fuse \<Rightarrow> bool" where
  "entered f d nm e f' \<longleftrightarrow> (\<exists>p n. heap f' p = Some n \<and> e_ino e = nodeid n \<and> nodeid n \<noteq> FUSE_ROOT_ID \<and> 0 < nlookup n \<and>
     counted f d nm (nodeid n) f')"

lemma entry_no_root:
  assumes inv: "nodes_inv {} ext f" and e: "link_entry (links_of f) k p" and n: "heap f p = Some n"
  shows "nodeid n \<noteq> FUSE_ROOT_ID"
proof
  assume r: "nodeid n = FUSE_ROOT_ID"
  obtain q m where q: "heap f q = Some m" "nodeid m = FUSE_ROOT_ID" "parent m = None"
    using inv by (auto simp: nodes_inv_def root_inv_def)
  have "p = q" using inv n q(1,2) r unfolding nodes_inv_def ids_inv_def by (auto simp: links_of_def)
  then show False using e n q by (auto simp: link_entry_def links_of_def split: option.splits)
qed

lemma do_lookup_step:
  assumes t: "tree_ok (tree L)" and d: "known_dir (tree L) d" and few: "card (dom (heap (tree L))) < MAX_NODES"
    and r: "remember (conf (tree L)) = 0" and z: "no_zero (tree L)"
  obtains (nomem) f' where "do_lookup L d (Some nm) e = Some (- ENOMEM, e, L\<lparr>tree := f'\<rparr>)" "tree_ok f'"
      "keeps_holds (tree L) f'" "lockq f' = lockq (tree L)" "conf f' = conf (tree L)" "same_counts (tree L) f'"
  | (entry) e' f' where "do_lookup L d (Some nm) e = Some (0, e', L\<lparr>tree := f'\<rparr>)" "tree_ok f'"
      "keeps_holds (tree L) f'" "lockq f' = lockq (tree L)" "conf f' = conf (tree L)" "entered (tree L) d nm e' f'" "e_ino e' \<noteq> 0"
proof -
  let ?f = "tree L"
  obtain x g where g: "find_node ?f d (Some nm) = Some (x, g)" "tree_ok g" "found ?f d nm x g" "conf g = conf ?f" "lockq g = lockq ?f"
    using find_ok [OF t d few] by blast
  have inv: "nodes_inv {} (\<lambda>_. 0) ?f" "nodes_inv {} (\<lambda>_. 0) g" by (rule tree_okD(3), fact)+
  show thesis
  proof (cases x)
    case None
    then have h: "heap g = heap ?f" "dcache g = dcache ?f" using g(3) by (auto simp: found_def)
    have "keeps_holds ?f g" using h(1) by (simp add: keeps_holds_def links_of_def locks_of_def)
    moreover have "lookups g = lookups ?f" by (rule lookups_cong [OF inv]) (simp add: h)
    ultimately show thesis using None g h by (intro nomem [of g]) (simp_all add: do_lookup_def same_counts_def)
  next
    case (Some p)
    obtain n where n: "heap g p = Some n" "counted ?f d nm (nodeid n) g" "0 < nlookup n" "keeps_holds ?f g"
        "link_entry (links_of g) (d, nm) p" "nodeid n \<noteq> 0"
      using z [unfolded no_zero_def] found_counts [OF inv r] g(3) Some by blast
    have root: "nodeid n \<noteq> FUSE_ROOT_ID" by (rule entry_no_root [OF inv(2) n(5,1)])
    let ?e1 = "e\<lparr>e_ino := nodeid n, e_generation := ucast (node_gen n), e_entry_timeout := entry_timeout (conf g),
      e_attr_timeout := attr_timeout (conf g)\<rparr>"
    define g1 where "g1 = (if auto_cache (conf g) then upd_node p (update_stat (curr_time g) (e_attr ?e1)) g else g)"
    have kept: "tree_ok g1" "keeps_holds g g1" "same_counts g g1"
      using tree_ok_attr [OF g(2), of "update_stat (curr_time g) (e_attr ?e1)" p] g(2)
      by (simp_all add: g1_def same_counts_def)
    have rest: "lockq g1 = lockq ?f" "conf g1 = conf ?f" using g(4,5) by (simp_all add: g1_def upd_node_def)
    obtain n1 where n1: "heap g1 p = Some n1" "nodeid n1 = nodeid n" "nlookup n1 = nlookup n"
      using n(1) by (cases "auto_cache (conf g)") (auto simp: g1_def)
    have run: "do_lookup L d (Some nm) e = Some (0, ?e1\<lparr>e_attr := set_stat g1 (e_ino ?e1) (e_attr ?e1)\<rparr>, L\<lparr>tree := g1\<rparr>)"
      using g(1) Some n(1) by (simp add: do_lookup_def g1_def Let_def)
    have "counted ?f d nm (nodeid n) g1" using n(2) kept(3) by (simp add: counted_def same_counts_def)
    then have "entered ?f d nm (?e1\<lparr>e_attr := set_stat g1 (e_ino ?e1) (e_attr ?e1)\<rparr>) g1"
      using n1 n(3) root unfolding entered_def by (intro exI [of _ p] exI [of _ n1]) simp
    then show thesis using entry [OF run kept(1) _ rest] keeps_holds_trans [OF n(4) kept(2)] n(6) by simp
  qed
qed

text \<open>The lookup of a name when a reply was lost: the node gives one lookup back.\<close>

lemma forget_others:
  assumes t: "tree_ok f" and p: "heap f p = Some n" "nodeid n = i" "i \<noteq> FUSE_ROOT_ID"
    and k: "k \<le> nlookup n" "0 < nlookup n" and r: "forget_node f i k = Some (Some f')" and x: "x \<noteq> p"
  shows "only_refs (heap f x) (heap f' x)" "lockq f' = lockq f"
proof -
  have inv: "nodes_inv {} (\<lambda>_. 0) f" by (rule tree_okD(3) [OF t])
  then have ids: "ids_inv f" "finite (dom (heap f))" by (simp_all add: nodes_inv_def mem_inv_def)
  have g: "get_node f i = Some p" using get_node_iff [OF ids, of i p] p by (simp add: is_id_iff)
  let ?f1 = "drop_lookups p k f"
  have h1: "heap ?f1 x = heap f x" "lockq ?f1 = lockq f" using x by (simp_all add: drop_lookups_def)
  have "only_refs (heap f x) (heap f' x) \<and> lockq f' = lockq f"
  proof (cases "nlookup n - k = 0")
    case True
    have kn: "k = nlookup n" using True k by simp
    have u: "unref_node ?f1 p = Some f'" and tl: "treelock n = 0"
      using r p(3) g p(1) kn by (auto simp: forget_node_def split: if_splits)
    have b1: "base {} ((\<lambda>_. 0)(p := 1)) {} ?f1"
      using forget_all_step [OF tree_okD(1) [OF t] p(1)] p(2,3) k tl kn by simp
    have h: "heap ?f1 p = Some (n\<lparr>nlookup := nlookup n - k\<rparr>)" using p(1) by (simp add: drop_lookups_def)
    have "0 < ((\<lambda>_. 0)(p := 1 :: int)) p" by simp
    then have "shrinks {} ?f1 f'"
      by (rule unref_node_step [OF b1 h]) (use u in simp)
    then show ?thesis using h1 unfolding shrinks_def same_rest_def by (metis empty_iff)
  next
    case False
    then have "f' = (if lru_enabled f \<and> nlookup n - k = 1 then set_forget_time p ?f1 else ?f1)"
      using r p(3) g p(1) k by (auto simp: forget_node_def split: if_splits)
    then show ?thesis using h1 x by (auto simp: set_forget_time_def)
  qed
  then show "only_refs (heap f x) (heap f' x)" "lockq f' = lockq f" by simp_all
qed

lemma give_back:
  assumes t: "tree_ok f" and p: "heap f p = Some n" "nodeid n \<noteq> FUSE_ROOT_ID" "0 < nlookup n" "p \<notin> set (lru_table f)"
    and u: "unlocked f"
  obtains f' where "forget_node f (nodeid n) 1 = Some (Some f')" "tree_ok f'" "unlocked f'" "lockq f' = lockq f"
    "lookups f' = (lookups f)(nodeid n := lookups f (nodeid n) - 1)"
proof -
  have inv: "nodes_inv {} (\<lambda>_. 0) f" by (rule tree_okD(3) [OF t])
  have k: "1 \<le> nlookup n" "nlookup n = 1 \<longrightarrow> treelock n = 0" using p(3) u p(1) by (simp_all add: unlocked_def)
  obtain f' where f': "forget_node f (nodeid n) 1 = Some (Some f')" "tree_ok f'"
      and own: "if 1 < nlookup n then \<exists>tm. heap f' p = Some (n\<lparr>nlookup := nlookup n - 1, forget_time := tm\<rparr>)
       else if kids f {} p = {} then heap f' p = None else \<exists>r. heap f' p = Some (n\<lparr>nlookup := 0, refctr := r\<rparr>)"
      and stay: "\<forall>x m. x \<noteq> p \<longrightarrow> heap f x = Some m \<longrightarrow> 0 < nlookup m \<longrightarrow> (\<exists>r. heap f' x = Some (m\<lparr>refctr := r\<rparr>))"
    using forget_ok [OF t p(1) refl p(2,4) k(1) p(3) k(2)] by blast
  note others = forget_others [OF t p(1) refl p(2) k(1) p(3) f'(1)]
  have inv': "nodes_inv {} (\<lambda>_. 0) f'" by (rule tree_okD(3) [OF f'(2)])
  have ids: "ids_inv f" "finite (dom (heap f))" "ids_inv f'" "finite (dom (heap f'))"
    using inv inv' by (simp_all add: nodes_inv_def mem_inv_def)
  have own': "heap f' p = None \<and> nlookup n = 1 \<or> (\<exists>n'. heap f' p = Some n' \<and> nodeid n' = nodeid n \<and> nlookup n' = nlookup n - 1 \<and> treelock n' = treelock n)"
    using own p(3) by (auto split: if_splits)
  have prev: "\<exists>m. heap f x = Some m \<and> nodeid m = nodeid k' \<and> nlookup m = nlookup k' \<and> treelock m = treelock k'"
    if "heap f' x = Some k'" "x \<noteq> p" for x k'
    using others(1) [OF that(2)] that(1) by (auto elim: only_refsE)
  have "unlocked f'" unfolding unlocked_def
  proof (intro allI impI)
    fix x k' assume x: "heap f' x = Some k'"
    show "treelock k' = 0" using own' prev [OF x] x u p(1) by (cases "x = p") (auto simp: unlocked_def)
  qed
  moreover have "lookups f' i = ((lookups f)(nodeid n := lookups f (nodeid n) - 1)) i" for i
  proof (cases "i = nodeid n")
    case True
    have "lookups f i = nlookup n" using lookups_at [OF ids(1,2) p(1)] True by simp
    moreover have "lookups f' i = nlookup n - 1"
    proof (cases "heap f' p")
      case None
      have "nodeid k' \<noteq> i" if x: "heap f' x = Some k'" for x k'
      proof
        assume k': "nodeid k' = i"
        have "x \<noteq> p" using x None by auto
        from prev [OF x this] obtain m where m: "heap f x = Some m" "nodeid m = nodeid k'" by blast
        then have "x = p" using ids(1) p(1) k' True unfolding ids_inv_def by (auto simp: links_of_def)
        with \<open>x \<noteq> p\<close> show False by simp
      qed
      then have "lookups f' i = 0" by (intro lookups_none [OF ids(3,4)]) auto
      then show ?thesis using own' None by simp
    next
      case (Some n')
      then show ?thesis using own' lookups_at [OF ids(3,4) Some] True by auto
    qed
    ultimately show ?thesis using True by simp
  next
    case False
    have "lookups f' i = lookups f i"
    proof (cases "\<exists>x k. heap f x = Some k \<and> nodeid k = i \<and> 0 < nlookup k")
      case True
      then obtain x m where m: "heap f x = Some m" "nodeid m = i" "0 < nlookup m" by blast
      have "x \<noteq> p" using m(1,2) p(1) False by auto
      then obtain r where "heap f' x = Some (m\<lparr>refctr := r\<rparr>)" using stay m by blast
      then show ?thesis using lookups_at [OF ids(1,2) m(1)] lookups_at [OF ids(3,4), of x "m\<lparr>refctr := r\<rparr>"] m by simp
    next
      case no: False
      have "heap f' x = Some k' \<Longrightarrow> nodeid k' = i \<Longrightarrow> nlookup k' = 0" for x k'
        using no own' False prev [of x k'] by (cases "x = p") auto
      then have "lookups f' i = 0" by (rule lookups_none [OF ids(3,4)])
      moreover have "lookups f i = 0" using no by (intro lookups_none [OF ids(1,2)]) auto
      ultimately show ?thesis by simp
    qed
    then show ?thesis using False by simp
  qed
  moreover obtain x where "x \<noteq> p" by (metis n_not_Suc_n)
  ultimately show thesis using that f' others(2) by blast
qed

section \<open>The handler\<close>

lemma relock_counts:
  assumes "nodes_inv {} ext f"
  shows "same_counts f (relock t al f)"
proof -
  have inv: "nodes_inv {} ext (relock t al f)" by (rule nodes_inv_relock [OF assms])
  have "dcache (relock t al f) = dcache f"
    by (auto simp: dcache_def fun_eq_iff option.map_comp comp_def split: option.splits)
  moreover have "lookups (relock t al f) = lookups f"
    by (rule lookups_cong [OF assms inv]) (simp add: option.map_comp comp_def)
  ultimately show ?thesis by (simp add: same_counts_def)
qed

lemma path_call_held:
  assumes i: "idle (tree L)" and r: "request_ok (tree L) ino nmo False"
  obtains (refused) err al where
      "path_call False (\<lambda>i f. get_path_common i f ino nmo False) j L ino x0 act k = k err x0 (L\<lparr>tree := (tree L)\<lparr>allocs := al\<rparr>\<rparr>)"
      "err = - ENOMEM \<or> err = - ESTALE"
  | (held) p ps g where "holds_path (tree L) ino p ps None g"
      "path_call False (\<lambda>i f. get_path_common i f ino nmo False) j L ino x0 act k =
         do { (err, x, L2) \<leftarrow> act (Some (path_text (tree L) ps nmo)) (fuse_prepare_interrupt (L\<lparr>tree := g\<rparr>));
              L3 \<leftarrow> give_path ino (Some (path_text (tree L) ps nmo)) (fuse_finish_interrupt L2);
              k err x L3 }"
proof (cases rule: common_idle [OF i r, of j])
  case (1 err al)
  then have "err \<noteq> 0" by (auto simp: ENOMEM_def ESTALE_def)
  then show thesis using refused 1 by (simp add: path_call_def with_path_def)
next
  case (2 p ps w g)
  then show thesis using held by (simp add: path_call_def with_path_def)
qed

lemma give_held:
  assumes "lock_inv (tree L) {#(ino, ps, None)#}" "lockq (tree L) = []"
  shows "give_path ino (Some path) L = Some (L\<lparr>tree := relock (\<lambda>_. 0) (allocs (tree L)) (tree L)\<rparr>)"
  using unlock_all [OF assms] by (simp add: give_path_def free_path_def)

lemma interrupt_window:
  assumes "\<not> interruptible L" "conf g = conf (tree L)" "conf f' = conf (tree L)"
  shows "fuse_finish_interrupt ((fuse_prepare_interrupt (L\<lparr>tree := g\<rparr>))\<lparr>env := e, tree := f'\<rparr>) = L\<lparr>env := e, tree := f'\<rparr>"
  using assms by (cases L) (simp add: fuse_finish_interrupt_def fuse_prepare_interrupt_def)

definition lost :: "'s lib \<Rightarrow> bool" where
  \<comment> \<open>the kernel no longer waits for the next reply\<close>
  "lost L \<longleftrightarrow> (\<exists>as. answers L = - ENOENT # as)"

definition lookup_done :: "'s lib \<Rightarrow> u64 \<Rightarrow> string \<Rightarrow> 's run option \<Rightarrow> bool" where
  "lookup_done L d nm run \<longleftrightarrow> (\<exists>L' r. run = Some (Finished L') \<and> replies L' = replies L @ [r] \<and>
     tree_ok (tree L') \<and> unlocked (tree L') \<and> lockq (tree L') = [] \<and>
     (case r of
        Reply_err err \<Rightarrow> same_counts (tree L) (tree L')
      | Reply_entry e \<Rightarrow>
          if e_ino e = 0 then same_counts (tree L) (tree L')
          else if lost L then lookups (tree L') = lookups (tree L)
          else counted (tree L) d nm (e_ino e) (tree L')
      | _ \<Rightarrow> False))"

lemma lookup_done_err:
  assumes "tree_ok (tree M)" "unlocked (tree M)" "lockq (tree M) = []" "same_counts (tree L) (tree M)" "replies M = replies L" "err \<noteq> 0"
  shows "lookup_done L d nm (reply_entry j M e err)"
  using assms by (auto simp: lookup_done_def reply_entry_def finish_def)

lemma answer_cases: "answer r M = (case answers M of [] \<Rightarrow> 0 | a # as \<Rightarrow> a, reply r M)"
  by (auto simp: answer_def reply_def split: list.splits)

lemma lookup_done_negative:
  assumes "tree_ok (tree M)" "unlocked (tree M)" "lockq (tree M) = []" "same_counts (tree L) (tree M)" "replies M = replies L" "e_ino e = 0"
  shows "lookup_done L d nm (reply_entry j M e 0)"
  using assms by (auto simp: lookup_done_def reply_entry_def finish_def answer_cases Let_def)

lemma lookup_done_entry:
  assumes M: "tree_ok (tree M)" "unlocked (tree M)" "lockq (tree M) = []" "replies M = replies L" "answers M = answers L"
    and e: "entered (tree L) d nm e (tree M)" and z: "e_ino e \<noteq> 0" and r: "remember (conf (tree M)) = 0"
  shows "lookup_done L d nm (reply_entry j M e 0)"
proof -
  let ?M = "reply (Reply_entry e) M"
  obtain p n where n: "heap (tree M) p = Some n" "e_ino e = nodeid n" "nodeid n \<noteq> FUSE_ROOT_ID" "0 < nlookup n"
      "counted (tree L) d nm (nodeid n) (tree M)"
    using e by (auto simp: entered_def)
  show ?thesis
  proof (cases "lost L")
    case False
    then have "fst (answer (Reply_entry e) M) \<noteq> - ENOENT"
      using M(5) by (auto simp: lost_def answer_cases ENOENT_def split: list.splits)
    then have "reply_entry j M e 0 = Some (Finished ?M)"
      by (simp add: reply_entry_def finish_def answer_cases Let_def)
    then show ?thesis using M z n False by (simp add: lookup_done_def)
  next
    case True
    then have a: "answer (Reply_entry e) M = (- ENOENT, ?M)" using M(5) by (auto simp: lost_def answer_cases)
    have "lru_table (tree M) = []"
      using tree_okD(4) [OF M(1)] r by (auto simp: lru_inv_def lru_enabled_def)
    then obtain f' where f': "forget_node (tree M) (nodeid n) 1 = Some (Some f')" "tree_ok f'" "unlocked f'" "lockq f' = lockq (tree M)"
        "lookups f' = (lookups (tree M))(nodeid n := lookups (tree M) (nodeid n) - 1)"
      using give_back [OF M(1) n(1,3,4) _ M(2)] by auto
    have "reply_entry j M e 0 = Some (Finished (?M\<lparr>tree := f'\<rparr>))"
      using a z f'(1) n(2) by (simp add: reply_entry_def with_forget_def finish_def)
    moreover have "lookups f' = lookups (tree L)" using f'(5) n(5) by (simp add: counted_def fun_eq_iff)
    ultimately show ?thesis using M f' z True by (simp add: lookup_done_def)
  qed
qed

definition looked_up :: "fuse \<Rightarrow> u64 \<Rightarrow> string \<Rightarrow> int \<Rightarrow> fuse_entry_param \<Rightarrow> fuse \<Rightarrow> bool" where
  "looked_up f d nm err e f' \<longleftrightarrow> tree_ok f' \<and> keeps_holds f f' \<and> lockq f' = lockq f \<and> conf f' = conf f \<and>
     (if err = 0 then e_ino e \<noteq> 0 \<and> entered f d nm e f' else same_counts f f')"

lemma lookup_path_step:
  assumes t: "tree_ok (tree L)" and d: "known_dir (tree L) d" and few: "card (dom (heap (tree L))) < MAX_NODES"
    and r: "remember (conf (tree L)) = 0" and z: "no_zero (tree L)"
  obtains err e fi en f' where "lookup_path d (Some nm) fi0 path L = Some (err, e, fi, L\<lparr>env := en, tree := f'\<rparr>)"
    "looked_up (tree L) d nm err e f'"
proof -
  obtain res st fi en where g: "fuse_fs_getattr (fsys L) path (e_attr zero_entry) fi0 (env L) = (res, (st, fi), en)"
    by (metis surj_pair)
  let ?L = "L\<lparr>env := en\<rparr>" and ?e = "zero_entry\<lparr>e_attr := st\<rparr>"
  show thesis
  proof (cases "res = 0")
    case False
    have "lookup_path d (Some nm) fi0 path L = Some (res, ?e, fi, L\<lparr>env := en, tree := tree L\<rparr>)"
      using g False by (simp add: lookup_path_def on_env_def)
    moreover have "looked_up (tree L) d nm res ?e (tree L)"
      using t False by (simp add: looked_up_def same_counts_def)
    ultimately show thesis by (rule that)
  next
    case True
    have t': "tree_ok (tree ?L)" "known_dir (tree ?L) d" "card (dom (heap (tree ?L))) < MAX_NODES" "remember (conf (tree ?L)) = 0"
      "no_zero (tree ?L)" using assms by simp_all
    show thesis
    proof (cases rule: do_lookup_step [OF t', of nm ?e])
      case (1 f')
      have "lookup_path d (Some nm) fi0 path L = Some (- ENOMEM, ?e, fi, L\<lparr>env := en, tree := f'\<rparr>)"
        using g True 1(1) by (simp add: lookup_path_def on_env_def)
      moreover have "looked_up (tree L) d nm (- ENOMEM) ?e f'" using 1 by (simp add: looked_up_def ENOMEM_def)
      ultimately show thesis by (rule that)
    next
      case (2 e' f')
      have "lookup_path d (Some nm) fi0 path L = Some (0, e', fi, L\<lparr>env := en, tree := f'\<rparr>)"
        using g True 2(1) by (simp add: lookup_path_def on_env_def)
      moreover have "looked_up (tree L) d nm 0 e' f'" using 2 by (simp add: looked_up_def)
      ultimately show thesis by (rule that)
    qed
  qed
qed

lemma same_counts_trans: "same_counts f g \<Longrightarrow> same_counts g h \<Longrightarrow> same_counts f h"
  by (simp add: same_counts_def)

lemma entered_same: "same_counts f g \<Longrightarrow> entered f d nm e h = entered g d nm e h"
  by (simp add: same_counts_def entered_def counted_def)

text \<open>What the handler does with the path held, and after giving it back.\<close>

lemma looked_up_released:
  assumes h: "lock_inv g {#(d, ps, None)#}" and g: "same_counts f g" "lockq g = []" "conf g = conf f"
    and l: "looked_up g d nm err e f'" and f'': "f'' = relock (\<lambda>_. 0) al f'"
  shows "lock_inv f' {#(d, ps, None)#}" "lockq f' = []" "conf f' = conf f" "tree_ok f''" "unlocked f''" "lockq f'' = []"
    "conf f'' = conf f" "if err = 0 then e_ino e \<noteq> 0 \<and> entered f d nm e f'' else same_counts f f''"
proof -
  have t: "tree_ok f'" and k: "keeps_holds g f'" using l by (simp_all add: looked_up_def)
  have inv: "nodes_inv {} (\<lambda>_. 0) f'" by (rule tree_okD(3) [OF t])
  show "lock_inv f' {#(d, ps, None)#}" by (rule lock_inv_keeps [OF h inv k])
  show "lockq f' = []" "conf f' = conf f" using l g by (simp_all add: looked_up_def)
  show "tree_ok f''" unfolding f'' by (rule tree_ok_relock [OF t])
  show "unlocked f''" by (auto simp: unlocked_def f'')
  show "lockq f'' = []" "conf f'' = conf f" using l g by (simp_all add: looked_up_def f'')
  have same: "same_counts f' f''" unfolding f'' by (rule relock_counts [OF inv])
  show "if err = 0 then e_ino e \<noteq> 0 \<and> entered f d nm e f'' else same_counts f f''"
  proof (cases "err = 0")
    case False
    then have "same_counts g f'" using l by (simp add: looked_up_def)
    then show ?thesis using False same_counts_trans [OF g(1)] same_counts_trans [OF _ same] by simp
  next
    case True
    then have "e_ino e \<noteq> 0" "entered g d nm e f'" using l by (simp_all add: looked_up_def)
    moreover have "entered f d nm e f'" using entered_same [OF g(1)] calculation(2) by simp
    ultimately show ?thesis using True same
      by (auto simp: entered_def counted_def same_counts_def f'') (auto intro!: exI)
  qed
qed

lemma lookup_handled:
  assumes i: "idle (tree L)" "\<not> interruptible L" and d: "known_dir (tree L) d" "known_way (tree L) d"
    and few: "card (dom (heap (tree L))) < MAX_NODES" and r: "remember (conf (tree L)) = 0" and z: "no_zero (tree L)"
    and nm: "length nm \<le> 1024" "nm \<noteq> DOT" "nm \<noteq> DOT @ DOT"
  shows "lookup_done L d nm (fuse_lib_lookup j cx L d nm)"
proof -
  let ?f = "tree L"
  define M where "M = req_fuse_prepare cx L"
  have M: "tree M = ?f" "replies M = replies L" "answers M = answers L" "\<not> interruptible M" using i(2) by (simp_all add: M_def)
  have req: "request_ok (tree M) d (Some nm) False" using d(1) nm(1) M(1) by (auto simp: request_ok_def known_dir_def)
  have iM: "idle (tree M)" using i(1) M(1) by simp
  let ?act = "\<lambda>path L. do { (err, e, fi, L1) \<leftarrow> lookup_path d (Some nm) None path L;
       Some (if err = - ENOENT \<and> negative_timeout (conf (tree L1)) \<noteq> 0
             then (0, e\<lparr>e_ino := 0, e_entry_timeout := negative_timeout (conf (tree L1))\<rparr>, L1) else (err, e, L1)) }"
  let ?k = "\<lambda>err e L. do { L1 \<leftarrow> unref_dot None L; reply_entry j L1 e err }"
  have k: "?k err e L1 = reply_entry j L1 e err" for err e and L1 :: "'a lib" by (simp add: unref_dot_def)
  have run: "fuse_lib_lookup j cx L d nm = path_call False (\<lambda>i f. get_path_common i f d (Some nm) False) j M d zero_entry ?act ?k"
    using nm(2,3) by (simp add: fuse_lib_lookup_def lookup_rest_def M_def Let_def)
  show ?thesis unfolding run
  proof (cases rule: path_call_held [OF iM req, of j zero_entry ?act ?k])
    case (1 err al)
    let ?N = "M\<lparr>tree := ?f\<lparr>allocs := al\<rparr>\<rparr>"
    have idle: "idle (tree ?N)" using idle_allocs [OF i(1), of al] by simp
    have "same_counts ?f (tree ?N)"
      using relock_counts [of "\<lambda>_. 0" ?f "\<lambda>_. 0" al] idle_relock [OF i(1), of al] i(1) tree_okD(3) by (simp add: idle_def)
    moreover have "err \<noteq> 0" using 1(2) by (auto simp: ENOMEM_def ESTALE_def)
    ultimately show "lookup_done L d nm (path_call False (\<lambda>i f. get_path_common i f d (Some nm) False) j M d zero_entry ?act ?k)"
      unfolding 1(1) unfolding k M(1)
      by (intro lookup_done_err) (use idle M in \<open>simp_all add: idle_def unlocked_def\<close>)
  next
    case (2 p ps g)
    let ?path = "Some (path_text (tree M) ps (Some nm))"
    have hold: "holds_path ?f d p ps None g" using 2(1) M(1) by simp
    then have h: "lock_inv g {#(d, ps, None)#}" "lockq g = []" using holds_pathD(2,3) i(1) by (auto simp: idle_def)
    obtain t al where g: "g = relock t al ?f" using hold by (auto simp: holds_path_def)
    have c: "conf g = conf ?f" "same_counts ?f g"
      using relock_counts [OF tree_okD(3), of ?f t al] i(1) by (simp_all add: g idle_def)
    let ?L1 = "fuse_prepare_interrupt (M\<lparr>tree := g\<rparr>)"
    have L1: "tree ?L1 = g" by (simp add: fuse_prepare_interrupt_def)
    have "tree_ok g" by (rule held_tree_ok [OF i(1) hold d(2)])
    moreover have "known_dir g d" using d(1) by (auto simp: known_dir_def g)
    moreover have "dom (heap g) = dom (heap ?f)" by (auto simp: g)
    moreover have "no_zero g" using z by (auto simp: no_zero_def g)
    ultimately have pre: "tree_ok (tree ?L1)" "known_dir (tree ?L1) d" "card (dom (heap (tree ?L1))) < MAX_NODES"
        "remember (conf (tree ?L1)) = 0" "no_zero (tree ?L1)"
      using few r c(1) unfolding L1 by simp_all
    obtain err e fi en f' where look: "lookup_path d (Some nm) None ?path ?L1 = Some (err, e, fi, ?L1\<lparr>env := en, tree := f'\<rparr>)"
        and l0: "looked_up (tree ?L1) d nm err e f'"
      by (rule lookup_path_step [OF pre])
    have l: "looked_up g d nm err e f'" using l0 unfolding L1 .
    define f'' where "f'' = relock (\<lambda>_. 0) (allocs f') f'"
    note rel = looked_up_released [OF h(1) c(2) h(2) c(1) l f''_def]
    have fin: "fuse_finish_interrupt (?L1\<lparr>env := en, tree := f'\<rparr>) = M\<lparr>env := en, tree := f'\<rparr>"
      by (rule interrupt_window) (use M c(1) rel(3) in simp_all)
    have give: "give_path d ?path (M\<lparr>env := en, tree := f'\<rparr>) = Some (M\<lparr>env := en, tree := f''\<rparr>)"
      using give_held [of "M\<lparr>env := en, tree := f'\<rparr>" d ps] rel(1,2) by (simp add: f''_def)
    let ?neg = "err = - ENOENT \<and> negative_timeout (conf f') \<noteq> 0"
    let ?N = "M\<lparr>env := en, tree := f''\<rparr>"
    have N: "tree_ok (tree ?N)" "unlocked (tree ?N)" "lockq (tree ?N) = []" "replies ?N = replies L" "answers ?N = answers L"
      "remember (conf (tree ?N)) = 0"
      using rel(4-7) M r by simp_all
    have "path_call False (\<lambda>i f. get_path_common i f d (Some nm) False) j M d zero_entry ?act ?k =
        (if ?neg then reply_entry j ?N (e\<lparr>e_ino := 0, e_entry_timeout := negative_timeout (conf f')\<rparr>) 0
         else reply_entry j ?N e err)"
      unfolding 2(2) using look fin give by (simp add: k)
    moreover have "lookup_done L d nm (reply_entry j ?N (e\<lparr>e_ino := 0, e_entry_timeout := negative_timeout (conf f')\<rparr>) 0)" if ?neg
      using rel(8) that by (intro lookup_done_negative N) (simp_all add: ENOENT_def)
    moreover have "lookup_done L d nm (reply_entry j ?N e err)"
    proof (cases "err = 0")
      case True
      show ?thesis unfolding True by (rule lookup_done_entry [OF N(1-5) _ _ N(6)]) (use rel(8) True in simp_all)
    next
      case False
      then show ?thesis using rel(8) by (intro lookup_done_err N) simp_all
    qed
    ultimately show "lookup_done L d nm (path_call False (\<lambda>i f. get_path_common i f d (Some nm) False) j M d zero_entry ?act ?k)"
      by simp
  qed
qed

section \<open>Property\<close>

text \<open>A tree with the root only, idle.\<close>

definition bare :: fuse where
  "bare = (relock (\<lambda>_. 0) [] (demo_tree 0))\<lparr>lockq := []\<rparr>"

lemma bare_root: "heap bare x = Some n \<Longrightarrow> nodeid n = FUSE_ROOT_ID"
proof -
  assume n: "heap bare x = Some n"
  note d = demo_tree_facts [of 0]
  have ids: "ids_inv (demo_tree 0)" "finite (dom (heap (demo_tree 0)))"
    using tree_okD(3) [OF d(1)] by (simp_all add: nodes_inv_def mem_inv_def)
  obtain q where "get_node (demo_tree 0) FUSE_ROOT_ID = Some q" using d(3) by (auto simp: known_dir_def)
  then obtain m where q: "heap (demo_tree 0) q = Some m" "nodeid m = FUSE_ROOT_ID"
    using get_node_iff [OF ids, of FUSE_ROOT_ID q] by (auto simp: is_id_iff)
  obtain y where y: "dom (heap (demo_tree 0)) = {y}" using d(6) by (metis card_1_singletonE)
  obtain k where k: "heap (demo_tree 0) x = Some k" "nodeid n = nodeid k" using n by (auto simp: bare_def)
  have "x \<in> dom (heap (demo_tree 0))" "q \<in> dom (heap (demo_tree 0))" using k(1) q(1) by (simp_all add: domIff)
  then have "x = q" using y by simp
  then show ?thesis using k q by simp
qed

lemma bare_climbs: "climbs bare p ps e \<Longrightarrow> ps = []"
  by (erule climbs.cases) (auto dest: bare_root)

lemma bare_facts:
  "idle bare" "known_dir bare FUSE_ROOT_ID" "known_way bare d" "card (dom (heap bare)) < MAX_NODES"
  "remember (conf bare) = 0" "no_zero bare"
proof -
  note d = demo_tree_facts [of 0]
  have "tree_ok bare" unfolding bare_def by (intro tree_ok_lockq tree_ok_relock d(1))
  moreover have "short_paths bare" unfolding short_paths_def by (auto dest: bare_climbs simp: MAX_PATH_def)
  ultimately show "idle bare" by (auto simp: idle_def bare_def)
  show "known_dir bare FUSE_ROOT_ID" using d(3) by (auto simp: known_dir_def bare_def)
  show "known_way bare d" by (auto simp: known_way_def dest: bare_climbs)
  have "dom (heap bare) = dom (heap (demo_tree 0))" by (auto simp: bare_def)
  then show "card (dom (heap bare)) < MAX_NODES" using d(6) by (simp add: MAX_NODES_def)
  show "remember (conf bare) = 0" using d(4) by (simp add: bare_def demo_cfg_def)
  show "no_zero bare" using bare_root by (auto simp: no_zero_def FUSE_ROOT_ID_def)
qed

text \<open>
  C1. A lookup of a name that is neither \<open>.\<close> nor \<open>..\<close> and not longer than 1024 characters, on an idle library and
  below directories the kernel knows, is answered exactly once, whatever the file system and the memory
  allocations answer.  The library does not remember nodes for a time of its own (\<open>remember\<close> is 0, the default:
  with it a new node has one more lookup, the library's own), and there is no interrupt signal.  The tree is left in order and unlocked, and the library counts
  exactly the lookups it told the kernel of: with an entry one more lookup of the entry's number, under
  the name looked up; with an error or a negative entry none; and when the kernel had given the request up,
  so that the reply was lost, none either, as the lookup is given back.
\<close>
theorem lookup_counts_what_it_replies:
  assumes "idle (tree L)" "\<not> interruptible L" "known_dir (tree L) d" "known_way (tree L) d"
    and "card (dom (heap (tree L))) < MAX_NODES" "remember (conf (tree L)) = 0" "no_zero (tree L)"
    and "length nm \<le> 1024" "nm \<noteq> DOT" "nm \<noteq> DOT @ DOT"
  shows "\<exists>L' r. fuse_lib_lookup j cx L d nm = Some (Finished L') \<and> replies L' = replies L @ [r] \<and>
     tree_ok (tree L') \<and> unlocked (tree L') \<and> lockq (tree L') = [] \<and>
     (case r of
        Reply_err err \<Rightarrow> same_counts (tree L) (tree L')
      | Reply_entry e \<Rightarrow>
          if e_ino e = 0 then same_counts (tree L) (tree L')
          else if lost L then lookups (tree L') = lookups (tree L)
          else counted (tree L) d nm (e_ino e) (tree L')
      | _ \<Rightarrow> False)"
  using lookup_handled [OF assms, of j cx] unfolding lookup_done_def .

theorem lookup_counts_what_it_replies_witness:
  "\<exists>(L :: bytes lib) L' r. fsys L = demo_fs \<and> fuse_lib_lookup 1 no_context L FUSE_ROOT_ID ''a'' = Some (Finished L') \<and>
     replies L' = [r] \<and> tree_ok (tree L') \<and> unlocked (tree L')"
proof -
  let ?L = "demo_lib bare"
  have "length ''a'' \<le> 1024" "''a'' \<noteq> DOT" "''a'' \<noteq> DOT @ DOT" by (simp_all add: DOT_def)
  moreover have "idle (tree ?L)" "\<not> interruptible ?L" "known_dir (tree ?L) FUSE_ROOT_ID" "known_way (tree ?L) FUSE_ROOT_ID"
      "card (dom (heap (tree ?L))) < MAX_NODES" "remember (conf (tree ?L)) = 0" "no_zero (tree ?L)"
    using bare_facts by simp_all
  ultimately obtain L' r where "fuse_lib_lookup 1 no_context ?L FUSE_ROOT_ID ''a'' = Some (Finished L')" "replies L' = replies ?L @ [r]"
      "tree_ok (tree L')" "unlocked (tree L')"
    using lookup_counts_what_it_replies [of ?L FUSE_ROOT_ID "''a''" 1 no_context] by (elim meta_impE exE conjE) blast
  moreover have "fsys ?L = demo_fs" by simp
  moreover have "replies ?L = []" by simp
  ultimately show ?thesis by (metis append_Nil)
qed

end
