(* ===== verification/Session.thy ===== *)
theory Session
  imports Wire
begin

text \<open>
  The session of the low-level library and what it sends, \<open>.deps/libfuse3-3.16.2/lib/fuse_lowlevel.c\<close>
  with \<open>lib/fuse_i.h\<close>: requests and their reference counts, channels, messages, the functions
  \<open>fuse_reply_*\<close> and the notifications.

  A request is a number, \<open>req_heap\<close> maps the live ones to their contents; a function that is handed a
  request that is not live, or that would reach a failed assertion, is \<open>None\<close>.  The two rings of
  requests are lists without their heads, a request is on at most one of them.  \<open>sent\<close> are the messages
  the device has taken, with the channel; \<open>write_results\<close> are the results of the next \<open>writev\<close> calls, 0 or the
  error number (used up: 0).  Functions that hold \<open>se->lock\<close> throughout are one step.
\<close>

section \<open>State\<close>

datatype req_u =
  U_i u64              \<comment> \<open>\<open>u.i.unique\<close>\<close>
| U_ni "nat option"    \<comment> \<open>\<open>u.ni\<close>, the function with its data, or NULL\<close>

record fuse_req =
  r_unique :: u64
  r_ctr :: int
  r_ctx :: fuse_context
  r_ch :: "nat option"
  r_interrupted :: bool
  r_u :: req_u

text \<open>The operations a low-level file system may have.\<close>

datatype ll_op =
  Op_init | Op_destroy | Op_lookup | Op_forget | Op_getattr | Op_setattr | Op_readlink | Op_mknod | Op_mkdir
| Op_unlink | Op_rmdir | Op_symlink | Op_rename | Op_link | Op_open | Op_read | Op_write | Op_flush | Op_release
| Op_fsync | Op_opendir | Op_readdir | Op_releasedir | Op_fsyncdir | Op_statfs | Op_setxattr | Op_getxattr
| Op_listxattr | Op_removexattr | Op_access | Op_create | Op_getlk | Op_setlk | Op_bmap | Op_ioctl | Op_poll
| Op_write_buf | Op_retrieve_reply | Op_forget_multi | Op_flock | Op_fallocate | Op_readdirplus
| Op_copy_file_range | Op_lseek

text \<open>\<open>custom_io\<close> tells whether the user's I/O functions include \<open>splice_send\<close> and \<open>splice_receive\<close>.\<close>

record session =
  exited :: bool
  custom_io :: "(bool \<times> bool) option"
  mo_max_read :: u32
  deny_others :: bool
  has_op :: "ll_op \<Rightarrow> bool"
  got_init :: bool
  is_cuse :: bool
  owner :: u32
  conn :: fuse_conn_info
  se_list :: "nat list"
  interrupts :: "nat list"
  got_destroy :: bool
  broken_splice_nonblock :: bool
  notify_ctr :: u64
  notify_list :: "(u64 \<times> nat) list"
  bufsize :: nat
  se_error :: int
  pagesize :: nat
  glibc :: bool                     \<comment> \<open>compiled for glibc 2.32 or later\<close>
  req_heap :: "nat \<Rightarrow> fuse_req option"
  req_next :: nat
  chan_ctr :: "nat \<Rightarrow> nat"
  sent :: "(nat option \<times> bytes) list"
  write_results :: "int list"
  s_allocs :: allocs
  called :: "(nat \<times> nat) list"     \<comment> \<open>calls of interrupt functions: request, function\<close>

section \<open>Requests\<close>

definition upd_req :: "nat \<Rightarrow> (fuse_req \<Rightarrow> fuse_req) \<Rightarrow> session \<Rightarrow> session" where
  "upd_req r g s = s\<lparr>req_heap := (req_heap s)(r := map_option g (req_heap s r))\<rparr>"

definition take_alloc :: "session \<Rightarrow> bool \<times> session" where
  "take_alloc s = (let (ok, al) = alloc_next (s_allocs s) in (ok, s\<lparr>s_allocs := al\<rparr>))"

definition fuse_chan_get :: "nat \<Rightarrow> session \<Rightarrow> session option" where
  "fuse_chan_get c s = (if 0 < chan_ctr s c then Some (s\<lparr>chan_ctr := (chan_ctr s)(c := chan_ctr s c + 1)\<rparr>) else None)"

definition fuse_chan_put :: "nat option \<Rightarrow> session \<Rightarrow> session option" where
  \<comment> \<open>a channel whose counter is 0 is closed and freed\<close>
  "fuse_chan_put ch s =
     (case ch of
        None \<Rightarrow> Some s
      | Some c \<Rightarrow> if 0 < chan_ctr s c then Some (s\<lparr>chan_ctr := (chan_ctr s)(c := chan_ctr s c - 1)\<rparr>) else None)"

definition list_del_req :: "nat \<Rightarrow> session \<Rightarrow> session" where
  "list_del_req r s = s\<lparr>se_list := remove1 r (se_list s), interrupts := remove1 r (interrupts s)\<rparr>"

definition destroy_req :: "nat \<Rightarrow> session \<Rightarrow> session option" where
  "destroy_req r s =
     do { q \<leftarrow> req_heap s r; if r_ch q = None then Some (s\<lparr>req_heap := (req_heap s)(r := None)\<rparr>) else None }"

text \<open>\<open>fuse_chan_put (req->ch); req->ch = NULL\<close>\<close>

definition put_chan :: "nat \<Rightarrow> session \<Rightarrow> session option" where
  "put_chan r s =
     do { q \<leftarrow> req_heap s r;
          s1 \<leftarrow> fuse_chan_put (r_ch q) s;
          Some (upd_req r (\<lambda>q. q\<lparr>r_ch := None\<rparr>) s1) }"

definition fuse_free_req :: "nat \<Rightarrow> session \<Rightarrow> session option" where
  "fuse_free_req r s =
     do { q \<leftarrow> req_heap s r;
          let s1 = list_del_req r (upd_req r (\<lambda>q. q\<lparr>r_u := U_ni None, r_ctr := r_ctr q - 1\<rparr>) s);
          s2 \<leftarrow> put_chan r s1;
          if r_ctr q - 1 = 0 then destroy_req r s2 else Some s2 }"

text \<open>\<open>calloc\<close> leaves \<open>u\<close> all zero, which is NULL for \<open>u.ni\<close>.\<close>

definition fuse_ll_alloc_req :: "session \<Rightarrow> nat option \<times> session" where
  "fuse_ll_alloc_req s =
     (let (ok, s1) = take_alloc s in
      if \<not> ok then (None, s1)
      else (Some (req_next s1),
            s1\<lparr>req_heap := (req_heap s1)(req_next s1 \<mapsto>
                 \<lparr>r_unique = 0, r_ctr = 1, r_ctx = no_context, r_ch = None, r_interrupted = False, r_u = U_ni None\<rparr>),
               req_next := req_next s1 + 1\<rparr>))"

section \<open>Messages\<close>

text \<open>
  A message is a header and the parts behind it; the header's length is a 32-bit number.  A session with
  its own I/O functions calls their \<open>writev\<close>, which answers like the system call.
\<close>

definition message :: "int \<Rightarrow> u64 \<Rightarrow> bytes list \<Rightarrow> bytes" where
  "message err uniq parts = fuse_out_header (of_nat (16 + length (concat parts))) err uniq @ concat parts"

definition fuse_send_msg :: "nat option \<Rightarrow> int \<Rightarrow> u64 \<Rightarrow> bytes list \<Rightarrow> session \<Rightarrow> int \<times> session" where
  "fuse_send_msg ch err uniq parts s =
     (let (e, rest) = (case write_results s of [] \<Rightarrow> (0, []) | e # es \<Rightarrow> (e, es)); s1 = s\<lparr>write_results := rest\<rparr> in
      if e \<noteq> 0 then (- e, s1) else (0, s1\<lparr>sent := sent s1 @ [(ch, message err uniq parts)]\<rparr>))"

text \<open>The error numbers \<open>strerrordesc_np\<close> of glibc on Linux knows.\<close>

definition known_errno :: "int \<Rightarrow> bool" where
  "known_errno n \<longleftrightarrow> 0 \<le> n \<and> n \<le> 133 \<and> n \<noteq> 41 \<and> n \<noteq> 58"

text \<open>Without that function, as with musl, every number down to -999 is sent.\<close>

definition bad_error :: "bool \<Rightarrow> int \<Rightarrow> bool" where
  "bad_error g err \<longleftrightarrow> (if g then \<not> known_errno (- err) \<and> err \<noteq> 0 \<or> 0 < err else err \<le> -1000 \<or> 0 < err)"

definition fuse_send_reply_iov_nofree :: "nat \<Rightarrow> int \<Rightarrow> bytes list \<Rightarrow> session \<Rightarrow> (int \<times> session) option" where
  "fuse_send_reply_iov_nofree r err parts s =
     do { q \<leftarrow> req_heap s r;
          let err1 = (if bad_error (glibc s) err then - ERANGE else err);
          Some (fuse_send_msg (r_ch q) err1 (r_unique q) parts s) }"

definition send_reply_iov :: "nat \<Rightarrow> int \<Rightarrow> bytes list \<Rightarrow> session \<Rightarrow> (int \<times> session) option" where
  "send_reply_iov r err parts s =
     do { (res, s1) \<leftarrow> fuse_send_reply_iov_nofree r err parts s;
          s2 \<leftarrow> fuse_free_req r s1;
          Some (res, s2) }"

definition send_reply :: "nat \<Rightarrow> int \<Rightarrow> bytes \<Rightarrow> session \<Rightarrow> (int \<times> session) option" where
  "send_reply r err arg s = send_reply_iov r err (if arg = [] then [] else [arg]) s"

definition send_reply_ok :: "nat \<Rightarrow> bytes \<Rightarrow> session \<Rightarrow> (int \<times> session) option" where
  "send_reply_ok r arg s = send_reply r 0 arg s"

definition fuse_reply_err :: "nat \<Rightarrow> int \<Rightarrow> session \<Rightarrow> (int \<times> session) option" where
  "fuse_reply_err r err s = send_reply r (- err) [] s"

definition fuse_reply_none :: "nat \<Rightarrow> session \<Rightarrow> session option" where
  "fuse_reply_none r s = fuse_free_req r s"

definition fuse_reply_iov :: "nat \<Rightarrow> bytes list \<Rightarrow> session \<Rightarrow> (int \<times> session) option" where
  "fuse_reply_iov r parts s =
     (let (ok, s1) = take_alloc s in
      if \<not> ok then fuse_reply_err r ENOMEM s1 else send_reply_iov r 0 parts s1)"

section \<open>Replies\<close>

definition FUSE_COMPAT_ENTRY_OUT_SIZE :: nat where "FUSE_COMPAT_ENTRY_OUT_SIZE = 120"
definition FUSE_COMPAT_ATTR_OUT_SIZE :: nat where "FUSE_COMPAT_ATTR_OUT_SIZE = 96"
definition FUSE_COMPAT_STATFS_SIZE :: nat where "FUSE_COMPAT_STATFS_SIZE = 48"

definition flag_if :: "bool \<Rightarrow> u32 \<Rightarrow> u32 \<Rightarrow> u32" where
  "flag_if b w f = (if b then or f w else f)"

definition fill_open :: "fuse_file_info \<Rightarrow> bytes" where
  \<comment> \<open>\<open>FOPEN_*\<close> of \<open>fuse_kernel.h\<close>\<close>
  "fill_open fi =
     (let f1 = flag_if (fi_direct_io fi) 1 0;
          f2 = flag_if (fi_keep_cache fi) 2 f1;
          f3 = flag_if (fi_cache_readdir fi) 8 f2;
          f4 = flag_if (fi_nonseekable fi) 4 f3;
          f5 = flag_if (fi_noflush fi) 0x20 f4;
          f6 = flag_if (fi_parallel_direct_writes fi) 0x40 f5
      in fuse_open_out (fi_fh fi) f6)"

definition entry_size :: "session \<Rightarrow> nat" where
  "entry_size s = (if proto_minor (conn s) < 9 then FUSE_COMPAT_ENTRY_OUT_SIZE else 128)"

definition fuse_reply_entry :: "nat \<Rightarrow> fuse_entry_param \<Rightarrow> session \<Rightarrow> (int \<times> session) option" where
  "fuse_reply_entry r e s =
     (if e_ino e = 0 \<and> proto_minor (conn s) < 4 then fuse_reply_err r ENOENT s
      else send_reply_ok r (take (entry_size s) (entry_bytes e)) s)"

definition fuse_reply_create :: "nat \<Rightarrow> fuse_entry_param \<Rightarrow> fuse_file_info \<Rightarrow> session \<Rightarrow> (int \<times> session) option" where
  \<comment> \<open>the second structure is written over the end of the first when that is cut\<close>
  "fuse_reply_create r e fi s = send_reply_ok r (take (entry_size s) (entry_bytes e) @ fill_open fi) s"

definition fuse_reply_attr :: "nat \<Rightarrow> stat \<Rightarrow> rat \<Rightarrow> session \<Rightarrow> (int \<times> session) option" where
  "fuse_reply_attr r st timeout s =
     send_reply_ok r (take (if proto_minor (conn s) < 9 then FUSE_COMPAT_ATTR_OUT_SIZE else 104) (fuse_attr_out timeout st)) s"

definition fuse_reply_readlink :: "nat \<Rightarrow> string \<Rightarrow> session \<Rightarrow> (int \<times> session) option" where
  "fuse_reply_readlink r linkname s = send_reply_ok r (name_bytes linkname) s"

definition fuse_reply_open :: "nat \<Rightarrow> fuse_file_info \<Rightarrow> session \<Rightarrow> (int \<times> session) option" where
  "fuse_reply_open r fi s = send_reply_ok r (fill_open fi) s"

definition fuse_reply_write :: "nat \<Rightarrow> int \<Rightarrow> session \<Rightarrow> (int \<times> session) option" where
  "fuse_reply_write r n s = send_reply_ok r (fuse_write_out (of_int n)) s"

definition fuse_reply_buf :: "nat \<Rightarrow> bytes \<Rightarrow> session \<Rightarrow> (int \<times> session) option" where
  "fuse_reply_buf r bs s = send_reply_ok r bs s"

definition fuse_reply_statfs :: "nat \<Rightarrow> statvfs \<Rightarrow> session \<Rightarrow> (int \<times> session) option" where
  "fuse_reply_statfs r st s =
     send_reply_ok r (take (if proto_minor (conn s) < 4 then FUSE_COMPAT_STATFS_SIZE else 80) (fuse_kstatfs st)) s"

definition fuse_reply_xattr :: "nat \<Rightarrow> int \<Rightarrow> session \<Rightarrow> (int \<times> session) option" where
  "fuse_reply_xattr r n s = send_reply_ok r (fuse_getxattr_out (of_int n)) s"

definition lock_num :: "lock_type \<Rightarrow> u32" where
  "lock_num t = (case t of F_RDLCK \<Rightarrow> 0 | F_WRLCK \<Rightarrow> 1 | F_UNLCK \<Rightarrow> 2)"

definition lock_bytes :: "flock \<Rightarrow> bytes" where
  "lock_bytes fl =
     (if l_type fl \<noteq> F_UNLCK
      then fuse_file_lock (of_int (l_start fl)) (if l_len fl = 0 then of_int OFFSET_MAX else of_int (l_start fl + l_len fl - 1))
             (lock_num (l_type fl)) (of_int (l_pid fl))
      else fuse_file_lock 0 0 (lock_num F_UNLCK) (of_int (l_pid fl)))"

definition fuse_reply_lock :: "nat \<Rightarrow> flock \<Rightarrow> session \<Rightarrow> (int \<times> session) option" where
  "fuse_reply_lock r fl s = send_reply_ok r (lock_bytes fl) s"

definition fuse_reply_bmap :: "nat \<Rightarrow> u64 \<Rightarrow> session \<Rightarrow> (int \<times> session) option" where
  "fuse_reply_bmap r idx s = send_reply_ok r (fuse_bmap_out idx) s"

text \<open>The vectors of an ioctl that has to be tried again: addresses and lengths.\<close>

definition iovec_bytes :: "(u64 \<times> u64) list \<Rightarrow> bytes" where
  "iovec_bytes vs = concat (map (\<lambda>(base, len). w64 base @ w64 len) vs)"

definition fuse_ioctl_iovec_copy :: "(u64 \<times> u64) list \<Rightarrow> session \<Rightarrow> bytes option \<times> session" where
  "fuse_ioctl_iovec_copy vs s = (let (ok, s1) = take_alloc s in (if ok then Some (iovec_bytes vs) else None, s1))"

definition retry_part :: "(u64 \<times> u64) list \<Rightarrow> session \<Rightarrow> bytes list option \<times> session" where
  "retry_part vs s =
     (if vs = [] then (Some [], s)
      else if proto_minor (conn s) < 16 then (Some [iovec_bytes vs], s)
      else case fuse_ioctl_iovec_copy vs s of (None, s1) \<Rightarrow> (None, s1) | (Some bs, s1) \<Rightarrow> (Some [bs], s1))"

definition fuse_reply_ioctl_retry ::
  "nat \<Rightarrow> (u64 \<times> u64) list \<Rightarrow> (u64 \<times> u64) list \<Rightarrow> session \<Rightarrow> (int \<times> session) option" where
  "fuse_reply_ioctl_retry r in_iov out_iov s =
     (case retry_part in_iov s of
        (None, s1) \<Rightarrow> fuse_reply_err r ENOMEM s1
      | (Some in_part, s1) \<Rightarrow>
          (case retry_part out_iov s1 of
             (None, s2) \<Rightarrow> fuse_reply_err r ENOMEM s2
           | (Some out_part, s2) \<Rightarrow>
               send_reply_iov r 0 (fuse_ioctl_out 0 4 (length in_iov) (length out_iov) # in_part @ out_part) s2))"

definition fuse_reply_ioctl :: "nat \<Rightarrow> int \<Rightarrow> bytes \<Rightarrow> session \<Rightarrow> (int \<times> session) option" where
  "fuse_reply_ioctl r result bs s =
     send_reply_iov r 0 (fuse_ioctl_out result 0 0 0 # (if bs = [] then [] else [bs])) s"

definition fuse_reply_ioctl_iov :: "nat \<Rightarrow> int \<Rightarrow> bytes list \<Rightarrow> session \<Rightarrow> (int \<times> session) option" where
  "fuse_reply_ioctl_iov r result parts s =
     (let (ok, s1) = take_alloc s in
      if \<not> ok then fuse_reply_err r ENOMEM s1 else send_reply_iov r 0 (fuse_ioctl_out result 0 0 0 # parts) s1)"

definition fuse_reply_poll :: "nat \<Rightarrow> u32 \<Rightarrow> session \<Rightarrow> (int \<times> session) option" where
  "fuse_reply_poll r revents s = send_reply_ok r (fuse_poll_out revents) s"

definition fuse_reply_lseek :: "nat \<Rightarrow> int \<Rightarrow> session \<Rightarrow> (int \<times> session) option" where
  "fuse_reply_lseek r off s = send_reply_ok r (fuse_lseek_out off) s"

section \<open>Notifications\<close>

definition ENOTCONN :: int where "ENOTCONN = 107"

definition FUSE_NOTIFY_POLL :: int where "FUSE_NOTIFY_POLL = 1"
definition FUSE_NOTIFY_INVAL_INODE :: int where "FUSE_NOTIFY_INVAL_INODE = 2"
definition FUSE_NOTIFY_INVAL_ENTRY :: int where "FUSE_NOTIFY_INVAL_ENTRY = 3"
definition FUSE_NOTIFY_STORE :: int where "FUSE_NOTIFY_STORE = 4"
definition FUSE_NOTIFY_RETRIEVE :: int where "FUSE_NOTIFY_RETRIEVE = 5"
definition FUSE_NOTIFY_DELETE :: int where "FUSE_NOTIFY_DELETE = 6"
definition FUSE_CAP_EXPIRE_ONLY :: u32 where "FUSE_CAP_EXPIRE_ONLY = 0x4000000"

definition send_notify_iov :: "int \<Rightarrow> bytes list \<Rightarrow> session \<Rightarrow> int \<times> session" where
  "send_notify_iov code parts s =
     (if \<not> got_init s then (- ENOTCONN, s) else fuse_send_msg None code 0 parts s)"

definition fuse_lowlevel_notify_poll :: "u64 option \<Rightarrow> session \<Rightarrow> int \<times> session" where
  "fuse_lowlevel_notify_poll ph s =
     (case ph of
        Some kh \<Rightarrow> send_notify_iov FUSE_NOTIFY_POLL [fuse_notify_poll_wakeup_out kh] s
      | None \<Rightarrow> (0, s))"

definition fuse_lowlevel_notify_inval_inode :: "u64 \<Rightarrow> int \<Rightarrow> int \<Rightarrow> session \<Rightarrow> int \<times> session" where
  "fuse_lowlevel_notify_inval_inode ino off len s =
     (if proto_minor (conn s) < 12 then (- ENOSYS, s)
      else send_notify_iov FUSE_NOTIFY_INVAL_INODE [fuse_notify_inval_inode_out ino off len] s)"

definition fuse_lowlevel_notify_entry :: "u64 \<Rightarrow> string \<Rightarrow> bool \<Rightarrow> session \<Rightarrow> int \<times> session" where
  "fuse_lowlevel_notify_entry parnt nm expire_only s =
     (if proto_minor (conn s) < 12 then (- ENOSYS, s)
      else send_notify_iov FUSE_NOTIFY_INVAL_ENTRY
             [fuse_notify_inval_entry_out parnt (length nm) (if expire_only then 1 else 0), cstr_bytes nm] s)"

definition fuse_lowlevel_notify_inval_entry :: "u64 \<Rightarrow> string \<Rightarrow> session \<Rightarrow> int \<times> session" where
  "fuse_lowlevel_notify_inval_entry parnt nm s = fuse_lowlevel_notify_entry parnt nm False s"

definition fuse_lowlevel_notify_expire_entry :: "u64 \<Rightarrow> string \<Rightarrow> session \<Rightarrow> int \<times> session" where
  "fuse_lowlevel_notify_expire_entry parnt nm s =
     (if \<not> has_bit (capable (conn s)) FUSE_CAP_EXPIRE_ONLY then (- ENOSYS, s)
      else fuse_lowlevel_notify_entry parnt nm True s)"

definition fuse_lowlevel_notify_delete :: "u64 \<Rightarrow> u64 \<Rightarrow> string \<Rightarrow> session \<Rightarrow> int \<times> session" where
  "fuse_lowlevel_notify_delete parnt child nm s =
     (if proto_minor (conn s) < 18 then (- ENOSYS, s)
      else send_notify_iov FUSE_NOTIFY_DELETE [fuse_notify_delete_out parnt child (length nm), cstr_bytes nm] s)"

text \<open>\<open>size\<close> is stored in 32 bits, here and in \<open>fuse_lowlevel_notify_store\<close>.\<close>

definition fuse_lowlevel_notify_retrieve :: "u64 \<Rightarrow> nat \<Rightarrow> int \<Rightarrow> nat \<Rightarrow> session \<Rightarrow> int \<times> session" where
  "fuse_lowlevel_notify_retrieve ino sz off cookie s =
     (if proto_minor (conn s) < 15 then (- ENOSYS, s)
      else
        let (ok, s1) = take_alloc s in
        if \<not> ok then (- ENOMEM, s1)
        else
          let uniq = notify_ctr s1;
              s2 = s1\<lparr>notify_ctr := uniq + 1, notify_list := notify_list s1 @ [(uniq, cookie)]\<rparr>;
              (err, s3) = send_notify_iov FUSE_NOTIFY_RETRIEVE [fuse_notify_retrieve_out uniq ino off sz] s2
          in if err \<noteq> 0 then (err, s3\<lparr>notify_list := remove1 (uniq, cookie) (notify_list s3)\<rparr>) else (err, s3))"

section \<open>Interrupts, seen by a request\<close>

definition fuse_req_interrupt_func :: "nat \<Rightarrow> nat option \<Rightarrow> session \<Rightarrow> session option" where
  "fuse_req_interrupt_func r func s =
     do { q \<leftarrow> req_heap s r;
          let s1 = upd_req r (\<lambda>q. q\<lparr>r_u := U_ni func\<rparr>) s;
          Some (case func of
                  Some f \<Rightarrow> if r_interrupted q then s1\<lparr>called := called s1 @ [(r, f)]\<rparr> else s1
                | None \<Rightarrow> s1) }"

definition fuse_req_interrupted :: "nat \<Rightarrow> session \<Rightarrow> bool option" where
  "fuse_req_interrupted r s = map_option r_interrupted (req_heap s r)"

end
