(* ===== verification/DataReply.thy ===== *)
theory DataReply
  imports Session
begin

text \<open>
  Replies with the contents of buffers, \<open>fuse_send_data_iov\<close> and its callers of
  \<open>.deps/libfuse3-3.16.2/lib/fuse_lowlevel.c\<close>: through a pipe of the thread when that pays, and otherwise
  as an ordinary message.

  The system calls on pipes are the parameter \<open>po\<close>, over the state of the kernel.  \<open>vmsplice\<close> maps the
  pages of the header into the pipe without copying them, so the call that moves the pipe's contents to
  the device is given the header as it is then; it answers the bytes it has moved as one message.
\<close>

section \<open>State\<close>

record fuse_ll_pipe =
  pp_size :: nat
  can_grow :: bool
  pipe_out :: int
  pipe_in :: int

record 'w pipe_ops =
  po_pipe :: "'w \<Rightarrow> (int \<times> int) option \<times> 'w"
  po_close :: "int \<Rightarrow> 'w \<Rightarrow> 'w"
  po_setsize :: "int \<Rightarrow> nat \<Rightarrow> 'w \<Rightarrow> (int + nat) \<times> 'w"
  po_maxsize :: "'w \<Rightarrow> (int + string) \<times> 'w"      \<comment> \<open>the text of \<open>/proc/sys/fs/pipe-max-size\<close>\<close>
  po_vmsplice :: "int \<Rightarrow> bytes \<Rightarrow> 'w \<Rightarrow> (int + nat) \<times> 'w"
  po_send :: "int \<Rightarrow> bytes \<Rightarrow> nat option \<Rightarrow> nat \<Rightarrow> bool \<Rightarrow> 'w \<Rightarrow> (int + bytes) \<times> 'w"

text \<open>What a thread works on; \<open>th_pipe\<close> is its value of \<open>se->pipe_key\<close>.\<close>

record 's thread =
  th_env :: "'s env"
  th_pipe :: "fuse_ll_pipe option"
  se :: session

definition kern :: "('s \<Rightarrow> 'a \<times> 's) \<Rightarrow> 's thread \<Rightarrow> 'a \<times> 's thread" where
  "kern f t = (let (x, w) = f (fs_state (th_env t)) in (x, t\<lparr>th_env := (th_env t)\<lparr>fs_state := w\<rparr>\<rparr>))"

definition on_se :: "(session \<Rightarrow> 'a \<times> session) \<Rightarrow> 's thread \<Rightarrow> 'a \<times> 's thread" where
  "on_se f t = (let (x, s) = f (se t) in (x, t\<lparr>se := s\<rparr>))"

section \<open>The pipe of a thread\<close>

definition fuse_ll_pipe_free :: "'s pipe_ops \<Rightarrow> fuse_ll_pipe \<Rightarrow> 's thread \<Rightarrow> 's thread" where
  "fuse_ll_pipe_free po llp t =
     snd (kern (\<lambda>w. ((), po_close po (pipe_in llp) (po_close po (pipe_out llp) w))) t)"

definition fuse_ll_get_pipe :: "'s pipe_ops \<Rightarrow> 's thread \<Rightarrow> fuse_ll_pipe option \<times> 's thread" where
  "fuse_ll_get_pipe po t =
     (case th_pipe t of
        Some llp \<Rightarrow> (Some llp, t)
      | None \<Rightarrow>
          (let (ok, t1) = on_se take_alloc t in
           if \<not> ok then (None, t1)
           else
             (case kern (po_pipe po) t1 of
                (None, t2) \<Rightarrow> (None, t2)
              | (Some (out, inp), t2) \<Rightarrow>
                  (let llp = \<lparr>pp_size = pagesize (se t2) * 16, can_grow = True, pipe_out = out, pipe_in = inp\<rparr>
                   in (Some llp, t2\<lparr>th_pipe := Some llp\<rparr>)))))"

definition fuse_ll_clear_pipe :: "'s pipe_ops \<Rightarrow> 's thread \<Rightarrow> 's thread" where
  "fuse_ll_clear_pipe po t =
     (case th_pipe t of None \<Rightarrow> t | Some llp \<Rightarrow> fuse_ll_pipe_free po llp (t\<lparr>th_pipe := None\<rparr>))"

definition read_back :: "'s sys_io \<Rightarrow> int \<Rightarrow> nat \<Rightarrow> 's thread \<Rightarrow> (int \<times> bytes) \<times> 's thread" where
  "read_back io fd len t =
     (case kern (io_read io fd len) t of
        (Inl e, t1) \<Rightarrow> ((- EIO, []), t1)
      | (Inr bs, t1) \<Rightarrow> ((if length bs = len then 0 else - EIO, bs), t1))"

fun atoi_digits :: "string \<Rightarrow> nat \<Rightarrow> nat" where
  "atoi_digits [] n = n"
| "atoi_digits (c # cs) n =
     (let d = of_char c :: nat in if 48 \<le> d \<and> d \<le> 57 then atoi_digits cs (10 * n + (d - 48)) else n)"

text \<open>\<open>atoi\<close> of a text that starts with digits.\<close>

definition grow_pipe_to_max :: "'s pipe_ops \<Rightarrow> int \<Rightarrow> 's thread \<Rightarrow> int \<times> 's thread" where
  "grow_pipe_to_max po fd t =
     (case kern (po_maxsize po) t of
        (Inl e, t1) \<Rightarrow> (- e, t1)
      | (Inr txt, t1) \<Rightarrow>
          (let max = atoi_digits txt 0 in
           case kern (po_setsize po fd max) t1 of
             (Inl e, t2) \<Rightarrow> (- e, t2)
           | (Inr n, t2) \<Rightarrow> (int max, t2)))"

section \<open>Sending without a pipe\<close>

definition fuse_send_data_iov_fallback ::
  "'s sys_io \<Rightarrow> nat option \<Rightarrow> int \<Rightarrow> u64 \<Rightarrow> bytes list \<Rightarrow> fuse_bufvec \<Rightarrow> nat \<Rightarrow> 's thread \<Rightarrow> (int \<times> 's thread) option" where
  "fuse_send_data_iov_fallback io ch err uniq parts buf len t =
     (if length (bv_buf buf) = 1 \<and> bv_idx buf = 0 \<and> bv_off buf = 0 \<and> \<not> buf_is_fd (bv_buf buf ! 0)
      then Some (on_se (fuse_send_msg ch err uniq
                   (parts @ [mem_load (mem (th_env t)) (buf_mem (bv_buf buf ! 0)) len])) t)
      else
        (case malloc len (th_env t) of
           (None, e) \<Rightarrow> Some (ENOMEM, t\<lparr>th_env := e\<rparr>)
         | (Some a, e) \<Rightarrow>
             do { (res, src, e1) \<leftarrow> copy_into io (set_mem a (bufvec_init len)) buf e;
                  if res < 0 then do { e2 \<leftarrow> free_mem a e1; Some (- res, t\<lparr>th_env := e2\<rparr>) }
                  else
                    do { let t1 = t\<lparr>th_env := e1\<rparr>;
                         let (r, t2) = on_se (fuse_send_msg ch err uniq (parts @ [mem_load (mem e1) a (nat res)])) t1;
                         e2 \<leftarrow> free_mem a (th_env t2);
                         Some (r, t2\<lparr>th_env := e2\<rparr>) } }))"

section \<open>Sending through a pipe\<close>

text \<open>\<open>total_buf_size\<close>; subtracting the offset of the current buffer may wrap around.\<close>

definition total_buf_size :: "fuse_bufvec \<Rightarrow> nat" where
  "total_buf_size buf =
     (if bv_idx buf < length (bv_buf buf)
      then nat ((int (sum_list (map buf_size (drop (bv_idx buf) (bv_buf buf)))) - int (bv_off buf)) mod 2 ^ 64)
      else 0)"

definition header_bytes :: "int \<Rightarrow> u64 \<Rightarrow> bytes list \<Rightarrow> nat \<Rightarrow> bytes" where
  "header_bytes err uniq parts tot = fuse_out_header (of_nat tot) err uniq @ concat parts"

text \<open>The pipe is enlarged when it can be; the first result tells whether it is now large enough.\<close>

definition fit_pipe :: "'s pipe_ops \<Rightarrow> fuse_ll_pipe \<Rightarrow> nat \<Rightarrow> 's thread \<Rightarrow> bool \<times> 's thread" where
  "fit_pipe po llp need t =
     (if pp_size llp < need \<and> can_grow llp then
        (case kern (po_setsize po (pipe_out llp) need) t of
           (Inl e, t1) \<Rightarrow>
             (let (res, t2) = grow_pipe_to_max po (pipe_out llp) t1;
                  llp1 = (if 0 < res then llp\<lparr>pp_size := nat res\<rparr> else llp)
              in (False, t2\<lparr>th_pipe := Some (llp1\<lparr>can_grow := False\<rparr>)\<rparr>))
         | (Inr n, t1) \<Rightarrow> (need \<le> n, t1\<lparr>th_pipe := Some (llp\<lparr>pp_size := n\<rparr>)\<rparr>))
      else (need \<le> pp_size llp, t))"

definition FUSE_CAP_SPLICE_WRITE :: u32 where "FUSE_CAP_SPLICE_WRITE = 0x80"
definition FUSE_CAP_SPLICE_MOVE :: u32 where "FUSE_CAP_SPLICE_MOVE = 0x100"

text \<open>The end of the way through the pipe, from \<open>splice_flags = 0\<close>.\<close>

definition splice_to_device ::
  "'s pipe_ops \<Rightarrow> fuse_ll_pipe \<Rightarrow> nat option \<Rightarrow> int \<Rightarrow> u64 \<Rightarrow> bytes list \<Rightarrow> nat \<Rightarrow> copy_flags \<Rightarrow> 's thread \<Rightarrow> int \<times> 's thread" where
  "splice_to_device po llp ch err uniq parts len flags t =
     (let tot = 16 + length (concat parts) + len;
          move = (splice_move flags \<and> has_bit (want (conn (se t))) FUSE_CAP_SPLICE_MOVE);
          (r, t1) = kern (po_send po (pipe_out llp) (header_bytes err uniq parts tot) ch tot move) t
      in case r of
           Inl e \<Rightarrow> (- e, fuse_ll_clear_pipe po t1)
         | Inr bs \<Rightarrow>
             (let t2 = t1\<lparr>se := (se t1)\<lparr>sent := sent (se t1) @ [(ch, bs)]\<rparr>\<rparr> in
              if length bs \<noteq> tot then (- EIO, fuse_ll_clear_pipe po t2) else (0, t2)))"

text \<open>
  A short count from the pipe, and the file goes on: everything is read back out of the pipe and sent
  as an ordinary message.  \<open>Inl\<close> is the length to go on with, \<open>Inr\<close> a result.
\<close>

definition get_the_rest ::
  "'s sys_io \<Rightarrow> 's pipe_ops \<Rightarrow> fuse_ll_pipe \<Rightarrow> nat option \<Rightarrow> int \<Rightarrow> u64 \<Rightarrow> bytes list \<Rightarrow> fuse_bufvec \<Rightarrow> nat \<Rightarrow> nat
     \<Rightarrow> 's thread \<Rightarrow> ((nat + int) \<times> 's thread) option" where
  "get_the_rest io po llp ch err uniq parts buf len now_len t =
     (case malloc len (th_env t) of
        (None, e) \<Rightarrow> Some (Inr ENOMEM, fuse_ll_clear_pipe po (t\<lparr>th_env := e\<rparr>))
      | (Some a, e) \<Rightarrow>
          do { (res, src, e1) \<leftarrow> copy_into io ((set_mem a (bufvec_init len))\<lparr>bv_off := now_len\<rparr>) buf e;
               let t1 = t\<lparr>th_env := e1\<rparr>;
               if res \<le> 0 then do { e2 \<leftarrow> free_mem a e1; Some (Inl now_len, t1\<lparr>th_env := e2\<rparr>) }
               else
                 (let (ok, t2) = on_se take_alloc t1 in
                  if \<not> ok then do { e2 \<leftarrow> free_mem a (th_env t2);
                                   Some (Inr ENOMEM, fuse_ll_clear_pipe po (t2\<lparr>th_env := e2\<rparr>)) }
                  else
                    (let ((r1, hd), t3) = read_back io (pipe_out llp) (16 + length (concat parts)) t2 in
                     if r1 \<noteq> 0 then do { e2 \<leftarrow> free_mem a (th_env t3);
                                         Some (Inr r1, fuse_ll_clear_pipe po (t3\<lparr>th_env := e2\<rparr>)) }
                     else
                       (let ((r2, bs), t4) = read_back io (pipe_out llp) now_len t3;
                            m = mem_store (mem (th_env t4)) a bs;
                            t5 = t4\<lparr>th_env := (th_env t4)\<lparr>mem := m\<rparr>\<rparr> in
                        if r2 \<noteq> 0 then do { e2 \<leftarrow> free_mem a (th_env t5);
                                            Some (Inr r2, fuse_ll_clear_pipe po (t5\<lparr>th_env := e2\<rparr>)) }
                        else
                          do { let (r, t6) = on_se (fuse_send_msg ch err uniq
                                               (parts @ [mem_load m a (now_len + nat res)])) t5;
                               e2 \<leftarrow> free_mem a (th_env t6);
                               Some (Inr r, t6\<lparr>th_env := e2\<rparr>) }))) })"

definition pipe_vec :: "int \<Rightarrow> nat \<Rightarrow> fuse_bufvec" where
  "pipe_vec fd len = (bufvec_init len)\<lparr>bv_buf := [(bv_buf (bufvec_init len) ! 0)\<lparr>buf_is_fd := True, buf_fd := fd\<rparr>]\<rparr>"

definition pipe_flags :: copy_flags where
  "pipe_flags = \<lparr>no_splice = False, force_splice = True, splice_move = False, splice_nonblock = True\<rparr>"

text \<open>From \<open>vmsplice\<close> on, with a pipe that is large enough.\<close>

definition send_through_pipe ::
  "'s sys_io \<Rightarrow> 's pipe_ops \<Rightarrow> fuse_ll_pipe \<Rightarrow> nat option \<Rightarrow> int \<Rightarrow> u64 \<Rightarrow> bytes list \<Rightarrow> fuse_bufvec \<Rightarrow> copy_flags \<Rightarrow> nat
     \<Rightarrow> 's thread \<Rightarrow> (int \<times> 's thread) option" where
  "send_through_pipe io po llp ch err uniq parts buf flags len t =
     (let headerlen = 16 + length (concat parts);
          (r, t1) = kern (po_vmsplice po (pipe_in llp) (header_bytes err uniq parts (headerlen + len))) t
      in case r of
           Inl e \<Rightarrow> fuse_send_data_iov_fallback io ch err uniq parts buf len t1
         | Inr n \<Rightarrow>
             if n \<noteq> headerlen then Some (- EIO, fuse_ll_clear_pipe po t1)
             else
               do { (res0, dst, buf1, m, w) \<leftarrow>
                      fuse_buf_copy io False (pipe_vec (pipe_in llp) len) buf pipe_flags (mem (th_env t1)) (fs_state (th_env t1));
                    let t2 = t1\<lparr>th_env := (th_env t1)\<lparr>mem := m, fs_state := w\<rparr>\<rparr>;
                    let res = to_int res0;
                    if res < 0 then
                      (if res = - EAGAIN \<or> res = - EINVAL then
                         (let t3 = (if res = - EAGAIN then t2\<lparr>se := (se t2)\<lparr>broken_splice_nonblock := True\<rparr>\<rparr> else t2) in
                          fuse_send_data_iov_fallback io ch err uniq parts buf1 len
                            (fuse_ll_pipe_free po llp (t3\<lparr>th_pipe := None\<rparr>)))
                       else Some (- res, fuse_ll_clear_pipe po t2))
                    else if res \<noteq> 0 \<and> nat res < len then
                      do { (x, t3) \<leftarrow> get_the_rest io po llp ch err uniq parts buf1 len (nat res) t2;
                           case x of
                             Inl n \<Rightarrow> Some (splice_to_device po llp ch err uniq parts n flags t3)
                           | Inr r \<Rightarrow> Some (r, t3) }
                    else Some (splice_to_device po llp ch err uniq parts (nat res) flags t2) })"



definition fuse_send_data_iov ::
  "'s sys_io \<Rightarrow> 's pipe_ops \<Rightarrow> nat option \<Rightarrow> int \<Rightarrow> u64 \<Rightarrow> bytes list \<Rightarrow> fuse_bufvec \<Rightarrow> copy_flags \<Rightarrow> 's thread
     \<Rightarrow> (int \<times> 's thread) option" where
  "fuse_send_data_iov io po ch err uniq parts buf flags t =
     (let len = fuse_buf_size buf; s = se t in
      if broken_splice_nonblock s \<or> no_splice flags \<or> total_buf_size buf < 2 * pagesize s \<or>
         proto_minor (conn s) < 14 \<or> \<not> has_bit (want (conn s)) FUSE_CAP_SPLICE_WRITE
      then fuse_send_data_iov_fallback io ch err uniq parts buf len t
      else
        (case fuse_ll_get_pipe po t of
           (None, t1) \<Rightarrow> fuse_send_data_iov_fallback io ch err uniq parts buf len t1
         | (Some llp, t1) \<Rightarrow>
             (let need = pagesize s * (1 + length parts + length (bv_buf buf) + 1) + (16 + length (concat parts) + len) mod 2 ^ 32;
                  (fits, t2) = fit_pipe po llp need t1
              in if \<not> fits then fuse_send_data_iov_fallback io ch err uniq parts buf len t2
                 else send_through_pipe io po (the (th_pipe t2)) ch err uniq parts buf flags len t2)))"

section \<open>Its callers\<close>

definition with_se :: "(session \<Rightarrow> (int \<times> session) option) \<Rightarrow> 's thread \<Rightarrow> (int \<times> 's thread) option" where
  "with_se f t = map_option (\<lambda>(res, s). (res, t\<lparr>se := s\<rparr>)) (f (se t))"

definition fuse_reply_data ::
  "'s sys_io \<Rightarrow> 's pipe_ops \<Rightarrow> nat \<Rightarrow> fuse_bufvec \<Rightarrow> copy_flags \<Rightarrow> 's thread \<Rightarrow> (int \<times> 's thread) option" where
  "fuse_reply_data io po r bufv flags t =
     do { q \<leftarrow> req_heap (se t) r;
          (res, t1) \<leftarrow> fuse_send_data_iov io po (r_ch q) 0 (r_unique q) [] bufv flags t;
          if res \<le> 0 then with_se (\<lambda>s. map_option (Pair res) (fuse_free_req r s)) t1
          else with_se (fuse_reply_err r res) t1 }"

definition fuse_lowlevel_notify_store ::
  "'s sys_io \<Rightarrow> 's pipe_ops \<Rightarrow> u64 \<Rightarrow> int \<Rightarrow> fuse_bufvec \<Rightarrow> copy_flags \<Rightarrow> 's thread \<Rightarrow> (int \<times> 's thread) option" where
  "fuse_lowlevel_notify_store io po ino off bufv flags t =
     (if proto_minor (conn (se t)) < 15 then Some (- ENOSYS, t)
      else map_option (\<lambda>(res, t1). (if 0 < res then - res else res, t1))
             (fuse_send_data_iov io po None FUSE_NOTIFY_STORE 0 [fuse_notify_store_out ino off (fuse_buf_size bufv)] bufv flags t))"

end
