(* ===== verification/Dispatch.thy ===== *)
theory Dispatch
  imports DataReply
begin

text \<open>
  From the bytes of a request to a call of the file system: the functions \<open>do_*\<close> of
  \<open>.deps/libfuse3-3.16.2/lib/fuse_lowlevel.c\<close> and the table \<open>fuse_ll_ops\<close>.

  A \<open>do_*\<close> function is handed the request, the node number of the header and the bytes behind the
  header.  It ends in a list of calls of operations of the file system, each with the request it is
  made for, or it has answered the request itself and the list is empty.  Fields are read where the code
  reads them, so a request that is too short for a field that is not read does no harm.
\<close>

section \<open>The operations of a low-level file system\<close>

text \<open>\<open>struct fuse_lowlevel_ops\<close> in the order of the header, in four parts.\<close>

datatype ll_names =
  LL_lookup u64 string
| LL_forget u64 u64
| LL_getattr u64 fi_opt
| LL_setattr u64 stat u32 fi_opt
| LL_readlink u64
| LL_mknod u64 string u32 u32
| LL_mkdir u64 string u32
| LL_unlink u64 string
| LL_rmdir u64 string
| LL_symlink string u64 string
| LL_rename u64 string u64 string u32
| LL_link u64 u64 string

datatype ll_files =
  LL_open u64 fuse_file_info
| LL_read u64 nat int fuse_file_info
| LL_write u64 bytes nat int fuse_file_info
| LL_flush u64 fuse_file_info
| LL_release u64 fuse_file_info
| LL_fsync u64 int fuse_file_info
| LL_opendir u64 fuse_file_info
| LL_readdir u64 nat int fuse_file_info
| LL_releasedir u64 fuse_file_info
| LL_fsyncdir u64 int fuse_file_info
| LL_statfs u64

datatype ll_attrs =
  LL_setxattr u64 string bytes int
| LL_getxattr u64 string nat
| LL_listxattr u64 nat
| LL_removexattr u64 string
| LL_access u64 int
| LL_create u64 string u32 fuse_file_info
| LL_getlk u64 fuse_file_info flock
| LL_setlk u64 fuse_file_info flock bool
| LL_bmap u64 nat u64
| LL_ioctl u64 u32 u64 fuse_file_info u32 bytes nat

datatype ll_more =
  LL_poll u64 fuse_file_info "u64 option"
| LL_write_buf u64 fuse_bufvec int fuse_file_info
| LL_retrieve_reply nat u64 int fuse_bufvec
| LL_forget_multi "(u64 \<times> u64) list"
| LL_flock u64 fuse_file_info int
| LL_fallocate u64 int int int fuse_file_info
| LL_readdirplus u64 nat int fuse_file_info
| LL_copy_file_range u64 int fuse_file_info u64 int fuse_file_info nat int
| LL_lseek u64 int int fuse_file_info

datatype ll_call =
  LL_init
| LL_destroy
| Names ll_names
| Files ll_files
| Attrs ll_attrs
| More ll_more

type_synonym outcome = "((nat \<times> ll_call) list \<times> session) option"

definition invoke :: "nat \<Rightarrow> ll_call \<Rightarrow> session \<Rightarrow> outcome" where
  "invoke r c s = Some ([(r, c)], s)"

definition answered :: "(int \<times> session) option \<Rightarrow> outcome" where
  "answered x = map_option (\<lambda>(res, s). ([], s)) x"

definition no_such_op :: "nat \<Rightarrow> session \<Rightarrow> outcome" where
  "no_such_op r s = answered (fuse_reply_err r ENOSYS s)"

section \<open>Names\<close>

definition do_lookup_req :: "nat \<Rightarrow> u64 \<Rightarrow> bytes \<Rightarrow> session \<Rightarrow> outcome" where
  "do_lookup_req r nid m s =
     (if has_op s Op_lookup then do { nm \<leftarrow> cstr_at m 0; invoke r (Names (LL_lookup nid nm)) s }
      else no_such_op r s)"

definition do_forget :: "nat \<Rightarrow> u64 \<Rightarrow> bytes \<Rightarrow> session \<Rightarrow> outcome" where
  "do_forget r nid m s =
     (if has_op s Op_forget then do { n \<leftarrow> u64_at m 0; invoke r (Names (LL_forget nid n)) s }
      else map_option (Pair []) (fuse_reply_none r s))"

text \<open>The entries of a batch, from the given offset on.\<close>

fun forget_entries :: "bytes \<Rightarrow> nat \<Rightarrow> nat \<Rightarrow> (u64 \<times> u64) list option" where
  "forget_entries m off 0 = Some []"
| "forget_entries m off (Suc n) =
     do { i \<leftarrow> u64_at m off; k \<leftarrow> u64_at m (off + 8); es \<leftarrow> forget_entries m (off + 16) n; Some ((i, k) # es) }"

text \<open>The loop over the entries for a file system with only \<open>forget\<close>.\<close>

fun forget_each :: "fuse_req \<Rightarrow> bytes \<Rightarrow> nat \<Rightarrow> nat \<Rightarrow> session \<Rightarrow> outcome" where
  "forget_each q m off 0 s = Some ([], s)"
| "forget_each q m off (Suc n) s =
     (case fuse_ll_alloc_req s of
        (None, s1) \<Rightarrow> Some ([], s1)
      | (Some d, s1) \<Rightarrow>
          do { let s2 = upd_req d (\<lambda>x. x\<lparr>r_unique := r_unique q, r_ctx := r_ctx q, r_ch := None\<rparr>) s1;
               i \<leftarrow> u64_at m off;
               k \<leftarrow> u64_at m (off + 8);
               (cs, s3) \<leftarrow> forget_each q m (off + 16) n s2;
               Some ((d, Names (LL_forget i k)) # cs, s3) })"

definition do_batch_forget :: "nat \<Rightarrow> u64 \<Rightarrow> bytes \<Rightarrow> session \<Rightarrow> outcome" where
  "do_batch_forget r nid m s =
     (if has_op s Op_forget_multi then
        do { n \<leftarrow> u32_at m 0; es \<leftarrow> forget_entries m 8 (unat n); invoke r (More (LL_forget_multi es)) s }
      else if has_op s Op_forget then
        do { n \<leftarrow> u32_at m 0;
             q \<leftarrow> req_heap s r;
             (cs, s1) \<leftarrow> forget_each q m 8 (unat n) s;
             s2 \<leftarrow> fuse_reply_none r s1;
             Some (cs, s2) }
      else map_option (Pair []) (fuse_reply_none r s))"

definition fh_info :: "u64 \<Rightarrow> fuse_file_info" where
  "fh_info fh = zero_fi\<lparr>fi_fh := fh\<rparr>"

definition do_getattr :: "nat \<Rightarrow> u64 \<Rightarrow> bytes \<Rightarrow> session \<Rightarrow> outcome" where
  "do_getattr r nid m s =
     do { fip \<leftarrow> (if 9 \<le> proto_minor (conn s)
                  then do { flags \<leftarrow> u32_at m 0;
                            if has_bit flags 1 then do { fh \<leftarrow> u64_at m 8; Some (Some (fh_info fh)) } else Some None }
                  else Some None);
          if has_op s Op_getattr then invoke r (Names (LL_getattr nid fip)) s else no_such_op r s }"

definition time_at :: "bytes \<Rightarrow> nat \<Rightarrow> nat \<Rightarrow> timespec option" where
  "time_at m off noff =
     do { t \<leftarrow> u64_at m off; n \<leftarrow> u32_at m noff; Some \<lparr>tv_sec = sint t, tv_nsec = uint n\<rparr> }"

definition convert_attr :: "bytes \<Rightarrow> stat option" where
  "convert_attr m =
     do { mode \<leftarrow> u32_at m 68;
          uid \<leftarrow> u32_at m 76;
          gid \<leftarrow> u32_at m 80;
          sz \<leftarrow> u64_at m 16;
          att \<leftarrow> time_at m 32 56;
          mt \<leftarrow> time_at m 40 60;
          ct \<leftarrow> time_at m 48 64;
          Some (zero_stat\<lparr>st_mode := mode, st_uid := uint uid, st_gid := uint gid, st_size := sint sz,
                  st_atim := att, st_mtim := mt, st_ctim := ct\<rparr>) }"

definition FATTR_FH :: u32 where "FATTR_FH = 0x40"

definition set_attr_mask :: u32 where
  \<comment> \<open>\<open>FUSE_SET_ATTR_\<close> \<open>MODE\<close>, \<open>UID\<close>, \<open>GID\<close>, \<open>SIZE\<close>, \<open>ATIME\<close>, \<open>MTIME\<close>, \<open>ATIME_NOW\<close>, \<open>MTIME_NOW\<close>,
      \<open>CTIME\<close>, \<open>KILL_SUID\<close> and \<open>KILL_SGID\<close>\<close>
  "set_attr_mask = 0x1DBF"

definition do_setattr :: "nat \<Rightarrow> u64 \<Rightarrow> bytes \<Rightarrow> session \<Rightarrow> outcome" where
  "do_setattr r nid m s =
     (if has_op s Op_setattr then
        do { st \<leftarrow> convert_attr m;
             valid \<leftarrow> u32_at m 0;
             fi \<leftarrow> (if has_bit valid FATTR_FH then do { fh \<leftarrow> u64_at m 8; Some (Some (fh_info fh)) } else Some None);
             invoke r (Names (LL_setattr nid st (and valid set_attr_mask) fi)) s }
      else no_such_op r s)"

definition do_access :: "nat \<Rightarrow> u64 \<Rightarrow> bytes \<Rightarrow> session \<Rightarrow> outcome" where
  "do_access r nid m s =
     (if has_op s Op_access then do { msk \<leftarrow> u32_at m 0; invoke r (Attrs (LL_access nid (sint msk))) s }
      else no_such_op r s)"

definition do_readlink :: "nat \<Rightarrow> u64 \<Rightarrow> bytes \<Rightarrow> session \<Rightarrow> outcome" where
  "do_readlink r nid m s =
     (if has_op s Op_readlink then invoke r (Names (LL_readlink nid)) s else no_such_op r s)"

definition set_umask :: "nat \<Rightarrow> u32 \<Rightarrow> session \<Rightarrow> session" where
  "set_umask r um s = upd_req r (\<lambda>q. q\<lparr>r_ctx := (r_ctx q)\<lparr>cx_umask := um\<rparr>\<rparr>) s"

definition do_mknod :: "nat \<Rightarrow> u64 \<Rightarrow> bytes \<Rightarrow> session \<Rightarrow> outcome" where
  "do_mknod r nid m s =
     do { (off, s1) \<leftarrow> (if 12 \<le> proto_minor (conn s)
                        then do { um \<leftarrow> u32_at m 8; Some (16, set_umask r um s) }
                        else Some (8, s));
          if has_op s Op_mknod then
            do { nm \<leftarrow> cstr_at m off; mode \<leftarrow> u32_at m 0; rdev \<leftarrow> u32_at m 4;
                 invoke r (Names (LL_mknod nid nm mode rdev)) s1 }
          else no_such_op r s1 }"

definition do_mkdir :: "nat \<Rightarrow> u64 \<Rightarrow> bytes \<Rightarrow> session \<Rightarrow> outcome" where
  "do_mkdir r nid m s =
     do { s1 \<leftarrow> (if 12 \<le> proto_minor (conn s) then do { um \<leftarrow> u32_at m 4; Some (set_umask r um s) } else Some s);
          if has_op s Op_mkdir then
            do { nm \<leftarrow> cstr_at m 8; mode \<leftarrow> u32_at m 0; invoke r (Names (LL_mkdir nid nm mode)) s1 }
          else no_such_op r s1 }"

definition do_unlink :: "nat \<Rightarrow> u64 \<Rightarrow> bytes \<Rightarrow> session \<Rightarrow> outcome" where
  "do_unlink r nid m s =
     (if has_op s Op_unlink then do { nm \<leftarrow> cstr_at m 0; invoke r (Names (LL_unlink nid nm)) s } else no_such_op r s)"

definition do_rmdir :: "nat \<Rightarrow> u64 \<Rightarrow> bytes \<Rightarrow> session \<Rightarrow> outcome" where
  "do_rmdir r nid m s =
     (if has_op s Op_rmdir then do { nm \<leftarrow> cstr_at m 0; invoke r (Names (LL_rmdir nid nm)) s } else no_such_op r s)"

definition do_symlink :: "nat \<Rightarrow> u64 \<Rightarrow> bytes \<Rightarrow> session \<Rightarrow> outcome" where
  "do_symlink r nid m s =
     do { nm \<leftarrow> cstr_at m 0;
          if has_op s Op_symlink then
            do { linkname \<leftarrow> cstr_at m (length nm + 1); invoke r (Names (LL_symlink linkname nid nm)) s }
          else no_such_op r s }"

definition do_rename :: "nat \<Rightarrow> u64 \<Rightarrow> bytes \<Rightarrow> session \<Rightarrow> outcome" where
  "do_rename r nid m s =
     do { oldname \<leftarrow> cstr_at m 8;
          if has_op s Op_rename then
            do { newdir \<leftarrow> u64_at m 0; newname \<leftarrow> cstr_at m (8 + (length oldname + 1));
                 invoke r (Names (LL_rename nid oldname newdir newname 0)) s }
          else no_such_op r s }"

definition do_rename2 :: "nat \<Rightarrow> u64 \<Rightarrow> bytes \<Rightarrow> session \<Rightarrow> outcome" where
  "do_rename2 r nid m s =
     do { oldname \<leftarrow> cstr_at m 16;
          if has_op s Op_rename then
            do { newdir \<leftarrow> u64_at m 0; newname \<leftarrow> cstr_at m (16 + (length oldname + 1)); flags \<leftarrow> u32_at m 8;
                 invoke r (Names (LL_rename nid oldname newdir newname flags)) s }
          else no_such_op r s }"

definition do_link :: "nat \<Rightarrow> u64 \<Rightarrow> bytes \<Rightarrow> session \<Rightarrow> outcome" where
  "do_link r nid m s =
     (if has_op s Op_link then
        do { old \<leftarrow> u64_at m 0; nm \<leftarrow> cstr_at m 8; invoke r (Names (LL_link old nid nm)) s }
      else no_such_op r s)"

section \<open>Files\<close>

definition do_create :: "nat \<Rightarrow> u64 \<Rightarrow> bytes \<Rightarrow> session \<Rightarrow> outcome" where
  "do_create r nid m s =
     (if has_op s Op_create then
        do { flags \<leftarrow> u32_at m 0;
             (off, s1) \<leftarrow> (if 12 \<le> proto_minor (conn s)
                           then do { um \<leftarrow> u32_at m 8; Some (16, set_umask r um s) }
                           else Some (8, s));
             nm \<leftarrow> cstr_at m off;
             mode \<leftarrow> u32_at m 4;
             invoke r (Attrs (LL_create nid nm mode (zero_fi\<lparr>fi_flags := flags\<rparr>))) s1 }
      else no_such_op r s)"

definition do_open :: "nat \<Rightarrow> u64 \<Rightarrow> bytes \<Rightarrow> session \<Rightarrow> outcome" where
  "do_open r nid m s =
     do { flags \<leftarrow> u32_at m 0;
          let fi = zero_fi\<lparr>fi_flags := flags\<rparr>;
          if has_op s Op_open then invoke r (Files (LL_open nid fi)) s else answered (fuse_reply_open r fi s) }"

definition do_read :: "nat \<Rightarrow> u64 \<Rightarrow> bytes \<Rightarrow> session \<Rightarrow> outcome" where
  "do_read r nid m s =
     (if has_op s Op_read then
        do { fh \<leftarrow> u64_at m 0;
             fi \<leftarrow> (if 9 \<le> proto_minor (conn s)
                    then do { own \<leftarrow> u64_at m 24; flags \<leftarrow> u32_at m 32;
                              Some ((fh_info fh)\<lparr>fi_lock_owner := own, fi_flags := flags\<rparr>) }
                    else Some (fh_info fh));
             sz \<leftarrow> u32_at m 16;
             off \<leftarrow> u64_at m 8;
             invoke r (Files (LL_read nid (unat sz) (sint off) fi)) s }
      else no_such_op r s)"

text \<open>What \<open>do_write\<close> and \<open>do_write_buf\<close> make of the fixed part, with the offset of the data.\<close>

definition write_info :: "bytes \<Rightarrow> session \<Rightarrow> (fuse_file_info \<times> nat) option" where
  "write_info m s =
     do { fh \<leftarrow> u64_at m 0;
          wf \<leftarrow> u32_at m 20;
          let fi = (fh_info fh)\<lparr>fi_writepage := has_bit wf 1\<rparr>;
          if proto_minor (conn s) < 9 then Some (fi, 24)
          else do { own \<leftarrow> u64_at m 24; flags \<leftarrow> u32_at m 32; Some (fi\<lparr>fi_lock_owner := own, fi_flags := flags\<rparr>, 40) } }"

definition do_write :: "nat \<Rightarrow> u64 \<Rightarrow> bytes \<Rightarrow> session \<Rightarrow> outcome" where
  "do_write r nid m s =
     do { (fi, param) \<leftarrow> write_info m s;
          if has_op s Op_write then
            do { sz \<leftarrow> u32_at m 16; off \<leftarrow> u64_at m 8; bs \<leftarrow> bytes_at m param (unat sz);
                 invoke r (Files (LL_write nid bs (unat sz) (sint off) fi)) s }
          else no_such_op r s }"

definition IN_HEADER_SIZE :: nat where "IN_HEADER_SIZE = 40"

definition minus_size :: "nat \<Rightarrow> nat \<Rightarrow> nat" where
  \<comment> \<open>subtraction of \<open>size_t\<close>\<close>
  "minus_size a b = nat ((int a - int b) mod 2 ^ 64)"

text \<open>
  \<open>ibuf\<close> is the buffer the request came in.  The fixed part of a request in memory is at the address
  behind its header.
\<close>

definition do_write_buf :: "nat \<Rightarrow> u64 \<Rightarrow> bytes \<Rightarrow> fuse_buf \<Rightarrow> session \<Rightarrow> outcome" where
  "do_write_buf r nid m ibuf s =
     do { (fi, param) \<leftarrow> write_info m s;
          if proto_minor (conn s) < 9 \<and> buf_is_fd ibuf then None
          else do {
            let b = (if buf_is_fd ibuf then ibuf else ibuf\<lparr>buf_mem := buf_mem ibuf + IN_HEADER_SIZE + param\<rparr>);
            let left = minus_size (buf_size ibuf) (IN_HEADER_SIZE + param);
            sz \<leftarrow> u32_at m 16;
            if left < unat sz then answered (fuse_reply_err r EIO s)
            else do { off \<leftarrow> u64_at m 8;
                      invoke r (More (LL_write_buf nid (vec_of [b\<lparr>buf_size := unat sz\<rparr>]) (sint off) fi)) s } } }"

definition do_flush :: "nat \<Rightarrow> u64 \<Rightarrow> bytes \<Rightarrow> session \<Rightarrow> outcome" where
  "do_flush r nid m s =
     do { fh \<leftarrow> u64_at m 0;
          let fi = (fh_info fh)\<lparr>fi_flush := True\<rparr>;
          fi1 \<leftarrow> (if 7 \<le> proto_minor (conn s) then do { own \<leftarrow> u64_at m 16; Some (fi\<lparr>fi_lock_owner := own\<rparr>) } else Some fi);
          if has_op s Op_flush then invoke r (Files (LL_flush nid fi1)) s else no_such_op r s }"

definition do_release :: "nat \<Rightarrow> u64 \<Rightarrow> bytes \<Rightarrow> session \<Rightarrow> outcome" where
  "do_release r nid m s =
     do { flags \<leftarrow> u32_at m 8;
          fh \<leftarrow> u64_at m 0;
          rf \<leftarrow> u32_at m 12;
          let fi = (fh_info fh)\<lparr>fi_flags := flags\<rparr>;
          fi1 \<leftarrow> (if 8 \<le> proto_minor (conn s)
                  then do { own \<leftarrow> u64_at m 16; Some (fi\<lparr>fi_flush := has_bit rf 1, fi_lock_owner := own\<rparr>) }
                  else Some fi);
          fi2 \<leftarrow> (if has_bit rf 2
                  then do { own \<leftarrow> u64_at m 16; Some (fi1\<lparr>fi_flock_release := True, fi_lock_owner := own\<rparr>) }
                  else Some fi1);
          if has_op s Op_release then invoke r (Files (LL_release nid fi2)) s
          else answered (fuse_reply_err r 0 s) }"

definition do_fsync :: "nat \<Rightarrow> u64 \<Rightarrow> bytes \<Rightarrow> session \<Rightarrow> outcome" where
  "do_fsync r nid m s =
     do { flags \<leftarrow> u32_at m 8;
          fh \<leftarrow> u64_at m 0;
          if has_op s Op_fsync then invoke r (Files (LL_fsync nid (uint (and flags 1)) (fh_info fh))) s
          else no_such_op r s }"

definition do_opendir :: "nat \<Rightarrow> u64 \<Rightarrow> bytes \<Rightarrow> session \<Rightarrow> outcome" where
  "do_opendir r nid m s =
     do { flags \<leftarrow> u32_at m 0;
          let fi = zero_fi\<lparr>fi_flags := flags\<rparr>;
          if has_op s Op_opendir then invoke r (Files (LL_opendir nid fi)) s else answered (fuse_reply_open r fi s) }"

definition do_readdir :: "nat \<Rightarrow> u64 \<Rightarrow> bytes \<Rightarrow> session \<Rightarrow> outcome" where
  "do_readdir r nid m s =
     do { fh \<leftarrow> u64_at m 0;
          if has_op s Op_readdir then
            do { sz \<leftarrow> u32_at m 16; off \<leftarrow> u64_at m 8;
                 invoke r (Files (LL_readdir nid (unat sz) (sint off) (fh_info fh))) s }
          else no_such_op r s }"

definition do_readdirplus :: "nat \<Rightarrow> u64 \<Rightarrow> bytes \<Rightarrow> session \<Rightarrow> outcome" where
  "do_readdirplus r nid m s =
     do { fh \<leftarrow> u64_at m 0;
          if has_op s Op_readdirplus then
            do { sz \<leftarrow> u32_at m 16; off \<leftarrow> u64_at m 8;
                 invoke r (More (LL_readdirplus nid (unat sz) (sint off) (fh_info fh))) s }
          else no_such_op r s }"

definition do_releasedir :: "nat \<Rightarrow> u64 \<Rightarrow> bytes \<Rightarrow> session \<Rightarrow> outcome" where
  "do_releasedir r nid m s =
     do { flags \<leftarrow> u32_at m 8;
          fh \<leftarrow> u64_at m 0;
          if has_op s Op_releasedir then invoke r (Files (LL_releasedir nid ((fh_info fh)\<lparr>fi_flags := flags\<rparr>))) s
          else answered (fuse_reply_err r 0 s) }"

definition do_fsyncdir :: "nat \<Rightarrow> u64 \<Rightarrow> bytes \<Rightarrow> session \<Rightarrow> outcome" where
  "do_fsyncdir r nid m s =
     do { flags \<leftarrow> u32_at m 8;
          fh \<leftarrow> u64_at m 0;
          if has_op s Op_fsyncdir then invoke r (Files (LL_fsyncdir nid (uint (and flags 1)) (fh_info fh))) s
          else no_such_op r s }"

definition do_statfs :: "nat \<Rightarrow> u64 \<Rightarrow> bytes \<Rightarrow> session \<Rightarrow> outcome" where
  "do_statfs r nid m s =
     (if has_op s Op_statfs then invoke r (Files (LL_statfs nid)) s
      else answered (fuse_reply_statfs r (zero_statvfs\<lparr>f_namemax := 255, f_bsize := 512\<rparr>) s))"

section \<open>Attributes and locks\<close>

definition FUSE_CAP_SETXATTR_EXT :: u32 where "FUSE_CAP_SETXATTR_EXT = 0x8000000"
definition FUSE_COMPAT_SETXATTR_IN_SIZE :: nat where "FUSE_COMPAT_SETXATTR_IN_SIZE = 8"

definition do_setxattr :: "nat \<Rightarrow> u64 \<Rightarrow> bytes \<Rightarrow> session \<Rightarrow> outcome" where
  "do_setxattr r nid m s =
     do { let off = (if has_bit (want (conn s)) FUSE_CAP_SETXATTR_EXT then 16 else FUSE_COMPAT_SETXATTR_IN_SIZE);
          nm \<leftarrow> cstr_at m off;
          if has_op s Op_setxattr then
            do { sz \<leftarrow> u32_at m 0; flags \<leftarrow> u32_at m 4; val \<leftarrow> bytes_at m (off + (length nm + 1)) (unat sz);
                 invoke r (Attrs (LL_setxattr nid nm val (sint flags))) s }
          else no_such_op r s }"

definition do_getxattr :: "nat \<Rightarrow> u64 \<Rightarrow> bytes \<Rightarrow> session \<Rightarrow> outcome" where
  "do_getxattr r nid m s =
     (if has_op s Op_getxattr then
        do { nm \<leftarrow> cstr_at m 8; sz \<leftarrow> u32_at m 0; invoke r (Attrs (LL_getxattr nid nm (unat sz))) s }
      else no_such_op r s)"

definition do_listxattr :: "nat \<Rightarrow> u64 \<Rightarrow> bytes \<Rightarrow> session \<Rightarrow> outcome" where
  "do_listxattr r nid m s =
     (if has_op s Op_listxattr then do { sz \<leftarrow> u32_at m 0; invoke r (Attrs (LL_listxattr nid (unat sz))) s }
      else no_such_op r s)"

definition do_removexattr :: "nat \<Rightarrow> u64 \<Rightarrow> bytes \<Rightarrow> session \<Rightarrow> outcome" where
  "do_removexattr r nid m s =
     (if has_op s Op_removexattr then do { nm \<leftarrow> cstr_at m 0; invoke r (Attrs (LL_removexattr nid nm)) s }
      else no_such_op r s)"

definition lock_type_of :: "u32 \<Rightarrow> lock_type option" where
  \<comment> \<open>the kernel sends no other number\<close>
  "lock_type_of n =
     (if n = 0 then Some F_RDLCK else if n = 1 then Some F_WRLCK else if n = 2 then Some F_UNLCK else None)"

definition convert_fuse_file_lock :: "bytes \<Rightarrow> nat \<Rightarrow> flock option" where
  "convert_fuse_file_lock m off =
     do { n \<leftarrow> u32_at m (off + 16);
          typ \<leftarrow> lock_type_of n;
          start \<leftarrow> u64_at m off;
          e \<leftarrow> u64_at m (off + 8);
          pid \<leftarrow> u32_at m (off + 20);
          Some \<lparr>l_type = typ, l_start = sint start, l_len = (if e = of_int OFFSET_MAX then 0 else sint (e - start + 1)),
                l_pid = sint pid\<rparr> }"

definition lock_info :: "bytes \<Rightarrow> fuse_file_info option" where
  "lock_info m = do { fh \<leftarrow> u64_at m 0; own \<leftarrow> u64_at m 8; Some ((fh_info fh)\<lparr>fi_lock_owner := own\<rparr>) }"

definition do_getlk :: "nat \<Rightarrow> u64 \<Rightarrow> bytes \<Rightarrow> session \<Rightarrow> outcome" where
  "do_getlk r nid m s =
     do { fi \<leftarrow> lock_info m;
          fl \<leftarrow> convert_fuse_file_lock m 16;
          if has_op s Op_getlk then invoke r (Attrs (LL_getlk nid fi fl)) s else no_such_op r s }"

definition flock_op :: "u32 \<Rightarrow> int" where
  \<comment> \<open>\<open>LOCK_SH\<close>, \<open>LOCK_EX\<close>, \<open>LOCK_UN\<close>\<close>
  "flock_op typ = (if typ = 0 then 1 else if typ = 1 then 2 else if typ = 2 then 8 else 0)"

definition do_setlk_common :: "nat \<Rightarrow> u64 \<Rightarrow> bytes \<Rightarrow> bool \<Rightarrow> session \<Rightarrow> outcome" where
  "do_setlk_common r nid m sleep s =
     do { fi \<leftarrow> lock_info m;
          lkf \<leftarrow> u32_at m 40;
          if has_bit lkf 1 then
            do { typ \<leftarrow> u32_at m 32;
                 let opn = (if sleep then flock_op typ else or (flock_op typ) 4);
                 if has_op s Op_flock then invoke r (More (LL_flock nid fi opn)) s else no_such_op r s }
          else
            do { fl \<leftarrow> convert_fuse_file_lock m 16;
                 if has_op s Op_setlk then invoke r (Attrs (LL_setlk nid fi fl sleep)) s else no_such_op r s } }"

definition do_setlk :: "nat \<Rightarrow> u64 \<Rightarrow> bytes \<Rightarrow> session \<Rightarrow> outcome" where
  "do_setlk r nid m s = do_setlk_common r nid m False s"

definition do_setlkw :: "nat \<Rightarrow> u64 \<Rightarrow> bytes \<Rightarrow> session \<Rightarrow> outcome" where
  "do_setlkw r nid m s = do_setlk_common r nid m True s"

section \<open>The rest\<close>

definition do_bmap :: "nat \<Rightarrow> u64 \<Rightarrow> bytes \<Rightarrow> session \<Rightarrow> outcome" where
  "do_bmap r nid m s =
     (if has_op s Op_bmap then
        do { bs \<leftarrow> u32_at m 8; b \<leftarrow> u64_at m 0; invoke r (Attrs (LL_bmap nid (unat bs) b)) s }
      else no_such_op r s)"

definition ENOTTY :: int where "ENOTTY = 25"
definition FUSE_CAP_IOCTL_DIR :: u32 where "FUSE_CAP_IOCTL_DIR = 0x800"

text \<open>Pointers have 64 bits, so \<open>ioctl_64bit\<close> is never set.\<close>

definition do_ioctl :: "nat \<Rightarrow> u64 \<Rightarrow> bytes \<Rightarrow> session \<Rightarrow> outcome" where
  "do_ioctl r nid m s =
     do { flags \<leftarrow> u32_at m 8;
          insz \<leftarrow> u32_at m 24;
          if has_bit flags FUSE_IOCTL_DIR \<and> \<not> has_bit (want (conn s)) FUSE_CAP_IOCTL_DIR
          then answered (fuse_reply_err r ENOTTY s)
          else do {
            fh \<leftarrow> u64_at m 0;
            if has_op s Op_ioctl then
              do { cmd \<leftarrow> u32_at m 12; arg \<leftarrow> u64_at m 16; outsz \<leftarrow> u32_at m 28; bs \<leftarrow> bytes_at m 32 (unat insz);
                   invoke r (Attrs (LL_ioctl nid cmd arg (fh_info fh) flags bs (unat outsz))) s }
            else no_such_op r s } }"

definition do_poll :: "nat \<Rightarrow> u64 \<Rightarrow> bytes \<Rightarrow> session \<Rightarrow> outcome" where
  "do_poll r nid m s =
     do { fh \<leftarrow> u64_at m 0;
          ev \<leftarrow> u32_at m 20;
          let fi = (fh_info fh)\<lparr>fi_poll_events := ev\<rparr>;
          if has_op s Op_poll then
            do { flags \<leftarrow> u32_at m 16;
                 if has_bit flags 1 then
                   (let (ok, s1) = take_alloc s in
                    if \<not> ok then answered (fuse_reply_err r ENOMEM s1)
                    else do { kh \<leftarrow> u64_at m 8; invoke r (More (LL_poll nid fi (Some kh))) s1 })
                 else invoke r (More (LL_poll nid fi None)) s }
          else no_such_op r s }"

definition do_fallocate :: "nat \<Rightarrow> u64 \<Rightarrow> bytes \<Rightarrow> session \<Rightarrow> outcome" where
  "do_fallocate r nid m s =
     do { fh \<leftarrow> u64_at m 0;
          if has_op s Op_fallocate then
            do { mode \<leftarrow> u32_at m 24; off \<leftarrow> u64_at m 8; len \<leftarrow> u64_at m 16;
                 invoke r (More (LL_fallocate nid (sint mode) (sint off) (sint len) (fh_info fh))) s }
          else no_such_op r s }"

definition do_copy_file_range :: "nat \<Rightarrow> u64 \<Rightarrow> bytes \<Rightarrow> session \<Rightarrow> outcome" where
  "do_copy_file_range r nid m s =
     do { fh_in \<leftarrow> u64_at m 0;
          fh_out \<leftarrow> u64_at m 24;
          if has_op s Op_copy_file_range then
            do { off_in \<leftarrow> u64_at m 8; nodeid_out \<leftarrow> u64_at m 16; off_out \<leftarrow> u64_at m 32; len \<leftarrow> u64_at m 40;
                 flags \<leftarrow> u64_at m 48;
                 invoke r (More (LL_copy_file_range nid (sint off_in) (fh_info fh_in) nodeid_out (sint off_out)
                   (fh_info fh_out) (unat len) (sint (ucast flags :: u32)))) s }
          else no_such_op r s }"

definition do_lseek :: "nat \<Rightarrow> u64 \<Rightarrow> bytes \<Rightarrow> session \<Rightarrow> outcome" where
  "do_lseek r nid m s =
     do { fh \<leftarrow> u64_at m 0;
          if has_op s Op_lseek then
            do { off \<leftarrow> u64_at m 8; whence \<leftarrow> u32_at m 16;
                 invoke r (More (LL_lseek nid (sint off) (sint whence) (fh_info fh))) s }
          else no_such_op r s }"

definition do_destroy :: "nat \<Rightarrow> u64 \<Rightarrow> bytes \<Rightarrow> session \<Rightarrow> outcome" where
  \<comment> \<open>up to the call of \<open>destroy\<close>\<close>
  "do_destroy r nid m s =
     (let s1 = s\<lparr>got_destroy := True\<rparr> in
      if has_op s1 Op_destroy then invoke r LL_destroy s1 else answered (send_reply_ok r [] s1))"

definition fuse_ll_retrieve_reply :: "nat \<Rightarrow> nat \<Rightarrow> u64 \<Rightarrow> bytes \<Rightarrow> fuse_buf \<Rightarrow> session \<Rightarrow> outcome" where
  "fuse_ll_retrieve_reply cookie r ino m ibuf s =
     do { let b = (if buf_is_fd ibuf then ibuf else ibuf\<lparr>buf_mem := buf_mem ibuf + IN_HEADER_SIZE + 40\<rparr>);
          let left = minus_size (buf_size ibuf) (IN_HEADER_SIZE + 40);
          sz \<leftarrow> u32_at m 16;
          if left < unat sz then map_option (Pair []) (fuse_reply_none r s)
          else if has_op s Op_retrieve_reply then
            do { off \<leftarrow> u64_at m 8;
                 invoke r (More (LL_retrieve_reply cookie ino (sint off) (vec_of [b\<lparr>buf_size := unat sz\<rparr>]))) s }
          else map_option (Pair []) (fuse_reply_none r s) }"

definition do_notify_reply :: "nat \<Rightarrow> u64 \<Rightarrow> bytes \<Rightarrow> fuse_buf \<Rightarrow> session \<Rightarrow> outcome" where
  "do_notify_reply r nid m buf s =
     do { q \<leftarrow> req_heap s r;
          case find (\<lambda>n. fst n = r_unique q) (notify_list s) of
            None \<Rightarrow> Some ([], s)
          | Some n \<Rightarrow> fuse_ll_retrieve_reply (snd n) r nid m buf (s\<lparr>notify_list := remove1 n (notify_list s)\<rparr>) }"

end
