(* ===== verification/Negotiate.thy ===== *)
theory Negotiate
  imports Dispatch
begin

text \<open>
  The INIT request, \<open>do_init\<close> of \<open>.deps/libfuse3-3.16.2/lib/fuse_lowlevel.c\<close>: the protocol version, the
  features the kernel offers and the file system wants, and the sizes both sides agree on.

  \<open>do_init\<close> is cut at its call of the file system's \<open>init\<close>: \<open>do_init\<close> ends in the call \<open>LL_init\<close>, and
  \<open>do_init_finish\<close> is the rest, with what \<open>init\<close> has left in \<open>se->conn\<close>.  Debug output is left out.
\<close>

section \<open>Features\<close>

definition FUSE_CAP_ASYNC_READ :: u32 where "FUSE_CAP_ASYNC_READ = 0x1"
definition FUSE_CAP_ATOMIC_O_TRUNC :: u32 where "FUSE_CAP_ATOMIC_O_TRUNC = 0x8"
definition FUSE_CAP_DONT_MASK :: u32 where "FUSE_CAP_DONT_MASK = 0x40"
definition FUSE_CAP_AUTO_INVAL_DATA :: u32 where "FUSE_CAP_AUTO_INVAL_DATA = 0x1000"
definition FUSE_CAP_READDIRPLUS :: u32 where "FUSE_CAP_READDIRPLUS = 0x2000"
definition FUSE_CAP_READDIRPLUS_AUTO :: u32 where "FUSE_CAP_READDIRPLUS_AUTO = 0x4000"
definition FUSE_CAP_ASYNC_DIO :: u32 where "FUSE_CAP_ASYNC_DIO = 0x8000"
definition FUSE_CAP_WRITEBACK_CACHE :: u32 where "FUSE_CAP_WRITEBACK_CACHE = 0x10000"
definition FUSE_CAP_NO_OPEN_SUPPORT :: u32 where "FUSE_CAP_NO_OPEN_SUPPORT = 0x20000"
definition FUSE_CAP_PARALLEL_DIROPS :: u32 where "FUSE_CAP_PARALLEL_DIROPS = 0x40000"
definition FUSE_CAP_POSIX_ACL :: u32 where "FUSE_CAP_POSIX_ACL = 0x80000"
definition FUSE_CAP_HANDLE_KILLPRIV :: u32 where "FUSE_CAP_HANDLE_KILLPRIV = 0x100000"
definition FUSE_CAP_CACHE_SYMLINKS :: u32 where "FUSE_CAP_CACHE_SYMLINKS = 0x800000"
definition FUSE_CAP_NO_OPENDIR_SUPPORT :: u32 where "FUSE_CAP_NO_OPENDIR_SUPPORT = 0x1000000"
definition FUSE_CAP_EXPLICIT_INVAL_DATA :: u32 where "FUSE_CAP_EXPLICIT_INVAL_DATA = 0x2000000"

text \<open>The bits of the INIT messages.\<close>

definition FUSE_ASYNC_READ :: u64 where "FUSE_ASYNC_READ = 0x1"
definition FUSE_POSIX_LOCKS :: u64 where "FUSE_POSIX_LOCKS = 0x2"
definition FUSE_ATOMIC_O_TRUNC :: u64 where "FUSE_ATOMIC_O_TRUNC = 0x8"
definition FUSE_EXPORT_SUPPORT :: u64 where "FUSE_EXPORT_SUPPORT = 0x10"
definition FUSE_BIG_WRITES :: u64 where "FUSE_BIG_WRITES = 0x20"
definition FUSE_DONT_MASK :: u64 where "FUSE_DONT_MASK = 0x40"
definition FUSE_FLOCK_LOCKS :: u64 where "FUSE_FLOCK_LOCKS = 0x400"
definition FUSE_AUTO_INVAL_DATA :: u64 where "FUSE_AUTO_INVAL_DATA = 0x1000"
definition FUSE_DO_READDIRPLUS :: u64 where "FUSE_DO_READDIRPLUS = 0x2000"
definition FUSE_READDIRPLUS_AUTO :: u64 where "FUSE_READDIRPLUS_AUTO = 0x4000"
definition FUSE_ASYNC_DIO :: u64 where "FUSE_ASYNC_DIO = 0x8000"
definition FUSE_WRITEBACK_CACHE :: u64 where "FUSE_WRITEBACK_CACHE = 0x10000"
definition FUSE_NO_OPEN_SUPPORT :: u64 where "FUSE_NO_OPEN_SUPPORT = 0x20000"
definition FUSE_PARALLEL_DIROPS :: u64 where "FUSE_PARALLEL_DIROPS = 0x40000"
definition FUSE_HANDLE_KILLPRIV :: u64 where "FUSE_HANDLE_KILLPRIV = 0x80000"
definition FUSE_POSIX_ACL :: u64 where "FUSE_POSIX_ACL = 0x100000"
definition FUSE_MAX_PAGES :: u64 where "FUSE_MAX_PAGES = 0x400000"
definition FUSE_CACHE_SYMLINKS :: u64 where "FUSE_CACHE_SYMLINKS = 0x800000"
definition FUSE_NO_OPENDIR_SUPPORT :: u64 where "FUSE_NO_OPENDIR_SUPPORT = 0x1000000"
definition FUSE_EXPLICIT_INVAL_DATA :: u64 where "FUSE_EXPLICIT_INVAL_DATA = 0x2000000"
definition FUSE_SETXATTR_EXT :: u64 where "FUSE_SETXATTR_EXT = 0x20000000"
definition FUSE_INIT_EXT :: u64 where "FUSE_INIT_EXT = 0x40000000"

text \<open>The kernel's bit and the capability it stands for, in the order of the code.\<close>

definition offers :: "(u64 \<times> u32) list" where
  "offers =
     [(FUSE_ASYNC_READ, FUSE_CAP_ASYNC_READ), (FUSE_POSIX_LOCKS, FUSE_CAP_POSIX_LOCKS),
      (FUSE_ATOMIC_O_TRUNC, FUSE_CAP_ATOMIC_O_TRUNC), (FUSE_EXPORT_SUPPORT, FUSE_CAP_EXPORT_SUPPORT),
      (FUSE_DONT_MASK, FUSE_CAP_DONT_MASK), (FUSE_FLOCK_LOCKS, FUSE_CAP_FLOCK_LOCKS),
      (FUSE_AUTO_INVAL_DATA, FUSE_CAP_AUTO_INVAL_DATA), (FUSE_DO_READDIRPLUS, FUSE_CAP_READDIRPLUS),
      (FUSE_READDIRPLUS_AUTO, FUSE_CAP_READDIRPLUS_AUTO), (FUSE_ASYNC_DIO, FUSE_CAP_ASYNC_DIO),
      (FUSE_WRITEBACK_CACHE, FUSE_CAP_WRITEBACK_CACHE), (FUSE_NO_OPEN_SUPPORT, FUSE_CAP_NO_OPEN_SUPPORT),
      (FUSE_PARALLEL_DIROPS, FUSE_CAP_PARALLEL_DIROPS), (FUSE_POSIX_ACL, FUSE_CAP_POSIX_ACL),
      (FUSE_HANDLE_KILLPRIV, FUSE_CAP_HANDLE_KILLPRIV), (FUSE_CACHE_SYMLINKS, FUSE_CAP_CACHE_SYMLINKS),
      (FUSE_NO_OPENDIR_SUPPORT, FUSE_CAP_NO_OPENDIR_SUPPORT), (FUSE_EXPLICIT_INVAL_DATA, FUSE_CAP_EXPLICIT_INVAL_DATA),
      (FUSE_SETXATTR_EXT, FUSE_CAP_SETXATTR_EXT)]"

text \<open>The capabilities that are sent back when the file system wants them.\<close>

definition requests :: "(u32 \<times> u64) list" where
  "requests =
     [(FUSE_CAP_ASYNC_READ, FUSE_ASYNC_READ), (FUSE_CAP_POSIX_LOCKS, FUSE_POSIX_LOCKS),
      (FUSE_CAP_ATOMIC_O_TRUNC, FUSE_ATOMIC_O_TRUNC), (FUSE_CAP_EXPORT_SUPPORT, FUSE_EXPORT_SUPPORT),
      (FUSE_CAP_DONT_MASK, FUSE_DONT_MASK), (FUSE_CAP_FLOCK_LOCKS, FUSE_FLOCK_LOCKS),
      (FUSE_CAP_AUTO_INVAL_DATA, FUSE_AUTO_INVAL_DATA), (FUSE_CAP_READDIRPLUS, FUSE_DO_READDIRPLUS),
      (FUSE_CAP_READDIRPLUS_AUTO, FUSE_READDIRPLUS_AUTO), (FUSE_CAP_ASYNC_DIO, FUSE_ASYNC_DIO),
      (FUSE_CAP_WRITEBACK_CACHE, FUSE_WRITEBACK_CACHE), (FUSE_CAP_POSIX_ACL, FUSE_POSIX_ACL),
      (FUSE_CAP_CACHE_SYMLINKS, FUSE_CACHE_SYMLINKS), (FUSE_CAP_EXPLICIT_INVAL_DATA, FUSE_EXPLICIT_INVAL_DATA),
      (FUSE_CAP_SETXATTR_EXT, FUSE_SETXATTR_EXT)]"

definition or_caps :: "u64 \<Rightarrow> u32 \<Rightarrow> u32" where
  "or_caps inflags c0 = fold (\<lambda>(b, cap) c. if and inflags b \<noteq> 0 then or c cap else c) offers c0"

definition or_flags :: "u32 \<Rightarrow> u64 \<Rightarrow> u64" where
  "or_flags wnt f0 = fold (\<lambda>(cap, b) f. if has_bit wnt cap then or f b else f) requests f0"

text \<open>\<open>LL_SET_DEFAULT\<close>\<close>

definition set_default :: "bool \<times> u32 \<Rightarrow> fuse_conn_info \<Rightarrow> fuse_conn_info" where
  "set_default d c =
     (if fst d \<and> has_bit (capable c) (snd d) then c\<lparr>want := or (want c) (snd d)\<rparr> else c)"

definition ll_defaults :: "session \<Rightarrow> (bool \<times> u32) list" where
  "ll_defaults s =
     [(True, FUSE_CAP_ASYNC_READ), (True, FUSE_CAP_PARALLEL_DIROPS), (True, FUSE_CAP_AUTO_INVAL_DATA),
      (True, FUSE_CAP_HANDLE_KILLPRIV), (True, FUSE_CAP_ASYNC_DIO), (True, FUSE_CAP_IOCTL_DIR),
      (True, FUSE_CAP_ATOMIC_O_TRUNC), (has_op s Op_write_buf, FUSE_CAP_SPLICE_READ),
      (has_op s Op_getlk \<and> has_op s Op_setlk, FUSE_CAP_POSIX_LOCKS), (has_op s Op_flock, FUSE_CAP_FLOCK_LOCKS),
      (has_op s Op_readdirplus, FUSE_CAP_READDIRPLUS),
      (has_op s Op_readdirplus \<and> has_op s Op_readdir, FUSE_CAP_READDIRPLUS_AUTO)]"

section \<open>Before \<open>init\<close>\<close>

definition FUSE_DEFAULT_MAX_PAGES_PER_REQ :: nat where "FUSE_DEFAULT_MAX_PAGES_PER_REQ = 32"
definition FUSE_BUFFER_HEADER_SIZE :: nat where "FUSE_BUFFER_HEADER_SIZE = 0x1000"
definition FUSE_MIN_READ_BUFFER :: nat where "FUSE_MIN_READ_BUFFER = 8192"
definition FUSE_KERNEL_VERSION :: u32 where "FUSE_KERNEL_VERSION = 7"
definition FUSE_KERNEL_MINOR_VERSION :: u32 where "FUSE_KERNEL_MINOR_VERSION = 38"

text \<open>\<open>inargflags\<close>\<close>

definition init_in_flags :: "bytes \<Rightarrow> u64 option" where
  "init_in_flags m =
     do { f \<leftarrow> u32_at m 12;
          let w = (ucast f :: u64);
          if and w FUSE_INIT_EXT \<noteq> 0 then do { f2 \<leftarrow> u32_at m 16; Some (or w (push_bit 32 (ucast f2))) }
          else Some w }"

text \<open>What the kernel's message says: the connection and the size of the buffer.\<close>

definition take_offer :: "bytes \<Rightarrow> u32 \<Rightarrow> session \<Rightarrow> fuse_conn_info \<Rightarrow> (fuse_conn_info \<times> nat) option" where
  "take_offer m minor s c =
     (if 6 \<le> minor then
        do { ra \<leftarrow> u32_at m 8;
             inflags \<leftarrow> init_in_flags m;
             let c1 = (if ra < max_readahead c then c\<lparr>max_readahead := ra\<rparr> else c);
             let c2 = c1\<lparr>capable := or_caps inflags (capable c1)\<rparr>;
             let max_bufsize = FUSE_DEFAULT_MAX_PAGES_PER_REQ * pagesize s + FUSE_BUFFER_HEADER_SIZE;
             let sz = (if and inflags FUSE_MAX_PAGES = 0 \<and> max_bufsize < bufsize s then max_bufsize else bufsize s);
             Some (if 38 \<le> minor then c2\<lparr>capable := or (capable c2) FUSE_CAP_EXPIRE_ONLY\<rparr> else c2, sz) }
      else Some (c\<lparr>max_readahead := 0\<rparr>, bufsize s))"

definition splice_caps :: "u32 \<Rightarrow> session \<Rightarrow> u32 \<Rightarrow> u32" where
  "splice_caps minor s cap =
     (if 14 \<le> minor then
        (let c1 = (case custom_io s of Some (False, _) \<Rightarrow> cap | _ \<Rightarrow> or cap (or FUSE_CAP_SPLICE_WRITE FUSE_CAP_SPLICE_MOVE))
         in case custom_io s of Some (_, False) \<Rightarrow> c1 | _ \<Rightarrow> or c1 FUSE_CAP_SPLICE_READ)
      else cap)"

definition do_init_offer :: "u32 \<Rightarrow> bytes \<Rightarrow> session \<Rightarrow> session option" where
  \<comment> \<open>from the kernel's offer to \<open>se->got_init = 1\<close>\<close>
  "do_init_offer minor m s =
     do { (c, sz) \<leftarrow> take_offer m minor s (conn s);
          let c1 = c\<lparr>capable := splice_caps minor s (capable c)\<rparr>;
          let c2 = (if 18 \<le> minor then c1\<lparr>capable := or (capable c1) FUSE_CAP_IOCTL_DIR\<rparr> else c1);
          let c3 = (fold set_default (ll_defaults s) c2)\<lparr>time_gran := 1\<rparr>;
          let sz1 = (if sz < FUSE_MIN_READ_BUFFER then FUSE_MIN_READ_BUFFER else sz);
          let limit = sz1 - FUSE_BUFFER_HEADER_SIZE;
          let c4 = (if limit < unat (max_write c3) then c3\<lparr>max_write := of_nat limit\<rparr> else c3);
          Some (s\<lparr>conn := c4, bufsize := sz1, got_init := True\<rparr>) }"

section \<open>After \<open>init\<close>\<close>

definition fuse_session_exit :: "session \<Rightarrow> session" where
  "fuse_session_exit s = s\<lparr>exited := True\<rparr>"

definition init_failed :: "nat \<Rightarrow> session \<Rightarrow> outcome" where
  "init_failed r s =
     do { (res, s1) \<leftarrow> fuse_reply_err r EPROTO s; Some ([], fuse_session_exit (s1\<lparr>se_error := - EPROTO\<rparr>)) }"

definition init_max_pages :: "session \<Rightarrow> fuse_conn_info \<Rightarrow> nat" where
  "init_max_pages s c = (unat (max_write c - 1) div pagesize s + 1) mod 2 ^ 32"

definition init_out_flags :: "u64 \<Rightarrow> u32 \<Rightarrow> u32 \<Rightarrow> u64" where
  "init_out_flags inflags flags wnt =
     (let f0 = (if and (ucast flags) FUSE_MAX_PAGES \<noteq> 0 then FUSE_MAX_PAGES else 0);
          f1 = or_flags wnt (or f0 FUSE_BIG_WRITES)
      in if and inflags FUSE_INIT_EXT \<noteq> 0 then or f1 FUSE_INIT_EXT else f1)"

text \<open>The limits on background requests.\<close>

definition init_background :: "fuse_conn_info \<Rightarrow> fuse_conn_info" where
  "init_background c =
     (if 13 \<le> proto_minor c then
        (let c1 = (if 0x10000 \<le> max_background c then c\<lparr>max_background := 0xFFFF\<rparr> else c);
             c2 = (if max_background c1 < congestion_threshold c1
                   then c1\<lparr>congestion_threshold := max_background c1\<rparr> else c1)
         in if congestion_threshold c2 = 0 then c2\<lparr>congestion_threshold := max_background c2 * 3 div 4\<rparr> else c2)
      else c)"

definition init_out_size :: "u32 \<Rightarrow> nat" where
  "init_out_size minor = (if minor < 5 then 8 else if minor < 23 then 24 else 64)"

definition init_message :: "session \<Rightarrow> u64 \<Rightarrow> u32 \<Rightarrow> fuse_conn_info \<Rightarrow> bytes" where
  "init_message s inflags flags c =
     (let out = init_out_flags inflags flags (want c);
          bg = (13 \<le> proto_minor c);
          pages = (if and (ucast flags) FUSE_MAX_PAGES \<noteq> 0 then init_max_pages s c else 0)
      in fuse_init_out FUSE_KERNEL_VERSION FUSE_KERNEL_MINOR_VERSION (max_readahead c) (ucast out)
           (if bg then unat (max_background c) else 0) (if bg then unat (congestion_threshold c) else 0)
           (max_write c) (if 23 \<le> proto_minor c then time_gran c else 0) pages
           (if and inflags FUSE_INIT_EXT \<noteq> 0 then ucast (drop_bit 32 out) else 0))"

definition do_init_finish :: "nat \<Rightarrow> bytes \<Rightarrow> session \<Rightarrow> outcome" where
  "do_init_finish r m s =
     (let c = conn s in
      if and (want c) (not (capable c)) \<noteq> 0 then init_failed r s
      else if max_read c \<noteq> mo_max_read s then init_failed r s
      else
        do { flags \<leftarrow> u32_at m 12;
             minor \<leftarrow> u32_at m 4;
             inflags \<leftarrow> (if 6 \<le> minor then init_in_flags m else Some 0);
             let s1 = (if unat (max_write c) < bufsize s - FUSE_BUFFER_HEADER_SIZE
                       then s\<lparr>bufsize := unat (max_write c) + FUSE_BUFFER_HEADER_SIZE\<rparr> else s);
             let c1 = init_background c;
             answered (send_reply_ok r (take (init_out_size minor) (init_message s inflags flags c1)) (s1\<lparr>conn := c1\<rparr>)) })"

definition do_init :: "nat \<Rightarrow> u64 \<Rightarrow> bytes \<Rightarrow> session \<Rightarrow> outcome" where
  "do_init r nid m s =
     do { major \<leftarrow> u32_at m 0;
          minor \<leftarrow> u32_at m 4;
          let s0 = s\<lparr>conn := (conn s)\<lparr>proto_major := major, proto_minor := minor, capable := 0, want := 0\<rparr>\<rparr>;
          if major < 7 then answered (fuse_reply_err r EPROTO s0)
          else if 7 < major then
            answered (send_reply_ok r (fuse_init_out FUSE_KERNEL_VERSION FUSE_KERNEL_MINOR_VERSION 0 0 0 0 0 0 0 0) s0)
          else
            do { s1 \<leftarrow> do_init_offer minor m s0;
                 if has_op s1 Op_init then invoke r LL_init s1 else do_init_finish r m s1 } }"

end
