(* ===== verification/Interrupts.thy ===== *)
theory Interrupts
  imports Negotiate
begin

text \<open>
  Interrupts of requests, \<open>find_interrupted\<close>, \<open>do_interrupt\<close> and \<open>check_interrupt\<close> of
  \<open>.deps/libfuse3-3.16.2/lib/fuse_lowlevel.c\<close>.

  \<open>find_interrupted\<close> gives up \<open>se->lock\<close> while it calls the interrupt function of the request it has
  found, so \<open>do_interrupt\<close> is three steps: \<open>start_interrupt\<close>, \<open>mark_interrupted\<close>, which runs under the
  request's own lock, and \<open>end_interrupt\<close>.  \<open>u.i\<close> of a request that is not an interrupt is not read.
\<close>

definition interrupts_what :: "nat \<Rightarrow> session \<Rightarrow> u64 option" where
  "interrupts_what i s =
     do { q \<leftarrow> req_heap s i; case r_u q of U_i u \<Rightarrow> Some u | U_ni f \<Rightarrow> None }"

definition find_active :: "u64 \<Rightarrow> session \<Rightarrow> nat option option" where
  "find_active u s = find_m (\<lambda>c. map_option (\<lambda>q. r_unique q = u) (req_heap s c)) (se_list s)"

definition find_pending :: "u64 \<Rightarrow> session \<Rightarrow> nat option option" where
  "find_pending u s = find_m (\<lambda>i. map_option (\<lambda>v. v = u) (interrupts_what i s)) (interrupts s)"

text \<open>An interrupt that is done with.\<close>

definition drop_interrupt :: "nat \<Rightarrow> session \<Rightarrow> session option" where
  "drop_interrupt r s = do { s1 \<leftarrow> put_chan r s; destroy_req r s1 }"

text \<open>
  Up to the first \<open>pthread_mutex_unlock\<close>.  The first result is the request that was found and now has
  one more reference.
\<close>

definition start_interrupt :: "nat \<Rightarrow> session \<Rightarrow> (nat option \<times> session) option" where
  "start_interrupt r s =
     do { u \<leftarrow> interrupts_what r s;
          a \<leftarrow> find_active u s;
          case a of
            Some c \<Rightarrow> Some (Some c, upd_req c (\<lambda>q. q\<lparr>r_ctr := r_ctr q + 1\<rparr>) s)
          | None \<Rightarrow>
              do { p \<leftarrow> find_pending u s;
                   case p of
                     Some i \<Rightarrow> map_option (Pair None) (drop_interrupt r s)
                   | None \<Rightarrow> Some (None, s\<lparr>interrupts := interrupts s @ [r]\<rparr>) } }"

definition mark_interrupted :: "nat \<Rightarrow> session \<Rightarrow> session option" where
  "mark_interrupted c s =
     do { q \<leftarrow> req_heap s c;
          let s1 = upd_req c (\<lambda>q. q\<lparr>r_interrupted := True\<rparr>) s;
          case r_u q of
            U_ni (Some f) \<Rightarrow> Some (s1\<lparr>called := called s1 @ [(c, f)]\<rparr>)
          | U_ni None \<Rightarrow> Some s1
          | U_i u \<Rightarrow> None }"

definition end_interrupt :: "nat \<Rightarrow> nat \<Rightarrow> session \<Rightarrow> session option" where
  "end_interrupt c r s =
     do { q \<leftarrow> req_heap s c;
          let s1 = upd_req c (\<lambda>q. q\<lparr>r_ctr := r_ctr q - 1\<rparr>) s;
          s2 \<leftarrow> (if r_ctr q - 1 = 0 then do { s2 \<leftarrow> put_chan r s1; destroy_req c s2 } else Some s1);
          drop_interrupt r s2 }"

definition do_interrupt :: "nat \<Rightarrow> u64 \<Rightarrow> bytes \<Rightarrow> session \<Rightarrow> outcome" where
  "do_interrupt r nid m s =
     do { u \<leftarrow> u64_at m 0;
          (a, s1) \<leftarrow> start_interrupt r (upd_req r (\<lambda>q. q\<lparr>r_u := U_i u\<rparr>) s);
          case a of
            None \<Rightarrow> Some ([], s1)
          | Some c \<Rightarrow> do { s2 \<leftarrow> mark_interrupted c s1; s3 \<leftarrow> end_interrupt c r s2; Some ([], s3) } }"

text \<open>The first result is an interrupt that has to be answered with \<open>EAGAIN\<close>.\<close>

definition check_interrupt :: "nat \<Rightarrow> session \<Rightarrow> (nat option \<times> session) option" where
  "check_interrupt r s =
     do { q \<leftarrow> req_heap s r;
          p \<leftarrow> find_pending (r_unique q) s;
          case p of
            Some i \<Rightarrow> map_option (Pair None)
                        (drop_interrupt i (list_del_req i (upd_req r (\<lambda>q. q\<lparr>r_interrupted := True\<rparr>) s)))
          | None \<Rightarrow> (case interrupts s of [] \<Rightarrow> Some (None, s) | i # _ \<Rightarrow> Some (Some i, list_del_req i s)) }"

text \<open>The part of \<open>fuse_session_process_buf_int\<close> that puts a request on the list of active ones.\<close>

definition admit :: "nat \<Rightarrow> session \<Rightarrow> session option" where
  "admit r s =
     do { (intr, s1) \<leftarrow> check_interrupt r s;
          let s2 = s1\<lparr>se_list := se_list s1 @ [r]\<rparr>;
          case intr of None \<Rightarrow> Some s2 | Some i \<Rightarrow> map_option snd (fuse_reply_err i EAGAIN s2) }"

end
