(* ===== verification/Serve.thy ===== *)
theory Serve
  imports Interrupts
begin

text \<open>
  Serving a request from end to end: the table \<open>fuse_ll_ops\<close> and \<open>fuse_session_process_buf_int\<close> of
  \<open>.deps/libfuse3-3.16.2/lib/fuse_lowlevel.c\<close>, and the table \<open>fuse_path_ops\<close> of \<open>lib/fuse.c\<close> with which
  the high-level library is a file system of the low-level one.

  \<open>fuse_session_process_buf_int\<close> yields the calls of the file system that the request asks for, and
  \<open>perform\<close> is such a call with the replies it makes.  The reset of a pipe that \<open>write_buf\<close> or
  \<open>retrieve_reply\<close> has been called with and has not emptied is left out.
\<close>

section \<open>The table of requests\<close>

definition FUSE_INIT :: u32 where "FUSE_INIT = 26"
definition FUSE_READ :: u32 where "FUSE_READ = 15"
definition FUSE_WRITE :: u32 where "FUSE_WRITE = 16"
definition FUSE_RELEASE :: u32 where "FUSE_RELEASE = 18"
definition FUSE_FSYNC :: u32 where "FUSE_FSYNC = 20"
definition FUSE_READDIR :: u32 where "FUSE_READDIR = 28"
definition FUSE_RELEASEDIR :: u32 where "FUSE_RELEASEDIR = 29"
definition FUSE_FSYNCDIR :: u32 where "FUSE_FSYNCDIR = 30"
definition FUSE_INTERRUPT :: u32 where "FUSE_INTERRUPT = 36"
definition FUSE_NOTIFY_REPLY :: u32 where "FUSE_NOTIFY_REPLY = 41"
definition FUSE_READDIRPLUS :: u32 where "FUSE_READDIRPLUS = 44"
definition CUSE_INIT :: u32 where "CUSE_INIT = 4096"

type_synonym handler = "nat \<Rightarrow> u64 \<Rightarrow> bytes \<Rightarrow> session \<Rightarrow> outcome"

text \<open>The entry of \<open>FUSE_NOTIFY_REPLY\<close> is never called; that of \<open>CUSE_INIT\<close> is not modelled.\<close>

definition no_handler :: handler where
  "no_handler r nid m s = None"

definition fuse_ll_ops :: "(u32 \<times> handler) list" where
  "fuse_ll_ops =
     [(1, do_lookup_req), (2, do_forget), (3, do_getattr), (4, do_setattr), (5, do_readlink), (6, do_symlink),
      (8, do_mknod), (9, do_mkdir), (10, do_unlink), (11, do_rmdir), (12, do_rename), (13, do_link), (14, do_open),
      (15, do_read), (16, do_write), (17, do_statfs), (18, do_release), (20, do_fsync), (21, do_setxattr),
      (22, do_getxattr), (23, do_listxattr), (24, do_removexattr), (25, do_flush), (26, do_init), (27, do_opendir),
      (28, do_readdir), (29, do_releasedir), (30, do_fsyncdir), (31, do_getlk), (32, do_setlk), (33, do_setlkw),
      (34, do_access), (35, do_create), (36, do_interrupt), (37, do_bmap), (39, do_ioctl), (40, do_poll),
      (43, do_fallocate), (38, do_destroy), (41, no_handler), (42, do_batch_forget), (44, do_readdirplus),
      (45, do_rename2), (47, do_copy_file_range), (46, do_lseek), (CUSE_INIT, no_handler)]"

definition ll_handler :: "u32 \<Rightarrow> handler option" where
  "ll_handler opc = map_of fuse_ll_ops opc"

section \<open>Reading a request\<close>

definition WRITE_HEADER_SIZE :: nat where "WRITE_HEADER_SIZE = 80"

definition fuse_ll_copy_from_pipe :: "'s sys_io \<Rightarrow> fuse_bufvec \<Rightarrow> fuse_bufvec \<Rightarrow> 's env \<Rightarrow> (int \<times> fuse_bufvec \<times> 's env) option" where
  "fuse_ll_copy_from_pipe io dst src e =
     do { (res, dst1, src1, m, w) \<leftarrow> fuse_buf_copy io False dst src no_flags (mem e) (fs_state e);
          let e1 = e\<lparr>mem := m, fs_state := w\<rparr>;
          if res < 0 then Some (to_int res, src1, e1)
          else if nat res < fuse_buf_size dst1 then Some (-1, src1, e1)
          else Some (0, src1, e1) }"

definition req_refused :: "session \<Rightarrow> u32 \<Rightarrow> u32 \<Rightarrow> int option" where
  \<comment> \<open>the error number of a request that is turned down, with its opcode and user\<close>
  "req_refused s opc uid =
     (if \<not> got_init s \<and> opc \<noteq> (if is_cuse s then CUSE_INIT else FUSE_INIT) then Some EIO
      else if got_init s \<and> (opc = FUSE_INIT \<or> opc = CUSE_INIT) then Some EIO
      else if deny_others s \<and> uid \<noteq> owner s \<and> uid \<noteq> 0 \<and>
        opc \<notin> {FUSE_INIT, FUSE_READ, FUSE_WRITE, FUSE_FSYNC, FUSE_RELEASE, FUSE_READDIR, FUSE_FSYNCDIR, FUSE_RELEASEDIR,
               FUSE_NOTIFY_REPLY, FUSE_READDIRPLUS} then Some EACCES
      else if ll_handler opc = None then Some ENOSYS
      else None)"

text \<open>A new request with the fields of the header.\<close>

definition new_req :: "bytes \<Rightarrow> nat \<Rightarrow> nat option \<Rightarrow> session \<Rightarrow> session option" where
  "new_req m r ch s =
     do { uniq \<leftarrow> u64_at m 8;
          uid \<leftarrow> u32_at m 24;
          gid \<leftarrow> u32_at m 28;
          pid \<leftarrow> u32_at m 32;
          s1 \<leftarrow> (case ch of None \<Rightarrow> Some s | Some c \<Rightarrow> fuse_chan_get c s);
          Some (upd_req r (\<lambda>q. q\<lparr>r_unique := uniq,
                  r_ctx := (r_ctx q)\<lparr>cx_uid := uint uid, cx_gid := uint gid, cx_pid := sint pid\<rparr>, r_ch := ch\<rparr>) s1) }"

text \<open>The way \<open>reply_err\<close> of the code: an answer, and a pipe with the rest of the request is emptied.\<close>

definition turn_down :: "'s pipe_ops \<Rightarrow> fuse_buf \<Rightarrow> nat \<Rightarrow> int \<Rightarrow> 's thread \<Rightarrow> ((nat \<times> ll_call) list \<times> 's thread) option" where
  "turn_down po buf r err t =
     do { (res, t1) \<leftarrow> with_se (fuse_reply_err r err) t;
          Some ([], if buf_is_fd buf then fuse_ll_clear_pipe po t1 else t1) }"

definition dispatch :: "fuse_buf \<Rightarrow> u32 \<Rightarrow> nat \<Rightarrow> u64 \<Rightarrow> bytes \<Rightarrow> session \<Rightarrow> outcome" where
  "dispatch buf opc r nid inarg s =
     (if opc = FUSE_WRITE \<and> has_op s Op_write_buf then do_write_buf r nid inarg buf s
      else if opc = FUSE_NOTIFY_REPLY then do_notify_reply r nid inarg buf s
      else do { h \<leftarrow> ll_handler opc; h r nid inarg s })"

definition on_thread :: "(session \<Rightarrow> outcome) \<Rightarrow> 's thread \<Rightarrow> ((nat \<times> ll_call) list \<times> 's thread) option" where
  "on_thread f t = map_option (\<lambda>(cs, s). (cs, t\<lparr>se := s\<rparr>)) (f (se t))"

text \<open>
  The rest of a request that is still in the pipe is read into \<open>mbuf\<close>, which holds the header and the
  fixed part of a write.  A write for \<open>write_buf\<close> and the answer to a retrieve keep their data in the pipe.
\<close>

definition needs_rest :: "fuse_buf \<Rightarrow> u32 \<Rightarrow> session \<Rightarrow> bool" where
  "needs_rest buf opc s \<longleftrightarrow> buf_is_fd buf \<and> WRITE_HEADER_SIZE < buf_size buf \<and>
     (opc \<noteq> FUSE_WRITE \<or> \<not> has_op s Op_write_buf) \<and> opc \<noteq> FUSE_NOTIFY_REPLY"

definition read_rest ::
  "'s sys_io \<Rightarrow> fuse_buf \<Rightarrow> fuse_bufvec \<Rightarrow> bytes \<Rightarrow> 's env \<Rightarrow> ((int \<times> bytes) \<times> 's env) option" where
  "read_rest io buf src m e =
     (case malloc (buf_size buf) e of
        (None, e1) \<Rightarrow> Some ((ENOMEM, m), e1)
      | (Some a, e1) \<Rightarrow>
          do { (res, src1, e2) \<leftarrow> fuse_ll_copy_from_pipe io
                 (set_mem (a + WRITE_HEADER_SIZE) (bufvec_init (buf_size buf - WRITE_HEADER_SIZE))) src e1;
               let rest = mem_load (mem e2) (a + WRITE_HEADER_SIZE) (buf_size buf - WRITE_HEADER_SIZE);
               e3 \<leftarrow> free_mem a e2;
               Some ((- res, m @ rest), e3) })"

text \<open>
  The end of \<open>do_write_buf\<close> and of \<open>fuse_ll_retrieve_reply\<close>: data in the pipe that no operation was called
  with is dropped.  An answer that no retrieve waits for leaves it where it is.
\<close>

definition left_unread :: "fuse_buf \<Rightarrow> u32 \<Rightarrow> u64 \<Rightarrow> session \<Rightarrow> (nat \<times> ll_call) list \<Rightarrow> bool" where
  "left_unread buf opc uniq s cs \<longleftrightarrow> buf_is_fd buf \<and> cs = [] \<and>
     (opc = FUSE_WRITE \<and> has_op s Op_write_buf \<or> opc = FUSE_NOTIFY_REPLY \<and> uniq \<in> fst ` set (notify_list s))"

text \<open>What happens to a request once it is read; \<open>src\<close> is what is left of the pipe.\<close>

definition serve_req ::
  "'s sys_io \<Rightarrow> 's pipe_ops \<Rightarrow> fuse_buf \<Rightarrow> nat option \<Rightarrow> fuse_bufvec \<Rightarrow> bytes \<Rightarrow> 's thread
     \<Rightarrow> ((nat \<times> ll_call) list \<times> 's thread) option" where
  "serve_req io po buf ch src m t =
     do { opc \<leftarrow> u32_at m 4;
          uniq \<leftarrow> u64_at m 8;
          nid \<leftarrow> u64_at m 16;
          uid \<leftarrow> u32_at m 24;
          case fuse_ll_alloc_req (se t) of
            (None, s) \<Rightarrow>
              (let t1 = snd (on_se (fuse_send_msg ch (- ENOMEM) uniq []) (t\<lparr>se := s\<rparr>))
               in Some ([], if buf_is_fd buf then fuse_ll_clear_pipe po t1 else t1))
          | (Some r, s) \<Rightarrow>
              do { s1 \<leftarrow> new_req m r ch s;
                   let t1 = t\<lparr>se := s1\<rparr>;
                   case req_refused s1 opc uid of
                     Some err \<Rightarrow> turn_down po buf r err t1
                   | None \<Rightarrow>
                       do { s2 \<leftarrow> (if opc \<noteq> FUSE_INTERRUPT then admit r s1 else Some s1);
                            let t2 = t1\<lparr>se := s2\<rparr>;
                            if needs_rest buf opc s2 then
                              do { ((err, m1), e) \<leftarrow> read_rest io buf src m (th_env t2);
                                   let t3 = t2\<lparr>th_env := e\<rparr>;
                                   if err \<noteq> 0 then turn_down po buf r err t3
                                   else on_thread (dispatch buf opc r nid (drop IN_HEADER_SIZE m1)) t3 }
                            else
                              do { (cs, t3) \<leftarrow> on_thread (dispatch buf opc r nid (drop IN_HEADER_SIZE m)) t2;
                                   Some (cs, if left_unread buf opc uniq s2 cs then fuse_ll_clear_pipe po t3 else t3) } } } }"

lemma left_unread_memory [simp]: "\<not> buf_is_fd buf \<Longrightarrow> \<not> left_unread buf opc uniq s cs"
  by (simp add: left_unread_def)

definition fuse_session_process_buf_int ::
  "'s sys_io \<Rightarrow> 's pipe_ops \<Rightarrow> fuse_buf \<Rightarrow> nat option \<Rightarrow> 's thread \<Rightarrow> ((nat \<times> ll_call) list \<times> 's thread) option" where
  "fuse_session_process_buf_int io po buf ch t =
     (if \<not> buf_is_fd buf
      then serve_req io po buf ch (vec_of [buf]) (mem_load (mem (th_env t)) (buf_mem buf) (buf_size buf)) t
      else
        (let sz = min (buf_size buf) WRITE_HEADER_SIZE in
         case malloc sz (th_env t) of
           (None, e) \<Rightarrow> Some ([], fuse_ll_clear_pipe po (t\<lparr>th_env := e\<rparr>))
         | (Some a, e) \<Rightarrow>
             do { (res, src, e1) \<leftarrow> fuse_ll_copy_from_pipe io (set_mem a (bufvec_init sz)) (vec_of [buf]) e;
                  if res < 0 then
                    do { e2 \<leftarrow> free_mem a e1; Some ([], fuse_ll_clear_pipe po (t\<lparr>th_env := e2\<rparr>)) }
                  else
                    do { (cs, t1) \<leftarrow> serve_req io po buf ch src (mem_load (mem e1) a sz) (t\<lparr>th_env := e1\<rparr>);
                         e2 \<leftarrow> free_mem a (th_env t1);
                         Some (cs, t1\<lparr>th_env := e2\<rparr>) } }))"

section \<open>The high-level library as a file system\<close>

definition fuse_path_ops :: "ll_op \<Rightarrow> bool" where
  "fuse_path_ops oper \<longleftrightarrow> oper \<notin> {Op_write, Op_retrieve_reply}"

fun call_names :: "nat \<Rightarrow> fuse_context \<Rightarrow> ll_names \<Rightarrow> 's lib \<Rightarrow> 's run option" where
  "call_names i cx (LL_lookup p nm) L = fuse_lib_lookup i cx L p nm"
| "call_names i cx (LL_forget ino n) L = fuse_lib_forget i L ino (unat n)"
| "call_names i cx (LL_getattr ino fi) L = fuse_lib_getattr i cx L ino fi"
| "call_names i cx (LL_setattr ino st v fi) L = fuse_lib_setattr i cx L ino st v fi"
| "call_names i cx (LL_readlink ino) L = fuse_lib_readlink i cx L ino"
| "call_names i cx (LL_mknod p nm mode rdev) L = fuse_lib_mknod i cx L p nm mode (unat rdev)"
| "call_names i cx (LL_mkdir p nm mode) L = fuse_lib_mkdir i cx L p nm mode"
| "call_names i cx (LL_unlink p nm) L = fuse_lib_unlink i cx L p nm"
| "call_names i cx (LL_rmdir p nm) L = fuse_lib_rmdir i cx L p nm"
| "call_names i cx (LL_symlink l p nm) L = fuse_lib_symlink i cx L l p nm"
| "call_names i cx (LL_rename p nm p' nm' flags) L = fuse_lib_rename i cx L p nm p' nm' flags"
| "call_names i cx (LL_link ino p nm) L = fuse_lib_link i cx L ino p nm"

fun call_files :: "nat \<Rightarrow> fuse_context \<Rightarrow> ll_files \<Rightarrow> 's lib \<Rightarrow> 's run option" where
  "call_files i cx (LL_open ino fi) L = fuse_lib_open i cx L ino fi"
| "call_files i cx (LL_read ino sz off fi) L = fuse_lib_read i cx L ino sz off fi"
| "call_files i cx (LL_write ino bs sz off fi) L = None"
| "call_files i cx (LL_flush ino fi) L = fuse_lib_flush i cx L ino fi"
| "call_files i cx (LL_release ino fi) L = fuse_lib_release i cx L ino fi"
| "call_files i cx (LL_fsync ino ds fi) L = fuse_lib_fsync i cx L ino ds fi"
| "call_files i cx (LL_opendir ino fi) L = fuse_lib_opendir i cx L ino fi"
| "call_files i cx (LL_readdir ino sz off fi) L = fuse_lib_readdir i cx L ino sz off fi"
| "call_files i cx (LL_releasedir ino fi) L = fuse_lib_releasedir i cx L ino fi"
| "call_files i cx (LL_fsyncdir ino ds fi) L = fuse_lib_fsyncdir i cx L ino ds fi"
| "call_files i cx (LL_statfs ino) L = fuse_lib_statfs i cx L ino"

fun call_attrs :: "nat \<Rightarrow> fuse_context \<Rightarrow> ll_attrs \<Rightarrow> 's lib \<Rightarrow> 's run option" where
  "call_attrs i cx (LL_setxattr ino nm val flags) L = fuse_lib_setxattr i cx L ino nm val flags"
| "call_attrs i cx (LL_getxattr ino nm sz) L = fuse_lib_getxattr i cx L ino nm sz"
| "call_attrs i cx (LL_listxattr ino sz) L = fuse_lib_listxattr i cx L ino sz"
| "call_attrs i cx (LL_removexattr ino nm) L = fuse_lib_removexattr i cx L ino nm"
| "call_attrs i cx (LL_access ino msk) L = fuse_lib_access i cx L ino msk"
| "call_attrs i cx (LL_create p nm mode fi) L = fuse_lib_create i cx L p nm mode fi"
| "call_attrs i cx (LL_getlk ino fi fl) L = fuse_lib_getlk i cx L ino fi fl"
| "call_attrs i cx (LL_setlk ino fi fl sleep) L = fuse_lib_setlk i cx L ino fi fl sleep"
| "call_attrs i cx (LL_bmap ino bsz idx) L = fuse_lib_bmap i cx L ino bsz idx"
| "call_attrs i cx (LL_ioctl ino cmd arg fi flags bs n) L = fuse_lib_ioctl i cx L ino cmd (unat arg) fi flags bs n"

fun call_more :: "'s sys_io \<Rightarrow> nat \<Rightarrow> fuse_context \<Rightarrow> ll_more \<Rightarrow> 's lib \<Rightarrow> 's run option" where
  "call_more io i cx (LL_poll ino fi ph) L = fuse_lib_poll i cx L ino fi (map_option unat ph)"
| "call_more io i cx (LL_write_buf ino buf off fi) L = fuse_lib_write_buf io i cx L ino buf off fi"
| "call_more io i cx (LL_retrieve_reply ck ino off buf) L = None"
| "call_more io i cx (LL_forget_multi es) L = fuse_lib_forget_multi i L (map (\<lambda>(ino, n). (ino, unat n)) es)"
| "call_more io i cx (LL_flock ino fi opn) L = fuse_lib_flock i cx L ino fi opn"
| "call_more io i cx (LL_fallocate ino mode off len fi) L = fuse_lib_fallocate i cx L ino mode off len fi"
| "call_more io i cx (LL_readdirplus ino sz off fi) L = fuse_lib_readdirplus i cx L ino sz off fi"
| "call_more io i cx (LL_copy_file_range ino off fi ino' off' fi' len flags) L =
     fuse_lib_copy_file_range i cx L ino off fi ino' off' fi' len flags"
| "call_more io i cx (LL_lseek ino off whence fi) L = fuse_lib_lseek i cx L ino off whence fi"

text \<open>The calls that are answered with replies; \<open>init\<close> and \<open>destroy\<close> are not.\<close>

fun path_op :: "'s sys_io \<Rightarrow> nat \<Rightarrow> fuse_context \<Rightarrow> ll_call \<Rightarrow> 's lib \<Rightarrow> 's run option" where
  "path_op io i cx LL_init L = None"
| "path_op io i cx LL_destroy L = None"
| "path_op io i cx (Names c) L = call_names i cx c L"
| "path_op io i cx (Files c) L = call_files i cx c L"
| "path_op io i cx (Attrs c) L = call_attrs i cx c L"
| "path_op io i cx (More c) L = call_more io i cx c L"

text \<open>A reply of a handler, as a call of the low-level library.\<close>

fun send_one :: "'s sys_io \<Rightarrow> 's pipe_ops \<Rightarrow> nat \<Rightarrow> reply \<Rightarrow> 's thread \<Rightarrow> (int \<times> 's thread) option" where
  "send_one io po r (Reply_err e) t = with_se (fuse_reply_err r e) t"
| "send_one io po r Reply_none t = with_se (\<lambda>s. map_option (Pair 0) (fuse_reply_none r s)) t"
| "send_one io po r (Reply_entry e) t = with_se (fuse_reply_entry r e) t"
| "send_one io po r (Reply_create e fi) t = with_se (fuse_reply_create r e fi) t"
| "send_one io po r (Reply_attr st to) t = with_se (fuse_reply_attr r st to) t"
| "send_one io po r (Reply_readlink l) t = with_se (fuse_reply_readlink r l) t"
| "send_one io po r (Reply_open fi) t = with_se (fuse_reply_open r fi) t"
| "send_one io po r (Reply_write n) t = with_se (fuse_reply_write r n) t"
| "send_one io po r (Reply_buf bs) t = with_se (fuse_reply_buf r bs) t"
| "send_one io po r (Reply_data v m) t =
     map_option (\<lambda>(res, t1). (res, t1\<lparr>th_env := (th_env t1)\<lparr>mem := mem (th_env t)\<rparr>\<rparr>))
       (fuse_reply_data io po r v no_flags (t\<lparr>th_env := (th_env t)\<lparr>mem := m\<rparr>\<rparr>))"
| "send_one io po r (Reply_statfs st) t = with_se (fuse_reply_statfs r st) t"
| "send_one io po r (Reply_xattr n) t = with_se (fuse_reply_xattr r n) t"
| "send_one io po r (Reply_lock fl) t = with_se (fuse_reply_lock r fl) t"
| "send_one io po r (Reply_bmap idx) t = with_se (fuse_reply_bmap r idx) t"
| "send_one io po r (Reply_ioctl res bs) t = with_se (fuse_reply_ioctl r res bs) t"
| "send_one io po r (Reply_poll ev) t = with_se (fuse_reply_poll r ev) t"
| "send_one io po r (Reply_lseek off) t = with_se (fuse_reply_lseek r off) t"

fun send_all :: "'s sys_io \<Rightarrow> 's pipe_ops \<Rightarrow> nat \<Rightarrow> reply list \<Rightarrow> 's thread \<Rightarrow> 's thread option" where
  "send_all io po r [] t = Some t"
| "send_all io po r (x # xs) t = do { (res, t1) \<leftarrow> send_one io po r x t; send_all io po r xs t1 }"

text \<open>
  A call that does not have to wait.  The handler learns from \<open>answers\<close> what its reply will return,
  which is the result of the next write to the device.
\<close>

definition perform ::
  "'s sys_io \<Rightarrow> 's pipe_ops \<Rightarrow> nat \<Rightarrow> nat \<times> ll_call \<Rightarrow> 's lib \<times> 's thread \<Rightarrow> ('s lib \<times> 's thread) option" where
  "perform io po i rc D =
     (case (rc, D) of ((r, c), (L, t)) \<Rightarrow>
        do { q \<leftarrow> req_heap (se t) r;
             run \<leftarrow> path_op io i (r_ctx q) c
                     (L\<lparr>env := th_env t, replies := [], answers := map uminus (take 1 (write_results (se t)))\<rparr>);
             case run of
               Finished L1 \<Rightarrow> do { t1 \<leftarrow> send_all io po r (replies L1) (t\<lparr>th_env := env L1\<rparr>);
                                   Some (L1\<lparr>env := th_env t1\<rparr>, t1) }
             | Waiting j L1 ready k \<Rightarrow> None })"

fun perform_all ::
  "'s sys_io \<Rightarrow> 's pipe_ops \<Rightarrow> nat \<Rightarrow> (nat \<times> ll_call) list \<Rightarrow> 's lib \<times> 's thread \<Rightarrow> ('s lib \<times> 's thread) option" where
  "perform_all io po i [] D = Some D"
| "perform_all io po i (x # xs) D = do { D1 \<leftarrow> perform io po i x D; perform_all io po i xs D1 }"

text \<open>The two calls without a reply of their own: the rest of \<open>do_init\<close> and of \<open>do_destroy\<close>.\<close>

definition run_init :: "nat \<Rightarrow> bytes \<Rightarrow> 's lib \<times> 's thread \<Rightarrow> ('s lib \<times> 's thread) option" where
  "run_init r m D =
     (case D of (L, t) \<Rightarrow>
        do { let (c, L1) = fuse_lib_init (conn (se t)) (L\<lparr>env := th_env t\<rparr>);
             (cs, s) \<leftarrow> do_init_finish r m ((se t)\<lparr>conn := c\<rparr>);
             Some (L1, t\<lparr>se := s, th_env := env L1\<rparr>) })"

definition run_destroy :: "nat \<Rightarrow> 's lib \<times> 's thread \<Rightarrow> ('s lib \<times> 's thread) option" where
  "run_destroy r D =
     (case D of (L, t) \<Rightarrow>
        do { let L1 = fuse_lib_destroy (L\<lparr>env := th_env t\<rparr>);
             (res, s) \<leftarrow> send_reply_ok r [] (se t);
             Some (L1, t\<lparr>se := s, th_env := env L1\<rparr>) })"

end
