(* ===== verification/Roundtrip.thy ===== *)
theory Roundtrip
  imports Serve
begin

text \<open>
  How the kernel writes a request, after \<open>.deps/libfuse3-3.16.2/include/fuse_kernel.h\<close>, and that the
  functions \<open>do_*\<close> read back exactly the call that was meant, for every operation and every minor
  version of the protocol, without reading behind the end of the message.
\<close>

section \<open>Writing a request\<close>

definition request_lock :: "flock \<Rightarrow> bytes" where
  "request_lock fl =
     fuse_file_lock (of_int (l_start fl))
       (if l_len fl = 0 then of_int OFFSET_MAX else of_int (l_start fl + l_len fl - 1))
       (lock_num (l_type fl)) (of_int (l_pid fl))"

definition file_fh :: "fi_opt \<Rightarrow> u64" where
  "file_fh fi = (case fi of None \<Rightarrow> 0 | Some f \<Rightarrow> fi_fh f)"

definition minor :: "session \<Rightarrow> u32" where
  "minor s = proto_minor (conn s)"

text \<open>The opcode, the node number of the header, and the bytes behind the header.\<close>

fun names_request :: "session \<Rightarrow> u32 \<Rightarrow> ll_names \<Rightarrow> u32 \<times> u64 \<times> bytes" where
  "names_request s um (LL_lookup p nm) = (1, p, cstr_bytes nm)"
| "names_request s um (LL_forget ino n) = (2, ino, fuse_forget_in n)"
| "names_request s um (LL_getattr ino fi) =
     (3, ino, if minor s < 9 then [] else fuse_getattr_in (if fi = None then 0 else 1) (file_fh fi))"
| "names_request s um (LL_setattr ino st v fi) =
     (4, ino, fuse_setattr_in (if fi = None then v else or v FATTR_FH) (file_fh fi) st)"
| "names_request s um (LL_readlink ino) = (5, ino, [])"
| "names_request s um (LL_mknod p nm mode rdev) =
     (8, p, (if minor s < 12 then w32 mode @ w32 rdev else fuse_mknod_in mode rdev um) @ cstr_bytes nm)"
| "names_request s um (LL_mkdir p nm mode) = (9, p, fuse_mkdir_in mode um @ cstr_bytes nm)"
| "names_request s um (LL_unlink p nm) = (10, p, cstr_bytes nm)"
| "names_request s um (LL_rmdir p nm) = (11, p, cstr_bytes nm)"
| "names_request s um (LL_symlink l p nm) = (6, p, cstr_bytes nm @ cstr_bytes l)"
| "names_request s um (LL_rename p nm p' nm' flags) =
     (if flags = 0 then (12, p, fuse_rename_in p' @ cstr_bytes nm @ cstr_bytes nm')
      else (45, p, fuse_rename2_in p' flags @ cstr_bytes nm @ cstr_bytes nm'))"
| "names_request s um (LL_link ino p nm) = (13, p, fuse_link_in ino @ cstr_bytes nm)"

definition bit_if :: "bool \<Rightarrow> u32 \<Rightarrow> u32" where
  "bit_if b w = (if b then w else 0)"

fun files_request :: "session \<Rightarrow> u32 \<Rightarrow> ll_files \<Rightarrow> u32 \<times> u64 \<times> bytes" where
  "files_request s um (LL_open ino fi) = (14, ino, fuse_open_in (fi_flags fi))"
| "files_request s um (LL_read ino sz off fi) =
     (15, ino, take (if minor s < 9 then 24 else 40)
        (fuse_read_in (fi_fh fi) off (of_nat sz) (fi_lock_owner fi) (fi_flags fi)))"
| "files_request s um (LL_write ino bs sz off fi) =
     (16, ino, take (if minor s < 9 then 24 else 40)
        (fuse_write_in (fi_fh fi) off (of_nat sz) (bit_if (fi_writepage fi) 1) (fi_lock_owner fi) (fi_flags fi)) @ bs)"
| "files_request s um (LL_flush ino fi) =
     (25, ino, take (if minor s < 7 then 16 else 24) (fuse_flush_in (fi_fh fi) (fi_lock_owner fi)))"
| "files_request s um (LL_release ino fi) =
     (18, ino, take (if minor s < 8 then 16 else 24)
        (fuse_release_in (fi_fh fi) (fi_flags fi) (or (bit_if (fi_flush fi) 1) (bit_if (fi_flock_release fi) 2))
           (fi_lock_owner fi)))"
| "files_request s um (LL_fsync ino ds fi) = (20, ino, fuse_fsync_in (fi_fh fi) (of_int ds))"
| "files_request s um (LL_opendir ino fi) = (27, ino, fuse_open_in (fi_flags fi))"
| "files_request s um (LL_readdir ino sz off fi) =
     (28, ino, take (if minor s < 9 then 24 else 40) (fuse_read_in (fi_fh fi) off (of_nat sz) 0 0))"
| "files_request s um (LL_releasedir ino fi) =
     (29, ino, take (if minor s < 8 then 16 else 24) (fuse_release_in (fi_fh fi) (fi_flags fi) 0 0))"
| "files_request s um (LL_fsyncdir ino ds fi) = (30, ino, fuse_fsync_in (fi_fh fi) (of_int ds))"
| "files_request s um (LL_statfs ino) = (17, ino, [])"

fun attrs_request :: "session \<Rightarrow> u32 \<Rightarrow> ll_attrs \<Rightarrow> u32 \<times> u64 \<times> bytes" where
  "attrs_request s um (LL_setxattr ino nm val flags) =
     (21, ino, take (if has_bit (want (conn s)) FUSE_CAP_SETXATTR_EXT then 16 else 8)
        (fuse_setxattr_in (of_nat (length val)) (of_int flags)) @ cstr_bytes nm @ val)"
| "attrs_request s um (LL_getxattr ino nm sz) = (22, ino, fuse_getxattr_in (of_nat sz) @ cstr_bytes nm)"
| "attrs_request s um (LL_listxattr ino sz) = (23, ino, fuse_getxattr_in (of_nat sz))"
| "attrs_request s um (LL_removexattr ino nm) = (24, ino, cstr_bytes nm)"
| "attrs_request s um (LL_access ino msk) = (34, ino, fuse_access_in (of_int msk))"
| "attrs_request s um (LL_create p nm mode fi) =
     (35, p, (if minor s < 12 then w32 (fi_flags fi) @ w32 mode else fuse_create_in (fi_flags fi) mode um) @ cstr_bytes nm)"
| "attrs_request s um (LL_getlk ino fi fl) =
     (31, ino, fuse_lk_in (fi_fh fi) (fi_lock_owner fi) (request_lock fl) 0)"
| "attrs_request s um (LL_setlk ino fi fl sleep) =
     (if sleep then 33 else 32, ino, fuse_lk_in (fi_fh fi) (fi_lock_owner fi) (request_lock fl) 0)"
| "attrs_request s um (LL_bmap ino bsz idx) = (37, ino, fuse_bmap_in idx (of_nat bsz))"
| "attrs_request s um (LL_ioctl ino cmd arg fi flags bs outsz) =
     (39, ino, fuse_ioctl_in (fi_fh fi) flags cmd arg (of_nat (length bs)) (of_nat outsz) @ bs)"

text \<open>A BSD lock is sent as a lock with a flag; \<open>LOCK_NB\<close> is the bit 4 of the operation.\<close>

definition flock_type :: "int \<Rightarrow> u32" where
  "flock_type opn = (if opn \<in> {1, 5} then 0 else if opn \<in> {2, 6} then 1 else 2)"

fun more_request :: "session \<Rightarrow> u32 \<Rightarrow> ll_more \<Rightarrow> u32 \<times> u64 \<times> bytes" where
  "more_request s um (LL_poll ino fi ph) =
     (40, ino, fuse_poll_in (fi_fh fi) (case ph of None \<Rightarrow> 0 | Some kh \<Rightarrow> kh) (bit_if (ph \<noteq> None) 1) (fi_poll_events fi))"
| "more_request s um (LL_write_buf ino buf off fi) = (16, ino, [])"
| "more_request s um (LL_retrieve_reply ck ino off buf) = (41, ino, [])"
| "more_request s um (LL_forget_multi es) =
     (42, 0, fuse_batch_forget_in (of_nat (length es)) @ concat (map fuse_forget_one es))"
| "more_request s um (LL_flock ino fi opn) =
     (if opn \<in> {1, 2, 8} then 33 else 32, ino,
      fuse_lk_in (fi_fh fi) (fi_lock_owner fi) (fuse_file_lock 0 0 (flock_type opn) 0) 1)"
| "more_request s um (LL_fallocate ino mode off len fi) = (43, ino, fuse_fallocate_in (fi_fh fi) off len mode)"
| "more_request s um (LL_readdirplus ino sz off fi) =
     (44, ino, fuse_read_in (fi_fh fi) off (of_nat sz) 0 0)"
| "more_request s um (LL_copy_file_range ino off fi ino' off' fi' len flags) =
     (47, ino, fuse_copy_file_range_in (fi_fh fi) off ino' (fi_fh fi') off' (of_nat len) (of_int flags))"
| "more_request s um (LL_lseek ino off whence fi) = (46, ino, fuse_lseek_in (fi_fh fi) off whence)"

fun request :: "session \<Rightarrow> u32 \<Rightarrow> ll_call \<Rightarrow> u32 \<times> u64 \<times> bytes" where
  "request s um LL_init = (26, 0, [])"
| "request s um LL_destroy = (38, 0, [])"
| "request s um (Names c) = names_request s um c"
| "request s um (Files c) = files_request s um c"
| "request s um (Attrs c) = attrs_request s um c"
| "request s um (More c) = more_request s um c"

section \<open>What a request can say\<close>

definition fits32 :: "int \<Rightarrow> bool" where "fits32 x \<longleftrightarrow> - (2 ^ 31) \<le> x \<and> x < 2 ^ 31"
definition fits64 :: "int \<Rightarrow> bool" where "fits64 x \<longleftrightarrow> - (2 ^ 63) \<le> x \<and> x < 2 ^ 63"
definition fits_u32 :: "int \<Rightarrow> bool" where "fits_u32 x \<longleftrightarrow> 0 \<le> x \<and> x < 2 ^ 32"

definition time_fits :: "timespec \<Rightarrow> bool" where
  "time_fits t \<longleftrightarrow> fits64 (tv_sec t) \<and> fits_u32 (tv_nsec t)"

definition only_fh :: "fuse_file_info \<Rightarrow> bool" where
  "only_fh fi \<longleftrightarrow> fi = fh_info (fi_fh fi)"

definition attr_fits :: "stat \<Rightarrow> bool" where
  "attr_fits st \<longleftrightarrow>
     st = zero_stat\<lparr>st_mode := st_mode st, st_uid := st_uid st, st_gid := st_gid st, st_size := st_size st,
            st_atim := st_atim st, st_mtim := st_mtim st, st_ctim := st_ctim st\<rparr> \<and>
     fits_u32 (st_uid st) \<and> fits_u32 (st_gid st) \<and> fits64 (st_size st) \<and>
     time_fits (st_atim st) \<and> time_fits (st_mtim st) \<and> time_fits (st_ctim st)"

definition lock_fits :: "flock \<Rightarrow> bool" where
  "lock_fits fl \<longleftrightarrow> 0 \<le> l_start fl \<and> 0 \<le> l_len fl \<and> l_start fl + l_len fl \<le> OFFSET_MAX \<and> fits32 (l_pid fl)"

fun names_ok :: "session \<Rightarrow> ll_names \<Rightarrow> bool" where
  "names_ok s (LL_lookup p nm) = c_str nm"
| "names_ok s (LL_forget ino n) = True"
| "names_ok s (LL_getattr ino fi) = (case fi of None \<Rightarrow> True | Some f \<Rightarrow> only_fh f \<and> 9 \<le> minor s)"
| "names_ok s (LL_setattr ino st v fi) =
     (attr_fits st \<and> v = and v set_attr_mask \<and> (case fi of None \<Rightarrow> True | Some f \<Rightarrow> only_fh f))"
| "names_ok s (LL_readlink ino) = True"
| "names_ok s (LL_mknod p nm mode rdev) = c_str nm"
| "names_ok s (LL_mkdir p nm mode) = c_str nm"
| "names_ok s (LL_unlink p nm) = c_str nm"
| "names_ok s (LL_rmdir p nm) = c_str nm"
| "names_ok s (LL_symlink l p nm) = (c_str l \<and> c_str nm)"
| "names_ok s (LL_rename p nm p' nm' flags) = (c_str nm \<and> c_str nm')"
| "names_ok s (LL_link ino p nm) = c_str nm"

fun files_ok :: "session \<Rightarrow> ll_files \<Rightarrow> bool" where
  "files_ok s (LL_open ino fi) = (fi = zero_fi\<lparr>fi_flags := fi_flags fi\<rparr>)"
| "files_ok s (LL_read ino sz off fi) =
     (sz < 2 ^ 32 \<and> fits64 off \<and>
      (if minor s < 9 then only_fh fi
       else fi = (fh_info (fi_fh fi))\<lparr>fi_lock_owner := fi_lock_owner fi, fi_flags := fi_flags fi\<rparr>))"
| "files_ok s (LL_write ino bs sz off fi) =
     (sz = length bs \<and> sz < 2 ^ 32 \<and> fits64 off \<and>
      (if minor s < 9 then fi = (fh_info (fi_fh fi))\<lparr>fi_writepage := fi_writepage fi\<rparr>
       else fi = (fh_info (fi_fh fi))\<lparr>fi_writepage := fi_writepage fi, fi_lock_owner := fi_lock_owner fi,
                                     fi_flags := fi_flags fi\<rparr>))"
| "files_ok s (LL_flush ino fi) =
     (if minor s < 7 then fi = (fh_info (fi_fh fi))\<lparr>fi_flush := True\<rparr>
      else fi = (fh_info (fi_fh fi))\<lparr>fi_flush := True, fi_lock_owner := fi_lock_owner fi\<rparr>)"
| "files_ok s (LL_release ino fi) =
     (if minor s < 8 then fi = (fh_info (fi_fh fi))\<lparr>fi_flags := fi_flags fi\<rparr>
      else fi = (fh_info (fi_fh fi))\<lparr>fi_flags := fi_flags fi, fi_flush := fi_flush fi,
                  fi_lock_owner := fi_lock_owner fi, fi_flock_release := fi_flock_release fi\<rparr>)"
| "files_ok s (LL_fsync ino ds fi) = (ds \<in> {0, 1} \<and> only_fh fi)"
| "files_ok s (LL_opendir ino fi) = (fi = zero_fi\<lparr>fi_flags := fi_flags fi\<rparr>)"
| "files_ok s (LL_readdir ino sz off fi) = (sz < 2 ^ 32 \<and> fits64 off \<and> only_fh fi)"
| "files_ok s (LL_releasedir ino fi) = (fi = (fh_info (fi_fh fi))\<lparr>fi_flags := fi_flags fi\<rparr>)"
| "files_ok s (LL_fsyncdir ino ds fi) = (ds \<in> {0, 1} \<and> only_fh fi)"
| "files_ok s (LL_statfs ino) = True"

fun attrs_ok :: "session \<Rightarrow> ll_attrs \<Rightarrow> bool" where
  "attrs_ok s (LL_setxattr ino nm val flags) = (c_str nm \<and> length val < 2 ^ 32 \<and> fits32 flags)"
| "attrs_ok s (LL_getxattr ino nm sz) = (c_str nm \<and> sz < 2 ^ 32)"
| "attrs_ok s (LL_listxattr ino sz) = (sz < 2 ^ 32)"
| "attrs_ok s (LL_removexattr ino nm) = c_str nm"
| "attrs_ok s (LL_access ino msk) = fits32 msk"
| "attrs_ok s (LL_create p nm mode fi) = (c_str nm \<and> fi = zero_fi\<lparr>fi_flags := fi_flags fi\<rparr>)"
| "attrs_ok s (LL_getlk ino fi fl) = (lock_fits fl \<and> fi = (fh_info (fi_fh fi))\<lparr>fi_lock_owner := fi_lock_owner fi\<rparr>)"
| "attrs_ok s (LL_setlk ino fi fl sleep) =
     (lock_fits fl \<and> fi = (fh_info (fi_fh fi))\<lparr>fi_lock_owner := fi_lock_owner fi\<rparr>)"
| "attrs_ok s (LL_bmap ino bsz idx) = (bsz < 2 ^ 32)"
| "attrs_ok s (LL_ioctl ino cmd arg fi flags bs outsz) =
     (length bs < 2 ^ 32 \<and> outsz < 2 ^ 32 \<and> only_fh fi \<and>
      (has_bit flags FUSE_IOCTL_DIR \<longrightarrow> has_bit (want (conn s)) FUSE_CAP_IOCTL_DIR))"

fun more_ok :: "session \<Rightarrow> ll_more \<Rightarrow> bool" where
  "more_ok s (LL_poll ino fi ph) =
     (fi = (fh_info (fi_fh fi))\<lparr>fi_poll_events := fi_poll_events fi\<rparr> \<and> (ph \<noteq> None \<longrightarrow> fst (take_alloc s)))"
| "more_ok s (LL_write_buf ino buf off fi) = False"
| "more_ok s (LL_retrieve_reply ck ino off buf) = False"
| "more_ok s (LL_forget_multi es) = (length es < 2 ^ 32)"
| "more_ok s (LL_flock ino fi opn) =
     (opn \<in> {1, 2, 8, 5, 6, 12} \<and> fi = (fh_info (fi_fh fi))\<lparr>fi_lock_owner := fi_lock_owner fi\<rparr>)"
| "more_ok s (LL_fallocate ino mode off len fi) = (fits32 mode \<and> fits64 off \<and> fits64 len \<and> only_fh fi)"
| "more_ok s (LL_readdirplus ino sz off fi) = (sz < 2 ^ 32 \<and> fits64 off \<and> only_fh fi)"
| "more_ok s (LL_copy_file_range ino off fi ino' off' fi' len flags) =
     (fits64 off \<and> fits64 off' \<and> len < 2 ^ 64 \<and> fits32 flags \<and> only_fh fi \<and> only_fh fi')"
| "more_ok s (LL_lseek ino off whence fi) = (fits64 off \<and> fits32 whence \<and> only_fh fi)"

fun request_ok :: "session \<Rightarrow> ll_call \<Rightarrow> bool" where
  "request_ok s LL_init = False"
| "request_ok s LL_destroy = False"
| "request_ok s (Names c) = names_ok s c"
| "request_ok s (Files c) = files_ok s c"
| "request_ok s (Attrs c) = attrs_ok s c"
| "request_ok s (More c) = more_ok s c"

text \<open>What reading the request changes: the file mode creation mask of the request, or the memory to come.\<close>

fun after_read :: "nat \<Rightarrow> u32 \<Rightarrow> ll_call \<Rightarrow> session \<Rightarrow> session" where
  "after_read r um (Names (LL_mknod p nm mode rdev)) s = (if 12 \<le> minor s then set_umask r um s else s)"
| "after_read r um (Names (LL_mkdir p nm mode)) s = (if 12 \<le> minor s then set_umask r um s else s)"
| "after_read r um (Attrs (LL_create p nm mode fi)) s = (if 12 \<le> minor s then set_umask r um s else s)"
| "after_read r um (More (LL_poll ino fi (Some kh))) s = snd (take_alloc s)"
| "after_read r um c s = s"

section \<open>Reading it back\<close>

lemma fits_simps:
  "fits32 x \<Longrightarrow> sint (of_int x :: u32) = x" "fits64 x \<Longrightarrow> sint (of_int x :: u64) = x"
  "fits_u32 x \<Longrightarrow> uint (of_int x :: u32) = x" "n < 2 ^ 32 \<Longrightarrow> unat (of_nat n :: u32) = n"
  "n < 2 ^ 64 \<Longrightarrow> unat (of_nat n :: u64) = n"
  by (simp_all add: fits32_def fits64_def fits_u32_def sint_sbintrunc' signed_take_bit_int_eq_self
      uint_word_of_int unat_of_nat)

fun names_op :: "ll_names \<Rightarrow> ll_op" where
  "names_op (LL_lookup p nm) = Op_lookup"
| "names_op (LL_forget ino n) = Op_forget"
| "names_op (LL_getattr ino fi) = Op_getattr"
| "names_op (LL_setattr ino st v fi) = Op_setattr"
| "names_op (LL_readlink ino) = Op_readlink"
| "names_op (LL_mknod p nm mode rdev) = Op_mknod"
| "names_op (LL_mkdir p nm mode) = Op_mkdir"
| "names_op (LL_unlink p nm) = Op_unlink"
| "names_op (LL_rmdir p nm) = Op_rmdir"
| "names_op (LL_symlink l p nm) = Op_symlink"
| "names_op (LL_rename p nm p' nm' flags) = Op_rename"
| "names_op (LL_link ino p nm) = Op_link"

fun files_op :: "ll_files \<Rightarrow> ll_op" where
  "files_op (LL_open ino fi) = Op_open"
| "files_op (LL_read ino sz off fi) = Op_read"
| "files_op (LL_write ino bs sz off fi) = Op_write"
| "files_op (LL_flush ino fi) = Op_flush"
| "files_op (LL_release ino fi) = Op_release"
| "files_op (LL_fsync ino ds fi) = Op_fsync"
| "files_op (LL_opendir ino fi) = Op_opendir"
| "files_op (LL_readdir ino sz off fi) = Op_readdir"
| "files_op (LL_releasedir ino fi) = Op_releasedir"
| "files_op (LL_fsyncdir ino ds fi) = Op_fsyncdir"
| "files_op (LL_statfs ino) = Op_statfs"

fun attrs_op :: "ll_attrs \<Rightarrow> ll_op" where
  "attrs_op (LL_setxattr ino nm val flags) = Op_setxattr"
| "attrs_op (LL_getxattr ino nm sz) = Op_getxattr"
| "attrs_op (LL_listxattr ino sz) = Op_listxattr"
| "attrs_op (LL_removexattr ino nm) = Op_removexattr"
| "attrs_op (LL_access ino msk) = Op_access"
| "attrs_op (LL_create p nm mode fi) = Op_create"
| "attrs_op (LL_getlk ino fi fl) = Op_getlk"
| "attrs_op (LL_setlk ino fi fl sleep) = Op_setlk"
| "attrs_op (LL_bmap ino bsz idx) = Op_bmap"
| "attrs_op (LL_ioctl ino cmd arg fi flags bs outsz) = Op_ioctl"

fun more_op :: "ll_more \<Rightarrow> ll_op" where
  "more_op (LL_poll ino fi ph) = Op_poll"
| "more_op (LL_write_buf ino buf off fi) = Op_write_buf"
| "more_op (LL_retrieve_reply ck ino off buf) = Op_retrieve_reply"
| "more_op (LL_forget_multi es) = Op_forget_multi"
| "more_op (LL_flock ino fi opn) = Op_flock"
| "more_op (LL_fallocate ino mode off len fi) = Op_fallocate"
| "more_op (LL_readdirplus ino sz off fi) = Op_readdirplus"
| "more_op (LL_copy_file_range ino off fi ino' off' fi' len flags) = Op_copy_file_range"
| "more_op (LL_lseek ino off whence fi) = Op_lseek"

fun op_of :: "ll_call \<Rightarrow> ll_op" where
  "op_of LL_init = Op_init"
| "op_of LL_destroy = Op_destroy"
| "op_of (Names c) = names_op c"
| "op_of (Files c) = files_op c"
| "op_of (Attrs c) = attrs_op c"
| "op_of (More c) = more_op c"

text \<open>The request is read by the function of its opcode, which ends in the call.\<close>

definition reads :: "session \<Rightarrow> nat \<Rightarrow> u32 \<Rightarrow> ll_call \<Rightarrow> bool" where
  "reads s r um c \<longleftrightarrow>
     (case request s um c of (opc, nid, m) \<Rightarrow>
        \<exists>h. ll_handler opc = Some h \<and> h r nid m s = Some ([(r, c)], after_read r um c s))"

lemmas layouts =
  fuse_forget_in_def fuse_forget_one_def fuse_batch_forget_in_def fuse_getattr_in_def fuse_mknod_in_def fuse_mkdir_in_def
  fuse_rename_in_def fuse_rename2_in_def fuse_link_in_def fuse_setattr_in_def fuse_open_in_def fuse_create_in_def
  fuse_release_in_def fuse_flush_in_def fuse_read_in_def fuse_write_in_def fuse_fsync_in_def fuse_setxattr_in_def
  fuse_getxattr_in_def fuse_file_lock_def fuse_lk_in_def fuse_access_in_def fuse_bmap_in_def fuse_ioctl_in_def
  fuse_poll_in_def fuse_fallocate_in_def fuse_lseek_in_def fuse_copy_file_range_in_def i32_def i64_def

lemmas reading =
  reads_def ll_handler_def fuse_ll_ops_def invoke_def minor_def layouts wire cstr_at_end cstr_at_here fits_simps

lemma attr_bits:
  assumes "v = and v set_attr_mask"
  shows "\<not> has_bit v FATTR_FH" "has_bit (or v FATTR_FH) FATTR_FH" "and (or v FATTR_FH) set_attr_mask = v"
proof -
  have z: "and set_attr_mask FATTR_FH = 0" by (simp add: set_attr_mask_def FATTR_FH_def)
  have "and v FATTR_FH = and (and v set_attr_mask) FATTR_FH" using assms by simp
  also have "\<dots> = 0" by (simp add: and.assoc z)
  finally show "\<not> has_bit v FATTR_FH" by (simp add: has_bit_def)
  show "has_bit (or v FATTR_FH) FATTR_FH" by (simp add: has_bit_def word_ao_dist FATTR_FH_def)
  have "and (or v FATTR_FH) set_attr_mask = or (and v set_attr_mask) (and FATTR_FH set_attr_mask)" by (rule word_ao_dist)
  then show "and (or v FATTR_FH) set_attr_mask = v" using assms [symmetric] z by (simp add: and.commute)
qed

lemma time_eta: "\<lparr>tv_sec = tv_sec t, tv_nsec = tv_nsec t\<rparr> = t"
  by (cases t) simp

lemma has_bit_if [simp]: "has_bit (bit_if b 1) 1 = b"
  by (simp add: has_bit_def bit_if_def)

lemma release_bits:
  "has_bit (or (bit_if a 1) (bit_if b 2)) 1 = a" "has_bit (or (bit_if a 1) (bit_if b 2)) 2 = b"
  by (cases a; cases b; simp add: has_bit_def bit_if_def)+

lemma attr_back:
  assumes "attr_fits st"
  shows "convert_attr (fuse_setattr_in v fh st) = Some st"
  using assms unfolding attr_fits_def
  by (simp add: convert_attr_def time_at_def time_fits_def layouts wire fits_simps time_eta del: stat.surjective)

lemma names_read:
  assumes "names_ok s c" "has_op s (names_op c)"
  shows "reads s r um (Names c)"
proof (cases c)
  case (LL_lookup p nm)
  then show ?thesis using assms by (simp add: reading do_lookup_req_def)
next
  case (LL_forget ino n)
  then show ?thesis using assms by (simp add: reading do_forget_def)
next
  case (LL_getattr ino fi)
  then show ?thesis using assms
    by (cases fi) (auto simp: reading do_getattr_def has_bit_def file_fh_def only_fh_def not_less not_le)
next
  case (LL_setattr ino st v fi)
  then show ?thesis using assms
    using attr_back [of st v 0] attr_back [of st "or v FATTR_FH" "file_fh fi"]
    by (cases fi) (auto simp: reading do_setattr_def attr_bits file_fh_def only_fh_def)
next
  case (LL_readlink ino)
  then show ?thesis using assms by (simp add: reading do_readlink_def)
next
  case (LL_mknod p nm mode rdev)
  then show ?thesis using assms by (auto simp: reading do_mknod_def not_less not_le)
next
  case (LL_mkdir p nm mode)
  then show ?thesis using assms by (auto simp: reading do_mkdir_def)
next
  case (LL_unlink p nm)
  then show ?thesis using assms by (simp add: reading do_unlink_def)
next
  case (LL_rmdir p nm)
  then show ?thesis using assms by (simp add: reading do_rmdir_def)
next
  case (LL_symlink l p nm)
  then show ?thesis using assms by (simp add: reading do_symlink_def)
next
  case (LL_rename p nm p' nm' flags)
  then show ?thesis using assms by (auto simp: reading do_rename_def do_rename2_def)
next
  case (LL_link ino p nm)
  then show ?thesis using assms by (simp add: reading do_link_def)
qed

lemma files_read:
  assumes "files_ok s c" "has_op s (files_op c)"
  shows "reads s r um (Files c)"
proof (cases c)
  case (LL_open ino fi)
  then show ?thesis using assms by (simp add: reading do_open_def)
next
  case (LL_read ino sz off fi)
  then show ?thesis using assms by (auto simp: reading do_read_def not_less only_fh_def split: if_splits)
next
  case (LL_write ino bs sz off fi)
  then show ?thesis using assms by (auto simp: reading do_write_def write_info_def split: if_splits)
next
  case (LL_flush ino fi)
  then show ?thesis using assms by (auto simp: reading do_flush_def not_less split: if_splits)
next
  case (LL_release ino fi)
  then show ?thesis using assms
    by (cases fi; cases "fi_flush fi"; cases "fi_flock_release fi")
      (auto simp: reading do_release_def release_bits fh_info_def zero_fi_def Let_def not_less split: if_splits)
next
  case (LL_fsync ino ds fi)
  then show ?thesis using assms by (auto simp: reading do_fsync_def only_fh_def)
next
  case (LL_opendir ino fi)
  then show ?thesis using assms by (simp add: reading do_opendir_def)
next
  case (LL_readdir ino sz off fi)
  then show ?thesis using assms by (auto simp: reading do_readdir_def only_fh_def)
next
  case (LL_releasedir ino fi)
  then show ?thesis using assms by (auto simp: reading do_releasedir_def)
next
  case (LL_fsyncdir ino ds fi)
  then show ?thesis using assms by (auto simp: reading do_fsyncdir_def only_fh_def)
next
  case (LL_statfs ino)
  then show ?thesis using assms by (simp add: reading do_statfs_def)
qed


lemma uint_u64: "0 \<le> x \<Longrightarrow> x < 2 ^ 63 \<Longrightarrow> uint (of_int x :: u64) = x"
  by (simp add: uint_word_of_int)

lemma lock_back:
  assumes "lock_fits fl"
  shows "convert_fuse_file_lock (w64 a @ w64 b @ request_lock fl @ r) 16 = Some fl"
proof -
  have small: "OFFSET_MAX < 2 ^ 63" by (simp add: OFFSET_MAX_def)
  have st: "sint (of_int (l_start fl) :: u64) = l_start fl"
    using assms small by (intro fits_simps) (simp add: lock_fits_def fits64_def)
  have pid: "sint (of_int (l_pid fl) :: u32) = l_pid fl" using assms by (intro fits_simps) (simp add: lock_fits_def)
  have lty: "lock_type_of (lock_num (l_type fl)) = Some (l_type fl)"
    by (cases "l_type fl") (simp_all add: lock_type_of_def lock_num_def)
  have len: "(if e = of_int OFFSET_MAX then 0 else sint (e - of_int (l_start fl) + 1)) = l_len fl"
    if e: "e = (if l_len fl = 0 then of_int OFFSET_MAX else of_int (l_start fl + l_len fl - 1))" for e :: u64
  proof (cases "l_len fl = 0")
    case False
    let ?n = "l_start fl + l_len fl - 1"
    have n: "0 \<le> ?n" "?n < OFFSET_MAX" using assms False by (auto simp: lock_fits_def)
    have "uint (of_int ?n :: u64) = ?n" by (rule uint_u64) (use n small in linarith)+
    moreover have "uint (of_int OFFSET_MAX :: u64) = OFFSET_MAX" by (rule uint_u64) (use n small in linarith)+
    ultimately
    have "(of_int ?n :: u64) \<noteq> of_int OFFSET_MAX" using n by force
    moreover have "(of_int ?n - of_int (l_start fl) + 1 :: u64) = of_int (l_len fl)" by simp
    moreover have "sint (of_int (l_len fl) :: u64) = l_len fl"
      using assms small by (intro fits_simps) (simp add: lock_fits_def fits64_def)
    ultimately show ?thesis using False e by simp
  qed (simp add: e)
  show ?thesis using len [OF refl]
    by (simp add: convert_fuse_file_lock_def request_lock_def layouts wire lty st pid)
qed

lemma forget_entries_back:
  "length p = off \<Longrightarrow> forget_entries (p @ concat (map fuse_forget_one es)) off (length es) = Some es"
proof (induction es arbitrary: p off)
  case (Cons e es)
  have "forget_entries ((p @ fuse_forget_one e) @ concat (map fuse_forget_one es)) (off + 16) (length es) = Some es"
    by (rule Cons.IH) (use Cons.prems in \<open>simp add: fuse_forget_one_def\<close>)
  moreover have "u64_at (p @ concat (map fuse_forget_one (e # es))) off = Some (fst e)"
    "u64_at (p @ concat (map fuse_forget_one (e # es))) (off + 8) = Some (snd e)"
    using Cons.prems by (simp_all add: fuse_forget_one_def u64_at_skip wire)
  ultimately show ?case by simp
qed simp

lemma int_flags: "fits32 x \<Longrightarrow> sint (ucast (of_int x :: u64) :: u32) = x"
proof -
  have "(ucast (of_int x :: u64) :: u32) = of_int x" by (rule bit_eqI) (simp add: bit_ucast_iff bit_simps)
  then show "fits32 x \<Longrightarrow> sint (ucast (of_int x :: u64) :: u32) = x" by (simp add: fits_simps)
qed

lemma attrs_read:
  assumes "attrs_ok s c" "has_op s (attrs_op c)"
  shows "reads s r um (Attrs c)"
proof (cases c)
  case (LL_setxattr ino nm val flags)
  then show ?thesis using assms by (simp add: reading do_setxattr_def FUSE_COMPAT_SETXATTR_IN_SIZE_def)
next
  case (LL_getxattr ino nm sz)
  then show ?thesis using assms by (simp add: reading do_getxattr_def)
next
  case (LL_listxattr ino sz)
  then show ?thesis using assms by (simp add: reading do_listxattr_def)
next
  case (LL_removexattr ino nm)
  then show ?thesis using assms by (simp add: reading do_removexattr_def)
next
  case (LL_access ino msk)
  then show ?thesis using assms by (simp add: reading do_access_def)
next
  case (LL_create p nm mode fi)
  then show ?thesis using assms by (auto simp: reading do_create_def not_less)
next
  case (LL_getlk ino fi fl)
  then show ?thesis using assms lock_back [of fl "fi_fh fi" "fi_lock_owner fi"]
    by (simp add: reads_def ll_handler_def fuse_ll_ops_def do_getlk_def lock_info_def invoke_def fuse_lk_in_def wire)
next
  case (LL_setlk ino fi fl sleep)
  then show ?thesis using assms lock_back [of fl "fi_fh fi" "fi_lock_owner fi"]
    by (auto simp: reads_def ll_handler_def fuse_ll_ops_def do_setlk_def do_setlkw_def do_setlk_common_def
        lock_info_def invoke_def fuse_lk_in_def request_lock_def fuse_file_lock_def wire has_bit_def)
next
  case (LL_bmap ino bsz idx)
  then show ?thesis using assms by (simp add: reading do_bmap_def)
next
  case (LL_ioctl ino cmd arg fi flags bs outsz)
  then show ?thesis using assms by (auto simp: reading do_ioctl_def only_fh_def)
qed

lemma more_read:
  assumes "more_ok s c" "has_op s (more_op c)"
  shows "reads s r um (More c)"
proof (cases c)
  case (LL_poll ino fi ph)
  then show ?thesis using assms
    by (cases ph) (auto simp: reading do_poll_def bit_if_def has_bit_def split: prod.split)
next
  case (LL_forget_multi es)
  then show ?thesis using assms forget_entries_back [of "w32 (of_nat (length es)) @ w32 0" 8 es]
    by (simp add: reads_def ll_handler_def fuse_ll_ops_def do_batch_forget_def invoke_def fuse_batch_forget_in_def
        wire fits_simps)
next
  case (LL_flock ino fi opn)
  then show ?thesis using assms
    by (auto simp: reading do_setlk_def do_setlkw_def do_setlk_common_def lock_info_def has_bit_def flock_type_def flock_op_def)
next
  case (LL_fallocate ino mode off len fi)
  then show ?thesis using assms by (auto simp: reading do_fallocate_def only_fh_def)
next
  case (LL_readdirplus ino sz off fi)
  then show ?thesis using assms by (auto simp: reading do_readdirplus_def only_fh_def)
next
  case (LL_copy_file_range ino off fi ino' off' fi' len flags)
  then show ?thesis using assms
    by (auto simp: reading do_copy_file_range_def only_fh_def int_flags)
next
  case (LL_lseek ino off whence fi)
  then show ?thesis using assms by (auto simp: reading do_lseek_def only_fh_def)
qed (use assms in simp_all)

lemma request_read:
  assumes "request_ok s c" "has_op s (op_of c)"
  shows "reads s r um c"
  using assms names_read files_read attrs_read more_read by (cases c) simp_all


section \<open>A whole message\<close>

definition kernel_message :: "session \<Rightarrow> u64 \<Rightarrow> u32 \<Rightarrow> u32 \<Rightarrow> u32 \<Rightarrow> u32 \<Rightarrow> ll_call \<Rightarrow> bytes" where
  "kernel_message s uniq uid gid pid um c =
     (case request s um c of (opc, nid, m) \<Rightarrow> fuse_in_header (40 + length m) opc uniq nid uid gid pid @ m)"

lemma request_conn:
  assumes "conn s' = conn s"
  shows "request s' um c = request s um c"
proof (cases c)
  case (Names x)
  then show ?thesis using assms by (cases x) (simp_all add: minor_def)
next
  case (Files x)
  then show ?thesis using assms by (cases x) (simp_all add: minor_def)
next
  case (Attrs x)
  then show ?thesis using assms by (cases x) (simp_all add: minor_def)
next
  case (More x)
  then show ?thesis using assms by (cases x) simp_all
qed simp_all

lemma request_ok_conn:
  assumes "conn s' = conn s" "s_allocs s' = s_allocs s"
  shows "request_ok s' c = request_ok s c"
proof (cases c)
  case (Names x)
  then show ?thesis using assms by (cases x) (simp_all add: minor_def split: option.split)
next
  case (Files x)
  then show ?thesis using assms by (cases x) (simp_all add: minor_def)
next
  case (Attrs x)
  then show ?thesis using assms by (cases x) simp_all
next
  case (More x)
  then show ?thesis using assms by (cases x) (simp_all add: take_alloc_def split: prod.split)
qed simp_all

lemma request_opcode:
  assumes "request_ok s c"
  shows "fst (request s um c) \<notin> {FUSE_INIT, CUSE_INIT, FUSE_INTERRUPT, FUSE_NOTIFY_REPLY}"
    "fst (request s um c) = FUSE_WRITE \<longleftrightarrow> op_of c = Op_write"
proof -
  have "fst (request s um c) \<notin> {FUSE_INIT, CUSE_INIT, FUSE_INTERRUPT, FUSE_NOTIFY_REPLY} \<and>
      (fst (request s um c) = FUSE_WRITE \<longleftrightarrow> op_of c = Op_write)"
  proof (cases c)
    case (Names x)
    then show ?thesis by (cases x) (simp_all add: FUSE_INIT_def CUSE_INIT_def FUSE_INTERRUPT_def FUSE_NOTIFY_REPLY_def FUSE_WRITE_def)
  next
    case (Files x)
    then show ?thesis by (cases x) (simp_all add: FUSE_INIT_def CUSE_INIT_def FUSE_INTERRUPT_def FUSE_NOTIFY_REPLY_def FUSE_WRITE_def)
  next
    case (Attrs x)
    then show ?thesis by (cases x) (simp_all add: FUSE_INIT_def CUSE_INIT_def FUSE_INTERRUPT_def FUSE_NOTIFY_REPLY_def FUSE_WRITE_def)
  next
    case (More x)
    then show ?thesis using assms
      by (cases x) (simp_all add: FUSE_INIT_def CUSE_INIT_def FUSE_INTERRUPT_def FUSE_NOTIFY_REPLY_def FUSE_WRITE_def)
  qed (use assms in simp_all)
  then show "fst (request s um c) \<notin> {FUSE_INIT, CUSE_INIT, FUSE_INTERRUPT, FUSE_NOTIFY_REPLY}"
    "fst (request s um c) = FUSE_WRITE \<longleftrightarrow> op_of c = Op_write" by blast+
qed

definition headed :: "u32 \<Rightarrow> u64 \<Rightarrow> u64 \<Rightarrow> u32 \<Rightarrow> u32 \<Rightarrow> u32 \<Rightarrow> bytes \<Rightarrow> bytes" where
  "headed opc uniq nid uid gid pid m = fuse_in_header (40 + length m) opc uniq nid uid gid pid @ m"

lemma header_fields:
  "u32_at (headed opc uniq nid uid gid pid m) 4 = Some opc" "u64_at (headed opc uniq nid uid gid pid m) 8 = Some uniq"
  "u64_at (headed opc uniq nid uid gid pid m) 16 = Some nid" "u32_at (headed opc uniq nid uid gid pid m) 24 = Some uid"
  "u32_at (headed opc uniq nid uid gid pid m) 28 = Some gid" "u32_at (headed opc uniq nid uid gid pid m) 32 = Some pid"
  "drop IN_HEADER_SIZE (headed opc uniq nid uid gid pid m) = m"
  by (simp_all add: headed_def fuse_in_header_def wire IN_HEADER_SIZE_def)

lemma headed_length: "length (headed opc uniq nid uid gid pid m) = IN_HEADER_SIZE + length m"
  by (simp add: headed_def fuse_in_header_def IN_HEADER_SIZE_def)

definition fresh_req :: "u64 \<Rightarrow> u32 \<Rightarrow> u32 \<Rightarrow> u32 \<Rightarrow> fuse_req" where
  "fresh_req uniq uid gid pid =
     \<lparr>r_unique = uniq, r_ctr = 1, r_ctx = no_context\<lparr>cx_uid := uint uid, cx_gid := uint gid, cx_pid := sint pid\<rparr>,
      r_ch = None, r_interrupted = False, r_u = U_ni None\<rparr>"

definition with_req :: "nat \<Rightarrow> fuse_req \<Rightarrow> session \<Rightarrow> session" where
  "with_req r q s = s\<lparr>req_heap := (req_heap s)(r \<mapsto> q), req_next := r + 1, se_list := se_list s @ [r]\<rparr>"

text \<open>A session that is open, has memory, no interrupt waiting, and serves this user.\<close>

definition ready :: "session \<Rightarrow> u32 \<Rightarrow> bool" where
  "ready s uid \<longleftrightarrow> got_init s \<and> s_allocs s = [] \<and> interrupts s = [] \<and> (deny_others s \<longrightarrow> uid = 0 \<or> uid = owner s)"

lemma take_alloc_ready: "s_allocs s = [] \<Longrightarrow> take_alloc s = (True, s)"
  by (cases s) (simp add: take_alloc_def)

definition blank_req :: fuse_req where
  "blank_req = \<lparr>r_unique = 0, r_ctr = 1, r_ctx = no_context, r_ch = None, r_interrupted = False, r_u = U_ni None\<rparr>"

lemma alloc_req_ready:
  "s_allocs s = [] \<Longrightarrow>
   fuse_ll_alloc_req s = (Some (req_next s), s\<lparr>req_heap := (req_heap s)(req_next s \<mapsto> blank_req), req_next := req_next s + 1\<rparr>)"
  by (simp add: fuse_ll_alloc_req_def take_alloc_ready blank_req_def)

text \<open>On such a session a request in memory goes to the function of its opcode.\<close>

lemma serve_ready:
  assumes ready: "ready (se t) uid" and "r = req_next (se t)"
    and opcs: "opc \<notin> {FUSE_INIT, CUSE_INIT, FUSE_INTERRUPT}" "ll_handler opc \<noteq> None" and "\<not> buf_is_fd buf"
    and d: "dispatch buf opc r nid m (with_req r (fresh_req uniq uid gid pid) (se t)) = Some (cs, s2)"
  shows "serve_req io po buf None src (headed opc uniq nid uid gid pid m) t = Some (cs, t\<lparr>se := s2\<rparr>)"
proof -
  let ?s = "se t" let ?m = "headed opc uniq nid uid gid pid m" let ?w = "with_req r (fresh_req uniq uid gid pid) (se t)"
  let ?blank = "?s\<lparr>req_heap := (req_heap ?s)(r \<mapsto> blank_req), req_next := r + 1\<rparr>"
  let ?s1 = "?s\<lparr>req_heap := (req_heap ?s)(r \<mapsto> fresh_req uniq uid gid pid), req_next := r + 1\<rparr>"
  have a: "fuse_ll_alloc_req ?s = (Some r, ?blank)"
    using ready alloc_req_ready [of ?s] assms(2) by (simp add: ready_def)
  have n: "new_req ?m r None ?blank = Some ?s1"
    by (simp add: new_req_def header_fields upd_req_def fresh_req_def blank_req_def)
  have f: "req_refused ?s1 opc uid = None"
    using ready opcs by (auto simp: req_refused_def ready_def)
  have ad: "admit r ?s1 = Some ?w"
    using ready by (simp add: admit_def check_interrupt_def find_pending_def ready_def with_req_def)
  have nr: "\<not> needs_rest buf opc ?w" using assms(5) by (simp add: needs_rest_def)
  show ?thesis unfolding serve_req_def
    using n f ad nr d opcs assms(5) by (simp add: header_fields a on_thread_def Let_def)
qed

text \<open>A buffer in memory that holds a message.\<close>

definition holds_message :: "'s env \<Rightarrow> fuse_buf \<Rightarrow> bytes \<Rightarrow> bool" where
  "holds_message e buf M \<longleftrightarrow> \<not> buf_is_fd buf \<and> buf_size buf = length M \<and> mem_load (mem e) (buf_mem buf) (length M) = M"

lemma holds_mem_buf: "mem_load (mem e) a (length M) = M \<Longrightarrow> holds_message e (mem_buf a (length M)) M"
  by (simp add: holds_message_def mem_buf_def)

lemma process_ready:
  assumes "ready (se t) uid" "r = req_next (se t)" "opc \<notin> {FUSE_INIT, CUSE_INIT, FUSE_INTERRUPT}" "ll_handler opc \<noteq> None"
    and "dispatch buf opc r nid m (with_req r (fresh_req uniq uid gid pid) (se t)) = Some (cs, s2)"
    and "holds_message (th_env t) buf M" "M = headed opc uniq nid uid gid pid m"
  shows "fuse_session_process_buf_int io po buf None t = Some (cs, t\<lparr>se := s2\<rparr>)"
proof -
  have "fuse_session_process_buf_int io po buf None t = serve_req io po buf None (vec_of [buf]) M t"
    using assms(6) by (simp add: fuse_session_process_buf_int_def holds_message_def)
  then show ?thesis using serve_ready [OF assms(1-4) _ assms(5)] assms(6,7) by (simp add: holds_message_def)
qed

lemma with_req_simps [simp]:
  "conn (with_req r q s) = conn s" "s_allocs (with_req r q s) = s_allocs s" "has_op (with_req r q s) = has_op s"
  by (simp_all add: with_req_def)

lemma kernel_message_headed:
  "request s um c = (opc, nid, m) \<Longrightarrow> kernel_message s uniq uid gid pid um c = headed opc uniq nid uid gid pid m"
  by (simp add: kernel_message_def headed_def)

lemma request_delivered:
  assumes ok: "request_ok (se t) c" "has_op (se t) (op_of c)" "ready (se t) uid"
    and "op_of c = Op_write \<longrightarrow> \<not> has_op (se t) Op_write_buf"
    and "holds_message (th_env t) buf M" "M = kernel_message (se t) uniq uid gid pid um c"
  shows "fuse_session_process_buf_int io po buf None t =
     Some ([(req_next (se t), c)],
       t\<lparr>se := after_read (req_next (se t)) um c (with_req (req_next (se t)) (fresh_req uniq uid gid pid) (se t))\<rparr>)"
proof -
  let ?s = "se t" let ?r = "req_next (se t)" let ?w = "with_req ?r (fresh_req uniq uid gid pid) ?s"
  obtain opc nid m where q: "request ?s um c = (opc, nid, m)" by (cases "request ?s um c") auto
  have opcs: "opc \<notin> {FUSE_INIT, CUSE_INIT, FUSE_INTERRUPT, FUSE_NOTIFY_REPLY}" "opc = FUSE_WRITE \<longleftrightarrow> op_of c = Op_write"
    using request_opcode [OF ok(1), of um] q by simp_all
  have "reads ?w ?r um c"
    using request_read [of ?w c] ok request_ok_conn [of ?w ?s] by simp
  then obtain h where h: "ll_handler opc = Some h" "h ?r nid m ?w = Some ([(?r, c)], after_read ?r um c ?w)"
    using q request_conn [of ?w ?s] by (auto simp: reads_def)
  have "dispatch buf opc ?r nid m ?w = Some ([(?r, c)], after_read ?r um c ?w)"
    using h opcs assms(4) by (auto simp: dispatch_def)
  moreover have "opc \<notin> {FUSE_INIT, CUSE_INIT, FUSE_INTERRUPT}" "ll_handler opc \<noteq> None" using opcs h(1) by simp_all
  moreover have "M = headed opc uniq nid uid gid pid m" using assms(6) kernel_message_headed [OF q] by simp
  ultimately show ?thesis using process_ready [OF ok(3) refl _ _ _ assms(5)] by blast
qed

section \<open>A write that stays where it is\<close>

text \<open>
  The file system of the high-level library takes writes with \<open>write_buf\<close>: the data is not copied, the
  buffer that is handed on points behind the fixed part of the request.
\<close>

lemma write_parts:
  assumes w: "files_ok s (LL_write ino bs n off fi)" and k: "k = (if minor s < 9 then 24 else 40)"
    and m: "m = take k (fuse_write_in (fi_fh fi) off (of_nat n) (bit_if (fi_writepage fi) 1) (fi_lock_owner fi) (fi_flags fi)) @ bs"
  shows "write_info m s = Some (fi, k)" "u32_at m 16 = Some (of_nat n)" "u64_at m 8 = Some (of_int off)"
    "length m = k + length bs" "drop k m = bs"
  using w unfolding m k write_info_def by (auto simp: layouts wire minor_def split: if_splits)

lemma mem_load_part:
  assumes "mem_load m a (length M) = M" "length M = k + n"
  shows "mem_load m (a + k) n = drop k M"
proof -
  have "drop k (mem_load m a (length M)) = mem_load m (a + k) (length M - k)"
    using assms(2) by (simp add: mem_load_map drop_map add.commute add.left_commute)
  then show ?thesis using assms by simp
qed

lemma write_delivered:
  assumes w: "files_ok (se t) (LL_write ino bs n off fi)" "has_op (se t) Op_write_buf" "ready (se t) uid"
    and mem: "mem_load (mem (th_env t)) a (length M) = M" "length M < 2 ^ 64"
    and M: "M = kernel_message (se t) uniq uid gid pid um (Files (LL_write ino bs n off fi))"
  shows "\<exists>p. fuse_session_process_buf_int io po (mem_buf a (length M)) None t =
      Some ([(req_next (se t), More (LL_write_buf ino (vec_of [mem_buf p (length bs)]) off fi))],
            t\<lparr>se := with_req (req_next (se t)) (fresh_req uniq uid gid pid) (se t)\<rparr>) \<and>
    mem_load (mem (th_env t)) p (length bs) = bs"
proof -
  let ?c = "Files (LL_write ino bs n off fi)" let ?s = "se t" let ?r = "req_next (se t)" let ?buf = "mem_buf a (length M)"
  let ?w = "with_req ?r (fresh_req uniq uid gid pid) ?s"
  define k where k: "k = (if minor ?s < 9 then 24 else 40 :: nat)"
  obtain opc nid m where q: "request ?s um ?c = (opc, nid, m)" by (cases "request ?s um ?c") auto
  then have q': "opc = FUSE_WRITE" "nid = ino" "m = take k (fuse_write_in (fi_fh fi) off (of_nat n)
      (bit_if (fi_writepage fi) 1) (fi_lock_owner fi) (fi_flags fi)) @ bs"
    by (simp_all add: FUSE_WRITE_def k)
  have ok: "files_ok ?w (LL_write ino bs n off fi)" "k = (if minor ?w < 9 then 24 else 40)"
    using w(1) by (simp_all add: k minor_def)
  note p = write_parts [OF ok q'(3)]
  have M': "M = headed opc uniq nid uid gid pid m" unfolding M by (rule kernel_message_headed [OF q])
  have len: "length M = IN_HEADER_SIZE + k + length bs" by (simp add: M' headed_length p)
  have n: "n = length bs" "n < 2 ^ 32" "fits64 off" using w(1) by simp_all
  have left: "minus_size (buf_size ?buf) (IN_HEADER_SIZE + k) = length bs"
    using len mem(2) by (simp add: minus_size_def mem_buf_def)
  let ?cs = "[(?r, More (LL_write_buf ino (vec_of [mem_buf (a + (IN_HEADER_SIZE + k)) (length bs)]) off fi))]"
  have "do_write_buf ?r ino m ?buf ?w = Some (?cs, ?w)"
    using p left n by (simp add: do_write_buf_def invoke_def mem_buf_def fits_simps add.assoc)
  then have "dispatch ?buf opc ?r nid m ?w = Some (?cs, ?w)"
    using w(2) q' by (simp add: dispatch_def)
  then have "fuse_session_process_buf_int io po ?buf None t = Some (?cs, t\<lparr>se := ?w\<rparr>)"
    using process_ready [OF w(3) refl _ _ _ holds_mem_buf [OF mem(1)] M'] q'(1)
    by (simp add: FUSE_WRITE_def FUSE_INIT_def CUSE_INIT_def FUSE_INTERRUPT_def ll_handler_def fuse_ll_ops_def)
  moreover have "mem_load (mem (th_env t)) (a + (IN_HEADER_SIZE + k)) (length bs) = drop (IN_HEADER_SIZE + k) M"
    by (rule mem_load_part [OF mem(1)]) (use len in simp)
  moreover have "drop (IN_HEADER_SIZE + k) M = bs"
    using header_fields(7) p(5) unfolding M' by (metis drop_drop add.commute)
  ultimately show ?thesis by auto
qed


section \<open>Properties\<close>

lemma mem_load_store: "mem_load (mem_store m a bs) a (length bs) = bs"
  by (rule nth_equalityI) (simp_all add: mem_load_def mem_store_def)

text \<open>An open session of the high-level library, and a thread whose memory holds a message.\<close>

definition demo_conn :: fuse_conn_info where
  "demo_conn = \<lparr>proto_major = 7, proto_minor = 38, max_write = 0x20000, max_read = 0, max_readahead = 0x20000, capable = 0,
     want = 0, max_background = 12, congestion_threshold = 9, time_gran = 1\<rparr>"

definition demo_session :: session where
  "demo_session = \<lparr>exited = False, custom_io = None, mo_max_read = 0, deny_others = False, has_op = fuse_path_ops,
     got_init = True, is_cuse = False, owner = 1000, conn = demo_conn, se_list = [], interrupts = [], got_destroy = False,
     broken_splice_nonblock = False, notify_ctr = 1, notify_list = [], bufsize = 0x21000, se_error = 0, pagesize = 4096, glibc = True,
     req_heap = (\<lambda>_. None), req_next = 0, chan_ctr = (\<lambda>_. 0), sent = [], write_results = [], s_allocs = [], called = []\<rparr>"

definition demo_thread :: "bytes \<Rightarrow> bytes thread" where
  "demo_thread M = \<lparr>th_env = demo_data\<lparr>mem := mem_store (\<lambda>_. 0) 100 M\<rparr>, th_pipe = None, se = demo_session\<rparr>"

lemma demo_thread_simps [simp]:
  "se (demo_thread M) = demo_session" "mem (th_env (demo_thread M)) = mem_store (\<lambda>_. 0) 100 M"
  by (simp_all add: demo_thread_def)

text \<open>A kernel without pipes.\<close>

definition demo_pipes :: "'w pipe_ops" where
  "demo_pipes = \<lparr>po_pipe = (\<lambda>w. (None, w)), po_close = (\<lambda>_ w. w), po_setsize = (\<lambda>_ _ w. (Inl EPERM, w)),
     po_maxsize = (\<lambda>w. (Inl EPERM, w)), po_vmsplice = (\<lambda>_ _ w. (Inl EPERM, w)),
     po_send = (\<lambda>_ _ _ _ _ w. (Inl EPERM, w))\<rparr>"

lemma demo_ready: "ready demo_session uid"
  by (simp add: ready_def demo_session_def)

text \<open>
  C5. What the kernel asks for is what the file system is called with.  Every request that a call of an
  operation stands for, written the way \<open>fuse_kernel.h\<close> lays it out for the protocol version of the
  session (the older, shorter layouts included), arrives as exactly that call, with the request's own
  number and user, and nothing behind the end of the message is read; nothing is answered on the way, and
  the request is now on the list of active ones.
\<close>
theorem request_roundtrip:
  assumes "request_ok (se t) c" "has_op (se t) (op_of c)" "ready (se t) uid"
    and "op_of c = Op_write \<longrightarrow> \<not> has_op (se t) Op_write_buf"
    and "mem_load (mem (th_env t)) a (length M) = M" "M = kernel_message (se t) uniq uid gid pid um c"
  shows "fuse_session_process_buf_int io po (mem_buf a (length M)) None t =
     Some ([(req_next (se t), c)],
       t\<lparr>se := after_read (req_next (se t)) um c (with_req (req_next (se t)) (fresh_req uniq uid gid pid) (se t))\<rparr>)"
  by (rule request_delivered [OF assms(1-4) holds_mem_buf [OF assms(5)] assms(6)])

theorem request_roundtrip_witness:
  "\<exists>M t'. M = kernel_message demo_session 7 1000 1000 4711 0x12 (Names (LL_mkdir 1 ''dir'' 0x1FF)) \<and>
     fuse_session_process_buf_int (demo_io []) demo_pipes (mem_buf 100 (length M)) None (demo_thread M) =
       Some ([(0, Names (LL_mkdir 1 ''dir'' 0x1FF))], t') \<and>
     map_option (\<lambda>q. (r_unique q, cx_umask (r_ctx q))) (req_heap (se t') 0) = Some (7, 0x12)"
proof -
  let ?c = "Names (LL_mkdir 1 ''dir'' 0x1FF)"
  let ?M = "kernel_message demo_session 7 1000 1000 4711 0x12 ?c"
  have "fuse_session_process_buf_int (demo_io []) demo_pipes (mem_buf 100 (length ?M)) None (demo_thread ?M) =
      Some ([(0, ?c)], (demo_thread ?M)\<lparr>se := after_read 0 0x12 ?c (with_req 0 (fresh_req 7 1000 1000 4711) demo_session)\<rparr>)"
    using request_roundtrip [of "demo_thread ?M" ?c 1000 100 ?M 7 1000 4711 "0x12" "demo_io []" demo_pipes]
    by (simp add: demo_ready mem_load_store) (simp add: demo_session_def fuse_path_ops_def)
  then show ?thesis
    by (auto simp: set_umask_def upd_req_def with_req_def fresh_req_def minor_def demo_session_def demo_conn_def)
qed

text \<open>
  For a file system with \<open>write_buf\<close>, a write arrives as one buffer that lies where the request was
  read to, and holds exactly the bytes written; offset, handle, owner and flags are those of the request.
\<close>
lemma write_in_place:
  assumes "files_ok (se t) (LL_write ino bs n off fi)" "has_op (se t) Op_write_buf" "ready (se t) uid"
    and "mem_load (mem (th_env t)) a (length M) = M" "length M < 2 ^ 64"
    and "M = kernel_message (se t) uniq uid gid pid um (Files (LL_write ino bs n off fi))"
  shows "\<exists>p. fuse_session_process_buf_int io po (mem_buf a (length M)) None t =
      Some ([(req_next (se t), More (LL_write_buf ino (vec_of [mem_buf p (length bs)]) off fi))],
            t\<lparr>se := with_req (req_next (se t)) (fresh_req uniq uid gid pid) (se t)\<rparr>) \<and>
    mem_load (mem (th_env t)) p (length bs) = bs"
  by (rule write_delivered [OF assms])

lemma write_in_place_witness:
  "\<exists>M p t'. fuse_session_process_buf_int (demo_io []) demo_pipes (mem_buf 100 (length M)) None (demo_thread M) =
       Some ([(0, More (LL_write_buf 5 (vec_of [mem_buf p 3]) 4096 (fh_info 9)))], t') \<and>
     mem_load (mem (th_env (demo_thread M))) p 3 = [1, 2, 3]"
proof -
  let ?M = "kernel_message demo_session 7 1000 1000 4711 0 (Files (LL_write 5 [1, 2, 3] 3 4096 (fh_info 9)))"
  have "files_ok demo_session (LL_write 5 [1, 2, 3] 3 4096 (fh_info 9))"
    by (simp add: fits64_def fh_info_def zero_fi_def)
  moreover have "has_op demo_session Op_write_buf" by (simp add: demo_session_def fuse_path_ops_def)
  moreover have "length ?M < 2 ^ 64"
    by (simp add: kernel_message_def fuse_in_header_def fuse_write_in_def i64_def)
  moreover have "req_next demo_session = 0" by (simp add: demo_session_def)
  ultimately obtain p where "fuse_session_process_buf_int (demo_io []) demo_pipes (mem_buf 100 (length ?M)) None (demo_thread ?M) =
      Some ([(0, More (LL_write_buf 5 (vec_of [mem_buf p 3]) 4096 (fh_info 9)))],
        (demo_thread ?M)\<lparr>se := with_req 0 (fresh_req 7 1000 1000 4711) demo_session\<rparr>)"
      "mem_load (mem (th_env (demo_thread ?M))) p 3 = [1, 2, 3]"
    using write_in_place [of "demo_thread ?M" 5 "[1, 2, 3]" 3 4096 "fh_info 9" 1000 100 ?M 7 1000 4711 0 "demo_io []" demo_pipes]
    by (auto simp: demo_ready mem_load_store numeral_3_eq_3)
  then show ?thesis by blast
qed

end
