(* ===== verification/EndToEnd.thy ===== *)
theory EndToEnd
  imports Requests Roundtrip
begin

text \<open>
  From the bytes the kernel sends to the bytes it gets back: every message the library sends is
  well-formed, a reply goes out once and ends its request, and a request that leaves the tree to the
  file system passes through both libraries with exactly one answer.
\<close>

section \<open>Messages\<close>

text \<open>The length is that of the message, the number is the request's, the error is one the C library lets through:
  with glibc (\<open>g\<close>) a number that has a name, else one from 0 down to -999.\<close>

definition well_formed :: "bool \<Rightarrow> u64 \<Rightarrow> bytes \<Rightarrow> bool" where
  "well_formed g uniq msg \<longleftrightarrow>
     16 \<le> length msg \<and> u32_at msg 0 = Some (of_nat (length msg)) \<and> u64_at msg 8 = Some uniq \<and>
     (\<exists>e. u32_at msg 4 = Some (of_int e) \<and> e \<le> 0 \<and> (if g then known_errno (- e) else -1000 < e))"

lemma message_fields:
  "length (message err uniq parts) = 16 + length (concat parts)"
  "u32_at (message err uniq parts) 0 = Some (of_nat (length (message err uniq parts)))"
  "u32_at (message err uniq parts) 4 = Some (of_int err)" "u64_at (message err uniq parts) 8 = Some uniq"
  "drop 16 (message err uniq parts) = concat parts"
  by (simp_all add: message_def fuse_out_header_def i32_def wire)

lemma well_formed_message: "\<not> bad_error g err \<Longrightarrow> well_formed g uniq (message err uniq parts)"
  unfolding well_formed_def message_fields
  by (auto simp: bad_error_def known_errno_def intro!: exI [of _ err] split: if_splits)

section \<open>Sending a reply\<close>

text \<open>A live request that holds no channel, or a channel that is open.\<close>

definition live_req :: "session \<Rightarrow> nat \<Rightarrow> fuse_req \<Rightarrow> bool" where
  "live_req s r q \<longleftrightarrow> req_heap s r = Some q \<and> (\<forall>c. r_ch q = Some c \<longrightarrow> 0 < chan_ctr s c)"

text \<open>Replies change the requests, the lists they are on, the channels and what was written, and nothing else.\<close>

definition same_setup :: "session \<Rightarrow> session \<Rightarrow> bool" where
  "same_setup s s' \<longleftrightarrow> s' = s\<lparr>req_heap := req_heap s', se_list := se_list s', interrupts := interrupts s',
     chan_ctr := chan_ctr s', sent := sent s', write_results := write_results s'\<rparr>"

lemma same_setup_trans: "same_setup a b \<Longrightarrow> same_setup b c \<Longrightarrow> same_setup a c"
  by (cases a, cases b, cases c) (simp add: same_setup_def)

lemma same_setup_fields:
  assumes "same_setup s s'"
  shows "exited s' = exited s" "got_init s' = got_init s" "deny_others s' = deny_others s" "owner s' = owner s"
    "conn s' = conn s" "has_op s' = has_op s" "bufsize s' = bufsize s" "pagesize s' = pagesize s" "s_allocs s' = s_allocs s"
    "req_next s' = req_next s" "se_error s' = se_error s" "glibc s' = glibc s"
  by (subst assms [unfolded same_setup_def], simp)+

lemma setup_steps:
  "same_setup s (upd_req r g s)" "same_setup s (list_del_req r s)" "fuse_chan_put ch s = Some s' \<Longrightarrow> same_setup s s'"
  "destroy_req r s = Some s' \<Longrightarrow> same_setup s s'"
  by (auto simp: same_setup_def upd_req_def list_del_req_def fuse_chan_put_def destroy_req_def bind_eq_Some_conv
      split: option.splits if_splits)

lemma free_req_setup:
  assumes "fuse_free_req r s = Some s'"
  shows "same_setup s s'"
proof -
  obtain q s2 where q: "put_chan r (list_del_req r (upd_req r (\<lambda>q. q\<lparr>r_u := U_ni None, r_ctr := r_ctr q - 1\<rparr>) s)) = Some s2"
      "s' = s2 \<or> destroy_req r s2 = Some s'"
    using assms by (auto simp: fuse_free_req_def Let_def bind_eq_Some_conv split: if_splits)
  then obtain s1 ch where "fuse_chan_put ch (list_del_req r (upd_req r (\<lambda>q. q\<lparr>r_u := U_ni None, r_ctr := r_ctr q - 1\<rparr>) s)) = Some s1"
      "s2 = upd_req r (\<lambda>q. q\<lparr>r_ch := None\<rparr>) s1"
    by (auto simp: put_chan_def bind_eq_Some_conv)
  then have "same_setup s s2"
    using same_setup_trans [OF same_setup_trans [OF setup_steps(1) setup_steps(2)] setup_steps(3)] same_setup_trans setup_steps(1)
    by blast
  then show ?thesis using q(2) same_setup_trans [OF _ setup_steps(4)] by blast
qed

lemma send_msg_setup: "fuse_send_msg ch err uniq parts s = (res, s') \<Longrightarrow> same_setup s s'"
  by (auto simp: fuse_send_msg_def Let_def same_setup_def split: list.splits if_splits)

text \<open>What freeing a request leaves of the session.\<close>

definition freed :: "nat \<Rightarrow> session \<Rightarrow> session \<Rightarrow> bool" where
  "freed r s s' \<longleftrightarrow> (\<exists>q. req_heap s r = Some q \<and>
     se_list s' = remove1 r (se_list s) \<and> interrupts s' = remove1 r (interrupts s) \<and>
     (r_ctr q = 1 \<longrightarrow> req_heap s' r = None) \<and> (r_ctr q \<noteq> 1 \<longrightarrow> map_option r_ctr (req_heap s' r) = Some (r_ctr q - 1)) \<and>
     (\<forall>p. p \<noteq> r \<longrightarrow> req_heap s' p = req_heap s p) \<and>
     (\<forall>c. chan_ctr s' c = chan_ctr s c - (if r_ch q = Some c then 1 else 0)) \<and>
     conn s' = conn s \<and> has_op s' = has_op s \<and> sent s' = sent s \<and> write_results s' = write_results s)"

lemma free_req:
  assumes "live_req s r q"
  obtains s' where "fuse_free_req r s = Some s'" "freed r s s'"
proof -
  let ?q = "q\<lparr>r_u := U_ni None, r_ctr := r_ctr q - 1\<rparr>"
  let ?s1 = "list_del_req r (upd_req r (\<lambda>q. q\<lparr>r_u := U_ni None, r_ctr := r_ctr q - 1\<rparr>) s)"
  have h: "req_heap s r = Some q" using assms by (simp add: live_req_def)
  have s1: "req_heap ?s1 = (req_heap s)(r \<mapsto> ?q)" "chan_ctr ?s1 = chan_ctr s"
    using h by (simp_all add: list_del_req_def upd_req_def)
  obtain s2 where s2: "fuse_chan_put (r_ch q) ?s1 = Some s2" "req_heap s2 = req_heap ?s1" "se_list s2 = se_list ?s1"
      "interrupts s2 = interrupts ?s1" "conn s2 = conn s" "has_op s2 = has_op s" "sent s2 = sent s" "write_results s2 = write_results s"
      "\<forall>c. chan_ctr s2 c = chan_ctr s c - (if r_ch q = Some c then 1 else 0)"
  proof (cases "r_ch q")
    case None
    then show thesis by (intro that [of ?s1]) (simp_all add: fuse_chan_put_def list_del_req_def upd_req_def)
  next
    case (Some c)
    then have "0 < chan_ctr s c" using assms by (simp add: live_req_def)
    then show thesis using Some s1(2)
      by (intro that [of "?s1\<lparr>chan_ctr := (chan_ctr ?s1)(c := chan_ctr ?s1 c - 1)\<rparr>"])
        (simp_all add: fuse_chan_put_def list_del_req_def upd_req_def)
  qed
  let ?s3 = "upd_req r (\<lambda>q. q\<lparr>r_ch := None\<rparr>) s2"
  have put: "put_chan r ?s1 = Some ?s3" using s1 s2(1) by (simp add: put_chan_def)
  have s3: "req_heap ?s3 r = Some (?q\<lparr>r_ch := None\<rparr>)" using s1 s2(2) by (simp add: upd_req_def)
  show thesis
  proof (cases "r_ctr q = 1")
    case True
    have "fuse_free_req r s = Some (?s3\<lparr>req_heap := (req_heap ?s3)(r := None)\<rparr>)"
      using True h put s3 by (simp add: fuse_free_req_def destroy_req_def)
    moreover have "freed r s (?s3\<lparr>req_heap := (req_heap ?s3)(r := None)\<rparr>)"
      using True h s2 s1 by (simp add: freed_def upd_req_def list_del_req_def)
    ultimately show thesis by (rule that)
  next
    case False
    have "fuse_free_req r s = Some ?s3" using False h put by (simp add: fuse_free_req_def)
    moreover have "freed r s ?s3" using False h s2 s1 by (simp add: freed_def upd_req_def list_del_req_def)
    ultimately show thesis by (rule that)
  qed
qed

text \<open>
  The result and the sessions around one \<open>send_reply_iov\<close>: the message has gone out unless the write
  failed, and the request is freed either way.
\<close>

definition reply_sent :: "nat \<Rightarrow> nat \<Rightarrow> session \<Rightarrow> int \<Rightarrow> session \<Rightarrow> bool" where
  "reply_sent n r s res s' \<longleftrightarrow> (\<exists>q s1 msg. req_heap s r = Some q \<and> well_formed (glibc s) (r_unique q) msg \<and> length msg = 16 + n \<and>
     res = (case write_results s of [] \<Rightarrow> 0 | e # es \<Rightarrow> - e) \<and>
     req_heap s1 = req_heap s \<and> se_list s1 = se_list s \<and> interrupts s1 = interrupts s \<and> chan_ctr s1 = chan_ctr s \<and>
     conn s1 = conn s \<and> has_op s1 = has_op s \<and> write_results s1 = tl (write_results s) \<and>
     sent s1 = sent s @ (if res = 0 then [(r_ch q, msg)] else []) \<and> freed r s1 s') \<and> same_setup s s'"

lemma send_reply_iov_sent:
  assumes "live_req s r q"
  obtains res s' where "send_reply_iov r err parts s = Some (res, s')" "reply_sent (length (concat parts)) r s res s'"
proof -
  let ?e = "if bad_error (glibc s) err then - ERANGE else err" let ?res = "case write_results s of [] \<Rightarrow> 0 | e # es \<Rightarrow> - e"
  obtain res s1 where m: "fuse_send_msg (r_ch q) ?e (r_unique q) parts s = (res, s1)" by (metis surj_pair)
  have h: "req_heap s r = Some q" using assms by (simp add: live_req_def)
  have s1: "res = ?res" "req_heap s1 = req_heap s" "se_list s1 = se_list s" "interrupts s1 = interrupts s"
      "chan_ctr s1 = chan_ctr s" "conn s1 = conn s" "has_op s1 = has_op s" "write_results s1 = tl (write_results s)"
      "sent s1 = sent s @ (if res = 0 then [(r_ch q, message ?e (r_unique q) parts)] else [])"
    using m by (auto simp: fuse_send_msg_def Let_def split: list.splits if_splits)
  have "live_req s1 r q" using assms s1 by (simp add: live_req_def)
  then obtain s' where f: "fuse_free_req r s1 = Some s'" "freed r s1 s'" by (rule free_req)
  have "\<not> bad_error (glibc s) ?e"
    by (cases "bad_error (glibc s) err") (auto simp: bad_error_def known_errno_def ERANGE_def)
  then have "well_formed (glibc s) (r_unique q) (message ?e (r_unique q) parts)" by (rule well_formed_message)
  moreover have "same_setup s s'" using same_setup_trans [OF send_msg_setup [OF m] free_req_setup [OF f(1)]] .
  ultimately have "reply_sent (length (concat parts)) r s res s'"
    unfolding reply_sent_def using h s1 f(2) message_fields(1) by blast
  moreover have "send_reply_iov r err parts s = Some (res, s')"
    using h m f(1) by (simp add: send_reply_iov_def fuse_send_reply_iov_nofree_def)
  ultimately show thesis using that by blast
qed

definition sends :: "nat \<Rightarrow> nat \<Rightarrow> session \<Rightarrow> (int \<times> session) option \<Rightarrow> bool" where
  "sends n r s x \<longleftrightarrow> (\<exists>res s'. x = Some (res, s') \<and> reply_sent n r s res s')"

lemma sends_iov: "live_req s r q \<Longrightarrow> length (concat parts) = n \<Longrightarrow> sends n r s (send_reply_iov r err parts s)"
  by (erule send_reply_iov_sent [of s r q err parts]) (auto simp: sends_def)

lemma sends_reply: "live_req s r q \<Longrightarrow> length arg = n \<Longrightarrow> sends n r s (send_reply r err arg s)"
  unfolding send_reply_def by (rule sends_iov) auto

text \<open>The length of what follows the header, for a connection.\<close>

fun body_size :: "fuse_conn_info \<Rightarrow> reply \<Rightarrow> nat" where
  "body_size c (Reply_err e) = 0"
| "body_size c Reply_none = 0"
| "body_size c (Reply_entry e) =
     (if e_ino e = 0 \<and> proto_minor c < 4 then 0 else if proto_minor c < 9 then 120 else 128)"
| "body_size c (Reply_create e fi) = (if proto_minor c < 9 then 120 else 128) + 16"
| "body_size c (Reply_attr st timeout) = (if proto_minor c < 9 then 96 else 104)"
| "body_size c (Reply_readlink l) = length l"
| "body_size c (Reply_open fi) = 16"
| "body_size c (Reply_write n) = 8"
| "body_size c (Reply_buf bs) = length bs"
| "body_size c (Reply_data v m) = 0"
| "body_size c (Reply_statfs st) = (if proto_minor c < 4 then 48 else 80)"
| "body_size c (Reply_xattr n) = 8"
| "body_size c (Reply_lock fl) = 24"
| "body_size c (Reply_bmap idx) = 8"
| "body_size c (Reply_ioctl res bs) = 16 + length bs"
| "body_size c (Reply_poll ev) = 8"
| "body_size c (Reply_lseek off) = 8"

lemma body_lengths:
  "length (entry_bytes e) = 128" "length (attr_bytes st) = 88" "length (fill_open fi) = 16"
  "length (fuse_attr_out timeout st) = 104" "length (fuse_kstatfs vfs) = 80" "length (lock_bytes fl) = 24"
  "length (name_bytes l) = length l"
  by (simp_all add: entry_bytes_def attr_bytes_def fill_open_def fuse_open_out_def fuse_attr_out_def fuse_kstatfs_def
      lock_bytes_def fuse_file_lock_def name_bytes_def Let_def)

lemmas body_parts = body_lengths entry_size_def FUSE_COMPAT_ENTRY_OUT_SIZE_def FUSE_COMPAT_ATTR_OUT_SIZE_def
  FUSE_COMPAT_STATFS_SIZE_def fuse_write_out_def fuse_getxattr_out_def fuse_bmap_out_def fuse_ioctl_out_def
  fuse_poll_out_def fuse_lseek_out_def

text \<open>The replies a handler can make, apart from none and the contents of buffers.\<close>

lemma sent_with_se:
  "sends n r (se t) (f (se t)) \<Longrightarrow> \<exists>res s'. with_se f t = Some (res, t\<lparr>se := s'\<rparr>) \<and> reply_sent n r (se t) res s'"
  by (auto simp: with_se_def sends_def)

lemma send_one_sends:
  assumes "live_req (se t) r q" "is_message x"
  shows "\<exists>res s'. send_one io po r x t = Some (res, t\<lparr>se := s'\<rparr>) \<and> reply_sent (body_size (conn (se t)) x) r (se t) res s'"
  using assms
  by (cases x) (auto simp: is_message_def fuse_reply_err_def send_reply_ok_def fuse_reply_entry_def fuse_reply_create_def
      fuse_reply_attr_def fuse_reply_readlink_def fuse_reply_open_def fuse_reply_write_def fuse_reply_buf_def
      fuse_reply_statfs_def fuse_reply_xattr_def fuse_reply_lock_def fuse_reply_bmap_def fuse_reply_ioctl_def
      fuse_reply_poll_def fuse_reply_lseek_def body_parts intro!: sent_with_se sends_reply sends_iov)

section \<open>A request that leaves the tree to the file system\<close>

fun plain_call :: "u64 \<Rightarrow> plain_request \<Rightarrow> ll_call" where
  "plain_call ino (Access msk) = Attrs (LL_access ino msk)"
| "plain_call ino Readlink = Names (LL_readlink ino)"
| "plain_call ino (Fsync ds fi) = Files (LL_fsync ino ds fi)"
| "plain_call ino Statfs = Files (LL_statfs ino)"
| "plain_call ino (Setxattr nm val flags) = Attrs (LL_setxattr ino nm val flags)"
| "plain_call ino (Getxattr nm sz) = Attrs (LL_getxattr ino nm sz)"
| "plain_call ino (Listxattr sz) = Attrs (LL_listxattr ino sz)"
| "plain_call ino (Removexattr nm) = Attrs (LL_removexattr ino nm)"
| "plain_call ino (Flock fi opn) = More (LL_flock ino fi opn)"
| "plain_call ino (Bmap bsz idx) = Attrs (LL_bmap ino bsz idx)"
| "plain_call ino (Poll fi ph) = More (LL_poll ino fi (map_option of_nat ph))"
| "plain_call ino (Fallocate mode off len fi) = More (LL_fallocate ino mode off len fi)"
| "plain_call ino (Lseek off whence fi) = More (LL_lseek ino off whence fi)"

definition handle_fits :: "plain_request \<Rightarrow> bool" where
  "handle_fits req \<longleftrightarrow> (case req of Poll fi (Some ph) \<Rightarrow> ph < 2 ^ 64 | _ \<Rightarrow> True)"

lemma plain_path_op: "handle_fits req \<Longrightarrow> path_op io i cx (plain_call ino req) L = serve_plain i cx L ino req"
  by (cases req) (auto simp: handle_fits_def fits_simps split: option.splits)

lemma plain_op: "fuse_path_ops (op_of (plain_call ino req))" "op_of (plain_call ino req) \<noteq> Op_write"
  by (cases req; simp add: fuse_path_ops_def)+

lemma plain_after_read: "s_allocs s = [] \<Longrightarrow> after_read r um (plain_call ino req) s = s"
proof (cases req)
  case (Poll fi ph)
  then show "s_allocs s = [] \<Longrightarrow> ?thesis" by (cases ph) (simp_all add: take_alloc_ready)
qed simp_all

lemma plain_answered:
  assumes L: "idle (tree L)" "get_node (tree L) ino \<noteq> None" "\<not> interruptible L" "xattr_ops_keep (fs_op (fsys L))"
    and s: "has_op (se t) = fuse_path_ops" "ready (se t) uid" "req_next (se t) \<notin> set (se_list (se t))"
    and req: "request_ok (se t) (plain_call ino req)" "handle_fits req"
    and M: "holds_message (th_env t) buf M" "M = kernel_message (se t) uniq uid gid pid um (plain_call ino req)"
  shows "\<exists>cs t1 L2 t2 msg al. fuse_session_process_buf_int io po buf None t = Some (cs, t1) \<and>
    perform_all io po i cs (L, t1) = Some (L2, t2) \<and> well_formed (glibc (se t)) uniq msg \<and>
    sent (se t2) = sent (se t) @ (if write_results (se t) = [] \<or> hd (write_results (se t)) = 0 then [(None, msg)] else []) \<and>
    write_results (se t2) = tl (write_results (se t)) \<and>
    req_heap (se t2) (req_next (se t)) = None \<and> se_list (se t2) = se_list (se t) \<and> tree L2 = (tree L)\<lparr>allocs := al\<rparr> \<and>
    same_setup ((se t)\<lparr>req_next := req_next (se t) + 1\<rparr>) (se t2) \<and> interrupts (se t2) = [] \<and>
    fsys L2 = fsys L \<and> \<not> interruptible L2 \<and> (keeps_memory L \<longrightarrow> taken (th_env t2) = taken (th_env t))"
proof -
  let ?c = "plain_call ino req" let ?r = "req_next (se t)" let ?q = "fresh_req uniq uid gid pid"
  let ?w = "with_req ?r ?q (se t)" let ?t1 = "t\<lparr>se := ?w\<rparr>"
  have "s_allocs ?w = []" using s(2) by (simp add: ready_def)
  then have p: "fuse_session_process_buf_int io po buf None t = Some ([(?r, ?c)], ?t1)"
    using request_delivered [OF req(1) _ s(2) _ M] plain_op s(1) plain_after_read [of ?w] by simp
  let ?L = "L\<lparr>env := th_env t, replies := [], answers := map uminus (take 1 (write_results (se t)))\<rparr>"
  have w: "req_heap ?w ?r = Some ?q" "write_results ?w = write_results (se t)" "sent ?w = sent (se t)" "live_req ?w ?r ?q"
    by (simp_all add: with_req_def live_req_def fresh_req_def)
  have "replied_only ?L (serve_plain i (r_ctx ?q) ?L ino req)"
    by (rule plain_replies) (use L in simp_all)
  then obtain x L1 al where run: "serve_plain i (r_ctx ?q) ?L ino req = Some (Finished L1)" "is_message x"
      "replies L1 = [x]" "tree L1 = (tree L)\<lparr>allocs := al\<rparr>" "fsys L1 = fsys L" "\<not> interruptible L1"
      "keeps_memory L \<longrightarrow> taken (env L1) = taken (th_env t)"
    by (auto simp: replied_only_def)
  let ?t2 = "?t1\<lparr>th_env := env L1\<rparr>"
  obtain res s' where sent: "send_one io po ?r x ?t2 = Some (res, ?t2\<lparr>se := s'\<rparr>)" "reply_sent (body_size (conn ?w) x) ?r ?w res s'"
    using send_one_sends [of ?t2 ?r ?q x io po] w(4) run(2) by auto
  have perf: "perform_all io po i [(?r, ?c)] (L, ?t1) = Some (L1\<lparr>env := env L1\<rparr>, ?t2\<lparr>se := s'\<rparr>)"
    using w(1,2) run sent(1) req(2) by (simp add: perform_def plain_path_op)
  obtain s1 msg where s1: "well_formed (glibc (se t)) uniq msg" "res = (case write_results ?w of [] \<Rightarrow> 0 | e # es \<Rightarrow> - e)"
      "sent s1 = sent ?w @ (if res = 0 then [(None, msg)] else [])" "write_results s1 = tl (write_results ?w)"
      "req_heap s1 = req_heap ?w" "se_list s1 = se_list ?w" "freed ?r s1 s'" "interrupts s1 = interrupts ?w"
  proof -
    have q: "r_unique ?q = uniq" "r_ch ?q = None" "glibc ?w = glibc (se t)" by (simp_all add: fresh_req_def with_req_def)
    obtain q1 s1 msg where "req_heap ?w ?r = Some q1" "well_formed (glibc ?w) (r_unique q1) msg"
        "res = (case write_results ?w of [] \<Rightarrow> 0 | e # es \<Rightarrow> - e)" "sent s1 = sent ?w @ (if res = 0 then [(r_ch q1, msg)] else [])"
        "write_results s1 = tl (write_results ?w)" "req_heap s1 = req_heap ?w" "se_list s1 = se_list ?w" "freed ?r s1 s'"
        "interrupts s1 = interrupts ?w"
      using sent(2) unfolding reply_sent_def by blast
    moreover from this(1) w(1) have "q1 = ?q" by simp
    ultimately show thesis using q by (intro that [of msg s1]) simp_all
  qed
  have f: "sent s' = sent s1" "write_results s' = write_results s1" "se_list s' = remove1 ?r (se_list s1)" "req_heap s' ?r = None"
    using s1(5,7) w(1) by (auto simp: freed_def fresh_req_def)
  have "remove1 ?r (se_list (se t) @ [?r]) = se_list (se t)" using s(3) by (simp add: remove1_append)
  then have "se_list s' = se_list (se t)" using f(3) s1(6) by (simp add: with_req_def)
  moreover have "sent s' = sent (se t) @ (if write_results (se t) = [] \<or> hd (write_results (se t)) = 0 then [(None, msg)] else [])"
    using f(1) s1(2,3) w(2,3) by (cases "write_results (se t)") auto
  moreover have "write_results s' = tl (write_results (se t))" using f(2) s1(4) w(2) by simp
  moreover have "same_setup ((se t)\<lparr>req_next := ?r + 1\<rparr>) s'"
    using same_setup_trans [of _ ?w s'] sent(2) by (simp add: reply_sent_def same_setup_def with_req_def)
  moreover have "interrupts s' = []" using s1(7,8) s(2) by (auto simp: freed_def with_req_def ready_def)
  moreover have "tree (L1\<lparr>env := env L1\<rparr>) = (tree L)\<lparr>allocs := al\<rparr>" "se (?t2\<lparr>se := s'\<rparr>) = s'" using run(4) by simp_all
  ultimately show ?thesis using p perf s1(1) f(4) run(5-7)
    by (intro exI [of _ "[(?r, ?c)]"] exI [of _ ?t1] exI [of _ "L1\<lparr>env := env L1\<rparr>"] exI [of _ "?t2\<lparr>se := s'\<rparr>"]
        exI [of _ msg] exI [of _ al] conjI) simp_all
qed


section \<open>Properties\<close>



text \<open>
  C2. From end to end: a request that leaves the tree to the file system, sent by the kernel for a node
  the library knows while no path is locked, is read from its bytes, handed through both libraries to the
  file system, and answered.  Neither library aborts, whatever the file system returns and whatever the
  memory allocations of the library answer; exactly one message is written to the device and, when the
  device takes it, it is well-formed and bears the number of the request; the request is freed, the list of
  active requests and the tree are what they were.
\<close>
theorem request_answered:
  assumes "idle (tree L)" "get_node (tree L) ino \<noteq> None" "\<not> interruptible L" "xattr_ops_keep (fs_op (fsys L))"
    and "has_op (se t) = fuse_path_ops" "ready (se t) uid" "req_next (se t) \<notin> set (se_list (se t))"
    and "request_ok (se t) (plain_call ino req)" "handle_fits req"
    and "mem_load (mem (th_env t)) a (length M) = M" "M = kernel_message (se t) uniq uid gid pid um (plain_call ino req)"
  shows "\<exists>cs t1 L2 t2 msg al. fuse_session_process_buf_int io po (mem_buf a (length M)) None t = Some (cs, t1) \<and>
    perform_all io po i cs (L, t1) = Some (L2, t2) \<and> well_formed (glibc (se t)) uniq msg \<and>
    sent (se t2) = sent (se t) @ (if write_results (se t) = [] \<or> hd (write_results (se t)) = 0 then [(None, msg)] else []) \<and>
    write_results (se t2) = tl (write_results (se t)) \<and>
    req_heap (se t2) (req_next (se t)) = None \<and> se_list (se t2) = se_list (se t) \<and> tree L2 = (tree L)\<lparr>allocs := al\<rparr>"
  using plain_answered [OF assms(1-9) holds_mem_buf [OF assms(10)] assms(11), of io po i] by blast

theorem request_answered_witness:
  "\<exists>(L :: bytes lib) M cs t1 L2 t2 msg. fsys L = demo_fs \<and>
     M = kernel_message demo_session 7 1000 1000 4711 0 (Attrs (LL_getxattr FUSE_ROOT_ID ''user.x'' 64)) \<and>
     fuse_session_process_buf_int (demo_io []) demo_pipes (mem_buf 100 (length M)) None (demo_thread M) = Some (cs, t1) \<and>
     perform_all (demo_io []) demo_pipes 1 cs (L, t1) = Some (L2, t2) \<and> sent (se t2) = [(None, msg)] \<and> well_formed True 7 msg"
proof -
  obtain e where q: "idle (quiet_a 0)" "get_node (quiet_a 0) FUSE_ROOT_ID = Some e" by (rule quiet_a_facts [of 0]) blast
  let ?L = "demo_lib (quiet_a 0)" let ?req = "Getxattr ''user.x'' 64"
  let ?M = "kernel_message demo_session 7 1000 1000 4711 0 (plain_call FUSE_ROOT_ID ?req)"
  have "idle (tree ?L)" "get_node (tree ?L) FUSE_ROOT_ID \<noteq> None" "\<not> interruptible ?L" "xattr_ops_keep (fs_op (fsys ?L))"
    using q demo_xattr by simp_all
  moreover have "has_op (se (demo_thread ?M)) = fuse_path_ops" "ready (se (demo_thread ?M)) 1000"
      "req_next (se (demo_thread ?M)) \<notin> set (se_list (se (demo_thread ?M)))"
      "request_ok (se (demo_thread ?M)) (plain_call FUSE_ROOT_ID ?req)" "handle_fits ?req"
      "mem_load (mem (th_env (demo_thread ?M))) 100 (length ?M) = ?M"
    using mem_load_store [of _ 100 ?M] by (simp_all add: demo_ready handle_fits_def) (simp_all add: demo_session_def)
  moreover have "?M = kernel_message (se (demo_thread ?M)) 7 1000 1000 4711 0 (plain_call FUSE_ROOT_ID ?req)" by simp
  ultimately obtain cs t1 L2 t2 msg al where
    "fuse_session_process_buf_int (demo_io []) demo_pipes (mem_buf 100 (length ?M)) None (demo_thread ?M) = Some (cs, t1)"
    "perform_all (demo_io []) demo_pipes 1 cs (?L, t1) = Some (L2, t2)" "well_formed (glibc (se (demo_thread ?M))) 7 msg"
    "sent (se t2) = sent (se (demo_thread ?M)) @ (if write_results (se (demo_thread ?M)) = [] \<or>
        hd (write_results (se (demo_thread ?M))) = 0 then [(None, msg)] else [])"
    using request_answered [of ?L FUSE_ROOT_ID "demo_thread ?M" 1000 ?req 100 ?M 7 1000 4711 0 "demo_io []" demo_pipes 1]
    by blast
  moreover have "sent (se (demo_thread ?M)) = []" "write_results (se (demo_thread ?M)) = []" "glibc (se (demo_thread ?M))"
    by (simp_all add: demo_session_def)
  moreover have "fsys ?L = demo_fs" by simp
  ultimately show ?thesis unfolding plain_call.simps
    by (intro exI [of _ ?L] exI [of _ t2] exI [of _ L2] exI [of _ msg] exI [of _ cs] exI [of _ t1]
        exI [of _ "kernel_message demo_session 7 1000 1000 4711 0 (Attrs (LL_getxattr FUSE_ROOT_ID ''user.x'' 64))"]) simp
qed

end
