(* ===== verification/Agreement.thy ===== *)
theory Agreement
  imports EndToEnd
begin

text \<open>
  What the two sides agree on at INIT: the features sent back to the kernel are features it offered, the
  buffer requests are read into is large enough for the writes that were promised, and the limits on
  background requests are in range.
\<close>

section \<open>Bits\<close>

lemma has_bit_or: "has_bit (or a b) c \<longleftrightarrow> has_bit a c \<or> has_bit b c"
  by (simp add: has_bit_def word_ao_dist or_eq_0_iff)

lemma has_bit_0: "\<not> has_bit 0 c"
  by (simp add: has_bit_def)

lemma has_bit_subset:
  assumes "and w (not cap) = 0" "has_bit w b"
  shows "has_bit cap b"
proof -
  have "w = and w cap"
  proof (rule bit_word_eqI)
    fix n assume n: "n < LENGTH(32)"
    have "\<not> bit (and w (not cap)) n" using assms(1) by simp
    then show "bit w n = bit (and w cap) n" using n by (auto simp: bit_and_iff bit_not_iff)
  qed
  then have "and w b = and w (and cap b)" by (metis and.assoc)
  then show ?thesis using assms(2) by (auto simp: has_bit_def)
qed

text \<open>The features collected along a table.\<close>

lemma fold_caps_bit:
  "has_bit (fold (\<lambda>(b, cap) c. if and inflags b \<noteq> 0 then or c cap else c) tab c0) x \<Longrightarrow>
   has_bit c0 x \<or> (\<exists>(b, cap) \<in> set tab. and inflags b \<noteq> 0 \<and> has_bit cap x)"
proof (induction tab arbitrary: c0)
  case (Cons p tab)
  obtain b cap where p: "p = (b, cap)" by (cases p)
  have "has_bit (if and inflags b \<noteq> 0 then or c0 cap else c0) x \<or>
      (\<exists>(b, cap) \<in> set tab. and inflags b \<noteq> 0 \<and> has_bit cap x)"
    by (rule Cons.IH) (use Cons.prems p in simp)
  then show ?case using p by (auto simp: has_bit_or split: if_splits)
qed simp

lemma fold_flags_bit:
  "bit (fold (\<lambda>(cap, b) f. if has_bit wnt cap then or f b else f) tab f0) n \<Longrightarrow>
   bit f0 n \<or> (\<exists>(cap, b) \<in> set tab. has_bit wnt cap \<and> bit b n)" for f0 :: u64
proof (induction tab arbitrary: f0)
  case (Cons p tab)
  obtain cap b where p: "p = (cap, b)" by (cases p)
  have "bit (if has_bit wnt cap then or f0 b else f0) n \<or> (\<exists>(cap, b) \<in> set tab. has_bit wnt cap \<and> bit b n)"
    by (rule Cons.IH) (use Cons.prems p in simp)
  then show ?case using p by (auto simp: bit_or_iff split: if_splits)
qed simp

lemmas cap_values =
  FUSE_CAP_ASYNC_READ_def FUSE_CAP_POSIX_LOCKS_def FUSE_CAP_ATOMIC_O_TRUNC_def FUSE_CAP_EXPORT_SUPPORT_def
  FUSE_CAP_DONT_MASK_def FUSE_CAP_FLOCK_LOCKS_def FUSE_CAP_AUTO_INVAL_DATA_def FUSE_CAP_READDIRPLUS_def
  FUSE_CAP_READDIRPLUS_AUTO_def FUSE_CAP_ASYNC_DIO_def FUSE_CAP_WRITEBACK_CACHE_def FUSE_CAP_NO_OPEN_SUPPORT_def
  FUSE_CAP_PARALLEL_DIROPS_def FUSE_CAP_POSIX_ACL_def FUSE_CAP_HANDLE_KILLPRIV_def FUSE_CAP_CACHE_SYMLINKS_def
  FUSE_CAP_NO_OPENDIR_SUPPORT_def FUSE_CAP_EXPLICIT_INVAL_DATA_def FUSE_CAP_SETXATTR_EXT_def FUSE_CAP_EXPIRE_ONLY_def
  FUSE_CAP_SPLICE_WRITE_def FUSE_CAP_SPLICE_MOVE_def FUSE_CAP_SPLICE_READ_def FUSE_CAP_IOCTL_DIR_def

lemmas flag_values =
  FUSE_ASYNC_READ_def FUSE_POSIX_LOCKS_def FUSE_ATOMIC_O_TRUNC_def FUSE_EXPORT_SUPPORT_def FUSE_DONT_MASK_def
  FUSE_FLOCK_LOCKS_def FUSE_AUTO_INVAL_DATA_def FUSE_DO_READDIRPLUS_def FUSE_READDIRPLUS_AUTO_def FUSE_ASYNC_DIO_def
  FUSE_WRITEBACK_CACHE_def FUSE_NO_OPEN_SUPPORT_def FUSE_PARALLEL_DIROPS_def FUSE_HANDLE_KILLPRIV_def FUSE_POSIX_ACL_def
  FUSE_MAX_PAGES_def FUSE_CACHE_SYMLINKS_def FUSE_NO_OPENDIR_SUPPORT_def FUSE_EXPLICIT_INVAL_DATA_def
  FUSE_SETXATTR_EXT_def FUSE_INIT_EXT_def FUSE_BIG_WRITES_def

lemma fold_caps_keeps:
  "has_bit c0 x \<Longrightarrow> has_bit (fold (\<lambda>(b, cap) c. if and inflags b \<noteq> 0 then or c cap else c) tab c0) x"
  by (induction tab arbitrary: c0) (auto simp: has_bit_or)

lemma fold_caps_adds:
  "(b, cap) \<in> set tab \<Longrightarrow> and inflags b \<noteq> 0 \<Longrightarrow> has_bit cap x \<Longrightarrow>
   has_bit (fold (\<lambda>(b, cap) c. if and inflags b \<noteq> 0 then or c cap else c) tab c0) x"
proof (induction tab arbitrary: c0)
  case (Cons p tab)
  then show ?case by (cases "p = (b, cap)") (auto simp: has_bit_or intro: fold_caps_keeps)
qed simp

text \<open>A capability that is sent back is offered by the bit it is sent with, and by no other.\<close>

lemma tables_agree:
  assumes "(cap, b) \<in> set requests" "(b', cap') \<in> set offers" "has_bit cap' cap"
  shows "b' = b"
proof -
  have "\<forall>(cap, b) \<in> set requests. \<forall>(b', cap') \<in> set offers. has_bit cap' cap \<longrightarrow> b' = b"
    by (simp add: requests_def offers_def has_bit_def cap_values flag_values)
  then show ?thesis using assms by blast
qed

lemma requests_offered_only:
  assumes "(cap, b) \<in> set requests"
  shows "\<not> has_bit FUSE_CAP_EXPIRE_ONLY cap" "\<not> has_bit FUSE_CAP_SPLICE_WRITE cap" "\<not> has_bit FUSE_CAP_SPLICE_MOVE cap"
    "\<not> has_bit FUSE_CAP_SPLICE_READ cap" "\<not> has_bit FUSE_CAP_IOCTL_DIR cap"
proof -
  have "\<forall>(cap, b) \<in> set requests. \<not> has_bit FUSE_CAP_EXPIRE_ONLY cap \<and> \<not> has_bit FUSE_CAP_SPLICE_WRITE cap \<and>
      \<not> has_bit FUSE_CAP_SPLICE_MOVE cap \<and> \<not> has_bit FUSE_CAP_SPLICE_READ cap \<and> \<not> has_bit FUSE_CAP_IOCTL_DIR cap"
    by (simp add: requests_def has_bit_def cap_values)
  then show "\<not> has_bit FUSE_CAP_EXPIRE_ONLY cap" "\<not> has_bit FUSE_CAP_SPLICE_WRITE cap" "\<not> has_bit FUSE_CAP_SPLICE_MOVE cap"
    "\<not> has_bit FUSE_CAP_SPLICE_READ cap" "\<not> has_bit FUSE_CAP_IOCTL_DIR cap" using assms by auto
qed

text \<open>Every flag is one bit, and below 32.\<close>

lemma requests_single:
  assumes "(cap, b) \<in> set requests"
  shows "b \<in> (\<lambda>k. 2 ^ k) ` {0, 1, 3, 4, 6, 10, 12, 13, 14, 15, 16, 20, 23, 25, 29}"
proof -
  have "\<forall>(cap, b) \<in> set requests. b \<in> (\<lambda>k. 2 ^ k) ` {0, 1, 3, 4, 6, 10, 12, 13, 14, 15, 16, 20, 23, 25, 29}"
    by (simp add: requests_def flag_values)
  then show ?thesis using assms by auto
qed

lemma and_power_bit: "and w (2 ^ k) \<noteq> 0 \<longleftrightarrow> bit w k" for w :: "'a :: len word"
  by (auto simp: and_exp_eq_0_iff_not_bit)

lemma bit_power: "bit (2 ^ k :: u64) n \<longleftrightarrow> k = n \<and> n < 64"
  by (auto simp: bit_exp_iff)


text \<open>Offered by the kernel's flags, or added by the library itself.\<close>

definition offered :: "u64 \<Rightarrow> u32 \<Rightarrow> bool" where
  "offered inflags x \<longleftrightarrow> has_bit (or_caps inflags 0) x \<or> has_bit FUSE_CAP_EXPIRE_ONLY x \<or>
     has_bit FUSE_CAP_SPLICE_WRITE x \<or> has_bit FUSE_CAP_SPLICE_MOVE x \<or> has_bit FUSE_CAP_SPLICE_READ x \<or>
     has_bit FUSE_CAP_IOCTL_DIR x"

section \<open>Before \<open>init\<close>\<close>

lemma set_default_keeps [simp]:
  "capable (set_default d c) = capable c" "max_write (set_default d c) = max_write c"
  "proto_minor (set_default d c) = proto_minor c" "max_read (set_default d c) = max_read c"
  by (simp_all add: set_default_def)

lemma set_defaults_keep [simp]:
  "capable (fold set_default ds c) = capable c" "max_write (fold set_default ds c) = max_write c"
  "proto_minor (fold set_default ds c) = proto_minor c" "max_read (fold set_default ds c) = max_read c"
  by (induction ds arbitrary: c) simp_all

lemma set_default_want:
  "has_bit (want c) b \<Longrightarrow> has_bit (want (set_default d c)) b"
  by (simp add: set_default_def has_bit_or)

lemma set_defaults_want:
  "(True, cap) \<in> set ds \<Longrightarrow> has_bit (capable c) cap \<Longrightarrow> has_bit cap cap \<Longrightarrow> has_bit (want (fold set_default ds c)) cap"
proof (induction ds arbitrary: c)
  case (Cons d ds)
  have keep: "has_bit (want c) cap \<Longrightarrow> has_bit (want (fold set_default es c)) cap" for es c
    by (induction es arbitrary: c) (simp_all add: set_default_want)
  show ?case
  proof (cases "d = (True, cap)")
    case True
    have "has_bit (want (set_default d c)) cap" using True Cons.prems by (simp add: set_default_def has_bit_or)
    then show ?thesis using keep by simp
  next
    case False
    then show ?thesis using Cons by simp
  qed
qed simp

text \<open>Nothing is wanted that is not offered; a default is wanted only when all of its bits are.\<close>

lemma single_bit_want:
  assumes "and w (not cap) = 0" "has_bit cap (2 ^ k)"
  shows "and (or w (2 ^ k)) (not cap) = 0"
proof (rule bit_word_eqI)
  fix n assume n: "n < LENGTH(32)"
  have "\<not> bit (and w (not cap)) n" using assms(1) by simp
  moreover have "bit cap k" using assms(2) by (simp add: has_bit_def and_exp_eq_0_iff_not_bit)
  ultimately show "bit (and (or w (2 ^ k)) (not cap)) n = bit 0 n"
    using n by (auto simp: bit_and_iff bit_or_iff bit_not_iff bit_exp_iff)
qed

lemma defaults_single: "d \<in> set (ll_defaults s) \<Longrightarrow> \<exists>k. snd d = 2 ^ k"
proof -
  have "\<forall>d \<in> set (ll_defaults s). snd d \<in> (\<lambda>k. 2 ^ k) ` {0, 1, 3, 9, 10, 11, 12, 13, 14, 15, 18, 20}"
    by (simp add: ll_defaults_def cap_values)
  then show "d \<in> set (ll_defaults s) \<Longrightarrow> ?thesis" by blast
qed

lemma set_defaults_subset:
  "\<forall>d \<in> set ds. \<exists>k. snd d = 2 ^ k \<Longrightarrow> and (want c) (not (capable c)) = 0 \<Longrightarrow>
   and (want (fold set_default ds c)) (not (capable c)) = 0"
proof (induction ds arbitrary: c)
  case (Cons d ds)
  obtain k where k: "snd d = 2 ^ k" using Cons.prems(1) by auto
  have "and (want (set_default d c)) (not (capable c)) = 0"
    using Cons.prems(2) single_bit_want [of "want c" "capable c" k] by (simp add: set_default_def k)
  then show ?case using Cons.IH [of "set_default d c"] Cons.prems(1) by simp
qed simp

text \<open>What the kernel offered is all that is in \<open>capable\<close>, apart from four bits the library adds.\<close>

lemma splice_caps_bit:
  "has_bit (splice_caps ver s c) x \<Longrightarrow>
   has_bit c x \<or> has_bit FUSE_CAP_SPLICE_WRITE x \<or> has_bit FUSE_CAP_SPLICE_MOVE x \<or> has_bit FUSE_CAP_SPLICE_READ x"
  by (auto simp: splice_caps_def has_bit_or Let_def split: if_splits option.splits prod.splits bool.splits)

lemma offer_facts:
  assumes o: "do_init_offer ver m s = Some s1" and "6 \<le> ver" "capable (conn s) = 0"
  obtains inflags where "init_in_flags m = Some inflags"
    "\<And>x. has_bit (capable (conn s1)) x \<Longrightarrow> offered inflags x"
    "\<And>x. has_bit (or_caps inflags 0) x \<Longrightarrow> has_bit (capable (conn s1)) x"
    "FUSE_MIN_READ_BUFFER \<le> bufsize s1" "unat (max_write (conn s1)) \<le> bufsize s1 - FUSE_BUFFER_HEADER_SIZE"
    "got_init s1" "\<And>cap. (True, cap) \<in> set (ll_defaults s) \<Longrightarrow> has_bit (capable (conn s1)) cap \<Longrightarrow> has_bit cap cap \<Longrightarrow>
       has_bit (want (conn s1)) cap"
    "want (conn s) = 0 \<Longrightarrow> and (want (conn s1)) (not (capable (conn s1))) = 0"
    "req_heap s1 = req_heap s" "chan_ctr s1 = chan_ctr s" "write_results s1 = write_results s" "sent s1 = sent s"
    "mo_max_read s1 = mo_max_read s" "proto_minor (conn s1) = proto_minor (conn s)" "max_read (conn s1) = max_read (conn s)"
proof -
  obtain ra inflags where ra: "u32_at m 8 = Some ra" "init_in_flags m = Some inflags"
    using o assms(2) by (auto simp: do_init_offer_def take_offer_def Let_def bind_eq_Some_conv)
  define c2 where "c2 = (if ra < max_readahead (conn s) then (conn s)\<lparr>max_readahead := ra\<rparr> else conn s)\<lparr>capable := or_caps inflags 0\<rparr>"
  define c3 where "c3 = (if 38 \<le> ver then c2\<lparr>capable := or (capable c2) FUSE_CAP_EXPIRE_ONLY\<rparr> else c2)"
  define c4 where "c4 = c3\<lparr>capable := splice_caps ver s (capable c3)\<rparr>"
  define c5 where "c5 = (if 18 \<le> ver then c4\<lparr>capable := or (capable c4) FUSE_CAP_IOCTL_DIR\<rparr> else c4)"
  define c6 where "c6 = (fold set_default (ll_defaults s) c5)\<lparr>time_gran := 1\<rparr>"
  obtain sz where t: "take_offer m ver s (conn s) = Some (c3, sz)"
    using ra assms(2,3) by (auto simp: take_offer_def Let_def c3_def c2_def)
  define sz1 where "sz1 = (if sz < FUSE_MIN_READ_BUFFER then FUSE_MIN_READ_BUFFER else sz)"
  define c7 where "c7 = (if sz1 - FUSE_BUFFER_HEADER_SIZE < unat (max_write c6)
      then c6\<lparr>max_write := of_nat (sz1 - FUSE_BUFFER_HEADER_SIZE)\<rparr> else c6)"
  have s1: "s1 = s\<lparr>conn := c7, bufsize := sz1, got_init := True\<rparr>"
  proof -
    have "do_init_offer ver m s = Some (s\<lparr>conn := c7, bufsize := sz1, got_init := True\<rparr>)"
      unfolding do_init_offer_def t c4_def c5_def c6_def c7_def sz1_def Let_def
      by (simp only: bind.bind_lunit prod.case)
    then show ?thesis using o by simp
  qed
  have cap: "capable (conn s1) = capable c5" by (simp add: s1 c7_def c6_def)
  show thesis
  proof (rule that [OF ra(2)])
    fix x assume "has_bit (capable (conn s1)) x"
    then have "has_bit (capable c4) x \<or> has_bit FUSE_CAP_IOCTL_DIR x"
      unfolding cap c5_def by (auto simp: has_bit_or split: if_splits)
    then show "offered inflags x" unfolding offered_def
      using splice_caps_bit [of ver s "capable c3" x] by (auto simp: c4_def c3_def c2_def has_bit_or split: if_splits)
  next
    fix x assume "has_bit (or_caps inflags 0) x"
    then have "has_bit (capable c3) x" by (simp add: c3_def c2_def has_bit_or)
    then have "has_bit (capable c4) x"
      by (auto simp: c4_def splice_caps_def has_bit_or Let_def split: option.splits prod.splits bool.splits)
    then show "has_bit (capable (conn s1)) x" unfolding cap c5_def by (simp add: has_bit_or)
  next
    show "FUSE_MIN_READ_BUFFER \<le> bufsize s1" by (simp add: s1 sz1_def)
  next
    have "unat (of_nat n :: u32) \<le> n" for n by (simp add: unat_of_nat)
    then show "unat (max_write (conn s1)) \<le> bufsize s1 - FUSE_BUFFER_HEADER_SIZE" by (simp add: s1 c7_def)
  next
    show "got_init s1" by (simp add: s1)
  next
    fix x assume "(True, x) \<in> set (ll_defaults s)" "has_bit (capable (conn s1)) x" "has_bit x x"
    then have "has_bit (want (fold set_default (ll_defaults s) c5)) x"
      unfolding cap by (intro set_defaults_want)
    then show "has_bit (want (conn s1)) x" by (simp add: s1 c7_def c6_def)
  next
    assume "want (conn s) = 0"
    then have "and (want c5) (not (capable c5)) = 0" by (simp add: c5_def c4_def c3_def c2_def)
    then have "and (want (fold set_default (ll_defaults s) c5)) (not (capable c5)) = 0"
      by (intro set_defaults_subset ballI defaults_single)
    then show "and (want (conn s1)) (not (capable (conn s1))) = 0" unfolding cap by (simp add: s1 c7_def c6_def)
  next
    show "proto_minor (conn s1) = proto_minor (conn s)" "max_read (conn s1) = max_read (conn s)"
      by (simp_all add: s1 c7_def c6_def c5_def c4_def c3_def c2_def)
  qed (simp_all add: s1)
qed

section \<open>After \<open>init\<close>\<close>

lemma or_flags_offered:
  assumes "and w (not cap) = 0" "bit (or_flags w f0) n"
    and "\<And>x. has_bit cap x \<Longrightarrow> offered inflags x"
  shows "bit f0 n \<or> bit inflags n \<and> n \<in> {0, 1, 3, 4, 6, 10, 12, 13, 14, 15, 16, 20, 23, 25, 29}"
proof (cases "bit f0 n")
  case False
  then obtain x b where x: "(x, b) \<in> set requests" "has_bit w x" "bit b n"
    using assms(2) fold_flags_bit [of w requests f0 n] by (auto simp: or_flags_def)
  have "has_bit (or_caps inflags 0) x"
    using assms(3) [OF has_bit_subset [OF assms(1) x(2)]] requests_offered_only [OF x(1)] unfolding offered_def by blast
  then obtain b' cap' where b': "(b', cap') \<in> set offers" "and inflags b' \<noteq> 0" "has_bit cap' x"
    using fold_caps_bit [of inflags offers 0 x] has_bit_0 by (auto simp: or_caps_def)
  have "b' = b" by (rule tables_agree [OF x(1) b'(1,3)])
  moreover obtain k where "b = 2 ^ k" "k \<in> {0, 1, 3, 4, 6, 10, 12, 13, 14, 15, 16, 20, 23, 25, 29}"
    using requests_single [OF x(1)] by blast
  ultimately show ?thesis using b'(2) x(3) by (auto simp: and_power_bit bit_power)
qed simp

lemma low_bits:
  assumes "init_in_flags m = Some inflags" "u32_at m 12 = Some f" "n < 32"
  shows "bit inflags n = bit f n"
  using assms
  by (auto simp: init_in_flags_def Let_def bind_eq_Some_conv bit_or_iff bit_push_bit_iff bit_ucast_iff split: if_splits)

text \<open>The three flags that are not in the table.\<close>

lemma single_flags:
  "bit FUSE_MAX_PAGES n \<longleftrightarrow> n = 22" "bit FUSE_BIG_WRITES n \<longleftrightarrow> n = 5" "bit FUSE_INIT_EXT n \<longleftrightarrow> n = 30"
  "and w FUSE_MAX_PAGES \<noteq> 0 \<longleftrightarrow> bit w 22" "and w FUSE_INIT_EXT \<noteq> 0 \<longleftrightarrow> bit w 30"
proof -
  have v: "FUSE_MAX_PAGES = 2 ^ 22" "FUSE_BIG_WRITES = 2 ^ 5" "FUSE_INIT_EXT = 2 ^ 30" by (simp_all add: flag_values)
  show "bit FUSE_MAX_PAGES n \<longleftrightarrow> n = 22" "bit FUSE_BIG_WRITES n \<longleftrightarrow> n = 5" "bit FUSE_INIT_EXT n \<longleftrightarrow> n = 30"
    unfolding v bit_power by auto
  show "and w FUSE_MAX_PAGES \<noteq> 0 \<longleftrightarrow> bit w 22" "and w FUSE_INIT_EXT \<noteq> 0 \<longleftrightarrow> bit w 30"
    unfolding v and_power_bit by auto
qed

lemma out_flags_offered:
  assumes m: "init_in_flags m = Some inflags" "u32_at m 12 = Some f" and w: "and w (not cap) = 0"
    and cap: "\<And>x. has_bit cap x \<Longrightarrow> offered inflags x"
    and n: "bit (init_out_flags inflags f w) n"
  shows "n = 5 \<or> bit f n" "n \<in> {5, 22, 30} \<or> n \<in> {0, 1, 3, 4, 6, 10, 12, 13, 14, 15, 16, 20, 23, 25, 29}"
proof -
  let ?pages = "if and (ucast f) FUSE_MAX_PAGES \<noteq> 0 then FUSE_MAX_PAGES else 0 :: u64"
  let ?f = "or ?pages FUSE_BIG_WRITES"
  have pages: "bit ?pages n \<Longrightarrow> n = 22 \<and> bit f n"
    unfolding single_flags by (auto simp: single_flags bit_ucast_iff split: if_splits)
  have f: "bit ?f n \<Longrightarrow> n = 5 \<or> n = 22 \<and> bit f n"
    unfolding bit_or_iff single_flags(2) using pages by blast
  have ext: "and inflags FUSE_INIT_EXT \<noteq> 0 \<longleftrightarrow> bit f 30"
    unfolding single_flags using low_bits [OF m] by simp
  have "bit (or_flags w ?f) n \<or> n = 30 \<and> bit f n"
    using n unfolding init_out_flags_def Let_def ext by (auto simp: bit_or_iff single_flags split: if_splits)
  moreover have "bit (or_flags w ?f) n \<Longrightarrow>
      bit ?f n \<or> bit inflags n \<and> n \<in> {0, 1, 3, 4, 6, 10, 12, 13, 14, 15, 16, 20, 23, 25, 29}"
    by (rule or_flags_offered [OF w _ cap])
  ultimately have *: "n = 5 \<or> n \<in> {22, 30} \<and> bit f n \<or>
      bit inflags n \<and> n \<in> {0, 1, 3, 4, 6, 10, 12, 13, 14, 15, 16, 20, 23, 25, 29}"
    using f by blast
  show "n = 5 \<or> bit f n" "n \<in> {5, 22, 30} \<or> n \<in> {0, 1, 3, 4, 6, 10, 12, 13, 14, 15, 16, 20, 23, 25, 29}"
    using low_bits [OF m, of n] * by auto
qed

text \<open>The limits on background requests.\<close>

lemma init_background_limits:
  assumes "13 \<le> proto_minor c"
  shows "max_background (init_background c) < 2 ^ 16"
    "congestion_threshold (init_background c) \<le> max_background (init_background c)"
proof -
  let ?b = "if 0x10000 \<le> max_background c then 0xFFFF else max_background c"
  have b: "?b < 2 ^ 16" by (simp add: not_le)
  have "unat (?b * 3) = unat ?b * 3"
    using b by (simp add: unat_word_ariths word_less_nat_alt)
  then have "?b * 3 div 4 \<le> ?b" by (simp add: word_le_nat_alt unat_div)
  then show "max_background (init_background c) < 2 ^ 16"
    "congestion_threshold (init_background c) \<le> max_background (init_background c)"
    using assms b by (auto simp: init_background_def Let_def split del: if_split split: if_split_asm)
      (auto split: if_splits)
qed

lemma init_background_keeps [simp]:
  "want (init_background c) = want c" "max_write (init_background c) = max_write c"
  "proto_minor (init_background c) = proto_minor c"
  by (simp_all add: init_background_def Let_def)

lemma fields_of_message:
  "u32_at (message err uniq parts) (16 + n) = u32_at (concat parts) n"
  "bytes_at (message err uniq parts) (16 + n) k = bytes_at (concat parts) n k"
  by (simp_all add: message_def fuse_out_header_def i32_def u32_at_def bytes_at_def w32_def w64_def)

lemma u32_at_some: "u32_at m off = Some v \<Longrightarrow> m \<noteq> []"
  by (auto simp: u32_at_def split: if_splits)

lemma fields_of_init_out:
  "u32_at (fuse_init_out major mnr ra flags bg cong mw gran pages flags2) 12 = Some flags"
  "u32_at (fuse_init_out major mnr ra flags bg cong mw gran pages flags2) 20 = Some mw"
  by (simp_all add: fuse_init_out_def wire u32_at_skip)

lemma fields_of_init:
  assumes "24 \<le> n"
  shows "u32_at (take n (init_message s inflags flags c)) 12 = Some (ucast (init_out_flags inflags flags (want c)))"
    "u32_at (take n (init_message s inflags flags c)) 20 = Some (max_write c)"
proof -
  have "u32_at (take n m) off = u32_at m off" if "off + 4 \<le> n" for m off
    using that by (auto simp: u32_at_def drop_take min_def)
  then show "u32_at (take n (init_message s inflags flags c)) 12 = Some (ucast (init_out_flags inflags flags (want c)))"
    "u32_at (take n (init_message s inflags flags c)) 20 = Some (max_write c)"
    using assms by (simp_all only: init_message_def Let_def fields_of_init_out)
qed

text \<open>The offer behind a call of \<open>init\<close>.\<close>

lemma init_called:
  assumes "do_init r nid m s = Some ([(r, LL_init)], s1)" "u32_at m 4 = Some ver" "6 \<le> ver"
  obtains s0 where "do_init_offer ver m s0 = Some s1" "capable (conn s0) = 0" "want (conn s0) = 0"
    "proto_minor (conn s0) = ver" "max_read (conn s0) = max_read (conn s)" "req_heap s0 = req_heap s"
    "chan_ctr s0 = chan_ctr s" "write_results s0 = write_results s" "sent s0 = sent s" "mo_max_read s0 = mo_max_read s"
proof -
  obtain major where major: "u32_at m 0 = Some major" using assms(1) by (auto simp: do_init_def bind_eq_Some_conv)
  let ?s = "s\<lparr>conn := (conn s)\<lparr>proto_major := major, proto_minor := ver, capable := 0, want := 0\<rparr>\<rparr>"
  have "do_init_offer ver m ?s = Some s1"
  proof (cases "do_init_offer ver m ?s")
    case (Some s2)
    have "answered x \<noteq> Some ([(r, LL_init)], s1)" for x by (auto simp: answered_def)
    moreover have "do_init_finish r m s2 \<noteq> Some ([(r, LL_init)], s1)"
      by (auto simp: do_init_finish_def init_failed_def answered_def Let_def bind_eq_Some_conv)
    ultimately show ?thesis using assms(1,2) major Some
      by (auto simp: do_init_def Let_def invoke_def split: if_splits)
  qed (use assms(1,2) major in \<open>auto simp: do_init_def Let_def answered_def split: if_splits\<close>)
  then show thesis by (rule that) simp_all
qed

text \<open>A reply with an error number or a body, when the device takes it.\<close>

lemma reply_taken:
  assumes "live_req s r q" "write_results s = []" "\<not> bad_error (glibc s) err"
  obtains s' where "send_reply r err arg s = Some (0, s')"
    "sent s' = sent s @ [(r_ch q, message err (r_unique q) (if arg = [] then [] else [arg]))]" "conn s' = conn s"
    "bufsize s' = bufsize s"
  using assms
  by (cases "r_ch q"; cases "r_ctr q = 1")
    (simp_all add: live_req_def send_reply_def send_reply_iov_def fuse_send_reply_iov_nofree_def fuse_send_msg_def
      fuse_free_req_def list_del_req_def upd_req_def put_chan_def fuse_chan_put_def destroy_req_def Let_def)

lemma init_refused:
  assumes "live_req s r q" "write_results s = []" "and (want (conn s)) (not (capable (conn s))) \<noteq> 0 \<or> max_read (conn s) \<noteq> mo_max_read s"
  obtains s' where "do_init_finish r m s = Some ([], s')" "sent s' = sent s @ [(r_ch q, message (- EPROTO) (r_unique q) [])]"
    "exited s'"
proof -
  have "\<not> bad_error (glibc s) (- EPROTO)" by (simp add: bad_error_def known_errno_def EPROTO_def)
  from reply_taken [OF assms(1,2) this, of "[]"]
  obtain s2 where "send_reply r (- EPROTO) [] s = Some (0, s2)" "sent s2 = sent s @ [(r_ch q, message (- EPROTO) (r_unique q) [])]"
    by auto
  then show thesis using assms(3) that [of "fuse_session_exit (s2\<lparr>se_error := - EPROTO\<rparr>)"]
    by (auto simp: do_init_finish_def Let_def init_failed_def fuse_reply_err_def fuse_session_exit_def)
qed

lemma init_agreed:
  assumes "live_req s r q" "write_results s = []" "\<not> (and (want (conn s)) (not (capable (conn s))) \<noteq> 0 \<or> max_read (conn s) \<noteq> mo_max_read s)"
    and "u32_at m 4 = Some ver" "6 \<le> ver" "proto_minor (conn s) = ver" "init_in_flags m = Some inflags" "u32_at m 12 = Some f"
    and "unat (max_write (conn s)) \<le> bufsize s - FUSE_BUFFER_HEADER_SIZE" "FUSE_MIN_READ_BUFFER \<le> bufsize s"
  obtains s' msg where "do_init_finish r m s = Some ([], s')" "sent s' = sent s @ [(r_ch q, msg)]"
    "u32_at msg 28 = Some (ucast (init_out_flags inflags f (want (conn s))))"
    "u32_at msg 36 = Some (max_write (conn s))" "bufsize s' = unat (max_write (conn s)) + FUSE_BUFFER_HEADER_SIZE"
    "conn s' = init_background (conn s)"
proof -
  let ?c = "init_background (conn s)"
  let ?s1 = "if unat (max_write (conn s)) < bufsize s - FUSE_BUFFER_HEADER_SIZE
                       then s\<lparr>bufsize := unat (max_write (conn s)) + FUSE_BUFFER_HEADER_SIZE\<rparr> else s"
  let ?s2 = "?s1\<lparr>conn := ?c\<rparr>"
  let ?m = "take (init_out_size ver) (init_message s inflags f ?c)"
  have n: "24 \<le> init_out_size ver" using assms(5) by (auto simp: init_out_size_def word_le_nat_alt word_less_nat_alt)
  have ne: "?m \<noteq> []" by (rule u32_at_some) (rule fields_of_init(1) [OF n])
  have e: "sent ?s2 = sent s" "conn ?s2 = ?c" "bufsize ?s2 = bufsize ?s1" "(if ?m = [] then [] else [?m]) = [?m]"
    using ne by simp_all
  have "live_req ?s2 r q" "write_results ?s2 = []" "\<not> bad_error (glibc ?s2) 0" using assms(1,2) by (auto simp: live_req_def bad_error_def)
  from reply_taken [OF this, of ?m, unfolded e]
  obtain s' where s': "send_reply r 0 ?m ?s2 = Some (0, s')" "sent s' = sent s @ [(r_ch q, message 0 (r_unique q) [?m])]"
      "conn s' = ?c" "bufsize s' = bufsize ?s1"
    by blast
  have "do_init_finish r m s = Some ([], s')"
    using assms(3-8) s'(1) by (simp add: do_init_finish_def Let_def send_reply_ok_def answered_def split del: if_split)
  moreover have "bufsize ?s1 = unat (max_write (conn s)) + FUSE_BUFFER_HEADER_SIZE"
    using assms(9,10) by (auto simp: FUSE_MIN_READ_BUFFER_def FUSE_BUFFER_HEADER_SIZE_def)
  ultimately show thesis
    using that s'(2-4) fields_of_init [OF n, of s inflags f ?c] fields_of_message(1) [of 0 "r_unique q" "[?m]" 12]
      fields_of_message(1) [of 0 "r_unique q" "[?m]" 20] by simp
qed


section \<open>An INIT request\<close>

definition demo_init :: bytes where
  "demo_init = w32 7 @ w32 38 @ w32 0x20000 @ w32 0x73FFFFFB @ w32 0 @ replicate 44 0"

definition demo_mount :: session where
  "demo_mount = demo_session\<lparr>got_init := False, req_heap := [3 \<mapsto> fresh_req 77 0 0 1]\<rparr>"

lemma demo_init_fields:
  "u32_at demo_init 4 = Some 38" "u32_at demo_init 12 = Some 0x73FFFFFB" "u32_at demo_init 0 = Some 7"
  "u32_at demo_init 8 = Some 0x20000"
  by (simp_all add: demo_init_def wire)

lemma demo_init_flags: "init_in_flags demo_init = Some 0x73FFFFFB"
proof -
  have "u32_at demo_init 16 = Some 0" by (simp add: demo_init_def wire)
  then show ?thesis by (simp add: init_in_flags_def demo_init_fields)
qed

lemma demo_offer:
  obtains s1 where "do_init 3 0 demo_init demo_mount = Some ([(3, LL_init)], s1)"
    "and (want (conn s1)) (not (capable (conn s1))) = 0" "max_read (conn s1) = 0" "proto_minor (conn s1) = 38"
    "max_write (conn s1) = 0x20000"
proof -
  let ?s = "demo_mount\<lparr>conn := demo_conn\<lparr>proto_major := 7, proto_minor := 38, capable := 0, want := 0\<rparr>\<rparr>"
  obtain c sz where c: "take_offer demo_init 38 ?s (conn ?s) = Some (c, sz)" "max_write c = 0x20000" "sz = 0x21000"
    by (simp add: take_offer_def demo_init_fields demo_init_flags Let_def demo_conn_def demo_mount_def demo_session_def
      FUSE_DEFAULT_MAX_PAGES_PER_REQ_def FUSE_BUFFER_HEADER_SIZE_def)
  then obtain s1 where s1: "do_init_offer 38 demo_init ?s = Some s1" "max_write (conn s1) = 0x20000" "has_op s1 = fuse_path_ops"
    by (auto simp: do_init_offer_def Let_def FUSE_MIN_READ_BUFFER_def FUSE_BUFFER_HEADER_SIZE_def demo_mount_def demo_session_def)
  have "do_init 3 0 demo_init demo_mount = Some ([(3, LL_init)], s1)"
    using s1 by (simp add: do_init_def demo_init_fields Let_def invoke_def fuse_path_ops_def demo_mount_def demo_session_def demo_conn_def)
  moreover have "and (want (conn s1)) (not (capable (conn s1))) = 0" "max_read (conn s1) = 0" "proto_minor (conn s1) = 38"
    by (rule offer_facts [OF s1(1)]; simp add: demo_conn_def)+
  ultimately show thesis using that s1(2) by blast
qed

section \<open>Properties\<close>

text \<open>
  C19. The session agrees with the kernel.  After the file system's \<open>init\<close>, which may set what it wants
  and lower the size of writes, the INIT request is answered in one of two ways.  If \<open>init\<close> wants a
  feature the kernel has not offered, or a read size other than the one of the mount, the answer is EPROTO
  and the session is exited.  Otherwise every flag sent back was sent by the kernel, apart from the one for
  big writes; the size of writes that is promised is the one the session holds, and the buffer requests
  are read into is exactly a header longer; and the limits on background requests fit their fields of 16
  bits and are in order.
\<close>
theorem init_agreement:
  assumes "do_init r nid m s = Some ([(r, LL_init)], s1)" "u32_at m 4 = Some ver" "6 \<le> ver" "u32_at m 12 = Some f"
    and "capable c = capable (conn s1)" "proto_minor c = ver" "max_write c \<le> max_write (conn s1)"
    and "req_heap s r = Some q" "\<forall>ch. r_ch q = Some ch \<longrightarrow> 0 < chan_ctr s ch" "write_results s = []"
  shows "\<exists>s2 msg. do_init_finish r m (s1\<lparr>conn := c\<rparr>) = Some ([], s2) \<and> sent s2 = sent s @ [(r_ch q, msg)] \<and>
    (if and (want c) (not (capable c)) \<noteq> 0 \<or> max_read c \<noteq> mo_max_read s
     then exited s2 \<and> u32_at msg 4 = Some (of_int (- EPROTO))
     else (\<exists>flags. u32_at msg 28 = Some flags \<and> (\<forall>n. bit flags n \<longrightarrow> bit f n \<or> n = 5)) \<and>
       u32_at msg 36 = Some (max_write c) \<and> bufsize s2 = unat (max_write c) + FUSE_BUFFER_HEADER_SIZE \<and>
       (13 \<le> ver \<longrightarrow> max_background (conn s2) < 2 ^ 16 \<and> congestion_threshold (conn s2) \<le> max_background (conn s2)))"
    (is "\<exists>s2 msg. _ \<and> _ \<and> (if ?bad then _ else _)")
proof -
  let ?s = "s1\<lparr>conn := c\<rparr>"
  obtain inflags where o: "init_in_flags m = Some inflags"
      "\<And>x. has_bit (capable c) x \<Longrightarrow> offered inflags x"
      "FUSE_MIN_READ_BUFFER \<le> bufsize s1" "unat (max_write (conn s1)) \<le> bufsize s1 - FUSE_BUFFER_HEADER_SIZE"
    and k: "req_heap s1 = req_heap s" "chan_ctr s1 = chan_ctr s" "write_results s1 = write_results s" "sent s1 = sent s"
      "mo_max_read s1 = mo_max_read s"
    by (rule init_called [OF assms(1-3)], erule offer_facts [OF _ assms(3)]) (use assms(5) in auto)
  have l: "live_req ?s r q" "write_results ?s = []" using assms k by (simp_all add: live_req_def)
  have w: "unat (max_write c) \<le> bufsize s1 - FUSE_BUFFER_HEADER_SIZE"
    using o(4) assms(7) by (simp add: word_le_nat_alt)
  show ?thesis
  proof (cases ?bad)
    case True
    then obtain s2 where "do_init_finish r m ?s = Some ([], s2)" "exited s2"
        "sent s2 = sent s @ [(r_ch q, message (- EPROTO) (r_unique q) [])]"
      using init_refused [OF l] k by auto
    then show ?thesis using True message_fields(3) [of "- EPROTO" "r_unique q" "[]"] by auto
  next
    case False
    then obtain s2 msg where "do_init_finish r m ?s = Some ([], s2)" "sent s2 = sent s @ [(r_ch q, msg)]"
        "u32_at msg 28 = Some (ucast (init_out_flags inflags f (want c)))" "u32_at msg 36 = Some (max_write c)"
        "bufsize s2 = unat (max_write c) + FUSE_BUFFER_HEADER_SIZE" "conn s2 = init_background c"
      using init_agreed [OF l _ assms(2,3) _ o(1) assms(4)] assms(6) o(3) w k by auto
    moreover have "n = 5 \<or> bit f n" if "bit (ucast (init_out_flags inflags f (want c)) :: u32) n" for n
      using that False out_flags_offered(1) [OF o(1) assms(4) _ o(2)] by (auto simp: bit_ucast_iff)
    ultimately show ?thesis using False init_background_limits [of c] assms(6) by auto
  qed
qed

theorem init_agreement_witness:
  "\<exists>s1 s2 msg. do_init 3 0 demo_init demo_mount = Some ([(3, LL_init)], s1) \<and>
     do_init_finish 3 demo_init (s1\<lparr>conn := (conn s1)\<lparr>max_write := 0x8000\<rparr>\<rparr>) = Some ([], s2) \<and>
     sent s2 = [(None, msg)] \<and> u32_at msg 36 = Some 0x8000 \<and> bufsize s2 = 0x9000"
proof -
  obtain s1 where s1: "do_init 3 0 demo_init demo_mount = Some ([(3, LL_init)], s1)"
      "and (want (conn s1)) (not (capable (conn s1))) = 0" "max_read (conn s1) = 0" "proto_minor (conn s1) = 38"
      "max_write (conn s1) = 0x20000"
    by (rule demo_offer)
  let ?c = "(conn s1)\<lparr>max_write := 0x8000\<rparr>"
  obtain s2 msg where "do_init_finish 3 demo_init (s1\<lparr>conn := ?c\<rparr>) = Some ([], s2)" "sent s2 = sent demo_mount @ [(None, msg)]"
      "u32_at msg 36 = Some (max_write ?c)" "bufsize s2 = unat (max_write ?c) + FUSE_BUFFER_HEADER_SIZE"
    using init_agreement [OF s1(1) demo_init_fields(1) _ demo_init_fields(2), of ?c "fresh_req 77 0 0 1"] s1(2-5)
    by (auto simp: demo_mount_def demo_session_def fresh_req_def)
  then show ?thesis using s1(1)
    by (intro exI [of _ s1] exI [of _ s2] exI [of _ msg])
      (simp add: demo_mount_def demo_session_def FUSE_BUFFER_HEADER_SIZE_def)
qed

text \<open>
  C32. A feature that never takes effect.  When the kernel offers to run directory operations in parallel
  (\<open>FUSE_PARALLEL_DIROPS\<close>), \<open>do_init\<close> wants it by default, and an \<open>init\<close> that keeps the wish is answered
  with success; the flags sent back do not hold the bit, so that the kernel goes on without the feature.
\<close>
theorem parallel_dirops_not_requested:
  assumes "do_init r nid m s = Some ([(r, LL_init)], s1)" "u32_at m 4 = Some ver" "6 \<le> ver" "u32_at m 12 = Some f" "bit f 18"
    and "max_read (conn s) = mo_max_read s"
    and "req_heap s r = Some q" "\<forall>ch. r_ch q = Some ch \<longrightarrow> 0 < chan_ctr s ch" "write_results s = []"
  shows "has_bit (want (conn s1)) FUSE_CAP_PARALLEL_DIROPS \<and>
    (\<exists>s2 msg flags. do_init_finish r m s1 = Some ([], s2) \<and> sent s2 = sent s @ [(r_ch q, msg)] \<and>
       u32_at msg 28 = Some flags \<and> \<not> bit flags 18)"
    (is "?wants \<and> _")
proof -
  obtain s0 where s0: "do_init_offer ver m s0 = Some s1" "capable (conn s0) = 0" "want (conn s0) = 0"
    "proto_minor (conn s0) = ver" "max_read (conn s0) = max_read (conn s)" "req_heap s0 = req_heap s"
    "chan_ctr s0 = chan_ctr s" "write_results s0 = write_results s" "sent s0 = sent s" "mo_max_read s0 = mo_max_read s"
    by (rule init_called [OF assms(1-3)])
  obtain inflags where o: "init_in_flags m = Some inflags"
      "\<And>x. has_bit (capable (conn s1)) x \<Longrightarrow> offered inflags x"
      "\<And>x. has_bit (or_caps inflags 0) x \<Longrightarrow> has_bit (capable (conn s1)) x"
      "FUSE_MIN_READ_BUFFER \<le> bufsize s1" "unat (max_write (conn s1)) \<le> bufsize s1 - FUSE_BUFFER_HEADER_SIZE"
      "\<And>cap. (True, cap) \<in> set (ll_defaults s0) \<Longrightarrow> has_bit (capable (conn s1)) cap \<Longrightarrow> has_bit cap cap \<Longrightarrow>
         has_bit (want (conn s1)) cap"
    and k: "and (want (conn s1)) (not (capable (conn s1))) = 0" "req_heap s1 = req_heap s" "chan_ctr s1 = chan_ctr s"
      "write_results s1 = write_results s" "sent s1 = sent s" "mo_max_read s1 = mo_max_read s"
      "proto_minor (conn s1) = ver" "max_read (conn s1) = max_read (conn s)"
    by (rule offer_facts [OF s0(1) assms(3) s0(2)]) (use s0 in auto)
  have l: "live_req s1 r q" "write_results s1 = []" using assms k by (simp_all add: live_req_def)
  have d: "FUSE_PARALLEL_DIROPS = 2 ^ 18" "has_bit FUSE_CAP_PARALLEL_DIROPS FUSE_CAP_PARALLEL_DIROPS"
    by (simp_all add: flag_values cap_values has_bit_def)
  have mem: "(FUSE_PARALLEL_DIROPS, FUSE_CAP_PARALLEL_DIROPS) \<in> set offers"
    unfolding offers_def list.set by blast
  have "bit inflags 18" using low_bits [OF o(1) assms(4)] assms(5) by simp
  then have "and inflags FUSE_PARALLEL_DIROPS \<noteq> 0" unfolding d and_power_bit .
  then have "has_bit (or_caps inflags 0) FUSE_CAP_PARALLEL_DIROPS"
    unfolding or_caps_def by (rule fold_caps_adds [OF mem _ d(2)])
  then have ?wants by (intro o(6) o(3) d(2)) (simp add: ll_defaults_def)
  moreover obtain s2 msg where "do_init_finish r m s1 = Some ([], s2)" "sent s2 = sent s1 @ [(r_ch q, msg)]"
      "u32_at msg 28 = Some (ucast (init_out_flags inflags f (want (conn s1))))"
    by (rule init_agreed [OF l _ assms(2,3) k(7) o(1) assms(4) o(5,4)]) (use k assms(6) in auto)
  moreover have "\<not> bit (init_out_flags inflags f (want (conn s1))) 18"
    using out_flags_offered(2) [OF o(1) assms(4) k(1) o(2), of 18] by auto
  ultimately show ?thesis using k(5) by (auto simp: bit_ucast_iff)
qed

theorem parallel_dirops_not_requested_witness:
  "\<exists>s1 s2 msg flags. do_init 3 0 demo_init demo_mount = Some ([(3, LL_init)], s1) \<and> bit (0x73FFFFFB :: u32) 18 \<and>
     has_bit (want (conn s1)) FUSE_CAP_PARALLEL_DIROPS \<and>
     do_init_finish 3 demo_init s1 = Some ([], s2) \<and> sent s2 = [(None, msg)] \<and> u32_at msg 28 = Some flags \<and> \<not> bit flags 18"
proof -
  obtain s1 where s1: "do_init 3 0 demo_init demo_mount = Some ([(3, LL_init)], s1)" by (rule demo_offer)
  have b: "bit (0x73FFFFFB :: u32) 18" by simp
  show ?thesis
    using parallel_dirops_not_requested [OF s1 demo_init_fields(1) _ demo_init_fields(2) b, of "fresh_req 77 0 0 1"] s1 b
    by (auto simp: demo_mount_def demo_session_def fresh_req_def demo_conn_def)
qed

end
