(* ===== verification/InterruptRuns.thy ===== *)
theory InterruptRuns
  imports EndToEnd
begin

text \<open>
  Requests and their interrupts in any interleaving: a run is a sequence of events, each one the part of
  a thread between two points where \<open>se->lock\<close> is given up.  The requests have no channel of their own
  (\<open>clone_fd\<close> is off).
\<close>

section \<open>Runs\<close>

text \<open>
  An interrupt that has found its request is in progress until it has run the request's function: the
  request, the interrupt and whether the request is marked.
\<close>

type_synonym flight = "nat \<times> nat \<times> bool"

datatype happening =
  Arrive u64                       \<comment> \<open>a request with this number\<close>
| Interrupt u64                    \<comment> \<open>an interrupt of the request with this number\<close>
| Mark nat                         \<comment> \<open>an interrupt in progress goes on\<close>
| Finish nat
| Answer nat int "bytes list"      \<comment> \<open>a handler answers a request it has\<close>
| Hook nat "nat option"            \<comment> \<open>a handler sets the interrupt function\<close>

definition arrive :: "u64 \<Rightarrow> session \<Rightarrow> session option" where
  "arrive u s =
     (case fuse_ll_alloc_req s of
        (None, s1) \<Rightarrow> Some (snd (fuse_send_msg None (- ENOMEM) u [] s1))
      | (Some r, s1) \<Rightarrow> admit r (upd_req r (\<lambda>q. q\<lparr>r_unique := u\<rparr>) s1))"

definition interrupt :: "u64 \<Rightarrow> session \<Rightarrow> (flight list \<times> session) option" where
  "interrupt u s =
     (case fuse_ll_alloc_req s of
        (None, s1) \<Rightarrow> Some ([], snd (fuse_send_msg None (- ENOMEM) 0 [] s1))
      | (Some r, s1) \<Rightarrow>
          do { (a, s2) \<leftarrow> start_interrupt r (upd_req r (\<lambda>q. q\<lparr>r_u := U_i u\<rparr>) s1);
               Some (case a of None \<Rightarrow> ([], s2) | Some c \<Rightarrow> ([(c, r, False)], s2)) })"

text \<open>An event that cannot happen in a state, such as an answer to a request no handler has, is left out.\<close>

fun occur :: "happening \<Rightarrow> session \<times> flight list \<Rightarrow> (session \<times> flight list) option" where
  "occur (Arrive u) (s, fl) = map_option (\<lambda>s1. (s1, fl)) (arrive u s)"
| "occur (Interrupt u) (s, fl) = map_option (\<lambda>(f, s1). (s1, fl @ f)) (interrupt u s)"
| "occur (Mark k) (s, fl) =
     (if k < length fl \<and> \<not> snd (snd (fl ! k))
      then (case fl ! k of (c, r, b) \<Rightarrow> map_option (\<lambda>s1. (s1, fl[k := (c, r, True)])) (mark_interrupted c s))
      else Some (s, fl))"
| "occur (Finish k) (s, fl) =
     (if k < length fl \<and> snd (snd (fl ! k))
      then (case fl ! k of (c, r, b) \<Rightarrow> map_option (\<lambda>s1. (s1, take k fl @ drop (Suc k) fl)) (end_interrupt c r s))
      else Some (s, fl))"
| "occur (Answer r err parts) (s, fl) =
     (if r \<in> set (se_list s) then map_option (\<lambda>(res, s1). (s1, fl)) (send_reply_iov r err parts s) else Some (s, fl))"
| "occur (Hook r f) (s, fl) =
     (if r \<in> set (se_list s) then map_option (\<lambda>s1. (s1, fl)) (fuse_req_interrupt_func r f s) else Some (s, fl))"

fun occur_all :: "happening list \<Rightarrow> session \<times> flight list \<Rightarrow> (session \<times> flight list) option" where
  "occur_all [] st = Some st"
| "occur_all (e # es) st = do { st1 \<leftarrow> occur e st; occur_all es st1 }"

text \<open>
  A system that is driven by events: every event is taken in every state the invariant allows, and what
  has been asked of it is all that it has done.
\<close>

locale event_system =
  fixes take_event :: "'e \<Rightarrow> 's \<Rightarrow> 's option" and take_all :: "'e list \<Rightarrow> 's \<Rightarrow> 's option"
    and asks :: "'e \<Rightarrow> 'a set" and inv :: "'a set \<Rightarrow> 's \<Rightarrow> bool"
  assumes take_none: "take_all [] s = Some s"
    and take_one: "take_event e s = Some s' \<Longrightarrow> take_all (e # es) s = take_all es s'"
    and keeps: "inv A s \<Longrightarrow> \<exists>s'. take_event e s = Some s' \<and> inv (A \<union> asks e) s'"
begin

lemma takes_all: "inv A s \<Longrightarrow> \<exists>s'. take_all es s = Some s' \<and> inv (A \<union> (\<Union>e \<in> set es. asks e)) s'"
proof (induction es arbitrary: A s)
  case Nil
  then show ?case by (simp add: take_none)
next
  case (Cons e es)
  obtain s1 where s1: "take_event e s = Some s1" "inv (A \<union> asks e) s1" using keeps [OF Cons.prems] by blast
  then show ?case using Cons.IH [OF s1(2)] take_one [OF s1(1)] by (simp add: Un_assoc)
qed

end

section \<open>The invariant\<close>

text \<open>The references to a request: one while it is active and one for every interrupt in progress.\<close>

definition weight :: "nat list \<Rightarrow> flight list \<Rightarrow> nat \<Rightarrow> nat" where
  "weight L fl r = (if r \<in> set L then 1 else 0) + count_list (map fst fl) r"

definition intr_ids :: "nat list \<Rightarrow> flight list \<Rightarrow> nat list" where
  "intr_ids P fl = P @ map (fst \<circ> snd) fl"

definition counted :: "(nat \<Rightarrow> fuse_req option) \<Rightarrow> nat list \<Rightarrow> nat list \<Rightarrow> flight list \<Rightarrow> nat \<Rightarrow> bool" where
  "counted h L P fl r \<longleftrightarrow>
     (case h r of
        None \<Rightarrow> weight L fl r = 0 \<and> r \<notin> set (intr_ids P fl)
      | Some q \<Rightarrow> r_ch q = None \<and>
          (if r \<in> set (intr_ids P fl) then weight L fl r = 0 \<and> r_ctr q = 1 \<and> (\<exists>u. r_u q = U_i u)
           else 0 < weight L fl r \<and> r_ctr q = int (weight L fl r) \<and> (\<exists>f. r_u q = U_ni f)))"

text \<open>The number an interrupt names, and the numbers of requests.\<close>

definition names :: "(nat \<Rightarrow> fuse_req option) \<Rightarrow> nat \<Rightarrow> u64 \<Rightarrow> bool" where
  "names h i u \<longleftrightarrow> (\<exists>q. h i = Some q \<and> r_u q = U_i u)"

definition numbered :: "(nat \<Rightarrow> fuse_req option) \<Rightarrow> nat \<Rightarrow> u64 \<Rightarrow> bool" where
  "numbered h r u \<longleftrightarrow> (\<exists>q. h r = Some q \<and> r_unique q = u)"

definition orderly :: "u64 set \<Rightarrow> (nat \<Rightarrow> fuse_req option) \<Rightarrow> nat list \<Rightarrow> nat list \<Rightarrow> nat \<Rightarrow> flight list \<Rightarrow> bool" where
  "orderly A h L P n fl \<longleftrightarrow>
     distinct L \<and> distinct (intr_ids P fl) \<and> (\<forall>r. counted h L P fl r) \<and> (\<forall>r \<ge> n. h r = None) \<and>
     (\<forall>a \<in> set L. \<forall>i \<in> set P. \<forall>u. numbered h a u \<longrightarrow> \<not> names h i u) \<and>
     (\<forall>i \<in> set P. \<forall>j \<in> set P. \<forall>u. names h i u \<longrightarrow> names h j u \<longrightarrow> i = j) \<and>
     (\<forall>i \<in> set P. \<forall>u. names h i u \<longrightarrow> u \<in> A) \<and>
     (\<forall>c r b q. (c, r, b) \<in> set fl \<and> h c = Some q \<longrightarrow> r_unique q \<in> A \<and> (b \<longrightarrow> r_interrupted q)) \<and>
     (\<forall>r q. h r = Some q \<and> r_interrupted q \<longrightarrow> r_unique q \<in> A)"

lemma orderlyI:
  assumes "distinct L" "distinct (intr_ids P fl)" "\<And>r. counted h L P fl r" "\<And>r. n \<le> r \<Longrightarrow> h r = None"
    and "\<And>a i u. a \<in> set L \<Longrightarrow> i \<in> set P \<Longrightarrow> numbered h a u \<Longrightarrow> \<not> names h i u"
    and "\<And>i j u. i \<in> set P \<Longrightarrow> j \<in> set P \<Longrightarrow> names h i u \<Longrightarrow> names h j u \<Longrightarrow> i = j"
    and "\<And>i u. i \<in> set P \<Longrightarrow> names h i u \<Longrightarrow> u \<in> A"
    and "\<And>c r b q. (c, r, b) \<in> set fl \<Longrightarrow> h c = Some q \<Longrightarrow> r_unique q \<in> A \<and> (b \<longrightarrow> r_interrupted q)"
    and "\<And>r q. h r = Some q \<Longrightarrow> r_interrupted q \<Longrightarrow> r_unique q \<in> A"
  shows "orderly A h L P n fl"
  unfolding orderly_def
  by (intro conjI ballI allI impI) (simp_all add: assms, (elim conjE, drule (1) assms(8), simp)+, metis assms(9))

lemma orderlyD:
  assumes "orderly A h L P n fl"
  shows "distinct L" "distinct (intr_ids P fl)" "counted h L P fl r" "n \<le> r \<Longrightarrow> h r = None"
    "a \<in> set L \<Longrightarrow> i \<in> set P \<Longrightarrow> numbered h a u \<Longrightarrow> \<not> names h i u"
    "i \<in> set P \<Longrightarrow> j \<in> set P \<Longrightarrow> names h i u \<Longrightarrow> names h j u \<Longrightarrow> i = j"
    "i \<in> set P \<Longrightarrow> names h i u \<Longrightarrow> u \<in> A"
    "(c, k, b) \<in> set fl \<Longrightarrow> h c = Some q \<Longrightarrow> r_unique q \<in> A \<and> (b \<longrightarrow> r_interrupted q)"
    "h r = Some q' \<Longrightarrow> r_interrupted q' \<Longrightarrow> r_unique q' \<in> A"
  using assms unfolding orderly_def by - (elim conjE, (simp; fail | blast))+

lemma orderly_mono: "orderly A h L P n fl \<Longrightarrow> A \<subseteq> B \<Longrightarrow> orderly B h L P n fl"
  unfolding orderly_def by (elim conjE, intro conjI) blast+

lemma orderly_next: "orderly A h L P n fl \<Longrightarrow> n \<le> n' \<Longrightarrow> orderly A h L P n' fl"
  unfolding orderly_def by (elim conjE, intro conjI) (assumption | simp)+

lemma counted_cong:
  "counted h L P fl r \<Longrightarrow> h' r = h r \<Longrightarrow> weight L' fl' r = weight L fl r \<Longrightarrow>
   (r \<in> set (intr_ids P' fl') \<longleftrightarrow> r \<in> set (intr_ids P fl)) \<Longrightarrow> counted h' L' P' fl' r"
  by (cases "h r") (simp_all add: counted_def)

text \<open>Active requests, pending interrupts and interrupts in progress are live, and what they are.\<close>

lemma weight_active: "r \<in> set L \<Longrightarrow> 0 < weight L fl r" by (simp add: weight_def)

lemma weight_0: "weight L fl r = 0 \<longleftrightarrow> r \<notin> set L \<and> r \<notin> fst ` set fl"
  by (simp add: weight_def count_list_0_iff)

lemma weight_flight: "(r, k, b) \<in> set fl \<Longrightarrow> 0 < weight L fl r"
  using weight_0 [of L fl r] by force

lemma active_live:
  assumes "orderly A h L P n fl" "0 < weight L fl r"
  obtains q f where "h r = Some q" "r_ch q = None" "r_ctr q = int (weight L fl r)" "r_u q = U_ni f" "r \<notin> set (intr_ids P fl)" "r < n"
proof -
  obtain q where q: "h r = Some q" using orderlyD(3) [OF assms(1), of r] assms(2) by (cases "h r") (auto simp: counted_def)
  then have "r < n" using orderlyD(4) [OF assms(1), of r] by (cases "n \<le> r") auto
  then show thesis using that [OF q] orderlyD(3) [OF assms(1), of r] assms(2) q by (auto simp: counted_def split: if_splits)
qed

lemma intr_live:
  assumes "orderly A h L P n fl" "i \<in> set (intr_ids P fl)"
  obtains q u where "h i = Some q" "r_ch q = None" "r_ctr q = 1" "r_u q = U_i u" "weight L fl i = 0" "i < n"
proof -
  obtain q where q: "h i = Some q" using orderlyD(3) [OF assms(1), of i] assms(2) by (cases "h i") (auto simp: counted_def)
  then have "i < n" using orderlyD(4) [OF assms(1), of i] by (cases "n \<le> i") auto
  then show thesis using that [OF q] orderlyD(3) [OF assms(1), of i] assms(2) q by (auto simp: counted_def split: if_splits)
qed

lemma fresh_not_used:
  assumes "orderly A h L P n fl"
  shows "n \<notin> set L" "n \<notin> fst ` set fl" "n \<notin> set (intr_ids P fl)" "h n = None"
  using orderlyD(3) [OF assms, of n] orderlyD(4) [OF assms, of n] by (simp_all add: counted_def weight_0)

section \<open>Steps on the heap\<close>

lemma drop_pending:
  assumes o: "orderly A h L P n fl" and i: "i \<in> set P"
  shows "orderly A (h(i := None)) L (remove1 i P) n fl"
proof (rule orderlyI)
  have d: "distinct P" "i \<notin> set (map (fst \<circ> snd) fl)" using orderlyD(2) [OF o] i by (auto simp: intr_ids_def)
  then have p: "set (remove1 i P) = set P - {i}" by simp
  have ii: "i \<in> set (intr_ids P fl)" using i by (simp add: intr_ids_def)
  obtain q u where iw: "h i = Some q" "weight L fl i = 0" by (rule intr_live [OF o ii])
  show "counted (h(i := None)) L (remove1 i P) fl r" for r
  proof (cases "r = i")
    case True
    then show ?thesis using iw(2) d p by (auto simp: counted_def intr_ids_def)
  next
    case False
    show ?thesis by (rule counted_cong [OF orderlyD(3) [OF o]]) (use False p in \<open>auto simp: intr_ids_def\<close>)
  qed
  show "distinct (intr_ids (remove1 i P) fl)" using orderlyD(2) [OF o] p by (auto simp: intr_ids_def)
  show "distinct L" by (rule orderlyD [OF o])
  show "(h(i := None)) r = None" if "n \<le> r" for r using orderlyD(4) [OF o that] by simp
  show "\<not> names (h(i := None)) j u" if "a \<in> set L" "j \<in> set (remove1 i P)" "numbered (h(i := None)) a u" for a j u
    using that orderlyD(5) [OF o, of a j u] p by (auto simp: names_def numbered_def split: if_splits)
  show "j = k" if "j \<in> set (remove1 i P)" "k \<in> set (remove1 i P)" "names (h(i := None)) j u" "names (h(i := None)) k u" for j k u
    using that orderlyD(6) [OF o, of j k u] p by (auto simp: names_def split: if_splits)
  show "u \<in> A" if "j \<in> set (remove1 i P)" "names (h(i := None)) j u" for j u
    using that orderlyD(7) [OF o, of j u] p by (auto simp: names_def split: if_splits)
qed (use orderlyD(8,9) [OF o] in \<open>auto split: if_splits\<close>)

text \<open>A new request becomes active, or a new interrupt waits or is in progress.\<close>

lemma enter_active:
  assumes o: "orderly A h L P n fl" and q: "r_ctr q = 1" "r_ch q = None" "r_u q = U_ni f"
    and u: "\<And>i. i \<in> set P \<Longrightarrow> \<not> names h i (r_unique q)" "r_interrupted q \<Longrightarrow> r_unique q \<in> A"
  shows "orderly A (h(n \<mapsto> q)) (L @ [n]) P (Suc n) fl"
proof (rule orderlyI)
  note new = fresh_not_used [OF o]
  have names: "names (h(n \<mapsto> q)) i v \<longleftrightarrow> names h i v" if "i \<in> set P" for i v
    using that new(3) by (auto simp: names_def intr_ids_def)
  have num: "numbered (h(n \<mapsto> q)) a v \<longleftrightarrow> (if a = n then v = r_unique q else numbered h a v)" for a v
    by (auto simp: numbered_def)
  show "counted (h(n \<mapsto> q)) (L @ [n]) P fl r" for r
  proof (cases "r = n")
    case True
    have "weight (L @ [n]) fl n = 1" using new by (simp add: weight_def count_list_0_iff)
    then show ?thesis using True q new(3) by (simp add: counted_def)
  next
    case False
    show ?thesis by (rule counted_cong [OF orderlyD(3) [OF o]]) (use False in \<open>simp_all add: weight_def\<close>)
  qed
  show "distinct (L @ [n])" using orderlyD(1) [OF o] new by simp
  show "distinct (intr_ids P fl)" by (rule orderlyD [OF o])
  show "(h(n \<mapsto> q)) r = None" if "Suc n \<le> r" for r using orderlyD(4) [OF o, of r] that by simp
  show "\<not> names (h(n \<mapsto> q)) i v" if "a \<in> set (L @ [n])" "i \<in> set P" "numbered (h(n \<mapsto> q)) a v" for a i v
    using that u(1) orderlyD(5) [OF o, of a i v] by (auto simp: names num split: if_splits)
  show "i = j" if "i \<in> set P" "j \<in> set P" "names (h(n \<mapsto> q)) i v" "names (h(n \<mapsto> q)) j v" for i j v
    using that orderlyD(6) [OF o, of i j v] by (simp add: names)
  show "v \<in> A" if "i \<in> set P" "names (h(n \<mapsto> q)) i v" for i v
    using that orderlyD(7) [OF o, of i v] by (simp add: names)
  show "r_unique p \<in> A \<and> (b \<longrightarrow> r_interrupted p)" if "(c, k, b) \<in> set fl" "(h(n \<mapsto> q)) c = Some p" for c k b p
    using that orderlyD(8) [OF o that(1)] new(2) by (force split: if_splits)
qed (use u(2) orderlyD(9) [OF o] in \<open>auto split: if_splits\<close>)

lemma enter_pending:
  assumes o: "orderly A h L P n fl" and q: "r_ctr q = 1" "r_ch q = None" "r_u q = U_i u" "\<not> r_interrupted q"
    and u: "\<And>a. a \<in> set L \<Longrightarrow> \<not> numbered h a u" "\<And>i. i \<in> set P \<Longrightarrow> \<not> names h i u" "u \<in> A"
  shows "orderly A (h(n \<mapsto> q)) L (P @ [n]) (Suc n) fl"
proof (rule orderlyI)
  note new = fresh_not_used [OF o]
  have names: "names (h(n \<mapsto> q)) i v \<longleftrightarrow> (if i = n then v = u else names h i v)" for i v
    using q(3) by (auto simp: names_def)
  have num: "numbered (h(n \<mapsto> q)) a v \<longleftrightarrow> numbered h a v" if "a \<in> set L" for a v
    using that new(1) by (auto simp: numbered_def)
  show "counted (h(n \<mapsto> q)) L (P @ [n]) fl r" for r
  proof (cases "r = n")
    case True
    then show ?thesis using q new by (simp add: counted_def weight_0 intr_ids_def)
  next
    case False
    show ?thesis by (rule counted_cong [OF orderlyD(3) [OF o]]) (use False in \<open>simp_all add: intr_ids_def\<close>)
  qed
  show "distinct L" by (rule orderlyD [OF o])
  show "distinct (intr_ids (P @ [n]) fl)" using orderlyD(2) [OF o] new(3) by (auto simp: intr_ids_def)
  show "(h(n \<mapsto> q)) r = None" if "Suc n \<le> r" for r using orderlyD(4) [OF o, of r] that by simp
  show "\<not> names (h(n \<mapsto> q)) i v" if "a \<in> set L" "i \<in> set (P @ [n])" "numbered (h(n \<mapsto> q)) a v" for a i v
    using that u(1) orderlyD(5) [OF o, of a i v] by (auto simp: names num split: if_splits)
  show "i = j" if "i \<in> set (P @ [n])" "j \<in> set (P @ [n])" "names (h(n \<mapsto> q)) i v" "names (h(n \<mapsto> q)) j v" for i j v
    using that u(2) orderlyD(6) [OF o, of i j v] by (auto simp: names split: if_splits)
  show "v \<in> A" if "i \<in> set (P @ [n])" "names (h(n \<mapsto> q)) i v" for i v
    using that u(3) orderlyD(7) [OF o, of i v] by (auto simp: names split: if_splits)
  show "r_unique p \<in> A \<and> (b \<longrightarrow> r_interrupted p)" if "(c, k, b) \<in> set fl" "(h(n \<mapsto> q)) c = Some p" for c k b p
    using that orderlyD(8) [OF o that(1)] new(2) by (force split: if_splits)
qed (use q(4) orderlyD(9) [OF o] in \<open>auto split: if_splits\<close>)

text \<open>
  The reference counts change, or what an entry holds: \<open>names\<close> and \<open>numbered\<close> stay what they are.
\<close>

lemma same_facts:
  assumes "\<And>r p. h' r = Some p \<Longrightarrow> \<exists>q. h r = Some q \<and> r_unique p = r_unique q \<and> (\<forall>u. r_u p = U_i u \<longrightarrow> r_u q = U_i u)"
  shows "names h' i u \<Longrightarrow> names h i u" "numbered h' a u \<Longrightarrow> numbered h a u"
  using assms by (force simp: names_def numbered_def)+

lemma enter_flight:
  assumes o: "orderly A h L P n fl" and q: "r_ctr q = 1" "r_ch q = None" "r_u q = U_i u" "\<not> r_interrupted q"
    and c: "c \<in> set L" "h c = Some p" "r_unique p \<in> A"
  shows "orderly A ((h(n \<mapsto> q))(c \<mapsto> p\<lparr>r_ctr := r_ctr p + 1\<rparr>)) L P (Suc n) (fl @ [(c, n, False)])"
    (is "orderly A ?h L P _ ?fl")
proof (rule orderlyI)
  note new = fresh_not_used [OF o]
  have cn: "c \<noteq> n" using c(1) new(1) by auto
  obtain f where ca: "r_ch p = None" "r_ctr p = int (weight L fl c)" "r_u p = U_ni f" "c \<notin> set (intr_ids P fl)"
    using active_live [OF o weight_active [OF c(1)]] c(2) by (metis option.inject)
  have ids: "set (intr_ids P ?fl) = insert n (set (intr_ids P fl))" by (auto simp: intr_ids_def)
  show "counted ?h L P ?fl r" for r
  proof -
    consider "r = n" | "r = c" | "r \<noteq> n" "r \<noteq> c" by blast
    then show ?thesis
    proof cases
      case 1
      then show ?thesis using q new cn by (simp add: counted_def weight_0 ids)
    next
      case 2
      then show ?thesis using ca cn by (simp add: counted_def weight_def ids)
    next
      case 3
      show ?thesis by (rule counted_cong [OF orderlyD(3) [OF o]]) (use 3 ids in \<open>simp_all add: weight_def\<close>)
    qed
  qed
  have names: "names ?h i v \<longleftrightarrow> names h i v" if "i \<in> set P" for i v
    using that new(3) ca(3) c(2) by (auto simp: names_def intr_ids_def)
  have num: "numbered ?h a v \<longleftrightarrow> numbered h a v" if "a \<in> set L" for a v
    using that new(1) c(2) by (auto simp: numbered_def)
  show "distinct L" by (rule orderlyD [OF o])
  show "distinct (intr_ids P ?fl)" using orderlyD(2) [OF o] new(3) by (auto simp: intr_ids_def)
  show "?h r = None" if "Suc n \<le> r" for r
  proof -
    have "c < n" using orderlyD(4) [OF o, of c] c(2) by (cases "n \<le> c") auto
    then show ?thesis using orderlyD(4) [OF o, of r] that by simp
  qed
  show "\<not> names ?h i v" if "a \<in> set L" "i \<in> set P" "numbered ?h a v" for a i v
    using that orderlyD(5) [OF o, of a i v] by (simp add: names num)
  show "i = j" if "i \<in> set P" "j \<in> set P" "names ?h i v" "names ?h j v" for i j v
    using that orderlyD(6) [OF o, of i j v] by (simp add: names)
  show "v \<in> A" if "i \<in> set P" "names ?h i v" for i v using that orderlyD(7) [OF o, of i v] by (simp add: names)
  show "r_unique p' \<in> A \<and> (b \<longrightarrow> r_interrupted p')" if "(d, k, b) \<in> set ?fl" "?h d = Some p'" for d k b p'
  proof (cases "(d, k, b) \<in> set fl")
    case True
    then show ?thesis using that(2) orderlyD(8) [OF o True] new(2) c(2) by (force split: if_splits)
  next
    case False
    then show ?thesis using that cn c(3) by auto
  qed
qed (use q(4) c(2) orderlyD(9) [OF o] in \<open>auto split: if_splits\<close>)

text \<open>An active request, or one in progress, changes what does not concern its counter.\<close>

lemma change_entry:
  assumes o: "orderly A h L P n fl" and c: "0 < weight L fl c" "h c = Some q"
    and p: "r_unique p = r_unique q" "r_ctr p = r_ctr q" "r_ch p = None" "r_u p = U_ni f"
      "r_interrupted q \<Longrightarrow> r_interrupted p" "r_interrupted p \<Longrightarrow> r_unique q \<in> A"
    and fl: "map fst fl' = map fst fl" "map (fst \<circ> snd) fl' = map (fst \<circ> snd) fl"
      "\<And>d k b. (d, k, b) \<in> set fl' \<Longrightarrow> (\<exists>b'. (d, k, b') \<in> set fl \<and> (b \<longrightarrow> b' \<or> d = c \<and> r_interrupted p))"
  shows "orderly A (h(c \<mapsto> p)) L P n fl'"
proof (rule orderlyI)
  obtain f' where ca: "r_ctr q = int (weight L fl c)" "r_u q = U_ni f'" "c \<notin> set (intr_ids P fl)" "c < n"
    using active_live [OF o c(1)] c(2) by (metis option.inject)
  have w: "weight L fl' r = weight L fl r" "set (intr_ids P fl') = set (intr_ids P fl)" for r
    by (simp_all add: weight_def intr_ids_def fl)
  have s: "names (h(c \<mapsto> p)) i u \<Longrightarrow> names h i u" "numbered (h(c \<mapsto> p)) a u \<Longrightarrow> numbered h a u" for i a u
    by (rule same_facts; use p c in \<open>auto split: if_splits\<close>)+
  show "counted (h(c \<mapsto> p)) L P fl' r" for r
  proof (cases "r = c")
    case True
    then show ?thesis using ca c(1) p by (simp add: counted_def w)
  next
    case False
    show ?thesis by (rule counted_cong [OF orderlyD(3) [OF o]]) (use False w in simp_all)
  qed
  show "distinct L" by (rule orderlyD [OF o])
  show "distinct (intr_ids P fl')" using orderlyD(2) [OF o] fl by (simp add: intr_ids_def)
  show "(h(c \<mapsto> p)) r = None" if "n \<le> r" for r using orderlyD(4) [OF o that] ca(4) that by auto
  show "\<not> names (h(c \<mapsto> p)) i u" if "a \<in> set L" "i \<in> set P" "numbered (h(c \<mapsto> p)) a u" for a i u
    using that s orderlyD(5) [OF o, of a i u] by blast
  show "i = j" if "i \<in> set P" "j \<in> set P" "names (h(c \<mapsto> p)) i u" "names (h(c \<mapsto> p)) j u" for i j u
    using that s orderlyD(6) [OF o, of i j u] by blast
  show "u \<in> A" if "i \<in> set P" "names (h(c \<mapsto> p)) i u" for i u using that s orderlyD(7) [OF o, of i u] by blast
  show "r_unique p' \<in> A \<and> (b \<longrightarrow> r_interrupted p')" if m: "(d, k, b) \<in> set fl'" "(h(c \<mapsto> p)) d = Some p'" for d k b p'
  proof -
    obtain b' where b': "(d, k, b') \<in> set fl" "b \<longrightarrow> b' \<or> d = c \<and> r_interrupted p" using fl(3) [OF m(1)] by blast
    show ?thesis using m(2) b'(2) orderlyD(8) [OF o b'(1)] p c(2) by (cases "d = c") auto
  qed
qed (use p orderlyD(9) [OF o] in \<open>auto split: if_splits\<close>)

text \<open>A reference to a request is given back; its last one frees it.  \<open>K\<close> are interrupts that are done with.\<close>

definition without_ref :: "nat \<Rightarrow> fuse_req \<Rightarrow> (nat \<Rightarrow> fuse_req option) \<Rightarrow> nat \<Rightarrow> fuse_req option" where
  "without_ref c p h = h(c := if r_ctr p = 0 then None else Some p)"

lemma drop_reference:
  assumes o: "orderly A h L P n fl" and c: "0 < weight L fl c" "h c = Some q"
    and p: "r_unique p = r_unique q" "r_ctr p = r_ctr q - 1" "r_ch p = None" "r_u p = U_ni f" "r_interrupted p = r_interrupted q"
    and w: "weight L' fl' c = weight L fl c - 1" "\<And>r. r \<noteq> c \<Longrightarrow> weight L' fl' r = weight L fl r"
    and K: "set (intr_ids P fl') = set (intr_ids P fl) - K" "K \<inter> set P = {}" "K \<subseteq> set (intr_ids P fl)"
    and d: "distinct L'" "set L' \<subseteq> set L" "distinct (intr_ids P fl')" "set fl' \<subseteq> set fl"
  shows "orderly A (without_ref c p h |` (- K)) L' P n fl'"
    (is "orderly A ?h _ _ _ _")
proof (rule orderlyI)
  obtain f' where ca: "r_ctr q = int (weight L fl c)" "r_u q = U_ni f'" "c \<notin> set (intr_ids P fl)" "c < n"
    using active_live [OF o c(1)] c(2) by (metis option.inject)
  then have cK: "c \<notin> K" using K(3) by auto
  have h: "?h r = (if r \<in> K then None else if r = c then (if r_ctr p = 0 then None else Some p) else h r)" for r
    by (auto simp: without_ref_def restrict_map_def)
  have s: "names ?h i u \<Longrightarrow> names h i u" "numbered ?h a u \<Longrightarrow> numbered h a u" for i a u
    by (rule same_facts; use p c in \<open>auto simp: h split: if_splits\<close>)+
  show "counted ?h L' P fl' r" for r
  proof -
    consider "r = c" | "r \<in> K" | "r \<noteq> c" "r \<notin> K" by blast
    then show ?thesis
    proof cases
      case 1
      then show ?thesis using ca c(1) p w(1) cK K(1) by (simp add: counted_def h)
    next
      case 2
      then have "weight L fl r = 0" using intr_live [OF o] K(3) by blast
      then show ?thesis using 2 w(2) [of r] cK K(1) by (cases "r = c") (auto simp: counted_def h)
    next
      case 3
      show ?thesis by (rule counted_cong [OF orderlyD(3) [OF o]]) (use 3 w(2) K(1) in \<open>simp_all add: h\<close>)
    qed
  qed
  show "?h r = None" if "n \<le> r" for r using orderlyD(4) [OF o that] ca(4) that by (auto simp: h)
  show "\<not> names ?h i u" if "a \<in> set L'" "i \<in> set P" "numbered ?h a u" for a i u
    using that s d(2) orderlyD(5) [OF o, of a i u] by blast
  show "i = j" if "i \<in> set P" "j \<in> set P" "names ?h i u" "names ?h j u" for i j u
    using that s orderlyD(6) [OF o, of i j u] by blast
  show "u \<in> A" if "i \<in> set P" "names ?h i u" for i u using that s orderlyD(7) [OF o, of i u] by blast
  show "r_unique p' \<in> A \<and> (b \<longrightarrow> r_interrupted p')" if "(e, k, b) \<in> set fl'" "?h e = Some p'" for e k b p'
    using that p c(2) d(4) orderlyD(8) [OF o, of e k b] by (auto simp: h split: if_splits)
  show "r_unique p' \<in> A" if "?h r = Some p'" "r_interrupted p'" for r p'
    using that p c(2) orderlyD(9) [OF o, of r] by (auto simp: h split: if_splits)
qed (use d in simp_all)

lemma leave_active:
  assumes o: "orderly A h L P n fl" and c: "c \<in> set L" "h c = Some q"
  shows "orderly A (without_ref c (q\<lparr>r_u := U_ni None, r_ctr := r_ctr q - 1\<rparr>) h) (remove1 c L) P n fl"
proof -
  have w: "0 < weight L fl c" using c(1) by (rule weight_active)
  have ch: "r_ch q = None" using active_live [OF o w] c(2) by (metis option.inject)
  have d: "distinct L" by (rule orderlyD [OF o])
  have "orderly A (without_ref c (q\<lparr>r_u := U_ni None, r_ctr := r_ctr q - 1\<rparr>) h |` (- {})) (remove1 c L) P n fl"
    by (rule drop_reference [OF o w c(2)])
      (use ch c(1) d orderlyD(2) [OF o] in \<open>auto simp: weight_def set_remove1_eq\<close>)
  then show ?thesis by (simp add: restrict_map_def)
qed

lemma end_flight:
  assumes o: "orderly A h L P n (xs @ (c, k, b) # ys)" and c: "h c = Some q"
  shows "orderly A ((without_ref c (q\<lparr>r_ctr := r_ctr q - 1\<rparr>) h)(k := None)) L P n (xs @ ys)"
proof -
  let ?fl = "xs @ (c, k, b) # ys"
  have w: "0 < weight L ?fl c" by (simp add: weight_def)
  obtain f where q: "r_ch q = None" "r_u q = U_ni f" using active_live [OF o w] c by (metis option.inject)
  have d: "distinct (intr_ids P ?fl)" by (rule orderlyD [OF o])
  have "orderly A (without_ref c (q\<lparr>r_ctr := r_ctr q - 1\<rparr>) h |` (- {k})) L P n (xs @ ys)"
    by (rule drop_reference [OF o w c])
      (use q d orderlyD(1) [OF o] in \<open>auto simp: weight_def intr_ids_def\<close>)
  then show ?thesis by (simp add: restrict_complement_singleton_eq)
qed

section \<open>The code keeps it\<close>

definition in_order :: "u64 set \<Rightarrow> session \<Rightarrow> flight list \<Rightarrow> bool" where
  "in_order A s fl \<longleftrightarrow> orderly A (req_heap s) (se_list s) (interrupts s) (req_next s) fl"

lemma free_req_exact:
  assumes "req_heap s r = Some q" "r_ch q = None"
  shows "\<exists>s'. fuse_free_req r s = Some s' \<and>
    req_heap s' = without_ref r (q\<lparr>r_u := U_ni None, r_ctr := r_ctr q - 1\<rparr>) (req_heap s) \<and>
    se_list s' = remove1 r (se_list s) \<and> interrupts s' = remove1 r (interrupts s) \<and> req_next s' = req_next s"
  using assms
  by (cases "r_ctr q = 1")
    (auto simp: fuse_free_req_def Let_def upd_req_def list_del_req_def put_chan_def fuse_chan_put_def destroy_req_def
      without_ref_def)

lemma reply_exact:
  assumes "req_heap s r = Some q" "r_ch q = None"
  obtains res s' where "send_reply_iov r err parts s = Some (res, s')"
    "req_heap s' = without_ref r (q\<lparr>r_u := U_ni None, r_ctr := r_ctr q - 1\<rparr>) (req_heap s)"
    "se_list s' = remove1 r (se_list s)" "interrupts s' = remove1 r (interrupts s)" "req_next s' = req_next s"
proof -
  obtain res s1 where m: "fuse_send_msg (r_ch q) (if bad_error (glibc s) err then - ERANGE else err) (r_unique q) parts s = (res, s1)"
    by (metis surj_pair)
  then have s1: "req_heap s1 = req_heap s" "se_list s1 = se_list s" "interrupts s1 = interrupts s" "req_next s1 = req_next s"
    by (auto simp: fuse_send_msg_def Let_def split: list.splits if_splits)
  then show thesis
    using free_req_exact [of s1 r q] assms m that by (auto simp: send_reply_iov_def fuse_send_reply_iov_nofree_def)
qed

lemma alloc_exact:
  "(\<exists>s'. fuse_ll_alloc_req s = (None, s') \<and> req_heap s' = req_heap s \<and> se_list s' = se_list s \<and> interrupts s' = interrupts s \<and>
      req_next s' = req_next s) \<or>
   (\<exists>s' q. fuse_ll_alloc_req s = (Some (req_next s), s') \<and> req_heap s' = (req_heap s)(req_next s \<mapsto> q) \<and>
      se_list s' = se_list s \<and> interrupts s' = interrupts s \<and> req_next s' = Suc (req_next s) \<and>
      r_ctr q = 1 \<and> r_ch q = None \<and> \<not> r_interrupted q \<and> r_u q = U_ni None)"
  by (auto simp: fuse_ll_alloc_req_def take_alloc_def Let_def split: prod.splits)

lemma find_active_exact:
  assumes "in_order A s fl" "req_heap s' = (req_heap s)(req_next s \<mapsto> q)" "se_list s' = se_list s"
  shows "find_active u s' = Some (find (\<lambda>c. numbered (req_heap s) c u) (se_list s))"
  unfolding find_active_def assms(3)
proof (rule find_m_total)
  note o = assms(1) [unfolded in_order_def]
  fix c assume c: "c \<in> set (se_list s)"
  then obtain p where "req_heap s c = Some p" using active_live [OF o weight_active] by blast
  moreover have "c \<noteq> req_next s" using c fresh_not_used(1) [OF o] by auto
  ultimately show "map_option (\<lambda>q. r_unique q = u) (req_heap s' c) = Some (numbered (req_heap s) c u)"
    by (simp add: assms(2) numbered_def)
qed

lemma find_pending_exact:
  assumes "in_order A s fl" "req_heap s' = (req_heap s)(req_next s \<mapsto> q)" "interrupts s' = interrupts s"
  shows "find_pending u s' = Some (find (\<lambda>i. names (req_heap s) i u) (interrupts s))"
  unfolding find_pending_def assms(3)
proof (rule find_m_total)
  note o = assms(1) [unfolded in_order_def]
  fix i assume i: "i \<in> set (interrupts s)"
  then have ii: "i \<in> set (intr_ids (interrupts s) fl)" by (simp add: intr_ids_def)
  obtain p v where p: "req_heap s i = Some p" "r_u p = U_i v" by (rule intr_live [OF o ii])
  moreover have "i \<noteq> req_next s" using ii fresh_not_used(3) [OF o] by auto
  ultimately show "map_option (\<lambda>v. v = u) (interrupts_what i s') = Some (names (req_heap s) i u)"
    by (simp add: interrupts_what_def assms(2) names_def)
qed

lemma drop_interrupt_exact:
  "req_heap s r = Some q \<Longrightarrow> r_ch q = None \<Longrightarrow>
   \<exists>s'. drop_interrupt r s = Some s' \<and> req_heap s' = (req_heap s)(r := None) \<and> se_list s' = se_list s \<and>
     interrupts s' = interrupts s \<and> req_next s' = req_next s"
  by (simp add: drop_interrupt_def put_chan_def fuse_chan_put_def destroy_req_def upd_req_def)

text \<open>
  The marks of the requests that are active afterwards are those of before, and those \<open>M\<close> sets.
\<close>

definition marked :: "session \<Rightarrow> nat \<Rightarrow> bool" where
  "marked s r \<longleftrightarrow> (case req_heap s r of None \<Rightarrow> False | Some q \<Rightarrow> r_interrupted q)"

definition waits_for :: "session \<Rightarrow> u64 \<Rightarrow> bool" where
  "waits_for s u \<longleftrightarrow> (\<exists>i \<in> set (interrupts s). interrupts_what i s = Some u)"

definition only_marks :: "(nat \<Rightarrow> bool) \<Rightarrow> session \<Rightarrow> session \<Rightarrow> bool" where
  "only_marks M s t \<longleftrightarrow> (\<forall>r \<in> set (se_list t). marked t r \<longleftrightarrow> r \<in> set (se_list s) \<and> marked s r \<or> M r)"

lemma only_marksI:
  "(\<And>r. r \<in> set (se_list t) \<Longrightarrow> marked t r \<longleftrightarrow> r \<in> set (se_list s) \<and> marked s r \<or> M r) \<Longrightarrow> only_marks M s t"
  by (simp add: only_marks_def)

lemma interrupts_what_names: "interrupts_what i s = Some u \<longleftrightarrow> names (req_heap s) i u"
  by (cases "req_heap s i"; cases "r_u (the (req_heap s i))") (auto simp: names_def interrupts_what_def)

lemma waits_for_names: "waits_for s u \<longleftrightarrow> (\<exists>i \<in> set (interrupts s). names (req_heap s) i u)"
  by (simp add: waits_for_def interrupts_what_names)

lemma same_marks:
  "req_heap t = req_heap s \<Longrightarrow> set (se_list t) \<subseteq> set (se_list s) \<Longrightarrow> only_marks (\<lambda>_. False) s t"
  by (auto simp: only_marks_def marked_def)

lemma admit_in_order:
  assumes i: "in_order A s fl" and h: "req_heap s' = (req_heap s)(req_next s \<mapsto> q)" "se_list s' = se_list s"
      "interrupts s' = interrupts s" "req_next s' = Suc (req_next s)"
    and q: "r_ctr q = 1" "r_ch q = None" "\<not> r_interrupted q" "r_u q = U_ni None" "r_unique q = u"
  shows "\<exists>s''. admit (req_next s) s' = Some s'' \<and> in_order A s'' fl \<and>
    only_marks (\<lambda>r. r = req_next s \<and> waits_for s u) s s''"
    (is "\<exists>s''. _ s'' \<and> _ s'' \<and> only_marks ?M s s''")
proof -
  let ?h = "req_heap s" let ?L = "se_list s" let ?P = "interrupts s" let ?n = "req_next s"
  note o = i [unfolded in_order_def] and new = fresh_not_used [OF i [unfolded in_order_def]]
  have notin: "i \<notin> set ?L" "i \<noteq> ?n" if "i \<in> set ?P" for i
  proof -
    have ii: "i \<in> set (intr_ids ?P fl)" using that by (simp add: intr_ids_def)
    show "i \<noteq> ?n" using ii new(3) by auto
    show "i \<notin> set ?L" using intr_live [OF o ii] weight_active by (metis neq0_conv)
  qed
  have heap: "req_heap s' ?n = Some q" by (simp add: h(1))
  have L: "r \<noteq> ?n" if "r \<in> set ?L" for r using that new(1) by auto
  show ?thesis
  proof (cases "find (\<lambda>i. names ?h i u) ?P")
    case (Some j)
    then have j: "j \<in> set ?P" "names ?h j u" by (auto simp: find_Some_iff)
    let ?q = "q\<lparr>r_interrupted := True\<rparr>"
    let ?s1 = "list_del_req j (upd_req ?n (\<lambda>q. q\<lparr>r_interrupted := True\<rparr>) s')"
    obtain p where p: "?h j = Some p" "r_ch p = None"
      using intr_live [OF o] j(1) by (metis UnCI intr_ids_def set_append)
    have s1: "req_heap ?s1 = ?h(?n \<mapsto> ?q)" "se_list ?s1 = ?L" "interrupts ?s1 = remove1 j ?P" "req_next ?s1 = Suc ?n"
      using h heap notin(1) [OF j(1)] by (simp_all add: list_del_req_def upd_req_def remove1_idem)
    then have "req_heap ?s1 j = Some p" using p notin(2) [OF j(1)] by simp
    then obtain s2 where s2: "drop_interrupt j ?s1 = Some s2" "req_heap s2 = (?h(?n \<mapsto> ?q))(j := None)" "se_list s2 = ?L"
        "interrupts s2 = remove1 j ?P" "req_next s2 = Suc ?n"
      using drop_interrupt_exact [of ?s1 j p] p(2) s1 by auto
    have "admit ?n s' = Some (s2\<lparr>se_list := ?L @ [?n]\<rparr>)"
      using heap find_pending_exact [OF i h(1,3), of u] Some q(5) s2(1,3)
      by (simp add: admit_def check_interrupt_def)
    moreover have "orderly A ((?h(j := None))(?n \<mapsto> ?q)) (?L @ [?n]) (remove1 j ?P) (Suc ?n) fl"
    proof (rule enter_active [OF drop_pending [OF o j(1)]])
      have d: "distinct ?P" using orderlyD(2) [OF o] by (simp add: intr_ids_def)
      show "\<not> names (?h(j := None)) k (r_unique ?q)" if "k \<in> set (remove1 j ?P)" for k
        using that d orderlyD(6) [OF o, of j k u] j q(5) by (auto simp: names_def split: if_splits)
      show "r_unique ?q \<in> A" using orderlyD(7) [OF o j] q(5) by simp
    qed (use q in simp_all)
    moreover have "(?h(j := None))(?n \<mapsto> ?q) = (?h(?n \<mapsto> ?q))(j := None)"
      using notin(2) [OF j(1)] by (simp add: fun_upd_twist)
    moreover have "only_marks ?M s (s2\<lparr>se_list := ?L @ [?n]\<rparr>)"
    proof (rule only_marksI)
      have "waits_for s u" using j by (auto simp: waits_for_names)
      then show "marked (s2\<lparr>se_list := ?L @ [?n]\<rparr>) r \<longleftrightarrow> r \<in> set ?L \<and> marked s r \<or> ?M r"
        if "r \<in> set (se_list (s2\<lparr>se_list := ?L @ [?n]\<rparr>))" for r
        using that L notin [OF j(1)] s2(2) by (auto simp: marked_def)
    qed
    ultimately show ?thesis using s2 by (simp add: in_order_def)
  next
    case None
    then have no: "\<not> names ?h k u" if "k \<in> set ?P" for k using that by (simp add: find_None_iff)
    have pend: "find_pending u s' = Some None" using find_pending_exact [OF i h(1,3), of u] None by simp
    have nw: "\<not> waits_for s u" using no by (auto simp: waits_for_names)
    show ?thesis
    proof (cases ?P)
      case Nil
      have "admit ?n s' = Some (s'\<lparr>se_list := ?L @ [?n]\<rparr>)"
        using heap pend q(5) h Nil by (simp add: admit_def check_interrupt_def)
      moreover have "orderly A (?h(?n \<mapsto> q)) (?L @ [?n]) ?P (Suc ?n) fl"
        by (rule enter_active [OF o]) (use q no in simp_all)
      moreover have "only_marks ?M s (s'\<lparr>se_list := ?L @ [?n]\<rparr>)"
        by (rule only_marksI) (use L nw h q in \<open>auto simp: marked_def\<close>)
      ultimately show ?thesis using h by (simp add: in_order_def)
    next
      case (Cons j P')
      have j: "j \<in> set ?P" using Cons by simp
      then have jj: "j \<in> set (intr_ids ?P fl)" by (simp add: intr_ids_def)
      obtain p where p: "?h j = Some p" "r_ch p = None" "r_ctr p = 1" by (rule intr_live [OF o jj])
      let ?s1 = "list_del_req j s'" let ?s2 = "?s1\<lparr>se_list := se_list ?s1 @ [?n]\<rparr>"
      have d: "j \<notin> set P'" using orderlyD(2) [OF o] Cons by (simp add: intr_ids_def)
      have s2: "req_heap ?s2 = ?h(?n \<mapsto> q)" "se_list ?s2 = ?L @ [?n]" "interrupts ?s2 = P'" "req_next ?s2 = Suc ?n"
        using h notin(1) [OF j] Cons by (simp_all add: list_del_req_def remove1_idem)
      then have "req_heap ?s2 j = Some p" using p notin(2) [OF j] by simp
      then obtain res s3 where s3: "send_reply_iov j (- EAGAIN) [] ?s2 = Some (res, s3)"
          "req_heap s3 = without_ref j (p\<lparr>r_u := U_ni None, r_ctr := r_ctr p - 1\<rparr>) (req_heap ?s2)"
          "se_list s3 = remove1 j (se_list ?s2)" "interrupts s3 = remove1 j (interrupts ?s2)" "req_next s3 = req_next ?s2"
        using p(2) by (rule reply_exact)
      have "admit ?n s' = Some s3"
        using heap pend q(5) h Cons s3(1) by (simp add: admit_def check_interrupt_def fuse_reply_err_def send_reply_def)
      moreover have "orderly A ((?h(j := None))(?n \<mapsto> q)) (?L @ [?n]) (remove1 j ?P) (Suc ?n) fl"
        by (rule enter_active [OF drop_pending [OF o j]])
          (use q no in \<open>auto simp: names_def split: if_splits dest: notin_set_remove1\<close>)
      moreover have "req_heap s3 = (?h(j := None))(?n \<mapsto> q)"
        using s3(2) s2(1) p(3) notin(2) [OF j] by (auto simp: without_ref_def)
      moreover have "se_list s3 = ?L @ [?n]" "interrupts s3 = remove1 j ?P"
        using s3(3,4) s2(2,3) notin [OF j] d Cons by (simp_all add: remove1_idem)
      moreover have "only_marks ?M s s3"
        by (rule only_marksI) (use L nw q notin [OF j] calculation in \<open>auto simp: marked_def\<close>)
      ultimately show ?thesis using s3(5) s2(4) by (simp add: in_order_def)
    qed
  qed
qed

lemma arrive_in_order:
  assumes "in_order A s fl"
  shows "\<exists>s'. arrive u s = Some s' \<and> in_order A s' fl \<and> only_marks (\<lambda>r. r = req_next s \<and> waits_for s u) s s'"
  using alloc_exact [of s]
proof (elim disjE exE conjE)
  fix s' assume a: "fuse_ll_alloc_req s = (None, s')" "req_heap s' = req_heap s" "se_list s' = se_list s"
    "interrupts s' = interrupts s" "req_next s' = req_next s"
  obtain x s'' where m: "fuse_send_msg None (- ENOMEM) u [] s' = (x, s'')" by (metis surj_pair)
  then have "req_heap s'' = req_heap s'" "se_list s'' = se_list s'" "interrupts s'' = interrupts s'" "req_next s'' = req_next s'"
    by (auto simp: fuse_send_msg_def Let_def split: list.splits if_splits)
  moreover have "req_next s \<notin> set (se_list s)"
    using assms fresh_not_used(1) by (auto simp: in_order_def)
  ultimately show ?thesis using assms a m
    by (auto simp: arrive_def in_order_def marked_def intro!: only_marksI)
next
  fix s' q assume a: "fuse_ll_alloc_req s = (Some (req_next s), s')" "req_heap s' = (req_heap s)(req_next s \<mapsto> q)"
    "se_list s' = se_list s" "interrupts s' = interrupts s" "req_next s' = Suc (req_next s)"
    "r_ctr q = 1" "r_ch q = None" "\<not> r_interrupted q" "r_u q = U_ni None"
  let ?s = "upd_req (req_next s) (\<lambda>q. q\<lparr>r_unique := u\<rparr>) s'"
  have "\<exists>s''. admit (req_next s) ?s = Some s'' \<and> in_order A s'' fl \<and>
      only_marks (\<lambda>r. r = req_next s \<and> waits_for s u) s s''"
    by (rule admit_in_order [OF assms, of _ "q\<lparr>r_unique := u\<rparr>"]) (use a in \<open>simp_all add: upd_req_def\<close>)
  then show ?thesis using a(1) by (simp add: arrive_def)
qed

lemma interrupt_in_order:
  assumes i: "in_order A s fl"
  shows "\<exists>f s'. interrupt u s = Some (f, s') \<and> in_order (insert u A) s' (fl @ f) \<and> only_marks (\<lambda>_. False) s s'"
  using alloc_exact [of s]
proof (elim disjE exE conjE)
  fix s' assume a: "fuse_ll_alloc_req s = (None, s')" "req_heap s' = req_heap s" "se_list s' = se_list s"
    "interrupts s' = interrupts s" "req_next s' = req_next s"
  obtain x s'' where m: "fuse_send_msg None (- ENOMEM) 0 [] s' = (x, s'')" by (metis surj_pair)
  then have "req_heap s'' = req_heap s'" "se_list s'' = se_list s'" "interrupts s'' = interrupts s'" "req_next s'' = req_next s'"
    by (auto simp: fuse_send_msg_def Let_def split: list.splits if_splits)
  then show ?thesis using orderly_mono [OF i [unfolded in_order_def], of "insert u A"] a m
    by (auto simp: interrupt_def in_order_def intro!: same_marks)
next
  fix s' q assume a: "fuse_ll_alloc_req s = (Some (req_next s), s')" "req_heap s' = (req_heap s)(req_next s \<mapsto> q)"
    "se_list s' = se_list s" "interrupts s' = interrupts s" "req_next s' = Suc (req_next s)"
    "r_ctr q = 1" "r_ch q = None" "\<not> r_interrupted q" "r_u q = U_ni None"
  let ?n = "req_next s" let ?h = "req_heap s" let ?q = "q\<lparr>r_u := U_i u\<rparr>"
  let ?s = "upd_req ?n (\<lambda>q. q\<lparr>r_u := U_i u\<rparr>) s'"
  have s: "req_heap ?s = ?h(?n \<mapsto> ?q)" "se_list ?s = se_list s" "interrupts ?s = interrupts s" "req_next ?s = Suc ?n"
    using a by (simp_all add: upd_req_def)
  have w: "interrupts_what ?n ?s = Some u" using s(1) by (simp add: interrupts_what_def)
  have o: "orderly (insert u A) ?h (se_list s) (interrupts s) ?n fl"
    using orderly_mono [OF i [unfolded in_order_def]] by blast
  note new = fresh_not_used [OF o]
  have L: "r \<noteq> ?n" if "r \<in> set (se_list s)" for r using that new(1) by auto
  have "\<exists>c s2. start_interrupt ?n ?s = Some (c, s2) \<and> only_marks (\<lambda>_. False) s s2 \<and>
      in_order (insert u A) s2 (fl @ (case c of None \<Rightarrow> [] | Some c \<Rightarrow> [(c, ?n, False)]))"
  proof (cases "find (\<lambda>c. numbered ?h c u) (se_list s)")
    case (Some c)
    then have c: "c \<in> set (se_list s)" "numbered ?h c u" by (auto simp: find_Some_iff)
    then obtain p where p: "?h c = Some p" "r_unique p = u" by (auto simp: numbered_def)
    have "c \<noteq> ?n" using c(1) new(1) by auto
    let ?s2 = "upd_req c (\<lambda>q. q\<lparr>r_ctr := r_ctr q + 1\<rparr>) ?s"
    have h: "req_heap ?s2 = (?h(?n \<mapsto> ?q))(c \<mapsto> p\<lparr>r_ctr := r_ctr p + 1\<rparr>)"
      using s(1) p(1) \<open>c \<noteq> ?n\<close> by (simp add: upd_req_def)
    have "start_interrupt ?n ?s = Some (Some c, ?s2)"
      using w find_active_exact [OF i s(1,2), of u] Some by (simp add: start_interrupt_def)
    moreover have "orderly (insert u A) (req_heap ?s2) (se_list s) (interrupts s) (Suc ?n) (fl @ [(c, ?n, False)])"
      unfolding h by (rule enter_flight [OF o]) (use a p c in simp_all)
    moreover have "se_list ?s2 = se_list s" "interrupts ?s2 = interrupts s" "req_next ?s2 = Suc ?n"
      using s by (simp_all add: upd_req_def)
    moreover have "only_marks (\<lambda>_. False) s ?s2"
      by (rule only_marksI) (use s(2) h p L in \<open>auto simp: marked_def upd_req_def\<close>)
    ultimately show ?thesis unfolding in_order_def by (intro exI [of _ "Some c"] exI [of _ ?s2]) simp
  next
    case None
    then have act: "\<not> numbered ?h c u" if "c \<in> set (se_list s)" for c using that by (simp add: find_None_iff)
    have fa: "find_active u ?s = Some None" using find_active_exact [OF i s(1,2), of u] None by simp
    have fp: "find_pending u ?s = Some (find (\<lambda>i. names ?h i u) (interrupts s))" by (rule find_pending_exact [OF i s(1,3)])
    show ?thesis
    proof (cases "find (\<lambda>i. names ?h i u) (interrupts s)")
      case (Some j)
      obtain s2 where s2: "drop_interrupt ?n ?s = Some s2" "req_heap s2 = (?h(?n \<mapsto> ?q))(?n := None)"
          "se_list s2 = se_list s" "interrupts s2 = interrupts s" "req_next s2 = Suc ?n"
        using drop_interrupt_exact [of ?s ?n ?q] s a(7) by auto
      have "req_heap s2 = ?h" using s2(2) new(4) by (simp add: fun_upd_idem)
      moreover have "orderly (insert u A) ?h (se_list s) (interrupts s) (Suc ?n) fl"
        by (rule orderly_next [OF o]) simp
      ultimately have "in_order (insert u A) s2 fl" using s2 by (simp add: in_order_def)
      moreover have "only_marks (\<lambda>_. False) s s2" using \<open>req_heap s2 = ?h\<close> s2(3) by (simp add: same_marks)
      ultimately show ?thesis using w fa fp Some s2(1)
        by (intro exI [of _ None] exI [of _ s2]) (simp add: start_interrupt_def)
    next
      case None
      let ?s2 = "?s\<lparr>interrupts := interrupts ?s @ [?n]\<rparr>"
      have "orderly (insert u A) (?h(?n \<mapsto> ?q)) (se_list s) (interrupts s @ [?n]) (Suc ?n) fl"
        by (rule enter_pending [OF o]) (use a act None in \<open>auto simp: find_None_iff\<close>)
      then have "in_order (insert u A) ?s2 fl" using s by (simp add: in_order_def)
      moreover have "only_marks (\<lambda>_. False) s ?s2"
        by (rule only_marksI) (use s L in \<open>auto simp: marked_def\<close>)
      ultimately show ?thesis using w fa fp None by (intro exI [of _ None] exI [of _ ?s2]) (simp add: start_interrupt_def)
    qed
  qed
  then show ?thesis using a(1) by (fastforce simp: interrupt_def split: option.splits)
qed

lemma change_in_order:
  assumes i: "in_order A s fl" and c: "0 < weight (se_list s) fl c"
    and g: "\<And>q f. r_u q = U_ni f \<Longrightarrow> r_unique (g q) = r_unique q \<and> r_ctr (g q) = r_ctr q \<and> r_ch (g q) = r_ch q \<and>
      (\<exists>f'. r_u (g q) = U_ni f') \<and> (r_interrupted q \<longrightarrow> r_interrupted (g q)) \<and>
      (r_interrupted (g q) \<longrightarrow> r_interrupted q \<or> (\<exists>k b. (c, k, b) \<in> set fl))"
    and fl: "map fst fl' = map fst fl" "map (fst \<circ> snd) fl' = map (fst \<circ> snd) fl"
      "\<And>q d k b. (d, k, b) \<in> set fl' \<Longrightarrow> (\<exists>b'. (d, k, b') \<in> set fl \<and> (b \<longrightarrow> b' \<or> d = c \<and> r_interrupted (g q)))"
  shows "in_order A (upd_req c g s) fl'"
proof -
  note o = i [unfolded in_order_def]
  obtain q f where q: "req_heap s c = Some q" "r_u q = U_ni f" "r_ch q = None" by (rule active_live [OF o c])
  obtain f' where f': "r_u (g q) = U_ni f'" using g [OF q(2)] by blast
  have A: "r_unique q \<in> A" if "r_interrupted (g q)"
    using that g [OF q(2)] orderlyD(8) [OF o _ q(1)] orderlyD(9) [OF o q(1)] by blast
  have "orderly A ((req_heap s)(c \<mapsto> g q)) (se_list s) (interrupts s) (req_next s) fl'"
    by (rule change_entry [OF o c q(1), of _ f']) (use g [OF q(2)] q f' A fl in auto)
  then show ?thesis using q(1) by (simp add: in_order_def upd_req_def)
qed

lemma nth_flight: "k < length fl \<Longrightarrow> fl ! k = x \<Longrightarrow> fl = take k fl @ x # drop (Suc k) fl"
  using id_take_nth_drop [of k fl] by simp

lemma mark_in_order:
  assumes i: "in_order A s fl" and k: "k < length fl" "fl ! k = (c, r, b)"
  shows "\<exists>s'. mark_interrupted c s = Some s' \<and> in_order A s' (fl[k := (c, r, True)]) \<and> only_marks (\<lambda>a. a = c) s s'"
proof -
  note o = i [unfolded in_order_def]
  have m: "(c, r, b) \<in> set fl" using nth_mem [OF k(1)] k(2) by simp
  obtain q f where q: "req_heap s c = Some q" "r_u q = U_ni f" by (rule active_live [OF o weight_flight [OF m]])
  let ?s = "upd_req c (\<lambda>q. q\<lparr>r_interrupted := True\<rparr>) s"
  have "in_order A ?s (fl[k := (c, r, True)])"
  proof (rule change_in_order [OF i weight_flight [OF m]])
    show "map fst (fl[k := (c, r, True)]) = map fst fl"
      using k by (simp add: map_update list_update_same_conv)
    show "map (fst \<circ> snd) (fl[k := (c, r, True)]) = map (fst \<circ> snd) fl"
      using k by (simp add: map_update list_update_same_conv)
    show "\<exists>b'. (d, j, b') \<in> set fl \<and> (e \<longrightarrow> b' \<or> d = c \<and> r_interrupted (p\<lparr>r_interrupted := True\<rparr>))"
      if "(d, j, e) \<in> set (fl[k := (c, r, True)])" for p d j e
      using that m set_update_subset_insert [of fl k "(c, r, True)"] by auto
  qed (use m in auto)
  moreover have "in_order A (?s\<lparr>called := cs\<rparr>) fl' = in_order A ?s fl'" for cs fl' by (simp add: in_order_def)
  moreover have "only_marks (\<lambda>a. a = c) s (?s\<lparr>called := cs\<rparr>)" "only_marks (\<lambda>a. a = c) s ?s" for cs
    by (rule only_marksI; use q(1) in \<open>auto simp: marked_def upd_req_def\<close>)+
  ultimately show ?thesis using q by (cases f) (simp_all add: mark_interrupted_def Let_def)
qed

lemma finish_in_order:
  assumes i: "in_order A s fl" and k: "k < length fl" "fl ! k = (c, r, b)"
  shows "\<exists>s'. end_interrupt c r s = Some s' \<and> in_order A s' (take k fl @ drop (Suc k) fl) \<and>
    only_marks (\<lambda>_. False) s s'"
proof -
  note o = i [unfolded in_order_def]
  have fl: "fl = take k fl @ (c, r, b) # drop (Suc k) fl" by (rule nth_flight [OF k])
  have m: "(c, r, b) \<in> set fl" using nth_mem [OF k(1)] k(2) by simp
  obtain q f where q: "req_heap s c = Some q" "r_ch q = None" "c \<notin> set (intr_ids (interrupts s) fl)"
    by (rule active_live [OF o weight_flight [OF m]])
  have rr: "r \<in> set (intr_ids (interrupts s) fl)" using m by (force simp: intr_ids_def)
  obtain p where p: "req_heap s r = Some p" "r_ch p = None" by (rule intr_live [OF o rr])
  have "c \<noteq> r" using q(3) rr by auto
  let ?h = "without_ref c (q\<lparr>r_ctr := r_ctr q - 1\<rparr>) (req_heap s)"
  have "\<exists>s2. end_interrupt c r s = drop_interrupt r s2 \<and> req_heap s2 = ?h \<and> se_list s2 = se_list s \<and>
      interrupts s2 = interrupts s \<and> req_next s2 = req_next s"
  proof (cases "r_ctr q = 1")
    case True
    let ?s1 = "upd_req r (\<lambda>q. q\<lparr>r_ch := None\<rparr>) (upd_req c (\<lambda>q. q\<lparr>r_ctr := r_ctr q - 1\<rparr>) s)"
    have "end_interrupt c r s = drop_interrupt r (?s1\<lparr>req_heap := (req_heap ?s1)(c := None)\<rparr>)"
      using True q(1,2) p \<open>c \<noteq> r\<close>
      by (simp add: end_interrupt_def Let_def put_chan_def fuse_chan_put_def destroy_req_def upd_req_def)
    moreover have "(req_heap ?s1)(c := None) = ?h"
      using True p q(1) \<open>c \<noteq> r\<close> by (auto simp: upd_req_def without_ref_def)
    ultimately show ?thesis by (intro exI [of _ "?s1\<lparr>req_heap := (req_heap ?s1)(c := None)\<rparr>"]) (simp add: upd_req_def)
  next
    case False
    let ?s1 = "upd_req c (\<lambda>q. q\<lparr>r_ctr := r_ctr q - 1\<rparr>) s"
    have "end_interrupt c r s = drop_interrupt r ?s1" using False q(1) by (simp add: end_interrupt_def)
    then show ?thesis using False q(1)
      by (intro exI [of _ ?s1]) (auto simp: upd_req_def without_ref_def)
  qed
  then obtain s2 where s2: "end_interrupt c r s = drop_interrupt r s2" "req_heap s2 = ?h" "se_list s2 = se_list s"
      "interrupts s2 = interrupts s" "req_next s2 = req_next s"
    by blast
  have "req_heap s2 r = Some p" using s2(2) p(1) \<open>c \<noteq> r\<close> by (simp add: without_ref_def)
  then obtain s3 where s3: "drop_interrupt r s2 = Some s3" "req_heap s3 = ?h(r := None)" "se_list s3 = se_list s"
      "interrupts s3 = interrupts s" "req_next s3 = req_next s"
    using drop_interrupt_exact [of s2 r p] p(2) s2 by auto
  have "orderly A (req_heap s) (se_list s) (interrupts s) (req_next s) (take k fl @ (c, r, b) # drop (Suc k) fl)"
    by (subst fl [symmetric]) (rule o)
  then have "orderly A (?h(r := None)) (se_list s) (interrupts s) (req_next s) (take k fl @ drop (Suc k) fl)"
    using q(1) by (rule end_flight)
  moreover have "only_marks (\<lambda>_. False) s s3"
  proof (rule only_marksI)
    fix a assume a: "a \<in> set (se_list s3)"
    then have "a \<in> set (se_list s)" using s2(3) s3(3) by simp
    moreover from this have "a \<noteq> r" using active_live [OF o weight_active] rr by metis
    moreover have "0 < r_ctr q - 1" if "a = c"
    proof -
      have "c \<in> set (map fst fl)" using m by force
      then have "0 < count_list (map fst fl) c" by (metis count_list_0_iff gr0I)
      then have "1 < weight (se_list s) fl c" using a s2(3) s3(3) that by (simp add: weight_def)
      moreover have "r_ctr q = int (weight (se_list s) fl c)"
        using active_live [OF o weight_flight [OF m]] q(1) by (metis option.inject)
      ultimately show ?thesis by simp
    qed
    ultimately show "marked s3 a \<longleftrightarrow> a \<in> set (se_list s) \<and> marked s a \<or> False"
      using s3(2) q(1) by (auto simp: marked_def without_ref_def)
  qed
  ultimately show ?thesis using s2(1) s3 by (simp add: in_order_def)
qed

lemma answer_in_order:
  assumes i: "in_order A s fl" and r: "r \<in> set (se_list s)"
  shows "\<exists>res s'. send_reply_iov r err parts s = Some (res, s') \<and> in_order A s' fl \<and> only_marks (\<lambda>_. False) s s'"
proof -
  note o = i [unfolded in_order_def]
  obtain q where q: "req_heap s r = Some q" "r_ch q = None" "r \<notin> set (intr_ids (interrupts s) fl)"
    by (rule active_live [OF o weight_active [OF r]])
  from reply_exact [OF q(1,2)] obtain res s' where s': "send_reply_iov r err parts s = Some (res, s')"
    "req_heap s' = without_ref r (q\<lparr>r_u := U_ni None, r_ctr := r_ctr q - 1\<rparr>) (req_heap s)"
    "se_list s' = remove1 r (se_list s)" "interrupts s' = remove1 r (interrupts s)" "req_next s' = req_next s" .
  have "remove1 r (interrupts s) = interrupts s" using q(3) by (simp add: intr_ids_def remove1_idem)
  moreover have "only_marks (\<lambda>_. False) s s'"
  proof (rule only_marksI)
    fix a assume a: "a \<in> set (se_list s')"
    then show "marked s' a \<longleftrightarrow> a \<in> set (se_list s) \<and> marked s a \<or> False"
      using s'(2,3) orderlyD(1) [OF o] by (auto simp: marked_def without_ref_def)
  qed
  ultimately show ?thesis using s' leave_active [OF o r q(1)] by (simp add: in_order_def)
qed

lemma hook_in_order:
  assumes i: "in_order A s fl" and r: "r \<in> set (se_list s)"
  shows "\<exists>s'. fuse_req_interrupt_func r func s = Some s' \<and> in_order A s' fl \<and> only_marks (\<lambda>_. False) s s'"
proof -
  note o = i [unfolded in_order_def]
  obtain q where q: "req_heap s r = Some q" by (rule active_live [OF o weight_active [OF r]])
  let ?s = "upd_req r (\<lambda>q. q\<lparr>r_u := U_ni func\<rparr>) s"
  have "in_order A ?s fl"
    by (rule change_in_order [OF i weight_active [OF r]]) auto
  moreover have "in_order A (?s\<lparr>called := cs\<rparr>) fl = in_order A ?s fl" for cs by (simp add: in_order_def)
  moreover have "only_marks (\<lambda>_. False) s (?s\<lparr>called := cs\<rparr>)" "only_marks (\<lambda>_. False) s ?s" for cs
    by (rule only_marksI; use q in \<open>auto simp: marked_def upd_req_def\<close>)+
  ultimately show ?thesis using q by (cases func) (simp_all add: fuse_req_interrupt_func_def Let_def)
qed

fun asked :: "happening \<Rightarrow> u64 set" where
  "asked (Interrupt u) = {u}"
| "asked _ = {}"

text \<open>The requests an event marks: the one that arrives when an interrupt waits for it, and the one whose interrupt goes on.\<close>

fun marks :: "happening \<Rightarrow> session \<times> flight list \<Rightarrow> nat \<Rightarrow> bool" where
  "marks (Arrive u) (s, fl) r \<longleftrightarrow> r = req_next s \<and> waits_for s u"
| "marks (Mark k) (s, fl) r \<longleftrightarrow> k < length fl \<and> fst (fl ! k) = r"
| "marks _ _ _ \<longleftrightarrow> False"

lemma done_marked:
  assumes i: "in_order A s fl" and k: "k < length fl" "snd (snd (fl ! k))" and c: "fst (fl ! k) \<in> set (se_list s)"
  shows "marked s (fst (fl ! k))"
proof -
  note o = i [unfolded in_order_def]
  have m: "(fst (fl ! k), fst (snd (fl ! k)), True) \<in> set fl" using nth_mem [OF k(1)] k(2) by (metis (full_types) prod.collapse)
  obtain q where q: "req_heap s (fst (fl ! k)) = Some q" by (rule active_live [OF o weight_active [OF c]])
  then show ?thesis using orderlyD(8) [OF o m] by (simp add: marked_def)
qed

lemma occur_in_order:
  assumes i: "in_order A s fl"
  shows "\<exists>s' fl'. occur e (s, fl) = Some (s', fl') \<and> in_order (A \<union> asked e) s' fl' \<and> only_marks (marks e (s, fl)) s s'"
proof (cases e)
  case (Arrive u)
  then show ?thesis using arrive_in_order [OF i, of u] by (auto simp: only_marks_def)
next
  case (Interrupt u)
  then show ?thesis using interrupt_in_order [OF i, of u] by (auto simp: only_marks_def)
next
  case (Mark k)
  obtain c r b where "fl ! k = (c, r, b)" by (cases "fl ! k")
  then show ?thesis using Mark i mark_in_order [OF i, of k c r b] done_marked [OF i, of k]
    by (auto simp: only_marks_def)
next
  case (Finish k)
  obtain c r b where "fl ! k = (c, r, b)" by (cases "fl ! k")
  then show ?thesis using Finish i finish_in_order [OF i, of k c r b] by (auto simp: only_marks_def)
next
  case (Answer r err parts)
  then show ?thesis using i answer_in_order [OF i, of r err parts] by (auto simp: only_marks_def)
next
  case (Hook r func)
  then show ?thesis using i hook_in_order [OF i, of r func] by (auto simp: only_marks_def)
qed

interpretation session_events: event_system occur occur_all asked "\<lambda>A (s, fl). in_order A s fl"
proof
  fix A e and st :: "session \<times> flight list"
  assume "case st of (s, fl) \<Rightarrow> in_order A s fl"
  then show "\<exists>st'. occur e st = Some st' \<and> (case st' of (s, fl) \<Rightarrow> in_order (A \<union> asked e) s fl)"
    using occur_in_order [of A "fst st" "snd st" e] by (auto split: prod.splits)
qed simp_all

lemma fresh_in_order: "se_list s = [] \<Longrightarrow> interrupts s = [] \<Longrightarrow> req_heap s = (\<lambda>_. None) \<Longrightarrow> in_order {} s []"
  by (simp add: in_order_def orderly_def counted_def weight_def intr_ids_def)

lemma mem_asked: "u \<in> (\<Union>e \<in> set es. asked e) \<longleftrightarrow> Interrupt u \<in> set es"
proof -
  have "u \<in> asked e \<longleftrightarrow> e = Interrupt u" for e by (cases e) auto
  then show ?thesis by auto
qed

section \<open>Properties\<close>

text \<open>
  C6. Interrupts and the requests they are meant for.  However requests and interrupts arrive, answers are
  given, interrupt functions are set and interrupts that have found their request go on, in any order and
  with any allocation failing: no request is used or freed after it was freed, and the live requests are
  exactly the active ones, the waiting interrupts and those in progress, so that none is lost.  While a
  request is active no interrupt for it is left waiting, a request whose interrupt has gone past its first
  step is marked, and none is marked that the kernel did not interrupt.  Whatever happens next, the marks
  of the active requests change in exactly two ways: a request that arrives when an interrupt for its number
  is waiting is marked at once, so an interrupt that came first is not lost, and a request is marked when an
  interrupt that found it goes on.
  The library starts with no request, and the requests have no channel of their own (\<open>clone_fd\<close> is off).
\<close>
theorem interrupts_find_requests:
  assumes "se_list s = []" "interrupts s = []" "req_heap s = (\<lambda>_. None)"
  shows "\<exists>s' fl. occur_all es (s, []) = Some (s', fl) \<and>
    dom (req_heap s') = set (se_list s') \<union> set (interrupts s') \<union> fst ` set fl \<union> (fst \<circ> snd) ` set fl \<and>
    (\<forall>a i q. a \<in> set (se_list s') \<and> i \<in> set (interrupts s') \<and> req_heap s' a = Some q \<longrightarrow>
       interrupts_what i s' \<noteq> Some (r_unique q)) \<and>
    (\<forall>c r q. (c, r, True) \<in> set fl \<and> req_heap s' c = Some q \<longrightarrow> r_interrupted q) \<and>
    (\<forall>r q. req_heap s' r = Some q \<and> r_interrupted q \<longrightarrow> Interrupt (r_unique q) \<in> set es) \<and>
    (\<forall>e t fl' r. occur e (s', fl) = Some (t, fl') \<and> r \<in> set (se_list t) \<longrightarrow>
       marked t r = (r \<in> set (se_list s') \<and> marked s' r \<or> marks e (s', fl) r))"
proof -
  obtain s' fl where s': "occur_all es (s, []) = Some (s', fl)" "in_order ({} \<union> (\<Union>e \<in> set es. asked e)) s' fl"
    using session_events.takes_all [of "{}" "(s, [])" es] fresh_in_order [OF assms] by auto
  note o = s'(2) [unfolded in_order_def]
  have "r \<in> dom (req_heap s') \<longleftrightarrow> r \<in> set (se_list s') \<union> set (interrupts s') \<union> fst ` set fl \<union> (fst \<circ> snd) ` set fl" for r
    using orderlyD(3) [OF o, of r] weight_0 [of "se_list s'" fl r]
    by (cases "req_heap s' r") (auto simp: counted_def intr_ids_def split: if_splits)
  then have "dom (req_heap s') = set (se_list s') \<union> set (interrupts s') \<union> fst ` set fl \<union> (fst \<circ> snd) ` set fl"
    by (rule set_eqI)
  moreover have "interrupts_what i s' \<noteq> Some (r_unique q)"
    if "a \<in> set (se_list s')" "i \<in> set (interrupts s')" "req_heap s' a = Some q" for a i q
    using orderlyD(5) [OF o that(1,2), of "r_unique q"] that(3) by (auto simp: numbered_def interrupts_what_names)
  moreover have "r_interrupted q" if "(c, r, True) \<in> set fl" "req_heap s' c = Some q" for c r q
    using orderlyD(8) [OF o that] by simp
  moreover have "Interrupt (r_unique q) \<in> set es" if "req_heap s' r = Some q" "r_interrupted q" for r q
    using orderlyD(9) [OF o that] unfolding Un_empty_left mem_asked .
  moreover have "marked t r = (r \<in> set (se_list s') \<and> marked s' r \<or> marks e (s', fl) r)"
    if "occur e (s', fl) = Some (t, fl')" "r \<in> set (se_list t)" for e t fl' r
    using occur_in_order [OF s'(2), of e] that by (auto simp: only_marks_def)
  ultimately show ?thesis using s'(1) by (intro exI [of _ s'] exI [of _ fl] conjI allI impI) ((elim conjE)?; simp)+
qed

theorem interrupts_find_requests_witness:
  "\<exists>s' fl. occur_all [Interrupt 7, Arrive 7, Interrupt 7, Answer 1 0 [], Mark 0, Finish 0] (demo_session, []) = Some (s', fl) \<and>
    dom (req_heap s') = set (se_list s') \<union> set (interrupts s') \<union> fst ` set fl \<union> (fst \<circ> snd) ` set fl"
  using interrupts_find_requests [of demo_session "[Interrupt 7, Arrive 7, Interrupt 7, Answer 1 0 [], Mark 0, Finish 0]"]
  by (auto simp: demo_session_def simp del: occur_all.simps)

end
