(* ===== verification/Receive.thy ===== *)
theory Receive
  imports EndToEnd
begin

text \<open>
  The reads of the device and the loop around them: \<open>fuse_session_receive_buf_int\<close> and its neighbours of
  \<open>.deps/libfuse3-3.16.2/lib/fuse_lowlevel.c\<close>, and \<open>fuse_session_loop\<close> of \<open>lib/fuse_loop.c\<close>.

  What the reads of the device answer, one after the other, is a list, whatever makes the requests come.
  Each answer tells besides whether \<open>fuse_session_exit\<close> was called meanwhile, by a signal handler or
  another thread.  A read behind the end of the list never returns, which is \<open>None\<close>.
\<close>

section \<open>Answers of the device\<close>

datatype dev_answer =
  Data bytes
| Fails int        \<comment> \<open>the error number\<close>

type_synonym script = "(bool \<times> dev_answer) list"

definition fuse_session_reset :: "session \<Rightarrow> session" where
  "fuse_session_reset s = s\<lparr>exited := False, se_error := 0\<rparr>"

definition fuse_session_exited :: "session \<Rightarrow> bool" where
  "fuse_session_exited s = exited s"

definition exit_se :: "bool \<Rightarrow> 's thread \<Rightarrow> 's thread" where
  "exit_se stop t = (if stop then t\<lparr>se := fuse_session_exit (se t)\<rparr> else t)"

definition EBADF :: int where "EBADF = 9"
definition ENODEV :: int where "ENODEV = 19"

text \<open>\<open>if (!buf->mem) buf->mem = malloc(se->bufsize)\<close>\<close>

definition own_buffer :: "fuse_buf \<Rightarrow> 's thread \<Rightarrow> nat option \<times> 's thread" where
  "own_buffer buf t =
     (if buf_mem buf = 0 then (let (r, e) = malloc (bufsize (se t)) (th_env t) in (r, t\<lparr>th_env := e\<rparr>))
      else (Some (buf_mem buf), t))"

section \<open>Reading a request\<close>

text \<open>
  The code from the label \<open>restart\<close>: \<open>n\<close> bytes are asked for at address \<open>a\<close>.  \<open>Inl\<close> is what
  \<open>fuse_session_receive_buf_int\<close> returns, \<open>Inr\<close> the length of the request.
\<close>

fun read_device :: "nat \<Rightarrow> nat \<Rightarrow> script \<Rightarrow> 's thread \<Rightarrow> ((int + nat) \<times> script \<times> 's thread) option" where
  "read_device a n [] t = None"
| "read_device a n ((stop, Fails err) # sc) t =
     (let t1 = exit_se stop t in
      if fuse_session_exited (se t1) then Some (Inl 0, sc, t1)
      else if err = ENOENT then read_device a n sc t1
      else if err = ENODEV then Some (Inl 0, sc, t1\<lparr>se := fuse_session_exit (se t1)\<rparr>)
      else Some (Inl (- err), sc, t1))"
| "read_device a n ((stop, Data bs) # sc) t =
     (let t1 = exit_se stop (t\<lparr>th_env := (th_env t)\<lparr>mem := mem_store (mem (th_env t)) a (take n bs)\<rparr>\<rparr>) in
      if fuse_session_exited (se t1) then Some (Inl 0, sc, t1)
      else if length (take n bs) < IN_HEADER_SIZE then Some (Inl (- EIO), sc, t1)
      else Some (Inr (length (take n bs)), sc, t1))"

type_synonym 's received = "int \<times> fuse_buf \<times> script \<times> 's thread"

text \<open>The code from the label \<open>fallback\<close>.  Of the buffer only the memory and the size are set.\<close>

definition receive_fallback :: "fuse_buf \<Rightarrow> script \<Rightarrow> 's thread \<Rightarrow> 's received option" where
  "receive_fallback buf sc t =
     (case own_buffer buf t of
        (None, t1) \<Rightarrow> Some (- ENOMEM, buf, sc, t1)
      | (Some a, t1) \<Rightarrow>
          do { (r, sc1, t2) \<leftarrow> read_device a (bufsize (se t1)) sc t1;
               Some (case r of
                       Inl res \<Rightarrow> (res, buf\<lparr>buf_mem := a\<rparr>, sc1, t2)
                     | Inr n \<Rightarrow> (int n, buf\<lparr>buf_mem := a, buf_size := n\<rparr>, sc1, t2)) })"

text \<open>
  \<open>splice\<close> from the device; \<open>fill\<close> is what it does to the pipe.  Data that was moved into the pipe stays
  there when the session has ended or the request is short.
\<close>

fun splice_device ::
  "(int \<Rightarrow> bytes \<Rightarrow> 's \<Rightarrow> 's) \<Rightarrow> int \<Rightarrow> nat \<Rightarrow> script \<Rightarrow> 's thread \<Rightarrow> ((int + nat) \<times> script \<times> 's thread) option" where
  "splice_device fill fd n [] t = None"
| "splice_device fill fd n ((stop, Fails err) # sc) t =
     (let t1 = exit_se stop t in
      Some (if fuse_session_exited (se t1) then (Inl 0, sc, t1)
            else if err = ENODEV then (Inl 0, sc, t1\<lparr>se := fuse_session_exit (se t1)\<rparr>)
            else (Inl (- err), sc, t1)))"
| "splice_device fill fd n ((stop, Data bs) # sc) t =
     (let t1 = exit_se stop (snd (kern (\<lambda>w. ((), fill fd (take n bs) w)) t)) in
      Some (if fuse_session_exited (se t1) then (Inl 0, sc, t1)
            else if length (take n bs) < IN_HEADER_SIZE then (Inl (- EIO), sc, t1)
            else (Inr (length (take n bs)), sc, t1)))"

definition WRITE_IN_SIZE :: nat where "WRITE_IN_SIZE = 40"

definition pipe_buf :: "int \<Rightarrow> nat \<Rightarrow> fuse_buf" where
  "pipe_buf fd n = \<lparr>buf_size = n, buf_is_fd = True, buf_fd_seek = False, buf_fd_retry = False, buf_mem = 0,
     buf_fd = fd, buf_pos = 0\<rparr>"

text \<open>A request that is not larger than a header, the fixed part of a write and a page is copied to memory.\<close>

definition copy_small ::
  "'s sys_io \<Rightarrow> 's pipe_ops \<Rightarrow> int \<Rightarrow> nat \<Rightarrow> fuse_buf \<Rightarrow> 's thread \<Rightarrow> (int \<times> fuse_buf \<times> 's thread) option" where
  "copy_small io po fd n buf t =
     (case own_buffer buf t of
        (None, t1) \<Rightarrow> Some (- ENOMEM, buf, t1)
      | (Some a, t1) \<Rightarrow>
          (let buf1 = buf\<lparr>buf_mem := a, buf_size := bufsize (se t1), buf_is_fd := False, buf_fd_seek := False,
                          buf_fd_retry := False\<rparr>
           in do { (res, dst, src, m, w) \<leftarrow>
                     fuse_buf_copy io False (vec_of [buf1]) (vec_of [pipe_buf fd n]) no_flags (mem (th_env t1)) (fs_state (th_env t1));
                   let t2 = t1\<lparr>th_env := (th_env t1)\<lparr>mem := m, fs_state := w\<rparr>\<rparr>;
                   if res < 0 then Some (to_int res, buf1, fuse_ll_clear_pipe po t2)
                   else if res < int n then Some (- EIO, buf1, fuse_ll_clear_pipe po t2)
                   else if res \<noteq> int n then None
                   else Some (int n, buf1\<lparr>buf_size := n\<rparr>, t2) }))"

definition receive_splice ::
  "'s sys_io \<Rightarrow> 's pipe_ops \<Rightarrow> (int \<Rightarrow> bytes \<Rightarrow> 's \<Rightarrow> 's) \<Rightarrow> fuse_ll_pipe \<Rightarrow> fuse_buf \<Rightarrow> script \<Rightarrow> 's thread \<Rightarrow> 's received option" where
  "receive_splice io po fill llp buf sc t =
     do { (r, sc1, t1) \<leftarrow> splice_device fill (pipe_in llp) (bufsize (se t)) sc t;
          case r of
            Inl res \<Rightarrow> Some (res, buf, sc1, t1)
          | Inr n \<Rightarrow>
              if n < IN_HEADER_SIZE + WRITE_IN_SIZE + pagesize (se t1) then
                do { (res, buf1, t2) \<leftarrow> copy_small io po (pipe_out llp) n buf t1; Some (res, buf1, sc1, t2) }
              else
                Some (int n, buf\<lparr>buf_fd := pipe_out llp, buf_is_fd := True, buf_fd_seek := False, buf_fd_retry := False,
                                 buf_size := n\<rparr>, sc1, t1) }"

definition splice_reads :: "session \<Rightarrow> bool" where
  "splice_reads s \<longleftrightarrow> 14 \<le> proto_minor (conn s) \<and> has_bit (want (conn s)) FUSE_CAP_SPLICE_READ"

definition fuse_session_receive_buf_int ::
  "'s sys_io \<Rightarrow> 's pipe_ops \<Rightarrow> (int \<Rightarrow> bytes \<Rightarrow> 's \<Rightarrow> 's) \<Rightarrow> fuse_buf \<Rightarrow> script \<Rightarrow> 's thread \<Rightarrow> 's received option" where
  "fuse_session_receive_buf_int io po fill buf sc t =
     (if \<not> splice_reads (se t) then receive_fallback buf sc t
      else
        (case fuse_ll_get_pipe po t of
           (None, t1) \<Rightarrow> receive_fallback buf sc t1
         | (Some llp, t1) \<Rightarrow>
             (let (fits, t2) = fit_pipe po llp (bufsize (se t)) t1 in
              if \<not> fits then receive_fallback buf sc t2
              else receive_splice io po fill (the (th_pipe t2)) buf sc t2)))"

text \<open>Each call that reads the device uses up an answer; the loop ends with the list.\<close>

lemma read_device_shorter: "read_device a n sc t = Some (r, sc1, t1) \<Longrightarrow> length sc1 < length sc"
  by (induction a n sc t rule: read_device.induct) (auto simp: Let_def split: if_splits)

lemma splice_device_shorter: "splice_device fill fd n sc t = Some (r, sc1, t1) \<Longrightarrow> length sc1 < length sc"
  by (induction fill fd n sc t rule: splice_device.induct) (auto simp: Let_def split: if_splits)

lemma fallback_shorter:
  assumes "receive_fallback buf sc t = Some (res, b, sc1, t1)"
  shows "res = - ENOMEM \<or> length sc1 < length sc"
proof (cases "fst (own_buffer buf t)")
  case None
  then show ?thesis using assms by (simp add: receive_fallback_def split: prod.splits)
next
  case (Some a)
  then obtain t2 r sc2 t3 where r: "own_buffer buf t = (Some a, t2)" "read_device a (bufsize (se t2)) sc t2 = Some (r, sc2, t3)"
    using assms by (cases "own_buffer buf t") (auto simp: receive_fallback_def bind_eq_Some_conv)
  then have "sc2 = sc1" using assms by (cases r) (auto simp: receive_fallback_def)
  then show ?thesis using read_device_shorter [OF r(2)] by simp
qed

lemma receive_splice_shorter:
  assumes "receive_splice io po fill llp buf sc t = Some (res, b, sc1, t1)"
  shows "length sc1 < length sc"
proof -
  obtain r sc2 t2 where r: "splice_device fill (pipe_in llp) (bufsize (se t)) sc t = Some (r, sc2, t2)"
    using assms by (auto simp: receive_splice_def bind_eq_Some_conv)
  then have "sc2 = sc1"
    using assms by (cases r) (auto simp: receive_splice_def bind_eq_Some_conv split: if_splits)
  then show ?thesis using splice_device_shorter [OF r] by simp
qed

lemma receive_shorter:
  assumes "fuse_session_receive_buf_int io po fill buf sc t = Some (res, b, sc1, t1)"
  shows "res = - ENOMEM \<or> length sc1 < length sc"
proof (cases "splice_reads (se t)")
  case False
  then show ?thesis using assms fallback_shorter by (simp add: fuse_session_receive_buf_int_def)
next
  case True
  note eq = assms [unfolded fuse_session_receive_buf_int_def]
  obtain llo t2 where g: "fuse_ll_get_pipe po t = (llo, t2)" by (metis surj_pair)
  show ?thesis
  proof (cases llo)
    case None
    then show ?thesis using eq True g fallback_shorter by simp
  next
    case (Some llp)
    obtain fits t3 where f: "fit_pipe po llp (bufsize (se t)) t2 = (fits, t3)" by (metis surj_pair)
    show ?thesis
    proof (cases fits)
      case False
      then show ?thesis using eq True g Some f fallback_shorter by simp
    next
      case True
      then have "receive_splice io po fill (the (th_pipe t3)) buf sc t3 = Some (res, b, sc1, t1)"
        using eq \<open>splice_reads (se t)\<close> g Some f by simp
      then show ?thesis using receive_splice_shorter by blast
    qed
  qed
qed

section \<open>The loop\<close>

text \<open>
  The calls a request asks for, made of the high-level library.  An INIT is never left in a pipe, as only
  its answer allows that; its arguments are those in the buffer.
\<close>

fun run_calls ::
  "'s sys_io \<Rightarrow> 's pipe_ops \<Rightarrow> nat \<Rightarrow> fuse_buf \<Rightarrow> (nat \<times> ll_call) list \<Rightarrow> 's lib \<times> 's thread \<Rightarrow> ('s lib \<times> 's thread) option" where
  "run_calls io po i buf [(r, LL_init)] (L, t) =
     (if buf_is_fd buf then None
      else run_init r (drop IN_HEADER_SIZE (mem_load (mem (th_env t)) (buf_mem buf) (buf_size buf))) (L, t))"
| "run_calls io po i buf [(r, LL_destroy)] (L, t) = run_destroy r (L, t)"
| "run_calls io po i buf cs (L, t) = perform_all io po i cs (L, t)"

function loop_requests ::
  "'s sys_io \<Rightarrow> 's pipe_ops \<Rightarrow> (int \<Rightarrow> bytes \<Rightarrow> 's \<Rightarrow> 's) \<Rightarrow> nat \<Rightarrow> int \<Rightarrow> fuse_buf \<Rightarrow> script \<Rightarrow> 's lib \<times> 's thread
     \<Rightarrow> (int \<times> fuse_buf \<times> script \<times> 's lib \<times> 's thread) option" where
  "loop_requests io po fill i res buf sc D =
     (if fuse_session_exited (se (snd D)) then Some (res, buf, sc, D)
      else
        (case fuse_session_receive_buf_int io po fill buf sc (snd D) of
           None \<Rightarrow> None
         | Some (res1, buf1, sc1, t1) \<Rightarrow>
             if res1 = - EINTR then loop_requests io po fill i res1 buf1 sc1 (fst D, t1)
             else if res1 \<le> 0 then Some (res1, buf1, sc1, fst D, t1)
             else
               (case do { (cs, t2) \<leftarrow> fuse_session_process_buf_int io po buf1 None t1;
                          run_calls io po i buf1 cs (fst D, t2) } of
                  None \<Rightarrow> None
                | Some D1 \<Rightarrow> loop_requests io po fill i res1 buf1 sc1 D1)))"
  by pat_completeness auto
termination
proof (relation "measure (\<lambda>(io, po, fill, i, res, buf, sc, D). length sc)", goal_cases)
  case (2 io po fill i res buf sc D x res1 y buf1 z sc1 t1)
  then have "length sc1 < length sc"
    using receive_shorter [of io po fill buf sc "snd D" res1 buf1 sc1 t1] by (simp add: EINTR_def ENOMEM_def)
  then show ?case by simp
next
  case (3 io po fill i res buf sc D x res1 y buf1 z sc1 t1 D1)
  then have "length sc1 < length sc"
    using receive_shorter [of io po fill buf sc "snd D" res1 buf1 sc1 t1] by (simp add: ENOMEM_def)
  then show ?case by simp
qed simp

declare loop_requests.simps [simp del]

definition no_buf :: fuse_buf where
  "no_buf = \<lparr>buf_size = 0, buf_is_fd = False, buf_fd_seek = False, buf_fd_retry = False, buf_mem = 0, buf_fd = 0, buf_pos = 0\<rparr>"

definition fuse_session_loop ::
  "'s sys_io \<Rightarrow> 's pipe_ops \<Rightarrow> (int \<Rightarrow> bytes \<Rightarrow> 's \<Rightarrow> 's) \<Rightarrow> nat \<Rightarrow> script \<Rightarrow> 's lib \<times> 's thread
     \<Rightarrow> (int \<times> script \<times> 's lib \<times> 's thread) option" where
  "fuse_session_loop io po fill i sc D =
     do { (res, buf, sc1, L, t) \<leftarrow> loop_requests io po fill i 0 no_buf sc D;
          e \<leftarrow> free_mem (buf_mem buf) (th_env t);
          let res1 = (if 0 < res then 0 else res);
          let res2 = (if se_error (se t) \<noteq> 0 then se_error (se t) else res1);
          Some (res2, sc1, L, t\<lparr>se := fuse_session_reset (se t), th_env := e\<rparr>) }"

end
