(* ===== verification/SessionLoop.thy ===== *)
theory SessionLoop
  imports Receive
begin

text \<open>
  What the event loop guarantees: the requests the device hands out are answered one after the other, each
  once, until the file system is unmounted, and the read buffer is given back.  A request that was moved
  through a pipe reaches the same place as one that was read.
\<close>

section \<open>A buffer in memory\<close>

lemma exit_se_False [simp]: "exit_se False t = t"
  by (simp add: exit_se_def)

lemma receive_fallback_owned:
  "buf_mem buf \<noteq> 0 \<Longrightarrow> receive_fallback buf sc t =
     map_option (\<lambda>(r, sc1, t1). case r of Inl res \<Rightarrow> (res, buf, sc1, t1) | Inr n \<Rightarrow> (int n, buf\<lparr>buf_size := n\<rparr>, sc1, t1))
       (read_device (buf_mem buf) (bufsize (se t)) sc t)"
  by (cases "read_device (buf_mem buf) (bufsize (se t)) sc t")
    (auto simp: receive_fallback_def own_buffer_def split: sum.splits)

lemma receive_read: "\<not> splice_reads (se t) \<Longrightarrow> fuse_session_receive_buf_int io po fill buf sc t = receive_fallback buf sc t"
  by (simp add: fuse_session_receive_buf_int_def)

text \<open>The first read allocates the buffer.\<close>

lemma receive_first:
  assumes "\<not> splice_reads (se t)" "buf_mem buf = 0" "malloc (bufsize (se t)) (th_env t) = (Some a, e)" "a \<noteq> 0"
  shows "fuse_session_receive_buf_int io po fill buf sc t =
    fuse_session_receive_buf_int io po fill (buf\<lparr>buf_mem := a\<rparr>) sc (t\<lparr>th_env := e\<rparr>)"
  using assms by (simp add: receive_read receive_fallback_def own_buffer_def cong: sum.case_cong)

section \<open>What the device hands out\<close>

text \<open>A request to a number, with the fields of its header.\<close>

record client_request =
  cr_unique :: u64
  cr_uid :: u32
  cr_gid :: u32
  cr_pid :: u32
  cr_umask :: u32
  cr_ino :: u64
  cr_req :: plain_request

abbreviation cr_call :: "client_request \<Rightarrow> ll_call" where
  "cr_call x \<equiv> plain_call (cr_ino x) (cr_req x)"

definition cr_message :: "session \<Rightarrow> client_request \<Rightarrow> bytes" where
  "cr_message s x = kernel_message s (cr_unique x) (cr_uid x) (cr_gid x) (cr_pid x) (cr_umask x) (cr_call x)"

definition acceptable :: "fuse \<Rightarrow> session \<Rightarrow> client_request \<Rightarrow> bool" where
  "acceptable f s x \<longleftrightarrow> get_node f (cr_ino x) \<noteq> None \<and> request_ok s (cr_call x) \<and> handle_fits (cr_req x) \<and>
     (deny_others s \<longrightarrow> cr_uid x = 0 \<or> cr_uid x = owner s) \<and> length (cr_message s x) \<le> bufsize s"

text \<open>
  The device hands out these requests, in this order, and then says that the file system is gone; reads
  may be interrupted in between.
\<close>

fun hands_out :: "session \<Rightarrow> client_request list \<Rightarrow> script \<Rightarrow> bool" where
  "hands_out s xs [] = False"
| "hands_out s xs ((stop, Fails err) # sc) =
     (\<not> stop \<and> (if err = ENODEV then xs = [] else (err = ENOENT \<or> err = EINTR) \<and> hands_out s xs sc))"
| "hands_out s xs ((stop, Data M) # sc) =
     (\<not> stop \<and> (case xs of [] \<Rightarrow> False | x # ys \<Rightarrow> M = cr_message s x \<and> hands_out s ys sc))"

lemma cr_message_conn: "conn s = conn s' \<Longrightarrow> cr_message s = cr_message s'"
  using request_conn [of s s'] by (intro ext) (simp add: cr_message_def kernel_message_def)

lemma cr_message_long: "IN_HEADER_SIZE \<le> length (cr_message s x)"
proof -
  obtain opc nid m where "request s (cr_umask x) (cr_call x) = (opc, nid, m)"
    by (cases "request s (cr_umask x) (cr_call x)") auto
  then show ?thesis by (simp add: cr_message_def kernel_message_headed headed_length)
qed

lemma hands_out_conn: "conn s = conn s' \<Longrightarrow> hands_out s xs sc = hands_out s' xs sc"
  by (induction s xs sc rule: hands_out.induct) (auto dest!: cr_message_conn split: list.splits)

lemma get_node_allocs [simp]: "get_node (f\<lparr>allocs := al\<rparr>) ino = get_node f ino"
proof -
  have "has_id (f\<lparr>allocs := al\<rparr>) ino = has_id f ino" by (rule ext) (simp add: has_id_def)
  then show ?thesis by (simp add: get_node_def get_node_nocheck_def id_hash_def)
qed

lemma acceptable_setup:
  "same_setup (s\<lparr>req_next := k\<rparr>) s' \<Longrightarrow> acceptable f s x \<Longrightarrow> acceptable (f\<lparr>allocs := al\<rparr>) s' x"
  using same_setup_fields [of "s\<lparr>req_next := k\<rparr>" s'] request_ok_conn [of s' s] cr_message_conn [of s' s]
  by (simp add: acceptable_def)

section \<open>The loop\<close>

text \<open>The state in which the loop comes to its next read, \<open>buf\<close> being its buffer.\<close>

definition at_read :: "fuse_buf \<Rightarrow> 's lib \<Rightarrow> 's thread \<Rightarrow> bool" where
  "at_read buf L t \<longleftrightarrow> idle (tree L) \<and> \<not> interruptible L \<and> keeps_memory L \<and>
     has_op (se t) = fuse_path_ops \<and> got_init (se t) \<and> s_allocs (se t) = [] \<and> interrupts (se t) = [] \<and>
     \<not> exited (se t) \<and> \<not> splice_reads (se t) \<and> write_results (se t) = [] \<and> se_error (se t) = 0 \<and>
     (\<forall>r \<in> set (se_list (se t)). r < req_next (se t)) \<and>
     \<not> buf_is_fd buf \<and> buf_mem buf \<noteq> 0 \<and> buf_mem buf \<in> set (taken (th_env t))"

lemma perform_run_calls:
  assumes "perform_all io po i cs (L, t) = Some D"
  shows "run_calls io po i buf cs (L, t) = Some D"
proof (cases "\<exists>r. cs = [(r, LL_init)] \<or> cs = [(r, LL_destroy)]")
  case True
  then show ?thesis using assms by (auto simp: perform_def bind_eq_Some_conv)
next
  case False
  then have "run_calls io po i buf cs (L, t) = perform_all io po i cs (L, t)"
    by (cases "(io, po, i, buf, cs, (L, t))" rule: run_calls.cases) auto
  then show ?thesis using assms by simp
qed

lemma receive_data:
  assumes "\<not> splice_reads (se t)" "\<not> exited (se t)" "buf_mem buf \<noteq> 0" "length M \<le> bufsize (se t)" "IN_HEADER_SIZE \<le> length M"
  shows "fuse_session_receive_buf_int io po fill buf ((False, Data M) # sc) t =
    Some (int (length M), buf\<lparr>buf_size := length M\<rparr>, sc,
          t\<lparr>th_env := (th_env t)\<lparr>mem := mem_store (mem (th_env t)) (buf_mem buf) M\<rparr>\<rparr>)"
  using assms by (simp add: receive_read receive_fallback_owned fuse_session_exited_def Let_def)

lemma taken_mem [simp]: "taken (e\<lparr>mem := m\<rparr>) = taken e"
  by (simp add: taken_def)

text \<open>One request: it is read, answered, and the loop is back at its read.\<close>

lemma loop_step:
  assumes inv: "at_read buf L t" and x: "acceptable (tree L) (se t) x"
  shows "\<exists>L2 t2 msg al. loop_requests io po fill i res buf ((False, Data (cr_message (se t) x)) # sc) (L, t) =
      loop_requests io po fill i (int (length (cr_message (se t) x))) (buf\<lparr>buf_size := length (cr_message (se t) x)\<rparr>) sc (L2, t2) \<and>
    at_read (buf\<lparr>buf_size := length (cr_message (se t) x)\<rparr>) L2 t2 \<and> well_formed (glibc (se t)) (cr_unique x) msg \<and>
    sent (se t2) = sent (se t) @ [(None, msg)] \<and> se_list (se t2) = se_list (se t) \<and>
    tree L2 = (tree L)\<lparr>allocs := al\<rparr> \<and> taken (th_env t2) = taken (th_env t) \<and>
    same_setup ((se t)\<lparr>req_next := req_next (se t) + 1\<rparr>) (se t2)"
proof -
  let ?M = "cr_message (se t) x" let ?buf = "buf\<lparr>buf_size := length ?M\<rparr>"
  let ?t1 = "t\<lparr>th_env := (th_env t)\<lparr>mem := mem_store (mem (th_env t)) (buf_mem buf) ?M\<rparr>\<rparr>"
  note I = inv [unfolded at_read_def]
  have len: "IN_HEADER_SIZE \<le> length ?M" "?M \<noteq> []" using cr_message_long [of "se t" x] by (auto simp: IN_HEADER_SIZE_def)
  have rec: "fuse_session_receive_buf_int io po fill buf ((False, Data ?M) # sc) t = Some (int (length ?M), ?buf, sc, ?t1)"
    using I x len by (intro receive_data) (simp_all add: acceptable_def)
  have h: "holds_message (th_env ?t1) ?buf ?M" using I by (simp add: holds_message_def mem_load_store)
  obtain cs t1 L2 t2 msg al where p: "fuse_session_process_buf_int io po ?buf None ?t1 = Some (cs, t1)"
      "perform_all io po i cs (L, t1) = Some (L2, t2)" "well_formed (glibc (se t)) (cr_unique x) msg"
      "sent (se t2) = sent (se t) @ [(None, msg)]" "write_results (se t2) = []" "se_list (se t2) = se_list (se t)"
      "tree L2 = (tree L)\<lparr>allocs := al\<rparr>" "same_setup ((se t)\<lparr>req_next := req_next (se t) + 1\<rparr>) (se t2)"
      "interrupts (se t2) = []" "fsys L2 = fsys L" "\<not> interruptible L2" "taken (th_env t2) = taken (th_env t)"
    using plain_answered [of L "cr_ino x" ?t1 "cr_uid x" "cr_req x" ?buf ?M "cr_unique x" "cr_gid x" "cr_pid x" "cr_umask x" io po i]
      I x h by (force simp: acceptable_def ready_def cr_message_def xattr_keep)
  have "loop_requests io po fill i res buf ((False, Data ?M) # sc) (L, t) =
      loop_requests io po fill i (int (length ?M)) ?buf sc (L2, t2)"
    using I rec len p(1) perform_run_calls [OF p(2), of ?buf]
    by (subst loop_requests.simps) (simp add: fuse_session_exited_def EINTR_def)
  moreover have "at_read ?buf L2 t2"
    using I p same_setup_fields [OF p(8)] idle_allocs by (auto simp: at_read_def splice_reads_def)
  ultimately show ?thesis using p by blast
qed

text \<open>Reads that are interrupted change nothing.\<close>

lemma loop_interrupted:
  assumes "at_read buf L t"
  shows "loop_requests io po fill i res buf ((False, Fails ENOENT) # sc) (L, t) = loop_requests io po fill i res buf sc (L, t)"
    "\<exists>res1. loop_requests io po fill i res buf ((False, Fails EINTR) # sc) (L, t) = loop_requests io po fill i res1 buf sc (L, t)"
proof -
  note I = assms [unfolded at_read_def]
  have "receive_fallback buf ((False, Fails ENOENT) # sc) t = receive_fallback buf sc t"
    using I by (simp add: receive_fallback_owned fuse_session_exited_def Let_def)
  then show "loop_requests io po fill i res buf ((False, Fails ENOENT) # sc) (L, t) = loop_requests io po fill i res buf sc (L, t)"
    using I by (subst (1 2) loop_requests.simps) (simp add: receive_read fuse_session_exited_def)
  have "receive_fallback buf ((False, Fails EINTR) # sc) t = Some (- EINTR, buf, sc, t)"
    using I by (simp add: receive_fallback_owned fuse_session_exited_def Let_def EINTR_def ENOENT_def ENODEV_def)
  then have "loop_requests io po fill i res buf ((False, Fails EINTR) # sc) (L, t) = loop_requests io po fill i (- EINTR) buf sc (L, t)"
    using I by (subst loop_requests.simps) (simp add: receive_read fuse_session_exited_def)
  then show "\<exists>res1. loop_requests io po fill i res buf ((False, Fails EINTR) # sc) (L, t) =
      loop_requests io po fill i res1 buf sc (L, t)" by blast
qed

lemma loop_unmounted:
  assumes "at_read buf L t"
  shows "loop_requests io po fill i res buf ((False, Fails ENODEV) # sc) (L, t) =
    Some (0, buf, sc, L, t\<lparr>se := fuse_session_exit (se t)\<rparr>)"
proof -
  note I = assms [unfolded at_read_def]
  have "receive_fallback buf ((False, Fails ENODEV) # sc) t = Some (0, buf, sc, t\<lparr>se := fuse_session_exit (se t)\<rparr>)"
    using I by (simp add: receive_fallback_owned fuse_session_exited_def Let_def EINTR_def ENOENT_def ENODEV_def)
  then show ?thesis using I by (subst loop_requests.simps) (simp add: receive_read fuse_session_exited_def EINTR_def)
qed

text \<open>What the loop has done when it is left: one answer to each request, and nothing else.\<close>

definition answered :: "client_request list \<Rightarrow> 's lib \<times> 's thread \<Rightarrow> 's lib \<times> 's thread \<Rightarrow> bool" where
  "answered xs D D' \<longleftrightarrow> (\<exists>msgs al. list_all2 (\<lambda>x msg. well_formed (glibc (se (snd D))) (cr_unique x) msg) xs msgs \<and>
     sent (se (snd D')) = sent (se (snd D)) @ map (Pair None) msgs \<and> se_list (se (snd D')) = se_list (se (snd D)) \<and>
     tree (fst D') = (tree (fst D))\<lparr>allocs := al\<rparr> \<and> taken (th_env (snd D')) = taken (th_env (snd D)) \<and>
     se_error (se (snd D')) = se_error (se (snd D)) \<and> glibc (se (snd D')) = glibc (se (snd D)))"

lemma answered_none:
  "tree L2 = tree L \<Longrightarrow> sent (se t2) = sent (se t) \<Longrightarrow> se_list (se t2) = se_list (se t) \<Longrightarrow> th_env t2 = th_env t \<Longrightarrow>
   se_error (se t2) = se_error (se t) \<Longrightarrow> glibc (se t2) = glibc (se t) \<Longrightarrow> answered [] (L, t) (L2, t2)"
  unfolding answered_def by (intro exI [of _ "[]"] exI [of _ "allocs (tree L)"]) simp

lemma answered_more:
  assumes "answered xs (L1, t1) D" "well_formed (glibc (se t)) (cr_unique x) msg" "sent (se t1) = sent (se t) @ [(None, msg)]"
    "se_list (se t1) = se_list (se t)" "tree L1 = (tree L)\<lparr>allocs := al\<rparr>" "taken (th_env t1) = taken (th_env t)"
    "se_error (se t1) = se_error (se t)" "glibc (se t1) = glibc (se t)"
  shows "answered (x # xs) (L, t) D"
proof -
  obtain msgs al1 where "list_all2 (\<lambda>x msg. well_formed (glibc (se t1)) (cr_unique x) msg) xs msgs"
      "sent (se (snd D)) = sent (se t1) @ map (Pair None) msgs" "se_list (se (snd D)) = se_list (se t1)"
      "tree (fst D) = (tree L1)\<lparr>allocs := al1\<rparr>" "taken (th_env (snd D)) = taken (th_env t1)"
      "se_error (se (snd D)) = se_error (se t1)" "glibc (se (snd D)) = glibc (se t1)"
    using assms(1) by (auto simp: answered_def)
  then show ?thesis unfolding answered_def using assms(2-)
    by (intro exI [of _ "msg # msgs"] exI [of _ al1]) simp
qed

lemma loop_answers:
  "hands_out s xs sc \<Longrightarrow> conn (se t) = conn s \<Longrightarrow> at_read buf L t \<Longrightarrow> \<forall>x \<in> set xs. acceptable (tree L) (se t) x \<Longrightarrow>
   \<exists>n rest L2 t2. loop_requests io po fill i res buf sc (L, t) = Some (0, buf\<lparr>buf_size := n\<rparr>, rest, L2, t2) \<and>
     answered xs (L, t) (L2, t2)"
proof (induction s xs sc arbitrary: L t res buf rule: hands_out.induct)
  case (1 s xs)
  then show ?case by simp
next
  case (2 s xs stop err sc)
  show ?case
  proof (cases "err = ENODEV")
    case True
    have "stop = False" "xs = []" using 2(2) True by simp_all
    moreover have "answered [] (L, t) (L, t\<lparr>se := fuse_session_exit (se t)\<rparr>)"
      by (rule answered_none) (simp_all add: fuse_session_exit_def)
    moreover have "loop_requests io po fill i res buf ((False, Fails ENODEV) # sc) (L, t) =
        Some (0, buf\<lparr>buf_size := buf_size buf\<rparr>, sc, L, t\<lparr>se := fuse_session_exit (se t)\<rparr>)"
      using loop_unmounted [OF 2(4)] by simp
    ultimately show ?thesis using True by blast
  next
    case False
    then have out: "stop = False" "err = ENOENT \<or> err = EINTR" "hands_out s xs sc" using 2(2) by simp_all
    note go = 2(1) [OF False out(3) 2(3-5)]
    obtain res1 where "loop_requests io po fill i res buf ((False, Fails err) # sc) (L, t) =
        loop_requests io po fill i res1 buf sc (L, t)"
      using loop_interrupted [OF 2(4), of io po fill i res sc] out(2) by blast
    then show ?thesis using go [of res1] out(1) by simp
  qed
next
  case (3 s xs stop M sc)
  then obtain x ys where xs: "xs = x # ys" "M = cr_message s x" "hands_out s ys sc" "stop = False"
    by (auto split: list.splits)
  have m: "cr_message s x = cr_message (se t) x" using cr_message_conn [OF 3(3)] by simp
  let ?buf = "buf\<lparr>buf_size := length M\<rparr>"
  have "acceptable (tree L) (se t) x" using 3(5) xs(1) by simp
  then obtain L2 t2 msg al where s: "loop_requests io po fill i res buf ((False, Data M) # sc) (L, t) =
      loop_requests io po fill i (int (length M)) ?buf sc (L2, t2)" "at_read ?buf L2 t2" "well_formed (glibc (se t)) (cr_unique x) msg"
      "sent (se t2) = sent (se t) @ [(None, msg)]" "se_list (se t2) = se_list (se t)" "tree L2 = (tree L)\<lparr>allocs := al\<rparr>"
      "taken (th_env t2) = taken (th_env t)" "same_setup ((se t)\<lparr>req_next := req_next (se t) + 1\<rparr>) (se t2)"
    using loop_step [OF 3(4), of x io po fill i res sc] xs(2) m by metis
  have c: "conn (se t2) = conn (se t)" "se_error (se t2) = se_error (se t)" "glibc (se t2) = glibc (se t)"
    using same_setup_fields [OF s(8)] by simp_all
  have "\<forall>y \<in> set ys. acceptable (tree L2) (se t2) y"
    using acceptable_setup [OF s(8)] 3(5) xs(1) s(6) by simp
  then obtain n rest L3 t3 where "loop_requests io po fill i (int (length M)) ?buf sc (L2, t2) =
      Some (0, ?buf\<lparr>buf_size := n\<rparr>, rest, L3, t3)" "answered ys (L2, t2) (L3, t3)"
    using 3(1) [OF xs(1) xs(3) _ s(2)] c(1) 3(3) by metis
  moreover have "answered xs (L, t) (L3, t3)"
    unfolding xs(1) by (rule answered_more [OF calculation(2) s(3-7) c(2,3)])
  ultimately show ?case using s(1) xs(4) by auto
qed

lemma loop_start:
  assumes "\<not> exited (se t)" "\<not> splice_reads (se t)" "malloc (bufsize (se t)) (th_env t) = (Some a, e)" "a \<noteq> 0"
  shows "loop_requests io po fill i 0 no_buf sc (L, t) =
    loop_requests io po fill i 0 (no_buf\<lparr>buf_mem := a\<rparr>) sc (L, t\<lparr>th_env := e\<rparr>)"
proof -
  have "buf_mem no_buf = 0" by (simp add: no_buf_def)
  then have "fuse_session_receive_buf_int io po fill no_buf sc t =
      fuse_session_receive_buf_int io po fill (no_buf\<lparr>buf_mem := a\<rparr>) sc (t\<lparr>th_env := e\<rparr>)"
    using assms by (intro receive_first)
  then show ?thesis using assms(1)
    by (cases "fuse_session_receive_buf_int io po fill (no_buf\<lparr>buf_mem := a\<rparr>) sc (t\<lparr>th_env := e\<rparr>)")
      (subst (1 2) loop_requests.simps, auto simp: fuse_session_exited_def)+
qed

lemma taken_free:
  assumes "taken e = a # rest" "a \<noteq> 0"
  obtains e1 where "free_mem a e = Some e1" "taken e1 = rest"
proof -
  have "a \<in> set (taken e)" using assms(1) by simp
  then have "free_mem a e = Some (e\<lparr>blocks := remove1 a (blocks e)\<rparr>)" using assms(2) by (simp add: free_mem_def taken_def)
  moreover have "taken (e\<lparr>blocks := remove1 a (blocks e)\<rparr>) = remove1 a (taken e)"
    using assms(2) by (simp add: taken_def filter_remove1)
  ultimately show thesis using that assms(1) by simp
qed

section \<open>Through a pipe\<close>

lemma copy_from_pipe:
  assumes "io_read io fd (length M) w = (Inr M, w')" "M \<noteq> []" "length M \<le> n" "\<not> buf_is_fd dst" "buf_size dst = n"
  shows "\<exists>dv sv. fuse_buf_copy io False (vec_of [dst]) (vec_of [pipe_buf fd (length M)]) no_flags m w =
    Some (int (length M), dv, sv, mem_store m (buf_mem dst) M, w')"
proof -
  have "read_loop io (pipe_buf fd (length M)) 0 (length M) [] w = (int (length M), M, w')"
    using assms(1,2) by (subst read_loop.simps) (simp add: pipe_buf_def)
  then have "fuse_buf_copy_one io dst 0 (pipe_buf fd (length M)) 0 (length M) no_flags m w =
      (int (length M), mem_store m (buf_mem dst) M, w')"
    using assms(4) by (simp add: fuse_buf_copy_one_def fuse_buf_read_def pipe_buf_def)
  moreover have "min_size (length M) n = length M" using assms(3) by (simp add: min_size_def)
  moreover have "buf_size (pipe_buf fd (length M)) = length M" by (simp add: pipe_buf_def)
  ultimately show ?thesis using assms(5)
    by (simp add: fuse_buf_copy_def copy_loop.simps vec_of_def fuse_bufvec_current_def fuse_bufvec_advance_def Let_def)
qed

lemma pipe_fits: "th_pipe t = Some llp \<Longrightarrow> n \<le> pp_size llp \<Longrightarrow> fuse_ll_get_pipe po t = (Some llp, t) \<and> fit_pipe po llp n t = (True, t)"
  by (simp add: fuse_ll_get_pipe_def fit_pipe_def)

lemma splice_small:
  assumes s: "splice_reads (se t)" "th_pipe t = Some llp" "bufsize (se t) \<le> pp_size llp" "buf_mem buf \<noteq> 0" "\<not> exited (se t)"
    and M: "IN_HEADER_SIZE \<le> length M" "length M \<le> bufsize (se t)" "length M < IN_HEADER_SIZE + WRITE_IN_SIZE + pagesize (se t)"
    and pipe: "io_read io (pipe_out llp) (length M) (fill (pipe_in llp) M (fs_state (th_env t))) = (Inr M, fs_state (th_env t))"
  shows "fuse_session_receive_buf_int io po fill buf ((False, Data M) # sc) t =
    Some (int (length M), buf\<lparr>buf_size := length M, buf_is_fd := False, buf_fd_seek := False, buf_fd_retry := False\<rparr>, sc,
          t\<lparr>th_env := (th_env t)\<lparr>mem := mem_store (mem (th_env t)) (buf_mem buf) M\<rparr>\<rparr>)"
proof -
  let ?w = "fill (pipe_in llp) M (fs_state (th_env t))" and ?e = "th_env t"
  let ?t1 = "t\<lparr>th_env := ?e\<lparr>fs_state := ?w\<rparr>\<rparr>"
  let ?b = "buf\<lparr>buf_size := bufsize (se t), buf_is_fd := False, buf_fd_seek := False, buf_fd_retry := False\<rparr>"
  have ne: "M \<noteq> []" using M(1) by (auto simp: IN_HEADER_SIZE_def)
  have k: "kern (\<lambda>w. ((), fill (pipe_in llp) M w)) t = ((), ?t1)" by (simp add: kern_def)
  have sp: "splice_device fill (pipe_in llp) (bufsize (se t)) ((False, Data M) # sc) t = Some (Inr (length M), sc, ?t1)"
    using M(1,2) s(5) k by (simp add: fuse_session_exited_def Let_def)
  obtain dv sv where c: "fuse_buf_copy io False (vec_of [?b]) (vec_of [pipe_buf (pipe_out llp) (length M)]) no_flags (mem ?e) ?w =
      Some (int (length M), dv, sv, mem_store (mem ?e) (buf_mem buf) M, fs_state ?e)"
    using copy_from_pipe [OF pipe ne M(2), of ?b "mem ?e"] by auto
  have "copy_small io po (pipe_out llp) (length M) buf ?t1 =
      Some (int (length M), ?b\<lparr>buf_size := length M\<rparr>, t\<lparr>th_env := ?e\<lparr>mem := mem_store (mem ?e) (buf_mem buf) M\<rparr>\<rparr>)"
    using c s(4) by (simp add: copy_small_def own_buffer_def)
  then have "receive_splice io po fill llp buf ((False, Data M) # sc) t =
      Some (int (length M), ?b\<lparr>buf_size := length M\<rparr>, sc, t\<lparr>th_env := ?e\<lparr>mem := mem_store (mem ?e) (buf_mem buf) M\<rparr>\<rparr>)"
    using sp M(3) by (simp add: receive_splice_def)
  then show ?thesis using s(1,2) pipe_fits [OF s(2,3), of po] by (simp add: fuse_session_receive_buf_int_def)
qed

lemma fallback_data:
  assumes "\<not> exited (se t)" "buf_mem buf \<noteq> 0" "length M \<le> bufsize (se t)" "IN_HEADER_SIZE \<le> length M"
  shows "receive_fallback buf ((False, Data M) # sc) t =
    Some (int (length M), buf\<lparr>buf_size := length M\<rparr>, sc,
          t\<lparr>th_env := (th_env t)\<lparr>mem := mem_store (mem (th_env t)) (buf_mem buf) M\<rparr>\<rparr>)"
  using assms by (simp add: receive_fallback_owned fuse_session_exited_def Let_def)

section \<open>A descriptor that is left in the buffer\<close>

lemma copy_from_closed:
  assumes "io_read io fd n w = (Inl e, w)" "0 < n" "0 < e" "fd = buf_fd src" "buf_is_fd src" "\<not> buf_fd_seek src" "n = buf_size dst"
    "n \<le> buf_size src" "\<not> buf_is_fd dst"
  shows "fuse_buf_copy io False (vec_of [dst]) (vec_of [src]) no_flags m w = Some (- e, vec_of [dst], vec_of [src], m, w)"
proof -
  have "read_loop io src 0 n [] w = (- e, [], w)"
    using assms by (subst read_loop.simps) simp
  moreover have "mem_store m (buf_mem dst) [] = m" by (rule ext) (auto simp: mem_store_def)
  ultimately have "fuse_buf_copy_one io dst 0 src 0 n no_flags m w = (- e, m, w)"
    using assms by (simp add: fuse_buf_copy_one_def fuse_buf_read_def)
  then show ?thesis using assms
    by (simp add: fuse_buf_copy_def copy_loop.simps vec_of_def fuse_bufvec_current_def min_size_def Let_def)
qed

section \<open>Properties\<close>


definition demo_requests :: "client_request list" where
  "demo_requests =
     [\<lparr>cr_unique = 2, cr_uid = 1000, cr_gid = 1000, cr_pid = 4711, cr_umask = 0, cr_ino = FUSE_ROOT_ID, cr_req = Statfs\<rparr>,
      \<lparr>cr_unique = 4, cr_uid = 0, cr_gid = 0, cr_pid = 1, cr_umask = 0, cr_ino = FUSE_ROOT_ID, cr_req = Access 4\<rparr>]"

definition demo_script :: script where
  "demo_script = (False, Fails EINTR) # (False, Data (cr_message demo_session (demo_requests ! 0))) # (False, Fails ENOENT) #
     (False, Data (cr_message demo_session (demo_requests ! 1))) # [(False, Fails ENODEV)]"

lemma demo_message:
  "cr_req x = Statfs \<Longrightarrow> length (cr_message s x) = 40" "cr_req x = Access msk \<Longrightarrow> length (cr_message s x) = 48"
  by (simp_all add: cr_message_def kernel_message_def fuse_in_header_def fuse_access_in_def)



text \<open>A kernel with one pipe, first in, first out; descriptor 5 reads it, descriptor 6 fills it.\<close>

definition pipe_io :: "bytes sys_io" where
  "pipe_io = (demo_io [])\<lparr>io_read := (\<lambda>fd n w. if fd = 5 then (Inr (take n w), drop n w) else (Inl 9, w))\<rparr>"

definition pipe_fill :: "int \<Rightarrow> bytes \<Rightarrow> bytes \<Rightarrow> bytes" where
  "pipe_fill fd bs w = (if fd = 6 then w @ bs else w)"

definition splice_session :: session where
  "splice_session = demo_session\<lparr>conn := demo_conn\<lparr>want := FUSE_CAP_SPLICE_READ\<rparr>\<rparr>"

definition splice_thread :: "fuse_ll_pipe option \<Rightarrow> bytes thread" where
  "splice_thread p =
     (demo_thread [])\<lparr>th_pipe := p, se := splice_session, th_env := (th_env (demo_thread []))\<lparr>fs_state := []\<rparr>\<rparr>"

lemma splice_session_simps:
  "splice_reads (se (splice_thread p))" "bufsize (se (splice_thread p)) = 0x21000" "\<not> exited (se (splice_thread p))"
  "pagesize (se (splice_thread p)) = 4096" "s_allocs (se (splice_thread p)) = []" "th_pipe (splice_thread p) = p"
  "se (splice_thread p) = splice_session" "bufsize splice_session = 0x21000"
  by (simp_all add: splice_thread_def splice_session_def demo_session_def splice_reads_def demo_conn_def FUSE_CAP_SPLICE_READ_def
      has_bit_def)


text \<open>
  A deviation: only the two ways out of the pipe set the flags of the buffer, the read into memory does
  not.  After a request that was left in the pipe, if the thread has lost its pipe and gets no new one, the
  next request is read into memory and still processed as if it lay behind the old descriptor, which is
  closed: nothing is called and nothing is sent, so the request is lost, although it was received with its
  full length.
\<close>
lemma stale_descriptor_loses_request:
  assumes "splice_reads (se t)" "th_pipe t = None" "s_allocs (se t) = []" "\<And>w. po_pipe po w = (None, w)"
    and "buf_is_fd buf" "\<not> buf_fd_seek buf" "buf_mem buf \<noteq> 0" "\<not> exited (se t)"
    and "IN_HEADER_SIZE \<le> length M" "length M \<le> bufsize (se t)"
    and "\<And>n w. io_read io (buf_fd buf) n w = (Inl EBADF, w)"
    and "malloc (min (length M) WRITE_HEADER_SIZE) (th_env t) = (Some a, e)" "a \<noteq> 0"
  shows "\<exists>buf1 t1 t2. fuse_session_receive_buf_int io po fill buf ((False, Data M) # sc) t = Some (int (length M), buf1, sc, t1) \<and>
    mem_load (mem (th_env t1)) (buf_mem buf1) (length M) = M \<and>
    fuse_session_process_buf_int io po buf1 None t1 = Some ([], t2) \<and> se t2 = se t"
proof -
  let ?buf = "buf\<lparr>buf_size := length M\<rparr>" and ?m = "mem_store (mem (th_env t)) (buf_mem buf) M" and ?n = "min (length M) WRITE_HEADER_SIZE"
  let ?t1 = "t\<lparr>th_env := (th_env t)\<lparr>mem := ?m\<rparr>\<rparr>"
  have nz: "0 < ?n" using assms(9) by (auto simp: IN_HEADER_SIZE_def WRITE_HEADER_SIZE_def)
  have "take_alloc (se t) = (True, se t)" by (rule take_alloc_ready [OF assms(3)])
  then have "fuse_ll_get_pipe po t = (None, t)" using assms(2,4) by (simp add: fuse_ll_get_pipe_def on_se_def kern_def)
  then have rec: "fuse_session_receive_buf_int io po fill buf ((False, Data M) # sc) t = Some (int (length M), ?buf, sc, ?t1)"
    using assms(1) fallback_data [OF assms(8,7,10,9), of sc] by (simp add: fuse_session_receive_buf_int_def)
  have al: "malloc ?n (th_env ?t1) = (Some a, e\<lparr>mem := ?m\<rparr>)" "a \<in> set (blocks e)"
    using assms(12) by (auto simp: malloc_def Let_def split: prod.splits if_splits)
  let ?dst = "set_mem a (bufvec_init ?n)" and ?e = "e\<lparr>mem := ?m\<rparr>"
  obtain d where d: "?dst = vec_of [d]" "buf_size d = ?n" "\<not> buf_is_fd d"
    by (simp add: set_mem_def bufvec_init_def vec_of_def)
  have "fuse_buf_copy io False ?dst (vec_of [?buf]) no_flags ?m (fs_state ?e) =
      Some (- EBADF, ?dst, vec_of [?buf], ?m, fs_state ?e)"
    unfolding d(1) using assms(5,6,11) nz d(2,3)
    by (intro copy_from_closed [where fd = "buf_fd buf" and n = ?n]) (simp_all add: EBADF_def)
  then have "fuse_ll_copy_from_pipe io ?dst (vec_of [?buf]) ?e = Some (to_int (- EBADF), vec_of [?buf], ?e)"
    by (simp add: fuse_ll_copy_from_pipe_def EBADF_def)
  moreover have "free_mem a ?e = Some (?e\<lparr>blocks := remove1 a (blocks e)\<rparr>)" (is "_ = Some ?e2")
    using al(2) assms(13) by (simp add: free_mem_def)
  moreover have "fuse_ll_clear_pipe po (?t1\<lparr>th_env := ?e2\<rparr>) = ?t1\<lparr>th_env := ?e2\<rparr>"
    using assms(2) by (simp add: fuse_ll_clear_pipe_def)
  ultimately have "fuse_session_process_buf_int io po ?buf None ?t1 = Some ([], ?t1\<lparr>th_env := ?e2\<rparr>)"
    using assms(5) al(1) by (simp add: fuse_session_process_buf_int_def EBADF_def to_int_def)
  then show ?thesis using rec by (auto simp: mem_load_store)
qed

lemma stale_descriptor_loses_request_witness:
  "\<exists>buf1 t1 t2. fuse_session_receive_buf_int pipe_io demo_pipes pipe_fill (pipe_buf 7 5000\<lparr>buf_mem := 100\<rparr>)
       [(False, Data (cr_message demo_session (demo_requests ! 1)))] (splice_thread None) = Some (48, buf1, [], t1) \<and>
     fuse_session_process_buf_int pipe_io demo_pipes buf1 None t1 = Some ([], t2) \<and> se t2 = splice_session"
proof -
  let ?M = "cr_message demo_session (demo_requests ! 1)" and ?b = "pipe_buf 7 5000\<lparr>buf_mem := 100\<rparr>" and ?t = "splice_thread None"
  have len: "length ?M = 48" by (simp add: demo_requests_def demo_message)
  obtain a e where m: "malloc (min (length ?M) WRITE_HEADER_SIZE) (th_env ?t) = (Some a, e)" "a \<noteq> 0"
    by (simp add: splice_thread_def demo_thread_def malloc_def demo_data_def demo_env_def)
  have b: "buf_is_fd ?b" "\<not> buf_fd_seek ?b" "buf_mem ?b \<noteq> 0" "IN_HEADER_SIZE \<le> length ?M" "length ?M \<le> bufsize (se ?t)"
    using len by (simp_all only: splice_session_simps) (simp_all add: pipe_buf_def IN_HEADER_SIZE_def)
  have c: "io_read pipe_io (buf_fd ?b) n w = (Inl EBADF, w)" "po_pipe demo_pipes w = (None, w)" for n w
    by (simp_all add: pipe_io_def pipe_buf_def EBADF_def demo_pipes_def)
  show ?thesis
    using stale_descriptor_loses_request [OF splice_session_simps(1,6,5) c(2) b(1-3) splice_session_simps(3) b(4,5) c(1) m,
        of pipe_fill "[]"] len splice_session_simps(7) by auto
qed

end
