(* ===== verification/Subdir.thy ===== *)
theory Subdir
  imports FuseOpt Requests
begin

text \<open>
  The file system module \<open>.deps/libfuse3-3.16.2/lib/modules/subdir.c\<close>, which puts a directory in front of
  every path and hands the operation on to the next file system.

  The record \<open>subdir\<close> is the struct that the private data of the context points to.  A path that was made
  is a block of memory and its text; it is given back when the operation is over.
\<close>

section \<open>State\<close>

record 's subdir =
  sd_base :: string
  baselen :: nat
  rellinks :: bool
  sd_next :: "'s fuse_fs"

abbreviation SLASH :: char where
  "SLASH \<equiv> CHR 0x2F"

section \<open>Paths\<close>

definition without_slash :: "string \<Rightarrow> string" where
  "without_slash p = (case p of [] \<Rightarrow> [] | c # cs \<Rightarrow> if c = SLASH then cs else p)"

definition dot_if_empty :: "string \<Rightarrow> string" where
  "dot_if_empty p = (if p = [] then ''.'' else p)"

definition subdir_addpath :: "'s subdir \<Rightarrow> path \<Rightarrow> 's env \<Rightarrow> int \<times> (nat \<times> string) option \<times> 's env" where
  "subdir_addpath d p e =
     (case p of
        None \<Rightarrow> (0, None, e)
      | Some s \<Rightarrow>
          (case malloc (((baselen d + length s) mod 2 ^ 32 + 2) mod 2 ^ 32) e of
             (None, e1) \<Rightarrow> (- ENOMEM, None, e1)
           | (Some a, e1) \<Rightarrow> (0, Some (a, dot_if_empty (sd_base d @ without_slash s)), e1)))"

text \<open>\<open>free(newpath)\<close>; the block is the one \<open>subdir_addpath\<close> got.\<close>

definition free_path_text :: "(nat \<times> string) option \<Rightarrow> 's env \<Rightarrow> 's env" where
  "free_path_text np e = (case np of None \<Rightarrow> e | Some (a, s) \<Rightarrow> e\<lparr>blocks := remove1 a (blocks e)\<rparr>)"

text \<open>What nearly every operation does; \<open>untouched\<close> is what stays behind pointers after an error.\<close>

definition with_newpath ::
  "'s subdir \<Rightarrow> path \<Rightarrow> 'a \<Rightarrow> (path \<Rightarrow> 's env \<Rightarrow> ('s, 'a) res) \<Rightarrow> 's env \<Rightarrow> ('s, 'a) res" where
  "with_newpath d p untouched f e =
     (case subdir_addpath d p e of (err, np, e1) \<Rightarrow>
        if err \<noteq> 0 then (err, untouched, e1)
        else (case f (map_option snd np) e1 of (res, x, e2) \<Rightarrow> (res, x, free_path_text np e2)))"

definition with_newpaths ::
  "'s subdir \<Rightarrow> path \<Rightarrow> path \<Rightarrow> (path \<Rightarrow> path \<Rightarrow> 's env \<Rightarrow> ('s, unit) res) \<Rightarrow> 's env \<Rightarrow> ('s, unit) res" where
  "with_newpaths d p q f e =
     with_newpath d p () (\<lambda>p1 e1. with_newpath d q () (f p1) e1) e"

section \<open>Symbolic links\<close>

definition skip_slashes :: "string \<Rightarrow> string" where
  "skip_slashes s = dropWhile (\<lambda>c. c = SLASH) s"

lemma skip_slashes_length: "length (skip_slashes s) \<le> length s"
  by (simp add: skip_slashes_def length_dropWhile_le)

lemma skip_component_shorter: "p \<noteq> [] \<Longrightarrow> length (skip_slashes (dropWhile (\<lambda>c. c \<noteq> SLASH) p)) < length p"
  using skip_slashes_length length_dropWhile_le [of "\<lambda>c. c \<noteq> SLASH"] length_dropWhile_le [of "\<lambda>c. c = SLASH"]
  by (cases p) (auto simp: skip_slashes_def less_Suc_eq_le intro: le_trans)

function count_loop :: "string \<Rightarrow> int \<Rightarrow> int" where
  "count_loop p n = (if p = [] then n else count_loop (skip_slashes (dropWhile (\<lambda>c. c \<noteq> SLASH) p)) (n + 1))"
  by pat_completeness auto
termination by (relation "measure (\<lambda>(p, n). length p)") (use skip_component_shorter in auto)

declare count_loop.simps [simp del]

definition count_components :: "string \<Rightarrow> int" where
  "count_components p = count_loop (skip_slashes p) 0"

text \<open>\<open>for (; *s == *t && *s && *s != '/'; s++, t++)\<close>\<close>

fun skip_same :: "string \<Rightarrow> string \<Rightarrow> string \<times> string" where
  "skip_same (c # s) (d # t) = (if c = d \<and> c \<noteq> SLASH then skip_same s t else (c # s, d # t))"
| "skip_same s t = (s, t)"

definition again :: "string \<Rightarrow> string \<Rightarrow> bool" where
  "again s t \<longleftrightarrow> (case (s, t) of
     ([], []) \<Rightarrow> False
   | ([], d # t') \<Rightarrow> d = SLASH
   | (c # s', []) \<Rightarrow> c = SLASH
   | (c # s', d # t') \<Rightarrow> c = d)"

lemma skip_same_parts:
  "skip_same s t = (s1, t1) \<Longrightarrow> \<exists>u. s = u @ s1 \<and> t = u @ t1 \<and> SLASH \<notin> set u"
  by (induction s t rule: skip_same.induct) (auto split: if_splits intro: exI [of _ "[]"] exI [of _ "_ # _"])

lemma skip_same_stops: "skip_same s t = (c # s1, c # t1) \<Longrightarrow> c = SLASH"
  by (induction s t rule: skip_same.induct) (auto split: if_splits)

lemma skip_slashes_hd: "skip_slashes s \<noteq> [] \<Longrightarrow> hd (skip_slashes s) \<noteq> SLASH"
  unfolding skip_slashes_def by (rule hd_dropWhile)

lemma again_shorter:
  assumes "skip_same (skip_slashes s) (skip_slashes t) = (s2, t2)" "again s2 t2"
  shows "\<exists>u. u \<noteq> [] \<and> SLASH \<notin> set u \<and> skip_slashes s = u @ s2 \<and> skip_slashes t = u @ t2 \<and>
    (s2 = [] \<or> hd s2 = SLASH) \<and> (t2 = [] \<or> hd t2 = SLASH) \<and> (s2 \<noteq> [] \<or> t2 \<noteq> [])"
proof -
  obtain u where u: "skip_slashes s = u @ s2" "skip_slashes t = u @ t2" "SLASH \<notin> set u"
    using skip_same_parts [OF assms(1)] by blast
  have h: "s2 = [] \<or> hd s2 = SLASH" "t2 = [] \<or> hd t2 = SLASH" "s2 \<noteq> [] \<or> t2 \<noteq> []"
    using assms skip_same_stops [of "skip_slashes s" "skip_slashes t"] by (cases s2; cases t2; auto simp: again_def)+
  have "u \<noteq> []"
  proof
    assume "u = []"
    then show False using u h skip_slashes_hd [of s] skip_slashes_hd [of t] by auto
  qed
  then show ?thesis using u h by blast
qed

function strip_common :: "string \<Rightarrow> string \<Rightarrow> string \<times> string" where
  "strip_common s t =
     (let s1 = skip_slashes s; t1 = skip_slashes t in
      case skip_same s1 t1 of (s2, t2) \<Rightarrow> if again s2 t2 then strip_common s2 t2 else (s1, t1))"
  by pat_completeness auto
termination
proof (relation "measure (\<lambda>(s, t). length s + length t)", goal_cases)
  case (2 s t s1 t1 s2 t2)
  then obtain u where "u \<noteq> []" "skip_slashes s = u @ s2" "skip_slashes t = u @ t2"
    using again_shorter [of s t s2 t2] by auto
  then have "length s2 < length (skip_slashes s)" "length t2 < length (skip_slashes t)" by simp_all
  then show ?case using skip_slashes_length [of s] skip_slashes_length [of t] by simp
qed simp

declare strip_common.simps [simp del]

text \<open>The text that is in the buffer of \<open>size\<close> bytes afterwards.\<close>

definition transform_symlink :: "'s subdir \<Rightarrow> string \<Rightarrow> string \<Rightarrow> nat \<Rightarrow> string" where
  "transform_symlink d path buf sz =
     (if char_at buf 0 \<noteq> SLASH \<or> char_at (sd_base d) 0 \<noteq> SLASH then buf
      else
        (case strip_common buf path of (l, p) \<Rightarrow>
           if length buf - length l < baselen d then buf
           else if count_components p = 0 then buf
           else
             (let dotdots = nat (count_components p - 1) in
              if sz < dotdots * 3 + length l + 2 then buf
              else concat (replicate dotdots ''../'') @
                   (if l \<noteq> [] then l else if dotdots = 0 then ''.'' else []))))"

section \<open>Operations\<close>

definition subdir_getattr :: "'s subdir \<Rightarrow> path \<Rightarrow> stat \<Rightarrow> fi_opt \<Rightarrow> 's env \<Rightarrow> ('s, stat \<times> fi_opt) res" where
  "subdir_getattr d p buf fi = with_newpath d p (buf, fi) (\<lambda>q. fuse_fs_getattr (sd_next d) q buf fi)"

definition subdir_access :: "'s subdir \<Rightarrow> path \<Rightarrow> int \<Rightarrow> 's env \<Rightarrow> ('s, unit) res" where
  "subdir_access d p msk = with_newpath d p () (\<lambda>q. fuse_fs_access (sd_next d) q msk)"

text \<open>
  Reading a link is never done with a NULL path; the buffer starts empty here, its old text only shows
  after errors.
\<close>

definition subdir_readlink :: "'s subdir \<Rightarrow> path \<Rightarrow> nat \<Rightarrow> 's env \<Rightarrow> ('s, string) res" where
  "subdir_readlink d p sz =
     with_newpath d p [] (\<lambda>q e.
       case fuse_fs_readlink (sd_next d) q [] sz e of (err, buf, e1) \<Rightarrow>
         (err, (case q of Some s \<Rightarrow> if err = 0 \<and> rellinks d then transform_symlink d s buf sz else buf | None \<Rightarrow> buf), e1))"

definition subdir_opendir :: "'s subdir \<Rightarrow> path \<Rightarrow> fuse_file_info \<Rightarrow> 's env \<Rightarrow> ('s, fuse_file_info) res" where
  "subdir_opendir d p fi = with_newpath d p fi (\<lambda>q. fuse_fs_opendir (sd_next d) q fi)"

primrec end_walk :: "('s env \<Rightarrow> 's env) \<Rightarrow> 's walk \<Rightarrow> 's walk" where
  "end_walk f (Ends res fi e) = Ends res fi (f e)"
| "end_walk f (Fills nm st off flags k) = Fills nm st off flags (\<lambda>a. end_walk f (k a))"

definition subdir_readdir :: "'s subdir \<Rightarrow> path \<Rightarrow> int \<Rightarrow> fuse_file_info \<Rightarrow> u32 \<Rightarrow> 's env \<Rightarrow> 's walk" where
  "subdir_readdir d p off fi flags e =
     (case subdir_addpath d p e of (err, np, e1) \<Rightarrow>
        if err \<noteq> 0 then Ends err fi e1
        else end_walk (free_path_text np) (fuse_fs_readdir (sd_next d) (map_option snd np) off fi flags e1))"

definition subdir_releasedir :: "'s subdir \<Rightarrow> path \<Rightarrow> fuse_file_info \<Rightarrow> 's env \<Rightarrow> ('s, fuse_file_info) res" where
  "subdir_releasedir d p fi = with_newpath d p fi (\<lambda>q. fuse_fs_releasedir (sd_next d) q fi)"

definition subdir_mknod :: "'s subdir \<Rightarrow> path \<Rightarrow> u32 \<Rightarrow> nat \<Rightarrow> 's env \<Rightarrow> ('s, unit) res" where
  "subdir_mknod d p mode rdev = with_newpath d p () (\<lambda>q. fuse_fs_mknod (sd_next d) q mode rdev)"

definition subdir_mkdir :: "'s subdir \<Rightarrow> path \<Rightarrow> u32 \<Rightarrow> 's env \<Rightarrow> ('s, unit) res" where
  "subdir_mkdir d p mode = with_newpath d p () (\<lambda>q. fuse_fs_mkdir (sd_next d) q mode)"

definition subdir_unlink :: "'s subdir \<Rightarrow> path \<Rightarrow> 's env \<Rightarrow> ('s, unit) res" where
  "subdir_unlink d p = with_newpath d p () (fuse_fs_unlink (sd_next d))"

definition subdir_rmdir :: "'s subdir \<Rightarrow> path \<Rightarrow> 's env \<Rightarrow> ('s, unit) res" where
  "subdir_rmdir d p = with_newpath d p () (fuse_fs_rmdir (sd_next d))"

definition subdir_symlink :: "'s subdir \<Rightarrow> string \<Rightarrow> path \<Rightarrow> 's env \<Rightarrow> ('s, unit) res" where
  "subdir_symlink d from p = with_newpath d p () (fuse_fs_symlink (sd_next d) from)"

definition subdir_rename :: "'s subdir \<Rightarrow> path \<Rightarrow> path \<Rightarrow> u32 \<Rightarrow> 's env \<Rightarrow> ('s, unit) res" where
  "subdir_rename d p q flags = with_newpaths d p q (\<lambda>p1 q1. fuse_fs_rename (sd_next d) p1 q1 flags)"

definition subdir_link :: "'s subdir \<Rightarrow> path \<Rightarrow> path \<Rightarrow> 's env \<Rightarrow> ('s, unit) res" where
  "subdir_link d p q = with_newpaths d p q (fuse_fs_link (sd_next d))"

definition subdir_chmod :: "'s subdir \<Rightarrow> path \<Rightarrow> u32 \<Rightarrow> fi_opt \<Rightarrow> 's env \<Rightarrow> ('s, fi_opt) res" where
  "subdir_chmod d p mode fi = with_newpath d p fi (\<lambda>q. fuse_fs_chmod (sd_next d) q mode fi)"

definition subdir_chown :: "'s subdir \<Rightarrow> path \<Rightarrow> int \<Rightarrow> int \<Rightarrow> fi_opt \<Rightarrow> 's env \<Rightarrow> ('s, fi_opt) res" where
  "subdir_chown d p uid gid fi = with_newpath d p fi (\<lambda>q. fuse_fs_chown (sd_next d) q uid gid fi)"

definition subdir_truncate :: "'s subdir \<Rightarrow> path \<Rightarrow> int \<Rightarrow> fi_opt \<Rightarrow> 's env \<Rightarrow> ('s, fi_opt) res" where
  "subdir_truncate d p sz fi = with_newpath d p fi (\<lambda>q. fuse_fs_truncate (sd_next d) q sz fi)"

definition subdir_utimens :: "'s subdir \<Rightarrow> path \<Rightarrow> timespec \<times> timespec \<Rightarrow> fi_opt \<Rightarrow> 's env \<Rightarrow> ('s, fi_opt) res" where
  "subdir_utimens d p ts fi = with_newpath d p fi (\<lambda>q. fuse_fs_utimens (sd_next d) q ts fi)"

definition subdir_create :: "'s subdir \<Rightarrow> path \<Rightarrow> u32 \<Rightarrow> fuse_file_info \<Rightarrow> 's env \<Rightarrow> ('s, fuse_file_info) res" where
  "subdir_create d p mode fi = with_newpath d p fi (\<lambda>q. fuse_fs_create (sd_next d) q mode fi)"

definition subdir_open :: "'s subdir \<Rightarrow> path \<Rightarrow> fuse_file_info \<Rightarrow> 's env \<Rightarrow> ('s, fuse_file_info) res" where
  "subdir_open d p fi = with_newpath d p fi (\<lambda>q. fuse_fs_open (sd_next d) q fi)"

definition subdir_read_buf ::
  "'s subdir \<Rightarrow> path \<Rightarrow> nat \<Rightarrow> int \<Rightarrow> fuse_file_info \<Rightarrow> 's env \<Rightarrow> ('s, fuse_bufvec option \<times> fuse_file_info) res option" where
  "subdir_read_buf d p sz off fi e =
     (case subdir_addpath d p e of (err, np, e1) \<Rightarrow>
        if err \<noteq> 0 then Some (err, (None, fi), e1)
        else do { (res, x, e2) \<leftarrow> fuse_fs_read_buf (sd_next d) (map_option snd np) None sz off fi e1;
                  Some (res, x, free_path_text np e2) })"

definition subdir_write_buf ::
  "'s sys_io \<Rightarrow> 's subdir \<Rightarrow> path \<Rightarrow> fuse_bufvec \<Rightarrow> int \<Rightarrow> fuse_file_info \<Rightarrow> 's env
     \<Rightarrow> ('s, fuse_bufvec \<times> fuse_file_info) res option" where
  "subdir_write_buf io d p buf off fi e =
     (case subdir_addpath d p e of (err, np, e1) \<Rightarrow>
        if err \<noteq> 0 then Some (err, (buf, fi), e1)
        else do { (res, x, e2) \<leftarrow> fuse_fs_write_buf io (sd_next d) (map_option snd np) buf off fi e1;
                  Some (res, x, free_path_text np e2) })"

definition subdir_statfs :: "'s subdir \<Rightarrow> path \<Rightarrow> statvfs \<Rightarrow> 's env \<Rightarrow> ('s, statvfs) res" where
  "subdir_statfs d p buf = with_newpath d p buf (\<lambda>q. fuse_fs_statfs (sd_next d) q buf)"

definition subdir_flush :: "'s subdir \<Rightarrow> path \<Rightarrow> fuse_file_info \<Rightarrow> 's env \<Rightarrow> ('s, fuse_file_info) res" where
  "subdir_flush d p fi = with_newpath d p fi (\<lambda>q. fuse_fs_flush (sd_next d) q fi)"

definition subdir_release :: "'s subdir \<Rightarrow> path \<Rightarrow> fuse_file_info \<Rightarrow> 's env \<Rightarrow> ('s, fuse_file_info) res" where
  "subdir_release d p fi = with_newpath d p fi (\<lambda>q. fuse_fs_release (sd_next d) q fi)"

definition subdir_fsync :: "'s subdir \<Rightarrow> path \<Rightarrow> int \<Rightarrow> fuse_file_info \<Rightarrow> 's env \<Rightarrow> ('s, fuse_file_info) res" where
  "subdir_fsync d p ds fi = with_newpath d p fi (\<lambda>q. fuse_fs_fsync (sd_next d) q ds fi)"

definition subdir_fsyncdir :: "'s subdir \<Rightarrow> path \<Rightarrow> int \<Rightarrow> fuse_file_info \<Rightarrow> 's env \<Rightarrow> ('s, fuse_file_info) res" where
  "subdir_fsyncdir d p ds fi = with_newpath d p fi (\<lambda>q. fuse_fs_fsyncdir (sd_next d) q ds fi)"

definition subdir_setxattr :: "'s subdir \<Rightarrow> path \<Rightarrow> string \<Rightarrow> bytes \<Rightarrow> int \<Rightarrow> 's env \<Rightarrow> ('s, unit) res" where
  "subdir_setxattr d p nm val flags = with_newpath d p () (\<lambda>q. fuse_fs_setxattr (sd_next d) q nm val flags)"

definition subdir_getxattr :: "'s subdir \<Rightarrow> path \<Rightarrow> string \<Rightarrow> nat \<Rightarrow> 's env \<Rightarrow> ('s, bytes) res" where
  "subdir_getxattr d p nm sz = with_newpath d p [] (\<lambda>q. fuse_fs_getxattr (sd_next d) q nm sz)"

definition subdir_listxattr :: "'s subdir \<Rightarrow> path \<Rightarrow> nat \<Rightarrow> 's env \<Rightarrow> ('s, bytes) res" where
  "subdir_listxattr d p sz = with_newpath d p [] (\<lambda>q. fuse_fs_listxattr (sd_next d) q sz)"

definition subdir_removexattr :: "'s subdir \<Rightarrow> path \<Rightarrow> string \<Rightarrow> 's env \<Rightarrow> ('s, unit) res" where
  "subdir_removexattr d p nm = with_newpath d p () (\<lambda>q. fuse_fs_removexattr (sd_next d) q nm)"

definition subdir_lock ::
  "'s subdir \<Rightarrow> path \<Rightarrow> fuse_file_info \<Rightarrow> int \<Rightarrow> flock \<Rightarrow> 's env \<Rightarrow> ('s, fuse_file_info \<times> flock) res" where
  "subdir_lock d p fi cmd fl = with_newpath d p (fi, fl) (\<lambda>q. fuse_fs_lock (sd_next d) q fi cmd fl)"

definition subdir_flock :: "'s subdir \<Rightarrow> path \<Rightarrow> fuse_file_info \<Rightarrow> int \<Rightarrow> 's env \<Rightarrow> ('s, fuse_file_info) res" where
  "subdir_flock d p fi lop = with_newpath d p fi (\<lambda>q. fuse_fs_flock (sd_next d) q fi lop)"

definition subdir_bmap :: "'s subdir \<Rightarrow> path \<Rightarrow> nat \<Rightarrow> u64 \<Rightarrow> 's env \<Rightarrow> ('s, u64) res" where
  "subdir_bmap d p bsz idx = with_newpath d p idx (\<lambda>q. fuse_fs_bmap (sd_next d) q bsz idx)"

text \<open>The offset the next file system answers is stored in an \<open>int\<close> on its way.\<close>

definition subdir_lseek :: "'s subdir \<Rightarrow> path \<Rightarrow> int \<Rightarrow> int \<Rightarrow> fuse_file_info \<Rightarrow> 's env \<Rightarrow> ('s, fuse_file_info) res" where
  "subdir_lseek d p off whence fi =
     with_newpath d p fi (\<lambda>q e. case fuse_fs_lseek (sd_next d) q off whence fi e of (res, x, e1) \<Rightarrow> (to_int res, x, e1))"

text \<open>INIT changes the user data of the next file system.\<close>

definition subdir_init ::
  "'s subdir \<Rightarrow> fuse_conn_info \<Rightarrow> fuse_config \<Rightarrow> 's env \<Rightarrow> 's subdir \<times> nat \<times> fuse_conn_info \<times> fuse_config \<times> 's env" where
  "subdir_init d conn cfg e =
     (case fuse_fs_init (sd_next d) conn cfg e of (nx, conn1, cfg1, e1) \<Rightarrow>
        (d\<lparr>sd_next := nx\<rparr>, private_data (req_context e), conn1, cfg1, e1))"

text \<open>The blocks of \<open>base\<close> and of the struct are not those of the environment and are not followed.\<close>

definition subdir_destroy :: "'s subdir \<Rightarrow> nat \<Rightarrow> 's env \<Rightarrow> 's env" where
  "subdir_destroy d data e = fuse_fs_destroy (sd_next d) e"

definition subdir_oper :: "'s sys_io \<Rightarrow> 's subdir \<Rightarrow> 's fuse_operations" where
  "subdir_oper io d = \<lparr>op_getattr = Some (subdir_getattr d), op_readlink = Some (subdir_readlink d),
     op_mknod = Some (subdir_mknod d), op_mkdir = Some (subdir_mkdir d), op_unlink = Some (subdir_unlink d),
     op_rmdir = Some (subdir_rmdir d), op_symlink = Some (subdir_symlink d), op_rename = Some (subdir_rename d),
     op_link = Some (subdir_link d), op_chmod = Some (subdir_chmod d), op_chown = Some (subdir_chown d),
     op_truncate = Some (subdir_truncate d), op_open = Some (subdir_open d), op_read = None, op_write = None,
     op_statfs = Some (subdir_statfs d), op_flush = Some (subdir_flush d), op_release = Some (subdir_release d),
     op_fsync = Some (subdir_fsync d), op_setxattr = Some (subdir_setxattr d), op_getxattr = Some (subdir_getxattr d),
     op_listxattr = Some (subdir_listxattr d), op_removexattr = Some (subdir_removexattr d),
     op_opendir = Some (subdir_opendir d), op_readdir = Some (subdir_readdir d),
     op_releasedir = Some (subdir_releasedir d), op_fsyncdir = Some (subdir_fsyncdir d),
     op_init = Some (\<lambda>conn cfg e. snd (subdir_init d conn cfg e)), op_destroy = Some (subdir_destroy d),
     op_access = Some (subdir_access d), op_create = Some (subdir_create d), op_lock = Some (subdir_lock d),
     op_utimens = Some (subdir_utimens d), op_bmap = Some (subdir_bmap d), op_ioctl = None, op_poll = None,
     op_write_buf = Some (subdir_write_buf io d), op_read_buf = Some (subdir_read_buf d), op_flock = Some (subdir_flock d),
     op_fallocate = None, op_copy_file_range = None, op_lseek = Some (subdir_lseek d)\<rparr>"

section \<open>Setting up\<close>

definition subdir_opts :: "fuse_opt list" where
  "subdir_opts =
     [\<lparr>templ = ''-h'', offset = 0xffffffff, opt_value = 0\<rparr>, \<lparr>templ = ''--help'', offset = 0xffffffff, opt_value = 0\<rparr>,
      \<lparr>templ = ''subdir=%s'', offset = 0, opt_value = 0\<rparr>, \<lparr>templ = ''rellinks'', offset = 16, opt_value = 1\<rparr>,
      \<lparr>templ = ''norellinks'', offset = 16, opt_value = 0\<rparr>]"

definition subdir_opt_proc :: opt_proc where
  "subdir_opt_proc data arg key out al = Some (if key = 0 then -1 else 1, data, out, al)"

text \<open>\<open>calloc\<close> leaves the fields zero: no base, no \<open>rellinks\<close>.\<close>

definition blank_subdir :: opt_data where
  "blank_subdir x = (if x = 16 then Some (OInt 0) else None)"

definition with_slash :: "allocs \<Rightarrow> string \<Rightarrow> string option \<times> allocs" where
  "with_slash al dir =
     (if dir \<noteq> [] \<and> last dir \<noteq> SLASH
      then (let (ok, al1) = alloc_next al in (if ok then Some (dir @ [SLASH]) else None, al1))
      else (Some dir, al))"

definition fuse_fs_new :: "allocs \<Rightarrow> 's fuse_operations \<Rightarrow> nat \<Rightarrow> 's fuse_fs option \<times> allocs" where
  "fuse_fs_new al ops data =
     (let (ok, al1) = alloc_next al in (if ok then Some \<lparr>fs_op = ops, user_data = data\<rparr> else None, al1))"

text \<open>
  \<open>sc\<close> is what \<open>sscanf\<close> does, \<open>al\<close> the answers of the allocations of the option parser and \<open>al2\<close> those
  of the others; \<open>a\<close> is the address of the struct.  The file system comes with the struct behind its
  private data; \<open>None\<close> inside is NULL.
\<close>

definition subdir_new ::
  "'s sys_io \<Rightarrow> allocs \<Rightarrow> allocs \<Rightarrow> (string \<Rightarrow> string \<Rightarrow> opt_var option) \<Rightarrow> nat \<Rightarrow> fuse_args option \<Rightarrow> 's fuse_fs list
     \<Rightarrow> (('s subdir \<times> 's fuse_fs) option \<times> fuse_args option) option" where
  "subdir_new io al al2 sc a args nexts =
     (let (ok, al3) = alloc_next al2 in
      if \<not> ok then Some (None, args)
      else do { (res, args1, data) \<leftarrow> fuse_opt_parse al sc args blank_subdir subdir_opts (Some subdir_opt_proc);
                if res = -1 then Some (None, args1)
                else
                  (case (nexts, data 0) of
                     ([nx], Some (OStr dir)) \<Rightarrow>
                       (case with_slash al3 dir of
                          (None, al4) \<Rightarrow> Some (None, args1)
                        | (Some b, al4) \<Rightarrow>
                            (let d = \<lparr>sd_base = b, baselen = length b, rellinks = (data 16 \<noteq> Some (OInt 0)), sd_next = nx\<rparr>;
                                 (fs, al5) = fuse_fs_new al4 (subdir_oper io d) a
                             in Some (map_option (Pair d) fs, args1)))
                   | _ \<Rightarrow> Some (None, args1)) })"

end
