(* ===== verification/SubdirPaths.thy ===== *)
theory SubdirPaths
  imports Subdir
begin

text \<open>
  What the module makes of paths and symbolic links, in terms of the components of a path and of the walk
  along them: operations stay below the directory, a link that is made relative leads to the same place.
\<close>

section \<open>Components\<close>

text \<open>The names between the slashes of a path.\<close>

function comps :: "string \<Rightarrow> string list" where
  "comps p = (if skip_slashes p = [] then []
     else takeWhile (\<lambda>c. c \<noteq> SLASH) (skip_slashes p) # comps (dropWhile (\<lambda>c. c \<noteq> SLASH) (skip_slashes p)))"
  by pat_completeness auto
termination
proof (relation "measure length", goal_cases)
  case (2 p)
  then have "length (dropWhile (\<lambda>c. c \<noteq> SLASH) (skip_slashes p)) < length (skip_slashes p)"
    using skip_slashes_hd [of p] length_dropWhile_le [of "\<lambda>c. c \<noteq> SLASH" "tl (skip_slashes p)"]
    by (cases "skip_slashes p") auto
  then show ?case using skip_slashes_length [of p] by simp
qed simp

declare comps.simps [simp del]

lemma skip_skip [simp]: "skip_slashes (skip_slashes p) = skip_slashes p"
  by (simp add: skip_slashes_def)

lemma skip_slash [simp]: "skip_slashes (SLASH # p) = skip_slashes p" "skip_slashes [] = []"
  by (simp_all add: skip_slashes_def)

lemma skip_name: "u \<noteq> [] \<Longrightarrow> SLASH \<notin> set u \<Longrightarrow> skip_slashes (u @ s) = u @ s"
  by (cases u) (auto simp: skip_slashes_def)

lemma comps_simps [simp]: "comps [] = []" "comps (SLASH # p) = comps p" "comps (skip_slashes p) = comps p"
proof -
  show "comps [] = []" by (subst comps.simps) simp
  show "comps (SLASH # p) = comps p" by (subst (1 2) comps.simps) simp
  show "comps (skip_slashes p) = comps p" by (subst (1 2) comps.simps) simp
qed

lemma comps_name:
  assumes "u \<noteq> []" "SLASH \<notin> set u" "s = [] \<or> hd s = SLASH"
  shows "comps (u @ s) = u # comps s"
proof -
  have "takeWhile (\<lambda>c. c \<noteq> SLASH) (u @ s) = u" "dropWhile (\<lambda>c. c \<noteq> SLASH) (u @ s) = s"
    using assms(2,3) by (cases s; auto simp: takeWhile_append dropWhile_append)+
  then show ?thesis using assms(1) skip_name [OF assms(1,2)] by (subst comps.simps) simp
qed

text \<open>A path is empty, or begins with a slash, or with a name.\<close>

lemma path_cases:
  obtains (empty) "p = []"
  | (slash) q where "p = SLASH # q"
  | (name) u q where "p = u @ q" "u \<noteq> []" "SLASH \<notin> set u" "q = [] \<or> hd q = SLASH"
proof (cases p)
  case (Cons c cs)
  show thesis
  proof (cases "c = SLASH")
    case False
    let ?u = "takeWhile (\<lambda>c. c \<noteq> SLASH) p" and ?q = "dropWhile (\<lambda>c. c \<noteq> SLASH) p"
    have "?q = [] \<or> hd ?q = SLASH" using hd_dropWhile [of "\<lambda>c. c \<noteq> SLASH" p] by auto
    moreover have "?u \<noteq> []" "SLASH \<notin> set ?u" using Cons False by (auto dest: set_takeWhileD)
    ultimately show thesis using name [of ?u ?q] by simp
  qed (use Cons slash in simp)
qed (rule empty)

lemma comps_append:
  "x = [] \<or> last x = SLASH \<or> y = [] \<or> hd y = SLASH \<Longrightarrow> comps (x @ y) = comps x @ comps y"
proof (induction x rule: length_induct)
  case (1 x)
  show ?case
  proof (cases x rule: path_cases)
    case (slash q)
    then show ?thesis using 1 by (cases "q = []") auto
  next
    case (name u q)
    show ?thesis
    proof (cases "q = []")
      case True
      have "last u \<noteq> SLASH" using name(2,3) last_in_set by metis
      then have "y = [] \<or> hd y = SLASH" using 1(2) name True by auto
      then show ?thesis using comps_name [OF name(2,3), of y] comps_name [OF name(2,3), of "[]"] name True by simp
    next
      case False
      then have "comps (q @ y) = comps q @ comps y" using 1(1) [rule_format, of q] 1(2) name by auto
      moreover have "hd (q @ y) = SLASH" "hd q = SLASH" using name(4) False by simp_all
      ultimately show ?thesis
        using comps_name [OF name(2,3), of "q @ y"] comps_name [OF name(2,3), of q] name(1) by simp
    qed
  qed simp
qed

lemma count_loop_comps: "p = [] \<or> hd p \<noteq> SLASH \<Longrightarrow> count_loop p n = n + int (length (comps p))"
proof (induction p n rule: count_loop.induct)
  case (1 p n)
  show ?case
  proof (cases p rule: path_cases)
    case (name u q)
    let ?q = "dropWhile (\<lambda>c. c \<noteq> SLASH) p"
    have "?q = q" using name(1,3,4) by (cases q) (auto simp: dropWhile_append)
    then have "count_loop (skip_slashes q) (n + 1) = n + 1 + int (length (comps (skip_slashes q)))"
      using 1(1) name(1,2) skip_slashes_hd [of q] by (cases "skip_slashes q = []") auto
    then show ?thesis using \<open>?q = q\<close> comps_name [OF name(2-4)] name(1,2) by (subst count_loop.simps) simp
  qed (use 1(2) in \<open>auto simp: count_loop.simps\<close>)
qed

lemma count_components_comps: "count_components p = int (length (comps p))"
  using count_loop_comps [of "skip_slashes p" 0] skip_slashes_hd [of p] by (auto simp: count_components_def)

section \<open>Walks\<close>

text \<open>Following components from a directory, given as the names on the way to it.\<close>

fun resolve :: "string list \<Rightarrow> string list \<Rightarrow> string list" where
  "resolve st [] = st"
| "resolve st (c # cs) =
     (if c = ''.'' then resolve st cs else if c = ''..'' then resolve (butlast st) cs else resolve (st @ [c]) cs)"

definition plain :: "string list \<Rightarrow> bool" where
  "plain cs \<longleftrightarrow> ''.'' \<notin> set cs \<and> ''..'' \<notin> set cs"

text \<open>Where a link leads that lies in a directory.\<close>

definition link_target :: "string list \<Rightarrow> string \<Rightarrow> string list" where
  "link_target dir l = (if char_at l 0 = SLASH then resolve [] (comps l) else resolve dir (comps l))"

lemma resolve_append: "resolve st (a @ b) = resolve (resolve st a) b"
  by (induction st a rule: resolve.induct) auto

lemma resolve_plain: "plain cs \<Longrightarrow> resolve st cs = st @ cs"
  by (induction st cs rule: resolve.induct) (auto simp: plain_def)

lemma resolve_up: "resolve st (replicate n ''..'') = take (length st - n) st"
  by (induction n arbitrary: st) (auto simp: butlast_conv_take)

lemma plain_append [simp]: "plain (a @ b) \<longleftrightarrow> plain a \<and> plain b"
  by (auto simp: plain_def)

lemma comps_up: "comps (concat (replicate n ''../'') @ l) = replicate n ''..'' @ comps l"
proof (induction n)
  case (Suc n)
  have "comps (''..'' @ (SLASH # concat (replicate n ''../'') @ l)) = ''..'' # comps (SLASH # concat (replicate n ''../'') @ l)"
    by (rule comps_name) simp_all
  then show ?case using Suc by simp
qed simp

section \<open>What two paths have in common\<close>

lemma strip_common_comps:
  "strip_common s t = (l, p) \<Longrightarrow> (\<exists>cs. comps s = cs @ comps l \<and> comps t = cs @ comps p) \<and>
     (l = [] \<or> hd l \<noteq> SLASH)"
proof (induction s t rule: strip_common.induct)
  case (1 s t)
  obtain s2 t2 where k: "skip_same (skip_slashes s) (skip_slashes t) = (s2, t2)" by (metis surj_pair)
  show ?case
  proof (cases "again s2 t2")
    case True
    then have "strip_common s2 t2 = (l, p)" using 1(2) k by (simp add: strip_common.simps [of s t])
    then obtain cs where cs: "comps s2 = cs @ comps l" "comps t2 = cs @ comps p" "l = [] \<or> hd l \<noteq> SLASH"
      using 1(1) [OF refl refl k [symmetric] True] by blast
    obtain u where u: "u \<noteq> []" "SLASH \<notin> set u" "skip_slashes s = u @ s2" "skip_slashes t = u @ t2"
        "s2 = [] \<or> hd s2 = SLASH" "t2 = [] \<or> hd t2 = SLASH"
      using again_shorter [OF k True] by blast
    have "comps s = u # comps s2" "comps t = u # comps t2"
      using comps_name [OF u(1,2,5)] comps_name [OF u(1,2,6)] comps_simps(3) [of s] comps_simps(3) [of t] u(3,4) by simp_all
    then show ?thesis using cs by (intro conjI exI [of _ "u # cs"]) simp_all
  next
    case False
    then have "l = skip_slashes s" "p = skip_slashes t" using 1(2) k by (simp_all add: strip_common.simps [of s t])
    then show ?thesis using skip_slashes_hd [of s] by (intro conjI exI [of _ "[]"]) auto
  qed
qed

lemma transformed:
  assumes "transform_symlink d path buf sz \<noteq> buf"
  obtains l p cs n where "strip_common buf path = (l, p)" "comps buf = cs @ comps l" "comps path = cs @ comps p"
    "comps p \<noteq> []" "n = length (comps p) - 1" "baselen d \<le> length buf - length l" "n * 3 + length l + 2 \<le> sz"
    "transform_symlink d path buf sz = concat (replicate n ''../'') @ (if l \<noteq> [] then l else if n = 0 then ''.'' else [])"
    "char_at (transform_symlink d path buf sz) 0 \<noteq> SLASH" "char_at buf 0 = SLASH"
proof -
  obtain l p where s: "strip_common buf path = (l, p)" by (metis surj_pair)
  then obtain cs where cs: "comps buf = cs @ comps l" "comps path = cs @ comps p" "l = [] \<or> hd l \<noteq> SLASH"
    using strip_common_comps by blast
  let ?n = "length (comps p) - 1"
  have c: "char_at buf 0 = SLASH" "\<not> length buf - length l < baselen d" "comps p \<noteq> []" "\<not> sz < ?n * 3 + length l + 2"
      "transform_symlink d path buf sz = concat (replicate ?n ''../'') @ (if l \<noteq> [] then l else if ?n = 0 then ''.'' else [])"
    using assms s by (auto simp: transform_symlink_def count_components_comps Let_def nat_diff_distrib split: if_splits)
  have "char_at (transform_symlink d path buf sz) 0 \<noteq> SLASH"
    unfolding c(5) using cs(3) by (cases ?n; cases l) (auto simp: char_at_def)
  then show thesis using that [OF s cs(1,2) c(3) refl _ _ c(5)] c by simp
qed

text \<open>What follows the dots counts as the part of the target that is not common.\<close>

lemma comps_transformed:
  assumes "link = concat (replicate n ''../'') @ (if l \<noteq> [] then l else if n = 0 then ''.'' else [])"
  shows "resolve st (comps link) = resolve (take (length st - n) st) (comps l)"
proof -
  have dot: "comps ''.'' = [''.'']" using comps_name [of "''.''" "[]"] by simp
  have "comps link = replicate n ''..'' @ comps (if l \<noteq> [] then l else if n = 0 then ''.'' else [])"
    unfolding assms by (rule comps_up)
  then show ?thesis using dot by (auto simp: resolve_append resolve_up)
qed

lemma transformed_target:
  assumes "plain (comps path)"
  shows "link_target (butlast (comps path)) (transform_symlink d path buf sz) = link_target (butlast (comps path)) buf"
proof (cases "transform_symlink d path buf sz = buf")
  case False
  then obtain l p cs n where t: "comps buf = cs @ comps l" "comps path = cs @ comps p" "comps p \<noteq> []" "n = length (comps p) - 1"
    "transform_symlink d path buf sz = concat (replicate n ''../'') @ (if l \<noteq> [] then l else if n = 0 then ''.'' else [])"
    "char_at (transform_symlink d path buf sz) 0 \<noteq> SLASH" "char_at buf 0 = SLASH"
    by (rule transformed) blast
  have "take (length (butlast (comps path)) - n) (butlast (comps path)) = cs"
    using t(2-4) by (simp add: butlast_append)
  moreover have "resolve [] cs = cs" using assms t(2) by (simp add: resolve_plain)
  ultimately show ?thesis using comps_transformed [OF t(5)] t(1,6,7) by (simp add: link_target_def resolve_append)
qed simp

lemma transformed_length: "length buf < sz \<Longrightarrow> length (transform_symlink d path buf sz) < sz"
proof (cases "transform_symlink d path buf sz = buf")
  case False
  then obtain l n where "n * 3 + length l + 2 \<le> sz"
    "transform_symlink d path buf sz = concat (replicate n ''../'') @ (if l \<noteq> [] then l else if n = 0 then ''.'' else [])"
    by (rule transformed) blast
  moreover have "length (concat (replicate n ''../'')) = n * 3" by (induction n) auto
  ultimately show ?thesis by auto
qed simp

section \<open>Paths without doubled slashes\<close>

fun single_slashes :: "string \<Rightarrow> bool" where
  "single_slashes (c # d # s) \<longleftrightarrow> (c \<noteq> SLASH \<or> d \<noteq> SLASH) \<and> single_slashes (d # s)"
| "single_slashes s \<longleftrightarrow> True"

lemma single_tail: "single_slashes (u @ s) \<Longrightarrow> single_slashes s"
proof (induction u)
  case (Cons c u)
  then show ?case by (cases "u @ s") auto
qed simp

lemma single_skip: "single_slashes (SLASH # s) \<Longrightarrow> skip_slashes (SLASH # s) = s"
  by (cases s) (auto simp: skip_slashes_def)

definition starts :: "string \<Rightarrow> bool" where
  "starts s \<longleftrightarrow> s \<noteq> [] \<and> hd s = SLASH"

lemma skip_suffix: "\<exists>u. s = u @ skip_slashes s"
  unfolding skip_slashes_def by (metis takeWhile_dropWhile_id)

lemma strip_suffix: "strip_common s t = (l, p) \<Longrightarrow> (\<exists>x. s = x @ l) \<and> (\<exists>y. t = y @ p)"
proof (induction s t rule: strip_common.induct)
  case (1 s t)
  obtain s2 t2 where k: "skip_same (skip_slashes s) (skip_slashes t) = (s2, t2)" by (metis surj_pair)
  obtain a b where ab: "s = a @ skip_slashes s" "t = b @ skip_slashes t" using skip_suffix by metis
  show ?case
  proof (cases "again s2 t2")
    case True
    then have "strip_common s2 t2 = (l, p)" using 1(2) k by (simp add: strip_common.simps [of s t])
    then obtain x y where "s2 = x @ l" "t2 = y @ p" using 1(1) [OF refl refl k [symmetric] True] by blast
    moreover obtain u where "skip_slashes s = u @ s2" "skip_slashes t = u @ t2" using skip_same_parts [OF k] by blast
    ultimately have "s = (a @ u @ x) @ l" "t = (b @ u @ y) @ p" using ab by simp_all
    then show ?thesis by blast
  next
    case False
    then have "l = skip_slashes s" "p = skip_slashes t" using 1(2) k by (simp_all add: strip_common.simps [of s t])
    then show ?thesis using ab by blast
  qed
qed

text \<open>Both paths are followed in step, but for one slash at the end of the shorter one.\<close>

lemma strip_in_step:
  "strip_common s t = (l, p) \<Longrightarrow> single_slashes s \<Longrightarrow> single_slashes t \<Longrightarrow> s = [] \<or> starts s \<Longrightarrow> t = [] \<or> starts t \<Longrightarrow>
     p \<noteq> [] \<Longrightarrow> \<exists>x y. s = x @ l \<and> t = y @ [SLASH] @ p \<and> (x = y @ [SLASH] \<or> x = y)"
proof (induction s t rule: strip_common.induct)
  case (1 s t)
  have "t \<noteq> []" using strip_suffix [OF 1(2)] 1(7) by auto
  then obtain t1 where t: "t = SLASH # t1" "skip_slashes t = t1"
    using 1(4,6) single_skip by (cases t) (auto simp: starts_def)
  obtain s2 t2 where k: "skip_same (skip_slashes s) (skip_slashes t) = (s2, t2)" by (metis surj_pair)
  show ?case
  proof (cases "again s2 t2")
    case True
    then have r: "strip_common s2 t2 = (l, p)" using 1(2) k by (simp add: strip_common.simps [of s t])
    obtain u where u: "u \<noteq> []" "skip_slashes s = u @ s2" "t1 = u @ t2" "s2 = [] \<or> hd s2 = SLASH" "t2 = [] \<or> hd t2 = SLASH"
      using again_shorter [OF k True] t(2) by auto
    then have "s \<noteq> []" by auto
    then obtain s1 where s: "s = SLASH # s1" "skip_slashes s = s1"
      using 1(3,5) single_skip by (cases s) (auto simp: starts_def)
    have "single_slashes s2" "single_slashes t2"
      using single_tail [of "SLASH # u" s2] single_tail [of "SLASH # u" t2] 1(3,4) s t u(2,3) by simp_all
    then obtain x y where "s2 = x @ l" "t2 = y @ [SLASH] @ p" "x = y @ [SLASH] \<or> x = y"
      using 1(1) [OF refl refl k [symmetric] True r] u(4,5) 1(7) by (auto simp: starts_def)
    then show ?thesis using s t u(2,3)
      by (intro exI [of _ "SLASH # u @ x"] exI [of _ "SLASH # u @ y"]) auto
  next
    case False
    then have lp: "l = skip_slashes s" "p = t1" using 1(2) k t(2) by (simp_all add: strip_common.simps [of s t])
    show ?thesis
    proof (cases "s = []")
      case True
      then show ?thesis using lp t by (intro exI [of _ "[]"]) simp
    next
      case False
      then have "s = SLASH # l" using 1(3,5) lp single_skip by (cases s) (auto simp: starts_def)
      then show ?thesis using lp t(1) by (intro exI [of _ "[SLASH]"] exI [of _ "[]"]) simp
    qed
  qed
qed

text \<open>A walk that never leaves the directory it starts below, at a depth of \<open>n\<close>.\<close>

fun stays :: "nat \<Rightarrow> string list \<Rightarrow> bool" where
  "stays n [] \<longleftrightarrow> True"
| "stays n (c # cs) \<longleftrightarrow>
     (if c = ''.'' then stays n cs else if c = ''..'' then 0 < n \<and> stays (n - 1) cs else stays (n + 1) cs)"

lemma stays_plain: "plain cs \<Longrightarrow> stays n cs"
  by (induction n cs rule: stays.induct) (auto simp: plain_def)

lemma stays_up: "stays n (replicate k ''..'' @ cs) \<longleftrightarrow> k \<le> n \<and> stays (n - k) cs"
proof (induction k arbitrary: n)
  case (Suc k)
  then show ?case by (cases n) simp_all
qed simp

lemma transformed_inside:
  assumes base: "sd_base d = b @ [SLASH]" "baselen d = length (sd_base d)" and path: "path = sd_base d @ rest"
    and s: "single_slashes path" "single_slashes buf" "starts path"
    and plain: "plain (comps path)" "plain (comps buf)" and ch: "transform_symlink d path buf sz \<noteq> buf"
  shows "\<exists>cs. comps buf = comps (sd_base d) @ cs \<and>
    link_target (butlast (comps rest)) (transform_symlink d path buf sz) = resolve [] cs \<and>
    stays (length (butlast (comps rest))) (comps (transform_symlink d path buf sz))"
proof -
  let ?link = "transform_symlink d path buf sz"
  obtain l p cs n where t: "strip_common buf path = (l, p)" "comps buf = cs @ comps l" "comps path = cs @ comps p"
    "comps p \<noteq> []" "n = length (comps p) - 1" "baselen d \<le> length buf - length l"
    "?link = concat (replicate n ''../'') @ (if l \<noteq> [] then l else if n = 0 then ''.'' else [])"
    "char_at ?link 0 \<noteq> SLASH" "char_at buf 0 = SLASH"
    using ch by (rule transformed) blast
  have p: "p \<noteq> []" using t(4) by auto
  have b: "starts buf" using t(9) by (cases buf) (auto simp: char_at_def starts_def)
  obtain x y where xy: "buf = x @ l" "path = y @ [SLASH] @ p" "x = y @ [SLASH] \<or> x = y"
    using strip_in_step [OF t(1) s(2,1) _ _ p] b s(3) by blast
  have "length (sd_base d) \<le> length (y @ [SLASH])" using t(6) base(2) xy(1,3) by auto
  moreover have "sd_base d @ rest = (y @ [SLASH]) @ p" using path xy(2) by simp
  ultimately obtain z where z: "y @ [SLASH] = sd_base d @ z" "rest = z @ p"
    by (metis append_eq_append_conv_if append_take_drop_id)
  have zl: "z = [] \<or> last z = SLASH"
  proof (cases "z = []")
    case False
    then have "last (sd_base d @ z) = last z" by simp
    then show ?thesis using z(1) by (metis last_snoc)
  qed simp
  have r: "comps rest = comps z @ comps p" unfolding z(2) using zl by (intro comps_append) blast
  have "comps path = comps (sd_base d) @ comps rest" unfolding path using base(1) by (intro comps_append) simp
  then have cs: "cs = comps (sd_base d) @ comps z" using r t(3) by simp
  have pl: "plain (comps z)" "plain (comps l)" using plain cs t(2) by auto
  have "take (length (butlast (comps rest)) - n) (butlast (comps rest)) = comps z"
    using r t(4,5) by (simp add: butlast_append)
  then have "link_target (butlast (comps rest)) ?link = resolve (comps z) (comps l)"
    using comps_transformed [OF t(7)] t(8) by (simp add: link_target_def)
  then have "link_target (butlast (comps rest)) ?link = resolve [] (comps z @ comps l)"
    using pl by (simp add: resolve_append resolve_plain)
  moreover have "stays (length (butlast (comps rest))) (comps ?link)"
  proof -
    have n: "n \<le> length (butlast (comps rest))" using r t(4,5) by simp
    have "comps ?link = replicate n ''..'' @ comps (if l \<noteq> [] then l else if n = 0 then ''.'' else [])"
      unfolding t(7) by (rule comps_up)
    moreover have "stays k (comps (if l \<noteq> [] then l else if n = 0 then ''.'' else []))" for k
      using pl(2) comps_name [of "''.''" "[]"] by (auto intro: stays_plain)
    ultimately show ?thesis using n by (simp add: stays_up)
  qed
  ultimately show ?thesis using t(2) cs by auto
qed

section \<open>Operations\<close>

lemma comps_newpath:
  assumes "sd_base d = [] \<or> last (sd_base d) = SLASH"
  shows "resolve [] (comps (dot_if_empty (sd_base d @ without_slash p))) = resolve (resolve [] (comps (sd_base d))) (comps p)"
proof -
  have w: "comps (without_slash p) = comps p" by (cases p) (auto simp: without_slash_def)
  have "comps (sd_base d @ without_slash p) = comps (sd_base d) @ comps p"
    unfolding w [symmetric] using assms by (intro comps_append) auto
  moreover have "comps ''.'' = [''.'']" using comps_name [of "''.''" "[]"] by simp
  ultimately show ?thesis by (cases "sd_base d @ without_slash p = []") (auto simp: dot_if_empty_def resolve_append w [symmetric])
qed

lemma with_newpath_cases:
  obtains (no_memory) e1 where "with_newpath d p u f e = (- ENOMEM, u, e1)" "p \<noteq> None" "fst (malloc (((baselen d + length (the p)) mod 2 ^ 32 + 2) mod 2 ^ 32) e) = None"
      "blocks e1 = blocks e"
  | (null) "p = None" "with_newpath d p u f e = f None e"
  | (called) s a e1 res x e2 where "p = Some s" "blocks e1 = a # blocks e"
      "f (Some (dot_if_empty (sd_base d @ without_slash s))) e1 = (res, x, e2)"
      "with_newpath d p u f e = (res, x, e2\<lparr>blocks := remove1 a (blocks e2)\<rparr>)"
proof (cases p)
  case None
  then show thesis using null by (cases "f None e") (auto simp: with_newpath_def subdir_addpath_def free_path_text_def)
next
  case (Some s)
  obtain r e1 where m: "malloc (((baselen d + length s) mod 2 ^ 32 + 2) mod 2 ^ 32) e = (r, e1)" by (metis surj_pair)
  show thesis
  proof (cases r)
    case None
    then show thesis using m Some malloc_blocks [OF m] by (intro no_memory [of e1]) (auto simp: with_newpath_def subdir_addpath_def ENOMEM_def)
  next
    case (Some a)
    obtain res x e2 where "f (Some (dot_if_empty (sd_base d @ without_slash s))) e1 = (res, x, e2)" by (metis surj_pair)
    then show thesis using m Some \<open>p = Some s\<close> malloc_blocks [OF m]
      by (intro called [of s e1 a res x e2]) (auto simp: with_newpath_def subdir_addpath_def free_path_text_def)
  qed
qed

lemma with_newpath_keeps:
  assumes "\<And>q. keeps_env (f q)"
  shows "keeps_env (with_newpath d p u f)"
  unfolding keeps_env_def
proof
  fix e
  show "blocks (snd (snd (with_newpath d p u f e))) = blocks e"
  proof (cases rule: with_newpath_cases [of d p u f e])
    case (called s a e1 res x e2)
    have "blocks e2 = blocks e1" using assms [of "Some (dot_if_empty (sd_base d @ without_slash s))"] called(3)
      unfolding keeps_env_def by (metis snd_conv)
    then show ?thesis using called(2,4) by simp
  next
    case null
    then show ?thesis using assms [of None] unfolding keeps_env_def by simp
  qed simp
qed

text \<open>The options of the module are a client of the parser, so that \<open>subdir_new\<close> always returns.\<close>

interpretation subdir_client: opt_client subdir_opts "Some subdir_opt_proc" sc "\<lambda>_. True" for sc
  by unfold_locales (auto simp: subdir_opt_proc_def gives_back_def)

lemma subdir_new_returns: "\<exists>x. subdir_new io al al2 sc a args nexts = Some x"
proof (cases "fst (alloc_next al2)")
  case True
  obtain res args1 d where "fuse_opt_parse al sc args blank_subdir subdir_opts (Some subdir_opt_proc) = Some (res, args1, d)"
    using subdir_client.parse_keeps by blast
  then show ?thesis by (auto simp: subdir_new_def Let_def split: prod.splits list.splits option.splits opt_var.splits)
qed (auto simp: subdir_new_def Let_def split: prod.splits)

lemma subdir_new_base:
  assumes "subdir_new io al al2 sc a args nexts = Some (Some (d, fs), args1)"
  shows "sd_base d = [] \<or> last (sd_base d) = SLASH" "baselen d = length (sd_base d)" "fs_op fs = subdir_oper io d" "nexts = [sd_next d]"
  using assms
  by (auto simp: subdir_new_def with_slash_def fuse_fs_new_def Let_def bind_eq_Some_conv
      split: if_splits prod.splits list.splits option.splits opt_var.splits)

lemma stays_below: "stays (length r) cs \<Longrightarrow> \<exists>r'. resolve (st @ r) cs = st @ r'"
proof (induction "length r" cs arbitrary: r rule: stays.induct)
  case (2 c cs)
  then show ?case
    by (cases "r = []") (auto simp: butlast_append split: if_splits)
qed auto

lemma subdir_oper_keeps:
  assumes k: "plain_ops_keep (fs_op (sd_next d))"
  shows "plain_ops_keep (subdir_oper io d)"
proof -
  note wk = with_newpath_keeps
  have x: "keeps_env (fuse_fs_getxattr (sd_next d) q nm sz)" "keeps_env (fuse_fs_listxattr (sd_next d) q sz)" for q nm sz
    unfolding fuse_fs_getxattr_def fuse_fs_listxattr_def
    by (rule keeps_call_op, use k in \<open>simp add: plain_ops_keep_def xattr_ops_keep_def\<close>)+
  have rl: "keeps_env (subdir_readlink d p sz)" for p sz
  proof -
    have "keeps_env (\<lambda>e. case fuse_fs_readlink (sd_next d) q [] sz e of (err, buf, e1) \<Rightarrow>
         (err, (case q of Some s \<Rightarrow> if err = 0 \<and> rellinks d then transform_symlink d s buf sz else buf | None \<Rightarrow> buf), e1))" for q
      using plain_keeps(2) [OF k, of q "[]" sz] by (auto simp: keeps_env_def split: prod.splits) (metis snd_conv)
    then show ?thesis unfolding subdir_readlink_def by (rule wk)
  qed
  have ls: "keeps_env (subdir_lseek d p off wh fi)" for p off wh fi
  proof -
    have "keeps_env (\<lambda>e. case fuse_fs_lseek (sd_next d) q off wh fi e of (res, x, e1) \<Rightarrow> (to_int res, x, e1))" for q
      using plain_keeps(11) [OF k, of q off wh fi] by (auto simp: keeps_env_def split: prod.splits) (metis snd_conv)
    then show ?thesis unfolding subdir_lseek_def by (rule wk)
  qed
  have "keeps_env (subdir_getxattr d p nm sz)" "keeps_env (subdir_listxattr d p sz)" "keeps_env (subdir_access d p msk)"
    "keeps_env (subdir_fsync d p ds fi)" "keeps_env (subdir_statfs d p buf)" "keeps_env (subdir_setxattr d p nm val flags)"
    "keeps_env (subdir_removexattr d p nm)" "keeps_env (subdir_flock d p fi lop)" "keeps_env (subdir_bmap d p bsz idx)"
    for p nm sz msk ds fi buf val flags lop bsz idx
    unfolding subdir_getxattr_def subdir_listxattr_def subdir_access_def subdir_fsync_def subdir_statfs_def subdir_setxattr_def
      subdir_removexattr_def subdir_flock_def subdir_bmap_def
    by (rule wk, use k x in simp)+
  then show ?thesis using rl ls by (simp add: plain_ops_keep_def xattr_ops_keep_def subdir_oper_def)
qed

section \<open>Properties\<close>

text \<open>
  C15. A file system that \<open>subdir_new\<close> has made stays in its directory: the path it hands to the next file
  system leads, from the root, to where the path it got leads from the directory, and below the directory
  whenever the path it got does not climb out by itself.  The text fits into the block allocated for it.
\<close>
theorem subdir_confines_paths:
  assumes "subdir_new io al al2 sc x args nexts = Some (Some (d, fs), args1)" "baselen d + length s + 2 < 2 ^ 32"
    and "subdir_addpath d (Some s) e = (0, Some (a, q), e1)"
  shows "resolve [] (comps q) = resolve (resolve [] (comps (sd_base d))) (comps s) \<and>
    (stays 0 (comps s) \<longrightarrow> (\<exists>r. resolve [] (comps q) = resolve [] (comps (sd_base d)) @ r)) \<and>
    (\<exists>n. fst (malloc n e) = Some a \<and> length q < n)"
proof -
  note b = subdir_new_base [OF assms(1)]
  have m: "malloc (baselen d + length s + 2) e = (Some a, e1)" "q = dot_if_empty (sd_base d @ without_slash s)"
    using assms(2,3) by (auto simp: subdir_addpath_def ENOMEM_def split: prod.splits option.splits)
  have r: "resolve [] (comps q) = resolve (resolve [] (comps (sd_base d))) (comps s)"
    unfolding m(2) by (rule comps_newpath [OF b(1)])
  moreover have "\<exists>r. resolve [] (comps q) = resolve [] (comps (sd_base d)) @ r" if "stays 0 (comps s)"
    using stays_below [of "[]" "comps s" "resolve [] (comps (sd_base d))"] that r by simp
  moreover have "length q < baselen d + length s + 2"
    unfolding m(2) using b(2) by (cases s) (auto simp: dot_if_empty_def without_slash_def)
  ultimately show ?thesis using m(1) by (intro conjI exI [of _ "baselen d + length s + 2"]) auto
qed

definition demo_args :: fuse_args where
  "demo_args = \<lparr>argv = Some [''x'', ''-osubdir=/a/b,rellinks''], allocated = True\<rparr>"

definition demo_subdir :: "bytes subdir" where
  "demo_subdir = \<lparr>sd_base = ''/a/b/'', baselen = 5, rellinks = True, sd_next = demo_fs\<rparr>"

lemma demo_parsed:
  "map_option (\<lambda>(r, a, d). (r, a, d 0, d 16))
     (fuse_opt_parse [] (\<lambda>_ _. None) (Some demo_args) blank_subdir subdir_opts (Some subdir_opt_proc)) =
   Some (0, Some \<lparr>argv = Some [''x''], allocated = True\<rparr>, Some (OStr ''/a/b''), Some (OInt 1))"
  by code_simp

lemma demo_subdir_new:
  "subdir_new (demo_io []) [] [] (\<lambda>_ _. None) 5 (Some demo_args) [demo_fs] =
     Some (Some (demo_subdir, \<lparr>fs_op = subdir_oper (demo_io []) demo_subdir, user_data = 5\<rparr>),
           Some \<lparr>argv = Some [''x''], allocated = True\<rparr>)"
proof -
  obtain D where "fuse_opt_parse [] (\<lambda>_ _. None) (Some demo_args) blank_subdir subdir_opts (Some subdir_opt_proc) =
      Some (0, Some \<lparr>argv = Some [''x''], allocated = True\<rparr>, D)" "D 0 = Some (OStr ''/a/b'')" "D 16 = Some (OInt 1)"
    using demo_parsed by auto
  then show ?thesis by (simp add: subdir_new_def with_slash_def fuse_fs_new_def demo_subdir_def Let_def eval_nat_numeral)
qed

theorem subdir_confines_paths_witness:
  "\<exists>a q e1. subdir_addpath demo_subdir (Some ''/x/../y'') demo_data = (0, Some (a, q), e1) \<and>
     resolve [] (comps q) = resolve (resolve [] (comps ''/a/b/'')) (comps ''/x/../y'')"
proof -
  obtain a e1 where "subdir_addpath demo_subdir (Some ''/x/../y'') demo_data =
      (0, Some (a, dot_if_empty (sd_base demo_subdir @ without_slash ''/x/../y'')), e1)"
    by (simp add: subdir_addpath_def malloc_def demo_data_def demo_env_def)
  moreover from this have "resolve [] (comps (dot_if_empty (sd_base demo_subdir @ without_slash ''/x/../y''))) =
      resolve (resolve [] (comps (sd_base demo_subdir))) (comps ''/x/../y'')"
    using subdir_confines_paths [OF demo_subdir_new, of "''/x/../y''" demo_data] by (simp add: demo_subdir_def)
  ultimately show ?thesis by (auto simp: demo_subdir_def)
qed

text \<open>
  What \<open>transform_symlink\<close> puts into the buffer leads, from the directory the link lies in, to where
  the text that was there leads, whatever of the two paths is common and however many slashes separate
  their names; it is the empty path and the link itself at worst.  And it fits into the buffer, with its
  end.
\<close>
lemma transform_symlink_target:
  assumes "plain (comps path)" "length buf < sz"
  shows "link_target (butlast (comps path)) (transform_symlink d path buf sz) = link_target (butlast (comps path)) buf \<and>
    length (transform_symlink d path buf sz) < sz"
  using transformed_target [OF assms(1)] transformed_length [OF assms(2)] by blast

lemma comps_text: "comps ''a/b/x/l'' = [''a'', ''b'', ''x'', ''l'']" "comps ''a/b/y'' = [''a'', ''b'', ''y'']"
  "comps ''../y'' = [''..'', ''y'']" "comps ''a/b/'' = [''a'', ''b'']" "comps ''x/l'' = [''x'', ''l'']"
  by (simp_all add: comps.simps skip_slashes_def)

lemma demo_base: "sd_base demo_subdir = ''/a/b/''"
  by (simp add: demo_subdir_def)

lemma demo_transform: "transform_symlink demo_subdir ''/a/b/x/l'' ''/a/b/y'' 4097 = ''../y''"
  by (simp add: transform_symlink_def demo_subdir_def strip_common.simps again_def skip_slashes_def count_components_def
      count_loop.simps char_at_def numeral_2_eq_2)

lemma transform_symlink_target_witness:
  "transform_symlink demo_subdir ''/a/b/x/l'' ''/a/b/y'' 4097 = ''../y'' \<and>
   link_target [''a'', ''b'', ''x''] ''../y'' = link_target [''a'', ''b'', ''x''] ''/a/b/y''"
  using transform_symlink_target [of "''/a/b/x/l''" "''/a/b/y''" 4097 demo_subdir]
  by (simp add: demo_transform comps_text plain_def)

text \<open>
  Seen through the mount.  When neither the path of the link nor the target has doubled slashes, a target
  that is changed lies below the directory, the link leads from its place in the mounted tree to that same
  file, and following it never climbs above the root of the mount.
\<close>
lemma transform_symlink_stays_inside:
  assumes "subdir_new io al al2 sc x args nexts = Some (Some (d, fs), args1)" "sd_base d \<noteq> []" "path = sd_base d @ rest"
    and "single_slashes path" "single_slashes buf" "starts path" "plain (comps path)" "plain (comps buf)"
    and "transform_symlink d path buf sz \<noteq> buf"
  shows "\<exists>cs. comps buf = comps (sd_base d) @ cs \<and>
    link_target (butlast (comps rest)) (transform_symlink d path buf sz) = resolve [] cs \<and>
    stays (length (butlast (comps rest))) (comps (transform_symlink d path buf sz))"
proof -
  have "sd_base d = butlast (sd_base d) @ [SLASH]" using subdir_new_base(1) [OF assms(1)] assms(2)
    by (metis append_butlast_last_id)
  then show ?thesis using transformed_inside [of d _ path rest buf sz] subdir_new_base(2) [OF assms(1)] assms(3-9) by blast
qed

lemma transform_symlink_stays_inside_witness:
  "\<exists>cs. comps ''/a/b/y'' = [''a'', ''b''] @ cs \<and> link_target [''x''] ''../y'' = resolve [] cs \<and> stays 1 [''..'', ''y'']"
  using transform_symlink_stays_inside [OF demo_subdir_new, of "''/a/b/x/l''" "''x/l''" "''/a/b/y''" 4097]
  by (simp add: demo_transform comps_text plain_def demo_base starts_def)

text \<open>
  With doubled slashes it does: \<open>l - buf\<close> counts the slashes as well, so that a target far away passes for
  one below the directory.
\<close>

theorem doubled_slashes_leave_the_mount:
  "transform_symlink demo_subdir ''/a/b/l'' ''/////etc/x'' 4097 = ''../../etc/x'' \<and> \<not> stays 0 (comps ''../../etc/x'')"
proof -
  have "comps ''../../etc/x'' = [''..'', ''..'', ''etc'', ''x'']" by (simp add: comps.simps skip_slashes_def)
  moreover have "transform_symlink demo_subdir ''/a/b/l'' ''/////etc/x'' 4097 = ''../../etc/x''"
    by (simp add: transform_symlink_def demo_subdir_def strip_common.simps again_def skip_slashes_def count_components_def
      count_loop.simps char_at_def numeral_2_eq_2)
  ultimately show ?thesis by simp
qed

text \<open>
  A stack of file systems.  When the next file system leaves the allocated memory as it is, so does the
  module in front of it, whatever its allocations answer: every path it makes is given back.  So what is
  proved of the library over a file system holds over one with \<open>modules=subdir\<close>, any number of times.
\<close>
lemma subdir_keeps_memory:
  assumes "subdir_new io al al2 sc x args nexts = Some (Some (d, fs), args1)" "\<forall>nx \<in> set nexts. plain_ops_keep (fs_op nx)"
  shows "plain_ops_keep (fs_op fs)"
  using subdir_oper_keeps [of d io] subdir_new_base(3,4) [OF assms(1)] assms(2) by simp

lemma subdir_keeps_memory_witness:
  "plain_ops_keep (fs_op \<lparr>fs_op = subdir_oper (demo_io []) demo_subdir, user_data = 5\<rparr>)"
  by (rule subdir_keeps_memory [OF demo_subdir_new]) (simp add: plain_ops_keep_def xattr_ops_keep_def demo_fs_def no_ops_def)

text \<open>
  An offset beyond \<open>INT_MAX\<close> that the next file system answers comes back as a negative number, which the
  library takes for an error.
\<close>

theorem subdir_lseek_truncates:
  assumes "op_lseek (fs_op (sd_next d)) = Some (\<lambda>p off wh fi e. (r, fi, e))" "2 ^ 31 \<le> r" "r < 2 ^ 32"
    and "subdir_addpath d p e = (0, np, e1)"
  shows "fst (subdir_lseek d p off wh fi e) = r - 2 ^ 32 \<and> r - 2 ^ 32 < 0"
proof -
  have "to_int r = r - 2 ^ 32"
  proof -
    have "to_int r = (r + 2147483648) mod 4294967296 - 2147483648"
      unfolding to_int_def int_word_sint by simp
    also have "(r + 2147483648) mod 4294967296 = r - 2147483648"
      using assms(2,3) mod_pos_pos_trivial [of "r - 2147483648" 4294967296] minus_mod_self2 [of "r + 2147483648" 4294967296] by simp
    finally show ?thesis by simp
  qed
  then show ?thesis using assms by (simp add: subdir_lseek_def with_newpath_def fuse_fs_lseek_def call_op_def)
qed

end
