(* ===== verification/Workers.thy ===== *)
theory Workers
  imports Receive
begin

text \<open>
  The loop with several threads, \<open>.deps/libfuse3-3.16.2/lib/fuse_loop_mt.c\<close>: the threads that read and
  process requests, the main thread that starts the first of them and collects them at the end, and the
  configuration of the loop.

  A thread is where it is in its function, \<open>w_pc\<close> and \<open>main_pc\<close>.  What happens under the lock of
  \<open>struct fuse_mt\<close> is one step, and so is what touches nothing the threads share.  What a request does
  while it is processed is left open: the session may be told to exit meanwhile.  A thread that
  was created runs from the moment its creator has entered it into the list, as nothing it does before it
  takes the lock concerns the list or the counters.  A thread can be cancelled only while it reads.

  Addresses of workers, channels and buffers are numbers that are never used again, \<open>mt_next\<close>; what was
  freed is gone, and touching it afterwards is \<open>None\<close>.  Whether an allocation, the clone of the device or the
  creation of a thread succeeds is the next of the answers in \<open>mt_answers\<close>.
\<close>

section \<open>Configuration\<close>

record fuse_loop_config =
  version_id :: int
  cfg_clone_fd :: int
  max_idle_threads :: int
  cfg_max_threads :: u32

record fuse_loop_config_v1 =
  v1_clone_fd :: int
  v1_max_idle_threads :: u32

definition FUSE_LOOP_MT_V2_IDENTIFIER :: int where "FUSE_LOOP_MT_V2_IDENTIFIER = 2147483647 - 2"
definition FUSE_LOOP_MT_DEF_CLONE_FD :: int where "FUSE_LOOP_MT_DEF_CLONE_FD = 0"
definition FUSE_LOOP_MT_DEF_MAX_THREADS :: u32 where "FUSE_LOOP_MT_DEF_MAX_THREADS = 10"
definition FUSE_LOOP_MT_DEF_IDLE_THREADS :: int where "FUSE_LOOP_MT_DEF_IDLE_THREADS = - 1"
definition FUSE_LOOP_MT_MAX_THREADS :: u32 where "FUSE_LOOP_MT_MAX_THREADS = 100 * 1000"

definition fuse_loop_cfg_create :: "allocs \<Rightarrow> fuse_loop_config option \<times> allocs" where
  "fuse_loop_cfg_create al =
     (let (ok, al1) = alloc_next al in
      (if ok then Some \<lparr>version_id = FUSE_LOOP_MT_V2_IDENTIFIER, cfg_clone_fd = FUSE_LOOP_MT_DEF_CLONE_FD,
                        max_idle_threads = FUSE_LOOP_MT_DEF_IDLE_THREADS, cfg_max_threads = FUSE_LOOP_MT_DEF_MAX_THREADS\<rparr>
       else None, al1))"

definition fuse_loop_cfg_verify :: "fuse_loop_config \<Rightarrow> int" where
  "fuse_loop_cfg_verify c = (if version_id c \<noteq> FUSE_LOOP_MT_V2_IDENTIFIER then - EINVAL else 0)"

definition fuse_loop_cfg_set_idle_threads :: "fuse_loop_config \<Rightarrow> u32 \<Rightarrow> fuse_loop_config" where
  "fuse_loop_cfg_set_idle_threads c v = (if FUSE_LOOP_MT_MAX_THREADS < v then c else c\<lparr>max_idle_threads := sint v\<rparr>)"

definition fuse_loop_cfg_set_max_threads :: "fuse_loop_config \<Rightarrow> u32 \<Rightarrow> fuse_loop_config" where
  "fuse_loop_cfg_set_max_threads c v = c\<lparr>cfg_max_threads := v\<rparr>"

definition fuse_loop_cfg_set_clone_fd :: "fuse_loop_config \<Rightarrow> u32 \<Rightarrow> fuse_loop_config" where
  "fuse_loop_cfg_set_clone_fd c v = c\<lparr>cfg_clone_fd := sint v\<rparr>"

definition fuse_loop_cfg_convert :: "fuse_loop_config \<Rightarrow> fuse_loop_config_v1 \<Rightarrow> fuse_loop_config" where
  "fuse_loop_cfg_convert c v1 =
     fuse_loop_cfg_set_clone_fd (fuse_loop_cfg_set_idle_threads c (v1_max_idle_threads v1)) (word_of_int (v1_clone_fd v1))"

section \<open>State\<close>

datatype pc =
  Top                     \<comment> \<open>at the test of the loop\<close>
| Reading                 \<comment> \<open>in \<open>fuse_session_receive_buf_int\<close>\<close>
| Got int                 \<comment> \<open>it has returned this\<close>
| Serving bool            \<comment> \<open>in \<open>fuse_session_process_buf_int\<close>; the value of \<open>isforget\<close>\<close>
| Served bool
| Leaving                 \<comment> \<open>behind the loop\<close>
| Over                    \<comment> \<open>the thread has ended and waits to be joined\<close>

record fuse_worker =
  w_pc :: pc
  w_fbuf :: fuse_buf
  w_data :: bytes         \<comment> \<open>what is in the memory of the buffer\<close>
  w_ch :: "nat option"
  w_cancel :: bool        \<comment> \<open>a cancellation is pending\<close>

datatype main_pc =
  Starts                  \<comment> \<open>before the first thread is started\<close>
| Tests                   \<comment> \<open>at the test of the loop around \<open>sem_wait\<close>\<close>
| Enters                  \<comment> \<open>the session was not exited; before \<open>sem_wait\<close>\<close>
| Waits                   \<comment> \<open>in \<open>sem_wait\<close>\<close>
| Stops                   \<comment> \<open>behind the loop\<close>
| Joins                   \<comment> \<open>at the test of the loop around \<open>fuse_join_worker\<close>\<close>
| Joining nat             \<comment> \<open>in \<open>fuse_join_worker\<close>\<close>
| Ended int               \<comment> \<open>the loop has returned this\<close>

record fuse_mt =
  numworker :: int
  numavail :: int
  mt_se :: session
  mt_list :: "nat list"   \<comment> \<open>the ring behind \<open>main\<close>, oldest first\<close>
  mt_finish :: nat        \<comment> \<open>the semaphore\<close>
  mt_exit :: bool
  mt_error :: int
  mt_clone_fd :: bool
  max_idle :: int
  max_threads :: int
  worker_heap :: "nat \<Rightarrow> fuse_worker option"
  mt_bufs :: "nat list"   \<comment> \<open>buffers that are allocated\<close>
  mt_next :: nat
  mt_answers :: "bool list"
  main_pc :: main_pc

definition mt_init :: "session \<Rightarrow> fuse_loop_config \<Rightarrow> bool list \<Rightarrow> fuse_mt" where
  "mt_init s c ans = \<lparr>numworker = 0, numavail = 0, mt_se = s, mt_list = [], mt_finish = 0, mt_exit = False, mt_error = 0,
     mt_clone_fd = (cfg_clone_fd c \<noteq> 0), max_idle = max_idle_threads c, max_threads = sint (cfg_max_threads c),
     worker_heap = Map.empty, mt_bufs = [], mt_next = 1, mt_answers = ans, main_pc = Starts\<rparr>"

definition upd_worker :: "nat \<Rightarrow> (fuse_worker \<Rightarrow> fuse_worker) \<Rightarrow> fuse_mt \<Rightarrow> fuse_mt" where
  "upd_worker w g m = m\<lparr>worker_heap := (worker_heap m)(w := map_option g (worker_heap m w))\<rparr>"

definition goto :: "nat \<Rightarrow> pc \<Rightarrow> fuse_mt \<Rightarrow> fuse_mt" where
  "goto w p = upd_worker w (\<lambda>x. x\<lparr>w_pc := p\<rparr>)"

definition stop_session :: "bool \<Rightarrow> fuse_mt \<Rightarrow> fuse_mt" where
  "stop_session stop m = (if stop then m\<lparr>mt_se := fuse_session_exit (mt_se m)\<rparr> else m)"

definition take_answer :: "fuse_mt \<Rightarrow> bool \<times> fuse_mt" where
  "take_answer m = (let (ok, a) = alloc_next (mt_answers m) in (ok, m\<lparr>mt_answers := a\<rparr>))"

section \<open>Channels and threads\<close>

definition fuse_chan_new :: "nat \<Rightarrow> fuse_mt \<Rightarrow> nat option \<times> fuse_mt" where
  "fuse_chan_new c m =
     (let (ok, m1) = take_answer m in
      if ok then (Some c, m1\<lparr>mt_se := (mt_se m1)\<lparr>chan_ctr := (chan_ctr (mt_se m1))(c := 1)\<rparr>\<rparr>) else (None, m1))"

text \<open>\<open>open\<close>, \<open>ioctl\<close> and the channel; a descriptor that is not kept is closed at once.\<close>

definition fuse_clone_chan :: "fuse_mt \<Rightarrow> nat option \<times> fuse_mt" where
  "fuse_clone_chan m =
     (let (opened, m1) = take_answer m in
      if \<not> opened then (None, m1)
      else
        (let (cloned, m2) = take_answer m1 in
         if \<not> cloned then (None, m2) else fuse_chan_new (mt_next m2) (m2\<lparr>mt_next := mt_next m2 + 1\<rparr>)))"

definition put_worker_chan :: "nat option \<Rightarrow> fuse_mt \<Rightarrow> fuse_mt option" where
  "put_worker_chan ch m = map_option (\<lambda>s. m\<lparr>mt_se := s\<rparr>) (fuse_chan_put ch (mt_se m))"

text \<open>The channel of a new worker; a clone that fails is not attempted again.\<close>

definition worker_chan :: "fuse_mt \<Rightarrow> nat option \<times> fuse_mt" where
  "worker_chan m =
     (if mt_clone_fd m then
        (case fuse_clone_chan m of
           (None, m1) \<Rightarrow> (None, m1\<lparr>mt_clone_fd := False\<rparr>)
         | (Some c, m1) \<Rightarrow> (Some c, m1))
      else (None, m))"

definition fuse_loop_start_thread :: "fuse_mt \<Rightarrow> (int \<times> fuse_mt) option" where
  "fuse_loop_start_thread m =
     (let (ok, m1) = take_answer m in
      if \<not> ok then Some (-1, m1)
      else
        (let w = mt_next m1; m2 = m1\<lparr>mt_next := mt_next m1 + 1\<rparr>;
             (ch, m3) = worker_chan m2;
             (started, m4) = take_answer m3
         in
         if \<not> started then map_option (Pair (-1)) (put_worker_chan ch m4)
         else Some (0, m4\<lparr>worker_heap := (worker_heap m4)(w \<mapsto> \<lparr>w_pc = Top, w_fbuf = no_buf, w_data = [], w_ch = ch, w_cancel = False\<rparr>),
                          mt_list := mt_list m4 @ [w], numavail := numavail m4 + 1, numworker := numworker m4 + 1\<rparr>)))"

definition free_buffer :: "nat \<Rightarrow> fuse_mt \<Rightarrow> fuse_mt option" where
  "free_buffer a m =
     (if a = 0 then Some m else if a \<in> set (mt_bufs m) then Some (m\<lparr>mt_bufs := remove1 a (mt_bufs m)\<rparr>) else None)"

text \<open>\<open>free (w->fbuf.mem); fuse_chan_put (w->ch); free (w)\<close>\<close>

definition free_worker :: "nat \<Rightarrow> fuse_mt \<Rightarrow> fuse_mt option" where
  "free_worker w m =
     do { x \<leftarrow> worker_heap m w;
          m1 \<leftarrow> free_buffer (buf_mem (w_fbuf x)) m;
          m2 \<leftarrow> put_worker_chan (w_ch x) m1;
          Some (m2\<lparr>worker_heap := (worker_heap m2)(w := None)\<rparr>) }"

section \<open>A worker\<close>

definition worker_top :: "nat \<Rightarrow> fuse_mt \<Rightarrow> fuse_mt" where
  "worker_top w m = goto w (if fuse_session_exited (mt_se m) then Leaving else Reading) m"

text \<open>What a call of \<open>fuse_session_receive_buf_int\<close> does.\<close>

record receipt =
  rc_res :: int
  rc_alloc :: bool        \<comment> \<open>it has allocated the buffer if there was none\<close>
  rc_fd :: bool           \<comment> \<open>the request was left in the pipe\<close>
  rc_data :: bytes        \<comment> \<open>the request, if it was not\<close>
  rc_stop :: bool         \<comment> \<open>the session was told to exit\<close>

definition own_fbuf :: "bool \<Rightarrow> nat \<Rightarrow> fuse_mt \<Rightarrow> fuse_mt" where
  "own_fbuf alloc w m =
     (case worker_heap m w of
        Some x \<Rightarrow>
          (if alloc \<and> buf_mem (w_fbuf x) = 0 then
             (upd_worker w (\<lambda>x. x\<lparr>w_fbuf := (w_fbuf x)\<lparr>buf_mem := mt_next m\<rparr>\<rparr>) m)\<lparr>mt_bufs := mt_next m # mt_bufs m, mt_next := mt_next m + 1\<rparr>
           else m)
      | None \<Rightarrow> m)"

definition worker_receive :: "nat \<Rightarrow> receipt \<Rightarrow> fuse_mt \<Rightarrow> fuse_mt" where
  "worker_receive w r m =
     goto w (Got (rc_res r))
       (upd_worker w (\<lambda>x. x\<lparr>w_fbuf := (w_fbuf x)\<lparr>buf_is_fd := rc_fd r\<rparr>, w_data := rc_data r\<rparr>)
         (own_fbuf (rc_alloc r) w (stop_session (rc_stop r) m)))"

definition FUSE_FORGET :: u32 where "FUSE_FORGET = 2"
definition FUSE_BATCH_FORGET :: u32 where "FUSE_BATCH_FORGET = 42"

definition isforget :: "fuse_worker \<Rightarrow> bool option" where
  "isforget x =
     (if buf_is_fd (w_fbuf x) then Some False
      else do { opcode \<leftarrow> u32_at (w_data x) 4; Some (opcode = FUSE_FORGET \<or> opcode = FUSE_BATCH_FORGET) })"

text \<open>After the read: the branches without a request, and the first section under the lock.\<close>

definition worker_result :: "nat \<Rightarrow> int \<Rightarrow> fuse_mt \<Rightarrow> fuse_mt option" where
  "worker_result w res m =
     (if res = - EINTR then Some (goto w Top m)
      else if res \<le> 0 then
        Some (goto w Leaving (if res < 0 then (stop_session True m)\<lparr>mt_error := res\<rparr> else m))
      else if mt_exit m then Some (goto w Over m)
      else
        do { x \<leftarrow> worker_heap m w;
             f \<leftarrow> isforget x;
             let m1 = (if f then m else m\<lparr>numavail := numavail m - 1\<rparr>);
             m2 \<leftarrow> (if numavail m1 = 0 \<and> numworker m1 < max_threads m1 then map_option snd (fuse_loop_start_thread m1)
                    else Some m1);
             Some (goto w (Serving f) m2) })"

definition worker_serve :: "nat \<Rightarrow> bool \<Rightarrow> bool \<Rightarrow> fuse_mt \<Rightarrow> fuse_mt" where
  "worker_serve w f stop m = goto w (Served f) (stop_session stop m)"

text \<open>The second section under the lock, with the end of a thread that is not needed.\<close>

definition worker_back :: "nat \<Rightarrow> bool \<Rightarrow> fuse_mt \<Rightarrow> fuse_mt option" where
  "worker_back w f m =
     (let m1 = (if f then m else m\<lparr>numavail := numavail m + 1\<rparr>) in
      if max_idle m1 \<noteq> -1 \<and> max_idle m1 < numavail m1 \<and> 1 < numworker m1 then
        (if mt_exit m1 then Some (goto w Over m1)
         else free_worker w (m1\<lparr>mt_list := remove1 w (mt_list m1), numavail := numavail m1 - 1, numworker := numworker m1 - 1\<rparr>))
      else Some (goto w Top m1))"

definition worker_leave :: "nat \<Rightarrow> fuse_mt \<Rightarrow> fuse_mt" where
  "worker_leave w m = goto w Over (m\<lparr>mt_finish := mt_finish m + 1\<rparr>)"

text \<open>A pending cancellation is acted upon; the buffer may have been allocated before.\<close>

definition worker_cancelled :: "nat \<Rightarrow> bool \<Rightarrow> fuse_mt \<Rightarrow> fuse_mt" where
  "worker_cancelled w alloc m = goto w Over (own_fbuf alloc w m)"

section \<open>The main thread\<close>

definition loop_ends :: "int \<Rightarrow> fuse_mt \<Rightarrow> fuse_mt" where
  "loop_ends err m = m\<lparr>main_pc := Ended (if se_error (mt_se m) \<noteq> 0 then se_error (mt_se m) else err),
                       mt_se := fuse_session_reset (mt_se m)\<rparr>"

definition cancel_all :: "fuse_mt \<Rightarrow> fuse_mt" where
  "cancel_all m = fold (\<lambda>w. upd_worker w (\<lambda>x. x\<lparr>w_cancel := True\<rparr>)) (mt_list m) m"

definition fuse_join_worker :: "nat \<Rightarrow> fuse_mt \<Rightarrow> fuse_mt option" where
  "fuse_join_worker w m = free_worker w (m\<lparr>mt_list := remove1 w (mt_list m)\<rparr>)"

definition main_step :: "fuse_mt \<Rightarrow> fuse_mt option" where
  "main_step m =
     (case main_pc m of
        Starts \<Rightarrow>
          do { (err, m1) \<leftarrow> fuse_loop_start_thread m;
               Some (if err = 0 then m1\<lparr>main_pc := Tests\<rparr> else loop_ends err m1) }
      | Tests \<Rightarrow> Some (m\<lparr>main_pc := (if fuse_session_exited (mt_se m) then Stops else Enters)\<rparr>)
      | Enters \<Rightarrow> Some (m\<lparr>main_pc := Waits\<rparr>)
      | Waits \<Rightarrow> Some (m\<lparr>mt_finish := mt_finish m - 1, main_pc := Tests\<rparr>)
      | Stops \<Rightarrow> Some ((cancel_all m)\<lparr>mt_exit := True, main_pc := Joins\<rparr>)
      | Joins \<Rightarrow> Some (case mt_list m of [] \<Rightarrow> loop_ends (mt_error m) m | w # ws \<Rightarrow> m\<lparr>main_pc := Joining w\<rparr>)
      | Joining w \<Rightarrow> map_option (\<lambda>m1. m1\<lparr>main_pc := Joins\<rparr>) (fuse_join_worker w m)
      | Ended err \<Rightarrow> Some m)"

section \<open>Runs\<close>

datatype turn =
  Worker nat              \<comment> \<open>a worker goes on by itself\<close>
| Receives nat receipt    \<comment> \<open>its read returns\<close>
| Serves nat bool         \<comment> \<open>its request is processed; the session may have been told to exit\<close>
| Cancelled nat bool
| Main
| Interrupted             \<comment> \<open>\<open>sem_wait\<close> returns because of a signal\<close>
| Exit_signal             \<comment> \<open>a signal handler in the main thread tells the session to exit\<close>

definition pc_of :: "fuse_mt \<Rightarrow> nat \<Rightarrow> pc option" where
  "pc_of m w = map_option w_pc (worker_heap m w)"

text \<open>
  What \<open>fuse_session_receive_buf_int\<close> keeps to: 0 stands for the end of the session, and a request has a
  header and is in the memory of the buffer or in the pipe.
\<close>

definition proper_receipt :: "receipt \<Rightarrow> fuse_mt \<Rightarrow> bool" where
  "proper_receipt r m \<longleftrightarrow> (rc_res r = 0 \<longrightarrow> rc_stop r \<or> exited (mt_se m)) \<and>
     (0 < rc_res r \<and> \<not> rc_fd r \<longrightarrow> rc_alloc r \<and> IN_HEADER_SIZE \<le> length (rc_data r))"

text \<open>So it does when it reads into memory, whatever the device answers.\<close>

lemma read_device_result:
  "read_device a n sc t = Some (r, sc1, t1) \<Longrightarrow> \<forall>stop err. (stop, Fails err) \<in> set sc \<longrightarrow> 0 < err \<Longrightarrow>
     (case r of Inl res \<Rightarrow> res \<le> 0 \<and> (res = 0 \<longrightarrow> exited (se t1)) | Inr k \<Rightarrow> IN_HEADER_SIZE \<le> k)"
proof (induction a n sc t rule: read_device.induct)
  case (2 a n stop err sc t)
  have "0 < err" using "2.prems"(2) by simp
  then show ?case using 2 by (auto simp: Let_def fuse_session_exited_def fuse_session_exit_def split: if_splits sum.splits)
next
  case (3 a n stop bs sc t)
  then show ?case by (auto simp: Let_def fuse_session_exited_def EIO_def split: if_splits)
qed simp

lemma receive_keeps_to_it:
  assumes "\<not> splice_reads (se t)" "\<forall>stop err. (stop, Fails err) \<in> set sc \<longrightarrow> 0 < err"
    and "fuse_session_receive_buf_int io po fill buf sc t = Some (res, buf1, sc1, t1)" "\<not> buf_is_fd buf"
  shows "proper_receipt \<lparr>rc_res = res, rc_alloc = True, rc_fd = buf_is_fd buf1,
    rc_data = mem_load (mem (th_env t1)) (buf_mem buf1) (buf_size buf1), rc_stop = exited (se t1)\<rparr> m"
proof -
  have f: "receive_fallback buf sc t = Some (res, buf1, sc1, t1)" using assms(1,3) by (simp add: fuse_session_receive_buf_int_def)
  obtain ao t2 where o: "own_buffer buf t = (ao, t2)" by (metis surj_pair)
  show ?thesis
  proof (cases ao)
    case None
    then show ?thesis using f o by (auto simp: receive_fallback_def proper_receipt_def ENOMEM_def)
  next
    case (Some a)
    obtain r sc2 t3 where r: "read_device a (bufsize (se t2)) sc t2 = Some (r, sc2, t3)"
      using f o Some by (auto simp: receive_fallback_def bind_eq_Some_conv)
    then have "sc2 = sc1" "t3 = t1"
        "(res, buf1) = (case r of Inl x \<Rightarrow> (x, buf\<lparr>buf_mem := a\<rparr>) | Inr n \<Rightarrow> (int n, buf\<lparr>buf_mem := a, buf_size := n\<rparr>))"
      using f o Some by (cases r; simp add: receive_fallback_def)+
    then show ?thesis using read_device_result [OF r assms(2)] assms(4)
      by (cases r) (auto simp: proper_receipt_def mem_load_length IN_HEADER_SIZE_def)
  qed
qed

fun can :: "turn \<Rightarrow> fuse_mt \<Rightarrow> bool" where
  "can (Worker w) m = (case pc_of m w of
     Some Top \<Rightarrow> True | Some (Got res) \<Rightarrow> True | Some (Served f) \<Rightarrow> True | Some Leaving \<Rightarrow> True | _ \<Rightarrow> False)"
| "can (Receives w r) m = (pc_of m w = Some Reading \<and> proper_receipt r m)"
| "can (Serves w stop) m = (case pc_of m w of Some (Serving f) \<Rightarrow> True | _ \<Rightarrow> False)"
| "can (Cancelled w alloc) m = (case worker_heap m w of Some x \<Rightarrow> w_pc x = Reading \<and> w_cancel x | None \<Rightarrow> False)"
| "can Main m = (case main_pc m of
     Waits \<Rightarrow> 0 < mt_finish m | Joining w \<Rightarrow> pc_of m w = None \<or> pc_of m w = Some Over | Ended err \<Rightarrow> False | _ \<Rightarrow> True)"
| "can Interrupted m = (main_pc m = Waits)"
| "can Exit_signal m = (case main_pc m of Ended err \<Rightarrow> False | _ \<Rightarrow> True)"

fun act :: "turn \<Rightarrow> fuse_mt \<Rightarrow> fuse_mt option" where
  "act (Worker w) m =
     (case pc_of m w of
        Some Top \<Rightarrow> Some (worker_top w m)
      | Some (Got res) \<Rightarrow> worker_result w res m
      | Some (Served f) \<Rightarrow> worker_back w f m
      | Some Leaving \<Rightarrow> Some (worker_leave w m)
      | _ \<Rightarrow> Some m)"
| "act (Receives w r) m = Some (worker_receive w r m)"
| "act (Serves w stop) m = (case pc_of m w of Some (Serving f) \<Rightarrow> Some (worker_serve w f stop m) | _ \<Rightarrow> Some m)"
| "act (Cancelled w alloc) m = Some (worker_cancelled w alloc m)"
| "act Main m = main_step m"
| "act Interrupted m = Some (m\<lparr>main_pc := Tests\<rparr>)"
| "act Exit_signal m = Some ((stop_session True m)\<lparr>main_pc := (if main_pc m = Waits then Tests else main_pc m)\<rparr>)"

text \<open>A turn that cannot be taken is left out.\<close>

definition take_turn :: "turn \<Rightarrow> fuse_mt \<Rightarrow> fuse_mt option" where
  "take_turn e m = (if can e m then act e m else Some m)"

fun take_turns :: "turn list \<Rightarrow> fuse_mt \<Rightarrow> fuse_mt option" where
  "take_turns [] m = Some m"
| "take_turns (e # es) m = do { m1 \<leftarrow> take_turn e m; take_turns es m1 }"

text \<open>
  The functions a program calls, with the turns the threads take as an argument.  \<open>Inl\<close> is an error before
  the loop.  Without memory for the configuration the first use of it follows a null pointer.
\<close>

definition fuse_session_loop_mt_312 ::
  "turn list \<Rightarrow> session \<Rightarrow> fuse_loop_config option \<Rightarrow> allocs \<Rightarrow> bool list \<Rightarrow> (int + fuse_mt) option" where
  "fuse_session_loop_mt_312 es s config al ans =
     (case config of
        Some c \<Rightarrow>
          (if fuse_loop_cfg_verify c \<noteq> 0 then Some (Inl (fuse_loop_cfg_verify c))
           else map_option Inr (take_turns es (mt_init s c ans)))
      | None \<Rightarrow>
          (case fuse_loop_cfg_create al of
             (None, al1) \<Rightarrow> None
           | (Some c, al1) \<Rightarrow> map_option Inr (take_turns es (mt_init s c ans))))"

definition fuse_session_loop_mt_32 ::
  "turn list \<Rightarrow> session \<Rightarrow> fuse_loop_config_v1 option \<Rightarrow> allocs \<Rightarrow> bool list \<Rightarrow> (int + fuse_mt) option" where
  "fuse_session_loop_mt_32 es s config_v1 al ans =
     (case config_v1 of
        None \<Rightarrow> fuse_session_loop_mt_312 es s None al ans
      | Some v1 \<Rightarrow>
          (case fuse_loop_cfg_create al of
             (None, al1) \<Rightarrow> Some (Inl ENOMEM)
           | (Some c, al1) \<Rightarrow> fuse_session_loop_mt_312 es s (Some (fuse_loop_cfg_convert c v1)) al1 ans))"

text \<open>The configuration that is made here is not freed again.\<close>

definition fuse_session_loop_mt_31 :: "turn list \<Rightarrow> session \<Rightarrow> int \<Rightarrow> allocs \<Rightarrow> bool list \<Rightarrow> (int + fuse_mt) option" where
  "fuse_session_loop_mt_31 es s clone_fd al ans =
     (case fuse_loop_cfg_create al of
        (None, al1) \<Rightarrow> if 0 < clone_fd then None else fuse_session_loop_mt_312 es s None al1 ans
      | (Some c, al1) \<Rightarrow>
          fuse_session_loop_mt_312 es s
            (Some (if 0 < clone_fd then fuse_loop_cfg_set_clone_fd c (word_of_int clone_fd) else c)) al1 ans)"

lemma default_loop:
  "\<exists>c. max_idle_threads c = - 1 \<and> cfg_max_threads c = 10 \<and>
     fuse_session_loop_mt_31 es s 0 [] ans = map_option Inr (take_turns es (mt_init s c ans))"
  by (intro exI [of _ "the (fst (fuse_loop_cfg_create []))"])
    (simp add: fuse_session_loop_mt_31_def fuse_session_loop_mt_312_def fuse_loop_cfg_create_def fuse_loop_cfg_verify_def
      FUSE_LOOP_MT_DEF_IDLE_THREADS_def FUSE_LOOP_MT_DEF_MAX_THREADS_def Let_def)

end
