(* ===== verification/WorkerRuns.thy ===== *)
theory WorkerRuns
  imports Workers InterruptRuns
begin

text \<open>
  What holds in every run of the loop with several threads, however they interleave: the list, the counters,
  the buffers and the channels are in order (\<open>mt_ok\<close>), requests find a thread that reads them, and a session
  that has exited makes the loop return.

  The invariant is counted: \<open>tally\<close> is how many workers have a value in a field.
\<close>

section \<open>Tallies\<close>

definition tally :: "(fuse_worker \<Rightarrow> 'a) \<Rightarrow> fuse_mt \<Rightarrow> 'a \<Rightarrow> nat" where
  "tally f m a = count_list (map (\<lambda>w. f (the (worker_heap m w))) (mt_list m)) a"

lemma count_list_map_cong:
  "(\<And>w. w \<in> set l \<Longrightarrow> f w = g w) \<Longrightarrow> count_list (map f l) a = count_list (map g l) a"
  by (induction l) auto

lemma count_list_map_remove:
  "w \<in> set l \<Longrightarrow> count_list (map f l) a = count_list (map f (remove1 w l)) a + (if f w = a then 1 else 0)"
  by (induction l) auto

lemma count_list_map_change:
  assumes "distinct l" "w \<in> set l" "\<And>v. v \<noteq> w \<Longrightarrow> g v = f v"
  shows "count_list (map g l) a + (if f w = a then 1 else 0) = count_list (map f l) a + (if g w = a then 1 else 0)"
proof -
  have "count_list (map g (remove1 w l)) a = count_list (map f (remove1 w l)) a"
    by (rule count_list_map_cong) (use assms in auto)
  then show ?thesis using count_list_map_remove [OF assms(2), of f a] count_list_map_remove [OF assms(2), of g a] by simp
qed

lemma count_list_append: "count_list (xs @ ys) a = count_list xs a + count_list ys a"
  by (induction xs) auto

lemma count_list_remove1: "a \<in> set xs \<Longrightarrow> count_list (remove1 a xs) b = count_list xs b - (if a = b then 1 else 0)"
  by (induction xs) (auto simp: count_list_0_iff split: if_splits intro: Suc_pred)

lemma count_list_pos: "0 < count_list xs a \<longleftrightarrow> a \<in> set xs"
  by (metis count_list_0_iff gr0I less_not_refl)

section \<open>The invariant\<close>

definition w_mem :: "fuse_worker \<Rightarrow> nat" where
  "w_mem x = buf_mem (w_fbuf x)"

definition idle_pc :: "pc \<Rightarrow> bool" where
  "idle_pc p \<longleftrightarrow> p \<noteq> Serving False \<and> p \<noteq> Served False"

definition w_idle :: "fuse_worker \<Rightarrow> bool" where
  "w_idle x = idle_pc (w_pc x)"

definition listed :: "fuse_mt \<Rightarrow> bool" where
  "listed m \<longleftrightarrow> distinct (mt_list m) \<and> set (mt_list m) = dom (worker_heap m) \<and> 0 < mt_next m \<and>
     (\<forall>w x. worker_heap m w = Some x \<longrightarrow> w < mt_next m \<and> (\<forall>c. w_ch x = Some c \<longrightarrow> c < mt_next m))"

definition accounted :: "fuse_mt \<Rightarrow> bool" where
  "accounted m \<longleftrightarrow> (\<forall>a. a \<noteq> 0 \<longrightarrow> count_list (mt_bufs m) a = tally w_mem m a) \<and> 0 \<notin> set (mt_bufs m) \<and>
     (\<forall>c. chan_ctr (mt_se m) c = tally w_ch m (Some c))"

definition in_count :: "fuse_mt \<Rightarrow> bool" where
  "in_count m \<longleftrightarrow> (\<not> mt_exit m \<longrightarrow> numworker m = int (length (mt_list m)) \<and> numavail m = int (tally w_idle m True) \<and>
     numworker m \<le> max 1 (max_threads m))"

definition sound_pc :: "bool \<Rightarrow> fuse_worker \<Rightarrow> bool" where
  "sound_pc ex x \<longleftrightarrow> (case w_pc x of
       Leaving \<Rightarrow> ex | Over \<Rightarrow> ex
     | Got res \<Rightarrow> (res = 0 \<longrightarrow> ex) \<and> (0 < res \<longrightarrow> isforget x \<noteq> None)
     | _ \<Rightarrow> True)"

definition main_ok :: "fuse_mt \<Rightarrow> bool" where
  "main_ok m \<longleftrightarrow> (case main_pc m of
       Starts \<Rightarrow> mt_list m = [] \<and> \<not> mt_exit m
     | Tests \<Rightarrow> \<not> mt_exit m
     | Enters \<Rightarrow> \<not> mt_exit m
     | Waits \<Rightarrow> \<not> mt_exit m
     | Stops \<Rightarrow> \<not> mt_exit m \<and> exited (mt_se m)
     | Joins \<Rightarrow> mt_exit m \<and> exited (mt_se m)
     | Joining w \<Rightarrow> mt_exit m \<and> exited (mt_se m) \<and> w \<in> set (mt_list m)
     | Ended err \<Rightarrow> mt_list m = []) \<and>
   (\<forall>w x. worker_heap m w = Some x \<longrightarrow> w_cancel x = mt_exit m)"

definition mt_ok :: "fuse_mt \<Rightarrow> bool" where
  "mt_ok m \<longleftrightarrow> listed m \<and> accounted m \<and> in_count m \<and> main_ok m \<and>
     (\<forall>w x. worker_heap m w = Some x \<longrightarrow> sound_pc (exited (mt_se m)) x)"

section \<open>One worker changes\<close>

lemma upd_worker_simps [simp]:
  "numworker (upd_worker w g m) = numworker m" "numavail (upd_worker w g m) = numavail m" "mt_se (upd_worker w g m) = mt_se m"
  "mt_list (upd_worker w g m) = mt_list m" "mt_finish (upd_worker w g m) = mt_finish m" "mt_exit (upd_worker w g m) = mt_exit m"
  "mt_error (upd_worker w g m) = mt_error m" "max_idle (upd_worker w g m) = max_idle m" "max_threads (upd_worker w g m) = max_threads m"
  "mt_bufs (upd_worker w g m) = mt_bufs m" "mt_next (upd_worker w g m) = mt_next m" "mt_answers (upd_worker w g m) = mt_answers m"
  "main_pc (upd_worker w g m) = main_pc m" "mt_clone_fd (upd_worker w g m) = mt_clone_fd m"
  "worker_heap (upd_worker w g m) = (worker_heap m)(w := map_option g (worker_heap m w))"
  by (simp_all add: upd_worker_def)

lemma goto_simps [simp]:
  "numworker (goto w p m) = numworker m" "numavail (goto w p m) = numavail m" "mt_se (goto w p m) = mt_se m"
  "mt_list (goto w p m) = mt_list m" "mt_finish (goto w p m) = mt_finish m" "mt_exit (goto w p m) = mt_exit m"
  "mt_error (goto w p m) = mt_error m" "max_idle (goto w p m) = max_idle m" "max_threads (goto w p m) = max_threads m"
  "mt_bufs (goto w p m) = mt_bufs m" "mt_next (goto w p m) = mt_next m" "mt_answers (goto w p m) = mt_answers m"
  "main_pc (goto w p m) = main_pc m" "mt_clone_fd (goto w p m) = mt_clone_fd m"
  "worker_heap (goto w p m) = (worker_heap m)(w := map_option (\<lambda>x. x\<lparr>w_pc := p\<rparr>) (worker_heap m w))"
  by (simp_all add: goto_def)

lemma listed_in: "listed m \<Longrightarrow> worker_heap m w = Some x \<Longrightarrow> w \<in> set (mt_list m)"
  by (auto simp: listed_def)

lemma tally_upd:
  assumes "listed m" "worker_heap m w = Some x"
  shows "tally f (upd_worker w g m) a + (if f x = a then 1 else 0) = tally f m a + (if f (g x) = a then 1 else 0)"
  using count_list_map_change [of "mt_list m" w "\<lambda>v. f (the (worker_heap (upd_worker w g m) v))" "\<lambda>v. f (the (worker_heap m v))" a]
    assms listed_in [OF assms] by (simp add: tally_def listed_def)

lemma tally_same:
  assumes "mt_list m' = mt_list m" "\<And>w. w \<in> set (mt_list m) \<Longrightarrow> f (the (worker_heap m' w)) = f (the (worker_heap m w))"
  shows "tally f m' a = tally f m a"
  unfolding tally_def assms(1) by (rule count_list_map_cong) (use assms(2) in auto)

lemma tally_keep:
  assumes "listed m" "worker_heap m w = Some x" "f (g x) = f x"
  shows "tally f (upd_worker w g m) a = tally f m a"
  using tally_upd [OF assms(1,2), of f g a] assms(3) by simp

lemma tally_pos: "worker_heap m w = Some x \<Longrightarrow> listed m \<Longrightarrow> 0 < tally f m (f x)"
  unfolding tally_def count_list_pos using listed_in by force

text \<open>A change of the state that concerns neither the workers nor the rest of the invariant.\<close>

lemma mt_ok_parts:
  assumes "mt_ok m"
  shows "listed m" "accounted m" "in_count m" "main_ok m" "worker_heap m w = Some x \<Longrightarrow> sound_pc (exited (mt_se m)) x"
  using assms by (auto simp: mt_ok_def)

text \<open>A worker moves on; its buffer and its channel stay.\<close>

lemma listed_upd:
  assumes "listed m" "\<And>x. w_ch (g x) = w_ch x"
  shows "listed (upd_worker w g m)"
  using assms unfolding listed_def by (auto simp: dom_def split: if_splits option.splits)

lemma accounted_upd:
  assumes "listed m" "accounted m" "worker_heap m w = Some x" "w_mem (g x) = w_mem x" "w_ch (g x) = w_ch x"
  shows "accounted (upd_worker w g m)"
  using assms(2) tally_keep [OF assms(1,3), of w_mem g] tally_keep [OF assms(1,3), of w_ch g] assms(4,5)
  by (simp add: accounted_def)

lemma main_ok_upd:
  assumes "main_ok m" "\<And>x. w_cancel (g x) = w_cancel x"
  shows "main_ok (upd_worker w g m)"
  using assms unfolding main_ok_def by (auto split: main_pc.splits)

lemma moved:
  assumes ok: "mt_ok m" and x: "worker_heap m w = Some x"
    and g: "w_mem (g x) = w_mem x" "\<And>x. w_ch (g x) = w_ch x" "\<And>x. w_cancel (g x) = w_cancel x"
    and i: "idle_pc (w_pc (g x)) = idle_pc (w_pc x)"
    and s: "sound_pc (exited (mt_se m)) (g x)"
  shows "mt_ok (upd_worker w g m)"
proof -
  note p = mt_ok_parts [OF ok]
  have "in_count (upd_worker w g m)"
    using p(3) tally_keep [OF p(1) x, of w_idle g] i by (auto simp: in_count_def w_idle_def)
  then show ?thesis
    using listed_upd [of m g w, OF p(1) g(2)] accounted_upd [of m w x g, OF p(1,2) x g(1) g(2)] g main_ok_upd [of m g w, OF p(4) g(3)] p(5) x s
    by (auto simp: mt_ok_def)
qed

lemma upd_twice: "upd_worker w g (upd_worker w f m) = upd_worker w (\<lambda>x. g (f x)) m"
  by (simp add: upd_worker_def option.map_comp comp_def)

lemma goto_moved:
  assumes "mt_ok m" "worker_heap m w = Some x" "idle_pc p = idle_pc (w_pc x)" "sound_pc (exited (mt_se m)) (x\<lparr>w_pc := p\<rparr>)"
  shows "mt_ok (goto w p m)"
  unfolding goto_def by (rule moved [OF assms(1,2)]) (use assms(3,4) in \<open>simp_all add: w_mem_def\<close>)

section \<open>The session exits\<close>

lemma sound_pc_mono: "sound_pc ex x \<Longrightarrow> sound_pc True x"
  by (auto simp: sound_pc_def split: pc.splits)

lemma exit_simps [simp]: "exited (fuse_session_exit s) = True" "chan_ctr (fuse_session_exit s) = chan_ctr s"
  by (simp_all add: fuse_session_exit_def)

lemma stop_simps [simp]:
  "numworker (stop_session b m) = numworker m" "numavail (stop_session b m) = numavail m" "mt_list (stop_session b m) = mt_list m"
  "mt_finish (stop_session b m) = mt_finish m" "mt_exit (stop_session b m) = mt_exit m"
  "mt_error (stop_session b m) = mt_error m" "max_idle (stop_session b m) = max_idle m"
  "max_threads (stop_session b m) = max_threads m" "mt_bufs (stop_session b m) = mt_bufs m" "mt_next (stop_session b m) = mt_next m"
  "mt_answers (stop_session b m) = mt_answers m" "main_pc (stop_session b m) = main_pc m"
  "worker_heap (stop_session b m) = worker_heap m" "mt_clone_fd (stop_session b m) = mt_clone_fd m"
  "exited (mt_se (stop_session b m)) = (b \<or> exited (mt_se m))" "chan_ctr (mt_se (stop_session b m)) = chan_ctr (mt_se m)"
  by (simp_all add: stop_session_def)

lemma mt_ok_cong:
  assumes "mt_ok m" "mt_list m' = mt_list m" "worker_heap m' = worker_heap m" "mt_next m' = mt_next m" "mt_bufs m' = mt_bufs m"
    "chan_ctr (mt_se m') = chan_ctr (mt_se m)" "mt_exit m' = mt_exit m" "numworker m' = numworker m" "numavail m' = numavail m"
    "max_threads m' = max_threads m" "exited (mt_se m) \<Longrightarrow> exited (mt_se m')" "main_ok m'"
  shows "mt_ok m'"
proof -
  have "tally f m' a = tally f m a" for f :: "fuse_worker \<Rightarrow> 'b" and a by (simp add: tally_def assms)
  then have t: "tally w_mem m' = tally w_mem m" "tally w_ch m' = tally w_ch m" "tally w_idle m' = tally w_idle m"
    by (simp_all add: tally_def assms fun_eq_iff)
  show ?thesis using assms sound_pc_mono unfolding mt_ok_def listed_def accounted_def in_count_def t
    by (cases "exited (mt_se m)"; cases "exited (mt_se m')") auto
qed

lemma main_ok_cong:
  assumes "main_ok m" "mt_list m' = mt_list m" "worker_heap m' = worker_heap m" "mt_exit m' = mt_exit m" "main_pc m' = main_pc m"
    "exited (mt_se m) \<Longrightarrow> exited (mt_se m')"
  shows "main_ok m'"
  using assms unfolding main_ok_def by (auto split: main_pc.splits)

lemma stop_ok: "mt_ok m \<Longrightarrow> mt_ok (stop_session b m)"
  by (rule mt_ok_cong) (auto intro: main_ok_cong dest: mt_ok_parts(4))

section \<open>The buffer of a worker\<close>

lemma own_fbuf_frame [simp]:
  "numworker (own_fbuf b w m) = numworker m" "numavail (own_fbuf b w m) = numavail m" "mt_list (own_fbuf b w m) = mt_list m"
  "mt_finish (own_fbuf b w m) = mt_finish m" "mt_exit (own_fbuf b w m) = mt_exit m" "mt_error (own_fbuf b w m) = mt_error m"
  "max_idle (own_fbuf b w m) = max_idle m" "max_threads (own_fbuf b w m) = max_threads m" "mt_se (own_fbuf b w m) = mt_se m"
  "mt_answers (own_fbuf b w m) = mt_answers m" "main_pc (own_fbuf b w m) = main_pc m" "mt_clone_fd (own_fbuf b w m) = mt_clone_fd m"
  by (simp_all add: own_fbuf_def split: option.splits)

lemma own_fbuf_ok:
  assumes ok: "mt_ok m" and x: "worker_heap m w = Some x"
  shows "mt_ok (own_fbuf b w m) \<and> (\<exists>bf. worker_heap (own_fbuf b w m) w = Some (x\<lparr>w_fbuf := bf\<rparr>))"
proof (cases "b \<and> buf_mem (w_fbuf x) = 0")
  case False
  then have "own_fbuf b w m = m" using x by (auto simp: own_fbuf_def)
  then show ?thesis using ok x by (auto intro: exI [of _ "w_fbuf x"])
next
  case True
  let ?g = "\<lambda>x. x\<lparr>w_fbuf := (w_fbuf x)\<lparr>buf_mem := mt_next m\<rparr>\<rparr>"
  let ?u = "upd_worker w ?g m"
  let ?m = "?u\<lparr>mt_bufs := mt_next m # mt_bufs m, mt_next := mt_next m + 1\<rparr>"
  have eq: "own_fbuf b w m = ?m" using True x by (simp add: own_fbuf_def)
  note p = mt_ok_parts [OF ok]
  have t: "tally f ?m a = tally f ?u a" for f :: "fuse_worker \<Rightarrow> 'b" and a by (simp add: tally_def)
  have mem: "tally w_mem ?u a = tally w_mem m a + (if mt_next m = a then 1 else 0)" if "a \<noteq> 0" for a
    using tally_upd [OF p(1) x, of w_mem ?g a] that True by (simp add: w_mem_def)
  have ch: "tally w_ch ?u = tally w_ch m" by (rule ext, rule tally_keep [OF p(1) x]) simp
  have idle: "tally w_idle ?u = tally w_idle m" by (rule ext, rule tally_keep [OF p(1) x]) (simp add: w_idle_def)
  have "listed ?u" by (rule listed_upd [OF p(1)]) simp
  then have "listed ?m" using x unfolding listed_def by (auto simp: less_Suc_eq)
  moreover have "accounted ?m" using p(1,2) mem unfolding accounted_def t ch by (simp add: t listed_def)
  moreover have "in_count ?m" using p(3) unfolding in_count_def t idle by (auto simp: t idle)
  moreover have "main_ok ?m" using main_ok_upd [OF p(4), of ?g w] unfolding main_ok_def by (auto split: main_pc.splits)
  moreover have "sound_pc ex (?g x) = sound_pc ex x" for ex
    by (cases "w_pc x") (simp_all add: sound_pc_def isforget_def)
  ultimately show ?thesis using p(5) [of w] p(5) x unfolding eq mt_ok_def by auto
qed

section \<open>A worker is freed\<close>

lemma free_worker_step:
  assumes "listed m" "accounted m" "worker_heap m w = Some x" "mt_list m0 = mt_list m" "worker_heap m0 = worker_heap m"
    "mt_bufs m0 = mt_bufs m" "mt_se m0 = mt_se m" "mt_next m0 = mt_next m"
  obtains m' where "free_worker w (m0\<lparr>mt_list := remove1 w (mt_list m)\<rparr>) = Some m'" "listed m'" "accounted m'"
    "mt_list m' = remove1 w (mt_list m)" "worker_heap m' = (worker_heap m)(w := None)"
    "tally w_idle m' True = tally w_idle m True - (if w_idle x then 1 else 0)" "exited (mt_se m') = exited (mt_se m)"
    "se_error (mt_se m') = se_error (mt_se m)"
    "numworker m' = numworker m0" "numavail m' = numavail m0" "mt_exit m' = mt_exit m0" "max_threads m' = max_threads m0"
    "main_pc m' = main_pc m0" "mt_finish m' = mt_finish m0" "mt_error m' = mt_error m0" "max_idle m' = max_idle m0"
    "mt_answers m' = mt_answers m0"
proof -
  let ?before = "m0\<lparr>mt_list := remove1 w (mt_list m)\<rparr>"
  have d: "distinct (mt_list m)" and win: "w \<in> set (mt_list m)" using assms(1) listed_in [OF assms(1,3)] by (auto simp: listed_def)
  define m1 where "m1 = (if w_mem x = 0 then ?before else ?before\<lparr>mt_bufs := remove1 (w_mem x) (mt_bufs m)\<rparr>)"
  have "0 < tally w_mem m (w_mem x)" by (rule tally_pos [OF assms(3,1)])
  then have "w_mem x \<noteq> 0 \<Longrightarrow> w_mem x \<in> set (mt_bufs m)" using assms(2) by (simp add: accounted_def count_list_pos [symmetric])
  then have f1: "free_buffer (buf_mem (w_fbuf x)) ?before = Some m1" using assms(6) by (simp add: free_buffer_def m1_def w_mem_def)
  have bufs: "count_list (mt_bufs m1) a = count_list (mt_bufs m) a - (if w_mem x = a then 1 else 0)" if "a \<noteq> 0" for a
    using that \<open>w_mem x \<noteq> 0 \<Longrightarrow> w_mem x \<in> set (mt_bufs m)\<close> assms(6) by (auto simp: m1_def count_list_remove1)
  have z: "0 \<notin> set (mt_bufs m1)" using assms(2,6) set_remove1_subset [of "w_mem x" "mt_bufs m"] by (auto simp: m1_def accounted_def)
  have ctr: "chan_ctr (mt_se m) c = tally w_ch m (Some c)" for c using assms(2) by (simp add: accounted_def)
  have se1: "mt_se m1 = mt_se m" and hp1: "worker_heap m1 = worker_heap m" using assms(5,7) by (simp_all add: m1_def)
  obtain s where s: "fuse_chan_put (w_ch x) (mt_se m) = Some s" "exited s = exited (mt_se m)" "se_error s = se_error (mt_se m)"
      "\<And>c. chan_ctr s c = chan_ctr (mt_se m) c - (if w_ch x = Some c then 1 else 0)"
  proof (cases "w_ch x")
    case None
    then show thesis using that [of "mt_se m"] by (simp add: fuse_chan_put_def)
  next
    case (Some c)
    then have "0 < chan_ctr (mt_se m) c" using tally_pos [OF assms(3,1), of w_ch] ctr by simp
    then show thesis using that [of "(mt_se m)\<lparr>chan_ctr := (chan_ctr (mt_se m))(c := chan_ctr (mt_se m) c - 1)\<rparr>"] Some
      by (simp add: fuse_chan_put_def)
  qed
  let ?m = "m1\<lparr>mt_se := s, worker_heap := (worker_heap m)(w := None)\<rparr>"
  have "free_worker w ?before = do { m2 \<leftarrow> put_worker_chan (w_ch x) m1; Some (m2\<lparr>worker_heap := (worker_heap m2)(w := None)\<rparr>) }"
    by (simp add: free_worker_def assms(3,5) f1)
  also have "put_worker_chan (w_ch x) m1 = Some (m1\<lparr>mt_se := s\<rparr>)" by (simp add: put_worker_chan_def s(1) se1)
  finally have r: "free_worker w ?before = Some ?m" using hp1 by (simp add: fun_upd_def cong: if_cong)
  have l: "mt_list ?m = remove1 w (mt_list m)" by (simp add: m1_def)
  have h: "worker_heap ?m = (worker_heap m)(w := None)" by simp
  have t: "tally f ?m a = tally f m a - (if f x = a then 1 else 0)" for f :: "fuse_worker \<Rightarrow> 'b" and a
  proof -
    have "tally f ?m a = count_list (map (\<lambda>w. f (the (worker_heap m w))) (remove1 w (mt_list m))) a"
      unfolding tally_def l h by (rule count_list_map_cong) (use d in auto)
    then show ?thesis using count_list_map_remove [OF win, of "\<lambda>w. f (the (worker_heap m w))" a] assms(3) by (simp add: tally_def)
  qed
  have "listed ?m" using assms(1,8) d unfolding listed_def l by (auto simp: m1_def split: if_splits)
  moreover have "accounted ?m" unfolding accounted_def t using s(4) bufs z ctr assms(2) by (simp add: accounted_def)
  moreover have "tally w_idle ?m True = tally w_idle m True - (if w_idle x then 1 else 0)" using t [of w_idle True] by simp
  ultimately show thesis using s by (intro that [OF r]) (simp_all add: m1_def)
qed

section \<open>A worker is started\<close>

definition same_pool :: "fuse_mt \<Rightarrow> fuse_mt \<Rightarrow> bool" where
  "same_pool m m' \<longleftrightarrow> mt_list m' = mt_list m \<and> worker_heap m' = worker_heap m \<and> numworker m' = numworker m \<and>
     numavail m' = numavail m \<and> mt_bufs m' = mt_bufs m \<and> mt_next m \<le> mt_next m'"

definition same_loop :: "fuse_mt \<Rightarrow> fuse_mt \<Rightarrow> bool" where
  "same_loop m m' \<longleftrightarrow> mt_exit m' = mt_exit m \<and> max_threads m' = max_threads m \<and> max_idle m' = max_idle m \<and>
     main_pc m' = main_pc m \<and> mt_finish m' = mt_finish m \<and> mt_error m' = mt_error m \<and>
     exited (mt_se m') = exited (mt_se m) \<and> se_error (mt_se m') = se_error (mt_se m) \<and>
     (mt_answers m = [] \<longrightarrow> mt_answers m' = [])"

lemma same_loop_trans: "same_loop a b \<Longrightarrow> same_loop b c \<Longrightarrow> same_loop a c"
  by (simp add: same_loop_def)

lemma take_answer_cases:
  obtains ok a where "take_answer m = (ok, m\<lparr>mt_answers := a\<rparr>)" "mt_answers m = [] \<longrightarrow> ok \<and> a = []"
proof (cases "mt_answers m")
  case Nil
  then show thesis by (intro that [of True "[]"]) (simp_all add: take_answer_def)
next
  case (Cons b bs)
  then show thesis by (intro that [of b bs]) (simp_all add: take_answer_def)
qed

lemma clone_chan_step:
  assumes "\<And>c. mt_next m \<le> c \<Longrightarrow> chan_ctr (mt_se m) c = 0"
  obtains ch m' where "fuse_clone_chan m = (ch, m')" "same_pool m m'" "same_loop m m'"
    "\<forall>c. ch = Some c \<longrightarrow> mt_next m \<le> c \<and> c < mt_next m'"
    "\<forall>c. chan_ctr (mt_se m') c = chan_ctr (mt_se m) c + (if ch = Some c then 1 else 0)"
proof -
  obtain ok1 a1 where t1: "take_answer m = (ok1, m\<lparr>mt_answers := a1\<rparr>)" "mt_answers m = [] \<longrightarrow> ok1 \<and> a1 = []"
    using take_answer_cases [of m] .
  let ?u = "m\<lparr>mt_answers := a1\<rparr>"
  obtain ok2 a2 where t2: "take_answer ?u = (ok2, ?u\<lparr>mt_answers := a2\<rparr>)" "mt_answers ?u = [] \<longrightarrow> ok2 \<and> a2 = []"
    using take_answer_cases [of ?u] .
  let ?v = "m\<lparr>mt_answers := a2, mt_next := mt_next m + 1\<rparr>"
  obtain ok3 a3 where t3: "take_answer ?v = (ok3, ?v\<lparr>mt_answers := a3\<rparr>)" "mt_answers ?v = [] \<longrightarrow> ok3 \<and> a3 = []"
    using take_answer_cases [of ?v] .
  let ?w = "m\<lparr>mt_answers := a3, mt_next := mt_next m + 1\<rparr>"
  consider (a) "\<not> ok1" | (b) "ok1" "\<not> ok2" | (c) ok1 ok2 "\<not> ok3" | (d) ok1 ok2 ok3 by blast
  then show thesis
  proof cases
    case a
    then have "fuse_clone_chan m = (None, ?u)" by (simp add: fuse_clone_chan_def t1)
    then show thesis by (rule that) (use t1 in \<open>simp_all add: same_pool_def same_loop_def\<close>)
  next
    case b
    then have "fuse_clone_chan m = (None, m\<lparr>mt_answers := a2\<rparr>)" using t2 by (simp add: fuse_clone_chan_def t1)
    then show thesis by (rule that) (use t1 t2 in \<open>simp_all add: same_pool_def same_loop_def\<close>)
  next
    case c
    then have "fuse_clone_chan m = (None, ?w)" using t2 t3 by (simp add: fuse_clone_chan_def fuse_chan_new_def t1)
    then show thesis by (rule that) (use t1 t2 t3 in \<open>simp_all add: same_pool_def same_loop_def\<close>)
  next
    case d
    then have "fuse_clone_chan m = (Some (mt_next m), ?w\<lparr>mt_se := (mt_se m)\<lparr>chan_ctr := (chan_ctr (mt_se m))(mt_next m := 1)\<rparr>\<rparr>)"
      using t2 t3 by (simp add: fuse_clone_chan_def fuse_chan_new_def t1)
    then show thesis by (rule that) (use t1 t2 t3 assms in \<open>simp_all add: same_pool_def same_loop_def\<close>)
  qed
qed

lemma listed_grow:
  assumes "listed m" "mt_list m' = mt_list m" "worker_heap m' = worker_heap m" "mt_next m \<le> mt_next m'"
  shows "listed m'"
proof -
  have "w < mt_next m' \<and> (\<forall>c. w_ch x = Some c \<longrightarrow> c < mt_next m')" if "worker_heap m w = Some x" for w x
    using assms(1,4) that unfolding listed_def by (meson less_le_trans)
  then show ?thesis using assms unfolding listed_def by auto
qed

lemma fresh_chan:
  assumes "listed m" "accounted m" "mt_next m \<le> c"
  shows "chan_ctr (mt_se m) c = 0"
proof (rule ccontr)
  assume "chan_ctr (mt_se m) c \<noteq> 0"
  then have "0 < tally w_ch m (Some c)" using assms(2) by (simp add: accounted_def)
  then obtain w where w: "w \<in> set (mt_list m)" "w_ch (the (worker_heap m w)) = Some c" unfolding tally_def count_list_pos by auto
  then obtain x where "worker_heap m w = Some x" using assms(1) by (auto simp: listed_def)
  then have "c < mt_next m" using assms(1) w(2) by (auto simp: listed_def)
  then show False using assms(3) by simp
qed

text \<open>The descriptor of a new worker, if it is to have one.\<close>

lemma worker_chan_step:
  assumes "\<And>c. mt_next m \<le> c \<Longrightarrow> chan_ctr (mt_se m) c = 0"
  obtains ch m' where
    "worker_chan m = (ch, m')"
    "same_pool m m'" "same_loop m m'" "\<forall>c. ch = Some c \<longrightarrow> mt_next m \<le> c \<and> c < mt_next m'"
    "\<forall>c. chan_ctr (mt_se m') c = chan_ctr (mt_se m) c + (if ch = Some c then 1 else 0)"
proof (cases "mt_clone_fd m")
  case False
  then show thesis by (intro that [of None m]) (simp_all add: worker_chan_def same_pool_def same_loop_def)
next
  case True
  obtain ch m' where c: "fuse_clone_chan m = (ch, m')" "same_pool m m'" "same_loop m m'"
      "\<forall>c. ch = Some c \<longrightarrow> mt_next m \<le> c \<and> c < mt_next m'"
      "\<forall>c. chan_ctr (mt_se m') c = chan_ctr (mt_se m) c + (if ch = Some c then 1 else 0)"
    using clone_chan_step [of m, OF assms] .
  show thesis
  proof (cases ch)
    case None
    then show thesis using True c by (intro that [of None "m'\<lparr>mt_clone_fd := False\<rparr>"]) (simp_all add: worker_chan_def same_pool_def same_loop_def)
  next
    case (Some k)
    then show thesis using True c by (intro that [of ch m']) (simp_all add: worker_chan_def)
  qed
qed

definition new_worker :: "nat option \<Rightarrow> fuse_worker" where
  "new_worker ch = \<lparr>w_pc = Top, w_fbuf = no_buf, w_data = [], w_ch = ch, w_cancel = False\<rparr>"

lemma start_thread_step:
  assumes l: "listed m" and o: "accounted m"
  obtains err m' where "fuse_loop_start_thread m = Some (err, m')" "listed m'" "accounted m'" "same_loop m m'"
    "mt_answers m = [] \<longrightarrow> err = 0"
    "(err = -1 \<and> same_pool m m') \<or>
     (err = 0 \<and> (\<exists>w ch. worker_heap m w = None \<and> w \<notin> set (mt_list m) \<and> mt_list m' = mt_list m @ [w] \<and> worker_heap m' = (worker_heap m)(w \<mapsto> new_worker ch)) \<and>
      numavail m' = numavail m + 1 \<and> numworker m' = numworker m + 1 \<and> tally w_idle m' True = tally w_idle m True + 1)"
proof -
  obtain ok a where a: "take_answer m = (ok, m\<lparr>mt_answers := a\<rparr>)" "mt_answers m = [] \<longrightarrow> ok \<and> a = []" using take_answer_cases [of m] .
  let ?w = "mt_next m"
  let ?b = "m\<lparr>mt_answers := a, mt_next := mt_next m + 1\<rparr>"
  obtain ch c where c: "worker_chan ?b = (ch, c)"
      "same_pool ?b c" "same_loop ?b c" "\<forall>k. ch = Some k \<longrightarrow> mt_next ?b \<le> k \<and> k < mt_next c"
      "\<forall>k. chan_ctr (mt_se c) k = chan_ctr (mt_se m) k + (if ch = Some k then 1 else 0)"
    by (rule worker_chan_step [of ?b]) (use fresh_chan [OF l o] in auto)
  obtain ok2 e where e: "take_answer c = (ok2, c\<lparr>mt_answers := e\<rparr>)" "mt_answers c = [] \<longrightarrow> ok2 \<and> e = []" using take_answer_cases [of c] .
  have pool: "mt_list c = mt_list m" "worker_heap c = worker_heap m" "numworker c = numworker m" "numavail c = numavail m"
      "mt_bufs c = mt_bufs m" "mt_next m < mt_next c" using c(2) by (auto simp: same_pool_def)
  have w: "worker_heap m ?w = None" "?w \<notin> set (mt_list m)" using l by (auto simp: listed_def dom_def) (metis less_irrefl option.exhaust)+
  have ne: "mt_answers m = [] \<longrightarrow> a = [] \<and> mt_answers c = []" using a c(3) by (auto simp: same_loop_def)
  consider (fail) "\<not> ok" | (unstarted) ok "\<not> ok2" | (started) ok ok2 by blast
  then show thesis
  proof cases
    case fail
    let ?m = "m\<lparr>mt_answers := a\<rparr>"
    have "fuse_loop_start_thread m = Some (-1, ?m)" using fail by (simp add: fuse_loop_start_thread_def a)
    moreover have "listed ?m" "accounted ?m" using l o by (simp_all add: listed_def accounted_def tally_def)
    ultimately show thesis by (rule that) (use fail a in \<open>simp_all add: same_loop_def same_pool_def\<close>)
  next
    case unstarted
    obtain s where s: "fuse_chan_put ch (mt_se c) = Some s" "chan_ctr s = chan_ctr (mt_se m)" "exited s = exited (mt_se c)" "se_error s = se_error (mt_se c)"
    proof (cases ch)
      case None
      then show thesis using that [of "mt_se c"] c(5) by (simp add: fuse_chan_put_def fun_eq_iff)
    next
      case (Some k)
      then show thesis using that [of "(mt_se c)\<lparr>chan_ctr := (chan_ctr (mt_se c))(k := chan_ctr (mt_se c) k - 1)\<rparr>"] c(5)
        by (simp add: fuse_chan_put_def fun_eq_iff)
    qed
    let ?m = "c\<lparr>mt_answers := e, mt_se := s\<rparr>"
    have "fuse_loop_start_thread m = Some (-1, ?m)"
      using unstarted s(1) c(1) e(1) by (simp add: fuse_loop_start_thread_def a(1) Let_def put_worker_chan_def)
    moreover have "listed ?m" by (rule listed_grow [OF l]) (use pool in simp_all)
    moreover have "accounted ?m" using o pool s(2) unfolding accounted_def tally_def by simp
    ultimately show thesis by (rule that) (use unstarted a e ne c(3) s pool in \<open>simp_all add: same_loop_def same_pool_def\<close>)
  next
    case started
    let ?x = "new_worker ch"
    let ?m = "c\<lparr>mt_answers := e, worker_heap := (worker_heap m)(?w \<mapsto> ?x), mt_list := mt_list m @ [?w], numavail := numavail m + 1,
      numworker := numworker m + 1\<rparr>"
    have r: "fuse_loop_start_thread m = Some (0, ?m)"
      using started c(1) e(1) by (simp add: fuse_loop_start_thread_def a(1) Let_def pool new_worker_def)
    have t: "tally f ?m y = tally f m y + (if f ?x = y then 1 else 0)" for f :: "fuse_worker \<Rightarrow> 'b" and y
    proof -
      have "count_list (map (\<lambda>w. f (the (((worker_heap m)(?w \<mapsto> ?x)) w))) (mt_list m)) y = tally f m y"
        unfolding tally_def by (rule count_list_map_cong) (use w(2) in auto)
      then show ?thesis by (simp add: tally_def count_list_append)
    qed
    have "listed c" by (rule listed_grow [OF l]) (use pool in simp_all)
    then have "listed ?m" using c(4) w pool unfolding listed_def by (auto simp: new_worker_def)
    moreover have "accounted ?m" using o c(5) unfolding accounted_def t by (simp add: pool new_worker_def w_mem_def no_buf_def)
    moreover have "tally w_idle ?m True = tally w_idle m True + 1" using t [of w_idle True] by (simp add: w_idle_def idle_pc_def new_worker_def)
    ultimately show thesis using r w
      by (intro that [of 0 ?m]) (use started a e ne c(3) in \<open>auto simp: same_loop_def\<close>)
  qed
qed

lemma new_sound: "sound_pc ex (new_worker ch)"
  by (simp add: sound_pc_def new_worker_def)

section \<open>Every turn of a worker\<close>

lemma pc_of_Some: "pc_of m w = Some p \<longleftrightarrow> (\<exists>x. worker_heap m w = Some x \<and> w_pc x = p)"
  by (auto simp: pc_of_def)

lemma exit_exited:
  assumes "mt_ok m" "worker_heap m w = Some x" "mt_exit m"
  shows "exited (mt_se m)"
  using mt_ok_parts(4) [OF assms(1)] listed_in [OF mt_ok_parts(1) [OF assms(1)] assms(2)] assms(3)
  by (auto simp: main_ok_def split: main_pc.splits)

lemma top_ok:
  assumes "mt_ok m" "worker_heap m w = Some x" "w_pc x = Top"
  shows "mt_ok (worker_top w m)"
  unfolding worker_top_def by (rule goto_moved [OF assms(1,2)])
    (use assms(3) in \<open>auto simp: idle_pc_def sound_pc_def fuse_session_exited_def\<close>)

lemma u32_at_long: "IN_HEADER_SIZE \<le> length bs \<Longrightarrow> u32_at bs 4 \<noteq> None"
  by (simp add: u32_at_def IN_HEADER_SIZE_def)

lemma receive_ok:
  assumes ok: "mt_ok m" and x: "worker_heap m w = Some x" "w_pc x = Reading" and r: "proper_receipt r m"
  shows "mt_ok (worker_receive w r m)"
proof -
  let ?s = "stop_session (rc_stop r) m"
  have "mt_ok ?s" by (rule stop_ok [OF ok])
  then obtain bf where o: "mt_ok (own_fbuf (rc_alloc r) w ?s)"
      "worker_heap (own_fbuf (rc_alloc r) w ?s) w = Some (x\<lparr>w_fbuf := bf\<rparr>)" (is "_ = Some ?x")
    using own_fbuf_ok [of ?s w x "rc_alloc r"] x by auto
  let ?g = "\<lambda>x. x\<lparr>w_fbuf := (w_fbuf x)\<lparr>buf_is_fd := rc_fd r\<rparr>, w_data := rc_data r, w_pc := Got (rc_res r)\<rparr>"
  have "worker_receive w r m = upd_worker w ?g (own_fbuf (rc_alloc r) w ?s)"
    by (simp add: worker_receive_def goto_def upd_twice)
  moreover have "mt_ok (upd_worker w ?g (own_fbuf (rc_alloc r) w ?s))"
    by (rule moved [OF o])
      (use x r u32_at_long [of "rc_data r"] in \<open>auto simp: w_mem_def idle_pc_def sound_pc_def isforget_def proper_receipt_def\<close>)
  ultimately show ?thesis by simp
qed

lemma error_ok: "mt_ok m \<Longrightarrow> mt_ok (m\<lparr>mt_error := err\<rparr>)"
  by (rule mt_ok_cong) (auto intro: main_ok_cong dest: mt_ok_parts(4))

lemma result_ok:
  assumes ok: "mt_ok m" and x: "worker_heap m w = Some x" "w_pc x = Got res"
  shows "\<exists>m'. worker_result w res m = Some m' \<and> mt_ok m'"
proof -
  note p = mt_ok_parts [OF ok]
  have sx: "sound_pc (exited (mt_se m)) x" by (rule p(5) [OF x(1)])
  consider (int) "res = - EINTR" | (err) "res \<noteq> - EINTR" "res < 0" | (zero) "res = 0" | (exit) "0 < res" "mt_exit m" | (req) "0 < res" "\<not> mt_exit m"
    by linarith
  then show ?thesis
  proof cases
    case int
    then show ?thesis using goto_moved [OF ok x(1), of Top] x by (simp add: worker_result_def idle_pc_def sound_pc_def)
  next
    case err
    let ?m = "(stop_session True m)\<lparr>mt_error := res\<rparr>"
    have "mt_ok (goto w Leaving ?m)"
      by (rule goto_moved [where x = x, OF error_ok [OF stop_ok [OF ok]]]) (use x in \<open>simp_all add: idle_pc_def sound_pc_def\<close>)
    then show ?thesis using err by (simp add: worker_result_def)
  next
    case zero
    then show ?thesis using goto_moved [OF ok x(1), of Leaving] x sx
      by (simp add: worker_result_def idle_pc_def sound_pc_def EINTR_def)
  next
    case exit
    then show ?thesis using goto_moved [OF ok x(1), of Over] x exit_exited [OF ok x(1)]
      by (simp add: worker_result_def idle_pc_def sound_pc_def EINTR_def)
  next
    case req
    obtain f where f: "isforget x = Some f" using sx x req by (auto simp: sound_pc_def)
    let ?a = "if f then m else m\<lparr>numavail := numavail m - 1\<rparr>"
    let ?start = "numavail ?a = 0 \<and> numworker ?a < max_threads ?a"
    have run: "worker_result w res m =
        map_option (goto w (Serving f)) (if ?start then map_option snd (fuse_loop_start_thread ?a) else Some ?a)"
      using req x f by (simp add: worker_result_def EINTR_def Let_def map_option_case split: option.splits)
    have ea: "worker_heap ?a = worker_heap m" "mt_list ?a = mt_list m" by simp_all
    have la: "listed ?a" "accounted ?a" using p(1,2) by (simp_all add: listed_def accounted_def tally_def)
    have cnt: "numworker m = int (length (mt_list m))" "numavail m = int (tally w_idle m True)" "numworker m \<le> max 1 (max_threads m)"
      using p(3) req by (auto simp: in_count_def)
    obtain b where b: "(if ?start then map_option snd (fuse_loop_start_thread ?a) else Some ?a) = Some b" "listed b" "accounted b" "same_loop m b"
        "worker_heap b w = Some x" "numworker b = int (length (mt_list b))" "numavail b = int (tally w_idle b True) - (if f then 0 else 1)"
        "numworker b \<le> max 1 (max_threads b)" "\<forall>v y. v \<noteq> w \<longrightarrow> worker_heap b v = Some y \<longrightarrow> worker_heap m v = Some y \<or> (\<exists>ch. y = new_worker ch)"
        "mt_list m = [] \<longrightarrow> mt_list b = []" "set (mt_list m) \<subseteq> set (mt_list b)"
    proof (cases ?start)
      case False
      then show thesis using la cnt x by (intro that [of ?a]) (auto simp: same_loop_def tally_def)
    next
      case True
      obtain err b where b: "fuse_loop_start_thread ?a = Some (err, b)" "listed b" "accounted b" "same_loop ?a b"
          "(err = -1 \<and> same_pool ?a b) \<or>
           (err = 0 \<and> (\<exists>w ch. worker_heap ?a w = None \<and> w \<notin> set (mt_list ?a) \<and> mt_list b = mt_list ?a @ [w] \<and>
              worker_heap b = (worker_heap ?a)(w \<mapsto> new_worker ch)) \<and>
            numavail b = numavail ?a + 1 \<and> numworker b = numworker ?a + 1 \<and> tally w_idle b True = tally w_idle ?a True + 1)"
        using start_thread_step [OF la] .
      have sl: "same_loop m b" using b(4) by (simp add: same_loop_def split: if_splits)
      have ta: "tally w_idle ?a True = tally w_idle m True" by (simp add: tally_def)
      show thesis
      proof (rule disjE [OF b(5)])
        assume e: "err = -1 \<and> same_pool ?a b"
        then have "tally w_idle b True = tally w_idle m True" by (simp add: same_pool_def tally_def)
        then show thesis using True e b(1,2,3) sl cnt x by (intro that [of b]) (auto simp: same_pool_def same_loop_def)
      next
        assume e: "err = 0 \<and> (\<exists>w ch. worker_heap ?a w = None \<and> w \<notin> set (mt_list ?a) \<and> mt_list b = mt_list ?a @ [w] \<and>
              worker_heap b = (worker_heap ?a)(w \<mapsto> new_worker ch)) \<and>
            numavail b = numavail ?a + 1 \<and> numworker b = numworker ?a + 1 \<and> tally w_idle b True = tally w_idle ?a True + 1"
        then obtain v ch where v: "worker_heap m v = None" "mt_list b = mt_list m @ [v]" "worker_heap b = (worker_heap m)(v \<mapsto> new_worker ch)"
          unfolding ea by blast
        moreover have "v \<noteq> w" "mt_list m \<noteq> []" using v x listed_in [OF p(1) x(1)] by auto
        moreover have "numavail b = numavail m - (if f then 0 else 1) + 1" "numworker b = numworker m + 1"
            "tally w_idle b True = tally w_idle m True + 1" using e ta by (cases f; simp)+
        moreover have "\<forall>u y. u \<noteq> w \<longrightarrow> worker_heap b u = Some y \<longrightarrow> worker_heap m u = Some y \<or> (\<exists>ch. y = new_worker ch)"
          using v(3) by auto
        moreover have "(if ?start then map_option snd (fuse_loop_start_thread ?a) else Some ?a) = Some b" using True b(1) by simp
        moreover have "set (mt_list m) \<subseteq> set (mt_list b)" using v(2) by auto
        moreover have "numworker m < max_threads m" "max_threads b = max_threads m" using True sl by (simp_all add: same_loop_def split: if_splits)
        ultimately show thesis using b(2,3) sl cnt x by (intro that [of b]) simp_all
      qed
    qed
    let ?r = "goto w (Serving f) b"
    have "listed ?r" unfolding goto_def by (rule listed_upd [OF b(2)]) simp
    moreover have "accounted ?r" unfolding goto_def by (rule accounted_upd [OF b(2,3,5)]) (simp_all add: w_mem_def)
    moreover have "in_count ?r"
      using tally_upd [OF b(2,5), of w_idle "\<lambda>x. x\<lparr>w_pc := Serving f\<rparr>" True] b(6,7,8) x
      by (simp add: in_count_def goto_def [symmetric] w_idle_def idle_pc_def split: if_splits)
    moreover have "main_ok ?r"
    proof -
      have "main_pc b = main_pc m" "mt_exit b = mt_exit m" "exited (mt_se b) = exited (mt_se m)" using b(4) by (simp_all add: same_loop_def)
      moreover have "w_cancel y = mt_exit m" if "worker_heap ?r u = Some y" for u y
      proof (cases "u = w")
        case True
        then show ?thesis using that b(5) x p(4) by (auto simp: main_ok_def)
      next
        case False
        then have "worker_heap m u = Some y \<or> (\<exists>ch. y = new_worker ch)" using that b(9) by simp
        then show ?thesis using p(4) req by (auto simp: main_ok_def new_worker_def)
      qed
      ultimately show ?thesis using p(4) b(10,11) unfolding main_ok_def by (auto split: main_pc.splits)
    qed
    moreover have "sound_pc (exited (mt_se ?r)) y" if "worker_heap ?r v = Some y" for v y
    proof (cases "v = w")
      case True
      then show ?thesis using that b(5) by (auto simp: sound_pc_def)
    next
      case False
      then have "worker_heap m v = Some y \<or> (\<exists>ch. y = new_worker ch)" using that b(9) by simp
      moreover have "exited (mt_se ?r) = exited (mt_se m)" using b(4) by (simp add: same_loop_def)
      ultimately show ?thesis using p(5) [of v y] by (auto simp: new_sound)
    qed
    ultimately show ?thesis using run b(1) by (simp add: mt_ok_def)
  qed
qed

lemma serve_ok:
  assumes ok: "mt_ok m" and x: "worker_heap m w = Some x" "w_pc x = Serving f"
  shows "mt_ok (worker_serve w f stop m)"
  unfolding worker_serve_def
  by (rule goto_moved [where x = x, OF stop_ok [OF ok]]) (use x in \<open>auto simp: idle_pc_def sound_pc_def\<close>)

lemma leave_ok:
  assumes ok: "mt_ok m" and x: "worker_heap m w = Some x" "w_pc x = Leaving"
  shows "mt_ok (worker_leave w m)"
proof -
  have "mt_ok (m\<lparr>mt_finish := mt_finish m + 1\<rparr>)"
    by (rule mt_ok_cong [OF ok]) (auto intro: main_ok_cong mt_ok_parts(4) [OF ok])
  then show ?thesis unfolding worker_leave_def
    by (rule goto_moved [where x = x]) (use x mt_ok_parts(5) [OF ok x(1)] in \<open>auto simp: idle_pc_def sound_pc_def\<close>)
qed

lemma cancelled_ok:
  assumes ok: "mt_ok m" and x: "worker_heap m w = Some x" "w_pc x = Reading" "w_cancel x"
  shows "mt_ok (worker_cancelled w b m)"
proof -
  obtain bf where o: "mt_ok (own_fbuf b w m)" "worker_heap (own_fbuf b w m) w = Some (x\<lparr>w_fbuf := bf\<rparr>)"
    using own_fbuf_ok [OF ok x(1), of b] by blast
  have "mt_exit m" using mt_ok_parts(4) [OF ok] x by (auto simp: main_ok_def)
  then have "exited (mt_se m)" by (rule exit_exited [OF ok x(1)])
  then show ?thesis unfolding worker_cancelled_def
    by (intro goto_moved [OF o]) (use x in \<open>simp_all add: idle_pc_def sound_pc_def\<close>)
qed

lemma back_ok:
  assumes ok: "mt_ok m" and x: "worker_heap m w = Some x" "w_pc x = Served f"
  shows "\<exists>m'. worker_back w f m = Some m' \<and> mt_ok m'"
proof -
  note p = mt_ok_parts [OF ok]
  let ?a = "if f then m else m\<lparr>numavail := numavail m + 1\<rparr>"
  have a: "listed ?a" "accounted ?a" using p(1,2) by (simp_all add: listed_def accounted_def tally_def)
  have ix: "w_idle x = f" using x by (cases f) (simp_all add: w_idle_def idle_pc_def)
  have stay: "mt_ok (goto w q ?a)" if q: "q = Top \<or> q = Over \<and> mt_exit m" for q
  proof -
    have iq: "w_idle (x\<lparr>w_pc := q\<rparr>)" using q by (auto simp: w_idle_def idle_pc_def)
    have ta: "tally w_idle ?a True = tally w_idle m True" by (simp add: tally_def)
    have "tally w_idle (goto w q ?a) True = tally w_idle m True + (if f then 0 else 1)"
      using tally_upd [OF a(1), of w x w_idle "\<lambda>x. x\<lparr>w_pc := q\<rparr>" True] x ix iq ta
      by (simp add: goto_def [symmetric] split: if_splits)
    then have "in_count (goto w q ?a)" using p(3) by (auto simp: in_count_def)
    moreover have "listed (goto w q ?a)" unfolding goto_def by (rule listed_upd [OF a(1)]) simp
    moreover have "accounted (goto w q ?a)" unfolding goto_def by (rule accounted_upd [where x = x, OF a]) (use x in \<open>simp_all add: w_mem_def\<close>)
    moreover have "main_ok (goto w q ?a)" using p(4) unfolding main_ok_def by (auto split: main_pc.splits)
    moreover have "mt_se (goto w q ?a) = mt_se m" by simp
    moreover have "sound_pc (exited (mt_se m)) y" if "worker_heap (goto w q ?a) v = Some y" for v y
    proof (cases "v = w")
      case True
      then show ?thesis using that x q exit_exited [OF ok x(1)] by (auto simp: sound_pc_def)
    next
      case False
      then have "worker_heap m v = Some y" using that by (cases f) simp_all
      then show ?thesis by (rule p(5))
    qed
    ultimately show ?thesis by (simp only: mt_ok_def) blast
  qed
  consider (go) "\<not> (max_idle ?a \<noteq> -1 \<and> max_idle ?a < numavail ?a \<and> 1 < numworker ?a)"
    | (exit) "max_idle ?a \<noteq> -1 \<and> max_idle ?a < numavail ?a \<and> 1 < numworker ?a" "mt_exit m"
    | (free) "max_idle ?a \<noteq> -1 \<and> max_idle ?a < numavail ?a \<and> 1 < numworker ?a" "\<not> mt_exit m" by blast
  moreover have run0: "worker_back w f m =
      (if max_idle ?a \<noteq> -1 \<and> max_idle ?a < numavail ?a \<and> 1 < numworker ?a then
         (if mt_exit ?a then Some (goto w Over ?a)
          else free_worker w (?a\<lparr>mt_list := remove1 w (mt_list ?a), numavail := numavail ?a - 1, numworker := numworker ?a - 1\<rparr>))
       else Some (goto w Top ?a))" by (simp only: worker_back_def Let_def)
  ultimately show ?thesis
  proof cases
    case go
    have "worker_back w f m = Some (goto w Top ?a)" unfolding run0 if_not_P [OF go] by (rule refl)
    then show ?thesis using stay [of Top] by blast
  next
    case exit
    have "worker_back w f m = (if mt_exit ?a then Some (goto w Over ?a)
          else free_worker w (?a\<lparr>mt_list := remove1 w (mt_list ?a), numavail := numavail ?a - 1, numworker := numworker ?a - 1\<rparr>))"
      unfolding run0 if_P [OF exit(1)] by (rule refl)
    then show ?thesis using stay [of Over] exit(2) by simp
  next
    case free
    let ?b = "?a\<lparr>numavail := numavail ?a - 1, numworker := numworker ?a - 1\<rparr>"
    obtain m' where m': "free_worker w (?b\<lparr>mt_list := remove1 w (mt_list m)\<rparr>) = Some m'" "listed m'" "accounted m'"
        "mt_list m' = remove1 w (mt_list m)" "worker_heap m' = (worker_heap m)(w := None)"
        "tally w_idle m' True = tally w_idle m True - (if w_idle x then 1 else 0)" "exited (mt_se m') = exited (mt_se m)"
        "numworker m' = numworker ?b" "numavail m' = numavail ?b" "mt_exit m' = mt_exit ?b" "max_threads m' = max_threads ?b"
        "main_pc m' = main_pc ?b"
      by (rule free_worker_step [OF p(1,2) x(1), of ?b]) auto
    have "?a\<lparr>mt_list := remove1 w (mt_list ?a), numavail := numavail ?a - 1, numworker := numworker ?a - 1\<rparr> =
        ?b\<lparr>mt_list := remove1 w (mt_list m)\<rparr>" by simp
    moreover have "worker_back w f m = (if mt_exit ?a then Some (goto w Over ?a)
          else free_worker w (?a\<lparr>mt_list := remove1 w (mt_list ?a), numavail := numavail ?a - 1, numworker := numworker ?a - 1\<rparr>))"
      unfolding run0 if_P [OF free(1)] by (rule refl)
    moreover have "mt_exit ?a = mt_exit m" by simp
    ultimately have run: "worker_back w f m = Some m'" using free(2) m'(1) by (simp only: if_False)
    have win: "w \<in> set (mt_list m)" by (rule listed_in [OF p(1) x(1)])
    have len: "length (mt_list m) = Suc (length (mt_list m'))" using win m'(4) length_pos_if_in_set [OF win] by (simp add: length_remove1)
    have "w_idle x \<Longrightarrow> 0 < tally w_idle m True" using tally_pos [OF x(1) p(1), of w_idle] by simp
    then have "in_count m'" using p(3) m'(6,8,9,10,11) len free(2) ix by (auto simp: in_count_def)
    moreover have "main_ok m'" using p(4) m'(4,5,7,10,12) free(2) win unfolding main_ok_def
      by (auto split: main_pc.splits if_splits)
    moreover have "sound_pc (exited (mt_se m')) y" if "worker_heap m' v = Some y" for v y
      using that m'(5,7) p(5) [of v y] by (auto split: if_splits)
    ultimately show ?thesis using run m'(2,3) by (auto simp: mt_ok_def)
  qed
qed

section \<open>Every turn of the main thread\<close>

lemma cancel_all_frame [simp]:
  "numworker (cancel_all m) = numworker m" "numavail (cancel_all m) = numavail m" "mt_list (cancel_all m) = mt_list m"
  "mt_finish (cancel_all m) = mt_finish m" "mt_exit (cancel_all m) = mt_exit m" "mt_error (cancel_all m) = mt_error m"
  "max_idle (cancel_all m) = max_idle m" "max_threads (cancel_all m) = max_threads m" "mt_se (cancel_all m) = mt_se m"
  "mt_answers (cancel_all m) = mt_answers m" "main_pc (cancel_all m) = main_pc m" "mt_bufs (cancel_all m) = mt_bufs m"
  "mt_next (cancel_all m) = mt_next m"
proof -
  have "numworker (fold (\<lambda>w. upd_worker w g) ws m) = numworker m \<and> numavail (fold (\<lambda>w. upd_worker w g) ws m) = numavail m \<and>
    mt_list (fold (\<lambda>w. upd_worker w g) ws m) = mt_list m \<and> mt_finish (fold (\<lambda>w. upd_worker w g) ws m) = mt_finish m \<and>
    mt_exit (fold (\<lambda>w. upd_worker w g) ws m) = mt_exit m \<and> mt_error (fold (\<lambda>w. upd_worker w g) ws m) = mt_error m \<and>
    max_idle (fold (\<lambda>w. upd_worker w g) ws m) = max_idle m \<and> max_threads (fold (\<lambda>w. upd_worker w g) ws m) = max_threads m \<and>
    mt_se (fold (\<lambda>w. upd_worker w g) ws m) = mt_se m \<and> mt_answers (fold (\<lambda>w. upd_worker w g) ws m) = mt_answers m \<and>
    main_pc (fold (\<lambda>w. upd_worker w g) ws m) = main_pc m \<and> mt_bufs (fold (\<lambda>w. upd_worker w g) ws m) = mt_bufs m \<and>
    mt_next (fold (\<lambda>w. upd_worker w g) ws m) = mt_next m" for g ws
    by (induction ws arbitrary: m) simp_all
  then show "numworker (cancel_all m) = numworker m" "numavail (cancel_all m) = numavail m" "mt_list (cancel_all m) = mt_list m"
    "mt_finish (cancel_all m) = mt_finish m" "mt_exit (cancel_all m) = mt_exit m" "mt_error (cancel_all m) = mt_error m"
    "max_idle (cancel_all m) = max_idle m" "max_threads (cancel_all m) = max_threads m" "mt_se (cancel_all m) = mt_se m"
    "mt_answers (cancel_all m) = mt_answers m" "main_pc (cancel_all m) = main_pc m" "mt_bufs (cancel_all m) = mt_bufs m"
    "mt_next (cancel_all m) = mt_next m"
    by (simp_all add: cancel_all_def)
qed

lemma cancel_all_heap:
  assumes "listed m"
  shows "worker_heap (cancel_all m) w = map_option (\<lambda>x. x\<lparr>w_cancel := True\<rparr>) (worker_heap m w)"
proof -
  have "worker_heap (fold (\<lambda>w. upd_worker w (\<lambda>x. x\<lparr>w_cancel := True\<rparr>)) ws m) w =
      (if w \<in> set ws then map_option (\<lambda>x. x\<lparr>w_cancel := True\<rparr>) (worker_heap m w) else worker_heap m w)" for ws
    by (induction ws arbitrary: m) (auto simp: option.map_comp comp_def)
  moreover have "w \<notin> set (mt_list m) \<Longrightarrow> worker_heap m w = None" using assms by (auto simp: listed_def)
  ultimately show ?thesis by (auto simp: cancel_all_def)
qed

lemma tally_cancel:
  assumes "listed m" "\<And>x. f (x\<lparr>w_cancel := True\<rparr>) = f x"
  shows "tally f (cancel_all m) a = tally f m a"
proof (rule tally_same)
  show "f (the (worker_heap (cancel_all m) w)) = f (the (worker_heap m w))" if "w \<in> set (mt_list m)" for w
    using that assms by (auto simp: cancel_all_heap listed_def)
qed simp

lemma stops_ok:
  assumes ok: "mt_ok m" and pc: "main_pc m = Stops"
  shows "mt_ok ((cancel_all m)\<lparr>mt_exit := True, main_pc := Joins\<rparr>)"
proof -
  note p = mt_ok_parts [OF ok]
  let ?m = "(cancel_all m)\<lparr>mt_exit := True, main_pc := Joins\<rparr>"
  have t: "tally f ?m a = tally f (cancel_all m) a" for f :: "fuse_worker \<Rightarrow> 'b" and a by (simp add: tally_def)
  have h: "worker_heap ?m w = map_option (\<lambda>x. x\<lparr>w_cancel := True\<rparr>) (worker_heap m w)" for w
    using cancel_all_heap [OF p(1)] by simp
  have "listed ?m" using p(1) unfolding listed_def h by (auto simp: dom_def h)
  moreover have "accounted ?m" using p(2) tally_cancel [OF p(1), of w_mem] tally_cancel [OF p(1), of w_ch]
    unfolding accounted_def t by (simp add: w_mem_def)
  moreover have "in_count ?m" by (simp add: in_count_def)
  moreover have "main_ok ?m" using p(4) pc h by (auto simp: main_ok_def)
  moreover have "sound_pc (exited (mt_se ?m)) y" if y: "worker_heap ?m w = Some y" for w y
  proof -
    obtain x where x: "worker_heap m w = Some x" "y = x\<lparr>w_cancel := True\<rparr>" using y h [of w] by (cases "worker_heap m w") auto
    have "isforget y = isforget x" using x(2) by (simp add: isforget_def)
    then show ?thesis using p(5) [OF x(1)] x(2) by (simp add: sound_pc_def split: pc.splits)
  qed
  ultimately show ?thesis by (simp add: mt_ok_def)
qed

lemma reset_simps [simp]: "exited (fuse_session_reset s) = False" "chan_ctr (fuse_session_reset s) = chan_ctr s"
  by (simp_all add: fuse_session_reset_def)

lemma ends_ok:
  assumes "listed m" "accounted m" "mt_list m = []" "numworker m = 0 \<and> numavail m = 0 \<or> mt_exit m"
  shows "mt_ok (loop_ends err m)"
  using assms unfolding mt_ok_def listed_def accounted_def in_count_def main_ok_def
  by (auto simp: loop_ends_def tally_def)

lemma main_moves:
  assumes "mt_ok m" "main_ok (m\<lparr>main_pc := q\<rparr>)"
  shows "mt_ok (m\<lparr>main_pc := q\<rparr>)"
  by (rule mt_ok_cong [OF assms(1)]) (use assms(2) in simp_all)

lemma joined_ok:
  assumes ok: "mt_ok m" and pc: "main_pc m = Joining w" and x: "pc_of m w = None \<or> pc_of m w = Some Over"
  shows "\<exists>m'. main_step m = Some m' \<and> mt_ok m'"
proof -
  note p = mt_ok_parts [OF ok]
  have win: "w \<in> set (mt_list m)" and ex: "mt_exit m" "exited (mt_se m)" using p(4) pc by (auto simp: main_ok_def)
  obtain x where x: "worker_heap m w = Some x" using win p(1) by (auto simp: listed_def)
  obtain m' where m': "free_worker w (m\<lparr>mt_list := remove1 w (mt_list m)\<rparr>) = Some m'" "listed m'" "accounted m'"
      "mt_list m' = remove1 w (mt_list m)" "worker_heap m' = (worker_heap m)(w := None)" "exited (mt_se m') = exited (mt_se m)"
      "mt_exit m' = mt_exit m"
    by (rule free_worker_step [OF p(1,2) x, of m]) auto
  let ?m = "m'\<lparr>main_pc := Joins\<rparr>"
  have "main_step m = Some ?m" using pc m'(1) by (simp add: main_step_def fuse_join_worker_def)
  moreover have "mt_ok ?m"
  proof -
    have "listed ?m" "accounted ?m" using m'(2,3) by (simp_all add: listed_def accounted_def tally_def)
    moreover have "in_count ?m" using ex m'(7) by (simp add: in_count_def)
    moreover have "main_ok ?m" using p(4) ex m' by (auto simp: main_ok_def)
    moreover have "sound_pc (exited (mt_se ?m)) y" if "worker_heap ?m v = Some y" for v y
      using that m'(5,6) p(5) [of v y] by (auto split: if_splits)
    ultimately show ?thesis by (simp add: mt_ok_def)
  qed
  ultimately show ?thesis by blast
qed

lemma main_turn_ok:
  assumes ok: "mt_ok m" and c: "can Main m"
  shows "\<exists>m'. main_step m = Some m' \<and> mt_ok m'"
proof (cases "main_pc m")
  case Starts
  note p = mt_ok_parts [OF ok]
  have e: "mt_list m = []" "\<not> mt_exit m" using p(4) Starts by (simp_all add: main_ok_def)
  then have cnt: "numworker m = 0" "numavail m = 0" using p(3) by (simp_all add: in_count_def tally_def)
  obtain err b where b: "fuse_loop_start_thread m = Some (err, b)" "listed b" "accounted b" "same_loop m b"
      "(err = -1 \<and> same_pool m b) \<or>
       (err = 0 \<and> (\<exists>w ch. worker_heap m w = None \<and> w \<notin> set (mt_list m) \<and> mt_list b = mt_list m @ [w] \<and>
          worker_heap b = (worker_heap m)(w \<mapsto> new_worker ch)) \<and>
        numavail b = numavail m + 1 \<and> numworker b = numworker m + 1 \<and> tally w_idle b True = tally w_idle m True + 1)"
    using start_thread_step [OF p(1,2)] .
  have h: "worker_heap m v = None" for v using p(1) e(1) by (auto simp: listed_def)
  show ?thesis
  proof (cases "err = 0")
    case True
    then obtain w ch where w: "mt_list b = [w]" "worker_heap b = (worker_heap m)(w \<mapsto> new_worker ch)" "numavail b = 1" "numworker b = 1"
        "tally w_idle b True = 1" using b(5) e(1) cnt by (auto simp: tally_def)
    let ?m = "b\<lparr>main_pc := Tests\<rparr>"
    have "tally w_idle ?m True = 1" using w(5) by (simp add: tally_def)
    then have "in_count ?m" using w by (simp add: in_count_def)
    moreover have "listed ?m" "accounted ?m" using b(2,3) by (simp_all add: listed_def accounted_def tally_def)
    moreover have "main_ok ?m" using b(4) e(2) w(2) h by (auto simp: main_ok_def same_loop_def new_worker_def split: if_splits)
    moreover have "sound_pc (exited (mt_se ?m)) y" if "worker_heap ?m v = Some y" for v y
      using that w(2) h new_sound by (auto split: if_splits)
    ultimately show ?thesis using Starts b(1) True by (simp add: main_step_def mt_ok_def)
  next
    case False
    then have "mt_ok (loop_ends err b)" using b(2,3,4,5) e cnt by (intro ends_ok) (auto simp: same_pool_def)
    then show ?thesis using Starts b(1) False by (simp add: main_step_def)
  qed
next
  case Tests
  then show ?thesis using main_moves [OF ok] mt_ok_parts(4) [OF ok]
    by (simp add: main_step_def main_ok_def fuse_session_exited_def)
next
  case Enters
  then show ?thesis using main_moves [OF ok] mt_ok_parts(4) [OF ok] by (simp add: main_step_def main_ok_def)
next
  case Waits
  have "mt_ok (m\<lparr>mt_finish := mt_finish m - 1\<rparr>)"
    by (rule mt_ok_cong [OF ok]) (auto intro: main_ok_cong mt_ok_parts(4) [OF ok])
  then have "mt_ok (m\<lparr>mt_finish := mt_finish m - 1\<rparr>\<lparr>main_pc := Tests\<rparr>)"
    by (rule main_moves) (use Waits mt_ok_parts(4) [OF ok] in \<open>simp add: main_ok_def\<close>)
  then show ?thesis using Waits by (simp add: main_step_def)
next
  case Stops
  then show ?thesis using stops_ok [OF ok] by (simp add: main_step_def)
next
  case Joins
  note p = mt_ok_parts [OF ok]
  have e: "mt_exit m" "exited (mt_se m)" using p(4) Joins by (simp_all add: main_ok_def)
  show ?thesis
  proof (cases "mt_list m")
    case Nil
    then show ?thesis using ends_ok [OF p(1,2) Nil] e Joins by (simp add: main_step_def)
  next
    case (Cons w ws)
    then have "mt_ok (m\<lparr>main_pc := Joining w\<rparr>)" using e p(4) by (intro main_moves [OF ok]) (simp add: main_ok_def)
    then show ?thesis using Joins Cons by (simp add: main_step_def)
  qed
next
  case (Joining w)
  then show ?thesis using joined_ok [OF ok Joining] c by simp
next
  case (Ended err)
  then show ?thesis using c by simp
qed

lemma turn_ok:
  assumes ok: "mt_ok m"
  shows "\<exists>m'. take_turn e m = Some m' \<and> mt_ok m'"
proof (cases "can e m")
  case False
  then show ?thesis using ok by (simp add: take_turn_def)
next
  case True
  note c = this
  show ?thesis
  proof (cases e)
    case (Worker w)
    then obtain x where x: "worker_heap m w = Some x" using c by (cases "worker_heap m w") (auto simp: pc_of_def)
    show ?thesis using Worker c x top_ok [OF ok x] result_ok [OF ok x] back_ok [OF ok x] leave_ok [OF ok x]
      by (cases "w_pc x") (auto simp: take_turn_def pc_of_def)
  next
    case (Receives w r)
    then show ?thesis using c receive_ok [OF ok] by (auto simp: take_turn_def pc_of_Some)
  next
    case (Serves w b)
    then obtain x f where "worker_heap m w = Some x" "w_pc x = Serving f" using c by (auto simp: pc_of_def split: option.splits pc.splits)
    then show ?thesis using Serves c serve_ok [OF ok] by (auto simp: take_turn_def pc_of_def)
  next
    case (Cancelled w b)
    then show ?thesis using c cancelled_ok [OF ok] by (auto simp: take_turn_def split: option.splits)
  next
    case Main
    then show ?thesis using c main_turn_ok [OF ok] by (simp add: take_turn_def)
  next
    case Interrupted
    then have "mt_ok (m\<lparr>main_pc := Tests\<rparr>)" using c mt_ok_parts(4) [OF ok] by (intro main_moves [OF ok]) (simp add: main_ok_def)
    then show ?thesis using Interrupted c by (simp add: take_turn_def)
  next
    case Exit_signal
    let ?m = "(stop_session True m)\<lparr>main_pc := (if main_pc m = Waits then Tests else main_pc m)\<rparr>"
    have "mt_ok ?m" using mt_ok_parts(4) [OF ok] c Exit_signal
      by (intro main_moves [OF stop_ok [OF ok]]) (auto simp: main_ok_def split: main_pc.splits)
    then show ?thesis using Exit_signal c by (simp add: take_turn_def)
  qed
qed

interpretation mt_events: event_system take_turn take_turns "\<lambda>_. {} :: unit set" "\<lambda>_. mt_ok"
  by unfold_locales (simp_all add: turn_ok)

lemma init_ok: "(\<And>c. chan_ctr s c = 0) \<Longrightarrow> mt_ok (mt_init s cfg ans)"
  by (simp add: mt_ok_def listed_def accounted_def in_count_def main_ok_def mt_init_def tally_def)

end
