(* ===== verification/LoopEnds.thy ===== *)
theory LoopEnds
  imports WorkerRuns
begin

text \<open>
  How the loop with several threads ends, and that requests are read meanwhile: the properties of
  \<open>lib/fuse_loop_mt.c\<close>, with the runs in which it does not keep to them.

  Once the session has exited, every turn lowers \<open>work_left\<close>; \<open>awake\<close> says that the main thread is not left
  waiting.
\<close>

section \<open>What is left to do\<close>

fun pc_rank :: "pc \<Rightarrow> nat" where
  "pc_rank Over = 0"
| "pc_rank Leaving = 1"
| "pc_rank Top = 2"
| "pc_rank (Served f) = 3"
| "pc_rank (Serving f) = 4"
| "pc_rank (Got res) = 9"
| "pc_rank Reading = 10"

fun main_rank :: "main_pc \<Rightarrow> nat" where
  "main_rank Starts = 8"
| "main_rank Enters = 5"
| "main_rank Waits = 4"
| "main_rank Tests = 3"
| "main_rank Stops = 2"
| "main_rank Joins = 1"
| "main_rank (Joining w) = 0"
| "main_rank (Ended err) = 0"

definition workers_left :: "fuse_mt \<Rightarrow> nat" where
  "workers_left m = sum_list (map (\<lambda>w. pc_rank (w_pc (the (worker_heap m w))) + 2) (mt_list m))"

definition work_left :: "fuse_mt \<Rightarrow> nat" where
  "work_left m = workers_left m + main_rank (main_pc m)"

lemma sum_list_change:
  fixes f g :: "nat \<Rightarrow> nat"
  assumes "distinct l" "w \<in> set l" "\<And>v. v \<noteq> w \<Longrightarrow> g v = f v"
  shows "sum_list (map g l) + f w = sum_list (map f l) + g w"
proof -
  have "sum_list (map g (remove1 w l)) = sum_list (map f (remove1 w l))"
    using assms by (intro arg_cong [where f = sum_list] map_cong) auto
  then show ?thesis using sum_list_map_remove1 [OF assms(2), of f] sum_list_map_remove1 [OF assms(2), of g] by simp
qed

lemma left_goto:
  assumes "listed m" "worker_heap m w = Some x"
  shows "workers_left (goto w p m) + pc_rank (w_pc x) = workers_left m + pc_rank p"
  using sum_list_change [of "mt_list m" w "\<lambda>v. pc_rank (w_pc (the (worker_heap (goto w p m) v))) + 2" "\<lambda>v. pc_rank (w_pc (the (worker_heap m v))) + 2"]
    assms listed_in [OF assms] by (simp add: workers_left_def listed_def)

lemma left_same:
  assumes "mt_list m' = mt_list m" "\<And>w. w \<in> set (mt_list m) \<Longrightarrow> w_pc (the (worker_heap m' w)) = w_pc (the (worker_heap m w))"
  shows "workers_left m' = workers_left m"
  unfolding workers_left_def assms(1) by (intro arg_cong [where f = sum_list] map_cong) (use assms(2) in auto)

lemma left_remove:
  assumes "listed m" "worker_heap m w = Some x" "mt_list m' = remove1 w (mt_list m)" "worker_heap m' = (worker_heap m)(w := None)"
  shows "workers_left m = workers_left m' + (pc_rank (w_pc x) + 2)"
proof -
  let ?f = "\<lambda>w. pc_rank (w_pc (the (worker_heap m w))) + 2"
  have d: "distinct (mt_list m)" using assms(1) by (simp add: listed_def)
  have "workers_left m' = sum_list (map ?f (remove1 w (mt_list m)))"
    unfolding workers_left_def assms(3,4) by (intro arg_cong [where f = sum_list] map_cong) (use d in auto)
  then show ?thesis using sum_list_map_remove1 [OF listed_in [OF assms(1,2)], of ?f] assms(2) by (simp add: workers_left_def)
qed

lemma left_start:
  assumes "listed m" "w \<notin> set (mt_list m)" "mt_list m' = mt_list m @ [w]" "worker_heap m' = (worker_heap m)(w \<mapsto> new_worker ch)"
  shows "workers_left m' = workers_left m + 4"
proof -
  have "sum_list (map (\<lambda>w. pc_rank (w_pc (the (worker_heap m' w))) + 2) (mt_list m)) = workers_left m"
    unfolding workers_left_def assms(4) by (intro arg_cong [where f = sum_list] map_cong) (use assms(2) in auto)
  then show ?thesis by (simp add: workers_left_def assms(3)) (simp add: assms(4) new_worker_def)
qed

section \<open>Every turn of a session that has exited lowers it\<close>

definition goes_on :: "fuse_mt \<Rightarrow> fuse_mt \<Rightarrow> bool" where
  "goes_on m m' \<longleftrightarrow> work_left m' < work_left m \<and> (exited (mt_se m') \<or> (\<exists>err. main_pc m' = Ended err))"

lemma start_left:
  assumes "listed m" "accounted m" "fuse_loop_start_thread m = Some (err, m')"
  shows "workers_left m' \<le> workers_left m + 4 \<and> main_pc m' = main_pc m \<and> exited (mt_se m') = exited (mt_se m) \<and> mt_exit m' = mt_exit m"
proof -
  obtain err2 b where b: "fuse_loop_start_thread m = Some (err2, b)" "listed b" "accounted b" "same_loop m b"
      "(err2 = -1 \<and> same_pool m b) \<or>
       (err2 = 0 \<and> (\<exists>w ch. worker_heap m w = None \<and> w \<notin> set (mt_list m) \<and> mt_list b = mt_list m @ [w] \<and>
          worker_heap b = (worker_heap m)(w \<mapsto> new_worker ch)) \<and>
        numavail b = numavail m + 1 \<and> numworker b = numworker m + 1 \<and> tally w_idle b True = tally w_idle m True + 1)"
    using start_thread_step [OF assms(1,2)] .
  have eq: "b = m'" using b(1) assms(3) by simp
  have "workers_left b \<le> workers_left m + 4" using b(5)
  proof
    assume "err2 = -1 \<and> same_pool m b"
    then show ?thesis using left_same [of b m] by (simp add: same_pool_def)
  next
    assume "err2 = 0 \<and> (\<exists>w ch. worker_heap m w = None \<and> w \<notin> set (mt_list m) \<and> mt_list b = mt_list m @ [w] \<and>
          worker_heap b = (worker_heap m)(w \<mapsto> new_worker ch)) \<and>
        numavail b = numavail m + 1 \<and> numworker b = numworker m + 1 \<and> tally w_idle b True = tally w_idle m True + 1"
    then show ?thesis using left_start [OF assms(1)] by fastforce
  qed
  then show ?thesis using b(4) unfolding eq by (simp add: same_loop_def)
qed

lemma goto_on:
  assumes "listed m0" "worker_heap m0 w = Some x" "pc_rank p < pc_rank (w_pc x)" "workers_left m0 = workers_left m"
    "main_pc m0 = main_pc m" "exited (mt_se m0)"
  shows "goes_on m (goto w p m0)"
  using left_goto [OF assms(1,2), of p] assms(3-6) by (simp add: goes_on_def work_left_def)

lemma left_frame:
  "mt_list m' = mt_list m \<Longrightarrow> worker_heap m' = worker_heap m \<Longrightarrow> workers_left m' = workers_left m"
  by (rule left_same) auto

lemma listed_frame:
  "listed m \<Longrightarrow> mt_list m' = mt_list m \<Longrightarrow> worker_heap m' = worker_heap m \<Longrightarrow> mt_next m' = mt_next m \<Longrightarrow> listed m'"
  by (rule listed_grow) auto

lemma result_on:
  assumes ok: "mt_ok m" and x: "worker_heap m w = Some x" "w_pc x = Got res" and ex: "exited (mt_se m)"
    and r: "worker_result w res m = Some m'"
  shows "goes_on m m'"
proof -
  note p = mt_ok_parts [OF ok]
  consider (int) "res = - EINTR" | (err) "res \<noteq> - EINTR" "res < 0" | (zero) "res = 0" | (exit) "0 < res" "mt_exit m" | (req) "0 < res" "\<not> mt_exit m"
    by linarith
  then show ?thesis
  proof cases
    case int
    then show ?thesis using r goto_on [OF p(1) x(1), of Top m] x(2) ex by (simp add: worker_result_def)
  next
    case err
    let ?s = "(stop_session True m)\<lparr>mt_error := res\<rparr>"
    have "goes_on m (goto w Leaving ?s)"
      by (rule goto_on [where x = x]) (use x p(1) in \<open>auto intro: listed_frame left_frame\<close>)
    then show ?thesis using r err by (simp add: worker_result_def)
  next
    case zero
    then show ?thesis using r goto_on [OF p(1) x(1), of Leaving m] x(2) ex by (simp add: worker_result_def EINTR_def)
  next
    case exit
    then show ?thesis using r goto_on [OF p(1) x(1), of Over m] x(2) ex by (simp add: worker_result_def EINTR_def)
  next
    case req
    obtain f where f: "isforget x = Some f" using p(5) [OF x(1)] x req by (auto simp: sound_pc_def)
    let ?a = "if f then m else m\<lparr>numavail := numavail m - 1\<rparr>"
    let ?start = "numavail ?a = 0 \<and> numworker ?a < max_threads ?a"
    have run: "worker_result w res m =
        map_option (goto w (Serving f)) (if ?start then map_option snd (fuse_loop_start_thread ?a) else Some ?a)"
      using req x f by (simp add: worker_result_def EINTR_def Let_def map_option_case split: option.splits)
    have "map_option (goto w (Serving f)) (if ?start then map_option snd (fuse_loop_start_thread ?a) else Some ?a) = Some m'"
      using r run by (simp only:)
    then obtain b where b: "(if ?start then map_option snd (fuse_loop_start_thread ?a) else Some ?a) = Some b" "m' = goto w (Serving f) b"
      unfolding map_option_eq_Some by blast
    have a: "listed ?a" "accounted ?a" using p(1,2) by (simp_all add: listed_def accounted_def tally_def)
    have la: "workers_left ?a = workers_left m" by (rule left_frame) simp_all
    have "workers_left b \<le> workers_left m + 4 \<and> main_pc b = main_pc m \<and> exited (mt_se b) \<and> listed b \<and> worker_heap b w = Some x"
    proof (cases ?start)
      case False
      then show ?thesis using b(1) a la ex x by (auto split: if_splits)
    next
      case True
      then obtain err where s: "fuse_loop_start_thread ?a = Some (err, b)" using b(1) by auto
      have ea: "worker_heap ?a = worker_heap m" "mt_list ?a = mt_list m" by simp_all
      obtain err2 b2 where b2: "fuse_loop_start_thread ?a = Some (err2, b2)" "listed b2"
          "(err2 = -1 \<and> same_pool ?a b2) \<or>
           (err2 = 0 \<and> (\<exists>w ch. worker_heap ?a w = None \<and> w \<notin> set (mt_list ?a) \<and> mt_list b2 = mt_list ?a @ [w] \<and>
              worker_heap b2 = (worker_heap ?a)(w \<mapsto> new_worker ch)) \<and>
            numavail b2 = numavail ?a + 1 \<and> numworker b2 = numworker ?a + 1 \<and> tally w_idle b2 True = tally w_idle ?a True + 1)"
        using start_thread_step [OF a] by metis
      have "b2 = b" using s b2(1) by simp
      moreover have "worker_heap b2 w = Some x" using b2(3) x(1) unfolding ea by (auto simp: same_pool_def)
      moreover have "main_pc ?a = main_pc m" "mt_se ?a = mt_se m" by simp_all
      ultimately show ?thesis using start_left [OF a s] la b2(2) ex by simp
    qed
    then show ?thesis using left_goto [of b w x "Serving f"] x(2) b(2) by (simp add: goes_on_def work_left_def)
  qed
qed

lemma back_on:
  assumes ok: "mt_ok m" and x: "worker_heap m w = Some x" "w_pc x = Served f" and ex: "exited (mt_se m)"
    and r: "worker_back w f m = Some m'"
  shows "goes_on m m'"
proof -
  note p = mt_ok_parts [OF ok]
  let ?a = "if f then m else m\<lparr>numavail := numavail m + 1\<rparr>"
  let ?free = "max_idle ?a \<noteq> -1 \<and> max_idle ?a < numavail ?a \<and> 1 < numworker ?a"
  let ?b = "?a\<lparr>numavail := numavail ?a - 1, numworker := numworker ?a - 1\<rparr>"
  have stay: "goes_on m (goto w q ?a)" if "q = Top \<or> q = Over" for q
    by (rule goto_on [where x = x]) (use x p(1) ex that in \<open>auto intro: listed_frame left_frame\<close>)
  have run: "worker_back w f m = (if ?free then (if mt_exit m then Some (goto w Over ?a)
      else free_worker w (?b\<lparr>mt_list := remove1 w (mt_list m)\<rparr>)) else Some (goto w Top ?a))"
  proof -
    have "?a\<lparr>mt_list := remove1 w (mt_list ?a), numavail := numavail ?a - 1, numworker := numworker ?a - 1\<rparr> =
        ?b\<lparr>mt_list := remove1 w (mt_list m)\<rparr>" and "mt_exit ?a = mt_exit m" by simp_all
    then show ?thesis by (simp only: worker_back_def Let_def)
  qed
  show ?thesis
  proof (cases "?free \<and> \<not> mt_exit m")
    case False
    then have "m' = goto w Top ?a \<or> m' = goto w Over ?a" using r unfolding run by (auto split: if_splits)
    then show ?thesis using stay by blast
  next
    case True
    then have fw: "free_worker w (?b\<lparr>mt_list := remove1 w (mt_list m)\<rparr>) = Some m'" using r unfolding run by simp
    obtain b2 where b2: "free_worker w (?b\<lparr>mt_list := remove1 w (mt_list m)\<rparr>) = Some b2"
        "mt_list b2 = remove1 w (mt_list m)" "worker_heap b2 = (worker_heap m)(w := None)" "exited (mt_se b2) = exited (mt_se m)"
        "main_pc b2 = main_pc ?b"
      by (rule free_worker_step [OF p(1,2) x(1), of ?b]) auto
    then have "b2 = m'" using fw by simp
    then show ?thesis using left_remove [OF p(1) x(1), of m'] b2 ex by (simp add: goes_on_def work_left_def)
  qed
qed

lemma main_on:
  assumes ok: "mt_ok m" and c: "can Main m" and ex: "exited (mt_se m)" and r: "main_step m = Some m'"
  shows "goes_on m m'"
proof -
  note p = mt_ok_parts [OF ok]
  have move: "goes_on m (m0\<lparr>main_pc := q\<rparr>)"
    if "main_rank q < main_rank (main_pc m)" "workers_left m0 = workers_left m" "mt_se m0 = mt_se m" for q m0
    using that ex left_frame [of "m0\<lparr>main_pc := q\<rparr>" m0] by (simp add: goes_on_def work_left_def)
  show ?thesis
  proof (cases "main_pc m")
    case Starts
    then obtain err b where b: "fuse_loop_start_thread m = Some (err, b)"
        "m' = (if err = 0 then b\<lparr>main_pc := Tests\<rparr> else loop_ends err b)"
      using r by (auto simp: main_step_def bind_eq_Some_conv)
    have "workers_left b \<le> workers_left m + 4 \<and> exited (mt_se b)" using start_left [OF p(1,2) b(1)] ex by simp
    moreover have "workers_left (b\<lparr>main_pc := q\<rparr>) = workers_left b" for q by (rule left_frame) simp_all
    moreover have "workers_left (loop_ends err b) = workers_left b" by (rule left_frame) (simp_all add: loop_ends_def)
    moreover have "main_pc (loop_ends err b) = Ended (if se_error (mt_se b) \<noteq> 0 then se_error (mt_se b) else err)"
      by (simp add: loop_ends_def)
    ultimately show ?thesis using b(2) Starts by (simp add: goes_on_def work_left_def)
  next
    case Waits
    then show ?thesis using r move [of Tests "m\<lparr>mt_finish := mt_finish m - 1\<rparr>"] left_frame [of "m\<lparr>mt_finish := mt_finish m - 1\<rparr>" m]
      by (simp add: main_step_def)
  next
    case Stops
    have "workers_left (cancel_all m) = workers_left m"
      by (rule left_same) (use p(1) in \<open>auto simp: cancel_all_heap listed_def\<close>)
    moreover have "workers_left ((cancel_all m)\<lparr>mt_exit := True, main_pc := Joins\<rparr>) = workers_left (cancel_all m)" by (rule left_frame) simp_all
    ultimately show ?thesis using r Stops ex by (auto simp: main_step_def goes_on_def work_left_def)
  next
    case Joins
    have "workers_left (loop_ends err m) = workers_left m" for err by (rule left_frame) (simp_all add: loop_ends_def)
    then have "goes_on m (loop_ends err m)" for err using Joins by (simp add: goes_on_def work_left_def) (simp add: loop_ends_def)
    then show ?thesis using r Joins move [of "Joining _" m] by (auto simp: main_step_def split: list.splits)
  next
    case (Joining w)
    have win: "w \<in> set (mt_list m)" using p(4) Joining by (auto simp: main_ok_def)
    obtain x where x: "worker_heap m w = Some x" using win p(1) by (auto simp: listed_def)
    obtain b where b: "free_worker w (m\<lparr>mt_list := remove1 w (mt_list m)\<rparr>) = Some b"
        "mt_list b = remove1 w (mt_list m)" "worker_heap b = (worker_heap m)(w := None)" "exited (mt_se b) = exited (mt_se m)"
      by (rule free_worker_step [OF p(1,2) x, of m]) auto
    then have "m' = b\<lparr>main_pc := Joins\<rparr>" using r Joining by (simp add: main_step_def fuse_join_worker_def)
    moreover have "workers_left (b\<lparr>main_pc := Joins\<rparr>) = workers_left b" by (rule left_frame) simp_all
    ultimately show ?thesis using left_remove [OF p(1) x b(2,3)] b(4) ex Joining by (simp add: goes_on_def work_left_def)
  qed (use r c ex move [of _ m] in \<open>auto simp: main_step_def fuse_session_exited_def\<close>)
qed

lemma own_fbuf_left: "workers_left (own_fbuf b w m) = workers_left m"
  by (rule left_same) (auto simp: own_fbuf_def split: option.splits)

lemma turn_on:
  assumes ok: "mt_ok m" and ex: "exited (mt_se m)" and c: "can e m" "e \<noteq> Exit_signal" and r: "take_turn e m = Some m'"
  shows "goes_on m m'"
proof (cases e)
  case (Worker w)
  note p = mt_ok_parts [OF ok]
  obtain x where x: "worker_heap m w = Some x" using c Worker by (cases "worker_heap m w") (auto simp: pc_of_def)
  have r': "act (Worker w) m = Some m'" using r c Worker by (simp add: take_turn_def)
  show ?thesis
  proof (cases "w_pc x")
    case Top
    then show ?thesis using r' x goto_on [OF p(1) x, of Leaving m] ex by (simp add: pc_of_def worker_top_def fuse_session_exited_def)
  next
    case (Got res)
    then show ?thesis using r' x result_on [OF ok x Got ex] by (simp add: pc_of_def)
  next
    case (Served f)
    then show ?thesis using r' x back_on [OF ok x Served ex] by (simp add: pc_of_def)
  next
    case Leaving
    have "goes_on m (goto w Over (m\<lparr>mt_finish := mt_finish m + 1\<rparr>))"
      by (rule goto_on [where x = x]) (use x p(1) ex Leaving in \<open>auto intro: listed_frame left_frame\<close>)
    then show ?thesis using r' x Leaving by (simp add: pc_of_def worker_leave_def)
  qed (use c Worker x in \<open>auto simp: pc_of_def\<close>)
next
  case (Receives w rc)
  then obtain x where x: "worker_heap m w = Some x" "w_pc x = Reading" using c by (auto simp: pc_of_Some)
  let ?s = "stop_session (rc_stop rc) m"
  obtain bf where o: "mt_ok (own_fbuf (rc_alloc rc) w ?s)" "worker_heap (own_fbuf (rc_alloc rc) w ?s) w = Some (x\<lparr>w_fbuf := bf\<rparr>)"
    using own_fbuf_ok [OF stop_ok [OF ok], of "rc_stop rc" w x "rc_alloc rc"] x by auto
  let ?g = "\<lambda>x. x\<lparr>w_fbuf := (w_fbuf x)\<lparr>buf_is_fd := rc_fd rc\<rparr>, w_data := rc_data rc\<rparr>"
  let ?u = "upd_worker w ?g (own_fbuf (rc_alloc rc) w ?s)"
  have "goes_on m (goto w (Got (rc_res rc)) ?u)"
  proof (rule goto_on [where x = "?g (x\<lparr>w_fbuf := bf\<rparr>)"])
    show "listed ?u" by (rule listed_upd [OF mt_ok_parts(1) [OF o(1)]]) simp
    have "workers_left ?u = workers_left (own_fbuf (rc_alloc rc) w ?s)" by (rule left_same) (use o(2) in auto)
    also have "\<dots> = workers_left ?s" by (rule own_fbuf_left)
    also have "\<dots> = workers_left m" by (rule left_frame) simp_all
    finally show "workers_left ?u = workers_left m" .
  qed (use o x ex in simp_all)
  then show ?thesis using r c Receives by (simp add: take_turn_def worker_receive_def)
next
  case (Serves w b)
  then obtain x f where x: "worker_heap m w = Some x" "w_pc x = Serving f" using c by (auto simp: pc_of_def split: option.splits pc.splits)
  have "goes_on m (goto w (Served f) (stop_session b m))"
    by (rule goto_on [where x = x]) (use x ex mt_ok_parts(1) [OF ok] in \<open>auto intro: listed_frame left_frame\<close>)
  then show ?thesis using r c Serves x by (simp add: take_turn_def pc_of_def worker_serve_def)
next
  case (Cancelled w b)
  then obtain x where x: "worker_heap m w = Some x" "w_pc x = Reading" using c by (auto split: option.splits)
  obtain bf where o: "mt_ok (own_fbuf b w m)" "worker_heap (own_fbuf b w m) w = Some (x\<lparr>w_fbuf := bf\<rparr>)"
    using own_fbuf_ok [OF ok x(1), of b] by blast
  have "goes_on m (goto w Over (own_fbuf b w m))"
    by (rule goto_on [OF mt_ok_parts(1) [OF o(1)] o(2)]) (use x ex own_fbuf_left in simp_all)
  then show ?thesis using r c Cancelled by (simp add: take_turn_def worker_cancelled_def)
next
  case Main
  then show ?thesis using r c main_on [OF ok _ ex] by (simp add: take_turn_def)
next
  case Interrupted
  then have "m' = m\<lparr>main_pc := Tests\<rparr>" "main_pc m = Waits" using r c by (auto simp: take_turn_def)
  moreover have "workers_left (m\<lparr>main_pc := Tests\<rparr>) = workers_left m" by (rule left_frame) simp_all
  ultimately show ?thesis using ex by (simp add: goes_on_def work_left_def)
qed (use c in simp)

section \<open>Somebody wakes the main thread, somebody reads\<close>

definition awake :: "fuse_mt \<Rightarrow> bool" where
  "awake m \<longleftrightarrow> ((main_pc m = Enters \<or> main_pc m = Waits) \<and> exited (mt_se m) \<longrightarrow>
     0 < mt_finish m \<or> (\<exists>w x. worker_heap m w = Some x \<and> w_pc x \<noteq> Reading \<and> w_pc x \<noteq> Over))"

definition running :: "fuse_mt \<Rightarrow> bool" where
  "running m \<longleftrightarrow> \<not> mt_exit m \<and> (case main_pc m of Starts \<Rightarrow> False | Ended err \<Rightarrow> False | _ \<Rightarrow> True)"

definition available :: "fuse_mt \<Rightarrow> bool" where
  "available m \<longleftrightarrow> mt_answers m = [] \<and> (running m \<longrightarrow> 0 < numavail m \<or> max_threads m \<le> numworker m)"

definition same_limits :: "fuse_mt \<Rightarrow> fuse_mt \<Rightarrow> bool" where
  "same_limits m m' \<longleftrightarrow> max_idle m' = max_idle m \<and> max_threads m' = max_threads m"

text \<open>A request is admitted: the worker serves it, and another one reads unless there are as many as allowed.\<close>

lemma admitted:
  assumes ok: "mt_ok m" and x: "worker_heap m w = Some x" "w_pc x = Got res" and res: "0 < res" "\<not> mt_exit m"
    and r: "worker_result w res m = Some m'"
  obtains f b where "m' = goto w (Serving f) b" "same_loop m b" "worker_heap b w = Some x"
    "mt_answers m = [] \<longrightarrow> 0 < numavail b \<or> max_threads b \<le> numworker b"
proof -
  note p = mt_ok_parts [OF ok]
  obtain f where f: "isforget x = Some f" using p(5) [OF x(1)] x res by (auto simp: sound_pc_def)
  let ?a = "if f then m else m\<lparr>numavail := numavail m - 1\<rparr>"
  let ?start = "numavail ?a = 0 \<and> numworker ?a < max_threads ?a"
  have run: "worker_result w res m =
      map_option (goto w (Serving f)) (if ?start then map_option snd (fuse_loop_start_thread ?a) else Some ?a)"
    using res x f by (simp add: worker_result_def EINTR_def Let_def map_option_case split: option.splits)
  have "map_option (goto w (Serving f)) (if ?start then map_option snd (fuse_loop_start_thread ?a) else Some ?a) = Some m'"
    using r run by (simp only:)
  then obtain b where b: "(if ?start then map_option snd (fuse_loop_start_thread ?a) else Some ?a) = Some b" "m' = goto w (Serving f) b"
    unfolding map_option_eq_Some by blast
  have a: "listed ?a" "accounted ?a" using p(1,2) by (simp_all add: listed_def accounted_def tally_def)
  have ea: "worker_heap ?a = worker_heap m" "mt_list ?a = mt_list m" "mt_answers ?a = mt_answers m" by simp_all
  have sa: "same_loop m ?a" by (simp add: same_loop_def)
  have "0 < tally w_idle m True" using tally_pos [OF x(1) p(1), of w_idle] x(2) by (simp add: w_idle_def idle_pc_def)
  then have n: "0 \<le> numavail ?a" using p(3) res(2) by (simp add: in_count_def)
  show thesis
  proof (cases ?start)
    case False
    then have "b = ?a" using b(1) by (simp only: if_False) simp
    then show thesis using False n b(2) x(1) sa ea(1) by (intro that [of f b]) auto
  next
    case True
    obtain err c where c: "fuse_loop_start_thread ?a = Some (err, c)" "listed c" "accounted c" "same_loop ?a c" "mt_answers ?a = [] \<longrightarrow> err = 0"
        "(err = -1 \<and> same_pool ?a c) \<or>
         (err = 0 \<and> (\<exists>w ch. worker_heap ?a w = None \<and> w \<notin> set (mt_list ?a) \<and> mt_list c = mt_list ?a @ [w] \<and>
            worker_heap c = (worker_heap ?a)(w \<mapsto> new_worker ch)) \<and>
          numavail c = numavail ?a + 1 \<and> numworker c = numworker ?a + 1 \<and> tally w_idle c True = tally w_idle ?a True + 1)"
      using start_thread_step [OF a] .
    have "c = b" using b(1) True c(1) by simp
    moreover have "worker_heap c w = Some x" using c(6) x(1) unfolding ea by (auto simp: same_pool_def)
    moreover have "mt_answers m = [] \<longrightarrow> 0 < numavail c" using c(5,6) True unfolding ea by auto
    ultimately show thesis using b(2) same_loop_trans [OF sa c(4)] by (intro that [of f b]) auto
  qed
qed

lemma freed_or_kept:
  assumes ok: "mt_ok m" and x: "worker_heap m w = Some x" "w_pc x = Served f" and r: "worker_back w f m = Some m'"
  shows "main_pc m' = main_pc m \<and> mt_exit m' = mt_exit m \<and> mt_answers m' = mt_answers m \<and> mt_finish m' = mt_finish m \<and>
    exited (mt_se m') = exited (mt_se m) \<and> same_limits m m' \<and>
    (max_idle m = -1 \<longrightarrow> (\<exists>y. worker_heap m' w = Some y \<and> w_pc y = Top)) \<and>
    ((max_idle m = -1 \<or> 0 < max_idle m) \<and> (0 < numavail m \<or> max_threads m \<le> numworker m) \<longrightarrow>
      0 < numavail m' \<or> max_threads m' \<le> numworker m')"
proof -
  note p = mt_ok_parts [OF ok]
  let ?a = "if f then m else m\<lparr>numavail := numavail m + 1\<rparr>"
  let ?free = "max_idle ?a \<noteq> -1 \<and> max_idle ?a < numavail ?a \<and> 1 < numworker ?a"
  let ?b = "?a\<lparr>numavail := numavail ?a - 1, numworker := numworker ?a - 1\<rparr>"
  have run: "worker_back w f m = (if ?free then (if mt_exit m then Some (goto w Over ?a)
      else free_worker w (?b\<lparr>mt_list := remove1 w (mt_list m)\<rparr>)) else Some (goto w Top ?a))"
  proof -
    have "?a\<lparr>mt_list := remove1 w (mt_list ?a), numavail := numavail ?a - 1, numworker := numworker ?a - 1\<rparr> =
        ?b\<lparr>mt_list := remove1 w (mt_list m)\<rparr>" and "mt_exit ?a = mt_exit m" by simp_all
    then show ?thesis by (simp only: worker_back_def Let_def)
  qed
  show ?thesis
  proof (cases "?free \<and> \<not> mt_exit m")
    case False
    then have "m' = goto w Top ?a \<or> m' = goto w Over ?a \<and> max_idle m \<noteq> -1" using r unfolding run by (auto split: if_splits)
    then show ?thesis using x by (cases f) (auto simp: same_limits_def)
  next
    case True
    then have fw: "free_worker w (?b\<lparr>mt_list := remove1 w (mt_list m)\<rparr>) = Some m'" using r unfolding run by simp
    obtain b2 where b2: "free_worker w (?b\<lparr>mt_list := remove1 w (mt_list m)\<rparr>) = Some b2"
        "exited (mt_se b2) = exited (mt_se m)" "numavail b2 = numavail ?b" "mt_exit b2 = mt_exit ?b" "max_threads b2 = max_threads ?b"
        "main_pc b2 = main_pc ?b" "mt_finish b2 = mt_finish ?b" "max_idle b2 = max_idle ?b" "mt_answers b2 = mt_answers ?b"
      by (rule free_worker_step [OF p(1,2) x(1), of ?b]) auto
    then have "b2 = m'" using fw by simp
    then show ?thesis using b2 True by (auto simp: same_limits_def)
  qed
qed

lemma awakeI: "worker_heap m w = Some x \<Longrightarrow> w_pc x \<noteq> Reading \<Longrightarrow> w_pc x \<noteq> Over \<Longrightarrow> awake m"
  by (auto simp: awake_def)

lemma asleep_exit: "mt_ok m \<Longrightarrow> mt_exit m \<Longrightarrow> main_pc m' = main_pc m \<Longrightarrow> awake m' \<and> \<not> (main_pc m = Enters \<or> main_pc m = Waits)"
  by (auto simp: awake_def mt_ok_def main_ok_def)

lemma worker_awake:
  assumes ok: "mt_ok m" and aw: "awake m" and mi: "max_idle m = -1" and c: "can (Worker w) m" and r: "act (Worker w) m = Some m'"
  shows "awake m' \<and> same_limits m m'"
proof -
  obtain x where x: "worker_heap m w = Some x" using c by (cases "worker_heap m w") (auto simp: pc_of_def)
  show ?thesis
  proof (cases "w_pc x")
    case Top
    then have "m' = worker_top w m" using r x by (simp add: pc_of_def)
    then show ?thesis using x by (auto simp: worker_top_def fuse_session_exited_def same_limits_def awake_def)
  next
    case (Got res)
    then have res: "worker_result w res m = Some m'" using r x by (simp add: pc_of_def)
    show ?thesis
    proof (cases "0 < res \<and> \<not> mt_exit m")
      case True
      then obtain f b where "m' = goto w (Serving f) b" "same_loop m b" "worker_heap b w = Some x"
        using admitted [OF ok x Got _ _ res] by blast
      then show ?thesis by (auto simp: same_loop_def same_limits_def intro: awakeI [of _ w])
    next
      case False
      then consider "res = - EINTR" | "res \<noteq> - EINTR" "res \<le> 0" | "0 < res" "mt_exit m" by linarith
      then show ?thesis
      proof cases
        case 3
        then show ?thesis using res asleep_exit [OF ok, of m'] by (auto simp: worker_result_def EINTR_def same_limits_def)
      qed (use res x in \<open>auto simp: worker_result_def same_limits_def intro: awakeI [of _ w]\<close>)
    qed
  next
    case (Served f)
    then show ?thesis using r x freed_or_kept [OF ok x Served, of m'] mi by (auto simp: pc_of_def intro: awakeI)
  next
    case Leaving
    then have "m' = worker_leave w m" using r x by (simp add: pc_of_def)
    then show ?thesis by (simp add: worker_leave_def awake_def same_limits_def)
  qed (use c x in \<open>auto simp: pc_of_def\<close>)
qed

lemma main_awake:
  assumes ok: "mt_ok m" and aw: "awake m" and r: "main_step m = Some m'"
  shows "awake m' \<and> same_limits m m'"
proof (cases "main_pc m")
  case Starts
  then obtain err b where b: "fuse_loop_start_thread m = Some (err, b)" "m' = (if err = 0 then b\<lparr>main_pc := Tests\<rparr> else loop_ends err b)"
    using r by (auto simp: main_step_def bind_eq_Some_conv)
  obtain err2 c where "fuse_loop_start_thread m = Some (err2, c)" "same_loop m c"
    using start_thread_step [OF mt_ok_parts(1,2) [OF ok]] by metis
  then have "same_loop m b" using b(1) by simp
  then show ?thesis using b(2) by (auto simp: awake_def loop_ends_def same_limits_def same_loop_def)
next
  case (Joining w)
  obtain x where x: "worker_heap m w = Some x" using mt_ok_parts(1,4) [OF ok] Joining by (auto simp: main_ok_def listed_def)
  obtain b where b: "free_worker w (m\<lparr>mt_list := remove1 w (mt_list m)\<rparr>) = Some b" "max_idle b = max_idle m" "max_threads b = max_threads m"
    by (rule free_worker_step [OF mt_ok_parts(1,2) [OF ok] x, of m]) auto
  then have "m' = b\<lparr>main_pc := Joins\<rparr>" using r Joining by (simp add: main_step_def fuse_join_worker_def)
  then show ?thesis using b by (simp add: awake_def same_limits_def)
next
  case Enters
  then have "m' = m\<lparr>main_pc := Waits\<rparr>" using r by (simp add: main_step_def)
  then show ?thesis using aw Enters unfolding awake_def same_limits_def by simp
qed (use r in \<open>auto simp: main_step_def awake_def fuse_session_exited_def loop_ends_def same_limits_def split: list.splits\<close>)

lemma turn_awake:
  assumes ok: "mt_ok m" and aw: "awake m" and mi: "max_idle m = -1" and late: "e = Exit_signal \<longrightarrow> main_pc m \<noteq> Enters"
    and r: "take_turn e m = Some m'"
  shows "awake m' \<and> same_limits m m'"
proof (cases "can e m")
  case False
  then show ?thesis using r aw by (simp add: take_turn_def same_limits_def)
next
  case True
  then have a: "act e m = Some m'" using r by (simp add: take_turn_def)
  show ?thesis
  proof (cases e)
    case (Worker w)
    then show ?thesis using worker_awake [OF ok aw mi] True a by simp
  next
    case (Receives w rc)
    then obtain x where x: "worker_heap m w = Some x" using True by (auto simp: pc_of_Some)
    have "m' = worker_receive w rc m" using a Receives by simp
    moreover obtain y where "worker_heap (own_fbuf (rc_alloc rc) w (stop_session (rc_stop rc) m)) w = Some y"
      using own_fbuf_ok [OF stop_ok [OF ok], of "rc_stop rc" w x] x by auto
    ultimately show ?thesis by (auto simp: worker_receive_def same_limits_def intro: awakeI [of _ w])
  next
    case (Serves w b)
    then show ?thesis using True a
      by (auto simp: pc_of_def worker_serve_def same_limits_def intro: awakeI [of _ w] split: option.splits pc.splits)
  next
    case (Cancelled w b)
    then obtain x where x: "worker_heap m w = Some x" "w_cancel x" using True by (auto split: option.splits)
    then have "mt_exit m" using mt_ok_parts(4) [OF ok] by (auto simp: main_ok_def)
    moreover have "m' = worker_cancelled w b m" using a Cancelled by simp
    ultimately show ?thesis using asleep_exit [OF ok, of m'] by (simp add: worker_cancelled_def same_limits_def)
  next
    case Main
    then show ?thesis using main_awake [OF ok aw] a by simp
  next
    case Exit_signal
    then have "m' = (stop_session True m)\<lparr>main_pc := (if main_pc m = Waits then Tests else main_pc m)\<rparr>" using a by simp
    then show ?thesis using late Exit_signal by (auto simp: awake_def same_limits_def)
  qed (use a in \<open>auto simp: awake_def same_limits_def\<close>)
qed

lemma available_turn:
  assumes ok: "mt_ok m" and av: "available m" and mi: "max_idle m = -1 \<or> 0 < max_idle m" and r: "take_turn e m = Some m'"
  shows "available m' \<and> same_limits m m'"
proof (cases "can e m")
  case False
  then show ?thesis using r av by (simp add: take_turn_def same_limits_def)
next
  case True
  then have a: "act e m = Some m'" using r by (simp add: take_turn_def)
  have same: "available m' \<and> same_limits m m'"
    if "numavail m' = numavail m" "numworker m' = numworker m" "mt_answers m' = mt_answers m" "max_idle m' = max_idle m"
      "max_threads m' = max_threads m" "running m' \<longrightarrow> running m"
    using that av by (auto simp: available_def same_limits_def)
  show ?thesis
  proof (cases e)
    case (Worker w)
    obtain x where x: "worker_heap m w = Some x" using True Worker by (cases "worker_heap m w") (auto simp: pc_of_def)
    have ne: "mt_list m \<noteq> []" using listed_in [OF mt_ok_parts(1) [OF ok] x] by auto
    have run: "running m" if "\<not> mt_exit m"
      using that mt_ok_parts(4) [OF ok] ne by (auto simp: running_def main_ok_def split: main_pc.splits)
    show ?thesis
    proof (cases "w_pc x")
      case Top
      then have "m' = worker_top w m" using a Worker x by (simp add: pc_of_def)
      then show ?thesis by (intro same) (simp_all add: worker_top_def running_def)
    next
      case (Got res)
      then have res: "worker_result w res m = Some m'" using a Worker x by (simp add: pc_of_def)
      show ?thesis
      proof (cases "0 < res \<and> \<not> mt_exit m")
        case True
        then obtain f b where "m' = goto w (Serving f) b" "same_loop m b"
            "mt_answers m = [] \<longrightarrow> 0 < numavail b \<or> max_threads b \<le> numworker b"
          using admitted [OF ok x Got _ _ res] by blast
        then show ?thesis using av by (auto simp: available_def same_loop_def same_limits_def)
      next
        case False
        then consider "res = - EINTR" | "res \<noteq> - EINTR" "res \<le> 0" | "0 < res" "mt_exit m" by linarith
        then show ?thesis
          by cases (intro same; use res in \<open>auto simp: worker_result_def EINTR_def running_def split: if_splits\<close>)+
      qed
    next
      case (Served f)
      then have k: "worker_back w f m = Some m'" using a Worker x by (simp add: pc_of_def)
      show ?thesis using freed_or_kept [OF ok x Served k] av mi run by (auto simp: available_def running_def)
    next
      case Leaving
      then have "m' = worker_leave w m" using a Worker x by (simp add: pc_of_def)
      then show ?thesis by (intro same) (simp_all add: worker_leave_def running_def)
    qed (use True Worker x in \<open>auto simp: pc_of_def\<close>)
  next
    case (Receives w rc)
    then show ?thesis using a by (intro same) (auto simp: worker_receive_def running_def)
  next
    case (Serves w b)
    then show ?thesis using a True
      by (intro same) (auto simp: pc_of_def worker_serve_def running_def split: option.splits pc.splits)
  next
    case (Cancelled w b)
    then show ?thesis using a by (intro same) (auto simp: worker_cancelled_def running_def)
  next
    case Main
    then have ms: "main_step m = Some m'" using a by simp
    show ?thesis
    proof (cases "main_pc m")
      case Starts
      note p = mt_ok_parts [OF ok]
      have e: "numavail m = 0" using p(3,4) Starts by (auto simp: main_ok_def in_count_def tally_def)
      obtain err b where b: "fuse_loop_start_thread m = Some (err, b)" "same_loop m b" "mt_answers m = [] \<longrightarrow> err = 0"
          "(err = -1 \<and> same_pool m b) \<or>
           (err = 0 \<and> (\<exists>w ch. worker_heap m w = None \<and> w \<notin> set (mt_list m) \<and> mt_list b = mt_list m @ [w] \<and>
              worker_heap b = (worker_heap m)(w \<mapsto> new_worker ch)) \<and>
            numavail b = numavail m + 1 \<and> numworker b = numworker m + 1 \<and> tally w_idle b True = tally w_idle m True + 1)"
        using start_thread_step [OF p(1,2)] by metis
      then have "err = 0" using av by (simp add: available_def)
      then show ?thesis using ms Starts b e av by (auto simp: main_step_def available_def same_loop_def same_limits_def)
    next
      case (Joining w)
      obtain x where x: "worker_heap m w = Some x" using mt_ok_parts(1,4) [OF ok] Joining by (auto simp: main_ok_def listed_def)
      obtain b where b: "free_worker w (m\<lparr>mt_list := remove1 w (mt_list m)\<rparr>) = Some b" "numavail b = numavail m" "numworker b = numworker m"
          "mt_answers b = mt_answers m" "max_idle b = max_idle m" "max_threads b = max_threads m" "mt_exit b = mt_exit m"
        by (rule free_worker_step [OF mt_ok_parts(1,2) [OF ok] x, of m]) auto
      then have "m' = b\<lparr>main_pc := Joins\<rparr>" using ms Joining by (simp add: main_step_def fuse_join_worker_def)
      then show ?thesis using b Joining by (intro same) (simp_all add: running_def)
    qed (intro same; use ms in \<open>auto simp: main_step_def running_def loop_ends_def split: list.splits main_pc.splits\<close>)+
  next
    case Exit_signal
    then show ?thesis using a by (intro same) (auto simp: running_def split: main_pc.splits)
  next
    case Interrupted
    then show ?thesis using a True by (intro same) (auto simp: running_def)
  qed
qed

section \<open>Runs\<close>

text \<open>No signal arrives between the test and \<open>sem_wait\<close>; every turn of a run can be taken; and the turns for
  which neither the kernel nor a signal is needed.\<close>

fun signals_early :: "turn list \<Rightarrow> fuse_mt \<Rightarrow> bool" where
  "signals_early [] m = True"
| "signals_early (e # es) m = ((e = Exit_signal \<longrightarrow> main_pc m \<noteq> Enters) \<and>
     (case take_turn e m of None \<Rightarrow> True | Some m1 \<Rightarrow> signals_early es m1))"

fun effective :: "turn list \<Rightarrow> fuse_mt \<Rightarrow> bool" where
  "effective [] m = True"
| "effective (e # es) m = (can e m \<and> (case take_turn e m of None \<Rightarrow> False | Some m1 \<Rightarrow> effective es m1))"

definition own_turn :: "turn \<Rightarrow> bool" where
  "own_turn e \<longleftrightarrow> (case e of Receives w r \<Rightarrow> False | Interrupted \<Rightarrow> False | Exit_signal \<Rightarrow> False | _ \<Rightarrow> True)"

lemma ended_stays:
  assumes "mt_ok m" "main_pc m = Ended err"
  shows "\<not> can e m"
proof -
  have "worker_heap m w = None" for w using assms by (auto simp: mt_ok_def main_ok_def listed_def)
  then show ?thesis using assms(2) by (cases e) (simp_all add: pc_of_def)
qed

lemma turns_ok: "mt_ok m \<Longrightarrow> take_turns es m = Some m' \<Longrightarrow> mt_ok m'"
  using mt_events.takes_all [where s = m and es = es] by auto

lemma awake_run:
  "take_turns es m = Some m' \<Longrightarrow> signals_early es m \<Longrightarrow> mt_ok m \<Longrightarrow> awake m \<Longrightarrow> max_idle m = -1 \<Longrightarrow>
     awake m' \<and> same_limits m m'"
proof (induction es arbitrary: m)
  case Nil
  then show ?case by (simp add: same_limits_def)
next
  case (Cons e es)
  then obtain m1 where m1: "take_turn e m = Some m1" "take_turns es m1 = Some m'" by (auto simp: bind_eq_Some_conv)
  have l: "e = Exit_signal \<longrightarrow> main_pc m \<noteq> Enters" "signals_early es m1" using Cons.prems(2) m1(1) by simp_all
  have k: "awake m1 \<and> same_limits m m1" by (rule turn_awake [OF Cons.prems(3,4,5) l(1) m1(1)])
  have "mt_ok m1" using turn_ok [OF Cons.prems(3), of e] m1(1) by auto
  then show ?case using Cons.IH [OF m1(2) l(2)] k Cons.prems(5) by (auto simp: same_limits_def)
qed

lemma available_run:
  "take_turns es m = Some m' \<Longrightarrow> mt_ok m \<Longrightarrow> available m \<Longrightarrow> max_idle m = -1 \<or> 0 < max_idle m \<Longrightarrow> available m' \<and> same_limits m m'"
proof (induction es arbitrary: m)
  case Nil
  then show ?case by (simp add: same_limits_def)
next
  case (Cons e es)
  then obtain m1 where m1: "take_turn e m = Some m1" "take_turns es m1 = Some m'" by (auto simp: bind_eq_Some_conv)
  have k: "available m1 \<and> same_limits m m1" by (rule available_turn [OF Cons.prems(2,3,4) m1(1)])
  have "mt_ok m1" using turn_ok [OF Cons.prems(2), of e] m1(1) by auto
  then show ?case using Cons.IH [OF m1(2)] k Cons.prems(4) by (auto simp: same_limits_def)
qed

lemma own_next:
  assumes ok: "mt_ok m" and aw: "awake m" and ex: "exited (mt_se m)" and ne: "\<And>err. main_pc m \<noteq> Ended err"
  shows "\<exists>e. own_turn e \<and> can e m"
proof -
  note p = mt_ok_parts [OF ok]
  have worker: "\<exists>e. own_turn e \<and> can e m" if "worker_heap m w = Some x" "w_pc x \<noteq> Reading" "w_pc x \<noteq> Over" for w x
  proof (cases "w_pc x")
    case (Serving f)
    then show ?thesis using that by (intro exI [of _ "Serves w False"]) (simp add: own_turn_def pc_of_def)
  qed (use that in \<open>auto intro!: exI [of _ "Worker w"] simp: own_turn_def pc_of_def\<close>)
  have main: "\<exists>e. own_turn e \<and> can e m" if "can Main m" using that by (intro exI [of _ Main]) (simp add: own_turn_def)
  show ?thesis
  proof (cases "main_pc m")
    case Waits
    then show ?thesis using aw ex worker main by (auto simp: awake_def)
  next
    case (Joining w)
    then obtain x where x: "worker_heap m w = Some x" "w_cancel x" using p(1,4) by (auto simp: main_ok_def listed_def)
    show ?thesis
    proof (cases "w_pc x = Reading")
      case True
      then show ?thesis using x by (intro exI [of _ "Cancelled w False"]) (simp add: own_turn_def)
    next
      case False
      then show ?thesis using worker [OF x(1)] main Joining x by (cases "w_pc x = Over") (auto simp: pc_of_def)
    qed
  qed (use main ne in auto)
qed

lemma runs_to_end:
  "mt_ok m \<Longrightarrow> awake m \<Longrightarrow> max_idle m = -1 \<Longrightarrow> exited (mt_se m) \<or> (\<exists>err. main_pc m = Ended err) \<Longrightarrow>
     \<exists>ts m' err. effective ts m \<and> (\<forall>e \<in> set ts. own_turn e) \<and> take_turns ts m = Some m' \<and> main_pc m' = Ended err"
proof (induction "work_left m" arbitrary: m rule: less_induct)
  case less
  show ?case
  proof (cases "\<exists>err. main_pc m = Ended err")
    case True
    then show ?thesis by (intro exI [of _ "[]"]) auto
  next
    case False
    then have ex: "exited (mt_se m)" using less.prems(4) by blast
    obtain e where e: "own_turn e" "can e m" using own_next [OF less.prems(1,2) ex] False by blast
    obtain m1 where m1: "take_turn e m = Some m1" "mt_ok m1" using turn_ok [OF less.prems(1)] by blast
    have ne: "e \<noteq> Exit_signal" using e(1) by (auto simp: own_turn_def)
    have g: "goes_on m m1" by (rule turn_on [OF less.prems(1) ex e(2) ne m1(1)])
    have a: "awake m1 \<and> same_limits m m1" by (rule turn_awake [OF less.prems(1,2,3) _ m1(1)]) (use ne in simp)
    have "\<exists>ts m' err. effective ts m1 \<and> (\<forall>e \<in> set ts. own_turn e) \<and> take_turns ts m1 = Some m' \<and> main_pc m' = Ended err"
      by (rule less.hyps) (use g a m1(2) less.prems(3) in \<open>auto simp: goes_on_def same_limits_def\<close>)
    then obtain ts m' err where "effective ts m1" "\<forall>e \<in> set ts. own_turn e" "take_turns ts m1 = Some m'" "main_pc m' = Ended err"
      by blast
    then show ?thesis using e m1(1) by (intro exI [of _ "e # ts"] exI [of _ m'] exI [of _ err]) simp
  qed
qed

lemma run_bounded:
  "mt_ok m \<Longrightarrow> exited (mt_se m) \<or> (\<exists>err. main_pc m = Ended err) \<Longrightarrow> effective ts m \<Longrightarrow> Exit_signal \<notin> set ts \<Longrightarrow> length ts \<le> work_left m"
proof (induction ts arbitrary: m)
  case (Cons e ts)
  obtain m1 where m1: "take_turn e m = Some m1" "effective ts m1" "can e m" using Cons.prems(3) by (auto split: option.splits)
  have "exited (mt_se m)" using Cons.prems(1,2) ended_stays m1(3) by blast
  then have g: "goes_on m m1" using turn_on [OF Cons.prems(1) _ m1(3) _ m1(1)] Cons.prems(4) by auto
  have "mt_ok m1" using turn_ok [OF Cons.prems(1), of e] m1(1) by auto
  then have "length ts \<le> work_left m1" using Cons.IH [OF _ _ m1(2)] Cons.prems(4) g by (auto simp: goes_on_def)
  then show ?case using g by (simp add: goes_on_def)
qed simp

lemma ended_clean:
  assumes "mt_ok m" "main_pc m = Ended err"
  shows "mt_list m = [] \<and> worker_heap m = Map.empty \<and> mt_bufs m = [] \<and> (\<forall>c. chan_ctr (mt_se m) c = 0)"
proof -
  note p = mt_ok_parts [OF assms(1)]
  have l: "mt_list m = []" using p(4) assms(2) by (simp add: main_ok_def)
  have "a \<notin> set (mt_bufs m)" for a
    using p(2) l count_list_pos [of "mt_bufs m" a] by (cases "a = 0") (auto simp: accounted_def tally_def)
  then have "mt_bufs m = []" by (cases "mt_bufs m") auto
  then show ?thesis using p(1,2) l by (auto simp: listed_def accounted_def tally_def)
qed

section \<open>Properties\<close>

text \<open>
  C11. In every interleaving of the threads, their requests, cancellations and signals, and whatever
  allocations, clones of the device and creations of threads fail, nothing that was freed is touched again;
  each worker that has not been collected is on the list once; each buffer and each channel belongs to one of
  them; until the loop stops, the counters are the numbers of workers and of idle ones, and there are no more
  workers than allowed.  When the loop has returned, all of it has been given back.
\<close>
theorem workers_in_order:
  assumes "\<And>c. chan_ctr s c = 0"
  shows "\<exists>m. take_turns es (mt_init s cfg ans) = Some m \<and> distinct (mt_list m) \<and> set (mt_list m) = dom (worker_heap m) \<and>
    (\<forall>a. a \<noteq> 0 \<longrightarrow> count_list (mt_bufs m) a = tally w_mem m a) \<and> (\<forall>c. chan_ctr (mt_se m) c = tally w_ch m (Some c)) \<and>
    (\<not> mt_exit m \<longrightarrow> numworker m = int (length (mt_list m)) \<and> numavail m = int (tally w_idle m True) \<and>
       numworker m \<le> max 1 (max_threads m)) \<and>
    (\<forall>err. main_pc m = Ended err \<longrightarrow> worker_heap m = Map.empty \<and> mt_bufs m = [] \<and> (\<forall>c. chan_ctr (mt_se m) c = 0))"
proof -
  have "mt_ok (mt_init s cfg ans)" by (rule init_ok [OF assms])
  then obtain m where m: "take_turns es (mt_init s cfg ans) = Some m" "mt_ok m"
    using mt_events.takes_all [where s = "mt_init s cfg ans" and es = es] by auto
  note p = mt_ok_parts [OF m(2)]
  show ?thesis using m(1) p(1,2,3) ended_clean [OF m(2)]
    by (intro exI [of _ m]) (auto simp: listed_def accounted_def in_count_def)
qed

text \<open>
  C12. The loop returns.  With threads that are never ended for being idle, as in the default configuration,
  and unless a signal arrives just between the test and \<open>sem_wait\<close>: once the session has exited, whoever
  told it so, the threads can bring the loop to its end by themselves, needing no further request and no
  signal, all workers, buffers and channels are then given back, and however they are scheduled, and whatever
  requests are still read, they take no more than \<open>work_left\<close> turns.
\<close>
theorem exited_loop_returns:
  assumes "\<And>c. chan_ctr s c = 0" "max_idle_threads cfg = - 1" "take_turns es (mt_init s cfg ans) = Some m"
    and "signals_early es (mt_init s cfg ans)" "exited (mt_se m)"
  shows "(\<exists>ts m' err. effective ts m \<and> (\<forall>e \<in> set ts. own_turn e) \<and> take_turns ts m = Some m' \<and> main_pc m' = Ended err \<and>
      worker_heap m' = Map.empty \<and> mt_bufs m' = [] \<and> (\<forall>c. chan_ctr (mt_se m') c = 0)) \<and>
    (\<forall>ts. effective ts m \<and> Exit_signal \<notin> set ts \<longrightarrow> length ts \<le> work_left m)"
proof -
  have ok: "mt_ok (mt_init s cfg ans)" by (rule init_ok [OF assms(1)])
  have "awake (mt_init s cfg ans)" "max_idle (mt_init s cfg ans) = -1" using assms(2) by (simp_all add: awake_def mt_init_def)
  then have aw: "awake m" "max_idle m = -1" using awake_run [OF assms(3,4) ok] by (auto simp: same_limits_def)
  have okm: "mt_ok m" by (rule turns_ok [OF ok assms(3)])
  obtain ts m' err where ts: "effective ts m" "\<forall>e \<in> set ts. own_turn e" "take_turns ts m = Some m'" "main_pc m' = Ended err"
    using runs_to_end [OF okm aw] assms(5) by blast
  then show ?thesis using ended_clean [OF turns_ok [OF okm ts(3)] ts(4)] run_bounded [OF okm] assms(5) by blast
qed

text \<open>
  C13. Requests find a reader.  While the loop runs and nothing failed that it needs for a new thread, there is
  always a worker that reads, is about to, or only serves a forget, unless as many workers as allowed are
  there; provided idle threads are kept, or more than none of them.
\<close>
theorem requests_find_a_reader:
  assumes "\<And>c. chan_ctr s c = 0" "max_idle_threads cfg = - 1 \<or> 0 < max_idle_threads cfg"
    and "take_turns es (mt_init s cfg []) = Some m" "running m" "\<not> exited (mt_se m)" "numworker m < max_threads m"
  shows "\<exists>w x. worker_heap m w = Some x \<and>
    (w_pc x = Top \<or> w_pc x = Reading \<or> (\<exists>res. w_pc x = Got res) \<or> w_pc x = Serving True \<or> w_pc x = Served True)"
proof -
  have ok: "mt_ok (mt_init s cfg [])" by (rule init_ok [OF assms(1)])
  have "available (mt_init s cfg [])" by (simp add: available_def running_def mt_init_def)
  then have "available m" using available_run [OF assms(3) ok] assms(2) by (simp add: mt_init_def)
  then have "0 < numavail m" using assms(4,6) by (auto simp: available_def)
  note p = mt_ok_parts [OF turns_ok [OF ok assms(3)]]
  have "0 < tally w_idle m True" using p(3) assms(4) \<open>0 < numavail m\<close> by (simp add: in_count_def running_def)
  then obtain w where w: "w \<in> set (mt_list m)" "w_idle (the (worker_heap m w))" unfolding tally_def count_list_pos by auto
  then obtain x where x: "worker_heap m w = Some x" "w_idle x" using p(1) by (auto simp: listed_def)
  then have "w_pc x \<noteq> Leaving" "w_pc x \<noteq> Over" using p(5) [OF x(1)] assms(5) by (auto simp: sound_pc_def)
  then show ?thesis using x by (intro exI [of _ w] exI [of _ x]) (cases "w_pc x"; auto simp: w_idle_def idle_pc_def)
qed

section \<open>Runs in which the loop does not keep to its purpose\<close>

definition loop_cfg :: "int \<Rightarrow> fuse_loop_config" where
  "loop_cfg n = \<lparr>version_id = FUSE_LOOP_MT_V2_IDENTIFIER, cfg_clone_fd = 0, max_idle_threads = n, cfg_max_threads = 10\<rparr>"

definition needs_others :: "fuse_mt \<Rightarrow> bool" where
  "needs_others m \<longleftrightarrow> (\<forall>e. can e m \<longrightarrow> \<not> own_turn e)"

lemma needs_othersI:
  assumes "\<not> can Main m" "\<And>w x. worker_heap m w = Some x \<Longrightarrow> w_pc x = Reading \<and> \<not> w_cancel x"
  shows "needs_others m"
  unfolding needs_others_def own_turn_def using assms
  by (auto simp: pc_of_def split: turn.splits option.splits pc.splits)

lemmas run_simps = take_turn_def main_step_def fuse_loop_start_thread_def take_answer_def worker_chan_def goto_def upd_worker_def
  worker_top_def fuse_session_exited_def stop_session_def pc_of_def mt_init_def loop_cfg_def Let_def fuse_session_exit_def

text \<open>A signal between the test and \<open>sem_wait\<close>: the session has exited, and the main thread waits.\<close>

lemma late_signal_not_noticed:
  assumes "\<not> exited s"
  shows "\<exists>m. take_turns [Main, Worker 1, Main, Exit_signal, Main] (mt_init s (loop_cfg (- 1)) []) = Some m \<and>
    exited (mt_se m) \<and> main_pc m = Waits \<and> needs_others m"
proof -
  let ?x = "\<lparr>w_pc = Reading, w_fbuf = no_buf, w_data = [], w_ch = None, w_cancel = False\<rparr>"
  obtain m where "take_turns [Main, Worker 1, Main, Exit_signal, Main] (mt_init s (loop_cfg (- 1)) []) = Some m"
      "exited (mt_se m)" "main_pc m = Waits" "mt_finish m = 0" "worker_heap m = [1 \<mapsto> ?x]"
    using assms by (simp add: run_simps)
  then show ?thesis by (intro exI [of _ m]) (auto intro!: needs_othersI split: if_splits)
qed

text \<open>
  With threads that are ended when they are idle: the worker whose request told the session to exit is ended
  without a post of the semaphore, and the others read.
\<close>

definition large_request :: receipt where
  "large_request = \<lparr>rc_res = 5000, rc_alloc = False, rc_fd = True, rc_data = [], rc_stop = False\<rparr>"

definition forget_request :: receipt where
  "forget_request = \<lparr>rc_res = 48, rc_alloc = True, rc_fd = False, rc_data = w32 48 @ w32 FUSE_FORGET @ replicate 40 0, rc_stop = False\<rparr>"

lemma forget_opcode: "u32_at (w32 48 @ w32 2 @ replicate 40 0) 4 = Some 2"
  using u32_at_skip [of "w32 48" 4 "w32 2 @ replicate 40 0"] by (simp add: u32_at_here)

lemmas more_run_simps = run_simps forget_opcode numeral_2_eq_2 worker_receive_def own_fbuf_def worker_result_def isforget_def worker_serve_def worker_back_def
  free_worker_def free_buffer_def put_worker_chan_def fuse_chan_put_def proper_receipt_def EINTR_def IN_HEADER_SIZE_def
  large_request_def forget_request_def no_buf_def

lemma exit_of_idle_worker_not_noticed:
  assumes "\<not> exited s"
  shows "\<exists>m. take_turns [Main, Main, Main, Worker 1, Receives 1 large_request, Worker 1, Worker 2, Serves 1 True, Worker 1]
        (mt_init s (loop_cfg 0) []) = Some m \<and>
    exited (mt_se m) \<and> main_pc m = Waits \<and> needs_others m"
proof -
  let ?x = "\<lparr>w_pc = Reading, w_fbuf = no_buf, w_data = [], w_ch = None, w_cancel = False\<rparr>"
  obtain m where "take_turns [Main, Main, Main, Worker 1, Receives 1 large_request, Worker 1, Worker 2, Serves 1 True, Worker 1]
        (mt_init s (loop_cfg 0) []) = Some m"
      "exited (mt_se m)" "main_pc m = Waits" "mt_finish m = 0" "worker_heap m = [2 \<mapsto> ?x]"
    using assms by (simp add: more_run_simps)
  then show ?thesis by (intro exI [of _ m]) (auto intro!: needs_othersI split: if_splits)
qed

text \<open>
  With no idle thread to be kept, a forget, which is not counted as work, ends the last worker that reads:
  no request is read until the one that is processed has been, although more workers are allowed.
\<close>

lemma forget_ends_last_reader:
  assumes "\<not> exited s"
  shows "\<exists>m. take_turns [Main, Worker 1, Receives 1 large_request, Worker 1, Worker 2, Receives 2 forget_request, Worker 2,
        Serves 2 False, Worker 2] (mt_init s (loop_cfg 0) []) = Some m \<and>
    running m \<and> \<not> exited (mt_se m) \<and> numworker m < max_threads m \<and>
    (\<forall>w x. worker_heap m w = Some x \<longrightarrow> w_pc x = Serving False)"
proof -
  obtain m x where "take_turns [Main, Worker 1, Receives 1 large_request, Worker 1, Worker 2, Receives 2 forget_request, Worker 2,
        Serves 2 False, Worker 2] (mt_init s (loop_cfg 0) []) = Some m"
      "running m" "\<not> exited (mt_se m)" "numworker m < max_threads m" "worker_heap m = [1 \<mapsto> x]" "w_pc x = Serving False"
    using assms by (simp add: more_run_simps running_def FUSE_FORGET_def [unfolded numeral_2_eq_2] FUSE_FORGET_def)
  then show ?thesis by (intro exI [of _ m]) (auto split: if_splits)
qed

theorem workers_in_order_witness:
  "\<exists>m. take_turns [Main, Worker 1, Receives 1 large_request, Worker 1] (mt_init demo_session (loop_cfg 0) [True, True, False]) = Some m \<and>
    numworker m = int (length (mt_list m))"
proof -
  have "\<exists>m. take_turns [Main, Worker 1, Receives 1 large_request, Worker 1] (mt_init demo_session (loop_cfg 0) [True, True, False]) = Some m \<and>
     \<not> mt_exit m" by (simp add: more_run_simps demo_session_def)
  then show ?thesis
    using workers_in_order [of demo_session "[Main, Worker 1, Receives 1 large_request, Worker 1]" "loop_cfg 0" "[True, True, False]"]
    by (auto simp: demo_session_def)
qed

theorem exited_loop_returns_witness:
  "\<exists>m ts m' err. take_turns [Main, Worker 1, Exit_signal] (mt_init demo_session (loop_cfg (- 1)) []) = Some m \<and>
     take_turns ts m = Some m' \<and> main_pc m' = Ended err \<and> worker_heap m' = Map.empty"
proof -
  have "\<not> exited demo_session" "\<And>c. chan_ctr demo_session c = 0" by (simp_all add: demo_session_def)
  moreover from this obtain m where m: "take_turns [Main, Worker 1, Exit_signal] (mt_init demo_session (loop_cfg (- 1)) []) = Some m"
      "exited (mt_se m)" "signals_early [Main, Worker 1, Exit_signal] (mt_init demo_session (loop_cfg (- 1)) [])"
    by (simp add: run_simps)
  ultimately show ?thesis
    using exited_loop_returns [of demo_session "loop_cfg (- 1)" "[Main, Worker 1, Exit_signal]" "[]" m] by (auto simp: loop_cfg_def)
qed

theorem requests_find_a_reader_witness:
  "\<exists>m w x. take_turns [Main, Worker 1, Receives 1 large_request, Worker 1] (mt_init demo_session (loop_cfg (- 1)) []) = Some m \<and>
     worker_heap m w = Some x \<and> w_pc x \<noteq> Serving False"
proof -
  have "\<not> exited demo_session" "\<And>c. chan_ctr demo_session c = 0" by (simp_all add: demo_session_def)
  moreover from this obtain m where m: "take_turns [Main, Worker 1, Receives 1 large_request, Worker 1] (mt_init demo_session (loop_cfg (- 1)) []) = Some m"
      "running m" "\<not> exited (mt_se m)" "numworker m < max_threads m"
    by (simp add: more_run_simps running_def)
  ultimately show ?thesis
    using requests_find_a_reader [of demo_session "loop_cfg (- 1)" "[Main, Worker 1, Receives 1 large_request, Worker 1]" m]
    by (fastforce simp: loop_cfg_def)
qed

end
