(* ===== verification/Posix.thy ===== *)
theory Posix
  imports Prelude
begin

text \<open>
  What the set-up code needs of the C library and of Linux: numbers in text, descriptors, and the system calls
  of a process.  A call that makes a descriptor gives out the lowest number that is not in use, as POSIX has
  it.  Whether a call succeeds is up to the system: the answers still to come are in \<open>os_answers\<close>, 0 for
  success or an error number, all successes when the list is used up; and what the process asked for that
  shows outside is in \<open>os_log\<close>.
\<close>

section \<open>Numbers in text\<close>

definition digit_of :: "char \<Rightarrow> nat option" where
  "digit_of c =
     (let n = of_char c in
      if 48 \<le> n \<and> n \<le> 57 then Some (n - 48)
      else if 97 \<le> n \<and> n \<le> 122 then Some (n - 87)
      else if 65 \<le> n \<and> n \<le> 90 then Some (n - 55)
      else None)"

fun digits :: "nat \<Rightarrow> nat \<Rightarrow> string \<Rightarrow> nat \<times> string" where
  "digits b acc [] = (acc, [])"
| "digits b acc (c # s) =
     (case digit_of c of
        Some d \<Rightarrow> if d < b then digits b (acc * b + d) s else (acc, c # s)
      | None \<Rightarrow> (acc, c # s))"

definition is_digit :: "nat \<Rightarrow> char \<Rightarrow> bool" where
  "is_digit b c \<longleftrightarrow> (case digit_of c of Some d \<Rightarrow> d < b | None \<Rightarrow> False)"

definition isspace :: "char \<Rightarrow> bool" where
  "isspace c \<longleftrightarrow> (let n = of_char c :: nat in n = 32 \<or> 9 \<le> n \<and> n \<le> 13)"

definition base_of :: "nat \<Rightarrow> string \<Rightarrow> nat \<times> string" where
  "base_of b s =
     (if (b = 0 \<or> b = 16) \<and> char_at s 0 = CHR ''0'' \<and> (char_at s 1 = CHR ''x'' \<or> char_at s 1 = CHR ''X'') \<and> is_digit 16 (char_at s 2)
      then (16, drop 2 s)
      else (if b = 0 then if char_at s 0 = CHR ''0'' then 8 else 10 else b, s))"

text \<open>\<open>strtoul\<close>: the value and the rest of the text; nothing is taken when there are no digits.\<close>

definition strtoul :: "nat \<Rightarrow> string \<Rightarrow> nat \<times> string" where
  "strtoul b s =
     (let s1 = dropWhile isspace s;
          neg = (char_at s1 0 = CHR ''-'');
          s2 = (if neg \<or> char_at s1 0 = CHR ''+'' then drop 1 s1 else s1);
          (b1, s3) = base_of b s2;
          (v, rest) = digits b1 0 s3 in
      if \<not> is_digit b1 (char_at s3 0) then (0, s)
      else (if 2 ^ 64 \<le> v then 2 ^ 64 - 1 else if neg then (2 ^ 64 - v) mod 2 ^ 64 else v, rest))"

definition to_int32 :: "nat \<Rightarrow> int" where
  "to_int32 n = sint (word_of_nat n :: 32 word)"

fun dec :: "nat \<Rightarrow> string" where
  "dec n = (if n < 10 then [] else dec (n div 10)) @ [char_of (48 + n mod 10 :: nat)]"

declare dec.simps [simp del]

definition dec_int :: "int \<Rightarrow> string" where
  "dec_int i = (if i < 0 then ''-'' else []) @ dec (nat \<bar>i\<bar>)"

fun oct :: "nat \<Rightarrow> string" where
  "oct n = (if n < 8 then [] else oct (n div 8)) @ [char_of (48 + n mod 8 :: nat)]"

declare oct.simps [simp del]

lemma digit_of_dec: "n < 10 \<Longrightarrow> digit_of (char_of (48 + n :: nat)) = Some n"
  by (simp add: digit_of_def Let_def)

lemma digits_append:
  "\<forall>c \<in> set s. is_digit b c \<Longrightarrow> digits b a (s @ t) = digits b (fst (digits b a s)) t"
  by (induction s arbitrary: a) (auto simp: is_digit_def split: option.splits)

lemma dec_digits: "\<forall>c \<in> set (dec n). is_digit 10 c"
proof (induction n rule: dec.induct)
  case (1 n)
  then show ?case by (subst dec.simps) (auto simp: is_digit_def digit_of_dec)
qed

lemma digits_dec: "digits 10 0 (dec n) = (n, [])"
proof (induction n rule: dec.induct)
  case (1 n)
  have d: "digit_of (char_of (48 + n mod 10 :: nat)) = Some (n mod 10)" by (rule digit_of_dec) simp
  show ?case
  proof (cases "n < 10")
    case True
    then show ?thesis by (subst dec.simps) (use d in simp)
  next
    case False
    then show ?thesis using 1 by (subst dec.simps) (simp add: digits_append [OF dec_digits] d)
  qed
qed

lemma dec_not_Nil [simp]: "dec n \<noteq> []"
  by (subst dec.simps) simp

lemma digits_stop: "\<not> is_digit b (char_at t 0) \<Longrightarrow> digits b a t = (a, t)"
  by (cases t) (auto simp: is_digit_def split: option.splits)

lemma dec_zero: "char_at (dec n) 0 = CHR ''0'' \<Longrightarrow> n = 0"
proof (induction n rule: dec.induct)
  case (1 n)
  have "dec n = (if n < 10 then [] else dec (n div 10)) @ [char_of (48 + n mod 10 :: nat)]" by (rule dec.simps)
  moreover have "(char_of (48 + n mod 10 :: nat) :: char) = CHR ''0'' \<Longrightarrow> n mod 10 = 0"
    using digit_of_dec [of "n mod 10"] by (auto simp: digit_of_def)
  moreover have "char_at (dec (n div 10) @ [c]) 0 = char_at (dec (n div 10)) 0" for c by simp
  ultimately show ?case using 1 by (cases "n < 10") (auto simp: char_at_def)
qed

text \<open>Printing a number and reading it back, in base 10 or with the base found out.\<close>

lemma strtoul_dec:
  assumes "n < 2 ^ 64" "\<not> is_digit 10 (char_at t 0)" "b = 10 \<or> b = 0 \<and> (n = 0 \<longrightarrow> t = [] \<or> char_at t 0 = CHR '' '' \<or> char_at t 0 = CHR 0x0A)"
  shows "strtoul b (dec n @ t) = (n, t)"
proof -
  obtain c cs where dn: "dec n = c # cs" using dec_not_Nil by (cases "dec n") auto
  have c: "is_digit 10 c" using dec_digits [of n] dn by simp
  then have sp: "\<not> isspace c" "c \<noteq> CHR ''-''" "c \<noteq> CHR ''+''"
    by (auto simp: is_digit_def digit_of_def isspace_def Let_def split: if_splits)
  have dg: "digits 10 0 (dec n @ t) = (n, t)" using digits_append [OF dec_digits, of 0 n t] digits_stop [OF assms(2)] by (simp add: digits_dec)
  consider "b = 10" | "b = 0" "n \<noteq> 0" | "b = 0" "n = 0" using assms(3) by blast
  then show ?thesis
  proof cases
    case 1
    then show ?thesis using dg dn sp c assms(1) by (simp add: strtoul_def base_of_def Let_def)
  next
    case 2
    then have "c \<noteq> CHR ''0''" using dec_zero [of n] dn by auto
    then show ?thesis using 2 dg dn sp c assms(1) by (simp add: strtoul_def base_of_def Let_def)
  next
    case 3
    have "(char_of (48 :: nat) :: char) = CHR ''0''" by code_simp
    then have "dec n = ''0''" using 3 by (simp add: dec.simps)
    moreover have "\<not> is_digit 8 (char_at t 0)" using assms(2) by (auto simp: is_digit_def split: option.splits)
    moreover have "char_at (''0'' @ t) 1 \<noteq> CHR ''x''" "char_at (''0'' @ t) 1 \<noteq> CHR ''X''" using 3 assms(3) by (auto simp: char_at_def split: if_splits)
    ultimately show ?thesis using 3 digits_stop [of 8 t 0]
      by (simp add: strtoul_def base_of_def Let_def isspace_def is_digit_def digit_of_def)
  qed
qed

section \<open>Descriptors and system calls\<close>

datatype os_call =
  Sys_mount string string string int "string option"  \<comment> \<open>source, target, type, flags, data\<close>
| Sys_umount2 string int
| Run "string list" "int option"                      \<comment> \<open>a program, and the descriptor it gets in \<open>_FUSE_COMMFD\<close>\<close>
| Set_fd_flags int int
| Chdir string
| Dup2 int int
| Write int

text \<open>\<open>bad_close\<close> remembers that something was closed that was not open.\<close>

record os =
  os_fds :: "int list"
  os_answers :: "int list"
  os_log :: "os_call list"
  bad_close :: bool
  os_allocs :: allocs

definition os_malloc :: "os \<Rightarrow> bool \<times> os" where
  "os_malloc w = (let (ok, al) = alloc_next (os_allocs w) in (ok, w\<lparr>os_allocs := al\<rparr>))"

definition ask :: "os \<Rightarrow> int \<times> os" where
  "ask w = (case os_answers w of [] \<Rightarrow> (0, w) | a # as \<Rightarrow> (a, w\<lparr>os_answers := as\<rparr>))"

definition log_call :: "os_call \<Rightarrow> os \<Rightarrow> os" where
  "log_call c w = w\<lparr>os_log := os_log w @ [c]\<rparr>"

definition new_fd :: "int list \<Rightarrow> int" where
  "new_fd xs = (case find (\<lambda>n. int n \<notin> set xs) [0..<Suc (length xs)] of Some n \<Rightarrow> int n | None \<Rightarrow> 0)"

definition add_fd :: "os \<Rightarrow> int \<times> os" where
  "add_fd w = (let f = new_fd (os_fds w) in (f, w\<lparr>os_fds := f # os_fds w\<rparr>))"

text \<open>The result, the value of \<open>errno\<close> when it is -1, and the system after it.\<close>

definition os_open :: "string \<Rightarrow> os \<Rightarrow> int \<times> int \<times> os" where
  "os_open path w =
     (let (e, w1) = ask w in
      if e \<noteq> 0 then (-1, e, w1) else let (f, w2) = add_fd w1 in (f, 0, w2))"

definition os_close :: "int \<Rightarrow> os \<Rightarrow> os" where
  "os_close f w = (if f \<in> set (os_fds w) then w\<lparr>os_fds := remove1 f (os_fds w)\<rparr> else w\<lparr>bad_close := True\<rparr>)"

text \<open>\<open>socketpair\<close> and \<open>pipe\<close>: two descriptors.\<close>

definition os_pair :: "os \<Rightarrow> (int \<times> int) option \<times> os" where
  "os_pair w =
     (let (e, w1) = ask w in
      if e \<noteq> 0 then (None, w1)
      else let (f, w2) = add_fd w1; (g, w3) = add_fd w2 in (Some (f, g), w3))"

text \<open>A call that only succeeds or fails: 0 or -1, and \<open>errno\<close>.\<close>

definition os_try :: "os \<Rightarrow> int \<times> int \<times> os" where
  "os_try w = (let (e, w1) = ask w in (if e = 0 then 0 else -1, e, w1))"

text \<open>The parent's view of \<open>fork\<close>: -1, or the number of the child.\<close>

definition os_fork :: "os \<Rightarrow> int \<times> os" where
  "os_fork w = (let (e, w1) = ask w in (if 0 < e then -1 else if e = 0 then 1 else - e, w1))"

text \<open>What the machine is and has, which stays as it is meanwhile.\<close>

record host =
  h_uid :: nat
  h_gid :: nat
  h_euid :: nat
  h_mode :: "string \<Rightarrow> nat"                   \<comment> \<open>\<open>st_mode\<close> of a path\<close>
  h_realpath :: "string \<Rightarrow> string option"
  h_glibc :: bool                             \<comment> \<open>the library is compiled for glibc\<close>
  h_filesystems :: "string list"              \<comment> \<open>what \<open>fgets\<close> reads from \<open>/proc/filesystems\<close>\<close>

definition fds_ok :: "os \<Rightarrow> bool" where
  "fds_ok w \<longleftrightarrow> distinct (os_fds w) \<and> (\<forall>f \<in> set (os_fds w). 0 \<le> f) \<and> \<not> bad_close w"

text \<open>What every call leaves alone, and what one that makes and closes no descriptors does.\<close>

definition calm :: "os \<Rightarrow> os \<Rightarrow> bool" where
  "calm w w' \<longleftrightarrow> bad_close w' = bad_close w \<and> (os_allocs w = [] \<longrightarrow> os_allocs w' = []) \<and> set (os_answers w') \<subseteq> set (os_answers w)"

definition same_fds :: "os \<Rightarrow> os \<Rightarrow> bool" where
  "same_fds w w' \<longleftrightarrow> calm w w' \<and> os_fds w' = os_fds w"

lemma same_fds_refl [simp]: "same_fds w w" by (simp add: same_fds_def calm_def)

lemma calm_trans: "calm a b \<Longrightarrow> calm b c \<Longrightarrow> calm a c" by (auto simp: calm_def)

lemma same_fds_trans: "same_fds a b \<Longrightarrow> same_fds b c \<Longrightarrow> same_fds a c" by (auto simp: same_fds_def intro: calm_trans)

lemma same_fdsD: "same_fds a b \<Longrightarrow> calm a b" "same_fds a b \<Longrightarrow> os_fds b = os_fds a" by (simp_all add: same_fds_def)

lemma new_fd_find: "\<exists>n. find (\<lambda>n. int n \<notin> set xs) [0..<Suc (length xs)] = Some n"
proof (rule ccontr)
  assume "\<nexists>n. find (\<lambda>n. int n \<notin> set xs) [0..<Suc (length xs)] = Some n"
  then have "find (\<lambda>n. int n \<notin> set xs) [0..<Suc (length xs)] = None" by simp
  then have "\<forall>n < Suc (length xs). int n \<in> set xs" unfolding find_None_iff by (simp del: upt_Suc)
  then have "int ` {0..<Suc (length xs)} \<subseteq> set xs" by auto
  then have "card (int ` {0..<Suc (length xs)}) \<le> card (set xs)" by (simp add: card_mono)
  then show False using card_length [of xs] by (simp add: card_image inj_on_def)
qed

lemma new_fd_ok: "new_fd xs \<notin> set xs" "0 \<le> new_fd xs" "0 \<le> f \<Longrightarrow> f < new_fd xs \<Longrightarrow> f \<in> set xs"
proof -
  obtain n where n: "find (\<lambda>n. int n \<notin> set xs) [0..<Suc (length xs)] = Some n" using new_fd_find by blast
  then obtain i where i: "i < Suc (length xs)" "int n \<notin> set xs" "n = [0..<Suc (length xs)] ! i"
    "\<forall>j < i. int ([0..<Suc (length xs)] ! j) \<in> set xs" unfolding find_Some_iff by auto
  then have "n = i" by (metis add_0 nth_upt)
  have j: "\<forall>j < i. int j \<in> set xs" using i(1,4) by (metis add_0 nth_upt less_trans)
  show "new_fd xs \<notin> set xs" "0 \<le> new_fd xs" using i(2) by (simp_all add: new_fd_def n del: upt_Suc)
  assume "0 \<le> f" "f < new_fd xs"
  then have "nat f < i" by (simp add: new_fd_def n \<open>n = i\<close> del: upt_Suc)
  then show "f \<in> set xs" using j \<open>0 \<le> f\<close> by (metis int_nat_eq)
qed

lemma askD: "ask w = (e, w') \<Longrightarrow> same_fds w w'"
  by (auto simp: ask_def same_fds_def calm_def split: list.splits)

lemma logD [simp]: "same_fds w (log_call c w)"
  by (simp add: log_call_def same_fds_def calm_def)

lemma log_frame [simp]: "os_fds (log_call c w) = os_fds w" "same_fds (log_call c w) w' = same_fds w w'"
  "same_fds w (log_call c w') = same_fds w w'" "calm (log_call c w) w' = calm w w'" "calm w (log_call c w') = calm w w'"
  by (simp_all add: log_call_def same_fds_def calm_def)

lemma os_tryD: "os_try w = (r, e, w') \<Longrightarrow> same_fds w w' \<and> r \<in> {0, -1}"
  by (auto simp: os_try_def Let_def dest!: askD split: prod.splits if_splits)

lemma os_forkD: "os_fork w = (r, w') \<Longrightarrow> same_fds w w'"
  by (auto simp: os_fork_def Let_def dest!: askD split: prod.splits)

lemma os_mallocD: "os_malloc w = (r, w') \<Longrightarrow> same_fds w w' \<and> (os_allocs w = [] \<longrightarrow> r)"
  by (auto simp: os_malloc_def Let_def same_fds_def calm_def split: prod.splits)

lemma add_fdD: "add_fd w = (f, w') \<Longrightarrow> calm w w' \<and> os_fds w' = f # os_fds w \<and> f \<notin> set (os_fds w) \<and> 0 \<le> f"
  using new_fd_ok(1,2) [of "os_fds w"] by (auto simp: add_fd_def Let_def calm_def)

lemma os_openD:
  assumes "os_open p w = (r, e, w')"
  shows "r = -1 \<and> same_fds w w' \<or> calm w w' \<and> os_fds w' = r # os_fds w \<and> r \<notin> set (os_fds w) \<and> 0 \<le> r"
  using assms by (auto simp: os_open_def Let_def same_fdsD dest!: askD add_fdD intro: calm_trans same_fdsD split: prod.splits if_splits)

lemma os_pairD:
  assumes "os_pair w = (z, w')"
  shows "z = None \<and> same_fds w w' \<or>
     (\<exists>f g. z = Some (f, g) \<and> calm w w' \<and> os_fds w' = g # f # os_fds w \<and> f \<noteq> g \<and> f \<notin> set (os_fds w) \<and>
        g \<notin> set (os_fds w) \<and> 0 \<le> f \<and> 0 \<le> g)"
proof (cases "fst (ask w) = 0")
  case True
  obtain f w2 g w3 where f: "add_fd (snd (ask w)) = (f, w2)" "add_fd w2 = (g, w3)" by (metis prod.exhaust)
  then have "z = Some (f, g)" "w' = w3" using assms True by (simp_all add: os_pair_def Let_def split: prod.splits)
  then show ?thesis using add_fdD [OF f(1)] add_fdD [OF f(2)] askD [of w "fst (ask w)" "snd (ask w)"]
    by (auto simp: same_fds_def calm_def)
qed (use assms in \<open>auto simp: os_pair_def Let_def dest!: askD split: prod.splits\<close>)

lemma os_closeD: "f \<in> set (os_fds w) \<Longrightarrow> calm w (os_close f w) \<and> os_fds (os_close f w) = remove1 f (os_fds w)"
  by (simp add: os_close_def calm_def)

section \<open>Searching in text\<close>

definition strrchr :: "string \<Rightarrow> char \<Rightarrow> nat option" where
  "strrchr s c = map_option (\<lambda>i. length s - 1 - i) (strchr (rev s) c)"

definition strstr :: "string \<Rightarrow> string \<Rightarrow> nat option" where
  "strstr s t = find (\<lambda>i. take (length t) (drop i s) = t) [0..<Suc (length s)]"

end
