(* ===== verification/MountUtil.thy ===== *)
theory MountUtil
  imports Posix
begin

text \<open>
  \<open>lib/mount_util.c\<close>: the mount table \<open>/etc/mtab\<close> and the programs that keep it, the absolute path of a mount
  point, and mount points of the form \<open>/dev/fd/N\<close>.  A child process that cannot take its user's identity is
  left out.
\<close>

section \<open>The mount table\<close>

definition EROFS :: int where "EROFS = 30"

definition mtab_needs_update :: "string \<Rightarrow> os \<Rightarrow> bool \<times> os" where
  "mtab_needs_update mnt w =
     (if strprefix mnt ''/etc/mtab'' (length mnt) \<and> char_at ''/etc/mtab'' (length mnt) = CHR ''/'' then (False, w)
      else
        let (e, w1) = ask w in
        if e = ENOENT then (False, w1)
        else if e \<noteq> 0 then (True, w1)
        else
          let (lnk, w2) = ask w1 in
          if lnk \<noteq> 0 then (False, w2)
          else let (err, w3) = ask w2 in (err \<noteq> EROFS, w3))"

text \<open>What \<open>add_mount\<close>, \<open>exec_umount\<close> and \<open>remove_mount\<close> have in common: the program is run with SIGCHLD
  blocked, and its status counts.\<close>

definition run_tool :: "string list \<Rightarrow> os \<Rightarrow> int \<times> os" where
  "run_tool args w =
     (let (res, _, w1) = os_try w in
      if res = -1 then (-1, w1)
      else
        let (pid, w2) = os_fork w1 in
        if pid = -1 then (-1, w2)
        else
          let (res, _, w3) = os_try (log_call (Run args None) w2) in
          if res = -1 then (-1, w3)
          else let (status, w4) = ask w3 in (if status \<noteq> 0 then -1 else pid, w4))"

definition add_mount :: "string \<Rightarrow> string \<Rightarrow> string \<Rightarrow> string \<Rightarrow> os \<Rightarrow> int \<times> os" where
  "add_mount fsname mnt ty mopts w =
     run_tool [''/bin/mount'', ''--no-canonicalize'', ''-i'', ''-f'', ''-t'', ty, ''-o'', mopts, fsname, mnt] w"

definition fuse_mnt_add_mount :: "string \<Rightarrow> string \<Rightarrow> string \<Rightarrow> string \<Rightarrow> os \<Rightarrow> int \<times> os" where
  "fuse_mnt_add_mount fsname mnt ty mopts w =
     (let (upd, w1) = mtab_needs_update mnt w in if \<not> upd then (0, w1) else add_mount fsname mnt ty mopts w1)"

definition exec_umount :: "string \<Rightarrow> bool \<Rightarrow> os \<Rightarrow> int \<times> os" where
  "exec_umount rel_mnt lazy w = run_tool ([''/bin/umount'', ''-i'', rel_mnt] @ (if lazy then [''-l''] else [])) w"

definition fuse_mnt_umount :: "string \<Rightarrow> string \<Rightarrow> bool \<Rightarrow> os \<Rightarrow> int \<times> os" where
  "fuse_mnt_umount abs_mnt rel_mnt lazy w =
     (let (upd, w1) = mtab_needs_update abs_mnt w in
      if \<not> upd then (let (res, _, w2) = os_try (log_call (Sys_umount2 rel_mnt (if lazy then 2 else 0)) w1) in (res, w2))
      else exec_umount rel_mnt lazy w1)"

definition remove_mount :: "string \<Rightarrow> os \<Rightarrow> int \<times> os" where
  "remove_mount mnt w = run_tool [''/bin/umount'', ''--no-canonicalize'', ''-i'', ''--fake'', mnt] w"

definition fuse_mnt_remove_mount :: "string \<Rightarrow> os \<Rightarrow> int \<times> os" where
  "fuse_mnt_remove_mount mnt w =
     (let (upd, w1) = mtab_needs_update mnt w in if \<not> upd then (0, w1) else remove_mount mnt w1)"

section \<open>Mount points\<close>

text \<open>The path without its last component is resolved, unless that is \<open>.\<close> or \<open>..\<close>; slashes at the end do not
  count.\<close>

definition split_mountpoint :: "string \<Rightarrow> string \<times> string option" where
  "split_mountpoint orig =
     (let trimmed = rev (dropWhile (\<lambda>c. c = CHR ''/'') (rev orig)) in
      if trimmed = [] then (orig, None)
      else
        let tmp = strrchr trimmed (CHR ''/'');
            lastcomp = (case tmp of None \<Rightarrow> trimmed | Some i \<Rightarrow> drop (i + 1) trimmed) in
        if lastcomp = ''.'' \<or> lastcomp = ''..'' then (trimmed, None)
        else (case tmp of None \<Rightarrow> ''.'' | Some i \<Rightarrow> if i = 0 then ''/'' else take i trimmed, Some lastcomp))"

definition fuse_mnt_resolve_path :: "host \<Rightarrow> string \<Rightarrow> os \<Rightarrow> string option \<times> os" where
  "fuse_mnt_resolve_path h orig w =
     (if orig = [] then (None, w)
      else
        let (ok, w1) = os_malloc w in
        if \<not> ok then (None, w1)
        else
          let (toresolv, lastcomp) = split_mountpoint orig in
          (case h_realpath h toresolv of
             None \<Rightarrow> (None, w1)
           | Some buf \<Rightarrow>
               let (ok2, w2) = os_malloc w1 in
               if \<not> ok2 then (None, w2)
               else (Some (case lastcomp of
                       None \<Rightarrow> buf
                     | Some c \<Rightarrow> if buf \<noteq> [] \<and> last buf = CHR ''/'' then buf @ c else buf @ ''/'' @ c), w2)))"

definition fuse_mnt_check_fuseblk :: "host \<Rightarrow> os \<Rightarrow> bool \<times> os" where
  "fuse_mnt_check_fuseblk h w =
     (let (f, _, w1) = os_open ''/proc/filesystems'' w in
      if f = -1 then (True, w1)
      else (list_ex (\<lambda>l. strstr l (''fuseblk'' @ [CHR 0x0A]) \<noteq> None) (h_filesystems h), os_close f w1))"

text \<open>\<open>sscanf (mountpoint, "/dev/fd/%u%n", &fd, &len)\<close> that takes all of the text.\<close>

definition fuse_mnt_parse_fuse_fd :: "string \<Rightarrow> int" where
  "fuse_mnt_parse_fuse_fd mountpoint =
     (let s = drop 8 mountpoint; (v, rest) = strtoul 10 s in
      if take 8 mountpoint = ''/dev/fd/'' \<and> s \<noteq> [] \<and> rest = [] then to_int32 v else -1)"

section \<open>Lemmas\<close>

lemma mtab_fds: "mtab_needs_update m w = (r, w') \<Longrightarrow> same_fds w w'"
  by (auto simp: mtab_needs_update_def Let_def dest!: askD intro: same_fds_trans split: prod.splits if_splits)

lemma run_tool_fds: "run_tool a w = (r, w') \<Longrightarrow> same_fds w w'"
  by (auto simp: run_tool_def Let_def dest!: askD os_tryD os_forkD intro: same_fds_trans split: prod.splits if_splits)
    (blast intro: same_fds_trans)+

lemma add_mount_fds: "fuse_mnt_add_mount f m t q w = (r, w') \<Longrightarrow> same_fds w w'"
  by (auto simp: fuse_mnt_add_mount_def add_mount_def Let_def dest!: mtab_fds run_tool_fds split: prod.splits if_splits
      intro: same_fds_trans)

lemma umount_fds: "fuse_mnt_umount a r l w = (x, w') \<Longrightarrow> same_fds w w'"
  by (auto simp: fuse_mnt_umount_def exec_umount_def Let_def dest!: mtab_fds run_tool_fds os_tryD split: prod.splits if_splits
      intro: same_fds_trans)

lemma resolve_fds: "fuse_mnt_resolve_path h p w = (r, w') \<Longrightarrow> same_fds w w'"
  by (auto simp: fuse_mnt_resolve_path_def Let_def dest!: os_mallocD split: prod.splits if_splits option.splits intro: same_fds_trans)

lemma check_fuseblk_fds: "fuse_mnt_check_fuseblk h w = (r, w') \<Longrightarrow> same_fds w w'"
  by (auto simp: fuse_mnt_check_fuseblk_def Let_def same_fds_def os_close_def calm_def dest!: os_openD split: prod.splits if_splits)

text \<open>The descriptor in a mount point is the number that stands there.\<close>

lemma parse_fuse_fd_dec:
  assumes "n < 2 ^ 31"
  shows "fuse_mnt_parse_fuse_fd (''/dev/fd/'' @ dec n) = int n"
proof -
  have "to_int32 n = int n"
    using assms by (simp add: to_int32_def signed_of_nat signed_take_bit_int_eq_self)
  then show ?thesis using strtoul_dec [of n "[]" 10] assms
    by (simp add: fuse_mnt_parse_fuse_fd_def is_digit_def digit_of_def)
qed

text \<open>Slashes at the end of a mount point do not matter, and only the directory above it is resolved.\<close>

lemma resolve_path_ok:
  assumes "os_allocs w = []" "d \<noteq> []" "c \<noteq> []" "CHR ''/'' \<notin> set c" "c \<noteq> ''.''" "c \<noteq> ''..''" "h_realpath h d = Some r"
    "r = [] \<or> last r \<noteq> CHR ''/''" "set sl \<subseteq> {CHR ''/''}"
  shows "fst (fuse_mnt_resolve_path h (d @ ''/'' @ c @ sl) w) = Some (r @ ''/'' @ c)"
proof -
  have "dropWhile (\<lambda>c. c = CHR ''/'') (rev sl @ x) = dropWhile (\<lambda>c. c = CHR ''/'') x" for x
    by (rule dropWhile_append2) (use assms(9) in auto)
  moreover have "dropWhile (\<lambda>c. c = CHR ''/'') (rev c @ x) = rev c @ x" for x
    using assms(3,4) by (cases "rev c") (auto simp: rev_swap)
  ultimately have t: "rev (dropWhile (\<lambda>c. c = CHR ''/'') (rev (d @ ''/'' @ c @ sl))) = d @ ''/'' @ c" by simp
  have "strchr (rev c @ CHR ''/'' # x) (CHR ''/'') = Some (length c)" for x
    using assms(4) by (induction c rule: rev_induct) auto
  then have "strrchr (d @ ''/'' @ c) (CHR ''/'') = Some (length d)" by (simp add: strrchr_def)
  then have "split_mountpoint (d @ ''/'' @ c @ sl) = (d, Some c)"
    unfolding split_mountpoint_def t using assms(2,5,6) by (simp add: Let_def)
  then show ?thesis using assms(1,2,7,8) by (simp add: fuse_mnt_resolve_path_def Let_def os_malloc_def)
qed

end
