(* ===== verification/Mount.thy ===== *)
theory Mount
  imports FuseOpt MountUtil
begin

text \<open>
  \<open>lib/mount.c\<close>: the mount options, and mounting by the system call or with the help of \<open>fusermount3\<close>.

  While the options are parsed, \<open>struct mount_opts\<close> is the parser's map from offsets to values; then it is the
  record \<open>mount_opts\<close>.  A child process only shows by the program it runs, with its arguments and the
  descriptor it gets; that it may write to \<open>/dev/null\<close> is left out.
\<close>

section \<open>Options\<close>

definition MS_RDONLY :: int where "MS_RDONLY = 1"
definition MS_NOSUID :: int where "MS_NOSUID = 2"
definition MS_NODEV :: int where "MS_NODEV = 4"
definition MS_NOEXEC :: int where "MS_NOEXEC = 8"
definition MS_SYNCHRONOUS :: int where "MS_SYNCHRONOUS = 16"
definition MS_DIRSYNC :: int where "MS_DIRSYNC = 128"
definition MS_NOATIME :: int where "MS_NOATIME = 1024"
definition MS_NODIRATIME :: int where "MS_NODIRATIME = 2048"
definition MS_RELATIME :: int where "MS_RELATIME = 0x200000"
definition MS_STRICTATIME :: int where "MS_STRICTATIME = 0x1000000"

lemmas ms_defs = MS_RDONLY_def MS_NOSUID_def MS_NODEV_def MS_NOEXEC_def MS_SYNCHRONOUS_def MS_DIRSYNC_def
  MS_NOATIME_def MS_NODIRATIME_def MS_RELATIME_def MS_STRICTATIME_def

definition KEY_KERN_FLAG :: int where "KEY_KERN_FLAG = 0"
definition KEY_KERN_OPT :: int where "KEY_KERN_OPT = 1"
definition KEY_FUSERMOUNT_OPT :: int where "KEY_FUSERMOUNT_OPT = 2"
definition KEY_SUBTYPE_OPT :: int where "KEY_SUBTYPE_OPT = 3"
definition KEY_MTAB_OPT :: int where "KEY_MTAB_OPT = 4"
definition KEY_RO :: int where "KEY_RO = 6"

lemmas mount_keys = KEY_KERN_FLAG_def KEY_KERN_OPT_def KEY_FUSERMOUNT_OPT_def KEY_SUBTYPE_OPT_def KEY_MTAB_OPT_def KEY_RO_def

record mount_opts =
  mo_allow_other :: int
  mo_flags :: int
  mo_auto_unmount :: int
  mo_blkdev :: int
  mo_fsname :: "string option"
  mo_subtype :: "string option"
  mo_subtype_opt :: "string option"
  mo_mtab_opts :: "string option"
  mo_fusermount_opts :: "string option"
  mo_kernel_opts :: "string option"
  mo_maxread :: int

text \<open>The fields stand at the offsets 0, 4, 8, 12, 16 and so on, 8 bytes for a pointer.\<close>

definition stores_at :: "string \<Rightarrow> u64 \<Rightarrow> fuse_opt" where
  "stores_at t off = \<lparr>templ = t, offset = off, opt_value = 1\<rparr>"

definition key_opt :: "string \<Rightarrow> int \<Rightarrow> fuse_opt" where
  "key_opt t key = \<lparr>templ = t, offset = 0xffffffff, opt_value = key\<rparr>"

definition fuse_mount_opts :: "fuse_opt list" where
  "fuse_mount_opts =
     [stores_at ''allow_other'' 0, stores_at ''blkdev'' 12, stores_at ''auto_unmount'' 8, stores_at ''fsname=%s'' 16,
      stores_at ''max_read=%u'' 64, stores_at ''subtype=%s'' 24,
      key_opt ''allow_other'' KEY_KERN_OPT, key_opt ''auto_unmount'' KEY_FUSERMOUNT_OPT, key_opt ''blkdev'' KEY_FUSERMOUNT_OPT,
      key_opt ''fsname='' KEY_FUSERMOUNT_OPT, key_opt ''subtype='' KEY_SUBTYPE_OPT, key_opt ''blksize='' KEY_KERN_OPT,
      key_opt ''default_permissions'' KEY_KERN_OPT, key_opt ''context='' KEY_KERN_OPT, key_opt ''fscontext='' KEY_KERN_OPT,
      key_opt ''defcontext='' KEY_KERN_OPT, key_opt ''rootcontext='' KEY_KERN_OPT, key_opt ''max_read='' KEY_KERN_OPT,
      key_opt ''user='' KEY_MTAB_OPT, key_opt ''-n'' KEY_MTAB_OPT, key_opt ''-r'' KEY_RO, key_opt ''ro'' KEY_KERN_FLAG,
      key_opt ''rw'' KEY_KERN_FLAG, key_opt ''suid'' KEY_KERN_FLAG, key_opt ''nosuid'' KEY_KERN_FLAG,
      key_opt ''dev'' KEY_KERN_FLAG, key_opt ''nodev'' KEY_KERN_FLAG, key_opt ''exec'' KEY_KERN_FLAG,
      key_opt ''noexec'' KEY_KERN_FLAG, key_opt ''async'' KEY_KERN_FLAG, key_opt ''sync'' KEY_KERN_FLAG,
      key_opt ''dirsync'' KEY_KERN_FLAG, key_opt ''noatime'' KEY_KERN_FLAG, key_opt ''nodiratime'' KEY_KERN_FLAG,
      key_opt ''nostrictatime'' KEY_KERN_FLAG]"

text \<open>Option, flag, and whether the option sets it.\<close>

type_synonym mount_flag = "string \<times> int \<times> bool"

definition mount_flags :: "mount_flag list" where
  "mount_flags =
     [(''rw'', MS_RDONLY, False), (''ro'', MS_RDONLY, True), (''suid'', MS_NOSUID, False), (''nosuid'', MS_NOSUID, True),
      (''dev'', MS_NODEV, False), (''nodev'', MS_NODEV, True), (''exec'', MS_NOEXEC, False), (''noexec'', MS_NOEXEC, True),
      (''async'', MS_SYNCHRONOUS, False), (''sync'', MS_SYNCHRONOUS, True), (''noatime'', MS_NOATIME, True),
      (''nodiratime'', MS_NODIRATIME, True), (''norelatime'', MS_RELATIME, False), (''nostrictatime'', MS_STRICTATIME, False),
      (''dirsync'', MS_DIRSYNC, True)]"

text \<open>An option that is not in the table is an internal error, and the process aborts.\<close>

definition set_mount_flag :: "string \<Rightarrow> int \<Rightarrow> int option" where
  "set_mount_flag s flags =
     (case map_of mount_flags s of
        Some (f, True) \<Rightarrow> Some (or flags f)
      | Some (f, False) \<Rightarrow> Some (and flags (not f))
      | None \<Rightarrow> None)"

definition int_at :: "opt_data \<Rightarrow> u64 \<Rightarrow> int" where
  "int_at d x = (case d x of Some (OInt i) \<Rightarrow> i | _ \<Rightarrow> 0)"

definition str_at :: "opt_data \<Rightarrow> u64 \<Rightarrow> string option" where
  "str_at d x = (case d x of Some (OStr s) \<Rightarrow> Some s | _ \<Rightarrow> None)"

definition add_to :: "bool \<Rightarrow> u64 \<Rightarrow> opt_data \<Rightarrow> string \<Rightarrow> fuse_args \<Rightarrow> allocs \<Rightarrow> (int \<times> opt_data \<times> fuse_args \<times> allocs) option" where
  "add_to esc x d arg out al =
     (let (res, al1, os) = add_opt_common al (str_at d x) arg esc in
      Some (res, case os of None \<Rightarrow> d | Some s \<Rightarrow> d(x \<mapsto> OStr s), out, al1))"

definition fuse_mount_opt_proc :: opt_proc where
  "fuse_mount_opt_proc d arg key out al =
     (if key = KEY_RO \<or> key = KEY_KERN_FLAG then do {
        f \<leftarrow> set_mount_flag (if key = KEY_RO then ''ro'' else arg) (int_at d 4);
        Some (0, d(4 \<mapsto> OInt f), out, al) }
      else if key = KEY_KERN_OPT then add_to False 56 d arg out al
      else if key = KEY_FUSERMOUNT_OPT then add_to True 48 d arg out al
      else if key = KEY_SUBTYPE_OPT then add_to False 32 d arg out al
      else if key = KEY_MTAB_OPT then add_to False 40 d arg out al
      else Some (1, d, out, al))"

definition mount_opts_of :: "opt_data \<Rightarrow> mount_opts" where
  "mount_opts_of d =
     \<lparr>mo_allow_other = int_at d 0, mo_flags = int_at d 4, mo_auto_unmount = int_at d 8, mo_blkdev = int_at d 12,
      mo_fsname = str_at d 16, mo_subtype = str_at d 24, mo_subtype_opt = str_at d 32, mo_mtab_opts = str_at d 40,
      mo_fusermount_opts = str_at d 48, mo_kernel_opts = str_at d 56, mo_maxread = int_at d 64\<rparr>"

text \<open>\<open>sc\<close> is what \<open>sscanf\<close> does.\<close>

definition parse_mount_opts ::
  "allocs \<Rightarrow> (string \<Rightarrow> string \<Rightarrow> opt_var option) \<Rightarrow> fuse_args option \<Rightarrow> (mount_opts option \<times> fuse_args option) option" where
  "parse_mount_opts al sc args =
     (let (ok, al1) = alloc_next al in
      if \<not> ok then Some (None, args)
      else
        let d0 = [4 \<mapsto> OInt (or MS_NOSUID MS_NODEV)] in
        if args = None then Some (Some (mount_opts_of d0), args)
        else do {
          (res, args1, d) \<leftarrow> fuse_opt_parse al1 sc args d0 fuse_mount_opts (Some fuse_mount_opt_proc);
          Some (if res = -1 then None else Some (mount_opts_of d), args1) })"

definition get_max_read :: "mount_opts \<Rightarrow> int" where
  "get_max_read mo = mo_maxread mo"

text \<open>\<open>fuse_opt_add_opt\<close> with the answers of the allocations in the state.\<close>

definition os_add_opt :: "string option \<Rightarrow> string \<Rightarrow> os \<Rightarrow> int \<times> string option \<times> os" where
  "os_add_opt o0 opt w =
     (let (res, al, o1) = fuse_opt_add_opt (os_allocs w) o0 opt in (res, o1, w\<lparr>os_allocs := al\<rparr>))"

fun add_flag_opts :: "mount_flag list \<Rightarrow> int \<Rightarrow> string option \<Rightarrow> os \<Rightarrow> int \<times> string option \<times> os" where
  "add_flag_opts [] flags o0 w = (0, o0, w)"
| "add_flag_opts ((opt, flag, on) # fs) flags o0 w =
     (if on \<and> and flags flag \<noteq> 0 then
        (let (res, o1, w1) = os_add_opt o0 opt w in
         if res = -1 then (-1, o1, w1) else add_flag_opts fs flags o1 w1)
      else add_flag_opts fs flags o0 w)"

definition get_mnt_flag_opts :: "int \<Rightarrow> string option \<Rightarrow> os \<Rightarrow> int \<times> string option \<times> os" where
  "get_mnt_flag_opts flags o0 w =
     (if and flags MS_RDONLY = 0 then
        (let (res, o1, w1) = os_add_opt o0 ''rw'' w in
         if res = -1 then (-1, o1, w1) else add_flag_opts mount_flags flags o1 w1)
      else add_flag_opts mount_flags flags o0 w)"

section \<open>Mounting with \<open>fusermount3\<close>\<close>

text \<open>The answer of \<open>recvmsg\<close>: an error number, the end of the connection, a message without control data, one
  with other data than descriptors, or else a descriptor.\<close>

definition receive_fd :: "int \<Rightarrow> os \<Rightarrow> (int \<times> os) option" where
  "receive_fd f w =
     (let (e, w1) = ask (w\<lparr>os_answers := dropWhile (\<lambda>e. e = EINTR) (os_answers w)\<rparr>) in
      if 0 < e \<or> e = -1 then Some (-1, w1)
      else if e = -2 then None
      else if e = -3 then Some (-1, w1)
      else Some (add_fd w1))"

definition FUSERMOUNT_PROG :: string where "FUSERMOUNT_PROG = ''fusermount3''"

definition setup_auto_unmount :: "string option \<Rightarrow> os \<Rightarrow> int \<times> os" where
  "setup_auto_unmount mountpoint w =
     (case mountpoint of
        None \<Rightarrow> (-1, w)
      | Some mnt \<Rightarrow>
          (case os_pair w of
             (None, w1) \<Rightarrow> (-1, w1)
           | (Some (f, g), w1) \<Rightarrow>
               let (pid, w2) = os_fork w1 in
               if pid = -1 then (-1, os_close g (os_close f w2))
               else (0, os_close f (log_call (Run [FUSERMOUNT_PROG, ''--auto-unmount'', ''--'', mnt] (Some f)) w2))))"

definition fuse_mount_fusermount :: "string option \<Rightarrow> mount_opts \<Rightarrow> string option \<Rightarrow> os \<Rightarrow> (int \<times> os) option" where
  "fuse_mount_fusermount mountpoint mo mopts w =
     (case mountpoint of
        None \<Rightarrow> Some (-1, w)
      | Some mnt \<Rightarrow>
          (case os_pair w of
             (None, w1) \<Rightarrow> Some (-1, w1)
           | (Some (f, g), w1) \<Rightarrow>
               let (pid, w2) = os_fork w1 in
               if pid = -1 then Some (-1, os_close g (os_close f w2))
               else do {
                 let args = [FUSERMOUNT_PROG] @ (case mopts of None \<Rightarrow> [] | Some s \<Rightarrow> [''-o'', s]) @ [''--'', mnt];
                 (rv, w3) \<leftarrow> receive_fd g (os_close f (log_call (Run args (Some f)) w2));
                 let w4 = (if mo_auto_unmount mo = 0 then os_close g w3 else w3);
                 Some (rv, if 0 \<le> rv then log_call (Set_fd_flags rv 1) w4 else w4) }))"

section \<open>Mounting with the system call\<close>

definition ENODEV :: int where "ENODEV = 19"

definition DEVNAME :: string where "DEVNAME = ''/dev/fuse''"

definition mount_data :: "host \<Rightarrow> string \<Rightarrow> int \<Rightarrow> string" where
  "mount_data h mnt fd =
     take 127 (''fd='' @ dec_int fd @ '',rootmode='' @ oct (and (h_mode h mnt) 61440) @ '',user_id='' @ dec (h_uid h) @
       '',group_id='' @ dec (h_gid h))"

definition fs_type :: "mount_opts \<Rightarrow> string" where
  "fs_type mo = (if mo_blkdev mo \<noteq> 0 then ''fuseblk'' else ''fuse'')"

definition mount_type :: "mount_opts \<Rightarrow> string" where
  "mount_type mo = fs_type mo @ (case mo_subtype mo of None \<Rightarrow> [] | Some s \<Rightarrow> ''.'' @ s)"

definition mount_source :: "mount_opts \<Rightarrow> string" where
  "mount_source mo =
     (case mo_fsname mo of Some s \<Rightarrow> s | None \<Rightarrow> (case mo_subtype mo of Some s \<Rightarrow> s | None \<Rightarrow> DEVNAME))"

definition old_source :: "mount_opts \<Rightarrow> string" where
  "old_source mo =
     (case (mo_fsname mo, mo_subtype mo) of
        (Some n, Some t) \<Rightarrow> if mo_blkdev mo = 0 then t @ ''#'' @ n else mount_source mo
      | (Some n, None) \<Rightarrow> n
      | (None, _) \<Rightarrow> fs_type mo)"

definition os_mount :: "string \<Rightarrow> string \<Rightarrow> string \<Rightarrow> mount_opts \<Rightarrow> os \<Rightarrow> int \<times> int \<times> os" where
  "os_mount source mnt ty mo w = os_try (log_call (Sys_mount source mnt ty (mo_flags mo) (mo_kernel_opts mo)) w)"

definition lazy_umount :: "string \<Rightarrow> os \<Rightarrow> os" where
  "lazy_umount mnt w = (let (_, _, w1) = os_try (log_call (Sys_umount2 mnt 2) w) in w1)"

text \<open>The name and the type that the mount point gets, after the second try for kernels without subtypes.\<close>

definition try_mount :: "string \<Rightarrow> mount_opts \<Rightarrow> os \<Rightarrow> int \<times> int \<times> string \<times> string \<times> os" where
  "try_mount mnt mo w =
     (let (res, e, w1) = os_mount (mount_source mo) mnt (mount_type mo) mo w in
      if res = -1 \<and> e = ENODEV \<and> mo_subtype mo \<noteq> None then
        (let (res2, e2, w2) = os_mount (old_source mo) mnt (fs_type mo) mo w1 in (res2, e2, old_source mo, fs_type mo, w2))
      else (res, e, mount_source mo, mount_type mo, w1))"

definition enter_mtab :: "host \<Rightarrow> string \<Rightarrow> string \<Rightarrow> string \<Rightarrow> string \<Rightarrow> os \<Rightarrow> int \<times> os" where
  "enter_mtab h source mnt ty mopts w =
     (if h_euid h = 0 then
        (case fuse_mnt_resolve_path h mnt w of
           (None, w1) \<Rightarrow> (-1, w1)
         | (Some newmnt, w1) \<Rightarrow> fuse_mnt_add_mount source newmnt ty mopts w1)
      else (0, w))"

definition fuse_mount_sys :: "host \<Rightarrow> string option \<Rightarrow> mount_opts \<Rightarrow> string \<Rightarrow> os \<Rightarrow> int \<times> mount_opts \<times> os" where
  "fuse_mount_sys h mountpoint mo mopts w =
     (case mountpoint of
        None \<Rightarrow> (-1, mo, w)
      | Some mnt \<Rightarrow>
          let (res, _, w1) = os_try w in
          if res = -1 then (-1, mo, w1)
          else
            let (fd, _, w2) = os_open DEVNAME w1 in
            if fd = -1 then (-1, mo, w2)
            else
              let (res, ko, w3) = os_add_opt (mo_kernel_opts mo) (mount_data h mnt fd) w2;
                  mo1 = mo\<lparr>mo_kernel_opts := ko\<rparr> in
              if res = -1 then (-1, mo1, os_close fd w3)
              else
                let (ok1, w4) = os_malloc w3; (ok2, w5) = os_malloc w4 in
                if \<not> ok1 \<or> \<not> ok2 then (res, mo1, os_close fd w5)
                else
                  let (res, e, source, ty, w6) = try_mount mnt mo1 w5 in
                  if res = -1 then
                    (if e = EPERM then (-2, mo1, os_close fd w6)
                     else
                       let w7 = (if mo_blkdev mo \<noteq> 0 \<and> e = ENODEV then snd (fuse_mnt_check_fuseblk h w6) else w6) in
                       (-1, mo1, os_close fd w7))
                  else
                    let (res, w7) = enter_mtab h source mnt ty mopts w6 in
                    if res = -1 then (-1, mo1, os_close fd (lazy_umount mnt w7))
                    else (fd, mo1, w7))"

section \<open>Mounting and unmounting\<close>

text \<open>\<open>mnt_opts\<close>, the options in text, may be NULL when there are none.\<close>

definition add_when :: "string option \<Rightarrow> string option \<Rightarrow> os \<Rightarrow> int \<times> string option \<times> os" where
  "add_when o0 opt w = (case opt of None \<Rightarrow> (0, o0, w) | Some s \<Rightarrow> os_add_opt o0 s w)"

definition kern_mount_opts :: "mount_opts \<Rightarrow> os \<Rightarrow> int \<times> string option \<times> os" where
  "kern_mount_opts mo w =
     (let (res, o1, w1) = get_mnt_flag_opts (mo_flags mo) None w in
      if res = -1 then (-1, o1, w1)
      else
        let (res, o2, w2) = add_when o1 (mo_kernel_opts mo) w1 in
        if res = -1 then (-1, o2, w2) else add_when o2 (mo_mtab_opts mo) w2)"

text \<open>The help of \<open>fusermount3\<close>: first with the subtype among the options, when there is one.  \<open>strlen\<close> of a
  missing option would fail.\<close>

definition helped_mount :: "string option \<Rightarrow> mount_opts \<Rightarrow> string option \<Rightarrow> os \<Rightarrow> (int \<times> os) option" where
  "helped_mount mountpoint mo o1 w =
     (let (res, o2, w1) = add_when o1 (mo_fusermount_opts mo) w in
      if res = -1 then Some (-2, w1)
      else
        (case mo_subtype mo of
           None \<Rightarrow> fuse_mount_fusermount mountpoint mo o2 w1
         | Some _ \<Rightarrow> do {
             s2 \<leftarrow> o2;
             let (r1, t1, w2) = os_add_opt None s2 w1;
             if r1 = -1 then Some (-1, w2)
             else do {
               st \<leftarrow> mo_subtype_opt mo;
               let (r2, t2, w3) = os_add_opt t1 st w2;
               if r2 = -1 then Some (-1, w3)
               else do {
                 (res, w4) \<leftarrow> fuse_mount_fusermount mountpoint mo t2 w3;
                 if res = -1 then fuse_mount_fusermount mountpoint mo o2 w4 else Some (res, w4) } } }))"

definition fuse_kern_mount :: "host \<Rightarrow> string option \<Rightarrow> mount_opts \<Rightarrow> os \<Rightarrow> (int \<times> mount_opts \<times> os) option" where
  "fuse_kern_mount h mountpoint mo w =
     (let (res, mopts, w1) = kern_mount_opts mo w in
      if res = -1 then Some (-1, mo, w1)
      else
        let (res, mo1, w2) = fuse_mount_sys h mountpoint mo (case mopts of None \<Rightarrow> [] | Some s \<Rightarrow> s) w1 in
        if 0 \<le> res \<and> mo_auto_unmount mo \<noteq> 0 then
          (let (r, w3) = setup_auto_unmount mountpoint w2 in
           if r < 0 then Some (-1, mo1, case mountpoint of None \<Rightarrow> w3 | Some mnt \<Rightarrow> lazy_umount mnt w3) else Some (res, mo1, w3))
        else if res = -2 then do { (res, w3) \<leftarrow> helped_mount mountpoint mo1 mopts w2; Some (res, mo1, w3) }
        else Some (res, mo1, w2))"

definition fuse_kern_unmount :: "host \<Rightarrow> string \<Rightarrow> int \<Rightarrow> os \<Rightarrow> os" where
  "fuse_kern_unmount h mountpoint fd w =
     (let (gone, w1) = (if fd \<noteq> -1 then (let (e, w1) = ask w in (e \<noteq> 0, os_close fd w1)) else (False, w)) in
      if gone then w1
      else if h_euid h = 0 then snd (fuse_mnt_umount mountpoint mountpoint True w1)
      else
        let (res, _, w2) = os_try (log_call (Sys_umount2 mountpoint 2) w1) in
        if res = 0 then w2
        else
          let (pid, w3) = os_fork w2 in
          if pid = -1 then w3
          else log_call (Run [FUSERMOUNT_PROG, ''-u'', ''-q'', ''-z'', ''--'', mountpoint] None) w3)"

definition fuse_mount_version :: "os \<Rightarrow> os" where
  "fuse_mount_version w =
     (let (pid, w1) = os_fork w in if pid = -1 then w1 else log_call (Run [FUSERMOUNT_PROG, ''--version''] None) w1)"

end
