(* ===== verification/OptionMeaning.thy ===== *)
theory OptionMeaning
  imports FuseOpt Posix
begin

text \<open>
  What the options behind an \<open>-o\<close> mean to a client of the option parser: when each option alone has its meaning, a
  whole group of them has the meanings one after the other.  \<open>view\<close> is what the client makes of the struct the
  parser fills.
\<close>

section \<open>The templates an option matches\<close>

text \<open>\<open>process_gopt\<close> goes through the templates that match, one after the other.\<close>

fun matching :: "fuse_opt list \<Rightarrow> string \<Rightarrow> (fuse_opt \<times> nat) list" where
  "matching [] w = []"
| "matching (t # ts) w = (case match_template (templ t) w of Some sep \<Rightarrow> (t, sep) # matching ts w | None \<Rightarrow> matching ts w)"

fun one_match :: "fuse_opt_context \<Rightarrow> string \<Rightarrow> fuse_opt \<times> nat \<Rightarrow> (int \<times> fuse_opt_context) option" where
  "one_match c w (t, sep) =
     (if sep \<noteq> 0 \<and> char_at (templ t) sep = CHR '' '' \<and> char_at w sep = NUL then process_opt_sep_arg c t sep w True
      else process_opt c t sep w True)"

fun run_matches :: "fuse_opt_context \<Rightarrow> string \<Rightarrow> (fuse_opt \<times> nat) list \<Rightarrow> (int \<times> fuse_opt_context) option" where
  "run_matches c w [] = Some (0, c)"
| "run_matches c w (m # ms) =
     (case one_match c w m of
        None \<Rightarrow> None
      | Some (r, c1) \<Rightarrow> if r = -1 then Some (-1, c1) else run_matches c1 w ms)"

lemma matching_find:
  "case find_opt ts w of
     None \<Rightarrow> matching ts w = []
   | Some (os, sep) \<Rightarrow> \<exists>t rest. os = t # rest \<and> match_template (templ t) w = Some sep \<and> matching ts w = (t, sep) # matching rest w"
  by (induction ts) (auto split: option.splits)

lemma gopt_loop_matches: "gopt_loop c (t # rest) sep w True = run_matches c w ((t, sep) # matching rest w)"
proof (induction "length rest" arbitrary: c t sep rest rule: less_induct)
  case less
  show ?case
  proof (cases "find_opt rest w")
    case None
    then show ?thesis using matching_find [of rest w] by (auto split: option.splits)
  next
    case (Some z)
    obtain os sep1 where z: "z = (os, sep1)" by (cases z)
    obtain u rest1 where u: "os = u # rest1" "matching rest w = (u, sep1) # matching rest1 w"
      using matching_find [of rest w] Some z by auto
    have "length rest1 < length rest" using find_opt_shorter [of rest w os sep1] Some z u(1) by simp
    then show ?thesis using less [of rest1] Some z u by (auto split: option.splits simp del: run_matches.simps(2) one_match.simps)
        (simp_all split: option.splits)
  qed
qed

lemma process_gopt_matches:
  "matching (copt c) w \<noteq> [] \<Longrightarrow> process_gopt c w True = run_matches c w (matching (copt c) w)"
  using matching_find [of "copt c" w] gopt_loop_matches [of c _ _ _ w]
  by (auto simp: process_gopt_def split: option.splits simp del: gopt_loop.simps)

text \<open>What one template does: it stores its value, stores the text behind the sign, or asks the client.\<close>

lemma match_stores:
  "offset t \<noteq> 0xffffffff \<Longrightarrow> sep = 0 \<or> char_at (templ t) (Suc sep) = NUL \<and> char_at (templ t) sep \<noteq> CHR '' '' \<Longrightarrow>
   one_match c w (t, sep) = Some (0, c\<lparr>cdata := (cdata c)(offset t \<mapsto> OInt (opt_value t))\<rparr>)"
  by (auto simp: process_opt_def)

lemma char_at_first: "drop n s = x # xs \<Longrightarrow> char_at s n = x"
  using char_at_drop [of n s 0] by simp

lemma match_string:
  "offset t \<noteq> 0xffffffff \<Longrightarrow> sep \<noteq> 0 \<Longrightarrow> char_at (templ t) sep = CHR ''='' \<Longrightarrow> drop (Suc sep) (templ t) = ''%s'' \<Longrightarrow> cmem c = [] \<Longrightarrow>
   one_match c w (t, sep) = Some (0, c\<lparr>cdata := (cdata c)(offset t \<mapsto> OStr (drop (Suc sep) w))\<rparr>)"
  by (cases c) (simp add: process_opt_def process_opt_param_def char_at_first)

lemma match_number:
  "offset t \<noteq> 0xffffffff \<Longrightarrow> sep \<noteq> 0 \<Longrightarrow> char_at (templ t) sep = CHR ''='' \<Longrightarrow> drop (Suc sep) (templ t) = ''%u'' \<Longrightarrow>
   scan c ''%u'' (drop (Suc sep) w) = Some v \<Longrightarrow>
   one_match c w (t, sep) = Some (0, c\<lparr>cdata := (cdata c)(offset t \<mapsto> v)\<rparr>)"
  by (simp add: process_opt_def process_opt_param_def char_at_first)

lemma match_client:
  "offset t = 0xffffffff \<Longrightarrow> sep = 0 \<or> char_at (templ t) sep \<noteq> CHR '' '' \<Longrightarrow> proc c = Some f \<Longrightarrow> opt_value t \<notin> {FUSE_OPT_KEY_DISCARD, FUSE_OPT_KEY_KEEP} \<Longrightarrow>
   cmem c = [] \<Longrightarrow> f (cdata c) w (opt_value t) (outargs c) [] = Some (0, d, outargs c, []) \<Longrightarrow>
   one_match c w (t, sep) = Some (0, c\<lparr>cdata := d\<rparr>)"
  by (cases c) (auto simp: process_opt_def call_proc_def)

text \<open>\<open>sscanf\<close> reads a number that fits an unsigned int.\<close>

definition scans_unsigned :: "(string \<Rightarrow> string \<Rightarrow> opt_var option) \<Rightarrow> bool" where
  "scans_unsigned sc \<longleftrightarrow> (\<forall>n < 2 ^ 32. sc ''%u'' (dec n) = Some (OInt (int n)))"

definition scan_decimal :: "string \<Rightarrow> string \<Rightarrow> opt_var option" where
  "scan_decimal f s = (case digits 10 0 s of (n, rest) \<Rightarrow> if rest = s then None else Some (OInt (int n)))"

lemma scan_decimal: "scans_unsigned scan_decimal"
proof -
  have "dec n \<noteq> []" for n by (subst dec.simps) simp
  then have "[] \<noteq> dec n" for n by metis
  then show ?thesis by (simp add: scans_unsigned_def scan_decimal_def digits_dec)
qed

section \<open>Groups of options\<close>

text \<open>The command line \<open>prog -o t\<close>, and what is left of it when the client has taken all options.\<close>

definition two_args :: "string \<Rightarrow> string \<Rightarrow> bool \<Rightarrow> fuse_args" where
  "two_args prog t b = \<lparr>argv = Some [prog, ''-o'', t], allocated = b\<rparr>"

definition args_left :: "string \<Rightarrow> fuse_args" where
  "args_left prog = \<lparr>argv = Some [prog], allocated = True\<rparr>"

locale options_mean =
  fixes ts :: "fuse_opt list"
    and p :: "opt_proc option"
    and sc :: "string \<Rightarrow> string \<Rightarrow> opt_var option"
    and okay :: "'o \<Rightarrow> bool"
    and wording :: "'o \<Rightarrow> string"
    and view :: "opt_data \<Rightarrow> 'r"
    and meaning :: "'o \<Rightarrow> 'r \<Rightarrow> 'r"
  assumes worded: "okay x \<Longrightarrow> c_str (wording x) \<and> wording x \<noteq> []"
    and means: "okay x \<Longrightarrow> copt c = ts \<Longrightarrow> proc c = p \<Longrightarrow> scan c = sc \<Longrightarrow> cmem c = [] \<Longrightarrow>
      \<exists>d. process_gopt c (wording x) True = Some (0, c\<lparr>cdata := d\<rparr>) \<and> view d = meaning x (view (cdata c))"
begin

lemma all_mean:
  assumes "\<forall>x \<in> set xs. okay x" "copt c = ts" "proc c = p" "scan c = sc" "cmem c = []"
  shows "\<exists>d. process_gopts c (map wording xs) = Some (0, c\<lparr>cdata := d\<rparr>) \<and> view d = fold meaning xs (view (cdata c))"
  using assms
proof (induction xs arbitrary: c)
  case Nil
  then show ?case by (intro exI [of _ "cdata c"]) simp
next
  case (Cons x xs)
  obtain d where d: "process_gopt c (wording x) True = Some (0, c\<lparr>cdata := d\<rparr>)" "view d = meaning x (view (cdata c))"
    using means [of x c] Cons.prems by auto
  show ?case using Cons.IH [of "c\<lparr>cdata := d\<rparr>"] Cons.prems d by simp
qed

lemma group_means:
  assumes "\<forall>x \<in> set xs. okay x" "join_escaped (map wording xs) = Some t" "copt c = ts" "proc c = p" "scan c = sc" "cmem c = []"
  shows "\<exists>d. process_option_group c t = Some (0, c\<lparr>cdata := d\<rparr>) \<and> view d = fold meaning xs (view (cdata c))"
proof -
  obtain y ys where xs: "xs = y # ys" using assms(2) by (cases xs) (auto simp: join_escaped_def)
  have w: "c_str (wording x)" "wording x \<noteq> []" if "x \<in> set xs" for x using that assms(1) worded by auto
  have "t = escape_opt True (wording y) @ concat (map (\<lambda>opt. CHR '','' # escape_opt True opt) (map wording ys))"
    using assms(2) w [of y] by (simp add: xs join_escaped_Cons)
  then have "split_group [] t = map wording xs"
    using split_group_join [of "[]" "wording y" "map wording ys"] w by (simp add: xs)
  moreover have "(let (ok, al) = alloc_next (cmem c); c1 = c\<lparr>cmem := al\<rparr> in
      if \<not> ok then Some (-1, c1) else process_real_option_group c1 [] t) = process_real_option_group c [] t"
    using assms(6) by (cases c) simp
  ultimately show ?thesis using all_mean [OF assms(1,3-6)] by (simp add: process_option_group_def group_eq_gopts)
qed

lemma command_line_means:
  assumes "\<forall>x \<in> set xs. okay x" "join_escaped (map wording xs) = Some t"
  shows "\<exists>d. fuse_opt_parse [] sc (Some (two_args prog t b)) d0 ts p = Some (0, Some (args_left prog), d) \<and>
    view d = fold meaning xs (view d0)"
proof -
  let ?c = "(init_context [] sc [prog, ''-o'', t] d0 ts p)\<lparr>argctr := 2, outargs := args_left prog\<rparr>"
  obtain d where d: "process_option_group ?c t = Some (0, ?c\<lparr>cdata := d\<rparr>)" "view d = fold meaning xs (view d0)"
    using group_means [OF assms, of ?c] by (auto simp: init_context_def)
  have add: "add_arg (init_context [] sc [prog, ''-o'', t] d0 ts p) prog =
      Some (0, (init_context [] sc [prog, ''-o'', t] d0 ts p)\<lparr>outargs := args_left prog\<rparr>)"
    by (simp add: add_arg_def fuse_opt_add_arg_def init_context_def empty_args_def args_left_def args_list_def argc_def Let_def)
  have one: "process_one (?c\<lparr>argctr := Suc 0\<rparr>) ''-o'' = Some (0, ?c\<lparr>cdata := d\<rparr>)"
    using d(1) by (simp add: process_one_def next_arg_def init_context_def numeral_2_eq_2)
  have "opt_loop (?c\<lparr>argctr := Suc 0\<rparr>) = Some (0, ?c\<lparr>cdata := d, argctr := 3\<rparr>)"
    by (subst opt_loop.simps, subst opt_loop.simps) (use one in \<open>simp add: init_context_def\<close>)
  then show ?thesis using d(2) add
    by (simp add: fuse_opt_parse_def two_args_def args_list_def argc_def opt_parse_def init_context_def insert_opts_def
        drop_separator_def)
qed

end

end
