(* ===== verification/MountRuns.thy ===== *)
theory MountRuns
  imports Mount OptionMeaning "HOL-Library.Multiset"
begin

text \<open>
  What mounting guarantees: the options are parsed without an internal error, the mount flags survive the trip
  through text, and every descriptor that is open after a mount is accounted for.
\<close>

section \<open>Parsing\<close>

definition flag_mask :: int where
  "flag_mask = MS_RDONLY + MS_NOSUID + MS_NODEV + MS_NOEXEC + MS_SYNCHRONOUS + MS_DIRSYNC + MS_NOATIME + MS_NODIRATIME"

text \<open>The types of the fields, and the flags that can be set.\<close>

definition typed_opts :: "opt_data \<Rightarrow> bool" where
  "typed_opts d \<longleftrightarrow>
     (\<forall>x \<in> {0, 8, 12}. \<forall>v. d x = Some v \<longrightarrow> (\<exists>i. v = OInt i)) \<and>
     (\<forall>x \<in> {16, 24, 32, 40, 48, 56}. \<forall>v. d x = Some v \<longrightarrow> (\<exists>s. v = OStr s)) \<and>
     (\<exists>f. d 4 = Some (OInt f) \<and> and f (not flag_mask) = 0)"

lemma flag_mask: "flag_mask = 3231" by (simp add: flag_mask_def ms_defs)

lemma set_mount_flag_mask:
  assumes "set_mount_flag s f = Some g" "and f (not flag_mask) = 0"
  shows "and g (not flag_mask) = 0"
proof -
  have sub: "and (and f x) (not flag_mask) = 0" for x using assms(2) by (metis and.assoc and.commute and_zero_eq)
  obtain fl on where m: "map_of mount_flags s = Some (fl, on)" using assms(1) by (auto simp: set_mount_flag_def split: option.splits)
  then have "(s, fl, on) \<in> set mount_flags" by (rule map_of_SomeD)
  then have "on \<longrightarrow> and fl (not flag_mask) = 0" by (auto simp: mount_flags_def flag_mask ms_defs)
  then show ?thesis using assms m sub by (cases on) (auto simp: set_mount_flag_def bit.conj_disj_distrib2)
qed

lemma add_to_typed:
  assumes "typed_opts d" "x \<in> {32, 40, 48, 56}" "args_ok out"
  shows "gives_back typed_opts out (add_to esc x d arg out al)"
proof -
  have "typed_opts (d(x \<mapsto> OStr s))" for s using assms(1,2) by (auto simp: typed_opts_def)
  then show ?thesis using assms(1,3) by (auto simp: add_to_def gives_back_def split: prod.splits option.splits)
qed

text \<open>Every option that stands for a flag is in the table of flags.\<close>

lemma plain_template: "template_sep t = None \<Longrightarrow> match_template t arg \<noteq> None \<Longrightarrow> arg = t"
  by (auto simp: match_template_def split: if_splits)

lemma flag_templates:
  "list_all (\<lambda>opt. opt_value opt = KEY_KERN_FLAG \<longrightarrow>
     template_sep (templ opt) = None \<and> CHR '' '' \<notin> set (templ opt) \<and> map_of mount_flags (templ opt) \<noteq> None) fuse_mount_opts"
  by (simp add: fuse_mount_opts_def stores_at_def key_opt_def mount_keys template_sep_def mount_flags_def) blast

lemma flag_known:
  assumes "may_call fuse_mount_opts arg KEY_KERN_FLAG"
  shows "\<exists>f. set_mount_flag arg g = Some f"
proof -
  obtain opt where opt: "opt \<in> set fuse_mount_opts" "opt_value opt = KEY_KERN_FLAG"
    "match_template (templ opt) arg \<noteq> None \<or> CHR '' '' \<in> set (templ opt)"
    using assms by (auto simp: may_call_def mount_keys key_defs)
  then have t: "template_sep (templ opt) = None" "CHR '' '' \<notin> set (templ opt)" "map_of mount_flags (templ opt) \<noteq> None"
    using flag_templates by (auto simp: list_all_iff)
  then have "arg = templ opt" using opt(3) plain_template by blast
  then obtain f on where "map_of mount_flags arg = Some (f, on)" using t(3) by (metis option.exhaust prod.exhaust)
  then show ?thesis by (cases on) (simp_all add: set_mount_flag_def)
qed

lemma mount_proc_typed:
  assumes "may_call fuse_mount_opts arg key" "typed_opts d" "args_ok out"
  shows "gives_back typed_opts out (fuse_mount_opt_proc d arg key out al)"
proof -
  have ro: "\<exists>f. set_mount_flag ''ro'' g = Some f" for g by (simp add: set_mount_flag_def mount_flags_def)
  obtain f0 where f0: "d 4 = Some (OInt f0)" "and f0 (not flag_mask) = 0" using assms(2) by (auto simp: typed_opts_def)
  have flag: "gives_back typed_opts out (do { f \<leftarrow> set_mount_flag s (int_at d 4); Some (0, d(4 \<mapsto> OInt f), out, al) })"
    if ex: "\<exists>f. set_mount_flag s (int_at d 4) = Some f" for s
  proof -
    obtain f where f: "set_mount_flag s (int_at d 4) = Some f" using ex by blast
    have "typed_opts (d(4 \<mapsto> OInt f))" using assms(2) set_mount_flag_mask [OF f] f0 by (simp add: typed_opts_def int_at_def)
    then show ?thesis using f assms(3) by (simp add: gives_back_def)
  qed
  note add = add_to_typed [OF assms(2) _ assms(3)]
  consider "key = KEY_RO" | "key = KEY_KERN_FLAG" | "key = KEY_KERN_OPT" | "key = KEY_FUSERMOUNT_OPT" | "key = KEY_SUBTYPE_OPT"
    | "key = KEY_MTAB_OPT" | "key \<notin> {KEY_RO, KEY_KERN_FLAG, KEY_KERN_OPT, KEY_FUSERMOUNT_OPT, KEY_SUBTYPE_OPT, KEY_MTAB_OPT}"
    by blast
  then show ?thesis
  proof cases
    case 1 then show ?thesis using flag [OF ro] by (simp add: fuse_mount_opt_proc_def)
  next
    case 2 then show ?thesis using flag [OF flag_known] assms(1) by (simp add: fuse_mount_opt_proc_def mount_keys)
  next
    case 7 then show ?thesis using assms(2,3) by (simp add: fuse_mount_opt_proc_def gives_back_def)
  qed (use add in \<open>simp_all add: fuse_mount_opt_proc_def mount_keys\<close>)
qed

interpretation mount_client: opt_client fuse_mount_opts "Some fuse_mount_opt_proc" sc typed_opts for sc
proof
  fix opt v d
  assume a: "opt \<in> set fuse_mount_opts" "offset opt \<noteq> 0xffffffff" "stored sc opt v" "typed_opts d"
  have "list_all (\<lambda>opt. offset opt = 0xffffffff \<or> format_of opt = None \<and> offset opt \<in> {0, 8, 12} \<or>
      format_of opt = Some ''%s'' \<and> offset opt \<in> {16, 24} \<or> offset opt = 64) fuse_mount_opts"
    by (simp add: fuse_mount_opts_def stores_at_def key_opt_def format_of_def template_sep_def)
  then consider "format_of opt = None" "offset opt \<in> {0, 8, 12}" | "format_of opt = Some ''%s''" "offset opt \<in> {16, 24}" | "offset opt = 64"
    using a(1,2) by (auto simp: list_all_iff)
  then show "typed_opts (d(offset opt \<mapsto> v))" using a(3,4) by cases (auto simp: typed_opts_def stored_def)
qed (use mount_proc_typed in simp)

section \<open>Flags in text\<close>

definition flag_words :: "int \<Rightarrow> string list" where
  "flag_words f =
     (if and f MS_RDONLY = 0 then [''rw''] else []) @ map fst (filter (\<lambda>(_, fl, on). on \<and> and f fl \<noteq> 0) mount_flags)"

text \<open>What the options of a group do to the flags.\<close>

fun set_flags :: "string list \<Rightarrow> int \<Rightarrow> int option" where
  "set_flags [] f = Some f"
| "set_flags (s # ss) f = do { g \<leftarrow> set_mount_flag s f; set_flags ss g }"

definition plain_word :: "string \<Rightarrow> bool" where
  "plain_word s \<longleftrightarrow> s \<noteq> [] \<and> (\<forall>c \<in> set s. c \<noteq> CHR '','' \<and> c \<noteq> CHR 0x5C \<and> c \<noteq> NUL)"

lemma plain_escape: "plain_word s \<Longrightarrow> escape_opt True s = s \<and> escape_opt False t = t"
proof -
  have "\<forall>c \<in> set s. c \<noteq> CHR '','' \<and> c \<noteq> CHR 0x5C \<Longrightarrow> escape_opt True s = s" by (induction s) auto
  moreover have "escape_opt False t = t" by (induction t) auto
  ultimately show "plain_word s \<Longrightarrow> ?thesis" by (simp add: plain_word_def)
qed

definition join_more :: "string option \<Rightarrow> string list \<Rightarrow> string option" where
  "join_more o0 os = foldl (\<lambda>acc opt. snd (snd (fuse_opt_add_opt_escaped [] acc opt))) o0 os"

lemma os_add_plain:
  assumes "os_allocs w = []" "plain_word s"
  shows "os_add_opt o0 s w = (0, join_more o0 [s], w)"
  using plain_escape [OF assms(2), of s] assms(1)
  by (simp add: os_add_opt_def fuse_opt_add_opt_def fuse_opt_add_opt_escaped_def add_opt_common_def join_more_def Let_def)

lemma add_flag_opts_words:
  assumes "os_allocs w = []" "\<forall>(s, _) \<in> set fs. plain_word s"
  shows "add_flag_opts fs flags o0 w = (0, join_more o0 (map fst (filter (\<lambda>(_, fl, on). on \<and> and flags fl \<noteq> 0) fs)), w)"
  using assms(2)
proof (induction fs arbitrary: o0)
  case (Cons x fs)
  obtain s fl on where x: "x = (s, fl, on)" by (cases x)
  then show ?case using Cons os_add_plain [OF assms(1), of s o0] by (auto simp: join_more_def)
qed (simp add: join_more_def)

lemma mount_flags_plain: "\<forall>(s, _) \<in> set mount_flags. plain_word s"
  by (simp add: mount_flags_def plain_word_def)

lemma flag_opts_text:
  assumes "os_allocs w = []"
  shows "get_mnt_flag_opts f None w = (0, join_escaped (flag_words f), w)"
proof -
  have "plain_word ''rw''" by (simp add: plain_word_def)
  then have "os_add_opt None ''rw'' w = (0, join_more None [''rw''], w)" by (rule os_add_plain [OF assms])
  then show ?thesis using add_flag_opts_words [OF assms mount_flags_plain]
    by (simp add: get_mnt_flag_opts_def flag_words_def join_escaped_def join_more_def)
qed

lemma flag_words_ok: "flag_words f \<noteq> []" "\<forall>s \<in> set (flag_words f). plain_word s"
proof -
  have "plain_word ''rw''" by (simp add: plain_word_def)
  then show "\<forall>s \<in> set (flag_words f). plain_word s" using mount_flags_plain by (auto simp: flag_words_def)
  show "flag_words f \<noteq> []" by (simp add: flag_words_def mount_flags_def)
qed

lemma set_flags_append: "set_flags (xs @ ys) f = do { g \<leftarrow> set_flags xs f; set_flags ys g }"
  by (induction xs arbitrary: f) (auto split: Option.bind_split)

definition on_word :: "string \<Rightarrow> int \<Rightarrow> int \<Rightarrow> string list" where
  "on_word s fl f = (if and f fl \<noteq> 0 then [s] else [])"

lemma set_on_word:
  assumes "map_of mount_flags s = Some (fl, True)" "\<exists>n. fl = 2 ^ n"
  shows "set_flags (on_word s fl f) g = Some (or g (and f fl))"
proof -
  obtain n where "fl = 2 ^ n" using assms(2) by blast
  have "and f fl = (if bit f n then fl else 0)" unfolding \<open>fl = 2 ^ n\<close> by (rule bit_eqI) (auto simp: bit_simps)
  moreover have "fl \<noteq> 0" using \<open>fl = 2 ^ n\<close> by simp
  ultimately show ?thesis using assms(1) by (simp add: on_word_def set_mount_flag_def)
qed

lemma flag_words_on:
  "flag_words f = (if and f MS_RDONLY = 0 then [''rw''] else []) @ on_word ''ro'' MS_RDONLY f @ on_word ''nosuid'' MS_NOSUID f @
     on_word ''nodev'' MS_NODEV f @ on_word ''noexec'' MS_NOEXEC f @ on_word ''sync'' MS_SYNCHRONOUS f @
     on_word ''noatime'' MS_NOATIME f @ on_word ''nodiratime'' MS_NODIRATIME f @ on_word ''dirsync'' MS_DIRSYNC f"
  by (simp add: flag_words_def mount_flags_def on_word_def)

lemma set_flag_words:
  assumes "and f (not flag_mask) = 0"
  shows "set_flags (flag_words f) 0 = Some f"
proof -
  have p: "\<exists>n. fl = 2 ^ n" if "fl \<in> {1, 2, 4, 8, 16, 128, 1024, 2048 :: int}" for fl
    using that power.simps by (auto intro: exI [of _ 0] exI [of _ 1] exI [of _ 2] exI [of _ 3] exI [of _ 4] exI [of _ 7] exI [of _ 10] exI [of _ 11])
  have rw: "set_flags (if and f MS_RDONLY = 0 then [''rw''] else []) 0 = Some 0"
    by (simp add: set_mount_flag_def mount_flags_def)
  have on: "set_flags (on_word s fl f) g = Some (or g (and f fl))"
    if "map_of mount_flags s = Some (fl, True)" "fl \<in> {1, 2, 4, 8, 16, 128, 1024, 2048}" for s fl g
    by (rule set_on_word [OF that(1) p [OF that(2)]])
  have "set_flags (flag_words f) 0 =
    Some (or (or (or (or (or (or (or (or 0 (and f MS_RDONLY)) (and f MS_NOSUID)) (and f MS_NODEV)) (and f MS_NOEXEC))
      (and f MS_SYNCHRONOUS)) (and f MS_NOATIME)) (and f MS_NODIRATIME)) (and f MS_DIRSYNC))"
    unfolding flag_words_on set_flags_append rw
    by (subst on | simp only: Option.bind.simps | (simp add: mount_flags_def ms_defs; fail))+
  also have "\<dots> = Some (and f flag_mask)"
    by (simp only: bit.conj_disj_distrib [symmetric] or.left_neutral) (simp add: flag_mask ms_defs)
  also have "and f flag_mask = f" using assms by (metis bit.conj_cancel_right bit.conj_disj_distrib and.right_neutral or.right_neutral bit.disj_cancel_right)
  finally show ?thesis .
qed

text \<open>
  C34. Mount flags survive the trip through text: from every combination of flags that options can set,
  \<open>get_mnt_flag_opts\<close> makes a text, and the options in this text, split the way the parser splits a group, set
  exactly these flags.
\<close>
theorem mount_flags_roundtrip:
  assumes "and f (not flag_mask) = 0" "os_allocs w = []"
  shows "\<exists>t. get_mnt_flag_opts f None w = (0, Some t, w) \<and> set_flags (split_group [] t) 0 = Some f"
proof -
  obtain x xs where ws: "flag_words f = x # xs" using flag_words_ok(1) by (cases "flag_words f") auto
  have pl: "\<forall>s \<in> set (x # xs). plain_word s" using flag_words_ok(2) [of f] unfolding ws .
  then have t: "join_escaped (flag_words f) = Some (escape_opt True x @ concat (map (\<lambda>opt. CHR '','' # escape_opt True opt) xs))" (is "_ = Some ?t")
    unfolding ws by (intro join_escaped_Cons) (simp add: plain_word_def)
  have "split_group [] ?t = x # xs" using pl by (subst split_group_join) (auto simp: plain_word_def c_str_def)
  then show ?thesis using flag_opts_text [OF assms(2), of f] set_flag_words [OF assms(1)] t ws by (intro exI [of _ ?t]) simp
qed

theorem mount_flags_roundtrip_witness:
  "\<exists>t. get_mnt_flag_opts (1 + 2 + 1024) None \<lparr>os_fds = [], os_answers = [], os_log = [], bad_close = False, os_allocs = []\<rparr> =
     (0, Some t, \<lparr>os_fds = [], os_answers = [], os_log = [], bad_close = False, os_allocs = []\<rparr>) \<and>
     set_flags (split_group [] t) 0 = Some (1 + 2 + 1024)"
  by (rule mount_flags_roundtrip) (simp_all add: flag_mask)

section \<open>Descriptors\<close>

text \<open>One more descriptor, the result, or none and -1.\<close>

definition outcome :: "os \<Rightarrow> int \<Rightarrow> os \<Rightarrow> bool" where
  "outcome w r w' \<longleftrightarrow> r = -1 \<and> same_fds w w' \<or> 0 \<le> r \<and> r \<notin> set (os_fds w) \<and> calm w w' \<and> os_fds w' = r # os_fds w"

lemma outcome_after: "same_fds a b \<Longrightarrow> outcome b r c \<Longrightarrow> outcome a r c"
  by (auto simp: outcome_def same_fds_def intro: calm_trans)

lemma os_add_optD:
  "os_add_opt o0 s w = (r, o1, w') \<Longrightarrow> same_fds w w' \<and> (os_allocs w = [] \<longrightarrow> r = 0 \<and> o1 \<noteq> None)"
  by (auto simp: os_add_opt_def fuse_opt_add_opt_def add_opt_common_def same_fds_def calm_def Let_def split: prod.splits if_splits)

lemma add_whenD:
  "add_when o0 s w = (r, o1, w') \<Longrightarrow> same_fds w w' \<and> (os_allocs w = [] \<longrightarrow> r = 0 \<and> (o0 \<noteq> None \<longrightarrow> o1 \<noteq> None))"
  by (auto simp: add_when_def dest!: os_add_optD split: option.splits)

text \<open>
  Descriptors \<open>xs\<close> came on top.  A mount that is made or fails may leave up to \<open>n\<close> more descriptors open than the
  device.
\<close>

definition more_fds :: "os \<Rightarrow> int list \<Rightarrow> os \<Rightarrow> bool" where
  "more_fds w xs w' \<longleftrightarrow> calm w w' \<and> mset (os_fds w') = mset (xs @ os_fds w) \<and> distinct xs \<and> set xs \<inter> set (os_fds w) = {} \<and>
     (\<forall>x \<in> set xs. 0 \<le> x)"

definition left_open :: "nat \<Rightarrow> os \<Rightarrow> int \<Rightarrow> os \<Rightarrow> bool" where
  "left_open n w r w' \<longleftrightarrow> (\<exists>ys. length ys \<le> n \<and> (r = -1 \<and> more_fds w ys w' \<or> 0 \<le> r \<and> more_fds w (r # ys) w'))"

text \<open>A call that may crash does so only for a message without control data.\<close>

definition comes_to :: "nat \<Rightarrow> os \<Rightarrow> (int \<times> os) option \<Rightarrow> bool" where
  "comes_to n w x \<longleftrightarrow> (case x of None \<Rightarrow> -2 \<in> set (os_answers w) | Some (r, w') \<Rightarrow> left_open n w r w')"

lemma more_fdsD: "more_fds w xs w' \<Longrightarrow> set (os_fds w') = set xs \<union> set (os_fds w)"
  unfolding more_fds_def by (metis set_append set_mset_mset)

lemma more_fds_trans:
  assumes "more_fds a xs b" "more_fds b ys c"
  shows "more_fds a (xs @ ys) c"
  using assms more_fdsD [OF assms(1)] by (auto simp: more_fds_def intro: calm_trans)

lemma more_fds_ok: "fds_ok w \<Longrightarrow> more_fds w xs w' \<Longrightarrow> fds_ok w'"
  using more_fdsD [of w xs w'] mset_eq_imp_distinct_iff [of "os_fds w'" "xs @ os_fds w"]
  by (auto simp: fds_ok_def more_fds_def calm_def)

lemma same_more: "same_fds a b \<Longrightarrow> more_fds a [] b"
  by (simp add: more_fds_def same_fds_def)

lemma outcome_left: "outcome w r w' \<Longrightarrow> left_open n w r w'"
  unfolding left_open_def by (rule exI [of _ "[]"]) (auto simp: outcome_def more_fds_def same_fds_def)

lemma left_open_after:
  assumes "left_open n a (-1) b" "left_open m b r c"
  shows "left_open (n + m) a r c"
proof -
  obtain xs where xs: "length xs \<le> n" "more_fds a xs b" using assms(1) by (auto simp: left_open_def)
  obtain ys where ys: "length ys \<le> m" "r = -1 \<and> more_fds b ys c \<or> 0 \<le> r \<and> more_fds b (r # ys) c"
    using assms(2) by (auto simp: left_open_def)
  have "mset (xs @ r # ys) = mset (r # xs @ ys)" "set (xs @ r # ys) = set (r # xs @ ys)" by auto
  then have "more_fds a (xs @ r # ys) c \<longleftrightarrow> more_fds a (r # xs @ ys) c"
    using mset_eq_imp_distinct_iff [of "xs @ r # ys" "r # xs @ ys"] by (simp add: more_fds_def)
  then have "r = -1 \<and> more_fds a (xs @ ys) c \<or> 0 \<le> r \<and> more_fds a (r # xs @ ys) c"
    using ys(2) more_fds_trans [OF xs(2)] by blast
  then show ?thesis unfolding left_open_def using xs(1) ys(1) by (intro exI [of _ "xs @ ys"]) simp
qed

lemma comes_to_after: "same_fds a b \<Longrightarrow> comes_to n b x \<Longrightarrow> comes_to n a x"
  using left_open_after [of 0 a b n]
  by (auto simp: comes_to_def same_fds_def calm_def left_open_def [of 0] more_fds_def split: option.splits)

lemma receive_fdD:
  "case receive_fd f w of None \<Rightarrow> -2 \<in> set (os_answers w) | Some (r, w') \<Rightarrow> outcome w r w'"
proof -
  let ?w0 = "w\<lparr>os_answers := dropWhile (\<lambda>e. e = EINTR) (os_answers w)\<rparr>"
  obtain e w1 where e: "ask ?w0 = (e, w1)" by (cases "ask ?w0")
  have sub: "set (os_answers ?w0) \<subseteq> set (os_answers w)" by (auto dest: set_dropWhileD)
  have s: "same_fds w w1" using askD [OF e] sub by (auto simp: same_fds_def calm_def)
  have c: "e = -2 \<Longrightarrow> -2 \<in> set (os_answers w)" using e sub by (auto simp: ask_def split: list.splits)
  obtain r w2 where a: "add_fd w1 = (r, w2)" by (cases "add_fd w1")
  have "outcome w1 r w2" using add_fdD [OF a] by (auto simp: outcome_def)
  then show ?thesis using s c outcome_after [OF s] a by (auto simp: receive_fd_def e outcome_def)
qed

lemma fork_with_socket:
  assumes z: "os_pair w = (Some (f, g), w1)" and p: "os_fork w1 = (pid, w2)"
  shows "calm w (os_close f (log_call x w2))" "os_fds (os_close f (log_call x w2)) = g # os_fds w" "g \<notin> set (os_fds w)" "0 \<le> g"
    "same_fds w (os_close g (os_close f w2))"
proof -
  have fg: "calm w w1" "os_fds w1 = g # f # os_fds w" "f \<noteq> g" "f \<notin> set (os_fds w)" "g \<notin> set (os_fds w)" "0 \<le> g"
    using os_pairD [OF z] by auto
  have f2: "os_fds w2 = g # f # os_fds w" "calm w w2" using os_forkD [OF p] fg by (auto simp: same_fds_def intro: calm_trans)
  show "calm w (os_close f (log_call x w2))" "os_fds (os_close f (log_call x w2)) = g # os_fds w"
    using os_closeD [of f "log_call x w2"] f2 fg(3) by (auto intro: calm_trans)
  have c0: "calm w (os_close f w2)" "os_fds (os_close f w2) = g # os_fds w"
    using os_closeD [of f w2] f2 fg(3) by (auto intro: calm_trans)
  then show "same_fds w (os_close g (os_close f w2))" using os_closeD [of g "os_close f w2"]
    by (auto simp: same_fds_def intro: calm_trans)
qed (use os_pairD [OF z] in auto)

lemma fusermountD:
  "comes_to (if mo_auto_unmount mo = 0 then 0 else 1) w (fuse_mount_fusermount mountpoint mo q w)"
proof (cases mountpoint)
  case None
  then show ?thesis by (simp add: fuse_mount_fusermount_def comes_to_def outcome_left outcome_def)
next
  case (Some mnt)
  obtain z w1 where z: "os_pair w = (z, w1)" by (cases "os_pair w")
  show ?thesis
  proof (cases z)
    case None
    then show ?thesis using os_pairD [OF z] Some z
      by (auto simp: fuse_mount_fusermount_def comes_to_def intro!: outcome_left simp: outcome_def)
  next
    case z2: (Some fg)
    obtain f g where fg: "fg = (f, g)" by (cases fg)
    obtain pid w2 where p: "os_fork w1 = (pid, w2)" by (cases "os_fork w1")
    note fork = fork_with_socket [OF z [unfolded z2 fg] p]
    show ?thesis
    proof (cases "pid = -1")
      case True
      then show ?thesis using p z z2 fg Some fork(5) by (simp add: fuse_mount_fusermount_def comes_to_def outcome_left outcome_def)
    next
      case False
      define w3 where "w3 = os_close f (log_call (Run ([FUSERMOUNT_PROG] @ (case q of None \<Rightarrow> [] | Some s \<Rightarrow> [''-o'', s]) @ [''--'', mnt]) (Some f)) w2)"
      have w3: "calm w w3" "os_fds w3 = g # os_fds w" unfolding w3_def by (rule fork)+
      have eq: "fuse_mount_fusermount mountpoint mo q w = do {
          (rv, w4) \<leftarrow> receive_fd g w3;
          let w5 = (if mo_auto_unmount mo = 0 then os_close g w4 else w4);
          Some (rv, if 0 \<le> rv then log_call (Set_fd_flags rv 1) w5 else w5) }"
        using False p z z2 fg Some by (simp add: fuse_mount_fusermount_def w3_def Let_def)
      show ?thesis
      proof (cases "receive_fd g w3")
        case None
        then have "-2 \<in> set (os_answers w)" using receive_fdD [of w3 g] w3(1) by (auto simp: calm_def)
        then show ?thesis using None by (simp add: comes_to_def eq)
      next
        case r: (Some rw)
        obtain rv w4 where rw: "rw = (rv, w4)" by (cases rw)
        have o: "outcome w3 rv w4" using receive_fdD [of w3 g] r rw by simp
        have g4: "g \<in> set (os_fds w4)" "calm w w4" using o w3 by (auto simp: outcome_def same_fds_def intro: calm_trans)
        have close: "outcome w rv (os_close g w4)"
          using o w3 fork(3) os_closeD [OF g4(1)] calm_trans [OF g4(2)]
          by (auto simp: outcome_def same_fds_def)
        have keep: "left_open 1 w rv w4"
          unfolding left_open_def using o w3 fork(3,4) g4(2)
          by (intro exI [of _ "[g]"]) (auto simp: outcome_def same_fds_def more_fds_def)
        have lg: "left_open n w rv (log_call x v) = left_open n w rv v" for n x v
          by (simp add: left_open_def more_fds_def)
        show ?thesis using close keep by (simp add: comes_to_def eq r rw lg outcome_left Let_def)
      qed
    qed
  qed
qed

lemma setup_auto_unmountD:
  assumes "setup_auto_unmount mountpoint w = (r, w')"
  shows "r = -1 \<and> same_fds w w' \<or> r = 0 \<and> (\<exists>g. more_fds w [g] w')"
proof (cases mountpoint)
  case None
  then show ?thesis using assms by (simp add: setup_auto_unmount_def)
next
  case (Some mnt)
  obtain z w1 where z: "os_pair w = (z, w1)" by (cases "os_pair w")
  show ?thesis
  proof (cases z)
    case None
    then show ?thesis using os_pairD [OF z] Some z assms by (auto simp: setup_auto_unmount_def)
  next
    case z2: (Some fg)
    obtain f g where fg: "fg = (f, g)" by (cases fg)
    obtain pid w2 where p: "os_fork w1 = (pid, w2)" by (cases "os_fork w1")
    note fork = fork_with_socket [OF z [unfolded z2 fg] p]
    have "more_fds w [g] (os_close f (log_call x w2))" for x using fork(1-4) by (simp add: more_fds_def)
    then show ?thesis using assms Some z z2 fg p fork(5) by (auto simp: setup_auto_unmount_def Let_def split: if_splits)
  qed
qed

lemma try_mountD: "try_mount mnt mo w = (r, e, s, t, w') \<Longrightarrow> same_fds w w' \<and> r \<in> {0, -1}"
  by (auto simp: try_mount_def os_mount_def Let_def dest!: os_tryD intro: same_fds_trans split: prod.splits if_splits)

lemma enter_mtabD: "enter_mtab h s mnt t q w = (r, w') \<Longrightarrow> same_fds w w'"
  by (auto simp: enter_mtab_def dest!: resolve_fds add_mount_fds intro: same_fds_trans split: prod.splits if_splits option.splits)

lemma lazy_umountD: "same_fds w (lazy_umount m w)"
  by (auto simp: lazy_umount_def Let_def dest!: os_tryD split: prod.splits)

lemma mount_sysD:
  assumes "fuse_mount_sys h mountpoint mo q w = (r, mo', w')" "os_allocs w = []"
  shows "(r = -2 \<and> same_fds w w' \<or> outcome w r w') \<and> (\<exists>ko. mo' = mo\<lparr>mo_kernel_opts := ko\<rparr>)"
proof (cases mountpoint)
  case None
  then have "mo' = mo\<lparr>mo_kernel_opts := mo_kernel_opts mo\<rparr>" "r = -1" "w' = w" using assms by (simp_all add: fuse_mount_sys_def)
  then show ?thesis by (auto simp: outcome_def intro: exI [of _ "mo_kernel_opts mo"])
next
  case (Some mnt)
  have same: "\<exists>ko. mo = mo\<lparr>mo_kernel_opts := ko\<rparr>" by (rule exI [of _ "mo_kernel_opts mo"]) simp
  obtain r1 e1 w1 where t: "os_try w = (r1, e1, w1)" by (cases "os_try w")
  obtain fd e2 w2 where o2: "os_open DEVNAME w1 = (fd, e2, w2)" by (cases "os_open DEVNAME w1")
  have s1: "same_fds w w1" using os_tryD [OF t] by simp
  show ?thesis
  proof (cases "r1 = -1 \<or> fd = -1")
    case True
    then have "r = -1" "same_fds w w'" "mo' = mo" using assms(1) t o2 s1 os_openD [OF o2]
      by (auto simp: fuse_mount_sys_def Some Let_def intro: same_fds_trans split: if_splits)
    then show ?thesis using same by (simp add: outcome_def)
  next
    case False
    then have f2: "calm w w2" "os_fds w2 = fd # os_fds w" "fd \<notin> set (os_fds w)" "0 \<le> fd"
      using os_openD [OF o2] s1 by (auto simp: same_fds_def intro: calm_trans)
    then have a2: "os_allocs w2 = []" using assms(2) by (simp add: calm_def)
    obtain r3 ko w3 where k: "os_add_opt (mo_kernel_opts mo) (mount_data h mnt fd) w2 = (r3, ko, w3)" by (metis prod.exhaust)
    note k' = os_add_optD [OF k]
    obtain ok1 w4 ok2 w5 where m: "os_malloc w3 = (ok1, w4)" "os_malloc w4 = (ok2, w5)" by (metis prod.exhaust)
    have a3: "os_allocs w3 = []" "os_allocs w4 = []" "os_allocs w5 = []" using k' a2 os_mallocD [OF m(1)] os_mallocD [OF m(2)]
      by (auto simp: same_fds_def calm_def)
    have ok: "r3 = 0" "ok1" "ok2" using k' a2 a3 os_mallocD [OF m(1)] os_mallocD [OF m(2)] by auto
    let ?mo = "mo\<lparr>mo_kernel_opts := ko\<rparr>"
    obtain r6 e6 src ty w6 where y: "try_mount mnt ?mo w5 = (r6, e6, src, ty, w6)" by (metis prod.exhaust)
    have f5: "same_fds w2 w6" using k' os_mallocD [OF m(1)] os_mallocD [OF m(2)] try_mountD [OF y] by (blast intro: same_fds_trans)
    have fin: "same_fds w (os_close fd v)" "outcome w fd v" if "same_fds w6 v" for v
    proof -
      have v: "os_fds v = fd # os_fds w" "calm w v" using that f5 f2 by (auto simp: same_fds_def intro: calm_trans)
      show "outcome w fd v" using v f2 by (simp add: outcome_def)
      show "same_fds w (os_close fd v)" using v os_closeD [of fd v] by (auto simp: same_fds_def intro: calm_trans)
    qed
    have eq: "fuse_mount_sys h mountpoint mo q w =
        (if r6 = -1 then
           (if e6 = EPERM then (-2, ?mo, os_close fd w6)
            else (-1, ?mo, os_close fd (if mo_blkdev mo \<noteq> 0 \<and> e6 = ENODEV then snd (fuse_mnt_check_fuseblk h w6) else w6)))
         else (let (res, w7) = enter_mtab h src mnt ty q w6 in
               if res = -1 then (-1, ?mo, os_close fd (lazy_umount mnt w7)) else (fd, ?mo, w7)))"
      using False ok by (simp add: fuse_mount_sys_def Some t o2 k m y Let_def)
    obtain r7 w7 where z: "enter_mtab h src mnt ty q w6 = (r7, w7)" by (cases "enter_mtab h src mnt ty q w6")
    obtain b wb where cb: "fuse_mnt_check_fuseblk h w6 = (b, wb)" by (cases "fuse_mnt_check_fuseblk h w6")
    have u: "same_fds w6 (lazy_umount mnt w7)" using enter_mtabD [OF z] lazy_umountD by (rule same_fds_trans)
    have c: "same_fds w (os_close fd w6)" "same_fds w (os_close fd wb)" "same_fds w (os_close fd (lazy_umount mnt w7))" "outcome w fd w7"
      using fin(1) [OF same_fds_refl] fin(1) [OF check_fuseblk_fds [OF cb]] fin(2) [OF enter_mtabD [OF z]] fin(1) [OF u] by blast+
    have out: "outcome w (-1) v" if "same_fds w v" for v using that by (simp add: outcome_def)
    have mo': "mo' = ?mo" using assms(1) unfolding eq z by (simp split: if_splits)
    consider "r6 = -1" "e6 = EPERM" | "r6 = -1" "e6 \<noteq> EPERM" | "r6 \<noteq> -1" "r7 = -1" | "r6 \<noteq> -1" "r7 \<noteq> -1" by blast
    then have "r = -2 \<and> same_fds w w' \<or> outcome w r w'"
    proof cases
      case 2
      then show ?thesis using assms(1) out [OF c(1)] out [OF c(2)] unfolding eq cb by (simp split: if_splits)
    qed (use assms(1) out [OF c(3)] c(1,4) in \<open>simp_all add: eq z\<close>)
    then show ?thesis using mo' by blast
  qed
qed

lemma kern_mount_optsD:
  assumes "kern_mount_opts mo w = (r, o1, w')" "os_allocs w = []"
  shows "r = 0 \<and> same_fds w w' \<and> o1 \<noteq> None \<and> os_allocs w' = []"
proof -
  have "join_escaped (flag_words (mo_flags mo)) \<noteq> None"
    using flag_words_ok [of "mo_flags mo"] by (cases "flag_words (mo_flags mo)") (auto simp: join_escaped_Cons plain_word_def)
  then obtain t where t: "get_mnt_flag_opts (mo_flags mo) None w = (0, Some t, w)"
    unfolding flag_opts_text [OF assms(2), of "mo_flags mo"] by (cases "join_escaped (flag_words (mo_flags mo))") simp_all
  obtain r2 o2 w2 where a: "add_when (Some t) (mo_kernel_opts mo) w = (r2, o2, w2)" by (metis prod.exhaust)
  obtain r3 o3 w3 where b: "add_when o2 (mo_mtab_opts mo) w2 = (r3, o3, w3)" by (metis prod.exhaust)
  note a' = add_whenD [OF a] and b' = add_whenD [OF b]
  have "os_allocs w2 = []" using a' assms(2) by (auto simp: same_fds_def calm_def)
  moreover have "os_allocs w3 = []" using b' \<open>os_allocs w2 = []\<close> by (auto simp: same_fds_def calm_def)
  ultimately show ?thesis using assms a' b' unfolding kern_mount_opts_def t by (auto simp: a b intro: same_fds_trans)
qed

lemma helped_mountD:
  assumes "os_allocs w = []" "o1 \<noteq> None" "mo_subtype mo \<noteq> None \<longrightarrow> mo_subtype_opt mo \<noteq> None"
  shows "comes_to (if mo_auto_unmount mo = 0 then 0 else 2) w (helped_mount mountpoint mo o1 w)"
proof -
  let ?n = "if mo_auto_unmount mo = 0 then 0 else 1 :: nat"
  obtain r1 o2 w1 where a: "add_when o1 (mo_fusermount_opts mo) w = (r1, o2, w1)" by (metis prod.exhaust)
  have a': "same_fds w w1" "r1 = 0" "o2 \<noteq> None" using add_whenD [OF a] assms(1,2) by auto
  have more: "left_open ?n v r v' \<Longrightarrow> left_open (if mo_auto_unmount mo = 0 then 0 else 2) v r v'" for v r v'
    unfolding left_open_def by (elim exE conjE, rule exI, rule conjI) (auto split: if_splits)
  have fm: "comes_to (if mo_auto_unmount mo = 0 then 0 else 2) w (fuse_mount_fusermount mountpoint mo q v)" if "same_fds w v" for q v
    using comes_to_after [OF that fusermountD [of mo v mountpoint q]] more by (auto simp: comes_to_def split: option.splits)
  show ?thesis
  proof (cases "mo_subtype mo")
    case None
    then show ?thesis using fm [OF a'(1), of o2] a'(2) by (simp add: helped_mount_def a)
  next
    case (Some t)
    obtain s2 st where s2: "o2 = Some s2" "mo_subtype_opt mo = Some st" using a'(3) assms(3) Some by auto
    obtain r2 t1 w2 where b: "os_add_opt None s2 w1 = (r2, t1, w2)" by (metis prod.exhaust)
    obtain r3 t2 w3 where c: "os_add_opt t1 st w2 = (r3, t2, w3)" by (metis prod.exhaust)
    have al: "os_allocs w1 = []" using a'(1) assms(1) by (auto simp: same_fds_def calm_def)
    then have b': "r2 = 0" "same_fds w1 w2" "os_allocs w2 = []" using os_add_optD [OF b] by (auto simp: same_fds_def calm_def)
    then have c': "r3 = 0" "same_fds w w3" using os_add_optD [OF c] a'(1) by (auto intro: same_fds_trans)
    have eq: "helped_mount mountpoint mo o1 w = do {
        (res, w4) \<leftarrow> fuse_mount_fusermount mountpoint mo t2 w3;
        if res = -1 then fuse_mount_fusermount mountpoint mo o2 w4 else Some (res, w4) }"
      unfolding s2(1) using a'(2) b'(1) c'(1) Some by (simp add: helped_mount_def a b c s2)
    have first: "comes_to ?n w (fuse_mount_fusermount mountpoint mo t2 w3)" by (rule comes_to_after [OF c'(2) fusermountD])
    show ?thesis
    proof (cases "fuse_mount_fusermount mountpoint mo t2 w3")
      case None
      then show ?thesis using first by (simp add: comes_to_def eq)
    next
      case v: (Some rv)
      obtain r w4 where rv: "rv = (r, w4)" by (cases rv)
      have l: "left_open ?n w r w4" using first by (simp add: comes_to_def v rv)
      then have "set (os_answers w4) \<subseteq> set (os_answers w)" by (auto simp: left_open_def more_fds_def calm_def)
      moreover have "?n + ?n = (if mo_auto_unmount mo = 0 then 0 else 2)" by simp
      ultimately have second: "comes_to (if mo_auto_unmount mo = 0 then 0 else 2) w (fuse_mount_fusermount mountpoint mo o2 w4)" if "r = -1"
        using left_open_after [OF l [unfolded that]] fusermountD [of mo w4 mountpoint o2]
        by (auto simp: comes_to_def numeral_2_eq_2 split: option.splits)
      show ?thesis
      proof (cases "r = -1")
        case True
        then show ?thesis using second by (simp add: eq v rv)
      next
        case False
        then show ?thesis using more [OF l] by (simp add: comes_to_def eq v rv)
      qed
    qed
  qed
qed

lemma kern_mountD:
  assumes "os_allocs w = []" "mo_subtype mo \<noteq> None \<longrightarrow> mo_subtype_opt mo \<noteq> None"
  shows "comes_to (if mo_auto_unmount mo = 0 then 0 else 2) w
    (map_option (\<lambda>(r, mo', w'). (r, w')) (fuse_kern_mount h mountpoint mo w))" (is "comes_to ?n w _")
proof -
  obtain r1 o1 w1 where a: "kern_mount_opts mo w = (r1, o1, w1)" by (metis prod.exhaust)
  note a' = kern_mount_optsD [OF a assms(1)]
  obtain r2 mo2 w2 where b: "fuse_mount_sys h mountpoint mo (case o1 of None \<Rightarrow> [] | Some s \<Rightarrow> s) w1 = (r2, mo2, w2)" by (metis prod.exhaust)
  have a1: "os_allocs w1 = []" using a' by blast
  note b' = mount_sysD [OF b a1]
  have mo2: "mo_auto_unmount mo2 = mo_auto_unmount mo" "mo_subtype mo2 \<noteq> None \<longrightarrow> mo_subtype_opt mo2 \<noteq> None"
    using b' assms(2) by auto
  have eq: "fuse_kern_mount h mountpoint mo w =
      (if 0 \<le> r2 \<and> mo_auto_unmount mo \<noteq> 0 then
          (let (r, w3) = setup_auto_unmount mountpoint w2 in
           if r < 0 then Some (-1, mo2, case mountpoint of None \<Rightarrow> w3 | Some mnt \<Rightarrow> lazy_umount mnt w3) else Some (r2, mo2, w3))
        else if r2 = -2 then do { (res, w3) \<leftarrow> helped_mount mountpoint mo2 o1 w2; Some (res, mo2, w3) }
        else Some (r2, mo2, w2))"
    using a' by (simp add: fuse_kern_mount_def a b)
  have "r2 = -2 \<and> same_fds w w2 \<or> outcome w r2 w2"
    using b' a' outcome_after [of w w1 r2 w2] same_fds_trans [of w w1 w2] by blast
  then consider "r2 = -2" "same_fds w w2" | "outcome w r2 w2" "r2 = -1 \<or> mo_auto_unmount mo = 0" "r2 \<noteq> -2"
    | "outcome w r2 w2" "0 \<le> r2" "mo_auto_unmount mo \<noteq> 0"
    by (cases "mo_auto_unmount mo = 0") (auto simp: outcome_def)
  then show ?thesis
  proof cases
    case 1
    then have "os_allocs w2 = []" using assms(1) by (auto simp: same_fds_def calm_def)
    then have "comes_to ?n w (helped_mount mountpoint mo2 o1 w2)"
      using comes_to_after [OF 1(2) helped_mountD [of w2 o1 mo2 mountpoint]] a' mo2 by simp
    moreover have "map_option (\<lambda>(r, mo', w'). (r, w')) (fuse_kern_mount h mountpoint mo w) = helped_mount mountpoint mo2 o1 w2"
      using 1(1) by (cases "helped_mount mountpoint mo2 o1 w2") (auto simp: eq)
    ultimately show ?thesis by simp
  next
    case 2
    then show ?thesis using outcome_left [OF 2(1)] by (auto simp: comes_to_def eq)
  next
    case 3
    obtain r3 w3 where c: "setup_auto_unmount mountpoint w2 = (r3, w3)" by (cases "setup_auto_unmount mountpoint w2")
    have dev: "more_fds w [r2] w2" using 3 by (auto simp: outcome_def more_fds_def)
    let ?v = "case mountpoint of None \<Rightarrow> w3 | Some mnt \<Rightarrow> lazy_umount mnt w3"
    have lz: "same_fds w3 ?v" using lazy_umountD by (cases mountpoint) auto
    show ?thesis
    proof (cases "r3 < 0")
      case True
      then have "same_fds w2 w3" using setup_auto_unmountD [OF c] by auto
      from more_fds_trans [OF dev same_more [OF same_fds_trans [OF this lz]]]
      have "left_open 2 w (-1) ?v" unfolding left_open_def by (intro exI [of _ "[r2]"]) simp
      then show ?thesis using 3 True by (simp add: comes_to_def eq c)
    next
      case False
      then obtain g where "more_fds w2 [g] w3" using setup_auto_unmountD [OF c] by auto
      from more_fds_trans [OF dev this] have "left_open 2 w r2 w3"
        unfolding left_open_def using 3(2) by (intro exI [of _ "[g]"]) simp
      then show ?thesis using 3 False by (simp add: comes_to_def eq c)
    qed
  qed
qed


lemma parse_mount_typed:
  "\<exists>mo args'. parse_mount_opts al sc args = Some (mo, args') \<and> (\<forall>m. mo = Some m \<longrightarrow> (\<exists>d. typed_opts d \<and> m = mount_opts_of d))"
proof -
  have d0: "typed_opts [4 \<mapsto> OInt (or MS_NOSUID MS_NODEV)]" by (simp add: typed_opts_def flag_mask ms_defs)
  obtain ok al1 where a: "alloc_next al = (ok, al1)" by (cases "alloc_next al")
  show ?thesis
  proof (cases "ok \<and> args \<noteq> None")
    case True
    obtain res args1 d where "fuse_opt_parse al1 sc args [4 \<mapsto> OInt (or MS_NOSUID MS_NODEV)] fuse_mount_opts (Some fuse_mount_opt_proc) =
      Some (res, args1, d)" "typed_opts d" using mount_client.parse_keeps [OF d0, of al1 sc args] by blast
    then show ?thesis using True a by (auto simp: parse_mount_opts_def)
  next
    case False
    then show ?thesis using d0 a by (auto simp: parse_mount_opts_def)
  qed
qed

lemma mount_opts_flags:
  assumes "parse_mount_opts al sc args = Some (mo, args')" "mo = Some m"
  shows "and (mo_flags m) (not flag_mask) = 0"
  using parse_mount_typed [of al sc args] assms by (auto simp: typed_opts_def mount_opts_of_def int_at_def)

section \<open>What the options mean\<close>

text \<open>
  The options as a user writes them, and what each is to do to the options of the mount: flags by the number of
  their bit, switches and values by name, and the text passed on to the kernel or to \<open>fusermount3\<close>.
\<close>

datatype mount_option =
  Allow_other
| Auto_unmount
| Blkdev
| Default_permissions
| Fsname string
| Subtype string
| Max_read nat
| Flag_option string

text \<open>The words for flags: the bit each of them sets or clears.\<close>

definition flag_options :: "(string \<times> nat \<times> bool) list" where
  "flag_options =
     [(''ro'', 0, True), (''rw'', 0, False), (''nosuid'', 1, True), (''suid'', 1, False), (''nodev'', 2, True), (''dev'', 2, False),
      (''noexec'', 3, True), (''exec'', 3, False), (''sync'', 4, True), (''async'', 4, False), (''dirsync'', 7, True),
      (''noatime'', 10, True), (''nodiratime'', 11, True), (''nostrictatime'', 24, False)]"

fun mount_word :: "mount_option \<Rightarrow> string" where
  "mount_word Allow_other = ''allow_other''"
| "mount_word Auto_unmount = ''auto_unmount''"
| "mount_word Blkdev = ''blkdev''"
| "mount_word Default_permissions = ''default_permissions''"
| "mount_word (Fsname s) = ''fsname='' @ s"
| "mount_word (Subtype s) = ''subtype='' @ s"
| "mount_word (Max_read n) = ''max_read='' @ dec n"
| "mount_word (Flag_option w) = w"

fun mount_word_ok :: "mount_option \<Rightarrow> bool" where
  "mount_word_ok (Fsname s) = c_str s"
| "mount_word_ok (Subtype s) = c_str s"
| "mount_word_ok (Max_read n) = (n < 2 ^ 32)"
| "mount_word_ok (Flag_option w) = (w \<in> fst ` set flag_options)"
| "mount_word_ok _ = True"

text \<open>A text is added to a list of texts; a flag is switched.\<close>

definition listed :: "string option \<Rightarrow> string \<Rightarrow> string option" where
  "listed l s = Some (case l of None \<Rightarrow> s | Some t \<Rightarrow> if t = [] then s else t @ '','' @ s)"

definition switched :: "(nat \<times> bool) option \<Rightarrow> int \<Rightarrow> int" where
  "switched x f = (case x of None \<Rightarrow> f | Some (n, on) \<Rightarrow> if on then set_bit n f else unset_bit n f)"

fun mount_meaning :: "mount_option \<Rightarrow> mount_opts \<Rightarrow> mount_opts" where
  "mount_meaning Allow_other m = m\<lparr>mo_allow_other := 1, mo_kernel_opts := listed (mo_kernel_opts m) ''allow_other''\<rparr>"
| "mount_meaning Auto_unmount m = m\<lparr>mo_auto_unmount := 1, mo_fusermount_opts := listed (mo_fusermount_opts m) ''auto_unmount''\<rparr>"
| "mount_meaning Blkdev m = m\<lparr>mo_blkdev := 1, mo_fusermount_opts := listed (mo_fusermount_opts m) ''blkdev''\<rparr>"
| "mount_meaning Default_permissions m = m\<lparr>mo_kernel_opts := listed (mo_kernel_opts m) ''default_permissions''\<rparr>"
| "mount_meaning (Fsname s) m = m\<lparr>mo_fsname := Some s, mo_fusermount_opts := listed (mo_fusermount_opts m) (escape_opt True (''fsname='' @ s))\<rparr>"
| "mount_meaning (Subtype s) m = m\<lparr>mo_subtype := Some s, mo_subtype_opt := listed (mo_subtype_opt m) (''subtype='' @ s)\<rparr>"
| "mount_meaning (Max_read n) m = m\<lparr>mo_maxread := int n, mo_kernel_opts := listed (mo_kernel_opts m) (''max_read='' @ dec n)\<rparr>"
| "mount_meaning (Flag_option w) m = m\<lparr>mo_flags := switched (map_of flag_options w) (mo_flags m)\<rparr>"

text \<open>The templates of each option.\<close>

lemmas template_run = fuse_mount_opts_def stores_at_def key_opt_def match_template_def template_sep_def strprefix_def

lemma words_match:
  "matching fuse_mount_opts (mount_word Allow_other) = [(stores_at ''allow_other'' 0, 0), (key_opt ''allow_other'' KEY_KERN_OPT, 0)]"
  "matching fuse_mount_opts (mount_word Auto_unmount) = [(stores_at ''auto_unmount'' 8, 0), (key_opt ''auto_unmount'' KEY_FUSERMOUNT_OPT, 0)]"
  "matching fuse_mount_opts (mount_word Blkdev) = [(stores_at ''blkdev'' 12, 0), (key_opt ''blkdev'' KEY_FUSERMOUNT_OPT, 0)]"
  "matching fuse_mount_opts (mount_word Default_permissions) = [(key_opt ''default_permissions'' KEY_KERN_OPT, 0)]"
  by (simp_all add: template_run)

lemma fsname_match:
  "matching fuse_mount_opts (mount_word (Fsname s)) = [(stores_at ''fsname=%s'' 16, 6), (key_opt ''fsname='' KEY_FUSERMOUNT_OPT, 6)]"
  by (simp add: template_run)

lemma subtype_match:
  "matching fuse_mount_opts (mount_word (Subtype s)) = [(stores_at ''subtype=%s'' 24, 7), (key_opt ''subtype='' KEY_SUBTYPE_OPT, 7)]"
  by (simp add: template_run)

lemma max_read_match:
  "matching fuse_mount_opts (mount_word (Max_read n)) = [(stores_at ''max_read=%u'' 64, 8), (key_opt ''max_read='' KEY_KERN_OPT, 8)]"
  by (simp add: template_run)

lemma flags_match_all: "list_all (\<lambda>w. matching fuse_mount_opts w = [(key_opt w KEY_KERN_FLAG, 0)]) (map fst flag_options)"
  by code_simp

lemma flags_match: "w \<in> fst ` set flag_options \<Longrightarrow> matching fuse_mount_opts w = [(key_opt w KEY_KERN_FLAG, 0)]"
  using flags_match_all by (auto simp: list_all_iff)

lemma flags_set: "w \<in> fst ` set flag_options \<Longrightarrow> set_mount_flag w f = Some (switched (map_of flag_options w) f)"
  by (auto simp: flag_options_def set_mount_flag_def mount_flags_def ms_defs switched_def set_bit_eq_or unset_bit_eq_and_not)

lemma plain_text [simp]: "escape_opt False s = s" by (induction s) auto

lemma add_to_listed: "add_to esc x d w out [] = Some (0, d(x \<mapsto> OStr (the (listed (str_at d x) (escape_opt esc w)))), out, [])"
  by (simp add: add_to_def add_opt_common_def listed_def split: option.splits)

lemma the_listed [simp]: "Some (the (listed l s)) = listed l s" by (simp add: listed_def)

lemma mount_case:
  assumes "copt c = fuse_mount_opts" "proc c = Some fuse_mount_opt_proc" "scan c = sc" "cmem c = []" "scans_unsigned sc"
    and "mount_word_ok x"
  shows "\<exists>d. process_gopt c (mount_word x) True = Some (0, c\<lparr>cdata := d\<rparr>) \<and>
    mount_opts_of d = mount_meaning x (mount_opts_of (cdata c))"
proof -
  note step = process_gopt_matches words_match fsname_match subtype_match max_read_match
    match_stores match_string match_client stores_at_def key_opt_def mount_keys key_defs fuse_mount_opt_proc_def add_to_listed
  note view = mount_opts_of_def str_at_def int_at_def
  have behind: "drop 7 (mount_word (Fsname s)) = s" "drop 8 (mount_word (Subtype s)) = s" "drop 9 (mount_word (Max_read n)) = dec n" for s n
    by simp_all
  show ?thesis
  proof (cases x)
    case (Max_read n)
    then have "sc ''%u'' (dec n) = Some (OInt (int n))" using assms(5,6) by (simp add: scans_unsigned_def)
    then show ?thesis using assms(1-4) Max_read
      by (simp add: step behind match_number del: one_match.simps mount_word.simps) (rule exI, rule conjI [OF refl], simp add: view)
  next
    case (Flag_option w)
    then have w: "w \<in> fst ` set flag_options" using assms(6) by simp
    then show ?thesis using assms(1-4) Flag_option
      by (simp add: step flags_match [OF w] flags_set [OF w] del: one_match.simps) (rule exI, rule conjI [OF refl], simp add: view)
  qed (insert assms(1-4), (simp add: step behind del: one_match.simps mount_word.simps, rule exI, rule conjI [OF refl], simp add: view)+)
qed

lemma mount_words_ok: "mount_word_ok x \<Longrightarrow> c_str (mount_word x) \<and> mount_word x \<noteq> []"
proof (cases x)
  case (Max_read n)
  have "\<forall>c \<in> set (dec n). c \<noteq> NUL" using dec_digits [of n] by (auto simp: is_digit_def digit_of_def)
  then show ?thesis using Max_read by (auto simp: c_str_def)
qed (auto simp: flag_options_def c_str_def)

interpretation mount_words: options_mean fuse_mount_opts "Some fuse_mount_opt_proc" sc
  "\<lambda>x. scans_unsigned sc \<and> mount_word_ok x" mount_word mount_opts_of mount_meaning for sc
  by unfold_locales (use mount_words_ok mount_case in blast)+

text \<open>Before the first option: \<open>nosuid\<close> and \<open>nodev\<close>.\<close>

definition mount_defaults :: mount_opts where
  "mount_defaults =
     \<lparr>mo_allow_other = 0, mo_flags = 6, mo_auto_unmount = 0, mo_blkdev = 0, mo_fsname = None, mo_subtype = None,
      mo_subtype_opt = None, mo_mtab_opts = None, mo_fusermount_opts = None, mo_kernel_opts = None, mo_maxread = 0\<rparr>"

lemma parse_mount_words:
  assumes "scans_unsigned sc" "\<forall>x \<in> set xs. mount_word_ok x" "join_escaped (map mount_word xs) = Some t"
  shows "parse_mount_opts [] sc (Some (two_args prog t b)) =
    Some (Some (fold mount_meaning xs mount_defaults), Some (args_left prog))"
proof -
  have "mount_opts_of [4 \<mapsto> OInt (or MS_NOSUID MS_NODEV)] = mount_defaults"
    by (simp add: mount_opts_of_def mount_defaults_def int_at_def str_at_def ms_defs)
  then show ?thesis using mount_words.command_line_means [of xs sc t prog b "[4 \<mapsto> OInt (or MS_NOSUID MS_NODEV)]"] assms
    by (auto simp: parse_mount_opts_def)
qed


section \<open>An example\<close>

definition one_arg :: "bool \<Rightarrow> fuse_args" where
  "one_arg b = \<lparr>argv = Some [''modelfs''], allocated = b\<rparr>"

lemma parse_one_arg: "fuse_opt_parse [] sc (Some (one_arg b)) d os p = Some (0, Some (one_arg True), d)"
  by (simp add: one_arg_def fuse_opt_parse_def init_context_def opt_parse_def add_arg_def fuse_opt_add_arg_def opt_loop.simps
      insert_opts_def drop_separator_def argc_def args_list_def empty_args_def Let_def)

definition demo_words :: "mount_option list" where
  "demo_words = [Max_read 4096, Fsname ''a,b'', Flag_option ''suid'', Flag_option ''ro'', Allow_other, Flag_option ''rw'']"

definition demo_group :: string where
  "demo_group = ''max_read=4096,fsname=a'' @ CHR 0x5C # '',b,suid,ro,allow_other,rw''"

lemma dec_4096: "dec 4096 = ''4096''"
  by (subst dec.simps, subst dec.simps, subst dec.simps, subst dec.simps) (simp add: char_of_def bit_iff_odd)

lemma demo_words:
  "list_all mount_word_ok demo_words"
  "join_escaped (map mount_word demo_words) = Some demo_group"
  "fold mount_meaning demo_words mount_defaults =
     mount_defaults\<lparr>mo_maxread := 4096, mo_kernel_opts := Some ''max_read=4096,allow_other'', mo_fsname := Some ''a,b'',
       mo_fusermount_opts := Some (''fsname=a'' @ CHR 0x5C # '',b''), mo_flags := 4, mo_allow_other := 1\<rparr>"
    apply (simp add: demo_words_def flag_options_def c_str_def)
   apply (simp add: demo_words_def demo_group_def join_escaped_Cons dec_4096)
  apply (simp add: demo_words_def dec_4096 listed_def switched_def flag_options_def mount_defaults_def set_bit_eq_or unset_bit_eq_and_not)
  done


definition demo_host :: host where
  "demo_host = \<lparr>h_uid = 1000, h_gid = 1000, h_euid = 1000, h_mode = (\<lambda>_. 16877), h_realpath = Some, h_glibc = True, h_filesystems = []\<rparr>"

definition demo_mount :: mount_opts where
  "demo_mount =
     \<lparr>mo_allow_other = 0, mo_flags = 6, mo_auto_unmount = 0, mo_blkdev = 0, mo_fsname = None, mo_subtype = Some ''modelfs'',
      mo_subtype_opt = Some ''subtype=modelfs'', mo_mtab_opts = None, mo_fusermount_opts = None, mo_kernel_opts = None, mo_maxread = 0\<rparr>"

definition demo_os :: "int list \<Rightarrow> allocs \<Rightarrow> os" where
  "demo_os as al = \<lparr>os_fds = [2, 1, 0], os_answers = as, os_log = [], bad_close = False, os_allocs = al\<rparr>"


section \<open>Where mounting does not keep to its purpose\<close>

definition mount_result :: "(int \<times> mount_opts \<times> os) option \<Rightarrow> (int \<times> int list) option" where
  "mount_result x = map_option (\<lambda>(r, _, w). (r, os_fds w)) x"

lemmas mount_run = mount_result_def fuse_kern_mount_def kern_mount_opts_def get_mnt_flag_opts_def mount_flags_def ms_defs os_add_opt_def
  fuse_opt_add_opt_def add_opt_common_def demo_mount_def demo_os_def demo_host_def add_when_def fuse_mount_sys_def os_try_def ask_def
  os_open_def add_fd_def new_fd_def os_malloc_def os_close_def try_mount_def os_mount_def log_call_def setup_auto_unmount_def
  os_pair_def lazy_umount_def helped_mount_def fuse_mount_fusermount_def os_fork_def receive_fd_def enter_mtab_def EPERM_def
  ENODEV_def EINTR_def Let_def

text \<open>When there is no memory for the name of the source, the device is closed and the result is 0, which
  callers take for a descriptor.\<close>

lemma lost_memory_returns_zero:
  "mount_result (fuse_kern_mount demo_host (Some ''/mnt'') demo_mount (demo_os [] [True, True, True, True, False])) = Some (0, [2, 1, 0])"
  by (simp add: mount_run)

text \<open>When the helper that unmounts at the end cannot be started, the device stays open although the mount fails.\<close>

lemma failed_auto_unmount_leaks_device:
  "mount_result (fuse_kern_mount demo_host (Some ''/mnt'') (demo_mount\<lparr>mo_auto_unmount := 1\<rparr>) (demo_os [0, 0, 0, 24] [])) = Some (-1, [3, 2, 1, 0])"
  by (simp add: mount_run)

text \<open>When there is no memory for the options of \<open>fusermount3\<close>, the result is the internal code -2.\<close>

lemma lost_memory_returns_internal_code:
  "mount_result (fuse_kern_mount demo_host (Some ''/mnt'') (demo_mount\<lparr>mo_fusermount_opts := Some ''fsname=m''\<rparr>)
     (demo_os [0, 0, 1] [True, True, True, True, True, True, False])) = Some (-2, [2, 1, 0])"
  by (simp add: mount_run)

text \<open>A message without control data makes \<open>receive_fd\<close> follow a null pointer.\<close>

lemma message_without_descriptor_crashes:
  "fuse_kern_mount demo_host (Some ''/mnt'') demo_mount (demo_os [0, 0, 1, 0, 0, -2] []) = None"
  by (simp add: mount_run)

end
