(* ===== verification/Setup.thy ===== *)
theory Setup
  imports MountRuns Receive
begin

text \<open>
  Setting up and taking down a session, \<open>lib/fuse_lowlevel.c\<close>: \<open>fuse_session_new\<close>, mounting, custom I/O,
  \<open>fuse_session_destroy\<close>, and the groups of a caller.

  The fields of \<open>struct fuse_session\<close> that matter after the set-up are the record \<open>session\<close> of the other
  theories; here it is one component of a larger record.
\<close>

section \<open>The session\<close>

record fuse_session =
  ll :: session
  mountpoint :: "string option"
  se_fd :: int
  se_mo :: "mount_opts option"
  se_debug :: int

text \<open>Offsets in the struct: \<open>debug\<close> at 32, \<open>deny_others\<close> at 36.\<close>

definition fuse_ll_opts :: "fuse_opt list" where
  "fuse_ll_opts = [stores_at ''debug'' 32, stores_at ''-d'' 32, stores_at ''--debug'' 32, stores_at ''allow_root'' 36]"

definition FUSE_MAX_MAX_PAGES :: nat where "FUSE_MAX_MAX_PAGES = 256"

definition UINT_MAX :: u32 where "UINT_MAX = 0xffffffff"

text \<open>The operations in the order of \<open>struct fuse_lowlevel_ops\<close>, eight bytes each; only the first \<open>op_size\<close> bytes
  of the caller's struct are taken over.\<close>

definition ll_ops :: "ll_op list" where
  "ll_ops =
     [Op_init, Op_destroy, Op_lookup, Op_forget, Op_getattr, Op_setattr, Op_readlink, Op_mknod, Op_mkdir, Op_unlink, Op_rmdir,
      Op_symlink, Op_rename, Op_link, Op_open, Op_read, Op_write, Op_flush, Op_release, Op_fsync, Op_opendir, Op_readdir,
      Op_releasedir, Op_fsyncdir, Op_statfs, Op_setxattr, Op_getxattr, Op_listxattr, Op_removexattr, Op_access, Op_create,
      Op_getlk, Op_setlk, Op_bmap, Op_ioctl, Op_poll, Op_write_buf, Op_retrieve_reply, Op_forget_multi, Op_flock, Op_fallocate,
      Op_readdirplus, Op_copy_file_range, Op_lseek]"

definition copied_ops :: "nat \<Rightarrow> (ll_op \<Rightarrow> bool) \<Rightarrow> ll_op \<Rightarrow> bool" where
  "copied_ops op_size ops o1 = (ops o1 \<and> o1 \<in> set (take (min op_size (8 * length ll_ops) div 8) ll_ops))"

definition zero_conn :: fuse_conn_info where
  "zero_conn = \<lparr>proto_major = 0, proto_minor = 0, max_write = UINT_MAX, max_read = 0, max_readahead = UINT_MAX, capable = 0,
     want = 0, max_background = 0, congestion_threshold = 0, time_gran = 0\<rparr>"

definition blank_session :: "host \<Rightarrow> nat \<Rightarrow> (ll_op \<Rightarrow> bool) \<Rightarrow> bool \<Rightarrow> mount_opts \<Rightarrow> session" where
  "blank_session h psize ops deny mo =
     \<lparr>exited = False, custom_io = None, mo_max_read = word_of_int (get_max_read mo), deny_others = deny, has_op = ops,
      got_init = False, is_cuse = False, owner = of_nat (h_uid h), conn = zero_conn, se_list = [], interrupts = [],
      got_destroy = False, broken_splice_nonblock = False, notify_ctr = 1, notify_list = [],
      bufsize = FUSE_MAX_MAX_PAGES * psize + FUSE_BUFFER_HEADER_SIZE, se_error = 0, pagesize = psize, glibc = h_glibc h,
      req_heap = (\<lambda>_. None), req_next = 0, chan_ctr = (\<lambda>_. 0), sent = [], write_results = [], s_allocs = [], called = []\<rparr>"

text \<open>The answers of the allocations: \<open>al\<close> those of \<open>fuse_session_new\<close> itself, \<open>al1\<close> and \<open>al2\<close> those of the two
  runs of the option parser.  \<open>key_err\<close> is the result of \<open>pthread_key_create\<close>.\<close>

definition fuse_session_new ::
  "host \<Rightarrow> nat \<Rightarrow> allocs \<Rightarrow> allocs \<Rightarrow> allocs \<Rightarrow> (string \<Rightarrow> string \<Rightarrow> opt_var option) \<Rightarrow> int \<Rightarrow> fuse_args \<Rightarrow> (ll_op \<Rightarrow> bool) \<Rightarrow> nat
     \<Rightarrow> (fuse_session option \<times> fuse_args) option" where
  "fuse_session_new h psize al al1 al2 sc key_err args ops op_size =
     (if argc args = 0 then Some (None, args)
      else
        let (ok, al3) = alloc_next al in
        if \<not> ok then Some (None, args)
        else do {
          (res, args1, d) \<leftarrow> fuse_opt_parse al1 sc (Some args) Map.empty fuse_ll_opts None;
          args1 \<leftarrow> args1;
          if res = -1 then Some (None, args1)
          else do {
            (res, _, args2) \<leftarrow> (if int_at d 36 \<noteq> 0 then fuse_opt_add_arg al3 args1 ''-oallow_other'' else Some (0, al3, args1));
            if res = -1 then Some (None, args2)
            else do {
              (mo, args3) \<leftarrow> parse_mount_opts al2 sc (Some args2);
              args3 \<leftarrow> args3;
              (case mo of
                 None \<Rightarrow> Some (None, args3)
               | Some mo \<Rightarrow>
                   if argc args3 \<noteq> 1 then Some (None, fuse_opt_free_args args3)
                   else if key_err \<noteq> 0 then Some (None, fuse_opt_free_args args3)
                   else Some (Some \<lparr>ll = blank_session h psize (copied_ops op_size ops) (int_at d 36 \<noteq> 0) mo, mountpoint = None,
                                    se_fd = -1, se_mo = Some mo, se_debug = int_at d 32\<rparr>, args3)) } } })"

text \<open>The functions of the caller: whether \<open>read\<close> and \<open>writev\<close> are there, and the two for splicing.  The error
  number of \<open>malloc\<close> is ENOMEM.\<close>

definition fuse_session_custom_io :: "fuse_session \<Rightarrow> (bool \<times> bool \<times> bool \<times> bool) option \<Rightarrow> int \<Rightarrow> os \<Rightarrow> int \<times> fuse_session \<times> os" where
  "fuse_session_custom_io s io fd w =
     (if fd < 0 then (- EBADF, s, w)
      else
        (case io of
           None \<Rightarrow> (- EINVAL, s, w)
         | Some (has_read, has_writev, splice_receive, splice_send) \<Rightarrow>
             if \<not> has_read \<or> \<not> has_writev then (- EINVAL, s, w)
             else
               let (ok, w1) = os_malloc w in
               if \<not> ok then (- ENOMEM, s, w1)
               else (0, s\<lparr>se_fd := fd, ll := (ll s)\<lparr>custom_io := Some (splice_send, splice_receive)\<rparr>\<rparr>, w1)))"

section \<open>Mounting\<close>

text \<open>Descriptors 0, 1 and 2 are opened first.  Each round opens the lowest that is free.\<close>

lemma os_open_std: "os_open p w = (f, e, w') \<Longrightarrow> 0 \<le> f \<Longrightarrow> os_fds w' = f # os_fds w \<and> f \<notin> set (os_fds w)"
  using os_openD [of p w f e w'] by auto

function open_std :: "os \<Rightarrow> os" where
  "open_std w =
     (let (f, _, w1) = os_open ''/dev/null'' w in
      if 0 \<le> f \<and> f \<le> 2 then open_std w1 else if 2 < f then os_close f w1 else w1)"
  by pat_completeness auto
termination
proof (relation "measure (\<lambda>w. card ({0, 1, 2} - set (os_fds w)))")
  fix w :: os and x f y e w1
  assume a: "x = os_open ''/dev/null'' w" "(f, y) = x" "(e, w1) = y" "0 \<le> f \<and> f \<le> 2"
  then have "os_fds w1 = f # os_fds w" "f \<notin> set (os_fds w)" using os_open_std [of "''/dev/null''" w f e w1] by auto
  moreover have "f \<in> {0, 1, 2}" using a(4) by auto
  ultimately have "{0, 1, 2} - set (os_fds w1) \<subset> {0, 1, 2} - set (os_fds w)" by auto
  then show "(w1, w) \<in> measure (\<lambda>w. card ({0, 1, 2} - set (os_fds w)))" by (simp add: psubset_card_mono)
qed simp

declare open_std.simps [simp del]

text \<open>\<open>fcntl (fd, F_GETFD)\<close> fails unless the descriptor is open.\<close>

definition fuse_session_mount :: "host \<Rightarrow> fuse_session \<Rightarrow> string \<Rightarrow> os \<Rightarrow> (int \<times> fuse_session \<times> os) option" where
  "fuse_session_mount h s mp w =
     (let w1 = open_std w; fd = fuse_mnt_parse_fuse_fd mp in
      if fd \<noteq> -1 then
        (if fd \<notin> set (os_fds w1) then Some (-1, s, w1) else Some (0, s\<lparr>se_fd := fd\<rparr>, w1))
      else do {
        mo \<leftarrow> se_mo s;
        (fd, mo1, w2) \<leftarrow> fuse_kern_mount h (Some mp) mo w1;
        let s1 = s\<lparr>se_mo := Some mo1\<rparr>;
        if fd = -1 then Some (-1, s1, w2)
        else
          let s2 = s1\<lparr>se_fd := fd\<rparr>; (ok, w3) = os_malloc w2 in
          Some (if \<not> ok then (-1, s2, fuse_kern_unmount h mp fd w3) else (0, s2\<lparr>mountpoint := Some mp\<rparr>, w3)) })"

definition fuse_session_fd :: "fuse_session \<Rightarrow> int" where
  "fuse_session_fd s = se_fd s"

definition fuse_session_unmount :: "host \<Rightarrow> fuse_session \<Rightarrow> os \<Rightarrow> fuse_session \<times> os" where
  "fuse_session_unmount h s w =
     (case mountpoint s of
        None \<Rightarrow> (s, w)
      | Some mp \<Rightarrow> (s\<lparr>se_fd := -1, mountpoint := None\<rparr>, fuse_kern_unmount h mp (se_fd s) w))"

text \<open>Whether \<open>destroy\<close> of the file system is called, and the system afterwards; \<open>llp\<close> is the pipe of the calling
  thread, two descriptors.\<close>

definition fuse_session_destroy :: "fuse_session \<Rightarrow> (int \<times> int) option \<Rightarrow> os \<Rightarrow> bool \<times> os" where
  "fuse_session_destroy s llp w =
     (let w1 = (case llp of None \<Rightarrow> w | Some (f, g) \<Rightarrow> os_close g (os_close f w)) in
      (got_init (ll s) \<and> \<not> got_destroy (ll s) \<and> has_op (ll s) Op_destroy, if se_fd s \<noteq> -1 then os_close (se_fd s) w1 else w1))"

section \<open>The groups of a caller\<close>

text \<open>\<open>status\<close> is what the file \<open>/proc/PID/task/PID/status\<close> holds when it is read, \<open>None\<close> when it cannot be opened;
  \<open>junk\<close> is what stands in the memory that \<open>malloc\<close> gives out.  A search that runs over the end of the buffer is
  \<open>None\<close>.\<close>

function parse_groups :: "string \<Rightarrow> nat list" where
  "parse_groups s = (let (v, rest) = strtoul 0 s in if length rest < length s then v # parse_groups rest else [])"
  by pat_completeness auto
termination by (relation "measure length") auto

declare parse_groups.simps [simp del]

text \<open>The groups that fit go into the list, the result counts all.\<close>

definition groups_in :: "string \<Rightarrow> nat \<Rightarrow> (int \<times> nat list) option" where
  "groups_in buf n =
     (if NUL \<notin> set buf then None
      else
        let text0 = cstr_of_buf buf in
        (case strstr text0 ([CHR 0x0A] @ ''Groups:'') of
           None \<Rightarrow> Some (- EIO, [])
         | Some i \<Rightarrow> (let gs = parse_groups (drop (i + 8) text0) in Some (int (length gs), take n gs))))"

function read_groups :: "(nat \<Rightarrow> string) \<Rightarrow> string option \<Rightarrow> nat \<Rightarrow> nat \<Rightarrow> allocs \<Rightarrow> (int \<times> nat list) option" where
  "read_groups junk status sz n al =
     (let (ok, al1) = alloc_next al in
      if \<not> ok then Some (- ENOMEM, [])
      else
        (case status of
           None \<Rightarrow> Some (- EIO, [])
         | Some txt \<Rightarrow>
             if sz \<le> length txt \<and> 0 < sz then read_groups junk status (sz * 4) n al1
             else groups_in (txt @ drop (length txt) (junk sz)) n))"
  by pat_completeness auto
termination
  by (relation "measure (\<lambda>(junk, status, sz, n, al). (case status of None \<Rightarrow> 0 | Some txt \<Rightarrow> Suc (length txt) - sz))") auto

declare read_groups.simps [simp del]

definition fuse_req_getgroups :: "(nat \<Rightarrow> string) \<Rightarrow> string option \<Rightarrow> nat \<Rightarrow> allocs \<Rightarrow> (int \<times> nat list) option" where
  "fuse_req_getgroups junk status n al = read_groups junk status 1024 n al"

end
