(* ===== verification/SetupRuns.thy ===== *)
theory SetupRuns
  imports Setup
begin

text \<open>
  What setting up a session guarantees: it is ready for requests, its descriptors are given back, and one that
  was handed to the process is used as it is.
\<close>

section \<open>A new session\<close>

interpretation session_client: opt_client fuse_ll_opts None sc "\<lambda>_. True" for sc
  by unfold_locales simp_all

lemma add_arg_ok: "args_ok a \<Longrightarrow> \<exists>res al' b. fuse_opt_add_arg al a s = Some (res, al', b)"
  by (auto simp: fuse_opt_add_arg_def args_ok_def Let_def split: prod.splits)

lemma parse_mount_returns: "\<exists>mo b. parse_mount_opts al sc (Some a) = Some (mo, Some b)"
proof -
  obtain ok al1 where a: "alloc_next al = (ok, al1)" by (cases "alloc_next al")
  have d0: "typed_opts [4 \<mapsto> OInt (or MS_NOSUID MS_NODEV)]" by (simp add: typed_opts_def flag_mask ms_defs)
  obtain res b d where "fuse_opt_parse al1 sc (Some a) [4 \<mapsto> OInt (or MS_NOSUID MS_NODEV)] fuse_mount_opts (Some fuse_mount_opt_proc) =
    Some (res, Some b, d)" using mount_client.parse_keeps_args [OF d0, of al1 sc "Some a"] by fast
  then show ?thesis using a by (cases ok) (auto simp: parse_mount_opts_def)
qed

lemma all_ops: "set ll_ops = UNIV"
proof -
  have "x \<in> set ll_ops" for x by (cases x) (simp_all add: ll_ops_def)
  then show ?thesis by blast
qed

lemma copied_all: "352 \<le> n \<Longrightarrow> copied_ops n ops = ops"
proof -
  assume "352 \<le> n"
  moreover have "length ll_ops = 44" by (simp add: ll_ops_def)
  ultimately show ?thesis by (intro ext) (simp add: copied_ops_def all_ops min_def)
qed

lemma session_new_starts:
  "\<exists>x args'. fuse_session_new h psize al al1 al2 sc key_err args ops op_size = Some (x, args') \<and>
    (\<forall>s. x = Some s \<longrightarrow> argc args' = 1 \<and> key_err = 0 \<and> se_fd s = -1 \<and> mountpoint s = None \<and>
       (352 \<le> op_size \<longrightarrow> has_op (ll s) = ops) \<and> se_list (ll s) = [] \<and> interrupts (ll s) = [] \<and> req_heap (ll s) = Map.empty \<and>
       \<not> exited (ll s) \<and> \<not> got_init (ll s) \<and> (\<forall>c. chan_ctr (ll s) c = 0) \<and>
       (\<exists>mo. se_mo s = Some mo \<and> and (mo_flags mo) (not flag_mask) = 0))"
proof -
  obtain ok al3 where a: "alloc_next al = (ok, al3)" by (cases "alloc_next al")
  show ?thesis
  proof (cases "argc args = 0 \<or> \<not> ok")
    case True
    then show ?thesis using a by (auto simp: fuse_session_new_def)
  next
    case False
    obtain res b d where p: "fuse_opt_parse al1 sc (Some args) Map.empty fuse_ll_opts None = Some (res, Some b, d)"
      "res \<noteq> -1 \<longrightarrow> args_ok b" using session_client.parse_keeps_args [OF TrueI, of al1 sc "Some args" Map.empty] False by fastforce
    show ?thesis
    proof (cases "res = -1")
      case True
      then show ?thesis using False a p by (simp add: fuse_session_new_def)
    next
      case r: False
      obtain res2 al4 b2 where q: "(if int_at d 36 \<noteq> 0 then fuse_opt_add_arg al3 b ''-oallow_other'' else Some (0, al3, b)) = Some (res2, al4, b2)"
        using add_arg_ok p(2) r by (cases "int_at d 36 \<noteq> 0") (simp, blast, simp)
      obtain mo b3 where m: "parse_mount_opts al2 sc (Some b2) = Some (mo, Some b3)" using parse_mount_returns by blast
      have fl: "and (mo_flags y) (not flag_mask) = 0" if "mo = Some y" for y
        using mount_opts_flags [OF m that] .
      show ?thesis
      proof (cases "res2 = -1 \<or> mo = None \<or> argc b3 \<noteq> 1 \<or> key_err \<noteq> 0")
        case True
        then show ?thesis using False a p(1) r q m by (auto simp: fuse_session_new_def split: option.splits)
      next
        case ok2: False
        then obtain y where y: "mo = Some y" by (cases mo) auto
        then show ?thesis using False a p(1) r q m ok2 fl [OF y]
          by (simp add: fuse_session_new_def blank_session_def copied_all)
      qed
    qed
  qed
qed

text \<open>
  C35. \<open>fuse_session_new\<close> returns on every command line and whatever fails, without an assertion of the parser.
  A session it makes is in order: one argument is left, no descriptor, no mount point, no request and no
  interrupt, it is not exited, it has the operations of the caller, and its mount flags are in the table.
\<close>
theorem session_new_ready:
  "\<exists>x args'. fuse_session_new h psize al al1 al2 sc key_err args ops op_size = Some (x, args') \<and>
    (\<forall>s. x = Some s \<longrightarrow> argc args' = 1 \<and> key_err = 0 \<and> se_fd s = -1 \<and> mountpoint s = None \<and>
       (352 \<le> op_size \<longrightarrow> has_op (ll s) = ops) \<and> se_list (ll s) = [] \<and> interrupts (ll s) = [] \<and> req_heap (ll s) = Map.empty \<and>
       \<not> exited (ll s) \<and> \<not> got_init (ll s) \<and> (\<forall>c. chan_ctr (ll s) c = 0) \<and>
       (\<exists>mo. se_mo s = Some mo \<and> and (mo_flags mo) (not flag_mask) = 0))"
  by (rule session_new_starts)

theorem session_new_ready_witness:
  "\<exists>s. fuse_session_new demo_host 4096 [] [] [] (\<lambda>_ _. None) 0 (one_arg False) (\<lambda>_. True) 352 = Some (Some s, one_arg True) \<and>
     se_fd s = -1 \<and> mountpoint s = None \<and> has_op (ll s) = (\<lambda>_. True) \<and> req_heap (ll s) = Map.empty \<and> \<not> exited (ll s)"
proof -
  have "argc (one_arg b) = 1" for b by (simp add: one_arg_def argc_def)
  then obtain s where s: "fuse_session_new demo_host 4096 [] [] [] (\<lambda>_ _. None) 0 (one_arg False) (\<lambda>_. True) 352 = Some (Some s, one_arg True)"
    by (simp add: fuse_session_new_def parse_mount_opts_def parse_one_arg int_at_def)
  then show ?thesis
    using session_new_ready [of demo_host 4096 "[]" "[]" "[]" "\<lambda>_ _. None" 0 "one_arg False" "\<lambda>_. True" 352] by simp
qed

section \<open>Descriptors of a session\<close>

lemma open_stdD:
  "\<exists>xs. os_fds (open_std w) = xs @ os_fds w \<and> set xs \<subseteq> {0, 1, 2} \<and> calm w (open_std w) \<and> (fds_ok w \<longrightarrow> fds_ok (open_std w)) \<and>
     (os_answers w = [] \<longrightarrow> {0, 1, 2} \<subseteq> set (os_fds (open_std w)))"
proof (induction w rule: open_std.induct)
  case (1 w)
  obtain f e w1 where f: "os_open ''/dev/null'' w = (f, e, w1)" by (metis prod.exhaust)
  note o = os_openD [OF f]
  have ans: "os_answers w = [] \<longrightarrow> os_answers w1 = [] \<and> f = new_fd (os_fds w)"
    using f by (auto simp: os_open_def ask_def add_fd_def Let_def)
  consider "0 \<le> f" "f \<le> 2" | "2 < f" | "f < 0" by linarith
  then show ?case
  proof cases
    case 1
    then have w1: "calm w w1" "os_fds w1 = f # os_fds w" "f \<notin> set (os_fds w)" using o by auto
    obtain xs where xs: "os_fds (open_std w1) = xs @ os_fds w1" "set xs \<subseteq> {0, 1, 2}" "calm w1 (open_std w1)"
      "fds_ok w1 \<longrightarrow> fds_ok (open_std w1)" "os_answers w1 = [] \<longrightarrow> {0, 1, 2} \<subseteq> set (os_fds (open_std w1))"
      using "1.IH" [OF f [symmetric] refl refl] 1 by auto
    have "fds_ok w \<longrightarrow> fds_ok w1" using w1 1 by (auto simp: fds_ok_def calm_def)
    moreover have "open_std w = open_std w1" using 1 f by (subst open_std.simps) simp
    moreover have "set (xs @ [f]) \<subseteq> {0, 1, 2}" using xs(2) 1 by auto
    moreover have "os_answers w = [] \<longrightarrow> {0, 1, 2} \<subseteq> set (os_fds (open_std w1))" using xs(5) ans by blast
    ultimately show ?thesis using xs(1,4) w1(2) calm_trans [OF w1(1) xs(3)] by (intro exI [of _ "xs @ [f]"]) simp
  next
    case 2
    then have w1: "calm w w1" "os_fds w1 = f # os_fds w" "f \<notin> set (os_fds w)" using o by auto
    have eq: "open_std w = os_close f w1" using 2 f by (subst open_std.simps) simp
    have c: "calm w1 (os_close f w1)" "os_fds (os_close f w1) = os_fds w" using os_closeD [of f w1] w1(2) by simp_all
    have "g \<in> set (os_fds w)" if "os_answers w = []" "g \<in> {0, 1, 2}" for g
      using new_fd_ok(3) [of g "os_fds w"] ans that 2 by auto
    then have "os_answers w = [] \<longrightarrow> {0, 1, 2} \<subseteq> set (os_fds w)" by blast
    then show ?thesis using c calm_trans [OF w1(1) c(1)] w1(1) unfolding eq by (auto simp: fds_ok_def calm_def)
  next
    case 3
    then have "open_std w = w1" using f by (subst open_std.simps) simp
    moreover have "same_fds w w1" using o 3 by auto
    moreover have "os_answers w \<noteq> []" using ans 3 new_fd_ok(2) [of "os_fds w"] by auto
    ultimately show ?thesis by (auto simp: same_fds_def fds_ok_def calm_def)
  qed
qed

lemma kern_unmountD:
  assumes "fd \<in> set (os_fds w)" "fd \<noteq> -1"
  shows "calm w (fuse_kern_unmount h mp fd w)" "os_fds (fuse_kern_unmount h mp fd w) = remove1 fd (os_fds w)"
proof -
  obtain e w1 where a: "ask w = (e, w1)" by (cases "ask w")
  have s1: "same_fds w w1" by (rule askD [OF a])
  let ?v = "os_close fd w1"
  have v: "calm w ?v" "os_fds ?v = remove1 fd (os_fds w)"
    using os_closeD [of fd w1] s1 assms(1) by (auto simp: same_fds_def intro: calm_trans)
  obtain r w2 where u: "fuse_mnt_umount mp mp True ?v = (r, w2)" by (cases "fuse_mnt_umount mp mp True ?v")
  obtain r3 e3 w3 where t: "os_try (log_call (Sys_umount2 mp 2) ?v) = (r3, e3, w3)" by (metis prod.exhaust)
  obtain pid w4 where k: "os_fork w3 = (pid, w4)" by (cases "os_fork w3")
  have s3: "same_fds ?v w3" using os_tryD [OF t] by simp
  have "same_fds ?v (fuse_kern_unmount h mp fd w)"
    using umount_fds [OF u] s3 same_fds_trans [OF s3 os_forkD [OF k]] assms(2)
    by (simp add: fuse_kern_unmount_def a u t k Let_def)
  then show "calm w (fuse_kern_unmount h mp fd w)" "os_fds (fuse_kern_unmount h mp fd w) = remove1 fd (os_fds w)"
    using v by (auto simp: same_fds_def intro: calm_trans)
qed

text \<open>A session that is unmounted and destroyed, by a thread without a pipe.\<close>

definition given_up :: "host \<Rightarrow> fuse_session \<Rightarrow> os \<Rightarrow> os" where
  "given_up h s w = (let (s1, w1) = fuse_session_unmount h s w in snd (fuse_session_destroy s1 None w1))"

text \<open>A descriptor that was handed over.\<close>

lemma handed_over:
  assumes "se_fd s = -1" "mountpoint s = None" "fuse_mnt_parse_fuse_fd mp \<noteq> -1" "fds_ok (open_std w)"
  shows "\<exists>r s1 w1. fuse_session_mount h s mp w = Some (r, s1, w1) \<and> (r = 0 \<and> se_fd s1 \<in> set (os_fds w1) \<or> r = -1) \<and>
    fds_ok (given_up h s1 w1) \<and>
    os_fds (given_up h s1 w1) = (if r = 0 then remove1 (fuse_mnt_parse_fuse_fd mp) (os_fds (open_std w)) else os_fds (open_std w))"
proof -
  let ?n = "fuse_mnt_parse_fuse_fd mp" and ?w = "open_std w"
  have "?n \<in> set (os_fds ?w) \<Longrightarrow> fds_ok (os_close ?n ?w) \<and> os_fds (os_close ?n ?w) = remove1 ?n (os_fds ?w)"
    using os_closeD [of ?n ?w] assms(4) by (auto simp: fds_ok_def calm_def)
  then show ?thesis using assms
    by (cases "?n \<in> set (os_fds ?w)")
      (simp_all add: fuse_session_mount_def fuse_session_unmount_def fuse_session_destroy_def given_up_def)
qed

text \<open>A mount point: \<open>fd\<close> is what \<open>fuse_kern_mount\<close> returns.\<close>

lemma given_back:
  assumes fd: "fd = -1 \<and> more_fds (open_std w) ys w2 \<or> 0 \<le> fd \<and> more_fds (open_std w) (fd # ys) w2"
    and ok: "fds_ok (open_std w)" "os_allocs (open_std w) = []" and s: "se_fd s = -1" "mountpoint s = None" "se_mo s = Some mo"
    and k: "fuse_mnt_parse_fuse_fd mp = -1" "fuse_kern_mount h (Some mp) mo (open_std w) = Some (fd, mo', w2)"
  shows "\<exists>r s1 w1. fuse_session_mount h s mp w = Some (r, s1, w1) \<and> (r = 0 \<and> se_fd s1 \<in> set (os_fds w1) \<or> r = -1) \<and>
    fds_ok (given_up h s1 w1) \<and> mset (os_fds (given_up h s1 w1)) = mset (ys @ os_fds (open_std w))"
proof (cases "fd = -1")
  case True
  then have m: "more_fds (open_std w) ys w2" using fd by simp
  have "fuse_session_mount h s mp w = Some (-1, s\<lparr>se_mo := Some mo'\<rparr>, w2)"
    using True k s(3) by (simp add: fuse_session_mount_def)
  then show ?thesis using s more_fds_ok [OF ok(1) m] m
    by (simp add: fuse_session_unmount_def fuse_session_destroy_def more_fds_def given_up_def)
next
  case False
  then have m: "0 \<le> fd" "more_fds (open_std w) (fd # ys) w2" using fd by auto
  obtain ok3 w3 where a: "os_malloc w2 = (ok3, w3)" by (cases "os_malloc w2")
  have "os_allocs w2 = []" using m(2) ok(2) by (simp add: more_fds_def calm_def)
  then have w3: "ok3" "same_fds w2 w3" using os_mallocD [OF a] by auto
  let ?s = "s\<lparr>se_mo := Some mo', se_fd := fd, mountpoint := Some mp\<rparr>" and ?u = "fuse_kern_unmount h mp fd w3"
  have mt: "fuse_session_mount h s mp w = Some (0, ?s, w3)"
    using False k s(3) a w3(1) by (simp add: fuse_session_mount_def)
  have in3: "fd \<in> set (os_fds w3)" "fd \<noteq> -1" using w3(2) m more_fdsD [OF m(2)] by (auto simp: same_fds_def)
  note u = kern_unmountD [OF in3, of h mp]
  have w3ok: "fds_ok w3" using more_fds_ok [OF more_fds_ok [OF ok(1) m(2)] same_more [OF w3(2)]] .
  have f: "mset (os_fds ?u) = mset (ys @ os_fds (open_std w))"
    using u(2) w3(2) m(2) by (simp add: same_fds_def more_fds_def)
  moreover have "fds_ok ?u" using u w3ok by (auto simp: fds_ok_def calm_def)
  ultimately show ?thesis using mt in3(1)
    by (intro exI [of _ 0] exI [of _ ?s] exI [of _ w3]) (simp add: fuse_session_unmount_def fuse_session_destroy_def given_up_def)
qed


definition demo_session :: fuse_session where
  "demo_session = \<lparr>ll = blank_session demo_host 4096 (\<lambda>_. True) False demo_mount, mountpoint = None, se_fd = -1,
     se_mo = Some demo_mount, se_debug = 0\<rparr>"

lemma mnt_no_fd: "fuse_mnt_parse_fuse_fd ''/mnt'' = -1"
  by (simp add: fuse_mnt_parse_fuse_fd_def split: prod.splits)


text \<open>
  A daemon without privileges can be handed the device: for a mount point \<open>/dev/fd/N\<close> nothing is mounted, and
  the session uses descriptor N, if it is open and no matter how large it is; if it is not, mounting fails.
\<close>
lemma passed_descriptor_used:
  assumes "n < 2 ^ 31"
  shows "fuse_session_mount h s (''/dev/fd/'' @ dec n) w =
    (if int n \<in> set (os_fds (open_std w)) then Some (0, s\<lparr>se_fd := int n\<rparr>, open_std w) else Some (-1, s, open_std w))"
  using parse_fuse_fd_dec [OF assms] by (simp add: fuse_session_mount_def)

lemma passed_descriptor_used_witness:
  "fuse_session_mount demo_host demo_session (''/dev/fd/'' @ dec 7) (demo_os [] []) =
    (if int 7 \<in> set (os_fds (open_std (demo_os [] []))) then Some (0, demo_session\<lparr>se_fd := int 7\<rparr>, open_std (demo_os [] []))
     else Some (-1, demo_session, open_std (demo_os [] [])))"
  by (rule passed_descriptor_used) simp

section \<open>Groups\<close>

lemma strtoul_skip:
  assumes "isspace c" "length (snd (strtoul b s)) < length s"
  shows "strtoul b (c # s) = strtoul b s"
proof -
  define s1 where "s1 = dropWhile isspace s"
  obtain b1 s3 where B: "base_of b (if char_at s1 0 = CHR ''-'' \<or> char_at s1 0 = CHR ''+'' then drop 1 s1 else s1) = (b1, s3)"
    by (metis prod.exhaust)
  obtain v rest where D: "digits b1 0 s3 = (v, rest)" by (metis prod.exhaust)
  define x where "x = (if 2 ^ 64 \<le> v then 2 ^ 64 - 1 else if char_at s1 0 = CHR ''-'' then (2 ^ 64 - v) mod 2 ^ 64 else v)"
  have eq: "strtoul b t = (if \<not> is_digit b1 (char_at s3 0) then (0, t) else (x, rest))" if "dropWhile isspace t = s1" for t
    unfolding strtoul_def Let_def that B x_def by (simp only: prod.case D)
  have "dropWhile isspace (c # s) = s1" using assms(1) by (simp add: s1_def)
  from eq [OF this] eq [OF s1_def [symmetric]] show ?thesis using assms(2) by (simp split: if_splits)
qed

lemma strtoul_none:
  assumes "\<forall>x \<in> set ws. isspace x" "\<not> is_digit 10 c" "\<not> isspace c" "c \<noteq> CHR ''-''" "c \<noteq> CHR ''+''"
  shows "strtoul 0 (ws @ c # s) = (0, ws @ c # s)"
proof -
  have d: "dropWhile isspace (ws @ c # s) = c # s" using assms(1,3) by (simp add: dropWhile_append2)
  have "c \<noteq> CHR ''0''" using assms(2) by (auto simp: is_digit_def digit_of_def)
  then have b: "base_of 0 (c # s) = (10, c # s)" by (simp add: base_of_def)
  obtain v rest where D: "digits 10 0 (c # s) = (v, rest)" by (metis prod.exhaust)
  show ?thesis using assms(2,4,5) unfolding strtoul_def Let_def d by (simp add: b D)
qed

text \<open>The line of the kernel: a tab, the numbers with a space behind each, a space when there are none.\<close>

definition groups_line :: "nat list \<Rightarrow> string" where
  "groups_line gs = CHR 0x09 # concat (map (\<lambda>g. dec g @ '' '') gs) @ (if gs = [] then '' '' else [])"

lemma parse_group_list:
  assumes "\<forall>g \<in> set gs. g < 2 ^ 32" "isspace w" "\<forall>x \<in> set ws. isspace x" "\<not> is_digit 10 c" "\<not> isspace c" "c \<noteq> CHR ''-''" "c \<noteq> CHR ''+''"
  shows "parse_groups (w # concat (map (\<lambda>g. dec g @ '' '') gs) @ ws @ c # s) = gs"
  using assms(1,2)
proof (induction gs arbitrary: w)
  case Nil
  have "strtoul 0 ((w # ws) @ c # s) = (0, (w # ws) @ c # s)" using Nil.prems(2) assms(3-7) by (intro strtoul_none) auto
  then show ?case by (subst parse_groups.simps) simp
next
  case (Cons g gs)
  let ?t = "CHR '' '' # concat (map (\<lambda>g. dec g @ '' '') gs) @ ws @ c # s"
  have sp: "isspace (CHR '' '')" by (simp add: isspace_def)
  have "strtoul 0 (dec g @ ?t) = (g, ?t)" using Cons.prems(1) by (intro strtoul_dec) (auto simp: is_digit_def digit_of_def)
  then have "strtoul 0 (w # dec g @ ?t) = (g, ?t)" using strtoul_skip [OF Cons.prems(2), of 0 "dec g @ ?t"] dec_not_Nil [of g] by simp
  moreover have "parse_groups ?t = gs" using Cons.IH [OF _ sp] Cons.prems(1) by simp
  ultimately show ?case by (subst parse_groups.simps) simp
qed

lemma find_first: "find P [0..<n] = Some i \<longleftrightarrow> i < n \<and> P i \<and> (\<forall>j < i. \<not> P j)"
  by (auto simp: find_Some_iff)

lemma strstr_append: "strstr s t = Some i \<Longrightarrow> strstr (s @ u) t = Some i"
proof -
  assume "strstr s t = Some i"
  then have i: "i < Suc (length s)" "take (length t) (drop i s) = t" "\<forall>j < i. take (length t) (drop j s) \<noteq> t"
    unfolding strstr_def find_first by auto
  have l: "i + length t \<le> length s" using arg_cong [OF i(2), of length] i(1) by auto
  have "take (length t) (drop j (s @ u)) = take (length t) (drop j s)" if "j \<le> i" for j using l that by simp
  then show ?thesis using i unfolding strstr_def find_first by (auto simp del: drop_append take_append)
qed

text \<open>
  C36. The groups of a caller are read back: from the file that the kernel writes, with any lines around the one
  of the groups, \<open>fuse_req_getgroups\<close> returns the number of groups and stores those that fit, however large the
  file is, provided some byte behind the text happens to be zero.
\<close>
theorem getgroups_reads_groups:
  assumes "status = pre @ CHR 0x0A # ''Groups:'' @ groups_line gs @ CHR 0x0A # c # post" "strstr status (CHR 0x0A # ''Groups:'') = Some (length pre)"
    and "NUL \<notin> set status" "\<forall>g \<in> set gs. g < 2 ^ 32" "\<not> is_digit 10 c" "\<not> isspace c" "c \<noteq> CHR ''-''" "c \<noteq> CHR ''+''"
    and "\<forall>sz. length status < sz \<longrightarrow> NUL \<in> set (drop (length status) (junk sz))"
  shows "fuse_req_getgroups junk (Some status) n [] = Some (int (length gs), take n gs)"
proof -
  have grp: "groups_in (status @ drop (length status) (junk sz)) n = Some (int (length gs), take n gs)" if "length status < sz" for sz
  proof -
    let ?j = "drop (length status) (junk sz)"
    have nul: "NUL \<in> set ?j" using assms(9) that by blast
    have tx: "cstr_of_buf (status @ ?j) = status @ cstr_of_buf ?j"
      unfolding cstr_of_buf_def by (rule takeWhile_append2) (use assms(3) in auto)
    have w: "\<forall>x \<in> set (if gs = [] then '' '' else []). isspace x" by (simp add: isspace_def)
    then have ws: "\<forall>x \<in> set ((if gs = [] then '' '' else []) @ [CHR 0x0A]). isspace x" by (simp add: isspace_def)
    have "isspace (CHR 0x09)" by (simp add: isspace_def)
    from parse_group_list [OF assms(4) this ws assms(5-8), of "post @ cstr_of_buf ?j"]
    have "parse_groups (drop (length pre + 8) (status @ cstr_of_buf ?j)) = gs"
      unfolding assms(1) groups_line_def by simp
    then show ?thesis using nul strstr_append [OF assms(2), of "cstr_of_buf ?j"] by (simp add: groups_in_def tx Let_def)
  qed
  have "read_groups junk (Some status) sz n [] = Some (int (length gs), take n gs)" if "0 < sz" for sz
    using that
  proof (induction "Suc (length status) - sz" arbitrary: sz rule: less_induct)
    case less
    show ?case
    proof (cases "sz \<le> length status")
      case True
      then have "read_groups junk (Some status) (sz * 4) n [] = Some (int (length gs), take n gs)"
        using less.prems by (intro less.hyps) auto
      then show ?thesis using True less.prems by (subst read_groups.simps) simp
    next
      case False
      then show ?thesis using grp [of sz] by (subst read_groups.simps) simp
    qed
  qed
  then show ?thesis by (simp add: fuse_req_getgroups_def)
qed

definition demo_status :: string where
  "demo_status = ''Gid:'' @ CHR 0x0A # ''Groups:'' @ groups_line [4, 27] @ CHR 0x0A # CHR ''N'' # ''St''"

lemma demo_status_text: "demo_status = ''Gid:'' @ CHR 0x0A # ''Groups:'' @ CHR 0x09 # ''4 27 '' @ CHR 0x0A # ''NSt''"
  by code_simp

theorem getgroups_reads_groups_witness:
  "fuse_req_getgroups (\<lambda>sz. replicate sz NUL) (Some demo_status) 1 [] = Some (int (length [4, 27 :: nat]), take 1 [4, 27])"
proof (rule getgroups_reads_groups [where pre = "''Gid:''" and c = "CHR ''N''" and post = "''St''"])
  show "strstr demo_status (CHR 0x0A # ''Groups:'') = Some (length ''Gid:'')" unfolding demo_status_text by code_simp
  show "NUL \<notin> set demo_status" unfolding demo_status_text by simp
qed (simp_all add: demo_status_def is_digit_def digit_of_def isspace_def)

text \<open>The buffer is searched as a string, but nothing ends it: the search runs on behind what was read.\<close>

lemma getgroups_overrun:
  assumes "length status < 1024" "NUL \<notin> set status" "NUL \<notin> set (junk 1024)"
  shows "fuse_req_getgroups junk (Some status) n [] = None"
proof -
  have "NUL \<notin> set (drop (length status) (junk 1024))" using assms(3) in_set_dropD by fast
  then show ?thesis using assms(1,2) by (simp add: fuse_req_getgroups_def read_groups.simps groups_in_def)
qed

section \<open>A descriptor that is closed twice\<close>

text \<open>When there is no memory for the name of the mount point, the device is closed, but the session still has its
  number and closes it again when it is destroyed.\<close>

lemma failed_mount_closes_twice:
  "map_option (\<lambda>(r, s, w). (r, bad_close w, bad_close (snd (fuse_session_destroy s None w))))
     (fuse_session_mount demo_host demo_session ''/mnt'' (demo_os [] [True, True, True, True, True, True, False])) = Some (-1, False, True)"
proof -
  have "open_std (demo_os [] al) = demo_os [] al" for al
    by (subst open_std.simps) (simp add: mount_run)
  then show ?thesis
    by (simp add: fuse_session_mount_def mnt_no_fd demo_session_def fuse_session_destroy_def mount_run fuse_kern_unmount_def)
qed

end
