(* ===== verification/CommandLine.thy ===== *)
theory CommandLine
  imports Setup Negotiate
begin

text \<open>
  The helpers of \<open>lib/helper.c\<close> and \<open>lib/fuse_signals.c\<close>: the options of a command line and of a connection,
  going into the background, and the handlers of signals.

  Structs that are parsed into are maps from offsets to values, as in \<open>Mount\<close>.  Help texts are left out.
\<close>

section \<open>The command line\<close>

text \<open>\<open>struct fuse_cmdline_opts\<close>: \<open>singlethread\<close> 0, \<open>foreground\<close> 4, \<open>debug\<close> 8, \<open>nodefault_subtype\<close> 12, \<open>mountpoint\<close> 16,
  \<open>show_version\<close> 24, \<open>show_help\<close> 28, \<open>clone_fd\<close> 32, \<open>max_idle_threads\<close> 36, \<open>max_threads\<close> 40.\<close>

record fuse_cmdline_opts =
  singlethread :: int
  foreground :: int
  co_debug :: int
  nodefault_subtype :: int
  co_mountpoint :: "string option"
  show_version :: int
  show_help :: int
  clone_fd :: int
  co_max_idle_threads :: int
  co_max_threads :: int

definition fuse_helper_opts :: "fuse_opt list" where
  "fuse_helper_opts =
     [stores_at ''-h'' 28, stores_at ''--help'' 28, stores_at ''-V'' 24, stores_at ''--version'' 24, stores_at ''-d'' 8,
      stores_at ''debug'' 8, stores_at ''-d'' 4, stores_at ''debug'' 4, key_opt ''-d'' FUSE_OPT_KEY_KEEP,
      key_opt ''debug'' FUSE_OPT_KEY_KEEP, stores_at ''-f'' 4, stores_at ''-s'' 0, stores_at ''fsname='' 12,
      key_opt ''fsname='' FUSE_OPT_KEY_KEEP, stores_at ''subtype='' 12, key_opt ''subtype='' FUSE_OPT_KEY_KEEP,
      stores_at ''clone_fd'' 32, stores_at ''max_idle_threads=%u'' 36, stores_at ''max_threads=%u'' 40]"

definition fuse_helper_opt_proc :: "host \<Rightarrow> opt_proc" where
  "fuse_helper_opt_proc h d arg key out al =
     (if key = FUSE_OPT_KEY_NONOPT then
        (if str_at d 16 = None then
           (if fuse_mnt_parse_fuse_fd arg \<noteq> -1 then add_to False 16 d arg out al
            else
              (case h_realpath h arg of
                 None \<Rightarrow> Some (-1, d, out, al)
               | Some mp \<Rightarrow> add_to False 16 d mp out al))
         else Some (-1, d, out, al))
      else Some (1, d, out, al))"

definition cmdline_opts_of :: "opt_data \<Rightarrow> fuse_cmdline_opts" where
  "cmdline_opts_of d =
     \<lparr>singlethread = int_at d 0, foreground = int_at d 4, co_debug = int_at d 8, nodefault_subtype = int_at d 12,
      co_mountpoint = str_at d 16, show_version = int_at d 24, show_help = int_at d 28, clone_fd = int_at d 32,
      co_max_idle_threads = int_at d 36, co_max_threads = int_at d 40\<rparr>"

definition prog_basename :: "string \<Rightarrow> string" where
  "prog_basename progname =
     (case strrchr progname (CHR ''/'') of
        None \<Rightarrow> progname
      | Some i \<Rightarrow> if char_at progname (i + 1) \<noteq> NUL then drop (i + 1) progname else drop i progname)"

definition add_default_subtype :: "allocs \<Rightarrow> string \<Rightarrow> fuse_args \<Rightarrow> (int \<times> allocs \<times> fuse_args) option" where
  "add_default_subtype al progname args =
     (let (ok, al1) = alloc_next al in
      if \<not> ok then Some (-1, al1, args) else fuse_opt_add_arg al1 args (''-osubtype='' @ prog_basename progname))"

text \<open>\<open>al1\<close> answers the allocations of the option parser; \<open>argv[0]\<close> must be there.\<close>

definition fuse_parse_cmdline_312 ::
  "host \<Rightarrow> allocs \<Rightarrow> allocs \<Rightarrow> (string \<Rightarrow> string \<Rightarrow> opt_var option) \<Rightarrow> fuse_args \<Rightarrow> (int \<times> fuse_args \<times> fuse_cmdline_opts) option" where
  "fuse_parse_cmdline_312 h al al1 sc args =
     do { (res, args1, d) \<leftarrow> fuse_opt_parse al1 sc (Some args) [36 \<mapsto> OInt (2 ^ 32 - 1), 40 \<mapsto> OInt 10] fuse_helper_opts
            (Some (fuse_helper_opt_proc h));
          args1 \<leftarrow> args1;
          if res = -1 then Some (-1, args1, cmdline_opts_of d)
          else if int_at d 12 = 0 then do {
            progname \<leftarrow> (case args_list args1 of [] \<Rightarrow> None | p # _ \<Rightarrow> Some p);
            (res, _, args2) \<leftarrow> add_default_subtype al progname args1;
            Some (if res = -1 then -1 else 0, args2, cmdline_opts_of d) }
          else Some (0, args1, cmdline_opts_of d) }"

text \<open>The struct of older programs lacks \<open>max_threads\<close>; it is filled only on success.\<close>

definition fuse_parse_cmdline_30 ::
  "host \<Rightarrow> allocs \<Rightarrow> allocs \<Rightarrow> (string \<Rightarrow> string \<Rightarrow> opt_var option) \<Rightarrow> fuse_args \<Rightarrow> fuse_cmdline_opts
     \<Rightarrow> (int \<times> fuse_args \<times> fuse_cmdline_opts) option" where
  "fuse_parse_cmdline_30 h al al1 sc args out_opts =
     do { (rc, args1, o1) \<leftarrow> fuse_parse_cmdline_312 h al al1 sc args;
          Some (rc, args1, if rc = 0 then o1\<lparr>co_max_threads := co_max_threads out_opts\<rparr> else out_opts) }"

section \<open>Options of the connection\<close>

text \<open>\<open>struct fuse_conn_info_opts\<close>: an \<open>int\<close> or \<open>unsigned\<close> every four bytes, in this order.\<close>

definition conn_fields :: "string list" where
  "conn_fields =
     [''atomic_o_trunc'', ''no_remote_posix_lock'', ''no_remote_flock'', ''splice_write'', ''splice_move'', ''splice_read'',
      ''no_splice_write'', ''no_splice_move'', ''no_splice_read'', ''auto_inval_data'', ''no_auto_inval_data'', ''no_readdirplus'',
      ''no_readdirplus_auto'', ''async_dio'', ''no_async_dio'', ''writeback_cache'', ''no_writeback_cache'', ''async_read'',
      ''sync_read'', ''max_write'', ''max_readahead'', ''max_background'', ''congestion_threshold'', ''time_gran'', ''set_max_write'',
      ''set_max_readahead'', ''set_max_background'', ''set_congestion_threshold'', ''set_time_gran'']"

definition conn_offset :: "string \<Rightarrow> u64" where
  "conn_offset f = (case find (\<lambda>i. conn_fields ! i = f) [0..<length conn_fields] of Some i \<Rightarrow> of_nat (4 * i) | None \<Rightarrow> 0)"

definition conn_opt :: "string \<Rightarrow> string \<Rightarrow> int \<Rightarrow> fuse_opt" where
  "conn_opt t f v = \<lparr>templ = t, offset = conn_offset f, opt_value = v\<rparr>"

definition conn_info_opt_spec :: "fuse_opt list" where
  "conn_info_opt_spec =
     [conn_opt ''max_write=%u'' ''max_write'' 0, conn_opt ''max_write='' ''set_max_write'' 1,
      conn_opt ''max_readahead=%u'' ''max_readahead'' 0, conn_opt ''max_readahead='' ''set_max_readahead'' 1,
      conn_opt ''max_background=%u'' ''max_background'' 0, conn_opt ''max_background='' ''set_max_background'' 1,
      conn_opt ''congestion_threshold=%u'' ''congestion_threshold'' 0, conn_opt ''congestion_threshold='' ''set_congestion_threshold'' 1,
      conn_opt ''sync_read'' ''sync_read'' 1, conn_opt ''async_read'' ''async_read'' 1,
      conn_opt ''atomic_o_trunc'' ''atomic_o_trunc'' 1, conn_opt ''no_remote_lock'' ''no_remote_posix_lock'' 1,
      conn_opt ''no_remote_lock'' ''no_remote_flock'' 1, conn_opt ''no_remote_flock'' ''no_remote_flock'' 1,
      conn_opt ''no_remote_posix_lock'' ''no_remote_posix_lock'' 1, conn_opt ''splice_write'' ''splice_write'' 1,
      conn_opt ''no_splice_write'' ''no_splice_write'' 1, conn_opt ''splice_move'' ''splice_move'' 1,
      conn_opt ''no_splice_move'' ''no_splice_move'' 1, conn_opt ''splice_read'' ''splice_read'' 1,
      conn_opt ''no_splice_read'' ''no_splice_read'' 1, conn_opt ''auto_inval_data'' ''auto_inval_data'' 1,
      conn_opt ''no_auto_inval_data'' ''no_auto_inval_data'' 1, conn_opt ''readdirplus=no'' ''no_readdirplus'' 1,
      conn_opt ''readdirplus=yes'' ''no_readdirplus'' 0, conn_opt ''readdirplus=yes'' ''no_readdirplus_auto'' 1,
      conn_opt ''readdirplus=auto'' ''no_readdirplus'' 0, conn_opt ''readdirplus=auto'' ''no_readdirplus_auto'' 0,
      conn_opt ''async_dio'' ''async_dio'' 1, conn_opt ''no_async_dio'' ''no_async_dio'' 1,
      conn_opt ''writeback_cache'' ''writeback_cache'' 1, conn_opt ''no_writeback_cache'' ''no_writeback_cache'' 1,
      conn_opt ''time_gran=%u'' ''time_gran'' 0, conn_opt ''time_gran='' ''set_time_gran'' 1]"

definition fuse_parse_conn_info_opts ::
  "allocs \<Rightarrow> allocs \<Rightarrow> (string \<Rightarrow> string \<Rightarrow> opt_var option) \<Rightarrow> fuse_args option \<Rightarrow> (opt_data option \<times> fuse_args option) option" where
  "fuse_parse_conn_info_opts al al1 sc args =
     (if \<not> fst (alloc_next al) then Some (None, args)
      else do { (res, args1, d) \<leftarrow> fuse_opt_parse al1 sc args Map.empty conn_info_opt_spec None;
                Some (if res = -1 then None else Some d, args1) })"

definition opt_set :: "opt_data \<Rightarrow> string \<Rightarrow> bool" where
  "opt_set d f \<longleftrightarrow> int_at d (conn_offset f) \<noteq> 0"

text \<open>\<open>LL_ENABLE\<close> and \<open>LL_DISABLE\<close> in the order of the code: what is asked for, the capability, and whether it is
  switched on.\<close>

definition conn_switches :: "(string \<times> u32 \<times> bool) list" where
  "conn_switches =
     [(''splice_read'', FUSE_CAP_SPLICE_READ, True), (''no_splice_read'', FUSE_CAP_SPLICE_READ, False),
      (''splice_write'', FUSE_CAP_SPLICE_WRITE, True), (''no_splice_write'', FUSE_CAP_SPLICE_WRITE, False),
      (''splice_move'', FUSE_CAP_SPLICE_MOVE, True), (''no_splice_move'', FUSE_CAP_SPLICE_MOVE, False),
      (''auto_inval_data'', FUSE_CAP_AUTO_INVAL_DATA, True), (''no_auto_inval_data'', FUSE_CAP_AUTO_INVAL_DATA, False),
      (''no_readdirplus'', FUSE_CAP_READDIRPLUS, False), (''no_readdirplus_auto'', FUSE_CAP_READDIRPLUS_AUTO, False),
      (''async_dio'', FUSE_CAP_ASYNC_DIO, True), (''no_async_dio'', FUSE_CAP_ASYNC_DIO, False),
      (''writeback_cache'', FUSE_CAP_WRITEBACK_CACHE, True), (''no_writeback_cache'', FUSE_CAP_WRITEBACK_CACHE, False),
      (''async_read'', FUSE_CAP_ASYNC_READ, True), (''sync_read'', FUSE_CAP_ASYNC_READ, False),
      (''no_remote_posix_lock'', FUSE_CAP_POSIX_LOCKS, False), (''no_remote_flock'', FUSE_CAP_FLOCK_LOCKS, False)]"

fun ll_switch :: "opt_data \<Rightarrow> (string \<times> u32 \<times> bool) list \<Rightarrow> u32 \<Rightarrow> u32" where
  "ll_switch d [] w = w"
| "ll_switch d ((f, cap, on) # xs) w =
     ll_switch d xs (if opt_set d f then if on then or w cap else and w (not cap) else w)"

definition conn_value :: "opt_data \<Rightarrow> string \<Rightarrow> string \<Rightarrow> u32 \<Rightarrow> u32" where
  "conn_value d s f v = (if opt_set d s then word_of_int (int_at d (conn_offset f)) else v)"

definition fuse_apply_conn_info_opts :: "opt_data \<Rightarrow> fuse_conn_info \<Rightarrow> fuse_conn_info" where
  "fuse_apply_conn_info_opts d c =
     c\<lparr>max_write := conn_value d ''set_max_write'' ''max_write'' (max_write c),
       max_background := conn_value d ''set_max_background'' ''max_background'' (max_background c),
       congestion_threshold := conn_value d ''set_congestion_threshold'' ''congestion_threshold'' (congestion_threshold c),
       time_gran := conn_value d ''set_time_gran'' ''time_gran'' (time_gran c),
       max_readahead := conn_value d ''set_max_readahead'' ''max_readahead'' (max_readahead c),
       want := ll_switch d conn_switches (want c)\<rparr>"

section \<open>Going into the background\<close>

definition os_dup2 :: "int \<Rightarrow> int \<Rightarrow> os \<Rightarrow> os" where
  "os_dup2 f g w = log_call (Dup2 f g) (w\<lparr>os_fds := (if g \<in> set (os_fds w) then os_fds w else g # os_fds w)\<rparr>)"

text \<open>The child's result; the parent only waits for the byte and ends.  \<open>None\<close> is the parent.\<close>

definition fuse_daemonize :: "bool \<Rightarrow> bool \<Rightarrow> os \<Rightarrow> (int \<times> os) option" where
  "fuse_daemonize foregr is_parent w =
     (if foregr then Some (0, log_call (Chdir ''/'') w)
      else
        (case os_pair w of
           (None, w1) \<Rightarrow> Some (-1, w1)
         | (Some (f, g), w1) \<Rightarrow>
             let (r, _, w2) = os_try w1 in
             if r = -1 then Some (-1, w2)
             else if is_parent then None
             else
               let (r, _, w3) = os_try w2 in
               if r = -1 then Some (-1, w3)
               else
                 let (n, _, w4) = os_open ''/dev/null'' (log_call (Chdir ''/'') w3);
                     w5 = (if n = -1 then w4
                           else
                             let v = os_dup2 n 2 (os_dup2 n 1 (os_dup2 n 0 w4)) in
                             if 2 < n then os_close n v else v)
                 in Some (0, os_close g (os_close f (log_call (Write g) w5)))))"

definition fuse_open_channel ::
  "host \<Rightarrow> allocs \<Rightarrow> (string \<Rightarrow> string \<Rightarrow> opt_var option) \<Rightarrow> string option \<Rightarrow> string \<Rightarrow> os \<Rightarrow> (int \<times> os) option" where
  "fuse_open_channel h al sc mp options w =
     do { (mo, _) \<leftarrow> parse_mount_opts al sc (Some \<lparr>argv = Some [[], ''-o'', options], allocated = False\<rparr>);
          (case mo of
             None \<Rightarrow> Some (-1, w)
           | Some mo \<Rightarrow> do { (fd, _, w1) \<leftarrow> fuse_kern_mount h mp mo w; Some (fd, w1) }) }"

section \<open>Signals\<close>

datatype sig_handler = Default | Ignore | Exit_handler | Do_nothing | Other nat

text \<open>\<open>instance\<close> is \<open>fuse_instance\<close>, the number of a session; \<open>sig_answers\<close> answers the calls of \<open>sigaction\<close>, 0 for
  success.\<close>

record signals =
  disposition :: "int \<Rightarrow> sig_handler"
  fuse_instance :: "nat option"
  sig_answers :: "int list"

definition sig_try :: "signals \<Rightarrow> bool \<times> signals" where
  "sig_try w = (case sig_answers w of [] \<Rightarrow> (True, w) | a # as \<Rightarrow> (a = 0, w\<lparr>sig_answers := as\<rparr>))"

definition SIGHUP :: int where "SIGHUP = 1"
definition SIGINT :: int where "SIGINT = 2"
definition SIGPIPE :: int where "SIGPIPE = 13"
definition SIGTERM :: int where "SIGTERM = 15"

text \<open>\<open>None\<close> is the assertion on the number of the signal.\<close>

definition exit_handler :: "int \<Rightarrow> signals \<Rightarrow> (nat \<Rightarrow> session) \<Rightarrow> (nat \<Rightarrow> session) option" where
  "exit_handler sig w ses =
     (case fuse_instance w of
        None \<Rightarrow> Some ses
      | Some i \<Rightarrow> if sig \<le> 0 then None else Some (ses(i := (fuse_session_exit (ses i))\<lparr>se_error := sig\<rparr>)))"

text \<open>A signal arrives; \<open>None\<close> also when the process is ended by it or another handler takes it.\<close>

definition take_signal :: "int \<Rightarrow> signals \<Rightarrow> (nat \<Rightarrow> session) \<Rightarrow> (nat \<Rightarrow> session) option" where
  "take_signal sig w ses =
     (case disposition w sig of Exit_handler \<Rightarrow> exit_handler sig w ses | Do_nothing \<Rightarrow> Some ses | Ignore \<Rightarrow> Some ses | _ \<Rightarrow> None)"

definition set_one_signal_handler :: "int \<Rightarrow> sig_handler \<Rightarrow> bool \<Rightarrow> signals \<Rightarrow> int \<times> signals" where
  "set_one_signal_handler sig hn rm w =
     (let (ok, w1) = sig_try w in
      if \<not> ok then (-1, w1)
      else if disposition w1 sig = (if rm then hn else Default) then
        (let (ok, w2) = sig_try w1 in
         if \<not> ok then (-1, w2) else (0, w2\<lparr>disposition := (disposition w2)(sig := if rm then Default else hn)\<rparr>))
      else (0, w1))"

fun set_handlers :: "(int \<times> sig_handler) list \<Rightarrow> signals \<Rightarrow> int \<times> signals" where
  "set_handlers [] w = (0, w)"
| "set_handlers ((s, hn) # xs) w =
     (let (r, w1) = set_one_signal_handler s hn False w in if r = -1 then (-1, w1) else set_handlers xs w1)"

definition our_signals :: "(int \<times> sig_handler) list" where
  "our_signals = [(SIGHUP, Exit_handler), (SIGINT, Exit_handler), (SIGTERM, Exit_handler), (SIGPIPE, Do_nothing)]"

definition fuse_set_signal_handlers :: "nat \<Rightarrow> signals \<Rightarrow> int \<times> signals" where
  "fuse_set_signal_handlers i w =
     (let (r, w1) = set_handlers our_signals w in if r = -1 then (-1, w1) else (0, w1\<lparr>fuse_instance := Some i\<rparr>))"

definition fuse_remove_signal_handlers :: "nat \<Rightarrow> signals \<Rightarrow> signals" where
  "fuse_remove_signal_handlers i w =
     fold (\<lambda>(s, hn) v. snd (set_one_signal_handler s hn True v)) our_signals
       (if fuse_instance w \<noteq> Some i then w else w\<lparr>fuse_instance := None\<rparr>)"

end
