(* ===== verification/CommandRuns.thy ===== *)
theory CommandRuns
  imports CommandLine
begin

text \<open>
  What the helpers guarantee: a command line is parsed with every field of its type, options of the connection
  change what they name and nothing else, the background process keeps its descriptors, and signal handlers are
  put back.
\<close>

section \<open>The command line\<close>

definition typed_cmdline :: "opt_data \<Rightarrow> bool" where
  "typed_cmdline d \<longleftrightarrow>
     (\<forall>x \<in> {0, 4, 8, 12, 24, 28, 32}. \<forall>v. d x = Some v \<longrightarrow> (\<exists>i. v = OInt i)) \<and> (\<forall>v. d 16 = Some v \<longrightarrow> (\<exists>s. v = OStr s))"

lemma add_mountpoint:
  assumes "typed_cmdline d" "args_ok out"
  shows "gives_back typed_cmdline out (add_to esc 16 d arg out al)"
proof -
  have "typed_cmdline (d(16 \<mapsto> OStr s))" for s using assms(1) by (auto simp: typed_cmdline_def)
  then show ?thesis using assms by (auto simp: add_to_def gives_back_def split: prod.splits option.splits)
qed

interpretation cmdline_client: opt_client fuse_helper_opts "Some (fuse_helper_opt_proc h)" sc typed_cmdline for h sc
proof
  fix opt v d
  assume a: "opt \<in> set fuse_helper_opts" "offset opt \<noteq> 0xffffffff" "stored sc opt v" "typed_cmdline d"
  have "list_all (\<lambda>opt. offset opt = 0xffffffff \<or> format_of opt = None \<and> offset opt \<in> {0, 4, 8, 12, 24, 28, 32} \<or>
      offset opt \<in> {36, 40}) fuse_helper_opts"
    by (simp add: fuse_helper_opts_def stores_at_def key_opt_def format_of_def template_sep_def)
  then consider "format_of opt = None" "offset opt \<in> {0, 4, 8, 12, 24, 28, 32}" | "offset opt \<in> {36, 40}"
    using a(1,2) by (auto simp: list_all_iff)
  then show "typed_cmdline (d(offset opt \<mapsto> v))" using a(3,4) by cases (auto simp: typed_cmdline_def stored_def)
next
  fix f arg key d out al
  assume f: "Some (fuse_helper_opt_proc h) = Some f" "typed_cmdline d" "args_ok out"
  have "gives_back typed_cmdline out (fuse_helper_opt_proc h d arg key out al)"
    using add_mountpoint [OF f(2,3)] f(2,3)
    by (auto simp: fuse_helper_opt_proc_def gives_back_def split: option.splits)
  then show "gives_back typed_cmdline out (f d arg key out al)" using f(1) by simp
qed

interpretation conn_client: opt_client conn_info_opt_spec None sc "\<lambda>_. True" for sc
  by unfold_locales simp_all

lemma conn_opts_parsed: "\<exists>d args'. fuse_parse_conn_info_opts al al1 sc args = Some (d, args')"
proof -
  obtain res b d where "fuse_opt_parse al1 sc args Map.empty conn_info_opt_spec None = Some (res, b, d)"
    using conn_client.parse_keeps by blast
  then show ?thesis by (simp add: fuse_parse_conn_info_opts_def)
qed

section \<open>Options of the connection\<close>

lemma caps:
  "FUSE_CAP_SPLICE_READ = 2 ^ 9" "FUSE_CAP_SPLICE_WRITE = 2 ^ 7" "FUSE_CAP_SPLICE_MOVE = 2 ^ 8" "FUSE_CAP_AUTO_INVAL_DATA = 2 ^ 12"
  "FUSE_CAP_READDIRPLUS = 2 ^ 13" "FUSE_CAP_READDIRPLUS_AUTO = 2 ^ 14" "FUSE_CAP_ASYNC_DIO = 2 ^ 15"
  "FUSE_CAP_WRITEBACK_CACHE = 2 ^ 16" "FUSE_CAP_ASYNC_READ = 2 ^ 0" "FUSE_CAP_POSIX_LOCKS = 2 ^ 1" "FUSE_CAP_FLOCK_LOCKS = 2 ^ 10"
  by (simp_all add: FUSE_CAP_SPLICE_READ_def FUSE_CAP_SPLICE_WRITE_def FUSE_CAP_SPLICE_MOVE_def FUSE_CAP_AUTO_INVAL_DATA_def
      FUSE_CAP_READDIRPLUS_def FUSE_CAP_READDIRPLUS_AUTO_def FUSE_CAP_ASYNC_DIO_def FUSE_CAP_WRITEBACK_CACHE_def
      FUSE_CAP_ASYNC_READ_def FUSE_CAP_POSIX_LOCKS_def FUSE_CAP_FLOCK_LOCKS_def)

text \<open>The switches by the number of their bit.\<close>

definition bit_switches :: "(string \<times> nat \<times> bool) list" where
  "bit_switches =
     [(''splice_read'', 9, True), (''no_splice_read'', 9, False), (''splice_write'', 7, True), (''no_splice_write'', 7, False),
      (''splice_move'', 8, True), (''no_splice_move'', 8, False), (''auto_inval_data'', 12, True), (''no_auto_inval_data'', 12, False),
      (''no_readdirplus'', 13, False), (''no_readdirplus_auto'', 14, False), (''async_dio'', 15, True), (''no_async_dio'', 15, False),
      (''writeback_cache'', 16, True), (''no_writeback_cache'', 16, False), (''async_read'', 0, True), (''sync_read'', 0, False),
      (''no_remote_posix_lock'', 1, False), (''no_remote_flock'', 10, False)]"

lemma switches_bits: "conn_switches = map (\<lambda>(f, k, on). (f, 2 ^ k, on)) bit_switches"
  unfolding conn_switches_def bit_switches_def caps by simp

lemma ll_switch_bits:
  assumes "n < 32" "\<forall>(f, k, on) \<in> set xs. k < 32"
  shows "bit (ll_switch d (map (\<lambda>(f, k, on). (f, 2 ^ k, on)) xs) w) n =
    fold (\<lambda>(f, k, on) b. if opt_set d f \<and> k = n then on else b) xs (bit w n)"
  using assms(2)
proof (induction xs arbitrary: w)
  case (Cons x xs)
  obtain f k on where x: "x = (f, k, on)" by (cases x)
  have "bit (if opt_set d f then if on then or w (2 ^ k) else and w (not (2 ^ k)) else w) n =
      (if opt_set d f \<and> k = n then on else bit w n)"
    using assms(1) by (auto simp: bit_simps)
  then show ?case using Cons by (simp add: x)
qed simp

definition asks :: "opt_data \<Rightarrow> bool \<Rightarrow> u32 \<Rightarrow> nat \<Rightarrow> bool" where
  "asks d on cap n \<longleftrightarrow> bit cap n \<and> (\<exists>f. (f, cap, on) \<in> set conn_switches \<and> opt_set d f)"

lemma asks_bits:
  assumes "n < 32"
  shows "(\<exists>cap. asks d on cap n) \<longleftrightarrow> (\<exists>f. (f, n, on) \<in> set bit_switches \<and> opt_set d f)"
proof -
  have k: "k < 32" if "(f, k, b) \<in> set bit_switches" for f k b using that by (auto simp: bit_switches_def)
  have "bit (2 ^ k :: u32) n \<longleftrightarrow> k = n" if "(f, k, b) \<in> set bit_switches" for f k b
    using k [OF that] assms by (auto simp: bit_simps)
  then show ?thesis unfolding asks_def switches_bits by force
qed


definition demo_conn_opts :: opt_data where
  "demo_conn_opts = [conn_offset ''splice_read'' \<mapsto> OInt 1, conn_offset ''no_splice_read'' \<mapsto> OInt 1]"


section \<open>Going into the background\<close>

lemma dup2_fds: "os_fds (os_dup2 f g w) = (if g \<in> set (os_fds w) then os_fds w else g # os_fds w)" "calm w (os_dup2 f g w)"
  by (simp_all add: os_dup2_def calm_def log_call_def)

lemma fds_okI:
  "fds_ok w \<Longrightarrow> calm w w' \<Longrightarrow> distinct (os_fds w') \<Longrightarrow> (\<forall>f \<in> set (os_fds w'). 0 \<le> f) \<Longrightarrow> fds_ok w'"
  by (simp add: fds_ok_def calm_def)

lemma std_fds:
  assumes "n \<in> set (os_fds w)" "fds_ok w" "0 \<le> n"
  defines "v \<equiv> os_dup2 n 2 (os_dup2 n 1 (os_dup2 n 0 w))"
  defines "u \<equiv> if 2 < n then os_close n v else v"
  shows "fds_ok u" "set (os_fds u) = (set (os_fds w) - (if 2 < n then {n} else {})) \<union> {0, 1, 2}" "calm w u"
proof -
  have c: "calm w v" unfolding v_def using dup2_fds(2) calm_trans by blast
  have s: "set (os_fds v) = set (os_fds w) \<union> {0, 1, 2}" "distinct (os_fds v)"
    using assms(2) unfolding v_def by (auto simp: dup2_fds fds_ok_def)
  then have ok: "fds_ok v" using assms(2) c by (auto simp: fds_ok_def calm_def)
  have n: "n \<in> set (os_fds v)" using s assms(1) by blast
  note cl = os_closeD [OF n]
  have "calm w (os_close n v)" using c cl calm_trans by blast
  moreover have "fds_ok (os_close n v)" using ok cl by (auto simp: fds_ok_def calm_def dest: set_remove1_subset [THEN subsetD])
  ultimately show "fds_ok u" "set (os_fds u) = (set (os_fds w) - (if 2 < n then {n} else {})) \<union> {0, 1, 2}" "calm w u"
    using c s ok cl by (auto simp: u_def)
qed

lemma close_set: "fds_ok w \<Longrightarrow> f \<in> set (os_fds w) \<Longrightarrow> fds_ok (os_close f w) \<and> set (os_fds (os_close f w)) = set (os_fds w) - {f}"
  using os_closeD [of f w] by (auto simp: fds_ok_def calm_def dest: set_remove1_subset [THEN subsetD])

lemma null_device_fds:
  assumes "fds_ok w" "{0, 1, 2} \<subseteq> set (os_fds w)" "os_open ''/dev/null'' (log_call (Chdir ''/'') w) = (n, e, w4)"
    and "w5 = (if n = -1 then w4 else let v = os_dup2 n 2 (os_dup2 n 1 (os_dup2 n 0 w4)) in if 2 < n then os_close n v else v)"
  shows "fds_ok w5 \<and> set (os_fds w5) = set (os_fds w)"
proof (cases "n = -1")
  case True
  then have "same_fds w w4" using os_openD [OF assms(3)] by auto
  then show ?thesis using True assms(1,4) by (auto simp: fds_ok_def same_fds_def calm_def)
next
  case n: False
  then have n4: "calm w w4" "os_fds w4 = n # os_fds w" "n \<notin> set (os_fds w)" "0 \<le> n" using os_openD [OF assms(3)] by auto
  have ok4: "fds_ok w4" using n4 assms(1) by (auto simp: fds_ok_def calm_def)
  have "n \<notin> {0, 1, 2}" using n4(3) assms(2) by auto
  then have "2 < n" using n4(4) by auto
  then show ?thesis using std_fds [of n w4] ok4 n4 n assms(2,4) by (auto simp: Let_def)
qed

text \<open>
  C38. A process that has gone into the background, with 0, 1 and 2 open before, has the same descriptors open as
  before, the device of a session among them; the pipe to its parent is closed on both sides, and nothing is closed that was
  not open.
\<close>
theorem daemonize_descriptors:
  assumes "fds_ok w" "{0, 1, 2} \<subseteq> set (os_fds w)" "fuse_daemonize foregr False w = Some (0, w')"
  shows "fds_ok w' \<and> set (os_fds w') = set (os_fds w)"
proof (cases foregr)
  case True
  then show ?thesis using assms(1,3) by (auto simp: fuse_daemonize_def fds_ok_def log_call_def)
next
  case False
  obtain z w1 where z: "os_pair w = (z, w1)" by (cases "os_pair w")
  then obtain f g where fg: "z = Some (f, g)" using assms(3) False by (cases z) (auto simp: fuse_daemonize_def)
  then have w1: "calm w w1" "os_fds w1 = g # f # os_fds w" "f \<noteq> g" "f \<notin> set (os_fds w)" "g \<notin> set (os_fds w)" "0 \<le> f" "0 \<le> g"
    using os_pairD [OF z] by auto
  have ok1: "fds_ok w1" using assms(1) w1 by (auto simp: fds_ok_def calm_def)
  obtain r2 e2 w2 where t2: "os_try w1 = (r2, e2, w2)" by (metis prod.exhaust)
  obtain r3 e3 w3 where t3: "os_try w2 = (r3, e3, w3)" by (metis prod.exhaust)
  obtain n e4 w4 where o4: "os_open ''/dev/null'' (log_call (Chdir ''/'') w3) = (n, e4, w4)" by (metis prod.exhaust)
  have s3: "same_fds w1 w3" using os_tryD [OF t2] os_tryD [OF t3] by (blast intro: same_fds_trans)
  then have ok3: "fds_ok w3" "os_fds w3 = g # f # os_fds w" using ok1 w1(2) by (auto simp: fds_ok_def same_fds_def calm_def)
  define w5 where "w5 = (if n = -1 then w4 else let v = os_dup2 n 2 (os_dup2 n 1 (os_dup2 n 0 w4)) in if 2 < n then os_close n v else v)"
  have w': "w' = os_close g (os_close f (log_call (Write g) w5))"
    using assms(3) False by (auto simp: fuse_daemonize_def z fg t2 t3 o4 w5_def split: if_splits)
  have "{0, 1, 2} \<subseteq> set (os_fds w3)" using assms(2) ok3(2) by auto
  then have w5: "fds_ok w5 \<and> set (os_fds w5) = {f, g} \<union> set (os_fds w)"
    using null_device_fds [OF ok3(1) _ o4 w5_def] ok3(2) by auto
  have ok6: "fds_ok (log_call (Write g) w5)" "set (os_fds (log_call (Write g) w5)) = {f, g} \<union> set (os_fds w)"
    using w5 by (auto simp: fds_ok_def log_call_def)
  have "fds_ok (os_close f (log_call (Write g) w5))" "set (os_fds (os_close f (log_call (Write g) w5))) = {g} \<union> set (os_fds w)"
    using close_set [OF ok6(1), of f] ok6(2) w1(3,4) by auto
  then show ?thesis using close_set [of "os_close f (log_call (Write g) w5)" g] w1(5) unfolding w' by auto
qed

text \<open>When the process cannot fork, the pipe stays open.\<close>

lemma failed_fork_leaves_pipe: "map_option (\<lambda>(r, w). (r, os_fds w)) (fuse_daemonize False False (demo_os [0, 11] [])) = Some (-1, [4, 3, 2, 1, 0])"
  by (simp add: fuse_daemonize_def mount_run)

definition demo_daemonized :: os where
  "demo_daemonized = snd (the (fuse_daemonize False False (demo_os [] [])))"

lemma demo_daemonize: "fuse_daemonize False False (demo_os [] []) = Some (0, demo_daemonized)"
  by (simp add: fuse_daemonize_def demo_daemonized_def mount_run)

theorem daemonize_descriptors_witness:
  "fuse_daemonize False False (demo_os [] []) = Some (0, demo_daemonized) \<and> fds_ok demo_daemonized \<and>
     set (os_fds demo_daemonized) = set (os_fds (demo_os [] []))"
  using daemonize_descriptors [OF _ _ demo_daemonize] demo_daemonize by (simp add: demo_os_def fds_ok_def)

section \<open>Signals\<close>

definition swap_at :: "int \<Rightarrow> sig_handler \<Rightarrow> sig_handler \<Rightarrow> (int \<Rightarrow> sig_handler) \<Rightarrow> int \<Rightarrow> sig_handler" where
  "swap_at s a b D t = (if t = s \<and> D t = a then b else D t)"

lemma set_one:
  assumes "sig_answers w = []"
  shows "set_one_signal_handler s hn rm w =
    (0, w\<lparr>disposition := swap_at s (if rm then hn else Default) (if rm then Default else hn) (disposition w)\<rparr>)"
proof (cases "disposition w s = (if rm then hn else Default)")
  case True
  then have "(disposition w)(s := if rm then Default else hn) =
      swap_at s (if rm then hn else Default) (if rm then Default else hn) (disposition w)"
    by (auto simp: swap_at_def)
  then show ?thesis using assms True by (simp add: set_one_signal_handler_def sig_try_def)
next
  case False
  then have "swap_at s (if rm then hn else Default) (if rm then Default else hn) (disposition w) = disposition w"
    by (auto simp: swap_at_def)
  then show ?thesis using assms False by (simp add: set_one_signal_handler_def sig_try_def)
qed

text \<open>
  C39. The handlers of signals are put back: in a process that has none of the library's handlers,
  \<open>fuse_set_signal_handlers\<close> followed by \<open>fuse_remove_signal_handlers\<close> of the same session leaves every signal as
  it was, default or not; in between SIGHUP, SIGINT and SIGTERM, where they were not taken by other handlers or
  ignored, end the session with the number of the signal as its error, and no other signal is touched.
\<close>
theorem signal_handlers_restored:
  assumes "sig_answers w = []" "\<And>s. disposition w s \<noteq> Exit_handler \<and> disposition w s \<noteq> Do_nothing"
    and "fuse_set_signal_handlers i w = (r, w1)"
  shows "r = 0 \<and> fuse_instance w1 = Some i \<and> disposition (fuse_remove_signal_handlers i w1) = disposition w \<and>
    fuse_instance (fuse_remove_signal_handlers i w1) = None \<and>
    (\<forall>s \<in> {SIGHUP, SIGINT, SIGTERM}. disposition w s = Default \<longrightarrow>
       (\<exists>ses'. take_signal s w1 ses = Some ses' \<and> exited (ses' i) \<and> se_error (ses' i) = s)) \<and>
    (\<forall>s. s \<notin> {SIGHUP, SIGINT, SIGTERM, SIGPIPE} \<longrightarrow> disposition w1 s = disposition w s)"
proof -
  define D where "D = (\<lambda>s. if disposition w s = Default \<and> s \<in> {SIGHUP, SIGINT, SIGTERM} then Exit_handler
    else if disposition w s = Default \<and> s = SIGPIPE then Do_nothing else disposition w s)"
  note nums = SIGHUP_def SIGINT_def SIGTERM_def SIGPIPE_def
  have "swap_at 13 Default Do_nothing (swap_at 15 Default Exit_handler (swap_at 2 Default Exit_handler
      (swap_at 1 Default Exit_handler (disposition w)))) = D"
    by (rule ext) (auto simp: swap_at_def D_def nums)
  then have "set_handlers our_signals w = (0, w\<lparr>disposition := D\<rparr>)"
    using assms(1) by (simp add: our_signals_def set_one nums)
  then have w1: "r = 0" "w1 = w\<lparr>disposition := D, fuse_instance := Some i\<rparr>"
    using assms(3) by (simp_all add: fuse_set_signal_handlers_def)
  have "swap_at 13 Do_nothing Default (swap_at 15 Exit_handler Default (swap_at 2 Exit_handler Default
      (swap_at 1 Exit_handler Default D))) = disposition w"
    by (rule ext) (use assms(2) in \<open>auto simp: swap_at_def D_def nums\<close>)
  then have "disposition (fuse_remove_signal_handlers i w1) = disposition w" "fuse_instance (fuse_remove_signal_handlers i w1) = None"
    unfolding w1(2) fuse_remove_signal_handlers_def our_signals_def using assms(1) by (simp_all add: set_one nums)
  moreover have "\<exists>ses'. take_signal s w1 ses = Some ses' \<and> exited (ses' i) \<and> se_error (ses' i) = s"
    if "s \<in> {SIGHUP, SIGINT, SIGTERM}" "disposition w s = Default" for s
    using that by (auto simp: w1 D_def take_signal_def exit_handler_def fuse_session_exit_def nums)
  ultimately show ?thesis by (simp add: w1 D_def)
qed

theorem signal_handlers_restored_witness:
  "let w = \<lparr>disposition = (\<lambda>s. if s = SIGHUP then Ignore else Default), fuse_instance = None, sig_answers = []\<rparr>;
       w1 = snd (fuse_set_signal_handlers 7 w)
   in disposition (fuse_remove_signal_handlers 7 w1) = disposition w \<and> fuse_instance w1 = Some 7"
  using signal_handlers_restored
    [of "\<lparr>disposition = (\<lambda>s. if s = SIGHUP then Ignore else Default), fuse_instance = None, sig_answers = []\<rparr>", OF _ _ prod.collapse [symmetric], of 7]
  by (simp add: Let_def)

end
