(* ===== verification/ModuleRegistry.thy ===== *)
theory ModuleRegistry
  imports InterruptRuns
begin

text \<open>
  The registry of stacked modules in \<open>lib/fuse.c\<close>: a list of modules, each built in or from a shared object that
  is loaded for it, with counters of uses.  All functions run under \<open>fuse_context_lock\<close>.
  The build of the repository has no \<open>HAVE_ICONV\<close>, so the only built-in module is \<open>subdir\<close>.

  A module is its number with its contents in the list \<open>fuse_modules\<close>; one that is not there was freed.  \<open>so_heap\<close>
  maps the shared objects that are open to their counters.  \<open>dl\<close> is what \<open>dlopen\<close> and \<open>dlsym\<close> find for the name
  of a module: nothing, an object without the factory, or one with it.
\<close>

section \<open>State and operations\<close>

record fuse_module =
  mod_name :: string
  factory :: nat
  mod_so :: "nat option"
  mod_ctr :: int

record registry =
  fuse_modules :: "(nat \<times> fuse_module) list"
  mod_next :: nat
  so_heap :: "nat \<Rightarrow> int option"
  so_next :: nat
  builtin_registered :: bool
  reg_allocs :: allocs

definition reg_malloc :: "registry \<Rightarrow> bool \<times> registry" where
  "reg_malloc r = (let (ok, al) = alloc_next (reg_allocs r) in (ok, r\<lparr>reg_allocs := al\<rparr>))"

definition fuse_register_module :: "string \<Rightarrow> nat \<Rightarrow> nat option \<Rightarrow> registry \<Rightarrow> int \<times> registry" where
  "fuse_register_module nm fac so r =
     (let (ok, r1) = reg_malloc r in
      if \<not> ok then (-1, r1)
      else
        let (ok, r2) = reg_malloc r1 in
        if \<not> ok then (-1, r2)
        else (0, r2\<lparr>fuse_modules := (mod_next r2, \<lparr>mod_name = nm, factory = fac, mod_so = so, mod_ctr = 0\<rparr>) # fuse_modules r2,
                    mod_next := mod_next r2 + 1,
                    so_heap := (case so of None \<Rightarrow> so_heap r2 | Some s \<Rightarrow> (so_heap r2)(s := map_option (\<lambda>c. c + 1) (so_heap r2 s)))\<rparr>))"

definition register_builtin :: "nat \<Rightarrow> registry \<Rightarrow> registry" where
  "register_builtin fac r =
     (if builtin_registered r then r
      else let (_, r1) = fuse_register_module ''subdir'' fac None r in r1\<lparr>builtin_registered := True\<rparr>)"

definition fuse_unregister_module :: "nat \<Rightarrow> registry \<Rightarrow> registry" where
  "fuse_unregister_module i r = r\<lparr>fuse_modules := filter (\<lambda>(j, _). j \<noteq> i) (fuse_modules r)\<rparr>"

text \<open>The shared object is counted from 0, and closed again when the module cannot be registered.\<close>

definition fuse_load_so_module :: "(string \<Rightarrow> nat option option) \<Rightarrow> string \<Rightarrow> registry \<Rightarrow> int \<times> registry" where
  "fuse_load_so_module dl nm r =
     (let (ok, r1) = reg_malloc r in
      if \<not> ok then (-1, r1)
      else
        let (ok, r2) = reg_malloc r1 in
        if \<not> ok then (-1, r2)
        else
          (case dl nm of
             None \<Rightarrow> (-1, r2)
           | Some None \<Rightarrow> (-1, r2)
           | Some (Some fac) \<Rightarrow>
               let s = so_next r2;
                   (ret, r3) = fuse_register_module nm fac (Some s) (r2\<lparr>so_next := s + 1, so_heap := (so_heap r2)(s \<mapsto> 0)\<rparr>) in
               if ret \<noteq> 0 then (ret, r3\<lparr>so_heap := (so_heap r3)(s := None)\<rparr>) else (0, r3)))"

definition upd_module :: "nat \<Rightarrow> (fuse_module \<Rightarrow> fuse_module) \<Rightarrow> registry \<Rightarrow> registry" where
  "upd_module i g r = r\<lparr>fuse_modules := map (\<lambda>(j, m). (j, if j = i then g m else m)) (fuse_modules r)\<rparr>"

definition fuse_find_module :: "string \<Rightarrow> registry \<Rightarrow> nat option \<times> registry" where
  "fuse_find_module nm r =
     (case find (\<lambda>(_, m). mod_name m = nm) (fuse_modules r) of
        None \<Rightarrow> (None, r)
      | Some (i, _) \<Rightarrow> (Some i, upd_module i (\<lambda>m. m\<lparr>mod_ctr := mod_ctr m + 1\<rparr>) r))"

definition fuse_get_module :: "(string \<Rightarrow> nat option option) \<Rightarrow> string \<Rightarrow> registry \<Rightarrow> nat option \<times> registry" where
  "fuse_get_module dl nm r =
     (let (m, r1) = fuse_find_module nm r in
      case m of
        Some i \<Rightarrow> (Some i, r1)
      | None \<Rightarrow>
          let (err, r2) = fuse_load_so_module dl nm r1 in
          if err = 0 then fuse_find_module nm r2 else (None, r2))"

text \<open>\<open>None\<close>: an assertion fails, or the module or its object was freed.\<close>

definition fuse_put_module :: "nat \<Rightarrow> registry \<Rightarrow> registry option" where
  "fuse_put_module i r = do {
     m \<leftarrow> map_of (fuse_modules r) i;
     if mod_so m \<noteq> None \<and> mod_ctr m \<le> 0 then None
     else
       let c = (if 0 < mod_ctr m then mod_ctr m - 1 else mod_ctr m); r1 = upd_module i (\<lambda>m. m\<lparr>mod_ctr := c\<rparr>) r in
       if c = 0 then
         (case mod_so m of
            Some s \<Rightarrow> do {
              k \<leftarrow> so_heap r1 s;
              if k \<le> 0 then None
              else if k - 1 = 0 then
                Some (r1\<lparr>fuse_modules := filter (\<lambda>(_, m). mod_so m \<noteq> Some s) (fuse_modules r1), so_heap := (so_heap r1)(s := None)\<rparr>)
              else Some (r1\<lparr>so_heap := (so_heap r1)(s \<mapsto> k - 1)\<rparr>) }
          | None \<Rightarrow> Some (fuse_unregister_module i r1))
       else Some r1 }"

text \<open>The loop \<open>while (fuse_modules)\<close> of \<open>fuse_destroy\<close>; \<open>None\<close> also when it does not end.\<close>

partial_function (option) put_modules :: "registry \<Rightarrow> registry option" where
  "put_modules r =
     (case fuse_modules r of
        [] \<Rightarrow> Some r
      | (i, _) # _ \<Rightarrow> Option.bind (fuse_put_module i r) put_modules)"

section \<open>Any order of uses\<close>

text \<open>What the file systems of a process do to the registry; a module that was freed is not given back.\<close>

datatype reg_event = Builtin nat | Get string | Put nat | Destroy

definition reg_step :: "(string \<Rightarrow> nat option option) \<Rightarrow> reg_event \<Rightarrow> registry \<Rightarrow> registry option" where
  "reg_step dl e r =
     (case e of
        Builtin fac \<Rightarrow> Some (register_builtin fac r)
      | Get nm \<Rightarrow> Some (snd (fuse_get_module dl nm r))
      | Put i \<Rightarrow> if i \<in> fst ` set (fuse_modules r) then fuse_put_module i r else Some r
      | Destroy \<Rightarrow> put_modules r)"

fun reg_steps :: "(string \<Rightarrow> nat option option) \<Rightarrow> reg_event list \<Rightarrow> registry \<Rightarrow> registry option" where
  "reg_steps dl [] r = Some r"
| "reg_steps dl (e # es) r = do { r1 \<leftarrow> reg_step dl e r; reg_steps dl es r1 }"

definition empty_registry :: "allocs \<Rightarrow> registry" where
  "empty_registry al = \<lparr>fuse_modules = [], mod_next = 0, so_heap = Map.empty, so_next = 0, builtin_registered = False, reg_allocs = al\<rparr>"

fun so_list :: "(nat \<times> fuse_module) list \<Rightarrow> nat list" where
  "so_list [] = []"
| "so_list ((_, m) # ms) = (case mod_so m of None \<Rightarrow> so_list ms | Some s \<Rightarrow> s # so_list ms)"

text \<open>An open object belongs to one module and is counted once; only built-in modules may be unused.\<close>

definition mods_ok :: "(nat \<times> fuse_module) list \<Rightarrow> bool" where
  "mods_ok ms \<longleftrightarrow> distinct (map fst ms) \<and> distinct (so_list ms) \<and>
     (\<forall>(i, m) \<in> set ms. 0 \<le> mod_ctr m \<and> (mod_so m \<noteq> None \<longrightarrow> 0 < mod_ctr m))"

definition reg_ok :: "registry \<Rightarrow> bool" where
  "reg_ok r \<longleftrightarrow> mods_ok (fuse_modules r) \<and> (\<forall>(i, m) \<in> set (fuse_modules r). i < mod_next r) \<and>
     (\<forall>s. so_heap r s = (if s \<in> set (so_list (fuse_modules r)) then Some 1 else None)) \<and>
     (\<forall>s \<in> set (so_list (fuse_modules r)). s < so_next r)"

lemma so_list_mem: "s \<in> set (so_list ms) \<longleftrightarrow> (\<exists>(i, m) \<in> set ms. mod_so m = Some s)"
  by (induction ms rule: so_list.induct) (auto split: option.splits)

lemma so_list_map: "(\<And>j m. mod_so (g j m) = mod_so m) \<Longrightarrow> so_list (map (\<lambda>(j, m). (j, g j m)) ms) = so_list ms"
  by (induction ms rule: so_list.induct) (auto split: option.splits)

lemma so_list_filter_so: "so_list (filter (\<lambda>(_, m). mod_so m \<noteq> Some s) ms) = filter (\<lambda>x. x \<noteq> s) (so_list ms)"
  by (induction ms rule: so_list.induct) (auto split: option.splits)

lemma so_list_filter_id: "\<forall>(j, m) \<in> set ms. j = i \<longrightarrow> mod_so m = None \<Longrightarrow> so_list (filter (\<lambda>(j, _). j \<noteq> i) ms) = so_list ms"
  by (induction ms rule: so_list.induct) (auto split: option.splits)

text \<open>How often the modules can still be given back.\<close>

definition uses :: "(nat \<times> fuse_module) list \<Rightarrow> nat" where
  "uses ms = (\<Sum>(_, m) \<leftarrow> ms. Suc (nat (mod_ctr m)))"

lemma uses_filter: "x \<in> set ms \<Longrightarrow> \<not> Q x \<Longrightarrow> uses (filter Q ms) < uses ms"
proof (induction ms)
  case (Cons y ms)
  have le: "uses (filter Q ms) \<le> uses ms" for ms by (induction ms) (auto simp: uses_def split: prod.splits)
  obtain j m where y: "y = (j, m)" by (cases y)
  show ?case
  proof (cases "x = y")
    case True
    then show ?thesis using Cons.prems(2) le [of ms] by (simp add: uses_def y)
  next
    case False
    then have "uses (filter Q ms) < uses ms" using Cons by auto
    then show ?thesis by (simp add: uses_def y)
  qed
qed simp

lemma uses_upd:
  assumes "(i, m) \<in> set ms" "nat (mod_ctr (g m)) < nat (mod_ctr m)" "distinct (map fst ms)"
  shows "uses (map (\<lambda>(j, m). (j, if j = i then g m else m)) ms) < uses ms"
  using assms(1,3)
proof (induction ms)
  case (Cons y ms)
  obtain j k where y: "y = (j, k)" by (cases y)
  show ?case
  proof (cases "j = i")
    case True
    then have "i \<notin> fst ` set ms" using Cons.prems(2) y by auto
    then have "map (\<lambda>(j, m). (j, if j = i then g m else m)) ms = ms" by (intro map_idI) force
    moreover have "k = m" using True Cons.prems y by force
    ultimately show ?thesis using True assms(2) by (simp add: uses_def y)
  next
    case False
    then show ?thesis using Cons y by (auto simp: uses_def)
  qed
qed simp

lemma reg_ok_sub:
  assumes "reg_ok r" "set ms \<subseteq> set (fuse_modules r)" "distinct (map fst ms)" "distinct (so_list ms)"
    and "\<forall>s. h s = (if s \<in> set (so_list ms) then Some 1 else None)"
  shows "reg_ok (r\<lparr>fuse_modules := ms, so_heap := h\<rparr>)"
proof -
  have "set (so_list ms) \<subseteq> set (so_list (fuse_modules r))" using assms(2) by (fastforce simp: so_list_mem)
  then show ?thesis using assms unfolding reg_ok_def mods_ok_def by (simp; blast)
qed

lemma put_ok:
  assumes ok: "reg_ok r" and i: "i \<in> fst ` set (fuse_modules r)"
  shows "\<exists>r'. fuse_put_module i r = Some r' \<and> reg_ok r' \<and> uses (fuse_modules r') < uses (fuse_modules r)"
proof -
  let ?ms = "fuse_modules r"
  have d: "distinct (map fst ?ms)" "distinct (so_list ?ms)" using ok by (simp_all add: reg_ok_def mods_ok_def)
  have ctr: "0 \<le> mod_ctr m" "mod_so m \<noteq> None \<Longrightarrow> 0 < mod_ctr m" if "(j, m) \<in> set ?ms" for j m
    using ok that by (auto simp: reg_ok_def mods_ok_def)
  obtain m where m: "(i, m) \<in> set ?ms" using i by auto
  then have mo: "map_of ?ms i = Some m" using d(1) by simp
  have only: "k = m" if "(i, k) \<in> set ?ms" for k using that mo d(1) by simp
  define c where "c = (if 0 < mod_ctr m then mod_ctr m - 1 else mod_ctr m)"
  define g where "g = (\<lambda>k :: fuse_module. k\<lparr>mod_ctr := c\<rparr>)"
  define ms1 where "ms1 = map (\<lambda>(j, k). (j, if j = i then g k else k)) ?ms"
  have r1: "upd_module i (\<lambda>k. k\<lparr>mod_ctr := c\<rparr>) r = r\<lparr>fuse_modules := ms1\<rparr>" by (simp only: upd_module_def ms1_def g_def)
  have so1: "so_list ms1 = so_list ?ms" unfolding ms1_def by (rule so_list_map) (simp add: g_def)
  have ids1: "map fst ms1 = map fst ?ms" unfolding ms1_def by (simp add: comp_def case_prod_beta)
  have in1: "(j, k) \<in> set ms1 \<Longrightarrow> (j = i \<and> k = g m) \<or> (j \<noteq> i \<and> (j, k) \<in> set ?ms)" for j k
    unfolding ms1_def using only by (cases "j = i") auto
  have old: "\<forall>(j, k) \<in> set ms1. j < mod_next r"
    using ok unfolding ms1_def reg_ok_def by auto
  consider (so) s where "c = 0" "mod_so m = Some s" | (built) "c = 0" "mod_so m = None" | (used) "c \<noteq> 0" by (cases "mod_so m") auto
  then show ?thesis
  proof cases
    case so
    let ?ms2 = "filter (\<lambda>(_, k). mod_so k \<noteq> Some s) ms1"
    have s: "s \<in> set (so_list ?ms)" using so(2) m by (auto simp: so_list_mem)
    then have h: "so_heap r s = Some 1" using ok by (simp add: reg_ok_def)
    have one: "mod_ctr m = 1" using so ctr(2) [OF m] by (simp add: c_def split: if_splits)
    have eq: "fuse_put_module i r = Some (r\<lparr>fuse_modules := ?ms2, so_heap := (so_heap r)(s := None)\<rparr>)"
      using mo so(2) h r1 [unfolded so(1)] one by (simp add: fuse_put_module_def Let_def)
    have ms2: "?ms2 = filter (\<lambda>(_, k). mod_so k \<noteq> Some s) ?ms"
    proof -
      have "filter (\<lambda>(_, k). mod_so k \<noteq> Some s) (map (\<lambda>(j, k). (j, if j = i then g k else k)) xs) = filter (\<lambda>(_, k). mod_so k \<noteq> Some s) xs"
        if "\<forall>(j, k) \<in> set xs. j = i \<longrightarrow> k = m" for xs
        using that by (induction xs) (auto simp: g_def so(2) split: if_splits)
      then show ?thesis unfolding ms1_def using only by blast
    qed
    have so2: "so_list ?ms2 = filter (\<lambda>x. x \<noteq> s) (so_list ?ms)" by (simp add: so_list_filter_so so1)
    have "distinct (map fst ?ms2)" unfolding ms2 using d(1) by (simp add: distinct_map_filter)
    then have "reg_ok (r\<lparr>fuse_modules := ?ms2, so_heap := (so_heap r)(s := None)\<rparr>)"
      using d(2) so2 ok unfolding ms2 by (intro reg_ok_sub) (auto simp: reg_ok_def)
    moreover have "uses ?ms2 < uses ?ms" unfolding ms2 using uses_filter [OF m, of "\<lambda>(_, k). mod_so k \<noteq> Some s"] so(2) by simp
    ultimately show ?thesis using eq by simp
  next
    case built
    let ?ms2 = "filter (\<lambda>(j, _). j \<noteq> i) ms1"
    have ms2: "?ms2 = filter (\<lambda>(j, _). j \<noteq> i) ?ms"
    proof -
      have "filter (\<lambda>(j, _). j \<noteq> i) (map (\<lambda>(j, k). (j, if j = i then g k else k)) xs) = filter (\<lambda>(j, _). j \<noteq> i) xs" for xs
        by (induction xs) auto
      then show ?thesis by (simp add: ms1_def)
    qed
    have eq: "fuse_put_module i r = Some (r\<lparr>fuse_modules := ?ms2\<rparr>)"
      using mo built r1 by (simp add: fuse_put_module_def c_def [symmetric] fuse_unregister_module_def Let_def)
    have so2: "so_list ?ms2 = so_list ?ms" unfolding ms2 by (rule so_list_filter_id) (use only built in auto)
    have "distinct (map fst ?ms2)" unfolding ms2 using d(1) by (simp add: distinct_map_filter)
    then have "reg_ok (r\<lparr>fuse_modules := ?ms2, so_heap := so_heap r\<rparr>)"
      using d(2) so2 ok unfolding ms2 by (intro reg_ok_sub) (auto simp: reg_ok_def)
    then have "reg_ok (r\<lparr>fuse_modules := ?ms2\<rparr>)" by simp
    moreover have "uses ?ms2 < uses ?ms" unfolding ms2 using uses_filter [OF m, of "\<lambda>(j, _). j \<noteq> i"] by simp
    ultimately show ?thesis using eq by simp
  next
    case used
    then have pos: "0 < mod_ctr m" "0 < c" using ctr(1) [OF m] by (auto simp: c_def split: if_splits)
    then have cm: "c = mod_ctr m - 1" by (simp add: c_def)
    have eq: "fuse_put_module i r = Some (r\<lparr>fuse_modules := ms1\<rparr>)"
      using mo pos r1 [unfolded cm] by (simp add: fuse_put_module_def Let_def cm)
    have "0 \<le> mod_ctr k \<and> (mod_so k \<noteq> None \<longrightarrow> 0 < mod_ctr k)" if "(j, k) \<in> set ms1" for j k
      using in1 [OF that] ctr [of j k] pos by (auto simp: g_def)
    then have "reg_ok (r\<lparr>fuse_modules := ms1\<rparr>)"
      using ok old unfolding reg_ok_def mods_ok_def by (auto simp: so1 ids1)
    moreover have "uses ms1 < uses ?ms" unfolding ms1_def using m d(1) pos by (intro uses_upd [OF m]) (auto simp: g_def c_def)
    ultimately show ?thesis using eq by simp
  qed
qed

text \<open>A use that is counted.\<close>

lemma upd_ok:
  assumes ok: "reg_ok r" and c: "\<And>m. (i, m) \<in> set (fuse_modules r) \<Longrightarrow> 0 < c m"
  shows "reg_ok (upd_module i (\<lambda>m. m\<lparr>mod_ctr := c m\<rparr>) r)"
proof -
  let ?ms = "fuse_modules r" and ?ms1 = "fuse_modules (upd_module i (\<lambda>m. m\<lparr>mod_ctr := c m\<rparr>) r)"
  have so: "so_list ?ms1 = so_list ?ms" unfolding upd_module_def by (simp add: so_list_map)
  have ids: "map fst ?ms1 = map fst ?ms" by (simp add: upd_module_def comp_def case_prod_beta)
  have *: "0 \<le> mod_ctr k \<and> (mod_so k \<noteq> None \<longrightarrow> 0 < mod_ctr k) \<and> j < mod_next r" if jk: "(j, k) \<in> set ?ms1" for j k
  proof -
    obtain m where m: "(j, m) \<in> set ?ms" "k = (if j = i then m\<lparr>mod_ctr := c m\<rparr> else m)"
      using jk by (auto simp: upd_module_def)
    have "0 \<le> mod_ctr m \<and> (mod_so m \<noteq> None \<longrightarrow> 0 < mod_ctr m) \<and> j < mod_next r" using ok m(1) by (auto simp: reg_ok_def mods_ok_def)
    then show ?thesis using c [of m] m by (cases "j = i") simp_all
  qed
  have rest: "mod_next (upd_module i (\<lambda>m. m\<lparr>mod_ctr := c m\<rparr>) r) = mod_next r" "so_heap (upd_module i (\<lambda>m. m\<lparr>mod_ctr := c m\<rparr>) r) = so_heap r"
    "so_next (upd_module i (\<lambda>m. m\<lparr>mod_ctr := c m\<rparr>) r) = so_next r" by (simp_all add: upd_module_def)
  show ?thesis using ok * unfolding reg_ok_def mods_ok_def so ids rest by blast
qed

lemma found_ok: "reg_ok r \<Longrightarrow> reg_ok (snd (fuse_find_module nm r))"
proof -
  assume ok: "reg_ok r"
  have "0 < mod_ctr m + 1" if "(i, m) \<in> set (fuse_modules r)" for i m
    using ok that by (auto simp: reg_ok_def mods_ok_def)
  then show ?thesis using ok by (auto simp: fuse_find_module_def split: option.splits intro!: upd_ok)
qed

lemma reg_malloc_ok: "reg_malloc r = (b, r') \<Longrightarrow> \<exists>al. r' = r\<lparr>reg_allocs := al\<rparr>"
  by (auto simp: reg_malloc_def split: prod.splits)

lemma register_cases:
  obtains al where "fuse_register_module nm fac so r = (-1, r\<lparr>reg_allocs := al\<rparr>)"
  | al where "fuse_register_module nm fac so r = (0, r\<lparr>reg_allocs := al,
      fuse_modules := (mod_next r, \<lparr>mod_name = nm, factory = fac, mod_so = so, mod_ctr = 0\<rparr>) # fuse_modules r, mod_next := mod_next r + 1,
      so_heap := (case so of None \<Rightarrow> so_heap r | Some s \<Rightarrow> (so_heap r)(s := map_option (\<lambda>c. c + 1) (so_heap r s)))\<rparr>)"
proof -
  obtain b1 r1 where m1: "reg_malloc r = (b1, r1)" by (cases "reg_malloc r")
  obtain b2 r2 where m2: "reg_malloc r1 = (b2, r2)" by (cases "reg_malloc r1")
  obtain a1 where a1: "r1 = r\<lparr>reg_allocs := a1\<rparr>" using reg_malloc_ok [OF m1] ..
  obtain a2 where a2: "r2 = r\<lparr>reg_allocs := a2\<rparr>" using reg_malloc_ok [OF m2] a1 by auto
  show thesis
  proof (cases "b1 \<and> b2")
    case True
    then show ?thesis by (intro that(2) [of a2]) (cases so; simp add: fuse_register_module_def m1 m2 a2)
  next
    case False
    then consider "\<not> b1" | "b1" "\<not> b2" by blast
    then show ?thesis
    proof cases
      case 1
      then show ?thesis by (intro that(1) [of a1]) (simp add: fuse_register_module_def m1 a1 [symmetric])
    next
      case 2
      then show ?thesis by (intro that(1) [of a2]) (simp add: fuse_register_module_def m1 m2 a2 [symmetric])
    qed
  qed
qed

lemma reg_ok_allocs [simp]: "reg_ok (r\<lparr>reg_allocs := al\<rparr>) = reg_ok r" "reg_ok (r\<lparr>builtin_registered := b\<rparr>) = reg_ok r"
  by (simp_all add: reg_ok_def)

text \<open>Registering a module that nobody uses yet, and one that its loader uses.\<close>

lemma add_ok:
  assumes ok: "reg_ok r" and so: "mod_so m = None \<and> h = so_heap r \<and> n = so_next r \<or>
      mod_so m = Some (so_next r) \<and> h = (so_heap r)(so_next r \<mapsto> 1) \<and> n = so_next r + 1 \<and> 0 < mod_ctr m"
    and c: "0 \<le> mod_ctr m"
  shows "reg_ok (r\<lparr>fuse_modules := (mod_next r, m) # fuse_modules r, mod_next := mod_next r + 1, so_heap := h, so_next := n\<rparr>)"
proof -
  have "mod_next r \<notin> fst ` set (fuse_modules r)" using ok by (fastforce simp: reg_ok_def)
  moreover have "so_next r \<notin> set (so_list (fuse_modules r))" using ok by (auto simp: reg_ok_def)
  moreover have "\<forall>s \<in> set (so_list (fuse_modules r)). s < so_next r" "\<forall>(i, m) \<in> set (fuse_modules r). i < mod_next r"
    using ok by (simp_all add: reg_ok_def)
  ultimately show ?thesis using ok so c unfolding reg_ok_def mods_ok_def by (auto simp: less_Suc_eq)
qed

lemma builtin_ok: "reg_ok r \<Longrightarrow> reg_ok (register_builtin fac r)"
proof (rule register_cases [of "''subdir''" fac None r])
  fix al
  assume ok: "reg_ok r"
  let ?m = "\<lparr>mod_name = ''subdir'', factory = fac, mod_so = None, mod_ctr = 0\<rparr>"
  assume e: "fuse_register_module ''subdir'' fac None r = (0, r\<lparr>reg_allocs := al, fuse_modules := (mod_next r, ?m) # fuse_modules r,
      mod_next := mod_next r + 1, so_heap := (case None of None \<Rightarrow> so_heap r | Some s \<Rightarrow> (so_heap r)(s := map_option (\<lambda>c. c + 1) (so_heap r s)))\<rparr>)"
  have "reg_ok (r\<lparr>reg_allocs := al\<rparr>)" using ok by simp
  from add_ok [OF this, of ?m "so_heap r" "so_next r"] show ?thesis using ok e by (simp add: register_builtin_def)
qed (simp add: register_builtin_def)

text \<open>A module that was loaded is the first of the list, and the one that is found.\<close>

lemma load_cases:
  obtains al where "fuse_load_so_module dl nm r = (-1, r\<lparr>reg_allocs := al\<rparr>)"
  | al where "fuse_load_so_module dl nm r = (-1, r\<lparr>reg_allocs := al, so_next := so_next r + 1, so_heap := (so_heap r)(so_next r := None)\<rparr>)"
  | al fac where "fuse_load_so_module dl nm r = (0, r\<lparr>reg_allocs := al,
      fuse_modules := (mod_next r, \<lparr>mod_name = nm, factory = fac, mod_so = Some (so_next r), mod_ctr = 0\<rparr>) # fuse_modules r,
      mod_next := mod_next r + 1, so_heap := (so_heap r)(so_next r \<mapsto> 1), so_next := so_next r + 1\<rparr>)"
proof -
  obtain b1 r1 where m1: "reg_malloc r = (b1, r1)" by (cases "reg_malloc r")
  obtain b2 r2 where m2: "reg_malloc r1 = (b2, r2)" by (cases "reg_malloc r1")
  obtain a1 where a1: "r1 = r\<lparr>reg_allocs := a1\<rparr>" using reg_malloc_ok [OF m1] ..
  obtain a2 where a2: "r2 = r\<lparr>reg_allocs := a2\<rparr>" using reg_malloc_ok [OF m2] a1 by auto
  show thesis
  proof (cases "b1 \<and> b2 \<and> (\<exists>fac. dl nm = Some (Some fac))")
    case False
    then consider "\<not> b1" | "b1" "\<not> b2" | "b1" "b2" "\<forall>fac. dl nm \<noteq> Some (Some fac)" by blast
    then show ?thesis
    proof cases
      case 1
      then show ?thesis by (intro that(1) [of a1]) (simp add: fuse_load_so_module_def m1 a1 [symmetric])
    next
      case 2
      then show ?thesis by (intro that(1) [of a2]) (simp add: fuse_load_so_module_def m1 m2 a2 [symmetric])
    next
      case 3
      then show ?thesis by (intro that(1) [of a2]) (simp add: fuse_load_so_module_def m1 m2 a2 [symmetric] split: option.split)
    qed
  next
    case True
    then obtain fac where b: "b1" "b2" and fac: "dl nm = Some (Some fac)" by blast
    let ?r = "r\<lparr>reg_allocs := a2, so_next := so_next r + 1, so_heap := (so_heap r)(so_next r \<mapsto> 0)\<rparr>"
    show ?thesis
    proof (rule register_cases [of nm fac "Some (so_next r)" ?r])
      fix al
      assume "fuse_register_module nm fac (Some (so_next r)) ?r = (-1, ?r\<lparr>reg_allocs := al\<rparr>)"
      then show ?thesis using b fac by (intro that(2) [of al]) (simp add: fuse_load_so_module_def m1 m2 a2 Let_def)
    next
      fix al
      assume "fuse_register_module nm fac (Some (so_next r)) ?r = (0, ?r\<lparr>reg_allocs := al, fuse_modules :=
          (mod_next ?r, \<lparr>mod_name = nm, factory = fac, mod_so = Some (so_next r), mod_ctr = 0\<rparr>) # fuse_modules ?r, mod_next := mod_next ?r + 1,
          so_heap := (case Some (so_next r) of None \<Rightarrow> so_heap ?r | Some s \<Rightarrow> (so_heap ?r)(s := map_option (\<lambda>c. c + 1) (so_heap ?r s)))\<rparr>)"
      then show ?thesis using b fac by (intro that(3) [of fac al]) (simp add: fuse_load_so_module_def m1 m2 a2 Let_def)
    qed
  qed
qed

text \<open>Modules that were loaded have a name somebody asked for.\<close>

definition loaded_in :: "string set \<Rightarrow> registry \<Rightarrow> bool" where
  "loaded_in A r \<longleftrightarrow> (\<forall>(i, m) \<in> set (fuse_modules r). mod_so m \<noteq> None \<longrightarrow> mod_name m \<in> A)"

fun names_asked :: "reg_event \<Rightarrow> string set" where
  "names_asked (Get nm) = {nm}"
| "names_asked _ = {}"

lemma loaded_upd: "loaded_in A r \<Longrightarrow> loaded_in A (upd_module i (\<lambda>m. m\<lparr>mod_ctr := c m\<rparr>) r)"
  by (fastforce simp: loaded_in_def upd_module_def split: if_splits)

lemma loaded_sub: "loaded_in A r \<Longrightarrow> A \<subseteq> B \<Longrightarrow> set (fuse_modules r') \<subseteq> set (fuse_modules r) \<Longrightarrow> loaded_in B r'"
  by (auto simp: loaded_in_def)

lemma found_loaded: "loaded_in A r \<Longrightarrow> loaded_in A (snd (fuse_find_module nm r))"
  by (auto simp: fuse_find_module_def split: option.splits intro!: loaded_upd)

lemma get_ok:
  assumes "reg_ok r" "loaded_in A r"
  shows "reg_ok (snd (fuse_get_module dl nm r)) \<and> loaded_in (insert nm A) (snd (fuse_get_module dl nm r))"
proof (cases "fst (fuse_find_module nm r)")
  case (Some i)
  then have "fuse_get_module dl nm r = (Some i, snd (fuse_find_module nm r))" by (cases "fuse_find_module nm r") (simp add: fuse_get_module_def)
  then show ?thesis using found_ok [OF assms(1)] loaded_sub [OF found_loaded [OF assms(2)] subset_insertI subset_refl] by simp
next
  case None
  then have f: "fuse_find_module nm r = (None, r)" by (auto simp: fuse_find_module_def split: option.splits)
  show ?thesis
  proof (rule load_cases [of dl nm r])
    fix al
    assume "fuse_load_so_module dl nm r = (-1, r\<lparr>reg_allocs := al\<rparr>)"
    then show ?thesis using assms by (auto simp: fuse_get_module_def f loaded_in_def)
  next
    fix al
    assume l: "fuse_load_so_module dl nm r = (-1, r\<lparr>reg_allocs := al, so_next := so_next r + 1, so_heap := (so_heap r)(so_next r := None)\<rparr>)"
    have "so_next r \<notin> set (so_list (fuse_modules r))" using assms(1) by (auto simp: reg_ok_def)
    then have "reg_ok (r\<lparr>reg_allocs := al, so_next := so_next r + 1, so_heap := (so_heap r)(so_next r := None)\<rparr>)"
      using assms(1) by (auto simp: reg_ok_def)
    then show ?thesis using l assms(2) by (auto simp: fuse_get_module_def f loaded_in_def)
  next
    fix al fac
    let ?m = "\<lambda>c. \<lparr>mod_name = nm, factory = fac, mod_so = Some (so_next r), mod_ctr = c\<rparr>"
    let ?r = "\<lambda>c. r\<lparr>reg_allocs := al, fuse_modules := (mod_next r, ?m c) # fuse_modules r, mod_next := mod_next r + 1,
      so_heap := (so_heap r)(so_next r \<mapsto> 1), so_next := so_next r + 1\<rparr>"
    assume l: "fuse_load_so_module dl nm r = (0, ?r 0)"
    have "map (\<lambda>(j, m). (j, if j = mod_next r then m\<lparr>mod_ctr := mod_ctr m + 1\<rparr> else m)) (fuse_modules r) = fuse_modules r"
      using assms(1) by (intro map_idI) (auto simp: reg_ok_def)
    then have "fuse_find_module nm (?r 0) = (Some (mod_next r), ?r 1)"
      by (simp add: fuse_find_module_def upd_module_def)
    then have "fuse_get_module dl nm r = (Some (mod_next r), ?r 1)" by (simp add: fuse_get_module_def f l)
    moreover have "reg_ok (?r 1)" using add_ok [of "r\<lparr>reg_allocs := al\<rparr>" "?m 1" "(so_heap r)(so_next r \<mapsto> 1)" "so_next r + 1"] assms(1) by simp
    ultimately show ?thesis using assms(2) by (auto simp: loaded_in_def)
  qed
qed

text \<open>Giving modules back until none is left.\<close>

lemma put_loaded: "fuse_put_module i r = Some r' \<Longrightarrow> loaded_in A r \<Longrightarrow> loaded_in A r'"
proof -
  assume p: "fuse_put_module i r = Some r'" and a: "loaded_in A r"
  have u: "loaded_in A (upd_module i (\<lambda>m. m\<lparr>mod_ctr := c\<rparr>) r)" for c using a by (rule loaded_upd)
  show ?thesis
    using p by (auto simp: fuse_put_module_def Let_def fuse_unregister_module_def bind_eq_Some_conv split: if_splits option.splits
      intro: u loaded_sub [OF u])
qed

lemma put_modules_ends:
  "reg_ok r \<Longrightarrow> \<exists>r'. put_modules r = Some r' \<and> reg_ok r' \<and> fuse_modules r' = []"
proof (induction "uses (fuse_modules r)" arbitrary: r rule: less_induct)
  case less
  show ?case
  proof (cases "fuse_modules r")
    case Nil
    then show ?thesis using less.prems by (simp add: put_modules.simps)
  next
    case (Cons im ms)
    obtain i m where im: "im = (i, m)" by (cases im)
    obtain r1 where r1: "fuse_put_module i r = Some r1" "reg_ok r1" "uses (fuse_modules r1) < uses (fuse_modules r)"
      using put_ok [OF less.prems, of i] Cons im by auto
    then show ?thesis using less.hyps [OF r1(3) r1(2)] by (simp add: put_modules.simps [of r] Cons im)
  qed
qed

lemma reg_step_ok:
  assumes "reg_ok r" "loaded_in A r"
  shows "\<exists>r'. reg_step dl e r = Some r' \<and> reg_ok r' \<and> loaded_in (A \<union> names_asked e) r'"
proof (cases e)
  case (Builtin fac)
  have "loaded_in A (register_builtin fac r)"
    by (rule register_cases [of "''subdir''" fac None r]) (use assms(2) in \<open>auto simp: register_builtin_def loaded_in_def\<close>)
  then show ?thesis using builtin_ok [OF assms(1)] Builtin by (simp add: reg_step_def)
next
  case (Get nm)
  then show ?thesis using get_ok [OF assms, of dl nm] by (simp add: reg_step_def)
next
  case (Put i)
  then show ?thesis using put_ok [OF assms(1), of i] put_loaded [OF _ assms(2)] assms by (auto simp: reg_step_def)
next
  case Destroy
  then show ?thesis using put_modules_ends [OF assms(1)] by (auto simp: reg_step_def loaded_in_def)
qed

interpretation module_events: event_system "reg_step dl" "reg_steps dl" names_asked "\<lambda>A r. reg_ok r \<and> loaded_in A r" for dl
proof
  show "reg_ok r \<and> loaded_in A r \<Longrightarrow> \<exists>r'. reg_step dl e r = Some r' \<and> reg_ok r' \<and> loaded_in (A \<union> names_asked e) r'" for A r e
    using reg_step_ok by blast
qed simp_all

lemma fresh_registry: "reg_ok (empty_registry al) \<and> loaded_in {} (empty_registry al)"
  by (simp add: reg_ok_def mods_ok_def loaded_in_def empty_registry_def)

lemma reg_ok_open: "reg_ok r \<Longrightarrow> so_heap r s \<noteq> None \<longleftrightarrow> (\<exists>(i, m) \<in> set (fuse_modules r). mod_so m = Some s \<and> 0 < mod_ctr m)"
  using so_list_mem [of s "fuse_modules r"] by (fastforce simp: reg_ok_def mods_ok_def)


text \<open>
  Two deviations: ending one file system takes the modules of another one away, which gives its own back later; and
  a built-in module is not registered again by the next \<open>fuse_new\<close>, so it is looked for as a shared object.
\<close>

definition subdir_used :: "registry" where
  "subdir_used = empty_registry []\<lparr>fuse_modules := [(0, \<lparr>mod_name = ''subdir'', factory = 7, mod_so = None, mod_ctr = 1\<rparr>)],
     mod_next := 1, builtin_registered := True\<rparr>"

lemma subdir_use: "reg_steps dl [Builtin 7, Get ''subdir''] (empty_registry []) = Some subdir_used"
  by (simp add: reg_step_def register_builtin_def fuse_register_module_def reg_malloc_def empty_registry_def
      fuse_get_module_def fuse_find_module_def upd_module_def subdir_used_def)

lemma destroy_takes_used_module: "\<exists>r. reg_step dl Destroy subdir_used = Some r \<and> fuse_put_module 0 r = None"
proof -
  have d: "\<exists>r. put_modules subdir_used = Some r \<and> fuse_modules r = []"
    using put_modules_ends [of subdir_used] by (auto simp: reg_ok_def mods_ok_def subdir_used_def empty_registry_def)
  then show ?thesis by (auto simp: reg_step_def fuse_put_module_def)
qed

lemma builtin_stays_unregistered:
  "\<exists>r. reg_steps (\<lambda>_. None) [Builtin 7, Destroy, Builtin 7] (empty_registry []) = Some r \<and> fst (fuse_get_module (\<lambda>_. None) ''subdir'' r) = None"
  by (simp add: reg_step_def register_builtin_def fuse_register_module_def reg_malloc_def empty_registry_def
      put_modules.simps fuse_put_module_def fuse_unregister_module_def upd_module_def
      fuse_get_module_def fuse_find_module_def fuse_load_so_module_def)

end
