(* ===== verification/Spec2Isabelle.thy ===== *)
theory Spec2Isabelle
  imports FuseOpt Buffer LockTable NodeTable Slab NodeProps PathQueue Requests Listing Lookups Agreement InterruptRuns SessionLoop SubdirPaths LoopEnds SetupRuns CommandRuns ModuleRegistry
begin

text \<open>
  A verification library for the C code of modelfs.

  modelfs is a file system daemon in Zig.  Everything between the kernel and its callbacks is C: libfuse
  3.16.2, which the repository carries in \<open>src/.deps/libfuse3-3.16.2\<close>.  This library models that code; paths
  below are relative to that directory.  The callbacks of the daemon are a parameter, the record of functions
  \<open>fsys\<close>, and so are the system calls.

  \<^bold>\<open>The parts and how they fit.\<close>  A request arrives as bytes.  The low-level library
  (\<open>lib/fuse_lowlevel.c\<close>) decodes it and calls an operation; the high-level library (\<open>lib/fuse.c\<close>) is the
  file system behind these operations: it keeps a tree of nodes, turns node numbers into paths, locks the
  paths, calls the daemon and replies; the low-level library makes a message of the reply.

  \<^item> \<open>Prelude\<close>: C strings, error numbers, answers of allocations, lemmas on lists and options.
  \<^item> \<open>FuseOpt\<close>: the option parser \<open>lib/fuse_opt.c\<close>: argument vectors, templates, escaping, \<open>fuse_opt_parse\<close>.
  \<^item> \<open>Buffer\<close>: \<open>lib/buffer.c\<close>: vectors of buffers in memory and behind descriptors, and their copy.
  \<^item> \<open>LockTable\<close>: the POSIX locks of a node in \<open>lib/fuse.c\<close>, and what they mean byte by byte.
  \<^item> \<open>NodeTable\<close>, \<open>Slab\<close>: hash tables that grow and shrink step by step, and memory for nodes.
  \<^item> \<open>Nodes\<close>, \<open>NodeInv\<close>, \<open>NodeSpec\<close>, \<open>NodeOps\<close>, \<open>NodeProps\<close>: the tree of nodes, from its definitions over the
    invariant to what each operation does to the two abstract views, the name cache and the known nodes.
  \<^item> \<open>PathLock\<close>, \<open>PathQueue\<close>: paths of nodes, their locks and the queue of requests that wait for them.
  \<^item> \<open>FsOps\<close>, \<open>FsData\<close>: the calls of the daemon's operations (\<open>fuse_fs_*\<close>), reading and writing of data.
  \<^item> \<open>HighLevel\<close>, \<open>Handlers\<close>, \<open>FileHandlers\<close>, \<open>Dirs\<close>: the state of the library during a request and the
    handlers \<open>fuse_lib_*\<close> for names, files and directories.
  \<^item> \<open>Requests\<close>, \<open>Lookups\<close>, \<open>Listing\<close>: what handlers guarantee.
  \<^item> \<open>Wire\<close>: the layout of the kernel's messages, \<open>include/fuse_kernel.h\<close>.
  \<^item> \<open>Session\<close>, \<open>DataReply\<close>: the session of \<open>lib/fuse_i.h\<close>, requests and their reference counts, all the
    functions \<open>fuse_reply_*\<close> and \<open>fuse_lowlevel_notify_*\<close>, and replies through pipes.
  \<^item> \<open>Dispatch\<close>, \<open>Negotiate\<close>, \<open>Interrupts\<close>, \<open>Serve\<close>: the functions \<open>do_*\<close>, INIT, interrupts, and
    \<open>fuse_session_process_buf_int\<close> with the tables \<open>fuse_ll_ops\<close> and \<open>fuse_path_ops\<close>.
  \<^item> \<open>Roundtrip\<close>, \<open>EndToEnd\<close>, \<open>Agreement\<close>, \<open>InterruptRuns\<close>: what these guarantee together.
  \<^item> \<open>Receive\<close>, \<open>SessionLoop\<close>: the reads of the device, through a pipe or into memory, the loop
    \<open>fuse_session_loop\<close> around them, and what a run of it answers.
  \<^item> \<open>Workers\<close>, \<open>WorkerRuns\<close>, \<open>LoopEnds\<close>: the loop of several threads, \<open>lib/fuse_loop_mt.c\<close>, which is the one
    the daemon runs: its worker threads and the main thread as a step function \<open>take_turn\<close>, what holds in every
    interleaving, and when the loop ends.
  \<^item> \<open>Subdir\<close>, \<open>SubdirPaths\<close>: the module \<open>lib/modules/subdir.c\<close>, a file system in front of another one, and
    where its paths and links lead.

  \<^item> \<open>Posix\<close>, \<open>MountUtil\<close>, \<open>Mount\<close>, \<open>MountRuns\<close>: descriptors and system calls, and on them
    \<open>lib/mount_util.c\<close> and \<open>lib/mount.c\<close>: mount options, mounting and unmounting.
  \<^item> \<open>Setup\<close>, \<open>SetupRuns\<close>: \<open>fuse_session_new\<close> to \<open>fuse_session_destroy\<close> in \<open>lib/fuse_lowlevel.c\<close>, and the groups of
    a caller.
  \<^item> \<open>CommandLine\<close>, \<open>CommandRuns\<close>: \<open>lib/helper.c\<close> and \<open>lib/fuse_signals.c\<close>: options of a command line and of a
    connection, going into the background, signal handlers.
  \<^item> \<open>ModuleRegistry\<close>: the registry of stacked modules in \<open>lib/fuse.c\<close> and its counters.

  \<^bold>\<open>How state and control are modelled.\<close>  A struct is a record, a pointer to a heap object is its number and
  the heap a map (\<open>node_heap\<close> of \<open>fuse\<close>, \<open>req_heap\<close> of \<open>session\<close>), a ring or linked list is a HOL list.
  An operation takes the state and returns it.  The outer option of a result is \<open>None\<close> when the code
  fails an assertion, calls \<open>abort\<close>, follows a null pointer or one that was freed, or reads behind the end of
  a message; so a theorem that an operation is \<open>Some\<close> says that none of this happens.  Error codes are the
  integers of the code.  Answers of \<open>malloc\<close> are a list of flags consumed one by one, all good when used up,
  and every property holds for all of them.  Words have the width of the code (\<open>u32\<close>, \<open>u64\<close>) where a wrap-around
  can show; \<open>mod 2 ^ 64\<close> is written out where sizes are natural numbers.

  Threads interleave at the points where a lock is given up.  A handler that has to wait for a path is
  \<open>Waiting\<close> with the rest of its code; \<open>lock_step\<close> (\<open>PathQueue\<close>), \<open>tree_step\<close> (\<open>NodeProps\<close>),
  \<open>occur\<close> (\<open>InterruptRuns\<close>) and \<open>take_turn\<close> (\<open>Workers\<close>) are the step relations over which invariants are proved, for any number of threads.
  Loops are structural recursions over the lists they walk, or functions with a measure.  The loops that end
  only because the state is in order are \<open>partial_function\<close>s, without any fuel: the search for a free number
  (\<open>next_id\<close>) and for an unused hidden name, the climb to the root and back (\<open>path_loop\<close>, \<open>unlock_loop\<close>) and
  the growth of a path buffer; there \<open>None\<close> includes that the loop does not end, and the properties show
  that it does.

  \<^bold>\<open>What the lemmas show.\<close>
  \<^item> Data: the tables, the slabs, the locks and the tree keep their invariants, and each operation does to an
    abstract view (a multiset, a function from bytes to locks, a map of names) what it is meant to.
  \<^item> Concurrency: locks of paths are exclusive, waiting requests are served, giving back never fails;
    interrupts reach their requests and no request is freed twice or lost.
  \<^item> The interface to the kernel: what the kernel writes is what the file system is called with
    (\<open>Roundtrip\<close>); what is sent back is well-formed, goes out once and frees the request (\<open>EndToEnd\<close>); INIT
    agrees on what both sides can do (\<open>Agreement\<close>).
  \<^item> Both libraries together: a request that leaves the tree alone is answered by exactly one message
    (\<open>EndToEnd\<close>), and so is every one of the requests a run of the loop reads (\<open>SessionLoop\<close>); with several
    threads a request always finds a reader, and the loop ends when it is told to (\<open>LoopEnds\<close>); a lookup
    counts what its reply says (\<open>Lookups\<close>); a directory read page by page is listed once (\<open>Listing\<close>).
  \<^item> Stacked file systems: the module stays in its directory, gives back its memory, and links it changes
    lead to the same file (\<open>SubdirPaths\<close>).
  \<^item> Setting up: options are parsed without an internal error, a session starts in order, descriptors are given
    back (\<open>MountRuns\<close>, \<open>SetupRuns\<close>), the background process and the signals are as before (\<open>CommandRuns\<close>), and modules
    are closed when the last use ends (\<open>ModuleRegistry\<close>).
  \<^item> Deviations of the code from its purpose are theorems as well: a reply page that loses a lookup, an
    unlinked node that is lost, a buffer position that is not moved, a feature that is never requested, a
    request looked for behind a closed descriptor, a link that leaves the mount, a signal that the loop of
    several threads does not notice, a last reader that ends itself, a mount that succeeds with a closed
    descriptor, a descriptor that is closed twice, a search behind the end of a buffer, a pipe that stays open,
    modules that are taken away from another file system.

  \<^bold>\<open>Interfaces.\<close>  The locales are \<open>keyed_chains\<close> (a hash table and the order of its chains, for numbers
  and for names), \<open>node_memory\<close> (an allocator and its clients), \<open>opt_client\<close> (a client of the option parser and what it
  keeps of its struct; for the options of mounts, of sessions, of the module,
  of the command line and of connections) and \<open>event_system\<close> (runs of events that keep an
  invariant, for interrupts, for worker threads and for the registry of modules); each is interpreted on the model of the code.

  \<^bold>\<open>Not modelled.\<close>  \<open>fuse_main_real\<close>, \<open>fuse_new\<close> but for the tree it makes, logging and help texts, \<open>cuse_lowlevel.c\<close>, old
  entry points: text output, code the daemon does not run, or code that only calls what is modelled.  The value of
  \<open>errno\<close> after a call stands in the answer of the call.  Debug output is left out everywhere.  In \<open>Serve\<close> a
  pipe is not emptied after a write that left data in it.  \<open>InterruptRuns\<close> has no cloned devices.  The Zig
  code of the daemon is outside this library.
\<close>

end
